(* ===== verification/Prelude.thy ===== *)
theory Prelude
  imports Main "HOL-Library.Word" "HOL-Library.Signed_Division" "HOL-Library.AList"
begin

text \<open>
  What the component theories share: the machine integer types, Rust's checked integer
  operations and the \<open>Vec\<close> operations the passes use, generic facts on lists and on
  indexed rewriting, and the contract of a rewriting loop that shrinks its state
  (\<open>shrinking_loop\<close>), which every fixed-point loop of the middle end is an instance of.
\<close>

section \<open>Machine types\<close>

text \<open>
  A Rust \<open>i64\<close> is a 64-bit word read by \<open>sint\<close>; an \<open>f64\<close> is carried as its bit
  pattern, the passes never compute with one. A \<open>usize\<close> that counts blocks, values or
  bytes is a \<open>nat\<close>.
\<close>

type_synonym i64 = "64 word"
type_synonym f64 = "64 word"
type_synonym usize = nat

named_theorems pass_simps \<open>equations of the passes that unfold one step of a rewrite\<close>
named_theorems shape_simps \<open>what a rewrite keeps of the shape of a function\<close>

section \<open>Checked integer arithmetic\<close>

definition i64_min :: int where "i64_min = - (2 ^ 63)"
definition i64_max :: int where "i64_max = 2 ^ 63 - 1"

definition in_i64 :: "int \<Rightarrow> bool" where
  "in_i64 x \<longleftrightarrow> i64_min \<le> x \<and> x \<le> i64_max"

text \<open>
  \<open>checked_add\<close>, \<open>checked_sub\<close> and \<open>checked_mul\<close> answer \<open>None\<close> on signed
  overflow; \<open>checked_div\<close> and \<open>checked_rem\<close> also on a zero divisor. Rust's division
  truncates towards zero, which is \<open>sdiv\<close> and \<open>smod\<close> on \<open>int\<close>.
\<close>

definition checked_i64 :: "int \<Rightarrow> i64 option" where
  "checked_i64 x = (if in_i64 x then Some (word_of_int x) else None)"

definition checked_add :: "i64 \<Rightarrow> i64 \<Rightarrow> i64 option" where
  "checked_add a b = checked_i64 (sint a + sint b)"

definition checked_sub :: "i64 \<Rightarrow> i64 \<Rightarrow> i64 option" where
  "checked_sub a b = checked_i64 (sint a - sint b)"

definition checked_mul :: "i64 \<Rightarrow> i64 \<Rightarrow> i64 option" where
  "checked_mul a b = checked_i64 (sint a * sint b)"

definition checked_div :: "i64 \<Rightarrow> i64 \<Rightarrow> i64 option" where
  "checked_div a b = (if b = 0 then None else checked_i64 (sint a sdiv sint b))"

definition checked_rem :: "i64 \<Rightarrow> i64 \<Rightarrow> i64 option" where
  "checked_rem a b =
     (if b = 0 \<or> (sint a = i64_min \<and> sint b = -1) then None
      else checked_i64 (sint a smod sint b))"

lemma sint_i64_range [simp]: "in_i64 (sint (a :: i64))"
  using sint_ge [of a] sint_lt [of a] by (simp add: in_i64_def i64_min_def i64_max_def)

lemma sint_word_of_int_i64: "in_i64 x \<Longrightarrow> sint (word_of_int x :: i64) = x"
  by (simp add: in_i64_def i64_min_def i64_max_def signed_take_bit_int_eq_self sint_sbintrunc')

lemma checked_i64_Some: "checked_i64 x = Some v \<Longrightarrow> sint v = x"
  by (auto simp: checked_i64_def sint_word_of_int_i64 split: if_splits)

lemma checked_i64_word: "checked_i64 x = Some v \<Longrightarrow> v = word_of_int x"
  by (auto simp: checked_i64_def split: if_splits)

section \<open>Vectors\<close>

text \<open>\<open>Vec::remove\<close> panics out of range: \<open>None\<close>.\<close>

definition vec_remove :: "usize \<Rightarrow> 'a list \<Rightarrow> 'a list option" where
  "vec_remove i xs = (if i < length xs then Some (take i xs @ drop (Suc i) xs) else None)"

lemma vec_remove_length [simp]: "vec_remove (length xs) (xs @ x # ys) = Some (xs @ ys)"
  by (simp add: vec_remove_def)

lemma find_Some_mem: "find P xs = Some x \<Longrightarrow> x \<in> set xs \<and> P x"
  by (induction xs) (auto split: if_splits)

lemma find_map_cong:
  "(\<And>x. x \<in> set xs \<Longrightarrow> P (f x) = P x) \<Longrightarrow> find P (map f xs) = map_option f (find P xs)"
  by (induction xs) auto

lemma sum_list_map_le:
  "(\<And>x. x \<in> set xs \<Longrightarrow> (f x :: nat) \<le> g x) \<Longrightarrow> sum_list (map f xs) \<le> sum_list (map g xs)"
  by (induction xs) (auto simp: add_mono)

lemma sum_list_map_less:
  assumes "\<And>x. x \<in> set xs \<Longrightarrow> (f x :: nat) \<le> g x" and "x \<in> set xs" and "f x < g x"
  shows "sum_list (map f xs) < sum_list (map g xs)"
  using assms
proof (induction xs)
  case (Cons y ys)
  show ?case
  proof (cases "f y < g y")
    case True
    with Cons.prems(1) show ?thesis
      by (simp add: add_less_le_mono sum_list_map_le)
  next
    case False
    with Cons show ?thesis by (auto intro: add_le_less_mono)
  qed
qed simp

text \<open>How Rust prints an unsigned integer.\<close>

fun decimal :: "nat \<Rightarrow> string" where
  "decimal n = (if n < 10 then [] else decimal (n div 10)) @ [char_of (48 + n mod 10)]"

declare decimal.simps [simp del]

section \<open>Hash maps\<close>

text \<open>A hash map is an association list with distinct keys, in insertion order; \<open>entry\<close> with
  a default is \<open>map_default\<close>. A hash set is a list without repetition.\<close>

type_synonym ('k, 'v) hash_map = "('k \<times> 'v) list"

definition entry_set :: "('k, 'v list) hash_map \<Rightarrow> 'k \<Rightarrow> 'v set" where
  "entry_set r k = (case map_of r k of None \<Rightarrow> {} | Some xs \<Rightarrow> set xs)"

lemma entry_set_map_default:
  "entry_set (AList.map_default k [v] (List.insert v) r) k' =
     (if k' = k then insert v (entry_set r k) else entry_set r k')"
  by (auto simp: entry_set_def AList.map_of_map_default split: option.splits)

lemma entry_set_group:
  "entry_set (fold (\<lambda>(k, v). AList.map_default k [v] (List.insert v)) ps r) k =
     entry_set r k \<union> {v. (k, v) \<in> set ps}"
  by (induction ps arbitrary: r) (auto simp: entry_set_map_default split: if_splits)

lemma entry_set_group_nested:
  "entry_set (fold (\<lambda>x. fold (\<lambda>k. AList.map_default k [v x] (List.insert (v x))) (h x)) xs []) k =
     {v x | x. x \<in> set xs \<and> k \<in> set (h x)}"
proof -
  have "fold (\<lambda>x. fold (\<lambda>k. AList.map_default k [v x] (List.insert (v x))) (h x)) xs =
    fold (\<lambda>(k, w). AList.map_default k [w] (List.insert w)) (concat (map (\<lambda>x. map (\<lambda>k. (k, v x)) (h x)) xs))"
    by (induction xs) (simp_all add: fold_map comp_def)
  then show ?thesis by (auto simp: entry_set_group) (auto simp: entry_set_def)
qed

section \<open>Loops that run to a fixed point\<close>

text \<open>
  The passes share one loop: compute the rewrites the current state allows, stop when there
  are none, apply them, repeat. \<open>step\<close> is one round (\<open>None\<close>: nothing to do), \<open>loop\<close>
  the loop, \<open>weight\<close> a number every round makes smaller. A component gives the three and
  gets that its loop ends in a state with nothing left to do, and what every round keeps.
\<close>

locale shrinking_loop =
  fixes step :: "'a \<Rightarrow> 'a option"
    and weight :: "'a \<Rightarrow> nat"
    and loop :: "'a \<Rightarrow> 'a"
  assumes shrink: "step x = Some y \<Longrightarrow> weight y < weight x"
    and unfold_loop: "loop x = (case step x of None \<Rightarrow> x | Some y \<Rightarrow> loop y)"
begin

lemma loop_induct:
  assumes finish: "\<And>x. step x = None \<Longrightarrow> P x"
    and round: "\<And>x y. step x = Some y \<Longrightarrow> P y \<Longrightarrow> P x"
  shows "P x"
proof (induction "weight x" arbitrary: x rule: less_induct)
  case less
  show ?case
  proof (cases "step x")
    case None
    then show ?thesis by (rule finish)
  next
    case (Some y)
    then show ?thesis using less shrink round by blast
  qed
qed

lemma loop_stable: "step (loop x) = None"
proof (induction x rule: loop_induct)
  case (1 x)
  then show ?case by (subst unfold_loop) simp
next
  case (2 x y)
  then show ?case by (subst unfold_loop) simp
qed

lemma loop_done: "step x = None \<Longrightarrow> loop x = x"
  by (subst unfold_loop) simp

lemma loop_round: "step x = Some y \<Longrightarrow> loop x = loop y"
  by (subst unfold_loop) simp

lemma loop_idem: "loop (loop x) = loop x"
  by (rule loop_done) (rule loop_stable)

lemma weight_loop: "weight (loop x) \<le> weight x"
proof (induction x rule: loop_induct)
  case (2 x y)
  then show ?case using shrink loop_round by fastforce
qed (simp add: loop_done)

lemma loop_fixed_iff: "loop x = x \<longleftrightarrow> step x = None"
proof
  assume "loop x = x"
  then show "step x = None" using loop_stable [of x] by simp
qed (rule loop_done)

lemma loop_invariant:
  assumes "P x" and keep: "\<And>x y. P x \<Longrightarrow> step x = Some y \<Longrightarrow> P y"
  shows "P (loop x)"
  using assms(1)
proof (induction x rule: loop_induct)
  case (2 x y)
  then show ?case using keep loop_round by fastforce
qed (simp add: loop_done)

lemma loop_preserves:
  assumes keep: "\<And>x y. step x = Some y \<Longrightarrow> f y = f x"
  shows "f (loop x) = f x"
  by (rule loop_invariant [where P = "\<lambda>y. f y = f x"]) (simp_all add: keep)

end

end
