(* ===== verification/IR.thy ===== *)
theory IR
  imports Prelude
begin

text \<open>
  The intermediate representation, \<open>src/midend/src/ir.rs\<close>: types, SSA values,
  instructions, terminators, blocks, functions and modules, with the operations the Rust
  structs have. The instruction enum is split into the sections its source comments mark
  (arithmetic, comparisons, logical, memory, calls, coroutines, moves, constants,
  conversions); every constructor keeps its name and its fields in source order.
\<close>

section \<open>Types\<close>

datatype int_width = I8 | I16 | I32 | I64 | Isize | Usize
datatype float_width = F32 | F64

datatype ir_type =
    TUnknown
  | TVoid
  | TInt
  | TFloat
  | TExactInt (et_signed: bool) int_width
  | TExactFloat float_width
  | TBool
  | TString
  | TChar
  | TPointer ir_type
  | TArray ir_type usize
  | TTuple "ir_type list"
  | TStruct string "(string \<times> ir_type) list"
  | TEnum string "(string \<times> ir_type list option) list"
  | TGeneric string "ir_type list" ir_type
  | TFunction "ir_type list" ir_type
  | TTask ir_type
  | TRange
  | TTensor ir_type "usize option" "usize option list option" "string option" "string option"
  | TDynTrait string "string list"

fun is_numeric :: "ir_type \<Rightarrow> bool" where
  "is_numeric TInt = True"
| "is_numeric TFloat = True"
| "is_numeric (TExactInt _ _) = True"
| "is_numeric (TExactFloat _) = True"
| "is_numeric _ = False"

fun is_integer :: "ir_type \<Rightarrow> bool" where
  "is_integer TInt = True"
| "is_integer (TExactInt _ _) = True"
| "is_integer _ = False"

fun is_bool :: "ir_type \<Rightarrow> bool" where
  "is_bool TBool = True"
| "is_bool _ = False"

section \<open>Values and instructions\<close>

datatype ssa_value = Value (vid: usize)

definition INVALID_ID :: usize where
  "INVALID_ID = 2 ^ 64 - 1"

definition invalid_value :: ssa_value where
  "invalid_value = Value INVALID_ID"

datatype array_bound =
    Static usize
  | Dynamic ssa_value

record source_span =
  sp_file :: string
  sp_start_line :: nat
  sp_start_column :: nat
  sp_end_line :: nat
  sp_end_column :: nat

text \<open>Operand order: result first, then the operands, then the flags, as in the source.\<close>

datatype arith_kind =
    Add ssa_value ssa_value ssa_value
  | Sub ssa_value ssa_value ssa_value
  | Mul ssa_value ssa_value ssa_value
  | Div ssa_value ssa_value ssa_value bool
  | Rem ssa_value ssa_value ssa_value bool
  | BitAnd ssa_value ssa_value ssa_value
  | BitOr ssa_value ssa_value ssa_value
  | BitXor ssa_value ssa_value ssa_value
  | Shl ssa_value ssa_value ssa_value
  | Shr ssa_value ssa_value ssa_value bool

datatype compare_kind =
    Eq ssa_value ssa_value ssa_value
  | Ne ssa_value ssa_value ssa_value
  | Lt ssa_value ssa_value ssa_value bool
  | Le ssa_value ssa_value ssa_value bool
  | Gt ssa_value ssa_value ssa_value bool
  | Ge ssa_value ssa_value ssa_value bool

datatype logical_kind =
    And ssa_value ssa_value ssa_value
  | Or ssa_value ssa_value ssa_value
  | Not ssa_value ssa_value

datatype memory_kind =
    Alloca ssa_value ir_type
  | GlobalAddr ssa_value string ir_type
  | ManualAlloc ssa_value i64
  | EscapeManualAlloc ssa_value
  | Load ssa_value ssa_value ir_type
  | Store ssa_value ssa_value
  | GetElementPtr ssa_value ssa_value ssa_value ir_type "array_bound option"
  | FieldPtr ssa_value ssa_value i64

datatype call_kind =
    Call "ssa_value option" string "ssa_value list" bool
  | HostCall "ssa_value option" string "ssa_value list" "ir_type option"
  | AutodiffStep "ssa_value option" string ssa_value "ssa_value option" "ssa_value list" "ssa_value list"
  | FuncAddr ssa_value string
  | CallIndirect "ssa_value option" ssa_value "ssa_value list" "ir_type list" ir_type

datatype async_kind =
    Await ssa_value ssa_value ir_type
  | FrameAlloc ssa_value string usize
  | FrameStore ssa_value usize ssa_value bool
  | FrameLoad ssa_value ssa_value usize ir_type
  | StateLoad ssa_value ssa_value
  | StateStore ssa_value usize
  | CoroutineCreate ssa_value ssa_value string string ir_type
  | CoroutinePollChild ssa_value "ssa_value option" ssa_value ir_type
  | CoroutineSubscribe ssa_value ssa_value
  | CoroutineWake ssa_value
  | CoroutineSuspend ssa_value usize
  | CoroutineComplete ssa_value "ssa_value option"
  | CoroutineError ssa_value "ssa_value option"
  | CoroutineCancelled ssa_value
  | CoroutinePollReturn ssa_value
  | AsyncReady ssa_value "ssa_value option" ir_type

datatype move_kind =
    Phi ssa_value "(ssa_value \<times> usize) list"
  | Copy ssa_value ssa_value

datatype const_kind =
    ConstInt ssa_value i64
  | ConstIntTyped ssa_value i64 ir_type
  | ConstFloat ssa_value f64
  | ConstFloatTyped ssa_value f64 ir_type
  | ConstBool ssa_value bool
  | ConstString ssa_value string

datatype conv_kind =
    Cast ssa_value ssa_value ir_type ir_type
  | MakeDynFatPtr ssa_value ssa_value ssa_value
  | LoadDynDataPtr ssa_value ssa_value
  | LoadDynVtablePtr ssa_value ssa_value
  | LoadVtableSlot ssa_value ssa_value usize

datatype instruction_kind =
    Arith arith_kind
  | Compare compare_kind
  | Logical logical_kind
  | Memory memory_kind
  | Calls call_kind
  | Async async_kind
  | Move move_kind
  | Const const_kind
  | Conv conv_kind

datatype terminator =
    Return "ssa_value option"
  | Branch usize
  | CondBranch ssa_value usize usize
  | Switch ssa_value "(i64 \<times> usize) list" usize
  | Unreachable

datatype ir_constant = CInt i64 | CFloat f64 | CBool bool | CString string | CChar nat | CNull

section \<open>Blocks, functions and modules\<close>

record instruction =
  i_id :: usize
  i_kind :: instruction_kind
  i_span :: "source_span option"

record basic_block =
  b_id :: usize
  b_label :: string
  b_instructions :: "instruction list"
  b_terminator :: "terminator option"

record parameter =
  p_id :: usize
  p_name :: string
  p_ty :: ir_type

record local_debug_info =
  l_name :: string
  l_ty :: ir_type
  l_value_id :: "usize option"
  l_declaration :: "source_span option"
  l_scope_start :: "source_span option"
  l_scope_end :: "source_span option"

record async_frame_slot =
  s_id :: usize
  s_name :: string
  s_ty :: ir_type

record async_state =
  st_id :: usize
  st_resume_block :: usize
  st_await_slot :: "usize option"

record async_coroutine_layout =
  a_poll_name :: string
  a_drop_name :: string
  a_output_type :: ir_type
  a_frame_slots :: "async_frame_slot list"
  a_source_slots :: "async_frame_slot list"
  a_states :: "async_state list"
  a_poll_params :: "ir_type list"
  a_status_pending :: i64
  a_status_ready :: i64
  a_status_failed :: i64
  a_status_cancelled :: i64

record ir_function =
  f_name :: string
  f_params :: "parameter list"
  f_return_type :: ir_type
  f_blocks :: "basic_block list"
  f_next_value_id :: usize
  f_next_block_id :: usize
  f_source_span :: "source_span option"
  f_locals :: "local_debug_info list"
  f_async_layout :: "async_coroutine_layout option"
  f_suspension_barrier :: bool

record external_function =
  x_name :: string
  x_params :: "ir_type list"
  x_return_type :: ir_type

record global =
  g_id :: usize
  g_name :: string
  g_ty :: ir_type
  g_is_mutable :: bool
  g_initializer :: "ir_constant option"

record ir_module =
  m_name :: string
  m_functions :: "ir_function list"
  m_external_functions :: "external_function list"
  m_globals :: "global list"
  m_source_file :: "string option"

definition new_module :: "string \<Rightarrow> ir_module" where
  "new_module n = \<lparr>m_name = n, m_functions = [], m_external_functions = [], m_globals = [],
     m_source_file = None\<rparr>"

definition add_function :: "ir_module \<Rightarrow> ir_function \<Rightarrow> ir_module" where
  "add_function m f = m\<lparr>m_functions := m_functions m @ [f]\<rparr>"

definition get_function :: "ir_module \<Rightarrow> string \<Rightarrow> ir_function option" where
  "get_function m n = find (\<lambda>f. f_name f = n) (m_functions m)"

definition new_function :: "string \<Rightarrow> parameter list \<Rightarrow> ir_type \<Rightarrow> ir_function" where
  "new_function n ps ty = \<lparr>f_name = n, f_params = ps, f_return_type = ty, f_blocks = [],
     f_next_value_id = length ps, f_next_block_id = 0, f_source_span = None, f_locals = [],
     f_async_layout = None, f_suspension_barrier = False\<rparr>"

definition add_block :: "ir_function \<Rightarrow> string \<Rightarrow> ir_function \<times> usize" where
  "add_block f label =
     (let i = f_next_block_id f
      in (f\<lparr>f_next_block_id := i + 1,
            f_blocks := f_blocks f @ [\<lparr>b_id = i, b_label = label, b_instructions = [],
                                       b_terminator = None\<rparr>]\<rparr>, i))"

definition get_block :: "ir_function \<Rightarrow> usize \<Rightarrow> basic_block option" where
  "get_block f i = find (\<lambda>b. b_id b = i) (f_blocks f)"

text \<open>\<open>get_block_mut\<close> hands out the first block with the id; what the caller does with it
  is the function \<open>g\<close>.\<close>

fun update_first :: "('a \<Rightarrow> bool) \<Rightarrow> ('a \<Rightarrow> 'a) \<Rightarrow> 'a list \<Rightarrow> 'a list" where
  "update_first P g [] = []"
| "update_first P g (x # xs) = (if P x then g x # xs else x # update_first P g xs)"

definition with_block_mut :: "ir_function \<Rightarrow> usize \<Rightarrow> (basic_block \<Rightarrow> basic_block) \<Rightarrow> ir_function" where
  "with_block_mut f i g = f\<lparr>f_blocks := update_first (\<lambda>b. b_id b = i) g (f_blocks f)\<rparr>"

definition next_value :: "ir_function \<Rightarrow> ir_function \<times> ssa_value" where
  "next_value f = (let i = f_next_value_id f in (f\<lparr>f_next_value_id := i + 1\<rparr>, Value i))"

definition add_instruction :: "basic_block \<Rightarrow> instruction_kind \<Rightarrow> basic_block \<times> usize" where
  "add_instruction b k =
     (let i = length (b_instructions b)
      in (b\<lparr>b_instructions := b_instructions b @ [\<lparr>i_id = i, i_kind = k, i_span = None\<rparr>]\<rparr>, i))"

definition set_terminator :: "basic_block \<Rightarrow> terminator \<Rightarrow> basic_block" where
  "set_terminator b t = b\<lparr>b_terminator := Some t\<rparr>"

section \<open>Shared vocabulary\<close>

text \<open>Names for the parts of a function the lemmas talk about.\<close>

definition block_kinds :: "basic_block \<Rightarrow> instruction_kind list" where
  "block_kinds b = map i_kind (b_instructions b)"

definition function_kinds :: "ir_function \<Rightarrow> instruction_kind list" where
  "function_kinds f = concat (map block_kinds (f_blocks f))"

definition map_blocks :: "(basic_block \<Rightarrow> basic_block) \<Rightarrow> ir_function \<Rightarrow> ir_function" where
  "map_blocks g f = f\<lparr>f_blocks := map g (f_blocks f)\<rparr>"

definition block_ids :: "ir_function \<Rightarrow> usize list" where
  "block_ids f = map b_id (f_blocks f)"

lemma vid_Value: "vid (Value i) = i"
  by simp

lemma function_kinds_map_blocks:
  "function_kinds (map_blocks g f) = concat (map (block_kinds \<circ> g) (f_blocks f))"
  by (simp add: function_kinds_def map_blocks_def)

lemma map_blocks_id: "(\<And>b. b \<in> set (f_blocks f) \<Longrightarrow> g b = b) \<Longrightarrow> map_blocks g f = f"
  by (simp add: map_blocks_def map_idI)

lemma map_blocks_comp: "map_blocks g (map_blocks h f) = map_blocks (g \<circ> h) f"
  by (simp add: map_blocks_def)

lemma map_blocks_sel [simp]:
  "f_name (map_blocks g f) = f_name f"
  "f_params (map_blocks g f) = f_params f"
  "f_return_type (map_blocks g f) = f_return_type f"
  "f_blocks (map_blocks g f) = map g (f_blocks f)"
  "f_next_value_id (map_blocks g f) = f_next_value_id f"
  "f_next_block_id (map_blocks g f) = f_next_block_id f"
  "f_suspension_barrier (map_blocks g f) = f_suspension_barrier f"
  by (simp_all add: map_blocks_def)

lemma get_block_map_blocks:
  "(\<And>b. b_id (g b) = b_id b) \<Longrightarrow> get_block (map_blocks g f) i = map_option g (get_block f i)"
  by (simp add: get_block_def find_map_cong)

lemma get_block_Some: "get_block f i = Some b \<Longrightarrow> b \<in> set (f_blocks f) \<and> b_id b = i"
  unfolding get_block_def using find_Some_mem by fastforce

lemmas kind_splits = instruction_kind.splits arith_kind.splits compare_kind.splits
  logical_kind.splits memory_kind.splits call_kind.splits async_kind.splits move_kind.splits
  const_kind.splits conv_kind.splits

section \<open>Literal functions\<close>

text \<open>Functions written down block by block, for the concrete instances of the theorems.\<close>

definition literal_block :: "usize \<Rightarrow> instruction_kind list \<Rightarrow> terminator \<Rightarrow> basic_block" where
  "literal_block i ks t = \<lparr>b_id = i, b_label = ''bb'',
     b_instructions = map (\<lambda>(n, k). \<lparr>i_id = n, i_kind = k, i_span = None\<rparr>) (enumerate 0 ks),
     b_terminator = Some t\<rparr>"

definition literal_function :: "string \<Rightarrow> parameter list \<Rightarrow> ir_type \<Rightarrow> usize \<Rightarrow> basic_block list \<Rightarrow> ir_function" where
  "literal_function n ps ty next bs = (new_function n ps ty)
     \<lparr>f_blocks := bs, f_next_value_id := next, f_next_block_id := length bs\<rparr>"

definition literal_module :: "ir_function list \<Rightarrow> ir_module" where
  "literal_module fs = (new_module ''sample'')\<lparr>m_functions := fs\<rparr>"

lemma block_kinds_literal_block [simp]: "block_kinds (literal_block i ks t) = ks"
proof -
  have "map snd (enumerate n ks) = ks" for n by simp
  then show ?thesis by (simp add: block_kinds_def literal_block_def case_prod_beta comp_def)
qed

lemma literal_block_sel [simp]:
  "b_id (literal_block i ks t) = i" "b_terminator (literal_block i ks t) = Some t"
  by (simp_all add: literal_block_def)

lemma literal_function_sel [simp]:
  "f_name (literal_function n ps ty next bs) = n" "f_params (literal_function n ps ty next bs) = ps"
  "f_return_type (literal_function n ps ty next bs) = ty"
  "f_blocks (literal_function n ps ty next bs) = bs"
  "f_next_value_id (literal_function n ps ty next bs) = next"
  "f_next_block_id (literal_function n ps ty next bs) = length bs"
  "f_suspension_barrier (literal_function n ps ty next bs) = False"
  by (simp_all add: literal_function_def new_function_def)

lemma literal_module_sel [simp]: "m_functions (literal_module fs) = fs" "m_external_functions (literal_module fs) = []"
  by (simp_all add: literal_module_def new_module_def)

end
