(* ===== verification/Constant_Folding.thy ===== *)
theory Constant_Folding
  imports IR
begin

text \<open>
  The constant folding pass, \<open>src/midend/src/passes/constant_folding.rs\<close>. The pass works
  on one function at a time: it collects the constants the function defines, records which
  instructions fold to a constant, rewrites them in place by index, and repeats until there
  is nothing to rewrite. The lemmas give the arithmetic meaning of every fold, that the
  indexed rewriting is a map over the blocks, that the loop ends and what it leaves behind.
\<close>

section \<open>Constants and folds\<close>

datatype known_constant =
    KInt i64 "ir_type option"
  | KBool bool

datatype int_op = OpAdd | OpSub | OpMul | OpDiv | OpRem

type_synonym constants = "usize \<rightharpoonup> known_constant"

definition int_type_range :: "ir_type \<Rightarrow> (int \<times> int) option" where
  "int_type_range ty = (case ty of
     TInt \<Rightarrow> Some (i64_min, i64_max)
   | TExactInt sg width \<Rightarrow> Some (case width of
       I8 \<Rightarrow> if sg then (-128, 127) else (0, 255)
     | I16 \<Rightarrow> if sg then (-32768, 32767) else (0, 65535)
     | I32 \<Rightarrow> if sg then (-2147483648, 2147483647) else (0, 4294967295)
     | I64 \<Rightarrow> if sg then (i64_min, i64_max) else (0, i64_max)
     | Isize \<Rightarrow> if sg then (i64_min, i64_max) else (0, i64_max)
     | Usize \<Rightarrow> (0, i64_max))
   | TChar \<Rightarrow> Some (0, 0x10FFFF)
   | TBool \<Rightarrow> Some (0, 1)
   | _ \<Rightarrow> None)"

definition value_fits_int_type :: "i64 \<Rightarrow> ir_type \<Rightarrow> bool" where
  "value_fits_int_type v ty = (case int_type_range ty of
     Some (lo, hi) \<Rightarrow> lo \<le> sint v \<and> sint v \<le> hi
   | None \<Rightarrow> False)"

definition checked_op :: "int_op \<Rightarrow> i64 \<Rightarrow> i64 \<Rightarrow> i64 option" where
  "checked_op op a b = (case op of
     OpAdd \<Rightarrow> checked_add a b
   | OpSub \<Rightarrow> checked_sub a b
   | OpMul \<Rightarrow> checked_mul a b
   | OpDiv \<Rightarrow> checked_div a b
   | OpRem \<Rightarrow> checked_rem a b)"

definition fold_int_binop ::
    "constants \<Rightarrow> ssa_value \<Rightarrow> ssa_value \<Rightarrow> int_op \<Rightarrow> bool \<Rightarrow> known_constant option" where
  "fold_int_binop cs l r op uns =
     (case (cs (vid l), cs (vid r)) of
        (Some (KInt a lty), Some (KInt b rty)) \<Rightarrow>
          (if lty \<noteq> rty then None
           else if uns \<and> (sint a < 0 \<or> sint b < 0) then None
           else case checked_op op a b of
                  None \<Rightarrow> None
                | Some v \<Rightarrow>
                    (case lty of
                       None \<Rightarrow> Some (KInt v None)
                     | Some ty \<Rightarrow>
                         if \<not> value_fits_int_type a ty \<or> \<not> value_fits_int_type b ty
                            \<or> \<not> value_fits_int_type v ty
                         then None else Some (KInt v (Some ty))))
      | _ \<Rightarrow> None)"

definition fold_bool_binop :: "constants \<Rightarrow> ssa_value \<Rightarrow> ssa_value \<Rightarrow> bool \<Rightarrow> known_constant option" where
  "fold_bool_binop cs l r and_op =
     (case (cs (vid l), cs (vid r)) of
        (Some (KBool a), Some (KBool b)) \<Rightarrow> Some (KBool (if and_op then a \<and> b else a \<or> b))
      | _ \<Rightarrow> None)"

section \<open>One round\<close>

definition add_constant :: "instruction_kind \<Rightarrow> constants \<Rightarrow> constants" where
  "add_constant k cs = (case k of
     Const (ConstInt r v) \<Rightarrow> cs(vid r \<mapsto> KInt v None)
   | Const (ConstIntTyped r v ty) \<Rightarrow> cs(vid r \<mapsto> KInt v (Some ty))
   | Const (ConstBool r v) \<Rightarrow> cs(vid r \<mapsto> KBool v)
   | _ \<Rightarrow> cs)"

definition collect_constants :: "ir_function \<Rightarrow> constants" where
  "collect_constants f = fold add_constant (function_kinds f) Map.empty"

definition folded_value :: "constants \<Rightarrow> instruction_kind \<Rightarrow> known_constant option" where
  "folded_value cs k = (case k of
     Arith (Add _ l r) \<Rightarrow> fold_int_binop cs l r OpAdd False
   | Arith (Sub _ l r) \<Rightarrow> fold_int_binop cs l r OpSub False
   | Arith (Mul _ l r) \<Rightarrow> fold_int_binop cs l r OpMul False
   | Arith (Div _ l r u) \<Rightarrow> fold_int_binop cs l r OpDiv u
   | Arith (Rem _ l r u) \<Rightarrow> fold_int_binop cs l r OpRem u
   | Logical (And _ l r) \<Rightarrow> fold_bool_binop cs l r True
   | Logical (Or _ l r) \<Rightarrow> fold_bool_binop cs l r False
   | Logical (Not _ opr) \<Rightarrow>
       (case cs (vid opr) of Some (KBool v) \<Rightarrow> Some (KBool (\<not> v)) | _ \<Rightarrow> None)
   | _ \<Rightarrow> None)"

definition get_result :: "instruction_kind \<Rightarrow> ssa_value option" where
  "get_result k = (case k of
     Arith (Add r _ _) \<Rightarrow> Some r | Arith (Sub r _ _) \<Rightarrow> Some r | Arith (Mul r _ _) \<Rightarrow> Some r
   | Arith (Div r _ _ _) \<Rightarrow> Some r | Arith (Rem r _ _ _) \<Rightarrow> Some r
   | Arith (BitAnd r _ _) \<Rightarrow> Some r | Arith (BitOr r _ _) \<Rightarrow> Some r
   | Arith (BitXor r _ _) \<Rightarrow> Some r | Arith (Shl r _ _) \<Rightarrow> Some r
   | Arith (Shr r _ _ _) \<Rightarrow> Some r
   | Logical (And r _ _) \<Rightarrow> Some r | Logical (Or r _ _) \<Rightarrow> Some r
   | Logical (Not r _) \<Rightarrow> Some r
   | _ \<Rightarrow> None)"

definition constant_instruction :: "ssa_value \<Rightarrow> known_constant \<Rightarrow> instruction_kind" where
  "constant_instruction r c = (case c of
     KInt v None \<Rightarrow> Const (ConstInt r v)
   | KInt v (Some ty) \<Rightarrow> Const (ConstIntTyped r v ty)
   | KBool v \<Rightarrow> Const (ConstBool r v))"

type_synonym replacement = "usize \<times> usize \<times> known_constant"

definition collect_replacements :: "constants \<Rightarrow> basic_block list \<Rightarrow> replacement list" where
  "collect_replacements cs bs =
     concat (map (\<lambda>(bi, b).
       concat (map (\<lambda>(ii, i).
         case folded_value cs (i_kind i) of None \<Rightarrow> [] | Some v \<Rightarrow> [(bi, ii, v)])
         (enumerate 0 (b_instructions b))))
       (enumerate 0 bs))"

text \<open>One replacement: \<open>get_mut\<close> on both indices, then the rewrite of the instruction's
  kind; the flag records whether anything was rewritten.\<close>

definition apply_replacement ::
    "replacement \<Rightarrow> basic_block list \<times> bool \<Rightarrow> basic_block list \<times> bool" where
  "apply_replacement = (\<lambda>(bi, ii, v) (bs, modified).
     if bi < length bs then
       let b = bs ! bi in
       if ii < length (b_instructions b) then
         let i = b_instructions b ! ii in
         case get_result (i_kind i) of
           None \<Rightarrow> (bs, modified)
         | Some r \<Rightarrow>
             (bs[bi := b\<lparr>b_instructions :=
                (b_instructions b)[ii := i\<lparr>i_kind := constant_instruction r v\<rparr>]\<rparr>], True)
       else (bs, modified)
     else (bs, modified))"

definition fold_round :: "ir_function \<times> bool \<Rightarrow> (ir_function \<times> bool) option" where
  "fold_round = (\<lambda>(f, modified).
     let reps = collect_replacements (collect_constants f) (f_blocks f)
     in if reps = [] then None
        else let (bs, modified') = fold apply_replacement reps (f_blocks f, modified)
             in Some (f\<lparr>f_blocks := bs\<rparr>, modified'))"

section \<open>The rewriting is a map over the blocks\<close>

definition fold_kind :: "constants \<Rightarrow> instruction_kind \<Rightarrow> instruction_kind" where
  "fold_kind cs k = (case folded_value cs k of
     None \<Rightarrow> k
   | Some v \<Rightarrow> (case get_result k of None \<Rightarrow> k | Some r \<Rightarrow> constant_instruction r v))"

definition fold_instruction :: "constants \<Rightarrow> instruction \<Rightarrow> instruction" where
  "fold_instruction cs i = i\<lparr>i_kind := fold_kind cs (i_kind i)\<rparr>"

definition fold_block :: "constants \<Rightarrow> basic_block \<Rightarrow> basic_block" where
  "fold_block cs b = b\<lparr>b_instructions := map (fold_instruction cs) (b_instructions b)\<rparr>"

lemma folded_value_cases:
  assumes "folded_value cs k = Some c"
  obtains r l u where "k = Arith (Add r l u)" | r l u where "k = Arith (Sub r l u)"
  | r l u where "k = Arith (Mul r l u)" | r l u s where "k = Arith (Div r l u s)"
  | r l u s where "k = Arith (Rem r l u s)" | r l u where "k = Logical (And r l u)"
  | r l u where "k = Logical (Or r l u)" | r v where "k = Logical (Not r v)"
  using assms unfolding folded_value_def by (auto split: kind_splits)

lemma folded_value_result: "folded_value cs k = Some c \<Longrightarrow> \<exists>r. get_result k = Some r"
  by (erule folded_value_cases) (simp_all add: get_result_def)

lemma fold_kind_None [simp]: "folded_value cs k = None \<Longrightarrow> fold_kind cs k = k"
  by (simp add: fold_kind_def)

lemma fold_instruction_None [simp]: "folded_value cs (i_kind i) = None \<Longrightarrow> fold_instruction cs i = i"
  by (simp add: fold_instruction_def)

lemma apply_replacement_at:
  assumes "folded_value cs (i_kind i) = Some c"
  shows "apply_replacement (length pre, length xs, c)
      (pre @ b\<lparr>b_instructions := xs @ i # ys\<rparr> # post, m) =
    (pre @ b\<lparr>b_instructions := xs @ fold_instruction cs i # ys\<rparr> # post, True)"
proof -
  obtain r where "get_result (i_kind i) = Some r" using folded_value_result [OF assms] by blast
  with assms show ?thesis
    by (simp add: apply_replacement_def fold_instruction_def fold_kind_def nth_append)
qed

lemma apply_block_replacements:
  "fold apply_replacement
     (concat (map (\<lambda>(ii, i). case folded_value cs (i_kind i) of
                                None \<Rightarrow> [] | Some v \<Rightarrow> [(length pre, ii, v)])
        (enumerate (length xs) ys)))
     (pre @ b\<lparr>b_instructions := xs @ ys\<rparr> # post, m) =
   (pre @ b\<lparr>b_instructions := xs @ map (fold_instruction cs) ys\<rparr> # post,
    m \<or> (\<exists>i \<in> set ys. folded_value cs (i_kind i) \<noteq> None))"
proof (induction ys arbitrary: xs m)
  case (Cons i ys)
  show ?case
  proof (cases "folded_value cs (i_kind i)")
    case None
    then show ?thesis using Cons.IH [of "xs @ [i]" m] by simp
  next
    case (Some c)
    then show ?thesis using Cons.IH [of "xs @ [fold_instruction cs i]" True]
      by (simp add: apply_replacement_at)
  qed
qed simp

lemma apply_replacements_from:
  "fold apply_replacement
     (concat (map (\<lambda>(bi, b).
       concat (map (\<lambda>(ii, i). case folded_value cs (i_kind i) of
                                None \<Rightarrow> [] | Some v \<Rightarrow> [(bi, ii, v)])
         (enumerate 0 (b_instructions b)))) (enumerate (length pre) bs)))
     (pre @ bs, m) =
   (pre @ map (fold_block cs) bs,
    m \<or> (\<exists>b \<in> set bs. \<exists>i \<in> set (b_instructions b). folded_value cs (i_kind i) \<noteq> None))"
proof (induction bs arbitrary: pre m)
  case (Cons b bs)
  have "b\<lparr>b_instructions := [] @ b_instructions b\<rparr> = b" by simp
  then show ?case
    using apply_block_replacements [where cs = cs and pre = pre and xs = "[]" and b = b and post = bs and m = m
        and ys = "b_instructions b"]
      Cons.IH [of "pre @ [fold_block cs b]"]
    by (simp add: fold_block_def disj_assoc)
qed simp

lemma apply_replacements_eq:
  "fold apply_replacement (collect_replacements cs bs) (bs, m) =
   (map (fold_block cs) bs,
    m \<or> (\<exists>b \<in> set bs. \<exists>i \<in> set (b_instructions b). folded_value cs (i_kind i) \<noteq> None))"
  using apply_replacements_from [where pre = "[]"] by (simp add: collect_replacements_def)

definition foldable :: "constants \<Rightarrow> ir_function \<Rightarrow> bool" where
  "foldable cs f \<longleftrightarrow> (\<exists>k \<in> set (function_kinds f). folded_value cs k \<noteq> None)"

lemma block_replacements_Nil:
  "concat (map (\<lambda>(ii, i). case folded_value cs (i_kind i) of
       None \<Rightarrow> [] | Some v \<Rightarrow> [(n, ii, v)]) (enumerate m is)) = [] \<longleftrightarrow>
   (\<forall>i \<in> set is. folded_value cs (i_kind i) = None)"
  by (induction "is" arbitrary: m) (auto split: option.splits simp del: concat_eq_Nil_conv)

lemma collect_replacements_from_Nil:
  "concat (map (\<lambda>(bi, b).
       concat (map (\<lambda>(ii, i). case folded_value cs (i_kind i) of
                                None \<Rightarrow> [] | Some v \<Rightarrow> [(bi, ii, v)])
         (enumerate m (b_instructions b)))) (enumerate n bs)) = [] \<longleftrightarrow>
   (\<forall>b \<in> set bs. \<forall>i \<in> set (b_instructions b). folded_value cs (i_kind i) = None)"
  by (induction bs arbitrary: n)
    (simp_all add: block_replacements_Nil del: concat_eq_Nil_conv)

lemma function_kinds_ex:
  "(\<exists>k \<in> set (function_kinds f). P k) \<longleftrightarrow>
   (\<exists>b \<in> set (f_blocks f). \<exists>i \<in> set (b_instructions b). P (i_kind i))"
  by (auto simp: function_kinds_def block_kinds_def)

lemma collect_replacements_Nil: "collect_replacements cs (f_blocks f) = [] \<longleftrightarrow> \<not> foldable cs f"
  by (simp add: collect_replacements_def collect_replacements_from_Nil foldable_def
      function_kinds_ex del: concat_eq_Nil_conv)

lemma fold_round_eq [pass_simps]:
  "fold_round (f, m) =
     (if foldable (collect_constants f) f
      then Some (map_blocks (fold_block (collect_constants f)) f, True) else None)"
  by (auto simp: fold_round_def collect_replacements_Nil apply_replacements_eq map_blocks_def Let_def
      foldable_def function_kinds_ex)

section \<open>The loop\<close>

definition is_operation :: "instruction_kind \<Rightarrow> bool" where
  "is_operation k \<longleftrightarrow> get_result k \<noteq> None"

definition operations :: "ir_function \<Rightarrow> nat" where
  "operations f = length (filter is_operation (function_kinds f))"

lemma get_result_constant [simp]: "get_result (constant_instruction r c) = None"
  by (auto simp: constant_instruction_def get_result_def split: known_constant.splits option.splits)

lemma block_kinds_fold_block [simp]: "block_kinds (fold_block cs b) = map (fold_kind cs) (block_kinds b)"
  by (simp add: block_kinds_def fold_block_def fold_instruction_def)

lemma function_kinds_fold [simp]:
  "function_kinds (map_blocks (fold_block cs) f) = map (fold_kind cs) (function_kinds f)"
  by (simp add: function_kinds_def map_blocks_def map_concat comp_def)

lemma is_operation_fold_kind: "is_operation (fold_kind cs k) \<Longrightarrow> is_operation k"
  by (auto simp: fold_kind_def is_operation_def split: option.splits)

lemma folded_value_operation:
  "folded_value cs k = Some c \<Longrightarrow> is_operation k \<and> \<not> is_operation (fold_kind cs k)"
  using folded_value_result by (fastforce simp: fold_kind_def is_operation_def)

lemma filter_fold_kind:
  "length (filter is_operation (map (fold_kind cs) ks)) \<le> length (filter is_operation ks)"
  by (induction ks) (auto dest: is_operation_fold_kind)

lemma filter_fold_kind_less:
  assumes "k \<in> set ks" and "folded_value cs k = Some c"
  shows "length (filter is_operation (map (fold_kind cs) ks)) < length (filter is_operation ks)"
  using assms(1)
proof (induction ks)
  case (Cons k' ks)
  show ?case
  proof (cases "k = k'")
    case True
    then show ?thesis
      using folded_value_operation [OF assms(2)] filter_fold_kind [of cs ks] by simp
  next
    case False
    with Cons show ?thesis by (auto dest: is_operation_fold_kind)
  qed
qed simp

lemma fold_round_shrinks: "fold_round (f, m) = Some (g, m') \<Longrightarrow> operations g < operations f"
  unfolding fold_round_eq operations_def foldable_def
  by (auto split: if_splits simp del: length_filter_map intro: filter_fold_kind_less)

function fold_loop :: "ir_function \<times> bool \<Rightarrow> ir_function \<times> bool" where
  "fold_loop s = (case fold_round s of None \<Rightarrow> s | Some s' \<Rightarrow> fold_loop s')"
  by pat_completeness auto
termination
  by (relation "measure (operations \<circ> fst)") (auto simp: fold_round_shrinks)

declare fold_loop.simps [simp del]

interpretation cf: shrinking_loop fold_round "operations \<circ> fst" fold_loop
proof unfold_locales
  show "fold_round x = Some y \<Longrightarrow> (operations \<circ> fst) y < (operations \<circ> fst) x" for x y
    by (cases x; cases y) (simp add: fold_round_shrinks)
qed (rule fold_loop.simps)

fun fold_functions :: "ir_function list \<Rightarrow> bool \<Rightarrow> ir_function list \<times> bool" where
  "fold_functions [] modified = ([], modified)"
| "fold_functions (f # fs) modified =
     (let (f', modified') = (if f_suspension_barrier f then (f, modified)
                             else fold_loop (f, modified));
          (fs', modified'') = fold_functions fs modified'
      in (f' # fs', modified''))"

definition constant_folding_run :: "ir_module \<Rightarrow> ir_module \<times> bool" where
  "constant_folding_run m =
     (let (fs, modified) = fold_functions (m_functions m) False
      in (m\<lparr>m_functions := fs\<rparr>, modified))"

section \<open>What a fold computes\<close>

definition exact_op :: "int_op \<Rightarrow> int \<Rightarrow> int \<Rightarrow> int" where
  "exact_op op a b = (case op of OpAdd \<Rightarrow> a + b | OpSub \<Rightarrow> a - b | OpMul \<Rightarrow> a * b
     | OpDiv \<Rightarrow> a sdiv b | OpRem \<Rightarrow> a smod b)"

definition divides_op :: "int_op \<Rightarrow> bool" where
  "divides_op op \<longleftrightarrow> op = OpDiv \<or> op = OpRem"

lemma checked_op_Some:
  assumes "checked_op op a b = Some v"
  shows "sint v = exact_op op (sint a) (sint b)"
    and "divides_op op \<Longrightarrow> b \<noteq> 0 \<and> \<not> (sint a = i64_min \<and> sint b = -1)"
proof -
  show "sint v = exact_op op (sint a) (sint b)"
    using assms
    by (auto simp: checked_op_def exact_op_def checked_add_def checked_sub_def checked_mul_def
        checked_div_def checked_rem_def dest: checked_i64_Some split: int_op.splits if_splits)
  have "\<not> in_i64 (i64_min sdiv -1)"
    by (simp add: in_i64_def i64_min_def i64_max_def)
  then show "divides_op op \<Longrightarrow> b \<noteq> 0 \<and> \<not> (sint a = i64_min \<and> sint b = -1)"
    using assms
    by (auto simp: checked_op_def divides_op_def checked_div_def checked_rem_def checked_i64_def
        split: int_op.splits if_splits)
qed

lemma fold_int_binop_Some:
  assumes "fold_int_binop cs l r op uns = Some c"
  obtains a b v ty where "cs (vid l) = Some (KInt a ty)" and "cs (vid r) = Some (KInt b ty)"
    and "c = KInt v ty" and "checked_op op a b = Some v"
    and "uns \<longrightarrow> 0 \<le> sint a \<and> 0 \<le> sint b"
    and "\<forall>t. ty = Some t \<longrightarrow> value_fits_int_type a t \<and> value_fits_int_type b t
            \<and> value_fits_int_type v t"
  using assms
  by (auto simp: fold_int_binop_def split: option.splits known_constant.splits if_splits)

lemma fold_bool_binop_Some:
  assumes "fold_bool_binop cs l r and_op = Some c"
  obtains a b where "cs (vid l) = Some (KBool a)" and "cs (vid r) = Some (KBool b)"
    and "c = KBool (if and_op then a \<and> b else a \<or> b)"
  using assms
  by (auto simp: fold_bool_binop_def split: option.splits known_constant.splits)

section \<open>What the pass keeps and leaves behind\<close>

text \<open>The frame of a function: everything but the kinds of its instructions.\<close>

definition block_frame :: "basic_block \<Rightarrow> usize \<times> string \<times> terminator option \<times> (usize \<times> source_span option) list"
  where "block_frame b = (b_id b, b_label b, b_terminator b,
           map (\<lambda>i. (i_id i, i_span i)) (b_instructions b))"

lemma block_frame_fold_block [simp, shape_simps]: "block_frame (fold_block cs b) = block_frame b"
  by (simp add: block_frame_def fold_block_def fold_instruction_def)

definition function_frame where
  "function_frame f = (f\<lparr>f_blocks := []\<rparr>, map block_frame (f_blocks f))"

lemma function_frame_fold [simp, shape_simps]:
  "function_frame (map_blocks (fold_block cs) f) = function_frame f"
  by (simp add: function_frame_def map_blocks_def comp_def)

lemma fold_loop_frame: "function_frame (fst (fold_loop (f, m))) = function_frame f"
proof -
  have "function_frame (fst (fold_loop (f, m))) = function_frame (fst (f, m))"
    by (rule cf.loop_preserves [where f = "function_frame \<circ> fst", simplified])
      (auto simp: pass_simps split: if_splits)
  then show ?thesis by simp
qed

lemma fold_loop_barrier [simp]:
  "f_suspension_barrier (fst (fold_loop (f, m))) = f_suspension_barrier f"
proof -
  have "f_suspension_barrier (fst (function_frame (fst (fold_loop (f, m))))) =
        f_suspension_barrier (fst (function_frame f))"
    by (simp only: fold_loop_frame)
  then show ?thesis by (simp add: function_frame_def)
qed

lemma fold_loop_unfoldable:
  "\<not> foldable (collect_constants (fst (fold_loop (f, m)))) (fst (fold_loop (f, m)))"
  using cf.loop_stable [of "(f, m)"] by (cases "fold_loop (f, m)") (simp add: pass_simps split: if_splits)

lemma fold_loop_flag:
  "snd (fold_loop (f, m)) \<longleftrightarrow> m \<or> foldable (collect_constants f) f"
proof (cases "foldable (collect_constants f) f")
  case True
  let ?g = "map_blocks (fold_block (collect_constants f)) f"
  have "snd (fold_loop (?g, True))"
    by (rule cf.loop_invariant [where P = snd]) (auto simp: pass_simps split: if_splits)
  then show ?thesis
    using True cf.loop_round [of "(f, m)" "(?g, True)"] by (simp add: pass_simps)
next
  case False
  then show ?thesis using cf.loop_done [of "(f, m)"] by (simp add: pass_simps)
qed

lemma fold_loop_fst_flag: "fst (fold_loop (f, m)) = fst (fold_loop (f, m'))"
proof (cases "foldable (collect_constants f) f")
  case True
  then show ?thesis using cf.loop_round [of "(f, m)"] cf.loop_round [of "(f, m')"]
    by (simp add: pass_simps)
next
  case False
  then show ?thesis using cf.loop_done [of "(f, m)"] cf.loop_done [of "(f, m')"]
    by (simp add: pass_simps)
qed

definition fold_function :: "ir_function \<Rightarrow> ir_function" where
  "fold_function f = (if f_suspension_barrier f then f else fst (fold_loop (f, False)))"

definition needs_folding :: "ir_function \<Rightarrow> bool" where
  "needs_folding f \<longleftrightarrow> \<not> f_suspension_barrier f \<and> foldable (collect_constants f) f"

lemma fold_functions_eq:
  "fold_functions fs m = (map fold_function fs, m \<or> (\<exists>f \<in> set fs. needs_folding f))"
proof (induction fs arbitrary: m)
  case (Cons f fs)
  have "fold_loop (f, m) = (fst (fold_loop (f, False)), m \<or> foldable (collect_constants f) f)"
    using fold_loop_fst_flag [of f m False] fold_loop_flag [of f m] by (simp add: prod_eq_iff)
  then show ?case using Cons.IH by (auto simp: fold_function_def needs_folding_def)
qed simp

lemma constant_folding_run_eq:
  "constant_folding_run m =
     (m\<lparr>m_functions := map fold_function (m_functions m)\<rparr>, \<exists>f \<in> set (m_functions m). needs_folding f)"
  by (simp add: constant_folding_run_def fold_functions_eq)

lemma fold_function_done: "\<not> needs_folding (fold_function f)"
  by (auto simp: needs_folding_def fold_function_def fold_loop_unfoldable)

lemma fold_function_same: "\<not> needs_folding f \<Longrightarrow> fold_function f = f"
  using cf.loop_done [of "(f, False)"]
  by (auto simp: needs_folding_def fold_function_def pass_simps)

lemma fold_function_changes: "needs_folding f \<Longrightarrow> fold_function f \<noteq> f"
proof
  assume need: "needs_folding f" and same: "fold_function f = f"
  let ?g = "map_blocks (fold_block (collect_constants f)) f"
  from need have step: "fold_round (f, False) = Some (?g, True)"
    by (simp add: needs_folding_def pass_simps)
  have "operations (fst (fold_loop (?g, True))) \<le> operations ?g"
    using cf.weight_loop [of "(?g, True)"] by simp
  also have "\<dots> < operations f" using step by (rule fold_round_shrinks)
  finally show False using same need cf.loop_round [OF step]
    by (simp add: fold_function_def needs_folding_def)
qed

lemma fold_function_frame: "function_frame (fold_function f) = function_frame f"
  by (simp add: fold_function_def fold_loop_frame)

end
