(* ===== verification/Operands.thy ===== *)
theory Operands
  imports IR
begin

text \<open>
  The result and the operands of an instruction as the verifier sees them,
  \<open>instruction_result\<close> and \<open>instruction_operands\<close> of
  \<open>src/midend/src/passes/verification.rs\<close>, and the values an instruction defines (a
  coroutine poll defines its status as well as its result).
\<close>

definition instruction_result :: "instruction_kind \<Rightarrow> ssa_value option" where
  "instruction_result k = (case k of
     Arith a \<Rightarrow> Some (case a of
       Add r _ _ \<Rightarrow> r | Sub r _ _ \<Rightarrow> r | Mul r _ _ \<Rightarrow> r | Div r _ _ _ \<Rightarrow> r | Rem r _ _ _ \<Rightarrow> r
     | BitAnd r _ _ \<Rightarrow> r | BitOr r _ _ \<Rightarrow> r | BitXor r _ _ \<Rightarrow> r | Shl r _ _ \<Rightarrow> r
     | Shr r _ _ _ \<Rightarrow> r)
   | Compare c \<Rightarrow> Some (case c of
       Eq r _ _ \<Rightarrow> r | Ne r _ _ \<Rightarrow> r | Lt r _ _ _ \<Rightarrow> r | Le r _ _ _ \<Rightarrow> r | Gt r _ _ _ \<Rightarrow> r
     | Ge r _ _ _ \<Rightarrow> r)
   | Logical l \<Rightarrow> Some (case l of And r _ _ \<Rightarrow> r | Or r _ _ \<Rightarrow> r | Not r _ \<Rightarrow> r)
   | Memory m \<Rightarrow> (case m of
       Alloca r _ \<Rightarrow> Some r | GlobalAddr r _ _ \<Rightarrow> Some r | ManualAlloc r _ \<Rightarrow> Some r
     | Load r _ _ \<Rightarrow> Some r | GetElementPtr r _ _ _ _ \<Rightarrow> Some r | FieldPtr r _ _ \<Rightarrow> Some r
     | Store _ _ \<Rightarrow> None | EscapeManualAlloc _ \<Rightarrow> None)
   | Calls c \<Rightarrow> (case c of
       FuncAddr r _ \<Rightarrow> Some r | AutodiffStep r _ _ _ _ _ \<Rightarrow> r | Call r _ _ _ \<Rightarrow> r
     | HostCall r _ _ _ \<Rightarrow> r | CallIndirect r _ _ _ _ \<Rightarrow> r)
   | Async a \<Rightarrow> (case a of
       AsyncReady r _ _ \<Rightarrow> Some r | FrameAlloc r _ _ \<Rightarrow> Some r | FrameLoad r _ _ _ \<Rightarrow> Some r
     | StateLoad r _ \<Rightarrow> Some r | CoroutineCreate r _ _ _ _ \<Rightarrow> Some r
     | CoroutinePollChild _ r _ _ \<Rightarrow> r | Await r _ _ \<Rightarrow> Some r
     | FrameStore _ _ _ _ \<Rightarrow> None | StateStore _ _ \<Rightarrow> None | CoroutineSubscribe _ _ \<Rightarrow> None
     | CoroutineWake _ \<Rightarrow> None | CoroutineSuspend _ _ \<Rightarrow> None | CoroutineComplete _ _ \<Rightarrow> None
     | CoroutineError _ _ \<Rightarrow> None | CoroutineCancelled _ \<Rightarrow> None | CoroutinePollReturn _ \<Rightarrow> None)
   | Move m \<Rightarrow> Some (case m of Phi r _ \<Rightarrow> r | Copy r _ \<Rightarrow> r)
   | Const c \<Rightarrow> Some (case c of
       ConstInt r _ \<Rightarrow> r | ConstIntTyped r _ _ \<Rightarrow> r | ConstFloat r _ \<Rightarrow> r
     | ConstFloatTyped r _ _ \<Rightarrow> r | ConstBool r _ \<Rightarrow> r | ConstString r _ \<Rightarrow> r)
   | Conv c \<Rightarrow> Some (case c of
       Cast r _ _ _ \<Rightarrow> r | MakeDynFatPtr r _ _ \<Rightarrow> r | LoadDynDataPtr r _ \<Rightarrow> r
     | LoadDynVtablePtr r _ \<Rightarrow> r | LoadVtableSlot r _ _ \<Rightarrow> r))"

definition instruction_operands :: "instruction_kind \<Rightarrow> ssa_value list" where
  "instruction_operands k = (case k of
     Arith a \<Rightarrow> (case a of
       Add _ l r \<Rightarrow> [l, r] | Sub _ l r \<Rightarrow> [l, r] | Mul _ l r \<Rightarrow> [l, r] | Div _ l r _ \<Rightarrow> [l, r]
     | Rem _ l r _ \<Rightarrow> [l, r] | BitAnd _ l r \<Rightarrow> [l, r] | BitOr _ l r \<Rightarrow> [l, r]
     | BitXor _ l r \<Rightarrow> [l, r] | Shl _ l r \<Rightarrow> [l, r] | Shr _ l r _ \<Rightarrow> [l, r])
   | Compare c \<Rightarrow> (case c of
       Eq _ l r \<Rightarrow> [l, r] | Ne _ l r \<Rightarrow> [l, r] | Lt _ l r _ \<Rightarrow> [l, r] | Le _ l r _ \<Rightarrow> [l, r]
     | Gt _ l r _ \<Rightarrow> [l, r] | Ge _ l r _ \<Rightarrow> [l, r])
   | Logical l \<Rightarrow> (case l of And _ l r \<Rightarrow> [l, r] | Or _ l r \<Rightarrow> [l, r] | Not _ v \<Rightarrow> [v])
   | Memory m \<Rightarrow> (case m of
       Load _ p _ \<Rightarrow> [p] | EscapeManualAlloc p \<Rightarrow> [p] | Store p v \<Rightarrow> [p, v]
     | GetElementPtr _ p ix _ bound \<Rightarrow>
         [p, ix] @ (case bound of Some (Dynamic v) \<Rightarrow> [v] | _ \<Rightarrow> [])
     | FieldPtr _ p _ \<Rightarrow> [p] | Alloca _ _ \<Rightarrow> [] | GlobalAddr _ _ _ \<Rightarrow> [] | ManualAlloc _ _ \<Rightarrow> [])
   | Calls c \<Rightarrow> (case c of
       Call _ _ args _ \<Rightarrow> args | HostCall _ _ args _ \<Rightarrow> args
     | CallIndirect _ p args _ _ \<Rightarrow> p # args | FuncAddr _ _ \<Rightarrow> []
     | AutodiffStep _ _ out up ins targets \<Rightarrow>
         [out] @ (case up of Some v \<Rightarrow> [v] | None \<Rightarrow> []) @ ins @ targets)
   | Async a \<Rightarrow> (case a of
       AsyncReady _ v _ \<Rightarrow> (case v of Some v \<Rightarrow> [v] | None \<Rightarrow> [])
     | Await _ t _ \<Rightarrow> [t] | FrameAlloc _ _ _ \<Rightarrow> [] | StateLoad _ _ \<Rightarrow> []
     | FrameStore fr _ v _ \<Rightarrow> [fr, v] | FrameLoad _ fr _ _ \<Rightarrow> [fr] | StateStore fr _ \<Rightarrow> [fr]
     | CoroutineCreate _ fr _ _ _ \<Rightarrow> [fr] | CoroutinePollChild _ _ t _ \<Rightarrow> [t]
     | CoroutineSubscribe t p \<Rightarrow> [t, p] | CoroutineWake t \<Rightarrow> [t] | CoroutineSuspend t _ \<Rightarrow> [t]
     | CoroutineCancelled t \<Rightarrow> [t]
     | CoroutineComplete t v \<Rightarrow> t # (case v of Some v \<Rightarrow> [v] | None \<Rightarrow> [])
     | CoroutineError t v \<Rightarrow> t # (case v of Some v \<Rightarrow> [v] | None \<Rightarrow> [])
     | CoroutinePollReturn s \<Rightarrow> [s])
   | Move m \<Rightarrow> (case m of Copy _ s \<Rightarrow> [s] | Phi _ incoming \<Rightarrow> map fst incoming)
   | Const _ \<Rightarrow> []
   | Conv c \<Rightarrow> (case c of
       Cast _ v _ _ \<Rightarrow> [v] | LoadDynDataPtr _ p \<Rightarrow> [p] | LoadDynVtablePtr _ p \<Rightarrow> [p]
     | LoadVtableSlot _ p _ \<Rightarrow> [p] | MakeDynFatPtr _ d v \<Rightarrow> [d, v]))"

text \<open>The values an instruction defines, in the order the verifier registers them.\<close>

definition defined_values :: "instruction_kind \<Rightarrow> ssa_value list" where
  "defined_values k =
     (case instruction_result k of Some r \<Rightarrow> [r] | None \<Rightarrow> []) @
     (case k of Async (CoroutinePollChild status _ _ _) \<Rightarrow> [status] | _ \<Rightarrow> [])"

definition definitions_of :: "ir_function \<Rightarrow> usize list" where
  "definitions_of f = map p_id (f_params f) @ concat (map (map vid \<circ> defined_values) (function_kinds f))"

text \<open>One definition per value: static single assignment.\<close>

definition single_assignment :: "ir_function \<Rightarrow> bool" where
  "single_assignment f \<longleftrightarrow> distinct (definitions_of f)"

text \<open>Block and value numbers are in use once and below the function's counters.\<close>

definition numbered :: "ir_function \<Rightarrow> bool" where
  "numbered f \<longleftrightarrow> distinct (block_ids f) \<and> (\<forall>i \<in> set (block_ids f). i < f_next_block_id f) \<and>
     single_assignment f \<and> (\<forall>v \<in> set (definitions_of f). v < f_next_value_id f)"

lemma defined_values_result: "instruction_result k = Some r \<Longrightarrow> r \<in> set (defined_values k)"
  by (simp add: defined_values_def)

lemma distinct_concat_unique:
  "distinct (concat (map g xs)) \<Longrightarrow> x \<in> set xs \<Longrightarrow> y \<in> set xs \<Longrightarrow>
   v \<in> set (g x) \<Longrightarrow> v \<in> set (g y) \<Longrightarrow> x = y"
  by (induction xs) auto

lemma single_assignment_unique:
  assumes "single_assignment f" and "j \<in> set (function_kinds f)" and "k \<in> set (function_kinds f)"
    and "v \<in> vid ` set (defined_values j)" and "v \<in> vid ` set (defined_values k)"
  shows "j = k"
  using assms distinct_concat_unique [of "map vid \<circ> defined_values" "function_kinds f" j k v]
  by (simp add: single_assignment_def definitions_of_def)

lemma single_assignment_params:
  assumes "single_assignment f" and "k \<in> set (function_kinds f)" and "v \<in> vid ` set (defined_values k)"
  shows "v \<notin> p_id ` set (f_params f)"
  using assms by (auto simp: single_assignment_def definitions_of_def)

end
