(* ===== verification/Machine.thy ===== *)
theory Machine
  imports Operands
begin

text \<open>
  What the generated code computes, from \<open>src/backend/src/codegen_instruction_arithmetic.rs\<close>,
  \<open>codegen_hostcalls.rs\<close> (checked division), \<open>codegen_instruction_values.rs\<close>,
  \<open>codegen_instruction_cast.rs\<close> (copies), \<open>codegen_strings.rs\<close> (types, terminators) and
  \<open>codegen.rs\<close> (block arguments). The Cranelift instructions the code generator emits are
  fields of a \<open>machine\<close> record, an argument of every definition; \<open>cranelift_ok\<close> names
  what its documentation says of the integer ones. Memory, calls and coroutine
  instructions are the field \<open>effect\<close>; what a return does to the memory, the escape of the
  returned pointer and the exit of the manual frame, is the field \<open>leave_frame\<close>. The semantics runs one block per step.
\<close>

section \<open>Machine values and the code generator's target\<close>

datatype cl_type = CI8 | CI16 | CI32 | CI64 | CF32 | CF64

fun cl_width :: "cl_type \<Rightarrow> nat" where
  "cl_width CI8 = 8" | "cl_width CI16 = 16" | "cl_width CI32 = 32" | "cl_width CI64 = 64"
| "cl_width CF32 = 32" | "cl_width CF64 = 64"

fun is_int_class :: "cl_type \<Rightarrow> bool" where
  "is_int_class CF32 = False" | "is_int_class CF64 = False" | "is_int_class _ = True"

text \<open>A value is its Cranelift type and its bits as a number below \<open>2 ^ cl_width\<close>.\<close>

datatype mval = MVal (ty_of: cl_type) (bits_of: int)

datatype int_cc = CC_Eq | CC_Ne | CC_Slt | CC_Sle | CC_Sgt | CC_Sge | CC_Ult | CC_Ule | CC_Ugt | CC_Uge
datatype float_cc = FC_Eq | FC_Ne | FC_Lt | FC_Le | FC_Gt | FC_Ge

datatype 'a outcome = Done 'a | Trap string | Stuck

record 'm machine =
  iconst :: "cl_type \<Rightarrow> i64 \<Rightarrow> mval"
  iadd :: "mval \<Rightarrow> mval \<Rightarrow> mval"
  isub :: "mval \<Rightarrow> mval \<Rightarrow> mval"
  imul :: "mval \<Rightarrow> mval \<Rightarrow> mval"
  udiv :: "mval \<Rightarrow> mval \<Rightarrow> mval"
  urem :: "mval \<Rightarrow> mval \<Rightarrow> mval"
  csdiv :: "mval \<Rightarrow> mval \<Rightarrow> mval"
  csrem :: "mval \<Rightarrow> mval \<Rightarrow> mval"
  band :: "mval \<Rightarrow> mval \<Rightarrow> mval"
  bor :: "mval \<Rightarrow> mval \<Rightarrow> mval"
  bxor :: "mval \<Rightarrow> mval \<Rightarrow> mval"
  ishl :: "mval \<Rightarrow> mval \<Rightarrow> mval"
  ushr :: "mval \<Rightarrow> mval \<Rightarrow> mval"
  sshr :: "mval \<Rightarrow> mval \<Rightarrow> mval"
  icmp :: "int_cc \<Rightarrow> mval \<Rightarrow> mval \<Rightarrow> mval"
  fcmp :: "float_cc \<Rightarrow> mval \<Rightarrow> mval \<Rightarrow> mval"
  fadd :: "mval \<Rightarrow> mval \<Rightarrow> mval"
  fsub :: "mval \<Rightarrow> mval \<Rightarrow> mval"
  fmul :: "mval \<Rightarrow> mval \<Rightarrow> mval"
  fdiv :: "mval \<Rightarrow> mval \<Rightarrow> mval"
  fmod :: "mval \<Rightarrow> mval \<Rightarrow> mval"
  fpromote :: "mval \<Rightarrow> mval"
  f64const :: "f64 \<Rightarrow> mval"
  f32const :: "f64 \<Rightarrow> mval"
  brif :: "mval \<Rightarrow> bool"
  leave_frame :: "mval option \<Rightarrow> 'm \<Rightarrow> 'm"
  "effect" :: "instruction_kind \<Rightarrow> mval list \<Rightarrow> 'm \<Rightarrow> (mval list \<times> 'm) outcome"

fun ir_type_to_cranelift :: "ir_type \<Rightarrow> cl_type option" where
  "ir_type_to_cranelift TUnknown = None"
| "ir_type_to_cranelift TVoid = Some CI8"
| "ir_type_to_cranelift TBool = Some CI8"
| "ir_type_to_cranelift TInt = Some CI64"
| "ir_type_to_cranelift TFloat = Some CF64"
| "ir_type_to_cranelift (TExactInt _ w) = Some (case w of
     I8 \<Rightarrow> CI8 | I16 \<Rightarrow> CI16 | I32 \<Rightarrow> CI32 | I64 \<Rightarrow> CI64 | Isize \<Rightarrow> CI64 | Usize \<Rightarrow> CI64)"
| "ir_type_to_cranelift (TExactFloat w) = Some (case w of F32 \<Rightarrow> CF32 | F64 \<Rightarrow> CF64)"
| "ir_type_to_cranelift TString = Some CI64"
| "ir_type_to_cranelift TChar = Some CI32"
| "ir_type_to_cranelift (TPointer _) = Some CI64"
| "ir_type_to_cranelift (TArray _ _) = Some CI64"
| "ir_type_to_cranelift (TTuple _) = Some CI64"
| "ir_type_to_cranelift (TStruct _ _) = Some CI64"
| "ir_type_to_cranelift (TEnum _ _) = Some CI64"
| "ir_type_to_cranelift (TGeneric _ _ rep) = ir_type_to_cranelift rep"
| "ir_type_to_cranelift (TFunction _ _) = Some CI64"
| "ir_type_to_cranelift (TTensor _ _ _ _ _) = Some CI64"
| "ir_type_to_cranelift (TTask _) = Some CI64"
| "ir_type_to_cranelift TRange = Some CI64"
| "ir_type_to_cranelift (TDynTrait _ _) = Some CI64"

section \<open>Instructions\<close>

type_synonym env = "usize \<rightharpoonup> mval"

definition bind_outcome :: "'a outcome \<Rightarrow> ('a \<Rightarrow> 'b outcome) \<Rightarrow> 'b outcome" where
  "bind_outcome x g = (case x of Done a \<Rightarrow> g a | Trap s \<Rightarrow> Trap s | Stuck \<Rightarrow> Stuck)"

text \<open>\<open>get_value\<close>: a value the map does not have is the code generator's
  \<open>missing_value\<close> error.\<close>

definition get_value :: "env \<Rightarrow> ssa_value \<Rightarrow> mval outcome" where
  "get_value e v = (case e (vid v) of None \<Rightarrow> Stuck | Some x \<Rightarrow> Done x)"

definition with_operands :: "env \<Rightarrow> ssa_value \<Rightarrow> ssa_value \<Rightarrow> (mval \<Rightarrow> mval \<Rightarrow> mval outcome) \<Rightarrow> mval outcome" where
  "with_operands e l r g =
     bind_outcome (get_value e l) (\<lambda>x. bind_outcome (get_value e r) (\<lambda>y. g x y))"

definition promote_float_operands :: "'m machine \<Rightarrow> mval \<Rightarrow> mval \<Rightarrow> mval \<times> mval \<times> bool" where
  "promote_float_operands M x y =
     (if ty_of x = CF64 \<or> ty_of y = CF64
      then (if ty_of x = CF32 then fpromote M x else x,
            if ty_of y = CF32 then fpromote M y else y, True)
      else (x, y, ty_of x = CF32 \<and> ty_of y = CF32))"

definition float_or_int ::
    "'m machine \<Rightarrow> (mval \<Rightarrow> mval \<Rightarrow> mval outcome) \<Rightarrow> (mval \<Rightarrow> mval \<Rightarrow> mval outcome) \<Rightarrow>
     mval \<Rightarrow> mval \<Rightarrow> mval outcome" where
  "float_or_int M ff gi x y =
     (case promote_float_operands M x y of
        (x', y', is_float) \<Rightarrow> if is_float then ff x' y' else gi x' y')"

definition icmp_imm :: "'m machine \<Rightarrow> int_cc \<Rightarrow> mval \<Rightarrow> i64 \<Rightarrow> mval" where
  "icmp_imm M cc x n = icmp M cc x (iconst M (ty_of x) n)"

definition signed_min :: "cl_type \<Rightarrow> i64" where
  "signed_min t = (case t of
     CI8 \<Rightarrow> - 128 | CI16 \<Rightarrow> - 32768 | CI32 \<Rightarrow> - 2147483648 | _ \<Rightarrow> word_of_int i64_min)"

definition emit_checked_int_divrem ::
    "'m machine \<Rightarrow> string \<Rightarrow> bool \<Rightarrow> bool \<Rightarrow> mval \<Rightarrow> mval \<Rightarrow> mval outcome" where
  "emit_checked_int_divrem M panic_message is_remainder uns x y =
     (if brif M (icmp_imm M CC_Eq y 0) then Trap panic_message
      else if \<not> uns \<and> brif M (band M (icmp_imm M CC_Eq y (- 1))
                                    (icmp_imm M CC_Eq x (signed_min (ty_of x))))
      then Trap ''integer division overflow''
      else Done (case (is_remainder, uns) of
          (True, True) \<Rightarrow> urem M x y
        | (True, False) \<Rightarrow> csrem M x y
        | (False, True) \<Rightarrow> udiv M x y
        | (False, False) \<Rightarrow> csdiv M x y))"

definition exec_arith :: "'m machine \<Rightarrow> env \<Rightarrow> arith_kind \<Rightarrow> (ssa_value \<times> mval outcome)" where
  "exec_arith M e k = (case k of
     Add r l h \<Rightarrow> (r, with_operands e l h
       (float_or_int M (\<lambda>x y. Done (fadd M x y)) (\<lambda>x y. Done (iadd M x y))))
   | Sub r l h \<Rightarrow> (r, with_operands e l h
       (float_or_int M (\<lambda>x y. Done (fsub M x y)) (\<lambda>x y. Done (isub M x y))))
   | Mul r l h \<Rightarrow> (r, with_operands e l h
       (float_or_int M (\<lambda>x y. Done (fmul M x y)) (\<lambda>x y. Done (imul M x y))))
   | Div r l h uns \<Rightarrow> (r, with_operands e l h
       (float_or_int M (\<lambda>x y. Done (fdiv M x y))
          (emit_checked_int_divrem M ''integer division by zero'' False uns)))
   | Rem r l h uns \<Rightarrow> (r, with_operands e l h
       (float_or_int M (\<lambda>x y. Done (fmod M x y))
          (emit_checked_int_divrem M ''integer remainder by zero'' True uns)))
   | BitAnd r l h \<Rightarrow> (r, with_operands e l h (\<lambda>x y. Done (band M x y)))
   | BitOr r l h \<Rightarrow> (r, with_operands e l h (\<lambda>x y. Done (bor M x y)))
   | BitXor r l h \<Rightarrow> (r, with_operands e l h (\<lambda>x y. Done (bxor M x y)))
   | Shl r l h \<Rightarrow> (r, with_operands e l h (\<lambda>x y. Done (ishl M x y)))
   | Shr r l h uns \<Rightarrow> (r, with_operands e l h
       (\<lambda>x y. Done (if uns then ushr M x y else sshr M x y))))"

definition exec_compare :: "'m machine \<Rightarrow> env \<Rightarrow> compare_kind \<Rightarrow> (ssa_value \<times> mval outcome)" where
  "exec_compare M e k =
     (let cmp = (\<lambda>fc ic. float_or_int M (\<lambda>x y. Done (fcmp M fc x y)) (\<lambda>x y. Done (icmp M ic x y)))
      in case k of
        Eq r l h \<Rightarrow> (r, with_operands e l h (cmp FC_Eq CC_Eq))
      | Ne r l h \<Rightarrow> (r, with_operands e l h (cmp FC_Ne CC_Ne))
      | Lt r l h uns \<Rightarrow> (r, with_operands e l h (cmp FC_Lt (if uns then CC_Ult else CC_Slt)))
      | Le r l h uns \<Rightarrow> (r, with_operands e l h (cmp FC_Le (if uns then CC_Ule else CC_Sle)))
      | Gt r l h uns \<Rightarrow> (r, with_operands e l h (cmp FC_Gt (if uns then CC_Ugt else CC_Sgt)))
      | Ge r l h uns \<Rightarrow> (r, with_operands e l h (cmp FC_Ge (if uns then CC_Uge else CC_Sge))))"

definition exec_logical :: "'m machine \<Rightarrow> env \<Rightarrow> logical_kind \<Rightarrow> (ssa_value \<times> mval outcome)" where
  "exec_logical M e k = (case k of
     And r l h \<Rightarrow> (r, with_operands e l h (\<lambda>x y. Done (band M x y)))
   | Or r l h \<Rightarrow> (r, with_operands e l h (\<lambda>x y. Done (bor M x y)))
   | Not r opr \<Rightarrow> (r, bind_outcome (get_value e opr) (\<lambda>x. Done (icmp_imm M CC_Eq x 0))))"

text \<open>The interned address of a string literal is \<open>effect\<close>'s; the other constants are
  immediates.\<close>

definition exec_const :: "'m machine \<Rightarrow> const_kind \<Rightarrow> (ssa_value \<times> mval outcome) option" where
  "exec_const M k = (case k of
     ConstInt r v \<Rightarrow> Some (r, Done (iconst M CI64 v))
   | ConstIntTyped r v ty \<Rightarrow> Some (r, (case ir_type_to_cranelift ty of
       None \<Rightarrow> Stuck | Some t \<Rightarrow> Done (iconst M t v)))
   | ConstFloat r v \<Rightarrow> Some (r, Done (f64const M v))
   | ConstFloatTyped r v ty \<Rightarrow> Some (r, (case ir_type_to_cranelift ty of
       Some CF32 \<Rightarrow> Done (f32const M v)
     | Some CF64 \<Rightarrow> Done (f64const M v)
     | _ \<Rightarrow> Stuck))
   | ConstBool r v \<Rightarrow> Some (r, Done (iconst M CI8 (if v then 1 else 0)))
   | ConstString r v \<Rightarrow> None)"

text \<open>
  What an instruction without a rule of its own reads: the operands the verifier lists, and
  the frame of a state load, which the code generator reads too.
\<close>

definition operands_read :: "instruction_kind \<Rightarrow> ssa_value list" where
  "operands_read k = (case k of Async (StateLoad _ fr) \<Rightarrow> [fr] | _ \<Rightarrow> instruction_operands k)"

fun get_values :: "env \<Rightarrow> ssa_value list \<Rightarrow> mval list outcome" where
  "get_values e [] = Done []"
| "get_values e (v # vs) =
     bind_outcome (get_value e v) (\<lambda>x. bind_outcome (get_values e vs) (\<lambda>xs. Done (x # xs)))"

fun bind_values :: "ssa_value list \<Rightarrow> mval list \<Rightarrow> env \<Rightarrow> env outcome" where
  "bind_values [] [] e = Done e"
| "bind_values (v # vs) (x # xs) e = bind_values vs xs (e(vid v \<mapsto> x))"
| "bind_values _ _ e = Stuck"

definition write_result :: "ssa_value \<times> mval outcome \<Rightarrow> env \<Rightarrow> 'm \<Rightarrow> (env \<times> 'm) outcome" where
  "write_result res e m = bind_outcome (snd res) (\<lambda>x. Done (e(vid (fst res) \<mapsto> x), m))"

definition perform_effect :: "'m machine \<Rightarrow> instruction_kind \<Rightarrow> env \<times> 'm \<Rightarrow> (env \<times> 'm) outcome" where
  "perform_effect M k = (\<lambda>(e, m).
     bind_outcome (get_values e (operands_read k)) (\<lambda>xs.
     bind_outcome (effect M k xs m) (\<lambda>(ys, m').
     bind_outcome (bind_values (defined_values k) ys e) (\<lambda>e'. Done (e', m')))))"

definition exec_kind :: "'m machine \<Rightarrow> instruction_kind \<Rightarrow> env \<times> 'm \<Rightarrow> (env \<times> 'm) outcome" where
  "exec_kind M k = (\<lambda>(e, m). case k of
     Arith a \<Rightarrow> write_result (exec_arith M e a) e m
   | Compare c \<Rightarrow> write_result (exec_compare M e c) e m
   | Logical l \<Rightarrow> write_result (exec_logical M e l) e m
   | Const c \<Rightarrow> (case exec_const M c of
       Some res \<Rightarrow> write_result res e m
     | None \<Rightarrow> perform_effect M k (e, m))
   | Move (Copy r v) \<Rightarrow> write_result (r, get_value e v) e m
   | Move (Phi _ _) \<Rightarrow> Done (e, m)
   | _ \<Rightarrow> perform_effect M k (e, m))"

fun exec_kinds :: "'m machine \<Rightarrow> instruction_kind list \<Rightarrow> env \<times> 'm \<Rightarrow> (env \<times> 'm) outcome" where
  "exec_kinds M [] s = Done s"
| "exec_kinds M (k # ks) s = bind_outcome (exec_kind M k s) (exec_kinds M ks)"

section \<open>Blocks and functions\<close>

text \<open>
  A phi becomes a block parameter: the jump evaluates its incoming value for the block it
  leaves, all phis of the target at once. The descriptor's map is built by insertion, so the
  last entry for a predecessor counts.
\<close>

definition phi_incoming :: "(ssa_value \<times> usize) list \<Rightarrow> usize \<rightharpoonup> ssa_value" where
  "phi_incoming incoming = map_of (map (\<lambda>(v, b). (b, v)) (rev incoming))"

fun phi_descriptors :: "instruction_kind list \<Rightarrow> (ssa_value \<times> (usize \<rightharpoonup> ssa_value)) list" where
  "phi_descriptors [] = []"
| "phi_descriptors (k # ks) = (case k of
     Move (Phi r incoming) \<Rightarrow> (r, phi_incoming incoming) # phi_descriptors ks
   | _ \<Rightarrow> phi_descriptors ks)"

fun get_phi_args :: "env \<Rightarrow> usize \<Rightarrow> (ssa_value \<times> (usize \<rightharpoonup> ssa_value)) list \<Rightarrow> (ssa_value \<times> mval) list outcome" where
  "get_phi_args e cur [] = Done []"
| "get_phi_args e cur ((r, inc) # phis) = (case inc cur of
     None \<Rightarrow> Stuck
   | Some v \<Rightarrow> bind_outcome (get_value e v) (\<lambda>x.
       bind_outcome (get_phi_args e cur phis) (\<lambda>args. Done ((r, x) # args))))"

fun pass_args :: "(ssa_value \<times> mval) list \<Rightarrow> env \<Rightarrow> env" where
  "pass_args [] e = e"
| "pass_args ((r, x) # args) e = pass_args args (e(vid r \<mapsto> x))"

datatype 'm config =
    Running usize env 'm
  | Returned "mval option" 'm
  | Trapped string
  | Stuck_config

definition jump :: "ir_function \<Rightarrow> usize \<Rightarrow> usize \<Rightarrow> env \<Rightarrow> 'm \<Rightarrow> 'm config" where
  "jump f cur target e m = (case get_block f target of
     None \<Rightarrow> Stuck_config
   | Some b \<Rightarrow> (case get_phi_args e cur (phi_descriptors (block_kinds b)) of
       Done args \<Rightarrow> Running target (pass_args args e) m
     | Trap s \<Rightarrow> Trapped s
     | Stuck \<Rightarrow> Stuck_config))"

fun switch_target :: "'m machine \<Rightarrow> mval \<Rightarrow> (i64 \<times> usize) list \<Rightarrow> usize \<Rightarrow> usize" where
  "switch_target M x [] dflt = dflt"
| "switch_target M x ((c, target) # arms) dflt =
     (if brif M (icmp M CC_Eq x (iconst M CI64 c)) then target else switch_target M x arms dflt)"

definition exec_terminator ::
    "'m machine \<Rightarrow> ir_function \<Rightarrow> usize \<Rightarrow> terminator option \<Rightarrow> env \<times> 'm \<Rightarrow> 'm config" where
  "exec_terminator M f cur t = (\<lambda>(e, m). case t of
     None \<Rightarrow> Stuck_config
   | Some Unreachable \<Rightarrow> Trapped ''unreachable''
   | Some (Return None) \<Rightarrow> Returned None (leave_frame M None m)
   | Some (Return (Some v)) \<Rightarrow> (case e (vid v) of
       None \<Rightarrow> Stuck_config | Some x \<Rightarrow> Returned (Some x) (leave_frame M (Some x) m))
   | Some (Branch target) \<Rightarrow> jump f cur target e m
   | Some (CondBranch c yes no) \<Rightarrow> (case e (vid c) of
       None \<Rightarrow> Stuck_config
     | Some x \<Rightarrow> jump f cur (if brif M x then yes else no) e m)
   | Some (Switch v arms dflt) \<Rightarrow> (case e (vid v) of
       None \<Rightarrow> Stuck_config
     | Some x \<Rightarrow> jump f cur (switch_target M x arms dflt) e m))"

definition step_block :: "'m machine \<Rightarrow> ir_function \<Rightarrow> 'm config \<Rightarrow> 'm config" where
  "step_block M f c = (case c of
     Running cur e m \<Rightarrow> (case get_block f cur of
       None \<Rightarrow> Stuck_config
     | Some b \<Rightarrow> (case exec_kinds M (block_kinds b) (e, m) of
         Done s \<Rightarrow> exec_terminator M f cur (b_terminator b) s
       | Trap s \<Rightarrow> Trapped s
       | Stuck \<Rightarrow> Stuck_config))
   | _ \<Rightarrow> c)"

fun run_blocks :: "'m machine \<Rightarrow> ir_function \<Rightarrow> nat \<Rightarrow> 'm config \<Rightarrow> 'm config" where
  "run_blocks M f 0 c = c"
| "run_blocks M f (Suc n) c = run_blocks M f n (step_block M f c)"

text \<open>A call: the parameters bound to the arguments, control at the first block.\<close>

definition start_config :: "ir_function \<Rightarrow> mval list \<Rightarrow> 'm \<Rightarrow> 'm config" where
  "start_config f args m = (case f_blocks f of
     [] \<Rightarrow> Stuck_config
   | b # _ \<Rightarrow> if length args = length (f_params f)
             then Running (b_id b) (map_of (rev (zip (map p_id (f_params f)) args))) m
             else Stuck_config)"

definition run_function :: "'m machine \<Rightarrow> ir_function \<Rightarrow> nat \<Rightarrow> mval list \<Rightarrow> 'm \<Rightarrow> 'm config" where
  "run_function M f n args m = run_blocks M f n (start_config f args m)"

section \<open>What Cranelift documents of the integer instructions\<close>

definition modulus :: "cl_type \<Rightarrow> int" where
  "modulus t = 2 ^ cl_width t"

definition signed_value :: "cl_type \<Rightarrow> int \<Rightarrow> int" where
  "signed_value t a = (if 2 * a < modulus t then a else a - modulus t)"

definition in_class :: "cl_type \<Rightarrow> int \<Rightarrow> bool" where
  "in_class t a \<longleftrightarrow> is_int_class t \<and> 0 \<le> a \<and> a < modulus t"

text \<open>
  Wrap-around addition, subtraction and multiplication; division and remainder on operands
  that are not the two trapping cases; bitwise operations on booleans; comparison for
  equality yields an \<open>I8\<close> zero or one; \<open>brif\<close> takes a branch on a non-zero value.
\<close>

definition cranelift_ok :: "'m machine \<Rightarrow> bool" where
  "cranelift_ok M \<longleftrightarrow>
     (\<forall>t v. is_int_class t \<longrightarrow> iconst M t v = MVal t (sint v mod modulus t)) \<and>
     (\<forall>t a b. in_class t a \<longrightarrow> in_class t b \<longrightarrow>
        iadd M (MVal t a) (MVal t b) = MVal t ((a + b) mod modulus t) \<and>
        isub M (MVal t a) (MVal t b) = MVal t ((a - b) mod modulus t) \<and>
        imul M (MVal t a) (MVal t b) = MVal t ((a * b) mod modulus t) \<and>
        (b \<noteq> 0 \<longrightarrow> udiv M (MVal t a) (MVal t b) = MVal t (a div b) \<and>
                  urem M (MVal t a) (MVal t b) = MVal t (a mod b)) \<and>
        (b \<noteq> 0 \<longrightarrow> \<not> (2 * a = modulus t \<and> b = modulus t - 1) \<longrightarrow>
           csdiv M (MVal t a) (MVal t b) =
             MVal t ((signed_value t a sdiv signed_value t b) mod modulus t) \<and>
           csrem M (MVal t a) (MVal t b) =
             MVal t ((signed_value t a smod signed_value t b) mod modulus t)) \<and>
        icmp M CC_Eq (MVal t a) (MVal t b) = MVal CI8 (if a = b then 1 else 0)) \<and>
     (\<forall>p q. band M (MVal CI8 (of_bool p)) (MVal CI8 (of_bool q)) = MVal CI8 (of_bool (p \<and> q)) \<and>
            bor M (MVal CI8 (of_bool p)) (MVal CI8 (of_bool q)) = MVal CI8 (of_bool (p \<or> q))) \<and>
     (\<forall>t a. brif M (MVal t a) \<longleftrightarrow> a \<noteq> 0)"

section \<open>Facts about the semantics\<close>

lemma bind_outcome_simps [simp]:
  "bind_outcome (Done a) g = g a"
  "bind_outcome (Trap s) g = Trap s"
  "bind_outcome Stuck g = Stuck"
  by (simp_all add: bind_outcome_def)

lemma bind_outcome_Done:
  "bind_outcome x g = Done b \<longleftrightarrow> (\<exists>a. x = Done a \<and> g a = Done b)"
  by (cases x) simp_all

lemma fst_exec_arith: "Some (fst (exec_arith M e a)) = instruction_result (Arith a)"
  by (cases a) (simp_all add: exec_arith_def instruction_result_def)

lemma fst_exec_compare: "Some (fst (exec_compare M e a)) = instruction_result (Compare a)"
  by (cases a) (simp_all add: exec_compare_def instruction_result_def Let_def)

lemma fst_exec_logical: "Some (fst (exec_logical M e a)) = instruction_result (Logical a)"
  by (cases a) (simp_all add: exec_logical_def instruction_result_def)

lemma fst_exec_const: "exec_const M c = Some res \<Longrightarrow> Some (fst res) = instruction_result (Const c)"
  by (cases c) (auto simp: exec_const_def instruction_result_def)

lemmas fst_exec = fst_exec_arith fst_exec_compare fst_exec_logical

lemma bind_values_frame:
  "bind_values vs xs e = Done e' \<Longrightarrow> y \<notin> vid ` set vs \<Longrightarrow> e' y = e y"
  by (induction vs xs e rule: bind_values.induct) auto

lemma write_result_frame:
  assumes "write_result res e m = Done (e', m')" and "Some (fst res) = instruction_result k"
    and "y \<notin> vid ` set (defined_values k)"
  shows "e' y = e y"
proof -
  have "fst res \<in> set (defined_values k)"
    using assms(2) by (simp add: defined_values_result)
  with assms show ?thesis by (auto simp: write_result_def bind_outcome_Done)
qed

lemma perform_effect_frame:
  "perform_effect M k (e, m) = Done (e', m') \<Longrightarrow> y \<notin> vid ` set (defined_values k) \<Longrightarrow> e' y = e y"
  by (auto simp: perform_effect_def bind_outcome_Done bind_values_frame)

text \<open>An instruction changes the values it defines and no others.\<close>

lemma exec_kind_frame:
  assumes ex: "exec_kind M k (e, m) = Done (e', m')" and y: "y \<notin> vid ` set (defined_values k)"
  shows "e' y = e y"
proof (cases k)
  case (Const c)
  with ex y show ?thesis
    by (cases "exec_const M c")
      (auto simp: exec_kind_def perform_effect_frame dest: write_result_frame [OF _ fst_exec_const])
next
  case (Move mv)
  with ex y show ?thesis
    by (cases mv) (auto simp: exec_kind_def write_result_def bind_outcome_Done defined_values_def
        instruction_result_def)
qed (use ex y in \<open>auto simp: exec_kind_def perform_effect_frame
       dest: write_result_frame [OF _ fst_exec_arith] write_result_frame [OF _ fst_exec_compare]
         write_result_frame [OF _ fst_exec_logical]\<close>)

lemma run_blocks_final [simp]:
  "run_blocks M f n (Returned v m) = Returned v m"
  "run_blocks M f n (Trapped s) = Trapped s"
  "run_blocks M f n Stuck_config = Stuck_config"
  by (induction n) (simp_all add: step_block_def)

lemma get_block_kinds: "get_block f i = Some b \<Longrightarrow> set (block_kinds b) \<subseteq> set (function_kinds f)"
  using get_block_Some [of f i b] by (auto simp: function_kinds_def)

lemma exec_terminator_Running:
  "exec_terminator M f cur t (e, m) = Running b e' m' \<Longrightarrow> jump f cur b e m = Running b e' m'"
  by (auto simp: exec_terminator_def jump_def split: option.splits terminator.splits outcome.splits)

text \<open>A step that goes on runs a whole block and enters the next one through its phis.\<close>

lemma step_block_Running:
  assumes step: "step_block M f c = Running b' e' m'"
  obtains cur e m b e1 m1 tb args where "c = Running cur e m" and "get_block f cur = Some b"
    and "exec_kinds M (block_kinds b) (e, m) = Done (e1, m1)" and "get_block f b' = Some tb"
    and "get_phi_args e1 cur (phi_descriptors (block_kinds tb)) = Done args"
    and "e' = pass_args args e1"
proof -
  obtain cur e m where c: "c = Running cur e m" using step by (cases c) (auto simp: step_block_def)
  obtain b e1 m1 where b: "get_block f cur = Some b" "exec_kinds M (block_kinds b) (e, m) = Done (e1, m1)"
      "exec_terminator M f cur (b_terminator b) (e1, m1) = Running b' e' m'"
    using step unfolding c step_block_def by (auto split: option.splits outcome.splits)
  obtain tb args where "get_block f b' = Some tb"
      "get_phi_args e1 cur (phi_descriptors (block_kinds tb)) = Done args" "e' = pass_args args e1"
    using exec_terminator_Running [OF b(3)] unfolding jump_def by (auto split: option.splits outcome.splits)
  with c b that show thesis by blast
qed

text \<open>What evaluates a run of a literal function.\<close>

lemmas run_simps = run_function_def start_config_def step_block_def get_block_def exec_kind_def
  exec_arith_def exec_compare_def exec_logical_def exec_const_def exec_terminator_def
  write_result_def with_operands_def get_value_def float_or_int_def promote_float_operands_def
  jump_def phi_incoming_def eval_nat_numeral

section \<open>A machine for the witnesses\<close>

text \<open>Integer instructions as documented; everything else is inert: a float operation
  returns its first operand, and an effect defines zeros and leaves the memory alone.\<close>

definition lift_int :: "(cl_type \<Rightarrow> int \<Rightarrow> int \<Rightarrow> int) \<Rightarrow> mval \<Rightarrow> mval \<Rightarrow> mval" where
  "lift_int g x y = MVal (ty_of x) (g (ty_of x) (bits_of x) (bits_of y) mod modulus (ty_of x))"

definition inert_machine :: "unit machine" where
  "inert_machine = \<lparr>
     iconst = \<lambda>t v. MVal t (sint v mod modulus t),
     iadd = lift_int (\<lambda>_. (+)), isub = lift_int (\<lambda>_. (-)), imul = lift_int (\<lambda>_. (*)),
     udiv = \<lambda>x y. MVal (ty_of x) (bits_of x div bits_of y),
     urem = \<lambda>x y. MVal (ty_of x) (bits_of x mod bits_of y),
     csdiv = lift_int (\<lambda>t a b. signed_value t a sdiv signed_value t b),
     csrem = lift_int (\<lambda>t a b. signed_value t a smod signed_value t b),
     band = \<lambda>x y. MVal (ty_of x) (Bit_Operations.and (bits_of x) (bits_of y)),
     bor = \<lambda>x y. MVal (ty_of x) (Bit_Operations.or (bits_of x) (bits_of y)),
     bxor = \<lambda>x y. MVal (ty_of x) (Bit_Operations.xor (bits_of x) (bits_of y)),
     ishl = \<lambda>x y. x, ushr = \<lambda>x y. x, sshr = \<lambda>x y. x,
     icmp = \<lambda>cc x y. MVal CI8 (of_bool (bits_of x = bits_of y)),
     fcmp = \<lambda>cc x y. x, fadd = \<lambda>x y. x, fsub = \<lambda>x y. x, fmul = \<lambda>x y. x, fdiv = \<lambda>x y. x,
     fmod = \<lambda>x y. x, fpromote = \<lambda>x. x, f64const = \<lambda>v. MVal CF64 (uint v),
     f32const = \<lambda>v. MVal CF32 (uint v), brif = \<lambda>x. bits_of x \<noteq> 0, leave_frame = \<lambda>v m. m,
     effect = \<lambda>k xs m. Done (map (\<lambda>_. MVal CI64 0) (defined_values k), m)\<rparr>"

lemma inert_machine_ok: "cranelift_ok inert_machine"
  by (auto simp: cranelift_ok_def inert_machine_def lift_int_def in_class_def)

end
