(* ===== verification/Folding_Correct.thy ===== *)
theory Folding_Correct
  imports Constant_Folding Machine
begin

text \<open>
  Constant folding against the generated code: a folded instruction writes the value the
  original would have computed, so a folded function runs in lockstep with the original.
  The statement needs single assignment (the constants are collected once per round for the
  whole function) and division flags that agree with the operand types; it excludes the run
  that stops with the division overflow panic, because a typed remainder of the smallest
  value by minus one is folded although the generated code panics.
\<close>

section \<open>Constants at run time\<close>

definition const_value :: "'m machine \<Rightarrow> known_constant \<Rightarrow> mval option" where
  "const_value M c = (case c of
     KInt v None \<Rightarrow> Some (iconst M CI64 v)
   | KInt v (Some ty) \<Rightarrow> map_option (\<lambda>t. iconst M t v) (ir_type_to_cranelift ty)
   | KBool b \<Rightarrow> Some (iconst M CI8 (if b then 1 else 0)))"

definition consts_hold :: "'m machine \<Rightarrow> constants \<Rightarrow> env \<Rightarrow> bool" where
  "consts_hold M cs e \<longleftrightarrow> (\<forall>i c x. cs i = Some c \<longrightarrow> e i = Some x \<longrightarrow> const_value M c = Some x)"

definition const_of :: "instruction_kind \<Rightarrow> (usize \<times> known_constant) option" where
  "const_of k = (case k of
     Const (ConstInt r v) \<Rightarrow> Some (vid r, KInt v None)
   | Const (ConstIntTyped r v ty) \<Rightarrow> Some (vid r, KInt v (Some ty))
   | Const (ConstBool r v) \<Rightarrow> Some (vid r, KBool v)
   | _ \<Rightarrow> None)"

lemma add_constant_eq:
  "add_constant k cs = (case const_of k of None \<Rightarrow> cs | Some (i, c) \<Rightarrow> cs(i \<mapsto> c))"
  by (auto simp: add_constant_def const_of_def split: kind_splits)

lemma fold_add_constant:
  "fold add_constant ks cs i = Some c \<Longrightarrow> (\<exists>k \<in> set ks. const_of k = Some (i, c)) \<or> cs i = Some c"
  by (induction ks arbitrary: cs) (fastforce simp: add_constant_eq split: option.splits if_splits)+

lemma collect_constants_from:
  "collect_constants f i = Some c \<Longrightarrow> \<exists>k \<in> set (function_kinds f). const_of k = Some (i, c)"
  using fold_add_constant [of "function_kinds f" Map.empty] by (auto simp: collect_constants_def)

lemma const_of_defined: "const_of k = Some (i, c) \<Longrightarrow> i \<in> vid ` set (defined_values k)"
  by (auto simp: const_of_def defined_values_def instruction_result_def split: kind_splits)

lemma const_of_exec:
  "const_of k = Some (i, c) \<Longrightarrow> exec_kind M k (e, m) = Done (e', m') \<Longrightarrow>
   e' i = const_value M c \<and> const_value M c \<noteq> None"
  by (auto simp: const_of_def exec_kind_def exec_const_def write_result_def const_value_def
      split: kind_splits option.splits)

lemma consts_hold_exec:
  assumes ssa: "single_assignment f" and k: "k \<in> set (function_kinds f)"
    and hold: "consts_hold M (collect_constants f) e"
    and ex: "exec_kind M k (e, m) = Done (e', m')"
  shows "consts_hold M (collect_constants f) e'"
  unfolding consts_hold_def
proof (intro allI impI)
  fix i c x
  assume ci: "collect_constants f i = Some c" and x: "e' i = Some x"
  obtain k' where k': "k' \<in> set (function_kinds f)" "const_of k' = Some (i, c)"
    using collect_constants_from [OF ci] by blast
  show "const_value M c = Some x"
  proof (cases "i \<in> vid ` set (defined_values k)")
    case True
    then have "k = k'" using single_assignment_unique [OF ssa k k'(1)] const_of_defined [OF k'(2)] by blast
    then show ?thesis using const_of_exec [OF _ ex] k'(2) x by fastforce
  next
    case False
    then have "e i = Some x" using exec_kind_frame [OF ex] x by simp
    with hold ci show ?thesis by (simp add: consts_hold_def)
  qed
qed

lemma consts_hold_exec_kinds:
  "single_assignment f \<Longrightarrow> set ks \<subseteq> set (function_kinds f) \<Longrightarrow>
   consts_hold M (collect_constants f) e \<Longrightarrow> exec_kinds M ks (e, m) = Done (e', m') \<Longrightarrow>
   consts_hold M (collect_constants f) e'"
proof (induction ks arbitrary: e m)
  case (Cons k ks)
  from Cons.prems(4) obtain e1 m1 where k: "exec_kind M k (e, m) = Done (e1, m1)"
    and ks: "exec_kinds M ks (e1, m1) = Done (e', m')"
    by (auto simp: bind_outcome_Done)
  from Cons.prems have "consts_hold M (collect_constants f) e1"
    by (intro consts_hold_exec [OF _ _ _ k]) auto
  then show ?case using Cons.prems ks by (intro Cons.IH) auto
qed simp

lemma get_phi_args_fst: "get_phi_args e cur phis = Done args \<Longrightarrow> map fst args = map fst phis"
  by (induction e cur phis arbitrary: args rule: get_phi_args.induct)
    (auto simp: bind_outcome_Done split: option.splits)

lemma pass_args_frame: "y \<notin> vid ` fst ` set args \<Longrightarrow> pass_args args e y = e y"
  by (induction args e rule: pass_args.induct) auto

lemma phi_descriptors_phi:
  "(r, inc) \<in> set (phi_descriptors ks) \<Longrightarrow> \<exists>incoming. Move (Phi r incoming) \<in> set ks"
  by (induction ks) (auto split: kind_splits)

lemma consts_hold_pass_args:
  assumes ssa: "single_assignment f" and ks: "set ks \<subseteq> set (function_kinds f)"
    and hold: "consts_hold M (collect_constants f) e"
    and args: "get_phi_args e cur (phi_descriptors ks) = Done args"
  shows "consts_hold M (collect_constants f) (pass_args args e)"
  unfolding consts_hold_def
proof (intro allI impI)
  fix i c x
  assume ci: "collect_constants f i = Some c" and x: "pass_args args e i = Some x"
  obtain k where k: "k \<in> set (function_kinds f)" "const_of k = Some (i, c)"
    using collect_constants_from [OF ci] by blast
  have "i \<notin> vid ` fst ` set args"
  proof
    assume "i \<in> vid ` fst ` set args"
    then obtain r where r: "r \<in> fst ` set args" "vid r = i" by auto
    then have "r \<in> set (map fst (phi_descriptors ks))"
      using get_phi_args_fst [OF args] by (metis list.set_map)
    then obtain inc where "(r, inc) \<in> set (phi_descriptors ks)" by auto
    then obtain incoming where p: "Move (Phi r incoming) \<in> set ks"
      using phi_descriptors_phi by blast
    have "i \<in> vid ` set (defined_values (Move (Phi r incoming)))"
      using r by (auto simp: defined_values_def instruction_result_def)
    then have "k = Move (Phi r incoming)"
      using single_assignment_unique [OF ssa k(1)] p ks const_of_defined [OF k(2)] by blast
    with k(2) show False by (simp add: const_of_def)
  qed
  with x have "e i = Some x" by (simp add: pass_args_frame)
  with hold ci show "const_value M c = Some x" by (simp add: consts_hold_def)
qed

section \<open>A fold computes what the machine computes\<close>

definition word_in :: "'m machine \<Rightarrow> cl_type \<Rightarrow> i64 \<Rightarrow> mval" where
  "word_in M t v = MVal t (sint v mod modulus t)"

lemma modulus_pos [simp]: "0 < modulus t" "modulus t \<noteq> 0"
  by (simp_all add: modulus_def)

lemma in_class_mod [simp]: "is_int_class t \<Longrightarrow> in_class t (x mod modulus t)"
  by (simp add: in_class_def)

lemma cranelift_iconst: "cranelift_ok M \<Longrightarrow> is_int_class t \<Longrightarrow> iconst M t v = word_in M t v"
  by (simp add: cranelift_ok_def word_in_def)

lemma cranelift_icmp_imm:
  "cranelift_ok M \<Longrightarrow> is_int_class t \<Longrightarrow>
   icmp_imm M CC_Eq (word_in M t v) n =
     MVal CI8 (of_bool (sint v mod modulus t = sint n mod modulus t))"
  by (simp add: icmp_imm_def cranelift_ok_def word_in_def)

lemma cranelift_brif: "cranelift_ok M \<Longrightarrow> brif M (MVal t (of_bool p)) \<longleftrightarrow> p"
  by (simp add: cranelift_ok_def)

lemma cranelift_band:
  "cranelift_ok M \<Longrightarrow> band M (MVal CI8 (of_bool p)) (MVal CI8 (of_bool q)) = MVal CI8 (of_bool (p \<and> q))"
  by (simp add: cranelift_ok_def)

lemma float_or_int_word [simp]:
  "is_int_class t \<Longrightarrow> float_or_int M ff gi (word_in M t a) (word_in M t b) = gi (word_in M t a) (word_in M t b)"
  by (cases t) (simp_all add: float_or_int_def promote_float_operands_def word_in_def)

lemma signed_value_mod:
  assumes "- modulus t \<le> 2 * x" and "2 * x < modulus t"
  shows "signed_value t (x mod modulus t) = x"
proof (cases "0 \<le> x")
  case True
  with assms show ?thesis by (simp add: signed_value_def)
next
  case False
  with assms have "x mod modulus t = x + modulus t"
    by (smt (verit) mod_add_self2 mod_pos_pos_trivial)
  with False assms show ?thesis by (simp add: signed_value_def)
qed

lemma signed_min_mod: "is_int_class t \<Longrightarrow> 2 * (sint (signed_min t) mod modulus t) = modulus t"
  by (cases t) (simp_all add: signed_min_def modulus_def i64_min_def)

lemma minus_one_mod: "is_int_class t \<Longrightarrow> sint (- 1 :: i64) mod modulus t = modulus t - 1"
  by (cases t) (simp_all add: modulus_def)

definition fits_class :: "cl_type \<Rightarrow> bool \<Rightarrow> i64 \<Rightarrow> bool" where
  "fits_class t uns v \<longleftrightarrow>
     (if uns then 0 \<le> sint v \<and> sint v < modulus t
      else - modulus t \<le> 2 * sint v \<and> 2 * sint v < modulus t)"

lemma fits_class_zero: "fits_class t uns v \<Longrightarrow> sint v mod modulus t = 0 \<longleftrightarrow> sint v = 0"
  using signed_value_mod [of t "sint v"] by (auto simp: fits_class_def signed_value_def split: if_splits)

lemma not_zero_branch:
  assumes "cranelift_ok M" and "is_int_class t" and "fits_class t uns b" and "sint b \<noteq> 0"
  shows "\<not> brif M (icmp_imm M CC_Eq (word_in M t b) 0)"
  using assms by (simp only: cranelift_icmp_imm cranelift_brif) (simp add: fits_class_zero)

lemma divrem_nonzero:
  "checked_op (if is_rem then OpRem else OpDiv) a b = Some v \<Longrightarrow> sint b \<noteq> 0"
  using signed_word_eqI [of b 0]
  by (cases is_rem) (auto simp: checked_op_def checked_div_def checked_rem_def split: if_splits)

lemma quotient_below:
  fixes a b n :: int
  assumes "0 \<le> a" "a < n" "0 \<le> b" "b < n" "b \<noteq> 0"
  shows "a div b mod n = a div b" and "a mod b mod n = a mod b"
proof -
  have "a div b \<le> a" using assms zdiv_mono2 [of a 1 b] by simp
  then show "a div b mod n = a div b"
    using assms by (intro mod_pos_pos_trivial) (simp_all add: pos_imp_zdiv_nonneg_iff)
  have "a mod b < n" using assms pos_mod_bound [of b a] by linarith
  then show "a mod b mod n = a mod b"
    using assms by (intro mod_pos_pos_trivial) simp_all
qed

lemma divrem_unsigned:
  assumes ok: "cranelift_ok M" and t: "is_int_class t"
    and v: "checked_op (if is_rem then OpRem else OpDiv) a b = Some v"
    and a: "fits_class t True a" and b: "fits_class t True b"
  shows "emit_checked_int_divrem M msg is_rem True (word_in M t a) (word_in M t b) = Done (word_in M t v)"
proof -
  have b0: "sint b \<noteq> 0" and ev: "sint v = exact_op (if is_rem then OpRem else OpDiv) (sint a) (sint b)"
    using checked_op_Some(1) [OF v] divrem_nonzero [OF v] by simp_all
  have eq: "sint a mod modulus t = sint a" "sint b mod modulus t = sint b"
    using a b by (simp_all add: fits_class_def)
  have nz: "\<not> brif M (icmp_imm M CC_Eq (word_in M t b) 0)"
    by (rule not_zero_branch [OF ok t b b0])
  have cls: "in_class t (sint a)" "in_class t (sint b)"
    using a b t by (simp_all add: fits_class_def in_class_def)
  have "udiv M (word_in M t a) (word_in M t b) = MVal t (sint a div sint b)"
    "urem M (word_in M t a) (word_in M t b) = MVal t (sint a mod sint b)"
    using ok cls b0 unfolding cranelift_ok_def word_in_def eq by blast+
  moreover have "sint a div sint b mod modulus t = sint a div sint b"
    "sint a mod sint b mod modulus t = sint a mod sint b"
    using a b b0 by (simp_all add: fits_class_def quotient_below)
  moreover have "sint v = (if is_rem then sint a mod sint b else sint a div sint b)"
    using a b b0 ev by (auto simp: exact_op_def fits_class_def signed_divide_int_def
        signed_modulo_int_def sgn_if minus_div_mult_eq_mod)
  ultimately show ?thesis using nz
    by (cases is_rem) (simp_all add: emit_checked_int_divrem_def word_in_def)
qed

lemma divrem_overflow:
  assumes ok: "cranelift_ok M" and t: "is_int_class t" and b: "fits_class t False b" "sint b \<noteq> 0"
    and "sint b mod modulus t = sint (- 1 :: i64) mod modulus t"
    and "sint a mod modulus t = sint (signed_min t) mod modulus t"
  shows "emit_checked_int_divrem M msg is_rem False (word_in M t a) (word_in M t b) =
     Trap ''integer division overflow''"
proof -
  have "brif M (band M (icmp_imm M CC_Eq (word_in M t b) (- 1))
      (icmp_imm M CC_Eq (word_in M t a) (signed_min t)))"
    using assms by (simp only: cranelift_icmp_imm cranelift_band cranelift_brif)
  then show ?thesis
    using not_zero_branch [OF ok t b] by (simp add: emit_checked_int_divrem_def word_in_def)
qed

lemma divrem_signed:
  assumes ok: "cranelift_ok M" and t: "is_int_class t"
    and v: "checked_op (if is_rem then OpRem else OpDiv) a b = Some v"
    and a: "fits_class t False a" and b: "fits_class t False b"
  shows "emit_checked_int_divrem M msg is_rem False (word_in M t a) (word_in M t b)
     \<in> {Done (word_in M t v), Trap ''integer division overflow''}"
proof -
  let ?a = "sint a mod modulus t" and ?b = "sint b mod modulus t"
  have b0: "sint b \<noteq> 0" and ev: "sint v = exact_op (if is_rem then OpRem else OpDiv) (sint a) (sint b)"
    using checked_op_Some(1) [OF v] divrem_nonzero [OF v] by simp_all
  have nz: "\<not> brif M (icmp_imm M CC_Eq (word_in M t b) 0)" "?b \<noteq> 0"
    using not_zero_branch [OF ok t b b0] fits_class_zero [OF b] b0 by simp_all
  show ?thesis
  proof (cases "?b = sint (- 1 :: i64) mod modulus t \<and> ?a = sint (signed_min t) mod modulus t")
    case True
    then show ?thesis using divrem_overflow [OF ok t b b0] by simp
  next
    case False
    have "\<not> (2 * ?a = modulus t \<and> ?b = modulus t - 1)"
      using False signed_min_mod [OF t] minus_one_mod [OF t] by (smt (verit))
    moreover have "in_class t ?a" "in_class t ?b" using t by simp_all
    ultimately have "csdiv M (word_in M t a) (word_in M t b) = MVal t (sint a sdiv sint b mod modulus t)"
      "csrem M (word_in M t a) (word_in M t b) = MVal t (sint a smod sint b mod modulus t)"
      using ok nz(2) a b unfolding cranelift_ok_def word_in_def
      by (simp_all add: fits_class_def signed_value_mod)
    moreover have "\<not> brif M (band M (icmp_imm M CC_Eq (word_in M t b) (- 1))
        (icmp_imm M CC_Eq (word_in M t a) (signed_min t)))"
      using ok t False by (simp only: cranelift_icmp_imm cranelift_band cranelift_brif) blast
    ultimately show ?thesis using nz ev
      by (cases is_rem) (simp_all add: emit_checked_int_divrem_def word_in_def exact_op_def)
  qed
qed


text \<open>The machine class of an integer constant, and when a fold's operands fit it.\<close>

definition const_class :: "ir_type option \<Rightarrow> cl_type option" where
  "const_class ty = (case ty of None \<Rightarrow> Some CI64 | Some t \<Rightarrow> ir_type_to_cranelift t)"

fun narrow_unsigned :: "ir_type option \<Rightarrow> bool" where
  "narrow_unsigned (Some (TExactInt False w)) \<longleftrightarrow> w \<in> {I8, I16, I32}"
| "narrow_unsigned _ \<longleftrightarrow> False"

lemma const_class_int:
  "(\<And>t. ty = Some t \<Longrightarrow> value_fits_int_type v t) \<Longrightarrow> \<exists>t. const_class ty = Some t \<and> is_int_class t"
  by (cases ty) (auto simp: const_class_def value_fits_int_type_def int_type_range_def
      split: option.splits ir_type.splits int_width.splits)

lemma const_value_int:
  "cranelift_ok M \<Longrightarrow> const_class ty = Some t \<Longrightarrow> is_int_class t \<Longrightarrow>
   const_value M (KInt v ty) = Some (word_in M t v)"
  by (auto simp: const_class_def const_value_def cranelift_iconst split: option.splits)

lemma const_value_bool:
  "cranelift_ok M \<Longrightarrow> const_value M (KBool p) = Some (MVal CI8 (of_bool p))"
  by (simp add: const_value_def cranelift_iconst word_in_def modulus_def)

lemma sint_i64_bounds: "- 9223372036854775808 \<le> sint (v :: i64)" "sint (v :: i64) < 9223372036854775808"
  using sint_ge [of v] sint_lt [of v] by simp_all

lemma fits_class_const:
  assumes "\<And>t. ty = Some t \<Longrightarrow> value_fits_int_type v t" and "const_class ty = Some t"
    and "uns \<Longrightarrow> 0 \<le> sint v" and "\<not> uns \<Longrightarrow> \<not> narrow_unsigned ty"
  shows "fits_class t uns v"
  using assms sint_i64_bounds [of v]
  by (cases ty) (auto simp: const_class_def fits_class_def modulus_def value_fits_int_type_def
      int_type_range_def i64_min_def i64_max_def
      split: option.splits ir_type.splits int_width.splits if_splits)

lemma ring_fold:
  assumes ok: "cranelift_ok M" and t: "is_int_class t"
  shows "checked_op OpAdd a b = Some v \<Longrightarrow> iadd M (word_in M t a) (word_in M t b) = word_in M t v"
    and "checked_op OpSub a b = Some v \<Longrightarrow> isub M (word_in M t a) (word_in M t b) = word_in M t v"
    and "checked_op OpMul a b = Some v \<Longrightarrow> imul M (word_in M t a) (word_in M t b) = word_in M t v"
proof -
  let ?a = "sint a mod modulus t" and ?b = "sint b mod modulus t"
  have cls: "in_class t ?a" "in_class t ?b" using t by simp_all
  have "iadd M (word_in M t a) (word_in M t b) = MVal t ((?a + ?b) mod modulus t)"
    "isub M (word_in M t a) (word_in M t b) = MVal t ((?a - ?b) mod modulus t)"
    "imul M (word_in M t a) (word_in M t b) = MVal t ((?a * ?b) mod modulus t)"
    using ok cls unfolding cranelift_ok_def word_in_def by blast+
  then show "checked_op OpAdd a b = Some v \<Longrightarrow> iadd M (word_in M t a) (word_in M t b) = word_in M t v"
    and "checked_op OpSub a b = Some v \<Longrightarrow> isub M (word_in M t a) (word_in M t b) = word_in M t v"
    and "checked_op OpMul a b = Some v \<Longrightarrow> imul M (word_in M t a) (word_in M t b) = word_in M t v"
    by (auto simp: word_in_def exact_op_def mod_simps dest!: checked_op_Some(1))
qed

section \<open>One instruction\<close>

definition signed_divisions_ok :: "constants \<Rightarrow> instruction_kind \<Rightarrow> bool" where
  "signed_divisions_ok cs k = (case k of
     Arith (Div _ l _ False) \<Rightarrow> (case cs (vid l) of Some (KInt _ ty) \<Rightarrow> \<not> narrow_unsigned ty | _ \<Rightarrow> True)
   | Arith (Rem _ l _ False) \<Rightarrow> (case cs (vid l) of Some (KInt _ ty) \<Rightarrow> \<not> narrow_unsigned ty | _ \<Rightarrow> True)
   | _ \<Rightarrow> True)"

definition overflow_trap :: "'a outcome" where
  "overflow_trap = Trap ''integer division overflow''"

lemma exec_constant_instruction:
  "exec_kind M (constant_instruction r c) (e, m) =
     (case const_value M c of Some x \<Rightarrow> Done (e(vid r \<mapsto> x), m) | None \<Rightarrow> Stuck)"
  by (auto simp: constant_instruction_def exec_kind_def exec_const_def write_result_def const_value_def
      split: known_constant.splits option.splits)

lemma with_operands_Done:
  "with_operands e l h g \<noteq> Stuck \<Longrightarrow> \<exists>x y. e (vid l) = Some x \<and> e (vid h) = Some y \<and> with_operands e l h g = g x y"
  by (auto simp: with_operands_def get_value_def split: option.splits)

lemma folded_int_operands:
  assumes ok: "cranelift_ok M" and hold: "consts_hold M cs e"
    and fold: "fold_int_binop cs l h op uns = Some c"
    and ns: "with_operands e l h g \<noteq> Stuck"
  obtains a b v ty t where "checked_op op a b = Some v" and "is_int_class t"
    and "const_value M c = Some (word_in M t v)"
    and "with_operands e l h g = g (word_in M t a) (word_in M t b)"
    and "(\<not> uns \<Longrightarrow> \<forall>a ty. cs (vid l) = Some (KInt a ty) \<longrightarrow> \<not> narrow_unsigned ty) \<Longrightarrow>
           fits_class t uns a \<and> fits_class t uns b"
proof -
  obtain a b v ty where f: "cs (vid l) = Some (KInt a ty)" "cs (vid h) = Some (KInt b ty)"
      "c = KInt v ty" "checked_op op a b = Some v" "uns \<longrightarrow> 0 \<le> sint a \<and> 0 \<le> sint b"
      "\<forall>t. ty = Some t \<longrightarrow> value_fits_int_type a t \<and> value_fits_int_type b t \<and> value_fits_int_type v t"
    by (rule fold_int_binop_Some [OF fold]) blast
  obtain t where t: "const_class ty = Some t" "is_int_class t"
    using const_class_int [of ty v] f(6) by blast
  obtain x y where xy: "e (vid l) = Some x" "e (vid h) = Some y" "with_operands e l h g = g x y"
    using with_operands_Done [OF ns] by blast
  have "x = word_in M t a" "y = word_in M t b"
    using hold f(1,2) xy(1,2) const_value_int [OF ok t] unfolding consts_hold_def by fastforce+
  moreover have "fits_class t uns a \<and> fits_class t uns b"
    if "\<not> uns \<Longrightarrow> \<forall>a ty. cs (vid l) = Some (KInt a ty) \<longrightarrow> \<not> narrow_unsigned ty"
    using that f fits_class_const [OF _ t(1)] by blast
  ultimately show thesis
    using that [OF f(4) t(2)] const_value_int [OF ok t] f(3) xy(3) by simp
qed

lemma fold_int_exec:
  assumes ok: "cranelift_ok M" and hold: "consts_hold M cs e"
    and fold: "fold_int_binop cs l h op uns = Some c"
    and flags: "\<not> uns \<and> divides_op op \<Longrightarrow> \<forall>a ty. cs (vid l) = Some (KInt a ty) \<longrightarrow> \<not> narrow_unsigned ty"
    and g: "g = (case op of OpAdd \<Rightarrow> float_or_int M (\<lambda>x y. Done (fadd M x y)) (\<lambda>x y. Done (iadd M x y))
      | OpSub \<Rightarrow> float_or_int M (\<lambda>x y. Done (fsub M x y)) (\<lambda>x y. Done (isub M x y))
      | OpMul \<Rightarrow> float_or_int M (\<lambda>x y. Done (fmul M x y)) (\<lambda>x y. Done (imul M x y))
      | OpDiv \<Rightarrow> float_or_int M (\<lambda>x y. Done (fdiv M x y)) (emit_checked_int_divrem M msg False uns)
      | OpRem \<Rightarrow> float_or_int M (\<lambda>x y. Done (fmod M x y)) (emit_checked_int_divrem M msg True uns))"
    and ns: "with_operands e l h g \<noteq> Stuck" "with_operands e l h g \<noteq> overflow_trap"
  obtains x where "const_value M c = Some x" and "with_operands e l h g = Done x"
proof -
  obtain a b v ty t where v: "checked_op op a b = Some v" and t: "is_int_class t"
    and c: "const_value M c = Some (word_in M t v)"
    and w: "with_operands e l h g = g (word_in M t a) (word_in M t b)"
    and fits: "(\<not> uns \<Longrightarrow> \<forall>a ty. cs (vid l) = Some (KInt a ty) \<longrightarrow> \<not> narrow_unsigned ty) \<Longrightarrow>
           fits_class t uns a \<and> fits_class t uns b"
    using folded_int_operands [OF ok hold fold ns(1)] by metis
  have "g (word_in M t a) (word_in M t b) = Done (word_in M t v)"
  proof (cases "divides_op op")
    case False
    with v t show ?thesis
      by (cases op) (simp_all add: g divides_op_def ring_fold [OF ok t])
  next
    case True
    with flags fits have fc: "fits_class t uns a" "fits_class t uns b" by blast+
    have op: "op = (if op = OpRem then OpRem else OpDiv)" using True by (auto simp: divides_op_def)
    have "g (word_in M t a) (word_in M t b) =
        emit_checked_int_divrem M msg (op = OpRem) uns (word_in M t a) (word_in M t b)"
      using True t by (auto simp: g divides_op_def)
    then show ?thesis
      using ns(2) w fc divrem_unsigned [OF ok t, of "op = OpRem" a b v msg]
        divrem_signed [OF ok t, of "op = OpRem" a b v msg] v op
      by (cases uns) (auto simp: overflow_trap_def)
  qed
  with w c that show thesis by simp
qed

lemma fold_logical_exec:
  assumes ok: "cranelift_ok M" and hold: "consts_hold M cs e"
    and fold: "folded_value cs (Logical lk) = Some c"
    and ns: "snd (exec_logical M e lk) \<noteq> Stuck"
  shows "\<exists>x. const_value M c = Some x \<and> snd (exec_logical M e lk) = Done x"
proof -
  have bits: "x = MVal CI8 (of_bool p)" if "cs i = Some (KBool p)" "e i = Some x" for i p x
    using hold that const_value_bool [OF ok] by (fastforce simp: consts_hold_def)
  have not_bit: "icmp_imm M CC_Eq (MVal CI8 (of_bool p)) 0 = MVal CI8 (of_bool (\<not> p))" for p
    using cranelift_icmp_imm [OF ok, of CI8 "of_bool p" 0] by (cases p) (simp_all add: word_in_def modulus_def)
  have bit_ops: "band M (MVal CI8 (of_bool p)) (MVal CI8 (of_bool q)) = MVal CI8 (of_bool (p \<and> q))"
    "bor M (MVal CI8 (of_bool p)) (MVal CI8 (of_bool q)) = MVal CI8 (of_bool (p \<or> q))" for p q
    using ok unfolding cranelift_ok_def by blast+
  show ?thesis
  proof (cases lk)
    case (And r l h)
    with fold obtain p q where pq: "cs (vid l) = Some (KBool p)" "cs (vid h) = Some (KBool q)" "c = KBool (p \<and> q)"
      by (auto simp: folded_value_def elim: fold_bool_binop_Some)
    obtain x y where xy: "e (vid l) = Some x" "e (vid h) = Some y" "snd (exec_logical M e lk) = Done (band M x y)"
      using And ns with_operands_Done [of e l h "\<lambda>x y. Done (band M x y)"] by (auto simp: exec_logical_def)
    show ?thesis
      using bits [OF pq(1) xy(1)] bits [OF pq(2) xy(2)] pq(3) xy(3) const_value_bool [OF ok] bit_ops by metis
  next
    case (Or r l h)
    with fold obtain p q where pq: "cs (vid l) = Some (KBool p)" "cs (vid h) = Some (KBool q)" "c = KBool (p \<or> q)"
      by (auto simp: folded_value_def elim: fold_bool_binop_Some)
    obtain x y where xy: "e (vid l) = Some x" "e (vid h) = Some y" "snd (exec_logical M e lk) = Done (bor M x y)"
      using Or ns with_operands_Done [of e l h "\<lambda>x y. Done (bor M x y)"] by (auto simp: exec_logical_def)
    show ?thesis
      using bits [OF pq(1) xy(1)] bits [OF pq(2) xy(2)] pq(3) xy(3) const_value_bool [OF ok] bit_ops by metis
  next
    case (Not r v)
    with fold obtain p where "cs (vid v) = Some (KBool p)" "c = KBool (\<not> p)"
      by (auto simp: folded_value_def split: option.splits known_constant.splits)
    moreover obtain x where "e (vid v) = Some x" "snd (exec_logical M e lk) = Done (icmp_imm M CC_Eq x 0)"
      using Not ns by (auto simp: exec_logical_def get_value_def split: option.splits)
    ultimately show ?thesis using bits const_value_bool [OF ok] not_bit by metis
  qed
qed

lemma write_result_eqI:
  "const_value M c = Some x \<Longrightarrow> snd res = Done x \<Longrightarrow>
   exec_kind M (constant_instruction (fst res) c) (e, m) = write_result res e m"
  by (simp add: exec_constant_instruction write_result_def)

lemma write_result_fails:
  "write_result res e m \<noteq> Stuck \<Longrightarrow> snd res \<noteq> Stuck"
  "write_result res e m \<noteq> overflow_trap \<Longrightarrow> snd res \<noteq> overflow_trap"
  by (auto simp: write_result_def overflow_trap_def)

lemma fold_arith_exec:
  assumes ok: "cranelift_ok M" and hold: "consts_hold M cs e"
    and flags: "signed_divisions_ok cs (Arith a)" and fold: "folded_value cs (Arith a) = Some c"
    and ns: "snd (exec_arith M e a) \<noteq> Stuck" "snd (exec_arith M e a) \<noteq> overflow_trap"
  shows "\<exists>x. const_value M c = Some x \<and> snd (exec_arith M e a) = Done x"
proof -
  note fe = fold_int_exec [OF ok hold _ _ refl]
  show ?thesis
  proof (cases a)
    case (Add r l h)
    show ?thesis using fold ns by (auto simp: Add folded_value_def exec_arith_def divides_op_def
        elim!: fe [where op = OpAdd, simplified])
  next
    case (Sub r l h)
    show ?thesis using fold ns by (auto simp: Sub folded_value_def exec_arith_def divides_op_def
        elim!: fe [where op = OpSub, simplified])
  next
    case (Mul r l h)
    show ?thesis using fold ns by (auto simp: Mul folded_value_def exec_arith_def divides_op_def
        elim!: fe [where op = OpMul, simplified])
  next
    case (Div r l h u)
    show ?thesis using fold ns flags
      by (auto simp: Div folded_value_def exec_arith_def divides_op_def signed_divisions_ok_def
        split: bool.splits elim!: fe [where op = OpDiv, simplified])
  next
    case (Rem r l h u)
    show ?thesis using fold ns flags
      by (auto simp: Rem folded_value_def exec_arith_def divides_op_def signed_divisions_ok_def
        split: bool.splits elim!: fe [where op = OpRem, simplified])
  qed (use fold in \<open>simp_all add: folded_value_def\<close>)
qed

text \<open>A folded instruction and the original leave the same state.\<close>

lemma fold_kind_exec:
  assumes ok: "cranelift_ok M" and hold: "consts_hold M cs e" and flags: "signed_divisions_ok cs k"
    and ns: "exec_kind M k (e, m) \<noteq> Stuck" "exec_kind M k (e, m) \<noteq> overflow_trap"
  shows "exec_kind M (fold_kind cs k) (e, m) = exec_kind M k (e, m)"
proof (cases "folded_value cs k")
  case (Some c)
  then consider a where "k = Arith a" | l where "k = Logical l" by (erule_tac folded_value_cases) auto
  then show ?thesis
  proof cases
    case 1
    obtain x where x: "const_value M c = Some x" "snd (exec_arith M e a) = Done x"
      using fold_arith_exec [OF ok hold, of a c] write_result_fails [of "exec_arith M e a" e m] flags Some ns
      by (auto simp: 1 exec_kind_def)
    have "fold_kind cs k = constant_instruction (fst (exec_arith M e a)) c"
      using Some by (cases a) (auto simp: 1 fold_kind_def get_result_def exec_arith_def)
    then show ?thesis using write_result_eqI [OF x, of e m] by (simp add: 1 exec_kind_def)
  next
    case 2
    obtain x where x: "const_value M c = Some x" "snd (exec_logical M e l) = Done x"
      using fold_logical_exec [OF ok hold, of l c] write_result_fails [of "exec_logical M e l" e m] Some ns
      by (auto simp: 2 exec_kind_def)
    have "fold_kind cs k = constant_instruction (fst (exec_logical M e l)) c"
      using Some by (cases l) (auto simp: 2 fold_kind_def get_result_def exec_logical_def)
    then show ?thesis using write_result_eqI [OF x, of e m] by (simp add: 2 exec_kind_def)
  qed
qed simp

section \<open>Whole functions\<close>

text \<open>
  Types for the values that folding looks at: a constant has its own, an arithmetic result
  the one its operands share. A division without the unsigned flag has no narrow unsigned
  operands; lowering sets the flag from the operand type.
\<close>

type_synonym value_typing = "usize \<Rightarrow> ir_type option"

definition division_flag :: "value_typing \<Rightarrow> instruction_kind \<Rightarrow> bool" where
  "division_flag ty k = (case k of
     Const (ConstInt r _) \<Rightarrow> ty (vid r) = None
   | Const (ConstIntTyped r _ t) \<Rightarrow> ty (vid r) = Some t
   | Arith (Add r l h) \<Rightarrow> ty (vid l) = ty (vid h) \<longrightarrow> ty (vid r) = ty (vid l)
   | Arith (Sub r l h) \<Rightarrow> ty (vid l) = ty (vid h) \<longrightarrow> ty (vid r) = ty (vid l)
   | Arith (Mul r l h) \<Rightarrow> ty (vid l) = ty (vid h) \<longrightarrow> ty (vid r) = ty (vid l)
   | Arith (Div r l h u) \<Rightarrow> (ty (vid l) = ty (vid h) \<longrightarrow> ty (vid r) = ty (vid l)) \<and>
       (u \<or> \<not> narrow_unsigned (ty (vid l)))
   | Arith (Rem r l h u) \<Rightarrow> (ty (vid l) = ty (vid h) \<longrightarrow> ty (vid r) = ty (vid l)) \<and>
       (u \<or> \<not> narrow_unsigned (ty (vid l)))
   | _ \<Rightarrow> True)"

definition division_flags :: "value_typing \<Rightarrow> ir_function \<Rightarrow> bool" where
  "division_flags ty f \<longleftrightarrow> list_all (division_flag ty) (function_kinds f)"

lemma const_of_type: "const_of k = Some (i, KInt v t) \<Longrightarrow> division_flag ty k \<Longrightarrow> ty i = t"
  by (auto simp: const_of_def division_flag_def split: instruction_kind.splits const_kind.splits)

lemma collected_type:
  "division_flags ty f \<Longrightarrow> collect_constants f i = Some (KInt v t) \<Longrightarrow> ty i = t"
  using collect_constants_from const_of_type by (fastforce simp: division_flags_def list_all_iff)

lemma division_flags_signed:
  assumes "division_flags ty f" and "k \<in> set (function_kinds f)"
  shows "signed_divisions_ok (collect_constants f) k"
proof -
  have "division_flag ty k" using assms by (simp add: division_flags_def list_all_iff)
  then show ?thesis using collected_type [OF assms(1)]
    by (fastforce simp: signed_divisions_ok_def division_flag_def
        split: kind_splits option.splits known_constant.splits bool.splits)
qed

lemma folded_value_type:
  assumes "division_flags ty f" and "k \<in> set (function_kinds f)"
    and "folded_value (collect_constants f) k = Some (KInt v t)" and "get_result k = Some r"
  shows "ty (vid r) = t"
proof -
  have "division_flag ty k" using assms by (simp add: division_flags_def list_all_iff)
  with assms(3,4) collected_type [OF assms(1)] show ?thesis
    by (auto simp: folded_value_def get_result_def division_flag_def
        elim!: fold_int_binop_Some fold_bool_binop_Some
        split: kind_splits option.splits known_constant.splits)
qed

lemma division_flags_fold:
  assumes "division_flags ty f"
  shows "division_flags ty (map_blocks (fold_block (collect_constants f)) f)"
  unfolding division_flags_def list_all_iff
proof
  fix k' assume "k' \<in> set (function_kinds (map_blocks (fold_block (collect_constants f)) f))"
  then obtain k where k: "k \<in> set (function_kinds f)" "k' = fold_kind (collect_constants f) k" by auto
  show "division_flag ty k'"
  proof (cases "folded_value (collect_constants f) k")
    case None
    with k assms show ?thesis by (simp add: division_flags_def list_all_iff)
  next
    case (Some c)
    then obtain r where "get_result k = Some r" using folded_value_result by blast
    with Some k folded_value_type [OF assms k(1)] show ?thesis
      by (auto simp: fold_kind_def constant_instruction_def division_flag_def
          split: known_constant.splits option.splits)
  qed
qed

lemma defined_values_fold_kind [simp]: "defined_values (fold_kind cs k) = defined_values k"
proof (cases "folded_value cs k")
  case (Some c)
  then show ?thesis
    by (rule folded_value_cases)
      (auto simp: Some fold_kind_def get_result_def constant_instruction_def defined_values_def
        instruction_result_def split: known_constant.splits option.splits)
qed simp

lemma single_assignment_fold: "single_assignment (map_blocks (fold_block cs) f) = single_assignment f"
  by (simp add: single_assignment_def definitions_of_def comp_def)

lemma fold_kind_not_phi: "folded_value cs k = Some c \<Longrightarrow> fold_kind cs k \<noteq> Move (Phi r inc) \<and> k \<noteq> Move (Phi r inc)"
  by (erule folded_value_cases)
    (auto simp: fold_kind_def get_result_def constant_instruction_def
      split: option.splits known_constant.splits)

lemma phi_descriptors_fold [simp]: "phi_descriptors (map (fold_kind cs) ks) = phi_descriptors ks"
proof (induction ks)
  case (Cons k ks)
  show ?case
  proof (cases "folded_value cs k")
    case (Some c)
    with fold_kind_not_phi [OF Some] Cons show ?thesis by (auto split: kind_splits)
  qed (use Cons in \<open>simp split: instruction_kind.splits move_kind.splits\<close>)
qed simp

lemma fold_block_sel [simp]:
  "b_id (fold_block cs b) = b_id b" "b_terminator (fold_block cs b) = b_terminator b"
  by (simp_all add: fold_block_def)

lemma get_block_fold [simp]:
  "get_block (map_blocks (fold_block cs) f) i = map_option (fold_block cs) (get_block f i)"
  by (rule get_block_map_blocks) simp

lemma jump_fold [simp]: "jump (map_blocks (fold_block cs) f) = jump f"
  by (intro ext) (simp add: jump_def split: option.splits)

lemma exec_terminator_fold [simp]:
  "exec_terminator M (map_blocks (fold_block cs) f) = exec_terminator M f"
  unfolding exec_terminator_def jump_fold ..

lemma fold_kinds_exec:
  assumes ok: "cranelift_ok M" and ssa: "single_assignment f" and flags: "division_flags ty f"
  shows "set ks \<subseteq> set (function_kinds f) \<Longrightarrow> consts_hold M (collect_constants f) e \<Longrightarrow>
    exec_kinds M ks (e, m) \<noteq> Stuck \<Longrightarrow> exec_kinds M ks (e, m) \<noteq> overflow_trap \<Longrightarrow>
    exec_kinds M (map (fold_kind (collect_constants f)) ks) (e, m) = exec_kinds M ks (e, m)"
proof (induction ks arbitrary: e m)
  case (Cons k ks)
  let ?cs = "collect_constants f"
  have k: "k \<in> set (function_kinds f)" using Cons.prems by simp
  have "exec_kind M k (e, m) \<noteq> Stuck" "exec_kind M k (e, m) \<noteq> overflow_trap"
    using Cons.prems by (auto simp: overflow_trap_def)
  then have eq: "exec_kind M (fold_kind ?cs k) (e, m) = exec_kind M k (e, m)"
    by (rule fold_kind_exec [OF ok Cons.prems(2) division_flags_signed [OF flags k]])
  show ?case
  proof (cases "exec_kind M k (e, m)")
    case (Done s)
    obtain e1 m1 where s: "s = (e1, m1)" by (cases s)
    have "consts_hold M ?cs e1" using Done s consts_hold_exec [OF ssa k Cons.prems(2)] by blast
    with Cons Done s show ?thesis by (simp add: eq)
  qed (simp_all add: eq)
qed simp

definition config_holds :: "'m machine \<Rightarrow> constants \<Rightarrow> 'm config \<Rightarrow> bool" where
  "config_holds M cs c = (case c of Running _ e _ \<Rightarrow> consts_hold M cs e | _ \<Rightarrow> True)"

definition unexcluded :: "'m config \<Rightarrow> bool" where
  "unexcluded c \<longleftrightarrow> c \<noteq> Stuck_config \<and> c \<noteq> Trapped ''integer division overflow''"

lemma config_holds_step:
  assumes ssa: "single_assignment f" and hold: "config_holds M (collect_constants f) c"
  shows "config_holds M (collect_constants f) (step_block M f c)"
proof (cases "step_block M f c")
  case (Running b' e' m')
  then obtain cur e m b e1 m1 tb args where c: "c = Running cur e m" and b: "get_block f cur = Some b"
    and ks: "exec_kinds M (block_kinds b) (e, m) = Done (e1, m1)" and tb: "get_block f b' = Some tb"
    and args: "get_phi_args e1 cur (phi_descriptors (block_kinds tb)) = Done args"
    and e': "e' = pass_args args e1"
    by (rule step_block_Running)
  have "consts_hold M (collect_constants f) e" using hold by (simp add: c config_holds_def)
  then have "consts_hold M (collect_constants f) e1"
    by (rule consts_hold_exec_kinds [OF ssa get_block_kinds [OF b] _ ks])
  then have "consts_hold M (collect_constants f) e'"
    unfolding e' by (rule consts_hold_pass_args [OF ssa get_block_kinds [OF tb] _ args])
  then show ?thesis by (simp add: Running config_holds_def)
qed (simp_all add: config_holds_def)

lemma step_fold:
  assumes ok: "cranelift_ok M" and ssa: "single_assignment f" and flags: "division_flags ty f"
    and hold: "config_holds M (collect_constants f) c" and ns: "unexcluded (step_block M f c)"
  shows "step_block M (map_blocks (fold_block (collect_constants f)) f) c = step_block M f c"
proof (cases c)
  case (Running cur e m)
  show ?thesis
  proof (cases "get_block f cur")
    case (Some b)
    have "exec_kinds M (block_kinds b) (e, m) \<noteq> Stuck" "exec_kinds M (block_kinds b) (e, m) \<noteq> overflow_trap"
      using ns by (auto simp: Running Some step_block_def unexcluded_def overflow_trap_def)
    moreover have "consts_hold M (collect_constants f) e" using hold by (simp add: Running config_holds_def)
    ultimately have "exec_kinds M (map (fold_kind (collect_constants f)) (block_kinds b)) (e, m) =
        exec_kinds M (block_kinds b) (e, m)"
      by (intro fold_kinds_exec [OF ok ssa flags get_block_kinds [OF Some]])
    then show ?thesis by (simp add: Running Some step_block_def split: outcome.split)
  qed (simp add: Running step_block_def)
qed (simp_all add: step_block_def)

lemma unexcluded_step: "unexcluded (run_blocks M f n (step_block M f c)) \<Longrightarrow> unexcluded (step_block M f c)"
  by (auto simp: unexcluded_def)

lemma run_blocks_fold:
  assumes ok: "cranelift_ok M" and ssa: "single_assignment f" and flags: "division_flags ty f"
  shows "config_holds M (collect_constants f) c \<Longrightarrow> unexcluded (run_blocks M f n c) \<Longrightarrow>
    run_blocks M (map_blocks (fold_block (collect_constants f)) f) n c = run_blocks M f n c"
proof (induction n arbitrary: c)
  case (Suc n)
  then have "unexcluded (step_block M f c)" using unexcluded_step by simp
  note step = step_fold [OF ok ssa flags Suc.prems(1) this]
  from Suc.prems show ?case
    using Suc.IH [OF config_holds_step [OF ssa Suc.prems(1)]] by (simp add: step)
qed simp

lemma start_config_holds:
  assumes ssa: "single_assignment f"
  shows "config_holds M (collect_constants f) (start_config f args m)"
proof -
  have "collect_constants f i = None" if "map_of (rev (zip (map p_id (f_params f)) args)) i = Some x" for i x
  proof (rule ccontr)
    assume "collect_constants f i \<noteq> None"
    then obtain c k where "k \<in> set (function_kinds f)" "const_of k = Some (i, c)"
      using collect_constants_from by blast
    then have "i \<notin> p_id ` set (f_params f)" using single_assignment_params [OF ssa] const_of_defined by blast
    then show False using map_of_SomeD [OF that] by (auto dest: set_zip_leftD)
  qed
  then show ?thesis
    by (fastforce simp: start_config_def config_holds_def consts_hold_def split: list.splits)
qed

lemma start_config_fold [simp]:
  "start_config (map_blocks (fold_block cs) f) args m = start_config f args m"
  by (simp add: start_config_def split: list.splits)

lemma run_function_fold_round:
  assumes "cranelift_ok M" and "single_assignment f" and "division_flags ty f"
    and "unexcluded (run_function M f n args m)"
  shows "run_function M (map_blocks (fold_block (collect_constants f)) f) n args m = run_function M f n args m"
  using assms run_blocks_fold [OF assms(1-3) start_config_holds] by (simp add: run_function_def)

theorem fold_function_runs:
  assumes ok: "cranelift_ok M" and ssa: "single_assignment f" and flags: "division_flags ty f"
    and ns: "unexcluded (run_function M f n args m)"
  shows "run_function M (fold_function f) n args m = run_function M f n args m"
proof -
  let ?P = "\<lambda>(g, b). single_assignment g \<and> division_flags ty g \<and>
    run_function M g n args m = run_function M f n args m"
  have "?P (fold_loop (f, b))" for b
    by (rule cf.loop_invariant [where P = ?P])
      (use ssa flags ns ok in \<open>auto simp: pass_simps single_assignment_fold division_flags_fold
         run_function_fold_round split: if_splits\<close>)
  then show ?thesis by (simp add: fold_function_def case_prod_beta)
qed

section \<open>Properties of the pass\<close>

lemma constant_folding_functions:
  "m_functions (fst (constant_folding_run md)) = map fold_function (m_functions md)"
  by (simp add: constant_folding_run_eq)

definition product_sample :: ir_function where
  "product_sample = literal_function ''area'' [] TInt 3
     [literal_block 0
        [Const (ConstIntTyped (Value 0) 6 (TExactInt True I32)),
         Const (ConstIntTyped (Value 1) 7 (TExactInt True I32)),
         Arith (Mul (Value 2) (Value 0) (Value 1))] (Return (Some (Value 2)))]"

definition narrow_remainder_sample :: ir_function where
  "narrow_remainder_sample = literal_function ''rem'' [] (TExactInt True I8) 3
     [literal_block 0
        [Const (ConstIntTyped (Value 0) (- 128) (TExactInt True I8)),
         Const (ConstIntTyped (Value 1) (- 1) (TExactInt True I8)),
         Arith (Rem (Value 2) (Value 0) (Value 1) False)] (Return (Some (Value 2)))]"

text \<open>C2: constant folding keeps what a function computes. On a machine with Cranelift's
  documented integer instructions, a function in single assignment form whose signed
  divisions have no narrow unsigned operands runs, for any number of steps, to the same
  result after the pass as before it, unless the original is stuck on a code generator error
  or stops with the division overflow panic.\<close>

theorem constant_folding_preserves_runs:
  assumes "cranelift_ok M" and "i < length (m_functions md)" and "f = m_functions md ! i"
    and "single_assignment f" and "division_flags ty f"
    and "run_function M f n args mem \<noteq> Stuck_config"
    and "run_function M f n args mem \<noteq> Trapped ''integer division overflow''"
  shows "run_function M (m_functions (fst (constant_folding_run md)) ! i) n args mem =
         run_function M f n args mem"
  using assms fold_function_runs [of M f ty n args mem]
  by (simp add: constant_folding_functions unexcluded_def)

lemma product_sample_run:
  "run_function inert_machine product_sample 1 [] () = Returned (Some (MVal CI32 42)) ()"
  by (simp add: product_sample_def run_simps inert_machine_def lift_int_def modulus_def)

theorem constant_folding_preserves_runs_witness:
  "run_function inert_machine
     (m_functions (fst (constant_folding_run (literal_module [product_sample]))) ! 0) 1 [] () =
   Returned (Some (MVal CI32 42)) ()"
proof -
  have "single_assignment product_sample" by code_simp
  moreover have "division_flags (\<lambda>_. Some (TExactInt True I32)) product_sample" by code_simp
  ultimately show ?thesis
    using constant_folding_preserves_runs [of inert_machine 0 "literal_module [product_sample]" product_sample
        "\<lambda>_. Some (TExactInt True I32)" 1 "[]" "()"] inert_machine_ok
    by (simp add: product_sample_run [simplified])
qed

text \<open>Every integer fold is exact. The operands are constants of one type, the result is
  the exact sum, difference, product or truncated quotient or remainder as an integer, it
  and the operands are in the range of the type, a zero divisor is never folded, and an
  unsigned operation is folded on non-negative operands only.\<close>

lemma integer_fold_exact:
  assumes "fold_int_binop cs l r op uns = Some c"
  shows "\<exists>a b v ty. cs (vid l) = Some (KInt a ty) \<and> cs (vid r) = Some (KInt b ty) \<and> c = KInt v ty \<and>
     sint v = exact_op op (sint a) (sint b) \<and>
     (divides_op op \<longrightarrow> sint b \<noteq> 0) \<and> (uns \<longrightarrow> 0 \<le> sint a \<and> 0 \<le> sint b) \<and>
     (\<forall>t. ty = Some t \<longrightarrow> (\<exists>lo hi. int_type_range t = Some (lo, hi) \<and> {sint a, sint b, sint v} \<subseteq> {lo..hi}))"
proof -
  obtain a b v ty where f: "cs (vid l) = Some (KInt a ty)" "cs (vid r) = Some (KInt b ty)" "c = KInt v ty"
    "checked_op op a b = Some v" "uns \<longrightarrow> 0 \<le> sint a \<and> 0 \<le> sint b"
    "\<forall>t. ty = Some t \<longrightarrow> value_fits_int_type a t \<and> value_fits_int_type b t \<and> value_fits_int_type v t"
    by (rule fold_int_binop_Some [OF assms]) blast
  have "divides_op op \<longrightarrow> sint b \<noteq> 0"
    using checked_op_Some(2) [OF f(4)] signed_word_eqI [of b 0] by auto
  moreover have "\<forall>t. ty = Some t \<longrightarrow>
      (\<exists>lo hi. int_type_range t = Some (lo, hi) \<and> {sint a, sint b, sint v} \<subseteq> {lo..hi})"
    using f(6) by (fastforce simp: value_fits_int_type_def split: option.splits)
  ultimately show ?thesis using f checked_op_Some(1) [OF f(4)] by blast
qed

text \<open>C38: the pass reaches a fixed point and reports it: the flag it returns says exactly
  whether it changed the module, and a second run changes nothing and says so.\<close>

theorem constant_folding_fixpoint:
  "(snd (constant_folding_run md) \<longleftrightarrow> fst (constant_folding_run md) \<noteq> md) \<and>
   constant_folding_run (fst (constant_folding_run md)) = (fst (constant_folding_run md), False)"
proof
  have "map fold_function fs = fs \<longleftrightarrow> (\<forall>f \<in> set fs. \<not> needs_folding f)" for fs
    using fold_function_same fold_function_changes by (induction fs) auto
  moreover have "md\<lparr>m_functions := fs\<rparr> = md \<longleftrightarrow> fs = m_functions md" for fs
    by (cases md) simp
  ultimately show "snd (constant_folding_run md) \<longleftrightarrow> fst (constant_folding_run md) \<noteq> md"
    by (auto simp: constant_folding_run_eq)
  show "constant_folding_run (fst (constant_folding_run md)) = (fst (constant_folding_run md), False)"
    by (simp add: constant_folding_run_eq fold_function_done fold_function_same comp_def)
qed

text \<open>The pass rewrites instruction kinds in place and nothing else: block ids, labels,
  terminators, instruction ids and spans, parameters, counters and debug records of every
  function are kept, as are the module's other fields.\<close>

lemma constant_folding_frame:
  "map function_frame (m_functions (fst (constant_folding_run md))) = map function_frame (m_functions md) \<and>
   (fst (constant_folding_run md))\<lparr>m_functions := []\<rparr> = md\<lparr>m_functions := []\<rparr>"
  by (simp add: constant_folding_run_eq fold_function_frame comp_def)

text \<open>A remainder of the smallest value of a narrow signed type by minus one is folded to
  zero, while the generated code stops with the division overflow panic.\<close>

lemma narrow_remainder_folded:
  assumes "cranelift_ok M"
  shows "run_function M narrow_remainder_sample 1 [] mem = Trapped ''integer division overflow'' \<and>
         run_function M (fold_function narrow_remainder_sample) 1 [] mem =
           Returned (Some (MVal CI8 0)) (leave_frame M (Some (MVal CI8 0)) mem)"
proof
  have word: "iconst M CI8 v = word_in M CI8 v" for v using assms by (simp add: cranelift_iconst)
  have trap: "emit_checked_int_divrem M msg True False (word_in M CI8 (- 128)) (word_in M CI8 (- 1)) =
      Trap ''integer division overflow''" for msg
    using assms by (intro divrem_overflow) (simp_all add: fits_class_def modulus_def signed_min_def)
  show "run_function M narrow_remainder_sample 1 [] mem = Trapped ''integer division overflow''"
    using trap by (simp add: narrow_remainder_sample_def run_simps word) (simp add: word_in_def)
  have "fold_function narrow_remainder_sample = literal_function ''rem'' [] (TExactInt True I8) 3
     [literal_block 0
        [Const (ConstIntTyped (Value 0) (- 128) (TExactInt True I8)),
         Const (ConstIntTyped (Value 1) (- 1) (TExactInt True I8)),
         Const (ConstIntTyped (Value 2) 0 (TExactInt True I8))] (Return (Some (Value 2)))]"
    by code_simp
  then show "run_function M (fold_function narrow_remainder_sample) 1 [] mem =
           Returned (Some (MVal CI8 0)) (leave_frame M (Some (MVal CI8 0)) mem)"
    by (simp add: run_simps word) (simp add: word_in_def)
qed

end
