(* ===== verification/Dead_Code.thy ===== *)
theory Dead_Code
  imports IR
begin

text \<open>
  Dead code elimination, \<open>src/midend/src/passes/dead_code_elimination.rs\<close>. A round marks
  the values used by terminators and instructions, lists the instructions whose result is
  unused and that have no effect, and removes them from the back by index; rounds repeat
  until nothing is dead. The lemmas show that the removal by index is a filter, that the
  loop ends, and that what stays behind still defines everything it uses.
\<close>

section \<open>Uses, results and effects of an instruction\<close>

definition mark_used_values :: "instruction_kind \<Rightarrow> usize set \<Rightarrow> usize set" where
  "mark_used_values k used = (case k of
     Arith a \<Rightarrow> (case a of
       Add _ l r \<Rightarrow> used \<union> {vid l, vid r}
     | Sub _ l r \<Rightarrow> used \<union> {vid l, vid r}
     | Mul _ l r \<Rightarrow> used \<union> {vid l, vid r}
     | Div _ l r _ \<Rightarrow> used \<union> {vid l, vid r}
     | Rem _ l r _ \<Rightarrow> used \<union> {vid l, vid r}
     | BitAnd _ l r \<Rightarrow> used \<union> {vid l, vid r}
     | BitOr _ l r \<Rightarrow> used \<union> {vid l, vid r}
     | BitXor _ l r \<Rightarrow> used \<union> {vid l, vid r}
     | Shl _ l r \<Rightarrow> used \<union> {vid l, vid r}
     | Shr _ l r _ \<Rightarrow> used \<union> {vid l, vid r})
   | Compare c \<Rightarrow> (case c of
       Eq _ l r \<Rightarrow> used \<union> {vid l, vid r}
     | Ne _ l r \<Rightarrow> used \<union> {vid l, vid r}
     | Lt _ l r _ \<Rightarrow> used \<union> {vid l, vid r}
     | Le _ l r _ \<Rightarrow> used \<union> {vid l, vid r}
     | Gt _ l r _ \<Rightarrow> used \<union> {vid l, vid r}
     | Ge _ l r _ \<Rightarrow> used \<union> {vid l, vid r})
   | Logical (And _ l r) \<Rightarrow> used \<union> {vid l, vid r}
   | Logical (Or _ l r) \<Rightarrow> used \<union> {vid l, vid r}
   | Logical (Not _ opr) \<Rightarrow> used \<union> {vid opr}
   | Conv (Cast _ opr _ _) \<Rightarrow> used \<union> {vid opr}
   | Memory (Load _ p _) \<Rightarrow> used \<union> {vid p}
   | Memory (Store p v) \<Rightarrow> used \<union> {vid p, vid v}
   | Memory (GetElementPtr _ p ix _ bound) \<Rightarrow>
       used \<union> {vid p, vid ix} \<union> (case bound of Some (Dynamic v) \<Rightarrow> {vid v} | _ \<Rightarrow> {})
   | Memory (FieldPtr _ p _) \<Rightarrow> used \<union> {vid p}
   | Memory (EscapeManualAlloc p) \<Rightarrow> used \<union> {vid p}
   | Conv (MakeDynFatPtr _ d v) \<Rightarrow> used \<union> {vid d, vid v}
   | Conv (LoadDynDataPtr _ p) \<Rightarrow> used \<union> {vid p}
   | Conv (LoadDynVtablePtr _ p) \<Rightarrow> used \<union> {vid p}
   | Conv (LoadVtableSlot _ p _) \<Rightarrow> used \<union> {vid p}
   | Calls (Call _ _ args _) \<Rightarrow> used \<union> vid ` set args
   | Calls (CallIndirect _ p args _ _) \<Rightarrow> used \<union> {vid p} \<union> vid ` set args
   | Calls (HostCall _ _ args _) \<Rightarrow> used \<union> vid ` set args
   | Move (Copy _ s) \<Rightarrow> used \<union> {vid s}
   | Move (Phi _ incoming) \<Rightarrow> used \<union> vid ` fst ` set incoming
   | Calls (AutodiffStep _ _ out up ins targets) \<Rightarrow>
       used \<union> {vid out} \<union> vid ` set_option up \<union> vid ` (set ins \<union> set targets)
   | Async (AsyncReady _ (Some v) _) \<Rightarrow> used \<union> {vid v}
   | Async (Await _ t _) \<Rightarrow> used \<union> {vid t}
   | Async (FrameStore fr _ v _) \<Rightarrow> used \<union> {vid fr, vid v}
   | Async (FrameLoad _ fr _ _) \<Rightarrow> used \<union> {vid fr}
   | Async (StateLoad _ fr) \<Rightarrow> used \<union> {vid fr}
   | Async (StateStore fr _) \<Rightarrow> used \<union> {vid fr}
   | Async (CoroutineCreate _ fr _ _ _) \<Rightarrow> used \<union> {vid fr}
   | Async (CoroutinePollChild _ _ t _) \<Rightarrow> used \<union> {vid t}
   | Async (CoroutineSubscribe t p) \<Rightarrow> used \<union> {vid t, vid p}
   | Async (CoroutineWake t) \<Rightarrow> used \<union> {vid t}
   | Async (CoroutineSuspend t _) \<Rightarrow> used \<union> {vid t}
   | Async (CoroutineCancelled t) \<Rightarrow> used \<union> {vid t}
   | Async (CoroutineComplete t v) \<Rightarrow> used \<union> {vid t} \<union> vid ` set_option v
   | Async (CoroutineError t e) \<Rightarrow> used \<union> {vid t} \<union> vid ` set_option e
   | Async (CoroutinePollReturn s) \<Rightarrow> used \<union> {vid s}
   | _ \<Rightarrow> used)"

text \<open>The instructions without an arm of their own (the bit operations, casts, stores and
  the coroutine markers) fall to the last arm of the source's match.\<close>

definition get_result_id :: "instruction_kind \<Rightarrow> usize option" where
  "get_result_id k = (case k of
     Arith a \<Rightarrow> (case a of
       Add r _ _ \<Rightarrow> Some (vid r) | Sub r _ _ \<Rightarrow> Some (vid r) | Mul r _ _ \<Rightarrow> Some (vid r)
     | Div r _ _ _ \<Rightarrow> Some (vid r) | Rem r _ _ _ \<Rightarrow> Some (vid r) | _ \<Rightarrow> None)
   | Compare c \<Rightarrow> (case c of
       Eq r _ _ \<Rightarrow> Some (vid r) | Ne r _ _ \<Rightarrow> Some (vid r) | Lt r _ _ _ \<Rightarrow> Some (vid r)
     | Le r _ _ _ \<Rightarrow> Some (vid r) | Gt r _ _ _ \<Rightarrow> Some (vid r) | Ge r _ _ _ \<Rightarrow> Some (vid r))
   | Logical l \<Rightarrow> (case l of
       And r _ _ \<Rightarrow> Some (vid r) | Or r _ _ \<Rightarrow> Some (vid r) | Not r _ \<Rightarrow> Some (vid r))
   | Memory m \<Rightarrow> (case m of
       Alloca r _ \<Rightarrow> Some (vid r) | ManualAlloc r _ \<Rightarrow> Some (vid r)
     | Load r _ _ \<Rightarrow> Some (vid r) | GetElementPtr r _ _ _ _ \<Rightarrow> Some (vid r)
     | FieldPtr r _ _ \<Rightarrow> Some (vid r) | GlobalAddr r _ _ \<Rightarrow> Some (vid r)
     | _ \<Rightarrow> None)
   | Move m \<Rightarrow> (case m of Copy r _ \<Rightarrow> Some (vid r) | Phi r _ \<Rightarrow> Some (vid r))
   | Const c \<Rightarrow> (case c of
       ConstInt r _ \<Rightarrow> Some (vid r) | ConstIntTyped r _ _ \<Rightarrow> Some (vid r)
     | ConstFloat r _ \<Rightarrow> Some (vid r) | ConstFloatTyped r _ _ \<Rightarrow> Some (vid r)
     | ConstBool r _ \<Rightarrow> Some (vid r) | ConstString r _ \<Rightarrow> Some (vid r))
   | Conv c \<Rightarrow> (case c of
       MakeDynFatPtr r _ _ \<Rightarrow> Some (vid r) | LoadDynDataPtr r _ \<Rightarrow> Some (vid r)
     | LoadDynVtablePtr r _ \<Rightarrow> Some (vid r) | LoadVtableSlot r _ _ \<Rightarrow> Some (vid r)
     | _ \<Rightarrow> None)
   | Async a \<Rightarrow> (case a of
       AsyncReady r _ _ \<Rightarrow> Some (vid r) | FrameAlloc r _ _ \<Rightarrow> Some (vid r)
     | FrameLoad r _ _ _ \<Rightarrow> Some (vid r) | StateLoad r _ \<Rightarrow> Some (vid r)
     | CoroutineCreate r _ _ _ _ \<Rightarrow> Some (vid r) | Await r _ _ \<Rightarrow> Some (vid r)
     | CoroutinePollChild _ r _ _ \<Rightarrow> map_option vid r
     | _ \<Rightarrow> None)
   | Calls c \<Rightarrow> (case c of
       FuncAddr r _ \<Rightarrow> Some (vid r)
     | Call r _ _ _ \<Rightarrow> map_option vid r | HostCall r _ _ _ \<Rightarrow> map_option vid r
     | CallIndirect r _ _ _ _ \<Rightarrow> map_option vid r
     | AutodiffStep r _ _ _ _ _ \<Rightarrow> map_option vid r))"

definition has_side_effects :: "instruction_kind \<Rightarrow> bool" where
  "has_side_effects k = (case k of
     Memory (Store _ _) \<Rightarrow> True
   | Calls (Call _ _ _ _) \<Rightarrow> True
   | Calls (CallIndirect _ _ _ _ _) \<Rightarrow> True
   | Calls (HostCall _ _ _ _) \<Rightarrow> True
   | Async (CoroutineCreate _ _ _ _ _) \<Rightarrow> True
   | Async (CoroutinePollChild _ _ _ _) \<Rightarrow> True
   | Async (CoroutineSubscribe _ _) \<Rightarrow> True
   | Async (CoroutineWake _) \<Rightarrow> True
   | Async (CoroutineSuspend _ _) \<Rightarrow> True
   | Async (CoroutineComplete _ _) \<Rightarrow> True
   | Async (CoroutineError _ _) \<Rightarrow> True
   | Async (CoroutineCancelled _) \<Rightarrow> True
   | Async (CoroutinePollReturn _) \<Rightarrow> True
   | Async (FrameStore _ _ _ _) \<Rightarrow> True
   | Async (StateStore _ _) \<Rightarrow> True
   | Calls (AutodiffStep _ _ _ _ _ _) \<Rightarrow> True
   | Memory (GetElementPtr _ _ _ _ bound) \<Rightarrow> bound \<noteq> None
   | Arith (Div _ _ _ _) \<Rightarrow> True
   | Arith (Rem _ _ _ _) \<Rightarrow> True
   | _ \<Rightarrow> False)"

section \<open>One round\<close>

definition mark_terminator :: "terminator option \<Rightarrow> usize set \<Rightarrow> usize set" where
  "mark_terminator t used = (case t of
     Some (Return (Some v)) \<Rightarrow> insert (vid v) used
   | Some (CondBranch c _ _) \<Rightarrow> insert (vid c) used
   | Some (Switch v _ _) \<Rightarrow> insert (vid v) used
   | _ \<Rightarrow> used)"

definition mark_block :: "basic_block \<Rightarrow> usize set \<Rightarrow> usize set" where
  "mark_block b used = fold mark_used_values (block_kinds b) (mark_terminator (b_terminator b) used)"

definition used_values :: "basic_block list \<Rightarrow> usize set" where
  "used_values bs = fold mark_block bs {}"

definition is_dead :: "usize set \<Rightarrow> instruction_kind \<Rightarrow> bool" where
  "is_dead used k = (case get_result_id k of
     None \<Rightarrow> False
   | Some r \<Rightarrow> r \<notin> used \<and> \<not> has_side_effects k)"

definition dead_instructions :: "usize set \<Rightarrow> basic_block list \<Rightarrow> (usize \<times> usize) list" where
  "dead_instructions used bs =
     concat (map (\<lambda>(bi, b).
       concat (map (\<lambda>(ii, i). if is_dead used (i_kind i) then [(bi, ii)] else [])
         (enumerate 0 (b_instructions b))))
       (enumerate 0 bs))"

text \<open>\<open>block.instructions.remove\<close> panics out of range; \<open>None\<close> is that panic.\<close>

definition remove_instruction ::
    "usize \<times> usize \<Rightarrow> (basic_block list \<times> bool) option \<Rightarrow> (basic_block list \<times> bool) option" where
  "remove_instruction = (\<lambda>(bi, ii) st. case st of
     None \<Rightarrow> None
   | Some (bs, modified) \<Rightarrow>
       if bi < length bs then
         (case vec_remove ii (b_instructions (bs ! bi)) of
            None \<Rightarrow> None
          | Some is \<Rightarrow> Some (bs[bi := (bs ! bi)\<lparr>b_instructions := is\<rparr>], True))
       else Some (bs, modified))"

definition remove_all ::
    "(usize \<times> usize) list \<Rightarrow> basic_block list \<times> bool \<Rightarrow> (basic_block list \<times> bool) option" where
  "remove_all dead st = fold remove_instruction (rev dead) (Some st)"

text \<open>
  The loop's state is the function and the flag, or \<open>None\<close> once a removal has panicked. A
  round answers \<open>None\<close> when the loop breaks.
\<close>

type_synonym dce_state = "(ir_function \<times> bool) option"

definition dce_round :: "dce_state \<Rightarrow> dce_state option" where
  "dce_round st = (case st of
     None \<Rightarrow> None
   | Some (f, modified) \<Rightarrow>
       (let dead = dead_instructions (used_values (f_blocks f)) (f_blocks f)
        in if dead = [] then None
           else Some (map_option (\<lambda>(bs, modified'). (f\<lparr>f_blocks := bs\<rparr>, modified'))
                        (remove_all dead (f_blocks f, modified)))))"

section \<open>Removal by index is a filter\<close>

definition live_block :: "usize set \<Rightarrow> basic_block \<Rightarrow> basic_block" where
  "live_block used b =
     b\<lparr>b_instructions := filter (\<lambda>i. \<not> is_dead used (i_kind i)) (b_instructions b)\<rparr>"

definition has_dead :: "usize set \<Rightarrow> basic_block list \<Rightarrow> bool" where
  "has_dead used bs \<longleftrightarrow> (\<exists>b \<in> set bs. \<exists>k \<in> set (block_kinds b). is_dead used k)"

lemma has_dead_Cons [simp]:
  "has_dead used (b # bs) \<longleftrightarrow>
     (\<exists>i \<in> set (b_instructions b). is_dead used (i_kind i)) \<or> has_dead used bs"
  by (simp add: has_dead_def block_kinds_def)

lemma remove_block_instructions:
  "foldr remove_instruction
     (concat (map (\<lambda>(ii, i). if is_dead used (i_kind i) then [(length pre, ii)] else [])
        (enumerate (length xs) ys)))
     (Some (pre @ b\<lparr>b_instructions := xs @ ys\<rparr> # post, m)) =
   Some (pre @ b\<lparr>b_instructions := xs @ filter (\<lambda>i. \<not> is_dead used (i_kind i)) ys\<rparr> # post,
         m \<or> (\<exists>i \<in> set ys. is_dead used (i_kind i)))"
proof (induction ys arbitrary: xs)
  case (Cons i ys)
  show ?case using Cons.IH [of "xs @ [i]"] by (simp add: remove_instruction_def)
qed simp

lemma remove_blocks_from:
  "foldr remove_instruction
     (concat (map (\<lambda>(bi, b).
       concat (map (\<lambda>(ii, i). if is_dead used (i_kind i) then [(bi, ii)] else [])
         (enumerate 0 (b_instructions b)))) (enumerate (length pre) bs)))
     (Some (pre @ bs, m)) =
   Some (pre @ map (live_block used) bs, m \<or> has_dead used bs)"
proof (induction bs arbitrary: pre)
  case (Cons b bs)
  show ?case
    using Cons.IH [of "pre @ [b]"]
      remove_block_instructions [where used = used and pre = pre and xs = "[]" and b = b
        and ys = "b_instructions b" and post = "map (live_block used) bs"
        and m = "m \<or> has_dead used bs"]
    by (auto simp: live_block_def [symmetric])
qed (simp add: has_dead_def)

lemma remove_all_eq:
  "remove_all (dead_instructions used bs) (bs, m) =
     Some (map (live_block used) bs, m \<or> has_dead used bs)"
  using remove_blocks_from [where pre = "[]"]
  by (simp add: remove_all_def dead_instructions_def foldr_conv_fold)

lemma dead_instructions_Nil: "dead_instructions used bs = [] \<longleftrightarrow> \<not> has_dead used bs"
proof -
  have inner: "concat (map (\<lambda>(ii, i). if is_dead used (i_kind i) then [(n, ii)] else [])
      (enumerate m is)) = [] \<longleftrightarrow> (\<forall>i \<in> set is. \<not> is_dead used (i_kind i))" for n m "is"
    by (induction "is" arbitrary: m) (simp_all del: concat_eq_Nil_conv)
  have "concat (map (\<lambda>(bi, b).
       concat (map (\<lambda>(ii, i). if is_dead used (i_kind i) then [(bi, ii)] else [])
         (enumerate 0 (b_instructions b)))) (enumerate n bs)) = [] \<longleftrightarrow> \<not> has_dead used bs" for n
    by (induction bs arbitrary: n)
      (auto simp: inner has_dead_def block_kinds_def simp del: concat_eq_Nil_conv)
  then show ?thesis by (simp add: dead_instructions_def)
qed

lemma dce_round_eq [pass_simps]:
  "dce_round (Some (f, m)) =
     (if has_dead (used_values (f_blocks f)) (f_blocks f)
      then Some (Some (map_blocks (live_block (used_values (f_blocks f))) f, True)) else None)"
  by (auto simp: dce_round_def dead_instructions_Nil remove_all_eq map_blocks_def Let_def)

lemma dce_round_None [simp]: "dce_round None = None"
  by (simp add: dce_round_def)

section \<open>The loop\<close>

definition instruction_count :: "ir_function \<Rightarrow> nat" where
  "instruction_count f = sum_list (map (length \<circ> b_instructions) (f_blocks f))"

definition dce_weight :: "dce_state \<Rightarrow> nat" where
  "dce_weight st = (case st of None \<Rightarrow> 0 | Some (f, _) \<Rightarrow> instruction_count f)"

lemma live_block_le: "length (b_instructions (live_block used b)) \<le> length (b_instructions b)"
  by (simp add: live_block_def)

lemma live_block_less:
  "k \<in> set (block_kinds b) \<Longrightarrow> is_dead used k \<Longrightarrow>
   length (b_instructions (live_block used b)) < length (b_instructions b)"
  by (auto simp: live_block_def block_kinds_def intro: length_filter_less)

lemma instruction_count_live:
  "has_dead used (f_blocks f) \<Longrightarrow> instruction_count (map_blocks (live_block used) f) < instruction_count f"
  unfolding has_dead_def instruction_count_def
  by (auto simp: comp_def live_block_le intro: sum_list_map_less live_block_less)

lemma dce_round_shrinks: "dce_round st = Some st' \<Longrightarrow> dce_weight st' < dce_weight st"
  by (cases st) (auto simp: dce_weight_def pass_simps instruction_count_live split: if_splits)

function dce_loop :: "dce_state \<Rightarrow> dce_state" where
  "dce_loop st = (case dce_round st of None \<Rightarrow> st | Some st' \<Rightarrow> dce_loop st')"
  by pat_completeness auto
termination
  by (relation "measure dce_weight") (auto simp: dce_round_shrinks)

declare dce_loop.simps [simp del]

interpretation dce: shrinking_loop dce_round dce_weight dce_loop
  by unfold_locales (rule dce_round_shrinks, assumption, rule dce_loop.simps)

fun dce_functions :: "ir_function list \<Rightarrow> bool \<Rightarrow> (ir_function list \<times> bool) option" where
  "dce_functions [] modified = Some ([], modified)"
| "dce_functions (f # fs) modified =
     (case (if f_suspension_barrier f then Some (f, modified) else dce_loop (Some (f, modified))) of
        None \<Rightarrow> None
      | Some (f', modified') \<Rightarrow>
          map_option (\<lambda>(fs', modified''). (f' # fs', modified'')) (dce_functions fs modified'))"

definition dead_code_elimination_run :: "ir_module \<Rightarrow> (ir_module \<times> bool) option" where
  "dead_code_elimination_run m =
     map_option (\<lambda>(fs, modified). (m\<lparr>m_functions := fs\<rparr>, modified)) (dce_functions (m_functions m) False)"

section \<open>What the pass leaves behind\<close>

text \<open>The loop as a function of the IR function alone: it never panics.\<close>

definition eliminate :: "ir_function \<Rightarrow> ir_function" where
  "eliminate f = (if f_suspension_barrier f then f
     else case dce_loop (Some (f, False)) of Some (g, _) \<Rightarrow> g | None \<Rightarrow> f)"

definition needs_elimination :: "ir_function \<Rightarrow> bool" where
  "needs_elimination f \<longleftrightarrow>
     \<not> f_suspension_barrier f \<and> has_dead (used_values (f_blocks f)) (f_blocks f)"

lemma dce_round_running: "dce_round (Some s) = Some st \<Longrightarrow> \<exists>s'. st = Some s'"
  by (cases s) (fastforce simp: pass_simps split: if_splits)

lemma dce_loop_total: "\<exists>g m'. dce_loop (Some (f, m)) = Some (g, m')"
proof -
  have "dce_loop (Some (f, m)) \<noteq> None"
    by (rule dce.loop_invariant [where P = "\<lambda>st. st \<noteq> None"]) (auto dest: dce_round_running)
  then show ?thesis by auto
qed

text \<open>An induction over the rounds of a loop that starts running, without the wrapping.\<close>

lemma dce_loop_invariant:
  assumes run: "dce_loop (Some (f, m)) = Some (g, m')" and start: "P f m"
    and keep: "\<And>f m. P f m \<Longrightarrow> has_dead (used_values (f_blocks f)) (f_blocks f) \<Longrightarrow>
      P (map_blocks (live_block (used_values (f_blocks f))) f) True"
  shows "P g m'"
proof -
  have "case dce_loop (Some (f, m)) of None \<Rightarrow> True | Some (g, m') \<Rightarrow> P g m'"
    by (rule dce.loop_invariant [where P = "\<lambda>st. case st of None \<Rightarrow> True | Some (g, m') \<Rightarrow> P g m'"])
      (auto simp: start pass_simps keep split: option.splits if_splits)
  with run show ?thesis by simp
qed

lemma dce_loop_flag_fst:
  "dce_loop (Some (f, m)) = Some (g, m') \<Longrightarrow>
   fst (the (dce_loop (Some (f, n)))) = g \<and>
   (m' \<longleftrightarrow> m \<or> has_dead (used_values (f_blocks f)) (f_blocks f))"
proof (cases "has_dead (used_values (f_blocks f)) (f_blocks f)")
  case True
  assume run: "dce_loop (Some (f, m)) = Some (g, m')"
  let ?h = "map_blocks (live_block (used_values (f_blocks f))) f"
  have eq: "dce_loop (Some (f, k)) = dce_loop (Some (?h, True))" for k
    using True by (intro dce.loop_round) (simp add: pass_simps)
  have "m'" by (rule dce_loop_invariant [of ?h True g m' "\<lambda>_ b. b"]) (use run eq in simp_all)
  with run eq True show ?thesis by simp
next
  case False
  assume run: "dce_loop (Some (f, m)) = Some (g, m')"
  have "dce_loop (Some (f, k)) = Some (f, k)" for k
    using False by (intro dce.loop_done) (simp add: pass_simps)
  with run False show ?thesis by simp
qed

lemma dce_functions_eq:
  "dce_functions fs m = Some (map eliminate fs, m \<or> (\<exists>f \<in> set fs. needs_elimination f))"
proof (induction fs arbitrary: m)
  case (Cons f fs)
  obtain g m' where g: "dce_loop (Some (f, m)) = Some (g, m')" using dce_loop_total by blast
  obtain h k where h: "dce_loop (Some (f, False)) = Some (h, k)" using dce_loop_total by blast
  from dce_loop_flag_fst [OF g, of False] h
  have "h = g" "m' \<longleftrightarrow> m \<or> has_dead (used_values (f_blocks f)) (f_blocks f)" by simp_all
  with g h Cons.IH show ?case by (auto simp: eliminate_def needs_elimination_def)
qed simp

lemma dead_code_elimination_run_eq:
  "dead_code_elimination_run m =
     Some (m\<lparr>m_functions := map eliminate (m_functions m)\<rparr>,
           \<exists>f \<in> set (m_functions m). needs_elimination f)"
  by (simp add: dead_code_elimination_run_def dce_functions_eq)

lemma eliminate_invariant:
  assumes start: "P f"
    and keep: "\<And>f. P f \<Longrightarrow> has_dead (used_values (f_blocks f)) (f_blocks f) \<Longrightarrow>
      P (map_blocks (live_block (used_values (f_blocks f))) f)"
  shows "P (eliminate f)"
proof -
  obtain g m' where g: "dce_loop (Some (f, False)) = Some (g, m')" using dce_loop_total by blast
  have "P g" by (rule dce_loop_invariant [OF g]) (simp_all add: start keep)
  with g start show ?thesis by (simp add: eliminate_def)
qed

lemma eliminate_barrier [simp]: "f_suspension_barrier (eliminate f) = f_suspension_barrier f"
  by (rule eliminate_invariant) simp_all

lemma eliminate_done: "\<not> needs_elimination (eliminate f)"
proof -
  obtain g m' where g: "dce_loop (Some (f, False)) = Some (g, m')" using dce_loop_total by blast
  with dce.loop_stable [of "Some (f, False)"]
  show ?thesis by (simp add: eliminate_def needs_elimination_def pass_simps split: if_splits)
qed

lemma eliminate_same: "\<not> needs_elimination f \<Longrightarrow> eliminate f = f"
  using dce.loop_done [of "Some (f, False)"]
  by (auto simp: needs_elimination_def eliminate_def pass_simps)

lemma eliminate_shrinks: "needs_elimination f \<Longrightarrow> instruction_count (eliminate f) < instruction_count f"
proof -
  assume need: "needs_elimination f"
  let ?h = "map_blocks (live_block (used_values (f_blocks f))) f"
  obtain g m' where g: "dce_loop (Some (?h, True)) = Some (g, m')" using dce_loop_total by blast
  have "dce_loop (Some (f, False)) = dce_loop (Some (?h, True))"
    using need by (intro dce.loop_round) (simp add: pass_simps needs_elimination_def)
  moreover have "instruction_count g \<le> instruction_count ?h"
    using dce.weight_loop [of "Some (?h, True)"] g by (simp add: dce_weight_def)
  moreover have "instruction_count ?h < instruction_count f"
    using need by (simp add: needs_elimination_def instruction_count_live)
  ultimately show ?thesis using g need by (simp add: eliminate_def needs_elimination_def)
qed

section \<open>Uses survive, effects survive\<close>

definition uses :: "instruction_kind \<Rightarrow> usize set" where
  "uses k = mark_used_values k {}"

lemma mark_used_values_uses: "mark_used_values k used = used \<union> uses k"
  unfolding uses_def mark_used_values_def
  by (auto split: kind_splits option.splits array_bound.splits)

lemma fold_mark_used_values: "fold mark_used_values ks used = used \<union> (\<Union>k \<in> set ks. uses k)"
  by (induction ks arbitrary: used) (auto simp: mark_used_values_uses)

lemma mark_terminator_eq: "mark_terminator t used = used \<union> mark_terminator t {}"
  by (auto simp: mark_terminator_def split: option.splits terminator.splits)

lemma mark_block_eq:
  "mark_block b used = used \<union> mark_terminator (b_terminator b) {} \<union> (\<Union>k \<in> set (block_kinds b). uses k)"
  unfolding mark_block_def fold_mark_used_values
  using mark_terminator_eq [of "b_terminator b" used] by simp

lemma fold_mark_block:
  "fold mark_block bs used = used \<union>
     (\<Union>b \<in> set bs. mark_terminator (b_terminator b) {} \<union> (\<Union>k \<in> set (block_kinds b). uses k))"
  by (induction bs arbitrary: used) (auto simp: mark_block_eq)

lemma used_values_eq:
  "used_values bs =
     (\<Union>b \<in> set bs. mark_terminator (b_terminator b) {} \<union> (\<Union>k \<in> set (block_kinds b). uses k))"
  by (simp add: used_values_def fold_mark_block)

lemma block_kinds_live_block: "block_kinds (live_block used b) = filter (\<lambda>k. \<not> is_dead used k) (block_kinds b)"
  by (simp add: block_kinds_def live_block_def filter_map comp_def)

lemma live_block_sel [simp]:
  "b_id (live_block used b) = b_id b"
  "b_label (live_block used b) = b_label b"
  "b_terminator (live_block used b) = b_terminator b"
  by (simp_all add: live_block_def)

lemma used_values_live: "used_values (map (live_block used) bs) \<subseteq> used_values bs"
  by (auto simp: used_values_eq block_kinds_live_block)

definition removable :: "instruction_kind \<Rightarrow> bool" where
  "removable k \<longleftrightarrow> get_result_id k \<noteq> None \<and> \<not> has_side_effects k"

lemma is_dead_removable: "is_dead used k \<Longrightarrow> removable k"
  by (auto simp: is_dead_def removable_def split: option.splits)

text \<open>Block by block, the instructions that may not be removed are all still there and in
  order, and so are the ids, labels and terminators.\<close>

definition pinned :: "basic_block \<Rightarrow> usize \<times> string \<times> terminator option \<times> instruction_kind list" where
  "pinned b = (b_id b, b_label b, b_terminator b, filter (\<lambda>k. \<not> removable k) (block_kinds b))"

lemma pinned_live_block: "pinned (live_block used b) = pinned b"
  by (auto simp: pinned_def block_kinds_live_block is_dead_removable intro!: filter_cong)

lemma eliminate_pinned: "map pinned (f_blocks (eliminate f)) = map pinned (f_blocks f)"
proof (rule eliminate_invariant)
  show "map pinned (f_blocks f) = map pinned (f_blocks f)" ..
next
  fix g :: ir_function
  assume "map pinned (f_blocks g) = map pinned (f_blocks f)"
  then show "map pinned (f_blocks (map_blocks (live_block (used_values (f_blocks g))) g)) = map pinned (f_blocks f)"
    by (simp add: comp_def pinned_live_block)
qed

definition defines_used :: "ir_function \<Rightarrow> ir_function \<Rightarrow> bool" where
  "defines_used f g \<longleftrightarrow>
     (\<forall>k \<in> set (function_kinds f). \<forall>r. get_result_id k = Some r \<longrightarrow> r \<in> used_values (f_blocks g) \<longrightarrow>
        k \<in> set (function_kinds g))"

lemma eliminate_defines_used: "defines_used f (eliminate f)"
proof (rule eliminate_invariant)
  show "defines_used f f" by (simp add: defines_used_def)
next
  fix g :: ir_function
  assume IH: "defines_used f g"
  let ?u = "used_values (f_blocks g)"
  show "defines_used f (map_blocks (live_block ?u) g)"
    unfolding defines_used_def
  proof (intro ballI allI impI)
    fix k r
    assume k: "k \<in> set (function_kinds f)" "get_result_id k = Some r"
      and "r \<in> used_values (f_blocks (map_blocks (live_block ?u) g))"
    then have r: "r \<in> ?u" using used_values_live by auto
    with IH k have "k \<in> set (function_kinds g)" by (auto simp: defines_used_def)
    moreover have "\<not> is_dead ?u k" using k r by (simp add: is_dead_def)
    ultimately show "k \<in> set (function_kinds (map_blocks (live_block ?u) g))"
      by (auto simp: function_kinds_def block_kinds_live_block)
  qed
qed

end
