(* ===== verification/Dead_Code_Correct.thy ===== *)
theory Dead_Code_Correct
  imports Dead_Code Machine
begin

text \<open>
  Dead code elimination against the generated code: the shortened function runs in lockstep
  with the original on environments that agree on the used values. The one hypothesis on the
  machine is that the removable effects of the function (loads, address computations,
  allocations whose address nobody reads) neither trap nor change the memory the program
  observes; divisions and bounds-checked element addresses are pinned by the pass and need none.
\<close>

section \<open>Uses are reads\<close>

lemma uses_operands: "uses k = vid ` set (operands_read k)"
  unfolding uses_def mark_used_values_def operands_read_def instruction_operands_def
  by (cases k; simp split: arith_kind.split compare_kind.split logical_kind.split memory_kind.split
      call_kind.split async_kind.split move_kind.split const_kind.split conv_kind.split
      option.split array_bound.split; fastforce)

lemma removable_defined:
  "removable k \<Longrightarrow> get_result_id k = Some r \<Longrightarrow> map vid (defined_values k) = [r]"
  by (cases k) (auto simp: removable_def get_result_id_def has_side_effects_def defined_values_def
      instruction_result_def
      split: arith_kind.splits compare_kind.splits logical_kind.splits memory_kind.splits
        call_kind.splits async_kind.splits move_kind.splits const_kind.splits conv_kind.splits)

section \<open>Agreement on the used values\<close>

definition agree :: "usize set \<Rightarrow> env \<Rightarrow> env \<Rightarrow> bool" where
  "agree U e e' \<longleftrightarrow> (\<forall>y \<in> U. e y = e' y)"

definition outcome_agrees :: "usize set \<Rightarrow> (env \<times> 'm) outcome \<Rightarrow> (env \<times> 'm) outcome \<Rightarrow> bool" where
  "outcome_agrees U x x' = (case x of
     Done (e, m) \<Rightarrow> (\<exists>e'. x' = Done (e', m) \<and> agree U e e')
   | Trap s \<Rightarrow> x' = Trap s
   | Stuck \<Rightarrow> True)"

lemma agree_upd: "agree U e e' \<Longrightarrow> agree U (e(y \<mapsto> x)) (e'(y \<mapsto> x))"
  by (simp add: agree_def)

lemma get_value_agree: "agree U e e' \<Longrightarrow> vid v \<in> U \<Longrightarrow> get_value e' v = get_value e v"
  by (simp add: agree_def get_value_def)

lemma get_values_agree: "agree U e e' \<Longrightarrow> vid ` set vs \<subseteq> U \<Longrightarrow> get_values e' vs = get_values e vs"
  by (induction vs) (simp_all add: get_value_agree)

lemma bind_values_agree:
  "agree U e e' \<Longrightarrow> bind_values vs xs e = Done e1 \<Longrightarrow> \<exists>e1'. bind_values vs xs e' = Done e1' \<and> agree U e1 e1'"
  by (induction vs xs e arbitrary: e' rule: bind_values.induct) (auto simp: agree_upd)

lemma bind_values_no_trap: "bind_values vs xs e \<noteq> Trap s"
  by (induction vs xs e rule: bind_values.induct) (simp_all add: fun_upd_def)

lemma outcome_agrees_Done [simp]: "outcome_agrees U (Done (e, m)) (Done (e', m)) \<longleftrightarrow> agree U e e'"
  by (simp add: outcome_agrees_def)

lemma write_result_agree:
  "agree U e e' \<Longrightarrow> outcome_agrees U (write_result res e m) (write_result res e' m)"
  by (cases "snd res") (simp_all add: write_result_def outcome_agrees_def agree_upd)

lemma perform_effect_agree:
  assumes e: "agree U e e'" and k: "uses k \<subseteq> U"
  shows "outcome_agrees U (perform_effect M k (e, m)) (perform_effect M k (e', m))"
proof -
  have gv: "get_values e' (operands_read k) = get_values e (operands_read k)"
    using get_values_agree [OF e] k by (simp add: uses_operands)
  show ?thesis
  proof (cases "get_values e (operands_read k)")
    case (Done xs)
    show ?thesis
    proof (cases "effect M k xs m")
      case (Done ym)
      obtain ys m' where ym: "ym = (ys, m')" by (cases ym)
      show ?thesis
      proof (cases "bind_values (defined_values k) ys e")
        case bv: (Done e1)
        with bind_values_agree [OF e bv] Done ym gv \<open>get_values e (operands_read k) = Done xs\<close>
        show ?thesis by (auto simp: perform_effect_def outcome_agrees_def)
      qed (use Done ym \<open>get_values e (operands_read k) = Done xs\<close> bind_values_no_trap in
          \<open>auto simp: perform_effect_def outcome_agrees_def\<close>)
    qed (use Done gv in \<open>simp_all add: perform_effect_def outcome_agrees_def\<close>)
  qed (simp_all add: perform_effect_def outcome_agrees_def gv)
qed

lemma with_operands_agree:
  "agree U e e' \<Longrightarrow> {vid l, vid h} \<subseteq> U \<Longrightarrow> with_operands e' l h g = with_operands e l h g"
  by (simp add: with_operands_def get_value_agree)

lemma exec_arith_agree: "agree U e e' \<Longrightarrow> uses (Arith a) \<subseteq> U \<Longrightarrow> exec_arith M e' a = exec_arith M e a"
  by (cases a) (simp_all add: exec_arith_def uses_def mark_used_values_def with_operands_agree)

lemma exec_compare_agree: "agree U e e' \<Longrightarrow> uses (Compare a) \<subseteq> U \<Longrightarrow> exec_compare M e' a = exec_compare M e a"
  by (cases a) (simp_all add: exec_compare_def Let_def uses_def mark_used_values_def with_operands_agree)

lemma exec_logical_agree: "agree U e e' \<Longrightarrow> uses (Logical a) \<subseteq> U \<Longrightarrow> exec_logical M e' a = exec_logical M e a"
  by (cases a) (simp_all add: exec_logical_def uses_def mark_used_values_def with_operands_agree get_value_agree)

text \<open>An instruction reads the used values only.\<close>

lemma exec_kind_agree:
  assumes "agree U e e'" and "uses k \<subseteq> U"
  shows "outcome_agrees U (exec_kind M k (e, m)) (exec_kind M k (e', m))"
proof (cases k)
  case (Arith a)
  with assms show ?thesis by (simp add: exec_kind_def exec_arith_agree write_result_agree)
next
  case (Compare a)
  with assms show ?thesis by (simp add: exec_kind_def exec_compare_agree write_result_agree)
next
  case (Logical a)
  with assms show ?thesis by (simp add: exec_kind_def exec_logical_agree write_result_agree)
next
  case (Move mv)
  with assms show ?thesis
    by (cases mv) (simp_all add: exec_kind_def uses_def mark_used_values_def get_value_agree write_result_agree)
next
  case (Const c)
  with assms show ?thesis
    by (cases "exec_const M c") (simp_all add: exec_kind_def perform_effect_agree write_result_agree)
qed (use assms in \<open>simp_all add: exec_kind_def perform_effect_agree\<close>)

section \<open>Dropping a dead instruction\<close>

definition pure_effect :: "'m machine \<Rightarrow> instruction_kind \<Rightarrow> bool" where
  "pure_effect M k \<longleftrightarrow> (\<forall>xs m. case effect M k xs m of Done (ys, m') \<Rightarrow> m' = m | Trap s \<Rightarrow> False | Stuck \<Rightarrow> True)"

definition pure_effects :: "'m machine \<Rightarrow> ir_function \<Rightarrow> bool" where
  "pure_effects M f \<longleftrightarrow> (\<forall>k \<in> set (function_kinds f). removable k \<longrightarrow> pure_effect M k)"

definition untrapped :: "'m \<Rightarrow> (env \<times> 'm) outcome \<Rightarrow> bool" where
  "untrapped m x \<longleftrightarrow> (case x of Done (e, m') \<Rightarrow> m' = m | Trap s \<Rightarrow> False | Stuck \<Rightarrow> True)"

lemma perform_effect_untrapped: "pure_effect M k \<Longrightarrow> untrapped m (perform_effect M k (e, m))"
proof -
  assume pure: "pure_effect M k"
  have vals: "get_values e vs \<noteq> Trap s" for vs s
    by (induction vs) (auto simp: bind_outcome_def get_value_def split: outcome.splits option.splits)
  show ?thesis
  proof (cases "get_values e (operands_read k)")
    case (Done xs)
    have "case effect M k xs m of Done (ys, m') \<Rightarrow> m' = m | Trap s \<Rightarrow> False | Stuck \<Rightarrow> True"
      using pure by (simp add: pure_effect_def)
    with Done show ?thesis
      using bind_values_no_trap
      by (auto simp: perform_effect_def untrapped_def bind_outcome_def split: outcome.splits prod.splits)
  qed (use vals in \<open>simp_all add: perform_effect_def untrapped_def\<close>)
qed

lemma write_result_untrapped: "(\<And>s. snd res \<noteq> Trap s) \<Longrightarrow> untrapped m (write_result res e m)"
  by (cases "snd res") (auto simp: write_result_def untrapped_def)

lemma with_operands_no_trap: "(\<And>x y. g x y \<noteq> Trap s) \<Longrightarrow> with_operands e l h g \<noteq> Trap s"
  by (simp add: with_operands_def get_value_def split: option.split)

lemma float_or_int_no_trap:
  "float_or_int M (\<lambda>x y. Done (p x y)) (\<lambda>x y. Done (q x y)) x y \<noteq> Trap s"
  by (simp add: float_or_int_def case_prod_beta)

lemma removable_untrapped:
  assumes "removable k" and "pure_effect M k"
  shows "untrapped m (exec_kind M k (e, m))"
proof (cases k)
  case (Arith a)
  with assms(1) show ?thesis
    by (cases a) (auto simp: exec_kind_def exec_arith_def removable_def has_side_effects_def
        get_result_id_def with_operands_no_trap float_or_int_no_trap intro!: write_result_untrapped)
next
  case (Compare c)
  then show ?thesis
    by (cases c) (auto simp: exec_kind_def exec_compare_def Let_def with_operands_no_trap
        float_or_int_no_trap intro!: write_result_untrapped)
next
  case (Logical l)
  then show ?thesis
    by (cases l) (auto simp: exec_kind_def exec_logical_def with_operands_no_trap get_value_def
        split: option.splits intro!: write_result_untrapped)
next
  case (Move mv)
  then show ?thesis
    by (cases mv) (auto simp: exec_kind_def get_value_def untrapped_def split: option.splits
        intro!: write_result_untrapped [unfolded untrapped_def])
next
  case (Const c)
  then show ?thesis using assms(2)
    by (cases c) (auto simp: exec_kind_def exec_const_def perform_effect_untrapped
        split: option.splits cl_type.splits intro!: write_result_untrapped)
qed (use assms(2) in \<open>simp_all add: exec_kind_def perform_effect_untrapped\<close>)

lemma exec_dead:
  assumes dead: "is_dead U k" and pure: "pure_effect M k" and e: "agree U e e'"
    and ex: "exec_kind M k (e, m) = Done (e1, m1)"
  shows "m1 = m \<and> agree U e1 e'"
proof -
  obtain r where r: "get_result_id k = Some r" "r \<notin> U" "removable k"
    using dead is_dead_removable [OF dead] by (auto simp: is_dead_def split: option.splits)
  have "vid ` set (defined_values k) = {r}"
    using removable_defined [OF r(3,1)] by (metis list.set_map list.simps(15) empty_set)
  then have "e1 y = e y" if "y \<in> U" for y using exec_kind_frame [OF ex, of y] that r(2) by auto
  moreover have "m1 = m" using removable_untrapped [OF r(3) pure, of m e] ex by (simp add: untrapped_def)
  ultimately show ?thesis using e by (simp add: agree_def)
qed

lemma exec_dead_no_trap: "is_dead U k \<Longrightarrow> pure_effect M k \<Longrightarrow> exec_kind M k (e, m) \<noteq> Trap s"
  using removable_untrapped [of k M m e] is_dead_removable by (auto simp: untrapped_def)

lemma exec_live_kinds:
  "\<forall>k \<in> set ks. uses k \<subseteq> U \<Longrightarrow> \<forall>k \<in> set ks. removable k \<longrightarrow> pure_effect M k \<Longrightarrow> agree U e e' \<Longrightarrow>
   outcome_agrees U (exec_kinds M ks (e, m)) (exec_kinds M (filter (\<lambda>k. \<not> is_dead U k) ks) (e', m))"
proof (induction ks arbitrary: e e' m)
  case (Cons k ks)
  have pure: "is_dead U k \<Longrightarrow> pure_effect M k" using Cons.prems(2) is_dead_removable by auto
  show ?case
  proof (cases "exec_kind M k (e, m)")
    case (Done s)
    obtain e1 m1 where s: "s = (e1, m1)" by (cases s)
    show ?thesis
    proof (cases "is_dead U k")
      case True
      then have "m1 = m" "agree U e1 e'" using exec_dead [OF True pure Cons.prems(3)] Done s by blast+
      then show ?thesis using Cons.IH [of e1 e' m] Cons.prems True Done s by simp
    next
      case False
      obtain e1' where "exec_kind M k (e', m) = Done (e1', m1)" "agree U e1 e1'"
        using exec_kind_agree [OF Cons.prems(3), of k M m] Cons.prems(1) Done s
        by (auto simp: outcome_agrees_def)
      then show ?thesis using Cons.IH [of e1 e1' m1] Cons.prems False Done s by simp
    qed
  next
    case (Trap s)
    then have "\<not> is_dead U k" using exec_dead_no_trap [of U k M e m s] pure by auto
    moreover have "exec_kind M k (e', m) = Trap s"
      using exec_kind_agree [OF Cons.prems(3), of k M m] Cons.prems(1) Trap by (simp add: outcome_agrees_def)
    ultimately show ?thesis by (simp add: Trap outcome_agrees_def)
  qed (simp add: outcome_agrees_def)
qed simp

section \<open>Blocks and functions\<close>

lemma phi_live: "is_dead U (Move (Phi r incoming)) \<longleftrightarrow> vid r \<notin> U"
  by (simp add: is_dead_def get_result_id_def has_side_effects_def)

lemma uses_phi: "uses (Move (Phi r incoming)) = vid ` fst ` set incoming"
  by (simp add: uses_def mark_used_values_def)

lemma get_phi_args_live:
  "get_phi_args e cur (phi_descriptors ks) = Done args \<Longrightarrow> \<forall>k \<in> set ks. uses k \<subseteq> U \<Longrightarrow> agree U e e' \<Longrightarrow>
   get_phi_args e' cur (phi_descriptors (filter (\<lambda>k. \<not> is_dead U k) ks)) =
     Done (filter (\<lambda>(r, x). vid r \<in> U) args)"
proof (induction ks arbitrary: args)
  case (Cons k ks)
  show ?case
  proof (cases "\<exists>r incoming. k = Move (Phi r incoming)")
    case True
    then obtain r incoming where k: "k = Move (Phi r incoming)" by blast
    then obtain v x args' where v: "phi_incoming incoming cur = Some v" "get_value e v = Done x"
        "get_phi_args e cur (phi_descriptors ks) = Done args'" "args = (r, x) # args'"
      using Cons.prems(1) by (auto simp: bind_outcome_Done split: option.splits)
    have "(cur, v) \<in> set (map (\<lambda>(v, b). (b, v)) (rev incoming))"
      using v(1) unfolding phi_incoming_def by (rule map_of_SomeD)
    moreover have "vid ` fst ` set incoming \<subseteq> U" using Cons.prems(2) k by (simp add: uses_phi)
    ultimately have "vid v \<in> U" by force
    then have "get_value e' v = Done x" using get_value_agree [OF Cons.prems(3)] v(2) by simp
    then show ?thesis using v Cons k phi_live [of U r incoming] by simp
  next
    case False
    then have "phi_descriptors (k # ks') = phi_descriptors ks'" for ks'
      by (auto split: instruction_kind.splits move_kind.splits)
    then show ?thesis using Cons by simp
  qed
qed simp

lemma get_phi_args_no_trap: "get_phi_args e cur phis \<noteq> Trap s"
  by (induction e cur phis rule: get_phi_args.induct)
    (auto simp: bind_outcome_def get_value_def split: option.splits outcome.splits)

lemma pass_args_live:
  "agree U e e' \<Longrightarrow> agree U (pass_args args e) (pass_args (filter (\<lambda>(r, x). vid r \<in> U) args) e')"
  by (induction args e arbitrary: e' rule: pass_args.induct) (auto simp: agree_def)

definition config_agrees :: "usize set \<Rightarrow> 'm config \<Rightarrow> 'm config \<Rightarrow> bool" where
  "config_agrees U c c' = (case c of
     Running b e m \<Rightarrow> (\<exists>e'. c' = Running b e' m \<and> agree U e e')
   | Stuck_config \<Rightarrow> True
   | _ \<Rightarrow> c' = c)"

lemma config_agrees_simps [simp]:
  "config_agrees U Stuck_config c'"
  "config_agrees U (Running b e m) (Running b e' m) \<longleftrightarrow> agree U e e'"
  "config_agrees U (Returned v m) (Returned v m)"
  "config_agrees U (Trapped s) (Trapped s)"
  by (simp_all add: config_agrees_def)

definition uses_within :: "usize set \<Rightarrow> ir_function \<Rightarrow> bool" where
  "uses_within U f \<longleftrightarrow> used_values (f_blocks f) \<subseteq> U"

lemma uses_within_block:
  assumes "uses_within U f" and "get_block f i = Some b"
  shows "\<forall>k \<in> set (block_kinds b). uses k \<subseteq> U" and "mark_terminator (b_terminator b) {} \<subseteq> U"
  using assms(1) get_block_Some [OF assms(2)] unfolding uses_within_def used_values_eq by blast+

lemma get_block_live [simp]:
  "get_block (map_blocks (live_block U) f) i = map_option (live_block U) (get_block f i)"
  by (rule get_block_map_blocks) simp

lemma jump_live:
  assumes U: "uses_within U f" and e: "agree U e e'"
  shows "config_agrees U (jump f cur tgt e m) (jump (map_blocks (live_block U) f) cur tgt e' m)"
proof (cases "get_block f tgt")
  case (Some b)
  show ?thesis
  proof (cases "get_phi_args e cur (phi_descriptors (block_kinds b))")
    case (Done args)
    then show ?thesis
      using get_phi_args_live [OF Done uses_within_block(1) [OF U Some] e] pass_args_live [OF e]
      by (simp add: jump_def Some block_kinds_live_block)
  qed (use get_phi_args_no_trap in \<open>auto simp: jump_def Some\<close>)
qed (simp add: jump_def)

lemma exec_terminator_live:
  assumes U: "uses_within U f" and t: "mark_terminator t {} \<subseteq> U" and e: "agree U e e'"
  shows "config_agrees U (exec_terminator M f cur t (e, m))
           (exec_terminator M (map_blocks (live_block U) f) cur t (e', m))"
proof -
  have "e' (vid v) = e (vid v)" if "vid v \<in> mark_terminator t {}" for v
    using e t that by (auto simp: agree_def)
  then show ?thesis
    using jump_live [OF U e]
    by (auto simp: exec_terminator_def mark_terminator_def split: option.splits terminator.splits)
qed

lemma step_live:
  assumes U: "uses_within U f" and pure: "pure_effects M f" and c: "config_agrees U c c'"
  shows "config_agrees U (step_block M f c) (step_block M (map_blocks (live_block U) f) c')"
proof (cases c)
  case (Running cur e m)
  then obtain e' where c': "c' = Running cur e' m" "agree U e e'"
    using c by (auto simp: config_agrees_def)
  show ?thesis
  proof (cases "get_block f cur")
    case (Some b)
    have "outcome_agrees U (exec_kinds M (block_kinds b) (e, m))
        (exec_kinds M (filter (\<lambda>k. \<not> is_dead U k) (block_kinds b)) (e', m))"
      using pure get_block_kinds [OF Some]
      by (intro exec_live_kinds [OF uses_within_block(1) [OF U Some] _ c'(2)]) (auto simp: pure_effects_def)
    then show ?thesis
      using exec_terminator_live [OF U uses_within_block(2) [OF U Some]]
      by (auto simp: step_block_def Running c' Some block_kinds_live_block outcome_agrees_def
          split: outcome.splits prod.splits)
  qed (simp add: step_block_def Running)
qed (use c in \<open>auto simp: config_agrees_def step_block_def\<close>)

lemma run_blocks_live:
  assumes U: "uses_within U f" and pure: "pure_effects M f"
  shows "config_agrees U c c' \<Longrightarrow>
    config_agrees U (run_blocks M f n c) (run_blocks M (map_blocks (live_block U) f) n c')"
proof (induction n arbitrary: c c')
  case (Suc n)
  show ?case using Suc.IH [OF step_live [OF U pure Suc.prems]] by simp
qed simp

lemma run_function_live:
  assumes "pure_effects M f"
  shows "config_agrees (used_values (f_blocks f)) (run_function M f n args m)
           (run_function M (map_blocks (live_block (used_values (f_blocks f))) f) n args m)"
proof -
  let ?U = "used_values (f_blocks f)"
  have "start_config (map_blocks (live_block ?U) f) args m = start_config f args m"
    by (simp add: start_config_def split: list.splits)
  moreover have "config_agrees ?U (start_config f args m) (start_config f args m)"
    by (cases "start_config f args m") (auto simp: config_agrees_def agree_def)
  ultimately show ?thesis
    using run_blocks_live [OF _ assms] by (simp add: run_function_def uses_within_def)
qed

text \<open>What a run shows: where control is, what was returned or raised, and the memory.\<close>

definition observed :: "'m config \<Rightarrow> 'm config" where
  "observed c = (case c of Running b e m \<Rightarrow> Running b Map.empty m | _ \<Rightarrow> c)"

lemma config_agrees_observed:
  "config_agrees U c c' \<Longrightarrow> c \<noteq> Stuck_config \<Longrightarrow> observed c' = observed c \<and> c' \<noteq> Stuck_config"
  by (cases c) (auto simp: config_agrees_def observed_def)

lemma pure_effects_live: "pure_effects M f \<Longrightarrow> pure_effects M (map_blocks (live_block U) f)"
  by (auto simp: pure_effects_def function_kinds_def block_kinds_live_block)

lemma eliminate_runs:
  assumes "pure_effects M f" and ns: "run_function M f n args m \<noteq> Stuck_config"
  shows "observed (run_function M (eliminate f) n args m) = observed (run_function M f n args m)"
proof -
  let ?P = "\<lambda>g. pure_effects M g \<and> run_function M g n args m \<noteq> Stuck_config \<and>
    observed (run_function M g n args m) = observed (run_function M f n args m)"
  have "?P (eliminate f)"
  proof (rule eliminate_invariant)
    show "?P f" using assms by simp
  next
    fix g :: ir_function
    assume "?P g"
    then show "?P (map_blocks (live_block (used_values (f_blocks g))) g)"
      using config_agrees_observed [OF run_function_live [of M g n args m]] pure_effects_live by metis
  qed
  then show ?thesis by blast
qed

section \<open>Properties of the pass\<close>

definition dead_sample :: ir_function where
  "dead_sample = literal_function ''f'' [] TInt 5
     [literal_block 0
        [Const (ConstInt (Value 0) 6),
         Const (ConstInt (Value 1) 7),
         Arith (Add (Value 2) (Value 0) (Value 1)),
         Memory (Alloca (Value 3) TInt),
         Arith (Mul (Value 4) (Value 0) (Value 1))] (Return (Some (Value 4)))]"

text \<open>C3: dead code elimination keeps what a function does. Where the removable effects of
  the function are unobservable, the shortened function reaches, after any number of steps,
  the same block, the same returned value, the same trap and the same memory as the original,
  unless the original is stuck on a code generator error.\<close>

theorem dead_code_elimination_preserves_runs:
  assumes "dead_code_elimination_run md = Some (md', changed)"
    and "i < length (m_functions md)" and "f = m_functions md ! i"
    and "pure_effects M f" and "run_function M f n args mem \<noteq> Stuck_config"
  shows "observed (run_function M (m_functions md' ! i) n args mem) = observed (run_function M f n args mem)"
  using assms eliminate_runs [of M f n args mem] by (auto simp: dead_code_elimination_run_eq)

lemma dead_sample_run: "run_function inert_machine dead_sample 1 [] () = Returned (Some (MVal CI64 42)) ()"
  by (simp add: dead_sample_def run_simps inert_machine_def lift_int_def modulus_def perform_effect_def
      operands_read_def instruction_operands_def defined_values_def instruction_result_def)

theorem dead_code_elimination_preserves_runs_witness:
  "\<exists>md'. dead_code_elimination_run (literal_module [dead_sample]) = Some (md', True) \<and>
     observed (run_function inert_machine (m_functions md' ! 0) 1 [] ()) = Returned (Some (MVal CI64 42)) ()"
proof -
  have "needs_elimination dead_sample" by code_simp
  then obtain md' where md': "dead_code_elimination_run (literal_module [dead_sample]) = Some (md', True)"
    by (simp add: dead_code_elimination_run_eq)
  have "pure_effects inert_machine dead_sample"
    by (simp add: pure_effects_def pure_effect_def inert_machine_def)
  then show ?thesis
    using md' dead_code_elimination_preserves_runs [OF md', of 0 dead_sample inert_machine 1 "[]" "()"]
    by (simp add: dead_sample_run [simplified] observed_def)
qed

text \<open>The pass never panics on its indexed removals, its flag says exactly whether the
  module changed, and a second run finds nothing to remove.\<close>

lemma dead_code_elimination_total:
  "\<exists>md' changed. dead_code_elimination_run md = Some (md', changed) \<and> (changed \<longleftrightarrow> md' \<noteq> md) \<and>
     dead_code_elimination_run md' = Some (md', False)"
proof -
  have "map eliminate fs = fs \<longleftrightarrow> (\<forall>f \<in> set fs. \<not> needs_elimination f)" for fs
    using eliminate_same eliminate_shrinks by (induction fs) (auto, metis less_irrefl)
  moreover have "md\<lparr>m_functions := fs\<rparr> = md \<longleftrightarrow> fs = m_functions md" for fs
    by (cases md) simp
  ultimately show ?thesis
    by (auto simp: dead_code_elimination_run_eq eliminate_done eliminate_same comp_def)
qed

text \<open>What the pass may not touch stays. In every block the instructions with an effect or
  without a result keep their order, with the block's id, label and terminator, and no
  instruction is lost whose result something left in the function still reads.\<close>

lemma dead_code_elimination_keeps:
  assumes "dead_code_elimination_run md = Some (md', changed)" and "i < length (m_functions md)"
  shows "map pinned (f_blocks (m_functions md' ! i)) = map pinned (f_blocks (m_functions md ! i)) \<and>
    (\<forall>k \<in> set (function_kinds (m_functions md ! i)). \<forall>r. get_result_id k = Some r \<longrightarrow>
       r \<in> used_values (f_blocks (m_functions md' ! i)) \<longrightarrow> k \<in> set (function_kinds (m_functions md' ! i)))"
  using assms eliminate_pinned eliminate_defines_used
  by (auto simp: dead_code_elimination_run_eq defines_used_def)

end
