(* ===== verification/Layout.thy ===== *)
theory Layout
  imports IR
begin

text \<open>
  Aggregate layout, \<open>src/midend/src/layout.rs\<close>: stored and standalone sizes, alignment,
  and the offsets of a field sequence. Lowering and code generation both take field offsets
  and allocation sizes from here. The contract of an offset assignment is the locale
  \<open>field_offsets\<close>: fields do not overlap and end before the aggregate does. Sizes are
  natural numbers; \<open>layout_bound\<close> below says how far they are from wrapping.
\<close>

section \<open>Sizes\<close>

fun stored_size :: "ir_type \<Rightarrow> usize" where
  "stored_size TUnknown = 0"
| "stored_size TVoid = 0"
| "stored_size TBool = 1"
| "stored_size TChar = 4"
| "stored_size TInt = 8"
| "stored_size TFloat = 8"
| "stored_size (TExactInt _ w) = (case w of I8 \<Rightarrow> 1 | I16 \<Rightarrow> 2 | I32 \<Rightarrow> 4 | I64 \<Rightarrow> 8 | Isize \<Rightarrow> 8 | Usize \<Rightarrow> 8)"
| "stored_size (TExactFloat w) = (case w of F32 \<Rightarrow> 4 | F64 \<Rightarrow> 8)"
| "stored_size TString = 8"
| "stored_size (TPointer _) = 8"
| "stored_size (TTask _) = 8"
| "stored_size TRange = 8"
| "stored_size (TFunction _ _) = 8"
| "stored_size (TTensor _ _ _ _ _) = 8"
| "stored_size (TArray _ _) = 8"
| "stored_size (TTuple _) = 8"
| "stored_size (TStruct _ _) = 8"
| "stored_size (TEnum _ _) = 8"
| "stored_size (TGeneric _ _ rep) = stored_size rep"
| "stored_size (TDynTrait _ _) = 16"

definition alignment_of :: "usize \<Rightarrow> usize" where
  "alignment_of n = (if n = 0 \<or> n = 1 then 1 else if n = 2 then 2 else if n = 3 \<or> n = 4 then 4 else 8)"

definition align_to :: "usize \<Rightarrow> usize \<Rightarrow> usize" where
  "align_to n al = (if al dvd n then n else n + (al - n mod al))"

record layout =
  lay_offsets :: "usize list"
  lay_size :: usize

text \<open>One field: pad to its alignment, record the offset, step over the field.\<close>

definition place_field :: "usize \<Rightarrow> usize list \<times> usize \<Rightarrow> usize list \<times> usize" where
  "place_field sz = (\<lambda>(offsets, offset).
     let alignment = alignment_of sz;
         offset' = (if alignment dvd offset then offset else offset + (alignment - offset mod alignment))
     in (offsets @ [offset'], offset' + sz))"

definition layout_of_sizes :: "usize list \<Rightarrow> layout" where
  "layout_of_sizes sizes =
     (let (offsets, offset) = fold place_field sizes ([], 0)
      in \<lparr>lay_offsets = offsets, lay_size = align_to offset 8\<rparr>)"

definition layout_of :: "ir_type list \<Rightarrow> layout" where
  "layout_of elements = layout_of_sizes (map stored_size elements)"

fun type_size_bytes :: "ir_type \<Rightarrow> usize" where
  "type_size_bytes (TArray el n) = stored_size el * n"
| "type_size_bytes (TTuple els) = lay_size (layout_of els)"
| "type_size_bytes (TStruct _ flds) = lay_size (layout_of (map snd flds))"
| "type_size_bytes (TEnum _ variants) =
     align_to (foldr max (map (\<lambda>(_, data). case data of Some tys \<Rightarrow> lay_size (layout_of tys) | None \<Rightarrow> 0) variants) 0 + 8) 8"
| "type_size_bytes (TGeneric _ _ rep) = type_size_bytes rep"
| "type_size_bytes ty = stored_size ty"

section \<open>Alignment\<close>

lemma alignment_of_pos [simp]: "0 < alignment_of n"
  by (simp add: alignment_of_def)

lemma alignment_of_le: "alignment_of n \<le> 8"
  by (simp add: alignment_of_def)

lemma alignment_of_dvd: "alignment_of n dvd 8"
  by (auto simp: alignment_of_def intro: dvd_triv_left)

lemma align_to_dvd: "0 < al \<Longrightarrow> al dvd align_to n al"
proof -
  assume al: "0 < al"
  have "n + (al - n mod al) = (n div al + 1) * al"
    using mod_less_divisor [OF al, of n] div_mult_mod_eq [of n al] by (simp only: distrib_right)
  then show ?thesis by (simp add: align_to_def)
qed

lemma align_to_bounds: "0 < al \<Longrightarrow> n \<le> align_to n al \<and> align_to n al < n + al"
  using mod_less_divisor [of al n] unfolding align_to_def dvd_eq_mod_eq_0 by (simp, linarith)

text \<open>Rounding up is the least multiple that is large enough.\<close>

lemma align_to_least:
  assumes "0 < al" and "al dvd m" and "n \<le> m"
  shows "align_to n al \<le> m"
proof (rule ccontr)
  assume "\<not> align_to n al \<le> m"
  then have lt: "m < align_to n al" by simp
  have "al dvd align_to n al - m" using align_to_dvd [OF assms(1)] assms(2) by (rule dvd_diff_nat)
  moreover have "0 < align_to n al - m" using lt by simp
  ultimately have "al \<le> align_to n al - m" by (simp add: dvd_imp_le)
  then show False using align_to_bounds [OF assms(1), of n] assms(3) lt by linarith
qed

lemma place_field_eq:
  "place_field s (os, n) = (os @ [align_to n (alignment_of s)], align_to n (alignment_of s) + s)"
  by (simp add: place_field_def align_to_def Let_def)

section \<open>The contract of an offset assignment\<close>

locale field_offsets =
  fixes offsets_of :: "usize list \<Rightarrow> usize list" and total :: "usize list \<Rightarrow> usize"
  assumes offsets_length: "length (offsets_of sizes) = length sizes"
    and offsets_ordered: "i < j \<Longrightarrow> j < length sizes \<Longrightarrow> offsets_of sizes ! i + sizes ! i \<le> offsets_of sizes ! j"
    and offsets_within: "i < length sizes \<Longrightarrow> offsets_of sizes ! i + sizes ! i \<le> total sizes"
begin

definition extent :: "usize list \<Rightarrow> nat \<Rightarrow> usize set" where
  "extent sizes i = {offsets_of sizes ! i ..< offsets_of sizes ! i + sizes ! i}"

lemma extents_disjoint:
  assumes "i < length sizes" and "j < length sizes" and "i \<noteq> j"
  shows "extent sizes i \<inter> extent sizes j = {}"
proof (cases "i < j")
  case True
  with offsets_ordered [OF True assms(2)] show ?thesis by (auto simp: extent_def)
next
  case False
  with assms offsets_ordered [of j i sizes] show ?thesis by (auto simp: extent_def)
qed

lemma extents_within: "i < length sizes \<Longrightarrow> extent sizes i \<subseteq> {..< total sizes}"
  using offsets_within [of i sizes] by (auto simp: extent_def)

text \<open>Looking a field up by its offset finds that field, when no field is empty.\<close>

lemma offset_inject:
  assumes "i < length sizes" and "j < length sizes" and "0 < sizes ! i" and "0 < sizes ! j"
    and "offsets_of sizes ! i = offsets_of sizes ! j"
  shows "i = j"
  using assms offsets_ordered [of i j sizes] offsets_ordered [of j i sizes] by (metis add_leD1 leD less_add_same_cancel1 linorder_neqE_nat order.strict_trans2)

end

section \<open>The layout meets the contract\<close>

abbreviation placed :: "usize list \<Rightarrow> usize list \<times> usize" where
  "placed sizes \<equiv> fold place_field sizes ([], 0)"

lemma placed_snoc:
  "placed (sizes @ [s]) =
     (fst (placed sizes) @ [align_to (snd (placed sizes)) (alignment_of s)],
      align_to (snd (placed sizes)) (alignment_of s) + s)"
  by (cases "placed sizes") (simp add: place_field_eq)

lemma placed_length: "length (fst (placed sizes)) = length sizes"
  by (induction sizes rule: rev_induct) (simp_all only: placed_snoc, simp_all)

lemma align_to_ge: "n \<le> align_to n (alignment_of s)"
  using align_to_bounds [of "alignment_of s"] by simp

lemma placed_within: "i < length sizes \<Longrightarrow> fst (placed sizes) ! i + sizes ! i \<le> snd (placed sizes)"
proof (induction sizes rule: rev_induct)
  case (snoc s sizes)
  show ?case
  proof (cases "i < length sizes")
    case True
    with snoc.IH align_to_ge [of "snd (placed sizes)" s] show ?thesis
      unfolding placed_snoc by (simp add: nth_append placed_length)
  next
    case False
    with snoc.prems have "i = length sizes" by simp
    then show ?thesis unfolding placed_snoc by (simp add: nth_append placed_length)
  qed
qed simp

lemma placed_ordered:
  "i < j \<Longrightarrow> j < length sizes \<Longrightarrow> fst (placed sizes) ! i + sizes ! i \<le> fst (placed sizes) ! j"
proof (induction sizes rule: rev_induct)
  case (snoc s sizes)
  show ?case
  proof (cases "j < length sizes")
    case True
    with snoc show ?thesis unfolding placed_snoc by (simp add: nth_append placed_length)
  next
    case False
    with snoc.prems have "j = length sizes" "i < length sizes" by auto
    then show ?thesis
      using placed_within [of i sizes] align_to_ge [of "snd (placed sizes)" s]
      unfolding placed_snoc by (simp add: nth_append placed_length)
  qed
qed simp

lemma placed_aligned: "i < length sizes \<Longrightarrow> alignment_of (sizes ! i) dvd fst (placed sizes) ! i"
proof (induction sizes rule: rev_induct)
  case (snoc s sizes)
  then show ?case unfolding placed_snoc
    by (auto simp: nth_append placed_length align_to_dvd less_Suc_eq)
qed simp

text \<open>No packing loss: a field starts at the first aligned byte after its predecessor.\<close>

lemma placed_tight:
  assumes "Suc i < length sizes" and "alignment_of (sizes ! Suc i) dvd m"
    and "fst (placed sizes) ! i + sizes ! i \<le> m"
  shows "fst (placed sizes) ! Suc i \<le> m"
  using assms
proof (induction sizes rule: rev_induct)
  case (snoc s sizes)
  show ?case
  proof (cases "Suc i < length sizes")
    case True
    with snoc show ?thesis unfolding placed_snoc by (simp add: nth_append placed_length)
  next
    case False
    with snoc.prems have i: "length sizes = Suc i" by simp
    then obtain pre x where pre: "sizes = pre @ [x]" "length pre = i"
      by (metis length_Suc_conv_rev)
    have "snd (placed sizes) = fst (placed sizes) ! i + sizes ! i"
      unfolding pre placed_snoc using pre(2) by (simp add: nth_append placed_length)
    with snoc.prems i show ?thesis
      unfolding placed_snoc by (simp add: nth_append placed_length align_to_least)
  qed
qed simp

lemma placed_bound: "snd (placed sizes) \<le> sum_list sizes + 7 * length sizes"
proof (induction sizes rule: rev_induct)
  case (snoc s sizes)
  have "align_to (snd (placed sizes)) (alignment_of s) < snd (placed sizes) + 8"
    using align_to_bounds [of "alignment_of s" "snd (placed sizes)"] alignment_of_le [of s] by simp
  with snoc show ?case unfolding placed_snoc by simp
qed simp

lemma layout_of_sizes_sel:
  "lay_offsets (layout_of_sizes sizes) = fst (placed sizes)"
  "lay_size (layout_of_sizes sizes) = align_to (snd (placed sizes)) 8"
  by (simp_all add: layout_of_sizes_def case_prod_beta)

interpretation lay: field_offsets "lay_offsets \<circ> layout_of_sizes" "lay_size \<circ> layout_of_sizes"
proof unfold_locales
  fix sizes :: "usize list" and i
  assume "i < length sizes"
  then show "(lay_offsets \<circ> layout_of_sizes) sizes ! i + sizes ! i \<le> (lay_size \<circ> layout_of_sizes) sizes"
    using placed_within [of i sizes] align_to_bounds [of 8 "snd (placed sizes)"]
    by (simp add: layout_of_sizes_sel)
qed (simp_all add: layout_of_sizes_sel placed_length placed_ordered)

lemma stored_size_le: "stored_size ty \<le> 16"
  by (induction ty rule: stored_size.induct) (simp_all split: int_width.split float_width.split)

lemma sum_stored_size: "sum_list (map stored_size tys) \<le> 16 * length tys"
  by (induction tys) (simp_all add: add_mono stored_size_le)

section \<open>Properties\<close>

text \<open>The last field ends where the padding of the whole begins.\<close>

lemma placed_end: "(\<And>i. i < length sizes \<Longrightarrow> fst (placed sizes) ! i + sizes ! i \<le> m) \<Longrightarrow> snd (placed sizes) \<le> m"
proof (induction sizes rule: rev_induct)
  case (snoc s sizes)
  from snoc.prems [of "length sizes"] show ?case unfolding placed_snoc by (simp add: nth_append placed_length)
qed simp

lemma layout_size_least:
  assumes "8 dvd m" "\<And>i. i < length tys \<Longrightarrow> lay_offsets (layout_of tys) ! i + stored_size (tys ! i) \<le> m"
  shows "lay_size (layout_of tys) \<le> m"
proof -
  have "snd (placed (map stored_size tys)) \<le> m"
    by (rule placed_end) (use assms(2) in \<open>simp add: layout_of_def layout_of_sizes_sel\<close>)
  then show ?thesis using assms(1) align_to_least [of 8 m] by (simp add: layout_of_def layout_of_sizes_sel)
qed

text \<open>C40: the fields of an aggregate, of any number, do not overlap and lie inside it. There is an offset for every field; each is a
  multiple of the field's natural alignment, and the field ends below the total size; the bytes of two fields are disjoint; and the total
  size is the least multiple of eight that holds them all, so 0 for no field.\<close>

theorem layout_fields_disjoint:
  "length (lay_offsets (layout_of tys)) = length tys \<and>
   (\<forall>i < length tys. alignment_of (stored_size (tys ! i)) dvd lay_offsets (layout_of tys) ! i \<and>
      lay_offsets (layout_of tys) ! i + stored_size (tys ! i) \<le> lay_size (layout_of tys)) \<and>
   (\<forall>i < length tys. \<forall>j < length tys. i \<noteq> j \<longrightarrow>
      {lay_offsets (layout_of tys) ! i ..< lay_offsets (layout_of tys) ! i + stored_size (tys ! i)} \<inter>
      {lay_offsets (layout_of tys) ! j ..< lay_offsets (layout_of tys) ! j + stored_size (tys ! j)} = {}) \<and>
   8 dvd lay_size (layout_of tys) \<and>
   (\<forall>m. 8 dvd m \<longrightarrow> (\<forall>i < length tys. lay_offsets (layout_of tys) ! i + stored_size (tys ! i) \<le> m) \<longrightarrow> lay_size (layout_of tys) \<le> m)"
proof -
  let ?s = "map stored_size tys"
  have disjoint: "lay.extent ?s i \<inter> lay.extent ?s j = {}" if "i < length tys" "j < length tys" "i \<noteq> j" for i j
    using that by (intro lay.extents_disjoint) simp_all
  have aligned: "alignment_of (?s ! i) dvd fst (placed ?s) ! i" if "i < length tys" for i using that by (intro placed_aligned) simp
  have within: "fst (placed ?s) ! i + stored_size (tys ! i) \<le> align_to (snd (placed ?s)) 8" if "i < length tys" for i
    using lay.offsets_within [of i ?s] that by (simp add: layout_of_sizes_sel)
  have "8 dvd align_to (snd (placed ?s)) 8" by (rule align_to_dvd) simp
  then show ?thesis using disjoint aligned within layout_size_least [of _ tys]
    by (simp add: lay.extent_def layout_of_def layout_of_sizes_sel placed_length)
qed

theorem layout_fields_disjoint_witness:
  "lay_offsets (layout_of [TBool, TInt, TChar]) = [0, 8, 16] \<and> lay_size (layout_of [TBool, TInt, TChar]) = 24 \<and>
   {lay_offsets (layout_of [TBool, TInt, TChar]) ! 1 ..< 16} \<inter> {lay_offsets (layout_of [TBool, TInt, TChar]) ! 2 ..< 20} = {} \<and>
   lay_offsets (layout_of [TChar]) = [0] \<and> alignment_of 4 dvd lay_offsets (layout_of [TChar]) ! 0 \<and> 4 \<le> lay_size (layout_of [TChar]) \<and>
   lay_size (layout_of []) = 0"
proof -
  have "lay_offsets (layout_of [TBool, TInt, TChar]) = [0, 8, 16]" "lay_size (layout_of [TBool, TInt, TChar]) = 24"
    "lay_offsets (layout_of [TChar]) = [0]" by code_simp+
  moreover have "{lay_offsets (layout_of [TBool, TInt, TChar]) ! 1 ..< lay_offsets (layout_of [TBool, TInt, TChar]) ! 1 + 8} \<inter>
      {lay_offsets (layout_of [TBool, TInt, TChar]) ! 2 ..< lay_offsets (layout_of [TBool, TInt, TChar]) ! 2 + 4} = {}"
    using layout_fields_disjoint [of "[TBool, TInt, TChar]", THEN conjunct2, THEN conjunct2, THEN conjunct1, rule_format, of 1 2] by simp
  moreover have "4 \<le> lay_size (layout_of [TChar])" "lay_size (layout_of []) \<le> 0"
    using layout_fields_disjoint [of "[TChar]"] layout_fields_disjoint [of "[]"] by auto
  ultimately show ?thesis by simp
qed

text \<open>The layout wastes nothing. The first field is at offset zero and every other field
  starts at the smallest multiple of its alignment that is not below the end of the field
  before it.\<close>

lemma layout_tight:
  assumes "Suc i < length tys" and "alignment_of (stored_size (tys ! Suc i)) dvd m"
    and "lay_offsets (layout_of tys) ! i + stored_size (tys ! i) \<le> m"
  shows "lay_offsets (layout_of tys) ! Suc i \<le> m \<and> lay_offsets (layout_of tys) ! 0 = 0"
proof
  show "lay_offsets (layout_of tys) ! Suc i \<le> m"
    using assms placed_tight [of i "map stored_size tys" m] by (simp add: layout_of_def layout_of_sizes_sel)
  have "fst (placed (s # sizes)) ! 0 = 0" for s sizes
  proof (induction sizes rule: rev_induct)
    case (snoc x sizes)
    then show ?case
      using placed_snoc [of "s # sizes" x] placed_length [of "s # sizes"] by (simp add: nth_append)
  qed (simp add: place_field_eq align_to_def)
  then show "lay_offsets (layout_of tys) ! 0 = 0"
    using assms(1) by (cases tys) (simp_all add: layout_of_def layout_of_sizes_sel del: fold_simps)
qed

text \<open>Sizes stay far from wrapping: an aggregate of \<open>n\<close> fields is smaller than
  \<open>24 n + 8\<close> bytes, so every offset and size computed for fewer than \<open>2 ^ 59\<close> fields fits
  a \<open>usize\<close>.\<close>

lemma layout_bound: "lay_size (layout_of tys) < 24 * length tys + 8"
  using placed_bound [of "map stored_size tys"] sum_stored_size [of tys]
    align_to_bounds [of 8 "snd (placed (map stored_size tys))"]
  by (simp add: layout_of_def layout_of_sizes_sel)

end
