(* ===== verification/Callgraph.thy ===== *)
theory Callgraph
  imports Layout "HOL-Library.Char_ord" "HOL-Library.List_Lexorder"
begin

text \<open>
  The call and field-access index, \<open>src/midend/src/callgraph.rs\<close>. A hash map is an
  association list with distinct keys and a hash set a list without repetition, both in
  insertion order; nothing below depends on that order. The lemmas say what the index
  contains: exactly the direct callers, the users of a field, and the functions with
  indirect calls, each sorted and without repetition.
\<close>

section \<open>Direct calls\<close>

definition called_name :: "instruction_kind \<Rightarrow> string option" where
  "called_name k = (case k of Calls (Call _ g _ _) \<Rightarrow> Some g | _ \<Rightarrow> None)"

definition insert_call :: "instruction_kind \<Rightarrow> string list \<Rightarrow> string list" where
  "insert_call k s = (case called_name k of Some g \<Rightarrow> List.insert g s | None \<Rightarrow> s)"

definition direct_calls :: "ir_module \<Rightarrow> (string, string list) hash_map" where
  "direct_calls m = fold (\<lambda>f calls.
      AList.map_default (f_name f) (fold insert_call (function_kinds f) [])
        (fold insert_call (function_kinds f)) calls) (m_functions m) []"

definition reverse_callers :: "(string, string list) hash_map \<Rightarrow> (string, string list) hash_map" where
  "reverse_callers graph = fold (\<lambda>(caller, callees).
      fold (\<lambda>callee. AList.map_default callee [caller] (List.insert caller)) callees) graph []"

text \<open>The values collected, sorted and with repetitions dropped; none for an absent key.\<close>

definition sorted_values :: "string list option \<Rightarrow> string list" where
  "sorted_values s = (case s of Some xs \<Rightarrow> remdups_adj (sort xs) | None \<Rightarrow> [])"

definition has_indirect_call :: "ir_function \<Rightarrow> bool" where
  "has_indirect_call f \<longleftrightarrow>
     list_ex (\<lambda>k. case k of Calls (CallIndirect _ _ _ _ _) \<Rightarrow> True | _ \<Rightarrow> False) (function_kinds f)"

section \<open>Field accesses\<close>

definition struct_shape :: "ir_type \<Rightarrow> (string \<times> (string \<times> ir_type) list) option" where
  "struct_shape ty = (case ty of
     TStruct n flds \<Rightarrow> Some (n, flds)
   | TPointer (TStruct n flds) \<Rightarrow> Some (n, flds)
   | _ \<Rightarrow> None)"

definition field_at :: "(string \<times> ir_type) list \<Rightarrow> i64 \<Rightarrow> (string \<times> ir_type) option" where
  "field_at flds offset =
     (let offsets = lay_offsets (layout_of (map snd flds))
      in map_option snd (find (\<lambda>(ix, _). ix < length offsets \<and> offsets ! ix = unat offset)
           (enumerate 0 flds)))"

definition field_symbol :: "ir_type \<Rightarrow> i64 \<Rightarrow> string option" where
  "field_symbol ty offset =
     (if sint offset < 0 then None
      else case struct_shape ty of
             None \<Rightarrow> None
           | Some (n, flds) \<Rightarrow> map_option (\<lambda>(fld, _). n @ ''.'' @ fld) (field_at flds offset))"

definition field_type_at :: "ir_type \<Rightarrow> i64 \<Rightarrow> ir_type option" where
  "field_type_at ty offset =
     (if sint offset < 0 then None
      else case struct_shape ty of
             None \<Rightarrow> None
           | Some (n, flds) \<Rightarrow> map_option snd (field_at flds offset))"

type_synonym type_map = "usize \<rightharpoonup> ir_type"

definition phi_type :: "ir_type list \<Rightarrow> ir_type option" where
  "phi_type tys = (case tys of [] \<Rightarrow> None | ty # rest \<Rightarrow> if list_all (\<lambda>t. t = ty) rest then Some ty else None)"

definition note_type :: "usize \<Rightarrow> ir_type option \<Rightarrow> type_map \<Rightarrow> type_map" where
  "note_type i ty types = (case ty of Some t \<Rightarrow> types(i \<mapsto> t) | None \<Rightarrow> types)"

definition add_value_type :: "(string \<rightharpoonup> ir_type) \<Rightarrow> instruction_kind \<Rightarrow> type_map \<Rightarrow> type_map" where
  "add_value_type return_types k types = (case k of
     Memory (Alloca r ty) \<Rightarrow> types(vid r \<mapsto> ty)
   | Move (Copy r s) \<Rightarrow> note_type (vid r) (types (vid s)) types
   | Move (Phi r incoming) \<Rightarrow>
       note_type (vid r) (phi_type (List.map_filter (\<lambda>(v, _). types (vid v)) incoming)) types
   | Memory (Load r _ ty) \<Rightarrow> types(vid r \<mapsto> ty)
   | Memory (GetElementPtr r _ _ ty _) \<Rightarrow> types(vid r \<mapsto> ty)
   | Calls (Call (Some r) g _ _) \<Rightarrow> note_type (vid r) (return_types g) types
   | Memory (FieldPtr r p offset) \<Rightarrow>
       note_type (vid r) (Option.bind (types (vid p)) (\<lambda>ty. field_type_at ty offset)) types
   | _ \<Rightarrow> types)"

definition collect_value_types :: "(string \<rightharpoonup> ir_type) \<Rightarrow> ir_function \<Rightarrow> type_map" where
  "collect_value_types return_types f =
     fold (add_value_type return_types) (function_kinds f)
       (fold (\<lambda>p types. types(p_id p \<mapsto> p_ty p)) (f_params f) Map.empty)"

definition accessed_symbol :: "type_map \<Rightarrow> instruction_kind \<Rightarrow> string option" where
  "accessed_symbol types k = (case k of
     Memory (FieldPtr _ p offset) \<Rightarrow> Option.bind (types (vid p)) (\<lambda>ty. field_symbol ty offset)
   | _ \<Rightarrow> None)"

definition field_accesses :: "(string \<rightharpoonup> ir_type) \<Rightarrow> ir_function \<Rightarrow> string list" where
  "field_accesses return_types f =
     (let types = collect_value_types return_types f
      in fold (\<lambda>k touched. case accessed_symbol types k of
                 Some s \<Rightarrow> List.insert s touched | None \<Rightarrow> touched) (function_kinds f) [])"

section \<open>The index\<close>

record impact_index =
  ix_callers :: "(string, string list) hash_map"
  ix_field_users :: "(string, string list) hash_map"
  ix_dynamic :: "string list"

definition return_types_of :: "ir_module \<Rightarrow> (string \<rightharpoonup> ir_type)" where
  "return_types_of m =
     fold (\<lambda>x r. r(x_name x \<mapsto> x_return_type x)) (m_external_functions m)
       (fold (\<lambda>f r. r(f_name f \<mapsto> f_return_type f)) (m_functions m) Map.empty)"

definition build_index :: "ir_module \<Rightarrow> impact_index" where
  "build_index m =
     (let callers = reverse_callers (direct_calls m);
          return_types = return_types_of m;
          field_users = fold (\<lambda>f. fold (\<lambda>s. AList.map_default s [f_name f] (List.insert (f_name f)))
                                (field_accesses return_types f)) (m_functions m) [];
          dynamic = fold (\<lambda>f d. if has_indirect_call f then d @ [f_name f] else d) (m_functions m) []
      in \<lparr>ix_callers = callers, ix_field_users = field_users, ix_dynamic = remdups_adj (sort dynamic)\<rparr>)"

definition callers_of :: "impact_index \<Rightarrow> string \<Rightarrow> string list" where
  "callers_of ix s = sorted_values (map_of (ix_callers ix) s)"

definition field_users_of :: "impact_index \<Rightarrow> string \<Rightarrow> string list" where
  "field_users_of ix s = sorted_values (map_of (ix_field_users ix) s)"

definition unresolved_dynamic :: "impact_index \<Rightarrow> string list" where
  "unresolved_dynamic ix = ix_dynamic ix"

section \<open>What the maps hold\<close>

lemma set_fold_insert_call: "set (fold insert_call ks s) = set s \<union> {g. \<exists>k \<in> set ks. called_name k = Some g}"
  by (induction ks arbitrary: s) (auto simp: insert_call_def split: option.splits)

definition calls_directly :: "ir_function \<Rightarrow> string \<Rightarrow> bool" where
  "calls_directly f g \<longleftrightarrow> (\<exists>k \<in> set (function_kinds f). called_name k = Some g)"

lemma direct_calls_fold:
  "entry_set (fold (\<lambda>f calls.
      AList.map_default (f_name f) (fold insert_call (function_kinds f) [])
        (fold insert_call (function_kinds f)) calls) fs r) n =
   entry_set r n \<union> {g. \<exists>f \<in> set fs. f_name f = n \<and> calls_directly f g}"
proof (induction fs arbitrary: r)
  case (Cons f fs)
  have "entry_set (AList.map_default (f_name f) (fold insert_call (function_kinds f) [])
        (fold insert_call (function_kinds f)) r) n =
      entry_set r n \<union> {g. f_name f = n \<and> calls_directly f g}"
    by (auto simp: entry_set_def AList.map_of_map_default set_fold_insert_call calls_directly_def
        split: option.splits)
  then show ?case by (auto simp: Cons.IH)
qed simp

lemma entry_set_direct_calls:
  "entry_set (direct_calls m) n = {g. \<exists>f \<in> set (m_functions m). f_name f = n \<and> calls_directly f g}"
  by (simp add: direct_calls_def direct_calls_fold) (simp add: entry_set_def)

lemma distinct_direct_calls: "distinct (map fst (direct_calls m))"
proof -
  have "distinct (map fst r) \<Longrightarrow> distinct (map fst (fold (\<lambda>f calls.
      AList.map_default (f_name f) (fold insert_call (function_kinds f) [])
        (fold insert_call (function_kinds f)) calls) fs r))" for fs r
    by (induction fs arbitrary: r) (simp_all add: AList.distinct_map_default)
  then show ?thesis by (simp add: direct_calls_def)
qed

lemma direct_calls_total: "f \<in> set (m_functions m) \<Longrightarrow> f_name f \<in> fst ` set (direct_calls m)"
proof -
  have "fst ` set (fold (\<lambda>f calls.
      AList.map_default (f_name f) (fold insert_call (function_kinds f) [])
        (fold insert_call (function_kinds f)) calls) fs r) = f_name ` set fs \<union> fst ` set r" for fs r
    by (induction fs arbitrary: r) (auto simp: AList.dom_map_default)
  then show "f \<in> set (m_functions m) \<Longrightarrow> ?thesis" by (simp add: direct_calls_def)
qed

lemma entry_set_reverse:
  assumes "distinct (map fst graph)"
  shows "entry_set (reverse_callers graph) g = {c. g \<in> entry_set graph c}"
proof -
  have "entry_set (reverse_callers graph) g = {fst x | x. x \<in> set graph \<and> g \<in> set (snd x)}"
    using entry_set_group_nested [of fst snd graph g] by (simp add: reverse_callers_def case_prod_beta')
  also have "\<dots> = {c. \<exists>cs. (c, cs) \<in> set graph \<and> g \<in> set cs}" by auto
  also have "\<dots> = {c. \<exists>cs. map_of graph c = Some cs \<and> g \<in> set cs}"
    using map_of_eq_Some_iff [OF assms] by simp
  also have "\<dots> = {c. g \<in> entry_set graph c}" by (auto simp: entry_set_def split: option.splits)
  finally show ?thesis .
qed

lemma sorted_distinct_remdups_adj: "sorted xs \<Longrightarrow> sorted (remdups_adj xs) \<and> distinct (remdups_adj xs)"
  by (induction xs rule: remdups_adj.induct) auto

lemma sorted_values_entry:
  "set (sorted_values (map_of r k)) = entry_set r k" "sorted (sorted_values (map_of r k))"
  "distinct (sorted_values (map_of r k))"
  by (simp_all add: sorted_values_def entry_set_def sorted_distinct_remdups_adj split: option.split)

lemma set_field_accesses:
  "set (field_accesses rt f) =
     {s. \<exists>k \<in> set (function_kinds f). accessed_symbol (collect_value_types rt f) k = Some s}"
proof -
  have "set (fold (\<lambda>k touched. case accessed_symbol types k of
        Some s \<Rightarrow> List.insert s touched | None \<Rightarrow> touched) ks t) =
      set t \<union> {s. \<exists>k \<in> set ks. accessed_symbol types k = Some s}" for types ks t
    by (induction ks arbitrary: t) (auto split: option.splits)
  then show ?thesis by (simp add: field_accesses_def)
qed

section \<open>Fields found by offset\<close>

lemma find_enumerate_from:
  "n \<le> i \<Longrightarrow> i < n + length ys \<Longrightarrow> P i \<Longrightarrow> (\<And>j. n \<le> j \<Longrightarrow> j < i \<Longrightarrow> \<not> P j) \<Longrightarrow>
   find (\<lambda>(ix, _). P ix) (enumerate n ys) = Some (i, ys ! (i - n))"
proof (induction ys arbitrary: n)
  case (Cons y ys)
  show ?case
  proof (cases "n = i")
    case False
    then have "\<not> P n" using Cons.prems by simp
    moreover have "find (\<lambda>(ix, _). P ix) (enumerate (Suc n) ys) = Some (i, ys ! (i - Suc n))"
      using False Cons.prems by (intro Cons.IH) simp_all
    moreover have "i - n = Suc (i - Suc n)" using False Cons.prems by simp
    ultimately show ?thesis by simp
  qed (use Cons.prems in simp)
qed simp

lemma field_at_offset:
  assumes i: "i < length flds" and pos: "\<forall>(_, ty) \<in> set flds. 0 < stored_size ty"
    and off: "unat offset = lay_offsets (layout_of (map snd flds)) ! i"
  shows "field_at flds offset = Some (flds ! i)"
proof -
  let ?sizes = "map stored_size (map snd flds)" and ?offs = "lay_offsets (layout_of (map snd flds))"
  have len: "length ?offs = length flds" by (simp add: layout_of_def layout_of_sizes_sel placed_length)
  have size: "0 < ?sizes ! j" if "j < length flds" for j
    using pos that by (cases "flds ! j") (force dest: nth_mem)
  have "?offs ! j \<noteq> ?offs ! i" if "j < i" for j
  proof
    assume "?offs ! j = ?offs ! i"
    then have "j = i"
      using that i size lay.offset_inject [of j ?sizes i] by (simp add: layout_of_def)
    with that show False by simp
  qed
  then have "find (\<lambda>(ix, _). ix < length ?offs \<and> ?offs ! ix = unat offset) (enumerate 0 flds) =
      Some (i, flds ! (i - 0))"
    using i len by (intro find_enumerate_from) (simp_all add: off)
  then show ?thesis by (simp add: field_at_def)
qed

lemma small_offset:
  assumes "n < 2 ^ 63"
  shows "unat (word_of_nat n :: i64) = n" and "0 \<le> sint (word_of_nat n :: i64)"
proof -
  show "unat (word_of_nat n :: i64) = n" using assms by (simp add: unsigned_of_nat take_bit_nat_eq_self_iff)
  have "int n < 2 ^ 63" using assms by simp
  then have "sint (word_of_nat n :: i64) = int n"
    by (simp add: signed_of_nat signed_take_bit_int_eq_self)
  then show "0 \<le> sint (word_of_nat n :: i64)" by simp
qed

section \<open>Properties\<close>

text \<open>\<open>callers_of\<close> answers exactly the functions with a direct call to the symbol, in
  sorted order and each once.\<close>

lemma callers_of_exact:
  "set (callers_of (build_index m) s) = {f_name f | f. f \<in> set (m_functions m) \<and> calls_directly f s} \<and>
   sorted (callers_of (build_index m) s) \<and> distinct (callers_of (build_index m) s)"
  by (auto simp: callers_of_def build_index_def Let_def sorted_values_entry
      entry_set_reverse [OF distinct_direct_calls] entry_set_direct_calls)

text \<open>\<open>field_users_of\<close> answers exactly the functions with a field address instruction
  whose base has a known struct type and whose offset is that field's, sorted and each once;
  \<open>unresolved_dynamic\<close> answers exactly the functions with an indirect call.\<close>

lemma field_users_exact:
  "set (field_users_of (build_index m) s) =
     {f_name f | f. f \<in> set (m_functions m) \<and> (\<exists>k \<in> set (function_kinds f).
        accessed_symbol (collect_value_types (return_types_of m) f) k = Some s)} \<and>
   sorted (field_users_of (build_index m) s) \<and> distinct (field_users_of (build_index m) s) \<and>
   set (unresolved_dynamic (build_index m)) = f_name ` {f \<in> set (m_functions m). has_indirect_call f} \<and>
   sorted (unresolved_dynamic (build_index m)) \<and> distinct (unresolved_dynamic (build_index m))"
proof -
  have "set (fold (\<lambda>f d. if has_indirect_call f then d @ [f_name f] else d) fs d) =
      set d \<union> f_name ` {f \<in> set fs. has_indirect_call f}" for fs d
    by (induction fs arbitrary: d) auto
  moreover have "set (field_users_of (build_index m) s) =
      {f_name f | f. f \<in> set (m_functions m) \<and> s \<in> set (field_accesses (return_types_of m) f)}"
    using entry_set_group_nested [of f_name "field_accesses (return_types_of m)" "m_functions m" s]
    by (simp add: field_users_of_def build_index_def Let_def sorted_values_entry)
  ultimately show ?thesis
    by (simp add: field_users_of_def unresolved_dynamic_def build_index_def Let_def sorted_values_entry
        sorted_distinct_remdups_adj set_field_accesses)
qed

text \<open>The layout and the index agree: the symbol found at the offset the layout gives a
  field is that field's, through a pointer or directly, when no field of the struct is empty.\<close>

lemma field_symbol_roundtrip:
  assumes "i < length flds" and "\<forall>(_, ty) \<in> set flds. 0 < stored_size ty"
    and "lay_offsets (layout_of (map snd flds)) ! i < 2 ^ 63"
  shows "field_symbol (TStruct n flds) (word_of_nat (lay_offsets (layout_of (map snd flds)) ! i)) =
      Some (n @ ''.'' @ fst (flds ! i)) \<and>
    field_type_at (TPointer (TStruct n flds)) (word_of_nat (lay_offsets (layout_of (map snd flds)) ! i)) =
      Some (snd (flds ! i))"
  using assms field_at_offset [OF assms(1,2)] small_offset [OF assms(3)]
  by (simp add: field_symbol_def field_type_at_def struct_shape_def case_prod_beta)

end
