(* ===== verification/Inlining.thy ===== *)
theory Inlining
  imports Callgraph Operands "HOL-Library.Sublist"
begin

text \<open>
  Function inlining, \<open>src/midend/src/passes/function_inlining.rs\<close>: which functions are
  candidates, the search for a call to one, the splitting of the call block around a copy of
  the candidate's blocks, and the rounds. Indexing panics and the loop that might not end are
  values of the model; the lemmas show that neither happens.
\<close>

section \<open>Candidates\<close>

definition MAX_INLINE_BLOCKS :: usize where "MAX_INLINE_BLOCKS = 24"
definition MAX_INLINE_INSTRUCTIONS :: usize where "MAX_INLINE_INSTRUCTIONS = 220"

type_synonym candidates = "(string, ir_function) hash_map"

definition has_complex_control_labels :: "ir_function \<Rightarrow> bool" where
  "has_complex_control_labels f \<longleftrightarrow>
     list_ex (\<lambda>b. sublist ''match'' (b_label b) \<or> sublist ''unless'' (b_label b) \<or>
                  sublist ''block.result'' (b_label b)) (f_blocks f)"

definition collect_terminator_targets :: "terminator \<Rightarrow> usize set \<Rightarrow> usize set" where
  "collect_terminator_targets t targets = (case t of
     Branch target \<Rightarrow> insert target targets
   | CondBranch _ yes no \<Rightarrow> insert no (insert yes targets)
   | Switch _ arms dflt \<Rightarrow> insert dflt (targets \<union> snd ` set arms)
   | Return _ \<Rightarrow> targets
   | Unreachable \<Rightarrow> targets)"

definition has_unreachable_loop_exit :: "ir_function \<Rightarrow> bool" where
  "has_unreachable_loop_exit f =
     (let targets = fold (\<lambda>b ts. case b_terminator b of
                        Some t \<Rightarrow> collect_terminator_targets t ts | None \<Rightarrow> ts) (f_blocks f) {}
      in list_ex (\<lambda>b. sublist ''loop.exit'' (b_label b) \<and> b_id b \<notin> targets) (f_blocks f))"

fun is_inline_alloca_type :: "ir_type \<Rightarrow> bool" where
  "is_inline_alloca_type TInt = True"
| "is_inline_alloca_type TFloat = True"
| "is_inline_alloca_type TBool = True"
| "is_inline_alloca_type TChar = True"
| "is_inline_alloca_type (TArray el n) = (n \<le> 4096 \<and> is_inline_alloca_type el)"
| "is_inline_alloca_type _ = False"

definition blocks_inlining :: "instruction_kind \<Rightarrow> bool" where
  "blocks_inlining k = (case k of
     Memory (Alloca _ ty) \<Rightarrow> \<not> is_inline_alloca_type ty
   | Calls _ \<Rightarrow> True
   | Async _ \<Rightarrow> True
   | Conv (MakeDynFatPtr _ _ _) \<Rightarrow> True
   | Conv (LoadDynDataPtr _ _) \<Rightarrow> True
   | Conv (LoadDynVtablePtr _ _) \<Rightarrow> True
   | Conv (LoadVtableSlot _ _ _) \<Rightarrow> True
   | _ \<Rightarrow> False)"

definition is_inline_candidate :: "ir_function \<Rightarrow> (string, string list) hash_map \<Rightarrow> bool" where
  "is_inline_candidate f call_graph =
     (if f_name f = ''main'' \<or> length (f_params f) > 8 \<or> f_suspension_barrier f then False
      else if f_return_type f \<notin> {TInt, TBool, TVoid} then False
      else if f_blocks f = [] \<or> length (f_blocks f) > MAX_INLINE_BLOCKS then False
      else if has_complex_control_labels f then False
      else if has_unreachable_loop_exit f then False
      else if (case map_of call_graph (f_name f) of Some calls \<Rightarrow> f_name f \<in> set calls | None \<Rightarrow> False) then False
      else if list_ex (\<lambda>b. list_ex (\<lambda>i. blocks_inlining (i_kind i)) (b_instructions b)) (f_blocks f) then False
      else sum_list (map (length \<circ> b_instructions) (f_blocks f)) \<le> MAX_INLINE_INSTRUCTIONS)"

definition collect_candidates :: "ir_module \<Rightarrow> (string, string list) hash_map \<Rightarrow> candidates" where
  "collect_candidates m call_graph =
     fold (\<lambda>f cands. if is_inline_candidate f call_graph then AList.update (f_name f) f cands else cands)
       (m_functions m) []"

section \<open>Finding a call\<close>

fun find_call_in :: "candidates \<Rightarrow> usize \<Rightarrow> instruction list \<Rightarrow> (usize \<times> string) option" where
  "find_call_in cands ii [] = None"
| "find_call_in cands ii (i # is) = (case i_kind i of
     Calls (Call _ g args _) \<Rightarrow> (case map_of cands g of
       Some c \<Rightarrow> if length (f_params c) = length args then Some (ii, g) else find_call_in cands (ii + 1) is
     | None \<Rightarrow> find_call_in cands (ii + 1) is)
   | _ \<Rightarrow> find_call_in cands (ii + 1) is)"

fun find_call_in_blocks :: "candidates \<Rightarrow> usize \<Rightarrow> basic_block list \<Rightarrow> (usize \<times> usize \<times> string) option" where
  "find_call_in_blocks cands bi [] = None"
| "find_call_in_blocks cands bi (b # bs) = (case find_call_in cands 0 (b_instructions b) of
     Some (ii, g) \<Rightarrow> Some (bi, ii, g)
   | None \<Rightarrow> find_call_in_blocks cands (bi + 1) bs)"

definition find_inline_call :: "ir_function \<Rightarrow> candidates \<Rightarrow> (usize \<times> usize \<times> string) option" where
  "find_inline_call f cands = find_call_in_blocks cands 0 (f_blocks f)"

section \<open>Copying the callee\<close>

type_synonym value_map = "usize \<rightharpoonup> ssa_value"
type_synonym block_map = "usize \<rightharpoonup> usize"

definition map_value :: "value_map \<Rightarrow> ssa_value \<Rightarrow> ssa_value" where
  "map_value vs v = (case vs (vid v) of Some w \<Rightarrow> w | None \<Rightarrow> v)"

definition map_block_id :: "block_map \<Rightarrow> usize \<Rightarrow> usize" where
  "map_block_id bm i = (case bm i of Some j \<Rightarrow> j | None \<Rightarrow> i)"

text \<open>The source has no arms for the five bit operations: they are copied as they are.\<close>

definition remap_instruction :: "value_map \<Rightarrow> block_map \<Rightarrow> instruction_kind \<Rightarrow> instruction_kind" where
  "remap_instruction vs bm k =
     (let mv = map_value vs in
      case k of
        Arith a \<Rightarrow> Arith (case a of
          Add r l h \<Rightarrow> Add (mv r) (mv l) (mv h)
        | Sub r l h \<Rightarrow> Sub (mv r) (mv l) (mv h)
        | Mul r l h \<Rightarrow> Mul (mv r) (mv l) (mv h)
        | Div r l h u \<Rightarrow> Div (mv r) (mv l) (mv h) u
        | Rem r l h u \<Rightarrow> Rem (mv r) (mv l) (mv h) u
        | other \<Rightarrow> other)
      | Compare c \<Rightarrow> Compare (case c of
          Eq r l h \<Rightarrow> Eq (mv r) (mv l) (mv h)
        | Ne r l h \<Rightarrow> Ne (mv r) (mv l) (mv h)
        | Lt r l h u \<Rightarrow> Lt (mv r) (mv l) (mv h) u
        | Le r l h u \<Rightarrow> Le (mv r) (mv l) (mv h) u
        | Gt r l h u \<Rightarrow> Gt (mv r) (mv l) (mv h) u
        | Ge r l h u \<Rightarrow> Ge (mv r) (mv l) (mv h) u)
      | Logical l \<Rightarrow> Logical (case l of
          And r l h \<Rightarrow> And (mv r) (mv l) (mv h)
        | Or r l h \<Rightarrow> Or (mv r) (mv l) (mv h)
        | Not r v \<Rightarrow> Not (mv r) (mv v))
      | Memory m \<Rightarrow> Memory (case m of
          Alloca r ty \<Rightarrow> Alloca (mv r) ty
        | GlobalAddr r n ty \<Rightarrow> GlobalAddr (mv r) n ty
        | Load r p ty \<Rightarrow> Load (mv r) (mv p) ty
        | Store p v \<Rightarrow> Store (mv p) (mv v)
        | GetElementPtr r p ix ty bound \<Rightarrow> GetElementPtr (mv r) (mv p) (mv ix) ty
            (case bound of
               Some (Static n) \<Rightarrow> Some (Static n)
             | Some (Dynamic v) \<Rightarrow> Some (Dynamic (mv v))
             | None \<Rightarrow> None)
        | FieldPtr r p off \<Rightarrow> FieldPtr (mv r) (mv p) off
        | ManualAlloc r n \<Rightarrow> ManualAlloc (mv r) n
        | EscapeManualAlloc p \<Rightarrow> EscapeManualAlloc (mv p))
      | Move (Copy r s) \<Rightarrow> Move (Copy (mv r) (mv s))
      | Move (Phi r incoming) \<Rightarrow> Move (Phi (mv r) (map (\<lambda>(v, b). (mv v, map_block_id bm b)) incoming))
      | Const c \<Rightarrow> Const (case c of
          ConstInt r v \<Rightarrow> ConstInt (mv r) v
        | ConstIntTyped r v ty \<Rightarrow> ConstIntTyped (mv r) v ty
        | ConstFloat r v \<Rightarrow> ConstFloat (mv r) v
        | ConstFloatTyped r v ty \<Rightarrow> ConstFloatTyped (mv r) v ty
        | ConstBool r v \<Rightarrow> ConstBool (mv r) v
        | ConstString r v \<Rightarrow> ConstString (mv r) v)
      | Conv (Cast r v from to) \<Rightarrow> Conv (Cast (mv r) (mv v) from to)
      | Calls (HostCall r h args ty) \<Rightarrow> Calls (HostCall (map_option mv r) h (map mv args) ty)
      | other \<Rightarrow> other)"

definition clone_instruction :: "value_map \<Rightarrow> block_map \<Rightarrow> instruction \<Rightarrow> instruction" where
  "clone_instruction vs bm i =
     \<lparr>i_id = i_id i, i_kind = remap_instruction vs bm (i_kind i), i_span = i_span i\<rparr>"

definition clone_terminator ::
    "block_map \<Rightarrow> value_map \<Rightarrow> usize \<Rightarrow> terminator option \<Rightarrow> terminator option" where
  "clone_terminator bm vs continuation t = (case t of
     Some (Return _) \<Rightarrow> Some (Branch continuation)
   | Some (Branch target) \<Rightarrow> Some (Branch (map_block_id bm target))
   | Some (CondBranch c yes no) \<Rightarrow>
       Some (CondBranch (map_value vs c) (map_block_id bm yes) (map_block_id bm no))
   | Some (Switch v arms dflt) \<Rightarrow>
       Some (Switch (map_value vs v) (map (\<lambda>(c, b). (c, map_block_id bm b)) arms) (map_block_id bm dflt))
   | Some Unreachable \<Rightarrow> Some Unreachable
   | None \<Rightarrow> None)"

text \<open>The pass's own \<open>instruction_result\<close>: it too knows nothing of the bit operations.\<close>

definition inlined_result :: "instruction_kind \<Rightarrow> ssa_value option" where
  "inlined_result k = (case k of
     Arith a \<Rightarrow> (case a of
       Add r _ _ \<Rightarrow> Some r | Sub r _ _ \<Rightarrow> Some r | Mul r _ _ \<Rightarrow> Some r | Div r _ _ _ \<Rightarrow> Some r
     | Rem r _ _ _ \<Rightarrow> Some r | _ \<Rightarrow> None)
   | Compare c \<Rightarrow> Some (case c of
       Eq r _ _ \<Rightarrow> r | Ne r _ _ \<Rightarrow> r | Lt r _ _ _ \<Rightarrow> r | Le r _ _ _ \<Rightarrow> r | Gt r _ _ _ \<Rightarrow> r
     | Ge r _ _ _ \<Rightarrow> r)
   | Logical l \<Rightarrow> Some (case l of And r _ _ \<Rightarrow> r | Or r _ _ \<Rightarrow> r | Not r _ \<Rightarrow> r)
   | Memory m \<Rightarrow> (case m of
       Alloca r _ \<Rightarrow> Some r | GlobalAddr r _ _ \<Rightarrow> Some r | ManualAlloc r _ \<Rightarrow> Some r
     | Load r _ _ \<Rightarrow> Some r | GetElementPtr r _ _ _ _ \<Rightarrow> Some r | FieldPtr r _ _ \<Rightarrow> Some r
     | _ \<Rightarrow> None)
   | Move m \<Rightarrow> Some (case m of Copy r _ \<Rightarrow> r | Phi r _ \<Rightarrow> r)
   | Const c \<Rightarrow> Some (case c of
       ConstInt r _ \<Rightarrow> r | ConstIntTyped r _ _ \<Rightarrow> r | ConstFloat r _ \<Rightarrow> r
     | ConstFloatTyped r _ _ \<Rightarrow> r | ConstBool r _ \<Rightarrow> r | ConstString r _ \<Rightarrow> r)
   | Conv c \<Rightarrow> Some (case c of
       Cast r _ _ _ \<Rightarrow> r | MakeDynFatPtr r _ _ \<Rightarrow> r | LoadDynDataPtr r _ \<Rightarrow> r
     | LoadDynVtablePtr r _ \<Rightarrow> r | LoadVtableSlot r _ _ \<Rightarrow> r)
   | Calls c \<Rightarrow> (case c of
       FuncAddr r _ \<Rightarrow> Some r | Call r _ _ _ \<Rightarrow> r | HostCall r _ _ _ \<Rightarrow> r
     | CallIndirect r _ _ _ _ \<Rightarrow> r | _ \<Rightarrow> None)
   | _ \<Rightarrow> None)"

definition renumber_instructions :: "basic_block \<Rightarrow> basic_block" where
  "renumber_instructions b =
     b\<lparr>b_instructions := map (\<lambda>(ix, i). i\<lparr>i_id := ix\<rparr>) (enumerate 0 (b_instructions b))\<rparr>"

section \<open>Inlining one call\<close>

datatype 'a pass_result = Finished 'a | Panicked

datatype inline_outcome = Inlined ir_function | Refused | Inline_panic

definition vec_insert :: "usize \<Rightarrow> 'a \<Rightarrow> 'a list \<Rightarrow> 'a list" where
  "vec_insert i x xs = take i xs @ x # drop i xs"

definition assign_block_id :: "usize \<times> basic_block \<Rightarrow> block_map \<Rightarrow> block_map" where
  "assign_block_id = (\<lambda>(n, b) bm. bm(b_id b \<mapsto> n))"

definition assign_block_ids :: "usize \<Rightarrow> basic_block list \<Rightarrow> block_map" where
  "assign_block_ids next bs = fold assign_block_id (enumerate next bs) Map.empty"

definition assign_value :: "instruction_kind \<Rightarrow> value_map \<times> usize \<Rightarrow> value_map \<times> usize" where
  "assign_value k = (\<lambda>(vs, next). case inlined_result k of
     Some v \<Rightarrow> (vs(vid v \<mapsto> Value next), next + 1)
   | None \<Rightarrow> (vs, next))"

definition rewire_phi :: "usize \<Rightarrow> usize \<Rightarrow> instruction_kind \<Rightarrow> instruction_kind" where
  "rewire_phi from to k = (case k of
     Move (Phi r incoming) \<Rightarrow> Move (Phi r (map (\<lambda>(v, pred). (v, if pred = from then to else pred)) incoming))
   | _ \<Rightarrow> k)"

definition rewire_block :: "usize \<Rightarrow> usize \<Rightarrow> basic_block \<Rightarrow> basic_block" where
  "rewire_block from to b =
     b\<lparr>b_instructions := map (\<lambda>i. i\<lparr>i_kind := rewire_phi from to (i_kind i)\<rparr>) (b_instructions b)\<rparr>"

definition clone_block ::
    "string \<Rightarrow> value_map \<Rightarrow> block_map \<Rightarrow> usize \<Rightarrow> ssa_value option \<Rightarrow> basic_block \<Rightarrow> basic_block" where
  "clone_block callee vs bm continuation slot b =
     (let cloned = map (clone_instruction vs bm) (b_instructions b);
          stored = (case (b_terminator b, slot) of
              (Some (Return (Some v)), Some s) \<Rightarrow>
                cloned @ [\<lparr>i_id = length cloned, i_kind = Memory (Store s (map_value vs v)), i_span = None\<rparr>]
            | _ \<Rightarrow> cloned)
      in renumber_instructions
           \<lparr>b_id = the (bm (b_id b)), b_label = ''inline.'' @ callee @ ''.'' @ b_label b,
            b_instructions = stored, b_terminator = clone_terminator bm vs continuation (b_terminator b)\<rparr>)"

definition inline_call :: "ir_function \<Rightarrow> usize \<Rightarrow> usize \<Rightarrow> ir_function \<Rightarrow> inline_outcome" where
  "inline_call caller bi ii cand =
     (if bi \<ge> length (f_blocks caller) \<or> ii \<ge> length (b_instructions (f_blocks caller ! bi)) then Inline_panic
      else let call_block = f_blocks caller ! bi in
      case i_kind (b_instructions call_block ! ii) of
        Calls (Call call_result callee call_args _) \<Rightarrow>
          (let continuation = f_next_block_id caller;
               split_id = b_id call_block;
               bm = assign_block_ids (continuation + 1) (f_blocks cand);
               next_block = continuation + 1 + length (f_blocks cand);
               vs0 = fold (\<lambda>(p, a) vs. vs(p_id p \<mapsto> a)) (zip (f_params cand) call_args) Map.empty;
               (vs, next1) = fold assign_value (function_kinds cand) (vs0, f_next_value_id caller);
               (slot, next_value) = (case call_result of Some _ \<Rightarrow> (Some (Value next1), next1 + 1) | None \<Rightarrow> (None, next1));
               tail = drop (ii + 1) (b_instructions call_block);
               head = butlast (take (ii + 1) (b_instructions call_block));
               head' = (case slot of
                   Some s \<Rightarrow> head @ [\<lparr>i_id = length head, i_kind = Memory (Alloca s (f_return_type cand)), i_span = None\<rparr>]
                 | None \<Rightarrow> head)
           in case f_blocks cand of
                [] \<Rightarrow> Inline_panic
              | entry # _ \<Rightarrow>
                (let call_block' = call_block\<lparr>b_instructions := head',
                        b_terminator := Some (Branch (the (bm (b_id entry))))\<rparr>;
                     cloned = map (clone_block callee vs bm continuation slot) (f_blocks cand);
                     reload = (case (call_result, slot) of
                         (Some r, Some s) \<Rightarrow> [\<lparr>i_id = 0, i_kind = Memory (Load r s (f_return_type cand)), i_span = None\<rparr>]
                       | _ \<Rightarrow> []);
                     cont_block = renumber_instructions
                       \<lparr>b_id = continuation, b_label = ''inline.'' @ callee @ ''.cont'',
                        b_instructions = reload @ tail, b_terminator = b_terminator call_block\<rparr>;
                     blocks1 = fold (\<lambda>(off, b). vec_insert (bi + 1 + off) b) (enumerate 0 cloned)
                       ((f_blocks caller)[bi := call_block']);
                     blocks2 = vec_insert (bi + 1 + length (f_blocks cand)) cont_block blocks1
                 in Inlined (caller\<lparr>f_blocks := map (rewire_block split_id continuation) blocks2,
                       f_next_value_id := next_value, f_next_block_id := next_block\<rparr>)))
      | _ \<Rightarrow> Refused)"

section \<open>The loops\<close>

partial_function (option) inline_calls_loop ::
    "candidates \<Rightarrow> ir_function \<Rightarrow> bool \<Rightarrow> (ir_function \<times> bool) pass_result option" where
  [code]: "inline_calls_loop cands f modified =
     (case find_inline_call f cands of
        None \<Rightarrow> Some (Finished (f, modified))
      | Some (bi, ii, g) \<Rightarrow>
          (case map_of cands g of
             None \<Rightarrow> Some (Finished (f, modified))
           | Some c \<Rightarrow>
               (case inline_call f bi ii c of
                  Inline_panic \<Rightarrow> Some Panicked
                | Refused \<Rightarrow> Some (Finished (f, modified))
                | Inlined f' \<Rightarrow> inline_calls_loop cands f' True)))"

definition inline_calls_in_function ::
    "candidates \<Rightarrow> ir_function \<Rightarrow> (ir_function \<times> bool) pass_result option" where
  "inline_calls_in_function cands f = inline_calls_loop cands f False"

fun inline_functions ::
    "candidates \<Rightarrow> ir_function list \<Rightarrow> bool \<Rightarrow> (ir_function list \<times> bool) pass_result option" where
  "inline_functions cands [] modified = Some (Finished ([], modified))"
| "inline_functions cands (f # fs) modified =
     (case (if f_suspension_barrier f then Some (Finished (f, False)) else inline_calls_in_function cands f) of
        None \<Rightarrow> None
      | Some Panicked \<Rightarrow> Some Panicked
      | Some (Finished (f', changed)) \<Rightarrow>
          (case inline_functions cands fs (modified \<or> changed) of
             None \<Rightarrow> None
           | Some Panicked \<Rightarrow> Some Panicked
           | Some (Finished (fs', modified')) \<Rightarrow> Some (Finished (f' # fs', modified'))))"

fun inline_rounds :: "nat \<Rightarrow> ir_module \<Rightarrow> bool \<Rightarrow> (ir_module \<times> bool) pass_result option" where
  "inline_rounds 0 m modified = Some (Finished (m, modified))"
| "inline_rounds (Suc n) m modified =
     (let cands = collect_candidates m (direct_calls m)
      in if cands = [] then Some (Finished (m, modified))
         else case inline_functions cands (m_functions m) False of
                None \<Rightarrow> None
              | Some Panicked \<Rightarrow> Some Panicked
              | Some (Finished (fs, round_modified)) \<Rightarrow>
                  if round_modified then inline_rounds n (m\<lparr>m_functions := fs\<rparr>) True
                  else Some (Finished (m\<lparr>m_functions := fs\<rparr>, modified)))"

definition function_inlining_run :: "ir_module \<Rightarrow> (ir_module \<times> bool) pass_result option" where
  "function_inlining_run m = inline_rounds 4 m False"

section \<open>The shape of an inlined call\<close>

lemma fold_vec_insert:
  "n + k \<le> length xs \<Longrightarrow> fold (\<lambda>(off, b). vec_insert (n + off) b) (enumerate k ys) xs =
     take (n + k) xs @ ys @ drop (n + k) xs"
proof (induction ys arbitrary: k xs)
  case (Cons y ys)
  let ?xs = "take (n + k) xs @ y # drop (n + k) xs"
  have "fold (\<lambda>(off, b). vec_insert (n + off) b) (enumerate k (y # ys)) xs =
      fold (\<lambda>(off, b). vec_insert (n + off) b) (enumerate (Suc k) ys) ?xs"
    by (simp add: vec_insert_def)
  also have "\<dots> = take (n + Suc k) ?xs @ ys @ drop (n + Suc k) ?xs"
    using Cons.prems by (intro Cons.IH) simp
  also have "\<dots> = take (n + k) xs @ (y # ys) @ drop (n + k) xs" using Cons.prems by simp
  finally show ?case .
qed simp

lemma insert_blocks:
  assumes "bi < length xs" and "length ys = n"
  shows "vec_insert (Suc (bi + n)) c
      (fold (\<lambda>(off, b). vec_insert (Suc (bi + off)) b) (enumerate 0 ys) (xs[bi := x])) =
    take bi xs @ [x] @ ys @ [c] @ drop (Suc bi) xs"
proof -
  have "fold (\<lambda>(off, b). vec_insert (Suc (bi + off)) b) (enumerate 0 ys) (xs[bi := x]) =
      take (Suc bi) (xs[bi := x]) @ ys @ drop (Suc bi) (xs[bi := x])"
    using fold_vec_insert [of "Suc bi" 0 "xs[bi := x]" ys] assms by simp
  moreover have "take (Suc bi) (xs[bi := x]) = take bi xs @ [x]"
    using assms by (simp add: take_Suc_conv_app_nth)
  ultimately show ?thesis using assms by (simp add: vec_insert_def)
qed

lemma case_list_hd: "xs \<noteq> [] \<Longrightarrow> (case xs of [] \<Rightarrow> p | x # _ \<Rightarrow> q x) = q (hd xs)"
  by (cases xs) simp_all

text \<open>The parts of an inlined call: the value map and the counter it leaves, the slot for the
  result, the shortened call block, the copied blocks and the continuation.\<close>

definition inline_values :: "ir_function \<Rightarrow> ir_function \<Rightarrow> ssa_value list \<Rightarrow> value_map \<times> usize" where
  "inline_values caller cand args = fold assign_value (function_kinds cand)
     (fold (\<lambda>(p, a) vs. vs(p_id p \<mapsto> a)) (zip (f_params cand) args) Map.empty, f_next_value_id caller)"

definition slot_instruction :: "usize \<Rightarrow> ir_type \<Rightarrow> ssa_value option \<Rightarrow> instruction list" where
  "slot_instruction n ty slot = (case slot of
     Some s \<Rightarrow> [\<lparr>i_id = n, i_kind = Memory (Alloca s ty), i_span = None\<rparr>] | None \<Rightarrow> [])"

definition reload_instruction :: "ir_type \<Rightarrow> ssa_value option \<Rightarrow> ssa_value option \<Rightarrow> instruction list" where
  "reload_instruction ty r slot = (case (r, slot) of
     (Some r, Some s) \<Rightarrow> [\<lparr>i_id = 0, i_kind = Memory (Load r s ty), i_span = None\<rparr>] | _ \<Rightarrow> [])"

definition inlined_blocks ::
    "ir_function \<Rightarrow> basic_block \<Rightarrow> usize \<Rightarrow> ssa_value option \<Rightarrow> string \<Rightarrow> ssa_value list \<Rightarrow> ir_function \<Rightarrow> basic_block list" where
  "inlined_blocks caller b ii r callee args cand =
     (let cont = f_next_block_id caller;
          bm = assign_block_ids (cont + 1) (f_blocks cand);
          (vs, next1) = inline_values caller cand args;
          slot = map_option (\<lambda>_. Value next1) r
      in [b\<lparr>b_instructions := take ii (b_instructions b) @ slot_instruction ii (f_return_type cand) slot,
            b_terminator := Some (Branch (the (bm (b_id (hd (f_blocks cand))))))\<rparr>] @
         map (clone_block callee vs bm cont slot) (f_blocks cand) @
         [renumber_instructions
            \<lparr>b_id = cont, b_label = ''inline.'' @ callee @ ''.cont'',
             b_instructions = reload_instruction (f_return_type cand) r slot @ drop (ii + 1) (b_instructions b),
             b_terminator = b_terminator b\<rparr>])"

lemma butlast_take_Suc: "ii < length xs \<Longrightarrow> butlast (take (Suc ii) xs) = take ii xs"
  by (simp add: butlast_take)

lemma inline_call_eq:
  assumes bi: "bi < length (f_blocks caller)" and b: "b = f_blocks caller ! bi"
    and ii: "ii < length (b_instructions b)" and k: "i_kind (b_instructions b ! ii) = Calls (Call r callee args t)"
    and cand: "f_blocks cand \<noteq> []"
  shows "inline_call caller bi ii cand = Inlined (caller\<lparr>
      f_blocks := map (rewire_block (b_id b) (f_next_block_id caller))
        (take bi (f_blocks caller) @ inlined_blocks caller b ii r callee args cand @ drop (bi + 1) (f_blocks caller)),
      f_next_value_id := snd (inline_values caller cand args) + (if r = None then 0 else 1),
      f_next_block_id := f_next_block_id caller + 1 + length (f_blocks cand)\<rparr>)"
proof -
  obtain vs next1 where vs: "inline_values caller cand args = (vs, next1)" by (cases "inline_values caller cand args")
  show ?thesis
    using bi ii k vs
    by (cases r) (simp_all add: inline_call_def b Let_def case_list_hd [OF cand] insert_blocks inlined_blocks_def
        inline_values_def butlast_take_Suc slot_instruction_def reload_instruction_def)
qed

section \<open>The loop ends and never panics\<close>

lemma find_call_in_Some:
  "find_call_in cands k is = Some (ii, g) \<Longrightarrow> \<exists>r args t c. k \<le> ii \<and> ii - k < length is \<and>
     i_kind (is ! (ii - k)) = Calls (Call r g args t) \<and> map_of cands g = Some c \<and> length (f_params c) = length args"
proof (induction "is" arbitrary: k)
  case (Cons i "is")
  show ?case
  proof (cases "find_call_in cands (k + 1) is = Some (ii, g)")
    case True
    from Cons.IH [OF this]
    obtain r args t c where x: "k + 1 \<le> ii" "ii - (k + 1) < length is"
       "i_kind (is ! (ii - (k + 1))) = Calls (Call r g args t)" "map_of cands g = Some c" "length (f_params c) = length args"
      by blast
    have "ii - k = Suc (ii - (k + 1))" using x(1) by simp
    with x show ?thesis by auto
  next
    case False
    with Cons.prems show ?thesis
      by (auto split: instruction_kind.splits call_kind.splits option.splits if_splits)
  qed
qed simp

lemma find_call_in_blocks_Some:
  "find_call_in_blocks cands k bs = Some (bi, ii, g) \<Longrightarrow>
   k \<le> bi \<and> bi - k < length bs \<and> find_call_in cands 0 (b_instructions (bs ! (bi - k))) = Some (ii, g)"
proof (induction bs arbitrary: k)
  case (Cons b bs)
  show ?case
  proof (cases "find_call_in cands 0 (b_instructions b)")
    case None
    with Cons.prems Cons.IH [of "k + 1"] have x: "k + 1 \<le> bi" "bi - (k + 1) < length bs"
      "find_call_in cands 0 (b_instructions (bs ! (bi - (k + 1)))) = Some (ii, g)" by simp_all
    have "bi - k = Suc (bi - (k + 1))" using x(1) by simp
    with x show ?thesis by simp
  qed (use Cons.prems in auto)
qed simp

lemma find_inline_call_Some:
  assumes "find_inline_call f cands = Some (bi, ii, g)"
  obtains r args t c where "bi < length (f_blocks f)" and "ii < length (b_instructions (f_blocks f ! bi))"
    and "i_kind (b_instructions (f_blocks f ! bi) ! ii) = Calls (Call r g args t)"
    and "map_of cands g = Some c" and "length (f_params c) = length args"
  using find_call_in_blocks_Some [OF assms [unfolded find_inline_call_def]] find_call_in_Some [of cands 0]
  by fastforce

lemma block_kinds_rewire [simp]: "block_kinds (rewire_block p q b) = map (rewire_phi p q) (block_kinds b)"
  by (simp add: block_kinds_def rewire_block_def)

lemma map_enumerate_kind: "map (i_kind \<circ> (\<lambda>(ix, i). i\<lparr>i_id := ix\<rparr>)) (enumerate n is) = map i_kind is"
  by (induction "is" arbitrary: n) simp_all

lemma block_kinds_renumber [simp]: "block_kinds (renumber_instructions b) = block_kinds b"
  by (simp add: block_kinds_def renumber_instructions_def map_enumerate_kind)

definition store_kinds :: "value_map \<Rightarrow> ssa_value option \<Rightarrow> terminator option \<Rightarrow> instruction_kind list" where
  "store_kinds vs slot t = (case (t, slot) of
     (Some (Return (Some v)), Some s) \<Rightarrow> [Memory (Store s (map_value vs v))] | _ \<Rightarrow> [])"

lemma block_kinds_literal [simp]:
  "block_kinds \<lparr>b_id = i, b_label = l, b_instructions = is, b_terminator = t\<rparr> = map i_kind is"
  "block_kinds (b\<lparr>b_instructions := is\<rparr>) = map i_kind is"
  "block_kinds (b\<lparr>b_terminator := t\<rparr>) = block_kinds b"
  "block_kinds (b\<lparr>b_instructions := is, b_terminator := t\<rparr>) = map i_kind is"
  by (simp_all add: block_kinds_def)

lemma map_clone_kinds: "map (i_kind \<circ> clone_instruction vs bm) (b_instructions b) = map (remap_instruction vs bm) (block_kinds b)"
  by (simp add: block_kinds_def clone_instruction_def)

lemma block_kinds_clone [simp]:
  "block_kinds (clone_block callee vs bm cont slot b) =
     map (remap_instruction vs bm) (block_kinds b) @ store_kinds vs slot (b_terminator b)"
  by (simp add: clone_block_def Let_def store_kinds_def map_clone_kinds
      split: option.split terminator.split)

text \<open>The instructions after one inlining, in order.\<close>

definition slot_kinds :: "ir_type \<Rightarrow> ssa_value option \<Rightarrow> instruction_kind list" where
  "slot_kinds ty slot = (case slot of Some s \<Rightarrow> [Memory (Alloca s ty)] | None \<Rightarrow> [])"

definition reload_kinds :: "ir_type \<Rightarrow> ssa_value option \<Rightarrow> ssa_value option \<Rightarrow> instruction_kind list" where
  "reload_kinds ty r slot = (case (r, slot) of (Some r, Some s) \<Rightarrow> [Memory (Load r s ty)] | _ \<Rightarrow> [])"

lemma inlined_blocks_kinds:
  assumes "inline_values caller cand args = (vs, next1)"
  shows "concat (map block_kinds (inlined_blocks caller b ii r callee args cand)) =
    take ii (block_kinds b) @ slot_kinds (f_return_type cand) (map_option (\<lambda>_. Value next1) r) @
    concat (map (\<lambda>c. map (remap_instruction vs (assign_block_ids (f_next_block_id caller + 1) (f_blocks cand)))
        (block_kinds c) @ store_kinds vs (map_option (\<lambda>_. Value next1) r) (b_terminator c)) (f_blocks cand)) @
    reload_kinds (f_return_type cand) r (map_option (\<lambda>_. Value next1) r) @ drop (Suc ii) (block_kinds b)"
  using assms
  by (cases r) (simp_all add: inlined_blocks_def Let_def comp_def slot_kinds_def reload_kinds_def
      slot_instruction_def reload_instruction_def block_kinds_def [of b] take_map drop_map)

definition is_call :: "instruction_kind \<Rightarrow> bool" where
  "is_call k \<longleftrightarrow> called_name k \<noteq> None"

definition call_count :: "ir_function \<Rightarrow> nat" where
  "call_count f = length (filter is_call (function_kinds f))"

lemma is_call_rewire [simp]: "is_call (rewire_phi p q k) = is_call k"
  by (simp add: is_call_def called_name_def rewire_phi_def split: instruction_kind.split move_kind.split)

lemma is_call_remap [simp]: "is_call (remap_instruction vs bm k) = is_call k"
  by (simp add: is_call_def called_name_def remap_instruction_def Let_def
      split: instruction_kind.split move_kind.split conv_kind.split call_kind.split)

lemma no_call_extra [simp]:
  "filter is_call (slot_kinds ty slot) = []"
  "filter is_call (reload_kinds ty r slot) = []"
  "filter is_call (store_kinds vs slot t) = []"
  by (auto simp: is_call_def called_name_def slot_kinds_def reload_kinds_def store_kinds_def
      split: option.split terminator.split)

text \<open>A candidate has no calls, so inlining one removes exactly one call.\<close>

definition inlinable :: "ir_function \<Rightarrow> bool" where
  "inlinable c \<longleftrightarrow> f_blocks c \<noteq> [] \<and> (\<forall>k \<in> set (function_kinds c). \<not> blocks_inlining k)"

lemma inlinable_calls: "inlinable c \<Longrightarrow> k \<in> set (function_kinds c) \<Longrightarrow> \<not> is_call k"
  by (auto simp: inlinable_def blocks_inlining_def is_call_def called_name_def split: instruction_kind.splits call_kind.splits)

lemma function_kinds_split:
  assumes "bi < length (f_blocks f)" and "b = f_blocks f ! bi" and "ii < length (b_instructions b)"
  shows "function_kinds f = concat (map block_kinds (take bi (f_blocks f))) @
     (take ii (block_kinds b) @ i_kind (b_instructions b ! ii) # drop (Suc ii) (block_kinds b)) @
     concat (map block_kinds (drop (Suc bi) (f_blocks f)))"
proof -
  have "f_blocks f = take bi (f_blocks f) @ b # drop (Suc bi) (f_blocks f)"
    using assms(1,2) by (simp add: id_take_nth_drop)
  then have "function_kinds f = concat (map block_kinds (take bi (f_blocks f))) @ block_kinds b @
     concat (map block_kinds (drop (Suc bi) (f_blocks f)))"
    unfolding function_kinds_def by (metis concat.simps(2) concat_append list.simps(9) map_append)
  moreover have "block_kinds b = take ii (block_kinds b) @ i_kind (b_instructions b ! ii) # drop (Suc ii) (block_kinds b)"
    using assms(3) id_take_nth_drop [of ii "block_kinds b"] by (simp add: block_kinds_def)
  ultimately show ?thesis by metis
qed

lemma inline_call_kinds:
  assumes bi: "bi < length (f_blocks caller)" and b: "b = f_blocks caller ! bi"
    and ii: "ii < length (b_instructions b)" and k: "i_kind (b_instructions b ! ii) = Calls (Call r callee args t)"
    and cand: "inlinable cand" and call: "inline_call caller bi ii cand = Inlined g"
    and vs: "inline_values caller cand args = (vs, next1)"
  shows "function_kinds g = map (rewire_phi (b_id b) (f_next_block_id caller))
    (concat (map block_kinds (take bi (f_blocks caller))) @
     (take ii (block_kinds b) @ slot_kinds (f_return_type cand) (map_option (\<lambda>_. Value next1) r) @
      concat (map (\<lambda>c. map (remap_instruction vs (assign_block_ids (f_next_block_id caller + 1) (f_blocks cand)))
          (block_kinds c) @ store_kinds vs (map_option (\<lambda>_. Value next1) r) (b_terminator c)) (f_blocks cand)) @
      reload_kinds (f_return_type cand) r (map_option (\<lambda>_. Value next1) r) @ drop (Suc ii) (block_kinds b)) @
     concat (map block_kinds (drop (Suc bi) (f_blocks caller))))"
proof -
  have "f_blocks g = map (rewire_block (b_id b) (f_next_block_id caller))
        (take bi (f_blocks caller) @ inlined_blocks caller b ii r callee args cand @ drop (bi + 1) (f_blocks caller))"
    using inline_call_eq [OF bi b ii k] cand call by (auto simp: inlinable_def)
  then have "function_kinds g = map (rewire_phi (b_id b) (f_next_block_id caller))
      (concat (map block_kinds (take bi (f_blocks caller))) @
       concat (map block_kinds (inlined_blocks caller b ii r callee args cand)) @
       concat (map block_kinds (drop (Suc bi) (f_blocks caller))))"
    by (simp add: function_kinds_def map_concat comp_def)
  then show ?thesis unfolding inlined_blocks_kinds [OF vs] .
qed

lemma inline_call_count:
  assumes bi: "bi < length (f_blocks caller)" and b: "b = f_blocks caller ! bi"
    and ii: "ii < length (b_instructions b)" and k: "i_kind (b_instructions b ! ii) = Calls (Call r callee args t)"
    and cand: "inlinable cand" and call: "inline_call caller bi ii cand = Inlined g"
  shows "call_count caller = Suc (call_count g)"
proof -
  obtain vs next1 where vs: "inline_values caller cand args = (vs, next1)" by (cases "inline_values caller cand args")
  have "filter is_call (map (remap_instruction vs bm) (block_kinds c) @ store_kinds vs slot (b_terminator c)) = []"
    if "c \<in> set (f_blocks cand)" for c bm slot
  proof -
    have "\<forall>k \<in> set (block_kinds c). \<not> is_call k"
      using inlinable_calls [OF cand] that by (auto simp: function_kinds_def)
    then show ?thesis by (simp add: filter_empty_conv)
  qed
  then have clones: "filter is_call (concat (map (\<lambda>c. map (remap_instruction vs bm) (block_kinds c) @
      store_kinds vs slot (b_terminator c)) (f_blocks cand))) = []" for bm slot
    by (simp add: filter_concat comp_def del: filter_append filter_map)
  have rew: "filter is_call (map (rewire_phi p q) ks) = map (rewire_phi p q) (filter is_call ks)" for p q ks
    by (simp add: filter_map comp_def)
  have "is_call (Calls (Call r callee args t))" by (simp add: is_call_def called_name_def)
  then show ?thesis
    unfolding call_count_def inline_call_kinds [OF bi b ii k cand call vs] function_kinds_split [OF bi b ii] rew k
    using clones by simp
qed

definition candidates_ok :: "candidates \<Rightarrow> bool" where
  "candidates_ok cands \<longleftrightarrow> (\<forall>g c. map_of cands g = Some c \<longrightarrow> inlinable c)"

text \<open>Induction over the calls inlined into one function: what holds before and is kept by
  each single inlining holds of the result, and the result has no call left to inline.\<close>

lemma inline_calls_loop_total:
  assumes ok: "candidates_ok cands" and start: "P f"
    and keep: "\<And>f bi ii g r args t c h. P f \<Longrightarrow> bi < length (f_blocks f) \<Longrightarrow>
       ii < length (b_instructions (f_blocks f ! bi)) \<Longrightarrow>
       i_kind (b_instructions (f_blocks f ! bi) ! ii) = Calls (Call r g args t) \<Longrightarrow>
       map_of cands g = Some c \<Longrightarrow> length (f_params c) = length args \<Longrightarrow>
       inline_call f bi ii c = Inlined h \<Longrightarrow> P h"
  shows "\<exists>g. inline_calls_loop cands f m = Some (Finished (g, m \<or> find_inline_call f cands \<noteq> None)) \<and>
     P g \<and> find_inline_call g cands = None"
  using start
proof (induction "call_count f" arbitrary: f m rule: less_induct)
  case less
  show ?case
  proof (cases "find_inline_call f cands")
    case None
    with less.prems show ?thesis by (subst inline_calls_loop.simps) simp
  next
    case (Some x)
    obtain bi ii g where x: "x = (bi, ii, g)" by (cases x)
    obtain r args t c where c: "bi < length (f_blocks f)" "ii < length (b_instructions (f_blocks f ! bi))"
      "i_kind (b_instructions (f_blocks f ! bi) ! ii) = Calls (Call r g args t)" "map_of cands g = Some c"
      "length (f_params c) = length args"
      by (rule find_inline_call_Some [OF Some [unfolded x]])
    have inl: "inlinable c" using ok c(4) by (auto simp: candidates_ok_def)
    obtain h where h: "inline_call f bi ii c = Inlined h"
      using inline_call_eq [OF c(1) refl c(2,3)] inl by (auto simp: inlinable_def)
    have "call_count h < call_count f" using inline_call_count [OF c(1) refl c(2,3) inl h] by simp
    moreover have "P h" using keep [OF less.prems c h] .
    ultimately obtain g' where "inline_calls_loop cands h True = Some (Finished (g', True))" "P g'"
      "find_inline_call g' cands = None"
      using less.hyps [of h True] by auto
    with Some x c(4) h show ?thesis by (subst inline_calls_loop.simps) simp
  qed
qed

lemma collect_candidates_ok: "candidates_ok (collect_candidates m call_graph)"
proof -
  have cand: "inlinable f" if "is_inline_candidate f call_graph" for f
    using that by (auto simp: is_inline_candidate_def inlinable_def list_ex_iff function_kinds_def block_kinds_def
        split: if_splits)
  have upd: "candidates_ok (AList.update n f cands)" if "candidates_ok cands" "inlinable f" for n f cands
    using that by (auto simp: candidates_ok_def AList.update_conv' split: if_splits)
  have "candidates_ok cands \<Longrightarrow> candidates_ok (fold (\<lambda>f cands. if is_inline_candidate f call_graph
      then AList.update (f_name f) f cands else cands) fs cands)" for fs cands
    by (induction fs arbitrary: cands) (auto simp: upd cand)
  moreover have "candidates_ok []" by (simp add: candidates_ok_def)
  ultimately show ?thesis unfolding collect_candidates_def by blast
qed

lemma collect_candidates_mem:
  "map_of (collect_candidates m call_graph) g = Some c \<Longrightarrow> c \<in> set (m_functions m) \<and> f_name c = g"
proof -
  have "map_of (fold (\<lambda>f cands. if is_inline_candidate f call_graph
      then AList.update (f_name f) f cands else cands) fs cands) g = Some c \<Longrightarrow>
    c \<in> set fs \<and> f_name c = g \<or> map_of cands g = Some c" for fs cands
  proof (induction fs arbitrary: cands)
    case (Cons f fs)
    from Cons.IH [OF Cons.prems [unfolded fold_Cons o_apply]] show ?case
      by (auto simp: AList.update_conv' split: if_splits)
  qed simp
  then show "map_of (collect_candidates m call_graph) g = Some c \<Longrightarrow> ?thesis"
    unfolding collect_candidates_def by fastforce
qed

text \<open>One step of inlining into a function, as a relation.\<close>

definition inlines_to :: "ir_function \<Rightarrow> ir_function \<Rightarrow> ir_function \<Rightarrow> bool" where
  "inlines_to c f h \<longleftrightarrow> inlinable c \<and> (\<exists>bi ii r g args t. bi < length (f_blocks f) \<and>
     ii < length (b_instructions (f_blocks f ! bi)) \<and>
     i_kind (b_instructions (f_blocks f ! bi) ! ii) = Calls (Call r g args t) \<and>
     length (f_params c) = length args \<and> inline_call f bi ii c = Inlined h)"

definition interface where
  "interface f = (f_name f, f_params f, f_return_type f, f_source_span f, f_locals f, f_async_layout f,
     f_suspension_barrier f)"

text \<open>What a round may do to a function: nothing, or fewer calls behind the same interface.\<close>

definition reduces :: "ir_function \<Rightarrow> ir_function \<Rightarrow> bool" where
  "reduces f h \<longleftrightarrow> h = f \<or> call_count h < call_count f \<and> \<not> f_suspension_barrier f \<and> interface h = interface f"

lemma inlines_to_count: "inlines_to c f h \<Longrightarrow> call_count h < call_count f"
  using inline_call_count by (fastforce simp: inlines_to_def)

lemma inlines_to_interface: "inlines_to c f h \<Longrightarrow> interface h = interface f"
proof -
  assume "inlines_to c f h"
  then obtain bi ii r g args t where x: "bi < length (f_blocks f)" "ii < length (b_instructions (f_blocks f ! bi))"
     "i_kind (b_instructions (f_blocks f ! bi) ! ii) = Calls (Call r g args t)" "f_blocks c \<noteq> []"
     "inline_call f bi ii c = Inlined h"
    unfolding inlines_to_def inlinable_def by blast
  from x(5) inline_call_eq [OF x(1) refl x(2,3,4)] show ?thesis by (auto simp: interface_def)
qed

lemma reduces_trans: "reduces f g \<Longrightarrow> reduces g h \<Longrightarrow> reduces f h"
  by (auto simp: reduces_def interface_def)

lemma reduces_step: "reduces f g \<Longrightarrow> \<not> f_suspension_barrier f \<Longrightarrow> inlines_to c g h \<Longrightarrow> reduces f h"
  using inlines_to_count [of c g h] inlines_to_interface [of c g h] by (auto simp: reduces_def)

lemma inline_functions_total:
  assumes ok: "candidates_ok cands" and start: "\<forall>f \<in> set fs. P f"
    and keep: "\<And>f g c h. P f \<Longrightarrow> map_of cands g = Some c \<Longrightarrow> inlines_to c f h \<Longrightarrow> P h"
  shows "\<exists>fs'. inline_functions cands fs m = Some (Finished (fs', m \<or> fs' \<noteq> fs)) \<and>
    (\<forall>f \<in> set fs'. P f) \<and>
    list_all2 (\<lambda>f h. reduces f h \<and> (f_suspension_barrier f \<or> find_inline_call h cands = None)) fs fs'"
  using start
proof (induction fs arbitrary: m)
  case (Cons f fs)
  show ?case
  proof (cases "f_suspension_barrier f")
    case True
    from Cons.IH [of m] Cons.prems obtain fs' where "inline_functions cands fs m = Some (Finished (fs', m \<or> fs' \<noteq> fs))"
      "\<forall>f \<in> set fs'. P f"
      "list_all2 (\<lambda>f h. reduces f h \<and> (f_suspension_barrier f \<or> find_inline_call h cands = None)) fs fs'" by auto
    with True Cons.prems show ?thesis by (intro exI [of _ "f # fs'"]) (simp add: reduces_def)
  next
    case False
    let ?Q = "\<lambda>h. P h \<and> reduces f h"
    have "\<exists>h. inline_calls_loop cands f False = Some (Finished (h, False \<or> find_inline_call f cands \<noteq> None)) \<and>
       ?Q h \<and> find_inline_call h cands = None"
    proof (rule inline_calls_loop_total [OF ok])
      show "?Q f" using Cons.prems by (simp add: reduces_def)
    next
      fix f' bi ii g r args t c h
      assume Q: "?Q f'" and step: "bi < length (f_blocks f')" "ii < length (b_instructions (f_blocks f' ! bi))"
        "i_kind (b_instructions (f_blocks f' ! bi) ! ii) = Calls (Call r g args t)" "map_of cands g = Some c"
        "length (f_params c) = length args" "inline_call f' bi ii c = Inlined h"
      from ok step(4) have "inlinable c" unfolding candidates_ok_def by blast
      with step have "inlines_to c f' h" unfolding inlines_to_def by blast
      with Q step(4) keep reduces_step [OF _ False] show "?Q h" by blast
    qed
    then obtain h where h: "inline_calls_loop cands f False = Some (Finished (h, find_inline_call f cands \<noteq> None))"
      "?Q h" "find_inline_call h cands = None" by auto
    have changed: "find_inline_call f cands \<noteq> None \<longleftrightarrow> h \<noteq> f"
    proof
      assume "h \<noteq> f"
      then show "find_inline_call f cands \<noteq> None"
        using h(1) by (subst (asm) inline_calls_loop.simps) (auto split: option.splits)
    qed (use h(3) in auto)
    from Cons.IH [of "m \<or> h \<noteq> f"] Cons.prems obtain fs' where
      "inline_functions cands fs (m \<or> h \<noteq> f) = Some (Finished (fs', (m \<or> h \<noteq> f) \<or> fs' \<noteq> fs))"
      "\<forall>f \<in> set fs'. P f"
      "list_all2 (\<lambda>f h. reduces f h \<and> (f_suspension_barrier f \<or> find_inline_call h cands = None)) fs fs'" by auto
    with False h changed show ?thesis
      by (intro exI [of _ "h # fs'"]) (simp add: inline_calls_in_function_def disj_assoc)
  qed
qed simp

lemma reduces_antisym: "list_all2 reduces fs gs \<Longrightarrow> list_all2 reduces gs fs \<Longrightarrow> fs = gs"
  by (induction fs gs rule: list_all2_induct) (auto simp: reduces_def)

lemma list_all2_reduces_trans:
  "list_all2 reduces fs gs \<Longrightarrow> list_all2 reduces gs hs \<Longrightarrow> list_all2 reduces fs hs"
  using list_all2_trans [of reduces reduces reduces] reduces_trans by blast

lemma list_all2_reduces_refl: "list_all2 reduces fs fs"
  by (simp add: list_all2_same reduces_def)

lemma inline_rounds_total:
  assumes keep: "\<And>f c h. P f \<Longrightarrow> P c \<Longrightarrow> inlines_to c f h \<Longrightarrow> P h"
  shows "\<forall>f \<in> set (m_functions m). P f \<Longrightarrow>
    \<exists>m'. inline_rounds n m modified = Some (Finished (m', modified \<or> m' \<noteq> m)) \<and>
      (\<forall>f \<in> set (m_functions m'). P f) \<and> list_all2 reduces (m_functions m) (m_functions m') \<and>
      m'\<lparr>m_functions := []\<rparr> = m\<lparr>m_functions := []\<rparr>"
proof (induction n arbitrary: m modified)
  case (Suc n)
  define cands where "cands = collect_candidates m (direct_calls m)"
  have ok: "candidates_ok cands" by (simp add: cands_def collect_candidates_ok)
  have keep': "P f \<Longrightarrow> map_of cands g = Some c \<Longrightarrow> inlines_to c f h \<Longrightarrow> P h" for f g c h
    using keep Suc.prems collect_candidates_mem by (metis cands_def)
  have "\<exists>fs'. inline_functions cands (m_functions m) False = Some (Finished (fs', False \<or> fs' \<noteq> m_functions m)) \<and>
    (\<forall>f \<in> set fs'. P f) \<and>
    list_all2 (\<lambda>f h. reduces f h \<and> (f_suspension_barrier f \<or> find_inline_call h cands = None)) (m_functions m) fs'"
    by (rule inline_functions_total [OF ok Suc.prems]) (rule keep')
  then obtain fs where fs: "inline_functions cands (m_functions m) False = Some (Finished (fs, fs \<noteq> m_functions m))"
    "\<forall>f \<in> set fs. P f"
    "list_all2 (\<lambda>f h. reduces f h \<and> (f_suspension_barrier f \<or> find_inline_call h cands = None)) (m_functions m) fs"
    by auto
  from fs(3) have red: "list_all2 reduces (m_functions m) fs" by (rule list_all2_mono) simp
  show ?case
  proof (cases "cands = [] \<or> fs = m_functions m")
    case True
    have "inline_rounds (Suc n) m modified = Some (Finished (m, modified))"
      using True fs(1) by (auto simp: Let_def simp flip: cands_def)
    with Suc.prems show ?thesis by (auto simp: list_all2_reduces_refl)
  next
    case False
    let ?m = "m\<lparr>m_functions := fs\<rparr>"
    from Suc.IH [of ?m True] fs(2) obtain m' where m': "inline_rounds n ?m True = Some (Finished (m', True))"
      "\<forall>f \<in> set (m_functions m'). P f" "list_all2 reduces fs (m_functions m')"
      "m'\<lparr>m_functions := []\<rparr> = m\<lparr>m_functions := []\<rparr>" by auto
    have "m' \<noteq> m" using reduces_antisym [OF red] m'(3) False by auto
    moreover have "inline_rounds (Suc n) m modified = Some (Finished (m', True))"
      using False fs(1) m'(1) by (simp add: Let_def flip: cands_def)
    ultimately show ?thesis using m' list_all2_reduces_trans [OF red m'(3)] by auto
  qed
qed (simp add: list_all2_reduces_refl)

end
