(* ===== verification/Inlining_Correct.thy ===== *)
theory Inlining_Correct
  imports Inlining "HOL-Library.Multiset"
begin

text \<open>
  What inlining keeps of a function: block ids stay distinct and below the counter, and
  single assignment survives, as long as the copied functions contain no bit operation. With
  one, the copy keeps the callee's value numbers; the last section has the instance.
\<close>

section \<open>Fresh values\<close>

definition bit_operation :: "instruction_kind \<Rightarrow> bool" where
  "bit_operation k = (case k of
     Arith (BitAnd _ _ _) \<Rightarrow> True | Arith (BitOr _ _ _) \<Rightarrow> True | Arith (BitXor _ _ _) \<Rightarrow> True
   | Arith (Shl _ _ _) \<Rightarrow> True | Arith (Shr _ _ _ _) \<Rightarrow> True | _ \<Rightarrow> False)"

definition defs :: "instruction_kind list \<Rightarrow> usize list" where
  "defs ks = concat (map (map vid \<circ> defined_values) ks)"

lemma defs_simps [simp]: "defs [] = []" "defs (k # ks) = map vid (defined_values k) @ defs ks"
  "defs (ks @ ls) = defs ks @ defs ls"
  by (simp_all add: defs_def)

lemma defs_concat: "defs (concat kss) = concat (map defs kss)"
  by (induction kss) simp_all

lemma definitions_of_defs: "definitions_of f = map p_id (f_params f) @ defs (function_kinds f)"
  by (simp add: definitions_of_def defs_def)

lemma defined_values_inlined:
  assumes "\<not> blocks_inlining k" and "\<not> bit_operation k"
  shows "defined_values k = (case inlined_result k of Some v \<Rightarrow> [v] | None \<Rightarrow> [])"
    and "defined_values (remap_instruction vs bm k) = map (map_value vs) (defined_values k)"
proof -
  show "defined_values k = (case inlined_result k of Some v \<Rightarrow> [v] | None \<Rightarrow> [])"
    using assms
    by (cases k) (auto simp: blocks_inlining_def bit_operation_def defined_values_def inlined_result_def
        instruction_result_def split: arith_kind.splits memory_kind.splits move_kind.splits conv_kind.splits)
  show "defined_values (remap_instruction vs bm k) = map (map_value vs) (defined_values k)"
    using assms
    by (cases k) (auto simp: blocks_inlining_def bit_operation_def defined_values_def remap_instruction_def Let_def
        instruction_result_def split: arith_kind.splits compare_kind.splits logical_kind.splits memory_kind.splits
          move_kind.splits const_kind.splits conv_kind.splits)
qed

lemma defined_values_rewire [simp]: "defined_values (rewire_phi p q k) = defined_values k"
  by (simp add: defined_values_def rewire_phi_def instruction_result_def
      split: instruction_kind.split move_kind.split)

lemma defs_rewire [simp]: "defs (map (rewire_phi p q) ks) = defs ks"
  by (simp add: defs_def comp_def)

definition copyable :: "instruction_kind \<Rightarrow> bool" where
  "copyable k \<longleftrightarrow> \<not> blocks_inlining k \<and> \<not> bit_operation k"

lemma assign_value_simps:
  "inlined_result k = None \<Longrightarrow> assign_value k (vs, n) = (vs, n)"
  "inlined_result k = Some v \<Longrightarrow> assign_value k (vs, n) = (vs(vid v \<mapsto> Value n), Suc n)"
  by (simp_all add: assign_value_def)

lemma assign_values_frame:
  "fold assign_value ks (vs0, n) = (vs, n') \<Longrightarrow> \<forall>k \<in> set ks. copyable k \<Longrightarrow> y \<notin> set (defs ks) \<Longrightarrow> vs y = vs0 y"
proof (induction ks arbitrary: vs0 n)
  case (Cons k ks)
  have "copyable k" using Cons.prems(2) by simp
  with Cons show ?case
    by (cases "inlined_result k") (auto simp: assign_value_simps defined_values_inlined copyable_def)
qed simp

lemma assign_values:
  "fold assign_value ks (vs0, n) = (vs, n') \<Longrightarrow> \<forall>k \<in> set ks. copyable k \<Longrightarrow> distinct (defs ks) \<Longrightarrow>
   n' = n + length (defs ks) \<and> map vs (defs ks) = map (Some \<circ> Value) [n ..< n']"
proof (induction ks arbitrary: vs0 n)
  case (Cons k ks)
  have k: "copyable k" using Cons.prems(2) by simp
  show ?case
  proof (cases "inlined_result k")
    case None
    with Cons k show ?thesis by (simp add: assign_value_simps defined_values_inlined copyable_def)
  next
    case (Some v)
    have step: "fold assign_value ks (vs0(vid v \<mapsto> Value n), Suc n) = (vs, n')"
      using Cons.prems(1) Some by (simp add: assign_value_simps)
    have dk: "defined_values k = [v]" using k Some by (simp add: defined_values_inlined copyable_def)
    have IH: "n' = Suc n + length (defs ks) \<and> map vs (defs ks) = map (Some \<circ> Value) [Suc n ..< n']"
      using Cons.IH [OF step] Cons.prems by simp
    moreover have "vs (vid v) = Some (Value n)"
      using assign_values_frame [OF step] Cons.prems dk by simp
    ultimately show ?thesis using dk by (simp add: upt_conv_Cons del: upt_Suc)
  qed
qed simp

lemma defs_remap:
  assumes "\<forall>k \<in> set ks. copyable k"
  shows "defs (map (remap_instruction vs bm) ks) = map (\<lambda>v. vid (map_value vs (Value v))) (defs ks)"
  using assms
proof (induction ks)
  case (Cons k ks)
  then have "defined_values (remap_instruction vs bm k) = map (map_value vs) (defined_values k)"
    by (intro defined_values_inlined) (simp_all add: copyable_def)
  with Cons show ?case by simp
qed simp

lemma map_value_defs:
  "map vs xs = map (Some \<circ> Value) ys \<Longrightarrow> map (\<lambda>v. vid (map_value vs (Value v))) xs = ys"
  by (induction xs arbitrary: ys) (auto simp: map_value_def)

lemma copies_fresh:
  assumes "fold assign_value ks (vs0, n) = (vs, n')" and "\<forall>k \<in> set ks. copyable k" and "distinct (defs ks)"
  shows "defs (map (remap_instruction vs bm) ks) = [n ..< n']" and "n \<le> n'"
  using defs_remap [OF assms(2)] map_value_defs [of vs "defs ks"] assign_values [OF assms] by auto

lemma defs_extra [simp]:
  "defs (slot_kinds ty slot) = map vid (case slot of Some s \<Rightarrow> [s] | None \<Rightarrow> [])"
  "defs (reload_kinds ty None slot) = []" "defs (reload_kinds ty (Some r) (Some s)) = [vid r]"
  "defs (store_kinds vs slot t) = []"
  by (auto simp: slot_kinds_def reload_kinds_def store_kinds_def defined_values_def instruction_result_def
      split: option.split terminator.split)

section \<open>Well-formed functions\<close>

definition no_bit_operations :: "ir_function \<Rightarrow> bool" where
  "no_bit_operations f \<longleftrightarrow> (\<forall>k \<in> set (function_kinds f). \<not> bit_operation k)"

lemma inlined_definitions:
  assumes bi: "bi < length (f_blocks f)" and b: "b = f_blocks f ! bi" and ii: "ii < length (b_instructions b)"
    and k: "i_kind (b_instructions b ! ii) = Calls (Call r g args t)"
    and c: "inlinable c" "no_bit_operations c" "single_assignment c"
    and call: "inline_call f bi ii c = Inlined h"
  shows "mset (definitions_of h) = mset (definitions_of f) + mset [f_next_value_id f ..< f_next_value_id h]"
    and "f_next_value_id f \<le> f_next_value_id h"
proof -
  obtain vs next1 where vs: "inline_values f c args = (vs, next1)" by (cases "inline_values f c args")
  have copy: "\<forall>k \<in> set (function_kinds c). copyable k"
    using c by (simp add: inlinable_def no_bit_operations_def copyable_def)
  have dist: "distinct (defs (function_kinds c))"
    using c(3) by (simp add: single_assignment_def definitions_of_defs)
  note fresh = copies_fresh [OF vs [unfolded inline_values_def] copy dist]
  let ?bm = "assign_block_ids (f_next_block_id f + 1) (f_blocks c)"
  let ?slot = "map_option (\<lambda>_. Value next1) r"
  have "defs (concat (map (\<lambda>x. map (remap_instruction vs ?bm) (block_kinds x) @ store_kinds vs ?slot (b_terminator x)) (f_blocks c)))
      = defs (map (remap_instruction vs ?bm) (function_kinds c))"
    by (simp add: function_kinds_def defs_concat map_concat comp_def)
  then have clones: "defs (concat (map (\<lambda>x. map (remap_instruction vs ?bm) (block_kinds x) @ store_kinds vs ?slot (b_terminator x)) (f_blocks c)))
      = [f_next_value_id f ..< next1]" using fresh(1) by simp
  have nv: "f_next_value_id h = next1 + (if r = None then 0 else 1)" "f_params h = f_params f"
    using call inline_call_eq [OF bi b ii k] c(1) vs by (auto simp: inlinable_def)
  have call_defs: "map vid (defined_values (Calls (Call r g args t))) = map vid (case r of Some r \<Rightarrow> [r] | None \<Rightarrow> [])"
    by (simp add: defined_values_def instruction_result_def)
  show "mset (definitions_of h) = mset (definitions_of f) + mset [f_next_value_id f ..< f_next_value_id h]"
    unfolding definitions_of_defs inline_call_kinds [OF bi b ii k c(1) call vs] function_kinds_split [OF bi b ii] k
    using clones nv fresh(2) call_defs by (cases r) simp_all
  show "f_next_value_id f \<le> f_next_value_id h" using nv fresh(2) by simp
qed

lemma assign_block_ids_nth:
  assumes "distinct (map b_id bs)"
  shows "map (\<lambda>b. assign_block_ids n bs (b_id b)) bs = map Some [n ..< n + length bs]"
proof -
  have frame: "y \<notin> b_id ` set bs \<Longrightarrow> fold assign_block_id (enumerate n bs) bm y = bm y" for n bm y and bs :: "basic_block list"
    by (induction bs arbitrary: n bm) (auto simp: assign_block_id_def)
  have "distinct (map b_id bs) \<Longrightarrow>
      map (\<lambda>b. fold assign_block_id (enumerate n bs) bm (b_id b)) bs = map Some [n ..< n + length bs]" for n bm
  proof (induction bs arbitrary: n bm)
    case (Cons b bs)
    have "fold assign_block_id (enumerate (Suc n) bs) (assign_block_id (n, b) bm) (b_id b) = Some n"
      using Cons.prems frame [of "b_id b" bs] by (simp add: assign_block_id_def)
    with Cons show ?case by (simp add: upt_conv_Cons del: upt_Suc)
  qed simp
  then show ?thesis using assms by (simp add: assign_block_ids_def)
qed

lemma block_ids_clone [simp]: "b_id (clone_block callee vs bm cont slot b) = the (bm (b_id b))"
  by (simp add: clone_block_def renumber_instructions_def Let_def)

lemma block_id_rewire [simp]: "b_id (rewire_block p q b) = b_id b" "b_terminator (rewire_block p q b) = b_terminator b"
  by (simp_all add: rewire_block_def)

lemma block_id_renumber [simp]:
  "b_id (renumber_instructions b) = b_id b" "b_terminator (renumber_instructions b) = b_terminator b"
  by (simp_all add: renumber_instructions_def)

lemma inlined_block_ids:
  assumes bi: "bi < length (f_blocks f)" and b: "b = f_blocks f ! bi" and ii: "ii < length (b_instructions b)"
    and k: "i_kind (b_instructions b ! ii) = Calls (Call r g args t)"
    and c: "inlinable c" "distinct (block_ids c)" and call: "inline_call f bi ii c = Inlined h"
  shows "mset (block_ids h) = mset (block_ids f) + mset [f_next_block_id f ..< f_next_block_id h]"
    and "f_next_block_id f < f_next_block_id h"
proof -
  let ?n = "f_next_block_id f" and ?bm = "assign_block_ids (Suc (f_next_block_id f)) (f_blocks c)"
  have h: "f_next_block_id h = ?n + 1 + length (f_blocks c)"
    "f_blocks h = map (rewire_block (b_id b) ?n)
        (take bi (f_blocks f) @ inlined_blocks f b ii r g args c @ drop (bi + 1) (f_blocks f))"
    using call inline_call_eq [OF bi b ii k] c(1) by (auto simp: inlinable_def)
  have "map (\<lambda>x. ?bm (b_id x)) (f_blocks c) = map Some [Suc ?n ..< Suc ?n + length (f_blocks c)]"
    using c(2) by (intro assign_block_ids_nth) (simp add: block_ids_def)
  then have "map the (map (\<lambda>x. ?bm (b_id x)) (f_blocks c)) = [Suc ?n ..< Suc ?n + length (f_blocks c)]"
    by (simp only: map_map) (simp add: comp_def)
  then have bm: "map (\<lambda>x. the (?bm (b_id x))) (f_blocks c) = [Suc ?n ..< Suc ?n + length (f_blocks c)]"
    by (simp add: comp_def)
  have "map b_id (inlined_blocks f b ii r g args c) = b_id b # [Suc ?n ..< Suc ?n + length (f_blocks c)] @ [?n]"
    using bm by (simp add: inlined_blocks_def Let_def case_prod_beta comp_def)
  moreover have "map b_id (f_blocks f) = map b_id (take bi (f_blocks f)) @ b_id b # map b_id (drop (bi + 1) (f_blocks f))"
    using bi b by (metis id_take_nth_drop list.simps(9) map_append Suc_eq_plus1)
  ultimately show "mset (block_ids h) = mset (block_ids f) + mset [?n ..< f_next_block_id h]"
    unfolding block_ids_def h by (simp add: comp_def upt_conv_Cons del: upt_Suc mset_upt)
  show "?n < f_next_block_id h" using h by simp
qed

lemma distinct_extend:
  assumes "mset ys = mset xs + mset [n ..< n']" and "distinct xs" and "\<forall>x \<in> set xs. x < n" and "n \<le> n'"
  shows "distinct ys \<and> (\<forall>y \<in> set ys. y < n')"
proof -
  have "mset ys = mset (xs @ [n ..< n'])" using assms(1) by simp
  then have "distinct ys = distinct (xs @ [n ..< n'])" "set ys = set (xs @ [n ..< n'])"
    by (metis mset_eq_imp_distinct_iff, metis mset_eq_setD)
  with assms show ?thesis by fastforce
qed

lemma inlines_to_numbered:
  assumes "inlines_to c f h" and f: "numbered f" and c: "numbered c" "no_bit_operations c"
  shows "numbered h"
proof -
  obtain bi ii r g args t where x: "bi < length (f_blocks f)" "ii < length (b_instructions (f_blocks f ! bi))"
     "i_kind (b_instructions (f_blocks f ! bi) ! ii) = Calls (Call r g args t)" "inlinable c"
     "inline_call f bi ii c = Inlined h"
    using assms(1) unfolding inlines_to_def by blast
  have "single_assignment c" "distinct (block_ids c)" using c(1) by (simp_all add: numbered_def)
  note vals = inlined_definitions [OF x(1) refl x(2,3,4) c(2) this(1) x(5)]
    and ids = inlined_block_ids [OF x(1) refl x(2,3,4) this(2) x(5)]
  show ?thesis
    using distinct_extend [OF vals(1) _ _ vals(2)] distinct_extend [OF ids(1) _ _ less_imp_le [OF ids(2)]] f
    by (simp add: numbered_def single_assignment_def)
qed

lemma bit_operation_rewire [simp]: "bit_operation (rewire_phi p q k) = bit_operation k"
  by (simp add: bit_operation_def rewire_phi_def split: instruction_kind.split move_kind.split)

lemma bit_operation_remap [simp]: "bit_operation (remap_instruction vs bm k) = bit_operation k"
  by (simp add: bit_operation_def remap_instruction_def Let_def
      split: instruction_kind.split arith_kind.split move_kind.split conv_kind.split call_kind.split)

lemma inlines_to_no_bit:
  assumes "inlines_to c f h" and f: "no_bit_operations f" and c: "no_bit_operations c"
  shows "no_bit_operations h"
proof -
  obtain bi ii r g args t where x: "bi < length (f_blocks f)" "ii < length (b_instructions (f_blocks f ! bi))"
     "i_kind (b_instructions (f_blocks f ! bi) ! ii) = Calls (Call r g args t)" "inlinable c"
     "inline_call f bi ii c = Inlined h"
    using assms(1) unfolding inlines_to_def by blast
  obtain vs next1 where vs: "inline_values f c args = (vs, next1)" by (cases "inline_values f c args")
  have extra: "k \<in> set (slot_kinds ty slot) \<Longrightarrow> \<not> bit_operation k"
    "k \<in> set (reload_kinds ty r' slot) \<Longrightarrow> \<not> bit_operation k"
    "k \<in> set (store_kinds vs slot t') \<Longrightarrow> \<not> bit_operation k" for ty slot r' t' k
    by (auto simp: slot_kinds_def reload_kinds_def store_kinds_def bit_operation_def
        split: option.splits terminator.splits)
  have cand: "\<not> bit_operation k" if "x \<in> set (f_blocks c)" "k \<in> set (block_kinds x)" for x k
    using c that by (auto simp: no_bit_operations_def function_kinds_def)
  have "\<forall>k \<in> set (function_kinds f). \<not> bit_operation k" using f by (simp add: no_bit_operations_def)
  then show ?thesis
    unfolding no_bit_operations_def inline_call_kinds [OF x(1) refl x(2,3,4,5) vs] function_kinds_split [OF x(1) refl x(2)]
    using cand by (auto dest: extra)
qed

section \<open>Properties\<close>

text \<open>C24: the pass ends on every module without an indexing panic. It reports a change exactly
  when the module changed; a changed function has strictly fewer direct calls and the same
  name, parameters, return type, debug records and barrier, and a function behind a
  suspension barrier is never touched.\<close>

theorem function_inlining_total:
  "\<exists>md'. function_inlining_run md = Some (Finished (md', md' \<noteq> md)) \<and>
     list_all2 reduces (m_functions md) (m_functions md') \<and> md'\<lparr>m_functions := []\<rparr> = md\<lparr>m_functions := []\<rparr>"
  using inline_rounds_total [where P = "\<lambda>_. True", of md 4 False] by (auto simp: function_inlining_run_def)

text \<open>C25: inlining keeps functions well numbered. When every function of the module has
  distinct block ids below its block counter and single assignment with all values below its
  value counter, and no function uses a bit operation, every function of the result is well
  numbered again.\<close>

theorem function_inlining_numbered:
  assumes "\<forall>f \<in> set (m_functions md). numbered f \<and> no_bit_operations f"
    and "function_inlining_run md = Some (Finished (md', changed))"
  shows "\<forall>f \<in> set (m_functions md'). numbered f"
proof -
  have "\<exists>m'. inline_rounds 4 md False = Some (Finished (m', False \<or> m' \<noteq> md)) \<and>
      (\<forall>f \<in> set (m_functions m'). numbered f \<and> no_bit_operations f) \<and>
      list_all2 reduces (m_functions md) (m_functions m') \<and> m'\<lparr>m_functions := []\<rparr> = md\<lparr>m_functions := []\<rparr>"
    using assms(1) inlines_to_numbered inlines_to_no_bit by (intro inline_rounds_total) blast+
  with assms(2) show ?thesis by (auto simp: function_inlining_run_def)
qed

definition call_sample :: "arith_kind \<Rightarrow> ir_module" where
  "call_sample a = literal_module
     [literal_function ''op'' [\<lparr>p_id = 0, p_name = ''a'', p_ty = TInt\<rparr>, \<lparr>p_id = 1, p_name = ''b'', p_ty = TInt\<rparr>] TInt 3
        [literal_block 0 [Arith a] (Return (Some (Value 2)))],
      literal_function ''main'' [] TInt 3
        [literal_block 0
           [Const (ConstInt (Value 0) 1), Const (ConstInt (Value 1) 4),
            Calls (Call (Some (Value 2)) ''op'' [Value 1, Value 0] False)] (Return (Some (Value 2)))]]"

lemma call_sample_numbered:
  "\<forall>f \<in> set (m_functions (call_sample (Add (Value 2) (Value 0) (Value 1)))). numbered f \<and> no_bit_operations f"
  by code_simp

theorem function_inlining_numbered_witness:
  "\<exists>md'. function_inlining_run (call_sample (Add (Value 2) (Value 0) (Value 1))) = Some (Finished (md', True)) \<and>
     list_all numbered (m_functions md')"
proof -
  let ?md = "call_sample (Add (Value 2) (Value 0) (Value 1))"
  obtain md' where run: "function_inlining_run ?md = Some (Finished (md', True))"
  proof -
    have "case function_inlining_run ?md of Some (Finished (_, c)) \<Rightarrow> c | _ \<Rightarrow> False" by code_simp
    then show thesis using that by (auto split: option.splits pass_result.splits)
  qed
  with function_inlining_numbered [OF call_sample_numbered run] show ?thesis by (auto simp: list_all_iff)
qed

text \<open>A bit operation is copied with the callee's own value numbers. A function that
  returns \<open>a << b\<close>, called with the arguments \<open>4\<close> and \<open>1\<close>, is inlined as a shift of \<open>1\<close> by
  \<open>4\<close>: the copy reads the caller's values 0 and 1 and redefines value 2, so the result is not
  in single assignment form although both functions were.\<close>

lemma bit_operation_inlined_wrong:
  "list_all numbered (m_functions (call_sample (Shl (Value 2) (Value 0) (Value 1)))) \<and>
   (\<exists>md' f'. function_inlining_run (call_sample (Shl (Value 2) (Value 0) (Value 1))) = Some (Finished (md', True)) \<and>
      f' = m_functions md' ! 1 \<and> \<not> single_assignment f' \<and>
      Arith (Shl (Value 2) (Value 0) (Value 1)) \<in> set (function_kinds f'))"
proof -
  let ?md = "call_sample (Shl (Value 2) (Value 0) (Value 1))"
  have "list_all numbered (m_functions ?md)" by code_simp
  moreover have "case function_inlining_run ?md of Some (Finished (md', c)) \<Rightarrow>
      c \<and> \<not> single_assignment (m_functions md' ! 1) \<and>
      Arith (Shl (Value 2) (Value 0) (Value 1)) \<in> set (function_kinds (m_functions md' ! 1)) | _ \<Rightarrow> False"
    by code_simp
  ultimately show ?thesis by (auto split: option.splits pass_result.splits)
qed

end
