(* ===== verification/Value_Types.thy ===== *)
theory Value_Types
  imports Operands
begin

text \<open>
  The static types the verifier derives for SSA values, \<open>src/midend/src/passes/verification.rs\<close>:
  machine classes and compatibility, the type a definition fixes, and the propagation of
  operand-dependent types to a fixed point. A hash map that is only looked up is a map.
  The lemmas show that the propagation ends and that every type it records follows from the
  instruction that defines the value.
\<close>

section \<open>Machine classes and compatibility\<close>

fun type_contains_unknown :: "ir_type \<Rightarrow> bool" where
  "type_contains_unknown TUnknown = True"
| "type_contains_unknown (TPointer inner) = type_contains_unknown inner"
| "type_contains_unknown (TTask inner) = type_contains_unknown inner"
| "type_contains_unknown (TArray elem _) = type_contains_unknown elem"
| "type_contains_unknown (TTuple elems) = list_ex type_contains_unknown elems"
| "type_contains_unknown (TStruct _ flds) = list_ex (\<lambda>p. type_contains_unknown (snd p)) flds"
| "type_contains_unknown (TEnum _ variants) = list_ex (\<lambda>p. case snd p of
     None \<Rightarrow> False | Some tys \<Rightarrow> list_ex type_contains_unknown tys) variants"
| "type_contains_unknown (TGeneric _ args rep) = (list_ex type_contains_unknown args \<or> type_contains_unknown rep)"
| "type_contains_unknown (TFunction ps r) = (list_ex type_contains_unknown ps \<or> type_contains_unknown r)"
| "type_contains_unknown (TTensor dtype _ _ _ _) = type_contains_unknown dtype"
| "type_contains_unknown _ = False"

datatype mclass = MC_I8 | MC_I16 | MC_I32 | MC_I64 | MC_F32 | MC_F64

fun machine_class :: "ir_type \<Rightarrow> mclass option" where
  "machine_class TUnknown = None"
| "machine_class TVoid = Some MC_I8"
| "machine_class TBool = Some MC_I8"
| "machine_class TInt = Some MC_I64"
| "machine_class TString = Some MC_I64"
| "machine_class (TPointer _) = Some MC_I64"
| "machine_class (TArray _ _) = Some MC_I64"
| "machine_class (TTuple _) = Some MC_I64"
| "machine_class (TStruct _ _) = Some MC_I64"
| "machine_class (TEnum _ _) = Some MC_I64"
| "machine_class (TFunction _ _) = Some MC_I64"
| "machine_class (TTensor _ _ _ _ _) = Some MC_I64"
| "machine_class (TTask _) = Some MC_I64"
| "machine_class TRange = Some MC_I64"
| "machine_class (TDynTrait _ _) = Some MC_I64"
| "machine_class (TExactInt _ w) = Some (case w of
     I8 \<Rightarrow> MC_I8 | I16 \<Rightarrow> MC_I16 | I32 \<Rightarrow> MC_I32 | I64 \<Rightarrow> MC_I64 | Isize \<Rightarrow> MC_I64 | Usize \<Rightarrow> MC_I64)"
| "machine_class TChar = Some MC_I32"
| "machine_class TFloat = Some MC_F64"
| "machine_class (TExactFloat w) = Some (case w of F32 \<Rightarrow> MC_F32 | F64 \<Rightarrow> MC_F64)"
| "machine_class (TGeneric n args rep) = (if rep = TGeneric n args rep then None else machine_class rep)"

fun is_integer_like :: "ir_type \<Rightarrow> bool" where
  "is_integer_like TInt = True"
| "is_integer_like (TExactInt _ _) = True"
| "is_integer_like TChar = True"
| "is_integer_like _ = False"

definition is_branch_condition_like :: "ir_type \<Rightarrow> bool" where
  "is_branch_condition_like ty \<longleftrightarrow>
     machine_class ty \<in> {Some MC_I8, Some MC_I16, Some MC_I32, Some MC_I64}"

definition value_types_compatible :: "ir_type \<Rightarrow> ir_type \<Rightarrow> bool" where
  "value_types_compatible l r \<longleftrightarrow> (if l = r then True else
     (case (machine_class l, machine_class r) of (Some a, Some b) \<Rightarrow> a = b | _ \<Rightarrow> False))"

definition float_widths_mixable :: "ir_type \<Rightarrow> ir_type \<Rightarrow> bool" where
  "float_widths_mixable l r \<longleftrightarrow>
     machine_class l \<in> {Some MC_F32, Some MC_F64} \<and> machine_class r \<in> {Some MC_F32, Some MC_F64}"

definition binary_operand_types_compatible :: "ir_type \<Rightarrow> ir_type \<Rightarrow> bool" where
  "binary_operand_types_compatible l r \<longleftrightarrow> value_types_compatible l r \<or> float_widths_mixable l r"

definition refine_numeric_type :: "ir_type \<Rightarrow> ir_type \<Rightarrow> ir_type" where
  "refine_numeric_type l r = (if l = r then l else if l = TInt then r else l)"

definition binary_operand_pair :: "instruction_kind \<Rightarrow> (ssa_value \<times> ssa_value) option" where
  "binary_operand_pair k = (case k of
     Arith a \<Rightarrow> Some (case a of
       Add _ l r \<Rightarrow> (l, r) | Sub _ l r \<Rightarrow> (l, r) | Mul _ l r \<Rightarrow> (l, r) | Div _ l r _ \<Rightarrow> (l, r)
     | Rem _ l r _ \<Rightarrow> (l, r) | BitAnd _ l r \<Rightarrow> (l, r) | BitOr _ l r \<Rightarrow> (l, r)
     | BitXor _ l r \<Rightarrow> (l, r) | Shl _ l r \<Rightarrow> (l, r) | Shr _ l r _ \<Rightarrow> (l, r))
   | Compare c \<Rightarrow> Some (case c of
       Eq _ l r \<Rightarrow> (l, r) | Ne _ l r \<Rightarrow> (l, r) | Lt _ l r _ \<Rightarrow> (l, r) | Le _ l r _ \<Rightarrow> (l, r)
     | Gt _ l r _ \<Rightarrow> (l, r) | Ge _ l r _ \<Rightarrow> (l, r))
   | Logical (And _ l r) \<Rightarrow> Some (l, r)
   | Logical (Or _ l r) \<Rightarrow> Some (l, r)
   | _ \<Rightarrow> None)"

section \<open>Types of definitions\<close>

definition address_object_type :: "instruction_kind \<Rightarrow> (ssa_value \<times> ir_type) option" where
  "address_object_type k = (case k of
     Memory (Alloca r ty) \<Rightarrow> Some (r, ty)
   | Memory (GlobalAddr r _ ty) \<Rightarrow> Some (r, ty)
   | Memory (Load r _ ty) \<Rightarrow> Some (r, ty)
   | Async (FrameLoad r _ _ ty) \<Rightarrow> Some (r, ty)
   | Memory (GetElementPtr r _ _ ty _) \<Rightarrow> Some (r, ty)
   | _ \<Rightarrow> None)"

definition definite_value_type :: "instruction_kind \<Rightarrow> (ssa_value \<times> ir_type) option" where
  "definite_value_type k = (case address_object_type k of
     Some obj \<Rightarrow> Some obj
   | None \<Rightarrow> (case k of
       Const (ConstInt r _) \<Rightarrow> Some (r, TInt)
     | Const (ConstIntTyped r _ ty) \<Rightarrow> Some (r, ty)
     | Const (ConstFloat r _) \<Rightarrow> Some (r, TFloat)
     | Const (ConstFloatTyped r _ ty) \<Rightarrow> Some (r, ty)
     | Const (ConstBool r _) \<Rightarrow> Some (r, TBool)
     | Const (ConstString r _) \<Rightarrow> Some (r, TString)
     | Conv (Cast r _ _ to_ty) \<Rightarrow> Some (r, to_ty)
     | Compare c \<Rightarrow> map_option (\<lambda>r. (r, TBool)) (instruction_result k)
     | Calls (HostCall (Some r) _ _ (Some ty)) \<Rightarrow> Some (r, ty)
     | _ \<Rightarrow> None))"

type_synonym signatures = "string \<rightharpoonup> ir_type list \<times> ir_type"
type_synonym value_types = "usize \<rightharpoonup> ir_type"

definition usable :: "ir_type \<Rightarrow> bool" where
  "usable ty \<longleftrightarrow> ty \<noteq> TVoid \<and> \<not> type_contains_unknown ty"

definition record_type :: "usize \<Rightarrow> ir_type \<Rightarrow> value_types \<Rightarrow> value_types" where
  "record_type v ty types = (if usable ty then types(v \<mapsto> ty) else types)"

definition record_definite :: "signatures \<Rightarrow> instruction_kind \<Rightarrow> value_types \<Rightarrow> value_types" where
  "record_definite sigs k types = (case definite_value_type k of
     Some (r, ty) \<Rightarrow> record_type (vid r) ty types
   | None \<Rightarrow> (case k of
       Calls (Call (Some r) callee _ _) \<Rightarrow> (case sigs callee of
         Some (_, ret) \<Rightarrow> record_type (vid r) ret types
       | None \<Rightarrow> types)
     | Calls (CallIndirect (Some r) _ _ _ ret) \<Rightarrow> record_type (vid r) ret types
     | _ \<Rightarrow> types))"

section \<open>Propagation\<close>

text \<open>The inner loop over the incoming values of a phi: \<open>None\<close> when it breaks off.\<close>

fun pick_phi_type :: "value_types \<Rightarrow> ir_type option \<Rightarrow> (ssa_value \<times> usize) list \<Rightarrow> ir_type option" where
  "pick_phi_type types picked [] = picked"
| "pick_phi_type types picked ((v, _) # incoming) = (case types (vid v) of
     None \<Rightarrow> None
   | Some ty \<Rightarrow> (case picked of
       None \<Rightarrow> pick_phi_type types (Some ty) incoming
     | Some chosen \<Rightarrow>
         if value_types_compatible chosen ty
         then pick_phi_type types (Some (refine_numeric_type chosen ty)) incoming
         else None))"

definition combine_types :: "value_types \<Rightarrow> ssa_value \<Rightarrow> ssa_value \<Rightarrow> ir_type option" where
  "combine_types types l r = (case (types (vid l), types (vid r)) of
     (Some lt, Some rt) \<Rightarrow>
       if \<not> binary_operand_types_compatible lt rt then None
       else if float_widths_mixable lt rt \<and> machine_class lt \<noteq> machine_class rt then Some TFloat
       else Some (refine_numeric_type lt rt)
   | _ \<Rightarrow> None)"

definition propagated_type :: "value_types \<Rightarrow> instruction_kind \<Rightarrow> (ssa_value \<times> ir_type) option" where
  "propagated_type types k = (case k of
     Move (Copy r src) \<Rightarrow> map_option (Pair r) (types (vid src))
   | Move (Phi r incoming) \<Rightarrow> map_option (Pair r) (pick_phi_type types None incoming)
   | Arith (Add r l h) \<Rightarrow> map_option (Pair r) (combine_types types l h)
   | Arith (Sub r l h) \<Rightarrow> map_option (Pair r) (combine_types types l h)
   | Arith (Mul r l h) \<Rightarrow> map_option (Pair r) (combine_types types l h)
   | Arith (Div r l h _) \<Rightarrow> map_option (Pair r) (combine_types types l h)
   | Arith (Rem r l h _) \<Rightarrow> map_option (Pair r) (combine_types types l h)
   | Logical (And r l h) \<Rightarrow> map_option (Pair r) (combine_types types l h)
   | Logical (Or r l h) \<Rightarrow> map_option (Pair r) (combine_types types l h)
   | Logical (Not r v) \<Rightarrow> map_option (Pair r) (types (vid v))
   | _ \<Rightarrow> None)"

definition learn_type :: "instruction_kind \<Rightarrow> value_types \<times> nat \<Rightarrow> value_types \<times> nat" where
  "learn_type k = (\<lambda>(types, learned). case propagated_type types k of
     None \<Rightarrow> (types, learned)
   | Some (r, ty) \<Rightarrow>
       if usable ty \<and> types (vid r) = None then (types(vid r \<mapsto> ty), learned + 1)
       else (types, learned))"

definition learn_round :: "instruction_kind list \<Rightarrow> value_types \<Rightarrow> value_types option" where
  "learn_round ks types = (case fold learn_type ks (types, 0) of
     (types', learned) \<Rightarrow> if learned = 0 then None else Some types')"

lemma propagated_result: "propagated_type types k = Some (r, ty) \<Longrightarrow> instruction_result k = Some r"
  by (auto simp: propagated_type_def instruction_result_def split: kind_splits)

definition result_ids :: "instruction_kind list \<Rightarrow> usize set" where
  "result_ids ks = {vid r | r. \<exists>k \<in> set ks. instruction_result k = Some r}"

lemma finite_result_ids [simp]: "finite (result_ids ks)"
proof -
  have "result_ids ks \<subseteq> (\<lambda>k. vid (the (instruction_result k))) ` set ks" by (force simp: result_ids_def)
  then show ?thesis by (rule finite_subset) simp
qed

lemma learn_fold_weight:
  assumes "set ks \<subseteq> set all"
  shows "card (result_ids all - dom (fst (fold learn_type ks (types, n)))) + snd (fold learn_type ks (types, n))
    = card (result_ids all - dom types) + n"
  using assms
proof (induction ks arbitrary: types n)
  case (Cons k ks)
  have "card (result_ids all - dom (fst (learn_type k (types, n)))) + snd (learn_type k (types, n))
    = card (result_ids all - dom types) + n"
  proof (cases "propagated_type types k")
    case (Some rt)
    obtain r ty where rt: "rt = (r, ty)" by (cases rt)
    with Some Cons.prems have "vid r \<in> result_ids all" by (auto simp: result_ids_def dest: propagated_result)
    then have "card (result_ids all - insert (vid r) (dom types)) + 1 = card (result_ids all - dom types)"
      if "types (vid r) = None"
      using that card_Suc_Diff1 [of "result_ids all - dom types" "vid r"] by (auto simp: Diff_insert [symmetric] dom_def)
    with Some rt show ?thesis by (auto simp: learn_type_def)
  qed (simp add: learn_type_def)
  with Cons show ?case by (cases "learn_type k (types, n)") auto
qed simp

lemma learn_round_shrinks:
  "learn_round ks types = Some types' \<Longrightarrow> card (result_ids ks - dom types') < card (result_ids ks - dom types)"
  using learn_fold_weight [of ks ks types 0] by (auto simp: learn_round_def split: prod.splits if_splits)

function learn_types :: "instruction_kind list \<Rightarrow> value_types \<Rightarrow> value_types" where
  "learn_types ks types = (case learn_round ks types of None \<Rightarrow> types | Some types' \<Rightarrow> learn_types ks types')"
  by pat_completeness auto
termination
  by (relation "measure (\<lambda>(ks, types). card (result_ids ks - dom types))") (auto simp: learn_round_shrinks)

declare learn_types.simps [simp del]

interpretation learn: shrinking_loop "learn_round ks" "\<lambda>types. card (result_ids ks - dom types)" "learn_types ks" for ks
proof
  show "learn_types ks types = (case learn_round ks types of None \<Rightarrow> types | Some y \<Rightarrow> learn_types ks y)" for types
    by (subst learn_types.simps) simp
qed (rule learn_round_shrinks)

definition collect_value_types :: "ir_function \<Rightarrow> signatures \<Rightarrow> value_types" where
  "collect_value_types f sigs =
     (let types = fold (\<lambda>p. record_type (p_id p) (p_ty p)) (f_params f) Map.empty;
          types = fold (record_definite sigs) (function_kinds f) types
      in learn_types (function_kinds f) types)"

section \<open>The propagation is complete\<close>

definition settled :: "value_types \<Rightarrow> instruction_kind \<Rightarrow> bool" where
  "settled types k \<longleftrightarrow> (case propagated_type types k of
     None \<Rightarrow> True | Some (r, ty) \<Rightarrow> usable ty \<longrightarrow> types (vid r) \<noteq> None)"

lemma learn_type_cases:
  obtains (same) "learn_type k (types, n) = (types, n)" and "settled types k"
  | (learned) types' where "learn_type k (types, n) = (types', Suc n)"
proof (cases "propagated_type types k")
  case None
  then show thesis by (intro same) (simp_all add: learn_type_def settled_def)
next
  case (Some rt)
  obtain r ty where rt: "rt = (r, ty)" by (cases rt)
  show thesis
  proof (cases "usable ty \<and> types (vid r) = None")
    case True
    with Some rt show thesis by (intro learned) (simp add: learn_type_def)
  next
    case False
    with Some rt show thesis by (intro same) (simp_all add: learn_type_def settled_def)
  qed
qed

lemma learn_fold_grows: "n \<le> snd (fold learn_type ks (types, n))"
proof (induction ks arbitrary: types n)
  case (Cons k ks)
  show ?case
  proof (cases rule: learn_type_cases [of k types n])
    case same
    with Cons show ?thesis by simp
  next
    case (learned types')
    with Cons [where n = "Suc n"] show ?thesis by (simp add: Suc_le_lessD less_imp_le)
  qed
qed simp

lemma learn_fold_settled:
  "snd (fold learn_type ks (types, 0)) = 0 \<Longrightarrow> list_all (settled types) ks"
proof (induction ks)
  case (Cons k ks)
  show ?case
  proof (cases rule: learn_type_cases [of k types 0])
    case same
    with Cons show ?thesis by simp
  next
    case (learned types')
    with Cons.prems learn_fold_grows [of "Suc 0" ks types'] show ?thesis by simp
  qed
qed simp

text \<open>The types of the values are propagated to a fixed point: no copy, phi, arithmetic or
  logical instruction whose operands have types that determine a usable result type is left with
  an untyped result.\<close>

lemma value_types_propagated:
  "list_all (settled (collect_value_types f sigs)) (function_kinds f)"
proof -
  obtain types where "collect_value_types f sigs = learn_types (function_kinds f) types"
    by (simp add: collect_value_types_def Let_def)
  then have "learn_round (function_kinds f) (collect_value_types f sigs) = None" by (simp add: learn.loop_stable)
  then show ?thesis
    by (intro learn_fold_settled) (auto simp: learn_round_def split: prod.splits if_splits)
qed

end
