(* ===== verification/Cfg.thy ===== *)
theory Cfg
  imports IR "HOL-Library.While_Combinator"
begin

text \<open>
  The control flow graph the verifier works on: \<open>block_successors\<close>, \<open>reachable_blocks\<close> and
  \<open>compute_dominators\<close> of \<open>src/midend/src/passes/verification.rs\<close>, with the predecessor map
  \<open>verify_module\<close> builds. Hash sets are lists or sets; iteration goes in insertion order and
  no result depends on it. The lemmas show that the worklist computes reachability and that
  the iteration ends with exactly the dominators: a block is in the set of another iff it
  lies on every path to it.
\<close>

section \<open>Successors, predecessors, reachability\<close>

definition block_successors :: "terminator option \<Rightarrow> usize list" where
  "block_successors t = (case t of
     Some (Branch target) \<Rightarrow> [target]
   | Some (CondBranch _ yes no) \<Rightarrow> [yes, no]
   | Some (Switch _ arms dflt) \<Rightarrow> map snd arms @ [dflt]
   | Some (Return _) \<Rightarrow> []
   | Some Unreachable \<Rightarrow> []
   | None \<Rightarrow> [])"

definition predecessor_map :: "ir_function \<Rightarrow> (usize, usize list) hash_map" where
  "predecessor_map f = fold (\<lambda>b. fold (\<lambda>t. AList.map_default t [b_id b] (List.insert (b_id b)))
     (block_successors (b_terminator b))) (f_blocks f) []"

text \<open>The worklist is a stack with its top first.\<close>

function reachable_loop :: "ir_function \<Rightarrow> usize list \<Rightarrow> usize list \<Rightarrow> usize list \<Rightarrow> usize list" where
  "reachable_loop f ids worklist reachable = (case worklist of
     [] \<Rightarrow> reachable
   | b # rest \<Rightarrow>
       if b \<notin> set ids \<or> b \<in> set reachable then reachable_loop f ids rest reachable
       else reachable_loop f ids
         (case get_block f b of
            Some blk \<Rightarrow> fold (\<lambda>s w. if s \<in> set ids then s # w else w) (block_successors (b_terminator blk)) rest
          | None \<Rightarrow> rest)
         (reachable @ [b]))"
  by pat_completeness auto
termination
proof (relation "measures [\<lambda>(f, ids, w, r). card (set ids - set r), \<lambda>(f, ids, w, r). length w]")
  fix f :: ir_function and ids worklist reachable :: "usize list" and b rest
  assume "worklist = b # rest" and "\<not> (b \<notin> set ids \<or> b \<in> set reachable)"
  then have "card (set ids - insert b (set reachable)) < card (set ids - set reachable)"
    by (intro psubset_card_mono) auto
  then show "((f, ids, case get_block f b of
            Some blk \<Rightarrow> fold (\<lambda>s w. if s \<in> set ids then s # w else w) (block_successors (b_terminator blk)) rest
          | None \<Rightarrow> rest, reachable @ [b]), f, ids, worklist, reachable)
      \<in> measures [\<lambda>(f, ids, w, r). card (set ids - set r), \<lambda>(f, ids, w, r). length w]"
    by simp
qed auto

declare reachable_loop.simps [simp del]

definition reachable_blocks :: "ir_function \<Rightarrow> usize list \<Rightarrow> usize \<Rightarrow> usize list" where
  "reachable_blocks f ids entry = reachable_loop f ids [entry] []"

section \<open>Dominators\<close>

type_synonym dominators = "usize \<rightharpoonup> usize set"

definition initial_dominators :: "usize list \<Rightarrow> usize list \<Rightarrow> usize \<Rightarrow> dominators" where
  "initial_dominators ids reachable entry =
     fold (\<lambda>b d. d(b \<mapsto>
        if b = entry then {b}
        else if b \<notin> set reachable then {entry, b}
        else set reachable)) ids Map.empty"

definition dominator_equation ::
    "(usize \<Rightarrow> usize list) \<Rightarrow> usize list \<Rightarrow> dominators \<Rightarrow> usize \<Rightarrow> usize set" where
  "dominator_equation preds reachable d b =
     (let incoming = filter (\<lambda>p. p \<in> set reachable) (preds b);
          intersection = fold (\<lambda>p i. case d p of Some s \<Rightarrow> i \<inter> s | None \<Rightarrow> i) incoming (set reachable)
      in insert b (if incoming = [] then {} else intersection))"

definition update_dominators ::
    "(usize \<Rightarrow> usize list) \<Rightarrow> usize list \<Rightarrow> usize \<Rightarrow> usize \<Rightarrow> dominators \<times> bool \<Rightarrow> dominators \<times> bool" where
  "update_dominators preds reachable entry b = (\<lambda>(d, changed).
     if b = entry then (d, changed)
     else let s = dominator_equation preds reachable d b
          in if d b \<noteq> Some s then (d(b \<mapsto> s), True) else (d, changed))"

definition compute_dominators ::
    "usize list \<Rightarrow> (usize \<Rightarrow> usize list) \<Rightarrow> usize list \<Rightarrow> usize \<Rightarrow> dominators option" where
  "compute_dominators ids preds reachable entry =
     map_option fst (while_option snd
       (\<lambda>(d, _). fold (update_dominators preds reachable entry) reachable (d, False))
       (initial_dominators ids reachable entry, True))"

section \<open>The worklist computes reachability\<close>

definition cfg_edges :: "ir_function \<Rightarrow> usize list \<Rightarrow> (usize \<times> usize) set" where
  "cfg_edges f ids = {(a, b). a \<in> set ids \<and> b \<in> set ids \<and>
     (\<exists>blk. get_block f a = Some blk \<and> b \<in> set (block_successors (b_terminator blk)))}"

definition pushed :: "ir_function \<Rightarrow> usize list \<Rightarrow> usize \<Rightarrow> usize list \<Rightarrow> usize list" where
  "pushed f ids b rest = (case get_block f b of
     Some blk \<Rightarrow> fold (\<lambda>s w. if s \<in> set ids then s # w else w) (block_successors (b_terminator blk)) rest
   | None \<Rightarrow> rest)"

lemma set_pushed: "b \<in> set ids \<Longrightarrow> set (pushed f ids b rest) = cfg_edges f ids `` {b} \<union> set rest"
proof -
  have "set (fold (\<lambda>s w. if s \<in> set ids then s # w else w) ss w) = (set ss \<inter> set ids) \<union> set w" for ss w
    by (induction ss arbitrary: w) auto
  then show "b \<in> set ids \<Longrightarrow> ?thesis" by (auto simp: pushed_def cfg_edges_def split: option.splits)
qed

lemma reachable_loop_cases:
  "reachable_loop f ids [] r = r"
  "b \<notin> set ids \<or> b \<in> set r \<Longrightarrow> reachable_loop f ids (b # w) r = reachable_loop f ids w r"
  "b \<in> set ids \<Longrightarrow> b \<notin> set r \<Longrightarrow> reachable_loop f ids (b # w) r = reachable_loop f ids (pushed f ids b w) (r @ [b])"
  by (subst reachable_loop.simps, auto simp: pushed_def)+

lemma reachable_loop_induct:
  assumes "\<And>r. P [] r"
    and "\<And>b w r. b \<notin> set ids \<or> b \<in> set r \<Longrightarrow> P w r \<Longrightarrow> P (b # w) r"
    and "\<And>b w r. b \<in> set ids \<Longrightarrow> b \<notin> set r \<Longrightarrow> P (pushed f ids b w) (r @ [b]) \<Longrightarrow> P (b # w) r"
  shows "P w r"
proof -
  have "P w r" if "f' = f" and "ids' = ids" for f' ids'
    using that
  proof (induction f' ids' w r rule: reachable_loop.induct)
    case (1 f' ids' w r)
    show ?case
    proof (cases w)
      case (Cons b rest)
      show ?thesis
      proof (cases "b \<notin> set ids \<or> b \<in> set r")
        case True
        with 1 Cons assms(2) show ?thesis by blast
      next
        case False
        with "1.IH"(2) [OF Cons] "1.prems" assms(3) [of b r rest] Cons show ?thesis by (auto simp: pushed_def)
      qed
    qed (simp add: assms(1))
  qed
  then show ?thesis by blast
qed

lemma reachable_loop_sound:
  "set r \<subseteq> T \<Longrightarrow> set w \<inter> set ids \<subseteq> T \<Longrightarrow> cfg_edges f ids `` T \<subseteq> T \<Longrightarrow> set (reachable_loop f ids w r) \<subseteq> T"
proof (induction w r rule: reachable_loop_induct [where f = f and ids = ids])
  case (3 b w r)
  then have "set (pushed f ids b w) \<inter> set ids \<subseteq> T" "b \<in> T" by (auto simp: set_pushed)
  with 3 show ?case by (simp add: reachable_loop_cases)
qed (auto simp: reachable_loop_cases)

lemma reachable_loop_complete:
  "(\<And>a. a \<in> set r \<Longrightarrow> cfg_edges f ids `` {a} \<subseteq> set r \<union> set w) \<Longrightarrow>
   set r \<union> (set w \<inter> set ids) \<subseteq> set (reachable_loop f ids w r) \<and>
   cfg_edges f ids `` set (reachable_loop f ids w r) \<subseteq> set (reachable_loop f ids w r)"
proof (induction w r rule: reachable_loop_induct [where f = f and ids = ids])
  case (1 r)
  then show ?case by (auto simp: reachable_loop_cases)
next
  case (2 b w r)
  have "cfg_edges f ids `` {a} \<subseteq> set r \<union> set w" if "a \<in> set r" for a
    using "2.prems" [OF that] "2.hyps" by (auto simp: cfg_edges_def)
  with 2 show ?case by (auto simp: reachable_loop_cases)
next
  case (3 b w r)
  have "cfg_edges f ids `` {a} \<subseteq> set (r @ [b]) \<union> set (pushed f ids b w)" if "a \<in> set (r @ [b])" for a
    using "3.prems" that "3.hyps" by (auto simp: set_pushed)
  from "3.IH" [OF this] "3.hyps" show ?case by (auto simp: reachable_loop_cases set_pushed)
qed

lemma reachable_blocks_exact:
  assumes "entry \<in> set ids"
  shows "set (reachable_blocks f ids entry) = (cfg_edges f ids)\<^sup>* `` {entry}"
proof
  show "set (reachable_blocks f ids entry) \<subseteq> (cfg_edges f ids)\<^sup>* `` {entry}"
    unfolding reachable_blocks_def by (rule reachable_loop_sound) (auto intro: rtrancl_into_rtrancl)
  let ?R = "set (reachable_blocks f ids entry)"
  have R: "entry \<in> ?R" "cfg_edges f ids `` ?R \<subseteq> ?R"
    using reachable_loop_complete [of "[]" f ids "[entry]"] assms by (auto simp: reachable_blocks_def)
  have "b \<in> ?R" if "(entry, b) \<in> (cfg_edges f ids)\<^sup>*" for b
    using that by (induction rule: rtrancl_induct) (use R in auto)
  then show "(cfg_edges f ids)\<^sup>* `` {entry} \<subseteq> ?R" by auto
qed

lemma reachable_blocks_empty: "entry \<notin> set ids \<Longrightarrow> reachable_blocks f ids entry = []"
  by (simp add: reachable_blocks_def reachable_loop_cases)

lemma reachable_subset: "set (reachable_blocks f ids entry) \<subseteq> set ids"
proof (cases "entry \<in> set ids")
  case True
  have "b \<in> set ids" if "(entry, b) \<in> (cfg_edges f ids)\<^sup>*" for b
    using that True by (induction rule: rtrancl_induct) (auto simp: cfg_edges_def)
  with True show ?thesis by (auto simp: reachable_blocks_exact)
qed (simp add: reachable_blocks_empty)

section \<open>Walks and dominance\<close>

inductive walk :: "('a \<times> 'a) set \<Rightarrow> 'a \<Rightarrow> 'a list \<Rightarrow> 'a \<Rightarrow> bool" for E a where
  walk_start: "walk E a [a] a"
| walk_step: "walk E a p b \<Longrightarrow> (b, c) \<in> E \<Longrightarrow> walk E a (p @ [c]) c"

definition dominates :: "('a \<times> 'a) set \<Rightarrow> 'a \<Rightarrow> 'a \<Rightarrow> 'a \<Rightarrow> bool" where
  "dominates E entry d b \<longleftrightarrow> (\<forall>p. walk E entry p b \<longrightarrow> d \<in> set p)"

inductive_cases walk_cases: "walk E a p b"

lemma walk_ends: "walk E a p b \<Longrightarrow> a \<in> set p \<and> b \<in> set p"
  by (induction rule: walk.induct) auto

lemma walk_exists: "(a, b) \<in> E\<^sup>* \<Longrightarrow> \<exists>p. walk E a p b"
  by (induction rule: rtrancl_induct) (blast intro: walk.intros)+

lemma walk_closed: "walk E a p b \<Longrightarrow> a \<in> N \<Longrightarrow> E `` N \<subseteq> N \<Longrightarrow> set p \<subseteq> N"
proof (induction rule: walk.induct)
  case (walk_step p b c)
  then have "b \<in> N" using walk_ends by fastforce
  with walk_step show ?case by auto
qed simp

lemma walk_restrict:
  assumes "walk E a p b" "a \<in> N" "E `` N \<subseteq> N"
  shows "walk (E \<inter> N \<times> N) a p b"
  using assms
proof (induction rule: walk.induct)
  case (walk_step p b c)
  have "b \<in> N" using walk_closed [of E a p b N] walk_ends [OF walk_step.hyps(1)] walk_step by blast
  with walk_step show ?case by (intro walk.walk_step) auto
qed (simp add: walk_start)

lemma walk_mono: "walk E a p b \<Longrightarrow> E \<subseteq> F \<Longrightarrow> walk F a p b"
  by (induction rule: walk.induct) (auto intro: walk.intros)

lemma dominates_self [simp]: "dominates E e b b"
  by (auto simp: dominates_def dest: walk_ends)

lemma dominates_entry: "dominates E e d e \<longleftrightarrow> d = e"
  using walk_start [of E e] walk_ends [of E e] by (auto simp: dominates_def)

lemma dominates_step:
  assumes "b \<noteq> e"
  shows "dominates E e d b \<longleftrightarrow> d = b \<or> (\<forall>p. (p, b) \<in> E \<longrightarrow> dominates E e d p)"
proof
  assume L: "dominates E e d b"
  have "dominates E e d p" if "d \<noteq> b" and "(p, b) \<in> E" for p
    using L that walk_step [of E e _ p b] by (fastforce simp: dominates_def)
  then show "d = b \<or> (\<forall>p. (p, b) \<in> E \<longrightarrow> dominates E e d p)" by blast
next
  assume "d = b \<or> (\<forall>p. (p, b) \<in> E \<longrightarrow> dominates E e d p)"
  then show "dominates E e d b"
    unfolding dominates_def using assms by (auto elim: walk_cases dest: walk_ends)
qed

section \<open>The iteration ends with the dominators\<close>

definition flow_edges :: "usize list \<Rightarrow> (usize \<Rightarrow> usize list) \<Rightarrow> (usize \<times> usize) set" where
  "flow_edges nodes preds = {(p, b). p \<in> set nodes \<and> b \<in> set nodes \<and> p \<in> set (preds b)}"

text \<open>The contract of the inputs: every node is reached from the entry over the predecessor
  edges.\<close>

locale flow_graph =
  fixes nodes :: "usize list" and preds :: "usize \<Rightarrow> usize list" and entry :: usize
  assumes reached: "b \<in> set nodes \<Longrightarrow> (entry, b) \<in> (flow_edges nodes preds)\<^sup>*"
begin

definition doms :: "usize \<Rightarrow> usize set" where
  "doms b = {d. dominates (flow_edges nodes preds) entry d b}"

definition equation :: "dominators \<Rightarrow> usize \<Rightarrow> usize set" where
  "equation d b = insert b {x \<in> set nodes. \<forall>p. (p, b) \<in> flow_edges nodes preds \<longrightarrow> x \<in> the (d p)}"

definition sound :: "dominators \<Rightarrow> bool" where
  "sound d \<longleftrightarrow> (\<forall>b \<in> set nodes. d b \<noteq> None \<and> doms b \<subseteq> the (d b) \<and> the (d b) \<subseteq> set nodes \<and>
     (if b = entry then the (d b) = {entry} else equation d b \<subseteq> the (d b)))"

definition weight :: "dominators \<Rightarrow> nat" where
  "weight d = (\<Sum>b \<in> set nodes. card (the (d b)))"

lemma entry_in: "b \<in> set nodes \<Longrightarrow> entry \<in> set nodes"
  using reached [of b] by (cases rule: converse_rtranclE) (auto simp: flow_edges_def)

lemma has_pred: "b \<in> set nodes \<Longrightarrow> b \<noteq> entry \<Longrightarrow> \<exists>p. (p, b) \<in> flow_edges nodes preds"
  using reached [of b] by (cases rule: rtranclE) auto

lemma doms_in: "b \<in> set nodes \<Longrightarrow> doms b \<subseteq> set nodes"
proof
  fix d assume b: "b \<in> set nodes" and d: "d \<in> doms b"
  obtain p where p: "walk (flow_edges nodes preds) entry p b" using walk_exists [OF reached [OF b]] by blast
  have "flow_edges nodes preds `` set nodes \<subseteq> set nodes" by (auto simp: flow_edges_def)
  then have "set p \<subseteq> set nodes" by (rule walk_closed [OF p entry_in [OF b]])
  with p d show "d \<in> set nodes" by (auto simp: doms_def dominates_def)
qed

lemma equation_eq:
  assumes "sound d" "b \<in> set nodes" "b \<noteq> entry"
  shows "dominator_equation preds nodes d b = equation d b"
proof -
  have step: "fold (\<lambda>p i. case d p of Some s \<Rightarrow> i \<inter> s | None \<Rightarrow> i) ps S = {x \<in> S. \<forall>p \<in> set ps. x \<in> the (d p)}"
    if "set ps \<subseteq> set nodes" for ps S
    using that
  proof (induction ps arbitrary: S)
    case (Cons p ps)
    with assms(1) obtain s where "d p = Some s" by (auto simp: sound_def)
    with Cons show ?case by auto
  qed simp
  obtain p where "(p, b) \<in> flow_edges nodes preds" using has_pred assms by blast
  then have "filter (\<lambda>p. p \<in> set nodes) (preds b) \<noteq> []" by (auto simp: flow_edges_def filter_empty_conv)
  with assms(2) show ?thesis
    using step [of "filter (\<lambda>p. p \<in> set nodes) (preds b)"]
    by (auto simp: dominator_equation_def equation_def flow_edges_def Let_def)
qed

lemma equation_mono: "(\<And>p. p \<in> set nodes \<Longrightarrow> the (d p) \<subseteq> the (d' p)) \<Longrightarrow> equation d b \<subseteq> equation d' b"
  by (fastforce simp: equation_def flow_edges_def)

lemma doms_equation:
  assumes "sound d" "b \<in> set nodes" "b \<noteq> entry"
  shows "doms b \<subseteq> equation d b"
proof
  fix x assume x: "x \<in> doms b"
  then have "x = b \<or> (\<forall>p. (p, b) \<in> flow_edges nodes preds \<longrightarrow> x \<in> doms p)"
    using dominates_step [OF assms(3)] by (simp add: doms_def)
  moreover have "doms p \<subseteq> the (d p)" if "(p, b) \<in> flow_edges nodes preds" for p
    using assms(1) that by (auto simp: sound_def flow_edges_def)
  moreover have "x \<in> set nodes" using x doms_in [OF assms(2)] by blast
  ultimately show "x \<in> equation d b" by (auto simp: equation_def)
qed

lemma sound_update:
  assumes d: "sound d" and b: "b \<in> set nodes" "b \<noteq> entry"
  shows "sound (d(b \<mapsto> equation d b))"
proof -
  let ?d = "d(b \<mapsto> equation d b)"
  have le: "the (?d p) \<subseteq> the (d p)" if "p \<in> set nodes" for p
    using d b that by (auto simp: sound_def)
  have eq: "equation ?d c \<subseteq> equation d c" for c by (rule equation_mono) (rule le)
  show ?thesis
    unfolding sound_def
  proof (intro ballI conjI)
    fix c assume c: "c \<in> set nodes"
    show "?d c \<noteq> None" using c d by (auto simp: sound_def)
    show "doms c \<subseteq> the (?d c)" using c d b doms_equation by (auto simp: sound_def)
    show "the (?d c) \<subseteq> set nodes" using c d le by (fastforce simp: sound_def)
    show "if c = entry then the (?d c) = {entry} else equation ?d c \<subseteq> the (?d c)"
      using c d b eq [of c] by (fastforce simp: sound_def)
  qed
qed

lemma weight_update:
  assumes "sound d" "b \<in> set nodes" "b \<noteq> entry" "d b \<noteq> Some (equation d b)"
  shows "weight (d(b \<mapsto> equation d b)) < weight d"
proof -
  from assms obtain S where S: "d b = Some S" "equation d b \<subseteq> S" "S \<subseteq> set nodes"
    by (fastforce simp: sound_def)
  with assms(4) have sub: "equation d b \<subset> the (d b)" "finite (the (d b))"
    using finite_subset by auto
  show ?thesis
    unfolding weight_def
    by (rule sum_strict_mono_ex1) (use assms(2) sub in \<open>auto intro!: card_mono bexI [of _ b] psubset_card_mono\<close>)
qed

lemma update_round:
  assumes "sound d" "set bs \<subseteq> set nodes"
  shows "sound (fst (fold (update_dominators preds nodes entry) bs (d, c))) \<and>
    (\<forall>x. x \<notin> set nodes \<longrightarrow> fst (fold (update_dominators preds nodes entry) bs (d, c)) x = d x) \<and>
    (snd (fold (update_dominators preds nodes entry) bs (d, c)) \<longrightarrow>
       c \<or> weight (fst (fold (update_dominators preds nodes entry) bs (d, c))) < weight d) \<and>
    weight (fst (fold (update_dominators preds nodes entry) bs (d, c))) \<le> weight d \<and>
    (\<not> snd (fold (update_dominators preds nodes entry) bs (d, c)) \<longrightarrow>
       fst (fold (update_dominators preds nodes entry) bs (d, c)) = d \<and> \<not> c \<and>
       (\<forall>b \<in> set bs. b \<noteq> entry \<longrightarrow> d b = Some (equation d b)))"
  using assms
proof (induction bs arbitrary: d c)
  case (Cons b bs)
  show ?case
  proof (cases "b = entry \<or> d b = Some (equation d b)")
    case True
    then have "update_dominators preds nodes entry b (d, c) = (d, c)"
      using Cons.prems by (auto simp: update_dominators_def equation_eq Let_def)
    with Cons.IH [of d c] Cons.prems True show ?thesis by auto
  next
    case False
    then have "update_dominators preds nodes entry b (d, c) = (d(b \<mapsto> equation d b), True)"
      using Cons.prems by (auto simp: update_dominators_def equation_eq Let_def)
    moreover have "sound (d(b \<mapsto> equation d b))" "weight (d(b \<mapsto> equation d b)) < weight d"
      using sound_update weight_update False Cons.prems by auto
    ultimately show ?thesis
      using Cons.IH [of "d(b \<mapsto> equation d b)" True] Cons.prems by fastforce
  qed
qed simp

lemma equation_least:
  assumes "sound d" and eq: "\<And>b. b \<in> set nodes \<Longrightarrow> b \<noteq> entry \<Longrightarrow> d b = Some (equation d b)"
    and b: "b \<in> set nodes"
  shows "d b = Some (doms b)"
proof -
  have "x \<in> set p" if "walk (flow_edges nodes preds) entry p b" "b \<in> set nodes" "x \<in> the (d b)" for x p b
    using that
  proof (induction arbitrary: x rule: walk.induct)
    case walk_start
    with assms(1) show ?case by (auto simp: sound_def)
  next
    case (walk_step p b c)
    show ?case
    proof (cases "c = entry")
      case True
      with walk_step assms(1) walk_ends show ?thesis by (fastforce simp: sound_def)
    next
      case False
      with eq walk_step have "x = c \<or> x \<in> the (d b)" by (auto simp: equation_def)
      moreover have "b \<in> set nodes" using walk_step by (simp add: flow_edges_def)
      ultimately show ?thesis using walk_step.IH by auto
    qed
  qed
  then have "the (d b) \<subseteq> doms b" using b by (auto simp: doms_def dominates_def)
  with assms(1) b show ?thesis by (fastforce simp: sound_def)
qed

lemma initial_lookup:
  "initial_dominators ids nodes entry b =
     (if b \<in> set ids then Some (if b = entry then {b} else if b \<notin> set nodes then {entry, b} else set nodes)
      else None)"
proof -
  have "fold (\<lambda>b d. d(b \<mapsto> g b)) ids m b = (if b \<in> set ids then Some (g b) else m b)"
    for g :: "usize \<Rightarrow> usize set" and m
    by (induction ids arbitrary: m) auto
  then show ?thesis by (simp add: initial_dominators_def)
qed

lemma sound_initial: "set nodes \<subseteq> set ids \<Longrightarrow> sound (initial_dominators ids nodes entry)"
  using doms_in entry_in
  by (auto simp: sound_def initial_lookup doms_def dominates_entry equation_def split: if_splits)

lemma dominators_computed:
  assumes "set nodes \<subseteq> set ids"
  shows "\<exists>d. compute_dominators ids preds nodes entry = Some d \<and>
    (\<forall>b. b \<in> set nodes \<longrightarrow> d b = Some (doms b)) \<and>
    (\<forall>b. b \<notin> set nodes \<longrightarrow> d b = initial_dominators ids nodes entry b)"
proof -
  let ?init = "initial_dominators ids nodes entry"
  let ?body = "\<lambda>(d, _). fold (update_dominators preds nodes entry) nodes (d, False)"
  let ?P = "\<lambda>s. sound (fst s) \<and> (\<forall>b. b \<notin> set nodes \<longrightarrow> fst s b = ?init b) \<and>
    (snd s \<or> (\<forall>b \<in> set nodes. b \<noteq> entry \<longrightarrow> fst s b = Some (equation (fst s) b)))"
  have keep: "?P (?body s) \<and> 2 * weight (fst (?body s)) + of_bool (snd (?body s)) < 2 * weight (fst s) + of_bool (snd s)"
    if "?P s" "snd s" for s
    using update_round [of "fst s" nodes False] that by (auto simp: case_prod_beta)
  have "\<exists>t. while_option snd ?body (?init, True) = Some t"
    by (rule measure_while_option_Some [where P = ?P and f = "\<lambda>s. 2 * weight (fst s) + of_bool (snd s)"]) (use keep sound_initial [OF assms] in auto)
  then obtain t where t: "while_option snd ?body (?init, True) = Some t" by blast
  have "?P t" by (rule while_option_rule [OF _ t, where P = ?P]) (use keep sound_initial [OF assms] in auto)
  moreover have "\<not> snd t" by (rule while_option_stop [OF t])
  ultimately have "\<And>b. b \<in> set nodes \<Longrightarrow> fst t b = Some (doms b)" "\<And>b. b \<notin> set nodes \<Longrightarrow> fst t b = ?init b"
    using equation_least by auto
  with t show ?thesis by (auto simp: compute_dominators_def)
qed

end

section \<open>The graph of a function\<close>

definition entry_block :: "ir_function \<Rightarrow> usize" where
  "entry_block f = (case f_blocks f of [] \<Rightarrow> 0 | b # _ \<Rightarrow> b_id b)"

definition predecessors :: "ir_function \<Rightarrow> usize \<Rightarrow> usize list" where
  "predecessors f b = (case map_of (predecessor_map f) b of None \<Rightarrow> [] | Some ps \<Rightarrow> ps)"

definition function_reachable :: "ir_function \<Rightarrow> usize list" where
  "function_reachable f = reachable_blocks f (block_ids f) (entry_block f)"

definition function_dominators :: "ir_function \<Rightarrow> dominators option" where
  "function_dominators f =
     compute_dominators (block_ids f) (predecessors f) (function_reachable f) (entry_block f)"

lemma set_predecessors:
  "set (predecessors f b) = {b_id blk | blk. blk \<in> set (f_blocks f) \<and> b \<in> set (block_successors (b_terminator blk))}"
proof -
  have "set (predecessors f b) = entry_set (predecessor_map f) b"
    by (simp add: predecessors_def entry_set_def split: option.splits)
  then show ?thesis unfolding predecessor_map_def entry_set_group_nested .
qed

lemma function_reachable_subset: "set (function_reachable f) \<subseteq> set (block_ids f)"
  by (simp add: function_reachable_def reachable_subset)

lemma function_reachable_iff:
  "b \<in> set (function_reachable f) \<longleftrightarrow>
     entry_block f \<in> set (block_ids f) \<and> (entry_block f, b) \<in> (cfg_edges f (block_ids f))\<^sup>*"
  by (cases "entry_block f \<in> set (block_ids f)")
    (auto simp: function_reachable_def reachable_blocks_exact reachable_blocks_empty)

lemma cfg_edges_closed: "cfg_edges f (block_ids f) `` set (function_reachable f) \<subseteq> set (function_reachable f)"
  by (auto simp: function_reachable_iff intro: rtrancl_into_rtrancl)

lemma cfg_edge_flow:
  assumes "(a, b) \<in> cfg_edges f (block_ids f)" "a \<in> set (function_reachable f)"
  shows "(a, b) \<in> flow_edges (function_reachable f) (predecessors f)"
proof -
  from assms(1) obtain blk where "get_block f a = Some blk" "b \<in> set (block_successors (b_terminator blk))"
    by (auto simp: cfg_edges_def)
  then have "a \<in> set (predecessors f b)" using get_block_Some by (fastforce simp: set_predecessors)
  moreover have "b \<in> set (function_reachable f)" using assms cfg_edges_closed by blast
  ultimately show ?thesis using assms(2) by (simp add: flow_edges_def)
qed

interpretation fg: flow_graph "function_reachable f" "predecessors f" "entry_block f" for f
proof
  fix b assume b: "b \<in> set (function_reachable f)"
  then have e: "entry_block f \<in> set (function_reachable f)" "(entry_block f, b) \<in> (cfg_edges f (block_ids f))\<^sup>*"
    by (auto simp: function_reachable_iff)
  from e(2) have "b \<in> set (function_reachable f) \<and>
    (entry_block f, b) \<in> (flow_edges (function_reachable f) (predecessors f))\<^sup>*"
  proof (induction rule: rtrancl_induct)
    case (step b c)
    then have "(b, c) \<in> flow_edges (function_reachable f) (predecessors f)" by (blast intro: cfg_edge_flow)
    with step show ?case by (auto simp: flow_edges_def intro: rtrancl_into_rtrancl)
  qed (simp add: e)
  then show "(entry_block f, b) \<in> (flow_edges (function_reachable f) (predecessors f))\<^sup>*" by blast
qed

lemma dominates_cfg:
  assumes "distinct (block_ids f)" "b \<in> set (function_reachable f)"
  shows "dominates (flow_edges (function_reachable f) (predecessors f)) (entry_block f) d b \<longleftrightarrow>
    dominates (cfg_edges f (block_ids f)) (entry_block f) d b"
proof -
  let ?R = "set (function_reachable f)"
  have "get_block f (b_id blk) = Some blk" if "blk \<in> set (f_blocks f)" for blk
    using that assms(1) by (auto simp: get_block_def block_ids_def find_Some_iff distinct_conv_nth in_set_conv_nth)
  then have sub: "flow_edges (function_reachable f) (predecessors f) \<subseteq> cfg_edges f (block_ids f)"
    using function_reachable_subset by (fastforce simp: flow_edges_def cfg_edges_def set_predecessors)
  have sup: "cfg_edges f (block_ids f) \<inter> ?R \<times> ?R \<subseteq> flow_edges (function_reachable f) (predecessors f)"
    using cfg_edge_flow by blast
  have e: "entry_block f \<in> ?R" using assms(2) by (rule fg.entry_in)
  have "walk (flow_edges (function_reachable f) (predecessors f)) (entry_block f) p b \<longleftrightarrow>
    walk (cfg_edges f (block_ids f)) (entry_block f) p b" for p
    using walk_mono [OF walk_restrict [OF _ e cfg_edges_closed] sup] walk_mono [OF _ sub] by blast
  then show ?thesis by (simp add: dominates_def)
qed

lemma function_dominators_exact:
  assumes "distinct (block_ids f)" and "b \<in> set (function_reachable f)"
  shows "\<exists>d. function_dominators f = Some d \<and> d b = Some {a. dominates (cfg_edges f (block_ids f)) (entry_block f) a b}"
proof -
  have "fg.doms f b = {a. dominates (cfg_edges f (block_ids f)) (entry_block f) a b}"
    by (simp add: fg.doms_def dominates_cfg [OF assms])
  then show ?thesis
    using fg.dominators_computed [OF function_reachable_subset [of f]] assms(2) by (auto simp: function_dominators_def)
qed

text \<open>C26: The dominator iteration ends on every function, and when block ids are distinct the
  set it gives a reachable block holds exactly the blocks that lie on every path from the entry
  to it.\<close>

theorem compute_dominators_exact:
  assumes "distinct (block_ids f)" and "b \<in> set (function_reachable f)"
  shows "\<exists>d. compute_dominators (block_ids f) (predecessors f) (reachable_blocks f (block_ids f) (entry_block f))
      (entry_block f) = Some d \<and>
    d b = Some {a. dominates (cfg_edges f (block_ids f)) (entry_block f) a b}"
  using function_dominators_exact [OF assms] by (simp add: function_dominators_def function_reachable_def)

definition diamond :: ir_function where
  "diamond = literal_function ''diamond'' [] TVoid 1
     [literal_block 0 [Const (ConstBool (Value 0) True)] (CondBranch (Value 0) 1 2),
      literal_block 1 [] (Branch 3), literal_block 2 [] (Branch 3), literal_block 3 [] (Return None)]"

theorem compute_dominators_exact_witness:
  "\<exists>d. compute_dominators [0, 1, 2, 3] (predecessors diamond) [0, 2, 3, 1] 0 = Some d \<and>
    d 3 = Some {a. dominates (cfg_edges diamond [0, 1, 2, 3]) 0 a 3}"
proof -
  have ids: "block_ids diamond = [0, 1, 2, 3]" "entry_block diamond = 0"
    by (simp_all add: diamond_def block_ids_def entry_block_def)
  have r: "reachable_blocks diamond [0, 1, 2, 3] 0 = [0, 2, 3, 1]"
    by (simp add: reachable_blocks_def reachable_loop_cases pushed_def diamond_def get_block_def block_successors_def)
  show ?thesis
    using compute_dominators_exact [of diamond 3] r by (simp add: ids function_reachable_def)
qed

end
