(* ===== verification/Verifier.thy ===== *)
theory Verifier
  imports Value_Types Cfg
begin

text \<open>
  The structural verifier, \<open>verify_module\<close> of \<open>src/midend/src/passes/verification.rs\<close>. Each
  diagnostic is a constructor of an error type that carries what its message prints; the errors
  come in the order the source pushes them. What iterates over a hash set (the predecessors a
  phi has no entry for) goes in insertion order. The result is an option because the dominator
  iteration is a loop; \<open>verify_module_total\<close> shows that it always ends.
\<close>

section \<open>Errors\<close>

datatype module_error =
    Duplicate_global string
  | Duplicate_function string
  | Duplicate_external string
  | Unresolved_external string
  | Unresolved_global string

datatype type_site = Return_site ir_type | Parameter_site string ir_type | Local_site string ir_type

datatype function_error =
    Unresolved_types "type_site list"
  | No_blocks
  | Invalid_parameter
  | Redefined usize
  | Duplicate_block_ids

datatype flow_error =
    Missing_terminator
  | Unknown_branch_target usize
  | Unknown_true_target usize
  | Unknown_false_target usize
  | Unknown_default_target usize
  | Unknown_case_target usize
  | Duplicate_case i64
  | Returns_no_value ir_type
  | Returns_from_void
  | Return_mismatch usize ir_type ir_type
  | Condition_type ir_type
  | Scrutinee_type ir_type

datatype call_error =
    Unknown_global string
  | Unknown_callee string
  | Unknown_address string
  | Argument_count string usize usize
  | Argument_type ir_type usize string ir_type
  | Result_of_void string
  | Indirect_argument_count usize usize

datatype unresolved_site =
    Memory_or_constant
  | Host_call_result string ir_type
  | Indirect_signature
  | Async_result
  | Await_result
  | Frame_load_result
  | Creation_result
  | Child_result
  | Cast_types

datatype typing_error =
    Operand_mismatch string ir_type ir_type
  | Load_mismatch ir_type ir_type
  | Store_mismatch ir_type ir_type
  | Unresolved_in unresolved_site

datatype value_error = Defines_invalid | Uses_invalid | Uses_undefined usize | Uses_unavailable usize

datatype phi_error =
    Phi_empty
  | Phi_unknown_block usize
  | Phi_not_predecessor usize
  | Phi_duplicate usize usize usize
  | Phi_missing usize

datatype block_error =
    Flow flow_error
  | Calling call_error
  | Typing typing_error
  | Use value_error
  | Joining phi_error

datatype ir_error =
    In_module module_error
  | In_function string function_error
  | In_block string string block_error

section \<open>Names and signatures\<close>

text \<open>The loops over names insert into a set and report what it already has.\<close>

fun insert_names :: "(string \<Rightarrow> module_error) \<Rightarrow> string list \<Rightarrow> string list \<times> ir_error list \<Rightarrow> string list \<times> ir_error list" where
  "insert_names report [] (seen, errors) = (seen, errors)"
| "insert_names report (n # names) (seen, errors) =
     insert_names report names
       (List.insert n seen, if n \<in> set seen then errors @ [In_module (report n)] else errors)"

definition function_signatures :: "ir_module \<Rightarrow> signatures" where
  "function_signatures md =
     fold (\<lambda>x s. s(x_name x \<mapsto> (x_params x, x_return_type x))) (m_external_functions md)
       (fold (\<lambda>f s. s(f_name f \<mapsto> (map p_ty (f_params f), f_return_type f))) (m_functions md) Map.empty)"

definition unresolved_sites :: "ir_function \<Rightarrow> type_site list" where
  "unresolved_sites f =
     (if type_contains_unknown (f_return_type f) then [Return_site (f_return_type f)] else [])
     @ map (\<lambda>p. Parameter_site (p_name p) (p_ty p)) (filter (\<lambda>p. type_contains_unknown (p_ty p)) (f_params f))
     @ map (\<lambda>l. Local_site (l_name l) (l_ty l)) (filter (\<lambda>l. type_contains_unknown (l_ty l)) (f_locals f))"

section \<open>Address types\<close>

definition recorded_address :: "instruction_kind \<Rightarrow> (ssa_value \<times> ir_type \<times> bool) option" where
  "recorded_address k = (case k of
     Memory (Alloca r ty) \<Rightarrow> Some (r, ty, False)
   | Memory (GlobalAddr r _ ty) \<Rightarrow> Some (r, ty, False)
   | Memory (GetElementPtr r _ _ ty _) \<Rightarrow> Some (r, ty, False)
   | Memory (Load r _ ty) \<Rightarrow> Some (r, ty, True)
   | Async (FrameLoad r _ _ ty) \<Rightarrow> Some (r, ty, True)
   | _ \<Rightarrow> None)"

definition record_address :: "instruction_kind \<Rightarrow> value_types \<Rightarrow> value_types" where
  "record_address k types = (case recorded_address k of
     None \<Rightarrow> types
   | Some (r, ty, loaded_value) \<Rightarrow>
       if ty = TVoid \<or> type_contains_unknown ty then types
       else types(vid r \<mapsto>
         (if loaded_value then (case ty of TPointer inner \<Rightarrow> inner | other \<Rightarrow> other) else ty)))"

definition record_pointer_parameter :: "parameter \<Rightarrow> value_types \<Rightarrow> value_types" where
  "record_pointer_parameter p types = (case p_ty p of
     TPointer inner \<Rightarrow>
       if \<not> type_contains_unknown inner \<and> inner \<noteq> TVoid then types(p_id p \<mapsto> inner) else types
   | _ \<Rightarrow> types)"

definition address_types :: "ir_function \<Rightarrow> value_types" where
  "address_types f =
     fold record_address (function_kinds f) (fold record_pointer_parameter (f_params f) Map.empty)"

section \<open>Definitions of values\<close>

record value_definition =
  d_block_id :: "usize option"
  d_instruction_index :: usize
  d_is_frame_load :: bool

record definitions =
  df_map :: "(usize, value_definition list) hash_map"
  df_frame_loads :: "usize list"
  df_errors :: "ir_error list"

definition known_definitions :: "(usize, value_definition list) hash_map \<Rightarrow> usize \<Rightarrow> value_definition list" where
  "known_definitions defs v = (case map_of defs v of None \<Rightarrow> [] | Some ds \<Rightarrow> ds)"

definition register_definition ::
    "string \<Rightarrow> string \<Rightarrow> usize option \<Rightarrow> usize \<Rightarrow> ssa_value \<Rightarrow> bool \<Rightarrow> definitions \<Rightarrow> definitions" where
  "register_definition fname label blk idx v is_frame_load st =
     (let existing = known_definitions (df_map st) (vid v);
          d = \<lparr>d_block_id = blk, d_instruction_index = idx, d_is_frame_load = is_frame_load\<rparr>
      in st\<lparr>df_map := AList.update (vid v) (existing @ [d]) (df_map st),
            df_errors := df_errors st
              @ (if vid v = INVALID_ID then [In_block fname label (Use Defines_invalid)] else [])
              @ (if existing \<noteq> [] \<and> (\<not> is_frame_load \<or> list_ex (\<lambda>d. \<not> d_is_frame_load d) existing)
                 then [In_function fname (Redefined (vid v))] else [])\<rparr>)"

definition register_parameter :: "string \<Rightarrow> parameter \<Rightarrow> definitions \<Rightarrow> definitions" where
  "register_parameter fname p st =
     register_definition fname ''parameter'' None 0 (Value (p_id p)) False
       (if p_id p = INVALID_ID
        then st\<lparr>df_errors := df_errors st @ [In_function fname Invalid_parameter]\<rparr> else st)"

fun is_frame_load :: "instruction_kind \<Rightarrow> bool" where
  "is_frame_load (Async (FrameLoad _ _ _ _)) = True"
| "is_frame_load _ = False"

definition register_instruction :: "string \<Rightarrow> basic_block \<Rightarrow> usize \<times> instruction_kind \<Rightarrow> definitions \<Rightarrow> definitions" where
  "register_instruction fname b = (\<lambda>(idx, k) st.
     let st = (case instruction_result k of
           None \<Rightarrow> st
         | Some r \<Rightarrow> register_definition fname (b_label b) (Some (b_id b)) idx r (is_frame_load k)
             (if is_frame_load k then st\<lparr>df_frame_loads := List.insert (vid r) (df_frame_loads st)\<rparr> else st))
     in case k of
          Async (CoroutinePollChild status _ _ _) \<Rightarrow>
            register_definition fname (b_label b) (Some (b_id b)) idx status False st
        | _ \<Rightarrow> st)"

definition register_block :: "string \<Rightarrow> basic_block \<Rightarrow> definitions \<Rightarrow> definitions" where
  "register_block fname b = fold (register_instruction fname b) (enumerate 0 (block_kinds b))"

definition collect_definitions :: "ir_function \<Rightarrow> definitions" where
  "collect_definitions f =
     fold (register_block (f_name f)) (f_blocks f)
       (fold (register_parameter (f_name f)) (f_params f)
          \<lparr>df_map = [], df_frame_loads = [], df_errors = []\<rparr>)"

section \<open>Checks of one block\<close>

text \<open>The local variables of \<open>verify_module\<close> its checks read.\<close>

record verifier_scope =
  sc_globals :: "string list"
  sc_functions :: "string list"
  sc_signatures :: signatures
  sc_function :: ir_function
  sc_value_types :: value_types
  sc_address_types :: value_types
  sc_definitions :: "(usize, value_definition list) hash_map"
  sc_frame_loads :: "usize list"
  sc_dominators :: dominators

definition is_available :: "verifier_scope \<Rightarrow> usize \<Rightarrow> usize \<Rightarrow> value_definition \<Rightarrow> bool" where
  "is_available sc context_block use_index d = (case d_block_id d of
     None \<Rightarrow> True
   | Some db \<Rightarrow>
       if db = context_block then d_instruction_index d < use_index
       else (case sc_dominators sc context_block of None \<Rightarrow> False | Some ds \<Rightarrow> db \<in> ds))"

definition check_value_available ::
    "verifier_scope \<Rightarrow> usize \<Rightarrow> usize \<Rightarrow> usize option \<Rightarrow> ssa_value \<Rightarrow> block_error list" where
  "check_value_available sc use_block use_index edge_predecessor v =
     (if vid v = INVALID_ID then [Use Uses_invalid]
      else case map_of (sc_definitions sc) (vid v) of
        None \<Rightarrow> [Use (Uses_undefined (vid v))]
      | Some ds \<Rightarrow>
          if vid v \<in> set (sc_frame_loads sc) \<and> list_ex d_is_frame_load ds then []
          else if list_ex (is_available sc
              (case edge_predecessor of Some p \<Rightarrow> p | None \<Rightarrow> use_block) use_index) ds then []
          else [Use (Uses_unavailable (vid v))])"

definition check_target :: "verifier_scope \<Rightarrow> (usize \<Rightarrow> flow_error) \<Rightarrow> usize \<Rightarrow> block_error list" where
  "check_target sc report target =
     (if target \<in> set (block_ids (sc_function sc)) then [] else [Flow (report target)])"

definition check_return_type :: "verifier_scope \<Rightarrow> ssa_value option \<Rightarrow> block_error list" where
  "check_return_type sc v = (let ret = f_return_type (sc_function sc) in
     if ret = TUnknown then []
     else case v of
       None \<Rightarrow> if ret = TVoid then [] else [Flow (Returns_no_value ret)]
     | Some v \<Rightarrow>
         if ret = TVoid then [Flow Returns_from_void]
         else (case sc_value_types sc (vid v) of
             None \<Rightarrow> []
           | Some ty \<Rightarrow> if value_types_compatible ty ret then []
               else [Flow (Return_mismatch (vid v) ty ret)]))"

definition check_type_rule :: "verifier_scope \<Rightarrow> (ir_type \<Rightarrow> bool) \<Rightarrow> (ir_type \<Rightarrow> flow_error) \<Rightarrow> ssa_value \<Rightarrow> block_error list" where
  "check_type_rule sc rule report v = (case sc_value_types sc (vid v) of
     None \<Rightarrow> [] | Some ty \<Rightarrow> if rule ty then [] else [Flow (report ty)])"

fun check_cases :: "verifier_scope \<Rightarrow> i64 list \<Rightarrow> (i64 \<times> usize) list \<Rightarrow> block_error list" where
  "check_cases sc seen [] = []"
| "check_cases sc seen ((c, target) # arms) =
     (if c \<in> set seen then [Flow (Duplicate_case c)] else [])
     @ check_target sc Unknown_case_target target
     @ check_cases sc (List.insert c seen) arms"

definition check_terminator :: "verifier_scope \<Rightarrow> basic_block \<Rightarrow> block_error list" where
  "check_terminator sc b =
     (let available = check_value_available sc (b_id b) (length (b_instructions b)) None
      in case b_terminator b of
        None \<Rightarrow> [Flow Missing_terminator]
      | Some (Branch target) \<Rightarrow> check_target sc Unknown_branch_target target
      | Some (Return v) \<Rightarrow>
          (case v of Some v \<Rightarrow> available v | None \<Rightarrow> []) @ check_return_type sc v
      | Some (CondBranch c yes no) \<Rightarrow>
          available c
          @ check_type_rule sc is_branch_condition_like Condition_type c
          @ check_target sc Unknown_true_target yes
          @ check_target sc Unknown_false_target no
      | Some (Switch v arms dflt) \<Rightarrow>
          available v
          @ check_type_rule sc is_integer_like Scrutinee_type v
          @ check_target sc Unknown_default_target dflt
          @ check_cases sc [] arms
      | Some Unreachable \<Rightarrow> [])"

definition check_names :: "verifier_scope \<Rightarrow> instruction_kind \<Rightarrow> block_error list" where
  "check_names sc k = (case k of
     Memory (GlobalAddr _ n _) \<Rightarrow> if n \<notin> set (sc_globals sc) then [Calling (Unknown_global n)] else []
   | Calls (Call _ callee _ _) \<Rightarrow>
       if callee \<notin> set (sc_functions sc) then [Calling (Unknown_callee callee)] else []
   | Calls (FuncAddr _ callee) \<Rightarrow>
       if callee \<notin> set (sc_functions sc) then [Calling (Unknown_address callee)] else []
   | _ \<Rightarrow> [])"

definition check_argument :: "verifier_scope \<Rightarrow> string \<Rightarrow> usize \<times> ssa_value \<times> ir_type \<Rightarrow> block_error list" where
  "check_argument sc callee = (\<lambda>(index, arg, parameter_type).
     if parameter_type = TVoid \<or> type_contains_unknown parameter_type then []
     else case sc_value_types sc (vid arg) of
       None \<Rightarrow> []
     | Some ty \<Rightarrow> if value_types_compatible ty parameter_type then []
         else [Calling (Argument_type ty index callee parameter_type)])"

definition check_call :: "verifier_scope \<Rightarrow> instruction_kind \<Rightarrow> block_error list" where
  "check_call sc k = (case k of
     Calls (Call result callee args _) \<Rightarrow> (case sc_signatures sc callee of
       None \<Rightarrow> []
     | Some (parameters, return_type) \<Rightarrow>
         (if length args \<noteq> length parameters
          then [Calling (Argument_count callee (length args) (length parameters))] else [])
         @ concat (map (check_argument sc callee) (enumerate 0 (zip args parameters)))
         @ (if return_type = TVoid \<and> result \<noteq> None then [Calling (Result_of_void callee)] else []))
   | Calls (CallIndirect _ _ args signature_params _) \<Rightarrow>
       if length args \<noteq> length signature_params
       then [Calling (Indirect_argument_count (length args) (length signature_params))] else []
   | _ \<Rightarrow> [])"

definition instruction_opcode :: "instruction_kind \<Rightarrow> string" where
  "instruction_opcode k = (case k of
     Arith a \<Rightarrow> (case a of
       Add _ _ _ \<Rightarrow> ''Add'' | Sub _ _ _ \<Rightarrow> ''Sub'' | Mul _ _ _ \<Rightarrow> ''Mul'' | Div _ _ _ _ \<Rightarrow> ''Div''
     | Rem _ _ _ _ \<Rightarrow> ''Rem'' | BitAnd _ _ _ \<Rightarrow> ''BitAnd'' | BitOr _ _ _ \<Rightarrow> ''BitOr''
     | BitXor _ _ _ \<Rightarrow> ''BitXor'' | Shl _ _ _ \<Rightarrow> ''Shl'' | Shr _ _ _ _ \<Rightarrow> ''Shr'')
   | Compare c \<Rightarrow> (case c of
       Eq _ _ _ \<Rightarrow> ''Eq'' | Ne _ _ _ \<Rightarrow> ''Ne'' | Lt _ _ _ _ \<Rightarrow> ''Lt'' | Le _ _ _ _ \<Rightarrow> ''Le''
     | Gt _ _ _ _ \<Rightarrow> ''Gt'' | Ge _ _ _ _ \<Rightarrow> ''Ge'')
   | Logical (And _ _ _) \<Rightarrow> ''And''
   | Logical (Or _ _ _) \<Rightarrow> ''Or''
   | _ \<Rightarrow> ''binary'')"

definition check_operand_types :: "verifier_scope \<Rightarrow> instruction_kind \<Rightarrow> block_error list" where
  "check_operand_types sc k = (case binary_operand_pair k of
     None \<Rightarrow> []
   | Some (l, r) \<Rightarrow> (case (sc_value_types sc (vid l), sc_value_types sc (vid r)) of
       (Some lt, Some rt) \<Rightarrow>
         if binary_operand_types_compatible lt rt then [] else [Typing (Operand_mismatch (instruction_opcode k) lt rt)]
     | _ \<Rightarrow> []))"

definition check_address_types :: "verifier_scope \<Rightarrow> instruction_kind \<Rightarrow> block_error list" where
  "check_address_types sc k = (case k of
     Memory (Load _ p ty) \<Rightarrow> (case sc_address_types sc (vid p) of
       Some pointee \<Rightarrow> if value_types_compatible ty pointee then [] else [Typing (Load_mismatch ty pointee)]
     | None \<Rightarrow> [])
   | Memory (Store p v) \<Rightarrow> (case (sc_address_types sc (vid p), sc_value_types sc (vid v)) of
       (Some pointee, Some ty) \<Rightarrow>
         if value_types_compatible ty pointee then [] else [Typing (Store_mismatch ty pointee)]
     | _ \<Rightarrow> [])
   | _ \<Rightarrow> [])"

definition instruction_unresolved_type :: "instruction_kind \<Rightarrow> unresolved_site option" where
  "instruction_unresolved_type k =
     (let found = (\<lambda>unresolved site. if unresolved then Some site else None)
      in case k of
        Memory (Alloca _ ty) \<Rightarrow> found (type_contains_unknown ty) Memory_or_constant
      | Memory (GlobalAddr _ _ ty) \<Rightarrow> found (type_contains_unknown ty) Memory_or_constant
      | Memory (Load _ _ ty) \<Rightarrow> found (type_contains_unknown ty) Memory_or_constant
      | Memory (GetElementPtr _ _ _ ty _) \<Rightarrow> found (type_contains_unknown ty) Memory_or_constant
      | Const (ConstIntTyped _ _ ty) \<Rightarrow> found (type_contains_unknown ty) Memory_or_constant
      | Const (ConstFloatTyped _ _ ty) \<Rightarrow> found (type_contains_unknown ty) Memory_or_constant
      | Calls (HostCall _ host _ result_type) \<Rightarrow> (case result_type of
          None \<Rightarrow> None
        | Some ty \<Rightarrow> found (type_contains_unknown ty) (Host_call_result host ty))
      | Calls (CallIndirect _ _ _ ps ret) \<Rightarrow>
          found (list_ex type_contains_unknown ps \<or> type_contains_unknown ret) Indirect_signature
      | Async (AsyncReady _ _ ty) \<Rightarrow> found (type_contains_unknown ty) Async_result
      | Async (Await _ _ ty) \<Rightarrow> found (type_contains_unknown ty) Await_result
      | Async (FrameLoad _ _ _ ty) \<Rightarrow> found (type_contains_unknown ty) Frame_load_result
      | Async (CoroutineCreate _ _ _ _ ty) \<Rightarrow> found (type_contains_unknown ty) Creation_result
      | Async (CoroutinePollChild _ _ _ ty) \<Rightarrow> found (type_contains_unknown ty) Child_result
      | Conv (Cast _ _ from_ty to_ty) \<Rightarrow>
          found (type_contains_unknown from_ty \<or> type_contains_unknown to_ty) Cast_types
      | _ \<Rightarrow> None)"

definition check_incoming :: "verifier_scope \<Rightarrow> basic_block \<Rightarrow> ssa_value \<times> usize \<Rightarrow> block_error list" where
  "check_incoming sc b = (\<lambda>(v, pred).
     if pred \<notin> set (block_ids (sc_function sc)) then [Joining (Phi_unknown_block pred)]
     else if pred \<notin> set (predecessors (sc_function sc) (b_id b)) then [Joining (Phi_not_predecessor pred)]
     else case get_block (sc_function sc) pred of
       Some p \<Rightarrow> check_value_available sc (b_id b) (length (b_instructions p)) (Some pred) v
     | None \<Rightarrow> [])"

fun check_phi_entries :: "verifier_scope \<Rightarrow> basic_block \<Rightarrow> (usize \<rightharpoonup> ssa_value) \<Rightarrow> (ssa_value \<times> usize) list \<Rightarrow> block_error list" where
  "check_phi_entries sc b seen [] = []"
| "check_phi_entries sc b seen ((v, pred) # incoming) =
     check_incoming sc b (v, pred)
     @ (case seen pred of
          Some existing \<Rightarrow> [Joining (Phi_duplicate pred (vid existing) (vid v))]
        | None \<Rightarrow> [])
     @ check_phi_entries sc b (seen(pred \<mapsto> v)) incoming"

definition check_phi :: "verifier_scope \<Rightarrow> basic_block \<Rightarrow> (ssa_value \<times> usize) list \<Rightarrow> block_error list" where
  "check_phi sc b incoming =
     (if incoming = [] then [Joining Phi_empty] else [])
     @ check_phi_entries sc b Map.empty incoming
     @ (if incoming \<noteq> []
        then map (\<lambda>p. Joining (Phi_missing p))
          (filter (\<lambda>p. p \<notin> snd ` set incoming) (predecessors (sc_function sc) (b_id b)))
        else [])"

definition check_instruction :: "verifier_scope \<Rightarrow> basic_block \<Rightarrow> usize \<times> instruction_kind \<Rightarrow> block_error list" where
  "check_instruction sc b = (\<lambda>(idx, k).
     check_names sc k
     @ check_call sc k
     @ check_operand_types sc k
     @ check_address_types sc k
     @ (case instruction_unresolved_type k of None \<Rightarrow> [] | Some site \<Rightarrow> [Typing (Unresolved_in site)])
     @ (case k of
          Move (Phi _ incoming) \<Rightarrow> check_phi sc b incoming
        | _ \<Rightarrow> concat (map (check_value_available sc (b_id b) idx None) (instruction_operands k))))"

definition check_block :: "verifier_scope \<Rightarrow> basic_block \<Rightarrow> block_error list" where
  "check_block sc b =
     check_terminator sc b @ concat (map (check_instruction sc b) (enumerate 0 (block_kinds b)))"

section \<open>Functions and modules\<close>

definition function_scope :: "string list \<Rightarrow> string list \<Rightarrow> signatures \<Rightarrow> ir_function \<Rightarrow> dominators \<Rightarrow> verifier_scope" where
  "function_scope globals functions sigs f doms = \<lparr>sc_globals = globals, sc_functions = functions,
     sc_signatures = sigs, sc_function = f, sc_value_types = collect_value_types f sigs,
     sc_address_types = address_types f, sc_definitions = df_map (collect_definitions f),
     sc_frame_loads = df_frame_loads (collect_definitions f), sc_dominators = doms\<rparr>"

definition verify_function ::
    "string list \<Rightarrow> string list \<Rightarrow> signatures \<Rightarrow> ir_function \<Rightarrow> ir_error list option" where
  "verify_function globals functions sigs f =
     (let unresolved = unresolved_sites f;
          type_errors = (if unresolved = [] then [] else [In_function (f_name f) (Unresolved_types unresolved)])
      in if f_blocks f = [] then Some (type_errors @ [In_function (f_name f) No_blocks])
         else map_option (\<lambda>doms.
           type_errors
           @ df_errors (collect_definitions f)
           @ (if length (remdups (block_ids f)) \<noteq> length (f_blocks f)
              then [In_function (f_name f) Duplicate_block_ids] else [])
           @ concat (map (\<lambda>b. map (In_block (f_name f) (b_label b))
               (check_block (function_scope globals functions sigs f doms) b)) (f_blocks f)))
           (compute_dominators (block_ids f) (predecessors f)
              (reachable_blocks f (block_ids f) (entry_block f)) (entry_block f)))"

fun verify_functions ::
    "string list \<Rightarrow> string list \<Rightarrow> signatures \<Rightarrow> ir_function list \<Rightarrow> ir_error list option" where
  "verify_functions globals functions sigs [] = Some []"
| "verify_functions globals functions sigs (f # fs) =
     (case verify_function globals functions sigs f of
        None \<Rightarrow> None
      | Some es \<Rightarrow> map_option ((@) es) (verify_functions globals functions sigs fs))"

definition module_names :: "ir_module \<Rightarrow> string list \<times> string list \<times> ir_error list" where
  "module_names md =
     (let (globals, errors) = insert_names Duplicate_global (map g_name (m_globals md)) ([], []);
          (functions, errors) = insert_names Duplicate_function (map f_name (m_functions md)) ([], errors);
          (functions, errors) =
            insert_names Duplicate_external (map x_name (m_external_functions md)) (functions, errors)
      in (globals, functions, errors))"

definition unresolved_declarations :: "ir_module \<Rightarrow> ir_error list" where
  "unresolved_declarations md =
     map (\<lambda>x. In_module (Unresolved_external (x_name x)))
       (filter (\<lambda>x. type_contains_unknown (x_return_type x) \<or> list_ex type_contains_unknown (x_params x))
         (m_external_functions md))
     @ map (\<lambda>g. In_module (Unresolved_global (g_name g)))
       (filter (\<lambda>g. type_contains_unknown (g_ty g)) (m_globals md))"

definition verify_module :: "ir_module \<Rightarrow> (ir_error list + unit) option" where
  "verify_module md = (case module_names md of (globals, functions, name_errors) \<Rightarrow>
     map_option (\<lambda>function_errors.
       let errors = name_errors @ unresolved_declarations md @ function_errors
       in if errors = [] then Inr () else Inl errors)
       (verify_functions globals functions (function_signatures md) (m_functions md)))"

section \<open>It always ends\<close>

lemma verify_function_total: "\<exists>es. verify_function globals functions sigs f = Some es"
  using fg.dominators_computed [OF function_reachable_subset [of f]]
  by (auto simp: verify_function_def Let_def function_reachable_def)

lemma verify_functions_total: "\<exists>es. verify_functions globals functions sigs fs = Some es"
proof (induction fs)
  case (Cons f fs)
  then show ?case using verify_function_total [where f = f] by (auto split: option.splits)
qed simp

lemma verify_module_decided: "\<exists>r. verify_module md = Some r"
  using verify_functions_total by (auto simp: verify_module_def split: prod.splits)

end
