(* ===== verification/Verifier_Correct.thy ===== *)
theory Verifier_Correct
  imports Verifier Machine
begin

text \<open>
  What a module the verifier accepts is safe from. The definitions it collects are those of the
  function, so that an accepted function without frame reloads is in static single assignment
  form; a value it calls available is defined on every path to its use, so that the generated
  code of an accepted function never reads a value that is not there, never jumps to a block that
  does not exist and never enters a block without an argument for each of its phis.
\<close>

section \<open>The definitions the verifier collects\<close>

definition defined_at :: "ir_function \<Rightarrow> usize \<Rightarrow> value_definition \<Rightarrow> bool" where
  "defined_at f v d \<longleftrightarrow> (case d_block_id d of
     None \<Rightarrow> v \<in> p_id ` set (f_params f)
   | Some b \<Rightarrow> \<exists>blk \<in> set (f_blocks f). b_id blk = b \<and> d_instruction_index d < length (block_kinds blk) \<and>
       v \<in> vid ` set (defined_values (block_kinds blk ! d_instruction_index d)))"

lemma known_register:
  "known_definitions (df_map (register_definition fname label blk idx v fl st)) w =
     (if w = vid v then known_definitions (df_map st) w
        @ [\<lparr>d_block_id = blk, d_instruction_index = idx, d_is_frame_load = fl\<rparr>]
      else known_definitions (df_map st) w)"
  by (simp add: known_definitions_def register_definition_def Let_def update_Some_unfold AList.update_conv')

lemma fold_invariant:
  "(\<And>x st. x \<in> set xs \<Longrightarrow> I st \<Longrightarrow> I (h x st)) \<Longrightarrow> I st \<Longrightarrow> I (fold h xs st)"
  by (induction xs arbitrary: st) auto

lemma fold_appends:
  assumes "\<And>x st ids. x \<in> set xs \<Longrightarrow> R ids st \<Longrightarrow> R (ids @ g x) (h x st)" and "R ids st"
  shows "R (ids @ concat (map g xs)) (fold h xs st)"
  using assms
proof (induction xs arbitrary: ids st)
  case (Cons x xs)
  then have "R ((ids @ g x) @ concat (map g xs)) (fold h xs (h x st))" by (intro Cons.IH) auto
  then show ?case by simp
qed simp

definition sound_definitions :: "ir_function \<Rightarrow> definitions \<Rightarrow> bool" where
  "sound_definitions f st \<longleftrightarrow> (\<forall>v d. d \<in> set (known_definitions (df_map st) v) \<longrightarrow> defined_at f v d)"

lemma sound_register:
  "sound_definitions f st \<Longrightarrow>
   defined_at f (vid v) \<lparr>d_block_id = blk, d_instruction_index = idx, d_is_frame_load = fl\<rparr> \<Longrightarrow>
   sound_definitions f (register_definition fname label blk idx v fl st)"
  by (auto simp: sound_definitions_def known_register)

lemma sound_definitions_more [simp]:
  "sound_definitions f (st\<lparr>df_frame_loads := x\<rparr>) = sound_definitions f st"
  "sound_definitions f (st\<lparr>df_errors := y\<rparr>) = sound_definitions f st"
  by (simp_all add: sound_definitions_def)

lemma sound_register_instruction:
  assumes "sound_definitions f st" "b \<in> set (f_blocks f)" "ik \<in> set (enumerate 0 (block_kinds b))"
  shows "sound_definitions f (register_instruction fname b ik st)"
proof -
  obtain i k where ik: "ik = (i, k)" by (cases ik)
  with assms(3) have k: "i < length (block_kinds b)" "block_kinds b ! i = k"
    by (auto simp: in_set_enumerate_eq)
  have at: "defined_at f (vid v) \<lparr>d_block_id = Some (b_id b), d_instruction_index = i, d_is_frame_load = fl\<rparr>"
    if "v \<in> set (defined_values k)" for v fl
    using k assms(2) that by (auto simp: defined_at_def)
  show ?thesis
    using assms(1) unfolding ik register_instruction_def Let_def
    by (auto simp: defined_values_def intro!: sound_register at split: option.splits instruction_kind.splits async_kind.splits)
qed

lemma collect_definitions_sound:
  "d \<in> set (known_definitions (df_map (collect_definitions f)) v) \<Longrightarrow> defined_at f v d"
proof -
  have "sound_definitions f (fold (register_parameter (f_name f)) (f_params f)
      \<lparr>df_map = [], df_frame_loads = [], df_errors = []\<rparr>)"
  proof (rule fold_invariant)
    fix p st assume "p \<in> set (f_params f)" "sound_definitions f st"
    then show "sound_definitions f (register_parameter (f_name f) p st)"
      unfolding register_parameter_def by (intro sound_register) (simp_all add: defined_at_def)
  qed (simp add: sound_definitions_def known_definitions_def)
  moreover have "sound_definitions f (register_block (f_name f) b st)"
    if "b \<in> set (f_blocks f)" "sound_definitions f st" for b st
    unfolding register_block_def
    by (rule fold_invariant [where I = "sound_definitions f"]) (use that sound_register_instruction in auto)
  ultimately have "sound_definitions f (collect_definitions f)"
    unfolding collect_definitions_def by (rule fold_invariant [where I = "sound_definitions f", rotated])
  then show "d \<in> set (known_definitions (df_map (collect_definitions f)) v) \<Longrightarrow> defined_at f v d"
    by (simp add: sound_definitions_def)
qed

section \<open>Accepted definitions are single assignments\<close>

definition registered :: "usize list \<Rightarrow> definitions \<Rightarrow> bool" where
  "registered ids st \<longleftrightarrow> (df_errors st = [] \<longrightarrow> distinct ids) \<and>
     (\<forall>v. known_definitions (df_map st) v \<noteq> [] \<longleftrightarrow> v \<in> set ids) \<and>
     df_frame_loads st = []"

lemma errors_register:
  "df_errors (register_definition fname label blk idx v False st) = [] \<longleftrightarrow>
     df_errors st = [] \<and> vid v \<noteq> INVALID_ID \<and> known_definitions (df_map st) (vid v) = []"
  "df_frame_loads (register_definition fname label blk idx v fl st) = df_frame_loads st"
  by (simp_all add: register_definition_def Let_def)

lemma registered_register:
  assumes "registered ids st"
  shows "registered (ids @ [vid v]) (register_definition fname label blk idx v False st)"
proof -
  have "distinct (ids @ [vid v])" if "df_errors (register_definition fname label blk idx v False st) = []"
    using assms that by (auto simp: registered_def errors_register)
  with assms show ?thesis by (simp add: registered_def known_register errors_register)
qed

lemma registered_errors:
  "registered ids st \<Longrightarrow> registered ids (st\<lparr>df_errors := df_errors st @ es\<rparr>)"
  by (simp add: registered_def)

lemma registered_instruction:
  assumes "registered ids st" "\<not> is_frame_load k"
  shows "registered (ids @ map vid (defined_values k)) (register_instruction fname b (i, k) st)"
proof (cases "instruction_result k")
  case None
  with assms registered_register [OF assms(1)] show ?thesis
    by (auto simp: register_instruction_def defined_values_def split: instruction_kind.splits async_kind.splits)
next
  case (Some r)
  have one: "registered (ids @ [vid r]) (register_definition fname (b_label b) (Some (b_id b)) i r False st)"
    using assms(1) by (rule registered_register)
  with Some assms registered_register [OF one] show ?thesis
    by (auto simp: register_instruction_def defined_values_def split: instruction_kind.splits async_kind.splits)
qed

lemma registered_block:
  assumes "registered ids st" "list_all (\<lambda>k. \<not> is_frame_load k) (block_kinds b)"
  shows "registered (ids @ concat (map (map vid \<circ> defined_values) (block_kinds b))) (register_block fname b st)"
proof -
  have "registered (ids @ concat (map ((map vid \<circ> defined_values) \<circ> snd) (enumerate 0 (block_kinds b))))
    (register_block fname b st)"
    unfolding register_block_def
    by (rule fold_appends)
      (use assms in \<open>auto simp: registered_instruction list_all_iff in_set_enumerate_eq\<close>)
  then show ?thesis by (simp flip: map_map)
qed

lemma collect_definitions_registered:
  assumes "list_all (\<lambda>k. \<not> is_frame_load k) (function_kinds f)"
  shows "registered (definitions_of f) (collect_definitions f)"
proof -
  have "registered ([] @ concat (map (\<lambda>p. [p_id p]) (f_params f))) (fold (register_parameter (f_name f)) (f_params f)
      \<lparr>df_map = [], df_frame_loads = [], df_errors = []\<rparr>)"
  proof (rule fold_appends)
    fix p st ids assume R: "registered ids st"
    show "registered (ids @ [p_id p]) (register_parameter (f_name f) p st)"
      using registered_register [OF R, where v = "Value (p_id p)"]
        registered_register [OF registered_errors [OF R], where v = "Value (p_id p)"]
      unfolding register_parameter_def by (cases "p_id p = INVALID_ID") (simp_all only: if_P if_not_P simp_thms refl vid_Value if_True)
  qed (simp add: registered_def known_definitions_def)
  then have params: "registered (map p_id (f_params f)) (fold (register_parameter (f_name f)) (f_params f)
      \<lparr>df_map = [], df_frame_loads = [], df_errors = []\<rparr>)" by simp
  have "registered (map p_id (f_params f)
      @ concat (map (\<lambda>b. concat (map (map vid \<circ> defined_values) (block_kinds b))) (f_blocks f)))
    (collect_definitions f)"
    unfolding collect_definitions_def
  proof (rule fold_appends)
    fix b st ids assume "b \<in> set (f_blocks f)" "registered ids st"
    with assms show "registered (ids @ concat (map (map vid \<circ> defined_values) (block_kinds b)))
        (register_block (f_name f) b st)"
      by (intro registered_block) (auto simp: function_kinds_def list_all_iff)
  qed (rule params)
  moreover have "definitions_of f = map p_id (f_params f)
      @ concat (map (\<lambda>b. concat (map (map vid \<circ> defined_values) (block_kinds b))) (f_blocks f))"
  proof -
    have "concat (map g (concat (map h xs))) = concat (map (\<lambda>b. concat (map g (h b))) xs)" for g h and xs :: "basic_block list"
      by (induction xs) auto
    then show ?thesis by (simp add: definitions_of_def function_kinds_def)
  qed
  ultimately show ?thesis by simp
qed

section \<open>What acceptance gives\<close>

definition accepted :: "ir_function \<Rightarrow> verifier_scope \<Rightarrow> bool" where
  "accepted f sc \<longleftrightarrow> sc_function sc = f \<and> function_dominators f = Some (sc_dominators sc) \<and>
     sc_definitions sc = df_map (collect_definitions f) \<and> sc_frame_loads sc = df_frame_loads (collect_definitions f) \<and>
     df_errors (collect_definitions f) = [] \<and> f_blocks f \<noteq> [] \<and> distinct (block_ids f) \<and>
     (\<forall>b \<in> set (f_blocks f). check_block sc b = [])"

lemma verify_functions_accepted:
  "verify_functions globals funs sigs fs = Some [] \<Longrightarrow> f \<in> set fs \<Longrightarrow> verify_function globals funs sigs f = Some []"
  by (induction fs) (auto split: option.splits)

lemma verify_module_accepted:
  assumes "verify_module md = Some (Inr ())" "f \<in> set (m_functions md)"
  obtains sc where "accepted f sc" and "sc_value_types sc = collect_value_types f (function_signatures md)"
    and "sc_signatures sc = function_signatures md"
proof -
  obtain globals funs errs where names: "module_names md = (globals, funs, errs)" by (cases "module_names md")
  from assms(1) have "verify_functions globals funs (function_signatures md) (m_functions md) = Some []"
    by (auto simp: verify_module_def names Let_def split: if_splits)
  then have "verify_function globals funs (function_signatures md) f = Some []"
    using assms(2) by (rule verify_functions_accepted)
  then obtain doms where blocks: "f_blocks f \<noteq> []" and doms: "function_dominators f = Some doms"
      and errs: "df_errors (collect_definitions f) = []" "length (remdups (block_ids f)) = length (f_blocks f)"
      "\<forall>b \<in> set (f_blocks f). check_block (function_scope globals funs (function_signatures md) f doms) b = []"
    by (auto simp: verify_function_def Let_def function_dominators_def function_reachable_def split: if_splits)
  have "distinct (block_ids f)"
    using errs(2) by (metis block_ids_def card_distinct length_map length_remdups_card_conv)
  with blocks doms errs have "accepted f (function_scope globals funs (function_signatures md) f doms)"
    by (simp add: accepted_def function_scope_def)
  then show thesis by (rule that) (simp_all add: function_scope_def)
qed

lemma accepted_single_assignment:
  assumes "accepted f sc" "list_all (\<lambda>k. \<not> is_frame_load k) (function_kinds f)"
  shows "single_assignment f" and "sc_frame_loads sc = []"
  using collect_definitions_registered [OF assms(2)] assms(1)
  by (auto simp: registered_def accepted_def single_assignment_def)

lemma accepted_get_block:
  assumes "accepted f sc" "b \<in> set (f_blocks f)"
  shows "get_block f (b_id b) = Some b"
  using assms by (auto simp: accepted_def get_block_def block_ids_def find_Some_iff distinct_conv_nth in_set_conv_nth)

lemma get_block_in_ids: "i \<in> set (block_ids f) \<longleftrightarrow> get_block f i \<noteq> None"
  by (auto simp: get_block_def block_ids_def find_None_iff)

section \<open>Available values\<close>

definition kinds_define :: "instruction_kind list \<Rightarrow> usize set" where
  "kinds_define ks = (\<Union>k \<in> set ks. vid ` set (defined_values k))"

definition block_defines :: "ir_function \<Rightarrow> usize \<Rightarrow> usize set" where
  "block_defines f b = (case get_block f b of None \<Rightarrow> {} | Some blk \<Rightarrow> kinds_define (block_kinds blk))"

text \<open>The values that are there whenever control is at index \<open>i\<close> of block \<open>b\<close>.\<close>

definition defined_before :: "ir_function \<Rightarrow> usize \<Rightarrow> usize \<Rightarrow> usize set" where
  "defined_before f b i = p_id ` set (f_params f) \<union>
     (case get_block f b of None \<Rightarrow> {} | Some blk \<Rightarrow> kinds_define (take i (block_kinds blk))) \<union>
     \<Union> {block_defines f d | d. d \<noteq> b \<and> dominates (cfg_edges f (block_ids f)) (entry_block f) d b}"

lemma kinds_define_nth: "j < length ks \<Longrightarrow> j < i \<Longrightarrow> vid ` set (defined_values (ks ! j)) \<subseteq> kinds_define (take i ks)"
proof -
  assume "j < length ks" "j < i"
  then have "ks ! j \<in> set (take i ks)" by (metis in_set_conv_nth length_take min_less_iff_conj nth_take)
  then show ?thesis by (auto simp: kinds_define_def)
qed

lemma available_defined:
  assumes acc: "accepted f sc" and nf: "sc_frame_loads sc = []"
    and reach: "(case edge of Some p \<Rightarrow> p | None \<Rightarrow> b) \<in> set (function_reachable f)"
    and ok: "check_value_available sc b i edge v = []"
  shows "vid v \<in> defined_before f (case edge of Some p \<Rightarrow> p | None \<Rightarrow> b) i"
proof -
  let ?c = "case edge of Some p \<Rightarrow> p | None \<Rightarrow> b"
  from ok nf obtain ds d where "map_of (sc_definitions sc) (vid v) = Some ds" "d \<in> set ds"
      and av: "is_available sc ?c i d"
    by (auto simp: check_value_available_def list_ex_iff split: if_splits option.splits)
  then have at: "defined_at f (vid v) d"
    using acc by (intro collect_definitions_sound) (simp add: accepted_def known_definitions_def)
  obtain doms where doms: "function_dominators f = Some doms" "sc_dominators sc = doms"
      "doms ?c = Some {a. dominates (cfg_edges f (block_ids f)) (entry_block f) a ?c}"
    using function_dominators_exact [OF _ reach] acc by (auto simp: accepted_def)
  show ?thesis
  proof (cases "d_block_id d")
    case None
    with at show ?thesis by (simp add: defined_at_def defined_before_def)
  next
    case (Some db)
    with at obtain blk where blk: "blk \<in> set (f_blocks f)" "b_id blk = db"
        and j: "d_instruction_index d < length (block_kinds blk)"
          "vid v \<in> vid ` set (defined_values (block_kinds blk ! d_instruction_index d))"
      by (auto simp: defined_at_def)
    have get: "get_block f db = Some blk" using accepted_get_block [OF acc blk(1)] blk(2) by simp
    show ?thesis
    proof (cases "db = ?c")
      case True
      with av Some j(1) have "d_instruction_index d < i" by (simp add: is_available_def)
      with kinds_define_nth [OF j(1)] j(2) have "vid v \<in> kinds_define (take i (block_kinds blk))" by blast
      with True get show ?thesis by (simp add: defined_before_def)
    next
      case False
      with av Some doms have "dominates (cfg_edges f (block_ids f)) (entry_block f) db ?c"
        by (simp add: is_available_def)
      moreover have "vid v \<in> block_defines f db"
        using get j kinds_define_nth [OF j(1) j(1)] by (auto simp: block_defines_def)
      ultimately show ?thesis using False by (auto simp: defined_before_def)
    qed
  qed
qed

section \<open>Instructions whose operands are there\<close>

text \<open>What the theorem asks of the code that is not modelled: an instruction with an effect of
  its own gives a value for each of its results or panics.\<close>

definition effects_defined :: "'m machine \<Rightarrow> bool" where
  "effects_defined M \<longleftrightarrow> (\<forall>k xs m. effect M k xs m \<noteq> Stuck \<and>
     (\<forall>ys m'. effect M k xs m = Done (ys, m') \<longrightarrow> length ys = length (defined_values k)))"

text \<open>A typed float literal of a type that is not a float has no Cranelift constant; the
  verifier does not look at it.\<close>

fun float_literal_typed :: "instruction_kind \<Rightarrow> bool" where
  "float_literal_typed (Const (ConstFloatTyped _ _ ty)) = (machine_class ty \<in> {Some MC_F32, Some MC_F64})"
| "float_literal_typed _ = True"

fun reloads :: "instruction_kind \<Rightarrow> bool" where
  "reloads (Async (FrameLoad _ _ _ _)) = True"
| "reloads (Async (StateLoad _ _)) = True"
| "reloads _ = False"

fun is_phi :: "instruction_kind \<Rightarrow> bool" where
  "is_phi (Move (Phi _ _)) = True"
| "is_phi _ = False"

fun class_type :: "mclass \<Rightarrow> cl_type" where
  "class_type MC_I8 = CI8" | "class_type MC_I16 = CI16" | "class_type MC_I32 = CI32"
| "class_type MC_I64 = CI64" | "class_type MC_F32 = CF32" | "class_type MC_F64 = CF64"

lemma generic_not_self [simp]: "rep \<noteq> TGeneric n args rep"
proof
  assume "rep = TGeneric n args rep"
  then have "size rep = size (TGeneric n args rep)" by simp
  then show False by simp
qed

lemma class_type_machine_class: "map_option class_type (machine_class ty) = ir_type_to_cranelift ty"
  by (induction ty rule: machine_class.induct) (auto split: int_width.splits float_width.splits)

lemma resolved_class: "\<not> type_contains_unknown ty \<Longrightarrow> ir_type_to_cranelift ty \<noteq> None"
  by (induction ty rule: ir_type_to_cranelift.induct) auto

definition const_ok :: "instruction_kind \<Rightarrow> bool" where
  "const_ok k \<longleftrightarrow> float_literal_typed k \<and>
     (case k of Const (ConstIntTyped _ _ ty) \<Rightarrow> ir_type_to_cranelift ty \<noteq> None | _ \<Rightarrow> True)"

definition operands_there :: "env \<Rightarrow> instruction_kind \<Rightarrow> bool" where
  "operands_there e k \<longleftrightarrow> is_phi k \<or> vid ` set (operands_read k) \<subseteq> dom e"

lemma get_value_there: "vid v \<in> dom e \<Longrightarrow> \<exists>x. get_value e v = Done x"
  by (auto simp: get_value_def)

lemma get_values_there: "vid ` set vs \<subseteq> dom e \<Longrightarrow> \<exists>xs. get_values e vs = Done xs"
proof (induction vs)
  case (Cons v vs)
  then show ?case using get_value_there [of v e] by auto
qed simp

lemma bind_values_there:
  "length xs = length vs \<Longrightarrow> \<exists>e'. bind_values vs xs e = Done e' \<and> dom e' = dom e \<union> vid ` set vs"
proof (induction vs xs e rule: bind_values.induct)
  case (2 v vs x xs e)
  then show ?case by (force simp del: fun_upd_apply)
qed auto

lemma emit_checked_not_Stuck [simp]: "emit_checked_int_divrem M msg rm uns x y \<noteq> Stuck"
  by (simp add: emit_checked_int_divrem_def)

lemmas not_Stuck_simps = operands_there_def operands_read_def instruction_operands_def with_operands_def
  get_value_def float_or_int_def

lemma perform_effect_there:
  assumes M: "effects_defined M" and ops: "vid ` set (operands_read k) \<subseteq> dom e"
  shows "perform_effect M k (e, m) \<noteq> Stuck \<and>
    (\<forall>e' m'. perform_effect M k (e, m) = Done (e', m') \<longrightarrow> dom e' = dom e \<union> vid ` set (defined_values k))"
proof -
  obtain xs where xs: "get_values e (operands_read k) = Done xs" using get_values_there [OF ops] by blast
  show ?thesis
  proof (cases "effect M k xs m")
    case (Done res)
    obtain ys m' where res: "res = (ys, m')" by (cases res)
    with M Done have "length ys = length (defined_values k)" unfolding effects_defined_def by blast
    then obtain e' where "bind_values (defined_values k) ys e = Done e'" "dom e' = dom e \<union> vid ` set (defined_values k)"
      using bind_values_there by blast
    with xs Done res show ?thesis by (simp add: perform_effect_def)
  next
    case Stuck
    with M show ?thesis by (simp add: effects_defined_def)
  qed (simp add: perform_effect_def xs)
qed

lemma write_result_there:
  assumes "snd res \<noteq> Stuck" and "Some (fst res) = instruction_result k"
    and "\<And>s r q t. k \<noteq> Async (CoroutinePollChild s r q t)"
  shows "write_result res e m \<noteq> Stuck \<and>
    (\<forall>e' m'. write_result res e m = Done (e', m') \<longrightarrow> dom e' = dom e \<union> vid ` set (defined_values k))"
proof -
  have "defined_values k = [fst res]"
    using assms(2) [symmetric] assms(3) by (auto simp: defined_values_def split: instruction_kind.splits async_kind.splits)
  with assms(1) show ?thesis by (cases "snd res") (auto simp: write_result_def)
qed

lemma exec_kind_there:
  assumes M: "effects_defined M" and ops: "operands_there e k" and k: "const_ok k"
  shows "exec_kind M k (e, m) \<noteq> Stuck \<and>
    (\<forall>e' m'. exec_kind M k (e, m) = Done (e', m') \<longrightarrow>
       dom e' = dom e \<union> (if is_phi k then {} else vid ` set (defined_values k)))"
proof (cases k)
  case (Arith a)
  have "snd (exec_arith M e a) \<noteq> Stuck"
    using ops unfolding Arith
    by (cases a) (auto simp: exec_arith_def not_Stuck_simps split: prod.splits if_splits)
  then show ?thesis using write_result_there [OF _ fst_exec_arith] Arith by (simp add: exec_kind_def)
next
  case (Compare c)
  have "snd (exec_compare M e c) \<noteq> Stuck"
    using ops unfolding Compare
    by (cases c) (auto simp: exec_compare_def Let_def not_Stuck_simps split: prod.splits if_splits)
  then show ?thesis using write_result_there [OF _ fst_exec_compare] Compare by (simp add: exec_kind_def)
next
  case (Logical l)
  have "snd (exec_logical M e l) \<noteq> Stuck"
    using ops unfolding Logical by (cases l) (auto simp: exec_logical_def not_Stuck_simps)
  then show ?thesis using write_result_there [OF _ fst_exec_logical] Logical by (simp add: exec_kind_def)
next
  case (Const c)
  show ?thesis
  proof (cases "exec_const M c")
    case None
    with perform_effect_there [OF M, of k e] ops Const show ?thesis by (simp add: exec_kind_def operands_there_def)
  next
    case (Some res)
    have "snd res \<noteq> Stuck"
      using Some k unfolding Const
      by (cases c) (auto simp: exec_const_def const_ok_def class_type_machine_class [symmetric]
          split: option.splits cl_type.splits)
    then show ?thesis using write_result_there [OF _ fst_exec_const [OF Some]] Const Some by (simp add: exec_kind_def)
  qed
next
  case (Move mv)
  show ?thesis
  proof (cases mv)
    case (Phi r inc)
    then show ?thesis by (simp add: Move exec_kind_def)
  next
    case (Copy r v)
    then have "snd (r, get_value e v) \<noteq> Stuck"
      using ops get_value_there [of v e] by (auto simp: Move operands_there_def operands_read_def instruction_operands_def)
    then show ?thesis
      using write_result_there [of "(r, get_value e v)" k] Move Copy by (simp add: exec_kind_def instruction_result_def)
  qed
qed (use perform_effect_there [OF M, of k e] ops in \<open>simp_all add: exec_kind_def operands_there_def\<close>)

lemma exec_kinds_there:
  assumes "effects_defined M" and "list_all const_ok ks"
    and "\<And>i. i < length ks \<Longrightarrow> is_phi (ks ! i) \<or> vid ` set (operands_read (ks ! i)) \<subseteq> A \<union> kinds_define (take i ks)"
    and "\<And>k. k \<in> set ks \<Longrightarrow> is_phi k \<Longrightarrow> vid ` set (defined_values k) \<subseteq> A" and "A \<subseteq> dom e"
  shows "exec_kinds M ks (e, m) \<noteq> Stuck \<and>
    (\<forall>e' m'. exec_kinds M ks (e, m) = Done (e', m') \<longrightarrow> A \<union> kinds_define ks \<subseteq> dom e')"
  using assms(2-)
proof (induction ks arbitrary: A e m)
  case (Cons k ks)
  let ?D = "vid ` set (defined_values k)"
  have ops: "operands_there e k" using Cons.prems(2) [of 0] Cons.prems(4) by (auto simp: operands_there_def kinds_define_def)
  note k = exec_kind_there [OF assms(1) ops, of m]
  have ready: "is_phi (ks ! i) \<or> vid ` set (operands_read (ks ! i)) \<subseteq> (A \<union> ?D) \<union> kinds_define (take i ks)"
    if "i < length ks" for i
    using Cons.prems(2) [of "Suc i"] that by (auto simp: kinds_define_def)
  show ?case
  proof (cases "exec_kind M k (e, m)")
    case (Done s)
    obtain e1 m1 where s: "s = (e1, m1)" by (cases s)
    have "A \<union> ?D \<subseteq> dom e1"
      using k Done s Cons.prems(1,4) Cons.prems(3) [of k] by (cases "is_phi k") auto
    then have "exec_kinds M ks (e1, m1) \<noteq> Stuck \<and>
      (\<forall>e' m'. exec_kinds M ks (e1, m1) = Done (e', m') \<longrightarrow> (A \<union> ?D) \<union> kinds_define ks \<subseteq> dom e')"
      using Cons.prems(1,3) ready by (intro Cons.IH) (auto simp: list_all_iff)
    with Done s show ?thesis by (auto simp: kinds_define_def)
  qed (use k Cons.prems(1) in auto)
qed (auto simp: kinds_define_def)

section \<open>Jumps\<close>

lemma walk_last: "walk E a p b \<Longrightarrow> set p = insert b (set (butlast p))"
  by (induction rule: walk.induct) auto

lemma walk_reaches: "walk E a p b \<Longrightarrow> (a, b) \<in> E\<^sup>*"
  by (induction rule: walk.induct) (auto intro: rtrancl_into_rtrancl)

lemma set_phi_descriptors:
  "set (phi_descriptors ks) = {(r, phi_incoming inc) | r inc. Move (Phi r inc) \<in> set ks}"
  by (induction ks) (auto split: instruction_kind.splits move_kind.splits)

lemma phi_args_there:
  "(\<And>r inc. (r, inc) \<in> set phis \<Longrightarrow> \<exists>v. inc cur = Some v \<and> vid v \<in> dom e) \<Longrightarrow>
   \<exists>args. get_phi_args e cur phis = Done args \<and> map fst args = map fst phis"
proof (induction phis)
  case (Cons ph phis)
  obtain r inc where ph: "ph = (r, inc)" by (cases ph)
  obtain v where "inc cur = Some v" "vid v \<in> dom e" using Cons.prems [of r inc] ph by auto
  with Cons ph get_value_there [of v e] show ?case by fastforce
qed simp

lemma dom_pass_args: "dom (pass_args args e) = dom e \<union> vid ` fst ` set args"
  by (induction args e rule: pass_args.induct) (auto simp del: fun_upd_apply)

definition phis_define :: "ir_function \<Rightarrow> usize \<Rightarrow> usize set" where
  "phis_define f b = (case get_block f b of None \<Rightarrow> {} | Some blk \<Rightarrow> kinds_define (filter is_phi (block_kinds blk)))"

lemma check_phi_entries_all:
  "check_phi_entries sc b seen incoming = [] \<Longrightarrow> x \<in> set incoming \<Longrightarrow> check_incoming sc b x = []"
  by (induction sc b seen incoming rule: check_phi_entries.induct) auto

lemma phi_incoming_dom: "(\<exists>v. phi_incoming incoming b = Some v) \<longleftrightarrow> b \<in> snd ` set incoming"
  by (force simp: phi_incoming_def map_of_eq_None_iff simp flip: not_None_eq)

lemma phi_incoming_mem: "phi_incoming incoming b = Some v \<Longrightarrow> (v, b) \<in> set incoming"
  by (auto simp: phi_incoming_def dest: map_of_SomeD)

lemma check_block_instruction:
  "check_block sc b = [] \<Longrightarrow> i < length (block_kinds b) \<Longrightarrow> check_instruction sc b (i, block_kinds b ! i) = []"
  by (auto simp: check_block_def in_set_enumerate_eq)

lemma accepted_phi:
  assumes acc: "accepted f sc" and nf: "sc_frame_loads sc = []"
    and cur: "get_block f cur = Some cb" "cur \<in> set (function_reachable f)"
    and tb: "get_block f t = Some tb" "t \<in> set (block_successors (b_terminator cb))"
    and phi: "Move (Phi r inc) \<in> set (block_kinds tb)"
  shows "\<exists>v. phi_incoming inc cur = Some v \<and> vid v \<in> defined_before f cur (length (b_instructions cb))"
proof -
  from tb(1) have t: "tb \<in> set (f_blocks f)" "b_id tb = t" by (auto dest: get_block_Some)
  have cb: "cb \<in> set (f_blocks f)" "b_id cb = cur" using cur(1) by (auto dest: get_block_Some)
  from phi obtain i where "i < length (block_kinds tb)" "block_kinds tb ! i = Move (Phi r inc)" by (auto simp: in_set_conv_nth)
  with check_block_instruction [of sc tb i] acc t(1) have ph: "check_phi sc tb inc = []"
    by (auto simp: accepted_def check_instruction_def)
  have pred: "cur \<in> set (predecessors f t)" using cb tb(2) by (auto simp: set_predecessors)
  with ph acc t(2) have "cur \<in> snd ` set inc"
    by (auto simp: check_phi_def accepted_def filter_empty_conv split: if_splits)
  then obtain v where v: "phi_incoming inc cur = Some v" using phi_incoming_dom by blast
  then have "check_incoming sc tb (v, cur) = []"
    using ph check_phi_entries_all phi_incoming_mem by (fastforce simp: check_phi_def)
  with acc cur(1) pred t(2) have "check_value_available sc t (length (b_instructions cb)) (Some cur) v = []"
    by (auto simp: check_incoming_def accepted_def split: if_splits)
  from available_defined [OF acc nf _ this] cur(2) v show ?thesis by simp
qed

lemma accepted_jump:
  assumes acc: "accepted f sc" and nf: "sc_frame_loads sc = []"
    and cur: "get_block f cur = Some cb" "cur \<in> set (function_reachable f)"
    and t: "t \<in> set (block_successors (b_terminator cb))" "t \<in> set (block_ids f)"
    and there: "defined_before f cur (length (b_instructions cb)) \<subseteq> dom e"
  shows "\<exists>e'. jump f cur t e m = Running t e' m \<and> dom e' = dom e \<union> phis_define f t"
proof -
  from t(2) obtain tb where tb: "get_block f t = Some tb" using get_block_in_ids by blast
  have "\<exists>v. inc cur = Some v \<and> vid v \<in> dom e" if "(r, inc) \<in> set (phi_descriptors (block_kinds tb))" for r inc
    using that accepted_phi [OF acc nf cur tb t(1)] there unfolding set_phi_descriptors by blast
  then obtain args where args: "get_phi_args e cur (phi_descriptors (block_kinds tb)) = Done args"
      "map fst args = map fst (phi_descriptors (block_kinds tb))"
    using phi_args_there by blast
  have "fst ` set args = fst ` set (phi_descriptors (block_kinds tb))"
    using args(2) by (metis list.set_map)
  then have "vid ` fst ` set args = phis_define f t"
    unfolding set_phi_descriptors
    by (auto simp: phis_define_def tb kinds_define_def defined_values_def instruction_result_def image_iff
        elim!: is_phi.elims) (metis fst_conv)+
  with tb args(1) show ?thesis by (simp add: jump_def dom_pass_args)
qed

section \<open>Runs\<close>

text \<open>Along a run: the parameters, everything the blocks on the path so far define, and the
  phis of the current block are there.\<close>

definition run_state :: "ir_function \<Rightarrow> usize list \<Rightarrow> usize \<Rightarrow> env \<Rightarrow> bool" where
  "run_state f p cur e \<longleftrightarrow> walk (cfg_edges f (block_ids f)) (entry_block f) p cur \<and>
     entry_block f \<in> set (block_ids f) \<and> p_id ` set (f_params f) \<subseteq> dom e \<and>
     (\<forall>b \<in> set (butlast p). block_defines f b \<subseteq> dom e) \<and> phis_define f cur \<subseteq> dom e"

lemma run_state_reachable: "run_state f p cur e \<Longrightarrow> cur \<in> set (function_reachable f)"
  by (auto simp: run_state_def function_reachable_iff dest: walk_reaches)

lemma run_state_before:
  assumes "run_state f p cur e" "get_block f cur = Some cb"
  shows "defined_before f cur i \<subseteq> dom e \<union> kinds_define (take i (block_kinds cb))"
proof -
  have "d \<in> set (butlast p)" if "d \<noteq> cur" "dominates (cfg_edges f (block_ids f)) (entry_block f) d cur" for d
    using that assms(1) walk_last by (fastforce simp: run_state_def dominates_def)
  with assms show ?thesis by (auto simp: defined_before_def run_state_def)
qed

lemma run_state_extend:
  assumes st: "run_state f p cur e" and "walk (cfg_edges f (block_ids f)) (entry_block f) (p @ [t]) t"
    and cur: "block_defines f cur \<subseteq> dom e'" and e: "dom e \<subseteq> dom e'" and "phis_define f t \<subseteq> dom e'"
  shows "run_state f (p @ [t]) t e'"
proof -
  have "set p = insert cur (set (butlast p))" using st unfolding run_state_def by (elim conjE) (rule walk_last)
  then have "block_defines f b \<subseteq> dom e'" if "b \<in> set p" for b
    using that cur st subset_trans [OF _ e] by (cases "b = cur") (simp_all add: run_state_def)
  with assms show ?thesis by (simp add: run_state_def subset_trans [OF _ e])
qed

lemma switch_target_mem: "switch_target M x arms dflt \<in> set (map snd arms @ [dflt])"
  by (induction M x arms dflt rule: switch_target.induct) auto

lemma check_cases_targets: "check_cases sc seen arms = [] \<Longrightarrow> snd ` set arms \<subseteq> set (block_ids (sc_function sc))"
  by (induction sc seen arms rule: check_cases.induct) (auto simp: check_target_def split: if_splits)

lemma accepted_terminator:
  assumes acc: "accepted f sc" and nf: "sc_frame_loads sc = []"
    and cur: "get_block f cur = Some cb" "cur \<in> set (function_reachable f)"
    and there: "defined_before f cur (length (b_instructions cb)) \<subseteq> dom e"
  shows "(\<exists>v m'. exec_terminator M f cur (b_terminator cb) (e, m) = Returned v m') \<or>
    (\<exists>s. exec_terminator M f cur (b_terminator cb) (e, m) = Trapped s) \<or>
    (\<exists>t. t \<in> set (block_successors (b_terminator cb)) \<and> t \<in> set (block_ids f) \<and>
       exec_terminator M f cur (b_terminator cb) (e, m) = jump f cur t e m)"
proof -
  have cb: "cb \<in> set (f_blocks f)" "b_id cb = cur" using cur(1) by (auto dest: get_block_Some)
  with acc have chk: "check_terminator sc cb = []" by (auto simp: accepted_def check_block_def)
  have val: "\<exists>x. e (vid v) = Some x" if "check_value_available sc cur (length (b_instructions cb)) None v = []" for v
    using available_defined [OF acc nf _ that] cur(2) there by auto
  have f: "sc_function sc = f" using acc by (simp add: accepted_def)
  show ?thesis
  proof (cases "b_terminator cb")
    case None
    with chk show ?thesis by (simp add: check_terminator_def)
  next
    case (Some t)
    show ?thesis
    proof (cases t)
      case (Return v)
      show ?thesis
      proof (cases v)
        case None
        with Some Return show ?thesis by (simp add: exec_terminator_def)
      next
        case (Some u)
        with \<open>b_terminator cb = Some t\<close> Return chk cb(2) have "\<exists>x. e (vid u) = Some x"
          by (intro val) (simp add: check_terminator_def)
        with Some Return \<open>b_terminator cb = Some t\<close> show ?thesis by (auto simp: exec_terminator_def)
      qed
    next
      case (Branch target)
      with Some chk f show ?thesis
        by (auto simp: check_terminator_def check_target_def exec_terminator_def block_successors_def split: if_splits)
    next
      case (CondBranch c yes no)
      with Some chk f val [of c] cb(2) show ?thesis
        by (auto simp: check_terminator_def check_target_def exec_terminator_def block_successors_def split: if_splits)
    next
      case (Switch v arms dflt)
      with Some chk f cb(2) have "check_cases sc [] arms = []" "dflt \<in> set (block_ids f)" "\<exists>x. e (vid v) = Some x"
        using val [of v] by (auto simp: check_terminator_def check_target_def split: if_splits)
      then obtain x where x: "e (vid v) = Some x" and ids: "snd ` set arms \<subseteq> set (block_ids f)" "dflt \<in> set (block_ids f)"
        using check_cases_targets f by blast
      have "switch_target M x arms dflt \<in> set (block_successors (b_terminator cb))"
        using switch_target_mem [of M x arms dflt] Some Switch by (simp add: block_successors_def)
      moreover have "switch_target M x arms dflt \<in> set (block_ids f)"
        using switch_target_mem [of M x arms dflt] ids by auto
      ultimately show ?thesis using Some Switch x by (auto simp: exec_terminator_def)
    next
      case Unreachable
      with Some show ?thesis by (simp add: exec_terminator_def)
    qed
  qed
qed

lemma accepted_const_ok:
  assumes "accepted f sc" "get_block f cur = Some cb" "list_all float_literal_typed (function_kinds f)"
  shows "list_all const_ok (block_kinds cb)"
  unfolding list_all_length
proof (intro allI impI)
  fix i assume i: "i < length (block_kinds cb)"
  have "cb \<in> set (f_blocks f)" using assms(2) by (auto dest: get_block_Some)
  with assms(1) have "check_instruction sc cb (i, block_kinds cb ! i) = []"
    using check_block_instruction i by (auto simp: accepted_def)
  moreover have "float_literal_typed (block_kinds cb ! i)"
    using assms(3) nth_mem [OF i] get_block_kinds [OF assms(2)] by (auto simp: list_all_iff)
  ultimately show "const_ok (block_kinds cb ! i)"
    using resolved_class
    by (auto simp: const_ok_def check_instruction_def instruction_unresolved_type_def Let_def
        split: instruction_kind.splits const_kind.splits if_splits)
qed

lemma accepted_operands:
  assumes acc: "accepted f sc" and nf: "sc_frame_loads sc = []" and st: "run_state f p cur e"
    and cur: "get_block f cur = Some cb" and nr: "list_all (\<lambda>k. \<not> reloads k) (function_kinds f)"
    and i: "i < length (block_kinds cb)"
  shows "is_phi (block_kinds cb ! i) \<or>
    vid ` set (operands_read (block_kinds cb ! i)) \<subseteq> dom e \<union> kinds_define (take i (block_kinds cb))"
proof (rule disjCI)
  assume np: "\<not> vid ` set (operands_read (block_kinds cb ! i)) \<subseteq> dom e \<union> kinds_define (take i (block_kinds cb))"
  show "is_phi (block_kinds cb ! i)"
  proof (rule ccontr)
    assume phi: "\<not> is_phi (block_kinds cb ! i)"
    have cb: "cb \<in> set (f_blocks f)" "b_id cb = cur" using cur by (auto dest: get_block_Some)
    have "\<not> reloads (block_kinds cb ! i)" using nr nth_mem [OF i] get_block_kinds [OF cur] by (auto simp: list_all_iff)
    then have ops: "operands_read (block_kinds cb ! i) = instruction_operands (block_kinds cb ! i)"
      by (auto simp: operands_read_def split: instruction_kind.splits async_kind.splits)
    have "check_instruction sc cb (i, block_kinds cb ! i) = []"
      using acc cb(1) check_block_instruction i by (auto simp: accepted_def)
    with phi cb(2) have "\<forall>v \<in> set (instruction_operands (block_kinds cb ! i)). check_value_available sc cur i None v = []"
      by (auto simp: check_instruction_def split: instruction_kind.splits move_kind.splits)
    then have "vid v \<in> defined_before f cur i" if "v \<in> set (instruction_operands (block_kinds cb ! i))" for v
      using available_defined [OF acc nf, where edge = None and b = cur and i = i and v = v]
        run_state_reachable [OF st] that by simp
    then have "vid ` set (instruction_operands (block_kinds cb ! i)) \<subseteq> defined_before f cur i" by blast
    from subset_trans [OF this run_state_before [OF st cur]] np ops show False by simp
  qed
qed

lemma accepted_step:
  assumes acc: "accepted f sc" and M: "effects_defined M" and nr: "list_all (\<lambda>k. \<not> reloads k) (function_kinds f)"
    and fl: "list_all float_literal_typed (function_kinds f)" and st: "run_state f p cur e"
  shows "step_block M f (Running cur e m) \<noteq> Stuck_config \<and>
    (\<forall>t e' m'. step_block M f (Running cur e m) = Running t e' m' \<longrightarrow> (\<exists>p'. run_state f p' t e'))"
proof -
  have "list_all (\<lambda>k. \<not> is_frame_load k) (function_kinds f)"
    using nr by (auto simp: list_all_iff elim!: is_frame_load.elims)
  then have nf: "sc_frame_loads sc = []" by (rule accepted_single_assignment [OF acc])
  have reach: "cur \<in> set (function_reachable f)" using st by (rule run_state_reachable)
  then obtain cb where cur: "get_block f cur = Some cb"
    using function_reachable_subset get_block_in_ids by fastforce
  have safe: "exec_kinds M (block_kinds cb) (e, m) \<noteq> Stuck \<and> (\<forall>e' m'. exec_kinds M (block_kinds cb) (e, m) = Done (e', m') \<longrightarrow>
      dom e \<union> kinds_define (block_kinds cb) \<subseteq> dom e')"
  proof (rule exec_kinds_there [OF M accepted_const_ok [OF acc cur fl] accepted_operands [OF acc nf st cur nr]])
    fix k assume "k \<in> set (block_kinds cb)" "is_phi k"
    with cur have "vid ` set (defined_values k) \<subseteq> phis_define f cur" by (auto simp: phis_define_def kinds_define_def)
    with st show "vid ` set (defined_values k) \<subseteq> dom e" unfolding run_state_def by blast
  qed auto
  show ?thesis
  proof (cases "exec_kinds M (block_kinds cb) (e, m)")
    case (Done s)
    obtain e1 m1 where s: "s = (e1, m1)" by (cases s)
    with safe Done have e1: "dom e \<union> kinds_define (block_kinds cb) \<subseteq> dom e1" by blast
    have "length (b_instructions cb) = length (block_kinds cb)" by (simp add: block_kinds_def)
    then have there: "defined_before f cur (length (b_instructions cb)) \<subseteq> dom e1"
      using subset_trans [OF run_state_before [OF st cur, of "length (block_kinds cb)"]] e1 by simp
    have step: "step_block M f (Running cur e m) = exec_terminator M f cur (b_terminator cb) (e1, m1)"
      using Done s cur by (simp add: step_block_def)
    consider (final) "\<exists>v m'. step_block M f (Running cur e m) = Returned v m'"
      | (trap) "\<exists>s. step_block M f (Running cur e m) = Trapped s"
      | (jump) t where "t \<in> set (block_successors (b_terminator cb))" "t \<in> set (block_ids f)"
          "step_block M f (Running cur e m) = jump f cur t e1 m1"
      using accepted_terminator [OF acc nf cur reach there, of M m1] unfolding step by blast
    then show ?thesis
    proof cases
      case (jump t)
      obtain e2 where e2: "jump f cur t e1 m1 = Running t e2 m1" "dom e2 = dom e1 \<union> phis_define f t"
        using accepted_jump [OF acc nf cur reach jump(1,2) there, of m1] by (elim exE conjE)
      have "(cur, t) \<in> cfg_edges f (block_ids f)"
        using cur jump(1,2) get_block_in_ids [of cur f] by (auto simp: cfg_edges_def)
      with st have "walk (cfg_edges f (block_ids f)) (entry_block f) (p @ [t]) t"
        by (auto simp: run_state_def intro: walk.walk_step)
      moreover have "block_defines f cur \<subseteq> dom e2" using cur e1 e2(2) by (auto simp: block_defines_def)
      moreover have "dom e \<subseteq> dom e2" "phis_define f t \<subseteq> dom e2" using e1 e2(2) by blast+
      ultimately have "run_state f (p @ [t]) t e2" by (rule run_state_extend [OF st])
      with jump(3) e2(1) show ?thesis by auto
    next
      case final
      then show ?thesis by auto
    next
      case trap
      then show ?thesis by auto
    qed
  qed (use safe cur in \<open>simp_all add: step_block_def\<close>)
qed

lemma accepted_run:
  assumes acc: "accepted f sc" and M: "effects_defined M" and nr: "list_all (\<lambda>k. \<not> reloads k) (function_kinds f)"
    and fl: "list_all float_literal_typed (function_kinds f)"
  shows "run_state f p cur e \<Longrightarrow> run_blocks M f n (Running cur e m) \<noteq> Stuck_config"
proof (induction n arbitrary: p cur e m)
  case (Suc n)
  show ?case
  proof (cases "step_block M f (Running cur e m)")
    case (Running t e' m')
    then obtain p' where "run_state f p' t e'" using accepted_step [OF acc M nr fl Suc.prems] by blast
    with Suc.IH Running show ?thesis by simp
  qed (use accepted_step [OF acc M nr fl Suc.prems] in auto)
qed simp

lemma start_state:
  assumes "accepted f sc" "\<not> list_ex is_phi (block_kinds (hd (f_blocks f)))" "length args = length (f_params f)"
  shows "\<exists>e. start_config f args m = Running (entry_block f) e m \<and> run_state f [entry_block f] (entry_block f) e"
proof -
  from assms(1) obtain b bs where f: "f_blocks f = b # bs" by (auto simp: accepted_def neq_Nil_conv)
  let ?e = "map_of (rev (zip (map p_id (f_params f)) args))"
  have "dom ?e = p_id ` set (f_params f)"
  proof -
    have "map fst (zip (map p_id (f_params f)) args) = map p_id (f_params f)" using assms(3) by simp
    then have "fst ` set (zip (map p_id (f_params f)) args) = p_id ` set (f_params f)" by (metis list.set_map)
    then show ?thesis by (simp add: dom_map_of_conv_image_fst)
  qed
  moreover have "get_block f (b_id b) = Some b" using accepted_get_block [OF assms(1)] f by simp
  then have "phis_define f (entry_block f) = {}"
    using assms(2) f by (auto simp: phis_define_def entry_block_def kinds_define_def list_ex_iff)
  ultimately have "run_state f [entry_block f] (entry_block f) ?e"
    using f by (auto simp: run_state_def entry_block_def block_ids_def intro: walk.walk_start)
  with assms(3) f show ?thesis by (auto simp: start_config_def entry_block_def)
qed

section \<open>A verified function\<close>

text \<open>A loop that counts its argument down to zero.\<close>

definition countdown :: ir_function where
  "countdown = literal_function ''countdown'' [\<lparr>p_id = 0, p_name = ''n'', p_ty = TInt\<rparr>] TInt 6
     [literal_block 0 [Const (ConstInt (Value 1) 0)] (Branch 1),
      literal_block 1 [Move (Phi (Value 2) [(Value 0, 0), (Value 4, 2)]),
        Compare (Gt (Value 3) (Value 2) (Value 1) False)] (CondBranch (Value 3) 2 3),
      literal_block 2 [Const (ConstInt (Value 5) 1), Arith (Sub (Value 4) (Value 2) (Value 5))] (Branch 1),
      literal_block 3 [] (Return (Some (Value 2)))]"

lemma countdown_ids: "block_ids countdown = [0,1,2,3]" "entry_block countdown = 0"
  by (simp_all add: countdown_def block_ids_def entry_block_def)

lemma countdown_reach: "reachable_blocks countdown [0, 1, 2, 3] 0 = [0, 1, 3, 2]"
  by (simp add: reachable_blocks_def reachable_loop_cases pushed_def countdown_def get_block_def block_successors_def)

lemma countdown_preds: "predecessor_map countdown = [(1, [2,0]), (2, [1]), (3,[1])]"
  by (simp add: predecessor_map_def countdown_def block_successors_def)

lemma countdown_doms: "case compute_dominators [0, 1, 2, 3] (predecessors countdown) [0,1,3,2] 0 of
   None \<Rightarrow> False | Some d \<Rightarrow> d 0 = Some {0} \<and> d 1 = Some {0,1} \<and> d 2 = Some {0,1,2} \<and> d 3 = Some {0,1,3}"
  by code_simp

definition single_def :: "usize option \<Rightarrow> usize \<Rightarrow> value_definition list" where
  "single_def b i = [\<lparr>d_block_id = b, d_instruction_index = i, d_is_frame_load = False\<rparr>]"

lemma countdown_defs: "collect_definitions countdown =
  \<lparr>df_map = [(0, single_def None 0), (1, single_def (Some 0) 0), (2, single_def (Some 1) 0), (3, single_def (Some 1) 1), (5, single_def (Some 2) 0), (4, single_def (Some 2) 1)],
   df_frame_loads = [], df_errors = []\<rparr>"
  by (simp add: collect_definitions_def countdown_def register_parameter_def register_definition_def Let_def single_def_def
   known_definitions_def INVALID_ID_def register_block_def register_instruction_def instruction_result_def)

lemma countdown_types: "map (collect_value_types countdown (function_signatures (literal_module [countdown]))) [0, 1, 2, 3, 4, 5] =
   [Some TInt, Some TInt, None, Some TBool, None, Some TInt]"
  by code_simp

lemma countdown_verified: "verify_module (literal_module [countdown]) = Some (Inr ())"
proof -
  obtain d where d: "compute_dominators [0, 1, 2, 3] (predecessors countdown) [0, 1, 3, 2] 0 = Some d"
    "d 0 = Some {0}" "d 1 = Some {0, 1}" "d 2 = Some {0, 1, 2}" "d 3 = Some {0, 1, 3}"
    using countdown_doms by (auto split: option.splits)
  let ?sc = "function_scope [] [''countdown''] (function_signatures (literal_module [countdown])) countdown d"
  have f: "sc_function ?sc = countdown" "sc_dominators ?sc = d" "sc_frame_loads ?sc = []"
    "sc_definitions ?sc = [(0, single_def None 0), (1, single_def (Some 0) 0), (2, single_def (Some 1) 0), (3, single_def (Some 1) 1), (5, single_def (Some 2) 0), (4, single_def (Some 2) 1)]"
    "sc_value_types ?sc = collect_value_types countdown (function_signatures (literal_module [countdown]))"
    by (simp_all add: function_scope_def countdown_defs)
  have preds: "predecessors countdown 1 = [2, 0]"
    by (simp add: predecessors_def countdown_preds)
  have "\<forall>b \<in> set (f_blocks countdown). check_block ?sc b = []"
  proof -
    have blocks: "set (f_blocks countdown) = set [literal_block 0 [Const (ConstInt (Value 1) 0)] (Branch 1),
      literal_block 1 [Move (Phi (Value 2) [(Value 0, 0), (Value 4, 2)]),
        Compare (Gt (Value 3) (Value 2) (Value 1) False)] (CondBranch (Value 3) 2 3),
      literal_block 2 [Const (ConstInt (Value 5) 1), Arith (Sub (Value 4) (Value 2) (Value 5))] (Branch 1),
      literal_block 3 [] (Return (Some (Value 2)))]" by (simp add: countdown_def)
    have len: "length (b_instructions (literal_block i ks t)) = length ks" for i ks t by (simp add: literal_block_def)
    have get: "get_block countdown 0 = Some (literal_block 0 [Const (ConstInt (Value 1) 0)] (Branch 1))"
      "get_block countdown 2 = Some (literal_block 2 [Const (ConstInt (Value 5) 1), Arith (Sub (Value 4) (Value 2) (Value 5))] (Branch 1))"
      by (simp_all add: countdown_def get_block_def)
    have "f_return_type countdown = TInt" by (simp add: countdown_def)
    with f d countdown_types get show ?thesis
      unfolding blocks
      by (simp add: check_block_def check_terminator_def check_instruction_def check_target_def len check_return_type_def
    check_value_available_def  INVALID_ID_def countdown_ids is_available_def single_def_def check_names_def check_call_def check_operand_types_def binary_operand_pair_def
    check_address_types_def instruction_unresolved_type_def instruction_operands_def check_phi_def check_incoming_def preds [simplified] check_type_rule_def is_branch_condition_like_def)
  qed
  moreover have "f_name countdown = ''countdown''" "unresolved_sites countdown = []"
    "length (f_blocks countdown) = 4" "f_blocks countdown \<noteq> []"
    by (simp_all add: countdown_def unresolved_sites_def literal_function_def new_function_def)
  ultimately show ?thesis
    using d by (simp add: verify_module_def module_names_def verify_function_def unresolved_declarations_def
        countdown_ids countdown_defs countdown_reach [simplified] literal_module_def new_module_def)
qed

section \<open>Functions of one block\<close>

lemmas verifier_simps = check_block_def check_terminator_def check_instruction_def check_target_def check_return_type_def
  check_value_available_def INVALID_ID_def is_available_def single_def_def check_names_def check_call_def check_operand_types_def
  binary_operand_pair_def check_address_types_def instruction_unresolved_type_def instruction_operands_def check_phi_def check_incoming_def
  check_type_rule_def is_branch_condition_like_def

lemmas definition_simps = collect_definitions_def register_parameter_def register_definition_def Let_def single_def_def
  known_definitions_def INVALID_ID_def register_block_def register_instruction_def instruction_result_def

lemma compatible: "value_types_compatible TInt TInt" "binary_operand_types_compatible TInt TInt"
  by code_simp+

definition lone :: "string \<Rightarrow> usize \<Rightarrow> instruction_kind list \<Rightarrow> terminator \<Rightarrow> ir_function" where
  "lone n values ks t = literal_function n [] TInt values [literal_block 0 ks t]"

lemma lone_simps [simp]:
  "f_name (lone n vs ks t) = n" "f_return_type (lone n vs ks t) = TInt" "f_params (lone n vs ks t) = []"
  "f_blocks (lone n vs ks t) = [literal_block 0 ks t]"
  by (simp_all add: lone_def literal_function_def new_function_def)

lemma lone_dominators:
  "\<exists>d. compute_dominators [0] preds [0] 0 = Some d \<and> d 0 = Some {0}"
  unfolding compute_dominators_def
  by (simp add: while_option_unfold [of _ _ "(_, True)"] while_option_unfold [of _ _ "(_, False)"] update_dominators_def initial_dominators_def)

lemma lone_verified:
  assumes f: "f = lone n vs ks t" and "block_successors (Some t) \<in> {[], [0]}"
    and defs: "collect_definitions f = \<lparr>df_map = ds, df_frame_loads = [], df_errors = []\<rparr>"
    and "unresolved_sites f = []"
    and check: "\<And>sc. sc_function sc = f \<Longrightarrow> sc_dominators sc 0 = Some {0} \<Longrightarrow> sc_frame_loads sc = [] \<Longrightarrow> sc_definitions sc = ds \<Longrightarrow>
      sc_value_types sc = collect_value_types f (function_signatures (literal_module [f])) \<Longrightarrow> check_block sc (literal_block 0 ks t) = []"
  shows "verify_module (literal_module [f]) = Some (Inr ())"
proof -
  have ids: "block_ids f = [0]" "entry_block f = 0" by (simp_all add: f block_ids_def entry_block_def)
  have reach: "reachable_blocks f [0] 0 = [0]" using assms(2)
    by (auto simp: f reachable_blocks_def reachable_loop_cases pushed_def get_block_def)
  have parts: "f_name f = n" "f_blocks f = [literal_block 0 ks t]" "f_params f = []" "f_return_type f = TInt" by (simp_all add: f)
  obtain d where d: "compute_dominators [0] (predecessors f) [0] 0 = Some d" "d 0 = Some {0}" using lone_dominators by blast
  have "check_block (function_scope [] [n] (function_signatures (literal_module [f])) f d) (literal_block 0 ks t) = []"
    by (rule check) (simp_all add: function_scope_def defs d)
  then show ?thesis using assms(4) d
    by (simp add: verify_module_def module_names_def verify_function_def unresolved_declarations_def literal_module_def new_module_def ids reach defs parts)
qed

text \<open>The entry block may begin with a phi, as long as it has a predecessor: the verifier compares the incoming blocks with the
  predecessors and does not ask how control first comes there. Such a function reads a value that is not defined.\<close>

definition spinning :: ir_function where
  "spinning = lone ''spin'' 4 [Move (Phi (Value 1) [(Value 2, 0)]), Const (ConstInt (Value 2) 5), Arith (Add (Value 3) (Value 1) (Value 2))] (Branch 0)"

lemma entry_phi_accepted:
  "verify_module (literal_module [spinning]) = Some (Inr ())" "run_function inert_machine spinning 1 [] () = Stuck_config"
proof -
  have types: "map (collect_value_types spinning (function_signatures (literal_module [spinning]))) [1, 2, 3] = [Some TInt, Some TInt, Some TInt]" by code_simp
  have preds: "predecessors spinning 0 = [0]"
    by (simp add: predecessors_def predecessor_map_def spinning_def block_successors_def)
  have get: "get_block spinning 0 = Some (literal_block 0 [Move (Phi (Value 1) [(Value 2, 0)]), Const (ConstInt (Value 2) 5),
      Arith (Add (Value 3) (Value 1) (Value 2))] (Branch 0))" by (simp add: spinning_def get_block_def)
  have parts: "block_ids spinning = [0]" "f_return_type spinning = TInt" by (simp_all add: spinning_def block_ids_def)
  have len: "length (b_instructions (literal_block i ks t)) = length ks" for i ks t by (simp add: literal_block_def)
  show "verify_module (literal_module [spinning]) = Some (Inr ())" 
    by (rule lone_verified [OF spinning_def, where ds = "[(1, single_def (Some 0) 0), (2, single_def (Some 0) 1), (3, single_def (Some 0) 2)]"])
      (simp add: block_successors_def, simp add: definition_simps spinning_def, simp add: spinning_def unresolved_sites_def lone_def literal_function_def new_function_def,
       use types preds get in \<open>simp add: verifier_simps compatible len parts\<close>)
  show "run_function inert_machine spinning 1 [] () = Stuck_config"
    by (simp add: spinning_def run_simps inert_machine_def)
qed

text \<open>A sum of two constants, before and after it is folded.\<close>

definition constant_sum :: ir_function where
  "constant_sum = lone ''five'' 3 [Const (ConstInt (Value 0) 2), Const (ConstInt (Value 1) 3), Arith (Add (Value 2) (Value 0) (Value 1))] (Return (Some (Value 2)))"

definition folded_sum :: ir_function where
  "folded_sum = lone ''five'' 3 [Const (ConstInt (Value 0) 2), Const (ConstInt (Value 1) 3), Const (ConstInt (Value 2) 5)] (Return (Some (Value 2)))"

lemma sums_verified: "verify_module (literal_module [constant_sum]) = Some (Inr ())" "verify_module (literal_module [folded_sum]) = Some (Inr ())"
proof -
  have parts: "block_ids constant_sum = [0]" "f_return_type constant_sum = TInt" "block_ids folded_sum = [0]" "f_return_type folded_sum = TInt"
    by (simp_all add: constant_sum_def folded_sum_def block_ids_def)
  have len: "length (b_instructions (literal_block i ks t)) = length ks" for i ks t by (simp add: literal_block_def)
  have types: "map (collect_value_types constant_sum (function_signatures (literal_module [constant_sum]))) [0, 1, 2] = [Some TInt, Some TInt, Some TInt]"
    "map (collect_value_types folded_sum (function_signatures (literal_module [folded_sum]))) [0, 1, 2] = [Some TInt, Some TInt, Some TInt]" by code_simp+
  show "verify_module (literal_module [constant_sum]) = Some (Inr ())"
    by (rule lone_verified [OF constant_sum_def, where ds = "[(0, single_def (Some 0) 0), (1, single_def (Some 0) 1), (2, single_def (Some 0) 2)]"],
       simp add: block_successors_def, simp add: definition_simps constant_sum_def, simp add: constant_sum_def unresolved_sites_def lone_def literal_function_def new_function_def)
      (use types in \<open>simp add: verifier_simps compatible len parts\<close>)
  show "verify_module (literal_module [folded_sum]) = Some (Inr ())"
    by (rule lone_verified [OF folded_sum_def, where ds = "[(0, single_def (Some 0) 0), (1, single_def (Some 0) 1), (2, single_def (Some 0) 2)]"],
       simp add: block_successors_def, simp add: definition_simps folded_sum_def, simp add: folded_sum_def unresolved_sites_def lone_def literal_function_def new_function_def)
      (use types in \<open>simp add: verifier_simps compatible len parts\<close>)
qed

section \<open>Accepted code runs\<close>

lemma accepted_function_runs:
  assumes "verify_module md = Some (Inr ())" and "f \<in> set (m_functions md)" and "effects_defined M"
    and "list_all (\<lambda>k. \<not> reloads k) (function_kinds f)"
    and "list_all float_literal_typed (function_kinds f)"
    and "\<not> list_ex is_phi (block_kinds (hd (f_blocks f)))"
    and "length args = length (f_params f)"
  shows "run_function M f n args m \<noteq> Stuck_config"
proof -
  obtain sc where acc: "accepted f sc" using verify_module_accepted [OF assms(1,2)] .
  obtain e where "start_config f args m = Running (entry_block f) e m" "run_state f [entry_block f] (entry_block f) e"
    using start_state [OF acc assms(6,7), of m] by (elim exE conjE)
  with accepted_run [OF acc assms(3-5)] show ?thesis by (simp add: run_function_def)
qed

text \<open>C1: The generated code of a function the verifier accepts never gets stuck: at no step does it read a value no instruction has
  defined, jump to a block that does not exist, or enter a block without a value for one of its phis. It runs on, returns or panics. This is
  for a function that reloads no coroutine frame or state (the verifier takes those on trust), whose entry block has no phi (the
  verifier accepts one that a back edge feeds, and \<open>entry_phi_accepted\<close> is such a function that does get stuck), whose typed float
  literals have float types, that is called with as many arguments as it has parameters, and on a machine where the instructions modelled
  as effects give their results.\<close>

theorem verified_function_safe:
  assumes "verify_module md = Some (Inr ())" and "f \<in> set (m_functions md)" and "effects_defined M"
    and "list_all (\<lambda>k. \<not> reloads k) (function_kinds f)"
    and "list_all float_literal_typed (function_kinds f)"
    and "\<not> list_ex is_phi (block_kinds (hd (f_blocks f)))"
    and "length args = length (f_params f)"
  shows "run_function M f n args m \<noteq> Stuck_config"
  by (rule accepted_function_runs [OF assms])

theorem verified_function_safe_witness:
  "verify_module (literal_module [countdown]) = Some (Inr ()) \<and>
   run_function inert_machine countdown 10 [MVal CI64 3] () \<noteq> Stuck_config"
proof -
  have "effects_defined inert_machine" by (simp add: effects_defined_def inert_machine_def)
  moreover have "list_all (\<lambda>k. \<not> reloads k) (function_kinds countdown)"
    "list_all float_literal_typed (function_kinds countdown)"
    "\<not> list_ex is_phi (block_kinds (hd (f_blocks countdown)))"
    by (simp_all add: countdown_def function_kinds_def)
  moreover have "length [MVal CI64 3] = length (f_params countdown)" by (simp add: countdown_def)
  ultimately show ?thesis
    using countdown_verified verified_function_safe [OF countdown_verified, of countdown inert_machine "[MVal CI64 3]" 10 "()"]
    by simp
qed

text \<open>C27: A function the verifier accepts, without frame reloads, is in static single assignment
  form with distinct block identifiers.\<close>

theorem verified_single_assignment:
  assumes "verify_module md = Some (Inr ())" and "f \<in> set (m_functions md)"
    and "list_all (\<lambda>k. \<not> is_frame_load k) (function_kinds f)"
  shows "single_assignment f \<and> distinct (block_ids f) \<and> f_blocks f \<noteq> []"
proof -
  obtain sc where "accepted f sc" using verify_module_accepted [OF assms(1,2)] .
  with accepted_single_assignment [OF this assms(3)] show ?thesis by (simp add: accepted_def)
qed

theorem verified_single_assignment_witness:
  "verify_module (literal_module [countdown]) = Some (Inr ()) \<and>
   single_assignment countdown \<and> distinct (block_ids countdown) \<and> f_blocks countdown \<noteq> []"
proof -
  have "list_all (\<lambda>k. \<not> is_frame_load k) (function_kinds countdown)" by (simp add: countdown_def function_kinds_def)
  then show ?thesis
    using countdown_verified verified_single_assignment [OF countdown_verified, of countdown] by simp
qed

text \<open>The machine class the verifier reasons with is the Cranelift type the code generator
  gives the same IR type, for every type.\<close>

lemma machine_class_mirrors_backend:
  "map_option class_type (machine_class ty) = ir_type_to_cranelift ty"
  by (rule class_type_machine_class)

text \<open>The verifier ends on every module, with its list of errors or with acceptance.\<close>

lemma verify_module_total: "\<exists>r. verify_module md = Some r \<and> r \<noteq> Inl []"
proof -
  obtain r where r: "verify_module md = Some r" using verify_module_decided by blast
  then have "r \<noteq> Inl []" by (auto simp: verify_module_def Let_def split: prod.splits if_splits)
  with r show ?thesis by blast
qed

end
