(* ===== verification/Components.thy ===== *)
theory Components
  imports Prelude
begin

text \<open>
  Strongly connected components, the iterative algorithm of
  \<open>src/midend/src/passes/validation.rs\<close> (\<open>strongly_connected_components\<close>). Vectors that are
  indexed are lists, an index out of range or an \<open>unwrap\<close> of nothing is the result \<open>None\<close>;
  the stacks have their top first. The lemmas show that on a graph whose successors are in range
  the algorithm ends without a panic and returns exactly the strongly connected components.
\<close>

section \<open>The algorithm\<close>

definition lookup :: "'a list \<Rightarrow> usize \<Rightarrow> 'a option" where
  "lookup xs i = (if i < length xs then Some (xs ! i) else None)"

record tarjan =
  t_indices :: "usize option list"
  t_lowlink :: "usize list"
  t_stack :: "usize list"
  t_on_stack :: "bool list"
  t_result :: "usize list list"
  t_next_index :: usize

text \<open>Both places that give a node its index do the same assignments.\<close>

definition discover :: "usize \<Rightarrow> tarjan \<Rightarrow> tarjan option" where
  "discover v st =
     (if v < length (t_indices st) \<and> v < length (t_lowlink st) \<and> v < length (t_on_stack st)
      then Some (st\<lparr>t_indices := (t_indices st)[v := Some (t_next_index st)],
                   t_lowlink := (t_lowlink st)[v := t_next_index st],
                   t_next_index := t_next_index st + 1,
                   t_stack := v # t_stack st,
                   t_on_stack := (t_on_stack st)[v := True]\<rparr>)
      else None)"

fun pop_component :: "usize \<Rightarrow> usize list \<Rightarrow> bool list \<Rightarrow> usize list \<Rightarrow> (usize list \<times> bool list \<times> usize list) option" where
  "pop_component node [] on_stack component = Some ([], on_stack, component)"
| "pop_component node (popped # stack) on_stack component =
     (if popped < length on_stack
      then if popped = node then Some (stack, on_stack[popped := False], component @ [popped])
           else pop_component node stack (on_stack[popped := False]) (component @ [popped])
      else None)"

definition link_successor :: "usize \<Rightarrow> usize \<Rightarrow> usize \<Rightarrow> tarjan \<Rightarrow> tarjan option" where
  "link_successor node successor k st = (case lookup (t_on_stack st) successor of
     None \<Rightarrow> None
   | Some False \<Rightarrow> Some st
   | Some True \<Rightarrow> (case lookup (t_lowlink st) node of
       None \<Rightarrow> None
     | Some l \<Rightarrow> Some (st\<lparr>t_lowlink := (t_lowlink st)[node := min l k]\<rparr>)))"

definition propagate_lowlink :: "usize \<Rightarrow> (usize \<times> usize) list \<Rightarrow> usize list \<Rightarrow> usize list option" where
  "propagate_lowlink node work low = (case work of
     [] \<Rightarrow> Some low
   | (parent, _) # _ \<Rightarrow> (case (lookup low parent, lookup low node) of
       (Some a, Some b) \<Rightarrow> Some (low[parent := min a b])
     | _ \<Rightarrow> None))"

definition finish_node :: "usize \<Rightarrow> (usize \<times> usize) list \<Rightarrow> tarjan \<Rightarrow> tarjan option" where
  "finish_node node work st = (case propagate_lowlink node work (t_lowlink st) of
     None \<Rightarrow> None
   | Some low \<Rightarrow> (case (lookup low node, lookup (t_indices st) node) of
       (Some l, Some (Some k)) \<Rightarrow>
         if l = k
         then (case pop_component node (t_stack st) (t_on_stack st) [] of
             None \<Rightarrow> None
           | Some (stack, on_stack, component) \<Rightarrow>
               Some (st\<lparr>t_lowlink := low, t_stack := stack, t_on_stack := on_stack,
                       t_result := t_result st @ [component]\<rparr>))
         else Some (st\<lparr>t_lowlink := low\<rparr>)
     | _ \<Rightarrow> None))"

text \<open>One turn of the \<open>while\<close> loop, on a work stack with top \<open>(node, i)\<close>.\<close>

definition tarjan_step ::
    "usize list list \<Rightarrow> usize \<Rightarrow> usize \<Rightarrow> (usize \<times> usize) list \<Rightarrow> tarjan \<Rightarrow> ((usize \<times> usize) list \<times> tarjan) option" where
  "tarjan_step succs node i work st = (case lookup succs node of
     None \<Rightarrow> None
   | Some ss \<Rightarrow>
       if i < length ss
       then (let successor = ss ! i; work = (node, i + 1) # work
             in case lookup (t_indices st) successor of
               None \<Rightarrow> None
             | Some None \<Rightarrow> map_option (Pair ((successor, 0) # work)) (discover successor st)
             | Some (Some k) \<Rightarrow> map_option (Pair work) (link_successor node successor k st))
       else map_option (Pair work) (finish_node node work st))"

definition undiscovered :: "tarjan \<Rightarrow> nat" where
  "undiscovered st = length (filter (\<lambda>x. x = None) (t_indices st))"

definition pending :: "usize list list \<Rightarrow> (usize \<times> usize) list \<Rightarrow> nat" where
  "pending succs work = sum_list (map (\<lambda>(v, i). Suc (length (succs ! v) - i)) work)"

lemma filter_None_update:
  "i < length xs \<Longrightarrow> xs ! i = None \<Longrightarrow>
   length (filter (\<lambda>x. x = None) (xs[i := Some k])) < length (filter (\<lambda>x. x = None) xs)"
proof (induction xs arbitrary: i)
  case (Cons x xs)
  then show ?case by (cases i) auto
qed simp

lemma tarjan_step_shrinks:
  assumes "tarjan_step succs node i work st = Some (work', st')"
  shows "undiscovered st' < undiscovered st \<or>
    (undiscovered st' = undiscovered st \<and> pending succs work' < pending succs ((node, i) # work))"
  using assms
  by (auto simp: filter_None_update tarjan_step_def lookup_def Let_def discover_def link_successor_def finish_node_def
      undiscovered_def pending_def split: if_splits option.splits prod.splits bool.splits)

function tarjan_loop :: "usize list list \<Rightarrow> (usize \<times> usize) list \<Rightarrow> tarjan \<Rightarrow> tarjan option" where
  "tarjan_loop succs [] st = Some st"
| "tarjan_loop succs ((node, i) # work) st = (case tarjan_step succs node i work st of
     None \<Rightarrow> None | Some (work', st') \<Rightarrow> tarjan_loop succs work' st')"
  by pat_completeness auto
termination
  by (relation "measures [\<lambda>(succs, work, st). undiscovered st, \<lambda>(succs, work, st). pending succs work]")
    (auto dest: tarjan_step_shrinks)

fun tarjan_roots :: "usize list list \<Rightarrow> usize list \<Rightarrow> tarjan \<Rightarrow> tarjan option" where
  "tarjan_roots succs [] st = Some st"
| "tarjan_roots succs (root # roots) st = (case lookup (t_indices st) root of
     None \<Rightarrow> None
   | Some (Some _) \<Rightarrow> tarjan_roots succs roots st
   | Some None \<Rightarrow> (case discover root st of
       None \<Rightarrow> None
     | Some st \<Rightarrow> (case tarjan_loop succs [(root, 0)] st of
         None \<Rightarrow> None
       | Some st \<Rightarrow> tarjan_roots succs roots st)))"

definition strongly_connected_components :: "usize list list \<Rightarrow> usize list list option" where
  "strongly_connected_components succs =
     (let node_count = length succs
      in map_option t_result (tarjan_roots succs [0..<node_count]
        \<lparr>t_indices = replicate node_count None, t_lowlink = replicate node_count 0, t_stack = [],
         t_on_stack = replicate node_count False, t_result = [], t_next_index = 0\<rparr>))"

section \<open>The depth-first search and its invariant\<close>

text \<open>
  The contract of the input: successors are in range. The invariant is stated on the indices and
  low links as functions; \<open>S\<close> is the stack, \<open>W\<close> the work stack, \<open>D\<close> the nodes of the
  components found. A node with a frame on the work stack is open.
\<close>

locale successor_graph =
  fixes succs :: "usize list list"
  assumes in_range: "u < length succs \<Longrightarrow> v \<in> set (succs ! u) \<Longrightarrow> v < length succs"
begin

definition edges :: "(usize \<times> usize) set" where
  "edges = {(u, v). u < length succs \<and> v \<in> set (succs ! u)}"

definition component_of :: "usize \<Rightarrow> usize set" where
  "component_of v = {w. (v, w) \<in> edges\<^sup>* \<and> (w, v) \<in> edges\<^sup>*}"

definition num :: "(usize \<Rightarrow> usize option) \<Rightarrow> usize \<Rightarrow> usize" where
  "num idx v = the (idx v)"

definition opened :: "(usize \<times> usize) list \<Rightarrow> usize set" where
  "opened W = fst ` set W"

text \<open>The successors of a node the search has looked at.\<close>

definition seen :: "(usize \<times> usize) list \<Rightarrow> usize \<Rightarrow> usize set" where
  "seen W x = {w. (x \<notin> opened W \<and> (x, w) \<in> edges) \<or> (\<exists>i j. (x, i) \<in> set W \<and> j < i \<and> w = succs ! x ! j)}"

definition search ::
    "(usize \<Rightarrow> usize option) \<Rightarrow> (usize \<Rightarrow> usize) \<Rightarrow> usize list \<Rightarrow> (usize \<times> usize) list \<Rightarrow> usize set \<Rightarrow> usize \<Rightarrow> bool" where
  "search idx low S W D nxt \<longleftrightarrow>
     (\<forall>v k. idx v = Some k \<longrightarrow> v < length succs \<and> k < nxt) \<and>
     inj_on idx (dom idx) \<and>
     dom idx = set S \<union> D \<and> set S \<inter> D = {} \<and>
     sorted_wrt (\<lambda>a b. num idx b < num idx a) S \<and>
     sorted_wrt (\<lambda>a b. num idx b < num idx a) (map fst W) \<and> opened W \<subseteq> set S \<and>
     edges `` D \<subseteq> D \<and>
     (\<forall>x \<in> set S. seen W x \<subseteq> dom idx) \<and>
     (\<forall>(v, i) \<in> set W. i \<le> length (succs ! v)) \<and>
     (\<forall>x \<in> set S. \<exists>p \<in> opened W. num idx p \<le> num idx x \<and> (x, p) \<in> edges\<^sup>*) \<and>
     (\<forall>p \<in> opened W. \<forall>x \<in> set S. num idx p \<le> num idx x \<longrightarrow> (p, x) \<in> edges\<^sup>*) \<and>
     (\<forall>p \<in> opened W. low p \<le> num idx p \<and> (\<exists>w \<in> set S. num idx w = low p \<and> (p, w) \<in> edges\<^sup>*)) \<and>
     (\<forall>p \<in> opened W. \<forall>x \<in> set S. num idx p \<le> num idx x \<longrightarrow>
        (\<forall>q \<in> opened W. num idx p < num idx q \<longrightarrow> num idx x < num idx q) \<longrightarrow>
        (\<forall>w \<in> seen W x \<inter> set S. low p \<le> num idx w))"

lemma searchD:
  assumes "search idx low S W D nxt"
  shows numbered: "\<And>v k. idx v = Some k \<Longrightarrow> v < length succs \<and> k < nxt"
    and inj: "inj_on idx (dom idx)" and parts: "dom idx = set S \<union> D" "set S \<inter> D = {}"
    and sorted_stack: "sorted_wrt (\<lambda>a b. num idx b < num idx a) S"
    and sorted_work: "sorted_wrt (\<lambda>a b. num idx b < num idx a) (map fst W)"
    and open_stack: "opened W \<subseteq> set S" and closed: "edges `` D \<subseteq> D"
    and seen_dom: "\<And>x. x \<in> set S \<Longrightarrow> seen W x \<subseteq> dom idx"
    and cursor: "\<And>v i. (v, i) \<in> set W \<Longrightarrow> i \<le> length (succs ! v)"
    and to_open: "\<And>x. x \<in> set S \<Longrightarrow> \<exists>p \<in> opened W. num idx p \<le> num idx x \<and> (x, p) \<in> edges\<^sup>*"
    and from_open: "\<And>p x. p \<in> opened W \<Longrightarrow> x \<in> set S \<Longrightarrow> num idx p \<le> num idx x \<Longrightarrow> (p, x) \<in> edges\<^sup>*"
    and low_le: "\<And>p. p \<in> opened W \<Longrightarrow> low p \<le> num idx p"
    and low_reached: "\<And>p. p \<in> opened W \<Longrightarrow> \<exists>w \<in> set S. num idx w = low p \<and> (p, w) \<in> edges\<^sup>*"
    and low_bound: "\<And>p x w. p \<in> opened W \<Longrightarrow> x \<in> set S \<Longrightarrow> num idx p \<le> num idx x \<Longrightarrow>
        (\<And>q. q \<in> opened W \<Longrightarrow> num idx p < num idx q \<Longrightarrow> num idx x < num idx q) \<Longrightarrow>
        w \<in> seen W x \<Longrightarrow> w \<in> set S \<Longrightarrow> low p \<le> num idx w"
  using assms unfolding search_def by (blast+)

lemma searchI:
  assumes "\<And>v k. idx v = Some k \<Longrightarrow> v < length succs \<and> k < nxt"
    and "inj_on idx (dom idx)" and "dom idx = set S \<union> D" "set S \<inter> D = {}"
    and "sorted_wrt (\<lambda>a b. num idx b < num idx a) S"
    and "sorted_wrt (\<lambda>a b. num idx b < num idx a) (map fst W)"
    and "opened W \<subseteq> set S" and "edges `` D \<subseteq> D"
    and "\<And>x. x \<in> set S \<Longrightarrow> seen W x \<subseteq> dom idx"
    and "\<And>v i. (v, i) \<in> set W \<Longrightarrow> i \<le> length (succs ! v)"
    and "\<And>x. x \<in> set S \<Longrightarrow> \<exists>p \<in> opened W. num idx p \<le> num idx x \<and> (x, p) \<in> edges\<^sup>*"
    and "\<And>p x. p \<in> opened W \<Longrightarrow> x \<in> set S \<Longrightarrow> num idx p \<le> num idx x \<Longrightarrow> (p, x) \<in> edges\<^sup>*"
    and "\<And>p. p \<in> opened W \<Longrightarrow> low p \<le> num idx p"
    and "\<And>p. p \<in> opened W \<Longrightarrow> \<exists>w \<in> set S. num idx w = low p \<and> (p, w) \<in> edges\<^sup>*"
    and "\<And>p x w. p \<in> opened W \<Longrightarrow> x \<in> set S \<Longrightarrow> num idx p \<le> num idx x \<Longrightarrow>
        (\<And>q. q \<in> opened W \<Longrightarrow> num idx p < num idx q \<Longrightarrow> num idx x < num idx q) \<Longrightarrow>
        w \<in> seen W x \<Longrightarrow> w \<in> set S \<Longrightarrow> low p \<le> num idx w"
  shows "search idx low S W D nxt"
proof (unfold search_def, intro conjI)
  show "\<forall>v k. idx v = Some k \<longrightarrow> v < length succs \<and> k < nxt" using assms(1) by blast
  show "\<forall>x \<in> set S. seen W x \<subseteq> dom idx" using assms(9) by blast
  show "\<forall>(v, i) \<in> set W. i \<le> length (succs ! v)" using assms(10) by blast
  show "\<forall>x \<in> set S. \<exists>p \<in> opened W. num idx p \<le> num idx x \<and> (x, p) \<in> edges\<^sup>*" using assms(11) by blast
  show "\<forall>p \<in> opened W. \<forall>x \<in> set S. num idx p \<le> num idx x \<longrightarrow> (p, x) \<in> edges\<^sup>*" using assms(12) by blast
  show "\<forall>p \<in> opened W. low p \<le> num idx p \<and> (\<exists>w \<in> set S. num idx w = low p \<and> (p, w) \<in> edges\<^sup>*)"
    using assms(13,14) by blast
  show "\<forall>p \<in> opened W. \<forall>x \<in> set S. num idx p \<le> num idx x \<longrightarrow>
      (\<forall>q \<in> opened W. num idx p < num idx q \<longrightarrow> num idx x < num idx q) \<longrightarrow>
      (\<forall>w \<in> seen W x \<inter> set S. low p \<le> num idx w)"
    using assms(15) by blast
qed (rule assms)+

lemma num_inj: "search idx low S W D nxt \<Longrightarrow> x \<in> set S \<Longrightarrow> y \<in> set S \<Longrightarrow> num idx x = num idx y \<Longrightarrow> x = y"
  using inj [of idx low S W D nxt] parts(1) [of idx low S W D nxt]
  by (metis UnI1 domIff inj_onD num_def option.expand)

lemma stack_numbered:
  assumes "search idx low S W D nxt" "x \<in> set S"
  shows "idx x = Some (num idx x)" and "x < length succs" and "num idx x < nxt"
proof -
  from assms parts(1) obtain k where k: "idx x = Some k" by blast
  with numbered [OF assms(1)] show "idx x = Some (num idx x)" "x < length succs" "num idx x < nxt"
    by (auto simp: num_def)
qed

lemma last_open:
  assumes "search idx low S ((v, i) # W) D nxt"
  shows "v \<in> set S" and "v \<notin> opened W" and "\<And>p. p \<in> opened W \<Longrightarrow> num idx p < num idx v"
    and "\<And>p. p \<in> opened ((v, i) # W) \<Longrightarrow> num idx p \<le> num idx v"
proof -
  show v: "v \<in> set S" using open_stack [OF assms] by (auto simp: opened_def)
  show less: "num idx p < num idx v" if "p \<in> opened W" for p
    using sorted_work [OF assms] that by (auto simp: opened_def)
  show "v \<notin> opened W" using less by blast
  show "num idx p \<le> num idx v" if "p \<in> opened ((v, i) # W)" for p
    using less [of p] that by (cases "p = v") (simp_all add: opened_def less_imp_le)
qed

lemma seen_step:
  assumes "v \<notin> opened W"
  shows "seen ((v, Suc i) # W) x = (if x = v then insert (succs ! v ! i) (seen ((v, i) # W) v) else seen ((v, i) # W) x)"
  using assms by (force simp: seen_def opened_def less_Suc_eq)

lemma seen_new:
  assumes "w \<notin> opened W"
  shows "seen ((w, 0) # W) x = (if x = w then {} else seen W x)"
  using assms by (auto simp: seen_def opened_def image_iff)

lemma seen_closed: "v \<notin> opened W \<Longrightarrow> i = length (succs ! v) \<Longrightarrow> v < length succs \<Longrightarrow> seen ((v, i) # W) = seen W"
  by (rule ext) (auto simp: seen_def opened_def image_iff edges_def in_set_conv_nth)

lemma opened_Cons [simp]: "opened ((v, i) # W) = insert v (opened W)"
  by (simp add: opened_def)

text \<open>The cursor of the last frame moves on.\<close>

lemma search_cursor:
  assumes s: "search idx low S ((v, i) # W) D nxt" and i: "i < length (succs ! v)" "succs ! v ! i \<in> dom idx"
    and low: "\<And>p. p \<in> opened ((v, i) # W) \<Longrightarrow> low' p \<le> low p"
    and reached: "\<And>p. p \<in> opened ((v, i) # W) \<Longrightarrow> \<exists>w \<in> set S. num idx w = low' p \<and> (p, w) \<in> edges\<^sup>*"
    and edge: "succs ! v ! i \<in> set S \<Longrightarrow> low' v \<le> num idx (succs ! v ! i)"
  shows "search idx low' S ((v, Suc i) # W) D nxt"
proof -
  note v = last_open [OF s] and keep = searchD [OF s]
  have op: "opened ((v, Suc i) # W) = opened ((v, i) # W)" by simp
  show ?thesis
  proof (rule searchI, unfold op, goal_cases)
    case (6)
    show ?case using keep(6) by simp
  next
    case (9 x)
    then show ?case using keep(9) [OF 9] keep(9) [OF v(1)] i(2) by (auto simp: seen_step [OF v(2)])
  next
    case (10 u j)
    then show ?case using keep(10) [of u j] i(1) by auto
  next
    case (13 p)
    then show ?case using low [OF 13] keep(13) [OF 13] by simp
  next
    case (15 p x w)
    show ?case
    proof (cases "w \<in> seen ((v, i) # W) x")
      case True
      then have "low p \<le> num idx w" using keep(15) [OF 15(1-3)] 15(4,6) by blast
      with low [OF 15(1)] show ?thesis by simp
    next
      case False
      with 15(5) have x: "x = v" "w = succs ! v ! i" by (auto simp: seen_step [OF v(2)] split: if_splits)
      have "p = v"
      proof (rule ccontr)
        assume "p \<noteq> v"
        with 15(1) v(3) have "num idx p < num idx v" by simp
        with 15(4) [of v] x(1) show False by simp
      qed
      with x edge 15(6) show ?thesis by simp
    qed
  qed (use keep reached in \<open>simp_all\<close>)
qed

lemma search_skip:
  assumes s: "search idx low S ((v, i) # W) D nxt" and i: "i < length (succs ! v)" "succs ! v ! i \<in> D"
  shows "search idx low S ((v, Suc i) # W) D nxt"
proof (rule search_cursor [OF s i(1)])
  show "succs ! v ! i \<in> dom idx" using i(2) parts(1) [OF s] by blast
  show "low v \<le> num idx (succs ! v ! i)" if "succs ! v ! i \<in> set S" using that i(2) parts(2) [OF s] by blast
qed (use low_reached [OF s] in simp_all)

lemma search_link:
  assumes s: "search idx low S ((v, i) # W) D nxt" and i: "i < length (succs ! v)" "succs ! v ! i \<in> set S"
  shows "search idx (low(v := min (low v) (num idx (succs ! v ! i)))) S ((v, Suc i) # W) D nxt"
proof (rule search_cursor [OF s i(1)])
  let ?w = "succs ! v ! i"
  note v = last_open [OF s]
  have vw: "(v, ?w) \<in> edges" using i(1) stack_numbered(2) [OF s v(1)] by (simp add: edges_def)
  show "?w \<in> dom idx" using i(2) parts(1) [OF s] by blast
  show "\<exists>w \<in> set S. num idx w = (low(v := min (low v) (num idx ?w))) p \<and> (p, w) \<in> edges\<^sup>*"
    if "p \<in> opened ((v, i) # W)" for p
  proof (cases "p = v \<and> num idx ?w < low v")
    case True
    then show ?thesis using i(2) vw by (intro bexI [of _ ?w]) auto
  next
    case False
    then show ?thesis using low_reached [OF s that] by (auto simp: min_def)
  qed
qed auto

lemma search_visit:
  assumes s: "search idx low S ((v, i) # W) D nxt" and i: "i < length (succs ! v)" "idx (succs ! v ! i) = None"
  shows "search (idx(succs ! v ! i \<mapsto> nxt)) (low(succs ! v ! i := nxt)) (succs ! v ! i # S)
    ((succs ! v ! i, 0) # (v, Suc i) # W) D (Suc nxt)"
proof -
  define w where "w = succs ! v ! i"
  let ?idx = "idx(w \<mapsto> nxt)" and ?W = "(w, 0) # (v, Suc i) # W"
  note v = last_open [OF s] and keep = searchD [OF s]
  have w: "w \<notin> set S" "w \<notin> D" "w \<noteq> v" "w \<notin> opened ((v, Suc i) # W)"
    using i(2) parts(1) [OF s] v(1) keep(7) by (auto simp: w_def [symmetric])
  have num: "num ?idx x = (if x = w then nxt else num idx x)" for x by (simp add: num_def)
  have nxt: "num idx x < nxt" if "x \<in> set S" for x using stack_numbered(3) [OF s that] .
  have wn: "w < length succs" "(v, w) \<in> edges"
    using in_range stack_numbered(2) [OF s v(1)] i(1) by (auto simp: w_def edges_def)
  have seen: "seen ?W x = (if x = w then {} else if x = v then insert w (seen ((v, i) # W) v) else seen ((v, i) # W) x)" for x
    unfolding seen_new [OF w(4)] seen_step [OF v(2)] by (simp add: w_def)
  have op: "opened ?W = insert w (opened ((v, i) # W))" by simp
  have opS: "p \<in> set S" if "p \<in> opened ((v, i) # W)" for p using keep(7) that by blast
  have "search ?idx (low(w := nxt)) (w # S) ?W D (Suc nxt)"
  proof (rule searchI, unfold op, goal_cases)
    case (1 u k)
    then show ?case using keep(1) [of u k] wn by (auto split: if_splits)
  next
    case 2
    have "nxt \<notin> ran idx" using keep(1) by (auto simp: ran_def)
    then show ?case using keep(2) by (auto simp: inj_on_def dom_def ran_def)
  next
    case 3
    show ?case using keep(3) by auto
  next
    case 4
    show ?case using keep(4) w by auto
  next
    case 5
    have "sorted_wrt (\<lambda>a b. num ?idx b < num ?idx a) S"
      by (rule sorted_wrt_mono_rel [OF _ keep(5)]) (use w(1) in \<open>auto simp: num\<close>)
    then show ?case using nxt w(1) by (auto simp: num)
  next
    case 6
    have "sorted_wrt (\<lambda>a b. num ?idx b < num ?idx a) (map fst ((v, i) # W))"
      by (rule sorted_wrt_mono_rel [OF _ keep(6)]) (use w(4) in \<open>auto simp: num opened_def\<close>)
    then show ?case using nxt opS w by (auto simp: num opened_def)
  next
    case 7
    show ?case using keep(7) by auto
  next
    case 8
    show ?case by (rule keep(8))
  next
    case (9 x)
    show ?case using 9 keep(9) [of x] keep(9) [OF v(1)] by (auto simp: seen)
  next
    case (10 u j)
    then show ?case using keep(10) [of u j] i(1) by auto
  next
    case (11 x)
    then show ?case using keep(11) [of x] nxt opS w by (cases "x = w") (auto simp: num)
  next
    case (12 p x)
    show ?case
    proof (cases "x = w")
      case True
      show ?thesis
      proof (cases "p = w")
        case False
        with 12(1) have "(p, v) \<in> edges\<^sup>*" using keep(12) [of p v] v(1,4) by simp
        with wn True show ?thesis by (auto intro: rtrancl_into_rtrancl)
      qed (simp add: True)
    next
      case False
      with 12(2,3) nxt [of x] have "p \<noteq> w" by (auto simp: num)
      with 12 False keep(12) [of p x] show ?thesis by (simp add: num)
    qed
  next
    case (13 p)
    then show ?case using keep(13) [of p] by (auto simp: num)
  next
    case (14 p)
    then show ?case using keep(14) [of p] w nxt by (cases "p = w") (auto simp: num)
  next
    case (15 p x u)
    have "x \<noteq> w" using 15(5) by (auto simp: seen)
    with 15(2) have x: "x \<in> set S" by simp
    have "p \<noteq> w" using 15(3) nxt [OF x] \<open>x \<noteq> w\<close> by (auto simp: num)
    with 15(1) have p: "p \<in> opened ((v, i) # W)" by simp
    show ?case
    proof (cases "u = w")
      case True
      have "low p < nxt" using keep(13) [OF p] nxt [OF opS [OF p]] by simp
      with True \<open>p \<noteq> w\<close> show ?thesis by (simp add: num)
    next
      case False
      have "low p \<le> num idx u"
      proof (rule keep(15) [OF p x])
        show "num idx p \<le> num idx x" using 15(3) \<open>p \<noteq> w\<close> \<open>x \<noteq> w\<close> by (simp add: num)
        show "num idx x < num idx q" if q: "q \<in> opened ((v, i) # W)" "num idx p < num idx q" for q
        proof -
          have "q \<noteq> w" using opS [OF q(1)] w(1) by blast
          then show ?thesis using 15(4) [of q] q \<open>p \<noteq> w\<close> \<open>x \<noteq> w\<close> by (simp add: num)
        qed
        show "u \<in> seen ((v, i) # W) x" using 15(5) False \<open>x \<noteq> w\<close> by (auto simp: seen split: if_splits)
        show "u \<in> set S" using 15(6) False by simp
      qed
      with False \<open>p \<noteq> w\<close> show ?thesis by (simp add: num)
    qed
  qed
  then show ?thesis by (simp add: w_def)
qed

definition pass_low :: "usize \<Rightarrow> (usize \<times> usize) list \<Rightarrow> (usize \<Rightarrow> usize) \<Rightarrow> usize \<Rightarrow> usize" where
  "pass_low v W low = (case W of [] \<Rightarrow> low | (p, _) # _ \<Rightarrow> low(p := min (low p) (low v)))"

lemma pass_low_le: "pass_low v W low p \<le> low p"
  by (simp add: pass_low_def split: list.splits)

lemma finished_frame:
  assumes s: "search idx low S ((v, i) # W) D nxt" and i: "\<not> i < length (succs ! v)"
  shows "seen ((v, i) # W) = seen W"
proof -
  have "i = length (succs ! v)" using cursor [OF s, of v i] i by simp
  then show ?thesis using seen_closed last_open(1,2) [OF s] stack_numbered(2) [OF s] by blast
qed

text \<open>A node whose low link is lower stays on the stack; its parent takes over what it reaches.\<close>

lemma search_keep:
  assumes s: "search idx low S ((v, i) # W) D nxt" and i: "\<not> i < length (succs ! v)" and low: "low v \<noteq> num idx v"
  shows "search idx (pass_low v W low) S W D nxt"
proof -
  note v = last_open [OF s] and keep = searchD [OF s] and fin = finished_frame [OF s i]
  have vo: "v \<in> opened ((v, i) # W)" by simp
  from keep(14) [OF vo] obtain t where t: "t \<in> set S" "num idx t = low v" "(v, t) \<in> edges\<^sup>*" by blast
  have tv: "num idx t < num idx v" using keep(13) [OF vo] low t(2) by simp
  show ?thesis
  proof (rule searchI, goal_cases)
    case 6
    show ?case using keep(6) by simp
  next
    case 7
    show ?case using keep(7) by simp
  next
    case (9 x)
    then show ?case using keep(9) fin by simp
  next
    case (10 u j)
    then show ?case using keep(10) by simp
  next
    case (11 x)
    from keep(11) [OF 11] obtain p where p: "p \<in> opened ((v, i) # W)" "num idx p \<le> num idx x" "(x, p) \<in> edges\<^sup>*" by blast
    show ?case
    proof (cases "p = v")
      case True
      from keep(11) [OF t(1)] obtain q where q: "q \<in> opened ((v, i) # W)" "num idx q \<le> num idx t" "(t, q) \<in> edges\<^sup>*" by blast
      have "(x, q) \<in> edges\<^sup>*" using p(3) t(3) q(3) True by (meson rtrancl_trans)
      moreover have "q \<noteq> v" using q(2) tv by auto
      ultimately show ?thesis using q tv p(2) True by (intro bexI [of _ q]) auto
    qed (use p in auto)
  next
    case (12 p x)
    then show ?case using keep(12) [of p x] by simp
  next
    case (13 p)
    then show ?case using keep(13) [of p] pass_low_le [of v W low p] by simp
  next
    case (14 p)
    then have p: "p \<in> opened ((v, i) # W)" by simp
    show ?case
    proof (cases "pass_low v W low p = low p")
      case True
      with keep(14) [OF p] show ?thesis by simp
    next
      case False
      then have "pass_low v W low p = low v" by (auto simp: pass_low_def min_def split: list.splits if_splits)
      moreover have "(p, v) \<in> edges\<^sup>*" using keep(12) [OF p v(1)] v(4) [OF p] .
      ultimately show ?thesis using t by (intro bexI [of _ t]) auto
    qed
  next
    case (15 p x w)
    then have p: "p \<in> opened ((v, i) # W)" and w: "w \<in> seen ((v, i) # W) x" by (simp_all add: fin)
    show ?case
    proof (cases "num idx x < num idx v")
      case True
      then have "low p \<le> num idx w" using keep(15) [OF p 15(2,3) _ w 15(6)] 15(4) by auto
      with pass_low_le [of v W low p] show ?thesis by simp
    next
      case False
      have "low v \<le> num idx w"
        using keep(15) [OF vo 15(2) _ _ w 15(6)] False v(4) by (metis leD linorder_not_less)
      moreover obtain p0 j W' where W: "W = (p0, j) # W'" using 15(1) by (cases W) (auto simp: opened_def)
      have "p = p0"
      proof (rule ccontr)
        assume "p \<noteq> p0"
        with 15(1) keep(6) have "num idx p < num idx p0" by (auto simp: W opened_def)
        with 15(4) [of p0] v(3) [of p0] False show False by (simp add: W)
      qed
      then have "pass_low v W low p \<le> low v" by (simp add: pass_low_def W)
      ultimately show ?thesis by simp
    qed
  qed (use keep in simp_all)
qed

text \<open>A node whose low link is its own index closes a component: the part of the stack from it
  upwards.\<close>

lemma closed_reach: "(x, y) \<in> R\<^sup>* \<Longrightarrow> x \<in> N \<Longrightarrow> R `` N \<subseteq> N \<Longrightarrow> y \<in> N"
  by (induction rule: rtrancl_induct) auto

lemma root_closed:
  assumes s: "search idx low S ((v, i) # W) D nxt" and i: "\<not> i < length (succs ! v)" and low: "low v = num idx v"
  shows "edges `` ({x \<in> set S. num idx v \<le> num idx x} \<union> D) \<subseteq> {x \<in> set S. num idx v \<le> num idx x} \<union> D"
proof -
  note v = last_open [OF s] and keep = searchD [OF s] and fin = finished_frame [OF s i]
  have vo: "v \<in> opened ((v, i) # W)" by simp
  have "u \<in> {x \<in> set S. num idx v \<le> num idx x} \<union> D" if x: "x \<in> set S" "num idx v \<le> num idx x" and u: "(x, u) \<in> edges" for x u
  proof -
    have "x \<notin> opened W" using x(2) v(3) [of x] by auto
    with u have seen: "u \<in> seen ((v, i) # W) x" by (simp add: fin) (simp add: seen_def)
    then have "u \<in> set S \<union> D" using keep(3,9) x(1) by blast
    moreover have "num idx v \<le> num idx u" if "u \<in> set S"
      using keep(15) [OF vo x _ seen that] v(4) low by (metis leD)
    ultimately show ?thesis by blast
  qed
  with keep(8) show ?thesis by blast
qed

lemma root_component:
  assumes s: "search idx low S ((v, i) # W) D nxt" and i: "\<not> i < length (succs ! v)" and low: "low v = num idx v"
  shows "{x \<in> set S. num idx v \<le> num idx x} = component_of v"
proof -
  note v = last_open [OF s] and keep = searchD [OF s] and cl = root_closed [OF s i low]
  have vo: "v \<in> opened ((v, i) # W)" by simp
  have "x \<in> component_of v" if x: "x \<in> set S" "num idx v \<le> num idx x" for x
  proof -
    from keep(11) [OF x(1)] obtain p where p: "p \<in> opened ((v, i) # W)" "(x, p) \<in> edges\<^sup>*" by blast
    have pS: "p \<in> set S" using keep(7) p(1) by blast
    with closed_reach [OF p(2) _ cl] x keep(4) have "num idx v \<le> num idx p" by blast
    with p(1) v(3) have "p = v" by (metis insertE leD opened_Cons)
    with p(2) keep(12) [OF vo x] show ?thesis by (simp add: component_of_def)
  qed
  moreover have "x \<in> set S \<and> num idx v \<le> num idx x" if x: "x \<in> component_of v" for x
  proof -
    have "x \<in> {x \<in> set S. num idx v \<le> num idx x} \<union> D"
      using closed_reach [OF _ _ cl, of v x] x v(1) by (auto simp: component_of_def)
    moreover have "x \<notin> D"
      using closed_reach [of x v edges D] keep(4,8) x v(1) by (auto simp: component_of_def)
    ultimately show ?thesis by blast
  qed
  ultimately show ?thesis by blast
qed

lemma search_pop:
  assumes s: "search idx low S ((v, i) # W) D nxt" and i: "\<not> i < length (succs ! v)" and low: "low v = num idx v"
    and S: "S = C @ v # S'"
  shows "search idx (pass_low v W low) S' W (D \<union> set (C @ [v])) nxt \<and> set (C @ [v]) = component_of v"
proof -
  note v = last_open [OF s] and keep = searchD [OF s] and fin = finished_frame [OF s i]
  have vo: "v \<in> opened ((v, i) # W)" by simp
  have C: "set (C @ [v]) = {x \<in> set S. num idx v \<le> num idx x}" and S': "set S' = {x \<in> set S. num idx x < num idx v}"
    using keep(5) by (auto simp: S sorted_wrt_append)
  have same: "pass_low v W low p = low p" if "p \<in> opened W" for p
    using keep(13) [of p] v(3) [OF that] that low by (auto simp: pass_low_def split: list.splits)
  have "search idx (pass_low v W low) S' W (D \<union> set (C @ [v])) nxt"
  proof (rule searchI, goal_cases)
    case 3
    show ?case using keep(3) by (auto simp: S)
  next
    case 4
    show ?case unfolding C S' using keep(4) by force
  next
    case 5
    show ?case using keep(5) by (simp add: S sorted_wrt_append)
  next
    case 6
    show ?case using keep(6) by simp
  next
    case 7
    show ?case using keep(7) v(3) S' by auto
  next
    case 8
    show ?case using root_closed [OF s i low] unfolding C by (simp add: Un_commute)
  next
    case (9 x)
    then show ?case using keep(9) fin S' by auto
  next
    case (10 u j)
    then show ?case using keep(10) by simp
  next
    case (11 x)
    with S' keep(11) [of x] show ?case by fastforce
  next
    case (12 p x)
    then show ?case using keep(12) [of p x] S' by simp
  next
    case (13 p)
    then show ?case using keep(13) [of p] same by simp
  next
    case (14 p)
    then show ?case using keep(14) [of p] keep(13) [of p] v(3) [of p] same S' by fastforce
  next
    case (15 p x w)
    then have "low p \<le> num idx w" using keep(15) [of p x w] S' fin by auto
    with same 15(1) show ?case by simp
  qed (use keep in simp_all)
  with C root_component [OF s i low] show ?thesis by simp
qed

lemma search_root:
  assumes s: "search idx low [] [] D nxt" and r: "idx r = None" "r < length succs"
  shows "search (idx(r \<mapsto> nxt)) (low(r := nxt)) [r] [(r, 0)] D (Suc nxt)"
proof -
  note keep = searchD [OF s]
  show ?thesis
  proof (rule searchI, goal_cases)
    case (1 u k)
    then show ?case using keep(1) [of u k] r by (auto split: if_splits)
  next
    case 2
    have "nxt \<notin> ran idx" using keep(1) by (auto simp: ran_def)
    then show ?case using keep(2) by (auto simp: inj_on_def dom_def ran_def)
  next
    case 4
    show ?case using keep(3) r by auto
  qed (use keep(3,8) in \<open>auto simp: num_def opened_def seen_def\<close>)
qed

lemma search_start: "search (\<lambda>_. None) low [] [] {} 0"
  by (rule searchI) (auto simp: opened_def)

lemma search_empty: "search idx low S [] D nxt \<Longrightarrow> S = []"
  using to_open [of idx low S "[]" D nxt] by (cases S) (auto simp: opened_def)

text \<open>The vectors of the algorithm hold such a search.\<close>

definition index_of :: "tarjan \<Rightarrow> usize \<Rightarrow> usize option" where
  "index_of st v = (if v < length succs then t_indices st ! v else None)"

definition valid :: "tarjan \<Rightarrow> (usize \<times> usize) list \<Rightarrow> bool" where
  "valid st W \<longleftrightarrow>
     length (t_indices st) = length succs \<and> length (t_lowlink st) = length succs \<and> length (t_on_stack st) = length succs \<and>
     search (index_of st) ((!) (t_lowlink st)) (t_stack st) W (set (concat (t_result st))) (t_next_index st) \<and>
     (\<forall>v < length succs. t_on_stack st ! v \<longleftrightarrow> v \<in> set (t_stack st)) \<and>
     distinct (concat (t_result st)) \<and> (\<forall>C \<in> set (t_result st). \<exists>v \<in> set C. set C = component_of v)"

lemma validD:
  assumes "valid st W"
  shows "length (t_indices st) = length succs" "length (t_lowlink st) = length succs" "length (t_on_stack st) = length succs"
    and "search (index_of st) ((!) (t_lowlink st)) (t_stack st) W (set (concat (t_result st))) (t_next_index st)"
    and "\<And>v. v < length succs \<Longrightarrow> t_on_stack st ! v \<longleftrightarrow> v \<in> set (t_stack st)"
    and "distinct (concat (t_result st))" and "\<And>C. C \<in> set (t_result st) \<Longrightarrow> \<exists>v \<in> set C. set C = component_of v"
  using assms by (simp_all add: valid_def)

lemma fun_of_update: "w < length xs \<Longrightarrow> (!) (xs[w := k]) = ((!) xs)(w := k)"
  by (rule ext) (simp add: nth_list_update)

lemma valid_discover:
  assumes st: "valid st W" and w: "w < length succs" "t_indices st ! w = None"
    and s: "search ((index_of st)(w \<mapsto> t_next_index st)) (((!) (t_lowlink st))(w := t_next_index st)) (w # t_stack st) W'
      (set (concat (t_result st))) (Suc (t_next_index st))"
  shows "\<exists>st'. discover w st = Some st' \<and> valid st' W' \<and> dom (index_of st') = insert w (dom (index_of st))"
proof -
  note v = validD [OF st]
  obtain st' where st': "discover w st = Some st'" using v w by (simp add: discover_def)
  then have flds: "t_indices st' = (t_indices st)[w := Some (t_next_index st)]" "t_lowlink st' = (t_lowlink st)[w := t_next_index st]"
      "t_next_index st' = Suc (t_next_index st)" "t_stack st' = w # t_stack st" "t_on_stack st' = (t_on_stack st)[w := True]"
      "t_result st' = t_result st"
    by (auto simp: discover_def split: if_splits)
  have idx: "index_of st' = (index_of st)(w \<mapsto> t_next_index st)"
    using w v(1) by (auto simp: index_of_def flds nth_list_update)
  have "valid st' W'"
    unfolding valid_def using s v w by (auto simp: idx flds fun_of_update nth_list_update)
  with st' idx show ?thesis by simp
qed

lemma pop_component_splits:
  assumes "v \<in> set S" "\<forall>x \<in> set S. x < length ons"
  shows "\<exists>C S' ons'. S = C @ v # S' \<and> v \<notin> set C \<and> pop_component v S ons acc = Some (S', ons', acc @ C @ [v]) \<and>
    length ons' = length ons \<and> (\<forall>x < length ons. ons' ! x \<longleftrightarrow> ons ! x \<and> x \<notin> set (C @ [v]))"
  using assms
proof (induction S arbitrary: ons acc)
  case (Cons y S)
  show ?case
  proof (cases "y = v")
    case True
    then show ?thesis
      using Cons.prems by (intro exI [of _ "[]"] exI [of _ S] exI [of _ "ons[y := False]"]) (auto simp: nth_list_update)
  next
    case False
    then obtain C S' ons' where "S = C @ v # S'" "v \<notin> set C"
        "pop_component v S (ons[y := False]) (acc @ [y]) = Some (S', ons', (acc @ [y]) @ C @ [v])"
        "length ons' = length ons" "\<forall>x < length ons. ons' ! x \<longleftrightarrow> ons[y := False] ! x \<and> x \<notin> set (C @ [v])"
      using Cons.IH [of "ons[y := False]" "acc @ [y]"] Cons.prems by auto
    then show ?thesis using False Cons.prems
      by (intro exI [of _ "y # C"] exI [of _ S'] exI [of _ ons']) (auto simp: nth_list_update)
  qed
qed simp

lemma valid_finish:
  assumes st: "valid st ((node, i) # W)" and i: "\<not> i < length (succs ! node)"
  shows "\<exists>st'. finish_node node W st = Some st' \<and> valid st' W \<and> index_of st' = index_of st"
proof -
  note v = validD [OF st] and top = last_open [OF validD(4) [OF st]]
  have node: "node < length succs" "index_of st node = Some (num (index_of st) node)"
    using stack_numbered [OF v(4) top(1)] by auto
  let ?low = "pass_low node W ((!) (t_lowlink st))"
  have parent: "p < length succs \<and> p \<noteq> node" if "W = (p, j) # W'" for p j W'
    using open_stack [OF v(4)] stack_numbered(2) [OF v(4), of p] top(2) that by auto
  obtain low where low: "propagate_lowlink node W (t_lowlink st) = Some low" "(!) low = ?low" "length low = length succs"
    using v(2) node(1) parent
    by (cases W) (auto simp: propagate_lowlink_def pass_low_def lookup_def fun_of_update)
  have "?low node = t_lowlink st ! node"
    using parent by (auto simp: pass_low_def split: list.splits)
  with low v(1) node have reads: "lookup low node = Some (t_lowlink st ! node)"
      "lookup (t_indices st) node = Some (Some (num (index_of st) node))"
    by (auto simp: lookup_def index_of_def)
  show ?thesis
  proof (cases "t_lowlink st ! node = num (index_of st) node")
    case False
    let ?st = "st\<lparr>t_lowlink := low\<rparr>"
    have idx: "index_of ?st = index_of st" by (rule ext) (simp add: index_of_def)
    have "valid ?st W" using search_keep [OF v(4) i False] low v by (simp add: valid_def idx)
    moreover have "finish_node node W st = Some ?st" using low(1) reads False by (simp add: finish_node_def)
    ultimately show ?thesis using idx by blast
  next
    case True
    have "\<forall>x \<in> set (t_stack st). x < length (t_on_stack st)" using stack_numbered(2) [OF v(4)] v(3) by simp
    from pop_component_splits [OF top(1) this, of "[]"] obtain C S' ons where S: "t_stack st = C @ node # S'"
        and pop: "pop_component node (t_stack st) (t_on_stack st) [] = Some (S', ons, C @ [node])"
        and ons: "length ons = length succs" "\<forall>x < length succs. ons ! x \<longleftrightarrow> t_on_stack st ! x \<and> x \<notin> set (C @ [node])"
      using v(3) by auto
    let ?st = "st\<lparr>t_lowlink := low, t_stack := S', t_on_stack := ons, t_result := t_result st @ [C @ [node]]\<rparr>"
    have idx: "index_of ?st = index_of st" by (rule ext) (simp add: index_of_def)
    have popped: "search (index_of st) ?low S' W (set (concat (t_result st)) \<union> set (C @ [node])) (t_next_index st)"
        "set (C @ [node]) = component_of node"
      using search_pop [OF v(4) i True S] by blast+
    have dist: "distinct (t_stack st)" using sorted_stack [OF v(4)] by (simp add: sorted_wrt_iff_nth_less distinct_conv_nth) (metis less_irrefl linorder_neqE_nat)
    have "distinct (concat (t_result st @ [C @ [node]]))"
      using v(6) dist parts(2) [OF v(4)] by (auto simp: S)
    moreover have "\<forall>x < length succs. ons ! x \<longleftrightarrow> x \<in> set S'" using ons(2) v(5) dist by (auto simp: S)
    moreover have "set (concat (t_result st @ [C @ [node]])) = set (concat (t_result st)) \<union> set (C @ [node])" by simp
    moreover have "\<forall>B \<in> set (t_result st @ [C @ [node]]). \<exists>v \<in> set B. set B = component_of v"
      using v(7) popped(2) by (metis in_set_conv_decomp set_ConsD set_append Un_iff in_set_insert empty_iff list.set(1))
    ultimately have "valid ?st W"
      unfolding valid_def idx using popped(1) low v(1) ons(1) by (simp del: concat_append set_append distinct_append set_concat)
    moreover have "finish_node node W st = Some ?st" using low(1) reads True pop by (simp add: finish_node_def)
    ultimately show ?thesis using idx by blast
  qed
qed

lemma valid_step:
  assumes st: "valid st ((node, i) # W)"
  shows "\<exists>W' st'. tarjan_step succs node i W st = Some (W', st') \<and> valid st' W' \<and> dom (index_of st) \<subseteq> dom (index_of st')"
proof -
  note v = validD [OF st] and top = last_open [OF validD(4) [OF st]]
  have node: "node < length succs" using stack_numbered(2) [OF v(4) top(1)] .
  show ?thesis
  proof (cases "i < length (succs ! node)")
    case False
    with valid_finish [OF st] node show ?thesis by (auto simp: tarjan_step_def lookup_def)
  next
    case True
    define w where "w = succs ! node ! i"
    have w: "w < length succs" using in_range [OF node] True by (simp add: w_def)
    show ?thesis
    proof (cases "t_indices st ! w")
      case None
      have "search ((index_of st)(w \<mapsto> t_next_index st)) (((!) (t_lowlink st))(w := t_next_index st)) (w # t_stack st)
        ((w, 0) # (node, Suc i) # W) (set (concat (t_result st))) (Suc (t_next_index st))"
        unfolding w_def by (rule search_visit [OF v(4) True]) (use None w in \<open>simp add: index_of_def w_def\<close>)
      from valid_discover [OF st w None this] show ?thesis
        using True node None w v(1) by (auto simp: tarjan_step_def lookup_def Let_def w_def)
    next
      case (Some k)
      then have k: "index_of st w = Some k" "num (index_of st) w = k" using w by (auto simp: index_of_def num_def)
      then have wd: "w \<in> set (t_stack st) \<union> set (concat (t_result st))" using parts(1) [OF v(4)] by blast
      obtain st' where st': "link_successor node w k st = Some st'" and "valid st' ((node, Suc i) # W)"
          and "index_of st' = index_of st"
      proof (cases "t_on_stack st ! w")
        case True
        let ?st = "st\<lparr>t_lowlink := (t_lowlink st)[node := min (t_lowlink st ! node) k]\<rparr>"
        have idx: "index_of ?st = index_of st" by (rule ext) (simp add: index_of_def)
        have "valid ?st ((node, Suc i) # W)"
          using search_link [OF v(4) \<open>i < length (succs ! node)\<close>] True v w k(2)
          by (simp add: valid_def idx fun_of_update node flip: w_def)
        moreover have "link_successor node w k st = Some ?st" using True w node v(2,3) by (simp add: link_successor_def lookup_def)
        ultimately show thesis using idx that by blast
      next
        case False
        then have "w \<in> set (concat (t_result st))" using wd v(5) w by blast
        then have "valid st ((node, Suc i) # W)"
          using search_skip [OF v(4) \<open>i < length (succs ! node)\<close>] v by (simp add: valid_def flip: w_def)
        moreover have "link_successor node w k st = Some st" using False w v(3) by (simp add: link_successor_def lookup_def)
        ultimately show thesis using that by blast
      qed
      then show ?thesis using True node Some w v(1) by (simp add: tarjan_step_def lookup_def Let_def flip: w_def)
    qed
  qed
qed

lemma valid_loop:
  "graph = succs \<Longrightarrow> valid st W \<Longrightarrow>
   \<exists>st'. tarjan_loop graph W st = Some st' \<and> valid st' [] \<and> dom (index_of st) \<subseteq> dom (index_of st')"
proof (induction graph W st rule: tarjan_loop.induct)
  case (2 graph node i W st)
  from valid_step [OF "2.prems"(2)] obtain W' st' where step: "tarjan_step succs node i W st = Some (W', st')"
      "valid st' W'" "dom (index_of st) \<subseteq> dom (index_of st')" by blast
  from "2.IH" [of "(W', st')" W' st'] step "2.prems"(1) obtain st2 where
    "tarjan_loop succs W' st' = Some st2" "valid st2 []" "dom (index_of st') \<subseteq> dom (index_of st2)" by auto
  moreover from this(3) step(3) have "dom (index_of st) \<subseteq> dom (index_of st2)" by (rule subset_trans [rotated])
  ultimately show ?case using step(1) "2.prems"(1) by simp
qed auto

lemma valid_roots:
  "valid st [] \<Longrightarrow> set roots \<subseteq> {..<length succs} \<Longrightarrow>
   \<exists>st'. tarjan_roots succs roots st = Some st' \<and> valid st' [] \<and> set roots \<union> dom (index_of st) \<subseteq> dom (index_of st')"
proof (induction roots arbitrary: st)
  case (Cons r roots)
  note v = validD [OF Cons.prems(1)]
  have r: "r < length succs" using Cons.prems(2) by simp
  show ?case
  proof (cases "t_indices st ! r")
    case None
    have empty: "t_stack st = []" by (rule search_empty [OF v(4)])
    have "search ((index_of st)(r \<mapsto> t_next_index st)) (((!) (t_lowlink st))(r := t_next_index st)) (r # t_stack st)
      [(r, 0)] (set (concat (t_result st))) (Suc (t_next_index st))"
      unfolding empty by (rule search_root) (use v(4) None r in \<open>simp_all add: empty index_of_def\<close>)
    from valid_discover [OF Cons.prems(1) r None this] obtain st1 where st1: "discover r st = Some st1"
        "valid st1 [(r, 0)]" "dom (index_of st1) = insert r (dom (index_of st))" by blast
    from valid_loop [OF refl st1(2)] obtain st2 where st2: "tarjan_loop succs [(r, 0)] st1 = Some st2" "valid st2 []"
        "dom (index_of st1) \<subseteq> dom (index_of st2)" by blast
    from Cons.IH [OF st2(2)] Cons.prems(2) obtain st3 where st3: "tarjan_roots succs roots st2 = Some st3" "valid st3 []"
        "set roots \<union> dom (index_of st2) \<subseteq> dom (index_of st3)" by auto
    have "tarjan_roots succs (r # roots) st = Some st3" using st1(1) st2(1) st3(1) None r v(1) by (simp add: lookup_def)
    moreover have "set (r # roots) \<union> dom (index_of st) \<subseteq> dom (index_of st3)"
    proof -
      have "insert r (dom (index_of st)) \<subseteq> dom (index_of st3)" using st1(3) st2(3) st3(3) by blast
      with st3(3) show ?thesis by simp
    qed
    ultimately show ?thesis using st3(2) by blast
  next
    case (Some k)
    then have "r \<in> dom (index_of st)" using r by (auto simp: index_of_def)
    moreover from Cons.IH [OF Cons.prems(1)] Cons.prems(2) obtain st3 where "tarjan_roots succs roots st = Some st3"
        "valid st3 []" "set roots \<union> dom (index_of st) \<subseteq> dom (index_of st3)" by auto
    moreover from this(1) have "tarjan_roots succs (r # roots) st = Some st3" using Some r v(1) by (simp add: lookup_def)
    ultimately show ?thesis by (intro exI [of _ st3]) (simp, blast)
  qed
qed simp

lemma components_exact:
  "\<exists>R. strongly_connected_components succs = Some R \<and> distinct (concat R) \<and> set (concat R) = {..<length succs} \<and>
    (\<forall>C \<in> set R. \<exists>v \<in> set C. set C = component_of v)"
proof -
  let ?st = "\<lparr>t_indices = replicate (length succs) None, t_lowlink = replicate (length succs) 0, t_stack = [],
    t_on_stack = replicate (length succs) False, t_result = [], t_next_index = 0\<rparr>"
  have "index_of ?st = (\<lambda>_. None)" by (rule ext) (simp add: index_of_def)
  then have "valid ?st []" using search_start by (simp add: valid_def)
  from valid_roots [OF this, of "[0..<length succs]"] obtain st where st: "tarjan_roots succs [0..<length succs] ?st = Some st"
      "valid st []" "{..<length succs} \<subseteq> dom (index_of st)"
    by (auto simp: atLeast0LessThan)
  note v = validD [OF st(2)]
  have "dom (index_of st) = set (concat (t_result st))" using parts(1) [OF v(4)] search_empty [OF v(4)] by simp
  moreover have "dom (index_of st) \<subseteq> {..<length succs}" using numbered [OF v(4)] by auto
  ultimately have "set (concat (t_result st)) = {..<length succs}" using st(3) by blast
  with v(6,7) st(1) show ?thesis unfolding strongly_connected_components_def Let_def by auto
qed

end

end
