(* ===== verification/Loop_Validation.thy ===== *)
theory Loop_Validation
  imports IR Components "HOL-Library.Sublist"
begin

text \<open>
  The loop structure validation, \<open>src/midend/src/passes/validation.rs\<close>: successor lists over
  block indices, predecessor counts, the loop components and the two diagnostics of \<open>run\<close>. The
  components come from \<open>Components\<close>, whose contract is discharged here for the successor lists of
  any function; a component is never empty and its members are in range, so the indexing in the
  helpers below does not fail. The lemmas show that the pass always ends, that it reports exactly
  the exit blocks no branch targets, and that in a function it accepts every block has a way out.
\<close>

section \<open>Successors over block indices\<close>

definition block_successors :: "basic_block \<Rightarrow> usize list" where
  "block_successors b = (case b_terminator b of
     Some (Branch target) \<Rightarrow> [target]
   | Some (CondBranch _ yes no) \<Rightarrow> [yes, no]
   | Some (Switch _ arms dflt) \<Rightarrow> remdups_adj (sort (map snd arms @ [dflt]))
   | _ \<Rightarrow> [])"

definition id_to_index :: "ir_function \<Rightarrow> usize \<rightharpoonup> usize" where
  "id_to_index f = fold (\<lambda>(idx, b) m. m(b_id b \<mapsto> idx)) (enumerate 0 (f_blocks f)) Map.empty"

definition build_successors :: "ir_function \<Rightarrow> (usize \<rightharpoonup> usize) \<Rightarrow> usize list list" where
  "build_successors f ids = map (\<lambda>b. List.map_filter ids (block_successors b)) (f_blocks f)"

definition count_edge :: "usize \<Rightarrow> usize list \<Rightarrow> usize list" where
  "count_edge s counts = (if s < length counts then counts[s := counts ! s + 1] else counts)"

definition compute_predecessors :: "usize list list \<Rightarrow> usize list" where
  "compute_predecessors succs = fold (fold count_edge) succs (replicate (length succs) 0)"

section \<open>Loop components\<close>

definition is_loop_component :: "usize list \<Rightarrow> usize list list \<Rightarrow> bool" where
  "is_loop_component component succs =
     (if length component > 1 then True
      else case component of idx # _ \<Rightarrow> idx \<in> set (succs ! idx) | [] \<Rightarrow> False)"

definition component_has_exit :: "usize list \<Rightarrow> usize list list \<Rightarrow> bool" where
  "component_has_exit component succs =
     list_ex (\<lambda>idx. list_ex (\<lambda>s. s \<notin> set component) (succs ! idx)) component"

fun is_return :: "terminator option \<Rightarrow> bool" where
  "is_return (Some (Return _)) = True"
| "is_return _ = False"

definition component_has_return :: "usize list \<Rightarrow> basic_block list \<Rightarrow> bool" where
  "component_has_return component blocks = list_ex (\<lambda>idx. is_return (b_terminator (blocks ! idx))) component"

text \<open>\<open>min_by_key\<close> keeps the first of the least keys.\<close>

definition header_key :: "basic_block list \<Rightarrow> usize \<Rightarrow> nat \<times> usize" where
  "header_key blocks idx =
     (if sublist ''.header'' (b_label (blocks ! idx)) then 0 else 1, b_id (blocks ! idx))"

definition key_less :: "nat \<times> usize \<Rightarrow> nat \<times> usize \<Rightarrow> bool" where
  "key_less a b \<longleftrightarrow> fst a < fst b \<or> fst a = fst b \<and> snd a < snd b"

definition select_header :: "usize list \<Rightarrow> basic_block list \<Rightarrow> usize" where
  "select_header component blocks =
     fold (\<lambda>idx best. if key_less (header_key blocks idx) (header_key blocks best) then idx else best)
       (tl component) (hd component)"

section \<open>The pass\<close>

record loop_validation_error =
  le_function :: string
  le_header_block :: usize
  le_header_label :: string
  le_message :: string

definition no_exit_message :: string where
  "no_exit_message = ''loop does not have any edge that leaves the loop; ensure the condition leads to an exit block or introduce a `break`''"

definition unreachable_exit_message :: string where
  "unreachable_exit_message = ''exit block is unreachable; no branch targets this block''"

definition header_label :: "ir_function \<Rightarrow> usize list \<Rightarrow> string" where
  "header_label f component =
     (let header_block_id = b_id (f_blocks f ! select_header component (f_blocks f))
      in case get_block f header_block_id of Some b \<Rightarrow> b_label b | None \<Rightarrow> ''<unknown>'')"

definition check_component :: "ir_function \<Rightarrow> usize list list \<Rightarrow> usize list \<Rightarrow> loop_validation_error list" where
  "check_component f succs component =
     (if \<not> is_loop_component component succs then []
      else if \<not> prefix ''loop'' (header_label f component)
            \<and> \<not> component_has_exit component succs \<and> \<not> component_has_return component (f_blocks f)
      then [\<lparr>le_function = f_name f,
             le_header_block = b_id (f_blocks f ! select_header component (f_blocks f)),
             le_header_label = header_label f component, le_message = no_exit_message\<rparr>]
      else [])"

definition check_exit_block :: "ir_function \<Rightarrow> usize list \<Rightarrow> usize \<times> basic_block \<Rightarrow> loop_validation_error list" where
  "check_exit_block f preds = (\<lambda>(idx, b).
     if \<not> sublist ''.exit'' (b_label b) then []
     else if prefix ''loop'' (b_label b) then []
     else if (if idx < length preds then preds ! idx else 0) = 0
     then [\<lparr>le_function = f_name f, le_header_block = b_id b, le_header_label = b_label b,
            le_message = unreachable_exit_message\<rparr>]
     else [])"

definition validate_function :: "ir_function \<Rightarrow> loop_validation_error list option" where
  "validate_function f =
     (if f_blocks f = [] then Some []
      else let succs = build_successors f (id_to_index f);
               preds = compute_predecessors succs
           in map_option (\<lambda>components.
                concat (map (check_component f succs) components)
                @ concat (map (check_exit_block f preds) (enumerate 0 (f_blocks f))))
              (strongly_connected_components succs))"

fun validate_functions :: "ir_function list \<Rightarrow> loop_validation_error list option" where
  "validate_functions [] = Some []"
| "validate_functions (f # fs) = (case (validate_function f, validate_functions fs) of
     (Some es, Some es') \<Rightarrow> Some (es @ es') | _ \<Rightarrow> None)"

text \<open>The pass clears its errors, collects those of the functions and reports no change.\<close>

definition loop_validation_run :: "ir_module \<Rightarrow> (loop_validation_error list \<times> bool) option" where
  "loop_validation_run md = map_option (\<lambda>es. (es, False)) (validate_functions (m_functions md))"

section \<open>The graph of a function\<close>

definition successors :: "ir_function \<Rightarrow> usize list list" where
  "successors f = build_successors f (id_to_index f)"

lemma length_successors [simp]: "length (successors f) = length (f_blocks f)"
  by (simp add: successors_def build_successors_def)

lemma id_to_index_range: "id_to_index f t = Some i \<Longrightarrow> i < length (f_blocks f) \<and> b_id (f_blocks f ! i) = t"
proof -
  have "fold (\<lambda>(idx, b) m. m(b_id b \<mapsto> idx)) ps m t = Some i \<Longrightarrow>
    m t = Some i \<or> (\<exists>b. (i, b) \<in> set ps \<and> b_id b = t)" for ps :: "(usize \<times> basic_block) list" and m
    by (induction ps arbitrary: m) (fastforce split: if_splits)+
  then show "id_to_index f t = Some i \<Longrightarrow> ?thesis"
    unfolding id_to_index_def by (fastforce simp: in_set_enumerate_eq)
qed

interpretation ls: successor_graph "successors f" for f
proof
  fix u v assume "u < length (successors f)" "v \<in> set (successors f ! u)"
  then obtain t where "id_to_index f t = Some v"
    by (auto simp: successors_def build_successors_def map_filter_def)
  then show "v < length (successors f)" using id_to_index_range by simp
qed

definition index_flow :: "ir_function \<Rightarrow> (usize \<times> usize) set" where
  "index_flow f = {(u, v). u < length (f_blocks f) \<and> v \<in> set (successors f ! u)}"

lemma index_flow_edges: "ls.edges f = index_flow f"
  by (simp add: index_flow_def ls.edges_def)

definition loop_components :: "ir_function \<Rightarrow> usize list list" where
  "loop_components f = the (strongly_connected_components (successors f))"

lemma components_found:
  shows "strongly_connected_components (successors f) = Some (loop_components f)"
    and "distinct (concat (loop_components f))"
    and "set (concat (loop_components f)) = {..<length (f_blocks f)}"
    and "C \<in> set (loop_components f) \<Longrightarrow>
      \<exists>v. v \<in> set C \<and> set C = {w. (v, w) \<in> (index_flow f)\<^sup>* \<and> (w, v) \<in> (index_flow f)\<^sup>*}"
proof -
  obtain R where R: "strongly_connected_components (successors f) = Some R" "distinct (concat R)"
      "set (concat R) = {..<length (successors f)}" "\<forall>C \<in> set R. \<exists>v \<in> set C. set C = ls.component_of f v"
    using ls.components_exact [of f] by (elim exE conjE)
  then have "loop_components f = R" by (simp add: loop_components_def)
  with R show "strongly_connected_components (successors f) = Some (loop_components f)"
    "distinct (concat (loop_components f))" "set (concat (loop_components f)) = {..<length (f_blocks f)}"
    "C \<in> set (loop_components f) \<Longrightarrow>
      \<exists>v. v \<in> set C \<and> set C = {w. (v, w) \<in> (index_flow f)\<^sup>* \<and> (w, v) \<in> (index_flow f)\<^sup>*}"
    by (simp_all only: length_successors index_flow_edges [symmetric] ls.component_of_def) blast
qed

lemma component_of_index:
  assumes "i < length (f_blocks f)"
  obtains C where "C \<in> set (loop_components f)" and "i \<in> set C"
    and "set C = {w. (i, w) \<in> (index_flow f)\<^sup>* \<and> (w, i) \<in> (index_flow f)\<^sup>*}"
proof -
  have "i \<in> set (concat (loop_components f))" using assms components_found(3) [of f] by simp
  then obtain C where C: "C \<in> set (loop_components f)" "i \<in> set C" by auto
  from components_found(4) [OF C(1)] obtain v where
    v: "set C = {w. (v, w) \<in> (index_flow f)\<^sup>* \<and> (w, v) \<in> (index_flow f)\<^sup>*}" by (elim exE conjE)
  with C(2) have iv: "(i, v) \<in> (index_flow f)\<^sup>*" "(v, i) \<in> (index_flow f)\<^sup>*" by simp_all
  then have "(v, w) \<in> (index_flow f)\<^sup>* \<longleftrightarrow> (i, w) \<in> (index_flow f)\<^sup>*" "(w, v) \<in> (index_flow f)\<^sup>* \<longleftrightarrow> (w, i) \<in> (index_flow f)\<^sup>*" for w
    by (metis rtrancl_trans)+
  with v have "set C = {w. (i, w) \<in> (index_flow f)\<^sup>* \<and> (w, i) \<in> (index_flow f)\<^sup>*}" by simp
  with C show thesis by (rule that)
qed

lemma index_flow_range: "(u, v) \<in> index_flow f \<Longrightarrow> v < length (f_blocks f)"
  using ls.in_range [of u f v] by (simp add: index_flow_def)

lemma index_flow_reach_range: "(u, v) \<in> (index_flow f)\<^sup>* \<Longrightarrow> u < length (f_blocks f) \<Longrightarrow> v < length (f_blocks f)"
  by (induction rule: rtrancl_induct) (auto dest: index_flow_range)

text \<open>C35: On the successor lists of every function the component search ends without an index out
  of range, and returns each block index in exactly one component: the indices that reach it and
  that it reaches.\<close>

theorem loop_components_exact:
  "\<exists>R. strongly_connected_components (build_successors f (id_to_index f)) = Some R \<and>
     distinct (concat R) \<and> set (concat R) = {..<length (f_blocks f)} \<and>
     list_all (\<lambda>C. \<exists>v. v \<in> set C \<and> set C = {w. (v, w) \<in> (index_flow f)\<^sup>* \<and> (w, v) \<in> (index_flow f)\<^sup>*}) R"
proof (intro exI conjI)
  show "strongly_connected_components (build_successors f (id_to_index f)) = Some (loop_components f)"
    using components_found(1) [of f] by (simp add: successors_def)
  show "list_all (\<lambda>C. \<exists>v. v \<in> set C \<and> set C = {w. (v, w) \<in> (index_flow f)\<^sup>* \<and> (w, v) \<in> (index_flow f)\<^sup>*})
      (loop_components f)"
    unfolding list_all_iff using components_found(4) by (intro ballI)
qed (rule components_found)+

section \<open>Exit blocks\<close>

lemma count_edges:
  "length (fold count_edge es counts) = length counts"
  "i < length counts \<Longrightarrow> fold count_edge es counts ! i = counts ! i + count_list es i"
  by (induction es arbitrary: counts) (auto simp: count_edge_def nth_list_update)

lemma count_all_edges:
  "length (fold (fold count_edge) ess counts) = length counts"
  "i < length counts \<Longrightarrow> fold (fold count_edge) ess counts ! i = counts ! i + count_list (concat ess) i"
  by (induction ess arbitrary: counts) (auto simp: count_edges)

lemma predecessor_count:
  assumes "i < length (f_blocks f)"
  shows "compute_predecessors (successors f) ! i = 0 \<longleftrightarrow> (\<forall>u. (u, i) \<notin> index_flow f)"
proof -
  have "compute_predecessors (successors f) ! i = count_list (concat (successors f)) i"
    using assms by (simp add: compute_predecessors_def count_all_edges)
  then have "compute_predecessors (successors f) ! i = 0 \<longleftrightarrow> i \<notin> set (concat (successors f))"
    by (simp add: count_list_0_iff)
  then show ?thesis
    by (auto simp: index_flow_def in_set_conv_nth) (metis length_successors nth_mem)
qed

lemma length_predecessors [simp]: "length (compute_predecessors succs) = length succs"
  by (simp add: compute_predecessors_def count_all_edges)

definition exit_error :: "ir_function \<Rightarrow> basic_block \<Rightarrow> loop_validation_error" where
  "exit_error f b = \<lparr>le_function = f_name f, le_header_block = b_id b, le_header_label = b_label b,
     le_message = unreachable_exit_message\<rparr>"

lemma check_exit_block_iff:
  assumes "i < length (f_blocks f)"
  shows "e \<in> set (check_exit_block f (compute_predecessors (successors f)) (i, f_blocks f ! i)) \<longleftrightarrow>
    sublist ''.exit'' (b_label (f_blocks f ! i)) \<and> \<not> prefix ''loop'' (b_label (f_blocks f ! i)) \<and>
    (\<forall>u. (u, i) \<notin> index_flow f) \<and> e = exit_error f (f_blocks f ! i)"
  using assms predecessor_count [OF assms] by (auto simp: check_exit_block_def exit_error_def)

lemma component_error_message: "e \<in> set (check_component f succs C) \<Longrightarrow> le_message e = no_exit_message"
  by (auto simp: check_component_def split: if_splits)

text \<open>The errors about unreachable exits are exactly those of the blocks whose label contains
  \<open>.exit\<close> and does not start with \<open>loop\<close> and that no block of the function branches to.\<close>

lemma unreachable_exits_exact:
  "\<exists>es. validate_function f = Some es \<and>
     {e \<in> set es. le_message e = unreachable_exit_message} =
     {exit_error f (f_blocks f ! i) | i. i < length (f_blocks f) \<and> sublist ''.exit'' (b_label (f_blocks f ! i)) \<and>
        \<not> prefix ''loop'' (b_label (f_blocks f ! i)) \<and> (\<forall>u. (u, i) \<notin> index_flow f)}"
proof (cases "f_blocks f = []")
  case False
  note R = components_found(1) [of f]
  let ?loops = "concat (map (check_component f (successors f)) (loop_components f))"
    and ?exits = "concat (map (check_exit_block f (compute_predecessors (successors f))) (enumerate 0 (f_blocks f)))"
  have es: "validate_function f = Some (?loops @ ?exits)"
    using False R by (simp add: validate_function_def Let_def flip: successors_def)
  have "le_message e \<noteq> unreachable_exit_message" if "e \<in> set ?loops" for e
    using that component_error_message by (fastforce simp: no_exit_message_def unreachable_exit_message_def)
  moreover have exits: "set ?exits = {exit_error f (f_blocks f ! i) | i. i < length (f_blocks f) \<and>
      sublist ''.exit'' (b_label (f_blocks f ! i)) \<and> \<not> prefix ''loop'' (b_label (f_blocks f ! i)) \<and>
      (\<forall>u. (u, i) \<notin> index_flow f)}"
    using check_exit_block_iff [of _ f] by (fastforce simp: in_set_enumerate_eq)
  moreover have "le_message (exit_error f b) = unreachable_exit_message" for b by (simp add: exit_error_def)
  ultimately have "{e \<in> set (?loops @ ?exits). le_message e = unreachable_exit_message} = set ?exits" by auto
  with es exits show ?thesis by simp
qed (simp add: validate_function_def)

section \<open>A way out of every block\<close>

text \<open>A block is in a loop the programmer wrote without a condition when the header of its
  component carries a label that starts with \<open>loop\<close>.\<close>

definition declared_endless :: "ir_function \<Rightarrow> usize \<Rightarrow> bool" where
  "declared_endless f i \<longleftrightarrow> list_ex (\<lambda>C. i \<in> set C \<and> prefix ''loop'' (header_label f C)) (loop_components f)"

lemma accepted_component:
  assumes "validate_function f = Some []" "C \<in> set (loop_components f)" "i \<in> set C" "f_blocks f \<noteq> []"
  shows "\<not> is_loop_component C (successors f) \<or> declared_endless f i \<or> component_has_exit C (successors f) \<or>
    component_has_return C (f_blocks f)"
proof -
  have "check_component f (successors f) C = []"
    using assms components_found(1) [of f] by (auto simp: validate_function_def Let_def simp flip: successors_def)
  then show ?thesis using assms(2,3) by (auto simp: check_component_def declared_endless_def list_ex_iff split: if_splits)
qed

lemma return_no_successors: "is_return (b_terminator (f_blocks f ! i)) \<Longrightarrow> i < length (f_blocks f) \<Longrightarrow> successors f ! i = []"
  by (auto simp: successors_def build_successors_def block_successors_def map_filter_def elim!: is_return.elims)

lemma leaves_component:
  assumes C: "C \<in> set (loop_components f)" "i \<in> set C"
    and iC: "set C = {w. (i, w) \<in> (index_flow f)\<^sup>* \<and> (w, i) \<in> (index_flow f)\<^sup>*}"
    and acc: "validate_function f = Some []" "f_blocks f \<noteq> []" and not: "\<not> declared_endless f i" "successors f ! i \<noteq> []"
    and bound: "i < length (f_blocks f)"
  shows "\<exists>j. (i, j) \<in> (index_flow f)\<^sup>* \<and> j < length (f_blocks f) \<and> (successors f ! j = [] \<or> (j, i) \<notin> (index_flow f)\<^sup>*)"
proof -
  have reach: "w < length (f_blocks f)" if "w \<in> set C" for w
    using that iC bound index_flow_reach_range [of i w f] by simp
  consider (straight) "\<not> is_loop_component C (successors f)" | (exit) "component_has_exit C (successors f)"
    | (ret) "component_has_return C (f_blocks f)"
    using accepted_component [OF acc(1) C acc(2)] not(1) by blast
  then show ?thesis
  proof cases
    case straight
    then have "C = [i]" using C(2) by (cases C) (auto simp: is_loop_component_def split: if_splits)
    with straight have "i \<notin> set (successors f ! i)" by (simp add: is_loop_component_def)
    moreover obtain w where w: "w \<in> set (successors f ! i)" using not(2) by (meson hd_in_set)
    ultimately have "w \<notin> set C" "(i, w) \<in> index_flow f" using \<open>C = [i]\<close> bound by (auto simp: index_flow_def)
    then show ?thesis using iC index_flow_range [of i w f] by (intro exI [of _ w]) auto
  next
    case exit
    then obtain u w where "u \<in> set C" "w \<in> set (successors f ! u)" "w \<notin> set C"
      by (auto simp: component_has_exit_def list_ex_iff)
    moreover from this(1) have "(i, u) \<in> (index_flow f)\<^sup>*" using iC by simp
    moreover from calculation have "(u, w) \<in> index_flow f" using reach [of u] by (simp add: index_flow_def)
    moreover from calculation have "(i, w) \<in> (index_flow f)\<^sup>*" by simp
    ultimately show ?thesis using iC index_flow_range [of u w f] by (intro exI [of _ w]) simp
  next
    case ret
    then obtain u where "u \<in> set C" "is_return (b_terminator (f_blocks f ! u))"
      by (auto simp: component_has_return_def list_ex_iff)
    then have "(i, u) \<in> (index_flow f)\<^sup>*" "u < length (f_blocks f)" "successors f ! u = []"
      using reach [of u] return_no_successors [of f u] iC by simp_all
    then show ?thesis by blast
  qed
qed

lemma way_out:
  assumes acc: "validate_function f = Some []"
  shows "i < length (f_blocks f) \<Longrightarrow> \<exists>j. (i, j) \<in> (index_flow f)\<^sup>* \<and> (successors f ! j = [] \<or> declared_endless f j)"
proof (induction "card ((index_flow f)\<^sup>* `` {i})" arbitrary: i rule: less_induct)
  case less
  have "(index_flow f)\<^sup>* `` {i} \<subseteq> {..<length (f_blocks f)}" using index_flow_reach_range less.prems by auto
  then have fin: "finite ((index_flow f)\<^sup>* `` {i})" by (rule finite_subset) simp
  show ?case
  proof (cases "successors f ! i = [] \<or> declared_endless f i")
    case False
    obtain C where C: "C \<in> set (loop_components f)" "i \<in> set C"
        "set C = {w. (i, w) \<in> (index_flow f)\<^sup>* \<and> (w, i) \<in> (index_flow f)\<^sup>*}"
      using component_of_index [OF less.prems] .
    have "f_blocks f \<noteq> []" using less.prems by auto
    then obtain j where
      j: "(i, j) \<in> (index_flow f)\<^sup>*" "j < length (f_blocks f)" "successors f ! j = [] \<or> (j, i) \<notin> (index_flow f)\<^sup>*"
      using leaves_component [OF C acc _ _ _ less.prems] False by blast
    show ?thesis
    proof (cases "successors f ! j = []")
      case True
      with j(1) show ?thesis by blast
    next
      case False
      with j have "i \<notin> (index_flow f)\<^sup>* `` {j}" by simp
      moreover have "(index_flow f)\<^sup>* `` {j} \<subseteq> (index_flow f)\<^sup>* `` {i}" using j(1) by (auto intro: rtrancl_trans)
      ultimately have "(index_flow f)\<^sup>* `` {j} \<subset> (index_flow f)\<^sup>* `` {i}" by blast
      then have "card ((index_flow f)\<^sup>* `` {j}) < card ((index_flow f)\<^sup>* `` {i})" by (rule psubset_card_mono [OF fin])
      then show ?thesis using less.hyps [of j] j(1,2) by (meson rtrancl_trans)
    qed
  qed blast
qed

lemma validate_functions_accepts:
  "validate_functions fs = Some [] \<Longrightarrow> f \<in> set fs \<Longrightarrow> validate_function f = Some []"
  by (induction fs) (auto split: option.splits)

text \<open>C36: In a function the validation accepts, control can leave from every block: some path
  leads from it to a block without successors, a return or a trap, or into a loop written without
  a condition.\<close>

theorem validated_blocks_exit:
  assumes "loop_validation_run md = Some ([], False)" and "f \<in> set (m_functions md)" and "i < length (f_blocks f)"
  shows "\<exists>j. (i, j) \<in> (index_flow f)\<^sup>* \<and> (build_successors f (id_to_index f) ! j = [] \<or> declared_endless f j)"
proof -
  have "validate_function f = Some []"
    using assms(1,2) validate_functions_accepts by (auto simp: loop_validation_run_def)
  from way_out [OF this assms(3)] show ?thesis by (simp add: successors_def)
qed

definition waiting :: ir_function where
  "waiting = literal_function ''waiting'' [\<lparr>p_id = 0, p_name = ''ready'', p_ty = TBool\<rparr>] TVoid 1
     [literal_block 0 [] (Branch 1), literal_block 1 [] (CondBranch (Value 0) 2 1),
      literal_block 2 [] (Return None)]"

theorem validated_blocks_exit_witness:
  "loop_validation_run (literal_module [waiting]) = Some ([], False) \<and>
   (\<exists>j. (1, j) \<in> (index_flow waiting)\<^sup>* \<and>
     (build_successors waiting (id_to_index waiting) ! j = [] \<or> declared_endless waiting j))"
proof
  show run: "loop_validation_run (literal_module [waiting]) = Some ([], False)" by code_simp
  show "\<exists>j. (1, j) \<in> (index_flow waiting)\<^sup>* \<and>
     (build_successors waiting (id_to_index waiting) ! j = [] \<or> declared_endless waiting j)"
    by (rule validated_blocks_exit [OF run]) (simp_all add: waiting_def)
qed

end
