(* ===== verification/Pipeline.thy ===== *)
theory Pipeline
  imports Folding_Correct Dead_Code_Correct Inlining_Correct Verifier_Correct Loop_Validation
begin

text \<open>
  The passes in the order the compiler driver runs them, \<open>run\<close> of
  \<open>src/tools/spectra-cli/src/compiler_integration_core.rs\<close> from the verified IR to the code
  generator: constant folding, inlining, a second folding and dead code elimination by optimisation level,
  the bounded rounds of level three, then loop validation and the second verification. Timings and printed
  output are left out. The theory puts the results on the single passes together.
\<close>

section \<open>The driver\<close>

record compilation_options =
  o_optimize :: bool
  o_opt_level :: nat

record pass_report =
  pr_name :: string
  pr_modified :: bool

type_synonym pass_state = "ir_module \<times> pass_report list"

datatype pipeline_error = Loop_errors "loop_validation_error list" | Verification_errors "ir_error list"

definition reported :: "string \<Rightarrow> bool \<Rightarrow> pass_report" where
  "reported name modified = \<lparr>pr_name = name, pr_modified = modified\<rparr>"

definition run_folding :: "string \<Rightarrow> pass_state \<Rightarrow> (pass_state \<times> bool) option" where
  "run_folding name st = (case constant_folding_run (fst st) of (md, modified) \<Rightarrow>
     Some ((md, snd st @ [reported name modified]), modified))"

definition run_inlining :: "string \<Rightarrow> pass_state \<Rightarrow> (pass_state \<times> bool) option" where
  "run_inlining name st = (case function_inlining_run (fst st) of
     Some (Finished (md, modified)) \<Rightarrow> Some ((md, snd st @ [reported name modified]), modified)
   | _ \<Rightarrow> None)"

definition run_dce :: "string \<Rightarrow> pass_state \<Rightarrow> (pass_state \<times> bool) option" where
  "run_dce name st = (case dead_code_elimination_run (fst st) of
     Some (md, modified) \<Rightarrow> Some ((md, snd st @ [reported name modified]), modified)
   | None \<Rightarrow> None)"

definition MAX_O3_ROUNDS :: nat where
  "MAX_O3_ROUNDS = 3"

definition o3_round :: "pass_state \<Rightarrow> (pass_state \<times> bool) option" where
  "o3_round st =
     Option.bind (run_inlining ''Function Inlining (O3 fixpoint)'' st) (\<lambda>(s1, m1).
     Option.bind (run_folding ''Constant Folding (O3 fixpoint)'' s1) (\<lambda>(s2, m2).
     Option.bind (run_dce ''Dead Code Elimination (O3 fixpoint)'' s2) (\<lambda>(s3, m3).
     Some (s3, m1 \<or> m2 \<or> m3))))"

fun o3_rounds :: "nat \<Rightarrow> pass_state \<Rightarrow> pass_state option" where
  "o3_rounds 0 st = Some st"
| "o3_rounds (Suc n) st = Option.bind (o3_round st) (\<lambda>(st', modified). if modified then o3_rounds n st' else Some st')"

definition when_level :: "bool \<Rightarrow> (pass_state \<Rightarrow> (pass_state \<times> bool) option) \<Rightarrow> pass_state \<Rightarrow> pass_state option" where
  "when_level b pass st = (if b then map_option fst (pass st) else Some st)"

definition optimize :: "nat \<Rightarrow> pass_state \<Rightarrow> pass_state option" where
  "optimize level st =
     Option.bind (when_level (1 \<le> level) (run_folding ''Constant Folding'') st) (\<lambda>s1.
     Option.bind (when_level (2 \<le> level) (run_inlining ''Function Inlining'') s1) (\<lambda>s2.
     Option.bind (when_level (2 \<le> level) (run_folding ''Constant Folding (post-inline)'') s2) (\<lambda>s3.
     Option.bind (when_level (2 \<le> level) (run_dce ''Dead Code Elimination'') s3) (\<lambda>s4.
     if 3 \<le> level then o3_rounds MAX_O3_ROUNDS s4 else Some s4))))"

definition check_module :: "pass_state \<Rightarrow> (pipeline_error + pass_state) option" where
  "check_module st = (case loop_validation_run (fst st) of
     None \<Rightarrow> None
   | Some (errors, _) \<Rightarrow>
       if errors \<noteq> [] then Some (Inl (Loop_errors errors))
       else (case verify_module (fst st) of
           None \<Rightarrow> None
         | Some (Inl errors) \<Rightarrow> Some (Inl (Verification_errors errors))
         | Some (Inr _) \<Rightarrow> Some (Inr (fst st, snd st @
             [reported ''Loop Structure Validation'' False, reported ''IR Verification (post-opt)'' False]))))"

definition run_passes :: "compilation_options \<Rightarrow> pass_state \<Rightarrow> (pipeline_error + pass_state) option" where
  "run_passes opts st = Option.bind (if o_optimize opts then optimize (o_opt_level opts) st else Some st) check_module"

section \<open>It always ends\<close>

text \<open>What every pass does to the state: it appends one report, and a report without a change is true.\<close>

definition honest :: "pass_state \<Rightarrow> pass_state \<Rightarrow> bool" where
  "honest st st' \<longleftrightarrow> (\<exists>rs. snd st' = snd st @ rs \<and> (fst st' = fst st \<or> list_ex pr_modified rs))"

lemma honest_refl: "honest st st"
  unfolding honest_def by (rule exI [of _ "[]"]) simp

lemma honest_trans: "honest a b \<Longrightarrow> honest b c \<Longrightarrow> honest a c"
proof -
  assume "honest a b" "honest b c"
  then obtain xs ys where "snd b = snd a @ xs" "fst b = fst a \<or> list_ex pr_modified xs"
    "snd c = snd b @ ys" "fst c = fst b \<or> list_ex pr_modified ys" unfolding honest_def by blast
  then have "snd c = snd a @ (xs @ ys) \<and> (fst c = fst a \<or> list_ex pr_modified (xs @ ys))" by auto
  then show ?thesis unfolding honest_def by blast
qed

lemma honestI: "(\<not> m \<Longrightarrow> md = fst st) \<Longrightarrow> honest st (md, snd st @ [reported name m])"
  unfolding honest_def by (rule exI [of _ "[reported name m]"]) (auto simp: reported_def)

lemma folding_runs: "\<exists>st' m. run_folding name st = Some (st', m) \<and> honest st st' \<and> length (snd st') = Suc (length (snd st))"
proof -
  obtain md m where x: "constant_folding_run (fst st) = (md, m)" by force
  have "md = fst st" if "\<not> m"
  proof -
    have "\<forall>f \<in> set (m_functions (fst st)). fold_function f = f" using x that by (auto simp: constant_folding_run_eq fold_function_same)
    then have "map fold_function (m_functions (fst st)) = m_functions (fst st)" by (simp add: map_idI)
    then show ?thesis using x by (auto simp: constant_folding_run_eq)
  qed
  then show ?thesis using x honestI [of m md st name] by (simp add: run_folding_def)
qed

lemma inlining_runs: "\<exists>st' m. run_inlining name st = Some (st', m) \<and> honest st st' \<and> length (snd st') = Suc (length (snd st))"
proof -
  obtain md where x: "function_inlining_run (fst st) = Some (Finished (md, md \<noteq> fst st))"
    using inline_rounds_total [where P = "\<lambda>_. True", of "fst st" 4 False] by (auto simp: function_inlining_run_def)
  then show ?thesis using honestI [of "md \<noteq> fst st" md st name] by (simp add: run_inlining_def)
qed

lemma dce_runs: "\<exists>st' m. run_dce name st = Some (st', m) \<and> honest st st' \<and> length (snd st') = Suc (length (snd st))"
proof -
  obtain md m where x: "dead_code_elimination_run (fst st) = Some (md, m)" by (simp add: dead_code_elimination_run_eq)
  have "md = fst st" if "\<not> m"
  proof -
    have "\<forall>f \<in> set (m_functions (fst st)). eliminate f = f" using x that by (auto simp: dead_code_elimination_run_eq eliminate_same)
    then have "map eliminate (m_functions (fst st)) = m_functions (fst st)" by (simp add: map_idI)
    then show ?thesis using x by (auto simp: dead_code_elimination_run_eq)
  qed
  then show ?thesis using x honestI [of m md st name] by (simp add: run_dce_def)
qed

definition advanced :: "nat \<Rightarrow> pass_state \<Rightarrow> pass_state \<Rightarrow> bool" where
  "advanced n a b \<longleftrightarrow> honest a b \<and> length (snd b) \<le> length (snd a) + n"

lemma advanced_trans: "advanced m a b \<Longrightarrow> advanced n b c \<Longrightarrow> advanced (m + n) a c"
  using honest_trans unfolding advanced_def by fastforce

lemma advanced_mono: "advanced m a b \<Longrightarrow> m \<le> n \<Longrightarrow> advanced n a b"
  by (simp add: advanced_def)

lemma when_level_runs:
  assumes "\<exists>st' m. pass st = Some (st', m) \<and> honest st st' \<and> length (snd st') = Suc (length (snd st))"
  shows "\<exists>st'. when_level b pass st = Some st' \<and> advanced 1 st st'"
proof (cases b)
  case True
  then show ?thesis using assms by (auto simp: when_level_def advanced_def)
next
  case False
  then show ?thesis by (simp add: when_level_def advanced_def honest_refl)
qed

lemma o3_round_runs: "\<exists>st' m. o3_round st = Some (st', m) \<and> advanced 3 st st'"
proof -
  obtain s1 m1 where 1: "run_inlining ''Function Inlining (O3 fixpoint)'' st = Some (s1, m1)" "advanced 1 st s1"
    using inlining_runs [of "''Function Inlining (O3 fixpoint)''" st] by (auto simp: advanced_def)
  obtain s2 m2 where 2: "run_folding ''Constant Folding (O3 fixpoint)'' s1 = Some (s2, m2)" "advanced 1 s1 s2"
    using folding_runs [of "''Constant Folding (O3 fixpoint)''" s1] by (auto simp: advanced_def)
  obtain s3 m3 where 3: "run_dce ''Dead Code Elimination (O3 fixpoint)'' s2 = Some (s3, m3)" "advanced 1 s2 s3"
    using dce_runs [of "''Dead Code Elimination (O3 fixpoint)''" s2] by (auto simp: advanced_def)
  have "advanced 3 st s3" using advanced_trans [OF advanced_trans [OF 1(2) 2(2)] 3(2)] by (simp add: numeral_3_eq_3)
  then show ?thesis using 1 2 3 by (simp add: o3_round_def)
qed

lemma o3_rounds_run: "\<exists>st'. o3_rounds n st = Some st' \<and> advanced (3 * n) st st'"
proof (induction n arbitrary: st)
  case 0
  then show ?case by (simp add: advanced_def honest_refl)
next
  case (Suc n)
  obtain s1 m where 1: "o3_round st = Some (s1, m)" "advanced 3 st s1" using o3_round_runs by blast
  obtain s2 where 2: "o3_rounds n s1 = Some s2" "advanced (3 * n) s1 s2" using Suc by blast
  show ?case using 1 2 advanced_trans [OF 1(2) 2(2)] advanced_mono [OF 1(2)] by (cases m) simp_all
qed

lemma optimize_runs: "\<exists>st'. optimize level st = Some st' \<and> advanced 13 st st'"
proof -
  obtain s1 where 1: "when_level (1 \<le> level) (run_folding ''Constant Folding'') st = Some s1" "advanced 1 st s1"
    using when_level_runs [of "run_folding ''Constant Folding''" st, OF folding_runs] by blast
  obtain s2 where 2: "when_level (2 \<le> level) (run_inlining ''Function Inlining'') s1 = Some s2" "advanced 1 s1 s2"
    using when_level_runs [of "run_inlining ''Function Inlining''" s1, OF inlining_runs] by blast
  obtain s3 where 3: "when_level (2 \<le> level) (run_folding ''Constant Folding (post-inline)'') s2 = Some s3" "advanced 1 s2 s3"
    using when_level_runs [of "run_folding ''Constant Folding (post-inline)''" s2, OF folding_runs] by blast
  obtain s4 where 4: "when_level (2 \<le> level) (run_dce ''Dead Code Elimination'') s3 = Some s4" "advanced 1 s3 s4"
    using when_level_runs [of "run_dce ''Dead Code Elimination''" s3, OF dce_runs] by blast
  obtain s5 where 5: "o3_rounds MAX_O3_ROUNDS s4 = Some s5" "advanced 9 s4 s5"
    using o3_rounds_run [of MAX_O3_ROUNDS s4] by (auto simp: MAX_O3_ROUNDS_def)
  have "advanced 4 st s4" using advanced_trans [OF advanced_trans [OF advanced_trans [OF 1(2) 2(2)] 3(2)] 4(2)] by (simp add: numeral_eq_Suc)
  then have "advanced 13 st s4" "advanced 13 st s5"
    using advanced_mono [of 4 st s4 13] advanced_trans [of 4 st s4 9 s5] 5(2) by simp_all
  then show ?thesis using 1(1) 2(1) 3(1) 4(1) 5(1) by (simp add: optimize_def del: split_paired_Ex)
qed

lemma validate_functions_run: "\<exists>es. validate_functions fs = Some es"
proof (induction fs)
  case (Cons f fs)
  have "\<exists>es. validate_function f = Some es"
    using components_found(1) [of f] by (auto simp: validate_function_def Let_def successors_def)
  then show ?case using Cons by auto
qed simp

lemma check_module_total: "\<exists>r. check_module st = Some r"
proof -
  obtain errors where "loop_validation_run (fst st) = Some (errors, False)"
    using validate_functions_run [of "m_functions (fst st)"] by (auto simp: loop_validation_run_def)
  moreover obtain v where "verify_module (fst st) = Some v" using verify_module_decided by blast
  ultimately show ?thesis by (cases v) (simp_all add: check_module_def)
qed

lemma check_module_Inr:
  assumes "check_module st = Some (Inr st')"
  shows "fst st' = fst st" "snd st' = snd st @ [reported ''Loop Structure Validation'' False, reported ''IR Verification (post-opt)'' False]"
    "validate_functions (m_functions (fst st)) = Some []" "verify_module (fst st) = Some (Inr ())"
  using assms by (auto simp: check_module_def loop_validation_run_def split: option.splits if_splits sum.splits)

text \<open>C23: The passes end on every module at every optimisation level, without a panic and after at most
  thirteen passes: the driver gets errors or a module, and if no report says that something was modified, the
  module is the one that went in.\<close>

theorem pipeline_total:
  "\<exists>r. run_passes opts (md, []) = Some r \<and>
    (case r of Inl e \<Rightarrow> True | Inr (md', reports) \<Rightarrow> length reports \<le> 15 \<and> (md' = md \<or> list_ex pr_modified reports))"
proof -
  obtain st where st: "(if o_optimize opts then optimize (o_opt_level opts) (md, []) else Some (md, [])) = Some st" "advanced 13 (md, []) st"
  proof (cases "o_optimize opts")
    case True
    then show ?thesis using optimize_runs [of "o_opt_level opts" "(md, [])"] that by auto
  next
    case False
    then show ?thesis using that [of "(md, [])"] by (simp add: advanced_def honest_refl)
  qed
  obtain r where r: "check_module st = Some r" using check_module_total by blast
  have "case r of Inl e \<Rightarrow> True | Inr (md', reports) \<Rightarrow> length reports \<le> 15 \<and> (md' = md \<or> list_ex pr_modified reports)"
  proof (cases r)
    case (Inr st')
    then show ?thesis using check_module_Inr(1,2) [of st st'] r st(2) by (cases st') (auto simp: advanced_def honest_def)
  qed simp
  then show ?thesis using st(1) r by (simp add: run_passes_def)
qed

section \<open>What reaches the code generator\<close>

text \<open>C4: Whatever the optimisation level did, a module that the passes accept is safe to generate code for. A function of it that
  reloads no coroutine frame or state, has no phi in its entry block and only float types at its typed float literals never reads an undefined
  value, never jumps to a missing block and never enters a block without a value for one of its phis, when it is called with as
  many arguments as it has parameters and the instructions modelled as effects give their results; and from each of its blocks control can
  reach an exit or a loop that is declared endless.\<close>

theorem pipeline_output_safe:
  assumes run: "run_passes opts (md, []) = Some (Inr (md', reports))" and f: "f \<in> set (m_functions md')" and "effects_defined M"
    and "list_all (\<lambda>k. \<not> reloads k) (function_kinds f)" and "list_all float_literal_typed (function_kinds f)"
    and "\<not> list_ex is_phi (block_kinds (hd (f_blocks f)))" and "length args = length (f_params f)" and i: "i < length (f_blocks f)"
  shows "run_function M f n args m \<noteq> Stuck_config \<and>
    (\<exists>j. (i, j) \<in> (index_flow f)\<^sup>* \<and> (build_successors f (id_to_index f) ! j = [] \<or> declared_endless f j))"
proof -
  obtain st where st: "check_module st = Some (Inr (md', reports))" using run by (auto simp: run_passes_def split: if_splits bind_splits)
  have md: "fst st = md'" using check_module_Inr(1) [OF st] by simp
  note ok = check_module_Inr(3,4) [OF st, unfolded md]
  have safe: "run_function M f n args m \<noteq> Stuck_config"
    by (rule accepted_function_runs [OF ok(2) f assms(3-7)])
  have "validate_function f = Some []" by (rule validate_functions_accepts [OF ok(1) f])
  from way_out [OF this i] safe show ?thesis by (simp add: successors_def)
qed

lemma constant_sum_folds: "constant_folding_run (literal_module [constant_sum]) = (literal_module [folded_sum], True)"
  by code_simp

lemma constant_sum_compiled:
  "run_passes \<lparr>o_optimize = True, o_opt_level = 1\<rparr> (literal_module [constant_sum], []) =
     Some (Inr (literal_module [folded_sum], [reported ''Constant Folding'' True,
       reported ''Loop Structure Validation'' False, reported ''IR Verification (post-opt)'' False]))"
proof -
  have "loop_validation_run (literal_module [folded_sum]) = Some ([], False)" by code_simp
  then show ?thesis
    by (simp add: run_passes_def optimize_def when_level_def run_folding_def check_module_def constant_sum_folds sums_verified)
qed

lemma sum_conditions:
  "effects_defined inert_machine" "f \<in> {constant_sum, folded_sum} \<Longrightarrow> list_all (\<lambda>k. \<not> reloads k) (function_kinds f)"
  "f \<in> {constant_sum, folded_sum} \<Longrightarrow> list_all float_literal_typed (function_kinds f)"
  "f \<in> {constant_sum, folded_sum} \<Longrightarrow> \<not> list_ex is_phi (block_kinds (hd (f_blocks f)))"
  "f \<in> {constant_sum, folded_sum} \<Longrightarrow> length [] = length (f_params f)" "f \<in> {constant_sum, folded_sum} \<Longrightarrow> 0 < length (f_blocks f)"
  by (auto simp: constant_sum_def folded_sum_def function_kinds_def effects_defined_def inert_machine_def)

theorem pipeline_output_safe_witness:
  "run_passes \<lparr>o_optimize = True, o_opt_level = 1\<rparr> (literal_module [constant_sum], []) =
     Some (Inr (literal_module [folded_sum], [reported ''Constant Folding'' True,
       reported ''Loop Structure Validation'' False, reported ''IR Verification (post-opt)'' False])) \<and>
   run_function inert_machine folded_sum 10 [] () \<noteq> Stuck_config \<and>
   (\<exists>j. (0, j) \<in> (index_flow folded_sum)\<^sup>* \<and>
     (build_successors folded_sum (id_to_index folded_sum) ! j = [] \<or> declared_endless folded_sum j))"
  by (rule conjI [OF constant_sum_compiled], rule pipeline_output_safe [OF constant_sum_compiled _ sum_conditions]) simp_all

lemma optimize_level_1: "optimize (Suc 0) (md, []) = Some (fst (constant_folding_run md),
    [reported ''Constant Folding'' (snd (constant_folding_run md))])"
  by (simp add: optimize_def when_level_def run_folding_def split: prod.splits)

text \<open>C5: At optimisation level one the passes keep what verified code computes: a function of a verified module runs, for any
  number of steps, to the same result after the passes as before, unless it stops with the division overflow panic. That the function is in
  single assignment form and never stuck is not assumed: the verification before the passes gives both. The function reloads no
  coroutine frame or state, has no phi in its entry block, float types at its typed float literals, and the unsigned flag at each division
  of narrow unsigned operands, as lowering sets it; it is called with as many arguments as it has parameters, on a machine with
  Cranelift's documented integer instructions on which the instructions modelled as effects give their results.\<close>

theorem pipeline_o1_preserves:
  assumes before: "verify_module md = Some (Inr ())"
    and run: "run_passes \<lparr>o_optimize = True, o_opt_level = 1\<rparr> (md, []) = Some (Inr (md', reports))"
    and i: "i < length (m_functions md)" "f = m_functions md ! i" and M: "effects_defined M" "cranelift_ok M"
    and kinds: "list_all (\<lambda>k. \<not> reloads k) (function_kinds f)" "list_all float_literal_typed (function_kinds f)"
    and entry: "\<not> list_ex is_phi (block_kinds (hd (f_blocks f)))" "length args = length (f_params f)"
    and div: "division_flags ty f" "run_function M f n args m \<noteq> Trapped ''integer division overflow''"
  shows "run_function M (m_functions md' ! i) n args m = run_function M f n args m"
proof -
  have f: "f \<in> set (m_functions md)" using i by simp
  have "list_all (\<lambda>k. \<not> is_frame_load k) (function_kinds f)" using kinds(1) by (auto simp: list_all_iff elim!: is_frame_load.elims)
  then have "single_assignment f" using verify_module_accepted [OF before f] accepted_single_assignment(1) by metis
  moreover have "unexcluded (run_function M f n args m)"
    using accepted_function_runs [OF before f M(1) kinds entry] div(2) by (simp add: unexcluded_def)
  ultimately have "run_function M (fold_function f) n args m = run_function M f n args m"
    using fold_function_runs [OF M(2) _ div(1)] by blast
  moreover have "md' = fst (constant_folding_run md)"
    using run check_module_Inr(1) by (fastforce simp: run_passes_def optimize_level_1)
  ultimately show ?thesis using i by (simp add: constant_folding_functions)
qed

theorem pipeline_o1_preserves_witness:
  "constant_folding_run (literal_module [constant_sum]) = (literal_module [folded_sum], True) \<and>
   run_function inert_machine folded_sum 1 [] () = run_function inert_machine constant_sum 1 [] () \<and>
   run_function inert_machine constant_sum 1 [] () = Returned (Some (MVal CI64 5)) ()"
proof -
  have ran: "run_function inert_machine constant_sum 1 [] () = Returned (Some (MVal CI64 5)) ()"
    by (simp add: constant_sum_def run_simps inert_machine_def lift_int_def modulus_def numeral_eq_Suc)
  have flags: "division_flags (\<lambda>_. None) constant_sum"
    by (simp add: division_flags_def division_flag_def function_kinds_def constant_sum_def)
  have "run_function inert_machine (m_functions (literal_module [folded_sum]) ! 0) 1 [] () = run_function inert_machine constant_sum 1 [] ()"
    by (rule pipeline_o1_preserves [OF sums_verified(1) constant_sum_compiled _ _ sum_conditions(1) inert_machine_ok sum_conditions(2-5) flags])
      (simp_all add: ran [simplified])
  then show ?thesis using constant_sum_folds ran by simp
qed

end
