(* ===== verification/Tail_Calls.thy ===== *)
theory Tail_Calls
  imports IR
begin

text \<open>
  Tail-call marking, \<open>src/midend/src/passes/tail_call_marking.rs\<close>: a direct self-call that
  is the last instruction of a block returning its result is flagged, unless the function
  uses anything a tail jump would skip. The abstract specification is \<open>tail_position\<close>; the
  lemmas show that the pass sets exactly those flags and changes nothing else.
\<close>

section \<open>The pass\<close>

definition blocks_tail_fusion :: "instruction_kind \<Rightarrow> bool" where
  "blocks_tail_fusion k = (case k of
     Calls (HostCall _ _ _ _) \<Rightarrow> True
   | Memory (ManualAlloc _ _) \<Rightarrow> True
   | Memory (EscapeManualAlloc _) \<Rightarrow> True
   | Memory (Alloca _ _) \<Rightarrow> True
   | Conv (MakeDynFatPtr _ _ _) \<Rightarrow> True
   | Async (AsyncReady _ _ _) \<Rightarrow> True
   | Calls (CallIndirect _ _ _ _ _) \<Rightarrow> True
   | _ \<Rightarrow> False)"

definition function_is_tail_fusion_candidate :: "ir_function \<Rightarrow> bool" where
  "function_is_tail_fusion_candidate f \<longleftrightarrow>
     (if f_name f = ''main'' \<or> f_suspension_barrier f then False
      else list_all (\<lambda>b. list_all (\<lambda>i. \<not> blocks_tail_fusion (i_kind i)) (b_instructions b)) (f_blocks f))"

definition mark_tail_block :: "string \<Rightarrow> basic_block \<times> usize \<Rightarrow> basic_block \<times> usize" where
  "mark_tail_block n = (\<lambda>(b, marked).
     case b_terminator b of
       Some (Return (Some v)) \<Rightarrow>
         (if b_instructions b = [] then (b, marked)
          else let l = last (b_instructions b)
               in case i_kind l of
                    Calls (Call (Some r) callee args is_tail) \<Rightarrow>
                      (if \<not> is_tail \<and> callee = n \<and> vid r = vid v
                       then (b\<lparr>b_instructions := butlast (b_instructions b) @
                                 [l\<lparr>i_kind := Calls (Call (Some r) callee args True)\<rparr>]\<rparr>, marked + 1)
                       else (b, marked))
                  | _ \<Rightarrow> (b, marked))
     | _ \<Rightarrow> (b, marked))"

fun mark_tail_blocks :: "string \<Rightarrow> basic_block list \<Rightarrow> usize \<Rightarrow> basic_block list \<times> usize" where
  "mark_tail_blocks n [] marked = ([], marked)"
| "mark_tail_blocks n (b # bs) marked =
     (let (b', marked') = mark_tail_block n (b, marked);
          (bs', marked'') = mark_tail_blocks n bs marked'
      in (b' # bs', marked''))"

fun mark_tail_functions :: "ir_function list \<Rightarrow> usize \<Rightarrow> ir_function list \<times> usize" where
  "mark_tail_functions [] marked = ([], marked)"
| "mark_tail_functions (f # fs) marked =
     (let (f', marked') =
            (if function_is_tail_fusion_candidate f
             then let (bs, k) = mark_tail_blocks (f_name f) (f_blocks f) marked in (f\<lparr>f_blocks := bs\<rparr>, k)
             else (f, marked));
          (fs', marked'') = mark_tail_functions fs marked'
      in (f' # fs', marked''))"

definition mark_tail_self_recursion :: "ir_module \<Rightarrow> ir_module \<times> usize" where
  "mark_tail_self_recursion m =
     (let (fs, marked) = mark_tail_functions (m_functions m) 0 in (m\<lparr>m_functions := fs\<rparr>, marked))"

section \<open>Specification\<close>

text \<open>A block ends in a self-call whose result it returns.\<close>

definition tail_position :: "string \<Rightarrow> basic_block \<Rightarrow> bool" where
  "tail_position n b \<longleftrightarrow>
     (\<exists>is i r args t v. b_instructions b = is @ [i] \<and> i_kind i = Calls (Call (Some r) n args t) \<and>
        b_terminator b = Some (Return (Some v)) \<and> vid r = vid v)"

definition is_tail_call :: "instruction_kind \<Rightarrow> bool" where
  "is_tail_call k = (case k of Calls (Call _ _ _ t) \<Rightarrow> t | _ \<Rightarrow> False)"

definition ends_in_tail_call :: "basic_block \<Rightarrow> bool" where
  "ends_in_tail_call b \<longleftrightarrow> b_instructions b \<noteq> [] \<and> is_tail_call (i_kind (last (b_instructions b)))"

definition set_tail :: "instruction \<Rightarrow> instruction" where
  "set_tail i = i\<lparr>i_kind := (case i_kind i of Calls (Call r g args _) \<Rightarrow> Calls (Call r g args True) | k \<Rightarrow> k)\<rparr>"

text \<open>What the pass does to a block: set the flag of the last instruction if the block ends
  in an unmarked self-call in tail position.\<close>

definition to_mark :: "string \<Rightarrow> basic_block \<Rightarrow> bool" where
  "to_mark n b \<longleftrightarrow> tail_position n b \<and> \<not> ends_in_tail_call b"

definition marked_block :: "string \<Rightarrow> basic_block \<Rightarrow> basic_block" where
  "marked_block n b = (if to_mark n b
     then b\<lparr>b_instructions := butlast (b_instructions b) @ [set_tail (last (b_instructions b))]\<rparr> else b)"

definition marked_function :: "ir_function \<Rightarrow> ir_function" where
  "marked_function f = (if function_is_tail_fusion_candidate f then map_blocks (marked_block (f_name f)) f else f)"

definition to_mark_count :: "ir_function \<Rightarrow> nat" where
  "to_mark_count f = (if function_is_tail_fusion_candidate f
     then length (filter (to_mark (f_name f)) (f_blocks f)) else 0)"

section \<open>The pass implements the specification\<close>

lemma to_mark_iff:
  "to_mark n b \<longleftrightarrow> (\<exists>is i r args v. b_instructions b = is @ [i] \<and> i_kind i = Calls (Call (Some r) n args False) \<and>
     b_terminator b = Some (Return (Some v)) \<and> vid r = vid v)"
  by (auto simp: to_mark_def tail_position_def ends_in_tail_call_def is_tail_call_def)

lemma mark_tail_block_eq:
  "mark_tail_block n (b, k) = (marked_block n b, k + of_bool (to_mark n b))"
proof (cases "to_mark n b")
  case True
  then obtain "is" i r args v where b: "b_instructions b = is @ [i]" "i_kind i = Calls (Call (Some r) n args False)"
    "b_terminator b = Some (Return (Some v))" "vid r = vid v"
    unfolding to_mark_iff by blast
  with True show ?thesis by (simp add: mark_tail_block_def marked_block_def set_tail_def)
next
  case False
  have "mark_tail_block n (b, k) = (b, k)"
  proof (cases "b_instructions b" rule: rev_cases)
    case (snoc "is" i)
    with False show ?thesis
      by (auto simp: mark_tail_block_def to_mark_iff split: option.splits terminator.splits
          instruction_kind.splits call_kind.splits)
  qed (simp add: mark_tail_block_def split: option.split terminator.split)
  with False show ?thesis by (simp add: marked_block_def)
qed

lemma mark_tail_blocks_eq:
  "mark_tail_blocks n bs k = (map (marked_block n) bs, k + length (filter (to_mark n) bs))"
  by (induction bs arbitrary: k) (simp_all add: mark_tail_block_eq)

lemma mark_tail_functions_eq:
  "mark_tail_functions fs k = (map marked_function fs, k + sum_list (map to_mark_count fs))"
  by (induction fs arbitrary: k)
    (simp_all add: mark_tail_blocks_eq marked_function_def to_mark_count_def map_blocks_def)

lemma mark_tail_self_recursion_eq:
  "mark_tail_self_recursion m =
     (m\<lparr>m_functions := map marked_function (m_functions m)\<rparr>, sum_list (map to_mark_count (m_functions m)))"
  by (simp add: mark_tail_self_recursion_def mark_tail_functions_eq)

section \<open>Marking once\<close>

lemma last_set_tail: "is_tail_call (i_kind (set_tail i)) \<longleftrightarrow> (\<exists>r g args t. i_kind i = Calls (Call r g args t))"
  by (auto simp: set_tail_def is_tail_call_def split: instruction_kind.splits call_kind.splits)

lemma to_mark_marked [simp]: "\<not> to_mark n (marked_block n b)"
proof (cases "to_mark n b")
  case True
  then show ?thesis
    by (auto simp: marked_block_def to_mark_def tail_position_def ends_in_tail_call_def last_set_tail)
qed (simp add: marked_block_def)

lemma blocks_tail_fusion_set_tail [simp]: "blocks_tail_fusion (i_kind (set_tail i)) = blocks_tail_fusion (i_kind i)"
  by (simp add: set_tail_def blocks_tail_fusion_def split: instruction_kind.split call_kind.split)

lemma candidate_marked [simp]:
  "function_is_tail_fusion_candidate (marked_function f) = function_is_tail_fusion_candidate f"
proof -
  have "list_all (\<lambda>i. \<not> blocks_tail_fusion (i_kind i)) (b_instructions (marked_block n b)) =
      list_all (\<lambda>i. \<not> blocks_tail_fusion (i_kind i)) (b_instructions b)" for n b
  proof (cases "to_mark n b")
    case True
    then obtain "is" i where "b_instructions b = is @ [i]" unfolding to_mark_iff by blast
    with True show ?thesis by (simp add: marked_block_def)
  qed (simp add: marked_block_def)
  then show ?thesis
    by (simp add: marked_function_def function_is_tail_fusion_candidate_def list_all_iff)
qed

lemma marked_function_again: "marked_function (marked_function f) = marked_function f \<and> to_mark_count (marked_function f) = 0"
proof (cases "function_is_tail_fusion_candidate f")
  case True
  let ?g = "map_blocks (marked_block (f_name f)) f"
  have g: "marked_function f = ?g" "function_is_tail_fusion_candidate ?g"
    using True candidate_marked [of f] by (simp_all add: marked_function_def)
  moreover have "map_blocks (marked_block (f_name f)) ?g = ?g"
    by (rule map_blocks_id) (auto simp: marked_block_def [of _ "marked_block _ _"])
  moreover have "filter (to_mark (f_name f)) (f_blocks ?g) = []"
    by (simp add: filter_empty_conv)
  ultimately show ?thesis by (simp add: marked_function_def [of ?g] to_mark_count_def)
qed (simp add: marked_function_def to_mark_count_def)

lemma marked_block_unmarked: "\<not> to_mark n b \<Longrightarrow> marked_block n b = b"
  by (simp add: marked_block_def)

section \<open>Properties\<close>

lemma marked_block_exact:
  "(ends_in_tail_call (marked_block n b) \<longleftrightarrow> ends_in_tail_call b \<or> tail_position n b) \<and>
   butlast (b_instructions (marked_block n b)) = butlast (b_instructions b) \<and>
   map set_tail (b_instructions (marked_block n b)) = map set_tail (b_instructions b) \<and>
   (marked_block n b)\<lparr>b_instructions := []\<rparr> = b\<lparr>b_instructions := []\<rparr>"
proof (cases "to_mark n b")
  case True
  then obtain "is" x r args where x: "b_instructions b = is @ [x]" "i_kind x = Calls (Call (Some r) n args False)"
    unfolding to_mark_iff by blast
  have "set_tail (set_tail x) = set_tail x" by (simp add: set_tail_def x)
  with True x show ?thesis by (auto simp: marked_block_def ends_in_tail_call_def last_set_tail to_mark_def)
next
  case False
  then show ?thesis by (auto simp: marked_block_unmarked to_mark_def)
qed

text \<open>C39: the pass marks exactly the tail self-calls and changes nothing else. The module keeps its other components and, function by
  function, everything but the blocks, block by block, everything but the instructions; the instructions before the last are untouched, the
  last one is flagged afterwards iff it was flagged before or the function is a candidate and the block returns the result of a call to
  the function itself, and only that flag may differ. The count that is returned is the number of blocks that were not flagged before and
  are now.\<close>

theorem tail_marking_exact:
  "(fst (mark_tail_self_recursion m))\<lparr>m_functions := []\<rparr> = m\<lparr>m_functions := []\<rparr> \<and>
   list_all2 (\<lambda>f f'. f'\<lparr>f_blocks := []\<rparr> = f\<lparr>f_blocks := []\<rparr> \<and>
     list_all2 (\<lambda>b b'. b'\<lparr>b_instructions := []\<rparr> = b\<lparr>b_instructions := []\<rparr> \<and>
         butlast (b_instructions b') = butlast (b_instructions b) \<and>
         map set_tail (b_instructions b') = map set_tail (b_instructions b) \<and>
         (ends_in_tail_call b' \<longleftrightarrow> ends_in_tail_call b \<or> function_is_tail_fusion_candidate f \<and> tail_position (f_name f) b))
       (f_blocks f) (f_blocks f'))
     (m_functions m) (m_functions (fst (mark_tail_self_recursion m))) \<and>
   snd (mark_tail_self_recursion m) =
     (\<Sum>f \<leftarrow> m_functions m. if function_is_tail_fusion_candidate f
        then length (filter (\<lambda>b. tail_position (f_name f) b \<and> \<not> ends_in_tail_call b) (f_blocks f)) else 0)"
proof -
  have "list_all2 R (f_blocks f) (f_blocks (marked_function f))"
    if "\<And>b. R b (if function_is_tail_fusion_candidate f then marked_block (f_name f) b else b)" for R f
    using that by (auto simp: marked_function_def list_all2_conv_all_nth split: if_splits)
  then have blocks: "list_all2 (\<lambda>b b'. b'\<lparr>b_instructions := []\<rparr> = b\<lparr>b_instructions := []\<rparr> \<and>
      butlast (b_instructions b') = butlast (b_instructions b) \<and>
      map set_tail (b_instructions b') = map set_tail (b_instructions b) \<and>
      (ends_in_tail_call b' \<longleftrightarrow> ends_in_tail_call b \<or> function_is_tail_fusion_candidate f \<and> tail_position (f_name f) b))
    (f_blocks f) (f_blocks (marked_function f))" for f
    using marked_block_exact by simp
  have "(marked_function f)\<lparr>f_blocks := []\<rparr> = f\<lparr>f_blocks := []\<rparr>" for f by (simp add: marked_function_def map_blocks_def)
  moreover have "to_mark n = (\<lambda>b. tail_position n b \<and> \<not> ends_in_tail_call b)" for n by (rule ext) (simp add: to_mark_def)
  ultimately show ?thesis using blocks by (simp add: mark_tail_self_recursion_eq list_all2_conv_all_nth to_mark_count_def [abs_def] cong: if_cong)
qed

text \<open>Of the async instructions only \<open>AsyncReady\<close> disables marking: a function that allocates a coroutine frame and is not a
  suspension barrier is flagged.\<close>

definition async_sample :: ir_function where
  "async_sample = literal_function ''down'' [\<lparr>p_id = 0, p_name = ''n'', p_ty = TInt\<rparr>] TInt 3
     [literal_block 0 [Async (FrameAlloc (Value 1) ''down'' 2), Calls (Call (Some (Value 2)) ''down'' [Value 0] False)] (Return (Some (Value 2)))]"

lemma async_function_flagged:
  "\<not> f_suspension_barrier async_sample \<and> snd (mark_tail_self_recursion (literal_module [async_sample])) = 1"
  by code_simp

text \<open>The count the pass returns is the number of flags it set, and a second run marks
  nothing and leaves the module as it is.\<close>

lemma tail_marking_count:
  "snd (mark_tail_self_recursion m) = sum_list (map to_mark_count (m_functions m)) \<and>
   mark_tail_self_recursion (fst (mark_tail_self_recursion m)) = (fst (mark_tail_self_recursion m), 0)"
  using marked_function_again by (simp add: mark_tail_self_recursion_eq comp_def)

end
