(* ===== verification/Rust_Text.thy ===== *)
theory Rust_Text
  imports Prelude
begin

text \<open>
  Rust's text as the source uses it. A \<open>char\<close> is its code point and a \<open>str\<close> the list of its characters;
  a byte is an 8-bit word. The theory has the UTF-8 encoding with the validity rules of
  \<open>std::str::from_utf8\<close>, the splitting, trimming and comparison methods of \<open>str\<close> and the integer
  parsers, and shows that decoding an encoded text gives the text back.
\<close>

section \<open>Characters and bytes\<close>

type_synonym rust_char = nat
type_synonym u8 = "8 word"
type_synonym rust_str = "rust_char list"

definition str :: "string \<Rightarrow> rust_char list" where
  "str s = map of_char s"

abbreviation ch :: "char \<Rightarrow> rust_char" where
  "ch c \<equiv> of_char c"

definition is_ascii_digit :: "rust_char \<Rightarrow> bool" where
  "is_ascii_digit c \<longleftrightarrow> 48 \<le> c \<and> c \<le> 57"

definition is_ascii_alphabetic :: "rust_char \<Rightarrow> bool" where
  "is_ascii_alphabetic c \<longleftrightarrow> 65 \<le> c \<and> c \<le> 90 \<or> 97 \<le> c \<and> c \<le> 122"

definition is_ascii_alphanumeric :: "rust_char \<Rightarrow> bool" where
  "is_ascii_alphanumeric c \<longleftrightarrow> is_ascii_digit c \<or> is_ascii_alphabetic c"

definition is_ascii_hexdigit :: "rust_char \<Rightarrow> bool" where
  "is_ascii_hexdigit c \<longleftrightarrow> is_ascii_digit c \<or> 65 \<le> c \<and> c \<le> 70 \<or> 97 \<le> c \<and> c \<le> 102"

text \<open>The property \<open>White_Space\<close> of Unicode, which \<open>trim\<close> goes by.\<close>

definition is_whitespace :: "rust_char \<Rightarrow> bool" where
  "is_whitespace c \<longleftrightarrow> 9 \<le> c \<and> c \<le> 13 \<or> 0x2000 \<le> c \<and> c \<le> 0x200A \<or>
     c \<in> {0x20, 0x85, 0xA0, 0x1680, 0x2028, 0x2029, 0x202F, 0x205F, 0x3000}"

lemma is_whitespace_ascii_first [code]:
  "is_whitespace c = (if c < 128 then 9 \<le> c \<and> c \<le> 13 \<or> c = 32 else 0x2000 \<le> c \<and> c \<le> 0x200A \<or>
     c = 0x85 \<or> c = 0xA0 \<or> c = 0x1680 \<or> c = 0x2028 \<or> c = 0x2029 \<or> c = 0x202F \<or> c = 0x205F \<or> c = 0x3000)"
  by (auto simp: is_whitespace_def)

definition len_utf8 :: "rust_char \<Rightarrow> usize" where
  "len_utf8 c = (if c < 0x80 then 1 else if c < 0x800 then 2 else if c < 0x10000 then 3 else 4)"

definition byte_len :: "rust_char list \<Rightarrow> usize" where
  "byte_len cs = sum_list (map len_utf8 cs)"

definition byte :: "nat \<Rightarrow> u8" where
  "byte n = word_of_nat n"

text \<open>A byte string literal.\<close>

definition lit :: "string \<Rightarrow> u8 list" where
  "lit s = map (\<lambda>c. byte (of_char c)) s"

text \<open>The characters a \<open>char\<close> can hold.\<close>

definition scalar_value :: "rust_char \<Rightarrow> bool" where
  "scalar_value c \<longleftrightarrow> c < 0xD800 \<or> 0xE000 \<le> c \<and> c < 0x110000"

lemma scalar_value_ascii_first [code]:
  "scalar_value c = (if c < 128 then True else c < 0xD800 \<or> 0xE000 \<le> c \<and> c < 0x110000)"
  by (simp add: scalar_value_def)

section \<open>UTF-8\<close>

definition encode_utf8 :: "rust_char \<Rightarrow> u8 list" where
  "encode_utf8 c =
     (if c < 0x80 then [byte c]
      else if c < 0x800 then [byte (0xC0 + c div 64), byte (0x80 + c mod 64)]
      else if c < 0x10000 then [byte (0xE0 + c div 4096), byte (0x80 + c div 64 mod 64), byte (0x80 + c mod 64)]
      else [byte (0xF0 + c div 262144), byte (0x80 + c div 4096 mod 64), byte (0x80 + c div 64 mod 64),
            byte (0x80 + c mod 64)])"

definition as_bytes :: "rust_str \<Rightarrow> u8 list" where
  "as_bytes s = concat (map encode_utf8 s)"

definition continuation :: "u8 \<Rightarrow> nat option" where
  "continuation b = (if 0x80 \<le> unat b \<and> unat b < 0xC0 then Some (unat b - 0x80) else None)"

text \<open>The first character of a byte string and the bytes behind it: the lead byte says how many continuation
  bytes follow; overlong forms, surrogates and code points above \<open>10FFFF\<close> are invalid.\<close>

definition decode_char :: "u8 list \<Rightarrow> (rust_char \<times> u8 list) option" where
  "decode_char bs = (case bs of
     [] \<Rightarrow> None
   | b # r1 \<Rightarrow>
      if unat b < 0x80 then Some (unat b, r1)
      else if 0xC2 \<le> unat b \<and> unat b < 0xE0 then
        (case r1 of [] \<Rightarrow> None | c1 # r2 \<Rightarrow>
           map_option (\<lambda>x. ((unat b - 0xC0) * 64 + x, r2)) (continuation c1))
      else if 0xE0 \<le> unat b \<and> unat b < 0xF0 then
        (case r1 of c1 # c2 # r3 \<Rightarrow>
           Option.bind (continuation c1) (\<lambda>x. Option.bind (continuation c2) (\<lambda>y.
             let c = (unat b - 0xE0) * 4096 + x * 64 + y
             in if 0x800 \<le> c \<and> scalar_value c then Some (c, r3) else None))
         | _ \<Rightarrow> None)
      else if 0xF0 \<le> unat b \<and> unat b < 0xF5 then
        (case r1 of c1 # c2 # c3 # r4 \<Rightarrow>
           Option.bind (continuation c1) (\<lambda>x. Option.bind (continuation c2) (\<lambda>y. Option.bind (continuation c3) (\<lambda>z.
             let c = (unat b - 0xF0) * 262144 + x * 4096 + y * 64 + z
             in if 0x10000 \<le> c \<and> scalar_value c then Some (c, r4) else None)))
         | _ \<Rightarrow> None)
      else None)"

lemma decode_char_shorter: "decode_char bs = Some (c, rest) \<Longrightarrow> length rest < length bs"
  by (auto simp: decode_char_def Let_def split: list.splits if_splits bind_splits)

function from_utf8 :: "u8 list \<Rightarrow> rust_str option" where
  "from_utf8 bs = (if bs = [] then Some [] else (case decode_char bs of
     None \<Rightarrow> None
   | Some (c, rest) \<Rightarrow> map_option ((#) c) (from_utf8 rest)))"
  by auto
termination
  by (relation "measure length") (auto dest: decode_char_shorter)

declare from_utf8.simps [simp del]

lemma from_utf8_Nil [simp]: "from_utf8 [] = Some []"
  by (simp add: from_utf8.simps)

lemma as_bytes_simps [simp]: "as_bytes [] = []" "as_bytes (c # s) = encode_utf8 c @ as_bytes s"
    "as_bytes (s @ t) = as_bytes s @ as_bytes t"
  by (simp_all add: as_bytes_def)

lemma unat_byte: "n < 256 \<Longrightarrow> unat (byte n) = n"
  by (simp add: byte_def unat_of_nat)

lemma byte_unat [simp]: "byte (unat b) = b"
  by (simp add: byte_def)

lemma byte_numeral [simp]: "byte (numeral n) = numeral n" "byte 0 = 0" "byte 1 = 1"
  by (simp_all add: byte_def)

lemma byte_inject: "a < 256 \<Longrightarrow> b < 256 \<Longrightarrow> byte a = byte b \<longleftrightarrow> a = b"
  by (metis unat_byte)

lemma encode_utf8_neq_Nil [simp]: "encode_utf8 c \<noteq> []"
  by (simp add: encode_utf8_def)

lemma base_64_digits:
  "c div 4096 * 4096 + c div 64 mod 64 * 64 + c mod 64 = (c :: nat)"
  "c div 262144 * 262144 + c div 4096 mod 64 * 4096 + c div 64 mod 64 * 64 + c mod 64 = (c :: nat)"
proof -
  have e: "c div 4096 = c div 64 div 64" "c div 262144 = c div 64 div 64 div 64" by (simp_all add: div_mult2_eq [symmetric])
  have "c = 64 * (c div 64) + c mod 64" "c div 64 = 64 * (c div 64 div 64) + c div 64 mod 64"
    "c div 64 div 64 = 64 * (c div 64 div 64 div 64) + c div 64 div 64 mod 64" by simp_all
  then show "c div 4096 * 4096 + c div 64 mod 64 * 64 + c mod 64 = c"
    "c div 262144 * 262144 + c div 4096 mod 64 * 4096 + c div 64 mod 64 * 64 + c mod 64 = c"
    unfolding e by linarith+
qed

lemma decode_encode:
  assumes "scalar_value c"
  shows "decode_char (encode_utf8 c @ bs) = Some (c, bs)"
proof -
  have c: "c < 0x110000" using assms by (auto simp: scalar_value_def)
  consider "c < 0x80" | "0x80 \<le> c" "c < 0x800" | "0x800 \<le> c" "c < 0x10000" | "0x10000 \<le> c" by linarith
  then show ?thesis
  proof cases
    case 1
    then show ?thesis by (simp add: encode_utf8_def decode_char_def unat_byte)
  next
    case 2
    then have "2 \<le> c div 64" "c div 64 < 32" by (simp_all add: less_mult_imp_div_less)
    with 2 show ?thesis
      by (simp add: encode_utf8_def decode_char_def unat_byte continuation_def)
  next
    case 3
    then have "c div 4096 < 16" by (simp add: less_mult_imp_div_less)
    then show ?thesis using 3 assms base_64_digits(1) [of c]
      by (simp add: encode_utf8_def decode_char_def unat_byte continuation_def Let_def)
  next
    case 4
    then have "c div 262144 < 5" using c by (simp add: less_mult_imp_div_less)
    then show ?thesis using 4 assms base_64_digits(2) [of c]
      by (simp add: encode_utf8_def decode_char_def unat_byte continuation_def Let_def)
  qed
qed

lemma from_utf8_as_bytes: "list_all scalar_value s \<Longrightarrow> from_utf8 (as_bytes s) = Some s"
proof (induction s)
  case (Cons c s)
  then show ?case by (subst from_utf8.simps) (simp add: decode_encode)
qed simp

text \<open>Only one encoding of a text is valid.\<close>

lemma digit_64: "(c :: nat) = q * 64 + z \<Longrightarrow> z < 64 \<Longrightarrow> c div 64 = q \<and> c mod 64 = z"
  by simp

lemma encode_decode:
  assumes "decode_char bs = Some (c, rest)"
  shows "encode_utf8 c @ rest = bs"
proof -
  obtain b r1 where bs: "bs = b # r1" using assms by (cases bs) (simp_all add: decode_char_def)
  have cont: "\<exists>u. unat y = 0x80 + x \<and> x < 64" if "continuation y = Some x" for y x
    using that by (auto simp: continuation_def split: if_splits)
  consider (one) "unat b < 0x80" | (two) "0xC2 \<le> unat b" "unat b < 0xE0" | (three) "0xE0 \<le> unat b" "unat b < 0xF0" | (four) "0xF0 \<le> unat b" "unat b < 0xF5"
    using assms bs by (auto simp: decode_char_def split: if_splits)
  then show ?thesis
  proof cases
    case one
    then show ?thesis using assms by (auto simp: bs decode_char_def encode_utf8_def)
  next
    case two
    then obtain c1 x where r: "r1 = c1 # rest" "continuation c1 = Some x" "c = (unat b - 0xC0) * 64 + x"
      using assms by (auto simp: bs decode_char_def split: list.splits)
    moreover have "unat c1 = 0x80 + x" "x < 64" using cont [OF r(2)] by auto
    moreover from this have "byte (0x80 + x) = c1" by (metis byte_unat)
    moreover have "2 \<le> unat b - 0xC0" "unat b - 0xC0 < 32" "0xC0 + (unat b - 0xC0) = unat b" using two by simp_all
    moreover from this have "128 \<le> (unat b - 0xC0) * 64" "(unat b - 0xC0) * 64 + x < 2048" using \<open>x < 64\<close> by linarith+
    ultimately show ?thesis by (simp add: bs encode_utf8_def)
  next
    case three
    then obtain c1 c2 x y where r: "r1 = c1 # c2 # rest" "continuation c1 = Some x" "continuation c2 = Some y"
      "c = (unat b - 0xE0) * 4096 + x * 64 + y" "0x800 \<le> c" "scalar_value c"
      using assms by (auto simp: bs decode_char_def Let_def split: list.splits bind_splits if_splits)
    have x: "byte (0x80 + x) = c1" "x < 64" and y: "byte (0x80 + y) = c2" "y < 64"
      using cont [OF r(2)] cont [OF r(3)] by (metis byte_unat)+
    define p where "p = unat b - 0xE0"
    have p: "byte (0xE0 + p) = b" "p < 16" using three by (simp_all add: p_def)
    have "c = (p * 64 + x) * 64 + y" using r(4) by (simp add: p_def)
    then have d: "c div 64 = p * 64 + x" "c mod 64 = y" "c < 0x10000" using digit_64 [of c "p * 64 + x" y] x y p by auto
    then have "c div 4096 = p" "c div 64 mod 64 = x" using digit_64 [of "c div 64" p x] x div_mult2_eq [of c 64 64] by simp_all
    with d x y p r show ?thesis by (simp add: bs encode_utf8_def)
  next
    case four
    then obtain c1 c2 c3 x y z where r: "r1 = c1 # c2 # c3 # rest" "continuation c1 = Some x" "continuation c2 = Some y" "continuation c3 = Some z"
      "c = (unat b - 0xF0) * 262144 + x * 4096 + y * 64 + z" "0x10000 \<le> c" "scalar_value c"
      using assms by (auto simp: bs decode_char_def Let_def split: list.splits bind_splits if_splits)
    have x: "byte (0x80 + x) = c1" "x < 64" and y: "byte (0x80 + y) = c2" "y < 64" and z: "byte (0x80 + z) = c3" "z < 64"
      using cont [OF r(2)] cont [OF r(3)] cont [OF r(4)] by (metis byte_unat)+
    define p where "p = unat b - 0xF0"
    have p: "byte (0xF0 + p) = b" using four by (simp add: p_def)
    have "c = ((p * 64 + x) * 64 + y) * 64 + z" using r(5) by (simp add: p_def)
    then have d: "c div 64 = (p * 64 + x) * 64 + y" "c mod 64 = z" using digit_64 [of c "(p * 64 + x) * 64 + y" z] z by simp_all
    then have e: "c div 64 div 64 = p * 64 + x" "c div 64 mod 64 = y" using digit_64 [of "c div 64" "p * 64 + x" y] y by simp_all
    then have "c div 64 div 64 div 64 = p" "c div 64 div 64 mod 64 = x" using digit_64 [of "c div 64 div 64" p x] x by simp_all
    with e have "c div 4096 mod 64 = x" "c div 262144 = p" by (simp_all add: div_mult2_eq [symmetric])
    with d(2) e(2) x y z p r show ?thesis by (simp add: bs encode_utf8_def)
  qed
qed

lemma as_bytes_from_utf8: "from_utf8 bs = Some s \<Longrightarrow> as_bytes s = bs"
proof (induction bs arbitrary: s rule: from_utf8.induct)
  case (1 bs)
  show ?case
  proof (cases "bs = []")
    case False
    with "1.prems" obtain c rest t where "decode_char bs = Some (c, rest)" "from_utf8 rest = Some t" "s = c # t"
      by (subst (asm) from_utf8.simps) (auto split: option.splits)
    with "1.IH" [OF False] encode_decode show ?thesis by simp
  qed (use "1.prems" in simp)
qed

lemma encode_ascii: "c < 0x80 \<Longrightarrow> encode_utf8 c = [byte c]"
  by (simp add: encode_utf8_def)

lemma as_bytes_ascii: "list_all (\<lambda>c. c < 0x80) s \<Longrightarrow> as_bytes s = map byte s"
  by (induction s) (simp_all add: encode_ascii)

lemma ascii_scalar: "c < 0x80 \<Longrightarrow> scalar_value c"
  by (simp add: scalar_value_def)

lemma length_encode_utf8: "length (encode_utf8 c) = len_utf8 c"
  by (simp add: encode_utf8_def len_utf8_def)

lemma length_as_bytes: "length (as_bytes s) = byte_len s"
  by (induction s) (simp_all add: byte_len_def length_encode_utf8)

section \<open>Methods of \<open>str\<close>\<close>

fun split_on :: "'a \<Rightarrow> 'a list \<Rightarrow> 'a list list" where
  "split_on d [] = [[]]"
| "split_on d (c # s) = (let parts = split_on d s in if c = d then [] # parts else (c # hd parts) # tl parts)"

definition split_once :: "'a \<Rightarrow> 'a list \<Rightarrow> ('a list \<times> 'a list) option" where
  "split_once d s = (case dropWhile (\<lambda>c. c \<noteq> d) s of [] \<Rightarrow> None | _ # rest \<Rightarrow> Some (takeWhile (\<lambda>c. c \<noteq> d) s, rest))"

definition strip_prefix :: "'a list \<Rightarrow> 'a list \<Rightarrow> 'a list option" where
  "strip_prefix p s = (if take (length p) s = p then Some (drop (length p) s) else None)"

definition strip_suffix :: "'a list \<Rightarrow> 'a list \<Rightarrow> 'a list option" where
  "strip_suffix p s = map_option rev (strip_prefix (rev p) (rev s))"

definition trim_matches :: "('a \<Rightarrow> bool) \<Rightarrow> 'a list \<Rightarrow> 'a list" where
  "trim_matches P s = rev (dropWhile P (rev (dropWhile P s)))"

definition trim :: "rust_str \<Rightarrow> rust_str" where
  "trim s = trim_matches is_whitespace s"

definition ascii_lower :: "rust_char \<Rightarrow> rust_char" where
  "ascii_lower c = (if 65 \<le> c \<and> c \<le> 90 then c + 32 else c)"

definition to_ascii_lowercase :: "rust_str \<Rightarrow> rust_str" where
  "to_ascii_lowercase s = map ascii_lower s"

definition eq_ignore_ascii_case :: "rust_str \<Rightarrow> rust_str \<Rightarrow> bool" where
  "eq_ignore_ascii_case a b \<longleftrightarrow> to_ascii_lowercase a = to_ascii_lowercase b"

text \<open>\<open>from_str_radix\<close> and \<open>parse\<close> of an unsigned type: an optional plus sign, then at least one digit.\<close>

definition to_digit :: "nat \<Rightarrow> rust_char \<Rightarrow> nat option" where
  "to_digit radix c = (let d = (if is_ascii_digit c then c - 48 else if 97 \<le> c \<and> c \<le> 122 then c - 87
     else if 65 \<le> c \<and> c \<le> 90 then c - 55 else radix) in if d < radix then Some d else None)"

fun digits_value :: "nat \<Rightarrow> nat \<Rightarrow> rust_str \<Rightarrow> nat option" where
  "digits_value radix acc [] = Some acc"
| "digits_value radix acc (c # s) = (case to_digit radix c of None \<Rightarrow> None | Some d \<Rightarrow> digits_value radix (acc * radix + d) s)"

definition from_str_radix :: "nat \<Rightarrow> nat \<Rightarrow> rust_str \<Rightarrow> nat option" where
  "from_str_radix radix limit s =
     (let digits = (if 2 \<le> length s \<and> hd s = ch CHR ''+'' then tl s else s)
      in if digits = [] then None
         else case digits_value radix 0 digits of None \<Rightarrow> None | Some v \<Rightarrow> if v \<le> limit then Some v else None)"

definition u8_max :: nat where "u8_max = 255"
definition u16_max :: nat where "u16_max = 65535"
definition usize_max :: nat where "usize_max = 2 ^ 64 - 1"

text \<open>Printing with \<open>:X\<close>.\<close>

definition hex_digit :: "nat \<Rightarrow> rust_char" where
  "hex_digit d = (if d < 10 then 48 + d else 55 + d)"

fun upper_hex :: "nat \<Rightarrow> rust_str" where
  "upper_hex n = (if n < 16 then [] else upper_hex (n div 16)) @ [hex_digit (n mod 16)]"

declare upper_hex.simps [simp del]

subsection \<open>Reading back what was printed\<close>

lemma str_append [simp]: "str (a @ b) = str a @ str b" "str [] = []" "str (c # cs) = of_char c # str cs"
  by (simp_all add: str_def)

lemma digits_value_append:
  "digits_value radix acc (s @ t) = Option.bind (digits_value radix acc s) (\<lambda>v. digits_value radix v t)"
  by (induction s arbitrary: acc) (auto split: option.splits)

lemma ch_digit: "d < 10 \<Longrightarrow> (of_char (char_of (48 + d)) :: nat) = 48 + d"
  by (simp add: of_char_of)

lemma str_decimal: "str (decimal n) = (if n < 10 then [] else str (decimal (n div 10))) @ [48 + n mod 10]"
  by (subst decimal.simps) (simp add: ch_digit del: of_char_of)

lemma digit_mod: "is_ascii_digit (48 + n mod 10)" "n mod 10 \<le> 9"
  by (simp_all add: is_ascii_digit_def)

lemma decimal_nonempty: "str (decimal n) \<noteq> []"
  by (subst str_decimal) simp

lemma decimal_digits: "list_all is_ascii_digit (str (decimal n))"
proof (induction n rule: decimal.induct)
  case (1 n)
  then show ?case by (subst str_decimal) (simp add: digit_mod)
qed

lemma digits_value_decimal: "digits_value 10 0 (str (decimal n)) = Some n"
proof (induction n rule: decimal.induct)
  case (1 n)
  then show ?case by (subst str_decimal) (simp add: digits_value_append to_digit_def digit_mod)
qed

lemma from_str_radix_digits:
  "s \<noteq> [] \<Longrightarrow> hd s \<noteq> ch CHR ''+'' \<Longrightarrow> digits_value radix 0 s = Some n \<Longrightarrow> n \<le> limit \<Longrightarrow> from_str_radix radix limit s = Some n"
  by (simp add: from_str_radix_def)

lemma from_str_radix_decimal: "n \<le> limit \<Longrightarrow> from_str_radix 10 limit (str (decimal n)) = Some n"
  using decimal_digits [of n] decimal_nonempty [of n] digits_value_decimal [of n]
  by (cases "str (decimal n)") (auto simp: is_ascii_digit_def from_str_radix_digits)

lemma upper_hex_nonempty: "upper_hex n \<noteq> []"
  by (subst upper_hex.simps) simp

lemma is_ascii_hexdigit_hex_digit: "d < 16 \<Longrightarrow> is_ascii_hexdigit (hex_digit d)"
  by (auto simp: is_ascii_hexdigit_def is_ascii_digit_def hex_digit_def)

lemma upper_hex_digits: "list_all is_ascii_hexdigit (upper_hex n)"
proof (induction n rule: upper_hex.induct)
  case (1 n)
  then show ?case by (subst upper_hex.simps) (simp add: is_ascii_hexdigit_hex_digit)
qed

lemma to_digit_hex: "d < 16 \<Longrightarrow> to_digit 16 (hex_digit d) = Some d"
  by (auto simp: to_digit_def hex_digit_def is_ascii_digit_def)

lemma digits_value_hex: "digits_value 16 0 (upper_hex n) = Some n"
proof (induction n rule: upper_hex.induct)
  case (1 n)
  then show ?case by (subst upper_hex.simps) (simp add: digits_value_append to_digit_hex)
qed

lemma from_str_radix_hex: "n \<le> limit \<Longrightarrow> from_str_radix 16 limit (upper_hex n) = Some n"
  using upper_hex_digits [of n] upper_hex_nonempty [of n] digits_value_hex [of n]
  by (cases "upper_hex n") (auto simp: is_ascii_hexdigit_def is_ascii_digit_def from_str_radix_digits)

lemma split_on_fresh: "d \<notin> set s \<Longrightarrow> split_on d s = [s]"
  by (induction s) (auto simp: Let_def)

lemma split_on_append: "d \<notin> set s \<Longrightarrow> split_on d (s @ d # t) = s # split_on d t"
  by (induction s) (auto simp: Let_def)

lemma split_once_append: "d \<notin> set s \<Longrightarrow> split_once d (s @ d # t) = Some (s, t)"
  by (auto simp: split_once_def dropWhile_append takeWhile_append dropWhile_eq_Nil_conv)

lemma split_once_fresh: "d \<notin> set s \<Longrightarrow> split_once d s = None"
proof -
  assume "d \<notin> set s"
  then have "dropWhile (\<lambda>c. c \<noteq> d) s = []" by (auto simp: dropWhile_eq_Nil_conv)
  then show ?thesis unfolding split_once_def by (simp only: list.case)
qed

lemma trim_matches_id: "s = [] \<or> \<not> P (hd s) \<and> \<not> P (last s) \<Longrightarrow> trim_matches P s = s"
proof (cases s)
  case (Cons c r)
  moreover assume "s = [] \<or> \<not> P (hd s) \<and> \<not> P (last s)"
  ultimately have "dropWhile P s = s" "dropWhile P (rev s) = rev s" by (auto simp: dropWhile_eq_self_iff hd_rev simp del: rev.simps)
  then show ?thesis by (simp add: trim_matches_def)
qed (simp add: trim_matches_def)

section \<open>Results\<close>

text \<open>The question mark operator on a \<open>Result\<close>, with the error on the left.\<close>

definition and_then :: "'e + 'a \<Rightarrow> ('a \<Rightarrow> 'e + 'b) \<Rightarrow> 'e + 'b" where
  "and_then r k = (case r of Inl e \<Rightarrow> Inl e | Inr x \<Rightarrow> k x)"

lemma and_then_simps [simp]: "and_then (Inl e) k = Inl e" "and_then (Inr x) k = k x"
  by (simp_all add: and_then_def)

lemma and_then_eq:
  "and_then r k = Inr y \<longleftrightarrow> (\<exists>x. r = Inr x \<and> k x = Inr y)"
  "and_then r k = Inl e \<longleftrightarrow> r = Inl e \<or> (\<exists>x. r = Inr x \<and> k x = Inl e)"
  by (cases r; auto)+

end
