(* ===== verification/Lexer.thy ===== *)
theory Lexer
  imports Rust_Text
begin

text \<open>
  The lexer, \<open>src/compiler/src/lexer/mod.rs\<close>, with \<open>token.rs\<close> and \<open>span.rs\<close> of the same crate.
  A Rust \<open>char\<close> is its code point and a source is the list of its characters; byte offsets come from
  the UTF-8 lengths. The index into the character table is the list of the characters not read yet, each
  with its offset, and moves together with the line and column (\<open>cursor\<close>). Every scanning loop is a
  function on the cursor; the main loop is \<open>lex_loop\<close>.
\<close>

section \<open>Characters and positions\<close>

fun char_indices :: "usize \<Rightarrow> rust_char list \<Rightarrow> (usize \<times> rust_char) list" where
  "char_indices n [] = []"
| "char_indices n (c # cs) = (n, c) # char_indices (n + len_utf8 c) cs"

definition is_ascii :: "rust_char list \<Rightarrow> bool" where
  "is_ascii cs \<longleftrightarrow> list_all (\<lambda>c. c < 0x80) cs"

record character_table =
  ct_source :: "rust_char list"
  ct_unicode :: "(usize \<times> rust_char) list option"

definition new_character_table :: "rust_char list \<Rightarrow> character_table" where
  "new_character_table source = \<lparr>ct_source = source,
     ct_unicode = (if is_ascii source then None else Some (char_indices 0 source))\<rparr>"

definition character_table_len :: "character_table \<Rightarrow> usize" where
  "character_table_len t = (case ct_unicode t of None \<Rightarrow> byte_len (ct_source t) | Some u \<Rightarrow> length u)"

definition character_table_get :: "character_table \<Rightarrow> usize \<Rightarrow> (usize \<times> rust_char) option" where
  "character_table_get t i = (case ct_unicode t of
     Some u \<Rightarrow> (if i < length u then Some (u ! i) else None)
   | None \<Rightarrow> (if i < length (ct_source t) then Some (i, ct_source t ! i) else None))"

record location =
  line :: usize
  column :: usize

record span =
  sp_start :: usize
  sp_end :: usize
  start_location :: location
  end_location :: location

definition new_location :: "usize \<Rightarrow> usize \<Rightarrow> location" where
  "new_location l c = \<lparr>line = l, column = c\<rparr>"

definition new_span :: "usize \<Rightarrow> usize \<Rightarrow> location \<Rightarrow> location \<Rightarrow> span" where
  "new_span a b la lb = \<lparr>sp_start = a, sp_end = b, start_location = la, end_location = lb\<rparr>"

definition dummy_span :: span where
  "dummy_span = \<lparr>sp_start = 0, sp_end = 0, start_location = new_location 1 1, end_location = new_location 1 1\<rparr>"

definition span_union :: "span \<Rightarrow> span \<Rightarrow> span" where
  "span_union l r = \<lparr>sp_start = min (sp_start l) (sp_start r), sp_end = max (sp_end l) (sp_end r),
     start_location = (if sp_start l \<le> sp_start r then start_location l else start_location r),
     end_location = (if sp_end l \<ge> sp_end r then end_location l else end_location r)\<rparr>"

section \<open>Tokens\<close>

datatype keyword = KModule | KImport | KFrom | KFunc | KReturns | KAsync | KAwait | KRecord | KEnum | KImpl | KClass | KTrait
  | KLet | KPublic | KInternal | KMut | KSelfType | KMatch | KSwitch | KCase | KIf | KElse | KWhen | KThen | KOtherwise | KUnless
  | KWhile | KDo | KFor | KIn | KLoop | KReturn | KBreak | KContinue | KAndWord | KOrWord | KNotWord | KTrue | KFalse | KType
  | KConst | KStatic | KAs | KDyn

definition keyword_words :: "(string \<times> keyword) list" where
  "keyword_words = [(''module'', KModule), (''import'', KImport), (''from'', KFrom), (''func'', KFunc), (''returns'', KReturns),
     (''async'', KAsync), (''await'', KAwait), (''record'', KRecord), (''enum'', KEnum), (''impl'', KImpl), (''class'', KClass),
     (''trait'', KTrait), (''let'', KLet), (''public'', KPublic), (''internal'', KInternal), (''mut'', KMut), (''Self'', KSelfType),
     (''match'', KMatch), (''switch'', KSwitch), (''case'', KCase), (''if'', KIf), (''else'', KElse), (''when'', KWhen),
     (''then'', KThen), (''otherwise'', KOtherwise), (''unless'', KUnless), (''while'', KWhile), (''do'', KDo), (''for'', KFor),
     (''in'', KIn), (''loop'', KLoop), (''return'', KReturn), (''break'', KBreak), (''continue'', KContinue), (''and'', KAndWord),
     (''or'', KOrWord), (''not'', KNotWord), (''true'', KTrue), (''false'', KFalse), (''type'', KType), (''const'', KConst),
     (''static'', KStatic), (''as'', KAs), (''dyn'', KDyn)]"

definition from_identifier :: "rust_char list \<Rightarrow> keyword option" where
  "from_identifier text = map_of (map (map_prod str id) keyword_words) text"

definition display_keyword :: "keyword \<Rightarrow> rust_char list" where
  "display_keyword k = str (case k of
     KModule \<Rightarrow> ''module'' | KImport \<Rightarrow> ''import'' | KFrom \<Rightarrow> ''from'' | KFunc \<Rightarrow> ''func'' | KReturns \<Rightarrow> ''returns''
   | KAsync \<Rightarrow> ''async'' | KAwait \<Rightarrow> ''await'' | KRecord \<Rightarrow> ''record'' | KEnum \<Rightarrow> ''enum'' | KImpl \<Rightarrow> ''impl'' | KClass \<Rightarrow> ''class''
   | KTrait \<Rightarrow> ''trait'' | KLet \<Rightarrow> ''let'' | KPublic \<Rightarrow> ''public'' | KInternal \<Rightarrow> ''internal'' | KMut \<Rightarrow> ''mut'' | KSelfType \<Rightarrow> ''Self''
   | KMatch \<Rightarrow> ''match'' | KSwitch \<Rightarrow> ''switch'' | KCase \<Rightarrow> ''case'' | KIf \<Rightarrow> ''if'' | KElse \<Rightarrow> ''else'' | KWhen \<Rightarrow> ''when''
   | KThen \<Rightarrow> ''then'' | KOtherwise \<Rightarrow> ''otherwise'' | KUnless \<Rightarrow> ''unless'' | KWhile \<Rightarrow> ''while'' | KDo \<Rightarrow> ''do'' | KFor \<Rightarrow> ''for''
   | KIn \<Rightarrow> ''in'' | KLoop \<Rightarrow> ''loop'' | KReturn \<Rightarrow> ''return'' | KBreak \<Rightarrow> ''break'' | KContinue \<Rightarrow> ''continue'' | KAndWord \<Rightarrow> ''and''
   | KOrWord \<Rightarrow> ''or'' | KNotWord \<Rightarrow> ''not'' | KTrue \<Rightarrow> ''true'' | KFalse \<Rightarrow> ''false'' | KType \<Rightarrow> ''type'' | KConst \<Rightarrow> ''const''
   | KStatic \<Rightarrow> ''static'' | KAs \<Rightarrow> ''as'' | KDyn \<Rightarrow> ''dyn'')"

datatype operator = EqualEqual | NotEqual | LessEqual | GreaterEqual | AndOp | OrOp | RangeOp | RangeInclusive

definition display_operator :: "operator \<Rightarrow> rust_char list" where
  "display_operator p = str (case p of EqualEqual \<Rightarrow> ''=='' | NotEqual \<Rightarrow> ''!='' | LessEqual \<Rightarrow> ''<='' | GreaterEqual \<Rightarrow> ''>=''
     | AndOp \<Rightarrow> ''&&'' | OrOp \<Rightarrow> ''||'' | RangeOp \<Rightarrow> ''..'' | RangeInclusive \<Rightarrow> ''..='')"

datatype token_kind =
    Identifier "rust_char list"
  | Number "rust_char list"
  | Keyword keyword
  | Symbol rust_char
  | Operator operator
  | StringLiteral "rust_char list"
  | CharLiteral rust_char
  | FStringLiteral "rust_char list"
  | EndOfFile

record token =
  t_kind :: token_kind
  t_span :: span

record lex_error =
  e_message :: "rust_char list"
  e_span :: span
  e_code :: string

section \<open>Scanning\<close>

text \<open>The characters that are left, with their offsets, and the line and column of the next one.\<close>

type_synonym cursor = "(usize \<times> rust_char) list \<times> location"

abbreviation (input) backslash :: rust_char where "backslash \<equiv> 92"
abbreviation (input) quote :: rust_char where "quote \<equiv> 34"
abbreviation (input) apostrophe :: rust_char where "apostrophe \<equiv> 39"
abbreviation (input) newline :: rust_char where "newline \<equiv> 10"

definition is_identifier_start :: "rust_char \<Rightarrow> bool" where
  "is_identifier_start c \<longleftrightarrow> c = ch CHR ''_'' \<or> is_ascii_alphabetic c"

definition is_identifier_continue :: "rust_char \<Rightarrow> bool" where
  "is_identifier_continue c \<longleftrightarrow> is_identifier_start c \<or> is_ascii_digit c"

definition is_symbol_char :: "rust_char \<Rightarrow> bool" where
  "is_symbol_char c \<longleftrightarrow> c \<in> set (str ''(){}[],;:.=+-*/%#@<>!&|^~?'')"

definition bump_position :: "rust_char \<Rightarrow> location \<Rightarrow> location" where
  "bump_position c l = (if c = newline then \<lparr>line = line l + 1, column = 1\<rparr> else l\<lparr>column := column l + 1\<rparr>)"

text \<open>Taking the next character; the character at a distance; the offset where the cursor stands; the
  source between two cursors.\<close>

fun advance :: "cursor \<Rightarrow> cursor" where
  "advance ([], l) = ([], l)"
| "advance ((i, c) # r, l) = (r, bump_position c l)"

definition peek :: "nat \<Rightarrow> cursor \<Rightarrow> rust_char option" where
  "peek k cur = (if k < length (fst cur) then Some (snd (fst cur ! k)) else None)"

definition offset_at :: "usize \<Rightarrow> cursor \<Rightarrow> usize" where
  "offset_at n cur = (case fst cur of [] \<Rightarrow> n | (i, c) # r \<Rightarrow> i)"

definition source_text :: "cursor \<Rightarrow> cursor \<Rightarrow> rust_char list" where
  "source_text a b = map snd (take (length (fst a) - length (fst b)) (fst a))"

definition span_between :: "usize \<Rightarrow> cursor \<Rightarrow> cursor \<Rightarrow> span" where
  "span_between n a b = new_span (offset_at n a) (offset_at n b) (snd a) (snd b)"

definition lex_err :: "string \<Rightarrow> rust_char list \<Rightarrow> span \<Rightarrow> lex_error" where
  "lex_err code msg sp = \<lparr>e_message = msg, e_span = sp, e_code = code\<rparr>"

fun skip_line_comment :: "(usize \<times> rust_char) list \<Rightarrow> location \<Rightarrow> cursor" where
  "skip_line_comment [] l = ([], l)"
| "skip_line_comment ((i, c) # r) l = (if c = newline then ((i, c) # r, l) else skip_line_comment r (bump_position c l))"

fun skip_block_comment :: "(usize \<times> rust_char) list \<Rightarrow> location \<Rightarrow> cursor \<times> bool" where
  "skip_block_comment [] l = (([], l), False)"
| "skip_block_comment ((i, c) # r) l =
     (if c = ch CHR ''*'' \<and> peek 0 (r, l) = Some (ch CHR ''/'') then (advance (r, bump_position c l), True)
      else skip_block_comment r (bump_position c l))"

fun scan_identifier :: "(usize \<times> rust_char) list \<Rightarrow> location \<Rightarrow> cursor" where
  "scan_identifier [] l = ([], l)"
| "scan_identifier ((i, c) # r) l =
     (if is_identifier_continue c then scan_identifier r (bump_position c l) else ((i, c) # r, l))"

definition escape_value :: "rust_char \<Rightarrow> rust_char option" where
  "escape_value c =
     (if c = quote then Some quote else if c = apostrophe then Some apostrophe else if c = backslash then Some backslash
      else if c = ch CHR ''n'' then Some newline else if c = ch CHR ''t'' then Some 9 else if c = ch CHR ''r'' then Some 13
      else if c = ch CHR ''0'' then Some 0 else None)"

text \<open>The body of a string or of an f-string after its opening quote: the cursor behind it, the value, the
  escape errors and whether the closing quote was found.\<close>

fun scan_string :: "(usize \<times> rust_char) list \<Rightarrow> location \<Rightarrow> cursor \<times> rust_char list \<times> lex_error list \<times> bool" where
  "scan_string [] l = (([], l), [], [], False)"
| "scan_string [(i, c)] l =
     (if c = quote then (([], bump_position c l), [], [], True) else (([], bump_position c l), [c], [], False))"
| "scan_string ((i, c) # (j, e) # r) l =
     (if c = backslash then
        let l' = bump_position e (bump_position c l)
        in (case scan_string r l' of (cur, v, errs, fin) \<Rightarrow>
          (case escape_value e of
             Some x \<Rightarrow> (cur, x # v, errs, fin)
           | None \<Rightarrow> (cur, backslash # e # v,
               lex_err ''L008'' (str ''unknown escape sequence `'' @ [backslash, e] @ str ''`'')
                 (new_span i (i + 1 + len_utf8 e) l l') # errs, fin)))
      else if c = quote then (((j, e) # r, bump_position c l), [], [], True)
      else (case scan_string ((j, e) # r) (bump_position c l) of (cur, v, errs, fin) \<Rightarrow> (cur, c # v, errs, fin)))"

definition separator_error :: "string \<Rightarrow> usize \<Rightarrow> location \<Rightarrow> location \<Rightarrow> lex_error" where
  "separator_error name i l l' = lex_err ''L007'' (str (''invalid `_` placement in '' @ name @ '' literal'')) (new_span i (i + 1) l l')"

definition next_satisfies :: "(rust_char \<Rightarrow> bool) \<Rightarrow> (usize \<times> rust_char) list \<Rightarrow> bool" where
  "next_satisfies P r = (case r of [] \<Rightarrow> False | (i, c) # _ \<Rightarrow> P c)"

text \<open>The digits after a radix prefix: the cursor, whether there was a digit, the errors and whether the
  literal is lost.\<close>

fun scan_radix :: "(rust_char \<Rightarrow> bool) \<Rightarrow> string \<Rightarrow> (usize \<times> rust_char) list \<Rightarrow> location \<Rightarrow> bool \<Rightarrow> bool
    \<Rightarrow> cursor \<times> bool \<times> lex_error list \<times> bool" where
  "scan_radix P name [] l saw prev = (([], l), saw, [], False)"
| "scan_radix P name ((i, c) # r) l saw prev =
     (if P c then scan_radix P name r (bump_position c l) True True
      else if c = ch CHR ''_'' then
        (case scan_radix P name r (bump_position c l) saw False of (cur, saw', errs, fatal) \<Rightarrow>
           if prev \<and> next_satisfies P r then (cur, saw', errs, fatal)
           else (cur, saw', separator_error name i l (bump_position c l) # errs, True))
      else (((i, c) # r, l), saw, [], False))"

definition is_sign :: "rust_char \<Rightarrow> bool" where
  "is_sign c \<longleftrightarrow> c = ch CHR ''+'' \<or> c = ch CHR ''-''"

definition exponent_follows :: "(usize \<times> rust_char) list \<Rightarrow> bool" where
  "exponent_follows r \<longleftrightarrow> next_satisfies is_ascii_digit r \<or> (next_satisfies is_sign r \<and> next_satisfies is_ascii_digit (tl r))"

fun scan_decimal :: "usize \<Rightarrow> (usize \<times> rust_char) list \<Rightarrow> location \<Rightarrow> bool \<Rightarrow> bool \<Rightarrow> bool \<Rightarrow> cursor \<times> lex_error list \<times> bool" where
  "scan_decimal n [] l dot ex prev = (([], l), [], False)"
| "scan_decimal n ((i, c) # r) l dot ex prev =
     (if is_ascii_digit c then scan_decimal n r (bump_position c l) dot ex True
      else if c = ch CHR ''_'' then
        (case scan_decimal n r (bump_position c l) dot ex False of (cur, errs, fatal) \<Rightarrow>
           if prev \<and> next_satisfies is_ascii_digit r then (cur, errs, fatal)
           else (cur, separator_error ''decimal'' i l (bump_position c l) # errs, True))
      else if c = ch CHR ''.'' \<and> \<not> dot \<and> \<not> ex \<and> next_satisfies is_ascii_digit r then
        scan_decimal n r (bump_position c l) True ex True
      else if (c = ch CHR ''e'' \<or> c = ch CHR ''E'') \<and> \<not> ex \<and> prev then
        (if \<not> exponent_follows r then
           ((r, bump_position c l),
            [lex_err ''L009'' (str ''missing digits in numeric exponent'') (new_span i n l (bump_position c l))], True)
         else (case r of
             (j, d) # r' \<Rightarrow> (if is_sign d then scan_decimal n r' (bump_position d (bump_position c l)) dot True False
                             else scan_decimal n r (bump_position c l) dot True False)
           | [] \<Rightarrow> ((r, bump_position c l), [], False)))
      else (((i, c) # r, l), [], False))"

section \<open>One round of the main loop\<close>

type_synonym lexed = "cursor \<times> token list \<times> lex_error list"

definition new_token :: "token_kind \<Rightarrow> span \<Rightarrow> token" where
  "new_token k sp = \<lparr>t_kind = k, t_span = sp\<rparr>"

definition lex_block_comment :: "usize \<Rightarrow> cursor \<Rightarrow> lexed" where
  "lex_block_comment n cur = (let start = advance (advance cur) in
     case skip_block_comment (fst start) (snd start) of (cur', closed) \<Rightarrow>
       (cur', [], if closed then []
         else [lex_err ''L006'' (str ''unterminated block comment'') (new_span (offset_at n cur) n (snd cur) (snd cur'))]))"

definition lex_fstring :: "usize \<Rightarrow> cursor \<Rightarrow> lexed" where
  "lex_fstring n cur = (let start = advance (advance cur) in
     case scan_string (fst start) (snd start) of (cur', v, errs, terminated) \<Rightarrow>
       if terminated then (cur', [new_token (FStringLiteral v) (span_between n cur cur')], errs)
       else (cur', [], errs @ [lex_err ''L005'' (str ''unterminated f-string literal'') (new_span (offset_at n cur) n (snd cur) (snd cur'))]))"

definition lex_word :: "usize \<Rightarrow> cursor \<Rightarrow> lexed" where
  "lex_word n cur = (let start = advance cur; cur' = scan_identifier (fst start) (snd start); text = source_text cur cur' in
     (cur', [new_token (case from_identifier text of Some k \<Rightarrow> Keyword k | None \<Rightarrow> Identifier text) (span_between n cur cur')], []))"

definition radix_of :: "rust_char option \<Rightarrow> ((rust_char \<Rightarrow> bool) \<times> string) option" where
  "radix_of c =
     (if c = Some (ch CHR ''x'') then Some (is_ascii_hexdigit, ''hexadecimal'')
      else if c = Some (ch CHR ''o'') then Some (\<lambda>d. 48 \<le> d \<and> d \<le> 55, ''octal'')
      else if c = Some (ch CHR ''b'') then Some (\<lambda>d. d = ch CHR ''0'' \<or> d = ch CHR ''1'', ''binary'') else None)"

definition number_token :: "usize \<Rightarrow> cursor \<Rightarrow> cursor \<Rightarrow> bool \<Rightarrow> token list" where
  "number_token n cur cur' fatal =
     (if fatal then [] else [new_token (Number (source_text cur cur')) (span_between n cur cur')])"

definition lex_number :: "usize \<Rightarrow> cursor \<Rightarrow> lexed" where
  "lex_number n cur = (let start = advance cur in
     case (if peek 0 cur = Some (ch CHR ''0'') then radix_of (peek 0 start) else None) of
       Some (P, name) \<Rightarrow>
         (let body = advance start in
          case scan_radix P name (fst body) (snd body) False False of (cur', saw, errs, fatal) \<Rightarrow>
            (cur', number_token n cur cur' (fatal \<or> \<not> saw),
             errs @ (if saw then [] else
               [lex_err ''L009'' (str (''missing digits in '' @ name @ '' literal'')) (new_span (offset_at n cur) n (snd cur) (snd cur'))])))
     | None \<Rightarrow> (case scan_decimal n (fst start) (snd start) False False True of (cur', errs, fatal) \<Rightarrow>
         (cur', number_token n cur cur' fatal, errs)))"

definition lex_string :: "usize \<Rightarrow> cursor \<Rightarrow> lexed" where
  "lex_string n cur = (let start = advance cur in
     case scan_string (fst start) (snd start) of (cur', v, errs, terminated) \<Rightarrow>
       if terminated then (cur', [new_token (StringLiteral v) (span_between n cur cur')], errs)
       else (cur', [], errs @ [lex_err ''L002'' (str ''unterminated string literal'') (new_span (offset_at n cur) n (snd cur) (snd cur'))]))"

definition char_escape :: "rust_char \<Rightarrow> rust_char" where
  "char_escape c =
     (if c = ch CHR ''n'' then newline else if c = ch CHR ''t'' then 9 else if c = ch CHR ''r'' then 13
      else if c = ch CHR ''0'' then 0 else c)"

definition char_body :: "cursor \<Rightarrow> cursor \<times> rust_char option" where
  "char_body cur = (case peek 0 cur of
     None \<Rightarrow> (cur, None)
   | Some c \<Rightarrow> (case peek 1 cur of
       Some e \<Rightarrow> if c = backslash then (advance (advance cur), Some (char_escape e))
                  else if c \<noteq> apostrophe then (advance cur, Some c) else (cur, None)
     | None \<Rightarrow> if c \<noteq> apostrophe then (advance cur, Some c) else (cur, None)))"

definition lex_char :: "usize \<Rightarrow> cursor \<Rightarrow> lexed" where
  "lex_char n cur = (case char_body (advance cur) of (body, v) \<Rightarrow>
     if peek 0 body = Some apostrophe then
       let cur' = advance body in
       (case v of
          Some c \<Rightarrow> (cur', [new_token (CharLiteral c) (span_between n cur cur')], [])
        | None \<Rightarrow> (cur', [], [lex_err ''L004'' (str ''empty character literal'') (span_between n cur cur')]))
     else (body, [], [lex_err ''L003'' (str ''unterminated character literal'') (new_span (offset_at n cur) n (snd cur) (snd body))]))"

definition symbol_of :: "rust_char \<Rightarrow> rust_char option \<Rightarrow> rust_char option \<Rightarrow> token_kind \<times> nat" where
  "symbol_of c second third =
     (if c = ch CHR ''='' \<and> second = Some (ch CHR ''='') then (Operator EqualEqual, 2)
      else if c = ch CHR ''!'' \<and> second = Some (ch CHR ''='') then (Operator NotEqual, 2)
      else if c = ch CHR ''<'' \<and> second = Some (ch CHR ''='') then (Operator LessEqual, 2)
      else if c = ch CHR ''>'' \<and> second = Some (ch CHR ''='') then (Operator GreaterEqual, 2)
      else if c = ch CHR ''&'' \<and> second = Some (ch CHR ''&'') then (Operator AndOp, 2)
      else if c = ch CHR ''|'' \<and> second = Some (ch CHR ''|'') then (Operator OrOp, 2)
      else if c = ch CHR ''.'' \<and> second = Some (ch CHR ''.'') then
        (if third = Some (ch CHR ''='') then (Operator RangeInclusive, 3) else (Operator RangeOp, 2))
      else (Symbol c, 1))"

definition arrow_error :: "usize \<Rightarrow> cursor \<Rightarrow> rust_char \<Rightarrow> rust_char option \<Rightarrow> lex_error list" where
  "arrow_error n cur c second =
     (if (c = ch CHR ''-'' \<or> c = ch CHR ''='') \<and> second = Some (ch CHR ''>'') then
        [lex_err ''L010'' (str ''arrow operator `'' @ [c] @ str ''` is not valid Spectra syntax'')
           (new_span (offset_at n cur) (offset_at n cur + 2) (snd cur) (new_location (line (snd cur)) (column (snd cur) + 1)))]
      else [])"

definition lex_symbol :: "usize \<Rightarrow> rust_char \<Rightarrow> cursor \<Rightarrow> lexed" where
  "lex_symbol n c cur = (case symbol_of c (peek 1 cur) (peek 2 cur) of (k, consumed) \<Rightarrow>
     (let cur' = (advance ^^ consumed) cur in
      (cur', [new_token k (span_between n cur cur')], arrow_error n cur c (peek 1 cur))))"

definition lex_unexpected :: "usize \<Rightarrow> rust_char \<Rightarrow> cursor \<Rightarrow> lexed" where
  "lex_unexpected n c cur = (advance cur, [],
     [lex_err ''L001'' (str ''unexpected character `'' @ [c] @ str ''`'')
        (new_span (offset_at n cur) (offset_at n cur + len_utf8 c) (snd cur) (snd (advance cur)))])"

definition lex_step :: "usize \<Rightarrow> rust_char \<Rightarrow> cursor \<Rightarrow> lexed" where
  "lex_step n c cur =
     (if c = ch CHR '' '' \<or> c = 9 \<or> c = 13 \<or> c = newline then (advance cur, [], [])
      else if c = ch CHR ''/'' \<and> peek 1 cur = Some (ch CHR ''/'') then
        (let start = advance (advance cur) in (skip_line_comment (fst start) (snd start), [], []))
      else if c = ch CHR ''/'' \<and> peek 1 cur = Some (ch CHR ''*'') then lex_block_comment n cur
      else if is_identifier_start c then
        (if c = ch CHR ''f'' \<and> peek 1 cur = Some quote then lex_fstring n cur else lex_word n cur)
      else if is_ascii_digit c then lex_number n cur
      else if c = quote then lex_string n cur
      else if c = apostrophe then lex_char n cur
      else if is_symbol_char c then lex_symbol n c cur
      else lex_unexpected n c cur)"

section \<open>Every scan moves the cursor forward\<close>

definition after :: "cursor \<Rightarrow> cursor \<Rightarrow> bool" where
  "after a b \<longleftrightarrow> (\<exists>p. fst a = p @ fst b \<and> snd b = fold bump_position (map snd p) (snd a))"

lemma after_refl [simp, intro]: "after a a"
  unfolding after_def by (rule exI [of _ "[]"]) simp

lemma after_trans: "after a b \<Longrightarrow> after b c \<Longrightarrow> after a c"
proof -
  assume "after a b" "after b c"
  then obtain p q where "fst a = p @ fst b" "snd b = fold bump_position (map snd p) (snd a)"
    "fst b = q @ fst c" "snd c = fold bump_position (map snd q) (snd b)" unfolding after_def by blast
  then have "fst a = (p @ q) @ fst c \<and> snd c = fold bump_position (map snd (p @ q)) (snd a)" by simp
  then show "after a c" unfolding after_def by blast
qed

lemma after_length: "after a b \<Longrightarrow> length (fst b) \<le> length (fst a)"
  by (auto simp: after_def)

lemma after_advance: "after a (advance a)"
proof (cases a)
  case (Pair r l)
  then show ?thesis
  proof (cases r)
    case (Cons x xs)
    then show ?thesis using Pair by (cases x) (auto simp: after_def intro: exI [of _ "[x]"])
  qed simp
qed

lemma after_cons: "after (r, bump_position c l) b \<Longrightarrow> after ((i, c) # r, l) b"
  using after_trans [of "((i, c) # r, l)" "(r, bump_position c l)" b] after_advance [of "((i, c) # r, l)"] by simp

lemma after_funpow: "after a ((advance ^^ k) a)"
proof (induction k)
  case (Suc k)
  then show ?case using after_trans [OF Suc after_advance] by simp
qed simp

lemma skip_line_after: "after (r, l) (skip_line_comment r l)"
  by (induction r l rule: skip_line_comment.induct) (auto intro: after_cons)

lemma skip_block_after: "after (r, l) (fst (skip_block_comment r l))"
proof (induction r l rule: skip_block_comment.induct)
  case (2 i c r l)
  then show ?case using after_cons [OF after_advance] by (simp add: after_cons)
qed simp

lemma scan_identifier_after: "after (r, l) (scan_identifier r l)"
  by (induction r l rule: scan_identifier.induct) (auto intro: after_cons)

lemma fst_scans:
  "fst (case x of (cur, v, errs, fin) \<Rightarrow> (cur, g v errs fin)) = fst x"
  "fst (case x of (cur, v, errs, fin) \<Rightarrow> if b then (cur, g v errs fin) else (cur, h v errs fin)) = fst x"
  "fst (case y of (cur, errs, fatal) \<Rightarrow> if b then (cur, f errs fatal) else (cur, k errs fatal)) = fst y"
  by (simp_all split: prod.split)

lemma scan_string_after: "after (r, l) (fst (scan_string r l))"
proof (induction r l rule: scan_string.induct)
  case (2 i c l)
  then show ?case by (auto intro: after_cons)
next
  case (3 i c j e r l)
  consider "c = backslash" | "c \<noteq> backslash" "c = quote" | "c \<noteq> backslash" "c \<noteq> quote" by blast
  then show ?case
  proof cases
    case 1
    then show ?thesis using after_cons [OF after_cons [OF "3.IH"(1) [OF 1 refl]]]
      by (cases "escape_value e") (simp_all add: Let_def fst_scans)
  next
    case 2
    then show ?thesis using after_cons [OF after_refl] by simp
  next
    case 3
    then show ?thesis using after_cons [OF "3.IH"(2) [OF 3]] by (simp add: fst_scans)
  qed
qed simp

lemma scan_radix_after: "after (r, l) (fst (scan_radix P name r l saw prev))"
proof (induction P name r l saw prev rule: scan_radix.induct)
  case (2 P name i c r l saw prev)
  show ?case using after_cons [OF "2.IH"(1)] after_cons [OF "2.IH"(2)] by (simp add: fst_scans)
qed simp

lemma scan_decimal_after: "after (r, l) (fst (scan_decimal n r l dot ex prev))"
proof (induction n r l dot ex prev rule: scan_decimal.induct)
  case (2 n i c r l dot ex prev)
  show ?case
  proof (cases "(c = ch CHR ''e'' \<or> c = ch CHR ''E'') \<and> \<not> ex \<and> prev \<and> exponent_follows r")
    case True
    then have "\<not> is_ascii_digit c" "c \<noteq> ch CHR ''_''" "c \<noteq> ch CHR ''.''" by (auto simp: is_ascii_digit_def)
    note skip = this
    from True obtain j d r' where r: "r = (j, d) # r'" by (cases r) (auto simp: exponent_follows_def next_satisfies_def)
    show ?thesis using True skip after_cons [OF after_cons [OF "2.IH"(4) [OF skip(1,2) _ _ _ r refl]]]
        after_cons [OF "2.IH"(5) [OF skip(1,2) _ _ _ r refl]] r by simp
  next
    case False
    then show ?thesis using after_cons [OF "2.IH"(1)] after_cons [OF "2.IH"(2)] after_cons [OF "2.IH"(3)] after_cons [OF after_refl]
      by (simp add: fst_scans) blast
  qed
qed simp

lemma char_body_after: "after cur (fst (char_body cur))"
  using after_advance after_trans [OF after_advance after_advance] by (simp add: char_body_def split: option.split)

lemma after_scan: "after (fst cur, snd cur) b \<Longrightarrow> after cur b"
  by simp

lemma lex_step_after:
  shows "after (advance cur) (fst (lex_step n c cur))"
proof -
  let ?s = "advance cur"
  have two: "after ?s (advance ?s)" by (rule after_advance)
  have comment: "after ?s (skip_line_comment (fst (advance ?s)) (snd (advance ?s)))"
    using after_trans [OF two after_scan [OF skip_line_after]] .
  have block: "after ?s (fst (lex_block_comment n cur))"
    using after_trans [OF two after_scan [OF skip_block_after]] by (simp add: lex_block_comment_def Let_def case_prod_beta)
  have fstr: "after ?s (fst (lex_fstring n cur))"
    using after_trans [OF two after_scan [OF scan_string_after]] by (simp add: lex_fstring_def Let_def case_prod_beta)
  have str: "after ?s (fst (lex_string n cur))"
    using after_scan [OF scan_string_after] by (simp add: lex_string_def Let_def case_prod_beta)
  have word: "after ?s (fst (lex_word n cur))"
    using after_scan [OF scan_identifier_after] by (simp add: lex_word_def Let_def)
  have num: "after ?s (fst (lex_number n cur))"
    using after_trans [OF two after_scan [OF scan_radix_after]] after_scan [OF scan_decimal_after]
    by (simp add: lex_number_def Let_def case_prod_beta split: option.split)
  have char: "after ?s (fst (lex_char n cur))"
    using char_body_after [of ?s] after_trans [OF char_body_after [of ?s] after_advance]
    by (simp add: lex_char_def Let_def case_prod_beta split: option.split)
  have sym: "after ?s (fst (lex_symbol n c cur))" for c
  proof -
    have "fst (lex_symbol n c cur) = (advance ^^ snd (symbol_of c (peek 1 cur) (peek 2 cur))) cur"
      by (simp add: lex_symbol_def Let_def case_prod_beta)
    moreover have "snd (symbol_of c x y) = Suc (snd (symbol_of c x y) - 1)" for x y by (simp add: symbol_of_def)
    ultimately have "fst (lex_symbol n c cur) = (advance ^^ (snd (symbol_of c (peek 1 cur) (peek 2 cur)) - 1)) ?s"
      by (metis comp_apply funpow_Suc_right)
    then show ?thesis by (simp add: after_funpow)
  qed
  show ?thesis using comment block fstr str word num char sym
    by (simp add: lex_step_def lex_unexpected_def Let_def)
qed

lemma lex_step_shorter: "(cur, ts, es) = lex_step n c ((i, d) # r, l) \<Longrightarrow> length (fst cur) < Suc (length r)"
  using after_length [OF lex_step_after [of "((i, d) # r, l)" n c]] by (cases "lex_step n c ((i, d) # r, l)") simp

function lex_loop :: "usize \<Rightarrow> cursor \<Rightarrow> cursor \<times> token list \<times> lex_error list" where
  "lex_loop n ([], l) = (([], l), [], [])"
| "lex_loop n ((i, c) # r, l) = (case lex_step n c ((i, c) # r, l) of (cur, ts, es) \<Rightarrow>
     (case lex_loop n cur of (cur', ts', es') \<Rightarrow> (cur', ts @ ts', es @ es')))"
  by pat_completeness auto

termination
  by (relation "measure (\<lambda>(n, cur). length (fst cur))") (auto dest: lex_step_shorter)

section \<open>Tokenizing\<close>

record lexer =
  lx_source :: "rust_char list"
  lx_origin_offset :: usize
  lx_origin_location :: location

definition new_lexer :: "rust_char list \<Rightarrow> lexer" where
  "new_lexer source = \<lparr>lx_source = source, lx_origin_offset = 0, lx_origin_location = new_location 1 1\<rparr>"

definition with_origin :: "rust_char list \<Rightarrow> usize \<Rightarrow> location \<Rightarrow> lexer" where
  "with_origin source offset loc = \<lparr>lx_source = source, lx_origin_offset = offset, lx_origin_location = loc\<rparr>"

definition table_characters :: "character_table \<Rightarrow> (usize \<times> rust_char) list" where
  "table_characters t = List.map_filter (character_table_get t) [0..<character_table_len t]"

definition shift_span :: "usize \<Rightarrow> span \<Rightarrow> span" where
  "shift_span k sp = sp\<lparr>sp_start := sp_start sp + k, sp_end := sp_end sp + k\<rparr>"

definition shift_token :: "usize \<Rightarrow> token \<Rightarrow> token" where
  "shift_token k t = t\<lparr>t_span := shift_span k (t_span t)\<rparr>"

definition shift_error :: "usize \<Rightarrow> lex_error \<Rightarrow> lex_error" where
  "shift_error k e = e\<lparr>e_span := shift_span k (e_span e)\<rparr>"

definition tokenize :: "lexer \<Rightarrow> lex_error list + token list" where
  "tokenize lx =
     (let n = byte_len (lx_source lx);
          start = (table_characters (new_character_table (lx_source lx)), lx_origin_location lx)
      in case lex_loop n start of (cur, ts, es) \<Rightarrow>
        (let tokens = ts @ [new_token EndOfFile (new_span n n (snd cur) (snd cur))];
             k = lx_origin_offset lx;
             tokens' = (if k \<noteq> 0 then map (shift_token k) tokens else tokens);
             es' = (if k \<noteq> 0 then map (shift_error k) es else es)
         in if es' = [] then Inr tokens' else Inl es'))"

end
