(* ===== verification/Lexer_Correct.thy ===== *)
theory Lexer_Correct
  imports Lexer
begin

text \<open>
  What the lexer (theory \<open>Lexer\<close>, \<open>src/compiler/src/lexer/mod.rs\<close>) promises the parser: the tokens
  tile the source from left to right with exact offsets, lines and columns and the text they stand for; the
  byte-indexed table for ASCII sources is the Unicode index; and what is printed token by token is read back.
\<close>

section \<open>The character table\<close>

lemma length_char_indices [simp]: "length (char_indices n cs) = length cs"
  by (induction cs arbitrary: n) simp_all

lemma snd_char_indices [simp]: "map snd (char_indices n cs) = cs"
  by (induction cs arbitrary: n) simp_all

lemma byte_len_simps [simp]: "byte_len [] = 0" "byte_len (c # cs) = len_utf8 c + byte_len cs"
  "byte_len (xs @ ys) = byte_len xs + byte_len ys"
  by (simp_all add: byte_len_def)

lemma char_indices_append: "char_indices n (xs @ ys) = char_indices n xs @ char_indices (n + byte_len xs) ys"
  by (induction xs arbitrary: n) (simp_all add: add.assoc)

lemma drop_char_indices: "drop k (char_indices n cs) = char_indices (n + byte_len (take k cs)) (drop k cs)"
proof (cases "k \<le> length cs")
  case True
  have "char_indices n cs = char_indices n (take k cs) @ char_indices (n + byte_len (take k cs)) (drop k cs)"
    using char_indices_append [of n "take k cs" "drop k cs"] by simp
  then show ?thesis using True by simp
qed simp

lemma nth_char_indices: "i < length cs \<Longrightarrow> char_indices n cs ! i = (n + byte_len (take i cs), cs ! i)"
  by (induction cs arbitrary: n i) (auto simp: nth_Cons take_Cons split: nat.split)

lemma ascii_byte_len: "list_all (\<lambda>c. c < 0x80) cs \<Longrightarrow> byte_len cs = length cs"
  by (induction cs) (simp_all add: len_utf8_def)

lemma map_filter_nth: "(\<And>i. i < length xs \<Longrightarrow> f i = Some (xs ! i)) \<Longrightarrow> List.map_filter f [0..<length xs] = xs"
proof -
  assume "\<And>i. i < length xs \<Longrightarrow> f i = Some (xs ! i)"
  then have "filter (\<lambda>i. f i \<noteq> None) [0..<length xs] = [0..<length xs]" "map (the \<circ> f) [0..<length xs] = map (nth xs) [0..<length xs]"
    by (simp_all add: filter_id_conv)
  then show ?thesis by (simp add: List.map_filter_def map_nth)
qed

lemma table_characters_eq: "table_characters (new_character_table s) = char_indices 0 s"
proof (cases "is_ascii s")
  case True
  have "character_table_get (new_character_table s) i = Some (char_indices 0 s ! i)" if "i < length s" for i
  proof -
    have "byte_len (take i s) = i" using True ascii_byte_len [of "take i s"] that
      by (simp add: is_ascii_def list_all_length)
    then show ?thesis using True that by (simp add: character_table_get_def new_character_table_def nth_char_indices)
  qed
  then show ?thesis using True map_filter_nth [of "char_indices 0 s"] ascii_byte_len [of s]
    by (simp add: table_characters_def character_table_len_def new_character_table_def is_ascii_def)
next
  case False
  then have "character_table_get (new_character_table s) i = Some (char_indices 0 s ! i)" if "i < length s" for i
    using that by (simp add: character_table_get_def new_character_table_def)
  then show ?thesis using False map_filter_nth [of "char_indices 0 s"]
    by (simp add: table_characters_def character_table_len_def new_character_table_def)
qed

section \<open>Tokens tile the source\<close>

text \<open>The line and column of character \<open>k\<close> of a source that starts at \<open>l\<close>: lines are counted by the
  newlines before it, columns from the last of them.\<close>

definition position :: "rust_char list \<Rightarrow> location \<Rightarrow> nat \<Rightarrow> location" where
  "position s l k = (let before = take k s in
     new_location (line l + count_list before newline)
       (if newline \<in> set before then 1 + length (takeWhile (\<lambda>c. c \<noteq> newline) (rev before)) else column l + length before))"

lemma fold_bump_position: "fold bump_position p l = new_location (line l + count_list p newline)
    (if newline \<in> set p then 1 + length (takeWhile (\<lambda>c. c \<noteq> newline) (rev p)) else column l + length p)"
proof (induction p rule: rev_induct)
  case (snoc c p)
  then show ?case by (simp add: bump_position_def new_location_def)
qed (simp add: new_location_def)

lemma position_bump: "position s l k = fold bump_position (take k s) l"
  unfolding fold_bump_position by (simp add: position_def Let_def)

definition at_char :: "rust_char list \<Rightarrow> location \<Rightarrow> nat \<Rightarrow> cursor \<Rightarrow> bool" where
  "at_char s l k cur \<longleftrightarrow> k \<le> length s \<and> cur = (drop k (char_indices 0 s), position s l k)"

lemma at_char_start: "at_char s l 0 (char_indices 0 s, l)"
  by (simp add: at_char_def position_bump)

lemma at_char_after:
  assumes a: "at_char s l i a" and b: "after a b"
  obtains j where "i \<le> j" "at_char s l j b" "length (fst a) = length (fst b) + (j - i)"
proof -
  obtain p where p: "fst a = p @ fst b" "snd b = fold bump_position (map snd p) (snd a)" using b unfolding after_def by blast
  let ?j = "i + length p"
  have "length (fst a) = length s - i" using a by (simp add: at_char_def)
  then have len: "?j \<le> length s" "i \<le> length s" using p(1) a by (auto simp: at_char_def)
  have "fst b = drop (length p) (fst a)" using p(1) by simp
  then have rest: "fst b = drop ?j (char_indices 0 s)" using a by (simp add: at_char_def add.commute)
  have "map snd p = take (length p) (map snd (fst a))" using p(1) by simp
  also have "map snd (fst a) = drop i s" using a by (simp add: at_char_def flip: drop_map)
  finally have "take ?j s = take i s @ map snd p" by (simp add: take_add)
  then have "snd b = position s l ?j" using p(2) a by (simp add: at_char_def position_bump)
  with rest len have "at_char s l ?j b" by (simp add: at_char_def prod_eq_iff)
  with p(1) show ?thesis by (intro that [of ?j]) simp_all
qed

lemma offset_at_char: "at_char s l k cur \<Longrightarrow> offset_at (byte_len s) cur = byte_len (take k s)"
proof -
  assume k: "at_char s l k cur"
  show ?thesis
  proof (cases "k < length s")
    case True
    then have "fst cur = char_indices (byte_len (take k s)) (s ! k # drop (Suc k) s)"
      using k by (simp add: at_char_def drop_char_indices Cons_nth_drop_Suc)
    then show ?thesis by (simp add: offset_at_def)
  next
    case False
    then show ?thesis using k by (simp add: at_char_def offset_at_def)
  qed
qed

lemma source_text_between:
  assumes "at_char s l i a" "at_char s l j b" "i \<le> j"
  shows "source_text a b = take (j - i) (drop i s)"
proof -
  have "length (fst a) - length (fst b) = j - i" using assms by (simp add: at_char_def)
  then show ?thesis using assms by (simp add: source_text_def at_char_def flip: take_map drop_map)
qed

text \<open>What the text of a token is: itself for a name, a number, a symbol, an operator or a keyword, and
  delimited for a literal.\<close>

definition delimited :: "rust_char list \<Rightarrow> rust_char \<Rightarrow> rust_char list \<Rightarrow> bool" where
  "delimited pre q text \<longleftrightarrow> (\<exists>body. text = pre @ [q] @ body @ [q])"

fun kind_text :: "token_kind \<Rightarrow> rust_char list \<Rightarrow> bool" where
  "kind_text (Identifier w) text \<longleftrightarrow> text = w \<and> from_identifier w = None"
| "kind_text (Number w) text \<longleftrightarrow> text = w"
| "kind_text (Keyword k) text \<longleftrightarrow> text = display_keyword k"
| "kind_text (Symbol c) text \<longleftrightarrow> text = [c]"
| "kind_text (Operator p) text \<longleftrightarrow> text = display_operator p"
| "kind_text (StringLiteral v) text \<longleftrightarrow> delimited [] quote text"
| "kind_text (CharLiteral c) text \<longleftrightarrow> delimited [] apostrophe text"
| "kind_text (FStringLiteral v) text \<longleftrightarrow> delimited (str ''f'') quote text"
| "kind_text EndOfFile text \<longleftrightarrow> text = []"

text \<open>A token that stands for the characters from \<open>i\<close> up to \<open>j\<close>, and tokens one after the other.\<close>

definition token_covers :: "rust_char list \<Rightarrow> location \<Rightarrow> nat \<Rightarrow> nat \<Rightarrow> token \<Rightarrow> bool" where
  "token_covers s l i j t \<longleftrightarrow> kind_text (t_kind t) (take (j - i) (drop i s)) \<and>
     t_span t = new_span (byte_len (take i s)) (byte_len (take j s)) (position s l i) (position s l j)"

fun tokens_tile :: "rust_char list \<Rightarrow> location \<Rightarrow> nat \<Rightarrow> token list \<Rightarrow> bool" where
  "tokens_tile s l k [] \<longleftrightarrow> k \<le> length s"
| "tokens_tile s l k (t # ts) \<longleftrightarrow> (\<exists>i j. k \<le> i \<and> i < j \<and> token_covers s l i j t \<and> tokens_tile s l j ts)"

lemma tokens_tile_bound: "tokens_tile s l k ts \<Longrightarrow> k \<le> length s"
proof (induction ts arbitrary: k)
  case (Cons t ts)
  then obtain i j where "k \<le> i" "i < j" "tokens_tile s l j ts" by auto
  then show ?case using Cons.IH [of j] by simp
qed simp

lemma tokens_tile_mono: "tokens_tile s l k ts \<Longrightarrow> k' \<le> k \<Longrightarrow> tokens_tile s l k' ts"
  by (cases ts) (auto intro: order_trans)

lemma span_between_covers:
  assumes "at_char s l i a" "at_char s l j b" "i \<le> j" "kind_text k (source_text a b)"
  shows "token_covers s l i j (new_token k (span_between (byte_len s) a b))"
  using assms by (simp add: token_covers_def new_token_def span_between_def offset_at_char source_text_between)
    (simp add: at_char_def)

subsection \<open>What one round produces\<close>

lemma keyword_text: "from_identifier w = Some k \<Longrightarrow> display_keyword k = w"
proof -
  assume "from_identifier w = Some k"
  then have "(w, k) \<in> set (map (map_prod str id) keyword_words)" unfolding from_identifier_def by (rule map_of_SomeD)
  then show ?thesis by (auto simp: keyword_words_def display_keyword_def)
qed

lemma source_text_prefix: "fst a = p @ fst b \<Longrightarrow> source_text a b = map snd p"
  by (simp add: source_text_def)

lemma scan_string_closed:
  "snd (snd (snd (scan_string r l))) \<Longrightarrow> \<exists>p i. r = p @ (i, quote) # fst (fst (scan_string r l))"
proof (induction r l rule: scan_string.induct)
  case (2 i c l)
  then show ?case by (auto split: if_splits)
next
  case (3 i c j e r l)
  consider "c = backslash" | "c \<noteq> backslash" "c = quote" | "c \<noteq> backslash" "c \<noteq> quote" by blast
  then show ?case
  proof cases
    case 1
    let ?x = "scan_string r (bump_position e (bump_position c l))"
    have x: "fst (scan_string ((i, c) # (j, e) # r) l) = fst ?x" "snd (snd (snd (scan_string ((i, c) # (j, e) # r) l))) = snd (snd (snd ?x))"
      using 1 by (simp_all add: Let_def case_prod_beta split: option.split)
    then obtain p k where "r = p @ (k, quote) # fst (fst ?x)" using "3.IH"(1) [OF 1 refl] 3 by auto
    then show ?thesis unfolding x by (intro exI [of _ "(i, c) # (j, e) # p"]) auto
  next
    case 2
    then show ?thesis by (intro exI [of _ "[]"] exI [of _ i]) simp
  next
    case 3
    let ?x = "scan_string ((j, e) # r) (bump_position c l)"
    have x: "fst (scan_string ((i, c) # (j, e) # r) l) = fst ?x" "snd (snd (snd (scan_string ((i, c) # (j, e) # r) l))) = snd (snd (snd ?x))"
      using 3 by (simp_all add: case_prod_beta)
    then obtain p k where "(j, e) # r = p @ (k, quote) # fst (fst ?x)" using "3.IH"(2) [OF 3] "3.prems" by auto
    then show ?thesis unfolding x by (intro exI [of _ "(i, c) # p"]) auto
  qed
qed simp

definition one_token :: "usize \<Rightarrow> cursor \<Rightarrow> lexed \<Rightarrow> bool" where
  "one_token n cur res \<longleftrightarrow> fst (snd res) = [] \<or>
     (\<exists>k. fst (snd res) = [new_token k (span_between n cur (fst res))] \<and> kind_text k (source_text cur (fst res)))"

lemma one_tokenI: "kind_text k (source_text cur cur') \<Longrightarrow> one_token n cur (cur', [new_token k (span_between n cur cur')], es)"
  unfolding one_token_def by (rule disjI2) (rule exI [of _ k], simp)

lemma no_token: "one_token n cur (cur', [], es)"
  by (simp add: one_token_def)

lemma one_token_word: "one_token n cur (lex_word n cur)"
  unfolding lex_word_def Let_def by (rule one_tokenI) (auto split: option.split dest: keyword_text)

lemma one_token_number: "one_token n cur (lex_number n cur)"
  by (auto simp: lex_number_def Let_def number_token_def no_token one_tokenI split: option.split prod.split)

lemma closed_text:
  assumes "fst cur = q @ fst start" "snd (snd (snd (scan_string (fst start) (snd start))))"
  shows "\<exists>body. source_text cur (fst (scan_string (fst start) (snd start))) = map snd q @ body @ [quote]"
proof -
  obtain p i where "fst start = p @ (i, quote) # fst (fst (scan_string (fst start) (snd start)))"
    using scan_string_closed [OF assms(2)] by blast
  then have "fst cur = (q @ p @ [(i, quote)]) @ fst (fst (scan_string (fst start) (snd start)))" using assms(1) by simp
  from source_text_prefix [OF this] show ?thesis by auto
qed

lemma advance_eq: "fst cur = (i, c) # r \<Longrightarrow> fst (advance cur) = r"
  by (cases cur) simp

lemma one_token_string:
  assumes cur: "fst cur = (i, quote) # r"
  shows "one_token n cur (lex_string n cur)"
proof -
  obtain cur' v errs fin where x: "scan_string (fst (advance cur)) (snd (advance cur)) = (cur', v, errs, fin)" by (metis prod_cases4)
  show ?thesis
  proof (cases fin)
    case True
    then have "\<exists>body. source_text cur cur' = quote # body @ [quote]"
      using closed_text [of cur "[(i, quote)]" "advance cur"] cur x by (simp add: advance_eq)
    then show ?thesis using x True by (simp add: lex_string_def Let_def one_tokenI delimited_def)
  qed (simp add: lex_string_def Let_def x no_token)
qed

lemma one_token_fstring:
  assumes cur: "fst cur = (i, ch CHR ''f'') # r" "peek 1 cur = Some quote"
  shows "one_token n cur (lex_fstring n cur)"
proof -
  obtain j r' where r: "r = (j, quote) # r'" using cur by (cases r) (auto simp: peek_def)
  obtain cur' v errs fin where x: "scan_string (fst (advance (advance cur))) (snd (advance (advance cur))) = (cur', v, errs, fin)"
    by (metis prod_cases4)
  have rest: "fst (advance (advance cur)) = r'" using cur(1) r by (simp add: advance_eq [of "advance cur"] advance_eq)
  show ?thesis
  proof (cases fin)
    case True
    then have "\<exists>body. source_text cur cur' = 102 # quote # body @ [quote]"
      using closed_text [of cur "[(i, ch CHR ''f''), (j, quote)]" "advance (advance cur)"] cur r x rest by simp
    then show ?thesis using x True by (simp add: lex_fstring_def Let_def one_tokenI delimited_def str_def)
  qed (simp add: lex_fstring_def Let_def x no_token)
qed

lemma one_token_char:
  assumes cur: "fst cur = (i, apostrophe) # r"
  shows "one_token n cur (lex_char n cur)"
proof -
  obtain body v where x: "char_body (advance cur) = (body, v)" by (rule prod.exhaust)
  have "after (advance cur) body" using char_body_after [of "advance cur"] x by simp
  then obtain p where p: "r = p @ fst body" using advance_eq [OF cur] unfolding after_def by auto
  show ?thesis
  proof (cases "peek 0 body = Some apostrophe")
    case True
    then obtain j r' where b: "fst body = (j, apostrophe) # r'" by (cases "fst body") (auto simp: peek_def)
    then have "fst cur = ((i, apostrophe) # p @ [(j, apostrophe)]) @ fst (advance body)" using cur p by (simp add: advance_eq)
    from source_text_prefix [OF this] have "delimited [] apostrophe (source_text cur (advance body))" by (simp add: delimited_def)
    then show ?thesis using x True by (simp add: lex_char_def Let_def one_tokenI no_token split: option.split)
  qed (simp add: lex_char_def x no_token)
qed

lemma fst_advances: "fst ((advance ^^ k) cur) = drop k (fst cur)"
proof (induction k)
  case (Suc k)
  have "fst (advance c) = tl (fst c)" for c by (cases c; cases "fst c") auto
  then show ?case using Suc by (simp add: drop_Suc tl_drop)
qed simp

lemma one_token_symbol:
  assumes cur: "fst cur = (i, c) # r"
  shows "one_token n cur (lex_symbol n c cur)"
proof -
  obtain k m where x: "symbol_of c (peek 1 cur) (peek 2 cur) = (k, m)" by force
  have m: "source_text cur ((advance ^^ m) cur) = take m (map snd (fst cur))"
    by (cases "m \<le> length (fst cur)") (simp_all add: source_text_def fst_advances take_map)
  have "kind_text k (take m (map snd (fst cur)))"
    using x cur by (auto simp: symbol_of_def peek_def display_operator_def str_def numeral_2_eq_2 numeral_3_eq_3 take_Suc
      neq_Nil_conv nth_Cons' split: if_splits)
  then show ?thesis using x m by (simp add: lex_symbol_def Let_def one_tokenI)
qed

lemma lex_step_token:
  assumes cur: "fst cur = (i, c) # r"
  shows "one_token n cur (lex_step n c cur)"
  using one_token_word [of n cur] one_token_number [of n cur] one_token_string [of cur i r n] one_token_fstring [of cur i r n]
    one_token_char [of cur i r n] one_token_symbol [OF cur, of n] cur no_token
  by (auto simp: lex_step_def Let_def lex_unexpected_def lex_block_comment_def split: prod.split)

lemma lex_loop_tiles:
  assumes "at_char s l k cur"
  shows "tokens_tile s l k (fst (snd (lex_loop (byte_len s) cur))) \<and> at_char s l (length s) (fst (lex_loop (byte_len s) cur))"
  using assms
proof (induction "byte_len s" cur arbitrary: k rule: lex_loop.induct)
  case (1 loc)
  then have "k = length s" by (simp add: at_char_def)
  then show ?case using 1 by simp
next
  case (2 i c r loc)
  let ?cur = "((i, c) # r, loc)"
  obtain cur' ts es where x: "lex_step (byte_len s) c ?cur = (cur', ts, es)" by (rule prod_cases3)
  obtain cur'' ts' es' where y: "lex_loop (byte_len s) cur' = (cur'', ts', es')" by (rule prod_cases3)
  have "after (advance ?cur) cur'" using lex_step_after [of ?cur "byte_len s" c] x by simp
  then have aft: "after ?cur cur'" "length (fst cur') < length (fst ?cur)"
    using after_cons after_length [of "advance ?cur" cur'] by auto
  from at_char_after [OF 2(2) aft(1)] obtain j where j: "k \<le> j" "at_char s l j cur'" "length (fst ?cur) = length (fst cur') + (j - k)" .
  with aft(2) have "k < j" by (cases "j = k") simp_all
  have IH: "tokens_tile s l j ts'" "at_char s l (length s) cur''" using "2.hyps" [OF x [symmetric] refl j(2)] y by simp_all
  have "one_token (byte_len s) ?cur (cur', ts, es)" using lex_step_token [of ?cur i c r "byte_len s"] x by simp
  then consider "ts = []" | kd where "ts = [new_token kd (span_between (byte_len s) ?cur cur')]" "kind_text kd (source_text ?cur cur')"
    by (auto simp: one_token_def)
  then have "tokens_tile s l k (ts @ ts')"
  proof cases
    case 1
    then show ?thesis using tokens_tile_mono [OF IH(1) j(1)] by simp
  next
    case 2
    then show ?thesis using span_between_covers [OF "2.prems" j(2) j(1) 2(2)] IH(1) \<open>k < j\<close> by auto
  qed
  then show ?case using x y IH(2) by simp
qed

text \<open>C31: When the lexer accepts a source, its tokens tile the source: each token stands for a non-empty
  range of characters after those of the token before it, its byte offsets, lines and columns are those of
  that range, and the range is the text of the token; the last token is the end of the file, at the end of
  the source.\<close>

theorem tokenize_tiles:
  assumes "tokenize (new_lexer s) = Inr ts"
  shows "\<exists>ts'. ts = ts' @ [new_token EndOfFile (new_span (byte_len s) (byte_len s)
      (position s (new_location 1 1) (length s)) (position s (new_location 1 1) (length s)))] \<and>
    tokens_tile s (new_location 1 1) 0 ts'"
proof -
  obtain cur ts' es where x: "lex_loop (byte_len s) (char_indices 0 s, new_location 1 1) = (cur, ts', es)" by (rule prod_cases3)
  with lex_loop_tiles [OF at_char_start, of s "new_location 1 1"]
  have "tokens_tile s (new_location 1 1) 0 ts'" "snd cur = position s (new_location 1 1) (length s)" by (simp_all add: at_char_def)
  then show ?thesis using assms x
    by (auto simp: tokenize_def new_lexer_def table_characters_eq Let_def split: if_splits)
qed

theorem tokenize_tiles_witness:
  "\<exists>ts'. [new_token (Keyword KDo) (new_span 0 2 (new_location 1 1) (new_location 1 3)),
      new_token EndOfFile (new_span 3 3 (new_location 2 1) (new_location 2 1))] =
    ts' @ [new_token EndOfFile (new_span (byte_len (str ''do'' @ [10])) (byte_len (str ''do'' @ [10]))
      (position (str ''do'' @ [10]) (new_location 1 1) 3) (position (str ''do'' @ [10]) (new_location 1 1) 3))] \<and>
    tokens_tile (str ''do'' @ [10]) (new_location 1 1) 0 ts'"
proof -
  have "tokenize (new_lexer (str ''do'' @ [10])) = Inr [new_token (Keyword KDo) (new_span 0 2 (new_location 1 1) (new_location 1 3)),
      new_token EndOfFile (new_span 3 3 (new_location 2 1) (new_location 2 1))]" by code_simp
  moreover have "length (str ''do'' @ [10]) = 3" by (simp add: str_def)
  ultimately show ?thesis using tokenize_tiles [of "str ''do'' @ [10]"] by metis
qed

section \<open>What is printed is read back\<close>

definition escape_char :: "rust_char \<Rightarrow> rust_char list" where
  "escape_char c = (if c = quote then [backslash, quote] else if c = backslash then [backslash, backslash]
     else if c = newline then [backslash, ch CHR ''n''] else if c = 9 then [backslash, ch CHR ''t'']
     else if c = 13 then [backslash, ch CHR ''r''] else if c = 0 then [backslash, ch CHR ''0''] else [c])"

definition escape_string :: "rust_char list \<Rightarrow> rust_char list" where
  "escape_string v = concat (map escape_char v)"

fun print_kind :: "token_kind \<Rightarrow> rust_char list" where
  "print_kind (Identifier w) = w"
| "print_kind (Number w) = w"
| "print_kind (Keyword k) = display_keyword k"
| "print_kind (Symbol c) = [c]"
| "print_kind (Operator p) = display_operator p"
| "print_kind (StringLiteral v) = [quote] @ escape_string v @ [quote]"
| "print_kind (CharLiteral c) = [apostrophe] @ (if c = apostrophe \<or> c = backslash then [backslash, c] else [c]) @ [apostrophe]"
| "print_kind (FStringLiteral v) = [ch CHR ''f'', quote] @ escape_string v @ [quote]"
| "print_kind EndOfFile = []"

fun printable :: "token_kind \<Rightarrow> bool" where
  "printable (Identifier w) \<longleftrightarrow> w \<noteq> [] \<and> is_identifier_start (hd w) \<and> list_all is_identifier_continue (tl w) \<and> from_identifier w = None"
| "printable (Number w) \<longleftrightarrow> w \<noteq> [] \<and> list_all is_ascii_digit w"
| "printable (Symbol c) \<longleftrightarrow> is_symbol_char c"
| "printable EndOfFile \<longleftrightarrow> False"
| "printable _ \<longleftrightarrow> True"

definition print_tokens :: "token_kind list \<Rightarrow> rust_char list" where
  "print_tokens ks = concat (map (\<lambda>k. print_kind k @ [ch CHR '' '']) ks)"

text \<open>A round that reads one token of kind \<open>k\<close> and leaves the characters \<open>rest\<close>.\<close>

definition reads :: "lexed \<Rightarrow> token_kind \<Rightarrow> rust_char list \<Rightarrow> bool" where
  "reads res k rest \<longleftrightarrow> map snd (fst (fst res)) = rest \<and> map t_kind (fst (snd res)) = [k] \<and> snd (snd res) = []"

lemma peek_chars: "peek k cur = (if k < length (map snd (fst cur)) then Some (map snd (fst cur) ! k) else None)"
  by (simp add: peek_def)

lemma advance_chars: "map snd (fst (advance cur)) = tl (map snd (fst cur))"
  by (cases cur; cases "fst cur") (auto simp: map_tl)

lemma source_text_chars: "map snd (fst a) = p @ map snd (fst b) \<Longrightarrow> source_text a b = p"
proof -
  assume eq: "map snd (fst a) = p @ map snd (fst b)"
  then have "length (fst a) = length p + length (fst b)" by (metis length_append length_map)
  then show ?thesis using eq by (simp add: source_text_def flip: take_map)
qed

lemma scan_identifier_chars:
  "map snd r = w @ c # rest \<Longrightarrow> list_all is_identifier_continue w \<Longrightarrow> \<not> is_identifier_continue c \<Longrightarrow>
   map snd (fst (scan_identifier r l)) = c # rest"
proof (induction w arbitrary: r l)
  case Nil
  then obtain i r' where "r = (i, c) # r'" "map snd r' = rest" by (cases r) auto
  then show ?case using Nil by simp
next
  case (Cons a w)
  then obtain i r' where "r = (i, a) # r'" "map snd r' = w @ c # rest" by (cases r) auto
  then show ?case using Cons by simp
qed

lemma not_word_space: "\<not> is_identifier_continue 32" "\<not> is_ascii_digit 32"
  by (simp_all add: is_identifier_continue_def is_identifier_start_def is_ascii_alphabetic_def is_ascii_digit_def)

lemma step_word:
  assumes "is_identifier_start c" "\<not> (c = ch CHR ''f'' \<and> peek 1 cur = Some quote)"
  shows "lex_step n c cur = lex_word n cur"
  using assms by (auto simp: lex_step_def is_identifier_start_def is_ascii_alphabetic_def)

lemma word_reads:
  assumes cs: "map snd (fst cur) = w @ 32 # rest" and w: "w \<noteq> []" "is_identifier_start (hd w)" "list_all is_identifier_continue (tl w)"
  shows "reads (lex_step n (hd w) cur) (case from_identifier w of Some k \<Rightarrow> Keyword k | None \<Rightarrow> Identifier w) (32 # rest)"
proof -
  obtain c v where v: "w = c # v" using w(1) by (cases w) auto
  let ?e = "scan_identifier (fst (advance cur)) (snd (advance cur))"
  have "map snd (fst (advance cur)) = v @ 32 # rest" using cs v by (simp add: advance_chars)
  then have e: "map snd (fst ?e) = 32 # rest" using scan_identifier_chars w(3) v not_word_space(1) by simp
  then have t: "source_text cur ?e = w" using cs by (intro source_text_chars) simp
  have "peek 1 cur \<noteq> Some quote"
  proof -
    have "peek 1 cur = (case v of [] \<Rightarrow> Some 32 | x # _ \<Rightarrow> Some x)" using cs v by (cases v) (simp_all add: peek_chars)
    moreover have "is_identifier_continue x \<Longrightarrow> x \<noteq> quote" for x
      by (auto simp: is_identifier_continue_def is_identifier_start_def is_ascii_alphabetic_def is_ascii_digit_def)
    ultimately show ?thesis using w(3) v by (cases v) auto
  qed
  then have "lex_step n (hd w) cur = lex_word n cur" by (intro step_word w(2)) simp
  then show ?thesis using e t by (cases "from_identifier w") (simp_all add: lex_word_def Let_def reads_def new_token_def)
qed

lemma scan_decimal_chars:
  "map snd r = w @ 32 # rest \<Longrightarrow> list_all is_ascii_digit w \<Longrightarrow>
   map snd (fst (fst (scan_decimal n r l dot ex prev))) = 32 # rest \<and> snd (scan_decimal n r l dot ex prev) = ([], False)"
proof (induction w arbitrary: r l prev)
  case Nil
  then obtain i r' where "r = (i, 32) # r'" "map snd r' = rest" by (cases r) auto
  then show ?case by (simp add: not_word_space)
next
  case (Cons a w)
  then obtain i r' where "r = (i, a) # r'" "map snd r' = w @ 32 # rest" by (cases r) auto
  then show ?case using Cons by simp
qed

lemma number_reads:
  assumes cs: "map snd (fst cur) = w @ 32 # rest" and w: "w \<noteq> []" "list_all is_ascii_digit w"
  shows "reads (lex_step n (hd w) cur) (Number w) (32 # rest)"
proof -
  obtain c v where v: "w = c # v" using w(1) by (cases w) auto
  have start: "map snd (fst (advance cur)) = v @ 32 # rest" using cs v by (simp add: advance_chars)
  obtain e errs fatal where x: "scan_decimal n (fst (advance cur)) (snd (advance cur)) False False True = (e, errs, fatal)" by (rule prod_cases3)
  then have e: "map snd (fst e) = 32 # rest" "errs = []" "\<not> fatal"
    using scan_decimal_chars [OF start, of n "snd (advance cur)" False False True] w(2) v by simp_all
  then have t: "source_text cur e = w" using cs by (intro source_text_chars) simp
  have "peek 0 (advance cur) = (case v of [] \<Rightarrow> Some 32 | x # _ \<Rightarrow> Some x)" using start by (cases v) (simp_all add: peek_chars)
  then have "radix_of (peek 0 (advance cur)) = None"
    using w(2) v by (cases v) (auto simp: radix_of_def is_ascii_digit_def)
  moreover have "lex_step n c cur = lex_number n cur" using w(2) v
    by (auto simp: lex_step_def is_ascii_digit_def is_identifier_start_def is_ascii_alphabetic_def)
  ultimately show ?thesis using v e t x by (simp add: lex_number_def Let_def reads_def number_token_def new_token_def)
qed

lemma scan_string_chars:
  "map snd r = escape_string v @ quote # rest \<Longrightarrow>
   map snd (fst (fst (scan_string r l))) = rest \<and> snd (scan_string r l) = (v, [], True)"
proof (induction v arbitrary: r l)
  case Nil
  then obtain i r' where r: "r = (i, quote) # r'" "map snd r' = rest" by (cases r) (auto simp: escape_string_def)
  then show ?case by (cases r') auto
next
  case (Cons a v)
  have tail: "escape_string (a # v) = escape_char a @ escape_string v" by (simp add: escape_string_def)
  show ?case
  proof (cases "escape_char a = [a]")
    case True
    then have a: "a \<noteq> backslash" "a \<noteq> quote" by (auto simp: escape_char_def split: if_splits)
    obtain i r' where r: "r = (i, a) # r'" "map snd r' = escape_string v @ quote # rest" using Cons.prems tail True by (cases r) auto
    obtain j e r'' where r': "r' = (j, e) # r''" using r(2) by (cases r') auto
    have "scan_string r l = (case scan_string r' (bump_position a l) of (cur, w, errs, fin) \<Rightarrow> (cur, a # w, errs, fin))"
      using a r r' by (simp add: case_prod_beta)
    then show ?thesis using Cons.IH [OF r(2), of "bump_position a l"] by (simp add: case_prod_beta)
  next
    case False
    then obtain e where e: "escape_char a = [backslash, e]" "escape_value e = Some a"
      by (auto simp: escape_char_def escape_value_def split: if_splits)
    then obtain i j r' where r: "r = (i, backslash) # (j, e) # r'" "map snd r' = escape_string v @ quote # rest"
      using Cons.prems tail by (cases r; cases "tl r") auto
    show ?thesis using Cons.IH [OF r(2), of "bump_position e (bump_position backslash l)"] r e by (simp add: case_prod_beta Let_def)
  qed
qed

lemma string_reads:
  assumes cs: "map snd (fst cur) = print_kind (StringLiteral v) @ rest"
  shows "reads (lex_step n quote cur) (StringLiteral v) rest"
proof -
  have "map snd (fst (advance cur)) = escape_string v @ quote # rest" using cs by (simp add: advance_chars)
  note x = scan_string_chars [OF this, of "snd (advance cur)"]
  have "lex_step n quote cur = lex_string n cur"
    by (simp add: lex_step_def is_ascii_digit_def is_identifier_start_def is_ascii_alphabetic_def)
  then show ?thesis using x by (simp add: lex_string_def Let_def reads_def new_token_def case_prod_beta)
qed

lemma fstring_reads:
  assumes cs: "map snd (fst cur) = print_kind (FStringLiteral v) @ rest"
  shows "reads (lex_step n (ch CHR ''f'') cur) (FStringLiteral v) rest"
proof -
  have "map snd (fst (advance (advance cur))) = escape_string v @ quote # rest" using cs by (simp add: advance_chars)
  note x = scan_string_chars [OF this, of "snd (advance (advance cur))"]
  have "peek 1 cur = Some quote" using cs by (simp add: peek_chars)
  then have "lex_step n (ch CHR ''f'') cur = lex_fstring n cur"
    by (simp add: lex_step_def is_identifier_start_def is_ascii_alphabetic_def)
  then show ?thesis using x by (simp add: lex_fstring_def Let_def reads_def new_token_def case_prod_beta)
qed

lemma char_reads:
  assumes cs: "map snd (fst cur) = print_kind (CharLiteral c) @ rest"
  shows "reads (lex_step n apostrophe cur) (CharLiteral c) rest"
proof -
  let ?a = "advance cur"
  let ?body = "if c = apostrophe \<or> c = backslash then [backslash, c] else [c]"
  have a: "map snd (fst ?a) = ?body @ apostrophe # rest" using cs by (simp add: advance_chars)
  have b: "map snd (fst (fst (char_body ?a))) = apostrophe # rest" "snd (char_body ?a) = Some c"
    using a by (auto simp: char_body_def peek_chars advance_chars char_escape_def)
  then have "peek 0 (fst (char_body ?a)) = Some apostrophe" by (cases "fst (fst (char_body ?a))") (auto simp: peek_def)
  moreover have "lex_step n apostrophe cur = lex_char n cur"
    by (simp add: lex_step_def is_ascii_digit_def is_identifier_start_def is_ascii_alphabetic_def)
  ultimately show ?thesis using b by (simp add: lex_char_def Let_def reads_def new_token_def case_prod_beta advance_chars)
qed

lemma symbol_char_only:
  assumes "is_symbol_char c"
  shows "c \<noteq> 32" "c \<noteq> 9" "c \<noteq> 13" "c \<noteq> newline" "c \<noteq> quote" "c \<noteq> apostrophe" "\<not> is_identifier_start c" "\<not> is_ascii_digit c"
proof -
  have "list_all (\<lambda>c. c \<noteq> 32 \<and> c \<noteq> 9 \<and> c \<noteq> 13 \<and> c \<noteq> newline \<and> c \<noteq> quote \<and> c \<noteq> apostrophe \<and>
      \<not> is_identifier_start c \<and> \<not> is_ascii_digit c) (str ''(){}[],;:.=+-*/%#@<>!&|^~?'')" by code_simp
  then have "c \<noteq> 32 \<and> c \<noteq> 9 \<and> c \<noteq> 13 \<and> c \<noteq> newline \<and> c \<noteq> quote \<and> c \<noteq> apostrophe \<and> \<not> is_identifier_start c \<and> \<not> is_ascii_digit c"
    using assms unfolding is_symbol_char_def list_all_iff by blast
  then show "c \<noteq> 32" "c \<noteq> 9" "c \<noteq> 13" "c \<noteq> newline" "c \<noteq> quote" "c \<noteq> apostrophe" "\<not> is_identifier_start c" "\<not> is_ascii_digit c" by blast+
qed

lemma symbol_step:
  assumes "is_symbol_char c" "c = ch CHR ''/'' \<Longrightarrow> peek 1 cur \<noteq> Some (ch CHR ''/'') \<and> peek 1 cur \<noteq> Some (ch CHR ''*'')"
  shows "lex_step n c cur = lex_symbol n c cur"
  using assms symbol_char_only [OF assms(1)] by (auto simp: lex_step_def)

lemma advances_chars: "map snd (fst ((advance ^^ k) cur)) = drop k (map snd (fst cur))"
  by (simp add: fst_advances drop_map)

lemma symbol_reads:
  assumes cs: "map snd (fst cur) = c # 32 # rest" and c: "is_symbol_char c"
  shows "reads (lex_step n c cur) (Symbol c) (32 # rest)"
proof -
  have p: "peek 1 cur = Some 32" using cs by (simp add: peek_chars)
  then have "lex_step n c cur = lex_symbol n c cur" by (intro symbol_step c) simp
  moreover have "symbol_of c (Some 32) x = (Symbol c, 1)" for x by (simp add: symbol_of_def)
  ultimately show ?thesis using p cs
    by (simp add: lex_symbol_def Let_def reads_def new_token_def arrow_error_def advance_chars)
qed

lemma operator_reads:
  assumes cs: "map snd (fst cur) = display_operator p @ 32 # rest"
  shows "reads (lex_step n (hd (display_operator p)) cur) (Operator p) (32 # rest)"
proof -
  let ?t = "display_operator p"
  have c: "is_symbol_char (hd ?t)" "hd ?t \<noteq> ch CHR ''/''"
    by (cases p; simp add: display_operator_def str_def is_symbol_char_def)+
  have "lex_step n (hd ?t) cur = lex_symbol n (hd ?t) cur" using c by (intro symbol_step) auto
  moreover have "symbol_of (hd ?t) (peek 1 cur) (peek 2 cur) = (Operator p, length ?t)"
    using cs by (cases p) (simp_all add: display_operator_def str_def peek_chars symbol_of_def)
  moreover have "arrow_error n cur (hd ?t) (peek 1 cur) = []"
    using cs by (cases p) (simp_all add: display_operator_def str_def peek_chars arrow_error_def)
  ultimately show ?thesis using cs by (simp add: lex_symbol_def Let_def reads_def new_token_def advances_chars)
qed

lemma keyword_listed: "k \<in> set (map snd keyword_words)"
  by (cases k) (simp_all add: keyword_words_def)

lemma keyword_printed: "from_identifier (display_keyword k) = Some k"
proof -
  have "list_all (\<lambda>k. from_identifier (display_keyword k) = Some k) (map snd keyword_words)" by code_simp
  then show ?thesis using keyword_listed [of k] unfolding list_all_iff by blast
qed

lemma keyword_word:
  "display_keyword k \<noteq> []" "is_identifier_start (hd (display_keyword k))" "list_all is_identifier_continue (tl (display_keyword k))"
proof -
  have "list_all (\<lambda>k. display_keyword k \<noteq> [] \<and> is_identifier_start (hd (display_keyword k)) \<and>
      list_all is_identifier_continue (tl (display_keyword k))) (map snd keyword_words)" by code_simp
  then have "display_keyword k \<noteq> [] \<and> is_identifier_start (hd (display_keyword k)) \<and> list_all is_identifier_continue (tl (display_keyword k))"
    using keyword_listed [of k] unfolding list_all_iff by blast
  then show "display_keyword k \<noteq> []" "is_identifier_start (hd (display_keyword k))" "list_all is_identifier_continue (tl (display_keyword k))"
    by blast+
qed

lemma printed_reads:
  assumes "map snd (fst cur) = print_kind k @ 32 # rest" "printable k"
  shows "reads (lex_step n (hd (print_kind k)) cur) k (32 # rest) \<and> print_kind k \<noteq> []"
proof (cases k)
  case (Identifier w)
  then show ?thesis using assms word_reads [of cur w rest n] by simp
next
  case (Number w)
  then show ?thesis using assms number_reads [of cur w rest n] by simp
next
  case (Keyword x)
  then show ?thesis using assms word_reads [of cur "display_keyword x" rest n] keyword_word [of x] by (simp add: keyword_printed)
next
  case (Symbol c)
  then show ?thesis using assms symbol_reads [of cur c rest n] by simp
next
  case (Operator p)
  have "display_operator p \<noteq> []" by (cases p) (simp_all add: display_operator_def str_def)
  then show ?thesis using assms operator_reads [of cur p rest n] Operator by simp
next
  case (StringLiteral v)
  then show ?thesis using assms string_reads [of cur v "32 # rest" n] by simp
next
  case (CharLiteral c)
  then show ?thesis using assms char_reads [of cur c "32 # rest" n] by simp
next
  case (FStringLiteral v)
  then show ?thesis using assms fstring_reads [of cur v "32 # rest" n] by simp
qed (use assms in simp)

lemma lex_loop_unfold:
  assumes "map snd (fst cur) = c # rest" "lex_step n c cur = (cur', ts, es)"
  shows "lex_loop n cur = (case lex_loop n cur' of (cur'', ts', es') \<Rightarrow> (cur'', ts @ ts', es @ es'))"
  using assms by (cases cur; cases "fst cur") auto

lemma lex_loop_space: "map snd (fst cur) = 32 # rest \<Longrightarrow> lex_loop n cur = lex_loop n (advance cur)"
  using lex_loop_unfold [of cur 32 rest n "advance cur" "[]" "[]"] by (simp add: lex_step_def case_prod_beta)

lemma lex_loop_prints:
  assumes "map snd (fst cur) = print_tokens ks" "list_all printable ks"
  shows "map t_kind (fst (snd (lex_loop n cur))) = ks \<and> snd (snd (lex_loop n cur)) = []"
  using assms
proof (induction ks arbitrary: cur)
  case Nil
  then show ?case by (cases cur) (simp add: print_tokens_def)
next
  case (Cons k ks)
  let ?rest = "print_tokens ks"
  have cs: "map snd (fst cur) = print_kind k @ 32 # ?rest" using Cons.prems(1) by (simp add: print_tokens_def)
  then have r: "reads (lex_step n (hd (print_kind k)) cur) k (32 # ?rest)" "print_kind k \<noteq> []"
    using printed_reads [OF cs, of n] Cons.prems(2) by simp_all
  obtain cur' ts es where x: "lex_step n (hd (print_kind k)) cur = (cur', ts, es)" by (rule prod_cases3)
  then have x': "map snd (fst cur') = 32 # ?rest" "map t_kind ts = [k]" "es = []" using r(1) by (simp_all add: reads_def)
  have "map snd (fst cur) = hd (print_kind k) # tl (print_kind k) @ 32 # ?rest" using cs r(2) by simp
  note loop = lex_loop_unfold [OF this x]
  have "map snd (fst (advance cur')) = ?rest" using x'(1) by (simp add: advance_chars)
  from Cons.IH [OF this] Cons.prems(2) show ?case
    using loop x' lex_loop_space [OF x'(1), of n] by (simp add: case_prod_beta)
qed

text \<open>C32: The lexer reads back what is printed: the tokens of any sequence of printable kinds, each written
  followed by a space, are accepted without errors and come out as the same kinds in the same order,
  followed by the end of the file. Strings, f-strings and characters may hold any text, escaped as the lexer
  documents.\<close>

theorem tokenize_print_tokens:
  assumes "list_all printable ks"
  shows "map_sum id (map t_kind) (tokenize (new_lexer (print_tokens ks))) = Inr (ks @ [EndOfFile])"
proof -
  have "map snd (fst (char_indices 0 (print_tokens ks), new_location 1 1)) = print_tokens ks" by simp
  from lex_loop_prints [OF this assms] show ?thesis
    by (simp add: tokenize_def new_lexer_def table_characters_eq Let_def case_prod_beta new_token_def)
qed

definition sample_kinds :: "token_kind list" where
  "sample_kinds = [Keyword KLet, Identifier (str ''x''), Symbol (ch CHR ''=''), Number (str ''42''), Operator RangeInclusive,
     StringLiteral [quote, newline, 233], CharLiteral apostrophe, FStringLiteral (str ''{x}'')]"

theorem tokenize_print_tokens_witness:
  "map_sum id (map t_kind) (tokenize (new_lexer (print_tokens sample_kinds))) = Inr (sample_kinds @ [EndOfFile])"
  by (rule tokenize_print_tokens) code_simp

end
