(* ===== verification/Builder.thy ===== *)
theory Builder
  imports Operands
begin

text \<open>
  The IR builder, \<open>src/midend/src/builder.rs\<close>. The builder and the function it writes to are
  threaded together; every method is a function of its arguments and that state. A method called
  without a usable block records a message and changes nothing else. The theory shows that a function
  written through the builder is in single assignment form with consecutive value numbers, and that
  the placeholder value is never handed out without a message.
\<close>

section \<open>The builder\<close>

record ir_builder =
  bd_function :: "usize option"
  bd_block :: "usize option"
  bd_span :: "source_span option"
  bd_errors :: "string list"

type_synonym build_state = "ir_builder \<times> ir_function"

definition new_builder :: ir_builder where
  "new_builder = \<lparr>bd_function = None, bd_block = None, bd_span = None, bd_errors = []\<rparr>"

definition set_current_function :: "usize \<Rightarrow> ir_builder \<Rightarrow> ir_builder" where
  "set_current_function i b = b\<lparr>bd_function := Some i\<rparr>"

definition set_current_block :: "usize \<Rightarrow> ir_builder \<Rightarrow> ir_builder" where
  "set_current_block i b = b\<lparr>bd_block := Some i\<rparr>"

definition set_source_span :: "source_span option \<Rightarrow> ir_builder \<Rightarrow> ir_builder" where
  "set_source_span sp b = b\<lparr>bd_span := sp\<rparr>"

definition get_current_block :: "ir_builder \<Rightarrow> usize option" where
  "get_current_block b = bd_block b"

definition take_errors :: "ir_builder \<Rightarrow> ir_builder \<times> string list" where
  "take_errors b = (b\<lparr>bd_errors := []\<rparr>, bd_errors b)"

definition has_errors :: "ir_builder \<Rightarrow> bool" where
  "has_errors b \<longleftrightarrow> bd_errors b \<noteq> []"

definition record_error :: "ir_builder \<Rightarrow> string \<Rightarrow> ir_builder" where
  "record_error b msg = b\<lparr>bd_errors := bd_errors b @
     [''IR builder error'' @
      (case bd_function b of Some i \<Rightarrow> '' in function index '' @ decimal i | None \<Rightarrow> []) @ '': '' @ msg]\<rparr>"

text \<open>The two \<open>let ... else\<close> of every emitting method: the current block, or a recorded error.\<close>

definition active_block :: "string \<Rightarrow> string \<Rightarrow> build_state \<Rightarrow> ir_builder + usize" where
  "active_block what prep s = (case s of (b, f) \<Rightarrow> (case bd_block b of
     None \<Rightarrow> Inl (record_error b (''attempted to emit '' @ what @ '' without an active basic block''))
   | Some i \<Rightarrow> (case get_block f i of
       None \<Rightarrow> Inl (record_error b (''attempted to emit '' @ what @ '' '' @ prep @ '' unknown basic block '' @ decimal i))
     | Some _ \<Rightarrow> Inr i)))"

definition set_last_span :: "source_span option \<Rightarrow> basic_block \<Rightarrow> basic_block" where
  "set_last_span sp blk = (case rev (b_instructions blk) of
     [] \<Rightarrow> blk
   | i # is \<Rightarrow> blk\<lparr>b_instructions := rev is @ [i\<lparr>i_span := sp\<rparr>]\<rparr>)"

definition try_emit :: "(ssa_value \<Rightarrow> instruction_kind) \<Rightarrow> build_state \<Rightarrow> build_state \<times> ssa_value" where
  "try_emit make_kind s = (case active_block ''a value'' ''into'' s of
     Inl b \<Rightarrow> ((b, snd s), invalid_value)
   | Inr i \<Rightarrow> (case next_value (snd s) of (f, r) \<Rightarrow>
       ((fst s, with_block_mut f i (\<lambda>blk. set_last_span (bd_span (fst s)) (fst (add_instruction blk (make_kind r))))), r)))"

text \<open>The methods that emit an instruction without a value, and the terminators.\<close>

definition emit_effect :: "string \<Rightarrow> string \<Rightarrow> (basic_block \<Rightarrow> basic_block) \<Rightarrow> build_state \<Rightarrow> build_state" where
  "emit_effect what prep g s = (case active_block what prep s of
     Inl b \<Rightarrow> (b, snd s) | Inr i \<Rightarrow> (fst s, with_block_mut (snd s) i g))"

text \<open>The calls: a value only when the callee returns one.\<close>

definition emit_call :: "string \<Rightarrow> bool \<Rightarrow> (ssa_value option \<Rightarrow> instruction_kind) \<Rightarrow> build_state \<Rightarrow> build_state \<times> ssa_value option" where
  "emit_call what has_return make_kind s = (case active_block what ''into'' s of
     Inl b \<Rightarrow> ((b, snd s), None)
   | Inr i \<Rightarrow> (case (if has_return then map_prod id Some (next_value (snd s)) else (snd s, None)) of (f, r) \<Rightarrow>
       ((fst s, with_block_mut f i (\<lambda>blk. fst (add_instruction blk (make_kind r)))), r)))"

section \<open>Its methods\<close>

definition build_add :: "ssa_value \<Rightarrow> ssa_value \<Rightarrow> build_state \<Rightarrow> build_state \<times> ssa_value" where
  "build_add l r = try_emit (\<lambda>v. Arith (Add v l r))"

definition build_sub :: "ssa_value \<Rightarrow> ssa_value \<Rightarrow> build_state \<Rightarrow> build_state \<times> ssa_value" where
  "build_sub l r = try_emit (\<lambda>v. Arith (Sub v l r))"

definition build_mul :: "ssa_value \<Rightarrow> ssa_value \<Rightarrow> build_state \<Rightarrow> build_state \<times> ssa_value" where
  "build_mul l r = try_emit (\<lambda>v. Arith (Mul v l r))"

definition build_div_signedness :: "ssa_value \<Rightarrow> ssa_value \<Rightarrow> bool \<Rightarrow> build_state \<Rightarrow> build_state \<times> ssa_value" where
  "build_div_signedness l r u = try_emit (\<lambda>v. Arith (Div v l r u))"

definition build_div :: "ssa_value \<Rightarrow> ssa_value \<Rightarrow> build_state \<Rightarrow> build_state \<times> ssa_value" where
  "build_div l r = build_div_signedness l r False"

definition build_rem_signedness :: "ssa_value \<Rightarrow> ssa_value \<Rightarrow> bool \<Rightarrow> build_state \<Rightarrow> build_state \<times> ssa_value" where
  "build_rem_signedness l r u = try_emit (\<lambda>v. Arith (Rem v l r u))"

definition build_rem :: "ssa_value \<Rightarrow> ssa_value \<Rightarrow> build_state \<Rightarrow> build_state \<times> ssa_value" where
  "build_rem l r = build_rem_signedness l r False"

definition build_bit_and :: "ssa_value \<Rightarrow> ssa_value \<Rightarrow> build_state \<Rightarrow> build_state \<times> ssa_value" where
  "build_bit_and l r = try_emit (\<lambda>v. Arith (BitAnd v l r))"

definition build_bit_or :: "ssa_value \<Rightarrow> ssa_value \<Rightarrow> build_state \<Rightarrow> build_state \<times> ssa_value" where
  "build_bit_or l r = try_emit (\<lambda>v. Arith (BitOr v l r))"

definition build_bit_xor :: "ssa_value \<Rightarrow> ssa_value \<Rightarrow> build_state \<Rightarrow> build_state \<times> ssa_value" where
  "build_bit_xor l r = try_emit (\<lambda>v. Arith (BitXor v l r))"

definition build_shl :: "ssa_value \<Rightarrow> ssa_value \<Rightarrow> build_state \<Rightarrow> build_state \<times> ssa_value" where
  "build_shl l r = try_emit (\<lambda>v. Arith (Shl v l r))"

definition build_shr :: "ssa_value \<Rightarrow> ssa_value \<Rightarrow> bool \<Rightarrow> build_state \<Rightarrow> build_state \<times> ssa_value" where
  "build_shr l r u = try_emit (\<lambda>v. Arith (Shr v l r u))"

definition build_eq :: "ssa_value \<Rightarrow> ssa_value \<Rightarrow> build_state \<Rightarrow> build_state \<times> ssa_value" where
  "build_eq l r = try_emit (\<lambda>v. Compare (Eq v l r))"

definition build_ne :: "ssa_value \<Rightarrow> ssa_value \<Rightarrow> build_state \<Rightarrow> build_state \<times> ssa_value" where
  "build_ne l r = try_emit (\<lambda>v. Compare (Ne v l r))"

definition build_lt_signedness :: "ssa_value \<Rightarrow> ssa_value \<Rightarrow> bool \<Rightarrow> build_state \<Rightarrow> build_state \<times> ssa_value" where
  "build_lt_signedness l r u = try_emit (\<lambda>v. Compare (Lt v l r u))"

definition build_lt :: "ssa_value \<Rightarrow> ssa_value \<Rightarrow> build_state \<Rightarrow> build_state \<times> ssa_value" where
  "build_lt l r = build_lt_signedness l r False"

definition build_le_signedness :: "ssa_value \<Rightarrow> ssa_value \<Rightarrow> bool \<Rightarrow> build_state \<Rightarrow> build_state \<times> ssa_value" where
  "build_le_signedness l r u = try_emit (\<lambda>v. Compare (Le v l r u))"

definition build_le :: "ssa_value \<Rightarrow> ssa_value \<Rightarrow> build_state \<Rightarrow> build_state \<times> ssa_value" where
  "build_le l r = build_le_signedness l r False"

definition build_gt_signedness :: "ssa_value \<Rightarrow> ssa_value \<Rightarrow> bool \<Rightarrow> build_state \<Rightarrow> build_state \<times> ssa_value" where
  "build_gt_signedness l r u = try_emit (\<lambda>v. Compare (Gt v l r u))"

definition build_gt :: "ssa_value \<Rightarrow> ssa_value \<Rightarrow> build_state \<Rightarrow> build_state \<times> ssa_value" where
  "build_gt l r = build_gt_signedness l r False"

definition build_ge_signedness :: "ssa_value \<Rightarrow> ssa_value \<Rightarrow> bool \<Rightarrow> build_state \<Rightarrow> build_state \<times> ssa_value" where
  "build_ge_signedness l r u = try_emit (\<lambda>v. Compare (Ge v l r u))"

definition build_ge :: "ssa_value \<Rightarrow> ssa_value \<Rightarrow> build_state \<Rightarrow> build_state \<times> ssa_value" where
  "build_ge l r = build_ge_signedness l r False"

definition build_and :: "ssa_value \<Rightarrow> ssa_value \<Rightarrow> build_state \<Rightarrow> build_state \<times> ssa_value" where
  "build_and l r = try_emit (\<lambda>v. Logical (And v l r))"

definition build_or :: "ssa_value \<Rightarrow> ssa_value \<Rightarrow> build_state \<Rightarrow> build_state \<times> ssa_value" where
  "build_or l r = try_emit (\<lambda>v. Logical (Or v l r))"

definition build_not :: "ssa_value \<Rightarrow> build_state \<Rightarrow> build_state \<times> ssa_value" where
  "build_not x = try_emit (\<lambda>v. Logical (Not v x))"

definition build_alloca :: "ir_type \<Rightarrow> build_state \<Rightarrow> build_state \<times> ssa_value" where
  "build_alloca ty = try_emit (\<lambda>v. Memory (Alloca v ty))"

definition build_global_addr :: "string \<Rightarrow> ir_type \<Rightarrow> build_state \<Rightarrow> build_state \<times> ssa_value" where
  "build_global_addr name ty = try_emit (\<lambda>v. Memory (GlobalAddr v name ty))"

definition build_load :: "ssa_value \<Rightarrow> build_state \<Rightarrow> build_state \<times> ssa_value" where
  "build_load p = try_emit (\<lambda>v. Memory (Load v p TInt))"

definition build_load_typed :: "ssa_value \<Rightarrow> ir_type \<Rightarrow> build_state \<Rightarrow> build_state \<times> ssa_value" where
  "build_load_typed p ty = try_emit (\<lambda>v. Memory (Load v p ty))"

definition build_store :: "ssa_value \<Rightarrow> ssa_value \<Rightarrow> build_state \<Rightarrow> build_state" where
  "build_store p x s = emit_effect ''a store'' ''into''
     (\<lambda>blk. set_last_span (bd_span (fst s)) (fst (add_instruction blk (Memory (Store p x))))) s"

definition build_getelementptr_bounded :: "ssa_value \<Rightarrow> ssa_value \<Rightarrow> ir_type \<Rightarrow> array_bound option \<Rightarrow> build_state \<Rightarrow> build_state \<times> ssa_value" where
  "build_getelementptr_bounded p i ty bound = try_emit (\<lambda>v. Memory (GetElementPtr v p i ty bound))"

definition build_getelementptr :: "ssa_value \<Rightarrow> ssa_value \<Rightarrow> ir_type \<Rightarrow> build_state \<Rightarrow> build_state \<times> ssa_value" where
  "build_getelementptr p i ty = build_getelementptr_bounded p i ty None"

definition build_field_ptr :: "ssa_value \<Rightarrow> i64 \<Rightarrow> build_state \<Rightarrow> build_state \<times> ssa_value" where
  "build_field_ptr p offset = try_emit (\<lambda>v. Memory (FieldPtr v p offset))"

definition build_manual_alloc :: "i64 \<Rightarrow> build_state \<Rightarrow> build_state \<times> ssa_value" where
  "build_manual_alloc n = try_emit (\<lambda>v. Memory (ManualAlloc v n))"

definition build_escape_manual_alloc :: "ssa_value \<Rightarrow> build_state \<Rightarrow> build_state" where
  "build_escape_manual_alloc p = emit_effect ''an allocation escape'' ''into''
     (\<lambda>blk. fst (add_instruction blk (Memory (EscapeManualAlloc p))))"

definition build_copy :: "ssa_value \<Rightarrow> build_state \<Rightarrow> build_state \<times> ssa_value" where
  "build_copy x = try_emit (\<lambda>v. Move (Copy v x))"

definition build_phi :: "(ssa_value \<times> usize) list \<Rightarrow> build_state \<Rightarrow> build_state \<times> ssa_value" where
  "build_phi incoming = try_emit (\<lambda>v. Move (Phi v incoming))"

definition build_const_int :: "i64 \<Rightarrow> build_state \<Rightarrow> build_state \<times> ssa_value" where
  "build_const_int c = try_emit (\<lambda>v. Const (ConstInt v c))"

definition build_const_int_typed :: "i64 \<Rightarrow> ir_type \<Rightarrow> build_state \<Rightarrow> build_state \<times> ssa_value" where
  "build_const_int_typed c ty = try_emit (\<lambda>v. Const (ConstIntTyped v c ty))"

definition build_const_float :: "f64 \<Rightarrow> build_state \<Rightarrow> build_state \<times> ssa_value" where
  "build_const_float c = try_emit (\<lambda>v. Const (ConstFloat v c))"

definition build_const_float_typed :: "f64 \<Rightarrow> ir_type \<Rightarrow> build_state \<Rightarrow> build_state \<times> ssa_value" where
  "build_const_float_typed c ty = try_emit (\<lambda>v. Const (ConstFloatTyped v c ty))"

definition build_const_bool :: "bool \<Rightarrow> build_state \<Rightarrow> build_state \<times> ssa_value" where
  "build_const_bool c = try_emit (\<lambda>v. Const (ConstBool v c))"

definition build_const_string :: "string \<Rightarrow> build_state \<Rightarrow> build_state \<times> ssa_value" where
  "build_const_string c = try_emit (\<lambda>v. Const (ConstString v c))"

definition build_return :: "ssa_value option \<Rightarrow> build_state \<Rightarrow> build_state" where
  "build_return x = emit_effect ''a return'' ''into'' (\<lambda>blk. set_terminator blk (Return x))"

definition build_branch :: "usize \<Rightarrow> build_state \<Rightarrow> build_state" where
  "build_branch target = emit_effect ''a branch'' ''from'' (\<lambda>blk. set_terminator blk (Branch target))"

definition build_cond_branch :: "ssa_value \<Rightarrow> usize \<Rightarrow> usize \<Rightarrow> build_state \<Rightarrow> build_state" where
  "build_cond_branch c t e = emit_effect ''a conditional branch'' ''from'' (\<lambda>blk. set_terminator blk (CondBranch c t e))"

definition build_unreachable :: "build_state \<Rightarrow> build_state" where
  "build_unreachable = emit_effect ''unreachable'' ''into'' (\<lambda>blk. set_terminator blk Unreachable)"

definition build_call :: "string \<Rightarrow> ssa_value list \<Rightarrow> bool \<Rightarrow> build_state \<Rightarrow> build_state \<times> ssa_value option" where
  "build_call name args has_return = emit_call ''a call'' has_return (\<lambda>r. Calls (Call r name args False))"

definition build_host_call_with_type :: "string \<Rightarrow> ssa_value list \<Rightarrow> bool \<Rightarrow> ir_type option \<Rightarrow> build_state \<Rightarrow> build_state \<times> ssa_value option" where
  "build_host_call_with_type host args has_return ty = emit_call ''a host call'' has_return (\<lambda>r. Calls (HostCall r host args ty))"

definition build_host_call :: "string \<Rightarrow> ssa_value list \<Rightarrow> bool \<Rightarrow> build_state \<Rightarrow> build_state \<times> ssa_value option" where
  "build_host_call host args has_return = build_host_call_with_type host args has_return None"

definition build_typed_host_call :: "string \<Rightarrow> ssa_value list \<Rightarrow> ir_type \<Rightarrow> bool \<Rightarrow> build_state \<Rightarrow> build_state \<times> ssa_value option" where
  "build_typed_host_call host args ty has_return = build_host_call_with_type host args has_return (Some ty)"

definition build_func_addr :: "string \<Rightarrow> build_state \<Rightarrow> build_state \<times> ssa_value" where
  "build_func_addr name = try_emit (\<lambda>v. Calls (FuncAddr v name))"

definition build_call_indirect :: "ssa_value \<Rightarrow> ssa_value list \<Rightarrow> ir_type list \<Rightarrow> ir_type \<Rightarrow> build_state \<Rightarrow> build_state \<times> ssa_value option" where
  "build_call_indirect p args params ret = emit_call ''an indirect call'' (ret \<noteq> TVoid) (\<lambda>r. Calls (CallIndirect r p args params ret))"

definition build_async_ready :: "ssa_value option \<Rightarrow> ir_type \<Rightarrow> build_state \<Rightarrow> build_state \<times> ssa_value" where
  "build_async_ready x ty = try_emit (\<lambda>v. Async (AsyncReady v x ty))"

definition build_cast :: "ssa_value \<Rightarrow> ir_type \<Rightarrow> ir_type \<Rightarrow> build_state \<Rightarrow> build_state \<times> ssa_value" where
  "build_cast x a b = try_emit (\<lambda>v. Conv (Cast v x a b))"

definition build_make_dyn_fat_ptr :: "ssa_value \<Rightarrow> ssa_value \<Rightarrow> build_state \<Rightarrow> build_state \<times> ssa_value" where
  "build_make_dyn_fat_ptr d t = try_emit (\<lambda>v. Conv (MakeDynFatPtr v d t))"

definition build_load_dyn_data_ptr :: "ssa_value \<Rightarrow> build_state \<Rightarrow> build_state \<times> ssa_value" where
  "build_load_dyn_data_ptr p = try_emit (\<lambda>v. Conv (LoadDynDataPtr v p))"

definition build_load_dyn_vtable_ptr :: "ssa_value \<Rightarrow> build_state \<Rightarrow> build_state \<times> ssa_value" where
  "build_load_dyn_vtable_ptr p = try_emit (\<lambda>v. Conv (LoadDynVtablePtr v p))"

definition build_load_vtable_slot :: "ssa_value \<Rightarrow> usize \<Rightarrow> build_state \<Rightarrow> build_state \<times> ssa_value" where
  "build_load_vtable_slot p i = try_emit (\<lambda>v. Conv (LoadVtableSlot v p i))"

section \<open>What it builds\<close>

text \<open>The calls the lowering makes on one function, in any order, with the values they return.\<close>

fun option_list :: "'a option \<Rightarrow> 'a list" where
  "option_list None = []"
| "option_list (Some x) = [x]"

inductive build_step :: "build_state \<Rightarrow> ssa_value list \<Rightarrow> build_state \<Rightarrow> bool" where
  step_current_function: "build_step (b, f) [] (set_current_function i b, f)"
| step_current_block: "build_step (b, f) [] (set_current_block i b, f)"
| step_source_span: "build_step (b, f) [] (set_source_span sp b, f)"
| step_add_block: "build_step (b, f) [] (b, fst (add_block f label))"
| step_add: "build_step s [snd (build_add x0 x1 s)] (fst (build_add x0 x1 s))"
|  step_sub: "build_step s [snd (build_sub x0 x1 s)] (fst (build_sub x0 x1 s))"
|  step_mul: "build_step s [snd (build_mul x0 x1 s)] (fst (build_mul x0 x1 s))"
|  step_div_signedness: "build_step s [snd (build_div_signedness x0 x1 x2 s)] (fst (build_div_signedness x0 x1 x2 s))"
|  step_div: "build_step s [snd (build_div x0 x1 s)] (fst (build_div x0 x1 s))"
|  step_rem_signedness: "build_step s [snd (build_rem_signedness x0 x1 x2 s)] (fst (build_rem_signedness x0 x1 x2 s))"
|  step_rem: "build_step s [snd (build_rem x0 x1 s)] (fst (build_rem x0 x1 s))"
|  step_bit_and: "build_step s [snd (build_bit_and x0 x1 s)] (fst (build_bit_and x0 x1 s))"
|  step_bit_or: "build_step s [snd (build_bit_or x0 x1 s)] (fst (build_bit_or x0 x1 s))"
|  step_bit_xor: "build_step s [snd (build_bit_xor x0 x1 s)] (fst (build_bit_xor x0 x1 s))"
|  step_shl: "build_step s [snd (build_shl x0 x1 s)] (fst (build_shl x0 x1 s))"
|  step_shr: "build_step s [snd (build_shr x0 x1 x2 s)] (fst (build_shr x0 x1 x2 s))"
|  step_eq: "build_step s [snd (build_eq x0 x1 s)] (fst (build_eq x0 x1 s))"
|  step_ne: "build_step s [snd (build_ne x0 x1 s)] (fst (build_ne x0 x1 s))"
|  step_lt_signedness: "build_step s [snd (build_lt_signedness x0 x1 x2 s)] (fst (build_lt_signedness x0 x1 x2 s))"
|  step_lt: "build_step s [snd (build_lt x0 x1 s)] (fst (build_lt x0 x1 s))"
|  step_le_signedness: "build_step s [snd (build_le_signedness x0 x1 x2 s)] (fst (build_le_signedness x0 x1 x2 s))"
|  step_le: "build_step s [snd (build_le x0 x1 s)] (fst (build_le x0 x1 s))"
|  step_gt_signedness: "build_step s [snd (build_gt_signedness x0 x1 x2 s)] (fst (build_gt_signedness x0 x1 x2 s))"
|  step_gt: "build_step s [snd (build_gt x0 x1 s)] (fst (build_gt x0 x1 s))"
|  step_ge_signedness: "build_step s [snd (build_ge_signedness x0 x1 x2 s)] (fst (build_ge_signedness x0 x1 x2 s))"
|  step_ge: "build_step s [snd (build_ge x0 x1 s)] (fst (build_ge x0 x1 s))"
|  step_and: "build_step s [snd (build_and x0 x1 s)] (fst (build_and x0 x1 s))"
|  step_or: "build_step s [snd (build_or x0 x1 s)] (fst (build_or x0 x1 s))"
|  step_not: "build_step s [snd (build_not x0 s)] (fst (build_not x0 s))"
|  step_alloca: "build_step s [snd (build_alloca x0 s)] (fst (build_alloca x0 s))"
|  step_global_addr: "build_step s [snd (build_global_addr x0 x1 s)] (fst (build_global_addr x0 x1 s))"
|  step_load: "build_step s [snd (build_load x0 s)] (fst (build_load x0 s))"
|  step_load_typed: "build_step s [snd (build_load_typed x0 x1 s)] (fst (build_load_typed x0 x1 s))"
|  step_store: "build_step s [] (build_store x0 x1 s)"
|  step_getelementptr_bounded: "build_step s [snd (build_getelementptr_bounded x0 x1 x2 x3 s)] (fst (build_getelementptr_bounded x0 x1 x2 x3 s))"
|  step_getelementptr: "build_step s [snd (build_getelementptr x0 x1 x2 s)] (fst (build_getelementptr x0 x1 x2 s))"
|  step_field_ptr: "build_step s [snd (build_field_ptr x0 x1 s)] (fst (build_field_ptr x0 x1 s))"
|  step_manual_alloc: "build_step s [snd (build_manual_alloc x0 s)] (fst (build_manual_alloc x0 s))"
|  step_escape_manual_alloc: "build_step s [] (build_escape_manual_alloc x0 s)"
|  step_copy: "build_step s [snd (build_copy x0 s)] (fst (build_copy x0 s))"
|  step_phi: "build_step s [snd (build_phi x0 s)] (fst (build_phi x0 s))"
|  step_const_int: "build_step s [snd (build_const_int x0 s)] (fst (build_const_int x0 s))"
|  step_const_int_typed: "build_step s [snd (build_const_int_typed x0 x1 s)] (fst (build_const_int_typed x0 x1 s))"
|  step_const_float: "build_step s [snd (build_const_float x0 s)] (fst (build_const_float x0 s))"
|  step_const_float_typed: "build_step s [snd (build_const_float_typed x0 x1 s)] (fst (build_const_float_typed x0 x1 s))"
|  step_const_bool: "build_step s [snd (build_const_bool x0 s)] (fst (build_const_bool x0 s))"
|  step_const_string: "build_step s [snd (build_const_string x0 s)] (fst (build_const_string x0 s))"
|  step_return: "build_step s [] (build_return x0 s)"
|  step_branch: "build_step s [] (build_branch x0 s)"
|  step_cond_branch: "build_step s [] (build_cond_branch x0 x1 x2 s)"
|  step_unreachable: "build_step s [] (build_unreachable s)"
|  step_call: "build_step s (option_list (snd (build_call x0 x1 x2 s))) (fst (build_call x0 x1 x2 s))"
|  step_host_call_with_type: "build_step s (option_list (snd (build_host_call_with_type x0 x1 x2 x3 s))) (fst (build_host_call_with_type x0 x1 x2 x3 s))"
|  step_host_call: "build_step s (option_list (snd (build_host_call x0 x1 x2 s))) (fst (build_host_call x0 x1 x2 s))"
|  step_typed_host_call: "build_step s (option_list (snd (build_typed_host_call x0 x1 x2 x3 s))) (fst (build_typed_host_call x0 x1 x2 x3 s))"
|  step_func_addr: "build_step s [snd (build_func_addr x0 s)] (fst (build_func_addr x0 s))"
|  step_call_indirect: "build_step s (option_list (snd (build_call_indirect x0 x1 x2 x3 s))) (fst (build_call_indirect x0 x1 x2 x3 s))"
|  step_async_ready: "build_step s [snd (build_async_ready x0 x1 s)] (fst (build_async_ready x0 x1 s))"
|  step_cast: "build_step s [snd (build_cast x0 x1 x2 s)] (fst (build_cast x0 x1 x2 s))"
|  step_make_dyn_fat_ptr: "build_step s [snd (build_make_dyn_fat_ptr x0 x1 s)] (fst (build_make_dyn_fat_ptr x0 x1 s))"
|  step_load_dyn_data_ptr: "build_step s [snd (build_load_dyn_data_ptr x0 s)] (fst (build_load_dyn_data_ptr x0 s))"
|  step_load_dyn_vtable_ptr: "build_step s [snd (build_load_dyn_vtable_ptr x0 s)] (fst (build_load_dyn_vtable_ptr x0 s))"
|  step_load_vtable_slot: "build_step s [snd (build_load_vtable_slot x0 x1 s)] (fst (build_load_vtable_slot x0 x1 s))"

inductive build_trace :: "build_state \<Rightarrow> ssa_value list \<Rightarrow> build_state \<Rightarrow> bool" for s where
  trace_start: "build_trace s [] s"
| trace_step: "build_trace s vs s' \<Longrightarrow> build_step s' ws s'' \<Longrightarrow> build_trace s (vs @ ws) s''"

definition instructions_indexed :: "basic_block \<Rightarrow> bool" where
  "instructions_indexed blk \<longleftrightarrow> map i_id (b_instructions blk) = [0..<length (b_instructions blk)]"

definition well_built :: "ir_function \<Rightarrow> bool" where
  "well_built f \<longleftrightarrow> numbered f \<and> list_all instructions_indexed (f_blocks f)"

definition failed_step :: "build_state \<Rightarrow> ssa_value list \<Rightarrow> build_state \<Rightarrow> bool" where
  "failed_step s vs s' \<longleftrightarrow> snd s' = snd s \<and> (\<exists>e. bd_errors (fst s') = bd_errors (fst s) @ [e])"

definition clean_step :: "build_state \<Rightarrow> ssa_value list \<Rightarrow> build_state \<Rightarrow> bool" where
  "clean_step s vs s' \<longleftrightarrow> bd_errors (fst s') = bd_errors (fst s) \<and>
     (well_built (snd s) \<longrightarrow> well_built (snd s')) \<and> f_next_value_id (snd s) \<le> f_next_value_id (snd s') \<and>
     map vid vs = [f_next_value_id (snd s)..<f_next_value_id (snd s')] \<and>
     set (definitions_of (snd s')) = set (definitions_of (snd s)) \<union>
       {f_next_value_id (snd s)..<f_next_value_id (snd s')}"

subsection \<open>Appending an instruction\<close>

lemma update_first_split:
  "find P xs = Some x \<Longrightarrow> \<exists>as bs. xs = as @ x # bs \<and> (\<forall>g. update_first P g xs = as @ g x # bs)"
proof (induction xs)
  case (Cons y ys)
  show ?case
  proof (cases "P y")
    case True
    then show ?thesis using Cons.prems by (intro exI [where x = "[]"] exI [where x = ys]) simp
  next
    case False
    then obtain as bs where "ys = as @ x # bs" "\<forall>g. update_first P g ys = as @ g x # bs" using Cons by auto
    then have "y # ys = (y # as) @ x # bs \<and> (\<forall>g. update_first P g (y # ys) = (y # as) @ g x # bs)" using False by simp
    then show ?thesis by blast
  qed
qed simp

definition append_instruction :: "instruction_kind \<Rightarrow> source_span option \<Rightarrow> basic_block \<Rightarrow> basic_block" where
  "append_instruction k sp blk = blk\<lparr>b_instructions := b_instructions blk @
     [\<lparr>i_id = length (b_instructions blk), i_kind = k, i_span = sp\<rparr>]\<rparr>"

lemma emitted_instruction:
  "set_last_span sp (fst (add_instruction blk k)) = append_instruction k sp blk"
  "fst (add_instruction blk k) = append_instruction k None blk"
  "set_last_span sp (append_instruction k None blk) = append_instruction k sp blk"
  by (simp_all add: set_last_span_def add_instruction_def append_instruction_def Let_def)

lemma distinct_insert_range:
  fixes m :: nat
  assumes "distinct (p @ q)" "\<And>v. v \<in> set (p @ q) \<Longrightarrow> v < m"
  shows "distinct (p @ [m..<n] @ q)" "m \<le> n \<Longrightarrow> v \<in> set (p @ [m..<n] @ q) \<Longrightarrow> v < n"
proof -
  show "v < n" if "m \<le> n" "v \<in> set (p @ [m..<n] @ q)" using that assms(2) [of v] by auto
  have "set p \<inter> {m..<n} = {}" "set q \<inter> {m..<n} = {}" using assms(2) by fastforce+
  then show "distinct (p @ [m..<n] @ q)" using assms(1) by auto
qed

lemma append_instruction_kept:
  fixes sp :: "source_span option"
  assumes b: "get_block f i = Some b" and k: "map vid (defined_values k) = [f_next_value_id f..<n]" and n: "f_next_value_id f \<le> n"
  defines "f' \<equiv> (with_block_mut f i (append_instruction k sp))\<lparr>f_next_value_id := n\<rparr>"
  shows "well_built f \<Longrightarrow> well_built f'" "set (definitions_of f') = set (definitions_of f) \<union> {f_next_value_id f..<n}"
proof -
  obtain as bs where f: "f_blocks f = as @ b # bs" and f': "f_blocks f' = as @ append_instruction k sp b # bs"
    using update_first_split [OF b [unfolded get_block_def]] by (auto simp: f'_def with_block_mut_def)
  obtain p q where defs: "definitions_of f = p @ q" "definitions_of f' = p @ [f_next_value_id f..<n] @ q"
  proof
    let ?p = "map p_id (f_params f) @ concat (map (map vid \<circ> defined_values) (concat (map block_kinds as) @ block_kinds b))"
    let ?q = "concat (map (map vid \<circ> defined_values) (concat (map block_kinds bs)))"
    show "definitions_of f = ?p @ ?q" by (simp add: definitions_of_def function_kinds_def f)
    show "definitions_of f' = ?p @ [f_next_value_id f..<n] @ ?q"
      using k by (simp add: definitions_of_def function_kinds_def f' block_kinds_def append_instruction_def)
        (simp add: f'_def with_block_mut_def)
  qed
  then show "set (definitions_of f') = set (definitions_of f) \<union> {f_next_value_id f..<n}" by auto
  have ids: "block_ids f' = block_ids f" by (simp add: block_ids_def f f' append_instruction_def)
  assume wb: "well_built f"
  then have old: "distinct (p @ q)" "\<And>v. v \<in> set (p @ q) \<Longrightarrow> v < f_next_value_id f"
    unfolding well_built_def numbered_def single_assignment_def defs by auto
  have "distinct (p @ [f_next_value_id f..<n] @ q)"
    by (rule distinct_insert_range(1) [OF old])
  moreover have "\<forall>v \<in> set (p @ [f_next_value_id f..<n] @ q). v < n" using distinct_insert_range(2) [OF old n] by blast
  ultimately have "numbered f'" using wb unfolding well_built_def numbered_def single_assignment_def defs ids
    by (simp add: f'_def with_block_mut_def)
  moreover have "list_all instructions_indexed (f_blocks f')"
    using wb by (auto simp: well_built_def f f' instructions_indexed_def append_instruction_def)
  ultimately show "well_built f'" by (simp add: well_built_def)
qed

subsection \<open>Every call fails cleanly or appends\<close>

lemma active_block_Inl: "active_block what prep s = Inl b \<Longrightarrow> \<exists>e. bd_errors b = bd_errors (fst s) @ [e]"
  by (auto simp: active_block_def record_error_def split: option.splits prod.splits)

lemma active_block_Inr: "active_block what prep s = Inr i \<Longrightarrow> \<exists>blk. get_block (snd s) i = Some blk"
  by (auto simp: active_block_def split: option.splits prod.splits)

lemma with_block_mut_next: "(with_block_mut (f\<lparr>f_next_value_id := n\<rparr>) i g) = (with_block_mut f i g)\<lparr>f_next_value_id := n\<rparr>"
  "(with_block_mut f i g)\<lparr>f_next_value_id := f_next_value_id f\<rparr> = with_block_mut f i g"
  by (simp_all add: with_block_mut_def)

lemma try_emit_step:
  assumes "\<And>v. defined_values (mk v) = [v]"
  shows "failed_step s [snd (try_emit mk s)] (fst (try_emit mk s)) \<or> clean_step s [snd (try_emit mk s)] (fst (try_emit mk s))"
proof (cases "active_block ''a value'' ''into'' s")
  case (Inl b)
  then show ?thesis using active_block_Inl [OF Inl] by (simp add: try_emit_def failed_step_def)
next
  case (Inr i)
  obtain blk where blk: "get_block (snd s) i = Some blk" using active_block_Inr [OF Inr] by blast
  let ?n = "f_next_value_id (snd s)"
  have e: "try_emit mk s = ((fst s, (with_block_mut (snd s) i (append_instruction (mk (Value ?n)) (bd_span (fst s))))
      \<lparr>f_next_value_id := Suc ?n\<rparr>), Value ?n)"
    using Inr by (simp add: try_emit_def next_value_def Let_def emitted_instruction(1) with_block_mut_next)
  show ?thesis using append_instruction_kept [OF blk, of "mk (Value ?n)" "Suc ?n" "bd_span (fst s)"] assms
    by (simp add: e clean_step_def)
qed

lemma emit_call_step:
  assumes "\<And>r. defined_values (mk r) = option_list r"
  shows "failed_step s (option_list (snd (emit_call what ret mk s))) (fst (emit_call what ret mk s)) \<or>
    clean_step s (option_list (snd (emit_call what ret mk s))) (fst (emit_call what ret mk s))"
proof (cases "active_block what ''into'' s")
  case (Inl b)
  then show ?thesis using active_block_Inl [OF Inl] by (simp add: emit_call_def failed_step_def)
next
  case (Inr i)
  obtain blk where blk: "get_block (snd s) i = Some blk" using active_block_Inr [OF Inr] by blast
  let ?n = "f_next_value_id (snd s)"
  let ?m = "if ret then Suc ?n else ?n" and ?r = "if ret then Some (Value ?n) else None"
  have e: "emit_call what ret mk s = ((fst s, (with_block_mut (snd s) i (append_instruction (mk ?r) None))
      \<lparr>f_next_value_id := ?m\<rparr>), ?r)"
    using Inr by (simp add: emit_call_def next_value_def Let_def emitted_instruction(2) with_block_mut_next)
  show ?thesis using append_instruction_kept [OF blk, of "mk ?r" ?m None] assms
    by (simp add: e clean_step_def)
qed

lemma append_effect:
  assumes "get_block (snd s) i = Some blk" "defined_values k = []"
  shows "clean_step s [] (fst s, with_block_mut (snd s) i (append_instruction k sp))"
  using append_instruction_kept [OF assms(1), of k "f_next_value_id (snd s)" sp] assms(2)
  by (simp add: clean_step_def with_block_mut_next) (simp add: with_block_mut_def)

lemma terminator_effect:
  assumes "get_block (snd s) i = Some blk"
  shows "clean_step s [] (fst s, with_block_mut (snd s) i (\<lambda>blk. set_terminator blk t))"
proof -
  let ?f = "with_block_mut (snd s) i (\<lambda>blk. set_terminator blk t)"
  obtain as bs where f: "f_blocks (snd s) = as @ blk # bs" and f': "f_blocks ?f = as @ set_terminator blk t # bs"
    using update_first_split [OF assms [unfolded get_block_def]] by (auto simp: with_block_mut_def)
  have kinds: "block_kinds (set_terminator blk t) = block_kinds blk" "b_id (set_terminator blk t) = b_id blk"
    "instructions_indexed (set_terminator blk t) = instructions_indexed blk"
    by (simp_all add: block_kinds_def set_terminator_def instructions_indexed_def)
  have "f_params ?f = f_params (snd s)" by (simp add: with_block_mut_def)
  then have "definitions_of ?f = definitions_of (snd s)"
    by (simp add: definitions_of_def function_kinds_def f f' kinds)
  moreover have "block_ids ?f = block_ids (snd s)" by (simp add: block_ids_def f f' kinds)
  moreover have "list_all instructions_indexed (f_blocks ?f) \<longleftrightarrow> list_all instructions_indexed (f_blocks (snd s))"
    by (simp add: f f' kinds)
  moreover have "f_next_value_id ?f = f_next_value_id (snd s)" "f_next_block_id ?f = f_next_block_id (snd s)"
    by (simp_all add: with_block_mut_def)
  ultimately show ?thesis by (simp add: clean_step_def well_built_def numbered_def single_assignment_def)
qed

lemma emit_effect_step:
  assumes "\<And>i blk. get_block (snd s) i = Some blk \<Longrightarrow> clean_step s [] (fst s, with_block_mut (snd s) i g)"
  shows "failed_step s [] (emit_effect what prep g s) \<or> clean_step s [] (emit_effect what prep g s)"
proof (cases "active_block what prep s")
  case (Inl b)
  then show ?thesis using active_block_Inl [OF Inl] by (simp add: emit_effect_def failed_step_def)
next
  case (Inr i)
  then show ?thesis using active_block_Inr [OF Inr] assms by (auto simp: emit_effect_def)
qed

lemma add_block_step: "clean_step (b, f) [] (b, fst (add_block f label))"
proof -
  let ?f = "fst (add_block f label)"
  have "definitions_of ?f = definitions_of f"
    by (simp add: definitions_of_def function_kinds_def add_block_def Let_def block_kinds_def)
  moreover have "block_ids ?f = block_ids f @ [f_next_block_id f]" "f_next_block_id ?f = Suc (f_next_block_id f)"
    "f_next_value_id ?f = f_next_value_id f" by (simp_all add: block_ids_def add_block_def Let_def)
  moreover have "list_all instructions_indexed (f_blocks ?f) \<longleftrightarrow> list_all instructions_indexed (f_blocks f)"
    by (simp add: add_block_def Let_def instructions_indexed_def)
  ultimately show ?thesis by (auto simp: clean_step_def well_built_def numbered_def single_assignment_def)
qed

lemmas build_defs =
  build_add_def build_sub_def build_mul_def build_div_signedness_def build_div_def build_rem_signedness_def
  build_rem_def build_bit_and_def build_bit_or_def build_bit_xor_def build_shl_def build_shr_def build_eq_def
  build_ne_def build_lt_signedness_def build_lt_def build_le_signedness_def build_le_def build_gt_signedness_def
  build_gt_def build_ge_signedness_def build_ge_def build_and_def build_or_def build_not_def build_alloca_def
  build_global_addr_def build_load_def build_load_typed_def build_store_def build_getelementptr_bounded_def
  build_getelementptr_def build_field_ptr_def build_manual_alloc_def build_escape_manual_alloc_def
  build_copy_def build_phi_def build_const_int_def build_const_int_typed_def build_const_float_def
  build_const_float_typed_def build_const_bool_def build_const_string_def build_return_def build_branch_def
  build_cond_branch_def build_unreachable_def build_call_def build_host_call_with_type_def build_host_call_def
  build_typed_host_call_def build_func_addr_def build_call_indirect_def build_async_ready_def build_cast_def
  build_make_dyn_fat_ptr_def build_load_dyn_data_ptr_def build_load_dyn_vtable_ptr_def
  build_load_vtable_slot_def

lemma build_step_cases: "build_step s vs s' \<Longrightarrow> failed_step s vs s' \<or> clean_step s vs s'"
proof (induction rule: build_step.induct)
  case (step_current_function b f i)
  then show ?case by (simp add: clean_step_def set_current_function_def)
next
  case (step_current_block b f i)
  then show ?case by (simp add: clean_step_def set_current_block_def)
next
  case (step_source_span b f sp)
  then show ?case by (simp add: clean_step_def set_source_span_def)
next
  case (step_add_block b f label)
  then show ?case using add_block_step by blast
qed (unfold build_defs, (rule try_emit_step emit_call_step emit_effect_step,
       simp add: defined_values_def instruction_result_def emitted_instruction append_effect terminator_effect
       split: option.split)+)

text \<open>Over a trace: the invariant, and without a recorded message the values are the numbers in order.\<close>

lemma new_function_built:
  assumes "map p_id ps = [0..<length ps]"
  shows "well_built (new_function n ps ty)" "definitions_of (new_function n ps ty) = [0..<length ps]"
proof -
  show defs: "definitions_of (new_function n ps ty) = [0..<length ps]"
    using assms by (simp add: definitions_of_def function_kinds_def new_function_def)
  show "well_built (new_function n ps ty)"
    unfolding well_built_def numbered_def single_assignment_def defs by (simp add: new_function_def block_ids_def)
qed

lemma build_trace_kept:
  assumes "build_trace (b, f) vs s" "well_built f"
  shows "well_built (snd s) \<and> (bd_errors (fst s) = [] \<longrightarrow> f_next_value_id f \<le> f_next_value_id (snd s) \<and>
    map vid vs = [f_next_value_id f..<f_next_value_id (snd s)] \<and>
    set (definitions_of (snd s)) = set (definitions_of f) \<union> {f_next_value_id f..<f_next_value_id (snd s)})"
  using assms(1)
proof induction
  case trace_start
  then show ?case using assms(2) by simp
next
  case (trace_step vs s' ws s'')
  from build_step_cases [OF trace_step(2)] show ?case
  proof
    assume "failed_step s' ws s''"
    then show ?thesis using trace_step.IH by (auto simp: failed_step_def)
  next
    assume c: "clean_step s' ws s''"
    have join: "[l..<m] @ [m..<n] = [l..<n]" "{l..<m} \<union> {m..<n} = {l..<n}" if "l \<le> m" "m \<le> n" for l m n :: nat
      using that upt_add_eq_append [of l m "n - m"] by auto
    show ?thesis using c trace_step.IH by (auto simp: clean_step_def join Un_assoc)
  qed
qed

text \<open>C30: A function written through the builder, by any sequence of its methods and of new blocks, is
  numbered in single assignment form: block and value numbers are used once and are below the counters.
  If no message was recorded, the calls returned exactly the numbers after the parameters, in order,
  each defined by an instruction of the function, and none of them is the placeholder value.\<close>

theorem builder_numbers_values:
  assumes params: "map p_id ps = [0..<length ps]"
    and trace: "build_trace (new_builder, new_function n ps ty) vs (b, f)"
  shows "numbered f \<and> (\<not> has_errors b \<longrightarrow> map vid vs = [length ps..<f_next_value_id f] \<and>
    set (definitions_of f) = {..<f_next_value_id f} \<and> (f_next_value_id f \<le> INVALID_ID \<longrightarrow> invalid_value \<notin> set vs))"
proof -
  note built = build_trace_kept [OF trace new_function_built(1) [OF params]]
  have first: "f_next_value_id (new_function n ps ty) = length ps" by (simp add: new_function_def)
  have "invalid_value \<notin> set vs" if "map vid vs = [length ps..<f_next_value_id f]" "f_next_value_id f \<le> INVALID_ID"
  proof
    assume "invalid_value \<in> set vs"
    then have "vid invalid_value \<in> set (map vid vs)" by (simp only: set_map imageI)
    with that show False by (simp add: invalid_value_def)
  qed
  moreover have "{0..<length ps} \<union> {length ps..<m} = {..<m}" if "length ps \<le> m" for m
    using that by auto
  ultimately show ?thesis using built
    by (simp add: first new_function_built(2) [OF params] has_errors_def well_built_def)
qed

text \<open>A small function built call by call.\<close>

definition sample_build :: "build_state \<times> ssa_value" where
  "sample_build = build_const_int 7 (set_current_block 0 new_builder, fst (add_block (new_function ''f'' [] TInt) ''entry''))"

theorem builder_numbers_values_witness:
  "numbered (snd (fst sample_build)) \<and> map vid [snd sample_build] = [0..<f_next_value_id (snd (fst sample_build))]"
proof -
  let ?f = "new_function ''f'' [] TInt"
  note s0 = trace_start [of "(new_builder, ?f)"]
  note s1 = trace_step [OF s0 step_add_block [of new_builder ?f "''entry''"]]
  note s2 = trace_step [OF s1 step_current_block [of _ _ 0]]
  note s3 = trace_step [OF s2 step_const_int [of _ 7]]
  then have t: "build_trace (new_builder, ?f) [snd sample_build] (fst (fst sample_build), snd (fst sample_build))"
    by (simp add: sample_build_def)
  have "\<not> has_errors (fst (fst sample_build))" by code_simp
  with builder_numbers_values [OF _ t] show ?thesis by simp
qed

end
