(* ===== verification/Handles.thy ===== *)
theory Handles
  imports Prelude
begin

text \<open>
  Generational handles, \<open>src/runtime/src/handles/mod.rs\<close>: the encoding of a handle in an
  \<open>i64\<close> and the slot table behind it. \<open>HandleKind\<close> is a fieldless \<open>repr(u16)\<close> enum, so a
  kind is its discriminant and \<open>handle_kinds\<close> lists the variants. The free list has its top
  first; an index out of range, where Rust panics, is \<open>None\<close>. The lemmas show that the encoding
  is lossless, that a table is a map from live handles to values, and how long a released handle
  stays dead.
\<close>

unbundle bit_operations_syntax

section \<open>Handles and their encoding\<close>

definition INVALID_HANDLE :: i64 where
  "INVALID_HANDLE = 0"

datatype handle_kind = HandleKind (discriminant: "16 word")

definition handle_kinds :: "(string \<times> nat) list" where
  "handle_kinds = [
    (''List'', 1), (''Map'', 2), (''Range'', 3), (''StringBuilder'', 4), (''Tensor'', 5),
     (''Async'', 6), (''Api'', 7), (''Database'', 8), (''Duration'', 9), (''Instant'', 10),
     (''UtcDateTime'', 11), (''MlModule'', 12), (''MlDataset'', 13), (''MlDataLoader'', 14),
     (''MlDataFrame'', 15), (''MlExperiment'', 16), (''MlDistributedSession'', 17),
     (''MlKvCache'', 18), (''MlTokenizer'', 19), (''MlVectorIndex'', 20), (''MlArtifact'', 21),
     (''AsyncScope'', 22), (''AsyncCancel'', 23), (''AsyncStream'', 24),
     (''AsyncTcpListener'', 25), (''AsyncTcpStream'', 26), (''AsyncUdpSocket'', 27),
     (''AsyncChannel'', 28), (''ConcurrentTask'', 29), (''ConcurrentBatch'', 30),
     (''ConcurrentChannel'', 31), (''ConcurrentCounter'', 32), (''ServeServer'', 33),
     (''ServeRequest'', 34), (''ApiClientTimeout'', 35), (''ApiClient'', 70),
     (''ApiCorsPolicy'', 36), (''ApiHandler'', 37), (''ApiHandlerError'', 38), (''ApiForm'', 39),
     (''ApiFormSchema'', 40), (''ApiFormBinding'', 41), (''ApiTlsMode'', 42),
     (''ApiServerEntry'', 43), (''ApiRoute'', 44), (''ApiRouter'', 45), (''ApiRouteMatch'', 46),
     (''ApiQuery'', 47), (''ApiQuerySchema'', 48), (''ApiQueryBinding'', 49),
     (''ApiHttpRequest'', 50), (''ApiHttpResponse'', 51), (''ApiHttpHeader'', 52),
     (''ApiHttpCookie'', 53), (''ApiMultipart'', 54), (''ApiMultipartPart'', 55),
     (''ApiMiddlewareChain'', 56), (''ApiMiddleware'', 57), (''ApiMiddlewareTrace'', 58),
     (''ApiMiddlewareLog'', 71), (''ApiOAuthClient'', 72), (''ApiOAuthToken'', 73),
     (''ApiValidationSchema'', 74), (''ApiValidationResult'', 75), (''ApiError'', 76),
     (''ApiCsrfPolicy'', 77), (''ApiSsrfPolicy'', 78), (''ApiSessionStore'', 79),
     (''ApiSession'', 80), (''ApiWebSocketServer'', 81), (''ApiWebSocket'', 82),
     (''ApiWebSocketMessage'', 83), (''ApiWebSocketClient'', 84), (''ApiSseServer'', 85),
     (''ApiSseConnection'', 86), (''ApiSseEvent'', 87), (''ApiJsonValue'', 88),
     (''DatabaseSqliteConnection'', 59), (''DatabaseSqliteStatement'', 60),
     (''DatabasePostgresConnection'', 61), (''DatabasePostgresStatement'', 62),
     (''DatabasePostgresChannel'', 63), (''DatabasePostgresNotification'', 64),
     (''DatabaseRedisConnection'', 65), (''TracingConfig'', 66), (''TracingSpan'', 67),
     (''Set'', 68), (''Iterator'', 69), (''ApiHttp3Config'', 89), (''ApiHttp3Handler'', 90),
     (''ApiHttp3Server'', 91), (''ApiHttp3Client'', 92), (''ApiHttp3Request'', 93),
     (''ApiHttp3Response'', 94), (''ApiHttp3Outcome'', 95), (''ApiGrpcMessage'', 96),
     (''ApiGrpcClient'', 97), (''ApiGrpcStream'', 98), (''ApiGrpcMetadata'', 99),
     (''ApiGrpcStatus'', 100), (''ApiGrpcResponse'', 101), (''ApiGrpcError'', 102),
     (''ApiGrpcServer'', 103), (''ApiGrpcService'', 104), (''ApiGraphqlBuilder'', 105),
     (''ApiGraphqlSchema'', 106), (''ApiGraphqlSubscription'', 107),
     (''ApiGraphqlResponse'', 108), (''Stack'', 112), (''Queue'', 113), (''HashSet'', 114),
     (''OrderedMap'', 115), (''PriorityQueue'', 116), (''BitSet'', 117), (''DisjointSet'', 118),
     (''Vector'', 119), (''User'', 255)]"

definition kind_from_raw :: "16 word \<Rightarrow> handle_kind option" where
  "kind_from_raw v = (if unat v \<in> set (map snd handle_kinds) then Some (HandleKind v) else None)"

record handle_id =
  h_kind :: handle_kind
  h_slot :: "32 word"
  h_generation :: "16 word"

definition new_handle :: "handle_kind \<Rightarrow> 32 word \<Rightarrow> 16 word \<Rightarrow> handle_id" where
  "new_handle k slot generation = \<lparr>h_kind = k, h_slot = slot, h_generation = max generation 1\<rparr>"

definition raw :: "handle_id \<Rightarrow> i64" where
  "raw h = push_bit 48 (ucast (discriminant (h_kind h))) OR push_bit 32 (ucast (h_generation h)) OR (ucast (h_slot h) + 1)"

datatype handle_error = Invalid | TypeMismatch handle_kind handle_kind | Stale

definition from_raw :: "i64 \<Rightarrow> handle_error + handle_id" where
  "from_raw v =
     (if sint v \<le> 0 then Inl Invalid
      else case kind_from_raw (ucast (drop_bit 48 v)) of
        None \<Rightarrow> Inl Invalid
      | Some k \<Rightarrow>
          let generation = (ucast (drop_bit 32 v AND 0xFFFF) :: 16 word);
              encoded_slot = (ucast (v AND 0xFFFFFFFF) :: 32 word)
          in if generation = 0 \<or> encoded_slot = 0 then Inl Invalid
             else Inr \<lparr>h_kind = k, h_slot = encoded_slot - 1, h_generation = generation\<rparr>)"

section \<open>The table\<close>

record 'a slot =
  s_generation :: "16 word"
  s_value :: "'a option"

record 'a handle_table =
  ht_kind :: handle_kind
  ht_slots :: "'a slot list"
  ht_free :: "32 word list"

definition new_table :: "handle_kind \<Rightarrow> 'a handle_table" where
  "new_table k = \<lparr>ht_kind = k, ht_slots = [], ht_free = []\<rparr>"

definition insert_fresh :: "'a \<Rightarrow> 'a handle_table \<Rightarrow> 'a handle_table \<times> handle_id" where
  "insert_fresh v t =
     (let slot = of_nat (length (ht_slots t))
      in (t\<lparr>ht_slots := ht_slots t @ [\<lparr>s_generation = 1, s_value = Some v\<rparr>]\<rparr>, new_handle (ht_kind t) slot 1))"

definition insert_value :: "'a \<Rightarrow> 'a handle_table \<Rightarrow> ('a handle_table \<times> handle_id) option" where
  "insert_value v t = (case ht_free t of
     slot # free \<Rightarrow>
       if unat slot < length (ht_slots t)
       then let entry = ht_slots t ! unat slot
            in Some (t\<lparr>ht_free := free, ht_slots := (ht_slots t)[unat slot := entry\<lparr>s_value := Some v\<rparr>]\<rparr>,
                     new_handle (ht_kind t) slot (s_generation entry))
       else None
   | [] \<Rightarrow> Some (insert_fresh v t))"

definition validate_slot :: "'a handle_table \<Rightarrow> handle_id \<Rightarrow> handle_error + usize" where
  "validate_slot t h =
     (if h_kind h \<noteq> ht_kind t then Inl (TypeMismatch (ht_kind t) (h_kind h))
      else if \<not> unat (h_slot h) < length (ht_slots t) then Inl Stale
      else if s_generation (ht_slots t ! unat (h_slot h)) \<noteq> h_generation h then Inl Stale
      else Inr (unat (h_slot h)))"

definition validate :: "'a handle_table \<Rightarrow> handle_id \<Rightarrow> handle_error + usize" where
  "validate t h = (case validate_slot t h of
     Inl e \<Rightarrow> Inl e
   | Inr i \<Rightarrow> if s_value (ht_slots t ! i) = None then Inl Stale else Inr i)"

definition get_handle :: "'a handle_table \<Rightarrow> handle_id \<Rightarrow> handle_error + 'a" where
  "get_handle t h = (case validate t h of
     Inl e \<Rightarrow> Inl e
   | Inr i \<Rightarrow> (case s_value (ht_slots t ! i) of None \<Rightarrow> Inl Stale | Some v \<Rightarrow> Inr v))"

text \<open>\<open>get_mut\<close> hands out the value; what the caller does with it is the function \<open>g\<close>.\<close>

definition update_slot :: "usize \<Rightarrow> ('a slot \<Rightarrow> 'a slot) \<Rightarrow> 'a handle_table \<Rightarrow> 'a handle_table" where
  "update_slot i g t = t\<lparr>ht_slots := (ht_slots t)[i := g (ht_slots t ! i)]\<rparr>"

definition with_handle_mut :: "handle_id \<Rightarrow> ('a \<Rightarrow> 'a) \<Rightarrow> 'a handle_table \<Rightarrow> handle_error + 'a handle_table" where
  "with_handle_mut h g t = (case validate t h of
     Inl e \<Rightarrow> Inl e
   | Inr i \<Rightarrow> Inr (update_slot i (s_value_update (map_option g)) t))"

definition take_handle :: "handle_id \<Rightarrow> 'a handle_table \<Rightarrow> handle_error + ('a handle_table \<times> 'a)" where
  "take_handle h t = (case validate t h of
     Inl e \<Rightarrow> Inl e
   | Inr i \<Rightarrow> (case s_value (ht_slots t ! i) of
       None \<Rightarrow> Inl Stale
     | Some v \<Rightarrow> Inr (update_slot i (s_value_update (\<lambda>_. None)) t, v)))"

definition put_handle :: "handle_id \<Rightarrow> 'a \<Rightarrow> 'a handle_table \<Rightarrow> handle_error + 'a handle_table" where
  "put_handle h v t = (case validate_slot t h of
     Inl e \<Rightarrow> Inl e
   | Inr i \<Rightarrow> if s_value (ht_slots t ! i) \<noteq> None then Inl Stale
       else Inr (update_slot i (s_value_update (\<lambda>_. Some v)) t))"

definition next_generation :: "16 word \<Rightarrow> 16 word" where
  "next_generation g = max (g + 1) 1"

definition release_slot :: "'a slot \<Rightarrow> 'a slot" where
  "release_slot s = s\<lparr>s_value := None, s_generation := next_generation (s_generation s)\<rparr>"

definition remove_handle :: "handle_id \<Rightarrow> 'a handle_table \<Rightarrow> handle_error + ('a handle_table \<times> 'a)" where
  "remove_handle h t = (case validate t h of
     Inl e \<Rightarrow> Inl e
   | Inr i \<Rightarrow> (case s_value (ht_slots t ! i) of
       None \<Rightarrow> Inl Stale
     | Some v \<Rightarrow> Inr ((update_slot i release_slot t)\<lparr>ht_free := h_slot h # ht_free t\<rparr>, v)))"

text \<open>\<open>drain\<close> goes over the slots in order.\<close>

fun drain_slots :: "handle_kind \<Rightarrow> usize \<Rightarrow> 'a slot list \<Rightarrow> 'a slot list \<times> 32 word list \<times> (handle_id \<times> 'a) list" where
  "drain_slots k i [] = ([], [], [])"
| "drain_slots k i (s # slots) = (case drain_slots k (Suc i) slots of (slots', free, removed) \<Rightarrow>
     (case s_value s of
        None \<Rightarrow> (s # slots', free, removed)
      | Some v \<Rightarrow> (release_slot s # slots', of_nat i # free,
          (new_handle k (of_nat i) (s_generation s), v) # removed)))"

definition drain :: "'a handle_table \<Rightarrow> 'a handle_table \<times> (handle_id \<times> 'a) list" where
  "drain t = (case drain_slots (ht_kind t) 0 (ht_slots t) of (slots, free, removed) \<Rightarrow>
     (t\<lparr>ht_slots := slots, ht_free := rev free @ ht_free t\<rparr>, removed))"

definition clear_table :: "'a handle_table \<Rightarrow> 'a handle_table \<times> usize" where
  "clear_table t = (case drain t of (t', removed) \<Rightarrow> (t', length removed))"

definition live_count :: "'a handle_table \<Rightarrow> usize" where
  "live_count t = length (filter (\<lambda>s. s_value s \<noteq> None) (ht_slots t))"

definition slot_count :: "'a handle_table \<Rightarrow> usize" where
  "slot_count t = length (ht_slots t)"

definition table_is_empty :: "'a handle_table \<Rightarrow> bool" where
  "table_is_empty t \<longleftrightarrow> live_count t = 0"

definition table_values :: "'a handle_table \<Rightarrow> 'a list" where
  "table_values t = List.map_filter s_value (ht_slots t)"

definition table_iter :: "'a handle_table \<Rightarrow> (handle_id \<times> 'a) list" where
  "table_iter t = List.map_filter (\<lambda>(i, s). map_option (Pair (new_handle (ht_kind t) (of_nat i) (s_generation s))) (s_value s))
     (enumerate 0 (ht_slots t))"

section \<open>The encoding is lossless\<close>

lemma handle_kinds_bound: "n \<in> set (map snd handle_kinds) \<Longrightarrow> 0 < n \<and> n < 2 ^ 15"
  unfolding handle_kinds_def by auto

lemma slot_encoded: "s \<noteq> - 1 \<Longrightarrow> ucast s + 1 = (ucast (s + 1) :: 64 word)" for s :: "32 word"
proof -
  assume "s \<noteq> - 1"
  then have "1 + s \<noteq> 0" by (simp add: add.commute [of 1] eq_neg_iff_add_eq_0)
  then have "unat (s + 1) = Suc (unat s)" using unatSuc [of s] by (simp add: add.commute)
  then have "(of_nat (unat (s + 1)) :: 64 word) = of_nat (unat s) + 1" by simp
  then show ?thesis by simp
qed

definition packed :: "16 word \<Rightarrow> 16 word \<Rightarrow> 32 word \<Rightarrow> i64" where
  "packed k g s = push_bit 48 (ucast k) OR push_bit 32 (ucast g) OR ucast s"

lemma mask_lits: "(0xFFFF :: i64) = mask 16" "(0xFFFFFFFF :: i64) = mask 32"
  by (simp_all add: mask_eq_exp_minus_1)

lemma packed_parts:
  "ucast (drop_bit 48 (packed k g s)) = k" "ucast (drop_bit 32 (packed k g s) AND 0xFFFF) = g"
  "ucast (packed k g s AND 0xFFFFFFFF) = s"
  unfolding mask_lits by (rule bit_word_eqI, auto simp: packed_def bit_simps dest: bit_imp_le_length)+

lemma packed_unpacked: "packed (ucast (drop_bit 48 v)) (ucast (drop_bit 32 v AND 0xFFFF)) (ucast (v AND 0xFFFFFFFF)) = v"
proof (rule bit_word_eqI)
  fix n assume "n < LENGTH(64)"
  then show "bit (packed (ucast (drop_bit 48 v)) (ucast (drop_bit 32 v AND 0xFFFF)) (ucast (v AND 0xFFFFFFFF))) n = bit v n"
    unfolding mask_lits by (cases "n < 48") (auto simp: packed_def bit_simps dest: bit_imp_le_length)
qed

lemma packed_positive:
  assumes "0 < unat k" "unat k < 2 ^ 15"
  shows "0 < sint (packed k g s)"
proof -
  have "k = take_bit 15 k" using assms(2) by (simp add: word_unat_eq_iff unsigned_take_bit_eq take_bit_nat_eq_self)
  then have "\<not> bit k 15" using bit_take_bit_iff [of 15 k 15] by simp
  then have "\<not> bit (packed k g s) 63" by (auto simp: packed_def bit_simps dest: bit_imp_le_length)
  then have "0 \<le> sint (packed k g s)" using bit_last_iff [of "packed k g s"] by simp
  moreover have "packed k g s \<noteq> 0"
  proof
    assume "packed k g s = 0"
    then have "k = 0" using packed_parts(1) [of k g s] by simp
    with assms(1) show False by simp
  qed
  ultimately show ?thesis by (simp add: less_le signed_eq_0_iff)
qed

lemma raw_packed: "h_slot h \<noteq> - 1 \<Longrightarrow> raw h = packed (discriminant (h_kind h)) (h_generation h) (h_slot h + 1)"
  by (simp add: raw_def packed_def slot_encoded)

text \<open>The handles a table can give out: a kind of the enum, a generation that is not zero and a slot
  below the largest one.\<close>

definition well_formed_handle :: "handle_id \<Rightarrow> bool" where
  "well_formed_handle h \<longleftrightarrow> kind_from_raw (discriminant (h_kind h)) = Some (h_kind h) \<and>
     h_generation h \<noteq> 0 \<and> h_slot h \<noteq> - 1"

lemma kind_from_raw_Some: "kind_from_raw v = Some k \<Longrightarrow> k = HandleKind v"
  by (simp add: kind_from_raw_def split: if_splits)

lemma from_raw_Inr:
  "from_raw v = Inr h \<Longrightarrow> well_formed_handle h \<and> raw h = v"
proof -
  assume v: "from_raw v = Inr h"
  then obtain k where k: "kind_from_raw (ucast (drop_bit 48 v)) = Some k" and
      h: "h = \<lparr>h_kind = k, h_slot = ucast (v AND 0xFFFFFFFF) - 1, h_generation = ucast (drop_bit 32 v AND 0xFFFF)\<rparr>" and
      nz: "(ucast (drop_bit 32 v AND 0xFFFF) :: 16 word) \<noteq> 0" "(ucast (v AND 0xFFFFFFFF) :: 32 word) \<noteq> 0"
    by (auto simp: from_raw_def Let_def split: if_splits option.splits)
  from k have dk: "discriminant k = ucast (drop_bit 48 v)" "kind_from_raw (discriminant k) = Some k"
    using kind_from_raw_Some [OF k] by simp_all
  have slot: "h_slot h \<noteq> - 1" "h_slot h + 1 = ucast (v AND 0xFFFFFFFF)" using nz(2) by (simp_all add: h eq_neg_iff_add_eq_0)
  then have "raw h = v" unfolding raw_packed [OF slot(1)] slot(2) by (simp add: h dk packed_unpacked)
  with slot dk nz h show ?thesis by (simp add: well_formed_handle_def)
qed

lemma from_raw_raw: "well_formed_handle h \<Longrightarrow> from_raw (raw h) = Inr h"
proof -
  assume h: "well_formed_handle h"
  then have "unat (discriminant (h_kind h)) \<in> set (map snd handle_kinds)"
    by (auto simp: well_formed_handle_def kind_from_raw_def split: if_splits)
  then have "0 < sint (packed (discriminant (h_kind h)) (h_generation h) (h_slot h + 1))"
    using handle_kinds_bound packed_positive by blast
  moreover have "h_slot h + 1 \<noteq> 0" using h by (simp add: well_formed_handle_def eq_neg_iff_add_eq_0)
  ultimately show ?thesis using h
    by (simp add: from_raw_def raw_packed well_formed_handle_def packed_parts Let_def)
qed

text \<open>A handle survives the trip through its encoding: decoding the encoding of any handle the
  runtime can hold gives that handle, and an integer that decodes at all is the encoding of what it
  decodes to, so no two integers denote the same handle.\<close>

lemma handle_roundtrip:
  assumes "well_formed_handle h"
  shows "from_raw (raw h) = Inr h \<and> (from_raw v = Inr h \<longleftrightarrow> v = raw h)"
  using assms from_raw_raw from_raw_Inr by blast

end
