(* ===== verification/Handle_Store.thy ===== *)
theory Handle_Store
  imports Handles
begin

text \<open>
  What a \<open>HandleTable\<close> (\<open>src/runtime/src/handles/mod.rs\<close>) promises its users. To a user a
  table is a finite map from live handles to values and a set of lent handles, those whose value was
  taken out and must come back; \<open>spec_op\<close> states each operation over that. The theory shows that the
  slots, generations and free list implement it, errors included, and then what the sixteen-bit
  generation means for handles that were released long ago.
\<close>

lemma option_eqI: "(\<And>v. a = Some v \<longleftrightarrow> b = Some v) \<Longrightarrow> a = b"
  by (cases a; cases b) auto

section \<open>The state a user sees\<close>

definition lookup_handle :: "'a handle_table \<Rightarrow> handle_id \<Rightarrow> 'a option" where
  "lookup_handle t h = (case get_handle t h of Inl e \<Rightarrow> None | Inr v \<Rightarrow> Some v)"

definition addressed :: "'a handle_table \<Rightarrow> handle_id \<Rightarrow> bool" where
  "addressed t h \<longleftrightarrow> h_kind h = ht_kind t \<and> unat (h_slot h) < length (ht_slots t) \<and>
     s_generation (ht_slots t ! unat (h_slot h)) = h_generation h"

definition lent :: "'a handle_table \<Rightarrow> handle_id set" where
  "lent t = {h. addressed t h \<and> s_value (ht_slots t ! unat (h_slot h)) = None \<and> h_slot h \<notin> set (ht_free t)}"

definition max_slots :: nat where
  "max_slots = 2 ^ 32 - 1"

definition table_ok :: "'a handle_table \<Rightarrow> bool" where
  "table_ok t \<longleftrightarrow> length (ht_slots t) \<le> max_slots \<and> distinct (ht_free t) \<and>
     (\<forall>s \<in> set (ht_free t). unat s < length (ht_slots t) \<and> s_value (ht_slots t ! unat s) = None) \<and>
     (\<forall>s \<in> set (ht_slots t). s_generation s \<noteq> 0)"

definition room_for :: "nat \<Rightarrow> 'a handle_table \<Rightarrow> bool" where
  "room_for n t \<longleftrightarrow> length (ht_slots t) + n \<le> max_slots"

definition dead_error :: "handle_kind \<Rightarrow> handle_id \<Rightarrow> handle_error" where
  "dead_error k h = (if h_kind h \<noteq> k then TypeMismatch k (h_kind h) else Stale)"

lemma lookup_handle_eq:
  "lookup_handle t h = (if addressed t h then s_value (ht_slots t ! unat (h_slot h)) else None)"
  by (auto simp: lookup_handle_def get_handle_def validate_def validate_slot_def addressed_def split: option.splits)

lemma validate_slot_eq:
  "validate_slot t h = (if addressed t h then Inr (unat (h_slot h)) else Inl (dead_error (ht_kind t) h))"
  by (auto simp: validate_slot_def addressed_def dead_error_def)

lemma validate_eq: "validate t h = (case lookup_handle t h of
    None \<Rightarrow> Inl (dead_error (ht_kind t) h) | Some v \<Rightarrow> Inr (unat (h_slot h)))"
  by (auto simp: validate_def validate_slot_eq lookup_handle_eq dead_error_def addressed_def split: option.splits)

lemma lookup_value: "lookup_handle t h = Some v \<Longrightarrow> addressed t h \<and> s_value (ht_slots t ! unat (h_slot h)) = Some v"
  by (simp add: lookup_handle_eq split: if_splits)

lemma table_okI:
  assumes "length (ht_slots t) \<le> max_slots" "distinct (ht_free t)"
    "\<And>s. s \<in> set (ht_free t) \<Longrightarrow> unat s < length (ht_slots t) \<and> s_value (ht_slots t ! unat s) = None"
    "\<And>s. s \<in> set (ht_slots t) \<Longrightarrow> s_generation s \<noteq> 0"
  shows "table_ok t"
  using assms by (simp add: table_ok_def)

lemma table_okD:
  assumes "table_ok t"
  shows "length (ht_slots t) \<le> max_slots" "distinct (ht_free t)"
    "\<And>s. s \<in> set (ht_free t) \<Longrightarrow> unat s < length (ht_slots t) \<and> s_value (ht_slots t ! unat s) = None"
    "\<And>s. s \<in> set (ht_slots t) \<Longrightarrow> s_generation s \<noteq> 0"
  using assms by (simp_all add: table_ok_def)

lemma slot_nat: "n < max_slots \<Longrightarrow> unat (of_nat n :: 32 word) = n"
  by (simp add: max_slots_def unsigned_of_nat take_bit_nat_eq_self)

lemma slot_eq: "unat s = unat t \<longleftrightarrow> s = t" for s t :: "32 word"
  by (simp add: word_unat_eq_iff)

lemma next_generation_nonzero [simp]: "next_generation g \<noteq> 0"
  by (auto simp: next_generation_def max_def word_le_nat_alt word_unat_eq_iff)

lemma max_one: "g \<noteq> 0 \<Longrightarrow> max g 1 = g" for g :: "16 word"
  by (auto simp: max_def word_le_nat_alt word_unat_eq_iff)

section \<open>Each operation on that state\<close>

text \<open>One slot changes; the handles that do not address it before or after keep their meaning.\<close>

lemma addressed_update:
  assumes "unat s < length (ht_slots t)" "h_slot h \<noteq> s"
  shows "addressed (t\<lparr>ht_slots := (ht_slots t)[unat s := e]\<rparr>) h \<longleftrightarrow> addressed t h"
  using assms by (simp add: addressed_def slot_eq)

lemma new_table_ok: "table_ok (new_table k)" "lookup_handle (new_table k) = Map.empty" "lent (new_table k) = {}"
  by (auto simp: table_ok_def new_table_def lookup_handle_eq lent_def addressed_def)

lemma insert_fresh_ok:
  assumes t: "table_ok t" "room_for 1 t" and i: "insert_fresh v t = (t', h)"
  shows "table_ok t' \<and> lookup_handle t h = None \<and> h \<notin> lent t \<and> lookup_handle t' = (lookup_handle t)(h \<mapsto> v) \<and>
    lent t' = lent t \<and> ht_kind t' = ht_kind t \<and> length (ht_slots t') = Suc (length (ht_slots t))"
proof -
  let ?n = "length (ht_slots t)"
  have n: "?n < max_slots" using t(2) by (simp add: room_for_def)
  have t': "t' = t\<lparr>ht_slots := ht_slots t @ [\<lparr>s_generation = 1, s_value = Some v\<rparr>]\<rparr>"
    and h: "h = \<lparr>h_kind = ht_kind t, h_slot = of_nat ?n, h_generation = 1\<rparr>"
    using i by (simp_all add: insert_fresh_def new_handle_def Let_def)
  have slot: "unat (h_slot h) = ?n" using slot_nat [OF n] by (simp add: h)
  have old: "\<not> addressed t h" by (simp add: addressed_def slot)
  have addr: "addressed t' h' \<longleftrightarrow> addressed t h' \<or> h' = h" for h'
  proof (cases "unat (h_slot h') < ?n")
    case True
    then show ?thesis using slot by (auto simp: addressed_def t' nth_append)
  next
    case False
    then show ?thesis using slot slot_eq [of "h_slot h'" "h_slot h"] by (auto simp: addressed_def t' nth_append h less_Suc_eq)
  qed
  have val: "s_value (ht_slots t' ! unat (h_slot h')) = (if h' = h then Some v else s_value (ht_slots t ! unat (h_slot h')))"
    if "addressed t' h'" for h'
    using that addr [of h'] by (auto simp: t' nth_append slot addressed_def)
  have "table_ok t'"
  proof (rule table_okI)
    show "length (ht_slots t') \<le> max_slots" using n by (simp add: t')
    show "distinct (ht_free t')" using table_okD(2) [OF t(1)] by (simp add: t')
    show "unat s < length (ht_slots t') \<and> s_value (ht_slots t' ! unat s) = None" if "s \<in> set (ht_free t')" for s
      using table_okD(3) [OF t(1), of s] that by (simp add: t' nth_append)
    show "s_generation s \<noteq> 0" if "s \<in> set (ht_slots t')" for s
      using table_okD(4) [OF t(1), of s] that by (auto simp: t')
  qed
  moreover have "lookup_handle t' = (lookup_handle t)(h \<mapsto> v)"
    by (rule ext) (use addr val old in \<open>auto simp: lookup_handle_eq\<close>)
  moreover have "lent t' = lent t" using addr val old by (auto simp: lent_def t' split: if_splits)
  ultimately show ?thesis using old by (simp add: lookup_handle_eq lent_def t')
qed

text \<open>The other operations change the slot of one handle in place.\<close>

lemma update_slot_simps [simp]:
  "ht_kind (update_slot i g t) = ht_kind t" "ht_free (update_slot i g t) = ht_free t"
  "length (ht_slots (update_slot i g t)) = length (ht_slots t)"
  "i < length (ht_slots t) \<Longrightarrow> ht_slots (update_slot i g t) ! j = (if j = i then g (ht_slots t ! i) else ht_slots t ! j)"
  by (simp_all add: update_slot_def)

lemma update_slot_generations:
  assumes "\<And>s. s \<in> set (ht_slots t) \<Longrightarrow> s_generation s \<noteq> 0" "s_generation (g (ht_slots t ! i)) \<noteq> 0" "s \<in> set (ht_slots (update_slot i g t))"
  shows "s_generation s \<noteq> 0"
  using assms set_update_subset_insert [of "ht_slots t" i "g (ht_slots t ! i)"] by (auto simp: update_slot_def)

lemma same_handle: "addressed t h \<Longrightarrow> addressed t h' \<Longrightarrow> h_slot h' = h_slot h \<Longrightarrow> h' = h"
  by (simp add: addressed_def)

text \<open>Changing only the value of the slot that \<open>h\<close> addresses.\<close>

lemma update_value_ok:
  assumes t: "table_ok t" and h: "addressed t h" and g: "\<And>s. s_generation (g s) = s_generation s"
    and free: "h_slot h \<notin> set (ht_free t)"
  defines "t' \<equiv> update_slot (unat (h_slot h)) g t" and "v \<equiv> s_value (g (ht_slots t ! unat (h_slot h)))"
  shows "table_ok t'" "lookup_handle t' = (lookup_handle t)(h := v)" "ht_kind t' = ht_kind t"
    "lent t' = (if v = None then insert h (lent t) else lent t - {h})"
proof -
  have i: "unat (h_slot h) < length (ht_slots t)" using h by (simp add: addressed_def)
  have slots: "ht_slots t' ! j = (if j = unat (h_slot h) then g (ht_slots t ! j) else ht_slots t ! j)" for j
    using i by (simp add: t'_def)
  have addr: "addressed t' h' \<longleftrightarrow> addressed t h'" for h'
    using i by (simp add: addressed_def t'_def g)
  show "table_ok t'"
  proof (rule table_okI)
    show "unat s < length (ht_slots t') \<and> s_value (ht_slots t' ! unat s) = None" if "s \<in> set (ht_free t')" for s
      using table_okD(3) [OF t, of s] that free slots [of "unat s"] by (auto simp: t'_def slot_eq)
    show "s_generation s \<noteq> 0" if "s \<in> set (ht_slots t')" for s
      using update_slot_generations [of t g "unat (h_slot h)" s] table_okD(4) [OF t] that i by (simp add: t'_def g)
  qed (use table_okD(1,2) [OF t] in \<open>simp_all add: t'_def\<close>)
  have val: "s_value (ht_slots t' ! unat (h_slot h')) = (if h' = h then v else s_value (ht_slots t ! unat (h_slot h')))"
    if "addressed t h'" for h'
    using same_handle [OF h that] slots [of "unat (h_slot h')"] by (auto simp: v_def slot_eq)
  show "lookup_handle t' = (lookup_handle t)(h := v)"
    by (rule ext) (use addr val h in \<open>auto simp: lookup_handle_eq\<close>)
  have "ht_free t' = ht_free t" by (simp add: t'_def)
  then show "lent t' = (if v = None then insert h (lent t) else lent t - {h})"
    using addr val h free by (auto simp: lent_def split: if_splits)
qed (simp add: t'_def)

lemma live_not_free: "table_ok t \<Longrightarrow> lookup_handle t h = Some v \<Longrightarrow> h_slot h \<notin> set (ht_free t)"
  using table_okD(3) [of t "h_slot h"] lookup_value [of t h v] by auto

lemma live_not_lent: "lookup_handle t h = Some v \<Longrightarrow> h \<notin> lent t"
  using lookup_value [of t h v] by (simp add: lent_def)

lemma insert_value_ok:
  assumes t: "table_ok t" "room_for 1 t"
  obtains t' h where "insert_value v t = Some (t', h)" "table_ok t'" "lookup_handle t h = None" "h \<notin> lent t"
    "lookup_handle t' = (lookup_handle t)(h \<mapsto> v)" "lent t' = lent t" "ht_kind t' = ht_kind t"
    "length (ht_slots t') \<le> Suc (length (ht_slots t))"
proof (cases "ht_free t")
  case Nil
  obtain t' h where i: "insert_fresh v t = (t', h)" by force
  from insert_fresh_ok [OF t i] show ?thesis using Nil i by (intro that [of t' h]) (simp_all add: insert_value_def)
next
  case (Cons s free)
  let ?e = "ht_slots t ! unat s" and ?t = "t\<lparr>ht_free := free\<rparr>"
  have s: "unat s < length (ht_slots t)" "s_value ?e = None" and g: "s_generation ?e \<noteq> 0" and fresh: "s \<notin> set free"
    using table_okD(2,3,4) [OF t(1)] Cons by auto
  define h where "h = \<lparr>h_kind = ht_kind t, h_slot = s, h_generation = s_generation ?e\<rparr>"
  have slot [simp]: "h_slot h = s" by (simp add: h_def)
  have ok: "table_ok ?t" using t(1) Cons by (simp add: table_ok_def)
  have addr: "addressed ?t h" using s by (simp add: addressed_def h_def)
  have same: "addressed ?t = addressed t" by (simp add: addressed_def fun_eq_iff)
  then have look: "lookup_handle ?t = lookup_handle t" by (simp add: lookup_handle_eq fun_eq_iff)
  have len: "lent ?t = insert h (lent t)"
  proof (rule set_eqI)
    fix x
    have h: "addressed t h" using addr same by simp
    show "x \<in> lent ?t \<longleftrightarrow> x \<in> insert h (lent t)"
    proof (cases "h_slot x = s")
      case True
      with same_handle [OF h, of x] h s fresh Cons same show ?thesis by (cases "x = h") (auto simp: lent_def)
    next
      case False
      then show ?thesis using Cons same by (auto simp: lent_def)
    qed
  qed
  define g :: "'a slot \<Rightarrow> 'a slot" where "g = s_value_update (\<lambda>_. Some v)"
  have "insert_value v t = Some (update_slot (unat s) g ?t, h)"
    using Cons s g by (simp add: insert_value_def update_slot_def Let_def new_handle_def max_one h_def g_def)
  moreover have "lookup_handle t h = None" using s by (simp add: lookup_handle_eq)
  moreover have "h \<notin> lent t" using Cons by (simp add: lent_def)
  moreover note update_value_ok [OF ok addr, of g]
  ultimately show ?thesis using fresh look len by (intro that [of "update_slot (unat s) g ?t" h]) (simp_all add: g_def)
qed

lemma get_handle_eq: "get_handle t h = (case lookup_handle t h of None \<Rightarrow> Inl (dead_error (ht_kind t) h) | Some v \<Rightarrow> Inr v)"
  using lookup_value [of t h] by (auto simp: get_handle_def validate_eq split: option.splits)

lemma take_handle_ok:
  assumes "table_ok t" "lookup_handle t h = Some v"
  obtains t' where "take_handle h t = Inr (t', v)" "table_ok t'" "lookup_handle t' = (lookup_handle t)(h := None)"
    "lent t' = insert h (lent t)" "ht_kind t' = ht_kind t" "length (ht_slots t') = length (ht_slots t)"
proof -
  have v: "addressed t h" "s_value (ht_slots t ! unat (h_slot h)) = Some v" using lookup_value [OF assms(2)] by auto
  let ?g = "s_value_update (\<lambda>_. None)"
  have "take_handle h t = Inr (update_slot (unat (h_slot h)) ?g t, v)"
    using v assms(2) by (simp add: take_handle_def validate_eq)
  then show ?thesis using update_value_ok [OF assms(1) v(1), of ?g] live_not_free [OF assms]
    by (intro that [of "update_slot (unat (h_slot h)) ?g t"]) simp_all
qed

lemma put_handle_ok:
  assumes "table_ok t" "h \<in> lent t"
  obtains t' where "put_handle h v t = Inr t'" "table_ok t'" "lookup_handle t' = (lookup_handle t)(h \<mapsto> v)"
    "lent t' = lent t - {h}" "ht_kind t' = ht_kind t" "length (ht_slots t') = length (ht_slots t)"
proof -
  have v: "addressed t h" "s_value (ht_slots t ! unat (h_slot h)) = None" "h_slot h \<notin> set (ht_free t)"
    using assms(2) by (simp_all add: lent_def)
  let ?g = "s_value_update (\<lambda>_. Some v)"
  have "put_handle h v t = Inr (update_slot (unat (h_slot h)) ?g t)"
    using v by (simp add: put_handle_def validate_slot_eq)
  then show ?thesis using update_value_ok [OF assms(1) v(1), of ?g] v(3)
    by (intro that [of "update_slot (unat (h_slot h)) ?g t"]) simp_all
qed

lemma with_handle_mut_ok:
  assumes "table_ok t" "lookup_handle t h = Some v"
  obtains t' where "with_handle_mut h f t = Inr t'" "table_ok t'" "lookup_handle t' = (lookup_handle t)(h \<mapsto> f v)"
    "lent t' = lent t" "ht_kind t' = ht_kind t" "length (ht_slots t') = length (ht_slots t)"
proof -
  have v: "addressed t h" "s_value (ht_slots t ! unat (h_slot h)) = Some v" using lookup_value [OF assms(2)] by auto
  let ?g = "s_value_update (map_option f)"
  have "with_handle_mut h f t = Inr (update_slot (unat (h_slot h)) ?g t)"
    using assms(2) by (simp add: with_handle_mut_def validate_eq)
  then show ?thesis using update_value_ok [OF assms(1) v(1), of ?g] live_not_free [OF assms] live_not_lent [OF assms(2)] v(2)
    by (intro that [of "update_slot (unat (h_slot h)) ?g t"]) simp_all
qed

text \<open>Releasing moves the slot to its next generation, so every handle to it is dead.\<close>

lemma next_generation_other: "g \<noteq> 0 \<Longrightarrow> next_generation g \<noteq> g"
  by (auto simp: next_generation_def max_def word_le_nat_alt split: if_splits)

lemma addressed_released:
  assumes "addressed t h" "h_generation h \<noteq> 0"
  shows "addressed (update_slot (unat (h_slot h)) release_slot t) h' \<longleftrightarrow>
    (addressed t h' \<and> h' \<noteq> h) \<or> h' = h\<lparr>h_generation := next_generation (h_generation h)\<rparr>"
proof (cases "h_slot h' = h_slot h")
  case True
  with assms next_generation_other [OF assms(2)] show ?thesis
    by (cases h; cases h') (auto simp: addressed_def release_slot_def)
next
  case False
  then have "h' \<noteq> h" "h' \<noteq> h\<lparr>h_generation := next_generation (h_generation h)\<rparr>" by (cases h; auto)+
  then show ?thesis using False assms by (auto simp: addressed_def slot_eq)
qed

lemma remove_handle_ok:
  assumes t: "table_ok t" and live: "lookup_handle t h = Some v"
  obtains t' where "remove_handle h t = Inr (t', v)" "table_ok t'" "lookup_handle t' = (lookup_handle t)(h := None)"
    "lent t' = lent t" "ht_kind t' = ht_kind t" "length (ht_slots t') = length (ht_slots t)"
proof -
  let ?i = "unat (h_slot h)" and ?next = "h\<lparr>h_generation := next_generation (h_generation h)\<rparr>"
  define u where "u = update_slot ?i release_slot t"
  define t' where "t' = u\<lparr>ht_free := h_slot h # ht_free t\<rparr>"
  have h: "addressed t h" "s_value (ht_slots t ! ?i) = Some v" using lookup_value [OF live] by auto
  then have i: "?i < length (ht_slots t)" and "s_generation (ht_slots t ! ?i) = h_generation h" by (simp_all add: addressed_def)
  then have gen: "h_generation h \<noteq> 0" using table_okD(4) [OF t nth_mem [OF i]] by simp
  have r: "remove_handle h t = Inr (t', v)" using h live by (simp add: remove_handle_def validate_eq t'_def u_def)
  have slots: "ht_slots t' = ht_slots u" "ht_slots u ! j = (if j = ?i then release_slot (ht_slots t ! ?i) else ht_slots t ! j)" for j
    using i by (simp_all add: t'_def u_def)
  have addr: "addressed t' h' \<longleftrightarrow> (addressed t h' \<and> h' \<noteq> h) \<or> h' = ?next" for h'
    using addressed_released [OF h(1) gen, of h'] by (simp add: addressed_def t'_def u_def)
  have other: "h_slot h' \<noteq> h_slot h" if "addressed t h'" "h' \<noteq> h" for h' using same_handle [OF h(1) that(1)] that(2) by blast
  have none: "s_value (ht_slots t' ! ?i) = None" by (simp add: slots release_slot_def)
  have val: "s_value (ht_slots t' ! unat (h_slot h')) = s_value (ht_slots t ! unat (h_slot h'))" if "h_slot h' \<noteq> h_slot h" for h'
    using that by (simp add: slots slot_eq)
  have "table_ok t'"
  proof (rule table_okI)
    show "distinct (ht_free t')" using table_okD(2) [OF t] live_not_free [OF t live] by (simp add: t'_def u_def)
    show "unat s < length (ht_slots t') \<and> s_value (ht_slots t' ! unat s) = None" if "s \<in> set (ht_free t')" for s
      using table_okD(3) [OF t, of s] that none i by (auto simp: t'_def u_def)
    show "s_generation s \<noteq> 0" if "s \<in> set (ht_slots t')" for s
      using update_slot_generations [of t release_slot ?i s] table_okD(4) [OF t] that by (simp add: t'_def u_def release_slot_def)
  qed (use table_okD(1) [OF t] in \<open>simp add: t'_def u_def\<close>)
  moreover have "lookup_handle t' h' = ((lookup_handle t)(h := None)) h'" for h'
    using addr [of h'] other [of h'] val [of h'] none next_generation_other [OF gen] by (cases "h' = h") (auto simp: lookup_handle_eq)
  moreover have "h' \<in> lent t' \<longleftrightarrow> h' \<in> lent t" for h'
  proof (cases "h_slot h' = h_slot h")
    case True
    then show ?thesis using same_handle [OF h(1), of h'] h(2) by (auto simp: lent_def t'_def)
  next
    case False
    then show ?thesis using addr [of h'] val [OF False] by (auto simp: lent_def t'_def u_def)
  qed
  ultimately show ?thesis using r by (intro that [of t']) (auto simp: t'_def u_def)
qed

text \<open>\<open>drain\<close> releases every live slot and returns what \<open>iter\<close> would list.\<close>

definition slot_live :: "nat \<times> 'a slot \<Rightarrow> bool" where
  "slot_live p \<longleftrightarrow> s_value (snd p) \<noteq> None"

lemma drain_slots_eq:
  "drain_slots k i slots =
     (map (\<lambda>s. if s_value s = None then s else release_slot s) slots,
      map (of_nat \<circ> fst) (filter slot_live (enumerate i slots)),
      List.map_filter (\<lambda>(i, s). map_option (Pair (new_handle k (of_nat i) (s_generation s))) (s_value s)) (enumerate i slots))"
  by (induction slots arbitrary: i) (auto simp: map_filter_simps slot_live_def split: option.splits)

lemma drain_eq: "drain t =
  (t\<lparr>ht_slots := map (\<lambda>s. if s_value s = None then s else release_slot s) (ht_slots t),
     ht_free := rev (map (of_nat \<circ> fst) (filter slot_live (enumerate 0 (ht_slots t)))) @ ht_free t\<rparr>, table_iter t)"
  by (simp add: drain_def drain_slots_eq table_iter_def)

lemma table_iter_live:
  assumes "table_ok t"
  shows "(h, v) \<in> set (table_iter t) \<longleftrightarrow> lookup_handle t h = Some v" "distinct (map fst (table_iter t))"
proof -
  let ?live = "filter slot_live (enumerate 0 (ht_slots t))"
  let ?hd = "\<lambda>(i, s). (new_handle (ht_kind t) (of_nat i) (s_generation s), the (s_value s))"
  have iter: "table_iter t = map ?hd ?live"
  proof -
    have "List.map_filter (\<lambda>(i, s). map_option (Pair (new_handle k (of_nat i) (s_generation s))) (s_value s)) xs =
        map (\<lambda>(i, s). (new_handle k (of_nat i) (s_generation s), the (s_value s))) (filter slot_live xs)" for k and xs :: "(nat \<times> 'a slot) list"
      by (induction xs) (auto simp: map_filter_simps slot_live_def split: option.splits)
    then show ?thesis by (simp add: table_iter_def)
  qed
  have small: "i < length (ht_slots t) \<Longrightarrow> unat (of_nat i :: 32 word) = i" for i
    using table_okD(1) [OF assms] by (simp add: slot_nat)
  have gen: "i < length (ht_slots t) \<Longrightarrow> max (s_generation (ht_slots t ! i)) 1 = s_generation (ht_slots t ! i)" for i
    using table_okD(4) [OF assms] by (simp add: max_one)
  show "(h, v) \<in> set (table_iter t) \<longleftrightarrow> lookup_handle t h = Some v"
  proof
    assume "(h, v) \<in> set (table_iter t)"
    then show "lookup_handle t h = Some v"
      by (auto simp: iter in_set_enumerate_eq slot_live_def new_handle_def gen small lookup_handle_eq addressed_def)
  next
    assume live: "lookup_handle t h = Some v"
    have h: "addressed t h" "s_value (ht_slots t ! unat (h_slot h)) = Some v" using lookup_value [OF live] by auto
    then have "(unat (h_slot h), ht_slots t ! unat (h_slot h)) \<in> set ?live"
      by (simp add: in_set_enumerate_eq slot_live_def addressed_def)
    then have "?hd (unat (h_slot h), ht_slots t ! unat (h_slot h)) \<in> set (table_iter t)" unfolding iter set_map by (rule imageI)
    moreover have "new_handle (ht_kind t) (h_slot h) (s_generation (ht_slots t ! unat (h_slot h))) = h"
      using h(1) gen [of "unat (h_slot h)"] by (cases h) (simp add: new_handle_def addressed_def)
    ultimately show "(h, v) \<in> set (table_iter t)" using h(2) by simp
  qed
  have "inj_on (fst \<circ> ?hd) (set ?live)"
  proof (rule inj_onI, clarify)
    fix i a j b assume m: "(i, a) \<in> set ?live" "(j, b) \<in> set ?live" and eq: "(fst \<circ> ?hd) (i, a) = (fst \<circ> ?hd) (j, b)"
    from eq have "unat (of_nat i :: 32 word) = unat (of_nat j :: 32 word)" by (simp add: new_handle_def)
    then have "i = j" using m small by (simp add: in_set_enumerate_eq)
    then show "i = j \<and> a = b" using m by (simp add: in_set_enumerate_eq)
  qed
  then show "distinct (map fst (table_iter t))" unfolding iter map_map by (simp add: distinct_map del: map_map)
qed

lemma drain_ok:
  assumes t: "table_ok t" and d: "drain t = (t', removed)"
  shows "table_ok t' \<and> lookup_handle t' = Map.empty \<and> lent t' = lent t \<and> ht_kind t' = ht_kind t \<and>
    length (ht_slots t') = length (ht_slots t) \<and> removed = table_iter t"
proof -
  let ?n = "length (ht_slots t)" and ?live = "filter slot_live (enumerate 0 (ht_slots t))"
  have t': "ht_slots t' = map (\<lambda>s. if s_value s = None then s else release_slot s) (ht_slots t)"
    "ht_free t' = rev (map (of_nat \<circ> fst) ?live) @ ht_free t" "ht_kind t' = ht_kind t" "removed = table_iter t"
    using d by (auto simp: drain_eq)
  have none: "i < ?n \<Longrightarrow> s_value (ht_slots t' ! i) = None" for i by (simp add: t' release_slot_def)
  have freed: "s \<in> set (ht_free t') \<longleftrightarrow> s \<in> set (ht_free t) \<or> unat s < ?n \<and> s_value (ht_slots t ! unat s) \<noteq> None" for s
  proof -
    have small: "i < ?n \<Longrightarrow> unat (of_nat i :: 32 word) = i" for i using table_okD(1) [OF t] by (simp add: slot_nat)
    have "s \<in> (of_nat \<circ> fst) ` set ?live \<longleftrightarrow> unat s < ?n \<and> s_value (ht_slots t ! unat s) \<noteq> None"
    proof
      assume "unat s < ?n \<and> s_value (ht_slots t ! unat s) \<noteq> None"
      then have "(unat s, ht_slots t ! unat s) \<in> set ?live" by (simp add: in_set_enumerate_eq slot_live_def)
      then show "s \<in> (of_nat \<circ> fst) ` set ?live" by (rule rev_image_eqI) simp
    qed (auto simp: in_set_enumerate_eq slot_live_def small)
    then show ?thesis by (auto simp: t')
  qed
  have "inj_on (of_nat \<circ> fst :: nat \<times> 'a slot \<Rightarrow> 32 word) (set ?live)"
  proof (rule inj_onI, clarify)
    fix i a j b assume m: "(i, a) \<in> set ?live" "(j, b) \<in> set ?live" and eq: "(of_nat \<circ> fst) (i, a) = ((of_nat \<circ> fst) (j, b) :: 32 word)"
    from eq have "unat (of_nat i :: 32 word) = unat (of_nat j :: 32 word)" by simp
    then show "i = j \<and> a = b" using m table_okD(1) [OF t] by (simp add: in_set_enumerate_eq slot_nat)
  qed
  then have "distinct (map (of_nat \<circ> fst) ?live :: 32 word list)" by (simp add: distinct_map)
  moreover have "s \<notin> set (ht_free t)" if "s \<in> (of_nat \<circ> fst) ` set ?live" for s :: "32 word"
    using that table_okD(1) [OF t] table_okD(3) [OF t, of s] by (auto simp: in_set_enumerate_eq slot_live_def slot_nat)
  ultimately have "distinct (ht_free t')" using table_okD(2) [OF t] unfolding t'(2) distinct_append distinct_rev set_rev set_map by blast
  then have "table_ok t'"
  proof (intro table_okI)
    show "unat s < length (ht_slots t') \<and> s_value (ht_slots t' ! unat s) = None" if "s \<in> set (ht_free t')" for s
      using that table_okD(3) [OF t, of s] none [of "unat s"] by (auto simp: freed t'(1))
    show "s_generation s \<noteq> 0" if "s \<in> set (ht_slots t')" for s
      using that table_okD(4) [OF t] by (auto simp: t' release_slot_def)
  qed (use table_okD(1) [OF t] in \<open>simp_all add: t'\<close>)
  moreover have "lookup_handle t' = Map.empty" using none by (auto simp: lookup_handle_eq addressed_def t' fun_eq_iff)
  moreover have "h \<in> lent t' \<longleftrightarrow> h \<in> lent t" for h
    using none [of "unat (h_slot h)"] by (cases "s_value (ht_slots t ! unat (h_slot h))") (auto simp: lent_def addressed_def freed t'(1,3))
  ultimately show ?thesis by (auto simp: t')
qed

section \<open>The table implements its specification\<close>

datatype 'a table_op = Op_insert 'a | Op_insert_fresh 'a | Op_get handle_id | Op_update handle_id "'a \<Rightarrow> 'a" |
  Op_take handle_id | Op_put handle_id 'a | Op_remove handle_id | Op_drain

datatype 'a table_result = Issued handle_id | Got 'a | Stored | Drained "(handle_id \<times> 'a) list" | Failed handle_error

definition outcome :: "'a handle_table \<Rightarrow> handle_error + ('a handle_table \<times> 'a table_result) \<Rightarrow> 'a handle_table \<times> 'a table_result" where
  "outcome t r = (case r of Inl e \<Rightarrow> (t, Failed e) | Inr p \<Rightarrow> p)"

fun exec_op :: "'a table_op \<Rightarrow> 'a handle_table \<Rightarrow> ('a handle_table \<times> 'a table_result) option" where
  "exec_op (Op_insert v) t = map_option (apsnd Issued) (insert_value v t)"
| "exec_op (Op_insert_fresh v) t = Some (apsnd Issued (insert_fresh v t))"
| "exec_op (Op_get h) t = Some (outcome t (map_sum id (\<lambda>v. (t, Got v)) (get_handle t h)))"
| "exec_op (Op_update h f) t = Some (outcome t (map_sum id (\<lambda>t'. (t', Stored)) (with_handle_mut h f t)))"
| "exec_op (Op_take h) t = Some (outcome t (map_sum id (apsnd Got) (take_handle h t)))"
| "exec_op (Op_put h v) t = Some (outcome t (map_sum id (\<lambda>t'. (t', Stored)) (put_handle h v t)))"
| "exec_op (Op_remove h) t = Some (outcome t (map_sum id (apsnd Got) (remove_handle h t)))"
| "exec_op Op_drain t = Some (apsnd Drained (drain t))"

type_synonym 'a store = "(handle_id \<Rightarrow> 'a option) \<times> handle_id set"

definition store_of :: "'a handle_table \<Rightarrow> 'a store" where
  "store_of t = (lookup_handle t, lent t)"

inductive spec_op :: "handle_kind \<Rightarrow> 'a store \<Rightarrow> 'a table_op \<Rightarrow> 'a table_result \<Rightarrow> 'a store \<Rightarrow> bool" for k where
  spec_insert: "live h = None \<Longrightarrow> h \<notin> out \<Longrightarrow> spec_op k (live, out) (Op_insert v) (Issued h) (live(h \<mapsto> v), out)"
| spec_fresh: "live h = None \<Longrightarrow> h \<notin> out \<Longrightarrow> spec_op k (live, out) (Op_insert_fresh v) (Issued h) (live(h \<mapsto> v), out)"
| spec_get: "live h = Some v \<Longrightarrow> spec_op k (live, out) (Op_get h) (Got v) (live, out)"
| spec_update: "live h = Some v \<Longrightarrow> spec_op k (live, out) (Op_update h f) Stored (live(h \<mapsto> f v), out)"
| spec_take: "live h = Some v \<Longrightarrow> spec_op k (live, out) (Op_take h) (Got v) (live(h := None), insert h out)"
| spec_put: "h \<in> out \<Longrightarrow> spec_op k (live, out) (Op_put h v) Stored (live(h \<mapsto> v), out - {h})"
| spec_put_live: "live h = Some w \<Longrightarrow> spec_op k (live, out) (Op_put h v) (Failed Stale) (live, out)"
| spec_put_dead: "live h = None \<Longrightarrow> h \<notin> out \<Longrightarrow> spec_op k (live, out) (Op_put h v) (Failed (dead_error k h)) (live, out)"
| spec_remove: "live h = Some v \<Longrightarrow> spec_op k (live, out) (Op_remove h) (Got v) (live(h := None), out)"
| spec_dead: "live h = None \<Longrightarrow> oper \<in> {Op_get h, Op_update h f, Op_take h, Op_remove h} \<Longrightarrow>
    spec_op k (live, out) oper (Failed (dead_error k h)) (live, out)"
| spec_drain: "distinct (map fst removed) \<Longrightarrow> map_of removed = live \<Longrightarrow>
    spec_op k (live, out) Op_drain (Drained removed) (Map.empty, out)"

text \<open>\<open>put\<close> is documented for values taken before. The table refuses a handle of another kind, of no slot or of another generation,
  and one that is live, but not the handle that a free slot is going to issue next.\<close>

definition unissued :: "'a handle_table \<Rightarrow> handle_id \<Rightarrow> bool" where
  "unissued t h \<longleftrightarrow> addressed t h \<and> h_slot h \<in> set (ht_free t)"

fun put_issued :: "'a handle_table \<Rightarrow> 'a table_op \<Rightarrow> bool" where
  "put_issued t (Op_put h v) \<longleftrightarrow> \<not> unissued t h"
| "put_issued t _ \<longleftrightarrow> True"

definition refined :: "handle_kind \<Rightarrow> 'a handle_table \<Rightarrow> 'a table_op \<Rightarrow> 'a handle_table \<Rightarrow> 'a table_result \<Rightarrow> bool" where
  "refined k t oper t' r \<longleftrightarrow> table_ok t' \<and> ht_kind t' = k \<and> length (ht_slots t') \<le> Suc (length (ht_slots t)) \<and>
     spec_op k (store_of t) oper r (store_of t')"

lemma outcome_simps [simp]: "outcome t (Inl e) = (t, Failed e)" "outcome t (Inr p) = p"
  by (simp_all add: outcome_def)

lemma dead_refined:
  assumes "table_ok t" "lookup_handle t h = None" "oper \<in> {Op_get h, Op_update h f, Op_take h, Op_remove h}"
  shows "exec_op oper t = Some (t, Failed (dead_error (ht_kind t) h)) \<and> refined (ht_kind t) t oper t (Failed (dead_error (ht_kind t) h))"
  using assms spec_dead [of "lookup_handle t" h oper f "ht_kind t" "lent t"]
  by (auto simp: get_handle_eq with_handle_mut_def take_handle_def remove_handle_def validate_eq refined_def store_of_def)

lemma refinedI:
  assumes "table_ok t'" "ht_kind t' = k" "length (ht_slots t') \<le> Suc (length (ht_slots t))"
    "spec_op k (lookup_handle t, lent t) oper r (lookup_handle t', lent t')"
  shows "refined k t oper t' r"
  using assms by (simp add: refined_def store_of_def)

lemma insert_refined:
  assumes "table_ok t" "room_for 1 t"
  shows "\<exists>t' r. exec_op (Op_insert v) t = Some (t', r) \<and> refined (ht_kind t) t (Op_insert v) t' r"
    "\<exists>t' r. exec_op (Op_insert_fresh v) t = Some (t', r) \<and> refined (ht_kind t) t (Op_insert_fresh v) t' r"
proof -
  obtain t' h where i: "insert_value v t = Some (t', h)" "table_ok t'" "lookup_handle t h = None" "h \<notin> lent t"
    "lookup_handle t' = (lookup_handle t)(h \<mapsto> v)" "lent t' = lent t" "ht_kind t' = ht_kind t"
    "length (ht_slots t') \<le> Suc (length (ht_slots t))" by (rule insert_value_ok [OF assms])
  then have "refined (ht_kind t) t (Op_insert v) t' (Issued h)" by (intro refinedI) (simp_all add: spec_insert)
  with i show "\<exists>t' r. exec_op (Op_insert v) t = Some (t', r) \<and> refined (ht_kind t) t (Op_insert v) t' r" by auto
next
  obtain t' h where i: "insert_fresh v t = (t', h)" by force
  from insert_fresh_ok [OF assms i] have "refined (ht_kind t) t (Op_insert_fresh v) t' (Issued h)"
    by (intro refinedI) (simp_all add: spec_fresh)
  with i show "\<exists>t' r. exec_op (Op_insert_fresh v) t = Some (t', r) \<and> refined (ht_kind t) t (Op_insert_fresh v) t' r" by auto
qed

lemma live_refined:
  assumes "table_ok t" "lookup_handle t h = Some v"
  shows "\<exists>t' r. exec_op (Op_get h) t = Some (t', r) \<and> refined (ht_kind t) t (Op_get h) t' r"
    "\<exists>t' r. exec_op (Op_update h f) t = Some (t', r) \<and> refined (ht_kind t) t (Op_update h f) t' r"
    "\<exists>t' r. exec_op (Op_take h) t = Some (t', r) \<and> refined (ht_kind t) t (Op_take h) t' r"
    "\<exists>t' r. exec_op (Op_put h w) t = Some (t', r) \<and> refined (ht_kind t) t (Op_put h w) t' r"
    "\<exists>t' r. exec_op (Op_remove h) t = Some (t', r) \<and> refined (ht_kind t) t (Op_remove h) t' r"
proof -
  show "\<exists>t' r. exec_op (Op_get h) t = Some (t', r) \<and> refined (ht_kind t) t (Op_get h) t' r"
    using assms by (simp add: get_handle_eq refined_def store_of_def spec_get)
  obtain t' where i: "with_handle_mut h f t = Inr t'" "table_ok t'" "lookup_handle t' = (lookup_handle t)(h \<mapsto> f v)"
    "lent t' = lent t" "ht_kind t' = ht_kind t" "length (ht_slots t') = length (ht_slots t)" by (rule with_handle_mut_ok [OF assms])
  then have "refined (ht_kind t) t (Op_update h f) t' Stored" using assms by (intro refinedI) (simp_all add: spec_update)
  with i show "\<exists>t' r. exec_op (Op_update h f) t = Some (t', r) \<and> refined (ht_kind t) t (Op_update h f) t' r" by auto
next
  obtain t' where i: "take_handle h t = Inr (t', v)" "table_ok t'" "lookup_handle t' = (lookup_handle t)(h := None)"
    "lent t' = insert h (lent t)" "ht_kind t' = ht_kind t" "length (ht_slots t') = length (ht_slots t)" by (rule take_handle_ok [OF assms])
  then have "refined (ht_kind t) t (Op_take h) t' (Got v)" using assms by (intro refinedI) (simp_all add: spec_take)
  with i show "\<exists>t' r. exec_op (Op_take h) t = Some (t', r) \<and> refined (ht_kind t) t (Op_take h) t' r" by auto
next
  have "put_handle h w t = Inl Stale" using lookup_value [OF assms(2)] by (simp add: put_handle_def validate_slot_eq)
  then show "\<exists>t' r. exec_op (Op_put h w) t = Some (t', r) \<and> refined (ht_kind t) t (Op_put h w) t' r"
    using assms by (simp add: refined_def store_of_def spec_put_live)
next
  obtain t' where i: "remove_handle h t = Inr (t', v)" "table_ok t'" "lookup_handle t' = (lookup_handle t)(h := None)"
    "lent t' = lent t" "ht_kind t' = ht_kind t" "length (ht_slots t') = length (ht_slots t)" by (rule remove_handle_ok [OF assms])
  then have "refined (ht_kind t) t (Op_remove h) t' (Got v)" using assms by (intro refinedI) (simp_all add: spec_remove)
  with i show "\<exists>t' r. exec_op (Op_remove h) t = Some (t', r) \<and> refined (ht_kind t) t (Op_remove h) t' r" by auto
qed

lemma put_refined:
  assumes "table_ok t" "h \<in> lent t"
  shows "\<exists>t' r. exec_op (Op_put h w) t = Some (t', r) \<and> refined (ht_kind t) t (Op_put h w) t' r"
proof -
  obtain t' where i: "put_handle h w t = Inr t'" "table_ok t'" "lookup_handle t' = (lookup_handle t)(h \<mapsto> w)"
    "lent t' = lent t - {h}" "ht_kind t' = ht_kind t" "length (ht_slots t') = length (ht_slots t)" by (rule put_handle_ok [OF assms])
  then have "refined (ht_kind t) t (Op_put h w) t' Stored" using assms by (intro refinedI) (simp_all add: spec_put)
  with i show ?thesis by auto
qed

lemma put_dead_refined:
  assumes "table_ok t" "lookup_handle t h = None" "h \<notin> lent t" "\<not> unissued t h"
  shows "exec_op (Op_put h w) t = Some (t, Failed (dead_error (ht_kind t) h)) \<and>
    refined (ht_kind t) t (Op_put h w) t (Failed (dead_error (ht_kind t) h))"
proof -
  have "\<not> addressed t h" using assms(2-4) by (auto simp: lookup_handle_eq lent_def unissued_def)
  then show ?thesis using assms(1-3) spec_put_dead [of "lookup_handle t" h "lent t" "ht_kind t" w]
    by (simp add: put_handle_def validate_slot_eq refined_def store_of_def)
qed

lemma drain_refined:
  assumes "table_ok t"
  shows "\<exists>t' r. exec_op Op_drain t = Some (t', r) \<and> refined (ht_kind t) t Op_drain t' r"
proof -
  obtain t' removed where d: "drain t = (t', removed)" by force
  note i = drain_ok [OF assms d] and iter = table_iter_live [OF assms]
  have "map_of (table_iter t) h = lookup_handle t h" for h
    by (rule option_eqI) (simp add: iter map_of_eq_Some_iff)
  then have "map_of (table_iter t) = lookup_handle t" by (rule ext)
  then have "refined (ht_kind t) t Op_drain t' (Drained removed)"
    using i iter(2) by (intro refinedI) (simp_all add: spec_drain)
  with d show ?thesis by auto
qed

lemma exec_op_refines:
  assumes t: "table_ok t" "room_for 1 t" "put_issued t oper"
  shows "\<exists>t' r. exec_op oper t = Some (t', r) \<and> refined (ht_kind t) t oper t' r"
proof -
  have one: "\<exists>t' r. exec_op oper t = Some (t', r) \<and> refined (ht_kind t) t oper t' r"
    if "oper \<in> {Op_get h, Op_update h f, Op_take h, Op_remove h}" for h f
  proof (cases "lookup_handle t h")
    case None
    then show ?thesis using dead_refined [OF t(1) None that] by blast
  next
    case (Some v)
    then show ?thesis using live_refined(1,3,5) [OF t(1) Some] live_refined(2) [OF t(1) Some, of f] that by blast
  qed
  show ?thesis
  proof (cases oper)
    case (Op_put h w)
    then show ?thesis using put_refined [OF t(1), of h w] live_refined(4) [OF t(1), of h _ w] put_dead_refined [OF t(1), of h w] t(3)
      by (cases "h \<in> lent t"; cases "lookup_handle t h") auto
  qed (use one insert_refined [OF t(1,2)] drain_refined [OF t(1)] in blast)+
qed

text \<open>An implementation that refines its specification one operation at a time refines it over a
  whole sequence; \<open>ok n\<close> is the invariant with room for \<open>n\<close> more operations.\<close>

fun run_ops :: "('o \<Rightarrow> 's \<Rightarrow> ('s \<times> 'r) option) \<Rightarrow> 'o list \<Rightarrow> 's \<Rightarrow> ('s \<times> 'r list) option" where
  "run_ops exec [] s = Some (s, [])"
| "run_ops exec (p # ps) s = (case exec p s of None \<Rightarrow> None
     | Some (s', r) \<Rightarrow> map_option (apsnd (Cons r)) (run_ops exec ps s'))"

fun spec_run :: "('a \<Rightarrow> 'o \<Rightarrow> 'r \<Rightarrow> 'a \<Rightarrow> bool) \<Rightarrow> 'a \<Rightarrow> 'o list \<Rightarrow> 'r list \<Rightarrow> 'a \<Rightarrow> bool" where
  "spec_run spec a [] rs a' \<longleftrightarrow> rs = [] \<and> a' = a"
| "spec_run spec a (p # ps) rs a' \<longleftrightarrow> (\<exists>r rs' b. rs = r # rs' \<and> spec a p r b \<and> spec_run spec b ps rs' a')"

fun allowed_run :: "('s \<Rightarrow> 'o \<Rightarrow> bool) \<Rightarrow> ('o \<Rightarrow> 's \<Rightarrow> ('s \<times> 'r) option) \<Rightarrow> 'o list \<Rightarrow> 's \<Rightarrow> bool" where
  "allowed_run pre exec [] s \<longleftrightarrow> True"
| "allowed_run pre exec (p # ps) s \<longleftrightarrow> pre s p \<and>
     (case exec p s of None \<Rightarrow> True | Some (s', r) \<Rightarrow> allowed_run pre exec ps s')"

locale refining_store =
  fixes ok :: "nat \<Rightarrow> 's \<Rightarrow> bool" and pre :: "'s \<Rightarrow> 'o \<Rightarrow> bool" and exec :: "'o \<Rightarrow> 's \<Rightarrow> ('s \<times> 'r) option"
    and abstract :: "'s \<Rightarrow> 'a" and spec :: "'a \<Rightarrow> 'o \<Rightarrow> 'r \<Rightarrow> 'a \<Rightarrow> bool"
  assumes exec_refines: "ok (Suc n) s \<Longrightarrow> pre s p \<Longrightarrow>
    \<exists>s' r. exec p s = Some (s', r) \<and> ok n s' \<and> spec (abstract s) p r (abstract s')"
begin

lemma run_refines:
  assumes "ok (length ps) s" "allowed_run pre exec ps s"
  shows "\<exists>s' rs. run_ops exec ps s = Some (s', rs) \<and> ok 0 s' \<and> spec_run spec (abstract s) ps rs (abstract s')"
  using assms
proof (induction ps arbitrary: s)
  case Nil
  then show ?case by simp
next
  case (Cons p ps)
  then obtain s1 r where s1: "exec p s = Some (s1, r)" "ok (length ps) s1" "spec (abstract s) p r (abstract s1)"
    using exec_refines [of "length ps" s p] by auto
  then obtain s' rs where "run_ops exec ps s1 = Some (s', rs)" "ok 0 s'" "spec_run spec (abstract s1) ps rs (abstract s')"
    using Cons.IH [of s1] Cons.prems(2) by auto
  with s1 show ?case by auto
qed

end

definition table_ready :: "handle_kind \<Rightarrow> nat \<Rightarrow> 'a handle_table \<Rightarrow> bool" where
  "table_ready k n t \<longleftrightarrow> table_ok t \<and> ht_kind t = k \<and> room_for n t"

interpretation table_store: refining_store "table_ready k" put_issued exec_op store_of "spec_op k" for k
proof
  fix n and s :: "'a handle_table" and p
  assume "table_ready k (Suc n) s" "put_issued s p"
  then show "\<exists>s' r. exec_op p s = Some (s', r) \<and> table_ready k n s' \<and> spec_op k (store_of s) p r (store_of s')"
    using exec_op_refines [of s p] by (auto simp: table_ready_def room_for_def refined_def)
qed

lemma new_table_ready: "n \<le> max_slots \<Longrightarrow> table_ready k n (new_table k)"
  using new_table_ok(1) [of k] by (simp add: table_ready_def room_for_def new_table_def)

lemma new_table_store: "store_of (new_table k) = (Map.empty, {})"
  by (simp add: store_of_def new_table_ok)

text \<open>C28: Any sequence of up to \<open>2 ^ 32 - 1\<close> operations on a new table, in which no \<open>put\<close> names the handle that a free slot is
  going to issue next, runs to its end and behaves like the map from handles to values together with the handles that are taken: a handle
  that is issued was not in use, reads give the last value stored, \<open>put\<close> gives a taken handle its value back and is refused for a live
  handle, every operation on a released handle gives \<open>Stale\<close> and on one of another domain a type mismatch, \<open>put\<close> included, and
  leaves the table as it is, and \<open>drain\<close> returns exactly the live entries. The table's invariant holds afterwards.\<close>

theorem handle_table_refines_map:
  assumes "length ops \<le> max_slots" "allowed_run put_issued exec_op ops (new_table k)"
  shows "\<exists>t rs. run_ops exec_op ops (new_table k) = Some (t, rs) \<and> table_ok t \<and>
    spec_run (spec_op k) (Map.empty, {}) ops rs (store_of t)"
  using table_store.run_refines [OF new_table_ready [OF assms(1)] assms(2)]
  by (auto simp: table_ready_def new_table_store)

definition sample_ops :: "nat table_op list" where
  "sample_ops = [Op_insert 7, Op_take (new_handle (HandleKind 5) 0 1), Op_put (new_handle (HandleKind 6) 0 1) 8,
     Op_put (new_handle (HandleKind 5) 0 1) 8, Op_put (new_handle (HandleKind 5) 0 1) 9, Op_insert 8,
     Op_remove (new_handle (HandleKind 5) 0 1), Op_put (new_handle (HandleKind 5) 0 1) 7, Op_insert 9, Op_get (new_handle (HandleKind 5) 0 1), Op_drain]"

lemmas table_run = new_table_def insert_value_def insert_fresh_def new_handle_def take_handle_def put_handle_def
  remove_handle_def release_slot_def next_generation_def get_handle_def max_def word_le_nat_alt
  validate_eq validate_slot_eq lookup_handle_eq addressed_def update_slot_def unissued_def dead_error_def Let_def

theorem handle_table_refines_map_witness:
  "\<exists>t rs. run_ops exec_op sample_ops (new_table (HandleKind 5)) = Some (t, rs) \<and> table_ok t \<and>
    spec_run (spec_op (HandleKind 5)) (Map.empty, {}) sample_ops rs (store_of t)"
proof (rule handle_table_refines_map)
  show "length sample_ops \<le> max_slots" by (simp add: sample_ops_def max_slots_def)
  show "allowed_run put_issued exec_op sample_ops (new_table (HandleKind 5))"
    by (simp add: sample_ops_def table_run)
qed

text \<open>Why that handle is left out: \<open>put\<close> accepts it before it is issued, and the next insertion issues it and overwrites the value.\<close>

lemma put_before_issue_lost:
  "map_option snd (run_ops exec_op [Op_insert 7, Op_remove (new_handle k 0 1), Op_put (new_handle k 0 2) 8, Op_insert 9,
      Op_get (new_handle k 0 2)] (new_table k)) =
    Some [Issued (new_handle k 0 1), Got 7, Stored, Issued (new_handle k 0 2), Got (9 :: nat)]"
  by (simp add: table_run)

section \<open>Generations wrap\<close>

text \<open>Releasing a handle and storing another value in its place, \<open>n\<close> times over.\<close>

fun recycle :: "nat \<Rightarrow> 'a \<Rightarrow> handle_id \<Rightarrow> 'a handle_table \<Rightarrow> ('a handle_table \<times> handle_id) option" where
  "recycle 0 v h t = Some (t, h)"
| "recycle (Suc n) v h t = (case remove_handle h t of Inl e \<Rightarrow> None
     | Inr (t1, _) \<Rightarrow> (case insert_value v t1 of None \<Rightarrow> None | Some (t2, h2) \<Rightarrow> recycle n v h2 t2))"

lemma unat_next_generation: "g \<noteq> 0 \<Longrightarrow> unat (next_generation g) = Suc (unat g mod 65535)"
proof -
  assume g: "g \<noteq> 0"
  show ?thesis
  proof (cases "g = - 1")
    case True
    then show ?thesis by (simp add: next_generation_def unsigned_minus_1_eq_mask mask_eq_exp_minus_1)
  next
    case False
    then have "1 + g \<noteq> 0" by (simp add: add.commute [of 1] eq_neg_iff_add_eq_0)
    then have s: "unat (g + 1) = Suc (unat g)" using unatSuc [of g] by (simp add: add.commute)
    have "unat (- 1 :: 16 word) = 65535" by (simp add: unsigned_minus_1_eq_mask mask_eq_exp_minus_1)
    then have "unat g \<noteq> 65535" using False by (metis word_unat_eq_iff)
    moreover have "unat g < 65536" using unsigned_less [of g] by simp
    ultimately have "unat g < 65535" by simp
    then show ?thesis using s by (simp add: next_generation_def max_def word_le_nat_alt)
  qed
qed

lemma generations_nonzero: "g \<noteq> 0 \<Longrightarrow> (next_generation ^^ n) g \<noteq> 0"
  by (cases n) simp_all

lemma unat_generations: "g \<noteq> 0 \<Longrightarrow> unat ((next_generation ^^ n) g) = Suc ((unat g - 1 + n) mod 65535)"
proof (induction n)
  case 0
  have "unat g < 65536" using unsigned_less [of g] by simp
  moreover have "0 < unat g" using 0 by (simp add: unat_gt_0)
  ultimately show ?case by simp
next
  case (Suc n)
  then show ?case using unat_next_generation [OF generations_nonzero [OF Suc.prems, of n]]
    by (simp add: mod_Suc_eq)
qed

lemma generations_return:
  assumes "g \<noteq> 0"
  shows "(next_generation ^^ n) g = g \<longleftrightarrow> n mod 65535 = 0"
proof -
  let ?m = "unat g - 1"
  have "unat g < 65536" using unsigned_less [of g] by simp
  moreover have "0 < unat g" using assms by (simp add: unat_gt_0)
  ultimately have m: "?m < 65535" "unat g = Suc ?m" by simp_all
  have "(next_generation ^^ n) g = g \<longleftrightarrow> (?m + n) mod 65535 = ?m"
    using unat_generations [OF assms, of n] m(2) by (metis Suc_inject word_unat_eq_iff)
  also have "\<dots> \<longleftrightarrow> (?m + n) mod 65535 = (?m + 0) mod 65535" using m(1) by simp
  also have "\<dots> \<longleftrightarrow> n mod 65535 = 0" using mod_eq_dvd_iff_nat [of ?m "?m + n" 65535] by (simp add: dvd_eq_mod_eq_0)
  finally show ?thesis .
qed

lemma recycle_once:
  assumes t: "table_ok t" and live: "lookup_handle t h = Some w"
  obtains t1 t2 where "remove_handle h t = Inr (t1, w)"
    "insert_value v t1 = Some (t2, h\<lparr>h_generation := next_generation (h_generation h)\<rparr>)"
    "table_ok t2" "lookup_handle t2 (h\<lparr>h_generation := next_generation (h_generation h)\<rparr>) = Some v" "ht_kind t2 = ht_kind t"
proof -
  obtain t1 where r: "remove_handle h t = Inr (t1, w)" "table_ok t1" "ht_kind t1 = ht_kind t" by (rule remove_handle_ok [OF assms])
  have h: "addressed t h" using lookup_value [OF live] by simp
  then have i: "unat (h_slot h) < length (ht_slots t)" "s_generation (ht_slots t ! unat (h_slot h)) = h_generation h" "h_kind h = ht_kind t"
    by (simp_all add: addressed_def)
  have t1: "ht_free t1 = h_slot h # ht_free t" "length (ht_slots t1) = length (ht_slots t)"
    "s_generation (ht_slots t1 ! unat (h_slot h)) = next_generation (h_generation h)"
    using r(1) lookup_value [OF live] i live by (auto simp: remove_handle_def validate_eq release_slot_def)
  let ?g = "s_value_update (\<lambda>_. Some v)" and ?h = "h\<lparr>h_generation := next_generation (h_generation h)\<rparr>"
  let ?u = "t1\<lparr>ht_free := ht_free t\<rparr>"
  have u: "table_ok ?u" "addressed ?u ?h" "h_slot ?h \<notin> set (ht_free ?u)"
    using r(2,3) t1 i by (simp_all add: table_ok_def addressed_def)
  have "insert_value v t1 = Some (update_slot (unat (h_slot ?h)) ?g ?u, ?h)"
    using t1 i r(3) by (cases h) (simp add: insert_value_def update_slot_def Let_def new_handle_def max_one)
  then show ?thesis using update_value_ok [OF u(1,2), of ?g] u(3) r t1 by (intro that [of t1 "update_slot (unat (h_slot ?h)) ?g ?u"]) simp_all
qed

lemma recycle_ok:
  assumes "table_ok t" "lookup_handle t h = Some w"
  shows "\<exists>t'. recycle n v h t = Some (t', h\<lparr>h_generation := (next_generation ^^ n) (h_generation h)\<rparr>) \<and>
    table_ok t' \<and> ht_kind t' = ht_kind t \<and>
    lookup_handle t' (h\<lparr>h_generation := (next_generation ^^ n) (h_generation h)\<rparr>) = Some (if n = 0 then w else v)"
  using assms
proof (induction n arbitrary: h t w)
  case 0
  then show ?case by simp
next
  case (Suc n)
  let ?h = "h\<lparr>h_generation := next_generation (h_generation h)\<rparr>"
  obtain t1 t2 where s: "remove_handle h t = Inr (t1, w)" "insert_value v t1 = Some (t2, ?h)" "table_ok t2"
    "lookup_handle t2 ?h = Some v" "ht_kind t2 = ht_kind t" by (rule recycle_once [OF Suc.prems])
  show ?case using Suc.IH [OF s(3,4)] s by (auto simp: funpow_swap1)
qed

lemma one_live_generation:
  assumes "lookup_handle t h = Some w" "h' \<noteq> h" "h_slot h' = h_slot h"
  shows "lookup_handle t h' = None"
  using assms same_handle [of t h h'] lookup_value [OF assms(1)] by (auto simp: lookup_handle_eq)

text \<open>C34: A released handle stays dead while its slot is reused, until the sixteen-bit generation has gone
  through all its 65535 values: after releasing and reusing the slot \<open>n\<close> times the old handle is \<open>Stale\<close>
  unless \<open>n\<close> is a multiple of 65535, and then it reads the value stored last.\<close>

theorem recycled_handle_reads:
  assumes "table_ok t" "get_handle t h = Inr w"
  shows "\<exists>t' h'. recycle n v h t = Some (t', h') \<and>
    get_handle t' h = (if n mod 65535 \<noteq> 0 then Inl Stale else Inr (if n = 0 then w else v))"
proof -
  have live: "lookup_handle t h = Some w" using assms(2) by (simp add: lookup_handle_def)
  then have h: "addressed t h" by (simp add: lookup_value)
  then have kind: "h_kind h = ht_kind t" and gen: "h_generation h \<noteq> 0"
    using table_okD(4) [OF assms(1)] by (auto simp: addressed_def)
  let ?h = "h\<lparr>h_generation := (next_generation ^^ n) (h_generation h)\<rparr>"
  obtain t' where t': "recycle n v h t = Some (t', ?h)" "ht_kind t' = ht_kind t" "lookup_handle t' ?h = Some (if n = 0 then w else v)"
    using recycle_ok [OF assms(1) live, of n v] by blast
  have same: "h = ?h \<longleftrightarrow> n mod 65535 = 0" using generations_return [OF gen, of n] by (cases h) auto
  have "get_handle t' h = (if n mod 65535 \<noteq> 0 then Inl Stale else Inr (if n = 0 then w else v))"
  proof (cases "n mod 65535 = 0")
    case True
    then show ?thesis using t'(3) same by (simp add: get_handle_eq)
  next
    case False
    then have "lookup_handle t' h = None" using one_live_generation [OF t'(3), of h] same by simp
    then show ?thesis using False t'(2) kind by (simp add: get_handle_eq dead_error_def)
  qed
  with t'(1) show ?thesis by blast
qed

definition one_slot :: "nat handle_table" where
  "one_slot = \<lparr>ht_kind = HandleKind 1, ht_slots = [\<lparr>s_generation = 1, s_value = Some 7\<rparr>], ht_free = []\<rparr>"

theorem recycled_handle_reads_witness:
  "\<exists>t' h'. recycle 65535 8 (new_handle (HandleKind 1) 0 1) one_slot = Some (t', h') \<and>
    get_handle t' (new_handle (HandleKind 1) 0 1) = Inr 8"
  using recycled_handle_reads [of one_slot "new_handle (HandleKind 1) 0 1" 7 65535 8]
  by (simp add: one_slot_def table_ok_def max_slots_def get_handle_eq lookup_handle_eq addressed_def new_handle_def)

end
