(* ===== verification/Manual_Memory.thy ===== *)
theory Manual_Memory
  imports Prelude
begin

text \<open>
  The manual heap, \<open>src/runtime/src/memory/mod.rs\<close>. Its three counters are atomics that many
  threads update without a lock, so the model is a step relation with one step per atomic access: a
  thread is the point it has reached inside \<open>register\<close>, \<open>release\<close> or the quarantine methods,
  with the locals it still needs. A \<open>usize\<close> is a 64-bit word; \<open>fetch_add\<close> and \<open>fetch_sub\<close>
  wrap. The theory shows that the counters account for every box and every call in flight, and that the
  resident bytes never pass the limit.
\<close>

section \<open>The heap and its threads\<close>

definition default_soft_limit :: "64 word" where
  "default_soft_limit = 32 * 1024 * 1024"

datatype allocation_error = ManualLimitExceeded "64 word" "64 word" | SystemAllocationFailed "64 word"

definition manual_limit_exceeded :: "allocation_error \<Rightarrow> (64 word \<times> 64 word) option" where
  "manual_limit_exceeded e = (case e of ManualLimitExceeded requested limit \<Rightarrow> Some (requested, limit)
     | SystemAllocationFailed _ \<Rightarrow> None)"

definition system_allocation_failed :: "allocation_error \<Rightarrow> bool" where
  "system_allocation_failed e = (case e of SystemAllocationFailed _ \<Rightarrow> True | ManualLimitExceeded _ _ \<Rightarrow> False)"

text \<open>Where a thread is: before \<open>register\<close> reads the counters, in its loop with the total it last saw,
  after the resident charge, after the live bytes, registered; inside \<open>release\<close> after each of its
  three updates; inside the move to quarantine; and dropping a quarantined box. \<open>Failed\<close> is a call
  that is about to return its error.\<close>

datatype thread =
    Idle
  | Registering "64 word"
  | Comparing "64 word" "64 word"
  | Charged "64 word"
  | Counted "64 word"
  | Registered "64 word"
  | Failed allocation_error
  | Releasing "64 word" "allocation_error option"
  | Uncounted "64 word" "allocation_error option"
  | Unlive "64 word" "allocation_error option"
  | Quarantining "64 word"
  | Leaving "64 word"
  | Evicting "64 word"

record heap =
  live_allocations :: "64 word"
  live_bytes :: "64 word"
  resident_bytes :: "64 word"
  boxes :: "64 word list"
  quarantined :: "64 word list"
  threads :: "thread list"

definition new_heap :: "nat \<Rightarrow> heap" where
  "new_heap n = \<lparr>live_allocations = 0, live_bytes = 0, resident_bytes = 0, boxes = [], quarantined = [],
     threads = replicate n Idle\<rparr>"

definition saturating_add :: "64 word \<Rightarrow> 64 word \<Rightarrow> 64 word" where
  "saturating_add a b = (if unat a + unat b < 2 ^ 64 then a + b else - 1)"

definition at :: "heap \<Rightarrow> nat \<Rightarrow> thread \<Rightarrow> bool" where
  "at m i p \<longleftrightarrow> i < length (threads m) \<and> threads m ! i = p"

definition move_to :: "nat \<Rightarrow> thread \<Rightarrow> heap \<Rightarrow> heap" where
  "move_to i p m = m\<lparr>threads := (threads m)[i := p]\<rparr>"

definition returned :: "allocation_error option \<Rightarrow> thread" where
  "returned e = (case e of None \<Rightarrow> Idle | Some e \<Rightarrow> Failed e)"

definition stats :: "heap \<Rightarrow> 64 word \<times> 64 word" where
  "stats m = (live_allocations m, live_bytes m)"

text \<open>\<open>compare_exchange_weak\<close> may fail although the total is the expected one, so \<open>lost_exchange\<close>
  has no condition on it. Whether the system gives out the bytes is not the heap's choice:
  \<open>make_box\<close> and \<open>reservation_failed\<close> leave the same point.\<close>

inductive heap_step :: "64 word \<Rightarrow> heap \<Rightarrow> heap \<Rightarrow> bool" for limit where
  call_register: "at m i Idle \<Longrightarrow> heap_step limit m (move_to i (Registering n) m)"
| charge_unlimited: "at m i (Registering n) \<Longrightarrow> limit = 0 \<Longrightarrow>
    heap_step limit m (move_to i (Charged n) (m\<lparr>resident_bytes := resident_bytes m + n\<rparr>))"
| read_total: "at m i (Registering n) \<Longrightarrow> limit \<noteq> 0 \<Longrightarrow>
    heap_step limit m (move_to i (Comparing n (resident_bytes m)) m)"
| over_limit: "at m i (Comparing n seen) \<Longrightarrow> saturating_add seen n > limit \<Longrightarrow>
    heap_step limit m (move_to i (Failed (ManualLimitExceeded n limit)) m)"
| won_exchange: "at m i (Comparing n seen) \<Longrightarrow> saturating_add seen n \<le> limit \<Longrightarrow> resident_bytes m = seen \<Longrightarrow>
    heap_step limit m (move_to i (Charged n) (m\<lparr>resident_bytes := saturating_add seen n\<rparr>))"
| lost_exchange: "at m i (Comparing n seen) \<Longrightarrow> saturating_add seen n \<le> limit \<Longrightarrow>
    heap_step limit m (move_to i (Comparing n (resident_bytes m)) m)"
| add_live_bytes: "at m i (Charged n) \<Longrightarrow>
    heap_step limit m (move_to i (Counted n) (m\<lparr>live_bytes := live_bytes m + n\<rparr>))"
| add_live_allocation: "at m i (Counted n) \<Longrightarrow>
    heap_step limit m (move_to i (Registered n) (m\<lparr>live_allocations := live_allocations m + 1\<rparr>))"
| make_box: "at m i (Registered n) \<Longrightarrow> heap_step limit m (move_to i Idle (m\<lparr>boxes := n # boxes m\<rparr>))"
| reservation_failed: "at m i (Registered n) \<Longrightarrow>
    heap_step limit m (move_to i (Releasing n (Some (SystemAllocationFailed n))) m)"
| return_error: "at m i (Failed e) \<Longrightarrow> heap_step limit m (move_to i Idle m)"
| drop_box: "at m i Idle \<Longrightarrow> n \<in> set (boxes m) \<Longrightarrow>
    heap_step limit m (move_to i (Releasing n None) (m\<lparr>boxes := remove1 n (boxes m)\<rparr>))"
| sub_live_allocation: "at m i (Releasing n e) \<Longrightarrow>
    heap_step limit m (move_to i (Uncounted n e) (m\<lparr>live_allocations := live_allocations m - 1\<rparr>))"
| sub_live_bytes: "at m i (Uncounted n e) \<Longrightarrow>
    heap_step limit m (move_to i (Unlive n e) (if n > 0 then m\<lparr>live_bytes := live_bytes m - n\<rparr> else m))"
| sub_resident: "at m i (Unlive n e) \<Longrightarrow>
    heap_step limit m (move_to i (returned e) (if n > 0 then m\<lparr>resident_bytes := resident_bytes m - n\<rparr> else m))"
| quarantine_box: "at m i Idle \<Longrightarrow> n \<in> set (boxes m) \<Longrightarrow>
    heap_step limit m (move_to i (Quarantining n) (m\<lparr>boxes := remove1 n (boxes m)\<rparr>))"
| quarantine_allocation: "at m i (Quarantining n) \<Longrightarrow>
    heap_step limit m (move_to i (Leaving n) (m\<lparr>live_allocations := live_allocations m - 1\<rparr>))"
| quarantine_bytes: "at m i (Leaving n) \<Longrightarrow>
    heap_step limit m (move_to i Idle (if n > 0 then m\<lparr>live_bytes := live_bytes m - n, quarantined := n # quarantined m\<rparr>
      else m\<lparr>quarantined := n # quarantined m\<rparr>))"
| evict_box: "at m i Idle \<Longrightarrow> n \<in> set (quarantined m) \<Longrightarrow>
    heap_step limit m (move_to i (Evicting n) (m\<lparr>quarantined := remove1 n (quarantined m)\<rparr>))"
| evict_resident: "at m i (Evicting n) \<Longrightarrow>
    heap_step limit m (move_to i Idle (if n > 0 then m\<lparr>resident_bytes := resident_bytes m - n\<rparr> else m))"

section \<open>What the counters account for\<close>

fun resident_charge :: "thread \<Rightarrow> nat" where
  "resident_charge (Charged n) = unat n"
| "resident_charge (Counted n) = unat n"
| "resident_charge (Registered n) = unat n"
| "resident_charge (Releasing n e) = unat n"
| "resident_charge (Uncounted n e) = unat n"
| "resident_charge (Unlive n e) = unat n"
| "resident_charge (Quarantining n) = unat n"
| "resident_charge (Leaving n) = unat n"
| "resident_charge (Evicting n) = unat n"
| "resident_charge _ = 0"

fun live_charge :: "thread \<Rightarrow> nat" where
  "live_charge (Counted n) = unat n"
| "live_charge (Registered n) = unat n"
| "live_charge (Releasing n e) = unat n"
| "live_charge (Uncounted n e) = unat n"
| "live_charge (Quarantining n) = unat n"
| "live_charge (Leaving n) = unat n"
| "live_charge _ = 0"

fun allocation_charge :: "thread \<Rightarrow> nat" where
  "allocation_charge (Registered n) = 1"
| "allocation_charge (Releasing n e) = 1"
| "allocation_charge (Quarantining n) = 1"
| "allocation_charge _ = 0"

definition charged :: "(thread \<Rightarrow> nat) \<Rightarrow> heap \<Rightarrow> nat" where
  "charged w m = sum_list (map w (threads m))"

definition bytes :: "64 word list \<Rightarrow> nat" where
  "bytes ns = sum_list (map unat ns)"

definition resident_total :: "heap \<Rightarrow> nat" where
  "resident_total m = bytes (boxes m) + bytes (quarantined m) + charged resident_charge m"

definition live_total :: "heap \<Rightarrow> nat" where
  "live_total m = bytes (boxes m) + charged live_charge m"

definition allocation_total :: "heap \<Rightarrow> nat" where
  "allocation_total m = length (boxes m) + charged allocation_charge m"

definition accounted :: "64 word \<Rightarrow> heap \<Rightarrow> bool" where
  "accounted limit m \<longleftrightarrow> live_bytes m = of_nat (live_total m) \<and> live_allocations m = of_nat (allocation_total m) \<and>
     (limit \<noteq> - 1 \<longrightarrow> resident_bytes m = of_nat (resident_total m) \<and> (limit \<noteq> 0 \<longrightarrow> resident_total m \<le> unat limit))"

lemma charged_move:
  assumes "at m i p"
  shows "charged w (move_to i q m) + w p = charged w m + w q"
proof -
  have i: "i < length (threads m)" "threads m ! i = p" using assms by (simp_all add: at_def)
  have "w p \<le> charged w m" using i elem_le_sum_list [of i "map w (threads m)"] by (simp add: charged_def)
  then show ?thesis using i by (simp add: charged_def move_to_def map_update sum_list_update)
qed

lemma charged_simps [simp]:
  "charged w (m\<lparr>resident_bytes := x\<rparr>) = charged w m" "charged w (m\<lparr>live_bytes := x\<rparr>) = charged w m"
  "charged w (m\<lparr>live_allocations := x\<rparr>) = charged w m" "charged w (m\<lparr>boxes := bs\<rparr>) = charged w m"
  "charged w (m\<lparr>quarantined := bs\<rparr>) = charged w m"
  by (simp_all add: charged_def)

lemma at_simps [simp]:
  "at (m\<lparr>resident_bytes := x\<rparr>) = at m" "at (m\<lparr>live_bytes := x\<rparr>) = at m"
  "at (m\<lparr>live_allocations := x\<rparr>) = at m" "at (m\<lparr>boxes := bs\<rparr>) = at m" "at (m\<lparr>quarantined := bs\<rparr>) = at m"
  by (simp_all add: at_def fun_eq_iff)

lemma move_to_simps [simp]:
  "resident_bytes (move_to i p m) = resident_bytes m" "live_bytes (move_to i p m) = live_bytes m"
  "live_allocations (move_to i p m) = live_allocations m" "boxes (move_to i p m) = boxes m"
  "quarantined (move_to i p m) = quarantined m"
  by (simp_all add: move_to_def)

lemma bytes_simps [simp]: "bytes [] = 0" "bytes (n # ns) = unat n + bytes ns"
  by (simp_all add: bytes_def)

lemma remove1_counts:
  assumes "n \<in> set ns"
  shows "bytes ns = bytes (remove1 n ns) + unat n" "length ns = Suc (length (remove1 n ns))"
  using assms by (induction ns) auto

text \<open>A step moves one thread from \<open>p\<close> to \<open>q\<close> and updates counters and box lists to \<open>m'\<close>; it keeps the
  account when what it adds to each counter is what the charges change by.\<close>

definition held :: "heap \<Rightarrow> nat" where
  "held m = bytes (boxes m) + bytes (quarantined m)"

lemma of_nat_shift: "a' + p = a + q \<Longrightarrow> (of_nat a' :: 64 word) = of_nat a + of_nat q - of_nat p"
  by (metis add_diff_cancel_right' of_nat_add)

definition balanced :: "64 word \<Rightarrow> heap \<Rightarrow> heap \<Rightarrow> thread \<Rightarrow> thread \<Rightarrow> bool" where
  "balanced limit m m' p q \<longleftrightarrow> threads m' = threads m \<and>
     live_bytes m' = live_bytes m + of_nat (live_charge q + bytes (boxes m')) - of_nat (live_charge p + bytes (boxes m)) \<and>
     live_allocations m' =
       live_allocations m + of_nat (allocation_charge q + length (boxes m')) - of_nat (allocation_charge p + length (boxes m)) \<and>
     (limit \<noteq> - 1 \<longrightarrow>
       resident_bytes m' = resident_bytes m + of_nat (resident_charge q + held m') - of_nat (resident_charge p + held m) \<and>
       (limit \<noteq> 0 \<longrightarrow> resident_total m + (resident_charge q + held m') \<le> unat limit + (resident_charge p + held m)))"

lemma accounted_step:
  assumes acc: "accounted limit m" and p: "at m i p" and bal: "balanced limit m m' p q"
  shows "accounted limit (move_to i q m')"
proof -
  have same: "threads m' = threads m" using bal by (simp add: balanced_def)
  have at': "at m' i p" using p same by (simp add: at_def)
  have eq: "charged w (move_to i q m') + w p = charged w m + w q" for w
    using charged_move [OF at', of w q] same by (simp add: charged_def)
  have totals: "resident_total (move_to i q m') + (resident_charge p + held m) = resident_total m + (resident_charge q + held m')"
    "live_total (move_to i q m') + (live_charge p + bytes (boxes m)) = live_total m + (live_charge q + bytes (boxes m'))"
    "allocation_total (move_to i q m') + (allocation_charge p + length (boxes m)) =
      allocation_total m + (allocation_charge q + length (boxes m'))"
    using eq [of resident_charge] eq [of live_charge] eq [of allocation_charge]
    by (simp_all add: resident_total_def live_total_def allocation_total_def held_def)
  have "limit \<noteq> - 1 \<longrightarrow> limit \<noteq> 0 \<longrightarrow> resident_total (move_to i q m') \<le> unat limit"
    using bal totals(1) by (cases "limit = 0"; cases "limit = - 1") (simp_all add: balanced_def)
  then show ?thesis using acc bal
    by (simp add: accounted_def balanced_def of_nat_shift [OF totals(1)] of_nat_shift [OF totals(2)] of_nat_shift [OF totals(3)] del: of_nat_add)
qed

lemma saturating_add_le:
  assumes "saturating_add a b \<le> limit" "limit \<noteq> - 1"
  shows "saturating_add a b = a + b" "unat a + unat b \<le> unat limit"
proof -
  have small: "unat a + unat b < 2 ^ 64"
  proof (rule ccontr)
    assume "\<not> unat a + unat b < 2 ^ 64"
    then have "- 1 \<le> limit" using assms(1) by (simp add: saturating_add_def)
    then show False using assms(2) by (simp add: word_order.extremum_unique)
  qed
  then show "saturating_add a b = a + b" by (simp add: saturating_add_def)
  then show "unat a + unat b \<le> unat limit" using assms(1) small by (simp add: word_le_nat_alt unat_word_ariths(1))
qed

lemma heap_step_accounted:
  assumes "heap_step limit m m'" "accounted limit m"
  shows "accounted limit m'"
  using assms
proof (induction rule: heap_step.induct)
  case (won_exchange m i n seen)
  have "resident_total m + unat n \<le> unat limit" if "limit \<noteq> - 1" "limit \<noteq> 0"
  proof -
    have "unat limit < 2 ^ 64" using unsigned_less [of limit] by simp
    then have "resident_total m < 2 ^ 64" using won_exchange(4) that by (auto simp: accounted_def)
    then have "resident_total m = unat (resident_bytes m)"
      using won_exchange(4) that by (simp add: accounted_def unsigned_of_nat take_bit_nat_eq_self)
    then show ?thesis using won_exchange(3) saturating_add_le(2) [OF won_exchange(2) that(1)] by simp
  qed
  then show ?case using won_exchange saturating_add_le(1) [OF won_exchange(2)]
    by (intro accounted_step [OF won_exchange(4) won_exchange(1)]) (simp add: balanced_def held_def)
next
  case (drop_box m i n)
  then show ?case using remove1_counts [OF drop_box(2)]
    by (intro accounted_step [OF drop_box(3,1)]) (auto simp: balanced_def held_def accounted_def)
next
  case (quarantine_box m i n)
  then show ?case using remove1_counts [OF quarantine_box(2)]
    by (intro accounted_step [OF quarantine_box(3,1)]) (auto simp: balanced_def held_def accounted_def)
next
  case (evict_box m i n)
  then show ?case using remove1_counts [OF evict_box(2)]
    by (intro accounted_step [OF evict_box(3,1)]) (auto simp: balanced_def held_def accounted_def)
next
  case (sub_resident m i n e)
  then show ?case by (intro accounted_step [OF sub_resident(2,1)])
    (cases e; auto simp: balanced_def held_def accounted_def returned_def word_gt_0)
next
  case (evict_resident m i n)
  then show ?case by (intro accounted_step [OF evict_resident(2,1)])
    (auto simp: balanced_def held_def accounted_def word_gt_0)
qed (rule accounted_step, assumption, assumption,
     simp add: balanced_def held_def accounted_def word_gt_0)+

lemma new_heap_accounted: "accounted limit (new_heap k)"
proof -
  have "w Idle = 0 \<Longrightarrow> charged w (new_heap k) = 0" for w by (simp add: charged_def new_heap_def sum_list_replicate)
  then show ?thesis by (simp add: accounted_def resident_total_def live_total_def allocation_total_def) (simp add: new_heap_def)
qed

lemma reachable_accounted: "(heap_step limit)\<^sup>*\<^sup>* (new_heap k) m \<Longrightarrow> accounted limit m"
  by (induction rule: rtranclp_induct) (auto intro: new_heap_accounted heap_step_accounted)

definition quiet :: "heap \<Rightarrow> bool" where
  "quiet m \<longleftrightarrow> list_all (\<lambda>p. p = Idle) (threads m)"

lemma charged_quiet: "quiet m \<Longrightarrow> w Idle = 0 \<Longrightarrow> charged w m = 0"
  by (auto simp: charged_def quiet_def list_all_iff)

text \<open>Two threads that contend for the total: the first reads it before the second charges 50 bytes, so that its exchange is lost and it
  charges its 100 bytes in a second attempt.\<close>

definition contended :: heap where
  "contended = \<lparr>live_allocations = 0, live_bytes = 50, resident_bytes = 150, boxes = [], quarantined = [], threads = [Charged 100, Counted 50]\<rparr>"

lemma contended_reached: "(heap_step 1000)\<^sup>*\<^sup>* (new_heap 2) contended"
proof -
  let ?h = "\<lambda>l r p q. \<lparr>live_allocations = 0, live_bytes = l, resident_bytes = r, boxes = [], quarantined = [], threads = [p, q]\<rparr>"
  have "saturating_add 0 50 = 50" "saturating_add 0 100 = 100" "saturating_add 50 100 = 150" by (simp_all add: saturating_add_def)
  then have "heap_step 1000 (?h 0 0 Idle Idle) (?h 0 0 (Registering 100) Idle)"
    "heap_step 1000 (?h 0 0 (Registering 100) Idle) (?h 0 0 (Registering 100) (Registering 50))"
    "heap_step 1000 (?h 0 0 (Registering 100) (Registering 50)) (?h 0 0 (Comparing 100 0) (Registering 50))"
    "heap_step 1000 (?h 0 0 (Comparing 100 0) (Registering 50)) (?h 0 0 (Comparing 100 0) (Comparing 50 0))"
    "heap_step 1000 (?h 0 0 (Comparing 100 0) (Comparing 50 0)) (?h 0 50 (Comparing 100 0) (Charged 50))"
    "heap_step 1000 (?h 0 50 (Comparing 100 0) (Charged 50)) (?h 0 50 (Comparing 100 50) (Charged 50))"
    "heap_step 1000 (?h 0 50 (Comparing 100 50) (Charged 50)) (?h 0 150 (Charged 100) (Charged 50))"
    "heap_step 1000 (?h 0 150 (Charged 100) (Charged 50)) contended"
    using call_register [of "?h 0 0 Idle Idle" 0 1000 100] call_register [of "?h 0 0 (Registering 100) Idle" 1 1000 50]
      read_total [of "?h 0 0 (Registering 100) (Registering 50)" 0 100 1000] read_total [of "?h 0 0 (Comparing 100 0) (Registering 50)" 1 50 1000]
      won_exchange [of "?h 0 0 (Comparing 100 0) (Comparing 50 0)" 1 50 0 1000] lost_exchange [of "?h 0 50 (Comparing 100 0) (Charged 50)" 0 100 0 1000]
      won_exchange [of "?h 0 50 (Comparing 100 50) (Charged 50)" 0 100 50 1000] add_live_bytes [of "?h 0 150 (Charged 100) (Charged 50)" 1 50 1000]
    by (simp_all add: at_def move_to_def contended_def)
  moreover have "new_heap 2 = ?h 0 0 Idle Idle" by (simp add: new_heap_def numeral_2_eq_2)
  ultimately show ?thesis by (simp add: converse_rtranclp_into_rtranclp)
qed

text \<open>C29: However the threads of the manual heap interleave and whatever the limit, at every moment the live bytes are the bytes of the
  boxes and of the calls between their two live-byte updates, and the live allocations are the boxes and the calls between their two
  allocation updates, modulo \<open>2 ^ 64\<close>. Unless the limit is \<open>usize::MAX\<close>, where a saturated sum passes the test and the
  resident counter drifts (\<open>saturated_reservation_drifts\<close>), the resident bytes are at every moment the bytes of the boxes, of the
  quarantine and of the calls in flight, and under a limit, one that is not 0, they never pass it. When no call is in flight, the statistics are
  the number and the bytes of the live boxes.\<close>

theorem heap_accounting:
  assumes "(heap_step limit)\<^sup>*\<^sup>* (new_heap k) m"
  shows "live_bytes m = of_nat (bytes (boxes m) + charged live_charge m) \<and>
    live_allocations m = of_nat (length (boxes m) + charged allocation_charge m) \<and>
    (limit \<noteq> - 1 \<longrightarrow> resident_bytes m = of_nat (bytes (boxes m) + bytes (quarantined m) + charged resident_charge m)) \<and>
    (limit \<noteq> - 1 \<longrightarrow> limit \<noteq> 0 \<longrightarrow> bytes (boxes m) + bytes (quarantined m) + charged resident_charge m \<le> unat limit) \<and>
    (quiet m \<longrightarrow> stats m = (of_nat (length (boxes m)), of_nat (bytes (boxes m))) \<and>
       (limit \<noteq> - 1 \<longrightarrow> resident_bytes m = of_nat (bytes (boxes m) + bytes (quarantined m))))"
  using reachable_accounted [OF assms] charged_quiet [of m]
  by (simp add: accounted_def stats_def resident_total_def live_total_def allocation_total_def)

theorem heap_accounting_witness:
  "live_bytes contended = of_nat (bytes (boxes contended) + charged live_charge contended) \<and>
   live_allocations contended = of_nat (length (boxes contended) + charged allocation_charge contended) \<and>
   resident_bytes contended = of_nat (bytes (boxes contended) + bytes (quarantined contended) + charged resident_charge contended) \<and>
   bytes (boxes contended) + bytes (quarantined contended) + charged resident_charge contended \<le> unat (1000 :: 64 word) \<and>
   charged resident_charge contended = 150 \<and> charged live_charge contended = 50"
proof -
  have "charged resident_charge contended = 150" "charged live_charge contended = 50" by (simp_all add: charged_def contended_def)
  moreover have "(1000 :: 64 word) \<noteq> - 1" "(1000 :: 64 word) \<noteq> 0" by simp_all
  ultimately show ?thesis using heap_accounting [OF contended_reached] by blast
qed

section \<open>No thread is stuck\<close>

text \<open>Steps of one thread only.\<close>

definition solo_step :: "64 word \<Rightarrow> nat \<Rightarrow> heap \<Rightarrow> heap \<Rightarrow> bool" where
  "solo_step limit i m m' \<longleftrightarrow> heap_step limit m m' \<and> (\<exists>q u. m' = move_to i q u \<and> threads u = threads m)"

lemma soloI: "heap_step limit m (move_to i q u) \<Longrightarrow> threads u = threads m \<Longrightarrow> solo_step limit i m (move_to i q u)"
  unfolding solo_step_def by blast

lemma at_moved: "at m i p \<Longrightarrow> threads u = threads m \<Longrightarrow> at (move_to i q u) i q"
  by (simp add: at_def move_to_def)

definition finishes :: "64 word \<Rightarrow> nat \<Rightarrow> heap \<Rightarrow> bool" where
  "finishes limit i m \<longleftrightarrow> (\<exists>m'. (solo_step limit i)\<^sup>*\<^sup>* m m' \<and> at m' i Idle)"

lemma finishes_step: "solo_step limit i m m' \<Longrightarrow> finishes limit i m' \<Longrightarrow> finishes limit i m"
  unfolding finishes_def by (meson converse_rtranclp_into_rtranclp)

lemma finishes_move:
  assumes "heap_step limit m (move_to i q u)" "threads u = threads m" "finishes limit i (move_to i q u)"
  shows "finishes limit i m"
  using finishes_step [OF soloI [OF assms(1,2)] assms(3)] .

lemma finishes_at:
  assumes "heap_step limit m (move_to i q u)" "threads u = threads m" "at m i p" "\<And>m. at m i q \<Longrightarrow> finishes limit i m"
  shows "finishes limit i m"
  using finishes_move [OF assms(1,2) assms(4) [OF at_moved [OF assms(3,2)]]] .

lemma finishes_idle: "at m i Idle \<Longrightarrow> finishes limit i m"
  unfolding finishes_def by blast

lemma finishes_release:
  shows "at m i (Failed e) \<Longrightarrow> finishes limit i m" "at m i (Unlive n r) \<Longrightarrow> finishes limit i m"
    "at m i (Uncounted n r) \<Longrightarrow> finishes limit i m" "at m i (Releasing n r) \<Longrightarrow> finishes limit i m"
proof -
  show failed: "finishes limit i m" if "at m i (Failed e)" for m e
    by (rule finishes_at [OF return_error [OF that] _ that]) (simp_all add: finishes_idle)
  show unlive: "finishes limit i m" if "at m i (Unlive n r)" for m n r
    by (rule finishes_at [OF sub_resident [OF that] _ that]) (cases r; simp add: returned_def finishes_idle failed)+
  show uncounted: "finishes limit i m" if "at m i (Uncounted n r)" for m n r
    by (rule finishes_at [OF sub_live_bytes [OF that] _ that]) (simp_all add: unlive)
  show "finishes limit i m" if "at m i (Releasing n r)" for m n r
    by (rule finishes_at [OF sub_live_allocation [OF that] _ that]) (simp_all add: uncounted)
qed

lemma finishes_registered:
  shows "at m i (Registered n) \<Longrightarrow> finishes limit i m" "at m i (Counted n) \<Longrightarrow> finishes limit i m"
    "at m i (Charged n) \<Longrightarrow> finishes limit i m"
proof -
  show registered: "finishes limit i m" if "at m i (Registered n)" for m n
    by (rule finishes_at [OF make_box [OF that] _ that]) (simp_all add: finishes_idle)
  show counted: "finishes limit i m" if "at m i (Counted n)" for m n
    by (rule finishes_at [OF add_live_allocation [OF that] _ that]) (simp_all add: registered)
  show "finishes limit i m" if "at m i (Charged n)" for m n
    by (rule finishes_at [OF add_live_bytes [OF that] _ that]) (simp_all add: counted)
qed

text \<open>The loop of \<open>register\<close>: alone, the second comparison is against the current total.\<close>

lemma finishes_comparing:
  assumes "at m i (Comparing n seen)"
  shows "finishes limit i m"
proof -
  have fresh: "finishes limit i m" if c: "at m i (Comparing n (resident_bytes m))" for m
  proof (cases "saturating_add (resident_bytes m) n \<le> limit")
    case True
    show ?thesis by (rule finishes_at [OF won_exchange [OF c True refl] _ c]) (simp_all add: finishes_registered(3))
  next
    case False
    then have "saturating_add (resident_bytes m) n > limit" by simp
    from finishes_at [OF over_limit [OF c this] _ c] show ?thesis by (simp add: finishes_release(1))
  qed
  show ?thesis
  proof (cases "saturating_add seen n \<le> limit")
    case True
    show ?thesis by (rule finishes_move [OF lost_exchange [OF assms True]])
      (use assms in \<open>auto intro!: fresh simp: at_moved\<close>)
  next
    case False
    then have "saturating_add seen n > limit" by simp
    from finishes_at [OF over_limit [OF assms this] _ assms] show ?thesis by (simp add: finishes_release(1))
  qed
qed

lemma finishes_registering:
  assumes "at m i (Registering n)"
  shows "finishes limit i m"
proof (cases "limit = 0")
  case True
  show ?thesis by (rule finishes_at [OF charge_unlimited [OF assms True] _ assms]) (simp_all add: finishes_registered(3))
next
  case False
  show ?thesis by (rule finishes_at [OF read_total [OF assms False] _ assms]) (simp_all add: finishes_comparing)
qed

lemma finishes_quarantine:
  shows "at m i (Leaving n) \<Longrightarrow> finishes limit i m" "at m i (Quarantining n) \<Longrightarrow> finishes limit i m"
    "at m i (Evicting n) \<Longrightarrow> finishes limit i m"
proof -
  show leaving: "finishes limit i m" if "at m i (Leaving n)" for m n
    by (rule finishes_at [OF quarantine_bytes [OF that] _ that]) (simp_all add: finishes_idle)
  show "finishes limit i m" if "at m i (Quarantining n)" for m n
    by (rule finishes_at [OF quarantine_allocation [OF that] _ that]) (simp_all add: leaving)
  show "finishes limit i m" if "at m i (Evicting n)" for m n
    by (rule finishes_at [OF evict_resident [OF that] _ that]) (simp_all add: finishes_idle)
qed

text \<open>C33: No thread of the manual heap can be stuck: from any state there is a path of its own steps alone by which a thread
  completes the call it is in, whatever the other threads left in the counters. It is a possibility: the weak exchange may fail
  spuriously, so the relation also has runs in which a thread repeats its loop.\<close>

theorem heap_thread_finishes:
  assumes "i < length (threads m)"
  shows "finishes limit i m"
proof -
  have "at m i (threads m ! i)" using assms by (simp add: at_def)
  then show ?thesis
    by (cases "threads m ! i") (auto intro: finishes_idle finishes_release finishes_registered finishes_comparing
      finishes_registering finishes_quarantine)
qed

theorem heap_thread_finishes_witness: "finishes 64 0 (move_to 0 (Comparing 8 16) (new_heap 1))"
  by (rule heap_thread_finishes) (simp add: move_to_def new_heap_def)

text \<open>What a call of \<open>register\<close> does when no other thread runs.\<close>

definition registered :: "64 word \<Rightarrow> nat \<Rightarrow> heap \<Rightarrow> heap" where
  "registered n i m = move_to i (Registered n) (m\<lparr>resident_bytes := saturating_add (resident_bytes m) n,
     live_bytes := live_bytes m + n, live_allocations := live_allocations m + 1\<rparr>)"

lemma register_accepts:
  assumes "at m i (Comparing n (resident_bytes m))" "saturating_add (resident_bytes m) n \<le> limit"
  shows "(solo_step limit i)\<^sup>*\<^sup>* m (registered n i m)"
proof -
  let ?a = "move_to i (Charged n) (m\<lparr>resident_bytes := saturating_add (resident_bytes m) n\<rparr>)"
  have 1: "solo_step limit i m ?a" by (rule soloI [OF won_exchange [OF assms refl]]) simp
  have "at ?a i (Charged n)" using at_moved [OF assms(1), of _ "Charged n"] by simp
  note b = add_live_bytes [OF this, of limit]
  let ?b = "move_to i (Counted n) (?a\<lparr>live_bytes := live_bytes ?a + n\<rparr>)"
  have 2: "solo_step limit i ?a ?b" by (rule soloI [OF b]) simp
  have "at ?b i (Counted n)" using at_moved [OF \<open>at ?a i (Charged n)\<close>, of _ "Counted n"] by simp
  note c = add_live_allocation [OF this, of limit]
  let ?c = "move_to i (Registered n) (?b\<lparr>live_allocations := live_allocations ?b + 1\<rparr>)"
  have 3: "solo_step limit i ?b ?c" by (rule soloI [OF c]) simp
  have "?c = registered n i m" by (simp add: registered_def move_to_def)
  then have "(solo_step limit i)\<^sup>*\<^sup>* ?b (registered n i m)" using r_into_rtranclp [of "solo_step limit i", OF 3] by simp
  from converse_rtranclp_into_rtranclp [OF 1 converse_rtranclp_into_rtranclp [OF 2 this]] show ?thesis .
qed

text \<open>A call that registers \<open>n\<close> bytes under a limit, when no other thread runs, succeeds exactly when
  the resident total and \<open>n\<close> fit the limit: it then charges \<open>n\<close> resident and \<open>n\<close> live bytes and one
  allocation, and otherwise returns the error with the request and the limit and leaves every counter as it
  was.\<close>

lemma register_alone_exact:
  assumes "at m i (Registering n)" "limit \<noteq> 0"
  shows "(solo_step limit i)\<^sup>*\<^sup>* m (if saturating_add (resident_bytes m) n \<le> limit then registered n i m
    else move_to i (Failed (ManualLimitExceeded n limit)) m)"
proof -
  let ?r = "move_to i (Comparing n (resident_bytes m)) m"
  have 1: "solo_step limit i m ?r" by (rule soloI [OF read_total [OF assms]]) simp
  have r: "at ?r i (Comparing n (resident_bytes ?r))" using at_moved [OF assms(1)] by simp
  show ?thesis
  proof (cases "saturating_add (resident_bytes m) n \<le> limit")
    case True
    have "registered n i ?r = registered n i m" by (simp add: registered_def move_to_def)
    then have "(solo_step limit i)\<^sup>*\<^sup>* ?r (registered n i m)" using register_accepts [OF r, of limit] True by simp
    from converse_rtranclp_into_rtranclp [OF 1 this] show ?thesis using True by simp
  next
    case False
    then have "saturating_add (resident_bytes ?r) n > limit" by simp
    from over_limit [OF r this] have "solo_step limit i ?r (move_to i (Failed (ManualLimitExceeded n limit)) ?r)"
      by (rule soloI) simp
    moreover have "move_to i (Failed (ManualLimitExceeded n limit)) ?r = move_to i (Failed (ManualLimitExceeded n limit)) m"
      by (simp add: move_to_def)
    ultimately have "(solo_step limit i)\<^sup>*\<^sup>* ?r (move_to i (Failed (ManualLimitExceeded n limit)) m)" by (simp add: r_into_rtranclp)
    from converse_rtranclp_into_rtranclp [OF 1 this] show ?thesis using False by simp
  qed
qed

section \<open>The largest limit\<close>

text \<open>At the limit \<open>usize::MAX\<close> a saturated sum passes the test, so the exchange charges less than the
  request and the failed reservation gives back more than was charged.\<close>

definition one_thread :: "64 word \<Rightarrow> 64 word \<Rightarrow> 64 word \<Rightarrow> 64 word list \<Rightarrow> thread \<Rightarrow> heap" where
  "one_thread a l r bs p = \<lparr>live_allocations = a, live_bytes = l, resident_bytes = r, boxes = bs, quarantined = [], threads = [p]\<rparr>"

lemma one_thread_simps:
  "at (one_thread a l r bs p) 0 p" "move_to 0 q (one_thread a l r bs p) = one_thread a l r bs q"
  "(one_thread a l r bs p)\<lparr>resident_bytes := x\<rparr> = one_thread a l x bs p"
  "(one_thread a l r bs p)\<lparr>live_bytes := x\<rparr> = one_thread a x r bs p"
  "(one_thread a l r bs p)\<lparr>live_allocations := x\<rparr> = one_thread x l r bs p"
  "(one_thread a l r bs p)\<lparr>boxes := xs\<rparr> = one_thread a l r xs p"
  "resident_bytes (one_thread a l r bs p) = r" "live_bytes (one_thread a l r bs p) = l"
  "live_allocations (one_thread a l r bs p) = a" "boxes (one_thread a l r bs p) = bs"
  by (simp_all add: one_thread_def at_def move_to_def)

lemma one_thread_register:
  "saturating_add r n \<le> limit \<Longrightarrow> limit \<noteq> 0 \<Longrightarrow>
   (heap_step limit)\<^sup>*\<^sup>* (one_thread a l r bs Idle) (one_thread (a + 1) (l + n) (saturating_add r n) bs (Registered n))"
  using call_register [OF one_thread_simps(1), of limit a l r bs n]
    read_total [OF one_thread_simps(1), of limit a l r bs n]
    won_exchange [of "one_thread a l r bs (Comparing n r)" 0 n r limit]
    add_live_bytes [OF one_thread_simps(1), of limit a l "saturating_add r n" bs n]
    add_live_allocation [OF one_thread_simps(1), of limit a "l + n" "saturating_add r n" bs n]
  by (simp add: one_thread_simps converse_rtranclp_into_rtranclp)

lemma one_thread_release:
  "0 < n \<Longrightarrow> (heap_step limit)\<^sup>*\<^sup>* (one_thread a l r bs (Releasing n e)) (one_thread (a - 1) (l - n) (r - n) bs (returned e))"
  using sub_live_allocation [OF one_thread_simps(1), of limit a l r bs n e]
    sub_live_bytes [OF one_thread_simps(1), of limit "a - 1" l r bs n e]
    sub_resident [OF one_thread_simps(1), of limit "a - 1" "l - n" r bs n e]
  by (simp add: one_thread_simps converse_rtranclp_into_rtranclp)

lemma one_thread_box:
  "heap_step limit (one_thread a l r bs (Registered n)) (one_thread a l r (n # bs) Idle)"
  "heap_step limit (one_thread a l r bs (Registered n)) (one_thread a l r bs (Releasing n (Some (SystemAllocationFailed n))))"
  "heap_step limit (one_thread a l r bs (Failed e)) (one_thread a l r bs Idle)"
  "heap_step limit (one_thread a l r (n # bs) Idle) (one_thread a l r bs (Releasing n None))"
  using make_box [OF one_thread_simps(1), of limit a l r bs n] reservation_failed [OF one_thread_simps(1), of limit a l r bs n]
    return_error [OF one_thread_simps(1), of limit a l r bs e] drop_box [OF one_thread_simps(1), of n a l r "n # bs" limit]
  by (simp_all add: one_thread_simps)

text \<open>At the limit \<open>usize::MAX\<close> a failed reservation corrupts the account: with one box of 100 bytes
  live, a request for \<open>usize::MAX\<close> bytes passes the test because the sum saturates, the system refuses
  it, and after the box is dropped the resident counter stands 100 below zero with nothing left to charge.\<close>

lemma saturated_reservation_drifts:
  "(heap_step (- 1))\<^sup>*\<^sup>* (new_heap 1) (one_thread 0 0 (- 100) [] Idle)"
proof -
  have sat: "saturating_add 0 100 = 100" "saturating_add 100 (- 1) = - 1"
    by (simp_all add: saturating_add_def unsigned_minus_1_eq_mask mask_eq_exp_minus_1)
  have start: "new_heap 1 = one_thread 0 0 0 [] Idle" by (simp add: new_heap_def one_thread_def)
  have 1: "(heap_step (- 1))\<^sup>*\<^sup>* (one_thread 0 0 0 [] Idle) (one_thread 1 100 100 [100] Idle)"
    using rtranclp.rtrancl_into_rtrancl [OF one_thread_register [of 0 100 "- 1" 0 0 "[]"] one_thread_box(1)] by (simp add: sat)
  have 2: "(heap_step (- 1))\<^sup>*\<^sup>* (one_thread 1 100 100 [100] Idle) (one_thread 2 99 (- 1) [100] (Releasing (- 1) (Some (SystemAllocationFailed (- 1)))))"
    using rtranclp.rtrancl_into_rtrancl [OF one_thread_register [of 100 "- 1" "- 1" 1 100 "[100]"] one_thread_box(2)] by (simp add: sat)
  have 3: "(heap_step (- 1))\<^sup>*\<^sup>* (one_thread 2 99 (- 1) [100] (Releasing (- 1) (Some (SystemAllocationFailed (- 1))))) (one_thread 1 100 0 [100] Idle)"
  proof -
    have "(heap_step (- 1))\<^sup>*\<^sup>* (one_thread 2 99 (- 1) [100] (Releasing (- 1) (Some (SystemAllocationFailed (- 1)))))
        (one_thread 1 100 0 [100] (Failed (SystemAllocationFailed (- 1))))"
      using one_thread_release [of "- 1" "- 1" 2 99 "- 1" "[100]" "Some (SystemAllocationFailed (- 1))"] by (simp add: returned_def word_gt_0)
    from rtranclp.rtrancl_into_rtrancl [OF this one_thread_box(3)] show ?thesis .
  qed
  have 4: "(heap_step (- 1))\<^sup>*\<^sup>* (one_thread 1 100 0 [100] Idle) (one_thread 0 0 (- 100) [] Idle)"
    using converse_rtranclp_into_rtranclp [OF one_thread_box(4) one_thread_release [of 100 "- 1" 1 100 0 "[]" None]]
    by (simp add: returned_def word_gt_0)
  show ?thesis unfolding start using rtranclp_trans [OF rtranclp_trans [OF 1 2] rtranclp_trans [OF 3 4]] .
qed

end
