(* ===== verification/Routing.thy ===== *)
theory Routing
  imports Rust_Text Handles
begin

text \<open>
  The request router of the API package, \<open>src/packages/spectra-api/src/routing.rs\<close>: route patterns, the trie
  that holds the routes of all methods, the conflict check that guards an addition, and the lookup with its
  parameters. A hash map is an association list; where the source walks one, only the route a
  conflict message names depends on the order. \<open>segments[index..]\<close> is the list that is left. Schemas are
  values of \<open>serde_json\<close>, a type of their own here, with its parser and accessors as arguments.
\<close>

section \<open>Patterns\<close>

datatype route_method = Get | Head | Post | Put | Patch | Delete | Options

definition method_from_code :: "i64 \<Rightarrow> route_method option" where
  "method_from_code code = map_of [(1, Get), (2, Head), (3, Post), (4, Put), (5, Patch), (6, Delete), (7, Options)] (sint code)"

datatype route_segment = Literal rust_str | Param rust_str "rust_str option" | Wildcard rust_str

record route =
  rt_id :: i64
  rt_method :: route_method
  rt_pattern :: rust_str
  rt_segments :: "route_segment list"

type_synonym params = "(rust_str, rust_str) hash_map"

record route_match =
  route_id :: i64
  rm_params :: params

record route_conflict =
  rc_existing :: rust_str
  rc_candidate :: rust_str
  rc_message :: rust_str

datatype route_error = InvalidPattern rust_str | InvalidPath rust_str | Conflict route_conflict
  | InvalidSchema rust_str | InvalidStatusCode i64 | InvalidServers rust_str

definition is_valid_route_path_like :: "rust_str \<Rightarrow> bool" where
  "is_valid_route_path_like path \<longleftrightarrow> path \<noteq> [] \<and> hd path = ch CHR ''/'' \<and>
     \<not> list_ex (\<lambda>b. unat b \<le> 0x20 \<or> unat b = 0x7F) (as_bytes path)"

definition is_identifier :: "rust_str \<Rightarrow> bool" where
  "is_identifier name = (case name of
     [] \<Rightarrow> False
   | first # rest \<Rightarrow> (first = ch CHR ''_'' \<or> is_ascii_alphabetic first) \<and>
       list_all (\<lambda>c. c = ch CHR ''_'' \<or> is_ascii_alphanumeric c) rest)"

definition split_segments :: "rust_str \<Rightarrow> rust_str list" where
  "split_segments path = filter (\<lambda>s. s \<noteq> []) (split_on (ch CHR ''/'') (trim_matches (\<lambda>c. c = ch CHR ''/'') path))"

text \<open>One round of the loop in \<open>parse_pattern\<close>: \<open>None\<close> where it returns the error.\<close>

definition parse_segment :: "usize \<Rightarrow> rust_str \<Rightarrow> route_segment list \<Rightarrow> route_segment list option" where
  "parse_segment n s segments =
     (if hd s = ch CHR ''{'' \<or> last s = ch CHR ''}'' then
        (case Option.bind (strip_prefix (str ''{'') s) (strip_suffix (str ''}'')) of
           None \<Rightarrow> None
         | Some inner \<Rightarrow>
             (case (case split_once (ch CHR '':'') inner of Some (name, c) \<Rightarrow> (name, Some c) | None \<Rightarrow> (inner, None)) of (name, c) \<Rightarrow>
               if \<not> is_identifier name \<or> c = Some [] then None else Some (segments @ [Param name c])))
      else (case strip_prefix (str ''*'') s of
         Some name \<Rightarrow>
           if \<not> is_identifier name then None
           else if length (segments @ [Wildcard name]) \<noteq> n then None else Some (segments @ [Wildcard name])
       | None \<Rightarrow> Some (segments @ [Literal s])))"

fun parse_segments :: "usize \<Rightarrow> rust_str list \<Rightarrow> route_segment list \<Rightarrow> route_segment list option" where
  "parse_segments n [] segments = Some segments"
| "parse_segments n (s # rest) segments = (case parse_segment n s segments of
     None \<Rightarrow> None
   | Some segments' \<Rightarrow> parse_segments n rest segments')"

definition parse_pattern :: "rust_str \<Rightarrow> route_error + route_segment list" where
  "parse_pattern pattern =
     (if \<not> is_valid_route_path_like pattern then Inl (InvalidPattern pattern)
      else case parse_segments (length (split_segments pattern)) (split_segments pattern) [] of
        None \<Rightarrow> Inl (InvalidPattern pattern)
      | Some segments \<Rightarrow> Inr segments)"

definition parse_path :: "rust_str \<Rightarrow> route_error + rust_str list" where
  "parse_path path = (if \<not> is_valid_route_path_like path then Inl (InvalidPath path) else Inr (split_segments path))"

definition regex_like_matches :: "rust_str \<Rightarrow> rust_str \<Rightarrow> bool" where
  "regex_like_matches pattern0 v =
     (let stripped = (case strip_prefix (str ''^'') pattern0 of Some p \<Rightarrow> p | None \<Rightarrow> pattern0);
          pattern = (case strip_suffix (str ''$'') stripped of Some p \<Rightarrow> p | None \<Rightarrow> pattern0)
      in if pattern = 92 # str ''d+'' \<or> pattern = str ''[0-9]+'' then v \<noteq> [] \<and> list_all (\<lambda>b. is_ascii_digit (unat b)) (as_bytes v)
         else if pattern = 92 # str ''w+'' then v \<noteq> [] \<and> list_all (\<lambda>b. unat b = ch CHR ''_'' \<or> is_ascii_alphanumeric (unat b)) (as_bytes v)
         else if pattern = str ''[a-zA-Z]+'' then v \<noteq> [] \<and> list_all (\<lambda>b. is_ascii_alphabetic (unat b)) (as_bytes v)
         else if pattern = str ''.+'' then v \<noteq> []
         else pattern = v)"

section \<open>The trie\<close>

record wildcard_edge =
  we_name :: rust_str
  route_by_method :: "(route_method, i64) hash_map"

datatype route_node = RouteNode
    (literals: "(rust_str \<times> route_node) list")
    (param_of: "param_edge option")
    (wildcard_of: "wildcard_edge option")
    (handlers: "(route_method \<times> i64) list")
  and param_edge = ParamEdge (pe_name: rust_str) (pe_constraint: "rust_str option") (pe_node: route_node)

definition empty_node :: route_node where
  "empty_node = RouteNode [] None None []"

fun insert_route :: "route_node \<Rightarrow> route_method \<Rightarrow> route_segment list \<Rightarrow> i64 \<Rightarrow> route_node" where
  "insert_route (RouteNode ls p w hs) m [] rid = RouteNode ls p w (AList.update m rid hs)"
| "insert_route (RouteNode ls p w hs) m (Literal l # segs) rid =
     (let child = (case map_of ls l of Some c \<Rightarrow> c | None \<Rightarrow> empty_node)
      in RouteNode (AList.update l (insert_route child m segs rid) ls) p w hs)"
| "insert_route (RouteNode ls p w hs) m (Param name c # segs) rid =
     (let edge = (case p of Some e \<Rightarrow> e | None \<Rightarrow> ParamEdge name c empty_node)
      in RouteNode ls (Some (ParamEdge (pe_name edge) (pe_constraint edge) (insert_route (pe_node edge) m segs rid))) w hs)"
| "insert_route (RouteNode ls p w hs) m (Wildcard name # segs) rid =
     (let edge = (case w of Some e \<Rightarrow> e | None \<Rightarrow> \<lparr>we_name = name, route_by_method = []\<rparr>)
      in RouteNode ls p (Some (edge\<lparr>route_by_method := AList.update m rid (route_by_method edge)\<rparr>)) hs)"

lemma size_pe_node [termination_simp]: "size (pe_node e) < Suc (Suc (n + size e))"
  by (cases e) simp

fun subtree_has_method :: "route_node \<Rightarrow> route_method \<Rightarrow> bool" where
  "subtree_has_method (RouteNode ls p w hs) m \<longleftrightarrow>
     map_of hs m \<noteq> None \<or> list_ex (\<lambda>(l, child). subtree_has_method child m) ls \<or>
     (case p of None \<Rightarrow> False | Some e \<Rightarrow> subtree_has_method (pe_node e) m) \<or>
     (case w of None \<Rightarrow> False | Some e \<Rightarrow> map_of (route_by_method e) m \<noteq> None)"

definition or_else :: "'a option \<Rightarrow> 'a option \<Rightarrow> 'a option" where
  "or_else a b = (case a of Some x \<Rightarrow> Some x | None \<Rightarrow> b)"

fun find_map :: "('a \<Rightarrow> 'b option) \<Rightarrow> 'a list \<Rightarrow> 'b option" where
  "find_map f [] = None"
| "find_map f (x # xs) = or_else (f x) (find_map f xs)"

lemma find_map_congruence [fundef_cong]: "xs = ys \<Longrightarrow> (\<And>x. x \<in> set ys \<Longrightarrow> f x = g x) \<Longrightarrow> find_map f xs = find_map g ys"
  by (induction ys arbitrary: xs) auto

fun first_route_for_method :: "route_node \<Rightarrow> route_method \<Rightarrow> i64 option" where
  "first_route_for_method (RouteNode ls p w hs) m =
     or_else (or_else (or_else (map_of hs m) (find_map (\<lambda>(l, child). first_route_for_method child m) ls))
       (case p of None \<Rightarrow> None | Some e \<Rightarrow> first_route_for_method (pe_node e) m))
       (case w of None \<Rightarrow> None | Some e \<Rightarrow> map_of (route_by_method e) m)"

definition constraints_overlap :: "rust_str option \<Rightarrow> rust_str option \<Rightarrow> bool" where
  "constraints_overlap l r \<longleftrightarrow> l = None \<or> r = None \<or> l = r"

definition show_i64 :: "i64 \<Rightarrow> rust_str" where
  "show_i64 v = (if sint v < 0 then str ''-'' else []) @ str (decimal (nat \<bar>sint v\<bar>))"

type_synonym routes = "(i64, route) hash_map"

definition conflict :: "routes \<Rightarrow> i64 \<Rightarrow> rust_str \<Rightarrow> string \<Rightarrow> route_error" where
  "conflict rs rid candidate msg = Conflict \<lparr>
     rc_existing = (case map_of rs rid of Some r \<Rightarrow> rt_pattern r | None \<Rightarrow> str ''#'' @ show_i64 rid),
     rc_candidate = candidate, rc_message = str msg\<rparr>"

definition first_route :: "route_node \<Rightarrow> route_method \<Rightarrow> i64" where
  "first_route node m = (case first_route_for_method node m of Some rid \<Rightarrow> rid | None \<Rightarrow> 0)"

definition wildcard_route :: "route_node \<Rightarrow> route_method \<Rightarrow> i64 option" where
  "wildcard_route node m = Option.bind (wildcard_of node) (\<lambda>e. map_of (route_by_method e) m)"

definition wildcard_conflict :: "route_node \<Rightarrow> routes \<Rightarrow> route_method \<Rightarrow> rust_str \<Rightarrow> string \<Rightarrow> route_error option" where
  "wildcard_conflict node rs m candidate msg = map_option (\<lambda>rid. conflict rs rid candidate msg) (wildcard_route node m)"

text \<open>\<open>None\<close> is \<open>Ok(())\<close>; \<open>or_else\<close> is the question mark: the first error is the result.\<close>

fun detect_conflict :: "route_node \<Rightarrow> routes \<Rightarrow> route_method \<Rightarrow> route_segment list \<Rightarrow> rust_str \<Rightarrow> route_error option" where
  "detect_conflict node rs m [] candidate =
     or_else (map_option (\<lambda>rid. conflict rs rid candidate ''duplicate route'') (map_of (handlers node) m))
       (wildcard_conflict node rs m candidate ''wildcard route already captures this path'')"
| "detect_conflict node rs m (Literal l # segs) candidate =
     or_else (case param_of node of
         None \<Rightarrow> None
       | Some e \<Rightarrow> if subtree_has_method (pe_node e) m
           then Some (conflict rs (first_route (pe_node e) m) candidate ''literal route overlaps an existing parameter route'') else None)
     (or_else (wildcard_conflict node rs m candidate ''literal route overlaps an existing wildcard route'')
       (case map_of (literals node) l of None \<Rightarrow> None | Some child \<Rightarrow> detect_conflict child rs m segs candidate))"
| "detect_conflict node rs m (Param name c # segs) candidate =
     or_else (find_map (\<lambda>(l, child). if subtree_has_method child m
         then Some (conflict rs (first_route child m) candidate ''parameter route overlaps an existing literal route'') else None) (literals node))
     (or_else (case param_of node of
         None \<Rightarrow> None
       | Some e \<Rightarrow>
           let shares_edge = (pe_name e = name \<and> pe_constraint e = c)
           in if \<not> shares_edge \<and> constraints_overlap (pe_constraint e) c \<and> subtree_has_method (pe_node e) m
              then Some (conflict rs (first_route (pe_node e) m) candidate ''parameter route overlaps an existing parameter route'')
              else detect_conflict (pe_node e) rs m segs candidate)
       (wildcard_conflict node rs m candidate ''parameter route overlaps an existing wildcard route''))"
| "detect_conflict node rs m (Wildcard name # segs) candidate =
     (if subtree_has_method node m
      then Some (conflict rs (first_route node m) candidate ''wildcard route overlaps an existing route'') else None)"

section \<open>Lookup\<close>

fun join :: "rust_str \<Rightarrow> rust_str list \<Rightarrow> rust_str" where
  "join sep [] = []"
| "join sep [s] = s"
| "join sep (s # t # ss) = s @ sep @ join sep (t # ss)"

definition satisfies :: "rust_str option \<Rightarrow> rust_str \<Rightarrow> bool" where
  "satisfies c s = (case c of None \<Rightarrow> True | Some pattern \<Rightarrow> regex_like_matches pattern s)"

definition try_next :: "i64 option \<times> params \<Rightarrow> (params \<Rightarrow> i64 option \<times> params) \<Rightarrow> i64 option \<times> params" where
  "try_next r k = (case r of (Some rid, ps) \<Rightarrow> (Some rid, ps) | (None, ps) \<Rightarrow> k ps)"

fun match_node :: "route_node \<Rightarrow> route_method \<Rightarrow> rust_str list \<Rightarrow> params \<Rightarrow> i64 option \<times> params" where
  "match_node node m [] ps = (map_of (handlers node) m, ps)"
| "match_node node m (s # path) ps =
     try_next (case map_of (literals node) s of None \<Rightarrow> (None, ps) | Some child \<Rightarrow> match_node child m path ps) (\<lambda>ps.
     try_next (case param_of node of
         None \<Rightarrow> (None, ps)
       | Some e \<Rightarrow> if satisfies (pe_constraint e) s
           then try_next (match_node (pe_node e) m path (AList.update (pe_name e) s ps)) (\<lambda>ps. (None, AList.delete (pe_name e) ps))
           else (None, ps)) (\<lambda>ps.
     (case wildcard_of node of
        None \<Rightarrow> (None, ps)
      | Some e \<Rightarrow> (case map_of (route_by_method e) m of
          None \<Rightarrow> (None, ps)
        | Some rid \<Rightarrow> (Some rid, AList.update (we_name e) (join (str ''/'') (s # path)) ps)))))"

section \<open>The router\<close>

record 'v router =
  rr_routes :: routes
  rr_root :: route_node
  request_schemas :: "(route_method \<times> rust_str, 'v) hash_map"
  response_schemas :: "(route_method \<times> rust_str, (16 word, 'v) hash_map) hash_map"
  rr_servers :: "rust_str list"

definition new_router :: "'v router" where
  "new_router = \<lparr>rr_routes = [], rr_root = empty_node, request_schemas = [], response_schemas = [], rr_servers = []\<rparr>"

text \<open>The table of route handles is shared by all routers; \<open>None\<close> is a panic of the table.\<close>

definition next_route_id :: "route_method \<Rightarrow> route_method handle_table \<Rightarrow> (route_method handle_table \<times> i64) option" where
  "next_route_id m t = map_option (\<lambda>(t', h). (t', raw h)) (insert_value m t)"

definition add_route :: "route_method \<Rightarrow> rust_str \<Rightarrow> 'v router \<Rightarrow> route_method handle_table \<Rightarrow>
    ((route_error + i64) \<times> 'v router \<times> route_method handle_table) option" where
  "add_route m pattern r t = (case parse_pattern pattern of
     Inl e \<Rightarrow> Some (Inl e, r, t)
   | Inr segments \<Rightarrow> (case detect_conflict (rr_root r) (rr_routes r) m segments pattern of
       Some e \<Rightarrow> Some (Inl e, r, t)
     | None \<Rightarrow> map_option (\<lambda>(t', rid). (Inr rid,
         r\<lparr>rr_root := insert_route (rr_root r) m segments rid,
           rr_routes := AList.update rid \<lparr>rt_id = rid, rt_method = m, rt_pattern = pattern, rt_segments = segments\<rparr> (rr_routes r)\<rparr>,
         t')) (next_route_id m t)))"

definition route_count :: "'v router \<Rightarrow> usize" where
  "route_count r = length (rr_routes r)"

definition path_only :: "rust_str \<Rightarrow> rust_str" where
  "path_only p = takeWhile (\<lambda>c. c \<noteq> ch CHR ''?'' \<and> c \<noteq> ch CHR ''#'') p"

definition match_path :: "'v router \<Rightarrow> route_method \<Rightarrow> rust_str \<Rightarrow> route_error + route_match option" where
  "match_path r m p = (case parse_path (path_only p) of
     Inl e \<Rightarrow> Inl e
   | Inr segments \<Rightarrow> Inr (case match_node (rr_root r) m segments [] of
       (Some rid, ps) \<Rightarrow> Some \<lparr>route_id = rid, rm_params = ps\<rparr>
     | (None, ps) \<Rightarrow> None))"

definition same_template :: "route_segment \<Rightarrow> route_segment \<Rightarrow> bool" where
  "same_template a b = (case (a, b) of
     (Param x _, Param y _) \<Rightarrow> x = y | (Wildcard x, Wildcard y) \<Rightarrow> x = y | (Literal x, Literal y) \<Rightarrow> x = y | _ \<Rightarrow> False)"

definition matches_template :: "route_method \<Rightarrow> route_segment list \<Rightarrow> route \<Rightarrow> bool" where
  "matches_template m segments r \<longleftrightarrow> rt_method r = m \<and> length (rt_segments r) = length segments \<and>
     list_all (\<lambda>(a, b). same_template a b) (zip (rt_segments r) segments)"

definition registered_pattern :: "'v router \<Rightarrow> route_method \<Rightarrow> route_segment list \<Rightarrow> rust_str option" where
  "registered_pattern r m segments = map_option rt_pattern (find (matches_template m segments) (map snd (rr_routes r)))"

definition set_request_schema :: "(rust_str \<Rightarrow> rust_str + 'v) \<Rightarrow> route_method \<Rightarrow> rust_str \<Rightarrow> rust_str \<Rightarrow> 'v router \<Rightarrow>
    (route_error + bool) \<times> 'v router" where
  "set_request_schema from_json m path_template json_schema r = (case from_json json_schema of
     Inl e \<Rightarrow> (Inl (InvalidSchema e), r)
   | Inr schema \<Rightarrow> (case parse_pattern path_template of
       Inl e \<Rightarrow> (Inl e, r)
     | Inr segments \<Rightarrow> (case registered_pattern r m segments of
         Some p \<Rightarrow> (Inr True, r\<lparr>request_schemas := AList.update (m, p) schema (request_schemas r)\<rparr>)
       | None \<Rightarrow> (Inr False, r))))"

definition set_response_schema :: "(rust_str \<Rightarrow> rust_str + 'v) \<Rightarrow> route_method \<Rightarrow> rust_str \<Rightarrow> i64 \<Rightarrow> rust_str \<Rightarrow> 'v router \<Rightarrow>
    (route_error + bool) \<times> 'v router" where
  "set_response_schema from_json m path_template status json_schema r =
     (if \<not> (100 \<le> sint status \<and> sint status \<le> 599) then (Inl (InvalidStatusCode status), r)
      else case from_json json_schema of
        Inl e \<Rightarrow> (Inl (InvalidSchema e), r)
      | Inr schema \<Rightarrow> (case parse_pattern path_template of
          Inl e \<Rightarrow> (Inl e, r)
        | Inr segments \<Rightarrow> (case registered_pattern r m segments of
            Some p \<Rightarrow> (Inr True, r\<lparr>response_schemas :=
              AList.map_default (m, p) [(ucast status, schema)] (AList.update (ucast status) schema) (response_schemas r)\<rparr>)
          | None \<Rightarrow> (Inr False, r))))"

fun server_urls :: "('v \<Rightarrow> rust_str option) \<Rightarrow> 'v list \<Rightarrow> route_error + rust_str list" where
  "server_urls as_str [] = Inr []"
| "server_urls as_str (v # vs) = (case as_str v of
     None \<Rightarrow> Inl (InvalidServers (str ''each server must be a string URL''))
   | Some s \<Rightarrow> if trim s = [] then Inl (InvalidServers (str ''server URL must not be empty''))
       else (case server_urls as_str vs of Inl e \<Rightarrow> Inl e | Inr ss \<Rightarrow> Inr (s # ss)))"

definition set_servers :: "(rust_str \<Rightarrow> rust_str + 'v) \<Rightarrow> ('v \<Rightarrow> 'v list option) \<Rightarrow> ('v \<Rightarrow> rust_str option) \<Rightarrow>
    rust_str \<Rightarrow> 'v router \<Rightarrow> (route_error + unit) \<times> 'v router" where
  "set_servers from_json as_array as_str servers_json r = (case from_json servers_json of
     Inl e \<Rightarrow> (Inl (InvalidServers e), r)
   | Inr v \<Rightarrow> (case as_array v of
       None \<Rightarrow> (Inl (InvalidServers (str ''servers must be a JSON array'')), r)
     | Some vs \<Rightarrow> (case server_urls as_str vs of
         Inl e \<Rightarrow> (Inl e, r)
       | Inr ss \<Rightarrow> (Inr (), r\<lparr>rr_servers := ss\<rparr>))))"

end
