(* ===== verification/Routing_Correct.thy ===== *)
theory Routing_Correct
  imports Routing Handle_Store
begin

text \<open>
  What the router (theory \<open>Routing\<close>) promises. The routes of a trie are its paths (\<open>reaches\<close>); a conflict check
  that passes keeps the paths of one method apart, so that at most one of them fits a request, and the
  lookup, with its backtracking, finds exactly that one and the parameters it binds. This holds while the
  patterns that share a parameter edge agree on its name and constraint, which the conflict check does not
  ask for; the last section has what happens without.
\<close>

section \<open>Routes of a trie\<close>

inductive reaches :: "route_node \<Rightarrow> route_method \<Rightarrow> route_segment list \<Rightarrow> i64 \<Rightarrow> bool" where
  at_end: "map_of (handlers n) m = Some rid \<Longrightarrow> reaches n m [] rid"
| by_literal: "map_of (literals n) l = Some child \<Longrightarrow> reaches child m segs rid \<Longrightarrow> reaches n m (Literal l # segs) rid"
| by_param: "param_of n = Some e \<Longrightarrow> reaches (pe_node e) m segs rid \<Longrightarrow> reaches n m (Param (pe_name e) (pe_constraint e) # segs) rid"
| by_wildcard: "wildcard_of n = Some e \<Longrightarrow> map_of (route_by_method e) m = Some rid \<Longrightarrow> reaches n m [Wildcard (we_name e)] rid"

inductive_simps reaches_Nil [simp]: "reaches n m [] rid"
inductive_simps reaches_Literal [simp]: "reaches n m (Literal l # segs) rid"
inductive_simps reaches_Param [simp]: "reaches n m (Param x c # segs) rid"
inductive_simps reaches_Wildcard [simp]: "reaches n m (Wildcard x # segs) rid"

text \<open>When a pattern fits the segments of a path, and what it binds then.\<close>

fun fits :: "route_segment list \<Rightarrow> rust_str list \<Rightarrow> bool" where
  "fits [] [] = True"
| "fits (Literal l # segs) (s # path) \<longleftrightarrow> l = s \<and> fits segs path"
| "fits (Param x c # segs) (s # path) \<longleftrightarrow> satisfies c s \<and> fits segs path"
| "fits (Wildcard x # segs) (s # path) \<longleftrightarrow> segs = []"
| "fits _ _ = False"

fun bindings :: "route_segment list \<Rightarrow> rust_str list \<Rightarrow> params" where
  "bindings (Literal l # segs) (s # path) = bindings segs path"
| "bindings (Param x c # segs) (s # path) = (x, s) # bindings segs path"
| "bindings (Wildcard x # segs) path = [(x, join (str ''/'') path)]"
| "bindings _ _ = []"

fun parameter_names :: "route_segment list \<Rightarrow> rust_str list" where
  "parameter_names [] = []"
| "parameter_names (Literal l # segs) = parameter_names segs"
| "parameter_names (Param x c # segs) = x # parameter_names segs"
| "parameter_names (Wildcard x # segs) = x # parameter_names segs"

text \<open>The parameter names on each way down are different, and none is in \<open>S\<close>.\<close>

fun names_apart :: "route_node \<Rightarrow> rust_str set \<Rightarrow> bool" where
  "names_apart (RouteNode ls p w hs) S \<longleftrightarrow> list_all (\<lambda>(l, child). names_apart child S) ls \<and>
     (case p of None \<Rightarrow> True | Some e \<Rightarrow> pe_name e \<notin> S \<and> names_apart (pe_node e) (insert (pe_name e) S)) \<and>
     (case w of None \<Rightarrow> True | Some e \<Rightarrow> we_name e \<notin> S)"

lemma names_apart_iff: "names_apart n S \<longleftrightarrow> (\<forall>(l, child) \<in> set (literals n). names_apart child S) \<and>
     (case param_of n of None \<Rightarrow> True | Some e \<Rightarrow> pe_name e \<notin> S \<and> names_apart (pe_node e) (insert (pe_name e) S)) \<and>
     (case wildcard_of n of None \<Rightarrow> True | Some e \<Rightarrow> we_name e \<notin> S)"
  by (cases n) (auto simp: list_all_iff)

section \<open>The lookup\<close>

lemma update_new: "k \<notin> fst ` set ps \<Longrightarrow> AList.update k v ps = ps @ [(k, v)]"
  by (induction ps) auto

lemma delete_new: "k \<notin> fst ` set ps \<Longrightarrow> AList.delete k (ps @ [(k, v)]) = ps"
  by (induction ps) (auto simp: AList.delete_eq)

lemma try_next_eq: "try_next r k = (if fst r = None then k (snd r) else r)"
  by (cases r) (auto simp: try_next_def split: option.splits)

text \<open>Backtracking leaves no parameters behind, and a route is found if there is one that fits.\<close>

definition found :: "route_node \<Rightarrow> route_method \<Rightarrow> rust_str list \<Rightarrow> params \<Rightarrow> i64 option \<times> params \<Rightarrow> bool" where
  "found n m path ps r \<longleftrightarrow>
     (\<exists>segs rid. reaches n m segs rid \<and> fits segs path \<and> r = (Some rid, ps @ bindings segs path)) \<or>
     (\<forall>segs rid. reaches n m segs rid \<longrightarrow> \<not> fits segs path) \<and> r = (None, ps)"

lemma foundI: "reaches n m segs rid \<Longrightarrow> fits segs path \<Longrightarrow> r = (Some rid, ps @ bindings segs path) \<Longrightarrow> found n m path ps r"
  unfolding found_def by blast

lemma not_foundI: "(\<And>segs rid. reaches n m segs rid \<Longrightarrow> \<not> fits segs path) \<Longrightarrow> r = (None, ps) \<Longrightarrow> found n m path ps r"
  unfolding found_def by blast

lemma found_cases:
  assumes "found n m path ps r"
  obtains segs rid where "reaches n m segs rid" "fits segs path" "r = (Some rid, ps @ bindings segs path)"
    | "\<And>segs rid. reaches n m segs rid \<Longrightarrow> \<not> fits segs path" "r = (None, ps)"
  using assms unfolding found_def by blast

lemma fits_Cons: "fits segs (s # path) \<longleftrightarrow>
    (\<exists>l t. segs = Literal l # t \<and> l = s \<and> fits t path) \<or> (\<exists>x c t. segs = Param x c # t \<and> satisfies c s \<and> fits t path) \<or>
    (\<exists>x. segs = [Wildcard x])"
  by (cases "(segs, s # path)" rule: fits.cases) auto

lemma fits_Nil: "fits segs [] \<longleftrightarrow> segs = []"
  by (cases segs) (auto split: list.splits elim: fits.elims)

lemma match_node_found:
  assumes "names_apart n (fst ` set ps)"
  shows "found n m path ps (match_node n m path ps)"
  using assms
proof (induction path arbitrary: n ps)
  case Nil
  show ?case by (cases "map_of (handlers n) m") (auto simp: found_def fits_Nil)
next
  case (Cons s path)
  define lit where "lit = (case map_of (literals n) s of None \<Rightarrow> (None, ps) | Some child \<Rightarrow> match_node child m path ps)"
  define par_at where "par_at = (\<lambda>ps. case param_of n of
         None \<Rightarrow> (None, ps)
       | Some e \<Rightarrow> if satisfies (pe_constraint e) s
           then try_next (match_node (pe_node e) m path (AList.update (pe_name e) s ps)) (\<lambda>ps. (None, AList.delete (pe_name e) ps))
           else (None, ps))"
  define par where "par = par_at ps"
  have lit: "(\<exists>segs rid. reaches n m (Literal s # segs) rid \<and> fits segs path \<and> lit = (Some rid, ps @ bindings segs path)) \<or>
     (\<forall>segs rid. reaches n m (Literal s # segs) rid \<longrightarrow> \<not> fits segs path) \<and> lit = (None, ps)"
  proof (cases "map_of (literals n) s")
    case None
    then show ?thesis by (simp add: lit_def)
  next
    case (Some child)
    then have "names_apart child (fst ` set ps)" using Cons.prems by (auto simp: names_apart_iff [of n] dest: map_of_SomeD)
    from Cons.IH [OF this] Some show ?thesis by (simp add: lit_def found_def)
  qed
  have par: "(\<exists>x c segs rid. reaches n m (Param x c # segs) rid \<and> satisfies c s \<and> fits segs path \<and> par = (Some rid, ps @ (x, s) # bindings segs path)) \<or>
     (\<forall>x c segs rid. reaches n m (Param x c # segs) rid \<longrightarrow> satisfies c s \<longrightarrow> \<not> fits segs path) \<and> par = (None, ps)"
  proof (cases "param_of n")
    case None
    then show ?thesis by (simp add: par_def par_at_def)
  next
    case (Some e)
    then have e: "pe_name e \<notin> fst ` set ps" "names_apart (pe_node e) (fst ` set (ps @ [(pe_name e, s)]))"
      using Cons.prems by (simp_all add: names_apart_iff [of n])
    from Cons.IH [OF e(2)] show ?thesis
      using Some e(1) by (cases rule: found_cases) (auto simp: par_def par_at_def try_next_def update_new delete_new)
  qed
  have "match_node n m (s # path) ps = try_next lit (\<lambda>ps. try_next (par_at ps) (\<lambda>ps.
     (case wildcard_of n of
        None \<Rightarrow> (None, ps)
      | Some e \<Rightarrow> (case map_of (route_by_method e) m of
          None \<Rightarrow> (None, ps)
        | Some rid \<Rightarrow> (Some rid, AList.update (we_name e) (join (str ''/'') (s # path)) ps)))))"
    unfolding match_node.simps lit_def par_at_def ..
  then have step: "match_node n m (s # path) ps = (if fst lit \<noteq> None then lit else if fst par \<noteq> None then par else
     (case wildcard_of n of
        None \<Rightarrow> (None, ps)
      | Some e \<Rightarrow> (case map_of (route_by_method e) m of
          None \<Rightarrow> (None, ps)
        | Some rid \<Rightarrow> (Some rid, AList.update (we_name e) (join (str ''/'') (s # path)) ps))))"
    using lit par by (auto simp: try_next_eq par_def [symmetric] simp del: match_node.simps cong: option.case_cong)
  show ?case
  proof (cases "fst lit")
    case (Some rid)
    with lit obtain segs where "reaches n m (Literal s # segs) rid" "fits segs path" "lit = (Some rid, ps @ bindings segs path)" by auto
    with step Some show ?thesis by (intro foundI [of n m "Literal s # segs" rid]) simp_all
  next
    case None
    show ?thesis
    proof (cases "fst par")
      case (Some rid)
      with par obtain x c segs where "reaches n m (Param x c # segs) rid" "satisfies c s" "fits segs path"
        "par = (Some rid, ps @ (x, s) # bindings segs path)" by auto
      with step None Some show ?thesis by (intro foundI [of n m "Param x c # segs" rid]) simp_all
    next
      case no_par: None
      have none: "\<not> fits segs (s # path)" if "reaches n m segs rid" "\<And>x. segs \<noteq> [Wildcard x]" for segs rid
        using lit par None no_par that unfolding fits_Cons by (metis fst_conv option.distinct(1))
      show ?thesis
      proof (cases "wildcard_route n m")
        case no_wild: None
        then have "\<And>x rid. \<not> reaches n m [Wildcard x] rid" by (auto simp: wildcard_route_def)
        with none have "\<And>segs rid. reaches n m segs rid \<Longrightarrow> \<not> fits segs (s # path)" by metis
        with step None no_par no_wild show ?thesis
          by (intro not_foundI) (auto simp: wildcard_route_def split: option.splits bind_splits)
      next
        case (Some rid)
        then obtain e where e: "wildcard_of n = Some e" "map_of (route_by_method e) m = Some rid" by (auto simp: wildcard_route_def split: bind_splits)
        then have "we_name e \<notin> fst ` set ps" using Cons.prems by (simp add: names_apart_iff [of n])
        with e step None no_par show ?thesis by (intro foundI [of n m "[Wildcard (we_name e)]" rid]) (simp_all add: update_new)
      qed
    qed
  qed
qed

section \<open>The conflict check\<close>

text \<open>Patterns that part at a literal, or of which one ends where the other goes on.\<close>

fun apart :: "route_segment list \<Rightarrow> route_segment list \<Rightarrow> bool" where
  "apart [] (Literal l # t) = True"
| "apart [] (Param x c # t) = True"
| "apart (Literal l # s) [] = True"
| "apart (Param x c # s) [] = True"
| "apart (Literal l # s) (Literal l' # t) \<longleftrightarrow> l \<noteq> l' \<or> apart s t"
| "apart (Param x c # s) (Param x' c' # t) \<longleftrightarrow> apart s t"
| "apart _ _ = False"

lemma apart_irrefl: "\<not> apart s s"
proof (induction s)
  case (Cons a s)
  then show ?case by (cases a) simp_all
qed simp

lemma apart_sym: "apart s t \<Longrightarrow> apart t s"
  by (induction s t rule: apart.induct) auto

lemma apart_fits: "apart s t \<Longrightarrow> fits s path \<Longrightarrow> \<not> fits t path"
proof (induction s t arbitrary: path rule: apart.induct)
  case (5 l s l' t)
  then show ?case by (cases path) auto
next
  case (6 x c s x' c' t)
  then show ?case by (cases path) auto
qed (auto simp: fits_Nil elim: fits.elims)

lemma reaches_has_method: "reaches n m segs rid \<Longrightarrow> subtree_has_method n m"
proof (induction rule: reaches.induct)
  case (by_literal n l child m segs rid)
  then show ?case by (cases n) (auto simp: list_ex_iff dest!: map_of_SomeD)
next
  case (by_param n e m segs rid)
  then show ?case by (cases n) auto
next
  case (by_wildcard n e m rid)
  then show ?case by (cases n) auto
next
  case (at_end n m rid)
  then show ?case by (cases n) auto
qed

lemma or_else_None [simp]: "or_else a b = None \<longleftrightarrow> a = None \<and> b = None"
  by (simp add: or_else_def split: option.splits)

lemma find_map_None: "find_map f xs = None \<longleftrightarrow> (\<forall>x \<in> set xs. f x = None)"
  by (induction xs) auto

lemma wildcard_conflict_None: "wildcard_conflict n rs m c msg = None \<longleftrightarrow> wildcard_route n m = None"
  by (simp add: wildcard_conflict_def)

lemma no_wildcard_route: "wildcard_route n m = None \<Longrightarrow> \<not> reaches n m (Wildcard x # t) rid"
  by (auto simp: wildcard_route_def)

lemma no_conflict_apart:
  "detect_conflict n rs m segs candidate = None \<Longrightarrow> reaches n m t rid \<Longrightarrow> apart segs t"
proof (induction n rs m segs candidate arbitrary: t rule: detect_conflict.induct)
  case (1 n rs m candidate)
  then show ?case
    by (cases t rule: parameter_names.cases) (auto simp: wildcard_conflict_None dest: no_wildcard_route)
next
  case (2 n rs m l segs candidate)
  show ?case
  proof (cases t rule: parameter_names.cases)
    case (3 x c t')
    with 2 show ?thesis by (auto dest: reaches_has_method split: if_splits)
  next
    case (4 x t')
    with 2 no_wildcard_route show ?thesis by (auto simp: wildcard_conflict_None)
  qed (use 2 in auto)
next
  case (3 n rs m x c segs candidate)
  show ?case
  proof (cases t rule: parameter_names.cases)
    case (2 l t')
    with 3(3) obtain child where "map_of (literals n) l = Some child" "reaches child m t' rid" by auto
    with 3(2) show ?thesis by (auto simp: find_map_None dest!: map_of_SomeD reaches_has_method)
  next
    case (3 x' c' t')
    with \<open>reaches n m t rid\<close> obtain e where e: "param_of n = Some e" "reaches (pe_node e) m t' rid" by auto
    with 3 \<open>detect_conflict n rs m (Param x c # segs) candidate = None\<close> show ?thesis
      using "3.IH" by (auto simp: Let_def split: if_splits)
  next
    case (4 x' t')
    with 3 no_wildcard_route show ?thesis by (auto simp: wildcard_conflict_None)
  qed simp
next
  case (4 n rs m x segs candidate)
  then show ?case using reaches_has_method by (auto split: if_splits)
qed

section \<open>Additions\<close>

text \<open>The pattern names the edges it shares with earlier patterns as they do.\<close>

fun agrees :: "route_node \<Rightarrow> route_segment list \<Rightarrow> bool" where
  "agrees n [] = True"
| "agrees n (Literal l # segs) = (case map_of (literals n) l of None \<Rightarrow> True | Some child \<Rightarrow> agrees child segs)"
| "agrees n (Param x c # segs) = (case param_of n of
     None \<Rightarrow> True | Some e \<Rightarrow> pe_name e = x \<and> pe_constraint e = c \<and> agrees (pe_node e) segs)"
| "agrees n (Wildcard x # segs) = (case wildcard_of n of None \<Rightarrow> True | Some e \<Rightarrow> we_name e = x)"

fun wildcard_last :: "route_segment list \<Rightarrow> bool" where
  "wildcard_last [] = True"
| "wildcard_last (Wildcard x # segs) \<longleftrightarrow> segs = []"
| "wildcard_last (_ # segs) = wildcard_last segs"

lemma empty_reaches [simp]: "\<not> reaches empty_node m segs rid"
  by (cases segs rule: parameter_names.cases) (auto simp: empty_node_def)

lemma agrees_empty [simp]: "agrees empty_node segs"
  by (cases segs rule: parameter_names.cases) (simp_all add: empty_node_def)

lemma reaches_insert:
  "agrees n segs \<Longrightarrow> wildcard_last segs \<Longrightarrow>
   reaches (insert_route n m segs rid) m' t rid' \<longleftrightarrow> (if m' = m \<and> t = segs then rid' = rid else reaches n m' t rid')"
proof (induction n m segs rid arbitrary: t rule: insert_route.induct)
  case (1 ls p w hs m rid)
  show ?case by (cases t rule: parameter_names.cases) (auto simp: AList.update_conv')
next
  case (2 ls p w hs m l segs rid)
  have a: "agrees (case map_of ls l of Some c \<Rightarrow> c | None \<Rightarrow> empty_node) segs" "wildcard_last segs"
    using 2(2,3) by (auto split: option.splits)
  show ?case
    by (cases t rule: parameter_names.cases)
      (use 2(1) [OF refl a] in \<open>auto simp: Let_def AList.update_conv' split: option.splits if_splits\<close>)
next
  case (3 ls p w hs m x c segs rid)
  have a: "agrees (pe_node (case p of Some e \<Rightarrow> e | None \<Rightarrow> ParamEdge x c empty_node)) segs" "wildcard_last segs"
    using 3(2,3) by (auto split: option.splits)
  show ?case
    by (cases t rule: parameter_names.cases)
      (use 3(1) [OF refl a] 3(2) in \<open>auto simp: Let_def split: option.splits if_splits\<close>)
next
  case (4 ls p w hs m x segs rid)
  then show ?case
    by (cases t rule: parameter_names.cases) (auto simp: Let_def AList.update_conv' split: option.splits if_splits)
qed

lemma set_update_subset: "set (AList.update k v al) \<subseteq> insert (k, v) (set al)"
  by (induction al) auto

lemma names_apart_empty [simp]: "names_apart empty_node S"
  by (simp add: empty_node_def)

lemma names_apart_insert:
  "names_apart n S \<Longrightarrow> distinct (parameter_names segs) \<Longrightarrow> set (parameter_names segs) \<inter> S = {} \<Longrightarrow> agrees n segs \<Longrightarrow>
   names_apart (insert_route n m segs rid) S"
proof (induction n m segs rid arbitrary: S rule: insert_route.induct)
  case (2 ls p w hs m l segs rid)
  let ?child = "case map_of ls l of Some c \<Rightarrow> c | None \<Rightarrow> empty_node"
  have "names_apart ?child S" "agrees ?child segs"
    using 2(2,5) by (auto simp: list_all_iff split: option.splits dest!: map_of_SomeD)
  then have "names_apart (insert_route ?child m segs rid) S" using 2(1) [OF refl] 2(3,4) by simp
  with 2(2) show ?case using set_update_subset [of l "insert_route ?child m segs rid" ls] by (auto simp: Let_def list_all_iff)
next
  case (3 ls p w hs m x c segs rid)
  let ?e = "case p of Some e \<Rightarrow> e | None \<Rightarrow> ParamEdge x c empty_node"
  have e: "pe_name ?e = x" "names_apart (pe_node ?e) (insert x S)" "agrees (pe_node ?e) segs"
    using 3(2,5) by (auto split: option.splits)
  then have "names_apart (insert_route (pe_node ?e) m segs rid) (insert x S)" using 3(1) [OF refl] 3(3,4) by simp
  with 3(2,4) e(1) show ?case by (simp add: Let_def)
next
  case (4 ls p w hs m x segs rid)
  then show ?case by (auto simp: Let_def split: option.splits)
qed simp

lemma parse_segments_wildcard_last:
  "parse_segments n ss segs = Some segs' \<Longrightarrow> length segs + length ss = n \<Longrightarrow>
   (\<forall>s \<in> set (butlast segs). \<forall>x. s \<noteq> Wildcard x) \<Longrightarrow> (ss \<noteq> [] \<Longrightarrow> \<forall>s \<in> set segs. \<forall>x. s \<noteq> Wildcard x) \<Longrightarrow>
   \<forall>s \<in> set (butlast segs'). \<forall>x. s \<noteq> Wildcard x"
proof (induction n ss segs rule: parse_segments.induct)
  case (2 n s rest segs)
  then obtain seg where seg: "parse_segment n s segs = Some (segs @ [seg])" "parse_segments n rest (segs @ [seg]) = Some segs'"
    by (auto simp: parse_segment_def Let_def split: option.splits if_splits prod.splits)
  have "rest = []" if "seg = Wildcard x" for x
    using seg(1) 2(3) that by (auto simp: parse_segment_def Let_def split: option.splits if_splits prod.splits)
  moreover have "\<forall>s \<in> set segs. \<forall>x. s \<noteq> Wildcard x" using "2.prems"(4) by simp
  ultimately show ?case using "2.prems"(2) by (intro "2.IH" [OF seg]) auto
qed simp

lemma wildcard_last_iff: "wildcard_last segs \<longleftrightarrow> (\<forall>s \<in> set (butlast segs). \<forall>x. s \<noteq> Wildcard x)"
  by (induction segs rule: wildcard_last.induct) auto

lemma parse_pattern_wildcard_last: "parse_pattern p = Inr segs \<Longrightarrow> wildcard_last segs"
  unfolding wildcard_last_iff
  by (rule parse_segments_wildcard_last [of "length (split_segments p)" "split_segments p" "[]"])
    (auto simp: parse_pattern_def split: if_splits option.splits)

section \<open>Routers\<close>

text \<open>A router and the shared handle table after any additions, here and to other routers.\<close>

inductive built :: "'v router \<Rightarrow> route_method handle_table \<Rightarrow> bool" where
  fresh: "built new_router (new_table (HandleKind 44))"
| elsewhere: "built r t \<Longrightarrow> room_for 1 t \<Longrightarrow> next_route_id m t = Some (t', rid) \<Longrightarrow> built r t'"
| added: "built r t \<Longrightarrow> room_for 1 t \<Longrightarrow> add_route m p r t = Some (Inr rid, r', t') \<Longrightarrow> parse_pattern p = Inr segs \<Longrightarrow>
    agrees (rr_root r) segs \<Longrightarrow> distinct (parameter_names segs) \<Longrightarrow> built r' t'"

text \<open>A handle a table has given out, and its raw form.\<close>

definition issued :: "route_method handle_table \<Rightarrow> i64 \<Rightarrow> bool" where
  "issued t rid \<longleftrightarrow> (\<exists>h. rid = raw h \<and> lookup_handle t h \<noteq> None)"

lemma live_well_formed:
  assumes "table_ok t" "ht_kind t = HandleKind 44" "lookup_handle t h \<noteq> None"
  shows "well_formed_handle h"
proof -
  have h: "h_kind h = HandleKind 44" "unat (h_slot h) < max_slots" "h_generation h \<noteq> 0"
    using assms nth_mem [of "unat (h_slot h)" "ht_slots t"]
    by (auto simp: lookup_handle_eq addressed_def table_ok_def split: if_splits)
  have "unat (- 1 :: 32 word) = max_slots" by (simp add: max_slots_def unsigned_minus_1_eq_mask mask_eq_exp_minus_1)
  with h(2) have "h_slot h \<noteq> - 1" by auto
  moreover have "kind_from_raw 44 = Some (HandleKind 44)" by code_simp
  ultimately show ?thesis using h by (simp add: well_formed_handle_def)
qed

lemma next_route_id_fresh:
  assumes "table_ok t" "ht_kind t = HandleKind 44" "room_for 1 t" "next_route_id m t = Some (t', rid)"
  shows "table_ok t'" "ht_kind t' = HandleKind 44" "\<not> issued t rid" "issued t' rid" "issued t x \<Longrightarrow> issued t' x"
proof -
  obtain h where i: "insert_value m t = Some (t', h)" "rid = raw h" using assms(4) by (auto simp: next_route_id_def)
  have h: "rid = raw h" "table_ok t'" "lookup_handle t h = None" "lookup_handle t' = (lookup_handle t)(h \<mapsto> m)" "ht_kind t' = HandleKind 44"
    using i assms(2) by (auto intro: insert_value_ok [OF assms(1,3), of m])
  then show "table_ok t'" "ht_kind t' = HandleKind 44" "issued t' rid" "issued t x \<Longrightarrow> issued t' x" by (auto simp: issued_def)
  show "\<not> issued t rid"
  proof
    assume "issued t rid"
    then obtain g where g: "raw h = raw g" "lookup_handle t g \<noteq> None" using h(1) by (auto simp: issued_def)
    have "well_formed_handle h" "well_formed_handle g"
      using live_well_formed [OF h(2,5)] live_well_formed [OF assms(1,2)] g(2) h(4) by auto
    then have "h = g" using from_raw_raw g(1) by (metis sum.inject(2))
    with g(2) h(3) show False by simp
  qed
qed

definition router_ok :: "'v router \<Rightarrow> route_method handle_table \<Rightarrow> bool" where
  "router_ok r t \<longleftrightarrow> table_ok t \<and> ht_kind t = HandleKind 44 \<and> names_apart (rr_root r) {} \<and>
     distinct (map fst (rr_routes r)) \<and>
     (\<forall>(rid, route) \<in> set (rr_routes r). issued t rid \<and> rt_id route = rid) \<and>
     (\<forall>m segs rid. reaches (rr_root r) m segs rid \<longleftrightarrow>
        (\<exists>route. map_of (rr_routes r) rid = Some route \<and> rt_method route = m \<and> rt_segments route = segs)) \<and>
     (\<forall>m s i t j. reaches (rr_root r) m s i \<longrightarrow> reaches (rr_root r) m t j \<longrightarrow> s = t \<and> i = j \<or> apart s t)"

lemma router_okD:
  assumes "router_ok r t"
  shows "table_ok t" "ht_kind t = HandleKind 44" "names_apart (rr_root r) {}" "distinct (map fst (rr_routes r))"
    "(rid, route) \<in> set (rr_routes r) \<Longrightarrow> issued t rid \<and> rt_id route = rid"
    "reaches (rr_root r) m segs rid \<longleftrightarrow>
        (\<exists>route. map_of (rr_routes r) rid = Some route \<and> rt_method route = m \<and> rt_segments route = segs)"
    "reaches (rr_root r) m s i \<Longrightarrow> reaches (rr_root r) m u j \<Longrightarrow> s = u \<and> i = j \<or> apart s u"
  using assms unfolding router_ok_def by (auto simp del: split_paired_All)

lemma add_route_ok:
  assumes ok: "router_ok r t" "room_for 1 t" and add: "add_route m p r t = Some (Inr rid, r', t')"
    and segs: "parse_pattern p = Inr segs" "agrees (rr_root r) segs" "distinct (parameter_names segs)"
  shows "router_ok r' t'"
proof -
  let ?route = "\<lparr>rt_id = rid, rt_method = m, rt_pattern = p, rt_segments = segs\<rparr>"
  have nc: "detect_conflict (rr_root r) (rr_routes r) m segs p = None" and id: "next_route_id m t = Some (t', rid)"
    and root: "rr_root r' = insert_route (rr_root r) m segs rid" and routes: "rr_routes r' = AList.update rid ?route (rr_routes r)"
    using add segs(1) by (auto simp: add_route_def split: option.splits)
  note fresh = next_route_id_fresh [OF router_okD(1,2) [OF ok(1)] ok(2) id]
  have new: "rid \<notin> fst ` set (rr_routes r)" using fresh(3) router_okD(5) [OF ok(1)] by fastforce
  have appended: "rr_routes r' = rr_routes r @ [(rid, ?route)]" using routes new by (simp add: update_new)
  have reaches: "reaches (rr_root r') m' u j \<longleftrightarrow> (if m' = m \<and> u = segs then j = rid else reaches (rr_root r) m' u j)" for m' u j
    unfolding root by (rule reaches_insert [OF segs(2) parse_pattern_wildcard_last [OF segs(1)]])
  have apart: "apart segs u" if "reaches (rr_root r) m u j" for u j by (rule no_conflict_apart [OF nc that])
  have "names_apart (rr_root r') {}" unfolding root by (rule names_apart_insert [OF router_okD(3) [OF ok(1)] segs(3) _ segs(2)]) simp
  moreover have "distinct (map fst (rr_routes r'))" using router_okD(4) [OF ok(1)] new by (simp add: appended)
  moreover have "\<forall>(x, route) \<in> set (rr_routes r'). issued t' x \<and> rt_id route = x"
    using router_okD(5) [OF ok(1)] fresh(4,5) by (auto simp: appended)
  moreover have "reaches (rr_root r') m' u j \<longleftrightarrow>
      (\<exists>route. map_of (rr_routes r') j = Some route \<and> rt_method route = m' \<and> rt_segments route = u)" for m' u j
  proof (cases "j = rid")
    case True
    have "\<not> reaches (rr_root r) m' u rid" using router_okD(6) [OF ok(1)] new by (auto dest!: map_of_SomeD) force
    with True new show ?thesis unfolding reaches routes by (auto simp: AList.update_conv')
  next
    case False
    have "\<not> (m' = m \<and> u = segs)" if "reaches (rr_root r) m' u j" using apart apart_irrefl that by blast
    with False show ?thesis unfolding reaches routes using router_okD(6) [OF ok(1), of m' u j] by (auto simp: AList.update_conv')
  qed
  moreover have "s = u \<and> i = j \<or> apart s u" if "reaches (rr_root r') m' s i" "reaches (rr_root r') m' u j" for m' s i u j
    using that router_okD(7) [OF ok(1), of m' s i u j] apart [of s i] apart [of u j] apart_sym [of segs s]
    unfolding reaches by (auto split: if_splits)
  ultimately show ?thesis using fresh(1,2) unfolding router_ok_def by blast
qed

lemma built_ok: "built r t \<Longrightarrow> router_ok r t"
proof (induction rule: built.induct)
  case fresh
  then show ?case by (auto simp: router_ok_def new_router_def new_table_ok new_table_def table_ok_def)
next
  case (elsewhere r t m t' rid)
  then show ?case using next_route_id_fresh [of t m t' rid] by (auto simp: router_ok_def)
next
  case (added r t m p rid r' t' segs)
  then show ?case using add_route_ok by blast
qed

lemma filter_unique:
  "distinct xs \<Longrightarrow> (\<And>x y. x \<in> set xs \<Longrightarrow> y \<in> set xs \<Longrightarrow> P x \<Longrightarrow> P y \<Longrightarrow> x = y) \<Longrightarrow> length (filter P xs) \<le> 1"
proof (induction xs)
  case (Cons x xs)
  show ?case
  proof (cases "P x")
    case True
    with Cons.prems have "filter P xs = []" by (auto simp: filter_empty_conv)
    with True show ?thesis by simp
  qed (use Cons in auto)
qed simp

lemma find_unique:
  "x \<in> set xs \<Longrightarrow> P x \<Longrightarrow> (\<And>y. y \<in> set xs \<Longrightarrow> P y \<Longrightarrow> y = x) \<Longrightarrow> find P xs = Some x"
proof (induction xs)
  case (Cons a xs)
  show ?case
  proof (cases "P a")
    case True
    then show ?thesis using Cons.prems(3) [of a] by simp
  next
    case False
    then show ?thesis using Cons.IH Cons.prems by (metis find.simps(2) list.set_intros(2) set_ConsD)
  qed
qed simp

lemma registered_reached:
  assumes "router_ok r t"
  shows "route \<in> set (map snd (rr_routes r)) \<longleftrightarrow> map_of (rr_routes r) (rt_id route) = Some route"
proof
  assume "route \<in> set (map snd (rr_routes r))"
  then obtain rid where rid: "(rid, route) \<in> set (rr_routes r)" by auto
  then have "rt_id route = rid" using router_okD(5) [OF assms] by blast
  with rid show "map_of (rr_routes r) (rt_id route) = Some route" using router_okD(4) [OF assms] by (simp add: map_of_is_SomeI)
qed (force dest: map_of_SomeD)

lemma one_route_fits:
  assumes ok: "router_ok r t" and "x \<in> set (map snd (rr_routes r))" "y \<in> set (map snd (rr_routes r))"
    and "rt_method x = m" "fits (rt_segments x) path" "rt_method y = m" "fits (rt_segments y) path"
  shows "x = y"
proof -
  have "map_of (rr_routes r) (rt_id x) = Some x" "map_of (rr_routes r) (rt_id y) = Some y"
    using assms(2,3) registered_reached [OF ok] by blast+
  moreover from this have "reaches (rr_root r) m (rt_segments x) (rt_id x)" "reaches (rr_root r) m (rt_segments y) (rt_id y)"
    using router_okD(6) [OF ok, of m "rt_segments x" "rt_id x"] router_okD(6) [OF ok, of m "rt_segments y" "rt_id y"] assms(4,6)
    by simp_all
  from router_okD(7) [OF ok this] have "rt_id x = rt_id y" using apart_fits [of "rt_segments x" "rt_segments y" path] assms(5,7) by blast
  ultimately show ?thesis by (metis option.inject)
qed

lemma lookup_exact:
  assumes ok: "router_ok r t"
  shows "match_node (rr_root r) m path [] =
    (case find (\<lambda>route. rt_method route = m \<and> fits (rt_segments route) path) (map snd (rr_routes r)) of
       None \<Rightarrow> (None, []) | Some route \<Rightarrow> (Some (rt_id route), bindings (rt_segments route) path))"
proof -
  let ?P = "\<lambda>route. rt_method route = m \<and> fits (rt_segments route) path"
  have "found (rr_root r) m path [] (match_node (rr_root r) m path [])"
    using match_node_found router_okD(3) [OF ok] by force
  then show ?thesis
  proof (cases rule: found_cases)
    case (1 segs rid)
    then obtain route where route: "map_of (rr_routes r) rid = Some route" "rt_method route = m" "rt_segments route = segs"
      using router_okD(6) [OF ok] by blast
    then have "rt_id route = rid" "route \<in> set (map snd (rr_routes r))"
      using router_okD(5) [OF ok, of rid route] by (force dest: map_of_SomeD)+
    moreover from this have "find ?P (map snd (rr_routes r)) = Some route"
      using route 1(2) by (intro find_unique one_route_fits [OF ok, of _ route m path]) simp_all
    ultimately show ?thesis using 1 route by simp
  next
    case 2
    have "\<not> ?P route" if "route \<in> set (map snd (rr_routes r))" for route
      using that 2(1) registered_reached [OF ok] router_okD(6) [OF ok] by blast
    then have "find ?P (map snd (rr_routes r)) = None" unfolding find_None_iff by blast
    with 2 show ?thesis by simp
  qed
qed

section \<open>Properties of the router\<close>

text \<open>C13: The lookup in the trie is a search through the list of registered routes. For any router built by additions in which a pattern
  that shares a parameter or a wildcard position with an earlier one gives it the same name and constraint, and names its parameters
  differently, a request for a valid path matches a route exactly when a registered route of its method fits the path, at most one does, and
  the parameters are the bindings of that route in the order of its pattern. The code accepts additions that do not agree, and then
  \<open>shared_parameter_misbinds\<close>.\<close>

theorem router_matches_exactly:
  assumes "built r t" and "parse_path (path_only p) = Inr path"
  shows "match_path r m p = Inr (map_option (\<lambda>route. \<lparr>route_id = rt_id route, rm_params = bindings (rt_segments route) path\<rparr>)
      (find (\<lambda>route. rt_method route = m \<and> fits (rt_segments route) path) (map snd (rr_routes r)))) \<and>
    length (filter (\<lambda>route. rt_method route = m \<and> fits (rt_segments route) path) (map snd (rr_routes r))) \<le> 1"
proof
  have ok: "router_ok r t" using assms(1) by (rule built_ok)
  show "match_path r m p = Inr (map_option (\<lambda>route. \<lparr>route_id = rt_id route, rm_params = bindings (rt_segments route) path\<rparr>)
      (find (\<lambda>route. rt_method route = m \<and> fits (rt_segments route) path) (map snd (rr_routes r))))"
    by (simp add: match_path_def assms(2) lookup_exact [OF ok] split: option.splits)
  have "map fst (rr_routes r) = map rt_id (map snd (rr_routes r))" using router_okD(5) [OF ok] by force
  with router_okD(4) [OF ok] have "distinct (map rt_id (map snd (rr_routes r)))" by (simp only:)
  then have "distinct (map snd (rr_routes r))" by (rule distinct_map [THEN iffD1, THEN conjunct1])
  then show "length (filter (\<lambda>route. rt_method route = m \<and> fits (rt_segments route) path) (map snd (rr_routes r))) \<le> 1"
    by (rule filter_unique) (rule one_route_fits [OF ok, of _ _ m path], simp_all)
qed

text \<open>The router after the additions of a list, starting from nothing.\<close>

fun add_routes :: "(route_method \<times> string) list \<Rightarrow> (unit router \<times> route_method handle_table) \<Rightarrow> (unit router \<times> route_method handle_table) option" where
  "add_routes [] s = Some s"
| "add_routes ((m, p) # rest) (r, t) = (case add_route m (str p) r t of
     Some (Inr rid, r', t') \<Rightarrow> add_routes rest (r', t') | _ \<Rightarrow> None)"

definition no_routes :: "unit router \<times> route_method handle_table" where
  "no_routes = (new_router, new_table (HandleKind 44))"

fun agreeing :: "(route_method \<times> string) list \<Rightarrow> (unit router \<times> route_method handle_table) \<Rightarrow> bool" where
  "agreeing [] s = True"
| "agreeing ((m, p) # rest) (r, t) = (case (parse_pattern (str p), add_route m (str p) r t) of
     (Inr segs, Some (Inr rid, r', t')) \<Rightarrow> length (ht_slots t) < 100 \<and> agrees (rr_root r) segs \<and> distinct (parameter_names segs) \<and> agreeing rest (r', t')
   | _ \<Rightarrow> False)"

lemma add_routes_built: "built r t \<Longrightarrow> agreeing ps (r, t) \<Longrightarrow> add_routes ps (r, t) = Some (r', t') \<Longrightarrow> built r' t'"
proof (induction ps arbitrary: r t)
  case (Cons a ps)
  obtain m p where a: "a = (m, p)" by force
  with Cons.prems obtain segs rid r1 t1 where "parse_pattern (str p) = Inr segs" "add_route m (str p) r t = Some (Inr rid, r1, t1)"
    "length (ht_slots t) < 100" "agrees (rr_root r) segs" "distinct (parameter_names segs)" "agreeing ps (r1, t1)" "add_routes ps (r1, t1) = Some (r', t')"
    by (auto split: sum.splits option.splits prod.splits)
  moreover from this have "room_for 1 t" by (simp add: room_for_def max_slots_def)
  ultimately show ?case using Cons.IH Cons.prems(1) built.added [of r t m "str p" rid r1 t1 segs] by blast
qed simp

definition shop_routes :: "(route_method \<times> string) list" where
  "shop_routes = [(Get, ''/orders/{id:[0-9]+}''), (Get, ''/orders/{id:[0-9]+}/items''), (Post, ''/orders''), (Get, ''/static/*rest'')]"

theorem router_matches_exactly_witness:
  "case add_routes shop_routes no_routes of
     None \<Rightarrow> False
   | Some (r, t) \<Rightarrow> match_path r Get (str ''/orders/17/items?all'') =
       Inr (Some \<lparr>route_id = 12384903270236162, rm_params = [(str ''id'', str ''17'')]\<rparr>)"
proof -
  obtain r t where rt: "add_routes shop_routes no_routes = Some (r, t)"
    and found: "find (\<lambda>route. rt_method route = Get \<and> fits (rt_segments route) [str ''orders'', str ''17'', str ''items'']) (map snd (rr_routes r)) =
      Some \<lparr>rt_id = 12384903270236162, rt_method = Get, rt_pattern = str ''/orders/{id:[0-9]+}/items'',
        rt_segments = [Literal (str ''orders''), Param (str ''id'') (Some (str ''[0-9]+'')), Literal (str ''items'')]\<rparr>"
  proof -
    have "case add_routes shop_routes no_routes of None \<Rightarrow> False | Some (r, t) \<Rightarrow>
      find (\<lambda>route. rt_method route = Get \<and> fits (rt_segments route) [str ''orders'', str ''17'', str ''items'']) (map snd (rr_routes r)) =
      Some \<lparr>rt_id = 12384903270236162, rt_method = Get, rt_pattern = str ''/orders/{id:[0-9]+}/items'',
        rt_segments = [Literal (str ''orders''), Param (str ''id'') (Some (str ''[0-9]+'')), Literal (str ''items'')]\<rparr>" by code_simp
    then show ?thesis using that by (auto split: option.splits prod.splits)
  qed
  have "agreeing shop_routes no_routes" by code_simp
  then have "built r t" by (rule add_routes_built [OF built.fresh, folded no_routes_def, OF _ rt])
  moreover have "parse_path (path_only (str ''/orders/17/items?all'')) = Inr [str ''orders'', str ''17'', str ''items'']" by code_simp
  ultimately show ?thesis
    using router_matches_exactly [of r t "str ''/orders/17/items?all''" "[str ''orders'', str ''17'', str ''items'']" Get] rt found
    by simp
qed

text \<open>Without that agreement the lookup goes wrong, and the conflict check does not notice. The second pattern
  of a shared parameter edge is stored under the name and the constraint of the first: after
  \<open>GET /u/{id}\<close>, a request to \<open>POST /u/{name}\<close> binds \<open>id\<close>; after \<open>GET /u/{id:[0-9]+}\<close>,
  a request that fits \<open>GET /u/{slug:[a-zA-Z]+}/x\<close> finds nothing; and after \<open>GET /{id}/{name}/z\<close> and
  \<open>POST /{a}/items/{id}\<close> the request \<open>GET /1/items/z\<close> loses its \<open>id\<close> when the lookup backtracks out of the
  other method's branch.\<close>

lemma shared_parameter_misbinds:
  "map_option (\<lambda>(r, t). match_path r Post (str ''/u/x'')) (add_routes [(Get, ''/u/{id}''), (Post, ''/u/{name}'')] no_routes) =
     Some (Inr (Some \<lparr>route_id = 12384903270236162, rm_params = [(str ''id'', str ''x'')]\<rparr>)) \<and>
   map_option (\<lambda>(r, t). match_path r Get (str ''/u/abc/x''))
     (add_routes [(Get, ''/u/{id:[0-9]+}''), (Get, ''/u/{slug:[a-zA-Z]+}/x'')] no_routes) = Some (Inr None) \<and>
   map_option (\<lambda>(r, t). match_path r Get (str ''/1/items/z'')) (add_routes [(Get, ''/{id}/{name}/z''), (Post, ''/{a}/items/{id}'')] no_routes) =
     Some (Inr (Some \<lparr>route_id = 12384903270236161, rm_params = [(str ''name'', str ''items'')]\<rparr>))"
  by (intro conjI) code_simp+

end
