(* ===== verification/Http_Message.thy ===== *)
theory Http_Message
  imports Rust_Text
begin

text \<open>
  The HTTP/1.1 messages of the API package: the types and the incremental parser of
  \<open>src/packages/spectra-api/src/http_types.rs\<close> and the functions of \<open>http_parser.rs\<close>, which it includes, with
  the two validity checks of \<open>http_host.rs\<close>. The buffer is a list of bytes and positions are indices into it; a
  slice is \<open>slice\<close>, always taken within bounds here. Loops over the buffer are functions of the line start or cursor.
\<close>

section \<open>Types\<close>

record http_header =
  h_name :: rust_str
  h_value :: rust_str

record http_version =
  major :: u8
  minor :: u8

record body_chunk =
  chunk_data :: "u8 list"
  chunk_extension :: "rust_str option"

record http_body =
  body_chunks :: "body_chunk list"
  body_trailers :: "http_header list"
  body_chunked :: bool

definition empty_body :: http_body where
  "empty_body = \<lparr>body_chunks = [], body_trailers = [], body_chunked = False\<rparr>"

definition body_from_bytes :: "u8 list \<Rightarrow> http_body" where
  "body_from_bytes bytes = (if bytes = [] then empty_body
     else \<lparr>body_chunks = [\<lparr>chunk_data = bytes, chunk_extension = None\<rparr>], body_trailers = [], body_chunked = False\<rparr>)"

definition body_bytes :: "http_body \<Rightarrow> u8 list" where
  "body_bytes b = concat (map chunk_data (body_chunks b))"

record parsed_request =
  rq_method :: rust_str
  rq_target :: rust_str
  rq_version :: http_version
  rq_headers :: "http_header list"
  rq_body :: http_body
  rq_keep_alive :: bool

record parsed_response =
  rs_version :: http_version
  rs_status :: "16 word"
  rs_reason :: rust_str
  rs_headers :: "http_header list"
  rs_body :: http_body
  rs_keep_alive :: bool

datatype parse_error_kind = Incomplete | InvalidStartLine | InvalidMethod | InvalidTarget | InvalidVersion | InvalidStatus
  | InvalidHeader | HeaderTooLarge | BodyTooLarge | BodyLengthMismatch | InvalidChunkSize | InvalidChunkTerminator
  | UnsupportedTransferEncoding | ConflictingFraming | ObsoleteLineFolding

record parse_error =
  err_kind :: parse_error_kind
  err_position :: usize
  err_message :: string

definition parse_err :: "parse_error_kind \<Rightarrow> usize \<Rightarrow> string \<Rightarrow> parse_error" where
  "parse_err k p m = \<lparr>err_kind = k, err_position = p, err_message = m\<rparr>"

definition show_parse_error :: "parse_error \<Rightarrow> string" where
  "show_parse_error e = err_message e @ '' at byte '' @ decimal (err_position e)"

record parser_config =
  max_header_bytes :: usize
  max_body_bytes :: usize
  max_chunk_bytes :: usize

definition default_config :: parser_config where
  "default_config = \<lparr>max_header_bytes = 64 * 1024, max_body_bytes = 16 * 1024 * 1024, max_chunk_bytes = 8 * 1024 * 1024\<rparr>"

datatype parser_mode = RequestMode | ResponseMode

datatype start_line_kind = RequestLine rust_str rust_str | StatusLine "16 word" rust_str

record start_line =
  sl_version :: http_version
  sl_kind :: start_line_kind

datatype body_meta = EmptyBody | ContentLength usize | Chunked

datatype parsed_message = ParsedRequest parsed_request | ParsedResponse parsed_response

section \<open>Characters\<close>

definition is_tchar :: "u8 \<Rightarrow> bool" where
  "is_tchar b \<longleftrightarrow> is_ascii_alphanumeric (unat b) \<or> b \<in> set (lit ''!#$%&*+-.^_|~'') \<or> b = 39 \<or> b = 96"

definition is_token :: "rust_str \<Rightarrow> bool" where
  "is_token s \<longleftrightarrow> s \<noteq> [] \<and> list_all is_tchar (as_bytes s)"

definition field_byte :: "u8 \<Rightarrow> bool" where
  "field_byte b \<longleftrightarrow> b = 9 \<or> b = 32 \<or> 0x21 \<le> b \<and> b \<le> 0x7E \<or> 0x80 \<le> b"

definition is_reason_phrase :: "rust_str \<Rightarrow> bool" where
  "is_reason_phrase s \<longleftrightarrow> list_all field_byte (as_bytes s)"

definition is_valid_header_name :: "rust_str \<Rightarrow> bool" where
  "is_valid_header_name s \<longleftrightarrow> s \<noteq> [] \<and> list_all is_tchar (as_bytes s)"

definition is_valid_header_value :: "rust_str \<Rightarrow> bool" where
  "is_valid_header_value s \<longleftrightarrow> list_all field_byte (as_bytes s)"

definition bytes_to_ascii :: "u8 list \<Rightarrow> usize \<Rightarrow> parse_error + rust_str" where
  "bytes_to_ascii bytes pos =
     (if list_ex (\<lambda>b. \<not> b < 0x80) bytes then Inl (parse_err InvalidHeader pos ''HTTP header field-name must be ASCII'')
      else case from_utf8 bytes of
        Some s \<Rightarrow> Inr s
      | None \<Rightarrow> Inl (parse_err InvalidHeader pos ''HTTP header field-name is not valid text''))"

fun bytes_to_http_value :: "u8 list \<Rightarrow> usize \<Rightarrow> parse_error + rust_str" where
  "bytes_to_http_value [] pos = Inr []"
| "bytes_to_http_value (b # bytes) pos =
     (if field_byte b then and_then (bytes_to_http_value bytes (pos + 1)) (\<lambda>s. Inr (unat b # s))
      else Inl (parse_err InvalidHeader pos ''HTTP header field-value contains a disallowed control byte''))"

section \<open>Lines\<close>

text \<open>\<open>windows(n).position\<close> for a pattern of length \<open>n\<close>.\<close>

fun position_of :: "'a list \<Rightarrow> 'a list \<Rightarrow> nat option" where
  "position_of pat [] = None"
| "position_of pat (b # bs) = (if take (length pat) (b # bs) = pat then Some 0 else map_option Suc (position_of pat bs))"

abbreviation crlf :: "u8 list" where "crlf \<equiv> [13, 10]"

definition slice :: "'a list \<Rightarrow> usize \<Rightarrow> usize \<Rightarrow> 'a list" where
  "slice xs a b = take (b - a) (drop a xs)"

definition find_header_end :: "u8 list \<Rightarrow> usize option" where
  "find_header_end bytes = position_of [13, 10, 13, 10] bytes"

definition find_crlf :: "u8 list \<Rightarrow> usize \<Rightarrow> usize option" where
  "find_crlf bytes start = (if start \<le> length bytes then map_option (\<lambda>i. start + i) (position_of crlf (drop start bytes)) else None)"

definition is_blank :: "u8 \<Rightarrow> bool" where
  "is_blank b \<longleftrightarrow> b = 32 \<or> b = 9"

definition parse_header :: "u8 list \<Rightarrow> usize \<Rightarrow> parse_error + http_header" where
  "parse_header line pos = (case split_once 58 line of
     None \<Rightarrow> Inl (parse_err InvalidHeader pos ''HTTP header line is missing ':'')
   | Some (name_bytes, rest) \<Rightarrow>
       and_then (bytes_to_ascii name_bytes pos) (\<lambda>name.
       if \<not> is_valid_header_name name then Inl (parse_err InvalidHeader pos ''HTTP header field-name is invalid'')
       else let value_start = length name_bytes + 1 + length (takeWhile is_blank rest)
            in and_then (bytes_to_http_value (trim_matches is_blank rest) (pos + value_start)) (\<lambda>v.
               if \<not> is_valid_header_value v
               then Inl (parse_err InvalidHeader (pos + value_start) ''HTTP header field-value contains invalid bytes'')
               else Inr \<lparr>h_name = name, h_value = v\<rparr>)))"

lemma position_of_bound: "position_of pat bs = Some i \<Longrightarrow> i + length pat \<le> length bs"
proof (induction bs arbitrary: i)
  case (Cons b bs)
  show ?case
  proof (cases "take (length pat) (b # bs) = pat")
    case True
    then have "length pat \<le> length (b # bs)" using length_take [of "length pat" "b # bs"] by (simp del: length_take)
    with True Cons.prems show ?thesis by simp
  qed (use Cons in auto)
qed simp

lemma find_crlf_bound: "find_crlf bytes start = Some e \<Longrightarrow> start \<le> e \<and> e + 2 \<le> length bytes"
  by (auto simp: find_crlf_def split: if_splits dest!: position_of_bound)

function head_headers :: "u8 list \<Rightarrow> usize \<Rightarrow> usize \<Rightarrow> parse_error + http_header list" where
  "head_headers bytes base line_start =
     (if line_start < length bytes then
        let line_end = (case find_crlf bytes line_start of Some e \<Rightarrow> e | None \<Rightarrow> length bytes);
            line = slice bytes line_start line_end
        in if line = [] then Inr []
           else if is_blank (hd line)
           then Inl (parse_err ObsoleteLineFolding (base + line_start) ''obsolete folded HTTP headers are rejected'')
           else and_then (parse_header line (base + line_start)) (\<lambda>h.
                and_then (head_headers bytes base (if line_end = length bytes then length bytes else line_end + 2)) (\<lambda>hs.
                Inr (h # hs)))
      else Inr [])"
  by auto
termination
  by (relation "measure (\<lambda>(bytes, base, line_start). length bytes - line_start)")
    (auto split: option.splits dest: find_crlf_bound)

declare head_headers.simps [simp del]

section \<open>Start lines\<close>

definition parse_version :: "rust_str \<Rightarrow> usize \<Rightarrow> parse_error + http_version" where
  "parse_version text pos = (case strip_prefix (str ''HTTP/'') text of
     None \<Rightarrow> Inl (parse_err InvalidVersion pos ''HTTP version must start with HTTP/'')
   | Some rest \<Rightarrow> (case split_once (ch CHR ''.'') rest of
       None \<Rightarrow> Inl (parse_err InvalidVersion pos ''HTTP version must contain major and minor numbers'')
     | Some (ma, mi) \<Rightarrow>
         if ma = [] \<or> mi = [] \<or> \<not> list_all (\<lambda>b. is_ascii_digit (unat b)) (as_bytes ma) \<or> \<not> list_all (\<lambda>b. is_ascii_digit (unat b)) (as_bytes mi)
         then Inl (parse_err InvalidVersion pos ''HTTP version numbers must be decimal digits'')
         else (case from_str_radix 10 u8_max ma of
             None \<Rightarrow> Inl (parse_err InvalidVersion pos ''HTTP major version is too large'')
           | Some x \<Rightarrow> (case from_str_radix 10 u8_max mi of
               None \<Rightarrow> Inl (parse_err InvalidVersion pos ''HTTP minor version is too large'')
             | Some y \<Rightarrow> Inr \<lparr>major = byte x, minor = byte y\<rparr>))))"

text \<open>\<open>next().unwrap_or_default()\<close> on the parts of a split.\<close>

definition part :: "rust_str list \<Rightarrow> nat \<Rightarrow> rust_str" where
  "part parts i = (if i < length parts then parts ! i else [])"

definition parse_request_line :: "rust_str \<Rightarrow> usize \<Rightarrow> parse_error + start_line" where
  "parse_request_line line pos =
     (let parts = split_on 32 line; meth = part parts 0; target = part parts 1; version = part parts 2
      in if 3 < length parts \<or> meth = [] \<or> target = [] \<or> version = []
         then Inl (parse_err InvalidStartLine pos ''HTTP request line must be METHOD target HTTP-version'')
         else if \<not> is_token meth then Inl (parse_err InvalidMethod pos ''HTTP method contains invalid token characters'')
         else if list_ex (\<lambda>b. b \<le> 32 \<or> b = 0x7F) (as_bytes target)
         then Inl (parse_err InvalidTarget (pos + byte_len meth + 1) ''HTTP request target contains invalid whitespace or control bytes'')
         else and_then (parse_version version (pos + byte_len meth + byte_len target + 2)) (\<lambda>v.
              Inr \<lparr>sl_version = v, sl_kind = RequestLine meth target\<rparr>))"

definition splitn3 :: "rust_char \<Rightarrow> rust_str \<Rightarrow> rust_str list" where
  "splitn3 d s = (case split_once d s of
     None \<Rightarrow> [s]
   | Some (a, r) \<Rightarrow> (case split_once d r of None \<Rightarrow> [a, r] | Some (b, c) \<Rightarrow> [a, b, c]))"

definition parse_status_line :: "rust_str \<Rightarrow> usize \<Rightarrow> parse_error + start_line" where
  "parse_status_line line pos =
     (let parts = splitn3 32 line; version_text = part parts 0; status_text = part parts 1; reason = part parts 2
      in if version_text = [] \<or> status_text = []
         then Inl (parse_err InvalidStartLine pos ''HTTP status line must be HTTP-version status-code reason'')
         else and_then (parse_version version_text pos) (\<lambda>v.
           if byte_len status_text \<noteq> 3 \<or> \<not> list_all (\<lambda>b. is_ascii_digit (unat b)) (as_bytes status_text)
           then Inl (parse_err InvalidStatus (pos + byte_len version_text + 1) ''HTTP status code must contain exactly three digits'')
           else (case from_str_radix 10 u16_max status_text of
               None \<Rightarrow> Inl (parse_err InvalidStatus (pos + byte_len version_text + 1) ''HTTP status code is outside the supported range'')
             | Some code \<Rightarrow>
                 if \<not> (100 \<le> code \<and> code \<le> 999)
                 then Inl (parse_err InvalidStatus (pos + byte_len version_text + 1) ''HTTP status code is outside the supported range'')
                 else if \<not> is_reason_phrase reason
                 then Inl (parse_err InvalidStatus (pos + byte_len version_text + byte_len status_text + 2) ''HTTP reason phrase contains invalid control bytes'')
                 else Inr \<lparr>sl_version = v, sl_kind = StatusLine (word_of_nat code) reason\<rparr>)))"

definition parse_start_line :: "u8 list \<Rightarrow> usize \<Rightarrow> parser_mode \<Rightarrow> parse_error + start_line" where
  "parse_start_line line pos mode = (case from_utf8 line of
     None \<Rightarrow> Inl (parse_err InvalidStartLine pos ''HTTP start line must be valid ASCII/UTF-8'')
   | Some text \<Rightarrow> (case mode of RequestMode \<Rightarrow> parse_request_line text pos | ResponseMode \<Rightarrow> parse_status_line text pos))"

definition parse_head :: "u8 list \<Rightarrow> usize \<Rightarrow> parser_mode \<Rightarrow> parse_error + start_line \<times> http_header list" where
  "parse_head bytes base mode = (case find_crlf bytes 0 of
     None \<Rightarrow> Inl (parse_err InvalidStartLine base ''HTTP start line is missing CRLF'')
   | Some first_line_end \<Rightarrow>
       and_then (parse_start_line (slice bytes 0 first_line_end) base mode) (\<lambda>start.
       and_then (head_headers bytes base (first_line_end + 2)) (\<lambda>headers. Inr (start, headers))))"

section \<open>Framing\<close>

definition header_values :: "http_header list \<Rightarrow> rust_str \<Rightarrow> rust_str list" where
  "header_values headers name = map h_value (filter (\<lambda>h. eq_ignore_ascii_case (h_name h) name) headers)"

fun content_lengths :: "usize \<Rightarrow> rust_str list \<Rightarrow> usize option \<Rightarrow> parse_error + usize option" where
  "content_lengths base [] parsed = Inr parsed"
| "content_lengths base (v # vs) parsed = (case from_str_radix 10 usize_max v of
     None \<Rightarrow> Inl (parse_err BodyLengthMismatch base ''Content-Length must be a non-negative decimal integer'')
   | Some n \<Rightarrow> if parsed \<noteq> None \<and> parsed \<noteq> Some n
       then Inl (parse_err BodyLengthMismatch base ''conflicting Content-Length values are rejected'')
       else content_lengths base vs (Some n))"

definition transfer_codings :: "rust_str list \<Rightarrow> rust_str list" where
  "transfer_codings vs = filter (\<lambda>part. part \<noteq> [])
     (map (\<lambda>part. to_ascii_lowercase (trim part)) (concat (map (split_on (ch CHR '','')) vs)))"

definition body_meta_from_headers :: "http_header list \<Rightarrow> usize \<Rightarrow> parse_error + body_meta" where
  "body_meta_from_headers headers base =
     (let transfer_encoding = header_values headers (str ''transfer-encoding'');
          lengths = header_values headers (str ''content-length'')
      in if transfer_encoding \<noteq> [] then
           if lengths \<noteq> [] then Inl (parse_err ConflictingFraming base ''Transfer-Encoding and Content-Length cannot coexist'')
           else let codings = transfer_codings transfer_encoding
                in if codings = [] \<or> last codings \<noteq> str ''chunked''
                   then Inl (parse_err UnsupportedTransferEncoding base ''only chunked transfer-coding is supported for HTTP/1.1 messages'')
                   else if list_ex (\<lambda>c. c \<noteq> str ''chunked'') codings \<or> list_ex (\<lambda>c. c = str ''chunked'') (butlast codings)
                   then Inl (parse_err UnsupportedTransferEncoding base ''only a single final chunked transfer-coding is supported'')
                   else Inr Chunked
         else if lengths = [] then Inr EmptyBody
         else and_then (content_lengths base lengths None) (\<lambda>parsed.
              Inr (ContentLength (case parsed of Some n \<Rightarrow> n | None \<Rightarrow> 0))))"

definition parse_chunk_size_line :: "u8 list \<Rightarrow> usize \<Rightarrow> parse_error + usize \<times> rust_str option" where
  "parse_chunk_size_line line pos = (case from_utf8 line of
     None \<Rightarrow> Inl (parse_err InvalidChunkSize pos ''HTTP chunk-size line must be valid ASCII/UTF-8'')
   | Some text \<Rightarrow>
       (case (case split_once (ch CHR '';'') text of Some (sz, ext) \<Rightarrow> (trim sz, Some (trim ext)) | None \<Rightarrow> (trim text, None)) of
         (size_text, ext) \<Rightarrow>
           if size_text = [] \<or> \<not> list_all (\<lambda>b. is_ascii_hexdigit (unat b)) (as_bytes size_text)
           then Inl (parse_err InvalidChunkSize pos ''HTTP chunk-size must be hexadecimal'')
           else (case from_str_radix 16 usize_max size_text of
               None \<Rightarrow> Inl (parse_err InvalidChunkSize pos ''HTTP chunk-size is too large'')
             | Some n \<Rightarrow> Inr (n, if ext = Some [] then None else ext))))"

text \<open>The trailers and the position behind the empty line that ends them; \<open>None\<close> when more bytes are needed.\<close>

function trailer_lines :: "u8 list \<Rightarrow> usize \<Rightarrow> usize \<Rightarrow> parse_error + (http_header list \<times> usize) option" where
  "trailer_lines buffer base line_start = (case find_crlf buffer line_start of
     None \<Rightarrow> Inr None
   | Some line_end \<Rightarrow>
       let line = slice buffer line_start line_end
       in if line = [] then Inr (Some ([], line_end + 2))
          else if is_blank (hd line)
          then Inl (parse_err ObsoleteLineFolding (base + line_start) ''obsolete folded HTTP trailers are rejected'')
          else and_then (parse_header line (base + line_start)) (\<lambda>h.
               and_then (trailer_lines buffer base (line_end + 2)) (\<lambda>rest.
               Inr (map_option (\<lambda>(hs, e). (h # hs, e)) rest))))"
  by auto
termination
  by (relation "measure (\<lambda>(buffer, base, line_start). length buffer - line_start)") (auto dest: find_crlf_bound)

definition parse_trailer_section :: "u8 list \<Rightarrow> usize \<Rightarrow> usize \<Rightarrow> parse_error + (http_header list \<times> usize) option" where
  "parse_trailer_section buffer cursor base = and_then (trailer_lines buffer base cursor) (\<lambda>r.
     Inr (map_option (\<lambda>(hs, e). (hs, e - cursor)) r))"

definition saturating_sum :: "usize \<Rightarrow> usize \<Rightarrow> usize" where
  "saturating_sum a b = min (a + b) usize_max"

lemma saturating_sum_small [code]: "saturating_sum a b = (if a < 256 \<and> b < 256 then a + b else min (a + b) usize_max)"
  by (simp add: saturating_sum_def usize_max_def)

text \<open>The size of a chunk is the peer's, so the sum of the cursor and a chunk may be more than a \<open>usize\<close> holds.\<close>

definition overflows :: "usize \<Rightarrow> bool" where
  "overflows n \<longleftrightarrow> usize_max < n"

lemma overflows_small [code]: "overflows n \<longleftrightarrow> (if n < 1024 then False else usize_max < n)"
  by (simp add: overflows_def usize_max_def)

text \<open>The loop of \<open>parse_chunked_body\<close>: the chunks read so far, their total size and the cursor. The outer \<open>None\<close> is the panic of an
  addition that overflows.\<close>

function chunk_loop :: "parser_config \<Rightarrow> u8 list \<Rightarrow> usize \<Rightarrow> usize \<Rightarrow> body_chunk list \<Rightarrow> usize \<Rightarrow>
    (parse_error + (http_body \<times> usize) option) option" where
  "chunk_loop cfg buffer base cursor chunks total_data = (case find_crlf buffer cursor of
     None \<Rightarrow> Some (Inr None)
   | Some size_line_end \<Rightarrow>
       (case parse_chunk_size_line (slice buffer cursor size_line_end) (base + cursor) of
         Inl e \<Rightarrow> Some (Inl e)
       | Inr (len, ext) \<Rightarrow>
       let cursor' = size_line_end + 2; total' = saturating_sum total_data len
       in if max_chunk_bytes cfg < len
          then Some (Inl (parse_err BodyTooLarge (base + cursor') ''HTTP chunk exceeds configured per-chunk limit''))
          else if max_body_bytes cfg < total'
          then Some (Inl (parse_err BodyTooLarge (base + cursor') ''HTTP chunked body exceeds configured body limit''))
          else if len = 0
          then Some (and_then (parse_trailer_section buffer cursor' base) (\<lambda>r.
               Inr (map_option (\<lambda>(trailers, n). (\<lparr>body_chunks = chunks, body_trailers = trailers, body_chunked = True\<rparr>, cursor' + n)) r)))
          else if overflows (cursor' + len + 2) then None
          else if length buffer < cursor' + len + 2 then Some (Inr None)
          else if slice buffer (cursor' + len) (cursor' + len + 2) \<noteq> crlf
          then Some (Inl (parse_err InvalidChunkTerminator (base + cursor' + len) ''HTTP chunk data must be followed by CRLF''))
          else chunk_loop cfg buffer base (cursor' + len + 2)
                 (chunks @ [\<lparr>chunk_data = slice buffer cursor' (cursor' + len), chunk_extension = ext\<rparr>]) total'))"
  by auto
termination
  by (relation "measure (\<lambda>(cfg, buffer, base, cursor, chunks, total_data). length buffer - cursor)") (auto dest: find_crlf_bound)

declare trailer_lines.simps [simp del] chunk_loop.simps [simp del]

definition parse_chunked_body :: "u8 list \<Rightarrow> usize \<Rightarrow> usize \<Rightarrow> parser_config \<Rightarrow> (parse_error + (http_body \<times> usize) option) option" where
  "parse_chunked_body buffer body_start base cfg = map_option (\<lambda>result. and_then result (\<lambda>r.
     Inr (map_option (\<lambda>(body, e). (body, e - body_start)) r))) (chunk_loop cfg buffer base body_start [] 0)"

definition parse_body :: "u8 list \<Rightarrow> usize \<Rightarrow> usize \<Rightarrow> parser_config \<Rightarrow> body_meta \<Rightarrow> (parse_error + (http_body \<times> usize) option) option" where
  "parse_body buffer body_start base cfg meta = (case meta of
     EmptyBody \<Rightarrow> Some (Inr (Some (empty_body, 0)))
   | ContentLength n \<Rightarrow>
       if max_body_bytes cfg < n then Some (Inl (parse_err BodyTooLarge (base + body_start) ''HTTP body exceeds configured limit''))
       else if length buffer - body_start < n then Some (Inr None)
       else Some (Inr (Some (body_from_bytes (slice buffer body_start (body_start + n)), n)))
   | Chunked \<Rightarrow> parse_chunked_body buffer body_start base cfg)"

definition determine_keep_alive :: "http_version \<Rightarrow> http_header list \<Rightarrow> bool" where
  "determine_keep_alive v headers =
     (let tokens = map (\<lambda>t. to_ascii_lowercase (trim t)) (concat (map (split_on (ch CHR '','')) (header_values headers (str ''connection''))))
      in if list_ex (\<lambda>t. t = str ''close'') tokens then False
         else if list_ex (\<lambda>t. t = str ''keep-alive'') tokens then True
         else 1 < major v \<or> major v = 1 \<and> 1 \<le> minor v)"

section \<open>The parser\<close>

record http1_parser =
  hp_mode :: parser_mode
  hp_config :: parser_config
  hp_buffer :: "u8 list"
  hp_consumed :: usize

definition new_parser :: "parser_mode \<Rightarrow> parser_config \<Rightarrow> http1_parser" where
  "new_parser mode cfg = \<lparr>hp_mode = mode, hp_config = cfg, hp_buffer = [], hp_consumed = 0\<rparr>"

definition push_bytes :: "u8 list \<Rightarrow> http1_parser \<Rightarrow> http1_parser" where
  "push_bytes bytes p = p\<lparr>hp_buffer := hp_buffer p @ bytes\<rparr>"

definition take_buffered :: "http1_parser \<Rightarrow> http1_parser \<times> u8 list" where
  "take_buffered p = (p\<lparr>hp_buffer := []\<rparr>, hp_buffer p)"

text \<open>\<open>None\<close> where the source is \<open>unreachable!\<close>.\<close>

definition message_of :: "parser_mode \<Rightarrow> start_line \<Rightarrow> http_header list \<Rightarrow> http_body \<Rightarrow> bool \<Rightarrow> parsed_message option" where
  "message_of mode start headers body ka = (case (mode, sl_kind start) of
     (RequestMode, RequestLine meth target) \<Rightarrow> Some (ParsedRequest \<lparr>rq_method = meth, rq_target = target,
       rq_version = sl_version start, rq_headers = headers, rq_body = body, rq_keep_alive = ka\<rparr>)
   | (ResponseMode, StatusLine code reason) \<Rightarrow> Some (ParsedResponse \<lparr>rs_version = sl_version start, rs_status = code,
       rs_reason = reason, rs_headers = headers, rs_body = body, rs_keep_alive = ka\<rparr>)
   | _ \<Rightarrow> None)"

text \<open>What the buffer holds: an error, nothing complete yet, or a message and its length. The outer \<open>None\<close> is a panic.\<close>

definition read_message :: "parser_mode \<Rightarrow> parser_config \<Rightarrow> u8 list \<Rightarrow> usize \<Rightarrow> (parse_error + (parsed_message \<times> usize) option) option" where
  "read_message mode cfg buffer consumed = (case find_header_end buffer of
     None \<Rightarrow> Some (if max_header_bytes cfg < length buffer
       then Inl (parse_err HeaderTooLarge (consumed + max_header_bytes cfg) ''HTTP header section exceeds configured limit'')
       else Inr None)
   | Some header_end \<Rightarrow>
       if max_header_bytes cfg < header_end
       then Some (Inl (parse_err HeaderTooLarge (consumed + max_header_bytes cfg) ''HTTP header section exceeds configured limit''))
       else (case parse_head (take header_end buffer) consumed mode of
           Inl e \<Rightarrow> Some (Inl e)
         | Inr (start, headers) \<Rightarrow> (case body_meta_from_headers headers consumed of
             Inl e \<Rightarrow> Some (Inl e)
           | Inr meta \<Rightarrow> (case parse_body buffer (header_end + 4) consumed cfg meta of
               None \<Rightarrow> None
             | Some (Inl e) \<Rightarrow> Some (Inl e)
             | Some (Inr None) \<Rightarrow> Some (Inr None)
             | Some (Inr (Some (body, n))) \<Rightarrow>
                 map_option (\<lambda>msg. Inr (Some (msg, header_end + 4 + n)))
                   (message_of mode start headers body (determine_keep_alive (sl_version start) headers))))))"

definition parse_next_message :: "http1_parser \<Rightarrow> ((parse_error + parsed_message option) \<times> http1_parser) option" where
  "parse_next_message p = map_option (\<lambda>r. case r of
     Inl e \<Rightarrow> (Inl e, p)
   | Inr None \<Rightarrow> (Inr None, p)
   | Inr (Some (msg, total_len)) \<Rightarrow> (Inr (Some msg), p\<lparr>hp_buffer := drop total_len (hp_buffer p), hp_consumed := hp_consumed p + total_len\<rparr>))
     (read_message (hp_mode p) (hp_config p) (hp_buffer p) (hp_consumed p))"

definition parse_next_request :: "http1_parser \<Rightarrow> ((parse_error + parsed_request option) \<times> http1_parser) option" where
  "parse_next_request p =
     (if hp_mode p \<noteq> RequestMode then Some (Inl (parse_err InvalidStartLine (hp_consumed p) ''parser is configured for HTTP responses''), p)
      else Option.bind (parse_next_message p) (\<lambda>(r, p'). case r of
          Inl e \<Rightarrow> Some (Inl e, p')
        | Inr None \<Rightarrow> Some (Inr None, p')
        | Inr (Some (ParsedRequest rq)) \<Rightarrow> Some (Inr (Some rq), p')
        | Inr (Some (ParsedResponse rs)) \<Rightarrow> None))"

definition parse_next_response :: "http1_parser \<Rightarrow> ((parse_error + parsed_response option) \<times> http1_parser) option" where
  "parse_next_response p =
     (if hp_mode p \<noteq> ResponseMode then Some (Inl (parse_err InvalidStartLine (hp_consumed p) ''parser is configured for HTTP requests''), p)
      else Option.bind (parse_next_message p) (\<lambda>(r, p'). case r of
          Inl e \<Rightarrow> Some (Inl e, p')
        | Inr None \<Rightarrow> Some (Inr None, p')
        | Inr (Some (ParsedResponse rs)) \<Rightarrow> Some (Inr (Some rs), p')
        | Inr (Some (ParsedRequest rq)) \<Rightarrow> None))"

definition parse_request :: "u8 list \<Rightarrow> (parse_error + parsed_request) option" where
  "parse_request bytes = map_option (\<lambda>(r, p). case r of
     Inl e \<Rightarrow> Inl e
   | Inr (Some rq) \<Rightarrow> if hp_buffer p = [] then Inr rq
       else Inl (parse_err InvalidStartLine (length bytes - length (hp_buffer p)) ''input contains trailing bytes after one HTTP request'')
   | Inr None \<Rightarrow> Inl (parse_err Incomplete (length bytes) ''incomplete HTTP request''))
     (parse_next_request (push_bytes bytes (new_parser RequestMode default_config)))"

definition parse_response :: "u8 list \<Rightarrow> (parse_error + parsed_response) option" where
  "parse_response bytes = map_option (\<lambda>(r, p). case r of
     Inl e \<Rightarrow> Inl e
   | Inr (Some rs) \<Rightarrow> if hp_buffer p = [] then Inr rs
       else Inl (parse_err InvalidStartLine (length bytes - length (hp_buffer p)) ''input contains trailing bytes after one HTTP response'')
   | Inr None \<Rightarrow> Inl (parse_err Incomplete (length bytes) ''incomplete HTTP response''))
     (parse_next_response (push_bytes bytes (new_parser ResponseMode default_config)))"

text \<open>The loop of a server connection (\<open>serve_http11_over_tls\<close> in \<open>http2.rs\<close>) that reads until a request is
  complete: each element of the list is what one read returns, and an empty read or none is the end of the stream.\<close>

datatype received = Request parsed_request | Bad_request parse_error | Stream_end

fun receive_request :: "http1_parser \<Rightarrow> u8 list list \<Rightarrow> (received \<times> http1_parser \<times> u8 list list) option" where
  "receive_request p reads = (case parse_next_request p of
     None \<Rightarrow> None
   | Some (Inr (Some rq), p') \<Rightarrow> Some (Request rq, p', reads)
   | Some (Inl e, p') \<Rightarrow> Some (Bad_request e, p', reads)
   | Some (Inr None, p') \<Rightarrow> (case reads of
       [] \<Rightarrow> Some (Stream_end, p', [])
     | r # rest \<Rightarrow> if r = [] then Some (Stream_end, p', rest) else receive_request (push_bytes r p') rest))"

declare receive_request.simps [simp del]

section \<open>Printing\<close>

definition show_version :: "http_version \<Rightarrow> rust_str" where
  "show_version v = str ''HTTP/'' @ str (decimal (unat (major v))) @ str ''.'' @ str (decimal (unat (minor v)))"

definition write_headers :: "http_header list \<Rightarrow> u8 list" where
  "write_headers headers = concat (map (\<lambda>h. as_bytes (h_name h) @ lit '': '' @ as_bytes (h_value h) @ crlf) headers)"

definition write_chunk :: "body_chunk \<Rightarrow> u8 list" where
  "write_chunk c = as_bytes (upper_hex (length (chunk_data c))) @
     (case chunk_extension c of Some e \<Rightarrow> lit '';'' @ as_bytes e | None \<Rightarrow> []) @ crlf @ chunk_data c @ crlf"

definition write_body :: "http_body \<Rightarrow> u8 list" where
  "write_body b = (if body_chunked b
     then concat (map write_chunk (body_chunks b)) @ lit ''0'' @ crlf @ write_headers (body_trailers b) @ crlf
     else concat (map chunk_data (body_chunks b)))"

definition serialize_request :: "parsed_request \<Rightarrow> u8 list" where
  "serialize_request r = as_bytes (rq_method r) @ lit '' '' @ as_bytes (rq_target r) @ lit '' '' @ as_bytes (show_version (rq_version r)) @ crlf @
     write_headers (rq_headers r) @ crlf @ write_body (rq_body r)"

definition serialize_response :: "parsed_response \<Rightarrow> u8 list" where
  "serialize_response r = as_bytes (show_version (rs_version r)) @ lit '' '' @ as_bytes (str (decimal (unat (rs_status r)))) @ lit '' '' @
     as_bytes (rs_reason r) @ crlf @ write_headers (rs_headers r) @ crlf @ write_body (rs_body r)"

end
