(* ===== verification/Websocket.thy ===== *)
theory Websocket
  imports Http_Message "HOL-Library.Word"
begin

text \<open>
  The frame machine of \<open>src/packages/spectra-api/src/websocket.rs\<close>: frames and their encoding, the assembler of
  fragmented messages, the connection with its operations, and the pump that serves an upgraded connection behind the TLS
  gateway. A transport is what its next reads return, what becomes of its next writes, and the bytes written so far; an
  operation of a connection is a function on the connection that returns an error or a value with the connection after it.
  The masking keys the random generator gives and the DEFLATE coder of \<open>flate2\<close> are parameters.
\<close>

unbundle bit_operations_syntax

section \<open>Types\<close>

datatype frame_role = Client | Server

record ws_frame =
  f_fin :: bool
  f_rsv1 :: bool
  f_opcode :: u8
  f_masked :: bool
  f_payload :: "u8 list"

datatype ws_message = Text rust_str | Binary "u8 list"

fun message_kind :: "ws_message \<Rightarrow> nat" where
  "message_kind (Text s) = 1"
| "message_kind (Binary bs) = 2"

fun message_payload :: "ws_message \<Rightarrow> u8 list" where
  "message_payload (Text s) = as_bytes s"
| "message_payload (Binary bs) = bs"

datatype ws_error_kind = Io | Protocol | Handshake | UnsupportedScheme | PayloadTooLarge | InvalidArgument | Compression
  | Utf8 | Closed | Cancelled

record ws_error =
  we_kind :: ws_error_kind
  we_message :: string

definition ws_err :: "ws_error_kind \<Rightarrow> string \<Rightarrow> ws_error" where
  "ws_err k m = \<lparr>we_kind = k, we_message = m\<rparr>"

text \<open>The timeouts of the configuration concern the socket only.\<close>

record ws_config =
  max_frame_bytes :: usize
  max_message_bytes :: usize
  per_message_deflate :: bool
  subprotocols :: "rust_str list"

definition default_max_bytes :: usize where
  "default_max_bytes = 16 * 1024 * 1024"

definition default_ws_config :: ws_config where
  "default_ws_config = \<lparr>max_frame_bytes = default_max_bytes, max_message_bytes = default_max_bytes,
     per_message_deflate = False, subprotocols = []\<rparr>"

record fragment_state =
  fs_opcode :: u8
  fs_compressed :: bool
  fs_payload :: "u8 list"

text \<open>What a read returns: an error of the system, or bytes (none at the end of the stream). A write goes through, or stops
  with an error after some bytes. Beyond the lists the stream has ended and writes go through.\<close>

record ws_io =
  io_reads :: "(string + u8 list) list"
  io_writes :: "(usize \<times> string) option list"
  io_written :: "u8 list"

record ws_conn =
  wc_io :: ws_io
  wc_config :: ws_config
  wc_role :: frame_role
  wc_deflate :: bool
  wc_assembler :: "fragment_state option"
  wc_buffered :: "u8 list"
  wc_closed :: bool
  wc_keys :: "u8 list option list"

section \<open>Frames\<close>

fun to_be_bytes :: "nat \<Rightarrow> nat \<Rightarrow> u8 list" where
  "to_be_bytes 0 n = []"
| "to_be_bytes (Suc k) n = to_be_bytes k (n div 256) @ [byte (n mod 256)]"

definition from_be_bytes :: "u8 list \<Rightarrow> nat" where
  "from_be_bytes bs = foldl (\<lambda>a b. a * 256 + unat b) 0 bs"

definition apply_mask :: "u8 list \<Rightarrow> u8 list \<Rightarrow> u8 list" where
  "apply_mask key bs = map (\<lambda>(i, b). b XOR key ! (i mod 4)) (enumerate 0 bs)"

definition validate_frame_for_encoding :: "ws_frame \<Rightarrow> ws_error + unit" where
  "validate_frame_for_encoding f =
     (if 0xA < f_opcode f \<or> f_opcode f \<in> {3, 4, 5, 6, 7} then Inl (ws_err Protocol ''reserved WebSocket opcode cannot be encoded'')
      else if f_opcode f AND 8 \<noteq> 0 \<and> (\<not> f_fin f \<or> f_rsv1 f \<or> 125 < length (f_payload f))
      then Inl (ws_err Protocol ''control frames must be final, uncompressed, and at most 125 bytes'')
      else if f_opcode f = 0 \<and> f_rsv1 f then Inl (ws_err Protocol ''continuation frames must not set RSV1'')
      else Inr ())"

definition first_byte :: "ws_frame \<Rightarrow> u8" where
  "first_byte f = (f_opcode f AND 0x0F) OR (if f_fin f then 0x80 else 0) OR (if f_rsv1 f then 0x40 else 0)"

definition length_bytes :: "u8 \<Rightarrow> usize \<Rightarrow> u8 list" where
  "length_bytes mask_bit n =
     (if n \<le> 125 then [mask_bit OR byte n]
      else if n \<le> 65535 then (mask_bit OR 126) # to_be_bytes 2 n
      else (mask_bit OR 127) # to_be_bytes 8 n)"

text \<open>\<open>None\<close> for the key is the failure of the random generator.\<close>

definition encode_frame :: "ws_frame \<Rightarrow> frame_role \<Rightarrow> u8 list option \<Rightarrow> ws_error + u8 list" where
  "encode_frame f role key = and_then (validate_frame_for_encoding f) (\<lambda>_.
     let masked = (role = Client);
         head = first_byte f # length_bytes (if masked then 0x80 else 0) (length (f_payload f))
     in if masked
        then (case key of
            None \<Rightarrow> Inl (ws_err Io ''failed to generate WebSocket mask'')
          | Some k \<Rightarrow> Inr (head @ k @ apply_mask k (f_payload f)))
        else Inr (head @ f_payload f))"

section \<open>Messages\<close>

definition append_with_limit :: "u8 list \<Rightarrow> u8 list \<Rightarrow> usize \<Rightarrow> ws_error + u8 list" where
  "append_with_limit destination source limit =
     (if limit - length destination < length source
      then Inl (ws_err PayloadTooLarge ''fragmented WebSocket message exceeds the configured limit'')
      else Inr (destination @ source))"

text \<open>The end of a flushed DEFLATE block, which \<open>permessage-deflate\<close> leaves out.\<close>

definition block_end :: "u8 list" where
  "block_end = [0, 0, 0xFF, 0xFF]"

text \<open>The coder and decoder of \<open>flate2\<close>: \<open>deflate p\<close> is the encoded stream, \<open>inflate n e\<close> reads at most
  \<open>n\<close> bytes of what \<open>e\<close> encodes; both may fail.\<close>

type_synonym deflate_coder = "u8 list \<Rightarrow> string + u8 list"
type_synonym inflate_coder = "usize \<Rightarrow> u8 list \<Rightarrow> string + u8 list"

definition compress_message :: "deflate_coder \<Rightarrow> u8 list \<Rightarrow> ws_error + u8 list" where
  "compress_message deflate payload = (case deflate payload of
     Inl e \<Rightarrow> Inl (ws_err Compression e)
   | Inr encoded \<Rightarrow> Inr (case strip_suffix block_end encoded of Some e \<Rightarrow> e | None \<Rightarrow> encoded))"

definition decompress_message :: "inflate_coder \<Rightarrow> u8 list \<Rightarrow> usize \<Rightarrow> ws_error + u8 list" where
  "decompress_message inflate payload limit = (case inflate (saturating_sum limit 1) (payload @ block_end) of
     Inl e \<Rightarrow> Inl (ws_err Compression e)
   | Inr decoded \<Rightarrow>
       if limit < length decoded then Inl (ws_err PayloadTooLarge ''decompressed WebSocket message exceeds the configured limit'')
       else Inr decoded)"

definition finish_fragment :: "inflate_coder \<Rightarrow> fragment_state \<Rightarrow> ws_config \<Rightarrow> bool \<Rightarrow> ws_error + ws_message option" where
  "finish_fragment inflate state config pmd =
     and_then (if fs_compressed state
         then if \<not> pmd then Inl (ws_err Protocol ''compressed WebSocket message was not negotiated'')
              else decompress_message inflate (fs_payload state) (max_message_bytes config)
         else Inr (fs_payload state)) (\<lambda>payload.
     if max_message_bytes config < length payload
     then Inl (ws_err PayloadTooLarge ''WebSocket message exceeds the configured limit'')
     else if fs_opcode state = 1
     then (case from_utf8 payload of
         Some s \<Rightarrow> Inr (Some (Text s))
       | None \<Rightarrow> Inl (ws_err Utf8 ''WebSocket text message is not valid UTF-8''))
     else if fs_opcode state = 2 then Inr (Some (Binary payload))
     else Inl (ws_err Protocol ''invalid fragmented message opcode''))"

text \<open>The assembler after a frame and what it answers. Taking the state out of the assembler leaves none behind on an error.\<close>

definition assemble :: "inflate_coder \<Rightarrow> fragment_state option \<Rightarrow> ws_frame \<Rightarrow> ws_config \<Rightarrow> bool \<Rightarrow>
    (ws_error + ws_message option) \<times> fragment_state option" where
  "assemble inflate fragments f config pmd =
     (if f_opcode f = 0 then
        (case fragments of
          None \<Rightarrow> (Inl (ws_err Protocol ''continuation frame without a fragmented message''), None)
        | Some state \<Rightarrow>
            if f_rsv1 f then (Inl (ws_err Protocol ''continuation frame must not set RSV1''), None)
            else (case append_with_limit (fs_payload state) (f_payload f) (max_message_bytes config) of
                Inl e \<Rightarrow> (Inl e, None)
              | Inr payload \<Rightarrow>
                  if f_fin f then (finish_fragment inflate (state\<lparr>fs_payload := payload\<rparr>) config pmd, None)
                  else (Inr None, Some (state\<lparr>fs_payload := payload\<rparr>))))
      else if f_opcode f = 1 \<or> f_opcode f = 2 then
        (if fragments \<noteq> None then (Inl (ws_err Protocol ''new data frame interrupted a fragmented message''), fragments)
         else let state = \<lparr>fs_opcode = f_opcode f, fs_compressed = f_rsv1 f, fs_payload = f_payload f\<rparr>
              in if f_fin f then (finish_fragment inflate state config pmd, fragments) else (Inr None, Some state))
      else (Inl (ws_err Protocol ''reserved WebSocket opcode''), fragments))"

section \<open>Operations of a connection\<close>

type_synonym 'a ws_op = "ws_conn \<Rightarrow> (ws_error + 'a) \<times> ws_conn"

definition ws_return :: "'a \<Rightarrow> 'a ws_op" where
  "ws_return x c = (Inr x, c)"

definition ws_fail :: "ws_error_kind \<Rightarrow> string \<Rightarrow> 'a ws_op" where
  "ws_fail k m c = (Inl (ws_err k m), c)"

definition ws_bind :: "'a ws_op \<Rightarrow> ('a \<Rightarrow> 'b ws_op) \<Rightarrow> 'b ws_op" where
  "ws_bind m k c = (case m c of (Inl e, c') \<Rightarrow> (Inl e, c') | (Inr x, c') \<Rightarrow> k x c')"

text \<open>The loop of \<open>read_exact_buffered\<close>: reads until the buffer has \<open>n\<close> bytes.\<close>

fun fill_buffer :: "usize \<Rightarrow> usize \<Rightarrow> u8 list \<Rightarrow> (string + u8 list) list \<Rightarrow> (ws_error + unit) \<times> u8 list \<times> (string + u8 list) list" where
  "fill_buffer n limit buffered [] =
     (if n \<le> length buffered then (Inr (), buffered, []) else (Inl (ws_err Closed ''WebSocket peer closed the connection''), buffered, []))"
| "fill_buffer n limit buffered (r # reads) =
     (if n \<le> length buffered then (Inr (), buffered, r # reads)
      else case r of
        Inl e \<Rightarrow> (Inl (ws_err Io e), buffered, reads)
      | Inr chunk \<Rightarrow>
          if chunk = [] then (Inl (ws_err Closed ''WebSocket peer closed the connection''), buffered, reads)
          else if limit < length (buffered @ chunk)
          then (Inl (ws_err PayloadTooLarge ''buffered WebSocket frame exceeds the configured limit''), buffered @ chunk, reads)
          else fill_buffer n limit (buffered @ chunk) reads)"

definition read_exact_buffered :: "usize \<Rightarrow> u8 list ws_op" where
  "read_exact_buffered n c =
     (case fill_buffer n (saturating_sum (max_frame_bytes (wc_config c)) 14) (wc_buffered c) (io_reads (wc_io c)) of
       (r, buffered, reads) \<Rightarrow>
         (let c' = c\<lparr>wc_buffered := buffered, wc_io := (wc_io c)\<lparr>io_reads := reads\<rparr>\<rparr>
          in case r of
            Inl e \<Rightarrow> (Inl e, c')
          | Inr _ \<Rightarrow> (Inr (take n buffered), c'\<lparr>wc_buffered := drop n buffered\<rparr>)))"

definition read_length :: "u8 \<Rightarrow> nat ws_op" where
  "read_length marker =
     (if marker \<le> 125 then ws_return (unat marker)
      else if marker = 126 then ws_bind (read_exact_buffered 2) (\<lambda>bs. ws_return (from_be_bytes bs))
      else ws_bind (read_exact_buffered 8) (\<lambda>bs.
        if 2 ^ 63 \<le> from_be_bytes bs then ws_fail Protocol ''WebSocket payload length has the high bit set''
        else ws_return (from_be_bytes bs)))"

definition read_mask :: "bool \<Rightarrow> u8 list option ws_op" where
  "read_mask masked = (if masked then ws_bind (read_exact_buffered 4) (\<lambda>bs. ws_return (Some bs)) else ws_return None)"

text \<open>A length of 64 bits always fits a \<open>usize\<close> on the 64-bit hosts the code is for.\<close>

text \<open>The settings of the connection do not change while a frame is read.\<close>

definition frame_reader :: "frame_role \<Rightarrow> bool \<Rightarrow> ws_config \<Rightarrow> ws_frame ws_op" where
  "frame_reader role pmd config = ws_bind (read_exact_buffered 2) (\<lambda>header.
     let first = header ! 0; second = header ! 1
     in if first AND 0x30 \<noteq> 0 then ws_fail Protocol ''RSV2 and RSV3 are reserved''
        else let fin = (first AND 0x80 \<noteq> 0); rsv1 = (first AND 0x40 \<noteq> 0); opcode = first AND 0x0F;
                 masked = (second AND 0x80 \<noteq> 0); expected_mask = (role = Server)
        in if masked \<noteq> expected_mask
           then ws_fail Protocol (if expected_mask then ''client-to-server WebSocket frames must be masked''
                                  else ''server-to-client WebSocket frames must not be masked'')
           else if rsv1 \<and> (\<not> pmd \<or> \<not> (opcode = 1 \<or> opcode = 2))
           then ws_fail Protocol ''RSV1 is only valid on negotiated data frames''
           else ws_bind (read_length (second AND 0x7F)) (\<lambda>n.
                if opcode AND 8 \<noteq> 0 \<and> (\<not> fin \<or> 125 < n)
                then ws_fail Protocol ''control frames must be final and at most 125 bytes''
                else if max_frame_bytes config < n \<or> max_message_bytes config < n
                then ws_fail PayloadTooLarge ''WebSocket frame exceeds the configured limit''
                else ws_bind (read_mask masked) (\<lambda>mask.
                     ws_bind (read_exact_buffered n) (\<lambda>payload.
                     ws_return \<lparr>f_fin = fin, f_rsv1 = rsv1, f_opcode = opcode, f_masked = masked,
                       f_payload = (case mask of Some k \<Rightarrow> apply_mask k payload | None \<Rightarrow> payload)\<rparr>))))"

definition read_frame :: "ws_frame ws_op" where
  "read_frame c = frame_reader (wc_role c) (wc_deflate c) (wc_config c) c"

definition write_all :: "u8 list \<Rightarrow> ws_io \<Rightarrow> (ws_error + unit) \<times> ws_io" where
  "write_all bytes io = (case io_writes io of
     Some (n, e) # rest \<Rightarrow> (Inl (ws_err Io e), io\<lparr>io_writes := rest, io_written := io_written io @ take n bytes\<rparr>)
   | outcomes \<Rightarrow> (Inr (), io\<lparr>io_writes := tl outcomes, io_written := io_written io @ bytes\<rparr>))"

text \<open>A client draws a key for every frame; the generator fails beyond the list.\<close>

definition next_key :: "ws_conn \<Rightarrow> u8 list option" where
  "next_key c = (case wc_keys c of k # _ \<Rightarrow> k | [] \<Rightarrow> None)"

definition write_frame :: "ws_frame \<Rightarrow> unit ws_op" where
  "write_frame f c =
     (let c' = (if validate_frame_for_encoding f = Inr () \<and> wc_role c = Client then c\<lparr>wc_keys := tl (wc_keys c)\<rparr> else c)
      in case encode_frame f (wc_role c) (next_key c) of
        Inl e \<Rightarrow> (Inl e, c')
      | Inr encoded \<Rightarrow> (case write_all encoded (wc_io c') of (r, io) \<Rightarrow> (r, c'\<lparr>wc_io := io\<rparr>)))"

definition send_control :: "u8 \<Rightarrow> u8 list \<Rightarrow> unit ws_op" where
  "send_control opcode payload =
     (if 125 < length payload then ws_fail PayloadTooLarge ''WebSocket control payload exceeds 125 bytes''
      else write_frame \<lparr>f_fin = True, f_rsv1 = False, f_opcode = opcode, f_masked = False, f_payload = payload\<rparr>)"

definition send_message :: "deflate_coder \<Rightarrow> ws_message \<Rightarrow> unit ws_op" where
  "send_message deflate message c =
     (if wc_closed c then ws_fail Closed ''cannot send on a closed WebSocket'' c
      else let opcode = (case message of Text _ \<Rightarrow> 1 | Binary _ \<Rightarrow> 2); payload = message_payload message
      in if max_message_bytes (wc_config c) < length payload
         then ws_fail PayloadTooLarge ''WebSocket message exceeds the configured limit'' c
         else (case (if wc_deflate c \<and> payload \<noteq> []
                     then and_then (compress_message deflate payload) (\<lambda>candidate.
                       Inr (if length candidate < length payload then (candidate, True) else (payload, False)))
                     else Inr (payload, False)) of
             Inl e \<Rightarrow> (Inl e, c)
           | Inr (payload', compressed) \<Rightarrow>
               write_frame \<lparr>f_fin = True, f_rsv1 = compressed, f_opcode = opcode, f_masked = False, f_payload = payload'\<rparr> c))"

definition send_text :: "deflate_coder \<Rightarrow> rust_str \<Rightarrow> unit ws_op" where
  "send_text deflate s = send_message deflate (Text s)"

definition send_binary :: "deflate_coder \<Rightarrow> u8 list \<Rightarrow> unit ws_op" where
  "send_binary deflate bs = send_message deflate (Binary bs)"

definition send_ping :: "u8 list \<Rightarrow> unit ws_op" where
  "send_ping payload = send_control 9 payload"

definition send_pong :: "u8 list \<Rightarrow> unit ws_op" where
  "send_pong payload = send_control 0xA payload"

definition validate_close_code :: "nat \<Rightarrow> ws_error + unit" where
  "validate_close_code code =
     (if \<not> (1000 \<le> code \<and> code \<le> 4999) \<or> code \<in> {1004, 1005, 1006, 1015} then Inl (ws_err Protocol ''invalid WebSocket close code'')
      else Inr ())"

definition validate_close_payload :: "u8 list \<Rightarrow> ws_error + unit" where
  "validate_close_payload payload =
     (if length payload = 1 then Inl (ws_err Protocol ''close frame payload cannot contain one byte'')
      else if 2 \<le> length payload
      then and_then (validate_close_code (from_be_bytes (take 2 payload))) (\<lambda>_.
           if from_utf8 (drop 2 payload) = None then Inl (ws_err Utf8 ''WebSocket close reason is not valid UTF-8'') else Inr ())
      else Inr ())"

text \<open>The source's \<open>close\<close>; the code is a 16-bit integer.\<close>

definition close_payload :: "16 word \<Rightarrow> rust_str \<Rightarrow> ws_error + u8 list" where
  "close_payload code reason =
     (if code = 0 then Inr []
      else and_then (validate_close_code (unat code)) (\<lambda>_.
        if reason \<noteq> [] \<and> 123 < byte_len reason then Inl (ws_err PayloadTooLarge ''WebSocket close reason is too long'')
        else Inr (to_be_bytes 2 (unat code) @ as_bytes reason)))"

definition close_connection :: "16 word \<Rightarrow> rust_str \<Rightarrow> unit ws_op" where
  "close_connection code reason c =
     (if wc_closed c then (Inr (), c)
      else case close_payload code reason of
        Inl e \<Rightarrow> (Inl e, c)
      | Inr payload \<Rightarrow> ws_bind (send_control 8 payload) (\<lambda>_ c'. (Inr (), c'\<lparr>wc_closed := True\<rparr>)) c)"

definition handle_peer_close :: "u8 list \<Rightarrow> unit ws_op" where
  "handle_peer_close payload c = (case validate_close_payload payload of
     Inl e \<Rightarrow> (Inl e, c)
   | Inr _ \<Rightarrow>
       ws_bind (if \<not> wc_closed c
         then write_frame \<lparr>f_fin = True, f_rsv1 = False, f_opcode = 8, f_masked = False, f_payload = payload\<rparr> else ws_return ())
         (\<lambda>_ c'. (Inr (), c'\<lparr>wc_closed := True\<rparr>)) c)"

section \<open>Receiving\<close>

text \<open>The bytes that are still to come; every frame takes some of them.\<close>

definition unread_bytes :: "u8 list \<Rightarrow> (string + u8 list) list \<Rightarrow> nat" where
  "unread_bytes buffered reads = length buffered + sum_list (map (case_sum (\<lambda>_. 0) length) reads)"

definition unread :: "ws_conn \<Rightarrow> nat" where
  "unread c = unread_bytes (wc_buffered c) (io_reads (wc_io c))"

lemma unread_bytes_simps [simp]:
  "unread_bytes buffered [] = length buffered"
  "unread_bytes buffered (Inr chunk # reads) = unread_bytes (buffered @ chunk) reads"
  "unread_bytes buffered (Inl e # reads) = unread_bytes buffered reads"
  by (simp_all add: unread_bytes_def)

lemma fill_buffer_unread:
  "fill_buffer n limit buffered reads = (Inr (), buffered', reads') \<Longrightarrow>
   n \<le> length buffered' \<and> unread_bytes buffered' reads' = unread_bytes buffered reads"
  by (induction n limit buffered reads rule: fill_buffer.induct) (auto split: if_splits sum.splits)

lemma read_exact_unread:
  assumes "read_exact_buffered n c = (Inr bs, c')"
  shows "unread c' + n = unread c"
proof -
  obtain buffered reads where f: "fill_buffer n (saturating_sum (max_frame_bytes (wc_config c)) 14) (wc_buffered c) (io_reads (wc_io c)) = (Inr (), buffered, reads)"
    and c': "c' = c\<lparr>wc_buffered := drop n buffered, wc_io := (wc_io c)\<lparr>io_reads := reads\<rparr>\<rparr>"
    using assms by (auto simp: read_exact_buffered_def Let_def split: prod.splits sum.splits)
  show ?thesis using fill_buffer_unread [OF f] by (auto simp: c' unread_def unread_bytes_def)
qed

lemma ws_bind_Inr: "ws_bind m k c = (Inr y, c') \<longleftrightarrow> (\<exists>x c1. m c = (Inr x, c1) \<and> k x c1 = (Inr y, c'))"
  by (auto simp: ws_bind_def split: prod.splits sum.splits)

lemma ws_simps [simp]: "ws_return x c = (Inr x, c)" "ws_fail k m c = (Inl (ws_err k m), c)"
  by (simp_all add: ws_return_def ws_fail_def)

lemma read_length_unread: "read_length marker c = (Inr n, c') \<Longrightarrow> unread c' \<le> unread c"
  by (auto simp: read_length_def ws_bind_Inr split: if_splits dest!: read_exact_unread)

lemma read_mask_unread: "read_mask masked c = (Inr m, c') \<Longrightarrow> unread c' \<le> unread c"
  by (auto simp: read_mask_def ws_bind_Inr split: if_splits dest!: read_exact_unread)

lemma read_frame_unread:
  assumes "read_frame c = (Inr f, c')"
  shows "unread c' < unread c"
proof -
  obtain header c1 n c2 mask c3 payload where
    "read_exact_buffered 2 c = (Inr header, c1)" "read_length (header ! 1 AND 0x7F) c1 = (Inr n, c2)"
    "read_mask (header ! 1 AND 0x80 \<noteq> 0) c2 = (Inr mask, c3)" "read_exact_buffered n c3 = (Inr payload, c')"
    using assms unfolding read_frame_def frame_reader_def ws_bind_Inr Let_def by (auto simp: ws_bind_Inr split: if_splits)
  then show ?thesis
    using read_exact_unread [of 2 c] read_length_unread [of _ c1] read_mask_unread [of _ c2] read_exact_unread [of n c3] by fastforce
qed

lemma write_all_reads [simp]: "io_reads (snd (write_all bytes io)) = io_reads io"
  by (simp add: write_all_def split: list.splits option.splits)

lemma write_all_reads_pair: "write_all bytes io = (r, io') \<Longrightarrow> io_reads io' = io_reads io"
  using write_all_reads [of bytes io] by simp

lemma write_frame_unread: "write_frame f c = (r, c') \<Longrightarrow> unread c' = unread c"
  by (auto simp: write_frame_def unread_def Let_def split: sum.splits prod.splits if_splits dest!: write_all_reads_pair)

lemma send_control_unread: "send_control opcode payload c = (r, c') \<Longrightarrow> unread c' = unread c"
  by (auto simp: send_control_def write_frame_unread split: if_splits)

lemma unread_assembler [simp]: "unread (c\<lparr>wc_assembler := a\<rparr>) = unread c"
  by (simp add: unread_def)

function receive_loop :: "inflate_coder \<Rightarrow> ws_message option ws_op" where
  "receive_loop inflate c = (case read_frame c of
     (Inl e, c1) \<Rightarrow> (Inl e, c1)
   | (Inr f, c1) \<Rightarrow>
       if f_opcode f = 8 then ws_bind (handle_peer_close (f_payload f)) (\<lambda>_. ws_return None) c1
       else if f_opcode f = 9 then (case send_pong (f_payload f) c1 of
           (Inl e, c2) \<Rightarrow> (Inl e, c2)
         | (Inr _, c2) \<Rightarrow> receive_loop inflate c2)
       else if f_opcode f = 0xA then receive_loop inflate c1
       else (case assemble inflate (wc_assembler c1) f (wc_config c1) (wc_deflate c1) of (r, fragments) \<Rightarrow>
           case r of
             Inl e \<Rightarrow> (Inl e, c1\<lparr>wc_assembler := fragments\<rparr>)
           | Inr (Some message) \<Rightarrow> (Inr (Some message), c1\<lparr>wc_assembler := fragments\<rparr>)
           | Inr None \<Rightarrow> receive_loop inflate (c1\<lparr>wc_assembler := fragments\<rparr>)))"
  by pat_completeness auto
termination
  by (relation "measure (\<lambda>(inflate, c). unread c)")
    (auto simp: send_pong_def dest!: read_frame_unread sym [of _ "read_frame _"] send_control_unread [OF sym])

declare receive_loop.simps [simp del]

definition receive_message :: "inflate_coder \<Rightarrow> ws_message option ws_op" where
  "receive_message inflate c = (if wc_closed c then (Inr None, c) else receive_loop inflate c)"

section \<open>The TLS gateway's pump\<close>

fun tls_fill :: "usize \<Rightarrow> usize \<Rightarrow> u8 list \<Rightarrow> (string + u8 list) list \<Rightarrow> (u8 list \<times> (string + u8 list) list) option" where
  "tls_fill n max_buffered buffered [] = (if n \<le> length buffered then Some (buffered, []) else None)"
| "tls_fill n max_buffered buffered (r # reads) =
     (if n \<le> length buffered then Some (buffered, r # reads)
      else case r of
        Inl e \<Rightarrow> None
      | Inr chunk \<Rightarrow>
          if chunk = [] then None
          else if max_buffered < length (buffered @ chunk) then None
          else tls_fill n max_buffered (buffered @ chunk) reads)"

text \<open>A reader of the buffer and the stream; \<open>None\<close> ends the connection.\<close>

type_synonym 'a tls_op = "u8 list \<Rightarrow> (string + u8 list) list \<Rightarrow> ('a \<times> u8 list \<times> (string + u8 list) list) option"

definition tls_bind :: "'a tls_op \<Rightarrow> ('a \<Rightarrow> 'b tls_op) \<Rightarrow> 'b tls_op" where
  "tls_bind m k buffered reads = Option.bind (m buffered reads) (\<lambda>(x, buffered', reads'). k x buffered' reads')"

definition tls_return :: "'a \<Rightarrow> 'a tls_op" where
  "tls_return x buffered reads = Some (x, buffered, reads)"

definition tls_none :: "'a tls_op" where
  "tls_none buffered reads = None"

definition tls_read_exact :: "usize \<Rightarrow> usize \<Rightarrow> u8 list tls_op" where
  "tls_read_exact n max_buffered buffered reads =
     map_option (\<lambda>(buffered', reads'). (take n buffered', drop n buffered', reads')) (tls_fill n max_buffered buffered reads)"

definition tls_read_length :: "u8 \<Rightarrow> usize \<Rightarrow> nat tls_op" where
  "tls_read_length marker max_buffered =
     (if marker \<le> 125 then tls_return (unat marker)
      else if marker = 126 then tls_bind (tls_read_exact 2 max_buffered) (\<lambda>bs. tls_return (from_be_bytes bs))
      else if marker = 127 then tls_bind (tls_read_exact 8 max_buffered) (\<lambda>bs.
        if 2 ^ 63 \<le> from_be_bytes bs then tls_none else tls_return (from_be_bytes bs))
      else tls_none)"

definition tls_read_frame :: "ws_config \<Rightarrow> bool \<Rightarrow> ws_frame tls_op" where
  "tls_read_frame config pmd =
     (let max_buffered = saturating_sum (max_frame_bytes config) 14
      in tls_bind (tls_read_exact 2 max_buffered) (\<lambda>header.
         let first = header ! 0; second = header ! 1
         in if first AND 0x30 \<noteq> 0 then tls_none
            else let fin = (first AND 0x80 \<noteq> 0); rsv1 = (first AND 0x40 \<noteq> 0); opcode = first AND 0x0F; masked = (second AND 0x80 \<noteq> 0)
            in if \<not> masked then tls_none
               else if rsv1 \<and> (\<not> pmd \<or> \<not> (opcode = 1 \<or> opcode = 2)) then tls_none
               else tls_bind (tls_read_length (second AND 0x7F) max_buffered) (\<lambda>n.
                    if opcode AND 8 \<noteq> 0 \<and> (\<not> fin \<or> 125 < n) then tls_none
                    else if max_frame_bytes config < n \<or> max_message_bytes config < n then tls_none
                    else tls_bind (tls_read_exact 4 max_buffered) (\<lambda>mask.
                         tls_bind (tls_read_exact n max_buffered) (\<lambda>payload.
                         tls_return \<lparr>f_fin = fin, f_rsv1 = rsv1, f_opcode = opcode, f_masked = masked,
                           f_payload = apply_mask mask payload\<rparr>)))))"

definition tls_write_frame :: "ws_frame \<Rightarrow> ws_io \<Rightarrow> bool \<times> ws_io" where
  "tls_write_frame f io = (case encode_frame f Server None of
     Inl _ \<Rightarrow> (False, io)
   | Inr encoded \<Rightarrow> (case write_all encoded io of (r, io') \<Rightarrow> (r = Inr (), io')))"

definition reply_frame :: "u8 \<Rightarrow> u8 list \<Rightarrow> ws_frame" where
  "reply_frame opcode payload = \<lparr>f_fin = True, f_rsv1 = False, f_opcode = opcode, f_masked = False, f_payload = payload\<rparr>"

lemma tls_fill_unread:
  "tls_fill n limit buffered reads = Some (buffered', reads') \<Longrightarrow>
   n \<le> length buffered' \<and> unread_bytes buffered' reads' = unread_bytes buffered reads"
  by (induction n limit buffered reads rule: tls_fill.induct) (auto split: if_splits sum.splits)

lemma tls_read_exact_unread:
  "tls_read_exact n limit buffered reads = Some (bs, buffered', reads') \<Longrightarrow> unread_bytes buffered' reads' + n = unread_bytes buffered reads"
  by (auto simp: tls_read_exact_def unread_bytes_def dest!: tls_fill_unread)

lemma tls_bind_Some:
  "tls_bind m k buffered reads = Some r \<longleftrightarrow> (\<exists>x b' r'. m buffered reads = Some (x, b', r') \<and> k x b' r' = Some r)"
  by (auto simp: tls_bind_def bind_eq_Some_conv)

lemma tls_simps [simp]: "tls_return x buffered reads = Some (x, buffered, reads)" "tls_none buffered reads = None"
  by (simp_all add: tls_return_def tls_none_def)

lemma tls_read_length_unread:
  "tls_read_length marker limit buffered reads = Some (n, buffered', reads') \<Longrightarrow> unread_bytes buffered' reads' \<le> unread_bytes buffered reads"
  by (auto simp: tls_read_length_def tls_bind_Some split: if_splits dest!: tls_read_exact_unread)

lemma tls_read_frame_unread:
  assumes "tls_read_frame config pmd buffered reads = Some (f, buffered', reads')"
  shows "unread_bytes buffered' reads' < unread_bytes buffered reads"
proof -
  let ?m = "saturating_sum (max_frame_bytes config) 14"
  obtain header b1 r1 n b2 r2 mask b3 r3 payload where
    "tls_read_exact 2 ?m buffered reads = Some (header, b1, r1)" "tls_read_length (header ! 1 AND 0x7F) ?m b1 r1 = Some (n, b2, r2)"
    "tls_read_exact 4 ?m b2 r2 = Some (mask, b3, r3)" "tls_read_exact n ?m b3 r3 = Some (payload, buffered', reads')"
    using assms unfolding tls_read_frame_def Let_def tls_bind_Some by (auto simp: tls_bind_Some split: if_splits)
  then show ?thesis by (fastforce dest!: tls_read_exact_unread tls_read_length_unread)
qed

text \<open>The loop of the pump, up to the point where it returns and drops the connection.\<close>

function pump :: "inflate_coder \<Rightarrow> ws_config \<Rightarrow> bool \<Rightarrow> fragment_state option \<Rightarrow> u8 list \<Rightarrow> ws_io \<Rightarrow> ws_io" where
  "pump inflate config pmd fragments buffered io = (case tls_read_frame config pmd buffered (io_reads io) of
     None \<Rightarrow> io
   | Some (f, buffered', reads') \<Rightarrow>
       let io1 = io\<lparr>io_reads := reads'\<rparr>
       in if f_opcode f = 8
          then (if \<not> isl (validate_close_payload (f_payload f)) then snd (tls_write_frame (reply_frame 8 (f_payload f)) io1) else io1)
          else if f_opcode f = 9
          then (case tls_write_frame (reply_frame 0xA (f_payload f)) io1 of (ok, io2) \<Rightarrow>
                if ok then pump inflate config pmd fragments buffered' io2 else io2)
          else if f_opcode f = 0xA then pump inflate config pmd fragments buffered' io1
          else (case assemble inflate fragments f config pmd of (r, fragments') \<Rightarrow>
              case r of
                Inl _ \<Rightarrow> io1
              | Inr None \<Rightarrow> pump inflate config pmd fragments' buffered' io1
              | Inr (Some message) \<Rightarrow>
                  (case tls_write_frame (reply_frame (case message of Text _ \<Rightarrow> 1 | Binary _ \<Rightarrow> 2) (message_payload message)) io1 of
                    (ok, io2) \<Rightarrow> if ok then pump inflate config pmd fragments' buffered' io2 else io2)))"
  by pat_completeness auto

lemma tls_write_frame_reads: "tls_write_frame f io = (ok, io') \<Longrightarrow> io_reads io' = io_reads io"
  by (auto simp: tls_write_frame_def split: sum.splits prod.splits dest!: write_all_reads_pair)

termination pump
  by (relation "measure (\<lambda>(inflate, config, pmd, fragments, buffered, io). unread_bytes buffered (io_reads io))")
    (auto dest!: tls_read_frame_unread tls_write_frame_reads [OF sym])

declare pump.simps [simp del]

definition serve_tls_upgrade_pump :: "inflate_coder \<Rightarrow> rust_str \<Rightarrow> bool \<Rightarrow> ws_config \<Rightarrow> u8 list \<Rightarrow> ws_io \<Rightarrow> ws_io" where
  "serve_tls_upgrade_pump inflate response pmd config buffered io = (case write_all (as_bytes response) io of
     (Inl _, io') \<Rightarrow> io'
   | (Inr _, io') \<Rightarrow> pump inflate config pmd None buffered io')"

end
