(* ===== verification/Websocket_Handshake.thy ===== *)
theory Websocket_Handshake
  imports Websocket
begin

text \<open>
  The opening of a WebSocket connection, from \<open>src/packages/spectra-api/src/websocket.rs\<close>: base64, the header helpers, the
  URL of a client, both sides of the HTTP upgrade, the settings of client and server, and the queue of upgraded
  connections of a routed server. The SHA-1 digest of \<open>ring\<close> is a parameter, and so is the nonce its random generator gives.
\<close>

section \<open>Base64\<close>

definition base64_table :: "u8 list" where
  "base64_table = lit ''ABCDEFGHIJKLMNOPQRSTUVWXYZabcdefghijklmnopqrstuvwxyz0123456789+/''"

definition base64_char :: "u8 \<Rightarrow> rust_char" where
  "base64_char i = unat (base64_table ! unat i)"

abbreviation pad_char :: rust_char where "pad_char \<equiv> 61"

fun base64_encode :: "u8 list \<Rightarrow> rust_str" where
  "base64_encode [] = []"
| "base64_encode [a] = [base64_char (drop_bit 2 a), base64_char (push_bit 4 (a AND 3)), pad_char, pad_char]"
| "base64_encode [a, b] = [base64_char (drop_bit 2 a), base64_char (push_bit 4 (a AND 3) OR drop_bit 4 b),
     base64_char (push_bit 2 (b AND 0x0F)), pad_char]"
| "base64_encode (a # b # c # rest) = base64_char (drop_bit 2 a) # base64_char (push_bit 4 (a AND 3) OR drop_bit 4 b) #
     base64_char (push_bit 2 (b AND 0x0F) OR drop_bit 6 c) # base64_char (c AND 0x3F) # base64_encode rest"

definition base64_digit :: "u8 \<Rightarrow> u8 option" where
  "base64_digit v =
     (if 65 \<le> v \<and> v \<le> 90 then Some (v - 65)
      else if 97 \<le> v \<and> v \<le> 122 then Some (v - 97 + 26)
      else if 48 \<le> v \<and> v \<le> 57 then Some (v - 48 + 52)
      else if v = 43 then Some 62
      else if v = 47 then Some 63
      else None)"

definition third_digit :: "bool \<Rightarrow> u8 \<Rightarrow> u8 \<Rightarrow> u8 \<Rightarrow> u8 option" where
  "third_digit final_chunk b c d =
     (if c = 61 then if \<not> final_chunk \<or> d \<noteq> 61 then None else if b AND 0x0F \<noteq> 0 then None else Some 0
      else base64_digit c)"

definition fourth_digit :: "bool \<Rightarrow> u8 \<Rightarrow> u8 \<Rightarrow> u8 option" where
  "fourth_digit final_chunk c d =
     (if d = 61 then if \<not> final_chunk then None else if c AND 3 \<noteq> 0 then None else Some 0
      else base64_digit d)"

text \<open>The loop over the chunks of four; the length is a multiple of four.\<close>

fun decode_chunks :: "u8 list \<Rightarrow> u8 list option" where
  "decode_chunks (w # x # y # z # rest) =
     Option.bind (base64_digit w) (\<lambda>a. Option.bind (base64_digit x) (\<lambda>b.
     Option.bind (third_digit (rest = []) b y z) (\<lambda>c. Option.bind (fourth_digit (rest = []) c z) (\<lambda>d.
     Option.bind (decode_chunks rest) (\<lambda>out.
     Some ((push_bit 2 a OR drop_bit 4 b) # (if y \<noteq> 61 then [push_bit 4 b OR drop_bit 2 c] else []) @
       (if z \<noteq> 61 then [push_bit 6 c OR d] else []) @ out))))))"
| "decode_chunks _ = Some []"

definition base64_decode :: "rust_str \<Rightarrow> u8 list option" where
  "base64_decode v = (if v = [] \<or> byte_len v mod 4 \<noteq> 0 then None else decode_chunks (as_bytes v))"

section \<open>Headers\<close>

definition header_value :: "http_header list \<Rightarrow> rust_str \<Rightarrow> rust_str option" where
  "header_value headers name = map_option h_value (find (\<lambda>h. eq_ignore_ascii_case (h_name h) name) headers)"

definition header_contains_token :: "http_header list \<Rightarrow> rust_str \<Rightarrow> rust_str \<Rightarrow> bool" where
  "header_contains_token headers name token = (case header_value headers name of
     None \<Rightarrow> False
   | Some v \<Rightarrow> list_ex (\<lambda>part. eq_ignore_ascii_case (trim part) token) (split_on (ch CHR '','') v))"

definition extension_contains :: "rust_str \<Rightarrow> rust_str \<Rightarrow> bool" where
  "extension_contains v extension =
     list_ex (\<lambda>entry. eq_ignore_ascii_case (hd (split_on (ch CHR '';'') (trim entry))) extension) (split_on (ch CHR '','') v)"

definition negotiate_subprotocol :: "http_header list \<Rightarrow> rust_str list \<Rightarrow> rust_str option" where
  "negotiate_subprotocol headers supported = (case header_value headers (str ''Sec-WebSocket-Protocol'') of
     None \<Rightarrow> None
   | Some requested \<Rightarrow> find (\<lambda>candidate. candidate \<in> set supported) (map trim (split_on (ch CHR '','') requested)))"

definition websocket_guid :: "u8 list" where
  "websocket_guid = lit ''258EAFA5-E914-47DA-95CA-C5AB0DC85B11''"

type_synonym digest = "u8 list \<Rightarrow> u8 list"

definition websocket_accept_value :: "digest \<Rightarrow> rust_str \<Rightarrow> rust_str" where
  "websocket_accept_value sha1 key = base64_encode (sha1 (as_bytes key @ websocket_guid))"

section \<open>The server's side\<close>

definition is_upgrade_request :: "parsed_request \<Rightarrow> bool" where
  "is_upgrade_request r \<longleftrightarrow> rq_method r = str ''GET'' \<and> major (rq_version r) = 1 \<and> minor (rq_version r) = 1 \<and>
     header_contains_token (rq_headers r) (str ''Upgrade'') (str ''websocket'') \<and>
     header_contains_token (rq_headers r) (str ''Connection'') (str ''upgrade'')"

abbreviation crlf_str :: rust_str where "crlf_str \<equiv> [13, 10]"

record negotiation =
  ng_response :: rust_str
  ng_deflate :: bool

definition negotiate_upgrade_response :: "digest \<Rightarrow> parsed_request \<Rightarrow> ws_config \<Rightarrow> ws_error + negotiation" where
  "negotiate_upgrade_response sha1 r config =
     (if rq_method r \<noteq> str ''GET'' \<or> major (rq_version r) \<noteq> 1 \<or> minor (rq_version r) \<noteq> 1
      then Inl (ws_err Handshake ''WebSocket handshake requires GET over HTTP/1.1'')
      else if \<not> header_contains_token (rq_headers r) (str ''Upgrade'') (str ''websocket'') \<or>
              \<not> header_contains_token (rq_headers r) (str ''Connection'') (str ''upgrade'')
      then Inl (ws_err Handshake ''WebSocket handshake requires Upgrade and Connection tokens'')
      else (case header_value (rq_headers r) (str ''Sec-WebSocket-Key'') of
          None \<Rightarrow> Inl (ws_err Handshake ''Sec-WebSocket-Key header is missing'')
        | Some key \<Rightarrow> (case base64_decode (trim key) of
            None \<Rightarrow> Inl (ws_err Handshake ''Sec-WebSocket-Key is not valid base64'')
          | Some decoded_key \<Rightarrow>
              if length decoded_key \<noteq> 16 then Inl (ws_err Handshake ''Sec-WebSocket-Key must decode to 16 bytes'')
              else if map_option trim (header_value (rq_headers r) (str ''Sec-WebSocket-Version'')) \<noteq> Some (str ''13'')
              then Inl (ws_err Handshake ''only WebSocket version 13 is supported'')
              else let requested_extension = (case header_value (rq_headers r) (str ''Sec-WebSocket-Extensions'') of
                         None \<Rightarrow> False | Some v \<Rightarrow> extension_contains v (str ''permessage-deflate''));
                       deflate = (per_message_deflate config \<and> requested_extension);
                       protocol = negotiate_subprotocol (rq_headers r) (subprotocols config)
                   in Inr \<lparr>ng_response = str ''HTTP/1.1 101 Switching Protocols'' @ crlf_str @ str ''Upgrade: websocket'' @ crlf_str @
                         str ''Connection: Upgrade'' @ crlf_str @ str ''Sec-WebSocket-Accept: '' @ websocket_accept_value sha1 (trim key) @ crlf_str @
                         (case protocol of Some p \<Rightarrow> str ''Sec-WebSocket-Protocol: '' @ p @ crlf_str | None \<Rightarrow> []) @
                         (if deflate then str ''Sec-WebSocket-Extensions: permessage-deflate; server_no_context_takeover; client_no_context_takeover'' @ crlf_str
                          else []) @ crlf_str,
                       ng_deflate = deflate\<rparr>)))"

fun read_http_headers :: "usize \<Rightarrow> u8 list \<Rightarrow> (string + u8 list) list \<Rightarrow> (ws_error + usize) \<times> u8 list \<times> (string + u8 list) list" where
  "read_http_headers limit buffered reads = (case find_header_end buffered of
     Some i \<Rightarrow> (Inr (i + 4), buffered, reads)
   | None \<Rightarrow>
       if limit \<le> length buffered
       then (Inl (ws_err PayloadTooLarge ''WebSocket handshake headers exceed the configured limit''), buffered, reads)
       else (case reads of
           [] \<Rightarrow> (Inl (ws_err Closed ''peer closed before the WebSocket handshake completed''), buffered, [])
         | r # reads' \<Rightarrow> (case r of
             Inl e \<Rightarrow> (Inl (ws_err Io e), buffered, reads')
           | Inr chunk \<Rightarrow>
               if chunk = [] then (Inl (ws_err Closed ''peer closed before the WebSocket handshake completed''), buffered, reads')
               else read_http_headers limit (buffered @ chunk) reads')))"

declare read_http_headers.simps [simp del]

definition handshake_bytes :: usize where
  "handshake_bytes = 64 * 1024"

definition new_connection :: "ws_io \<Rightarrow> ws_config \<Rightarrow> frame_role \<Rightarrow> bool \<Rightarrow> u8 list \<Rightarrow> u8 list option list \<Rightarrow> ws_conn" where
  "new_connection io config role deflate buffered keys = \<lparr>wc_io = io, wc_config = config, wc_role = role, wc_deflate = deflate,
     wc_assembler = None, wc_buffered = buffered, wc_closed = False, wc_keys = keys\<rparr>"

text \<open>The handshake gives the connection or an error, with the transport as it was left; \<open>None\<close> is a panic of the HTTP parser.\<close>

definition accept_handshake_request :: "digest \<Rightarrow> ws_io \<Rightarrow> ws_config \<Rightarrow> parsed_request \<Rightarrow> u8 list \<Rightarrow> (ws_error + ws_conn) \<times> ws_io" where
  "accept_handshake_request sha1 io config r buffered = (case negotiate_upgrade_response sha1 r config of
     Inl e \<Rightarrow> (Inl e, io)
   | Inr n \<Rightarrow> (case write_all (as_bytes (ng_response n)) io of
       (Inl e, io') \<Rightarrow> (Inl e, io')
     | (Inr _, io') \<Rightarrow> (Inr (new_connection io' config Server (ng_deflate n) buffered []), io')))"

definition accept_handshake :: "digest \<Rightarrow> ws_io \<Rightarrow> ws_config \<Rightarrow> ((ws_error + ws_conn) \<times> ws_io) option" where
  "accept_handshake sha1 io config = (case read_http_headers handshake_bytes [] (io_reads io) of
     (Inl e, buffered, reads) \<Rightarrow> Some (Inl e, io\<lparr>io_reads := reads\<rparr>)
   | (Inr header_end, buffered, reads) \<Rightarrow> map_option (\<lambda>p. case p of
       Inl e \<Rightarrow> (Inl (ws_err Handshake (''invalid WebSocket HTTP handshake: '' @ show_parse_error e)), io\<lparr>io_reads := reads\<rparr>)
     | Inr r \<Rightarrow> accept_handshake_request sha1 (io\<lparr>io_reads := reads\<rparr>) config r (drop header_end buffered))
       (parse_request (take header_end buffered)))"

section \<open>The client's side\<close>

record ws_url =
  u_host :: rust_str
  u_port :: nat
  u_host_header :: rust_str
  u_path :: rust_str
  u_tls :: bool

definition parse_websocket_port :: "rust_str \<Rightarrow> ws_error + nat" where
  "parse_websocket_port port =
     (if port = [] \<or> \<not> list_all (\<lambda>b. is_ascii_digit (unat b)) (as_bytes port) then Inl (ws_err InvalidArgument ''WebSocket port is invalid'')
      else case from_str_radix 10 u16_max port of
        None \<Rightarrow> Inl (ws_err InvalidArgument ''WebSocket port is out of range'')
      | Some p \<Rightarrow> Inr p)"

definition rsplit_once :: "'a \<Rightarrow> 'a list \<Rightarrow> ('a list \<times> 'a list) option" where
  "rsplit_once d s = map_option (\<lambda>(a, b). (rev b, rev a)) (split_once d (rev s))"

definition parse_websocket_authority :: "rust_str \<Rightarrow> nat \<Rightarrow> ws_error + rust_str \<times> nat" where
  "parse_websocket_authority authority default_port =
     (case strip_prefix [ch CHR ''[''] authority of
       Some inner \<Rightarrow> (case split_once (ch CHR '']'') inner of
           None \<Rightarrow> Inl (ws_err InvalidArgument ''WebSocket IPv6 authority is missing ]'')
         | Some (host, suffix) \<Rightarrow>
             if host = [] then Inl (ws_err InvalidArgument ''WebSocket host is empty'')
             else if suffix = [] then Inr (host, default_port)
             else (case strip_prefix [ch CHR '':''] suffix of
                 Some port \<Rightarrow> and_then (parse_websocket_port port) (\<lambda>p. Inr (host, p))
               | None \<Rightarrow> Inl (ws_err InvalidArgument ''WebSocket IPv6 authority has an invalid port'')))
     | None \<Rightarrow>
         if 1 < count_list authority (ch CHR '':'') then Inl (ws_err InvalidArgument ''IPv6 WebSocket literals must be enclosed in brackets'')
         else (case rsplit_once (ch CHR '':'') authority of
             Some (host, port) \<Rightarrow>
               if host = [] then Inl (ws_err InvalidArgument ''WebSocket host is empty'')
               else and_then (parse_websocket_port port) (\<lambda>p. Inr (host, p))
           | None \<Rightarrow> Inr (authority, default_port)))"

definition is_ascii_whitespace :: "u8 \<Rightarrow> bool" where
  "is_ascii_whitespace b \<longleftrightarrow> b = 32 \<or> b = 9 \<or> b = 10 \<or> b = 12 \<or> b = 13"

definition url_scheme :: "rust_str \<Rightarrow> (bool \<times> rust_str) option" where
  "url_scheme url = (case strip_prefix (str ''ws://'') url of
     Some rest \<Rightarrow> Some (False, rest)
   | None \<Rightarrow> map_option (\<lambda>rest. (True, rest)) (strip_prefix (str ''wss://'') url))"

definition parse_websocket_url :: "rust_str \<Rightarrow> ws_error + ws_url" where
  "parse_websocket_url url = (case url_scheme url of
     None \<Rightarrow> Inl (ws_err UnsupportedScheme ''WebSocket client supports ws:// and wss:// URLs'')
   | Some (tls, rest) \<Rightarrow>
       let (authority, path) = (if ch CHR ''/'' \<in> set rest
             then (takeWhile (\<lambda>c. c \<noteq> ch CHR ''/'') rest, dropWhile (\<lambda>c. c \<noteq> ch CHR ''/'') rest) else (rest, str ''/''))
       in if authority = [] \<or> ch CHR ''@'' \<in> set authority \<or> list_ex is_ascii_whitespace (as_bytes authority) \<or>
             list_ex (\<lambda>b. b = 13 \<or> b = 10) (as_bytes path) \<or> ch CHR ''#'' \<in> set path
          then Inl (ws_err InvalidArgument ''WebSocket URL authority or path is invalid'')
          else and_then (parse_websocket_authority authority (if tls then 443 else 80)) (\<lambda>(host, port).
               Inr \<lparr>u_host = host, u_port = port,
                 u_host_header = (if ch CHR '':'' \<in> set host then str ''['' @ host @ str '']:'' @ str (decimal port) else host @ str '':'' @ str (decimal port)),
                 u_path = (if path = [] then str ''/'' else path), u_tls = tls\<rparr>))"

definition client_request :: "ws_url \<Rightarrow> rust_str \<Rightarrow> ws_config \<Rightarrow> rust_str" where
  "client_request url key config =
     str ''GET '' @ u_path url @ str '' HTTP/1.1'' @ crlf_str @ str ''Host: '' @ u_host_header url @ crlf_str @
     str ''Upgrade: websocket'' @ crlf_str @ str ''Connection: Upgrade'' @ crlf_str @ str ''Sec-WebSocket-Key: '' @ key @ crlf_str @
     str ''Sec-WebSocket-Version: 13'' @ crlf_str @
     (if per_message_deflate config then str ''Sec-WebSocket-Extensions: permessage-deflate'' @ crlf_str else []) @ crlf_str"

text \<open>What the client makes of the response: whether the extension was agreed on.\<close>

definition check_upgrade_response :: "digest \<Rightarrow> rust_str \<Rightarrow> ws_config \<Rightarrow> parsed_response \<Rightarrow> ws_error + bool" where
  "check_upgrade_response sha1 key config r =
     (if rs_status r \<noteq> 101 \<or> major (rs_version r) \<noteq> 1 \<or> minor (rs_version r) \<noteq> 1 \<or>
         \<not> header_contains_token (rs_headers r) (str ''Upgrade'') (str ''websocket'') \<or>
         \<not> header_contains_token (rs_headers r) (str ''Connection'') (str ''upgrade'')
      then Inl (ws_err Handshake ''WebSocket server did not return a valid 101 upgrade'')
      else if map_option trim (header_value (rs_headers r) (str ''Sec-WebSocket-Accept'')) \<noteq> Some (websocket_accept_value sha1 key)
      then Inl (ws_err Handshake ''WebSocket server returned an invalid Sec-WebSocket-Accept'')
      else let negotiated = (case header_value (rs_headers r) (str ''Sec-WebSocket-Extensions'') of
                 None \<Rightarrow> False | Some v \<Rightarrow> extension_contains v (str ''permessage-deflate''))
           in if negotiated \<and> \<not> per_message_deflate config
              then Inl (ws_err Handshake ''WebSocket server negotiated an extension the client did not request'')
              else Inr negotiated)"

text \<open>The peer's address is asked of the stream at the end; \<open>no_peer\<close> is the error of the system where it does not know it.\<close>

definition client_handshake :: "digest \<Rightarrow> u8 list option \<Rightarrow> u8 list option list \<Rightarrow> string option \<Rightarrow> ws_io \<Rightarrow> ws_url \<Rightarrow> ws_config \<Rightarrow>
    ((ws_error + ws_conn) \<times> ws_io) option" where
  "client_handshake sha1 nonce keys no_peer io url config = (case nonce of
     None \<Rightarrow> Some (Inl (ws_err Io ''failed to generate WebSocket handshake nonce''), io)
   | Some n \<Rightarrow>
       let key = base64_encode n
       in (case write_all (as_bytes (client_request url key config)) io of
           (Inl e, io1) \<Rightarrow> Some (Inl e, io1)
         | (Inr _, io1) \<Rightarrow> (case read_http_headers handshake_bytes [] (io_reads io1) of
             (Inl e, buffered, reads) \<Rightarrow> Some (Inl e, io1\<lparr>io_reads := reads\<rparr>)
           | (Inr header_end, buffered, reads) \<Rightarrow>
               let io2 = io1\<lparr>io_reads := reads\<rparr>
               in map_option (\<lambda>p. case p of
                    Inl e \<Rightarrow> (Inl (ws_err Handshake (''invalid WebSocket HTTP response: '' @ show_parse_error e)), io2)
                  | Inr r \<Rightarrow> (case check_upgrade_response sha1 key config r of
                      Inl e \<Rightarrow> (Inl e, io2)
                    | Inr deflate \<Rightarrow> (case no_peer of
                        Some e \<Rightarrow> (Inl (ws_err Io e), io2)
                      | None \<Rightarrow> (Inr (new_connection io2 config Client deflate (drop header_end buffered) keys), io2))))
                    (parse_response (take header_end buffered)))))"

section \<open>Settings\<close>

text \<open>A client and its server share the setting of the message limit. A duration is in milliseconds.\<close>

definition valid_limit :: "usize \<Rightarrow> bool" where
  "valid_limit n \<longleftrightarrow> n \<noteq> 0 \<and> n \<le> default_max_bytes"

definition lower_limits :: "usize \<Rightarrow> ws_config \<Rightarrow> ws_config" where
  "lower_limits n config = config\<lparr>max_message_bytes := n, max_frame_bytes := min (max_frame_bytes config) n\<rparr>"

record ws_client =
  cl_config :: ws_config
  cl_attempts :: nat
  cl_backoff :: nat

definition new_client :: ws_client where
  "new_client = \<lparr>cl_config = default_ws_config, cl_attempts = 0, cl_backoff = 100\<rparr>"

definition client_set_per_message_deflate :: "bool \<Rightarrow> ws_client \<Rightarrow> ws_client" where
  "client_set_per_message_deflate enabled cl = cl\<lparr>cl_config := (cl_config cl)\<lparr>per_message_deflate := enabled\<rparr>\<rparr>"

definition client_set_max_message_bytes :: "usize \<Rightarrow> ws_client \<Rightarrow> ws_error + ws_client" where
  "client_set_max_message_bytes n cl =
     (if \<not> valid_limit n then Inl (ws_err InvalidArgument ''WebSocket message limit is outside the supported range'')
      else Inr (cl\<lparr>cl_config := lower_limits n (cl_config cl)\<rparr>))"

definition client_set_reconnect :: "nat \<Rightarrow> nat \<Rightarrow> ws_client \<Rightarrow> ws_error + ws_client" where
  "client_set_reconnect attempts backoff cl =
     (if 10 < attempts \<or> 60000 < backoff then Inl (ws_err InvalidArgument ''WebSocket reconnect configuration is outside the supported range'')
      else Inr (cl\<lparr>cl_attempts := attempts, cl_backoff := backoff\<rparr>))"

text \<open>The state a routed server shares with the HTTP server: the settings and the connections upgraded and not yet accepted.
  Nothing closes it.\<close>

record routed_state =
  ro_config :: ws_config
  ro_pending :: "ws_conn list"
  ro_closed :: bool

definition new_routed :: "ws_config \<Rightarrow> routed_state" where
  "new_routed config = \<lparr>ro_config = config, ro_pending = [], ro_closed = False\<rparr>"

definition update_config :: "ws_config \<Rightarrow> routed_state \<Rightarrow> routed_state" where
  "update_config config ro = ro\<lparr>ro_config := config\<rparr>"

definition enqueue :: "ws_conn \<Rightarrow> routed_state \<Rightarrow> routed_state" where
  "enqueue c ro = (if ro_closed ro then ro else ro\<lparr>ro_pending := ro_pending ro @ [c]\<rparr>)"

text \<open>One round of \<open>accept\<close>; \<open>None\<close> waits for another.\<close>

definition routed_accept :: "bool \<Rightarrow> routed_state \<Rightarrow> (ws_error + ws_conn) option \<times> routed_state" where
  "routed_accept cancelled ro =
     (if cancelled then (Some (Inl (ws_err Cancelled ''routed WebSocket accept was cancelled'')), ro)
      else if ro_closed ro then (Some (Inl (ws_err Closed ''routed WebSocket server is closed'')), ro)
      else (case ro_pending ro of
          c # rest \<Rightarrow> (Some (Inr c), ro\<lparr>ro_pending := rest\<rparr>)
        | [] \<Rightarrow> (None, ro)))"

record ws_server =
  sv_listening :: bool
  sv_config :: ws_config
  sv_routed :: bool
  sv_state :: routed_state

definition new_server :: ws_server where
  "new_server = \<lparr>sv_listening = False, sv_config = default_ws_config, sv_routed = False, sv_state = new_routed default_ws_config\<rparr>"

text \<open>\<open>bound\<close> says whether the port could be bound.\<close>

definition listen :: "(string + unit) \<Rightarrow> ws_server \<Rightarrow> (ws_error + unit) \<times> ws_server" where
  "listen bound sv =
     (if sv_listening sv \<or> sv_routed sv
      then (Inl (ws_err InvalidArgument ''WebSocket server is already listening or attached to an HTTP route''), sv)
      else case bound of Inl e \<Rightarrow> (Inl (ws_err Io e), sv) | Inr _ \<Rightarrow> (Inr (), sv\<lparr>sv_listening := True\<rparr>))"

definition server_set_per_message_deflate :: "bool \<Rightarrow> ws_server \<Rightarrow> (ws_error + unit) \<times> ws_server" where
  "server_set_per_message_deflate enabled sv =
     (if sv_listening sv then (Inl (ws_err InvalidArgument ''WebSocket compression must be configured before listen''), sv)
      else let config = (sv_config sv)\<lparr>per_message_deflate := enabled\<rparr>
           in (Inr (), sv\<lparr>sv_config := config, sv_state := update_config config (sv_state sv)\<rparr>))"

definition server_set_max_message_bytes :: "usize \<Rightarrow> ws_server \<Rightarrow> (ws_error + unit) \<times> ws_server" where
  "server_set_max_message_bytes n sv =
     (if \<not> valid_limit n then (Inl (ws_err InvalidArgument ''WebSocket message limit is outside the supported range''), sv)
      else if sv_listening sv then (Inl (ws_err InvalidArgument ''WebSocket limits must be configured before listen''), sv)
      else let config = lower_limits n (sv_config sv)
           in (Inr (), sv\<lparr>sv_config := config, sv_state := update_config config (sv_state sv)\<rparr>))"

definition attach_to_http_route :: "ws_server \<Rightarrow> (ws_error + unit) \<times> ws_server" where
  "attach_to_http_route sv =
     (if sv_listening sv \<or> sv_routed sv
      then (Inl (ws_err InvalidArgument ''WebSocket server is already listening or attached to an HTTP route''), sv)
      else (Inr (), sv\<lparr>sv_routed := True, sv_state := update_config (sv_config sv) (sv_state sv)\<rparr>))"

definition detach_from_http_route :: "ws_server \<Rightarrow> ws_server" where
  "detach_from_http_route sv = sv\<lparr>sv_routed := False\<rparr>"

end
