(* ===== verification/Http_Roundtrip.thy ===== *)
theory Http_Roundtrip
  imports Http_Message
begin

text \<open>
  Printing and parsing of HTTP/1.1 messages: \<open>parse_next_request\<close> reads back what \<open>serialize_request\<close> wrote, and
  leaves the bytes behind it, for every message the types can hold that is well-formed in the sense of
  \<open>good_request\<close>; the same for responses. The last section has what falls outside.
\<close>

section \<open>Text\<close>

lemma ascii_if_bytes_ascii:
  assumes "scalar_value c" "list_all (\<lambda>b. unat b < 128) (encode_utf8 c)"
  shows "c < 128"
proof (rule ccontr)
  assume "\<not> c < 128"
  then have "decode_char (encode_utf8 c @ []) = Some (c, []) \<and> 128 \<le> c" using decode_encode [OF assms(1), of "[]"] by simp
  with assms(2) show False
    by (cases "encode_utf8 c") (auto simp: decode_char_def)
qed

lemma tchar_ascii: "is_tchar b \<Longrightarrow> unat b < 128"
proof -
  have "\<forall>b \<in> set (lit ''!#$%&*+-.^_|~''). unat b < 128" by (simp add: lit_def unat_byte)
  then show "is_tchar b \<Longrightarrow> unat b < 128"
    by (auto simp: is_tchar_def is_ascii_alphanumeric_def is_ascii_digit_def is_ascii_alphabetic_def)
qed

lemma ascii_text:
  assumes "list_all scalar_value s" "list_all (\<lambda>b. unat b < 128) (as_bytes s)"
  shows "list_all (\<lambda>c. c < 128) s"
  using assms by (induction s) (auto intro: ascii_if_bytes_ascii)

lemma token_ascii: "list_all scalar_value s \<Longrightarrow> list_all is_tchar (as_bytes s) \<Longrightarrow> list_all (\<lambda>c. c < 128) s"
  by (rule ascii_text) (auto simp: list_all_iff tchar_ascii)

lemma not_tchar: "\<not> is_tchar 13" "\<not> is_tchar 58" "\<not> is_tchar 32" "\<not> is_tchar 9"
  by code_simp+

text \<open>A byte below 128 occurs in the encoding exactly where its character does.\<close>

lemma ascii_in_encoding:
  assumes "scalar_value c" "n < 128"
  shows "byte n \<in> set (encode_utf8 c) \<longleftrightarrow> c = n"
proof -
  have c: "c < 0x110000" using assms by (auto simp: scalar_value_def)
  have high: "byte n \<noteq> byte m" if "128 \<le> m" "m < 256" for m using assms that by (auto simp: byte_inject)
  consider "c < 128" | "128 \<le> c" "c < 0x800" | "0x800 \<le> c" "c < 0x10000" | "0x10000 \<le> c" by linarith
  then show ?thesis
  proof cases
    case 1
    then show ?thesis using assms by (auto simp: encode_utf8_def byte_inject)
  next
    case 2
    then have "c div 64 < 32" by (simp add: less_mult_imp_div_less)
    then show ?thesis using 2 assms by (auto simp: encode_utf8_def high)
  next
    case 3
    then have "c div 4096 < 16" by (simp add: less_mult_imp_div_less)
    then show ?thesis using 3 assms by (auto simp: encode_utf8_def high)
  next
    case 4
    then have "c div 262144 < 5" using c by (simp add: less_mult_imp_div_less)
    then show ?thesis using 4 assms by (auto simp: encode_utf8_def high)
  qed
qed

lemma ascii_in_bytes: "list_all scalar_value s \<Longrightarrow> n < 128 \<Longrightarrow> byte n \<in> set (as_bytes s) \<longleftrightarrow> n \<in> set s"
  by (induction s) (auto simp: ascii_in_encoding)

section \<open>Lines\<close>

lemma position_of_skip:
  "x \<notin> set l \<Longrightarrow> position_of (x # pat) (l @ bs) = map_option (\<lambda>i. length l + i) (position_of (x # pat) bs)"
  by (cases "position_of (x # pat) bs"; induction l) auto

lemma find_crlf_line:
  assumes "13 \<notin> set l"
  shows "find_crlf (pre @ l @ 13 # 10 # rest) (length pre) = Some (length pre + length l)"
  using position_of_skip [OF assms, of "[10]" "13 # 10 # rest"] by (simp add: find_crlf_def)

lemma find_crlf_none: "13 \<notin> set l \<Longrightarrow> find_crlf (pre @ l) (length pre) = None"
  using position_of_skip [of 13 l "[10]" "[]"] by (simp add: find_crlf_def)

lemma slice_line [simp]: "slice (pre @ l @ rest) (length pre) (length pre + length l) = l"
  by (simp add: slice_def)

text \<open>Lines with their ends, and lines with line ends between them.\<close>

definition lines_text :: "u8 list list \<Rightarrow> u8 list" where
  "lines_text ls = concat (map (\<lambda>l. l @ crlf) ls)"

lemma lines_text_simps [simp]: "lines_text [] = []" "lines_text (l # ls) = l @ 13 # 10 # lines_text ls"
  by (simp_all add: lines_text_def)

fun joined :: "u8 list list \<Rightarrow> u8 list" where
  "joined [] = []"
| "joined [l] = l"
| "joined (l # k # ls) = l @ 13 # 10 # joined (k # ls)"

lemma lines_text_joined: "ls \<noteq> [] \<Longrightarrow> lines_text ls = joined ls @ crlf"
  by (induction ls rule: joined.induct) simp_all

text \<open>A line that can stand in a header section.\<close>

definition head_line :: "u8 list \<Rightarrow> bool" where
  "head_line l \<longleftrightarrow> l \<noteq> [] \<and> 13 \<notin> set l \<and> \<not> is_blank (hd l)"

lemma find_header_end_joined:
  "ls \<noteq> [] \<Longrightarrow> list_all head_line ls \<Longrightarrow> find_header_end (joined ls @ 13 # 10 # 13 # 10 # rest) = Some (length (joined ls))"
  unfolding find_header_end_def
proof (induction ls rule: joined.induct)
  case (2 l)
  then show ?case by (simp add: position_of_skip head_line_def)
next
  case (3 l k ls)
  obtain x k' where k: "k = x # k'" "x \<noteq> 13" using "3.prems" by (cases k) (auto simp: head_line_def)
  have j: "\<exists>t. joined (k # ls) = x # t" using k by (cases ls) simp_all
  have "position_of [13, 10, 13, 10] (joined (k # ls) @ 13 # 10 # 13 # 10 # rest) = Some (length (joined (k # ls)))"
    using 3 by simp
  with j k(2) "3.prems" show ?case by (auto simp: position_of_skip head_line_def)
qed simp

section \<open>Headers\<close>

definition header_line :: "http_header \<Rightarrow> u8 list" where
  "header_line h = as_bytes (h_name h) @ lit '': '' @ as_bytes (h_value h)"

text \<open>A header that survives: a field name as the grammar has it and a value in printable ASCII, blanks and tabs, with none
  at its ends.\<close>

definition good_header :: "http_header \<Rightarrow> bool" where
  "good_header h \<longleftrightarrow> list_all scalar_value (h_name h) \<and> is_valid_header_name (h_name h) \<and>
     list_all (\<lambda>c. c < 128) (h_value h) \<and> is_valid_header_value (h_value h) \<and>
     (h_value h = [] \<or> hd (h_value h) \<notin> {9, 32} \<and> last (h_value h) \<notin> {9, 32})"

lemma write_headers_lines: "write_headers hs = lines_text (map header_line hs)"
  by (simp add: write_headers_def lines_text_def header_line_def comp_def)

lemma bytes_to_http_value_ascii:
  "list_all (\<lambda>c. c < 128) s \<Longrightarrow> list_all field_byte (map byte s) \<Longrightarrow> bytes_to_http_value (map byte s) pos = Inr s"
  by (induction s arbitrary: pos) (simp_all add: unat_byte)

lemma bytes_to_ascii_name:
  "list_all scalar_value s \<Longrightarrow> list_all is_tchar (as_bytes s) \<Longrightarrow> bytes_to_ascii (as_bytes s) pos = Inr s"
proof -
  assume s: "list_all scalar_value s" "list_all is_tchar (as_bytes s)"
  then have "\<not> list_ex (\<lambda>b. \<not> b < 128) (as_bytes s)"
    by (auto simp: list_ex_iff list_all_iff word_less_nat_alt dest!: tchar_ascii)
  with from_utf8_as_bytes [OF s(1)] show ?thesis by (simp add: bytes_to_ascii_def)
qed

lemma trim_blanks_value:
  assumes "list_all (\<lambda>c. c < 128) v" "v = [] \<or> hd v \<notin> {9, 32} \<and> last v \<notin> {9, 32}"
  shows "trim_matches is_blank (map byte v) = map byte v"
proof (rule trim_matches_id, cases "v = []")
  case False
  then have "hd v < 128" "last v < 128" using assms(1) by (auto simp: list_all_iff)
  moreover have "byte c \<noteq> 9 \<and> byte c \<noteq> 32" if "c < 128" "c \<notin> {9, 32}" for c
    using that byte_inject [of c 9] byte_inject [of c 32] by simp
  ultimately show "map byte v = [] \<or> \<not> is_blank (hd (map byte v)) \<and> \<not> is_blank (last (map byte v))"
    using assms(2) False by (auto simp: is_blank_def hd_map last_map)
qed simp

lemma parse_header_line:
  assumes "good_header h"
  shows "parse_header (header_line h) pos = Inr h"
proof -
  let ?n = "as_bytes (h_name h)"
  have n: "list_all scalar_value (h_name h)" "list_all is_tchar ?n" "h_name h \<noteq> []"
    and v: "list_all (\<lambda>c. c < 128) (h_value h)" "list_all field_byte (map byte (h_value h))"
      "h_value h = [] \<or> hd (h_value h) \<notin> {9, 32} \<and> last (h_value h) \<notin> {9, 32}"
    using assms by (auto simp: good_header_def is_valid_header_name_def is_valid_header_value_def as_bytes_ascii)
  have "58 \<notin> set ?n" using n(2) not_tchar by (auto simp: list_all_iff)
  then have s: "split_once 58 (header_line h) = Some (?n, 32 # as_bytes (h_value h))"
    using split_once_append [of 58 ?n] by (simp add: header_line_def lit_def)
  have t: "trim_matches is_blank (32 # map byte (h_value h)) = map byte (h_value h)"
    using trim_blanks_value [OF v(1,3)] by (simp add: trim_matches_def is_blank_def)
  show ?thesis using n v
    by (simp add: parse_header_def s as_bytes_ascii t bytes_to_ascii_name is_valid_header_name_def is_valid_header_value_def
      bytes_to_http_value_ascii Let_def)
qed

lemma header_line_good: "good_header h \<Longrightarrow> head_line (header_line h)"
proof -
  assume h: "good_header h"
  then have n: "list_all is_tchar (as_bytes (h_name h))" "h_name h \<noteq> []" and v: "list_all field_byte (as_bytes (h_value h))"
    by (auto simp: good_header_def is_valid_header_name_def is_valid_header_value_def)
  have "as_bytes (h_name h) \<noteq> []" using n(2) by (cases "h_name h") simp_all
  moreover have "\<not> field_byte 13" by code_simp
  ultimately show ?thesis using n v not_tchar
    by (cases "as_bytes (h_name h)") (auto simp: head_line_def header_line_def list_all_iff lit_def is_blank_def)
qed

lemma head_headers_joined:
  assumes "list_all good_header hs"
  shows "head_headers (pre @ joined (map header_line hs)) base (length pre) = Inr hs"
  using assms
proof (induction hs arbitrary: pre)
  case Nil
  show ?case by (simp add: head_headers.simps)
next
  case (Cons h hs)
  let ?l = "header_line h"
  have l: "?l \<noteq> []" "13 \<notin> set ?l" "\<not> is_blank (hd ?l)" using Cons.prems header_line_good by (auto simp: head_line_def)
  have p: "parse_header ?l (base + length pre) = Inr h" using Cons.prems by (simp add: parse_header_line)
  show ?case
  proof (cases hs)
    case Nil
    then show ?thesis using l p slice_line [of pre ?l "[]"]
      by (subst head_headers.simps) (simp add: find_crlf_none Let_def head_headers.simps [of _ _ "length pre + length ?l"])
  next
    case (Cons k ks)
    let ?r = "joined (map header_line hs)"
    have "joined (map header_line (h # hs)) = ?l @ 13 # 10 # ?r" using Cons by simp
    moreover have "head_headers (pre @ ?l @ 13 # 10 # ?r) base (length pre + length ?l + 2) = Inr hs"
      using Cons.IH [of "pre @ ?l @ crlf"] Cons.prems by simp
    ultimately show ?thesis using l p by (subst head_headers.simps) (simp add: find_crlf_line Let_def)
  qed
qed

section \<open>Start lines\<close>

lemma decimal_ascii: "list_all (\<lambda>c. c < 128) (str (decimal n))"
  using decimal_digits [of n] by (auto simp: list_all_iff is_ascii_digit_def)

lemma decimal_bytes: "as_bytes (str (decimal n)) = map byte (str (decimal n))"
  by (rule as_bytes_ascii [OF decimal_ascii])

lemma decimal_bytes_digits: "list_all (\<lambda>b. is_ascii_digit (unat b)) (as_bytes (str (decimal n)))"
  using decimal_digits [of n] by (auto simp: decimal_bytes list_all_iff is_ascii_digit_def unat_byte)

lemma decimal_no: "c < 48 \<or> 57 < c \<Longrightarrow> c \<notin> set (str (decimal n))"
  using decimal_digits [of n] by (auto simp: list_all_iff is_ascii_digit_def)

lemma parse_version_show: "parse_version (show_version v) pos = Inr v"
proof -
  let ?a = "str (decimal (unat (major v)))" and ?b = "str (decimal (unat (minor v)))"
  have l: "unat b \<le> u8_max" for b :: u8
    using unsigned_less [of b, where ?'a = nat] by (simp add: u8_max_def)
  have "show_version v = str ''HTTP/'' @ ?a @ 46 # ?b" by (simp add: show_version_def)
  moreover have "split_once 46 (?a @ 46 # ?b) = Some (?a, ?b)" by (rule split_once_append) (simp add: decimal_no)
  ultimately show ?thesis using l
    by (simp add: parse_version_def strip_prefix_def decimal_nonempty decimal_bytes_digits from_str_radix_decimal del: str_append(3))
qed

lemma show_version_chars: "c < 46 \<or> 57 < c \<and> c < 65 \<Longrightarrow> c \<notin> set (show_version v)" "show_version v \<noteq> []"
  by (auto simp: show_version_def decimal_no)

lemma show_version_ascii: "list_all (\<lambda>c. c < 128) (show_version v)"
  using decimal_ascii by (simp add: show_version_def)

lemma scalar_if_ascii: "list_all (\<lambda>c. c < 128) s \<Longrightarrow> list_all scalar_value s"
  by (auto simp: list_all_iff scalar_value_def)

definition request_line :: "parsed_request \<Rightarrow> rust_str" where
  "request_line r = rq_method r @ 32 # rq_target r @ 32 # show_version (rq_version r)"

definition status_line :: "parsed_response \<Rightarrow> rust_str" where
  "status_line r = show_version (rs_version r) @ 32 # str (decimal (unat (rs_status r))) @ 32 # rs_reason r"

text \<open>The start lines the grammar allows.\<close>

definition good_request_line :: "parsed_request \<Rightarrow> bool" where
  "good_request_line r \<longleftrightarrow> list_all scalar_value (rq_method r) \<and> is_token (rq_method r) \<and>
     rq_target r \<noteq> [] \<and> list_all scalar_value (rq_target r) \<and> \<not> list_ex (\<lambda>b. b \<le> 32 \<or> b = 0x7F) (as_bytes (rq_target r))"

definition good_status_line :: "parsed_response \<Rightarrow> bool" where
  "good_status_line r \<longleftrightarrow> 100 \<le> unat (rs_status r) \<and> unat (rs_status r) \<le> 999 \<and>
     list_all scalar_value (rs_reason r) \<and> is_reason_phrase (rs_reason r)"

lemma good_request_line_chars:
  assumes "good_request_line r"
  shows "32 \<notin> set (rq_method r)" "32 \<notin> set (rq_target r)" "13 \<notin> set (as_bytes (rq_method r))" "13 \<notin> set (as_bytes (rq_target r))"
    "rq_method r \<noteq> []" "\<not> is_blank (hd (as_bytes (rq_method r)))"
proof -
  have m: "list_all scalar_value (rq_method r)" "list_all is_tchar (as_bytes (rq_method r))" "rq_method r \<noteq> []"
    and t: "list_all scalar_value (rq_target r)" "\<forall>b \<in> set (as_bytes (rq_target r)). \<not> b \<le> 32"
    using assms by (auto simp: good_request_line_def is_token_def list_ex_iff)
  have "32 \<notin> set (as_bytes (rq_method r))" "32 \<notin> set (as_bytes (rq_target r))"
    using m(2) t(2) not_tchar by (auto simp: list_all_iff)
  then show "32 \<notin> set (rq_method r)" "32 \<notin> set (rq_target r)"
    using ascii_in_bytes [OF m(1), of 32] ascii_in_bytes [OF t(1), of 32] by simp_all
  show "13 \<notin> set (as_bytes (rq_method r))" "13 \<notin> set (as_bytes (rq_target r))"
    using m(2) t(2) not_tchar by (auto simp: list_all_iff)
  show "rq_method r \<noteq> []" by (rule m)
  then have "as_bytes (rq_method r) \<noteq> []" by (cases "rq_method r") simp_all
  with m(2) not_tchar show "\<not> is_blank (hd (as_bytes (rq_method r)))"
    by (cases "as_bytes (rq_method r)") (auto simp: is_blank_def)
qed

lemma parse_request_line:
  assumes "good_request_line r"
  shows "parse_start_line (as_bytes (request_line r)) pos RequestMode =
    Inr \<lparr>sl_version = rq_version r, sl_kind = RequestLine (rq_method r) (rq_target r)\<rparr>"
proof -
  note c = good_request_line_chars [OF assms]
  have "split_on 32 (request_line r) = [rq_method r, rq_target r, show_version (rq_version r)]"
    using c by (simp add: request_line_def split_on_append split_on_fresh show_version_chars)
  moreover have "from_utf8 (as_bytes (request_line r)) = Some (request_line r)" using assms
    by (intro from_utf8_as_bytes)
      (simp add: request_line_def good_request_line_def scalar_if_ascii show_version_ascii scalar_value_def)
  ultimately show ?thesis using assms c
    by (simp add: parse_start_line_def Http_Message.parse_request_line_def Let_def part_def show_version_chars parse_version_show
      good_request_line_def)
qed

lemma three_digits:
  assumes "100 \<le> n" "n \<le> 999"
  shows "length (str (decimal n)) = 3"
proof -
  have "\<not> n < 10" "\<not> n div 10 < 10" "n div 10 div 10 < 10" using assms by (simp_all add: div_mult2_eq [symmetric])
  then show ?thesis by (simp add: str_decimal [of n] str_decimal [of "n div 10"] str_decimal [of "n div 10 div 10"])
qed

lemma parse_status_line:
  assumes "good_status_line r"
  shows "parse_start_line (as_bytes (status_line r)) pos ResponseMode =
    Inr \<lparr>sl_version = rs_version r, sl_kind = StatusLine (rs_status r) (rs_reason r)\<rparr>"
proof -
  let ?n = "unat (rs_status r)"
  have n: "100 \<le> ?n" "?n \<le> 999" and reason: "list_all scalar_value (rs_reason r)" "is_reason_phrase (rs_reason r)"
    using assms by (simp_all add: good_status_line_def)
  have "splitn3 32 (status_line r) = [show_version (rs_version r), str (decimal ?n), rs_reason r]"
    by (simp add: status_line_def splitn3_def split_once_append show_version_chars decimal_no)
  moreover have "from_utf8 (as_bytes (status_line r)) = Some (status_line r)" using reason
    by (intro from_utf8_as_bytes)
      (simp add: status_line_def scalar_if_ascii show_version_ascii decimal_ascii scalar_value_def)
  moreover have "byte_len (str (decimal ?n)) = 3" using three_digits [OF n] by (simp add: length_as_bytes [symmetric] decimal_bytes)
  moreover have "from_str_radix 10 u16_max (str (decimal ?n)) = Some ?n" using n by (simp add: from_str_radix_decimal u16_max_def)
  ultimately show ?thesis using n reason
    by (simp add: parse_start_line_def Http_Message.parse_status_line_def Let_def part_def show_version_chars parse_version_show
      decimal_nonempty decimal_bytes_digits)
qed

section \<open>Bodies\<close>

definition good_chunk :: "parser_config \<Rightarrow> body_chunk \<Rightarrow> bool" where
  "good_chunk cfg c \<longleftrightarrow> chunk_data c \<noteq> [] \<and> length (chunk_data c) \<le> max_chunk_bytes cfg \<and> length (chunk_data c) \<le> usize_max \<and>
     (case chunk_extension c of None \<Rightarrow> True
      | Some e \<Rightarrow> e \<noteq> [] \<and> list_all scalar_value e \<and> trim e = e \<and> 13 \<notin> set e)"

text \<open>A body framed the way the headers say.\<close>

definition good_body :: "parser_config \<Rightarrow> body_meta \<Rightarrow> http_body \<Rightarrow> bool" where
  "good_body cfg meta b \<longleftrightarrow> (case meta of
     EmptyBody \<Rightarrow> b = empty_body
   | ContentLength n \<Rightarrow> b = body_from_bytes (body_bytes b) \<and> length (body_bytes b) = n \<and> n \<le> max_body_bytes cfg
   | Chunked \<Rightarrow> body_chunked b \<and> list_all (good_chunk cfg) (body_chunks b) \<and> length (body_bytes b) \<le> max_body_bytes cfg \<and>
       list_all good_header (body_trailers b))"

definition size_line :: "body_chunk \<Rightarrow> u8 list" where
  "size_line c = as_bytes (upper_hex (length (chunk_data c))) @ (case chunk_extension c of Some e \<Rightarrow> lit '';'' @ as_bytes e | None \<Rightarrow> [])"

lemma write_chunk_size_line: "write_chunk c = size_line c @ 13 # 10 # chunk_data c @ crlf"
  by (simp add: write_chunk_def size_line_def)

lemma upper_hex_ascii: "list_all (\<lambda>c. c < 128) (upper_hex n)"
  using upper_hex_digits [of n] by (auto simp: list_all_iff is_ascii_hexdigit_def is_ascii_digit_def)

lemma upper_hex_bytes: "as_bytes (upper_hex n) = map byte (upper_hex n)"
  by (rule as_bytes_ascii [OF upper_hex_ascii])

lemma upper_hex_no: "c < 48 \<or> 57 < c \<and> c < 65 \<Longrightarrow> c \<notin> set (upper_hex n)"
  using upper_hex_digits [of n] by (auto simp: list_all_iff is_ascii_hexdigit_def is_ascii_digit_def)

lemma trim_upper_hex: "trim (upper_hex n) = upper_hex n"
proof -
  have "\<not> is_whitespace c" if "c \<in> set (upper_hex n)" for c
    using that upper_hex_digits [of n] by (auto simp: list_all_iff is_whitespace_def is_ascii_hexdigit_def is_ascii_digit_def)
  then show ?thesis unfolding trim_def using upper_hex_nonempty by (intro trim_matches_id) simp
qed

lemma hex_bytes_digits: "list_all (\<lambda>b. is_ascii_hexdigit (unat b)) (as_bytes (upper_hex n))"
  using upper_hex_digits [of n] by (auto simp: upper_hex_bytes list_all_iff unat_byte is_ascii_hexdigit_def is_ascii_digit_def)

lemma parse_size_line:
  assumes "good_chunk cfg c"
  shows "parse_chunk_size_line (size_line c) pos = Inr (length (chunk_data c), chunk_extension c)"
proof -
  let ?n = "length (chunk_data c)"
  let ?t = "upper_hex ?n @ (case chunk_extension c of Some e \<Rightarrow> 59 # e | None \<Rightarrow> [])"
  have e: "list_all scalar_value e \<and> trim e = e \<and> e \<noteq> []" if "chunk_extension c = Some e" for e
    using assms that by (simp add: good_chunk_def)
  have b: "size_line c = as_bytes ?t" by (cases "chunk_extension c") (simp_all add: size_line_def lit_def encode_ascii)
  have "from_utf8 (size_line c) = Some ?t" unfolding b
    by (rule from_utf8_as_bytes) (use e in \<open>auto simp: scalar_if_ascii upper_hex_ascii scalar_value_def split: option.splits\<close>)
  moreover have "from_str_radix 16 usize_max (upper_hex ?n) = Some ?n"
    using assms by (simp add: from_str_radix_hex good_chunk_def)
  ultimately show ?thesis using e
    by (cases "chunk_extension c")
      (auto simp: parse_chunk_size_line_def split_once_append split_once_fresh upper_hex_no trim_upper_hex hex_bytes_digits upper_hex_nonempty)
qed

lemma parse_last_size: "parse_chunk_size_line [48] pos = Inr (0, None)"
proof -
  have u: "from_utf8 [48] = Some [48]" using from_utf8_as_bytes [of "[48]"] by (simp add: encode_ascii scalar_value_def)
  have t: "trim [48] = [48]" unfolding trim_def by (rule trim_matches_id) (simp add: is_whitespace_def)
  show ?thesis
    by (simp add: parse_chunk_size_line_def u t split_once_fresh encode_ascii is_ascii_hexdigit_def is_ascii_digit_def
      from_str_radix_def to_digit_def)
qed

lemma size_line_no_cr:
  assumes "good_chunk cfg c"
  shows "13 \<notin> set (size_line c)"
proof -
  have "13 \<notin> set (as_bytes e)" if "chunk_extension c = Some e" for e
    using assms that ascii_in_bytes [of e 13] by (simp add: good_chunk_def)
  moreover have "13 \<notin> set (as_bytes (upper_hex n))" for n
    using ascii_in_bytes [of "upper_hex n" 13] by (simp add: scalar_if_ascii upper_hex_ascii upper_hex_no)
  ultimately show ?thesis by (auto simp: size_line_def lit_def split: option.splits)
qed

lemma trailer_lines_written:
  assumes "list_all good_header hs"
  shows "trailer_lines (pre @ lines_text (map header_line hs) @ 13 # 10 # rest) base (length pre) =
    Inr (Some (hs, length pre + length (lines_text (map header_line hs)) + 2))"
  using assms
proof (induction hs arbitrary: pre)
  case Nil
  show ?case using find_crlf_line [of "[]" pre rest] slice_line [of pre "[]"] by (subst trailer_lines.simps) simp
next
  case (Cons h hs)
  let ?l = "header_line h" and ?r = "lines_text (map header_line hs) @ 13 # 10 # rest"
  have l: "?l \<noteq> []" "13 \<notin> set ?l" "\<not> is_blank (hd ?l)" using Cons.prems header_line_good by (auto simp: head_line_def)
  have p: "parse_header ?l (base + length pre) = Inr h" using Cons.prems by (simp add: parse_header_line)
  have "trailer_lines (pre @ ?l @ 13 # 10 # ?r) base (length pre + length ?l + 2) =
      Inr (Some (hs, length pre + length ?l + 2 + length (lines_text (map header_line hs)) + 2))"
    using Cons.IH [of "pre @ ?l @ crlf"] Cons.prems by simp
  with l p show ?case by (subst trailer_lines.simps) (simp add: find_crlf_line Let_def)
qed

lemma chunk_loop_written:
  fixes trailers rest
  defines "ending \<equiv> 48 # 13 # 10 # lines_text (map header_line trailers) @ 13 # 10 # rest"
  assumes "list_all (good_chunk cfg) cs" "n + length (concat (map chunk_data cs)) \<le> max_body_bytes cfg" "list_all good_header trailers"
    and "length pre + length (concat (map write_chunk cs)) \<le> usize_max"
  shows "chunk_loop cfg (pre @ concat (map write_chunk cs) @ ending) base (length pre) done n =
    Some (Inr (Some (\<lparr>body_chunks = done @ cs, body_trailers = trailers, body_chunked = True\<rparr>,
      length pre + length (concat (map write_chunk cs)) + 3 + length (lines_text (map header_line trailers)) + 2)))"
  using assms(2-3,5)
proof (induction cs arbitrary: pre "done" n)
  case Nil
  have z: "parse_chunk_size_line [48] (base + length pre) = Inr (0, None)" by (rule parse_last_size)
  have "trailer_lines (pre @ ending) base (length pre + 3) =
      Inr (Some (trailers, length pre + 3 + length (lines_text (map header_line trailers)) + 2))"
    using trailer_lines_written [OF assms(4), of "pre @ [48, 13, 10]" rest base] by (simp add: ending_def eval_nat_numeral)
  moreover have "find_crlf (pre @ ending) (length pre) = Some (length pre + 1)" "slice (pre @ ending) (length pre) (length pre + 1) = [48]"
    using find_crlf_line [of "[48]" pre] slice_line [of pre "[48]"] by (simp_all add: ending_def)
  ultimately show ?case using Nil.prems z
    by (subst chunk_loop.simps) (simp add: Let_def parse_trailer_section_def saturating_sum_def numeral_3_eq_3)
next
  case (Cons c cs)
  let ?l = "size_line c" and ?d = "chunk_data c" and ?r = "concat (map write_chunk cs) @ ending"
  let ?b = "pre @ ?l @ 13 # 10 # ?d @ 13 # 10 # ?r" and ?m = "saturating_sum n (length ?d)"
  have g: "good_chunk cfg c" "list_all (good_chunk cfg) cs" using Cons.prems by simp_all
  have d: "?d \<noteq> []" "length ?d \<le> max_chunk_bytes cfg" using g(1) by (simp_all add: good_chunk_def)
  have m: "?m + length (concat (map chunk_data cs)) \<le> max_body_bytes cfg" using Cons.prems by (simp add: saturating_sum_def)
  have sl: "slice ?b (length pre + length ?l + 2) (length pre + length ?l + 2 + length ?d) = ?d"
    "slice ?b (length pre + length ?l + 2 + length ?d) (length pre + length ?l + 2 + length ?d + 2) = crlf"
    using slice_line [of "pre @ ?l @ crlf" ?d "13 # 10 # ?r"] slice_line [of "pre @ ?l @ 13 # 10 # ?d" crlf ?r] by (simp_all add: add.assoc)
  have fits: "length pre + length ?l + 2 + length ?d + 2 + length (concat (map write_chunk cs)) \<le> usize_max"
    using Cons.prems(3) by (simp add: write_chunk_size_line [of c])
  then have "chunk_loop cfg ?b base (length pre + length ?l + 2 + length ?d + 2) (done @ [c]) ?m =
    Some (Inr (Some (\<lparr>body_chunks = done @ c # cs, body_trailers = trailers, body_chunked = True\<rparr>,
      length pre + length (concat (map write_chunk (c # cs))) + 3 + length (lines_text (map header_line trailers)) + 2)))"
    using Cons.IH [OF g(2) m, of "pre @ ?l @ 13 # 10 # ?d @ crlf" "done @ [c]"] by (simp add: write_chunk_size_line [of c] algebra_simps)
  moreover have eta: "\<lparr>chunk_data = ?d, chunk_extension = chunk_extension c\<rparr> = c" by simp
  moreover have buffer: "pre @ concat (map write_chunk (c # cs)) @ ending = ?b" by (simp add: write_chunk_size_line)
  ultimately show ?case unfolding buffer using d m sl parse_size_line [OF g(1)] find_crlf_line [OF size_line_no_cr [OF g(1)]]
    by (subst chunk_loop.simps) (use fits in \<open>simp add: Let_def not_less eta overflows_def\<close>)
qed

lemma parse_body_written:
  assumes "good_body cfg meta b" "body_chunked b \<longrightarrow> length pre + length (write_body b) \<le> usize_max"
  shows "parse_body (pre @ write_body b @ rest) (length pre) base cfg meta = Some (Inr (Some (b, length (write_body b))))"
proof (cases meta)
  case EmptyBody
  with assms show ?thesis by (simp add: good_body_def parse_body_def empty_body_def write_body_def)
next
  case (ContentLength n)
  then have b: "b = body_from_bytes (body_bytes b)" "length (body_bytes b) = n" "n \<le> max_body_bytes cfg"
    using assms by (simp_all add: good_body_def)
  have "\<not> body_chunked b" by (subst b(1)) (simp add: body_from_bytes_def empty_body_def)
  then have "write_body b = body_bytes b" by (simp add: write_body_def body_bytes_def)
  with b show ?thesis using ContentLength slice_line [of pre "body_bytes b" rest] by (simp add: parse_body_def)
next
  case Chunked
  then have b: "body_chunked b" "list_all (good_chunk cfg) (body_chunks b)" "length (body_bytes b) \<le> max_body_bytes cfg"
    "list_all good_header (body_trailers b)" using assms by (simp_all add: good_body_def)
  have w: "write_body b = concat (map write_chunk (body_chunks b)) @ 48 # 13 # 10 # lines_text (map header_line (body_trailers b)) @ crlf"
    using b(1) by (simp add: write_body_def write_headers_lines lit_def)
  have "chunk_loop cfg (pre @ write_body b @ rest) base (length pre) [] 0 = Some (Inr (Some (b, length pre + length (write_body b))))"
    using chunk_loop_written [OF b(2) _ b(4), of 0 pre rest base "[]"] b(1,3) assms(2) by (simp add: w body_bytes_def algebra_simps)
  with Chunked show ?thesis by (simp add: parse_body_def parse_chunked_body_def)
qed

section \<open>Messages\<close>

lemma body_meta_base: "body_meta_from_headers hs a = Inr meta \<Longrightarrow> body_meta_from_headers hs b = Inr meta"
proof -
  have "content_lengths a vs k = Inr r \<Longrightarrow> content_lengths b vs k = Inr r" for vs k r
    by (induction vs arbitrary: k) (auto split: option.splits if_splits)
  then show "body_meta_from_headers hs a = Inr meta \<Longrightarrow> body_meta_from_headers hs b = Inr meta"
    by (fastforce simp: body_meta_from_headers_def Let_def and_then_eq split: if_splits)
qed

lemma head_text:
  assumes "hs \<noteq> []"
  shows "line @ crlf @ write_headers hs @ crlf @ r = joined (line # map header_line hs) @ 13 # 10 # 13 # 10 # r"
    "length (joined (line # map header_line hs)) + 2 = length (line @ crlf @ write_headers hs)"
proof -
  have "line @ crlf @ write_headers hs = joined (line # map header_line hs) @ crlf"
    using assms lines_text_joined [of "line # map header_line hs"] by (simp add: write_headers_lines)
  then show "line @ crlf @ write_headers hs @ crlf @ r = joined (line # map header_line hs) @ 13 # 10 # 13 # 10 # r"
    "length (joined (line # map header_line hs)) + 2 = length (line @ crlf @ write_headers hs)"
    by (metis append_Cons append_Nil append_assoc, metis length_append length_Cons list.size(3) numeral_2_eq_2)
qed

lemma find_header_end_written:
  assumes "head_line line" "hs \<noteq> []" "list_all good_header hs"
  shows "find_header_end (line @ crlf @ write_headers hs @ crlf @ r) = Some (length (joined (line # map header_line hs)))"
  using find_header_end_joined [of "line # map header_line hs"] assms header_line_good
  unfolding head_text(1) [OF assms(2)] by (simp add: list_all_iff)

text \<open>What the parser reads from a well-formed start line and headers, a body framed accordingly, and whatever follows.\<close>

lemma read_message_written:
  assumes "head_line line" "hs \<noteq> []" "list_all good_header hs"
    "parse_start_line line consumed mode = Inr start" "body_meta_from_headers hs 0 = Inr meta" "good_body cfg meta b"
    "length (line @ crlf @ write_headers hs) \<le> max_header_bytes cfg + 2"
    "body_chunked b \<longrightarrow> length (line @ crlf @ write_headers hs @ crlf @ write_body b) \<le> usize_max"
  shows "read_message mode cfg (line @ crlf @ write_headers hs @ crlf @ write_body b @ rest) consumed =
    map_option (\<lambda>msg. Inr (Some (msg, length (line @ crlf @ write_headers hs @ crlf @ write_body b))))
      (message_of mode start hs b (determine_keep_alive (sl_version start) hs))"
proof -
  let ?hl = "map header_line hs" let ?head = "joined (line # ?hl)"
  have j: "?head = line @ 13 # 10 # joined ?hl" using assms(2) by (cases hs) simp_all
  note whole = head_text(1) [OF assms(2), of line]
  have e: "find_header_end (?head @ 13 # 10 # 13 # 10 # r) = Some (length ?head)" for r
    using find_header_end_written [OF assms(1-3)] unfolding whole .
  have "13 \<notin> set line" using assms(1) by (simp add: head_line_def)
  then have "find_crlf ?head 0 = Some (length line)" "slice ?head 0 (length line) = line"
    using find_crlf_line [of line "[]"] slice_line [of "[]" line] by (simp_all add: j)
  moreover have "head_headers ?head consumed (length line + 2) = Inr hs"
    using head_headers_joined [OF assms(3), of "line @ crlf" consumed] by (simp add: j)
  ultimately have h: "parse_head ?head consumed mode = Inr (start, hs)" using assms(4) by (simp add: parse_head_def)
  have l: "\<not> max_header_bytes cfg < length ?head" using assms(7) head_text(2) [OF assms(2), of line] by simp
  have len: "length (line @ crlf @ write_headers hs @ crlf @ write_body b) = length ?head + 4 + length (write_body b)"
    unfolding whole by simp
  have p: "parse_body (?head @ 13 # 10 # 13 # 10 # write_body b @ rest) (length ?head + 4) consumed cfg meta = Some (Inr (Some (b, length (write_body b))))"
    using parse_body_written [OF assms(6), of "?head @ [13, 10, 13, 10]" rest consumed] assms(8) unfolding len
    by (simp add: eval_nat_numeral del: joined.simps)
  show ?thesis unfolding len unfolding whole
    by (simp add: read_message_def e h l p body_meta_base [OF assms(5)] del: joined.simps)
qed

text \<open>A message the printer and the parser agree on: a start line and headers as the grammar has them, at least one
  header, a body framed the way the headers say, the connection flag they say, all within the limits; with a chunked body the text of the
  message is no longer than a \<open>usize\<close> counts, as that of any vector.\<close>

definition good_message :: "parser_config \<Rightarrow> rust_str \<Rightarrow> http_version \<Rightarrow> http_header list \<Rightarrow> http_body \<Rightarrow> bool \<Rightarrow> bool" where
  "good_message cfg line v hs b ka \<longleftrightarrow> hs \<noteq> [] \<and> list_all good_header hs \<and> ka = determine_keep_alive v hs \<and>
     byte_len line + length (write_headers hs) \<le> max_header_bytes cfg \<and>
     (body_chunked b \<longrightarrow> byte_len line + length (write_headers hs) + length (write_body b) + 4 \<le> usize_max) \<and>
     (case body_meta_from_headers hs 0 of Inl _ \<Rightarrow> False | Inr meta \<Rightarrow> good_body cfg meta b)"

definition good_request :: "parser_config \<Rightarrow> parsed_request \<Rightarrow> bool" where
  "good_request cfg r \<longleftrightarrow> good_request_line r \<and>
     good_message cfg (request_line r) (rq_version r) (rq_headers r) (rq_body r) (rq_keep_alive r)"

definition good_response :: "parser_config \<Rightarrow> parsed_response \<Rightarrow> bool" where
  "good_response cfg r \<longleftrightarrow> good_status_line r \<and>
     good_message cfg (status_line r) (rs_version r) (rs_headers r) (rs_body r) (rs_keep_alive r)"

lemma read_good_message:
  assumes "good_message cfg line v hs b ka" "head_line (as_bytes line)" "parse_start_line (as_bytes line) consumed mode = Inr start"
    "sl_version start = v"
  shows "read_message mode cfg (as_bytes line @ crlf @ write_headers hs @ crlf @ write_body b @ rest) consumed =
    map_option (\<lambda>msg. Inr (Some (msg, length (as_bytes line @ crlf @ write_headers hs @ crlf @ write_body b)))) (message_of mode start hs b ka)"
proof -
  obtain meta where "hs \<noteq> []" "list_all good_header hs" "ka = determine_keep_alive (sl_version start) hs"
    "length (as_bytes line @ crlf @ write_headers hs) \<le> max_header_bytes cfg + 2" "body_meta_from_headers hs 0 = Inr meta" "good_body cfg meta b"
    "body_chunked b \<longrightarrow> length (as_bytes line @ crlf @ write_headers hs @ crlf @ write_body b) \<le> usize_max"
    using assms(1,4) by (cases "body_meta_from_headers hs 0") (simp_all add: good_message_def length_as_bytes eval_nat_numeral add.assoc)
  with read_message_written [OF assms(2) _ _ assms(3)] show ?thesis by blast
qed

lemma show_version_no_cr: "13 \<notin> set (as_bytes (show_version v))"
  using ascii_in_bytes [OF scalar_if_ascii [OF show_version_ascii], of 13] by (simp add: show_version_chars)

lemma request_line_head: "good_request_line r \<Longrightarrow> head_line (as_bytes (request_line r))"
proof -
  assume r: "good_request_line r"
  note c = good_request_line_chars [OF r]
  have "as_bytes (rq_method r) \<noteq> []" using c(5) by (cases "rq_method r") simp_all
  then show ?thesis using c show_version_no_cr by (auto simp: request_line_def head_line_def encode_ascii)
qed

lemma status_line_head: "good_status_line r \<Longrightarrow> head_line (as_bytes (status_line r))"
proof -
  assume r: "good_status_line r"
  have "13 \<notin> set (as_bytes (str (decimal n)))" for n
    using ascii_in_bytes [OF scalar_if_ascii [OF decimal_ascii], of 13] by (simp add: decimal_no)
  moreover have "13 \<notin> set (as_bytes (rs_reason r))"
  proof -
    have "\<not> field_byte 13" by code_simp
    then show ?thesis using r by (auto simp: good_status_line_def is_reason_phrase_def list_all_iff)
  qed
  moreover obtain t where "as_bytes (show_version (rs_version r)) = 72 # t" by (simp add: show_version_def encode_ascii)
  ultimately show ?thesis using show_version_no_cr [of "rs_version r"] by (auto simp: status_line_def head_line_def encode_ascii is_blank_def hd_append)
qed

text \<open>The messages of the witnesses: a request with a chunked body and a response with a fixed one.\<close>

definition sample_config :: parser_config where
  "sample_config = \<lparr>max_header_bytes = 64, max_body_bytes = 8, max_chunk_bytes = 4\<rparr>"

definition sample_request :: parsed_request where
  "sample_request = \<lparr>rq_method = str ''PUT'', rq_target = str ''/a'', rq_version = \<lparr>major = 1, minor = 1\<rparr>,
     rq_headers = [\<lparr>h_name = str ''Transfer-Encoding'', h_value = str ''chunked''\<rparr>],
     rq_body = \<lparr>body_chunks = [\<lparr>chunk_data = [7, 13], chunk_extension = Some (str ''q=1'')\<rparr>, \<lparr>chunk_data = [10], chunk_extension = None\<rparr>],
       body_trailers = [\<lparr>h_name = str ''T'', h_value = str ''v w''\<rparr>], body_chunked = True\<rparr>,
     rq_keep_alive = True\<rparr>"

definition sample_response :: parsed_response where
  "sample_response = \<lparr>rs_version = \<lparr>major = 1, minor = 0\<rparr>, rs_status = 404, rs_reason = str ''Not Found'',
     rs_headers = [\<lparr>h_name = str ''Server'', h_value = []\<rparr>], rs_body = empty_body, rs_keep_alive = False\<rparr>"

lemma good_sample_request: "good_request sample_config sample_request"
proof -
  let ?c = "body_chunks (rq_body sample_request)"
  have "good_chunk sample_config (?c ! 0)" "good_chunk sample_config (?c ! 1)"
    by (simp_all add: good_chunk_def sample_request_def sample_config_def usize_max_def) code_simp
  then have "list_all (good_chunk sample_config) ?c" by (simp add: sample_request_def)
  moreover have "body_chunked (rq_body sample_request)" "length (body_bytes (rq_body sample_request)) \<le> max_body_bytes sample_config"
    "list_all good_header (body_trailers (rq_body sample_request))" by code_simp+
  ultimately have "good_body sample_config Chunked (rq_body sample_request)" by (simp add: good_body_def)
  moreover have "good_request_line sample_request" "body_meta_from_headers (rq_headers sample_request) 0 = Inr Chunked" by code_simp+
  moreover have "rq_keep_alive sample_request = determine_keep_alive (rq_version sample_request) (rq_headers sample_request)" by code_simp
  moreover have "byte_len (request_line sample_request) + length (write_headers (rq_headers sample_request)) \<le> max_header_bytes sample_config"
    by code_simp
  moreover have "byte_len (request_line sample_request) + length (write_headers (rq_headers sample_request)) + length (write_body (rq_body sample_request)) + 4 < 1024"
    by code_simp
  then have "byte_len (request_line sample_request) + length (write_headers (rq_headers sample_request)) + length (write_body (rq_body sample_request)) + 4 \<le> usize_max"
    by (simp add: usize_max_def)
  moreover have "rq_headers sample_request \<noteq> []" "list_all good_header (rq_headers sample_request)" by code_simp+
  ultimately show ?thesis by (simp add: good_request_def good_message_def)
qed

lemma good_sample_response: "good_response sample_config sample_response"
proof -
  have "good_status_line sample_response" by code_simp
  moreover have "body_meta_from_headers (rs_headers sample_response) 0 = Inr EmptyBody" by code_simp
  moreover have "good_body sample_config EmptyBody (rs_body sample_response)" by (simp add: good_body_def sample_response_def)
  moreover have "rs_keep_alive sample_response = determine_keep_alive (rs_version sample_response) (rs_headers sample_response)" by code_simp
  moreover have "byte_len (status_line sample_response) + length (write_headers (rs_headers sample_response)) \<le> max_header_bytes sample_config"
    by code_simp
  moreover have "\<not> body_chunked (rs_body sample_response)" by code_simp
  moreover have "rs_headers sample_response \<noteq> []" "list_all good_header (rs_headers sample_response)" by code_simp+
  ultimately show ?thesis by (simp add: good_response_def good_message_def)
qed

lemma parse_printed_request:
  assumes "hp_mode p = RequestMode" "hp_buffer p = serialize_request r @ rest" "good_request (hp_config p) r"
  shows "parse_next_request p = Some (Inr (Some r), p\<lparr>hp_buffer := rest, hp_consumed := hp_consumed p + length (serialize_request r)\<rparr>)"
proof -
  have l: "good_request_line r" and m: "good_message (hp_config p) (request_line r) (rq_version r) (rq_headers r) (rq_body r) (rq_keep_alive r)"
    using assms(3) by (simp_all add: good_request_def)
  have "serialize_request r = as_bytes (request_line r) @ crlf @ write_headers (rq_headers r) @ crlf @ write_body (rq_body r)"
    by (simp add: serialize_request_def request_line_def lit_def encode_ascii)
  moreover have "message_of RequestMode \<lparr>sl_version = rq_version r, sl_kind = RequestLine (rq_method r) (rq_target r)\<rparr>
      (rq_headers r) (rq_body r) (rq_keep_alive r) = Some (ParsedRequest r)" by (simp add: message_of_def)
  ultimately have "read_message RequestMode (hp_config p) (serialize_request r @ rest) (hp_consumed p) =
      Some (Inr (Some (ParsedRequest r, length (serialize_request r))))"
    using read_good_message [OF m request_line_head [OF l] parse_request_line [OF l, of "hp_consumed p"], of rest] by simp
  with assms(1,2) show ?thesis by (simp add: parse_next_request_def parse_next_message_def)
qed

text \<open>C14: A request that was printed is read back as it was, and the bytes behind it, the next requests of a pipelining client,
  are left in the buffer.\<close>

theorem request_round_trip:
  assumes "hp_mode p = RequestMode" "hp_buffer p = serialize_request r @ rest" "good_request (hp_config p) r"
  shows "parse_next_request p = Some (Inr (Some r), p\<lparr>hp_buffer := rest, hp_consumed := hp_consumed p + length (serialize_request r)\<rparr>)"
  using assms by (rule parse_printed_request)

theorem request_round_trip_witness:
  "parse_next_request (push_bytes (serialize_request sample_request @ lit ''GET'') (new_parser RequestMode sample_config)) =
   Some (Inr (Some sample_request), \<lparr>hp_mode = RequestMode, hp_config = sample_config, hp_buffer = lit ''GET'',
     hp_consumed = length (serialize_request sample_request)\<rparr>)"
  using request_round_trip [of "push_bytes (serialize_request sample_request @ lit ''GET'') (new_parser RequestMode sample_config)"
    sample_request "lit ''GET''"] good_sample_request
  by (simp add: push_bytes_def new_parser_def)

lemma parse_printed_response:
  assumes "hp_mode p = ResponseMode" "hp_buffer p = serialize_response r @ rest" "good_response (hp_config p) r"
  shows "parse_next_response p = Some (Inr (Some r), p\<lparr>hp_buffer := rest, hp_consumed := hp_consumed p + length (serialize_response r)\<rparr>)"
proof -
  have l: "good_status_line r" and m: "good_message (hp_config p) (status_line r) (rs_version r) (rs_headers r) (rs_body r) (rs_keep_alive r)"
    using assms(3) by (simp_all add: good_response_def)
  have "serialize_response r = as_bytes (status_line r) @ crlf @ write_headers (rs_headers r) @ crlf @ write_body (rs_body r)"
    by (simp add: serialize_response_def status_line_def lit_def encode_ascii)
  moreover have "message_of ResponseMode \<lparr>sl_version = rs_version r, sl_kind = StatusLine (rs_status r) (rs_reason r)\<rparr>
      (rs_headers r) (rs_body r) (rs_keep_alive r) = Some (ParsedResponse r)" by (simp add: message_of_def)
  ultimately have "read_message ResponseMode (hp_config p) (serialize_response r @ rest) (hp_consumed p) =
      Some (Inr (Some (ParsedResponse r, length (serialize_response r))))"
    using read_good_message [OF m status_line_head [OF l] parse_status_line [OF l, of "hp_consumed p"], of rest] by simp
  with assms(1,2) show ?thesis by (simp add: parse_next_response_def parse_next_message_def)
qed

text \<open>C15: A response that was printed is read back as it was, and the bytes behind it are left in the buffer.\<close>

theorem response_round_trip:
  assumes "hp_mode p = ResponseMode" "hp_buffer p = serialize_response r @ rest" "good_response (hp_config p) r"
  shows "parse_next_response p = Some (Inr (Some r), p\<lparr>hp_buffer := rest, hp_consumed := hp_consumed p + length (serialize_response r)\<rparr>)"
  using assms by (rule parse_printed_response)

theorem response_round_trip_witness:
  "parse_next_response (push_bytes (serialize_response sample_response @ lit ''X'') (new_parser ResponseMode sample_config)) =
   Some (Inr (Some sample_response), \<lparr>hp_mode = ResponseMode, hp_config = sample_config, hp_buffer = lit ''X'',
     hp_consumed = length (serialize_response sample_response)\<rparr>)"
  using response_round_trip [of "push_bytes (serialize_response sample_response @ lit ''X'') (new_parser ResponseMode sample_config)"
    sample_response "lit ''X''"] good_sample_response
  by (simp add: push_bytes_def new_parser_def)

section \<open>What is lost\<close>

text \<open>A message without headers is never read, although the grammar allows it and the printer writes it: the parser looks for the
  end of the start line in the bytes before the header end, where a lone start line has none.\<close>

lemma headerless_request_rejected:
  assumes "hp_mode p = RequestMode" "hp_buffer p = serialize_request r @ rest" "good_request_line r" "rq_headers r = []"
    "byte_len (request_line r) \<le> max_header_bytes (hp_config p)"
  shows "parse_next_request p = Some (Inl (parse_err InvalidStartLine (hp_consumed p) ''HTTP start line is missing CRLF''), p)"
proof -
  let ?l = "as_bytes (request_line r)"
  have "hp_buffer p = joined [?l] @ 13 # 10 # 13 # 10 # write_body (rq_body r) @ rest"
    using assms(2,4) by (simp add: serialize_request_def request_line_def write_headers_def lit_def encode_ascii)
  moreover have "head_line ?l" by (rule request_line_head [OF assms(3)])
  ultimately have "find_header_end (hp_buffer p) = Some (length ?l)" "take (length ?l) (hp_buffer p) = ?l" "13 \<notin> set ?l"
    using find_header_end_joined [of "[?l]"] by (simp_all add: head_line_def)
  moreover have "find_crlf ?l 0 = None" using find_crlf_none [of ?l "[]"] \<open>13 \<notin> set ?l\<close> by simp
  ultimately show ?thesis using assms(1,5)
    by (simp add: parse_next_request_def parse_next_message_def read_message_def parse_head_def length_as_bytes)
qed

text \<open>A value outside ASCII is printed as UTF-8 and read byte by byte.\<close>

lemma non_ascii_value_changes:
  "parse_header (header_line \<lparr>h_name = str ''X'', h_value = [0xE9]\<rparr>) 0 = Inr \<lparr>h_name = str ''X'', h_value = [0xC3, 0xA9]\<rparr>"
  by code_simp

text \<open>A plus sign in \<open>Content-Length\<close> is taken.\<close>

lemma signed_content_length:
  "body_meta_from_headers [\<lparr>h_name = str ''Content-Length'', h_value = str ''+5''\<rparr>] 0 = Inr (ContentLength 5)"
proof -
  have "header_values [\<lparr>h_name = str ''Content-Length'', h_value = str ''+5''\<rparr>] (str ''transfer-encoding'') = []"
    "header_values [\<lparr>h_name = str ''Content-Length'', h_value = str ''+5''\<rparr>] (str ''content-length'') = [str ''+5'']" by code_simp+
  moreover have "from_str_radix 10 usize_max (str ''+5'') = Some 5"
    by (simp add: from_str_radix_def to_digit_def is_ascii_digit_def usize_max_def)
  ultimately show ?thesis by (simp add: body_meta_from_headers_def)
qed

end
