(* ===== verification/Base64_Correct.thy ===== *)
theory Base64_Correct
  imports Websocket_Handshake Http_Roundtrip
begin

text \<open>
  The base64 of the WebSocket handshake (theory \<open>Websocket_Handshake\<close>): what it encodes it decodes, and it decodes nothing else. The
  table is checked by computation, the regrouping of bits bit by bit.
\<close>

section \<open>Groups of bits\<close>

lemma bit8_cases: "pos < 8 \<Longrightarrow> pos = 0 \<or> pos = 1 \<or> pos = 2 \<or> pos = 3 \<or> pos = 4 \<or> pos = 5 \<or> pos = 6 \<or> pos = (7 :: nat)"
  by presburger

lemmas small_numerals = numeral_2_eq_2 numeral_3_eq_3

text \<open>Three bytes are four groups of six bits, and the other way round.\<close>

definition sextet :: "u8 \<Rightarrow> bool" where
  "sextet a \<longleftrightarrow> \<not> bit a 6 \<and> \<not> bit a 7"

definition six1 :: "u8 \<Rightarrow> u8" where "six1 a = drop_bit 2 a"
definition six2 :: "u8 \<Rightarrow> u8 \<Rightarrow> u8" where "six2 a b = push_bit 4 (a AND 3) OR drop_bit 4 b"
definition six3 :: "u8 \<Rightarrow> u8 \<Rightarrow> u8" where "six3 b c = push_bit 2 (b AND 0x0F) OR drop_bit 6 c"
definition six4 :: "u8 \<Rightarrow> u8" where "six4 c = c AND 0x3F"
definition oct1 :: "u8 \<Rightarrow> u8 \<Rightarrow> u8" where "oct1 a b = push_bit 2 a OR drop_bit 4 b"
definition oct2 :: "u8 \<Rightarrow> u8 \<Rightarrow> u8" where "oct2 b c = push_bit 4 b OR drop_bit 2 c"
definition oct3 :: "u8 \<Rightarrow> u8 \<Rightarrow> u8" where "oct3 c d = push_bit 6 c OR d"

lemmas six_defs = six1_def six2_def six3_def six4_def
lemmas oct_defs = oct1_def oct2_def oct3_def

lemma encode_groups:
  "base64_encode [a] = [base64_char (six1 a), base64_char (six2 a 0), pad_char, pad_char]"
  "base64_encode [a, b] = [base64_char (six1 a), base64_char (six2 a b), base64_char (six3 b 0), pad_char]"
  "base64_encode (a # b # c # rest) = base64_char (six1 a) # base64_char (six2 a b) # base64_char (six3 b c) # base64_char (six4 c) # base64_encode rest"
  by (simp_all add: six_defs)

lemma decode_group:
  "decode_chunks (w # x # y # z # rest) = Some bs \<longleftrightarrow> (\<exists>a b c d out. base64_digit w = Some a \<and> base64_digit x = Some b \<and>
     third_digit (rest = []) b y z = Some c \<and> fourth_digit (rest = []) c z = Some d \<and> decode_chunks rest = Some out \<and>
     bs = oct1 a b # (if y \<noteq> 61 then [oct2 b c] else []) @ (if z \<noteq> 61 then [oct3 c d] else []) @ out)"
  by (auto simp: bind_eq_Some_conv oct_defs)

lemma oct_six: "oct1 (six1 a) (six2 a b) = a" "oct2 (six2 a b) (six3 b c) = b" "oct3 (six3 b c) (six4 c) = c"
  unfolding six_defs oct_defs
  by (rule bit_word_eqI, (auto simp: bit_simps dest!: bit8_cases dest: bit_imp_le_length; simp add: small_numerals))+

lemma six_padding: "six2 a 0 AND 0x0F = 0" "six3 b 0 AND 3 = 0"
  unfolding six_defs by (rule bit_word_eqI, (auto simp: bit_simps dest!: bit8_cases; simp add: small_numerals))+

lemma sextet_six: "sextet (six1 a)" "sextet (six2 a b)" "sextet (six3 b c)" "sextet (six4 c)"
  by (auto simp: sextet_def six_defs bit_simps dest: bit_imp_le_length)

lemma six_oct:
  assumes "sextet a" "sextet b" "sextet c" "sextet d"
  shows "six1 (oct1 a b) = a" "six2 (oct1 a b) (oct2 b c) = b" "six3 (oct2 b c) (oct3 c d) = c" "six4 (oct3 c d) = d"
  using assms unfolding sextet_def six_defs oct_defs
  by - (rule bit_word_eqI, (auto simp: bit_simps dest!: bit8_cases dest: bit_imp_le_length; simp add: small_numerals))+

lemma and_zero_bit:
  fixes b m :: u8
  assumes "b AND m = 0" "bit m n"
  shows "\<not> bit b n"
proof
  assume "bit b n"
  with assms(2) have "bit (b AND m) n" by (simp add: bit_and_iff)
  with assms(1) show False by simp
qed

lemma low_bits:
  fixes b :: u8
  shows "b AND 0x0F = 0 \<Longrightarrow> \<not> bit b 0 \<and> \<not> bit b 1 \<and> \<not> bit b 2 \<and> \<not> bit b 3" "b AND 3 = 0 \<Longrightarrow> \<not> bit b 0 \<and> \<not> bit b 1"
  by (intro conjI; erule and_zero_bit; simp)+

lemma six_oct_padding:
  assumes "sextet a" "sextet b" "sextet c"
  shows "b AND 0x0F = 0 \<Longrightarrow> six2 (oct1 a b) 0 = b" "c AND 3 = 0 \<Longrightarrow> six3 (oct2 b c) 0 = c"
proof -
  show "six2 (oct1 a b) 0 = b" if "b AND 0x0F = 0"
    using assms low_bits(1) [OF that] unfolding sextet_def six_defs oct_defs
    by - (rule bit_word_eqI, (auto simp: bit_simps dest!: bit8_cases dest: bit_imp_le_length; simp add: small_numerals))
  show "six3 (oct2 b c) 0 = c" if "c AND 3 = 0"
    using assms low_bits(2) [OF that] unfolding sextet_def six_defs oct_defs
    by - (rule bit_word_eqI, (auto simp: bit_simps dest!: bit8_cases dest: bit_imp_le_length; simp add: small_numerals))
qed

lemma base64_table_numerals [code]: "base64_table = [65, 66, 67, 68, 69, 70, 71, 72, 73, 74, 75, 76, 77, 78, 79, 80, 81, 82, 83, 84, 85, 86, 87, 88, 89, 90, 97, 98, 99, 100, 101, 102,
    103, 104, 105, 106, 107, 108, 109, 110, 111, 112, 113, 114, 115, 116, 117, 118, 119, 120, 121, 122, 48, 49, 50, 51, 52, 53, 54, 55, 56, 57, 43, 47]"
  by (simp add: base64_table_def lit_def)

lemma digit_table:
  "list_all (\<lambda>n. base64_digit (byte (base64_char (byte n))) = Some (byte n) \<and> base64_char (byte n) < 128 \<and> base64_char (byte n) \<noteq> 61 \<and>
     32 < base64_char (byte n) \<and> base64_char (byte n) \<noteq> 0x7F) [0..<64]"
  by code_simp

lemma char_table:
  "list_all (\<lambda>n. case base64_digit (byte n) of None \<Rightarrow> True | Some d \<Rightarrow> unat d < 64 \<and> base64_char d = n \<and> n < 128) [0..<256]"
  by code_simp

lemma sextet_iff: "sextet a \<longleftrightarrow> unat a < 64"
proof
  assume "sextet a"
  then have "take_bit 6 a = a" unfolding sextet_def by - (rule bit_word_eqI, auto simp: bit_simps dest!: bit8_cases)
  then have "unat a = take_bit 6 (unat a)" by (metis unsigned_take_bit_eq)
  then show "unat a < 64" using take_bit_nat_less_exp [of 6 "unat a"] by simp
next
  assume "unat a < 64"
  then have "\<not> bit (unat a) 6" "\<not> bit (unat a) 7" by (simp_all add: bit_iff_odd)
  then show "sextet a" by (simp add: sextet_def bit_unsigned_iff)
qed

lemma digit_of_char:
  assumes "sextet i"
  shows "base64_digit (byte (base64_char i)) = Some i" "base64_char i < 128" "base64_char i \<noteq> 61" "32 < base64_char i" "base64_char i \<noteq> 0x7F"
proof -
  have "unat i \<in> set [0..<64]" using assms by (simp add: sextet_iff)
  with digit_table show "base64_digit (byte (base64_char i)) = Some i" "base64_char i < 128" "base64_char i \<noteq> 61" "32 < base64_char i"
    "base64_char i \<noteq> 0x7F" unfolding list_all_iff by (metis byte_unat)+
qed

lemma char_of_digit:
  assumes "base64_digit v = Some d"
  shows "sextet d" "base64_char d = unat v"
proof -
  have "unat v \<in> set [0..<256]" using unsigned_less [of v, where ?'a = nat] by simp
  with char_table have "case base64_digit (byte (unat v)) of None \<Rightarrow> True | Some d \<Rightarrow> unat d < 64 \<and> base64_char d = unat v \<and> unat v < 128"
    unfolding list_all_iff by blast
  with assms show "sextet d" "base64_char d = unat v" by (simp_all add: sextet_iff)
qed

declare base64_encode.simps(2-4) [simp del] decode_chunks.simps(1) [simp del]

lemma base64_char_range: "sextet i \<Longrightarrow> 32 < base64_char i \<and> base64_char i < 0x7F"
  using digit_of_char [of i] by linarith

lemma base64_chars: "list_all (\<lambda>c. 32 < c \<and> c < 0x7F) (base64_encode bs)"
  by (induction bs rule: base64_encode.induct) (simp_all add: encode_groups base64_char_range sextet_six)

lemma base64_ascii: "list_all (\<lambda>c. c < 128) (base64_encode bs)"
  using base64_chars [of bs] by (auto simp: list_all_iff)

lemma base64_bytes: "as_bytes (base64_encode bs) = map byte (base64_encode bs)"
  by (rule as_bytes_ascii [OF base64_ascii])

lemma base64_length: "length (base64_encode bs) mod 4 = 0" "base64_encode bs = [] \<longleftrightarrow> bs = []"
  by (induction bs rule: base64_encode.induct) (simp_all add: encode_groups)

lemma base64_encoded_length: "length (base64_encode bs) = (length bs + 2) div 3 * 4"
proof (induction bs rule: base64_encode.induct)
  case (4 a b c rest)
  have "(3 + (length rest + 2)) div 3 = (length rest + 2) div 3 + 1" by simp
  then show ?case using 4 by (simp add: encode_groups add.commute)
qed (simp_all add: encode_groups)

lemma char_not_pad: "sextet i \<Longrightarrow> byte (base64_char i) \<noteq> 61"
  using digit_of_char(2,3) [of i] byte_inject [of "base64_char i" 61] by simp

lemma decode_encoded: "decode_chunks (map byte (base64_encode bs)) = Some bs"
proof (induction bs rule: base64_encode.induct)
  case (2 a)
  show ?case
    by (simp add: encode_groups decode_group digit_of_char sextet_six third_digit_def fourth_digit_def six_padding oct_six)
next
  case (3 a b)
  show ?case
    by (simp add: encode_groups decode_group digit_of_char sextet_six char_not_pad third_digit_def fourth_digit_def six_padding oct_six)
next
  case (4 a b c rest)
  then show ?case
    by (simp add: encode_groups decode_group digit_of_char sextet_six char_not_pad third_digit_def fourth_digit_def oct_six base64_length)
qed simp

lemma base64_decode_encode:
  assumes "bs \<noteq> []"
  shows "base64_decode (base64_encode bs) = Some bs"
proof -
  have "byte_len (base64_encode bs) = length (base64_encode bs)" by (metis length_as_bytes base64_bytes length_map)
  then show ?thesis using assms by (simp add: base64_decode_def base64_length base64_bytes decode_encoded)
qed

text \<open>C21: Base64 decodes what it encoded, except that it takes no empty text.\<close>

theorem base64_round_trip:
  "base64_decode (base64_encode bs) = (if bs = [] then None else Some bs)"
  by (simp add: base64_decode_encode) (simp add: base64_decode_def)

lemma encode_decoded:
  "decode_chunks bytes = Some bs \<Longrightarrow> length bytes mod 4 = 0 \<Longrightarrow> map byte (base64_encode bs) = bytes"
proof (induction bytes arbitrary: bs rule: decode_chunks.induct)
  case (1 w x y z rest)
  obtain a b c d out where digits: "base64_digit w = Some a" "base64_digit x = Some b"
    and c: "third_digit (rest = []) b y z = Some c" and d: "fourth_digit (rest = []) c z = Some d" and out: "decode_chunks rest = Some out"
    and bs: "bs = oct1 a b # (if y \<noteq> 61 then [oct2 b c] else []) @ (if z \<noteq> 61 then [oct3 c d] else []) @ out"
    using "1.prems"(1) unfolding decode_group by blast
  note ab = char_of_digit [OF digits(1)] char_of_digit [OF digits(2)]
  have ih: "map byte (base64_encode out) = rest" using "1.IH" digits c d out "1.prems"(2) by simp
  have zero: "sextet 0" by (simp add: sextet_def)
  consider (two) "y = 61" | (three) "y \<noteq> 61" "z = 61" | (four) "y \<noteq> 61" "z \<noteq> 61" by blast
  then show ?case
  proof cases
    case two
    then have "rest = []" "z = 61" "b AND 0x0F = 0" using c by (auto simp: third_digit_def split: if_splits)
    with two ih ab zero six_oct(1) [of a b 0 0] six_oct_padding(1) [of a b 0] show ?thesis by (simp add: bs base64_length encode_groups)
  next
    case three
    then have r: "rest = []" "c AND 3 = 0" "base64_digit y = Some c" using c d by (auto simp: third_digit_def fourth_digit_def split: if_splits)
    with three ih ab zero char_of_digit [OF r(3)] six_oct [of a b c 0] six_oct_padding(2) [of a b c] show ?thesis
      by (simp add: bs base64_length encode_groups)
  next
    case four
    then have r: "base64_digit y = Some c" "base64_digit z = Some d" using c d by (auto simp: third_digit_def fourth_digit_def split: if_splits)
    then show ?thesis using four ih ab char_of_digit [OF r(1)] char_of_digit [OF r(2)] six_oct [of a b c d] by (simp add: bs encode_groups)
  qed
qed simp_all

text \<open>Base64 is strict: a text that decodes is the encoding of what it decodes to, so no two texts are the same key.\<close>

lemma base64_canonical:
  assumes "base64_decode s = Some bs" "list_all scalar_value s"
  shows "base64_encode bs = s"
proof -
  have "decode_chunks (as_bytes s) = Some bs" "length (as_bytes s) mod 4 = 0"
    using assms(1) by (auto simp: base64_decode_def length_as_bytes split: if_splits)
  then have "as_bytes (base64_encode bs) = as_bytes s" by (simp add: encode_decoded base64_bytes)
  then show ?thesis using from_utf8_as_bytes [OF assms(2)] from_utf8_as_bytes [OF scalar_if_ascii [OF base64_ascii [of bs]]] by simp
qed

end
