(* ===== verification/Http_Correct.thy ===== *)
theory Http_Correct
  imports Http_Message
begin

text \<open>
  What the HTTP/1.1 parser (theory \<open>Http_Message\<close>) promises. What it has decided about a buffer, it does not
  take back when more bytes arrive, so the way a stream is cut into reads does not matter; it never reaches
  the code the source calls unreachable; and printed messages are read back. Where this fails, the
  last section has the instances.
\<close>

section \<open>More bytes\<close>

lemma position_of_append: "position_of pat bs = Some i \<Longrightarrow> position_of pat (bs @ cs) = Some i"
proof (induction bs arbitrary: i)
  case (Cons b bs)
  show ?case
  proof (cases "take (length pat) (b # bs) = pat")
    case True
    then have "length pat \<le> length (b # bs)" using length_take [of "length pat" "b # bs"] by (simp del: length_take)
    then have "take (length pat) (b # bs @ cs) = take (length pat) (b # bs)" by (cases "length pat") simp_all
    with True Cons.prems show ?thesis by simp
  next
    case False
    then obtain j where j: "position_of pat bs = Some j" "i = Suc j" using Cons.prems by auto
    then have "length pat \<le> length (b # bs)" using position_of_bound [of pat bs j] by simp
    then have "take (length pat) (b # bs @ cs) = take (length pat) (b # bs)" by (cases "length pat") simp_all
    with False j Cons.IH show ?thesis by simp
  qed
qed simp

lemma find_crlf_append: "find_crlf bs start = Some e \<Longrightarrow> find_crlf (bs @ cs) start = Some e"
  by (auto simp: find_crlf_def position_of_append split: if_splits)

lemma slice_append: "b \<le> length xs \<Longrightarrow> slice (xs @ ys) a b = slice xs a b"
  by (cases "a \<le> length xs") (auto simp: slice_def)

lemma trailer_lines_append:
  "trailer_lines bs base start \<noteq> Inr None \<Longrightarrow> trailer_lines (bs @ cs) base start = trailer_lines bs base start"
proof (induction bs base start rule: trailer_lines.induct)
  case (1 bs base start)
  show ?case
  proof (cases "find_crlf bs start")
    case None
    with 1 show ?thesis by (simp add: trailer_lines.simps)
  next
    case (Some e)
    have sl: "slice (bs @ cs) start e = slice bs start e" using find_crlf_bound [OF Some] by (simp add: slice_append)
    have "trailer_lines bs base (e + 2) \<noteq> Inr None" if "slice bs start e \<noteq> []" "\<not> is_blank (hd (slice bs start e))" "parse_header (slice bs start e) (base + start) = Inr h" for h
      using 1(2) that Some by (subst (asm) trailer_lines.simps) (auto simp: Let_def)
    with 1(1) [OF Some refl] have "trailer_lines (bs @ cs) base (e + 2) = trailer_lines bs base (e + 2)"
      if "slice bs start e \<noteq> []" "\<not> is_blank (hd (slice bs start e))" "parse_header (slice bs start e) (base + start) = Inr h" for h
      using that by blast
    then show ?thesis
      by (subst (1 2) trailer_lines.simps, cases "parse_header (slice bs start e) (base + start)")
        (simp_all add: Some find_crlf_append [OF Some] Let_def sl)
  qed
qed

lemma parse_trailer_section_append:
  "parse_trailer_section bs cursor base \<noteq> Inr None \<Longrightarrow> parse_trailer_section (bs @ cs) cursor base = parse_trailer_section bs cursor base"
  unfolding parse_trailer_section_def
  by (cases "trailer_lines bs base cursor = Inr None") (simp_all add: trailer_lines_append)

lemma chunk_loop_append:
  "chunk_loop cfg bs base cursor chunks n \<noteq> Some (Inr None) \<Longrightarrow>
   chunk_loop cfg (bs @ cs) base cursor chunks n = chunk_loop cfg bs base cursor chunks n"
proof (induction cfg bs base cursor chunks n rule: chunk_loop.induct)
  case (1 cfg bs base cursor chunks n)
  show ?case
  proof (cases "find_crlf bs cursor")
    case None
    with 1 show ?thesis by (simp add: chunk_loop.simps)
  next
    case (Some e)
    have b: "e + 2 \<le> length bs" using find_crlf_bound [OF Some] by simp
    then have sl: "slice (bs @ cs) cursor e = slice bs cursor e" by (simp add: slice_append)
    show ?thesis
    proof (cases "parse_chunk_size_line (slice bs cursor e) (base + cursor)")
      case (Inl err)
      then show ?thesis by (subst (1 2) chunk_loop.simps) (simp add: Some find_crlf_append [OF Some] sl)
    next
      case (Inr r)
      obtain size ext where r: "r = (size, ext)" by force
      have t: "parse_trailer_section (bs @ cs) (e + 2) base = parse_trailer_section bs (e + 2) base"
        if "\<not> max_chunk_bytes cfg < size" "\<not> max_body_bytes cfg < saturating_sum n size" "size = 0"
        using 1(2) that Inr r Some
        by (intro parse_trailer_section_append notI, subst (asm) chunk_loop.simps) simp
      note unfolded = Some find_crlf_append [OF Some] sl Inr r Let_def
      consider (large) "max_chunk_bytes cfg < size \<or> max_body_bytes cfg < saturating_sum n size"
        | (final) "\<not> max_chunk_bytes cfg < size" "\<not> max_body_bytes cfg < saturating_sum n size" "size = 0"
        | (huge) "\<not> max_chunk_bytes cfg < size" "\<not> max_body_bytes cfg < saturating_sum n size" "size \<noteq> 0" "overflows (e + 2 + size + 2)"
        | (short) "\<not> max_chunk_bytes cfg < size" "\<not> max_body_bytes cfg < saturating_sum n size" "size \<noteq> 0" "\<not> overflows (e + 2 + size + 2)"
            "length bs < e + 2 + size + 2"
        | (chunk) "\<not> max_chunk_bytes cfg < size" "\<not> max_body_bytes cfg < saturating_sum n size" "size \<noteq> 0" "\<not> overflows (e + 2 + size + 2)"
            "\<not> length bs < e + 2 + size + 2"
        by blast
      then show ?thesis
      proof cases
        case large
        then show ?thesis by (subst (1 2) chunk_loop.simps) (auto simp: unfolded)
      next
        case final
        with t show ?thesis by (subst (1 2) chunk_loop.simps) (simp add: unfolded)
      next
        case huge
        then show ?thesis by (subst (1 2) chunk_loop.simps) (simp add: unfolded)
      next
        case short
        with 1(2) show ?thesis by (subst (asm) chunk_loop.simps) (simp add: unfolded)
      next
        case chunk
        then have s: "slice (bs @ cs) (e + 2 + size) (e + 2 + size + 2) = slice bs (e + 2 + size) (e + 2 + size + 2)"
          "slice (bs @ cs) (e + 2) (e + 2 + size) = slice bs (e + 2) (e + 2 + size)" by (auto intro!: slice_append)
        show ?thesis
        proof (cases "slice bs (e + 2 + size) (e + 2 + size + 2) = crlf")
          case False
          with chunk s show ?thesis by (subst (1 2) chunk_loop.simps) (simp add: unfolded)
        next
          case True
          let ?rest = "\<lambda>b. chunk_loop cfg b base (e + 2 + size + 2)
            (chunks @ [\<lparr>chunk_data = slice bs (e + 2) (e + 2 + size), chunk_extension = ext\<rparr>]) (saturating_sum n size)"
          have now: "chunk_loop cfg bs base cursor chunks n = ?rest bs" using chunk True
            by (subst chunk_loop.simps) (simp add: unfolded)
          have then': "chunk_loop cfg (bs @ cs) base cursor chunks n = ?rest (bs @ cs)" using chunk True s
            by (subst chunk_loop.simps) (simp add: unfolded)
          have "?rest bs \<noteq> Some (Inr None)" using 1(2) unfolding now .
          with 1(1) [OF Some Inr r [symmetric] refl refl] chunk True show ?thesis unfolding now then' by simp
        qed
      qed
    qed
  qed
qed

lemma parse_body_append:
  assumes "parse_body bs start base cfg meta \<noteq> Some (Inr None)" and "start \<le> length bs"
  shows "parse_body (bs @ cs) start base cfg meta = parse_body bs start base cfg meta"
proof (cases meta)
  case (ContentLength n)
  with assms show ?thesis by (auto simp: parse_body_def slice_append split: if_splits)
next
  case Chunked
  with assms show ?thesis unfolding parse_body_def parse_chunked_body_def
    by (cases "chunk_loop cfg bs base start [] 0 = Some (Inr None)") (simp_all add: chunk_loop_append)
qed (simp add: parse_body_def)

lemma read_message_append:
  assumes "read_message mode cfg bs consumed \<noteq> Some (Inr None)" and "find_header_end bs \<noteq> None"
  shows "read_message mode cfg (bs @ cs) consumed = read_message mode cfg bs consumed"
proof -
  obtain h where h: "find_header_end bs = Some h" using assms(2) by auto
  then have b: "h + 4 \<le> length bs" using position_of_bound by (fastforce simp: find_header_end_def)
  have h': "find_header_end (bs @ cs) = Some h" using h by (simp add: find_header_end_def position_of_append)
  have t: "take h (bs @ cs) = take h bs" using b by simp
  have "parse_body (bs @ cs) (h + 4) consumed cfg meta = parse_body bs (h + 4) consumed cfg meta"
    if "\<not> max_header_bytes cfg < h" "parse_head (take h bs) consumed mode = Inr (start, headers)" "body_meta_from_headers headers consumed = Inr meta"
    for start headers meta
    using assms(1) that h b by (intro parse_body_append notI) (auto simp: read_message_def)
  note body = this
  show ?thesis
  proof (cases "max_header_bytes cfg < h")
    case True
    then show ?thesis by (simp add: read_message_def h h')
  next
    case small: False
    show ?thesis
    proof (cases "parse_head (take h bs) consumed mode")
      case (Inl e)
      then show ?thesis using small by (simp add: read_message_def h h' t del: take_append)
    next
      case (Inr r)
      obtain start headers where r: "r = (start, headers)" by force
      show ?thesis using small Inr r body [OF small Inr [unfolded r]]
        by (cases "body_meta_from_headers headers consumed") (simp_all add: read_message_def h h' t del: take_append)
    qed
  qed
qed

section \<open>Progress\<close>

lemma trailer_lines_bound: "trailer_lines bs base start = Inr (Some (hs, e)) \<Longrightarrow> start + 2 \<le> e \<and> e \<le> length bs"
proof (induction bs base start arbitrary: hs e rule: trailer_lines.induct)
  case (1 bs base start)
  obtain l where l: "find_crlf bs start = Some l" using 1(2) by (subst (asm) trailer_lines.simps) (auto split: option.splits)
  note b = find_crlf_bound [OF l]
  show ?case
  proof (cases "slice bs start l = []")
    case True
    with 1(2) b show ?thesis by (subst (asm) trailer_lines.simps) (simp add: l)
  next
    case False
    with 1(2) obtain hs' where nb: "\<not> is_blank (hd (slice bs start l))" "trailer_lines bs base (l + 2) = Inr (Some (hs', e))"
      by (subst (asm) trailer_lines.simps) (auto simp: l Let_def and_then_eq split: if_splits)
    from 1(1) [OF l refl False nb(1) nb(2)] b show ?thesis by simp
  qed
qed

lemma parse_trailer_section_bound:
  "parse_trailer_section bs cursor base = Inr (Some (hs, n)) \<Longrightarrow> cursor + n \<le> length bs"
  by (auto simp: parse_trailer_section_def and_then_eq dest!: trailer_lines_bound)

lemma chunk_loop_bound: "chunk_loop cfg bs base cursor chunks n = Some (Inr (Some (body, e))) \<Longrightarrow> cursor \<le> e \<and> e \<le> length bs"
proof (induction cfg bs base cursor chunks n arbitrary: body e rule: chunk_loop.induct)
  case (1 cfg bs base cursor chunks n)
  obtain l where l: "find_crlf bs cursor = Some l" using 1(2) by (subst (asm) chunk_loop.simps) (auto split: option.splits)
  note b = find_crlf_bound [OF l]
  obtain size ext where sz: "parse_chunk_size_line (slice bs cursor l) (base + cursor) = Inr (size, ext)"
    using 1(2) by (subst (asm) chunk_loop.simps) (auto simp: l split: sum.splits)
  show ?case
  proof (cases "size = 0")
    case True
    with 1(2) obtain m hs where "parse_trailer_section bs (l + 2) base = Inr (Some (hs, m))" "e = l + 2 + m"
      by (subst (asm) chunk_loop.simps) (auto simp: l sz Let_def and_then_eq split: if_splits)
    with parse_trailer_section_bound [of bs "l + 2" base hs m] b show ?thesis by simp
  next
    case False
    let ?chunks = "chunks @ [\<lparr>chunk_data = slice bs (l + 2) (l + 2 + size), chunk_extension = ext\<rparr>]"
    from False 1(2) have c: "\<not> max_chunk_bytes cfg < size" "\<not> max_body_bytes cfg < saturating_sum n size"
        "\<not> overflows (l + 2 + size + 2)" "\<not> length bs < l + 2 + size + 2" "slice bs (l + 2 + size) (l + 2 + size + 2) = crlf"
        "chunk_loop cfg bs base (l + 2 + size + 2) ?chunks (saturating_sum n size) = Some (Inr (Some (body, e)))"
      by (subst (asm) chunk_loop.simps, simp add: l sz Let_def split: if_splits)+
    from 1(1) [OF l sz refl refl refl c(1,2) False c(3,4) _ c(6)] c(5) b show ?thesis by simp
  qed
qed

lemma parse_body_bound:
  "parse_body bs start base cfg meta = Some (Inr (Some (body, n))) \<Longrightarrow> start \<le> length bs \<Longrightarrow> start + n \<le> length bs"
  by (auto simp: parse_body_def parse_chunked_body_def and_then_eq split: body_meta.splits if_splits dest!: chunk_loop_bound)

lemma read_message_bound:
  assumes "read_message mode cfg bs consumed = Some (Inr (Some (msg, n)))"
  shows "0 < n" "n \<le> length bs"
proof -
  obtain h where h: "find_header_end bs = Some h" using assms by (auto simp: read_message_def split: option.splits if_splits)
  then have "h + 4 \<le> length bs" using position_of_bound by (fastforce simp: find_header_end_def)
  with assms h show "0 < n" "n \<le> length bs"
    by (auto simp: read_message_def split: if_splits sum.splits prod.splits option.splits dest!: parse_body_bound)
qed

lemma parse_start_line_kind:
  "parse_start_line line pos RequestMode = Inr start \<Longrightarrow> \<exists>m t. sl_kind start = RequestLine m t"
  "parse_start_line line pos ResponseMode = Inr start \<Longrightarrow> \<exists>c r. sl_kind start = StatusLine c r"
  by (auto simp: parse_start_line_def parse_request_line_def parse_status_line_def Let_def and_then_eq split: option.splits if_splits)

lemma message_of_total:
  assumes "parse_head bs consumed mode = Inr (start, headers)"
  shows "\<exists>msg. message_of mode start headers body ka = Some msg"
proof -
  obtain line where "parse_start_line line consumed mode = Inr start"
    using assms by (auto simp: parse_head_def and_then_eq split: option.splits)
  then show ?thesis
    by (cases mode) (auto simp: message_of_def dest!: parse_start_line_kind)
qed

text \<open>A chunk that the limits admit ends within a \<open>usize\<close>, when the buffer and the smaller limit do together.\<close>

definition sizes_fit :: "parser_config \<Rightarrow> u8 list \<Rightarrow> bool" where
  "sizes_fit cfg bs \<longleftrightarrow> length bs + min (max_chunk_bytes cfg) (max_body_bytes cfg) + 2 \<le> usize_max"

lemma chunk_loop_total: "sizes_fit cfg bs \<Longrightarrow> chunk_loop cfg bs base cursor chunks n \<noteq> None"
proof (induction cfg bs base cursor chunks n rule: chunk_loop.induct)
  case (1 cfg bs base cursor chunks n)
  have "\<not> overflows (e + 2 + sz + 2)" if "find_crlf bs cursor = Some e" "\<not> max_chunk_bytes cfg < sz" "\<not> max_body_bytes cfg < saturating_sum n sz" for e sz
    using 1(2) find_crlf_bound [OF that(1)] that(2,3) by (auto simp: sizes_fit_def overflows_def saturating_sum_def min_def split: if_splits)
  with 1 show ?case by (subst chunk_loop.simps) (auto simp: Let_def split: option.splits sum.splits prod.splits)
qed

lemma parse_body_total: "sizes_fit cfg bs \<Longrightarrow> parse_body bs start base cfg meta \<noteq> None"
  using chunk_loop_total [of cfg bs base start "[]" 0] by (auto simp: parse_body_def parse_chunked_body_def split: body_meta.splits)

lemma read_message_total: "sizes_fit cfg bs \<Longrightarrow> read_message mode cfg bs consumed \<noteq> None"
  unfolding read_message_def
  by (auto split: option.splits sum.splits prod.splits dest: message_of_total parse_body_total)

text \<open>C22: The parser makes progress and nothing else. It answers, without a panic, whenever the length of the buffer and the smaller of the
  limits for a chunk and for a body leave two bytes of a \<open>usize\<close>. When it answers with a message, it has taken a non-empty prefix off the
  buffer and counted its length; with an error or too few bytes it stays as it is. Mode and limits never change.\<close>

theorem http_parser_progress:
  "(length (hp_buffer p) + min (max_chunk_bytes (hp_config p)) (max_body_bytes (hp_config p)) + 2 \<le> usize_max \<longrightarrow>
     (\<exists>r p'. parse_next_message p = Some (r, p'))) \<and>
   (\<forall>r p'. parse_next_message p = Some (r, p') \<longrightarrow> (case r of
       Inr (Some msg) \<Rightarrow> (\<exists>used. used \<noteq> [] \<and> hp_buffer p = used @ hp_buffer p' \<and> hp_consumed p' = hp_consumed p + length used \<and>
         hp_mode p' = hp_mode p \<and> hp_config p' = hp_config p)
     | _ \<Rightarrow> p' = p))"
proof (intro conjI impI allI)
  assume "length (hp_buffer p) + min (max_chunk_bytes (hp_config p)) (max_body_bytes (hp_config p)) + 2 \<le> usize_max"
  then show "\<exists>r p'. parse_next_message p = Some (r, p')"
    using read_message_total [of "hp_config p" "hp_buffer p" "hp_mode p" "hp_consumed p"] by (auto simp: sizes_fit_def parse_next_message_def)
next
  fix r p' assume m: "parse_next_message p = Some (r, p')"
  then obtain z where z: "read_message (hp_mode p) (hp_config p) (hp_buffer p) (hp_consumed p) = Some z" by (auto simp: parse_next_message_def)
  show "case r of Inr (Some msg) \<Rightarrow> (\<exists>used. used \<noteq> [] \<and> hp_buffer p = used @ hp_buffer p' \<and> hp_consumed p' = hp_consumed p + length used \<and>
      hp_mode p' = hp_mode p \<and> hp_config p' = hp_config p) | _ \<Rightarrow> p' = p"
  proof (cases "\<exists>msg n. z = Inr (Some (msg, n))")
    case True
    then obtain msg n where n: "z = Inr (Some (msg, n))" by blast
    have "take n (hp_buffer p) \<noteq> []" "length (take n (hp_buffer p)) = n"
      using read_message_bound [OF z [unfolded n]] by auto
    with n m show ?thesis by (auto simp: parse_next_message_def z intro!: exI [of _ "take n (hp_buffer p)"])
  next
    case False
    then show ?thesis using m by (cases z) (auto simp: parse_next_message_def z split: option.splits)
  qed
qed

definition two_requests :: http1_parser where
  "two_requests = push_bytes (lit ''GET /a HTTP/1.1'' @ crlf @ lit ''Host: h'' @ crlf @ crlf @ lit ''GET'')
     (Http_Message.new_parser RequestMode \<lparr>max_header_bytes = 64, max_body_bytes = 8, max_chunk_bytes = 4\<rparr>)"

theorem http_parser_progress_witness:
  "\<exists>msg p' used. parse_next_message two_requests = Some (Inr (Some msg), p') \<and> used \<noteq> [] \<and>
     hp_buffer two_requests = used @ hp_buffer p' \<and> hp_consumed p' = length used \<and> hp_buffer p' = lit ''GET''"
proof -
  have "length (hp_buffer two_requests) = 31" "hp_config two_requests = \<lparr>max_header_bytes = 64, max_body_bytes = 8, max_chunk_bytes = 4\<rparr>"
    "hp_consumed two_requests = 0" by code_simp+
  then obtain r p' where r: "parse_next_message two_requests = Some (r, p')"
    using http_parser_progress [of two_requests] by (auto simp: usize_max_def)
  have "map_option (\<lambda>(r, p'). (map_sum (\<lambda>_. ()) (\<lambda>m. m \<noteq> None) r, hp_buffer p')) (parse_next_message two_requests) = Some (Inr True, lit ''GET'')"
    by code_simp
  then obtain msg where "r = Inr (Some msg)" "hp_buffer p' = lit ''GET''" using r by (cases r) auto
  then show ?thesis using http_parser_progress [of two_requests] r \<open>hp_consumed two_requests = 0\<close> by auto
qed

text \<open>Beyond that bound it does panic: a chunk size that the limits admit and that leaves no room for the cursor overflows.\<close>

lemma huge_chunk_panics:
  assumes "find_crlf bs start = Some e" "parse_chunk_size_line (slice bs start e) (base + start) = Inr (len, ext)"
    and "len \<le> max_chunk_bytes cfg" "len \<le> max_body_bytes cfg" "len \<le> usize_max" "usize_max < e + 2 + len + 2" "len \<noteq> 0"
  shows "parse_body bs start base cfg Chunked = None"
proof -
  have "chunk_loop cfg bs base start [] 0 = None" using assms
    by (subst chunk_loop.simps) (simp add: Let_def overflows_def saturating_sum_def not_less)
  then show ?thesis by (simp add: parse_body_def parse_chunked_body_def)
qed

section \<open>Delivery\<close>

lemma position_of_prefix:
  "position_of pat (bs @ cs) = Some i \<Longrightarrow> i + length pat \<le> length bs \<Longrightarrow> pat \<noteq> [] \<Longrightarrow> position_of pat bs = Some i"
proof (induction bs arbitrary: i)
  case (Cons b bs)
  have t: "take (length pat) (b # bs @ cs) = take (length pat) (b # bs)"
    using Cons.prems(2) by (cases "length pat") simp_all
  with Cons show ?case by (cases "take (length pat) (b # bs) = pat") auto
qed simp

text \<open>The header section of a stream is within the limit in whatever pieces it comes.\<close>

definition header_fits :: "parser_config \<Rightarrow> u8 list \<Rightarrow> bool" where
  "header_fits cfg bs \<longleftrightarrow> (case find_header_end bs of Some h \<Rightarrow> h + 3 | None \<Rightarrow> length bs) \<le> max_header_bytes cfg"

lemma header_fits_prefix: "header_fits cfg (bs @ cs) \<Longrightarrow> find_header_end bs = None \<Longrightarrow> length bs \<le> max_header_bytes cfg"
proof (cases "find_header_end (bs @ cs)")
  case (Some h)
  moreover assume "header_fits cfg (bs @ cs)" "find_header_end bs = None"
  ultimately show ?thesis using position_of_prefix [of "[13, 10, 13, 10]" bs cs h]
    by (force simp: header_fits_def find_header_end_def)
qed (simp add: header_fits_def)

lemma push_bytes_simps [simp]:
  "hp_mode (push_bytes bs p) = hp_mode p" "hp_config (push_bytes bs p) = hp_config p"
  "hp_consumed (push_bytes bs p) = hp_consumed p" "hp_buffer (push_bytes bs p) = hp_buffer p @ bs"
  "push_bytes [] p = p" "push_bytes cs (push_bytes bs p) = push_bytes (bs @ cs) p"
  by (simp_all add: push_bytes_def)

lemma read_message_result_cases:
  obtains (error) e where "r = Inl e" | (undecided) "r = Inr None" | (message) msg n where "r = Inr (Some (msg :: 'm, n :: usize))"
  by (metis (full_types) obj_sumE option.exhaust surj_pair)

lemma parse_next_message_undecided: "parse_next_message p = Some (Inr None, p') \<Longrightarrow> p' = p"
  unfolding parse_next_message_def map_option_eq_Some
proof (elim exE conjE)
  fix z
  assume "(case z of Inl e \<Rightarrow> (Inl e, p) | Inr None \<Rightarrow> (Inr None, p) | Inr (Some (msg, n)) \<Rightarrow>
    (Inr (Some msg), p\<lparr>hp_buffer := drop n (hp_buffer p), hp_consumed := hp_consumed p + n\<rparr>)) = (Inr None, p')"
  then show "p' = p" by (cases z rule: read_message_result_cases) auto
qed

lemma read_message_request: "read_message RequestMode cfg bs consumed = Some (Inr (Some (msg, n))) \<Longrightarrow> \<exists>rq. msg = ParsedRequest rq"
  by (auto simp: read_message_def message_of_def split: option.splits if_splits sum.splits prod.splits start_line_kind.splits)

text \<open>A parser that panics on a part of the bytes panics on all of them.\<close>

lemma parse_next_request_panic:
  assumes "hp_mode p = RequestMode" "parse_next_request p = None"
  shows "parse_next_request (push_bytes bs p) = None"
proof -
  let ?r = "\<lambda>bs. read_message RequestMode (hp_config p) bs (hp_consumed p)"
  have none: "?r (hp_buffer p) = None"
  proof (cases "?r (hp_buffer p)")
    case (Some m)
    then show ?thesis using assms
      by (cases m rule: read_message_result_cases) (auto simp: parse_next_request_def parse_next_message_def dest: read_message_request)
  qed
  then have "find_header_end (hp_buffer p) \<noteq> None" by (cases "find_header_end (hp_buffer p)") (auto simp: read_message_def)
  then have "?r (hp_buffer p @ bs) = None" using read_message_append [of RequestMode "hp_config p" "hp_buffer p" "hp_consumed p" bs] none by simp
  then show ?thesis using assms(1) by (simp add: parse_next_request_def parse_next_message_def)
qed

lemma parse_next_message_push:
  assumes "parse_next_message p = Some (r, p')" "r \<noteq> Inr None" "header_fits (hp_config p) (hp_buffer p @ bs)"
  shows "parse_next_message (push_bytes bs p) = Some (r, push_bytes bs p')"
proof -
  obtain m where m: "read_message (hp_mode p) (hp_config p) (hp_buffer p) (hp_consumed p) = Some m"
    using assms(1) by (auto simp: parse_next_message_def)
  have d: "m \<noteq> Inr None" using assms(1,2) m by (auto simp: parse_next_message_def split: sum.splits option.splits)
  then have "find_header_end (hp_buffer p) \<noteq> None"
    using m header_fits_prefix [OF assms(3)] by (cases "find_header_end (hp_buffer p)") (auto simp: read_message_def)
  then have m': "read_message (hp_mode p) (hp_config p) (hp_buffer p @ bs) (hp_consumed p) = Some m"
    using read_message_append [of "hp_mode p" "hp_config p" "hp_buffer p" "hp_consumed p" bs] m d by simp
  from d show ?thesis
  proof (cases m rule: read_message_result_cases)
    case (error e)
    with assms(1) have "r = Inl e" "p' = p" by (simp_all add: parse_next_message_def m)
    with error show ?thesis by (simp add: parse_next_message_def m')
  next
    case (message msg n)
    then have "n \<le> length (hp_buffer p)" using read_message_bound m by blast
    then show ?thesis using assms(1) message by (auto simp: parse_next_message_def m m' push_bytes_def)
  qed simp
qed

lemma parse_next_request_undecided:
  assumes "hp_mode p = RequestMode" and "parse_next_request p = Some (Inr None, p')"
  shows "p' = p"
proof -
  obtain m q where m: "parse_next_message p = Some (m, q)" using assms by (auto simp: parse_next_request_def bind_eq_Some_conv)
  consider e where "m = Inl e" | "m = Inr None" | rq where "m = Inr (Some (ParsedRequest rq))" | rs where "m = Inr (Some (ParsedResponse rs))"
    by (metis obj_sumE option.exhaust parsed_message.exhaust)
  then show ?thesis using assms m parse_next_message_undecided [of p q] by cases (auto simp: parse_next_request_def)
qed

lemma parse_next_request_push:
  assumes "hp_mode p = RequestMode" "parse_next_request p = Some (r, p')" "r \<noteq> Inr None"
    "header_fits (hp_config p) (hp_buffer p @ bs)"
  shows "parse_next_request (push_bytes bs p) = Some (r, push_bytes bs p')"
proof -
  obtain m q where m: "parse_next_message p = Some (m, q)" using assms(1,2) by (auto simp: parse_next_request_def bind_eq_Some_conv)
  have "m \<noteq> Inr None" using assms(1-3) m by (auto simp: parse_next_request_def)
  from parse_next_message_push [OF m this assms(4)] show ?thesis using assms(1,2) m
    by (auto simp: parse_next_request_def split: sum.splits option.splits parsed_message.splits)
qed

fun received_as :: "parse_error + parsed_request option \<Rightarrow> received" where
  "received_as (Inl e) = Bad_request e"
| "received_as (Inr (Some rq)) = Request rq"
| "received_as (Inr None) = Stream_end"

text \<open>C10: What a server connection makes of the bytes of a client does not depend on how the network cuts them into
  reads: reading until a request is complete gives what the parser gives on all the bytes at once (the request, the
  error, or nothing), and the bytes behind the request are all still there, in the parser or in the reads to come. This
  is for reads that are not empty, a header section that ends at least three bytes within the configured limit, and bytes on which the parser
  answers (it panics on a chunk size that overflows, and then on the whole when on a part).\<close>

theorem request_however_delivered:
  assumes "hp_mode p = RequestMode" "[] \<notin> set reads" "header_fits (hp_config p) (hp_buffer p @ concat reads)"
    and "parse_next_request (push_bytes (concat reads) p) = Some (r, p')"
  shows "\<exists>q rest. receive_request p reads = Some (received_as r, q, rest) \<and> push_bytes (concat rest) q = p'"
  using assms
proof (induction reads arbitrary: p)
  case Nil
  then show ?case
    by (subst receive_request.simps) (cases r rule: received_as.cases; simp)
next
  case (Cons read reads)
  obtain m q where m: "parse_next_request p = Some (m, q)"
    using parse_next_request_panic [OF Cons.prems(1)] Cons.prems(4) by (cases "parse_next_request p") auto
  show ?case
  proof (cases "m = Inr None")
    case True
    then have "q = p" using parse_next_request_undecided [OF Cons.prems(1)] m by simp
    with Cons.IH [of "push_bytes read p"] Cons.prems m True show ?thesis
      by (subst receive_request.simps) auto
  next
    case False
    from parse_next_request_push [OF Cons.prems(1) m False Cons.prems(3)] Cons.prems(4)
    have "m = r" "push_bytes (concat (read # reads)) q = p'" by simp_all
    with m False show ?thesis by (subst receive_request.simps) (cases r rule: received_as.cases; simp)
  qed
qed

theorem request_however_delivered_witness:
  "\<exists>q rest. receive_request (new_parser RequestMode \<lparr>max_header_bytes = 64, max_body_bytes = 8, max_chunk_bytes = 4\<rparr>)
     [lit ''GET /a HT'', lit ''TP/1.1'' @ [13], [10] @ lit ''Host: h'' @ crlf, crlf @ lit ''GE'', lit ''T''] =
       Some (Request \<lparr>rq_method = str ''GET'', rq_target = str ''/a'', rq_version = \<lparr>major = 1, minor = 1\<rparr>,
         rq_headers = [\<lparr>h_name = str ''Host'', h_value = str ''h''\<rparr>], rq_body = empty_body, rq_keep_alive = True\<rparr>, q, rest) \<and>
     hp_buffer q @ concat rest = lit ''GET''"
proof -
  let ?p = "new_parser RequestMode \<lparr>max_header_bytes = 64, max_body_bytes = 8, max_chunk_bytes = 4\<rparr>"
  let ?reads = "[lit ''GET /a HT'', lit ''TP/1.1'' @ [13], [10] @ lit ''Host: h'' @ crlf, crlf @ lit ''GE'', lit ''T'']"
  let ?rq = "\<lparr>rq_method = str ''GET'', rq_target = str ''/a'', rq_version = \<lparr>major = 1, minor = 1\<rparr>,
    rq_headers = [\<lparr>h_name = str ''Host'', h_value = str ''h''\<rparr>], rq_body = empty_body, rq_keep_alive = True\<rparr>"
  let ?p' = "?p\<lparr>hp_buffer := lit ''GET'', hp_consumed := 28\<rparr>"
  have h: "hp_mode ?p = RequestMode" "[] \<notin> set ?reads" "header_fits (hp_config ?p) (hp_buffer ?p @ concat ?reads)"
    "parse_next_request (push_bytes (concat ?reads) ?p) = Some (Inr (Some ?rq), ?p')" by code_simp+
  obtain q rest where r: "receive_request ?p ?reads = Some (received_as (Inr (Some ?rq)), q, rest)" "push_bytes (concat rest) q = ?p'"
    using request_however_delivered [OF h] by blast
  have "hp_buffer q @ concat rest = hp_buffer ?p'" unfolding r(2) [symmetric] by simp
  with r(1) show ?thesis by simp
qed

section \<open>The header limit\<close>

text \<open>Within three bytes of the limit the cut matters: a header section as long as the limit is taken in one read, with the four bytes
  that end it, and refused when a first read brings one of these four.\<close>

lemma header_limit_depends_on_reads:
  "map_option fst (receive_request (new_parser RequestMode \<lparr>max_header_bytes = 19, max_body_bytes = 8, max_chunk_bytes = 4\<rparr>)
     [lit ''GET / HTTP/1.0'' @ crlf @ lit ''H:h'' @ crlf @ crlf]) =
   Some (Request \<lparr>rq_method = str ''GET'', rq_target = str ''/'', rq_version = \<lparr>major = 1, minor = 0\<rparr>,
     rq_headers = [\<lparr>h_name = str ''H'', h_value = str ''h''\<rparr>], rq_body = empty_body, rq_keep_alive = False\<rparr>)"
  "map_option fst (receive_request (new_parser RequestMode \<lparr>max_header_bytes = 19, max_body_bytes = 8, max_chunk_bytes = 4\<rparr>)
     [lit ''GET / HTTP/1.0'' @ crlf @ lit ''H:h'' @ [13], [10] @ crlf]) =
   Some (Bad_request (parse_err HeaderTooLarge 19 ''HTTP header section exceeds configured limit''))"
  by code_simp+

end
