(* ===== verification/Websocket_Correct.thy ===== *)
theory Websocket_Correct
  imports Websocket
begin

text \<open>
  What the frame machine (theory \<open>Websocket\<close>) promises: a peer reads back the frame that was encoded however the stream cuts it,
  a message that was sent is the message that is received, compressed or not and in any number of fragments, the closing
  handshake, the bound on what is kept of a fragmented message, and that the pump behind TLS reads what a connection reads.
\<close>

section \<open>Bytes\<close>

lemma length_to_be_bytes [simp]: "length (to_be_bytes k n) = k"
  by (induction k arbitrary: n) simp_all

lemma from_be_bytes_snoc: "from_be_bytes (bs @ [b]) = from_be_bytes bs * 256 + unat b"
  by (simp add: from_be_bytes_def)

lemma from_to_be_bytes: "from_be_bytes (to_be_bytes k n) = n mod 256 ^ k"
proof (induction k arbitrary: n)
  case 0
  show ?case by (simp add: from_be_bytes_def)
next
  case (Suc k)
  have "n mod (256 * 256 ^ k) = 256 * (n div 256 mod 256 ^ k) + n mod 256" by (simp add: mod_mult2_eq)
  then show ?case by (simp add: from_be_bytes_snoc Suc unat_byte)
qed

lemma length_apply_mask [simp]: "length (apply_mask key bs) = length bs"
  by (simp add: apply_mask_def)

lemma nth_apply_mask: "i < length bs \<Longrightarrow> apply_mask key bs ! i = bs ! i XOR key ! (i mod 4)"
  by (simp add: apply_mask_def nth_enumerate_eq)

lemma apply_mask_involution [simp]: "apply_mask key (apply_mask key bs) = bs"
  by (rule nth_equalityI) (simp_all add: nth_apply_mask xor.assoc)

section \<open>Headers\<close>

lemma below_eleven: "(opc :: nat) < 11 \<Longrightarrow> opc = 0 \<or> opc = 1 \<or> opc = 2 \<or> opc = 3 \<or> opc = 4 \<or> opc = 5 \<or> opc = 6 \<or> opc = 7 \<or> opc = 8 \<or> opc = 9 \<or> opc = 10"
  by presburger

lemma encodable_opcode:
  assumes "validate_frame_for_encoding f = Inr ()"
  shows "f_opcode f \<in> {0, 1, 2, 8, 9, 0xA}"
proof -
  have n: "\<not> 0xA < f_opcode f" "f_opcode f \<notin> {3, 4, 5, 6, 7}"
    using assms by (auto simp: validate_frame_for_encoding_def split: if_splits)
  then have "unat (f_opcode f) < 11" by (simp add: word_less_nat_alt)
  note below_eleven [OF this]
  moreover have "f_opcode f = word_of_nat (unat (f_opcode f))" by simp
  ultimately have "f_opcode f \<in> {0, 1, 2, 3, 4, 5, 6, 7, 8, 9, 10}" by (elim disjE) simp_all
  with n(2) show ?thesis by auto
qed

lemma first_byte_fields:
  assumes "f_opcode f \<in> {0, 1, 2, 8, 9, 0xA}"
  shows "first_byte f AND 0x30 = 0" "(first_byte f AND 0x80 = 0) = (\<not> f_fin f)" "(first_byte f AND 0x40 = 0) = (\<not> f_rsv1 f)"
    "first_byte f AND 0x0F = f_opcode f"
  using assms by (auto simp: first_byte_def)

lemma marker_table:
  "list_all (\<lambda>n. (byte n :: u8) AND 0x7F = byte n \<and> (0x80 OR byte n) AND 0x7F = byte n \<and> (byte n AND 0x80 = 0) \<and>
     (0x80 OR byte n) AND 0x80 \<noteq> 0) [0..<128]"
  by code_simp

lemma marker_fields:
  assumes "n < 128"
  shows "(if masked then 0x80 OR byte n else byte n) AND 0x7F = byte n"
    "((if masked then 0x80 OR byte n else byte n) AND 0x80 = 0) = (\<not> masked)"
  using marker_table assms by (auto simp: list_all_iff)

section \<open>Streams\<close>

text \<open>A connection whose reads bring \<open>bytes\<close> in non-empty chunks of at most \<open>k\<close>.\<close>

definition chunks_within :: "nat \<Rightarrow> (string + u8 list) list \<Rightarrow> bool" where
  "chunks_within k reads \<longleftrightarrow> list_all (\<lambda>r. case r of Inl _ \<Rightarrow> False | Inr b \<Rightarrow> b \<noteq> [] \<and> length b \<le> k) reads"

definition stream_bytes :: "u8 list \<Rightarrow> (string + u8 list) list \<Rightarrow> u8 list" where
  "stream_bytes buffered reads = buffered @ concat (map projr reads)"

definition feeds :: "ws_conn \<Rightarrow> nat \<Rightarrow> u8 list \<Rightarrow> bool" where
  "feeds c k bytes \<longleftrightarrow> chunks_within k (io_reads (wc_io c)) \<and> stream_bytes (wc_buffered c) (io_reads (wc_io c)) = bytes"

text \<open>The connection with other input.\<close>

definition with_input :: "ws_conn \<Rightarrow> u8 list \<Rightarrow> (string + u8 list) list \<Rightarrow> ws_conn" where
  "with_input c buffered reads = c\<lparr>wc_buffered := buffered, wc_io := (wc_io c)\<lparr>io_reads := reads\<rparr>\<rparr>"

lemma with_input_simps [simp]:
  "wc_config (with_input c b r) = wc_config c" "wc_role (with_input c b r) = wc_role c" "wc_deflate (with_input c b r) = wc_deflate c"
  "wc_assembler (with_input c b r) = wc_assembler c" "wc_closed (with_input c b r) = wc_closed c" "wc_keys (with_input c b r) = wc_keys c"
  "wc_buffered (with_input c b r) = b" "io_reads (wc_io (with_input c b r)) = r"
  "io_writes (wc_io (with_input c b r)) = io_writes (wc_io c)" "io_written (wc_io (with_input c b r)) = io_written (wc_io c)"
  "with_input (with_input c b r) b' r' = with_input c b' r'" "with_input c (wc_buffered c) (io_reads (wc_io c)) = c"
  by (simp_all add: with_input_def)

lemma fill_buffer_feeds:
  assumes "chunks_within k reads" "stream_bytes buffered reads = bs @ rest" "length bs + k \<le> limit + 1"
  shows "\<exists>b r. fill_buffer (length bs) limit buffered reads = (Inr (), bs @ b, r) \<and> chunks_within k r \<and> stream_bytes b r = rest"
  using assms(1,2)
proof (induction reads arbitrary: buffered)
  case Nil
  then show ?case by (simp add: stream_bytes_def)
next
  case (Cons r reads)
  show ?case
  proof (cases "length bs \<le> length buffered")
    case True
    then obtain b where "buffered = bs @ b" "b @ concat (map projr (r # reads)) = rest"
      using Cons.prems(2) by (auto simp: stream_bytes_def append_eq_append_conv2)
    with Cons.prems show ?thesis by (auto simp: stream_bytes_def)
  next
    case False
    obtain chunk where c: "r = Inr chunk" "chunk \<noteq> []" "length chunk \<le> k" "chunks_within k reads"
      using Cons.prems(1) by (auto simp: chunks_within_def split: sum.splits)
    moreover have "stream_bytes (buffered @ chunk) reads = bs @ rest" using Cons.prems(2) c(1) by (simp add: stream_bytes_def)
    moreover have "\<not> limit < length (buffered @ chunk)" using False c(3) assms(3) by simp
    ultimately show ?thesis using Cons.IH [of "buffered @ chunk"] False by simp
  qed
qed

lemma read_exact_feeds:
  assumes "feeds c k (bs @ rest)" "length bs = n" "n + k \<le> saturating_sum (max_frame_bytes (wc_config c)) 14 + 1"
  shows "\<exists>b r. read_exact_buffered n c = (Inr bs, with_input c b r) \<and> feeds (with_input c b r) k rest"
proof -
  obtain b r where "fill_buffer (length bs) (saturating_sum (max_frame_bytes (wc_config c)) 14) (wc_buffered c) (io_reads (wc_io c)) = (Inr (), bs @ b, r)"
    "chunks_within k r" "stream_bytes b r = rest"
    using fill_buffer_feeds assms unfolding feeds_def by blast
  then show ?thesis by (intro exI [of _ b] exI [of _ r]) (simp add: read_exact_buffered_def with_input_def feeds_def assms(2) [symmetric])
qed

lemma ws_bind_return: "m c = (Inr x, c1) \<Longrightarrow> ws_bind m k c = k x c1"
  by (simp add: ws_bind_def)

lemma read_length_feeds:
  assumes "feeds c k (tl (length_bytes m n) @ rest)" "8 + k \<le> saturating_sum (max_frame_bytes (wc_config c)) 14 + 1" "n < 2 ^ 63"
  shows "\<exists>b r. read_length (if n \<le> 125 then byte n else if n \<le> 65535 then 126 else 127) c = (Inr n, with_input c b r) \<and>
    feeds (with_input c b r) k rest"
proof -
  consider (short) "n \<le> 125" | (medium) "\<not> n \<le> 125" "n \<le> 65535" | (long) "\<not> n \<le> 125" "\<not> n \<le> 65535" by blast
  then show ?thesis
  proof cases
    case short
    then have "byte n \<le> 125" "unat (byte n) = n" by (simp_all add: word_le_nat_alt unat_byte)
    then show ?thesis using short assms(1)
      by (intro exI [of _ "wc_buffered c"] exI [of _ "io_reads (wc_io c)"]) (simp add: read_length_def length_bytes_def)
  next
    case medium
    then have "from_be_bytes (to_be_bytes 2 n) = n" by (simp add: from_to_be_bytes)
    moreover obtain b r where "read_exact_buffered 2 c = (Inr (to_be_bytes 2 n), with_input c b r)" "feeds (with_input c b r) k rest"
      using read_exact_feeds [of c k "to_be_bytes 2 n" rest 2] medium assms by (auto simp: length_bytes_def)
    ultimately show ?thesis using medium
      by (intro exI [of _ b] exI [of _ r]) (simp add: read_length_def ws_bind_def)
  next
    case long
    have "from_be_bytes (to_be_bytes 8 n) = n" using assms(3) by (simp add: from_to_be_bytes)
    moreover obtain b r where "read_exact_buffered 8 c = (Inr (to_be_bytes 8 n), with_input c b r)" "feeds (with_input c b r) k rest"
      using read_exact_feeds [of c k "to_be_bytes 8 n" rest 8] long assms by (auto simp: length_bytes_def)
    ultimately show ?thesis using long assms(3)
      by (intro exI [of _ b] exI [of _ r]) (simp add: read_length_def ws_bind_def)
  qed
qed

lemma read_mask_feeds:
  assumes "feeds c k (case msk of Some key \<Rightarrow> key @ rest | None \<Rightarrow> rest)" "\<And>key. msk = Some key \<Longrightarrow> length key = 4"
    "8 + k \<le> saturating_sum (max_frame_bytes (wc_config c)) 14 + 1"
  shows "\<exists>b r. read_mask (msk \<noteq> None) c = (Inr msk, with_input c b r) \<and> feeds (with_input c b r) k rest"
proof (cases msk)
  case None
  then show ?thesis using assms(1)
    by (intro exI [of _ "wc_buffered c"] exI [of _ "io_reads (wc_io c)"]) (simp add: read_mask_def)
next
  case (Some key)
  obtain b r where "read_exact_buffered 4 c = (Inr key, with_input c b r)" "feeds (with_input c b r) k rest"
    using read_exact_feeds [of c k key rest 4] Some assms by auto
  then show ?thesis using Some by (intro exI [of _ b] exI [of _ r]) (simp add: read_mask_def ws_bind_def)
qed

section \<open>Frames\<close>

text \<open>The key of an encoded frame: a client masks, with four bytes.\<close>

definition frame_key :: "frame_role \<Rightarrow> u8 list option \<Rightarrow> u8 list option" where
  "frame_key role key = (if role = Client then key else None)"

lemma encode_frame_bytes:
  assumes "encode_frame f role key = Inr bytes"
  defines "msk \<equiv> frame_key role key"
  shows "validate_frame_for_encoding f = Inr ()" "(msk \<noteq> None) = (role = Client)"
    "bytes = first_byte f # length_bytes (if role = Client then 0x80 else 0) (length (f_payload f)) @
       (case msk of Some k \<Rightarrow> k @ apply_mask k (f_payload f) | None \<Rightarrow> f_payload f)"
  using assms(1) by (auto simp: msk_def frame_key_def encode_frame_def and_then_eq Let_def split: if_splits option.splits)

lemma length_bytes_hd_tl: "length_bytes m n = hd (length_bytes m n) # tl (length_bytes m n)"
  by (simp add: length_bytes_def)

lemma length_bytes_hd:
  "hd (length_bytes (if masked then 0x80 else 0) n) = (let v = (if n \<le> 125 then n else if n \<le> 65535 then 126 else 127)
     in if masked then 0x80 OR byte v else byte v)"
  by (simp add: length_bytes_def byte_def Let_def)

lemma read_encoded_frame:
  assumes "encode_frame f role key = Inr bytes" "wc_role c \<noteq> role" "feeds c k (bytes @ rest)"
    and "f_rsv1 f \<longrightarrow> wc_deflate c" "role = Client \<longrightarrow> length (the key) = 4" "length (f_payload f) < 2 ^ 63"
    and "length (f_payload f) \<le> max_frame_bytes (wc_config c)" "length (f_payload f) \<le> max_message_bytes (wc_config c)"
    and "max 8 (length (f_payload f)) + k \<le> saturating_sum (max_frame_bytes (wc_config c)) 14 + 1"
  shows "\<exists>b r. read_frame c = (Inr (f\<lparr>f_masked := (role = Client)\<rparr>), with_input c b r) \<and> feeds (with_input c b r) k rest"
proof -
  define n where "n = length (f_payload f)"
  define lb where "lb = length_bytes (if role = Client then 0x80 else 0) n"
  define msk where "msk = frame_key role key"
  define body where "body = (case msk of Some k \<Rightarrow> apply_mask k (f_payload f) | None \<Rightarrow> f_payload f)"
  define tail where "tail = (case msk of Some key' \<Rightarrow> key' @ body @ rest | None \<Rightarrow> body @ rest)"
  note e = encode_frame_bytes [OF assms(1), folded msk_def]
  note o = first_byte_fields [OF encodable_opcode [OF e(1)]]
  have lim: "2 + k \<le> saturating_sum (max_frame_bytes (wc_config c)) 14 + 1" "8 + k \<le> saturating_sum (max_frame_bytes (wc_config c)) 14 + 1"
    "n + k \<le> saturating_sum (max_frame_bytes (wc_config c)) 14 + 1" using assms(9) by (simp_all add: n_def)
  have mk: "length key' = 4" if "msk = Some key'" for key' using that assms(5) by (auto simp: msk_def frame_key_def split: if_splits)
  have "bytes @ rest = [first_byte f, hd lb] @ tl lb @ tail"
    unfolding e(3) lb_def n_def by (subst length_bytes_hd_tl) (simp add: tail_def body_def split: option.splits)
  with assms(3) have "feeds c k ([first_byte f, hd lb] @ tl lb @ tail)" by simp
  then obtain b1 r1 where 1: "read_exact_buffered 2 c = (Inr [first_byte f, hd lb], with_input c b1 r1)" "feeds (with_input c b1 r1) k (tl lb @ tail)"
    using read_exact_feeds [OF _ _ lim(1)] by fastforce
  obtain b2 r2 where 2: "read_length (if n \<le> 125 then byte n else if n \<le> 65535 then 126 else 127) (with_input c b1 r1) = (Inr n, with_input c b2 r2)"
      "feeds (with_input c b2 r2) k tail"
    using read_length_feeds [OF 1(2) [unfolded lb_def]] lim(2) assms(6) by (auto simp: n_def)
  obtain b3 r3 where 3: "read_mask (msk \<noteq> None) (with_input c b2 r2) = (Inr msk, with_input c b3 r3)" "feeds (with_input c b3 r3) k (body @ rest)"
    using read_mask_feeds [OF 2(2) [unfolded tail_def] mk] lim(2) by auto
  have "length body = n" by (simp add: body_def n_def split: option.splits)
  then obtain b4 r4 where 4: "read_exact_buffered n (with_input c b3 r3) = (Inr body, with_input c b4 r4)" "feeds (with_input c b4 r4) k rest"
    using read_exact_feeds [OF 3(2), of n] lim(3) by auto
  have marker: "hd lb AND 0x7F = (if n \<le> 125 then byte n else if n \<le> 65535 then 126 else 127)" "(hd lb AND 0x80 = 0) = (role \<noteq> Client)"
    using marker_fields [of "if n \<le> 125 then n else if n \<le> 65535 then 126 else 127" "role = Client"]
    by (simp_all add: lb_def length_bytes_hd Let_def split: if_splits)
  have ctl: "\<not> (f_opcode f AND 8 \<noteq> 0 \<and> (\<not> f_fin f \<or> 125 < n))" "f_rsv1 f \<Longrightarrow> f_opcode f = 1 \<or> f_opcode f = 2"
    using e(1) encodable_opcode [OF e(1)] by (auto simp: validate_frame_for_encoding_def n_def split: if_splits)
  have role: "(role = Client) = (wc_role c = Server)" using assms(2) by (cases role; cases "wc_role c") simp_all
  have payload: "(case msk of Some k' \<Rightarrow> apply_mask k' body | None \<Rightarrow> body) = f_payload f" by (simp add: body_def split: option.splits)
  have "read_frame c = (Inr \<lparr>f_fin = f_fin f, f_rsv1 = f_rsv1 f, f_opcode = f_opcode f, f_masked = (role = Client), f_payload = f_payload f\<rparr>, with_input c b4 r4)"
    using assms(4,7,8) ctl 2(1) 3(1) [unfolded e(2) role] 4(1)
    by (simp add: read_frame_def frame_reader_def ws_bind_def 1(1) o marker role payload e(2) n_def [symmetric] Let_def)
  then show ?thesis using 4(2) by (intro exI [of _ b4] exI [of _ r4]) simp
qed

text \<open>The connections of the witnesses.\<close>

definition sample_ws :: "frame_role \<Rightarrow> (string + u8 list) list \<Rightarrow> ws_conn" where
  "sample_ws role reads = \<lparr>wc_io = \<lparr>io_reads = reads, io_writes = [], io_written = []\<rparr>,
     wc_config = \<lparr>max_frame_bytes = 200, max_message_bytes = 200, per_message_deflate = False, subprotocols = []\<rparr>,
     wc_role = role, wc_deflate = False, wc_assembler = None, wc_buffered = [], wc_closed = False, wc_keys = [Some [1, 2, 3, 4]]\<rparr>"

text \<open>The text frame that says hi, masked, and the connection that gets it in three reads with a byte more.\<close>

definition hi_frame :: ws_frame where
  "hi_frame = \<lparr>f_fin = True, f_rsv1 = False, f_opcode = 1, f_masked = False, f_payload = [104, 105]\<rparr>"

definition hi_bytes :: "u8 list" where
  "hi_bytes = [0x81, 0x82, 1, 2, 3, 4, 105, 107]"

definition hi_reader :: ws_conn where
  "hi_reader = sample_ws Server [Inr [0x81], Inr [0x82, 1, 2], Inr [3, 4, 105, 107, 0x88]]"

section \<open>Messages\<close>

text \<open>The documented behaviour of a DEFLATE coder: the decoder gives back what was encoded, as far as it is asked, and ignores
  what follows the stream.\<close>

definition codec_law :: "deflate_coder \<Rightarrow> inflate_coder \<Rightarrow> bool" where
  "codec_law deflate inflate \<longleftrightarrow> (\<forall>p e n rest. deflate p = Inr e \<longrightarrow> inflate n (e @ rest) = Inr (take n p))"

lemma strip_suffix_Some: "strip_suffix p s = Some t \<Longrightarrow> s = t @ p"
proof -
  assume "strip_suffix p s = Some t"
  then have "take (length p) (rev s) = rev p" "t = rev (drop (length p) (rev s))"
    by (auto simp: strip_suffix_def strip_prefix_def split: if_splits)
  then have "rev s = rev p @ rev t" by (metis append_take_drop_id rev_rev_ident)
  then show ?thesis by (metis rev_append rev_rev_ident)
qed

lemma decompress_compress:
  assumes "codec_law deflate inflate" "compress_message deflate p = Inr e" "length p \<le> limit" "length p \<le> usize_max"
  shows "decompress_message inflate e limit = Inr p"
proof -
  obtain enc where enc: "deflate p = Inr enc" "e = (case strip_suffix block_end enc of Some x \<Rightarrow> x | None \<Rightarrow> enc)"
    using assms(2) by (auto simp: compress_message_def split: sum.splits)
  have "\<exists>rest. e @ block_end = enc @ rest"
    using enc(2) by (cases "strip_suffix block_end enc") (auto dest: strip_suffix_Some)
  then have "inflate (saturating_sum limit 1) (e @ block_end) = Inr (take (saturating_sum limit 1) p)"
    using assms(1) enc(1) by (auto simp: codec_law_def)
  with assms(3,4) show ?thesis by (simp add: decompress_message_def saturating_sum_def)
qed

text \<open>A text is made of scalar values.\<close>

definition message_ok :: "ws_message \<Rightarrow> bool" where
  "message_ok m \<longleftrightarrow> (case m of Text s \<Rightarrow> list_all scalar_value s | Binary _ \<Rightarrow> True)"

text \<open>The state a whole message leaves in the assembler's hands, and that it becomes the message again.\<close>

definition message_state :: "ws_message \<Rightarrow> bool \<Rightarrow> u8 list \<Rightarrow> fragment_state" where
  "message_state m compressed payload =
     \<lparr>fs_opcode = (case m of Text _ \<Rightarrow> 1 | Binary _ \<Rightarrow> 2), fs_compressed = compressed, fs_payload = payload\<rparr>"

lemma finish_message:
  assumes "message_ok m" "length (message_payload m) \<le> max_message_bytes config" "length (message_payload m) \<le> usize_max"
    and "if compressed then pmd \<and> compress_message deflate (message_payload m) = Inr payload \<and> codec_law deflate inflate
      else payload = message_payload m"
  shows "finish_fragment inflate (message_state m compressed payload) config pmd = Inr (Some m)"
proof -
  have utf8: "from_utf8 (as_bytes t) = Some t" if "m = Text t" for t
    using assms(1) that by (simp add: message_ok_def from_utf8_as_bytes)
  show ?thesis
  proof (cases compressed)
    case True
    then have "pmd" "decompress_message inflate payload (max_message_bytes config) = Inr (message_payload m)"
      using assms decompress_compress [of deflate inflate "message_payload m" payload] by simp_all
    with True assms(2) utf8 show ?thesis by (cases m) (simp_all add: finish_fragment_def message_state_def)
  next
    case False
    with assms(2,4) utf8 show ?thesis by (cases m) (simp_all add: finish_fragment_def message_state_def)
  qed
qed

text \<open>What sending a message writes: one final frame that carries the message, compressed or not.\<close>

lemma write_all_success:
  assumes "write_all bytes io = (Inr (), io')"
  shows "io_written io' = io_written io @ bytes" "io_reads io' = io_reads io"
  using assms by (auto simp: write_all_def split: list.splits option.splits)

lemma write_frame_success:
  assumes "write_frame f c = (Inr (), c')"
  obtains bytes where "encode_frame f (wc_role c) (next_key c) = Inr bytes" "io_written (wc_io c') = io_written (wc_io c) @ bytes"
  using assms write_all_success by (fastforce simp: write_frame_def Let_def split: sum.splits prod.splits if_splits)

lemma send_message_frame:
  assumes "send_message deflate m s = (Inr (), s')"
  obtains bytes compressed payload where
    "encode_frame \<lparr>f_fin = True, f_rsv1 = compressed, f_opcode = (case m of Text _ \<Rightarrow> 1 | Binary _ \<Rightarrow> 2), f_masked = False, f_payload = payload\<rparr>
       (wc_role s) (next_key s) = Inr bytes"
    "io_written (wc_io s') = io_written (wc_io s) @ bytes" "length payload \<le> length (message_payload m)"
    "if compressed then wc_deflate s \<and> compress_message deflate (message_payload m) = Inr payload else payload = message_payload m"
proof -
  let ?p = "message_payload m"
  obtain payload compressed where
    w: "write_frame \<lparr>f_fin = True, f_rsv1 = compressed, f_opcode = (case m of Text _ \<Rightarrow> 1 | Binary _ \<Rightarrow> 2), f_masked = False, f_payload = payload\<rparr> s = (Inr (), s')"
    and p: "(if wc_deflate s \<and> ?p \<noteq> [] then and_then (compress_message deflate ?p) (\<lambda>candidate.
        Inr (if length candidate < length ?p then (candidate, True) else (?p, False))) else Inr (?p, False)) = Inr (payload, compressed)"
    using assms by (auto simp: send_message_def Let_def split: if_splits sum.splits prod.splits)
  from p have "length payload \<le> length ?p"
    "if compressed then wc_deflate s \<and> compress_message deflate ?p = Inr payload else payload = ?p"
    by (auto simp: and_then_eq split: if_splits)
  with write_frame_success [OF w] that show ?thesis by metis
qed

lemma receive_loop_message:
  assumes "read_frame c = (Inr f, c1)" "f_opcode f \<notin> {8, 9, 0xA}"
    "assemble inflate (wc_assembler c1) f (wc_config c1) (wc_deflate c1) = (Inr (Some m), a)"
  shows "receive_loop inflate c = (Inr (Some m), c1\<lparr>wc_assembler := a\<rparr>)"
  using assms by (subst receive_loop.simps) simp

text \<open>C12: What one side of a connection sends is what the other side receives: a message whose sending succeeded is the next
  message of the peer, whatever way the network cuts the bytes and whether or not it was compressed, and the bytes behind it
  are still to be read. The message fits the peer's limits, with room for one read, and the peer is open and between messages.\<close>

theorem message_exchange:
  assumes "send_message deflate m s = (Inr (), s')" "io_written (wc_io s') = io_written (wc_io s) @ sent"
    and "wc_role c \<noteq> wc_role s" "wc_deflate c = wc_deflate s" "\<not> wc_closed c" "wc_assembler c = None" "feeds c k (sent @ rest)"
    and "message_ok m" "codec_law deflate inflate" "wc_role s = Client \<longrightarrow> length (the (next_key s)) = 4"
    and "length (message_payload m) < 2 ^ 63" "length (message_payload m) \<le> max_message_bytes (wc_config c)"
    and "length (message_payload m) \<le> max_frame_bytes (wc_config c)"
    and "max 8 (length (message_payload m)) + k \<le> saturating_sum (max_frame_bytes (wc_config c)) 14 + 1"
  shows "\<exists>b r. receive_message inflate c = (Inr (Some m), with_input c b r) \<and> feeds (with_input c b r) k rest"
proof -
  obtain bytes compressed payload where
    e: "encode_frame \<lparr>f_fin = True, f_rsv1 = compressed, f_opcode = (case m of Text _ \<Rightarrow> 1 | Binary _ \<Rightarrow> 2), f_masked = False, f_payload = payload\<rparr>
       (wc_role s) (next_key s) = Inr bytes"
    and w: "io_written (wc_io s') = io_written (wc_io s) @ bytes" and l: "length payload \<le> length (message_payload m)"
    and p: "if compressed then wc_deflate s \<and> compress_message deflate (message_payload m) = Inr payload else payload = message_payload m"
    using send_message_frame [OF assms(1)] by blast
  let ?f = "\<lparr>f_fin = True, f_rsv1 = compressed, f_opcode = (case m of Text _ \<Rightarrow> 1 | Binary _ \<Rightarrow> 2), f_masked = False, f_payload = payload\<rparr>"
  have "bytes = sent" using w assms(2) by simp
  have "max 8 (length payload) + k \<le> saturating_sum (max_frame_bytes (wc_config c)) 14 + 1"
    using assms(14) l by (simp add: max_def split: if_splits)
  then have "\<exists>b r. read_frame c = (Inr (?f\<lparr>f_masked := (wc_role s = Client)\<rparr>), with_input c b r) \<and> feeds (with_input c b r) k rest"
    by (intro read_encoded_frame [OF e assms(3)]) (use assms l p \<open>bytes = sent\<close> in \<open>simp_all split: if_splits\<close>)
  then obtain b r where
    f: "read_frame c = (Inr \<lparr>f_fin = True, f_rsv1 = compressed, f_opcode = (case m of Text _ \<Rightarrow> 1 | Binary _ \<Rightarrow> 2),
        f_masked = (wc_role s = Client), f_payload = payload\<rparr>, with_input c b r)" "feeds (with_input c b r) k rest" by auto
  have "length (message_payload m) \<le> usize_max" using assms(11) by (simp add: usize_max_def)
  then have "finish_fragment inflate (message_state m compressed payload) (wc_config c) (wc_deflate c) = Inr (Some m)"
    by (rule finish_message [OF assms(8,12), where deflate = deflate]) (use p assms(4,9) in \<open>simp split: if_splits\<close>)
  then have "receive_loop inflate c = (Inr (Some m), (with_input c b r)\<lparr>wc_assembler := None\<rparr>)"
    using assms(6) by (intro receive_loop_message [OF f(1)]) (cases m; simp add: assemble_def message_state_def)+
  moreover have "(with_input c b r)\<lparr>wc_assembler := None\<rparr> = with_input c b r" using assms(6) by (simp add: with_input_def)
  ultimately show ?thesis using f(2) assms(5) by (auto simp: receive_message_def)
qed

text \<open>A coder for the witness: every byte behind a one, and a zero at the end.\<close>

definition stored_deflate :: deflate_coder where
  "stored_deflate p = Inr (concat (map (\<lambda>b. [1, b]) p) @ [0])"

fun stored_inflate :: inflate_coder where
  "stored_inflate 0 e = Inr []"
| "stored_inflate (Suc n) (t # b # e) = (if t = 1 then and_then (stored_inflate n e) (\<lambda>p. Inr (b # p)) else Inr [])"
| "stored_inflate (Suc n) e = Inr []"

lemma stored_codec: "codec_law stored_deflate stored_inflate"
proof -
  have "stored_inflate n (concat (map (\<lambda>b. [1, b]) p) @ 0 # rest) = Inr (take n p)" for n p rest
    by (induction p arbitrary: n) (case_tac [!] n, simp_all, cases rest, simp_all)
  then show ?thesis by (simp add: codec_law_def stored_deflate_def)
qed

theorem message_exchange_witness:
  "\<exists>b r. receive_message stored_inflate hi_reader = (Inr (Some (Text (str ''hi''))), with_input hi_reader b r) \<and>
     feeds (with_input hi_reader b r) 5 [0x88]"
proof -
  let ?s = "sample_ws Client []"
  let ?s' = "?s\<lparr>wc_keys := [], wc_io := (wc_io ?s)\<lparr>io_written := hi_bytes\<rparr>\<rparr>"
  have "send_message stored_deflate (Text (str ''hi'')) ?s = (Inr (), ?s')" "io_written (wc_io ?s') = io_written (wc_io ?s) @ hi_bytes"
    "wc_role hi_reader \<noteq> wc_role ?s" "wc_deflate hi_reader = wc_deflate ?s" "\<not> wc_closed hi_reader" "wc_assembler hi_reader = None"
    "feeds hi_reader 5 (hi_bytes @ [0x88])" "message_ok (Text (str ''hi''))" "length (the (next_key ?s)) = 4"
    "length (message_payload (Text (str ''hi''))) = 2"
    "max 8 (length (message_payload (Text (str ''hi'')))) + 5 \<le> saturating_sum (max_frame_bytes (wc_config hi_reader)) 14 + 1" by code_simp+
  then show ?thesis using message_exchange [of stored_deflate "Text (str ''hi'')" ?s ?s' hi_bytes hi_reader 5 "[0x88]" stored_inflate] stored_codec
    by (simp add: hi_reader_def sample_ws_def)
qed

section \<open>Fragments\<close>

text \<open>The assembler on a sequence of frames, up to an error or a message.\<close>

fun assemble_all :: "inflate_coder \<Rightarrow> ws_config \<Rightarrow> bool \<Rightarrow> fragment_state option \<Rightarrow> ws_frame list \<Rightarrow>
    (ws_error + ws_message option) \<times> fragment_state option" where
  "assemble_all inflate config pmd a [] = (Inr None, a)"
| "assemble_all inflate config pmd a (f # fs) = (case assemble inflate a f config pmd of
     (Inr None, a') \<Rightarrow> assemble_all inflate config pmd a' fs
   | (r, a') \<Rightarrow> (r, a'))"

text \<open>The frames of a message in the given parts: the first has the opcode and the compression bit, the others continue it, the
  last is final.\<close>

fun continuations :: "u8 list list \<Rightarrow> ws_frame list" where
  "continuations [] = []"
| "continuations (p # ps) = \<lparr>f_fin = (ps = []), f_rsv1 = False, f_opcode = 0, f_masked = False, f_payload = p\<rparr> # continuations ps"

definition fragments :: "u8 \<Rightarrow> bool \<Rightarrow> u8 list \<Rightarrow> u8 list list \<Rightarrow> ws_frame list" where
  "fragments opcode compressed p ps =
     \<lparr>f_fin = (ps = []), f_rsv1 = compressed, f_opcode = opcode, f_masked = False, f_payload = p\<rparr> # continuations ps"

lemma assemble_continuations:
  "ps \<noteq> [] \<Longrightarrow> length (fs_payload st) + length (concat ps) \<le> max_message_bytes config \<Longrightarrow>
   assemble_all inflate config pmd (Some st) (continuations ps) =
     (finish_fragment inflate (st\<lparr>fs_payload := fs_payload st @ concat ps\<rparr>) config pmd, None)"
proof (induction ps arbitrary: st)
  case (Cons p ps)
  have a: "append_with_limit (fs_payload st) p (max_message_bytes config) = Inr (fs_payload st @ p)"
    using Cons.prems by (simp add: append_with_limit_def)
  show ?case
  proof (cases "ps = []")
    case True
    then show ?thesis using a by (auto simp: assemble_def split: prod.splits sum.splits option.splits)
  next
    case False
    with Cons.IH [of "st\<lparr>fs_payload := fs_payload st @ p\<rparr>"] Cons.prems a show ?thesis by (simp add: assemble_def)
  qed
qed simp

text \<open>C16: How a message is cut into frames does not matter: the frames of any division of its payload, fed to an assembler that is
  between messages, give what the whole payload in one frame gives, and leave the assembler between messages again.\<close>

theorem fragmentation_irrelevant:
  assumes "opcode = 1 \<or> opcode = 2" "length (p @ concat ps) \<le> max_message_bytes config"
  shows "assemble_all inflate config pmd None (fragments opcode compressed p ps) =
    assemble_all inflate config pmd None (fragments opcode compressed (p @ concat ps) [])"
proof -
  let ?st = "\<lambda>q. \<lparr>fs_opcode = opcode, fs_compressed = compressed, fs_payload = q\<rparr>"
  have "opcode \<noteq> 0" using assms(1) by auto
  then have one: "assemble_all inflate config pmd None (fragments opcode compressed q []) = (finish_fragment inflate (?st q) config pmd, None)" for q
    using assms(1) by (auto simp: fragments_def assemble_def split: prod.splits sum.splits option.splits)
  show ?thesis
  proof (cases "ps = []")
    case False
    then have "assemble_all inflate config pmd None (fragments opcode compressed p ps) =
        assemble_all inflate config pmd (Some (?st p)) (continuations ps)"
      using assms(1) \<open>opcode \<noteq> 0\<close> by (auto simp: fragments_def assemble_def)
    with False assms(2) show ?thesis unfolding one by (simp add: assemble_continuations)
  qed simp
qed

theorem fragmentation_irrelevant_witness:
  "assemble_all stored_inflate (wc_config hi_reader) False None (fragments 1 False [104] [[], [105]]) = (Inr (Some (Text (str ''hi''))), None)"
proof -
  have "assemble_all stored_inflate (wc_config hi_reader) False None (fragments 1 False ([104] @ concat [[], [105]]) []) =
      (Inr (Some (Text (str ''hi''))), None)" "length ([104 :: u8] @ concat [[], [105]]) \<le> max_message_bytes (wc_config hi_reader)" by code_simp+
  then show ?thesis
    using fragmentation_irrelevant [of 1 "[104]" "[[], [105]]" "wc_config hi_reader" stored_inflate False False] by simp
qed

section \<open>What is kept\<close>

text \<open>A pending fragment is of a text or a binary message and within the limit.\<close>

fun fragment_ok :: "ws_config \<Rightarrow> fragment_state option \<Rightarrow> bool" where
  "fragment_ok config None = True"
| "fragment_ok config (Some st) = (length (fs_payload st) \<le> max_message_bytes config \<and> (fs_opcode st = 1 \<or> fs_opcode st = 2))"

text \<open>Reading changes the input of a connection and nothing else.\<close>

definition reads_only :: "'a ws_op \<Rightarrow> bool" where
  "reads_only m \<longleftrightarrow> (\<forall>c. \<exists>b r. snd (m c) = with_input c b r)"

named_theorems reads_only_intros

lemma reads_only_D: "reads_only m \<Longrightarrow> m c = (x, c') \<Longrightarrow> \<exists>b r. c' = with_input c b r"
  by (metis reads_only_def snd_conv)

lemma reads_only_return [reads_only_intros]: "reads_only (ws_return x)" "reads_only (ws_fail k e)"
  unfolding reads_only_def by (metis ws_simps snd_conv with_input_simps(12))+

lemma reads_only_bind [reads_only_intros]:
  assumes "reads_only m" "\<And>x. reads_only (k x)"
  shows "reads_only (ws_bind m k)"
  unfolding reads_only_def
proof
  fix c
  obtain x b r where m: "m c = (x, with_input c b r)" using assms(1) unfolding reads_only_def by (metis prod.collapse)
  show "\<exists>b r. snd (ws_bind m k c) = with_input c b r"
  proof (cases x)
    case (Inr y)
    then show ?thesis using m assms(2) [of y] unfolding reads_only_def ws_bind_def by (metis (no_types, lifting) old.prod.case old.sum.simps(6) with_input_simps(11))
  qed (auto simp: ws_bind_def m)
qed

lemma reads_only_if [reads_only_intros]: "(P \<Longrightarrow> reads_only m) \<Longrightarrow> (\<not> P \<Longrightarrow> reads_only k) \<Longrightarrow> reads_only (if P then m else k)"
  by simp

lemma reads_only_read_exact [reads_only_intros]: "reads_only (read_exact_buffered n)"
  unfolding reads_only_def
proof
  fix c :: ws_conn
  obtain x b r where "fill_buffer n (saturating_sum (max_frame_bytes (wc_config c)) 14) (wc_buffered c) (io_reads (wc_io c)) = (x, b, r)"
    by (metis prod_cases3)
  then have "snd (read_exact_buffered n c) = with_input c (case x of Inl _ \<Rightarrow> b | Inr _ \<Rightarrow> drop n b) r"
    by (cases x) (simp_all add: read_exact_buffered_def with_input_def)
  then show "\<exists>b r. snd (read_exact_buffered n c) = with_input c b r" by blast
qed

lemma reads_only_read_length [reads_only_intros]: "reads_only (read_length marker)"
  unfolding read_length_def by (intro reads_only_intros)

lemma reads_only_read_mask [reads_only_intros]: "reads_only (read_mask masked)"
  unfolding read_mask_def by (intro reads_only_intros)

lemma reads_only_read_frame: "reads_only read_frame"
proof -
  have "\<exists>b r. snd (read_frame c) = with_input c b r" for c
    unfolding read_frame_def frame_reader_def Let_def
    by (rule reads_only_def [THEN iffD1, rule_format]) (intro reads_only_intros)
  then show ?thesis by (simp add: reads_only_def)
qed

lemma read_exact_length: "read_exact_buffered n c = (Inr bs, c') \<Longrightarrow> length bs = n"
  by (auto simp: read_exact_buffered_def Let_def split: prod.splits sum.splits dest!: fill_buffer_unread)

lemma read_frame_limit:
  assumes "read_frame c = (Inr f, c')"
  shows "length (f_payload f) \<le> max_message_bytes (wc_config c)" "length (f_payload f) \<le> max_frame_bytes (wc_config c)"
    "f_opcode f AND 8 \<noteq> 0 \<Longrightarrow> f_fin f \<and> length (f_payload f) \<le> 125"
proof -
  obtain header c1 n c2 msk c3 payload where
    "read_exact_buffered n c3 = (Inr payload, c')" "n \<le> max_message_bytes (wc_config c)" "n \<le> max_frame_bytes (wc_config c)"
    "f_payload f = (case msk of Some k \<Rightarrow> apply_mask k payload | None \<Rightarrow> payload)" "f_opcode f AND 8 \<noteq> 0 \<longrightarrow> f_fin f \<and> n \<le> 125"
    using assms unfolding read_frame_def frame_reader_def ws_bind_Inr Let_def by (auto simp: ws_bind_Inr not_less split: if_splits)
  then show "length (f_payload f) \<le> max_message_bytes (wc_config c)" "length (f_payload f) \<le> max_frame_bytes (wc_config c)"
    "f_opcode f AND 8 \<noteq> 0 \<Longrightarrow> f_fin f \<and> length (f_payload f) \<le> 125"
    by (auto split: option.splits dest!: read_exact_length)
qed

lemma assemble_keeps:
  assumes "assemble inflate a f config pmd = (r, a')" "length (f_payload f) \<le> max_message_bytes config" "fragment_ok config a"
  shows "fragment_ok config a'"
  using assms by (auto simp: assemble_def append_with_limit_def Let_def split: if_splits option.splits sum.splits)

lemma write_frame_keeps:
  assumes "write_frame f c = (r, c')"
  shows "wc_assembler c' = wc_assembler c" "wc_config c' = wc_config c" "wc_closed c' = wc_closed c"
  using assms by (auto simp: write_frame_def Let_def split: sum.splits prod.splits if_splits)

lemma send_control_keeps:
  assumes "send_control opcode payload c = (r, c')"
  shows "wc_assembler c' = wc_assembler c" "wc_config c' = wc_config c" "wc_closed c' = wc_closed c"
  using assms by (auto simp: send_control_def split: if_splits dest: write_frame_keeps)

lemma handle_peer_close_keeps:
  assumes "handle_peer_close payload c = (r, c')"
  shows "wc_assembler c' = wc_assembler c" "wc_config c' = wc_config c"
  using assms by (auto simp: handle_peer_close_def ws_bind_def split: sum.splits prod.splits if_splits dest: write_frame_keeps)

lemma finish_fragment_limit:
  assumes "finish_fragment inflate st config pmd = Inr (Some m)"
  shows "length (message_payload m) \<le> max_message_bytes config"
  using assms as_bytes_from_utf8
  by (fastforce simp: finish_fragment_def and_then_eq split: if_splits option.splits)

lemma assemble_limit:
  assumes "assemble inflate a f config pmd = (Inr (Some m), a')"
  shows "length (message_payload m) \<le> max_message_bytes config"
  using assms by (auto simp: assemble_def Let_def split: if_splits option.splits sum.splits dest: finish_fragment_limit)

lemma receive_loop_data:
  assumes "read_frame c = (Inr f, c1)" "f_opcode f \<notin> {8, 9, 0xA}"
    "assemble inflate (wc_assembler c1) f (wc_config c1) (wc_deflate c1) = (x, a)"
  shows "receive_loop inflate c = (if x = Inr None then receive_loop inflate (c1\<lparr>wc_assembler := a\<rparr>) else (x, c1\<lparr>wc_assembler := a\<rparr>))"
  using assms by (subst receive_loop.simps) (auto split: sum.splits option.splits)

lemma receive_loop_control:
  assumes "read_frame c = (Inr f, c1)"
  shows "f_opcode f = 8 \<Longrightarrow> receive_loop inflate c = ws_bind (handle_peer_close (f_payload f)) (\<lambda>_. ws_return None) c1"
    "f_opcode f = 9 \<Longrightarrow> receive_loop inflate c = ws_bind (send_pong (f_payload f)) (\<lambda>_. receive_loop inflate) c1"
    "f_opcode f = 0xA \<Longrightarrow> receive_loop inflate c = receive_loop inflate c1"
  using assms by (subst receive_loop.simps, simp add: ws_bind_def)+

lemma receive_loop_bounded:
  assumes "fragment_ok (wc_config c) (wc_assembler c)" "receive_loop inflate c = (r, c')"
  shows "wc_config c' = wc_config c \<and> fragment_ok (wc_config c) (wc_assembler c') \<and>
    (\<forall>m. r = Inr (Some m) \<longrightarrow> length (message_payload m) \<le> max_message_bytes (wc_config c))"
  using assms
proof (induction inflate c arbitrary: r c' rule: receive_loop.induct)
  case (1 inflate c)
  obtain x c1 where f: "read_frame c = (x, c1)" by force
  then obtain b i where "c1 = with_input c b i" using reads_only_D [OF reads_only_read_frame] by blast
  then have c1: "wc_assembler c1 = wc_assembler c" "wc_config c1 = wc_config c" by simp_all
  show ?case
  proof (cases x)
    case (Inl e)
    with f "1.prems" c1 show ?thesis by (subst (asm) receive_loop.simps) auto
  next
    case (Inr fr)
    note f = f [unfolded Inr]
    consider (close) "f_opcode fr = 8" | (ping) "f_opcode fr = 9" | (pong) "f_opcode fr = 0xA" | (data) "f_opcode fr \<notin> {8, 9, 0xA}" by auto
    then show ?thesis
    proof cases
      case close
      obtain y c2 where h: "handle_peer_close (f_payload fr) c1 = (y, c2)" by force
      have "c' = c2" "r \<noteq> Inr (Some m)" for m
        using "1.prems"(2) h unfolding receive_loop_control(1) [OF f close] by (auto simp: ws_bind_def split: sum.splits)
      with handle_peer_close_keeps [OF h] c1 "1.prems"(1) show ?thesis by simp
    next
      case ping
      obtain y c2 where p: "send_pong (f_payload fr) c1 = (y, c2)" by force
      note k = send_control_keeps [OF p [unfolded send_pong_def]]
      show ?thesis
      proof (cases y)
        case (Inl e)
        then have "c' = c2" "r = Inl e" using "1.prems"(2) p unfolding receive_loop_control(2) [OF f ping] by (auto simp: ws_bind_def)
        with k c1 "1.prems"(1) show ?thesis by simp
      next
        case (Inr u)
        then have "receive_loop inflate c2 = (r, c')" using "1.prems"(2) p unfolding receive_loop_control(2) [OF f ping] by (auto simp: ws_bind_def)
        from "1.IH"(1) [OF f [symmetric] refl _ ping p [symmetric] Inr _ this] ping k c1 "1.prems"(1) show ?thesis by simp
      qed
    next
      case pong
      then have "receive_loop inflate c1 = (r, c')" using "1.prems"(2) receive_loop_control(3) [OF f] by simp
      from "1.IH"(2) [OF f [symmetric] refl _ _ pong _ this] pong c1 "1.prems"(1) show ?thesis by simp
    next
      case data
      obtain y a where a: "assemble inflate (wc_assembler c1) fr (wc_config c1) (wc_deflate c1) = (y, a)" by force
      have ok: "fragment_ok (wc_config c) a"
        using assemble_keeps [OF a] "1.prems"(1) read_frame_limit(1) [OF f] by (simp add: c1)
      show ?thesis
      proof (cases "y = Inr None")
        case True
        then have "receive_loop inflate (c1\<lparr>wc_assembler := a\<rparr>) = (r, c')" using "1.prems"(2) receive_loop_data [OF f data a] by simp
        from "1.IH"(3) [OF f [symmetric] refl _ _ _ a [symmetric] True refl _ this] data ok c1 show ?thesis by simp
      next
        case False
        then have "(r, c') = (y, c1\<lparr>wc_assembler := a\<rparr>)" using "1.prems"(2) receive_loop_data [OF f data a] by simp
        then have "c' = c1\<lparr>wc_assembler := a\<rparr>" "r = y" by simp_all
        with ok c1 assemble_limit [of inflate "wc_assembler c1" fr "wc_config c1" "wc_deflate c1"] a show ?thesis by simp
      qed
    qed
  qed
qed

text \<open>C17: What a peer sends cannot make a connection keep or hand out more than the configured message size: a pending fragment stays
  within it, with the opcode of a text or a binary message, and so does a received message, whatever frames arrive and however
  receiving ends.\<close>

theorem receive_bounded:
  assumes "fragment_ok (wc_config c) (wc_assembler c)" "receive_message inflate c = (r, c')"
  shows "fragment_ok (wc_config c) (wc_assembler c') \<and>
    (case r of Inr (Some m) \<Rightarrow> length (message_payload m) \<le> max_message_bytes (wc_config c) | _ \<Rightarrow> True)"
  using assms receive_loop_bounded [OF assms(1)]
  by (auto simp: receive_message_def split: if_splits sum.splits option.splits)

theorem receive_bounded_witness:
  "fragment_ok (wc_config hi_reader) (wc_assembler (snd (receive_message stored_inflate hi_reader)))"
proof -
  have "fragment_ok (wc_config hi_reader) (wc_assembler hi_reader)" by code_simp
  from receive_bounded [OF this, of stored_inflate "fst (receive_message stored_inflate hi_reader)" "snd (receive_message stored_inflate hi_reader)"]
  show ?thesis by simp
qed

section \<open>Control frames\<close>

lemma write_frame_ok:
  assumes "validate_frame_for_encoding f = Inr ()" "io_writes (wc_io c) = []" "wc_role c = Client \<longrightarrow> next_key c \<noteq> None"
  shows "\<exists>bytes c'. encode_frame f (wc_role c) (next_key c) = Inr bytes \<and> write_frame f c = (Inr (), c') \<and>
    io_written (wc_io c') = io_written (wc_io c) @ bytes \<and> io_reads (wc_io c') = io_reads (wc_io c) \<and> wc_buffered c' = wc_buffered c"
proof -
  obtain bytes where e: "encode_frame f (wc_role c) (next_key c) = Inr bytes"
    using assms(1,3) by (cases "next_key c"; cases "wc_role c") (simp_all add: encode_frame_def Let_def)
  let ?c = "if wc_role c = Client then c\<lparr>wc_keys := tl (wc_keys c)\<rparr> else c"
  let ?io = "(wc_io c)\<lparr>io_writes := [], io_written := io_written (wc_io c) @ bytes\<rparr>"
  have "write_frame f c = (Inr (), ?c\<lparr>wc_io := ?io\<rparr>)"
    using assms e by (auto simp: write_frame_def write_all_def Let_def)
  with e show ?thesis by auto
qed

lemma validate_close_written:
  assumes "close_payload code reason = Inr payload" "list_all scalar_value reason"
  shows "validate_close_payload payload = Inr ()" "length payload \<le> 125"
proof -
  have "unat code < 65536" using unsigned_less [of code, where ?'a = nat] by simp
  then have "from_be_bytes (to_be_bytes 2 (unat code)) = unat code" by (simp add: from_to_be_bytes)
  then show "validate_close_payload payload = Inr ()" "length payload \<le> 125"
    using assms from_utf8_as_bytes [OF assms(2)]
    by (auto simp: close_payload_def validate_close_payload_def and_then_eq length_as_bytes byte_len_def split: if_splits)
qed

text \<open>C18: The closing handshake: when one side has closed, the other, on its next attempt to receive, gets no message, answers with the
  same close frame and is closed too; the bytes behind the close frame are untouched. The peer's limits take a control
  frame and its writes go through.\<close>

theorem closing_handshake:
  assumes "close_connection code reason s = (Inr (), s')" "\<not> wc_closed s" "io_written (wc_io s') = io_written (wc_io s) @ sent"
    and "wc_role c \<noteq> wc_role s" "\<not> wc_closed c" "feeds c k (sent @ rest)" "list_all scalar_value reason"
    and "wc_role s = Client \<longrightarrow> length (the (next_key s)) = 4" "wc_role c = Client \<longrightarrow> next_key c \<noteq> None" "io_writes (wc_io c) = []"
    and "125 \<le> max_frame_bytes (wc_config c)" "125 \<le> max_message_bytes (wc_config c)"
    and "125 + k \<le> saturating_sum (max_frame_bytes (wc_config c)) 14 + 1"
  shows "wc_closed s' \<and> (\<exists>payload answer c'. close_payload code reason = Inr payload \<and>
    encode_frame (reply_frame 8 payload) (wc_role c) (next_key c) = Inr answer \<and>
    receive_message inflate c = (Inr None, c') \<and> wc_closed c' \<and> io_written (wc_io c') = io_written (wc_io c) @ answer \<and> feeds c' k rest)"
proof -
  obtain payload s1 where p: "close_payload code reason = Inr payload" "send_control 8 payload s = (Inr (), s1)" "s' = s1\<lparr>wc_closed := True\<rparr>"
    using assms(1,2) by (auto simp: close_connection_def ws_bind_Inr split: sum.splits)
  note v = validate_close_written [OF p(1) assms(7)]
  have w: "write_frame (reply_frame 8 payload) s = (Inr (), s1)" using p(2) v(2) by (simp add: send_control_def reply_frame_def)
  then obtain bytes where e: "encode_frame (reply_frame 8 payload) (wc_role s) (next_key s) = Inr bytes" "io_written (wc_io s1) = io_written (wc_io s) @ bytes"
    by (rule write_frame_success)
  have "bytes = sent" using e(2) p(3) assms(3) by simp
  have "\<exists>b r. read_frame c = (Inr ((reply_frame 8 payload)\<lparr>f_masked := (wc_role s = Client)\<rparr>), with_input c b r) \<and> feeds (with_input c b r) k rest"
    by (rule read_encoded_frame [OF e(1) assms(4)]) (use assms v(2) \<open>bytes = sent\<close> in \<open>simp_all add: reply_frame_def\<close>)
  then obtain b r where f: "read_frame c = (Inr ((reply_frame 8 payload)\<lparr>f_masked := (wc_role s = Client)\<rparr>), with_input c b r)"
    "feeds (with_input c b r) k rest" by blast
  have "validate_frame_for_encoding (reply_frame 8 payload) = Inr ()" using v(2) by (simp add: validate_frame_for_encoding_def reply_frame_def)
  moreover have "next_key (with_input c b r) = next_key c" by (simp add: next_key_def)
  ultimately have "\<exists>answer c2. encode_frame (reply_frame 8 payload) (wc_role c) (next_key c) = Inr answer \<and>
      write_frame (reply_frame 8 payload) (with_input c b r) = (Inr (), c2) \<and>
      io_written (wc_io c2) = io_written (wc_io c) @ answer \<and> io_reads (wc_io c2) = r \<and> wc_buffered c2 = b"
    using write_frame_ok [of "reply_frame 8 payload" "with_input c b r"] assms(9,10) by simp
  then obtain answer c2 where a: "encode_frame (reply_frame 8 payload) (wc_role c) (next_key c) = Inr answer"
      "write_frame (reply_frame 8 payload) (with_input c b r) = (Inr (), c2)"
      "io_written (wc_io c2) = io_written (wc_io c) @ answer" "io_reads (wc_io c2) = r" "wc_buffered c2 = b" by blast
  have "handle_peer_close payload (with_input c b r) = (Inr (), c2\<lparr>wc_closed := True\<rparr>)"
    using a(2) v(1) assms(5) by (simp add: handle_peer_close_def ws_bind_def reply_frame_def)
  then have "receive_message inflate c = (Inr None, c2\<lparr>wc_closed := True\<rparr>)"
    using receive_loop_control(1) [OF f(1)] assms(5) by (simp add: receive_message_def ws_bind_def reply_frame_def)
  moreover have "feeds (c2\<lparr>wc_closed := True\<rparr>) k rest" using f(2) a(4,5) by (simp add: feeds_def)
  ultimately show ?thesis using p a by auto
qed

theorem closing_handshake_witness:
  "\<exists>c'. receive_message stored_inflate (sample_ws Client [Inr [0x88], Inr [5, 3, 0xE8], Inr [98, 121, 101]]) = (Inr None, c') \<and> wc_closed c'"
proof -
  let ?s = "sample_ws Server []" and ?c = "sample_ws Client [Inr [0x88], Inr [5, 3, 0xE8], Inr [98, 121, 101]]"
  let ?sent = "[0x88, 5, 3, 0xE8, 98, 121, 101]"
  let ?s' = "?s\<lparr>wc_closed := True, wc_io := (wc_io ?s)\<lparr>io_written := ?sent\<rparr>\<rparr>"
  have "to_be_bytes 2 n = [byte (n div 256 mod 256), byte (n mod 256)]" for n by (simp add: numeral_2_eq_2)
  then have "to_be_bytes 2 1000 = [3, 0xE8]" by simp
  then have "close_payload 1000 (str ''bye'') = Inr [3, 0xE8, 98, 121, 101]"
    by (simp add: close_payload_def validate_close_code_def encode_ascii byte_len_def len_utf8_def)
  then have "close_connection 1000 (str ''bye'') ?s = (Inr (), ?s')"
    by (simp add: close_connection_def ws_bind_def send_control_def write_frame_def encode_frame_def validate_frame_for_encoding_def
      first_byte_def length_bytes_def write_all_def sample_ws_def Let_def byte_def)
  moreover have "io_written (wc_io ?s') = io_written (wc_io ?s) @ ?sent" "wc_role ?c \<noteq> wc_role ?s" "\<not> wc_closed ?c" "\<not> wc_closed ?s"
    "feeds ?c 3 (?sent @ [])" "list_all scalar_value (str ''bye'')" "next_key ?c \<noteq> None" "wc_role ?s \<noteq> Client" "io_writes (wc_io ?c) = []"
    "125 \<le> max_frame_bytes (wc_config ?c)" "125 \<le> max_message_bytes (wc_config ?c)"
    "125 + 3 \<le> saturating_sum (max_frame_bytes (wc_config ?c)) 14 + 1" by code_simp+
  ultimately show ?thesis using closing_handshake [of 1000 "str ''bye''" ?s ?s' ?sent ?c 3 "[]" stored_inflate] by blast
qed

section \<open>The pump\<close>

lemma tls_fill_eq: "tls_fill n limit b r = (case fill_buffer n limit b r of (Inl _, _) \<Rightarrow> None | (Inr _, b', r') \<Rightarrow> Some (b', r'))"
  by (induction n limit b r rule: tls_fill.induct) (simp_all split: sum.splits)

text \<open>A reader of the pump does on the input of a connection what an operation of the connection does.\<close>

definition agrees :: "ws_conn \<Rightarrow> 'a ws_op \<Rightarrow> 'a tls_op \<Rightarrow> bool" where
  "agrees c m t \<longleftrightarrow> (\<forall>b r. t b r = (case m (with_input c b r) of (Inl _, _) \<Rightarrow> None | (Inr x, c') \<Rightarrow> Some (x, wc_buffered c', io_reads (wc_io c'))))"

named_theorems agrees_intros

lemma agrees_return [agrees_intros]: "agrees c (ws_return x) (tls_return x)" "agrees c (ws_fail k e) tls_none"
  by (simp_all add: agrees_def)

lemma agrees_bind [agrees_intros]:
  assumes "agrees c m t" "reads_only m" "\<And>x. agrees c (k x) (k' x)"
  shows "agrees c (ws_bind m k) (tls_bind t k')"
  unfolding agrees_def
proof (intro allI)
  fix b r
  obtain x b' r' where m: "m (with_input c b r) = (x, with_input c b' r')"
    using assms(2) unfolding reads_only_def by (metis prod.collapse with_input_simps(11))
  then show "tls_bind t k' b r = (case ws_bind m k (with_input c b r) of (Inl _, _) \<Rightarrow> None | (Inr x, c') \<Rightarrow> Some (x, wc_buffered c', io_reads (wc_io c')))"
    using assms(1,3) by (cases x) (simp_all add: agrees_def tls_bind_def ws_bind_def)
qed

lemma agrees_if [agrees_intros]: "(P \<Longrightarrow> agrees c m t) \<Longrightarrow> (\<not> P \<Longrightarrow> agrees c k s) \<Longrightarrow> agrees c (if P then m else k) (if P then t else s)"
  by simp

lemma agrees_read_exact [agrees_intros]:
  "agrees c (read_exact_buffered n) (tls_read_exact n (saturating_sum (max_frame_bytes (wc_config c)) 14))"
  by (auto simp: agrees_def read_exact_buffered_def tls_read_exact_def tls_fill_eq Let_def split: prod.splits sum.splits)

lemma marker_cases:
  fixes w :: u8
  shows "w AND 0x7F \<le> 125 \<or> w AND 0x7F = 126 \<or> w AND 0x7F = 127"
proof -
  have "unat (w AND 0x7F) \<le> 127" using word_and_le1 [of w "0x7F"] by (simp add: word_le_nat_alt)
  then consider "unat (w AND 0x7F) \<le> 125" | "unat (w AND 0x7F) = 126" | "unat (w AND 0x7F) = 127" by linarith
  then show ?thesis by cases (simp_all add: word_le_nat_alt word_unat_eq_iff)
qed

lemma agrees_read_length [agrees_intros]:
  "agrees c (read_length (w AND 0x7F)) (tls_read_length (w AND 0x7F) (saturating_sum (max_frame_bytes (wc_config c)) 14))"
  using marker_cases [of w] unfolding read_length_def tls_read_length_def
  by (elim disjE) (simp_all del: ws_simps, (intro agrees_intros reads_only_intros)+)

lemma agrees_read_mask [agrees_intros]:
  assumes "masked" "\<And>x. agrees c (k (Some x)) (k' x)"
  shows "agrees c (ws_bind (read_mask masked) k) (tls_bind (tls_read_exact 4 (saturating_sum (max_frame_bytes (wc_config c)) 14)) k')"
proof -
  have "ws_bind (read_mask masked) k = ws_bind (read_exact_buffered 4) (\<lambda>bs. k (Some bs))"
    using assms(1) by (intro ext) (simp add: read_mask_def ws_bind_def split: prod.splits sum.splits)
  then show ?thesis using assms(2) by (simp add: agrees_bind agrees_read_exact reads_only_read_exact)
qed

lemma agrees_frame_reader: "agrees c (frame_reader Server pmd (wc_config c)) (tls_read_frame (wc_config c) pmd)"
proof -
  have server: "(m \<noteq> (Server = Server)) = (\<not> m)" for m by simp
  show ?thesis unfolding frame_reader_def tls_read_frame_def Let_def server
    by (intro agrees_intros reads_only_intros) (simp_all add: agrees_def)
qed

lemma tls_read_frame_eq:
  assumes "wc_role c = Server"
  shows "tls_read_frame (wc_config c) (wc_deflate c) (wc_buffered c) (io_reads (wc_io c)) =
    (case read_frame c of (Inl _, _) \<Rightarrow> None | (Inr f, c') \<Rightarrow> Some (f, wc_buffered c', io_reads (wc_io c')))"
proof -
  have "tls_read_frame (wc_config c) (wc_deflate c) b r = (case frame_reader Server (wc_deflate c) (wc_config c) (with_input c b r) of
      (Inl _, _) \<Rightarrow> None | (Inr f, c') \<Rightarrow> Some (f, wc_buffered c', io_reads (wc_io c')))" for b r
    using agrees_frame_reader unfolding agrees_def by blast
  from this [of "wc_buffered c" "io_reads (wc_io c)"] assms show ?thesis by (simp add: read_frame_def)
qed

text \<open>C19: Behind TLS the same frames are read: the pump's reader and a server connection with the same configuration, buffer and
  stream agree on every input, on the frame, on the input that remains, and on when there is none.\<close>

theorem tls_reads_the_same:
  assumes "wc_role c = Server"
  shows "tls_read_frame (wc_config c) (wc_deflate c) (wc_buffered c) (io_reads (wc_io c)) =
    (case read_frame c of (Inl _, _) \<Rightarrow> None | (Inr f, c') \<Rightarrow> Some (f, wc_buffered c', io_reads (wc_io c')))"
  using assms by (rule tls_read_frame_eq)

theorem tls_reads_the_same_witness:
  "tls_read_frame (wc_config hi_reader) (wc_deflate hi_reader) (wc_buffered hi_reader) (io_reads (wc_io hi_reader)) =
     Some (hi_frame\<lparr>f_masked := True\<rparr>, [0x88], [])"
proof -
  have server: "wc_role hi_reader = Server" by code_simp
  show ?thesis unfolding tls_reads_the_same [OF server] by code_simp
qed

lemma stream_end: "chunks_within k reads \<Longrightarrow> stream_bytes buffered reads = [] \<Longrightarrow> buffered = [] \<and> reads = []"
  by (cases reads) (auto simp: chunks_within_def stream_bytes_def split: sum.splits)

lemma tls_write_ok:
  assumes "validate_frame_for_encoding f = Inr ()" "io_writes io = []"
  shows "\<exists>bytes. encode_frame f Server None = Inr bytes \<and> tls_write_frame f io = (True, io\<lparr>io_written := io_written io @ bytes\<rparr>)"
  using assms by (auto simp: tls_write_frame_def encode_frame_def write_all_def Let_def)

lemma tls_read_frame_end: "tls_read_frame config pmd [] [] = None"
  by (simp add: tls_read_frame_def Let_def tls_bind_def tls_read_exact_def)

text \<open>The pump behind TLS echoes: when all the bytes that come are those of a client's message, what the pump writes is one frame
  with the message again, uncompressed and unmasked, and then it ends with the stream.\<close>

lemma pump_echoes:
  assumes "send_message deflate m s = (Inr (), s')" "io_written (wc_io s') = io_written (wc_io s) @ sent"
    and "wc_role s = Client" "length (the (next_key s)) = 4" "message_ok m" "codec_law deflate inflate"
    and "chunks_within k (io_reads io)" "stream_bytes buffered (io_reads io) = sent" "io_writes io = []"
    and "length (message_payload m) < 2 ^ 63" "length (message_payload m) \<le> max_message_bytes config"
    and "length (message_payload m) \<le> max_frame_bytes config"
    and "max 8 (length (message_payload m)) + k \<le> saturating_sum (max_frame_bytes config) 14 + 1"
  shows "\<exists>echo. encode_frame (reply_frame (case m of Text _ \<Rightarrow> 1 | Binary _ \<Rightarrow> 2) (message_payload m)) Server None = Inr echo \<and>
    io_written (pump inflate config (wc_deflate s) None buffered io) = io_written io @ echo"
proof -
  define c where "c = \<lparr>wc_io = io, wc_config = config, wc_role = Server, wc_deflate = wc_deflate s, wc_assembler = None,
    wc_buffered = buffered, wc_closed = False, wc_keys = []\<rparr>"
  obtain bytes compressed payload where
    e: "encode_frame \<lparr>f_fin = True, f_rsv1 = compressed, f_opcode = (case m of Text _ \<Rightarrow> 1 | Binary _ \<Rightarrow> 2), f_masked = False, f_payload = payload\<rparr>
       (wc_role s) (next_key s) = Inr bytes"
    and w: "io_written (wc_io s') = io_written (wc_io s) @ bytes" and l: "length payload \<le> length (message_payload m)"
    and p: "if compressed then wc_deflate s \<and> compress_message deflate (message_payload m) = Inr payload else payload = message_payload m"
    using send_message_frame [OF assms(1)] by blast
  let ?f = "\<lparr>f_fin = True, f_rsv1 = compressed, f_opcode = (case m of Text _ \<Rightarrow> 1 | Binary _ \<Rightarrow> 2), f_masked = True, f_payload = payload\<rparr>"
  have "max 8 (length payload) + k \<le> saturating_sum (max_frame_bytes config) 14 + 1" using assms(13) l by (simp add: max_def split: if_splits)
  then have "\<exists>b r. read_frame c = (Inr (?f\<lparr>f_masked := (wc_role s = Client)\<rparr>), with_input c b r) \<and> feeds (with_input c b r) k []"
    using read_encoded_frame [OF e, of c k "[]"] assms l p w by (auto simp: c_def feeds_def split: if_splits)
  then obtain b r where "read_frame c = (Inr ?f, with_input c b r)" "feeds (with_input c b r) k []" using assms(3) by auto
  then have "read_frame c = (Inr ?f, with_input c [] [])" using stream_end by (auto simp: feeds_def)
  then have t: "tls_read_frame config (wc_deflate s) buffered (io_reads io) = Some (?f, [], [])"
    using tls_read_frame_eq [of c] by (simp add: c_def)
  have "length (message_payload m) \<le> usize_max" using assms(10) by (simp add: usize_max_def)
  then have "finish_fragment inflate (message_state m compressed payload) config (wc_deflate s) = Inr (Some m)"
    by (rule finish_message [OF assms(5,11), where deflate = deflate]) (use p assms(6) in \<open>simp split: if_splits\<close>)
  then have a: "assemble inflate None ?f config (wc_deflate s) = (Inr (Some m), None)"
    by (cases m) (simp_all add: assemble_def message_state_def)
  define reply where "reply = reply_frame (case m of Text _ \<Rightarrow> 1 | Binary _ \<Rightarrow> 2) (message_payload m)"
  have "validate_frame_for_encoding reply = Inr ()" by (cases m) (simp_all add: reply_def reply_frame_def validate_frame_for_encoding_def)
  then obtain echo where echo: "encode_frame reply Server None = Inr echo"
      "tls_write_frame reply (io\<lparr>io_reads := []\<rparr>) = (True, io\<lparr>io_reads := [], io_written := io_written io @ echo\<rparr>)"
    using tls_write_ok [of reply "io\<lparr>io_reads := []\<rparr>"] assms(9) by auto
  have "pump inflate config (wc_deflate s) None [] io' = io'" if "io_reads io' = []" for io'
    using that by (subst pump.simps) (simp add: tls_read_frame_end)
  then have "pump inflate config (wc_deflate s) None buffered io = io\<lparr>io_reads := [], io_written := io_written io @ echo\<rparr>"
    using a echo(2) unfolding reply_def by (subst pump.simps) (cases m; simp add: t)
  with echo(1) show ?thesis by (auto simp: reply_def)
qed

section \<open>Small limits\<close>

text \<open>With a small limit, frames that are each within it are refused when they arrive together: the reader bounds its buffer by the limit on
  one frame, and not on what a read may bring beyond it. Three messages of one byte are received when the bytes come one frame at a
  time and refused when they come at once.\<close>

lemma pipelined_frames_refused:
  "let config = \<lparr>max_frame_bytes = 6, max_message_bytes = 6, per_message_deflate = False, subprotocols = []\<rparr>;
       one = [0x82, 0x81, 0, 0, 0, 0, 7];
       apart = (sample_ws Server [Inr one, Inr one, Inr one])\<lparr>wc_config := config\<rparr>;
       together = (sample_ws Server [Inr (one @ one @ one)])\<lparr>wc_config := config\<rparr>
   in fst (receive_message stored_inflate together) = Inl (ws_err PayloadTooLarge ''buffered WebSocket frame exceeds the configured limit'') \<and>
      fst (ws_bind (receive_message stored_inflate) (\<lambda>a. ws_bind (receive_message stored_inflate) (\<lambda>b.
        ws_bind (receive_message stored_inflate) (\<lambda>c. ws_return [a, b, c]))) apart) =
      Inr [Some (Binary [7]), Some (Binary [7]), Some (Binary [7])]"
  by code_simp

end
