(* ===== verification/Handshake_Correct.thy ===== *)
theory Handshake_Correct
  imports Base64_Correct Http_Correct Websocket_Correct
begin

text \<open>
  The opening handshake (theory \<open>Websocket_Handshake\<close>): a server accepts what a client of the same code asks and the client accepts the
  server's answer, with the same settings on both sides, however the network cuts the messages; and the limits of a
  configuration stay in range.
\<close>

section \<open>Reading the head of a message\<close>

lemma read_http_headers_stream:
  assumes "chunks_within k reads" "stream_bytes buffered reads = head @ rest" "find_header_end head = Some h" "length head = h + 4"
    "length head \<le> limit"
  shows "\<exists>b r. read_http_headers limit buffered reads = (Inr (length head), head @ b, r) \<and> chunks_within k r \<and> stream_bytes b r = rest"
  using assms(1,2)
proof (induction reads arbitrary: buffered)
  case Nil
  then have "find_header_end buffered = Some h" using assms(3) by (simp add: stream_bytes_def find_header_end_def position_of_append)
  with Nil assms(4) show ?case by (subst read_http_headers.simps) (simp add: stream_bytes_def)
next
  case (Cons r reads)
  show ?case
  proof (cases "length head \<le> length buffered")
    case True
    then obtain b where b: "buffered = head @ b" "b @ concat (map projr (r # reads)) = rest"
      using Cons.prems(2) by (auto simp: stream_bytes_def append_eq_append_conv2)
    then have "find_header_end buffered = Some h" using assms(3) by (simp add: find_header_end_def position_of_append)
    with b Cons.prems(1) assms(4) show ?thesis by (subst read_http_headers.simps) (simp add: stream_bytes_def)
  next
    case False
    obtain chunk where c: "r = Inr chunk" "chunk \<noteq> []" "chunks_within k reads"
      using Cons.prems(1) by (auto simp: chunks_within_def split: sum.splits)
    have s: "stream_bytes (buffered @ chunk) reads = head @ rest" using Cons.prems(2) c(1) by (simp add: stream_bytes_def)
    obtain u where u: "head = buffered @ u" using Cons.prems(2) False by (auto simp: stream_bytes_def append_eq_append_conv2)
    have "find_header_end buffered = None"
    proof (rule ccontr)
      assume "find_header_end buffered \<noteq> None"
      then obtain i where i: "find_header_end buffered = Some i" by auto
      then have "find_header_end head = Some i" by (simp add: u find_header_end_def position_of_append)
      with assms(3,4) False position_of_bound [of "[13, 10, 13, 10]" buffered i] i show False by (simp add: find_header_end_def)
    qed
    with Cons.IH [OF c(3) s] c(1,2) False assms(5) show ?thesis by (subst read_http_headers.simps) simp
  qed
qed

section \<open>The messages of the handshake\<close>

text \<open>What the client's request and the server's answer are as HTTP messages.\<close>

definition upgrade_headers :: "http_header list" where
  "upgrade_headers = [\<lparr>h_name = str ''Upgrade'', h_value = str ''websocket''\<rparr>, \<lparr>h_name = str ''Connection'', h_value = str ''Upgrade''\<rparr>]"

definition upgrade_request :: "ws_url \<Rightarrow> rust_str \<Rightarrow> ws_config \<Rightarrow> parsed_request" where
  "upgrade_request url key config = \<lparr>rq_method = str ''GET'', rq_target = u_path url, rq_version = \<lparr>major = 1, minor = 1\<rparr>,
     rq_headers = \<lparr>h_name = str ''Host'', h_value = u_host_header url\<rparr> # upgrade_headers @
       [\<lparr>h_name = str ''Sec-WebSocket-Key'', h_value = key\<rparr>, \<lparr>h_name = str ''Sec-WebSocket-Version'', h_value = str ''13''\<rparr>] @
       (if per_message_deflate config then [\<lparr>h_name = str ''Sec-WebSocket-Extensions'', h_value = str ''permessage-deflate''\<rparr>] else []),
     rq_body = empty_body, rq_keep_alive = True\<rparr>"

definition upgrade_response :: "rust_str \<Rightarrow> bool \<Rightarrow> parsed_response" where
  "upgrade_response accept deflate = \<lparr>rs_version = \<lparr>major = 1, minor = 1\<rparr>, rs_status = 101, rs_reason = str ''Switching Protocols'',
     rs_headers = upgrade_headers @ \<lparr>h_name = str ''Sec-WebSocket-Accept'', h_value = accept\<rparr> #
       (if deflate then [\<lparr>h_name = str ''Sec-WebSocket-Extensions'',
          h_value = str ''permessage-deflate; server_no_context_takeover; client_no_context_takeover''\<rparr>] else []),
     rs_body = empty_body, rs_keep_alive = True\<rparr>"

lemma version_text: "show_version \<lparr>major = 1, minor = 1\<rparr> = str ''HTTP/1.1''"
  by code_simp

lemma bytes_of_str: "as_bytes (str s) = lit s" if "list_all (\<lambda>c. of_char c < (128 :: nat)) s"
  using that by (induction s) (simp_all add: lit_def encode_ascii)

lemma request_text: "as_bytes (client_request url key config) = serialize_request (upgrade_request url key config)"
  by (simp add: client_request_def serialize_request_def upgrade_request_def upgrade_headers_def write_headers_def version_text
    empty_body_def write_body_def lit_def encode_ascii)

lemma response_text:
  "as_bytes (str ''HTTP/1.1 101 Switching Protocols'' @ crlf_str @ str ''Upgrade: websocket'' @ crlf_str @
     str ''Connection: Upgrade'' @ crlf_str @ str ''Sec-WebSocket-Accept: '' @ accept @ crlf_str @
     (if deflate then str ''Sec-WebSocket-Extensions: permessage-deflate; server_no_context_takeover; client_no_context_takeover'' @ crlf_str
      else []) @ crlf_str) = serialize_response (upgrade_response accept deflate)"
proof -
  have "str (decimal 101) = str ''101''" by code_simp
  then show ?thesis
    by (simp add: serialize_response_def upgrade_response_def upgrade_headers_def write_headers_def version_text
      empty_body_def write_body_def lit_def encode_ascii)
qed

text \<open>A URL whose parts can stand in a request: what \<open>parse_websocket_url\<close> gives, with a path and a host of visible characters.\<close>

definition url_ok :: "ws_url \<Rightarrow> bool" where
  "url_ok url \<longleftrightarrow> u_path url \<noteq> [] \<and> list_all scalar_value (u_path url) \<and> \<not> list_ex (\<lambda>b. b \<le> 32 \<or> b = 0x7F) (as_bytes (u_path url)) \<and>
     list_all (\<lambda>c. 32 < c \<and> c < 0x7F) (u_host_header url) \<and> byte_len (u_path url) + length (u_host_header url) \<le> 65000"

lemma visible_byte: "32 < c \<Longrightarrow> c < 0x7F \<Longrightarrow> field_byte (byte c)"
  by (auto simp: field_byte_def word_le_nat_alt unat_byte)

lemma visible_length: "list_all (\<lambda>c. 32 < c \<and> c < 0x7F) v \<Longrightarrow> length (as_bytes v) = length v"
  by (induction v) (simp_all add: encode_ascii)

lemma good_visible_header:
  assumes "list_all scalar_value name" "is_valid_header_name name" "list_all (\<lambda>c. 32 < c \<and> c < 0x7F) v"
  shows "good_header \<lparr>h_name = name, h_value = v\<rparr>"
proof -
  have a: "list_all (\<lambda>c. c < 128) v" using assms(3) by (auto simp: list_all_iff)
  have "is_valid_header_value v" using assms(3) visible_byte by (auto simp: is_valid_header_value_def as_bytes_ascii [OF a] list_all_iff)
  moreover have "v = [] \<or> hd v \<notin> {9, 32} \<and> last v \<notin> {9, 32}"
  proof (cases "v = []")
    case False
    then have "32 < hd v" "32 < last v" using assms(3) hd_in_set [of v] last_in_set [of v] unfolding list_all_iff by blast+
    then show ?thesis by simp
  qed simp
  ultimately show ?thesis using assms a by (simp add: good_header_def)
qed

lemma good_upgrade_headers: "list_all good_header upgrade_headers"
  by code_simp

lemma good_extension_headers:
  "good_header \<lparr>h_name = str ''Sec-WebSocket-Extensions'', h_value = str ''permessage-deflate''\<rparr>"
  "good_header \<lparr>h_name = str ''Sec-WebSocket-Extensions'', h_value = str ''permessage-deflate; server_no_context_takeover; client_no_context_takeover''\<rparr>"
  "good_header \<lparr>h_name = str ''Sec-WebSocket-Version'', h_value = str ''13''\<rparr>"
  by code_simp+

lemma handshake_names:
  "list_all scalar_value (str ''Host'')" "is_valid_header_name (str ''Host'')"
  "list_all scalar_value (str ''Sec-WebSocket-Key'')" "is_valid_header_name (str ''Sec-WebSocket-Key'')"
  "list_all scalar_value (str ''Sec-WebSocket-Accept'')" "is_valid_header_name (str ''Sec-WebSocket-Accept'')"
  by code_simp+

lemma request_meta:
  "body_meta_from_headers (rq_headers (upgrade_request url key config)) 0 = Inr EmptyBody"
  "determine_keep_alive \<lparr>major = 1, minor = 1\<rparr> (rq_headers (upgrade_request url key config))"
proof -
  let ?hs = "rq_headers (upgrade_request url key config)"
  have "header_values ?hs (str ''transfer-encoding'') = []" "header_values ?hs (str ''content-length'') = []"
    "header_values ?hs (str ''connection'') = [str ''Upgrade'']"
    by (simp_all add: header_values_def upgrade_request_def upgrade_headers_def eq_ignore_ascii_case_def to_ascii_lowercase_def ascii_lower_def)
  moreover have "determine_keep_alive \<lparr>major = 1, minor = 1\<rparr> [\<lparr>h_name = str ''connection'', h_value = str ''Upgrade''\<rparr>]" by code_simp
  moreover have "header_values [\<lparr>h_name = str ''connection'', h_value = str ''Upgrade''\<rparr>] (str ''connection'') = [str ''Upgrade'']" by code_simp
  ultimately show "body_meta_from_headers ?hs 0 = Inr EmptyBody" "determine_keep_alive \<lparr>major = 1, minor = 1\<rparr> ?hs"
    by (simp_all add: body_meta_from_headers_def determine_keep_alive_def)
qed

lemma response_meta:
  "body_meta_from_headers (rs_headers (upgrade_response accept deflate)) 0 = Inr EmptyBody"
  "determine_keep_alive \<lparr>major = 1, minor = 1\<rparr> (rs_headers (upgrade_response accept deflate))"
proof -
  let ?hs = "rs_headers (upgrade_response accept deflate)"
  have "header_values ?hs (str ''transfer-encoding'') = []" "header_values ?hs (str ''content-length'') = []"
    "header_values ?hs (str ''connection'') = [str ''Upgrade'']"
    by (simp_all add: header_values_def upgrade_response_def upgrade_headers_def eq_ignore_ascii_case_def to_ascii_lowercase_def ascii_lower_def)
  moreover have "determine_keep_alive \<lparr>major = 1, minor = 1\<rparr> [\<lparr>h_name = str ''connection'', h_value = str ''Upgrade''\<rparr>]" by code_simp
  moreover have "header_values [\<lparr>h_name = str ''connection'', h_value = str ''Upgrade''\<rparr>] (str ''connection'') = [str ''Upgrade'']" by code_simp
  ultimately show "body_meta_from_headers ?hs 0 = Inr EmptyBody" "determine_keep_alive \<lparr>major = 1, minor = 1\<rparr> ?hs"
    by (simp_all add: body_meta_from_headers_def determine_keep_alive_def)
qed

lemma request_size:
  assumes "url_ok url" "length nonce = 16"
  shows "byte_len (request_line (upgrade_request url (base64_encode nonce) config)) +
    length (write_headers (rq_headers (upgrade_request url (base64_encode nonce) config))) + 4 \<le> 65536"
proof -
  let ?r = "upgrade_request url (base64_encode nonce) config"
  have host: "length (as_bytes (u_host_header url)) = length (u_host_header url)" using assms(1) visible_length by (simp add: url_ok_def)
  have key: "length (as_bytes (base64_encode nonce)) = 24"
    using assms(2) base64_encoded_length [of nonce] by (simp add: base64_bytes)
  have "byte_len (request_line ?r) = byte_len (u_path url) + 13"
    by (simp add: request_line_def upgrade_request_def version_text byte_len_def len_utf8_def)
  moreover have "length (write_headers (rq_headers ?r)) \<le> length (u_host_header url) + 400"
    using host key by (simp add: write_headers_def upgrade_request_def upgrade_headers_def lit_def encode_ascii)
  ultimately show ?thesis using assms(1) by (simp add: url_ok_def)
qed

lemma good_upgrade_request:
  assumes "url_ok url" "length nonce = 16"
  shows "good_request default_config (upgrade_request url (base64_encode nonce) config)"
proof -
  let ?r = "upgrade_request url (base64_encode nonce) config"
  have h: "list_all good_header (rq_headers ?r)"
    using good_visible_header [OF handshake_names(1,2)] good_visible_header [OF handshake_names(3,4) base64_chars] assms(1)
      good_upgrade_headers good_extension_headers by (auto simp: upgrade_request_def url_ok_def)
  have l: "good_request_line ?r"
  proof -
    have "list_all scalar_value (str ''GET'')" "is_token (str ''GET'')" by code_simp+
    then show ?thesis using assms(1) by (simp add: good_request_line_def upgrade_request_def url_ok_def)
  qed
  have "byte_len (request_line ?r) + length (write_headers (rq_headers ?r)) \<le> max_header_bytes default_config"
    using request_size [OF assms, of config] by (simp add: default_config_def)
  moreover have "\<not> body_chunked (rq_body ?r)" by (simp add: upgrade_request_def empty_body_def)
  ultimately show ?thesis using h l request_meta [of url "base64_encode nonce" config]
    by (simp add: good_request_def good_message_def good_body_def) (simp add: upgrade_request_def)
qed

lemma response_size:
  assumes "list_all (\<lambda>c. 32 < c \<and> c < 0x7F) accept" "length accept \<le> 1000"
  shows "byte_len (status_line (upgrade_response accept deflate)) + length (write_headers (rs_headers (upgrade_response accept deflate))) + 4 \<le> 65536"
proof -
  let ?r = "upgrade_response accept deflate"
  have "length (write_headers (rs_headers ?r)) \<le> length accept + 400"
    using visible_length [OF assms(1)] by (simp add: write_headers_def upgrade_response_def upgrade_headers_def lit_def encode_ascii)
  moreover have "byte_len (status_line ?r) \<le> 100"
  proof -
    have "str (decimal 101) = str ''101''" by code_simp
    then show ?thesis by (simp add: status_line_def upgrade_response_def version_text byte_len_def len_utf8_def)
  qed
  ultimately show ?thesis using assms(2) by simp
qed

lemma good_upgrade_response:
  assumes "list_all (\<lambda>c. 32 < c \<and> c < 0x7F) accept" "length accept \<le> 1000"
  shows "good_response default_config (upgrade_response accept deflate)"
proof -
  let ?r = "upgrade_response accept deflate"
  have h: "list_all good_header (rs_headers ?r)"
    using good_visible_header [OF handshake_names(5,6) assms(1)] good_upgrade_headers good_extension_headers by (auto simp: upgrade_response_def)
  have l: "good_status_line ?r"
  proof -
    have "list_all scalar_value (str ''Switching Protocols'')" "is_reason_phrase (str ''Switching Protocols'')" by code_simp+
    then show ?thesis by (simp add: good_status_line_def upgrade_response_def)
  qed
  have "byte_len (status_line ?r) + length (write_headers (rs_headers ?r)) \<le> max_header_bytes default_config"
    using response_size [OF assms, of deflate] by (simp add: default_config_def)
  moreover have "\<not> body_chunked (rs_body ?r)" by (simp add: upgrade_response_def empty_body_def)
  ultimately show ?thesis using h l response_meta [of accept deflate]
    by (simp add: good_response_def good_message_def good_body_def) (simp add: upgrade_response_def)
qed

lemma parse_upgrade_request:
  assumes "url_ok url" "length nonce = 16"
  shows "parse_request (serialize_request (upgrade_request url (base64_encode nonce) config)) = Some (Inr (upgrade_request url (base64_encode nonce) config))"
  using parse_printed_request [of "push_bytes (serialize_request (upgrade_request url (base64_encode nonce) config)) (new_parser RequestMode default_config)"
      "upgrade_request url (base64_encode nonce) config" "[]"] good_upgrade_request [OF assms]
  by (simp add: parse_request_def new_parser_def)

lemma parse_upgrade_response:
  assumes "list_all (\<lambda>c. 32 < c \<and> c < 0x7F) accept" "length accept \<le> 1000"
  shows "parse_response (serialize_response (upgrade_response accept deflate)) = Some (Inr (upgrade_response accept deflate))"
  using parse_printed_response [of "push_bytes (serialize_response (upgrade_response accept deflate)) (new_parser ResponseMode default_config)"
      "upgrade_response accept deflate" "[]"] good_upgrade_response [OF assms]
  by (simp add: parse_response_def new_parser_def)

section \<open>Agreement\<close>

lemma visible_trim: "list_all (\<lambda>c. 32 < c \<and> c < 0x7F) v \<Longrightarrow> trim v = v"
proof -
  assume v: "list_all (\<lambda>c. 32 < c \<and> c < 0x7F) v"
  have "\<not> is_whitespace c" if "32 < c" "c < 0x7F" for c using that by (auto simp: is_whitespace_def)
  then have "v = [] \<or> \<not> is_whitespace (hd v) \<and> \<not> is_whitespace (last v)"
    using v hd_in_set [of v] last_in_set [of v] unfolding list_all_iff by (cases "v = []") blast+
  then show ?thesis unfolding trim_def by (rule trim_matches_id)
qed

lemmas eq_names = eq_ignore_ascii_case_def to_ascii_lowercase_def ascii_lower_def

lemma upgrade_tokens:
  "header_contains_token (rq_headers (upgrade_request url key config)) (str ''Upgrade'') (str ''websocket'')"
  "header_contains_token (rq_headers (upgrade_request url key config)) (str ''Connection'') (str ''upgrade'')"
  "header_contains_token (rs_headers (upgrade_response accept deflate)) (str ''Upgrade'') (str ''websocket'')"
  "header_contains_token (rs_headers (upgrade_response accept deflate)) (str ''Connection'') (str ''upgrade'')"
proof -
  have "header_contains_token upgrade_headers (str ''Upgrade'') (str ''websocket'')"
    "header_contains_token upgrade_headers (str ''Connection'') (str ''upgrade'')" by code_simp+
  moreover have "header_value (rq_headers (upgrade_request url key config)) n = header_value upgrade_headers n"
    "header_value (rs_headers (upgrade_response accept deflate)) n = header_value upgrade_headers n"
    if "n = str ''Upgrade'' \<or> n = str ''Connection''" for n
    using that by (auto simp: header_value_def upgrade_request_def upgrade_response_def upgrade_headers_def eq_names)
  ultimately show "header_contains_token (rq_headers (upgrade_request url key config)) (str ''Upgrade'') (str ''websocket'')"
    "header_contains_token (rq_headers (upgrade_request url key config)) (str ''Connection'') (str ''upgrade'')"
    "header_contains_token (rs_headers (upgrade_response accept deflate)) (str ''Upgrade'') (str ''websocket'')"
    "header_contains_token (rs_headers (upgrade_response accept deflate)) (str ''Connection'') (str ''upgrade'')"
    unfolding header_contains_token_def by simp_all
qed

lemma upgrade_request_values:
  "header_value (rq_headers (upgrade_request url key config)) (str ''Sec-WebSocket-Key'') = Some key"
  "header_value (rq_headers (upgrade_request url key config)) (str ''Sec-WebSocket-Version'') = Some (str ''13'')"
  "header_value (rq_headers (upgrade_request url key config)) (str ''Sec-WebSocket-Extensions'') =
     (if per_message_deflate config then Some (str ''permessage-deflate'') else None)"
  "header_value (rq_headers (upgrade_request url key config)) (str ''Sec-WebSocket-Protocol'') = None"
  by (simp_all add: header_value_def upgrade_request_def upgrade_headers_def eq_names)

lemma upgrade_response_values:
  "header_value (rs_headers (upgrade_response accept deflate)) (str ''Sec-WebSocket-Accept'') = Some accept"
  "header_value (rs_headers (upgrade_response accept deflate)) (str ''Sec-WebSocket-Extensions'') =
     (if deflate then Some (str ''permessage-deflate; server_no_context_takeover; client_no_context_takeover'') else None)"
  by (simp_all add: header_value_def upgrade_response_def upgrade_headers_def eq_names)

lemma extension_offered:
  "extension_contains (str ''permessage-deflate'') (str ''permessage-deflate'')"
  "extension_contains (str ''permessage-deflate; server_no_context_takeover; client_no_context_takeover'') (str ''permessage-deflate'')"
  "trim (str ''13'') = str ''13''"
  by code_simp+

lemma negotiate_upgrade:
  assumes "length nonce = 16"
  shows "\<exists>n. negotiate_upgrade_response sha1 (upgrade_request url (base64_encode nonce) cc) sc = Inr n \<and>
    ng_deflate n = (per_message_deflate sc \<and> per_message_deflate cc) \<and>
    as_bytes (ng_response n) = serialize_response (upgrade_response (websocket_accept_value sha1 (base64_encode nonce)) (ng_deflate n))"
proof -
  have key: "trim (base64_encode nonce) = base64_encode nonce" by (rule visible_trim [OF base64_chars])
  have "nonce \<noteq> []" using assms by auto
  then have dec: "base64_decode (base64_encode nonce) = Some nonce" by (rule base64_decode_encode)
  let ?d = "per_message_deflate sc \<and> per_message_deflate cc" and ?a = "websocket_accept_value sha1 (base64_encode nonce)"
  let ?n = "\<lparr>ng_response = str ''HTTP/1.1 101 Switching Protocols'' @ crlf_str @ str ''Upgrade: websocket'' @ crlf_str @
      str ''Connection: Upgrade'' @ crlf_str @ str ''Sec-WebSocket-Accept: '' @ ?a @ crlf_str @
      (if ?d then str ''Sec-WebSocket-Extensions: permessage-deflate; server_no_context_takeover; client_no_context_takeover'' @ crlf_str
       else []) @ crlf_str, ng_deflate = ?d\<rparr>"
  have n: "negotiate_upgrade_response sha1 (upgrade_request url (base64_encode nonce) cc) sc = Inr ?n"
    using assms unfolding negotiate_upgrade_response_def
    by (simp add: upgrade_tokens upgrade_request_values key dec extension_offered negotiate_subprotocol_def Let_def del: str_append)
      (simp add: upgrade_request_def del: str_append)
  have "as_bytes (ng_response ?n) = serialize_response (upgrade_response ?a (ng_deflate ?n))"
    unfolding negotiation.simps by (rule response_text)
  moreover have "ng_deflate ?n = ?d" by simp
  ultimately show ?thesis using n by blast
qed

lemma check_upgrade:
  assumes "deflate \<longrightarrow> per_message_deflate config"
  shows "check_upgrade_response sha1 key config (upgrade_response (websocket_accept_value sha1 key) deflate) = Inr deflate"
proof -
  have "trim (websocket_accept_value sha1 key) = websocket_accept_value sha1 key"
    unfolding websocket_accept_value_def by (rule visible_trim [OF base64_chars])
  moreover have "rs_status (upgrade_response (websocket_accept_value sha1 key) deflate) = 101"
    "major (rs_version (upgrade_response (websocket_accept_value sha1 key) d)) = 1"
    "minor (rs_version (upgrade_response (websocket_accept_value sha1 key) d)) = 1" for d
    by (simp_all add: upgrade_response_def)
  ultimately show ?thesis using assms unfolding check_upgrade_response_def
    by (simp add: upgrade_tokens upgrade_response_values extension_offered Let_def del: str_append)
qed

lemma head_of_request:
  assumes "url_ok url" "length nonce = 16"
  shows "\<exists>h. find_header_end (serialize_request (upgrade_request url (base64_encode nonce) config)) = Some h \<and>
    length (serialize_request (upgrade_request url (base64_encode nonce) config)) = h + 4"
    "length (serialize_request (upgrade_request url (base64_encode nonce) config)) \<le> handshake_bytes"
proof -
  let ?r = "upgrade_request url (base64_encode nonce) config"
  have g: "good_request_line ?r" "list_all good_header (rq_headers ?r)" "rq_headers ?r \<noteq> []"
    using good_upgrade_request [OF assms, of config] by (simp_all add: good_request_def good_message_def)
  have s: "serialize_request ?r = as_bytes (request_line ?r) @ crlf @ write_headers (rq_headers ?r) @ crlf @ []"
    by (simp add: serialize_request_def request_line_def lit_def encode_ascii) (simp add: upgrade_request_def write_body_def empty_body_def)
  show "\<exists>h. find_header_end (serialize_request ?r) = Some h \<and> length (serialize_request ?r) = h + 4"
    unfolding s using find_header_end_written [OF request_line_head [OF g(1)] g(3,2), of "[]"] head_text(2) [OF g(3), of "as_bytes (request_line ?r)"]
    by simp
  show "length (serialize_request ?r) \<le> handshake_bytes"
    using request_size [OF assms, of config] unfolding s by (simp add: length_as_bytes handshake_bytes_def)
qed

lemma head_of_response:
  assumes "list_all (\<lambda>c. 32 < c \<and> c < 0x7F) accept" "length accept \<le> 1000"
  shows "\<exists>h. find_header_end (serialize_response (upgrade_response accept deflate)) = Some h \<and>
    length (serialize_response (upgrade_response accept deflate)) = h + 4"
    "length (serialize_response (upgrade_response accept deflate)) \<le> handshake_bytes"
proof -
  let ?r = "upgrade_response accept deflate"
  have g: "good_status_line ?r" "list_all good_header (rs_headers ?r)" "rs_headers ?r \<noteq> []"
    using good_upgrade_response [OF assms, of deflate] by (simp_all add: good_response_def good_message_def)
  have s: "serialize_response ?r = as_bytes (status_line ?r) @ crlf @ write_headers (rs_headers ?r) @ crlf @ []"
    by (simp add: serialize_response_def status_line_def lit_def encode_ascii) (simp add: upgrade_response_def write_body_def empty_body_def)
  show "\<exists>h. find_header_end (serialize_response ?r) = Some h \<and> length (serialize_response ?r) = h + 4"
    unfolding s using find_header_end_written [OF status_line_head [OF g(1)] g(3,2), of "[]"] head_text(2) [OF g(3), of "as_bytes (status_line ?r)"]
    by simp
  show "length (serialize_response ?r) \<le> handshake_bytes"
    using response_size [OF assms, of deflate] unfolding s by (simp add: length_as_bytes handshake_bytes_def)
qed

lemma accept_value_chars:
  assumes "length (sha1 (as_bytes key @ websocket_guid)) = 20"
  shows "list_all (\<lambda>c. 32 < c \<and> c < 0x7F) (websocket_accept_value sha1 key)" "length (websocket_accept_value sha1 key) \<le> 1000"
  using assms base64_chars base64_encoded_length by (simp_all add: websocket_accept_value_def)

lemma write_all_ok: "io_writes io = [] \<Longrightarrow> write_all bytes io = (Inr (), io\<lparr>io_written := io_written io @ bytes\<rparr>)"
  by (simp add: write_all_def)

text \<open>C11: A client and a server of this code agree on the connection they open. The server that reads the client's request, in
  whatever pieces, answers and has a server's connection whose first bytes are what the client sent behind the request; the client
  that reads that answer, in whatever pieces, accepts it and has a client's connection whose first bytes are what followed the
  answer; messages are compressed on both sides or on neither, just when both configurations allow it. The digest has twenty
  bytes and the nonce sixteen, the writes go through, the client's stream knows its peer, and the URL's path and host are of visible characters.\<close>

theorem handshake_agrees:
  assumes "url_ok url" "length nonce = 16" "\<And>bs. length (sha1 bs) = 20" "io_writes sio = []" "io_writes cio = []"
    and "chunks_within k (io_reads sio)"
    and "stream_bytes [] (io_reads sio) = as_bytes (client_request url (base64_encode nonce) cc) @ early"
    and "chunks_within j (io_reads cio)"
    and "stream_bytes [] (io_reads cio) = drop (length (io_written sio)) (io_written (snd (the (accept_handshake sha1 sio sc)))) @ late"
  shows "\<exists>server client. accept_handshake sha1 sio sc = Some (Inr server, wc_io server) \<and>
    client_handshake sha1 (Some nonce) keys None cio url cc = Some (Inr client, wc_io client) \<and>
    wc_role server = Server \<and> wc_role client = Client \<and> feeds server k early \<and> feeds client j late \<and>
    wc_deflate server = (per_message_deflate sc \<and> per_message_deflate cc) \<and> wc_deflate client = wc_deflate server \<and>
    wc_config server = sc \<and> wc_config client = cc \<and> \<not> wc_closed server \<and> \<not> wc_closed client \<and>
    wc_assembler server = None \<and> wc_assembler client = None"
proof -
  let ?key = "base64_encode nonce" let ?rq = "upgrade_request url ?key cc" let ?req = "serialize_request ?rq"
  obtain n where n: "negotiate_upgrade_response sha1 ?rq sc = Inr n" "ng_deflate n = (per_message_deflate sc \<and> per_message_deflate cc)"
    "as_bytes (ng_response n) = serialize_response (upgrade_response (websocket_accept_value sha1 ?key) (ng_deflate n))"
    using negotiate_upgrade [OF assms(2)] by blast
  define rs where "rs = upgrade_response (websocket_accept_value sha1 ?key) (ng_deflate n)"
  note av = accept_value_chars [of sha1 ?key, OF assms(3)]
  obtain b i where s: "read_http_headers handshake_bytes [] (io_reads sio) = (Inr (length ?req), ?req @ b, i)"
    "chunks_within k i" "stream_bytes b i = early"
    using read_http_headers_stream [OF assms(6) assms(7) [unfolded request_text]] head_of_request [OF assms(1,2), of cc] by blast
  let ?sio = "sio\<lparr>io_reads := i, io_written := io_written sio @ serialize_response rs\<rparr>"
  have r: "accept_handshake sha1 sio sc = Some (Inr (new_connection ?sio sc Server (ng_deflate n) b []), ?sio)"
    using assms(4) s(1) parse_upgrade_request [OF assms(1,2), of cc] n(1,3)
    by (auto simp: accept_handshake_def accept_handshake_request_def write_all_ok rs_def)
  have "stream_bytes [] (io_reads cio) = serialize_response rs @ late" using assms(9) r by simp
  then obtain d l where c: "read_http_headers handshake_bytes [] (io_reads cio) = (Inr (length (serialize_response rs)), serialize_response rs @ d, l)"
    "chunks_within j l" "stream_bytes d l = late"
    using read_http_headers_stream [OF assms(8)] head_of_response [OF av, of "ng_deflate n", folded rs_def] by blast
  let ?cio = "cio\<lparr>io_written := io_written cio @ ?req, io_reads := l\<rparr>"
  have "check_upgrade_response sha1 ?key cc rs = Inr (ng_deflate n)" using n(2) by (simp add: rs_def check_upgrade)
  then have "client_handshake sha1 (Some nonce) keys None cio url cc = Some (Inr (new_connection ?cio cc Client (ng_deflate n) d keys), ?cio)"
    using assms(5) c(1) parse_upgrade_response [OF av, of "ng_deflate n"]
    by (simp add: client_handshake_def write_all_ok request_text rs_def Let_def)
  then show ?thesis using r s(2,3) c(2,3) n(2) by (auto simp: new_connection_def feeds_def)
qed

text \<open>The two ends of the witness: the URL of a client that offers compression to a server that allows it, and the server whose
  request comes in two reads, the second with two bytes more.\<close>

definition sample_url :: ws_url where
  "sample_url = \<lparr>u_host = str ''h'', u_port = 80, u_host_header = str ''h'', u_path = str ''/a'', u_tls = False\<rparr>"

definition handshake_config :: ws_config where
  "handshake_config = \<lparr>max_frame_bytes = 200, max_message_bytes = 200, per_message_deflate = True, subprotocols = []\<rparr>"

definition sample_digest :: digest where
  "sample_digest bytes = replicate 20 0"

definition sample_io :: "(string + u8 list) list \<Rightarrow> ws_io" where
  "sample_io reads = \<lparr>io_reads = reads, io_writes = [], io_written = []\<rparr>"

definition handshake_request :: "u8 list" where
  "handshake_request = as_bytes (client_request sample_url (base64_encode (replicate 16 0)) handshake_config)"

definition sample_server_io :: ws_io where
  "sample_server_io = sample_io [Inr (take 20 handshake_request), Inr (drop 20 handshake_request @ [0x81, 0x80])]"

definition sample_answer :: "u8 list" where
  "sample_answer = io_written (snd (the (accept_handshake sample_digest sample_server_io handshake_config)))"

definition sample_client_io :: ws_io where
  "sample_client_io = sample_io [Inr (sample_answer @ [0x89])]"

theorem handshake_agrees_witness:
  "\<exists>server client. accept_handshake sample_digest sample_server_io handshake_config = Some (Inr server, wc_io server) \<and>
     client_handshake sample_digest (Some (replicate 16 0)) [] None sample_client_io sample_url handshake_config = Some (Inr client, wc_io client) \<and>
     feeds server (length handshake_request + 2) [0x81, 0x80] \<and> feeds client (length sample_answer + 1) [0x89] \<and> wc_deflate server \<and> wc_deflate client"
proof -
  have h: "url_ok sample_url" "length (replicate 16 (0 :: u8)) = 16" "length (sample_digest bs) = 20" "per_message_deflate handshake_config" for bs
    by (simp_all add: url_ok_def sample_url_def encode_ascii scalar_value_def byte_len_def len_utf8_def sample_digest_def handshake_config_def)
  have "handshake_request \<noteq> []" by (simp add: handshake_request_def client_request_def encode_ascii)
  then have v: "io_writes sample_server_io = []" "chunks_within (length handshake_request + 2) (io_reads sample_server_io)"
    "stream_bytes [] (io_reads sample_server_io) = as_bytes (client_request sample_url (base64_encode (replicate 16 0)) handshake_config) @ [0x81, 0x80]"
    "io_written sample_server_io = []"
    by (simp_all add: sample_server_io_def sample_io_def chunks_within_def stream_bytes_def handshake_request_def [symmetric])
  have c: "io_writes sample_client_io = []" "chunks_within (length sample_answer + 1) (io_reads sample_client_io)"
    "stream_bytes [] (io_reads sample_client_io) = drop (length (io_written sample_server_io))
       (io_written (snd (the (accept_handshake sample_digest sample_server_io handshake_config)))) @ [0x89]"
    by (simp_all add: sample_client_io_def sample_io_def chunks_within_def stream_bytes_def v(4) sample_answer_def [symmetric])
  show ?thesis using handshake_agrees [OF h(1,2,3) v(1) c(1) v(2,3) c(2,3), of "[]"] h(4) by blast
qed

section \<open>The settings of a server\<close>

text \<open>The states a server reaches by its operations, with the connections that were queued for its route and the ones its
  callers were given.\<close>

inductive server_run :: "ws_server \<Rightarrow> ws_conn list \<Rightarrow> ws_conn list \<Rightarrow> bool" where
  new: "server_run new_server [] []"
| listen: "server_run sv q a \<Longrightarrow> server_run (snd (listen bound sv)) q a"
| deflate: "server_run sv q a \<Longrightarrow> server_run (snd (server_set_per_message_deflate enabled sv)) q a"
| limit: "server_run sv q a \<Longrightarrow> server_run (snd (server_set_max_message_bytes n sv)) q a"
| attach: "server_run sv q a \<Longrightarrow> server_run (snd (attach_to_http_route sv)) q a"
| detach: "server_run sv q a \<Longrightarrow> server_run (detach_from_http_route sv) q a"
| upgraded: "server_run sv q a \<Longrightarrow> server_run (sv\<lparr>sv_state := enqueue c (sv_state sv)\<rparr>) (q @ [c]) a"
| accepted: "server_run sv q a \<Longrightarrow> routed_accept cancelled (sv_state sv) = (result, ro) \<Longrightarrow>
    server_run (sv\<lparr>sv_state := ro\<rparr>) q (case result of Some (Inr c) \<Rightarrow> a @ [c] | _ \<Rightarrow> a)"

definition limits_ok :: "ws_config \<Rightarrow> bool" where
  "limits_ok config \<longleftrightarrow> 0 < max_frame_bytes config \<and> max_frame_bytes config \<le> max_message_bytes config \<and>
     max_message_bytes config \<le> default_max_bytes"

definition server_ok :: "ws_server \<Rightarrow> ws_conn list \<Rightarrow> ws_conn list \<Rightarrow> bool" where
  "server_ok sv q a \<longleftrightarrow> limits_ok (sv_config sv) \<and> ro_config (sv_state sv) = sv_config sv \<and> \<not> (sv_listening sv \<and> sv_routed sv) \<and>
     \<not> ro_closed (sv_state sv) \<and> q = a @ ro_pending (sv_state sv)"

lemma lower_limits_ok: "valid_limit n \<Longrightarrow> limits_ok config \<Longrightarrow> limits_ok (lower_limits n config)"
  by (auto simp: limits_ok_def lower_limits_def valid_limit_def)

lemma limits_ok_deflate: "limits_ok (config\<lparr>per_message_deflate := enabled\<rparr>) = limits_ok config"
  by (simp add: limits_ok_def)

lemma routed_accept_ok:
  assumes "routed_accept cancelled ro = (result, ro')" "\<not> ro_closed ro"
  shows "ro_config ro' = ro_config ro" "\<not> ro_closed ro'"
    "a @ ro_pending ro = (case result of Some (Inr c) \<Rightarrow> a @ [c] | _ \<Rightarrow> a) @ ro_pending ro'"
  using assms by (auto simp: routed_accept_def split: if_splits list.splits)

lemma server_run_ok: "server_run sv q a \<Longrightarrow> server_ok sv q a"
proof (induction rule: server_run.induct)
  case new
  show ?case by (simp add: server_ok_def new_server_def new_routed_def limits_ok_def default_ws_config_def default_max_bytes_def)
next
  case (accepted sv q a cancelled result ro)
  then show ?case using routed_accept_ok [OF accepted.hyps(2)] by (auto simp: server_ok_def)
qed (auto simp: server_ok_def listen_def server_set_per_message_deflate_def server_set_max_message_bytes_def attach_to_http_route_def
    detach_from_http_route_def enqueue_def update_config_def lower_limits_ok limits_ok_deflate Let_def split: sum.splits)

text \<open>C20: Whatever is called on a WebSocket server, in whatever order, its frame limit is positive and at most the message limit,
  which is at most sixteen megabytes; the route serves with the server's own settings; the server never both listens and has a
  route; and the connections its callers got are the upgraded ones, each once, in their order, the others still waiting.\<close>

theorem server_settings_kept:
  assumes "server_run sv queued given"
  shows "0 < max_frame_bytes (sv_config sv) \<and> max_frame_bytes (sv_config sv) \<le> max_message_bytes (sv_config sv) \<and>
    max_message_bytes (sv_config sv) \<le> 16777216 \<and> ro_config (sv_state sv) = sv_config sv \<and> \<not> (sv_listening sv \<and> sv_routed sv) \<and>
    queued = given @ ro_pending (sv_state sv)"
  using server_run_ok [OF assms] by (simp add: server_ok_def limits_ok_def default_max_bytes_def)

theorem server_settings_kept_witness:
  "max_frame_bytes (sv_config (snd (server_set_max_message_bytes 100 (snd (attach_to_http_route new_server))))) \<le> 16777216"
  using server_settings_kept [OF server_run.limit [OF server_run.attach [OF server_run.new]]] by (meson order_trans)

text \<open>A message limit that was lowered and raised again leaves the frame limit low: a message of one frame stays refused.\<close>

lemma raised_limit_keeps_frame_limit:
  "max_message_bytes (lower_limits 1000 (lower_limits 100 default_ws_config)) = 1000 \<and>
   max_frame_bytes (lower_limits 1000 (lower_limits 100 default_ws_config)) = 100"
  by (simp add: lower_limits_def default_ws_config_def default_max_bytes_def)

text \<open>An extension with blanks before its parameters is not recognised.\<close>

lemma extension_blank_missed: "\<not> extension_contains (str ''permessage-deflate ; client_max_window_bits'') (str ''permessage-deflate'')"
  by code_simp

end
