(* ===== verification/Type_Context.thy ===== *)
theory Type_Context
  imports Rust_Text "HOL-Library.List_Lexorder" "HOL-Library.Char_ord"
begin

text \<open>
  The types of the language as the semantic analysis has them, \<open>src/compiler/src/ast/mod.rs\<close>, and the part of
  \<open>semantic/semantic_type_system.rs\<close> that finds the declaration behind a nominal type and turns the annotations of
  its fields and payloads into types, type arguments included. Names are byte strings; spans are left out.
  Expanding an alias may go on for ever, so the resolution takes the number of aliases it may expand on the way, and
  \<open>None\<close> is a stack that overflows.
\<close>

section \<open>Types and annotations\<close>

datatype ast_int_width = WI8 | WI16 | WI32 | WI64 | WIsize | WUsize

datatype ast_float_width = WF32 | WF64

datatype ast_type =
    TyInt | TyFloat | TyExactInt bool ast_int_width | TyExactFloat ast_float_width | TyBool | TyString | TyChar | TyUnit | TyUnknown
  | TyArray ast_type "usize option" | TyTuple "ast_type list" | TyStruct string | TyEnum string | TyApplied string "ast_type list"
  | TyParam string | TySelf | TyFn "ast_type list" ast_type | TyTask ast_type | TyRange
  | TyTensor ast_type "usize option" "usize option list option" "string option" "string option"
  | TyDynTrait string "string list"

datatype annotation =
    Simple "string list" | TupleOf "annotation list" | FunctionOf "annotation list" annotation
  | Generic string "annotation list" | DynTrait string "string list"

section \<open>What is declared\<close>

record struct_info =
  si_fields :: "(string, annotation) hash_map"

record variant_info =
  vi_data :: "annotation list option"
  vi_struct_data :: "(string \<times> annotation) list option"

record enum_info =
  ei_variants :: "(string, variant_info) hash_map"

text \<open>The tables of the analyser that a type is looked up in. Of a generic declaration only its parameters are read.\<close>

record analyzer =
  struct_infos :: "(string, struct_info) hash_map"
  enum_infos :: "(string, enum_info) hash_map"
  generic_structs :: "(string, string list) hash_map"
  generic_enums :: "(string, string list) hash_map"
  type_aliases :: "(string, annotation) hash_map"
  generic_params :: "string list list"

definition declared :: "(string, 'a) hash_map \<Rightarrow> string \<Rightarrow> bool" where
  "declared m name \<longleftrightarrow> map_of m name \<noteq> None"

definition is_generic_param :: "analyzer \<Rightarrow> string \<Rightarrow> bool" where
  "is_generic_param A name = list_ex (\<lambda>params. name \<in> set params) (rev (generic_params A))"

section \<open>From annotations to types\<close>

definition primitive_numeric_alias :: "string \<Rightarrow> ast_type option" where
  "primitive_numeric_alias name =
     (if name = ''int'' then Some TyInt else if name = ''float'' then Some TyFloat
      else if name = ''i8'' then Some (TyExactInt True WI8) else if name = ''i16'' then Some (TyExactInt True WI16)
      else if name = ''i32'' then Some (TyExactInt True WI32) else if name = ''i64'' then Some (TyExactInt True WI64)
      else if name = ''isize'' then Some (TyExactInt True WIsize)
      else if name = ''u8'' then Some (TyExactInt False WI8) else if name = ''u16'' then Some (TyExactInt False WI16)
      else if name = ''u32'' then Some (TyExactInt False WI32) else if name = ''u64'' then Some (TyExactInt False WI64)
      else if name = ''usize'' then Some (TyExactInt False WUsize)
      else if name = ''f32'' then Some (TyExactFloat WF32) else if name = ''f64'' then Some (TyExactFloat WF64)
      else None)"

record tensor_metadata =
  tm_rank :: "usize option"
  tm_dims :: "usize option list option"
  tm_layout :: "string option"
  tm_device :: "string option"

definition single_segment_annotation :: "annotation \<Rightarrow> string option" where
  "single_segment_annotation ann = (case ann of Simple [segment] \<Rightarrow> Some segment | _ \<Rightarrow> None)"

text \<open>The number behind a prefix, as in \<open>rank2\<close>.\<close>

definition prefixed_number :: "string \<Rightarrow> string \<Rightarrow> usize option" where
  "prefixed_number prefix name = Option.bind (strip_prefix prefix name) (\<lambda>raw. from_str_radix 10 usize_max (str raw))"

definition metadata_entry :: "string \<Rightarrow> tensor_metadata \<times> usize option list \<Rightarrow> tensor_metadata \<times> usize option list" where
  "metadata_entry name = (\<lambda>(meta, dims). case prefixed_number ''rank'' name of
     Some rank \<Rightarrow> (meta\<lparr>tm_rank := Some rank\<rparr>, dims)
   | None \<Rightarrow> (case prefixed_number ''dim'' name of
       Some dim \<Rightarrow> (meta, dims @ [Some dim])
     | None \<Rightarrow>
         if name = ''dyn'' \<or> name = ''dynamic_dim'' \<or> name = ''dim_dynamic'' then (meta, dims @ [None])
         else if name = ''dynamic'' then (meta\<lparr>tm_rank := None\<rparr>, dims)
         else if name \<in> {''row_major'', ''col_major'', ''contiguous'', ''strided''} then (meta\<lparr>tm_layout := Some name\<rparr>, dims)
         else if name \<in> {''cpu'', ''wgpu'', ''cuda'', ''rocm'', ''metal'', ''directml'', ''vulkan''} then (meta\<lparr>tm_device := Some name\<rparr>, dims)
         else (meta, dims)))"

definition parse_tensor_metadata :: "annotation list \<Rightarrow> tensor_metadata" where
  "parse_tensor_metadata anns =
     (case fold metadata_entry (List.map_filter single_segment_annotation anns)
        (\<lparr>tm_rank = None, tm_dims = None, tm_layout = None, tm_device = None\<rparr>, []) of (meta, dims) \<Rightarrow>
      if dims = [] then meta
      else meta\<lparr>tm_rank := (case tm_rank meta of None \<Rightarrow> Some (length dims) | Some r \<Rightarrow> Some r), tm_dims := Some dims\<rparr>)"

text \<open>The result of every element, if all of them have one.\<close>

fun collect :: "('a \<Rightarrow> 'b option) \<Rightarrow> 'a list \<Rightarrow> 'b list option" where
  "collect f [] = Some []"
| "collect f (x # xs) = Option.bind (f x) (\<lambda>y. map_option ((#) y) (collect f xs))"

lemma collect_cong [fundef_cong]:
  "xs = ys \<Longrightarrow> (\<And>x. x \<in> set ys \<Longrightarrow> f x = g x) \<Longrightarrow> collect f xs = collect g ys"
  by (induction ys arbitrary: xs) auto

lemma member_smaller: "x \<in> set xs \<Longrightarrow> size x < Suc (size_list size xs)"
  by (induction xs) auto

lemma taken_smaller: "x \<in> set (take n xs) \<Longrightarrow> size x < Suc (size_list size xs)"
  by (rule member_smaller) (rule in_set_takeD)

definition join_dots :: "string list \<Rightarrow> string" where
  "join_dots segments = concat (case segments of [] \<Rightarrow> [] | s # ss \<Rightarrow> s # map (\<lambda>t. CHR ''.'' # t) ss)"

definition tensor_type :: "ast_type \<Rightarrow> annotation list \<Rightarrow> ast_type" where
  "tensor_type dtype args =
     (let meta = parse_tensor_metadata args in TyTensor dtype (tm_rank meta) (tm_dims meta) (tm_layout meta) (tm_device meta))"

definition boxed_type :: "annotation list \<Rightarrow> ast_type" where
  "boxed_type args = (case args of DynTrait name bounds # _ \<Rightarrow> TyDynTrait name bounds | _ \<Rightarrow> TyUnknown)"

text \<open>What a name stands for, when it is neither primitive nor an alias.\<close>

definition nominal_type :: "analyzer \<Rightarrow> string \<Rightarrow> ast_type option" where
  "nominal_type A name =
     (if declared (struct_infos A) name then Some (TyStruct name)
      else if declared (enum_infos A) name then Some (TyEnum name) else None)"

definition simple_type :: "analyzer \<Rightarrow> string \<Rightarrow> ast_type option" where
  "simple_type A name = (case primitive_numeric_alias name of
     Some ty \<Rightarrow> Some ty
   | None \<Rightarrow>
       if name = ''bool'' then Some TyBool else if name = ''string'' then Some TyString else if name = ''char'' then Some TyChar
       else if name = ''array'' then Some (TyArray TyUnknown None) else if name = ''Range'' then Some TyRange
       else if name = ''Self'' then Some TySelf
       else if is_generic_param A name then Some (TyParam name) else nominal_type A name)"

definition first_or_unknown :: "ast_type list \<Rightarrow> ast_type" where
  "first_or_unknown tys = (case tys of [] \<Rightarrow> TyUnknown | ty # _ \<Rightarrow> ty)"

function type_annotation_to_type :: "analyzer \<Rightarrow> nat \<Rightarrow> annotation \<Rightarrow> ast_type option" where
  "type_annotation_to_type A fuel (Simple segments) =
     (let name = join_dots segments;
          known = (if segments = [] then Some TyUnknown else if length segments = 1 then simple_type A name else nominal_type A name)
      in case known of
        Some ty \<Rightarrow> Some ty
      | None \<Rightarrow> (case map_of (type_aliases A) name of
          None \<Rightarrow> Some TyUnknown
        | Some ann \<Rightarrow> (case fuel of 0 \<Rightarrow> None | Suc fuel' \<Rightarrow> type_annotation_to_type A fuel' ann)))"
| "type_annotation_to_type A fuel (TupleOf elements) = map_option TyTuple (collect (type_annotation_to_type A fuel) elements)"
| "type_annotation_to_type A fuel (FunctionOf params return_type) =
     Option.bind (collect (type_annotation_to_type A fuel) params) (\<lambda>ps.
     map_option (TyFn ps) (type_annotation_to_type A fuel return_type))"
| "type_annotation_to_type A fuel (Generic name args) =
     (if name = ''Tensor'' \<and> args \<noteq> [] then
        map_option (\<lambda>dtype. tensor_type (first_or_unknown dtype) (tl args)) (collect (type_annotation_to_type A fuel) (take 1 args))
      else if name = ''array'' then
        map_option (\<lambda>tys. TyArray (first_or_unknown tys) None) (collect (type_annotation_to_type A fuel) (take 1 args))
      else if name = ''Task'' then
        map_option (\<lambda>tys. TyTask (first_or_unknown tys)) (collect (type_annotation_to_type A fuel) (take 1 args))
      else if name = ''Box'' then Some (boxed_type args)
      else if declared (generic_enums A) name \<or> declared (generic_structs A) name then
        map_option (TyApplied name) (collect (type_annotation_to_type A fuel) args)
      else Some TyUnknown)"
| "type_annotation_to_type A fuel (DynTrait name bounds) = Some (TyDynTrait name bounds)"
  by pat_completeness auto
termination
  by (relation "measures [\<lambda>(A, fuel, ann). fuel, \<lambda>(A, fuel, ann). size ann]") (auto dest: member_smaller taken_smaller)

section \<open>Declarations behind a type\<close>

definition type_from_mangle_part :: "analyzer \<Rightarrow> string \<Rightarrow> ast_type" where
  "type_from_mangle_part A part = (case primitive_numeric_alias part of
     Some ty \<Rightarrow> ty
   | None \<Rightarrow>
       if part = ''bool'' then TyBool else if part = ''string'' then TyString else if part = ''char'' then TyChar
       else if declared (struct_infos A) part then TyStruct part else TyEnum part)"

text \<open>The generic declarations a mangled name such as \<open>Option_int\<close> may belong to, the longest first, with the rest of the name.\<close>

definition mangling_candidates :: "(string, string list) hash_map \<Rightarrow> string \<Rightarrow> (string \<times> string list \<times> string) list" where
  "mangling_candidates generics name = sort_key (\<lambda>(base, params, suffix). - int (length base))
     (List.map_filter (\<lambda>(base, params). map_option (\<lambda>suffix. (base, params, suffix)) (strip_prefix (base @ ''_'') name)) generics)"

definition mangled_parts :: "string list \<Rightarrow> string \<Rightarrow> string list" where
  "mangled_parts params suffix = (if length params = 1 then [suffix] else split_on CHR ''_'' suffix)"

fun specialized_context :: "analyzer \<Rightarrow> (string, 'i) hash_map \<Rightarrow> string \<Rightarrow> (string \<times> string list \<times> string) list \<Rightarrow>
    (string \<times> 'i \<times> (string, ast_type) hash_map) option" where
  "specialized_context A infos name [] = map_option (\<lambda>info. (name, info, [])) (map_of infos name)"
| "specialized_context A infos name ((base, params, suffix) # candidates) =
     (let parts = mangled_parts params suffix
      in if length parts \<noteq> length params then specialized_context A infos name candidates
         else case map_of infos base of
           None \<Rightarrow> specialized_context A infos name candidates
         | Some info \<Rightarrow> Some (base, info, rev (zip params (map (type_from_mangle_part A) parts))))"

definition specialized_enum_context :: "analyzer \<Rightarrow> string \<Rightarrow> (string \<times> enum_info \<times> (string, ast_type) hash_map) option" where
  "specialized_enum_context A name = specialized_context A (enum_infos A) name (mangling_candidates (generic_enums A) name)"

definition specialized_struct_context :: "analyzer \<Rightarrow> string \<Rightarrow> (string \<times> struct_info \<times> (string, ast_type) hash_map) option" where
  "specialized_struct_context A name = specialized_context A (struct_infos A) name (mangling_candidates (generic_structs A) name)"

definition applied_context :: "(string, string list) hash_map \<Rightarrow> (string, 'i) hash_map \<Rightarrow> string \<Rightarrow> ast_type list \<Rightarrow>
    (string \<times> 'i \<times> (string, ast_type) hash_map) option" where
  "applied_context generics infos name args = Option.bind (map_of generics name) (\<lambda>params.
     if length params \<noteq> length args then None
     else map_option (\<lambda>info. (name, info, rev (zip params args))) (map_of infos name))"

definition specialized_enum_context_for_type :: "analyzer \<Rightarrow> ast_type \<Rightarrow> (string \<times> enum_info \<times> (string, ast_type) hash_map) option" where
  "specialized_enum_context_for_type A ty = (case ty of
     TyEnum name \<Rightarrow> specialized_enum_context A name
   | TyApplied name args \<Rightarrow> applied_context (generic_enums A) (enum_infos A) name args
   | _ \<Rightarrow> None)"

definition specialized_struct_context_for_type :: "analyzer \<Rightarrow> ast_type \<Rightarrow> (string \<times> struct_info \<times> (string, ast_type) hash_map) option" where
  "specialized_struct_context_for_type A ty = (case ty of
     TyStruct name \<Rightarrow> specialized_struct_context A name
   | TyApplied name args \<Rightarrow> applied_context (generic_structs A) (struct_infos A) name args
   | _ \<Rightarrow> None)"

text \<open>An annotation under the type arguments of the declaration it is in. The arguments of a tensor are not substituted.\<close>

function type_annotation_to_type_with_substitutions :: "analyzer \<Rightarrow> nat \<Rightarrow> (string, ast_type) hash_map \<Rightarrow> annotation \<Rightarrow> ast_type option" where
  "type_annotation_to_type_with_substitutions A fuel subst (Simple segments) =
     (case segments of
        [segment] \<Rightarrow> (case map_of subst segment of Some ty \<Rightarrow> Some ty | None \<Rightarrow> type_annotation_to_type A fuel (Simple segments))
      | _ \<Rightarrow> type_annotation_to_type A fuel (Simple segments))"
| "type_annotation_to_type_with_substitutions A fuel subst (TupleOf elements) =
     map_option TyTuple (collect (type_annotation_to_type_with_substitutions A fuel subst) elements)"
| "type_annotation_to_type_with_substitutions A fuel subst (FunctionOf params return_type) =
     Option.bind (collect (type_annotation_to_type_with_substitutions A fuel subst) params) (\<lambda>ps.
     map_option (TyFn ps) (type_annotation_to_type_with_substitutions A fuel subst return_type))"
| "type_annotation_to_type_with_substitutions A fuel subst (Generic name args) =
     (if name = ''array'' then
        map_option (\<lambda>tys. TyArray (first_or_unknown tys) None) (collect (type_annotation_to_type_with_substitutions A fuel subst) (take 1 args))
      else if name = ''Task'' then
        map_option (\<lambda>tys. TyTask (first_or_unknown tys)) (collect (type_annotation_to_type_with_substitutions A fuel subst) (take 1 args))
      else if name = ''Box'' then Some (boxed_type args)
      else if declared (generic_structs A) name \<or> declared (generic_enums A) name then
        map_option (TyApplied name) (collect (type_annotation_to_type_with_substitutions A fuel subst) args)
      else type_annotation_to_type A fuel (Generic name args))"
| "type_annotation_to_type_with_substitutions A fuel subst (DynTrait name bounds) = type_annotation_to_type A fuel (DynTrait name bounds)"
  by pat_completeness auto
termination
  by (relation "measure (\<lambda>(A, fuel, subst, ann). size ann)") (auto dest: member_smaller taken_smaller)

end
