(* ===== verification/Exhaustiveness.thy ===== *)
theory Exhaustiveness
  imports Type_Context
begin

text \<open>
  Whether a match covers every value, \<open>src/compiler/src/semantic/semantic_exhaustiveness.rs\<close>, with the normalisation of bare
  variant names in \<open>semantic_patterns.rs\<close> that goes before it and the patterns of \<open>ast/mod.rs\<close>. The cover of tuples of booleans is
  kept as cubes, one entry for each boolean: the value it has to have, or \<open>None\<close> for either.
\<close>

section \<open>Patterns\<close>

text \<open>Of the expressions a literal pattern may be, the check looks into booleans, tuples and parentheses.\<close>

datatype expression =
    BoolLiteral bool | TupleLiteral "expression list" | Grouping expression
  | NumberLiteral string | StringLiteral string | CharLiteral rust_char | OtherExpression string

datatype pattern =
    Wildcard | Literal expression | Identifier string | TuplePattern "pattern list" | StructPattern string "(string \<times> pattern) list"
  | EnumVariant "string option" string "annotation list" string "pattern list option" "(string \<times> pattern) list option"
  | Or "pattern list"

text \<open>An arm as the check sees it: its pattern and whether it has a guard.\<close>

record match_arm =
  arm_pattern :: pattern
  arm_guarded :: bool

section \<open>Cubes of booleans\<close>

type_synonym cube = "bool option list"

definition dimension_sum :: "usize list \<Rightarrow> usize option" where
  "dimension_sum ns = fold (\<lambda>n acc. Option.bind acc (\<lambda>count. if count + n \<le> usize_max then Some (count + n) else None)) ns (Some 0)"

fun bool_tuple_dimensions :: "ast_type \<Rightarrow> usize option" where
  "bool_tuple_dimensions TyBool = Some 1"
| "bool_tuple_dimensions (TyTuple elements) = Option.bind (collect bool_tuple_dimensions elements) dimension_sum"
| "bool_tuple_dimensions _ = Some 0"

fun has_bool_tuple_dimension :: "ast_type \<Rightarrow> bool" where
  "has_bool_tuple_dimension TyBool = True"
| "has_bool_tuple_dimension (TyTuple elements) = list_ex has_bool_tuple_dimension elements"
| "has_bool_tuple_dimension _ = False"

definition combine_cubes :: "cube list \<Rightarrow> cube list \<Rightarrow> cube list" where
  "combine_cubes cubes suffixes = concat (map (\<lambda>prefix. map (\<lambda>suffix. prefix @ suffix) suffixes) cubes)"

definition cube_product :: "cube list list \<Rightarrow> cube list" where
  "cube_product css = foldl combine_cubes [[]] css"

lemma zipped_smaller [termination_simp]: "(t, v) \<in> set (zip ts vs) \<Longrightarrow> size v < Suc (size_list size vs)"
  by (rule member_smaller) (rule set_zip_rightD)

function bool_tuple_expression_cubes :: "expression \<Rightarrow> ast_type \<Rightarrow> cube list option" where
  "bool_tuple_expression_cubes (BoolLiteral b) ty = (if ty = TyBool then Some [[Some b]] else None)"
| "bool_tuple_expression_cubes (TupleLiteral values) ty = (case ty of
     TyTuple elements \<Rightarrow>
       if length elements = length values
       then map_option cube_product (collect (\<lambda>(t, v). bool_tuple_expression_cubes v t) (zip elements values))
       else None
   | _ \<Rightarrow> None)"
| "bool_tuple_expression_cubes (Grouping inner) ty = bool_tuple_expression_cubes inner ty"
| "bool_tuple_expression_cubes (NumberLiteral s) ty = None"
| "bool_tuple_expression_cubes (StringLiteral s) ty = None"
| "bool_tuple_expression_cubes (CharLiteral c) ty = None"
| "bool_tuple_expression_cubes (OtherExpression s) ty = None"
  by pat_completeness auto
termination
  by (relation "measure (\<lambda>(e, ty). size e)") (auto dest: zipped_smaller)

definition wildcard_cubes :: "ast_type \<Rightarrow> cube list option" where
  "wildcard_cubes ty = map_option (\<lambda>n. [replicate n None]) (bool_tuple_dimensions ty)"

function bool_tuple_pattern_cubes :: "pattern \<Rightarrow> ast_type \<Rightarrow> cube list option" where
  "bool_tuple_pattern_cubes Wildcard ty = wildcard_cubes ty"
| "bool_tuple_pattern_cubes (Identifier x) ty = wildcard_cubes ty"
| "bool_tuple_pattern_cubes (Literal e) ty = bool_tuple_expression_cubes e ty"
| "bool_tuple_pattern_cubes (TuplePattern patterns) ty = (case ty of
     TyTuple elements \<Rightarrow>
       if length patterns = length elements
       then map_option cube_product (collect (\<lambda>(t, p). bool_tuple_pattern_cubes p t) (zip elements patterns))
       else None
   | _ \<Rightarrow> None)"
| "bool_tuple_pattern_cubes (Or patterns) ty = map_option concat (collect (\<lambda>p. bool_tuple_pattern_cubes p ty) patterns)"
| "bool_tuple_pattern_cubes (StructPattern n fs) ty = None"
| "bool_tuple_pattern_cubes (EnumVariant m en as vn data named) ty = None"
  by pat_completeness auto
termination
  by (relation "measure (\<lambda>(p, ty). size p)") (auto dest: zipped_smaller member_smaller)

text \<open>The entries of a cube from a dimension on. The cubes of one type are of one length, so the indices are in range.\<close>

definition longest :: "cube list \<Rightarrow> nat" where
  "longest cubes = fold (max \<circ> length) cubes 0"

definition splits_at :: "nat \<Rightarrow> bool \<Rightarrow> cube list \<Rightarrow> cube list" where
  "splits_at dimension b cubes = filter (\<lambda>c. c ! dimension = None \<or> c ! dimension = Some b) cubes"

lemma length_longest: "c \<in> set cubes \<Longrightarrow> length c \<le> longest cubes"
proof -
  have "n \<le> fold (max \<circ> length) cubes n \<and> (c \<in> set cubes \<longrightarrow> length c \<le> fold (max \<circ> length) cubes n)" for n
    by (induction cubes arbitrary: n) (auto intro: order_trans max.cobounded1 max.cobounded2 simp: max.coboundedI1 max.coboundedI2)
  then show "c \<in> set cubes \<Longrightarrow> length c \<le> longest cubes" by (simp add: longest_def)
qed

lemma longest_le: "(\<And>c. c \<in> set cubes \<Longrightarrow> length c \<le> n) \<Longrightarrow> longest cubes \<le> n"
proof -
  have "m \<le> n \<Longrightarrow> (\<And>c. c \<in> set cubes \<Longrightarrow> length c \<le> n) \<Longrightarrow> fold (max \<circ> length) cubes m \<le> n" for m
    by (induction cubes arbitrary: m) auto
  then show "(\<And>c. c \<in> set cubes \<Longrightarrow> length c \<le> n) \<Longrightarrow> longest cubes \<le> n" by (simp add: longest_def)
qed

lemma longest_split: "longest (splits_at dimension b cubes) \<le> longest cubes"
  by (rule longest_le) (auto simp: splits_at_def intro: length_longest)

lemma longest_beyond:
  assumes "cubes \<noteq> []" "\<not> list_ex (\<lambda>c. list_all (\<lambda>x. x = None) (drop dimension c)) cubes"
  shows "dimension < longest cubes"
proof (rule ccontr)
  assume "\<not> dimension < longest cubes"
  then have "drop dimension (hd cubes) = []" using length_longest [of "hd cubes" cubes] assms(1) by simp
  then show False using assms by (cases cubes) simp_all
qed

function bool_tuple_cubes_cover_all :: "cube list \<Rightarrow> nat \<Rightarrow> bool" where
  "bool_tuple_cubes_cover_all cubes dimension =
     (if cubes = [] then False
      else if list_ex (\<lambda>c. list_all (\<lambda>x. x = None) (drop dimension c)) cubes then True
      else if dimension = length (hd cubes) then True
      else if list_all (\<lambda>c. c ! dimension = None) cubes then bool_tuple_cubes_cover_all cubes (dimension + 1)
      else bool_tuple_cubes_cover_all (splits_at dimension False cubes) (dimension + 1) \<and>
           bool_tuple_cubes_cover_all (splits_at dimension True cubes) (dimension + 1))"
  by pat_completeness auto
termination
proof (relation "measure (\<lambda>(cubes, dimension). longest cubes - dimension)", goal_cases)
  case (2 cubes dimension)
  then show ?case using longest_beyond [of cubes dimension] by auto
next
  case (3 cubes dimension)
  then show ?case using longest_beyond [of cubes dimension] longest_split [of dimension False cubes] by auto
next
  case (4 cubes dimension)
  then show ?case using longest_beyond [of cubes dimension] longest_split [of dimension True cubes] by auto
qed simp

declare bool_tuple_cubes_cover_all.simps [simp del]

section \<open>Covering a type\<close>

text \<open>Conjunction and disjunction over a list that stop at the first answer, as the iterators do.\<close>

fun all_m :: "('a \<Rightarrow> bool option) \<Rightarrow> 'a list \<Rightarrow> bool option" where
  "all_m f [] = Some True"
| "all_m f (x # xs) = Option.bind (f x) (\<lambda>b. if b then all_m f xs else Some False)"

fun any_m :: "('a \<Rightarrow> bool option) \<Rightarrow> 'a list \<Rightarrow> bool option" where
  "any_m f [] = Some False"
| "any_m f (x # xs) = Option.bind (f x) (\<lambda>b. if b then Some True else any_m f xs)"

lemma all_m_cong [fundef_cong]: "xs = ys \<Longrightarrow> (\<And>x. x \<in> set ys \<Longrightarrow> f x = g x) \<Longrightarrow> all_m f xs = all_m g ys"
  by (induction ys arbitrary: xs) (auto split: bind_splits)

lemma any_m_cong [fundef_cong]: "xs = ys \<Longrightarrow> (\<And>x. x \<in> set ys \<Longrightarrow> f x = g x) \<Longrightarrow> any_m f xs = any_m g ys"
  by (induction ys arbitrary: xs) (auto split: bind_splits)

fun pattern_alternatives :: "pattern \<Rightarrow> pattern list" where
  "pattern_alternatives (Or alternatives) = concat (map pattern_alternatives alternatives)"
| "pattern_alternatives p = [p]"

definition is_binding :: "pattern \<Rightarrow> bool" where
  "is_binding p = (case p of Wildcard \<Rightarrow> True | Identifier _ \<Rightarrow> True | _ \<Rightarrow> False)"

definition patterns_cubes_cover :: "pattern list \<Rightarrow> ast_type \<Rightarrow> bool" where
  "patterns_cubes_cover alternatives ty = (case collect (\<lambda>p. bool_tuple_pattern_cubes p ty) alternatives of
     None \<Rightarrow> False
   | Some css \<Rightarrow> bool_tuple_cubes_cover_all (concat css) 0)"

definition field_pattern :: "(string \<times> pattern) list \<Rightarrow> string \<Rightarrow> pattern" where
  "field_pattern named name = (case map_of named name of Some p \<Rightarrow> p | None \<Rightarrow> Wildcard)"

text \<open>A struct pattern as the tuple of the patterns of its fields, in the order of their names.\<close>

definition struct_tuple :: "string \<Rightarrow> string list \<Rightarrow> pattern \<Rightarrow> pattern option" where
  "struct_tuple struct_name names p = (case p of
     StructPattern name named \<Rightarrow> if name = struct_name then Some (TuplePattern (map (field_pattern named) names)) else None
   | _ \<Rightarrow> None)"

text \<open>The pattern of the payload in a pattern for a variant.\<close>

definition payload_pattern :: "variant_info \<Rightarrow> pattern list option \<Rightarrow> (string \<times> pattern) list option \<Rightarrow> pattern option" where
  "payload_pattern vi data named = (case vi_data vi of
     Some types \<Rightarrow> (case data of
         Some parts \<Rightarrow> if length parts = length types then Some (if length parts = 1 then hd parts else TuplePattern parts) else None
       | None \<Rightarrow> None)
   | None \<Rightarrow> (case vi_struct_data vi of
         Some declared_fields \<Rightarrow> map_option (\<lambda>fs. TuplePattern (map (\<lambda>(name, _). field_pattern fs name) declared_fields)) named
       | None \<Rightarrow> Some Wildcard))"

definition variant_payload :: "string \<Rightarrow> string \<Rightarrow> variant_info \<Rightarrow> pattern \<Rightarrow> pattern option" where
  "variant_payload enum_name variant_name vi p = (case p of
     EnumVariant _ pattern_enum _ pattern_variant data named \<Rightarrow>
       if pattern_enum = enum_name \<and> pattern_variant = variant_name then payload_pattern vi data named else None
   | _ \<Rightarrow> None)"

definition payload_annotations :: "variant_info \<Rightarrow> annotation list" where
  "payload_annotations vi = (case vi_data vi of
     Some types \<Rightarrow> types
   | None \<Rightarrow> (case vi_struct_data vi of Some declared_fields \<Rightarrow> map snd declared_fields | None \<Rightarrow> []))"

definition payload_type :: "variant_info \<Rightarrow> ast_type list \<Rightarrow> ast_type" where
  "payload_type vi types = (if vi_struct_data vi \<noteq> None \<or> length types \<noteq> 1 then TyTuple types else hd types)"

definition field_type :: "analyzer \<Rightarrow> nat \<Rightarrow> (string, ast_type) hash_map \<Rightarrow> struct_info \<Rightarrow> string \<Rightarrow> ast_type option" where
  "field_type A fuel subst info name = Option.bind (map_of (si_fields info) name) (type_annotation_to_type_with_substitutions A fuel subst)"

definition is_nominal :: "ast_type \<Rightarrow> bool" where
  "is_nominal ty = (case ty of TyStruct _ \<Rightarrow> True | TyApplied _ _ \<Rightarrow> True | _ \<Rightarrow> False)"

function patterns_cover_type :: "analyzer \<Rightarrow> nat \<Rightarrow> pattern list \<Rightarrow> ast_type \<Rightarrow> nat \<Rightarrow> bool option" where
  "patterns_cover_type A fuel patterns ty depth =
     (let alternatives = concat (map pattern_alternatives patterns)
      in if 64 < depth then Some False
         else if list_ex is_binding alternatives then Some True
         else if ty = TyBool then Some (patterns_cubes_cover alternatives ty)
         else if is_nominal ty then
           (case specialized_struct_context_for_type A ty of
              Some (struct_name, info, subst) \<Rightarrow>
                let names = sort (map fst (si_fields info))
                in Option.bind (collect (field_type A fuel subst info) names) (\<lambda>types.
                   patterns_cover_type A fuel (List.map_filter (struct_tuple struct_name names) alternatives) (TyTuple types) (depth + 1))
            | None \<Rightarrow> (case specialized_enum_context_for_type A ty of
                Some (enum_name, info, subst) \<Rightarrow>
                  map_option (\<lambda>ok. ok \<and> ei_variants info \<noteq> []) (all_m (\<lambda>(variant_name, vi).
                    let payloads = List.map_filter (variant_payload enum_name variant_name vi) alternatives
                    in if payloads = [] then Some False
                       else if vi_data vi = None \<and> vi_struct_data vi = None then Some True
                       else Option.bind (collect (type_annotation_to_type_with_substitutions A fuel subst) (payload_annotations vi)) (\<lambda>types.
                         patterns_cover_type A fuel payloads (payload_type vi types) (depth + 1))) (ei_variants info))
              | None \<Rightarrow> Some False))
         else (case ty of
             TyTuple elements \<Rightarrow>
               if has_bool_tuple_dimension ty then Some (patterns_cubes_cover alternatives ty)
               else any_m (\<lambda>p. case p of
                   TuplePattern parts \<Rightarrow>
                     if length parts = length elements
                     then all_m (\<lambda>(element, part). patterns_cover_type A fuel [part] element (depth + 1)) (zip elements parts)
                     else Some False
                 | _ \<Rightarrow> Some False) alternatives
           | _ \<Rightarrow> Some False))"
  by pat_completeness auto
termination
  by (relation "measure (\<lambda>(A, fuel, patterns, ty, depth). 65 - depth)") auto

declare patterns_cover_type.simps [simp del]

section \<open>The check\<close>

fun pattern_is_catch_all :: "pattern \<Rightarrow> bool" where
  "pattern_is_catch_all Wildcard = True"
| "pattern_is_catch_all (Identifier x) = True"
| "pattern_is_catch_all (TuplePattern patterns) = list_all pattern_is_catch_all patterns"
| "pattern_is_catch_all (StructPattern n named) = list_all (\<lambda>(f, p). pattern_is_catch_all p) named"
| "pattern_is_catch_all (Or patterns) = list_ex pattern_is_catch_all patterns"
| "pattern_is_catch_all _ = False"

fun pattern_contains_bool_literal :: "bool \<Rightarrow> pattern \<Rightarrow> bool" where
  "pattern_contains_bool_literal b (Literal e) = (e = BoolLiteral b)"
| "pattern_contains_bool_literal b (Or patterns) = list_ex (pattern_contains_bool_literal b) patterns"
| "pattern_contains_bool_literal b _ = False"

fun visit_enum_patterns :: "pattern \<Rightarrow> pattern list" where
  "visit_enum_patterns (Or patterns) = concat (map visit_enum_patterns patterns)"
| "visit_enum_patterns (EnumVariant m en as vn data named) = [EnumVariant m en as vn data named]"
| "visit_enum_patterns _ = []"

text \<open>The messages of the diagnostic E031, with the names they print.\<close>

datatype match_error = Not_exhaustive | Missing_patterns string "string list" | Missing_payload string "string list"
  | Bool_not_exhaustive | Tuple_needs_irrefutable | Tuple_needs_wildcard | Tuple_not_exhaustive

definition unguarded :: "match_arm list \<Rightarrow> pattern list" where
  "unguarded arms = map arm_pattern (filter (\<lambda>arm. \<not> arm_guarded arm) arms)"

definition variant_name_in :: "string \<Rightarrow> pattern \<Rightarrow> string option" where
  "variant_name_in enum_name p = (case p of
     EnumVariant _ pattern_enum _ variant_name _ _ \<Rightarrow> if pattern_enum = enum_name then Some variant_name else None
   | _ \<Rightarrow> None)"

definition has_payload :: "variant_info \<Rightarrow> bool" where
  "has_payload vi \<longleftrightarrow> (case vi_data vi of Some types \<Rightarrow> types \<noteq> [] | None \<Rightarrow> False) \<or>
     (case vi_struct_data vi of Some declared_fields \<Rightarrow> declared_fields \<noteq> [] | None \<Rightarrow> False)"

definition payload_covered :: "analyzer \<Rightarrow> nat \<Rightarrow> (string, ast_type) hash_map \<Rightarrow> string \<Rightarrow> pattern list \<Rightarrow> string \<times> variant_info \<Rightarrow> bool option" where
  "payload_covered A fuel subst enum_name patterns = (\<lambda>(variant_name, vi).
     if \<not> has_payload vi then Some True
     else Option.bind (collect (type_annotation_to_type_with_substitutions A fuel subst) (payload_annotations vi)) (\<lambda>types.
       patterns_cover_type A fuel (List.map_filter (variant_payload enum_name variant_name vi) patterns) (payload_type vi types) 0))"

definition check_enum_match :: "analyzer \<Rightarrow> nat \<Rightarrow> ast_type \<Rightarrow> match_arm list \<Rightarrow> match_error option option" where
  "check_enum_match A fuel ty arms = (case specialized_enum_context_for_type A ty of
     None \<Rightarrow> Some (Some Not_exhaustive)
   | Some (enum_name, info, subst) \<Rightarrow>
       let patterns = concat (map visit_enum_patterns (unguarded arms));
           missing = filter (\<lambda>variant. variant \<notin> set (List.map_filter (variant_name_in enum_name) patterns)) (map fst (ei_variants info))
       in if missing \<noteq> [] then Some (Some (Missing_patterns enum_name missing))
          else map_option (\<lambda>covered.
              let uncovered = map fst (filter (\<lambda>(variant, ok). \<not> ok) (zip (map fst (ei_variants info)) covered))
              in if uncovered = [] then None else Some (Missing_payload enum_name uncovered))
            (collect (payload_covered A fuel subst enum_name patterns) (ei_variants info)))"

definition check_tuple_match :: "ast_type \<Rightarrow> match_arm list \<Rightarrow> match_error option" where
  "check_tuple_match ty arms = (case bool_tuple_dimensions ty of
     None \<Rightarrow> Some Tuple_needs_irrefutable
   | Some dimensions \<Rightarrow>
       if dimensions = 0 then Some Tuple_needs_irrefutable
       else (case collect (\<lambda>p. bool_tuple_pattern_cubes p ty) (unguarded arms) of
           None \<Rightarrow> Some Tuple_needs_wildcard
         | Some css \<Rightarrow> if bool_tuple_cubes_cover_all (concat css) 0 then None else Some Tuple_not_exhaustive))"

definition check_match_exhaustiveness :: "analyzer \<Rightarrow> nat \<Rightarrow> ast_type \<Rightarrow> match_arm list \<Rightarrow> match_error option option" where
  "check_match_exhaustiveness A fuel ty arms =
     (if list_ex pattern_is_catch_all (unguarded arms) then Some None
      else case ty of
        TyEnum _ \<Rightarrow> check_enum_match A fuel ty arms
      | TyApplied _ _ \<Rightarrow> check_enum_match A fuel ty arms
      | TyBool \<Rightarrow> Some (if list_ex (pattern_contains_bool_literal True) (unguarded arms) \<and>
            list_ex (pattern_contains_bool_literal False) (unguarded arms) then None else Some Bool_not_exhaustive)
      | TyTuple _ \<Rightarrow> Some (check_tuple_match ty arms)
      | _ \<Rightarrow> Some (Some Not_exhaustive))"

text \<open>A bare name is the variant of that name where the scrutinee is of an enum that has it.\<close>

fun normalize_pattern :: "analyzer \<Rightarrow> string \<Rightarrow> pattern \<Rightarrow> pattern" where
  "normalize_pattern A enum_name (Identifier x) = (case specialized_enum_context A enum_name of
     Some (_, info, _) \<Rightarrow> if map_of (ei_variants info) x \<noteq> None then EnumVariant None enum_name [] x None None else Identifier x
   | None \<Rightarrow> Identifier x)"
| "normalize_pattern A enum_name (Or patterns) = Or (map (normalize_pattern A enum_name) patterns)"
| "normalize_pattern A enum_name p = p"

definition normalize_bare_enum_pattern :: "analyzer \<Rightarrow> ast_type \<Rightarrow> pattern \<Rightarrow> pattern" where
  "normalize_bare_enum_pattern A ty p =
     (if specialized_enum_context_for_type A ty = None then p
      else case ty of TyEnum name \<Rightarrow> normalize_pattern A name p | TyApplied name _ \<Rightarrow> normalize_pattern A name p | _ \<Rightarrow> p)"

definition normalize_arms :: "analyzer \<Rightarrow> ast_type \<Rightarrow> match_arm list \<Rightarrow> match_arm list" where
  "normalize_arms A ty arms = map (\<lambda>arm. arm\<lparr>arm_pattern := normalize_bare_enum_pattern A ty (arm_pattern arm)\<rparr>) arms"

definition check_match :: "analyzer \<Rightarrow> nat \<Rightarrow> ast_type \<Rightarrow> match_arm list \<Rightarrow> match_error option option" where
  "check_match A fuel ty arms = check_match_exhaustiveness A fuel ty (normalize_arms A ty arms)"

end
