(* ===== verification/Exhaustiveness_Correct.thy ===== *)
theory Exhaustiveness_Correct
  imports Exhaustiveness
begin

text \<open>
  What the check of theory \<open>Exhaustiveness\<close> promises: a match it accepts has, for every value of the type of its
  scrutinee, an arm without a guard whose pattern matches. The values of a type and the meaning of patterns are given first;
  then cubes, the cover of a type, and the check.
\<close>

section \<open>Values and the meaning of patterns\<close>

text \<open>Scalars other than booleans are only told apart by the meaning of the literals, which is a parameter.\<close>

datatype sval = VBool bool | VTuple "sval list" | VStruct string "(string \<times> sval) list"
  | VVariant string string "sval list" | VRecordVariant string string "(string \<times> sval) list" | VScalar nat

function literal_matches :: "(expression \<Rightarrow> sval \<Rightarrow> bool) \<Rightarrow> expression \<Rightarrow> sval \<Rightarrow> bool" where
  "literal_matches scalar (BoolLiteral b) v = (v = VBool b)"
| "literal_matches scalar (TupleLiteral es) v = (case v of
     VTuple vs \<Rightarrow> length es = length vs \<and> list_all (\<lambda>(w, e). literal_matches scalar e w) (zip vs es)
   | _ \<Rightarrow> False)"
| "literal_matches scalar (Grouping e) v = literal_matches scalar e v"
| "literal_matches scalar (NumberLiteral s) v = scalar (NumberLiteral s) v"
| "literal_matches scalar (StringLiteral s) v = scalar (StringLiteral s) v"
| "literal_matches scalar (CharLiteral c) v = scalar (CharLiteral c) v"
| "literal_matches scalar (OtherExpression s) v = scalar (OtherExpression s) v"
  by pat_completeness auto
termination
  by (relation "measure (\<lambda>(scalar, e, v). size e)") (auto dest: zipped_smaller)

lemma named_smaller: "(f, p) \<in> set named \<Longrightarrow> size p < Suc (size_list (size_prod (\<lambda>_. 0) size) named)"
  by (induction named) auto

function matches :: "(expression \<Rightarrow> sval \<Rightarrow> bool) \<Rightarrow> pattern \<Rightarrow> sval \<Rightarrow> bool" where
  "matches scalar Wildcard v = True"
| "matches scalar (Identifier x) v = True"
| "matches scalar (Literal e) v = literal_matches scalar e v"
| "matches scalar (TuplePattern ps) v = (case v of
     VTuple vs \<Rightarrow> length ps = length vs \<and> list_all (\<lambda>(w, p). matches scalar p w) (zip vs ps)
   | _ \<Rightarrow> False)"
| "matches scalar (StructPattern n named) v = (case v of
     VStruct n' fvs \<Rightarrow> n = n' \<and> list_all (\<lambda>(f, p). case map_of fvs f of Some w \<Rightarrow> matches scalar p w | None \<Rightarrow> False) named
   | _ \<Rightarrow> False)"
| "matches scalar (EnumVariant m en as vn data named) v = (case v of
     VVariant en' vn' vs \<Rightarrow> en = en' \<and> vn = vn' \<and>
       (case data of Some ps \<Rightarrow> length ps = length vs \<and> list_all (\<lambda>(w, p). matches scalar p w) (zip vs ps) | None \<Rightarrow> vs = [])
   | VRecordVariant en' vn' fvs \<Rightarrow> en = en' \<and> vn = vn' \<and>
       (case named of Some nps \<Rightarrow> list_all (\<lambda>(f, p). case map_of fvs f of Some w \<Rightarrow> matches scalar p w | None \<Rightarrow> False) nps
        | None \<Rightarrow> fvs = [])
   | _ \<Rightarrow> False)"
| "matches scalar (Or ps) v = list_ex (\<lambda>p. matches scalar p v) ps"
  by pat_completeness auto
termination
  by (relation "measure (\<lambda>(scalar, p, v). size p)") (auto dest: zipped_smaller named_smaller member_smaller)

lemma field_smaller: "map_of fvs f = Some w \<Longrightarrow> size w < Suc (size_list (size_prod (\<lambda>_. 0) size) fvs)"
  by (rule named_smaller) (rule map_of_SomeD)

text \<open>The values of a type: of a struct or an enum, what its declaration says; of an open type, all.\<close>

function value_of_type :: "analyzer \<Rightarrow> nat \<Rightarrow> sval \<Rightarrow> ast_type \<Rightarrow> bool" where
  "value_of_type A fuel v ty =
     (if ty = TyBool then (case v of VBool _ \<Rightarrow> True | _ \<Rightarrow> False)
      else case ty of
        TyTuple es \<Rightarrow> (case v of
          VTuple vs \<Rightarrow> length es = length vs \<and> list_all (\<lambda>(t, w). value_of_type A fuel w t) (zip es vs) | _ \<Rightarrow> False)
      | _ \<Rightarrow> (case specialized_struct_context_for_type A ty of
          Some (n, info, subst) \<Rightarrow> (case v of
              VStruct n' fvs \<Rightarrow> n' = n \<and> list_all (\<lambda>f. case map_of fvs f of
                  Some w \<Rightarrow> (case field_type A fuel subst info f of Some t \<Rightarrow> value_of_type A fuel w t | None \<Rightarrow> False)
                | None \<Rightarrow> False) (map fst (si_fields info))
            | _ \<Rightarrow> False)
        | None \<Rightarrow> (case specialized_enum_context_for_type A ty of
            Some (en, info, subst) \<Rightarrow> (case v of
                VVariant en' vn vs \<Rightarrow> en' = en \<and> (case map_of (ei_variants info) vn of
                    Some vi \<Rightarrow> vi_struct_data vi = None \<and> length (payload_annotations vi) = length vs \<and>
                      list_all (\<lambda>(ann, w). case type_annotation_to_type_with_substitutions A fuel subst ann of
                        Some t \<Rightarrow> value_of_type A fuel w t | None \<Rightarrow> False) (zip (payload_annotations vi) vs)
                  | None \<Rightarrow> False)
              | VRecordVariant en' vn fvs \<Rightarrow> en' = en \<and> (case map_of (ei_variants info) vn of
                    Some vi \<Rightarrow> vi_data vi = None \<and> (case vi_struct_data vi of
                        Some fs \<Rightarrow> list_all (\<lambda>(f, ann). case map_of fvs f of
                            Some w \<Rightarrow> (case type_annotation_to_type_with_substitutions A fuel subst ann of
                              Some t \<Rightarrow> value_of_type A fuel w t | None \<Rightarrow> False)
                          | None \<Rightarrow> False) fs
                      | None \<Rightarrow> False)
                  | None \<Rightarrow> False)
              | _ \<Rightarrow> False)
          | None \<Rightarrow> True)))"
  by pat_completeness auto
termination
  by (relation "measure (\<lambda>(A, fuel, v, ty). size v)") (auto dest: zipped_smaller field_smaller)

declare value_of_type.simps [simp del]

text \<open>A pattern of the shape of a type: the arities and names that \<open>validate_pattern_against_type\<close> asks for.\<close>

function fits :: "analyzer \<Rightarrow> nat \<Rightarrow> pattern \<Rightarrow> ast_type \<Rightarrow> bool" where
  "fits A fuel Wildcard ty = True"
| "fits A fuel (Identifier x) ty = True"
| "fits A fuel (Literal e) ty = True"
| "fits A fuel (TuplePattern ps) ty = (case ty of
     TyTuple es \<Rightarrow> length ps = length es \<and> list_all (\<lambda>(t, p). fits A fuel p t) (zip es ps) | _ \<Rightarrow> False)"
| "fits A fuel (StructPattern n named) ty = (case specialized_struct_context_for_type A ty of
     Some (n', info, subst) \<Rightarrow> n' = n \<and> distinct (map fst named) \<and>
       list_all (\<lambda>(f, p). case field_type A fuel subst info f of Some t \<Rightarrow> fits A fuel p t | None \<Rightarrow> False) named
   | None \<Rightarrow> False)"
| "fits A fuel (EnumVariant m en as vn data named) ty = (case specialized_enum_context_for_type A ty of
     Some (en', info, subst) \<Rightarrow> en' = en \<and> (case map_of (ei_variants info) vn of
         Some vi \<Rightarrow> (case vi_data vi of
             Some types \<Rightarrow> named = None \<and> vi_struct_data vi = None \<and> (case data of
                 Some ps \<Rightarrow> length ps = length types \<and> list_all (\<lambda>(ann, p). case type_annotation_to_type_with_substitutions A fuel subst ann of
                   Some t \<Rightarrow> fits A fuel p t | None \<Rightarrow> False) (zip types ps)
               | None \<Rightarrow> False)
           | None \<Rightarrow> (case vi_struct_data vi of
               Some fs \<Rightarrow> data = None \<and> distinct (map fst fs) \<and> (case named of
                   Some nps \<Rightarrow> distinct (map fst nps) \<and> list_all (\<lambda>(f, p).
                     case Option.bind (map_of fs f) (type_annotation_to_type_with_substitutions A fuel subst) of
                       Some t \<Rightarrow> fits A fuel p t | None \<Rightarrow> False) nps
                 | None \<Rightarrow> False)
             | None \<Rightarrow> (data = None \<or> data = Some []) \<and> (named = None \<or> named = Some [])))
       | None \<Rightarrow> False)
   | None \<Rightarrow> False)"
| "fits A fuel (Or ps) ty = list_all (\<lambda>p. fits A fuel p ty) ps"
  by pat_completeness auto
termination
  by (relation "measure (\<lambda>(A, fuel, p, ty). size p)") (auto dest: zipped_smaller named_smaller member_smaller)

text \<open>No name is declared both as a generic struct and as a generic enum.\<close>

definition kinds_disjoint :: "analyzer \<Rightarrow> bool" where
  "kinds_disjoint A = list_all (\<lambda>(n, _). \<not> declared (generic_enums A) n) (generic_structs A)"

section \<open>Cubes\<close>

lemma collect_list_all2: "collect f xs = Some ys \<longleftrightarrow> list_all2 (\<lambda>x y. f x = Some y) xs ys"
  by (induction xs arbitrary: ys) (auto simp: bind_eq_Some_conv list_all2_Cons1)

lemma collect_member: "collect f xs = Some ys \<Longrightarrow> y \<in> set ys \<longleftrightarrow> (\<exists>x \<in> set xs. f x = Some y)"
  unfolding collect_list_all2 by (induction rule: list_all2_induct) (auto simp: in_set_conv_nth)

text \<open>The booleans of a value, in the order of the dimensions of its type.\<close>

fun bits :: "ast_type \<Rightarrow> sval \<Rightarrow> bool list" where
  "bits TyBool v = (case v of VBool b \<Rightarrow> [b] | _ \<Rightarrow> [])"
| "bits (TyTuple es) v = (case v of VTuple vs \<Rightarrow> concat (map (\<lambda>(t, w). bits t w) (zip es vs)) | _ \<Rightarrow> [])"
| "bits _ v = []"

definition agrees :: "cube \<Rightarrow> bool list \<Rightarrow> bool" where
  "agrees c bs = list_all2 (\<lambda>x b. x = None \<or> x = Some b) c bs"

lemma agrees_concat:
  "list_all2 (\<lambda>c bs. length c = length bs) cs bss \<Longrightarrow> agrees (concat cs) (concat bss) \<longleftrightarrow> list_all2 agrees cs bss"
  unfolding agrees_def by (induction rule: list_all2_induct) (simp_all add: list_all2_append)

lemma cube_product_member:
  "c \<in> set (cube_product css) \<longleftrightarrow> (\<exists>cs. list_all2 (\<lambda>c choices. c \<in> set choices) cs css \<and> c = concat cs)"
proof -
  have "c \<in> set (foldl combine_cubes start css) \<longleftrightarrow>
    (\<exists>prefix \<in> set start. \<exists>cs. list_all2 (\<lambda>c choices. c \<in> set choices) cs css \<and> c = prefix @ concat cs)" for start
  proof (induction css arbitrary: start)
    case (Cons choices css)
    show ?case unfolding foldl_Cons Cons.IH
      by (fastforce simp: combine_cubes_def list_all2_Cons2)
  qed auto
  then show ?thesis by (simp add: cube_product_def)
qed

lemma dimension_sum_Some: "dimension_sum ns = Some n \<Longrightarrow> n = sum_list ns"
proof -
  let ?f = "\<lambda>n acc. Option.bind acc (\<lambda>count. if count + n \<le> usize_max then Some (count + n) else None)"
  have none: "fold ?f ns None = None" for ns by (induction ns) simp_all
  have "fold ?f ns (Some k) = Some n \<Longrightarrow> n = k + sum_list ns" for k
    by (induction ns arbitrary: k) (fastforce simp: none add.assoc split: if_splits)+
  then show "dimension_sum ns = Some n \<Longrightarrow> n = sum_list ns" unfolding dimension_sum_def by fastforce
qed

lemma value_of_tuple:
  "value_of_type A fuel v (TyTuple es) \<longleftrightarrow> (\<exists>vs. v = VTuple vs \<and> list_all2 (value_of_type A fuel) vs es)"
  by (subst value_of_type.simps) (auto simp: list_all2_conv_all_nth list_all_length split: sval.splits)

lemma value_of_bool: "value_of_type A fuel v TyBool \<longleftrightarrow> (\<exists>b. v = VBool b)"
  by (subst value_of_type.simps) (auto split: sval.splits)

lemma bits_tuple: "length vs = length es \<Longrightarrow> bits (TyTuple es) (VTuple vs) = concat (map2 bits es vs)"
  by simp

lemma dimensions_bits: "bool_tuple_dimensions ty = Some n \<Longrightarrow> value_of_type A fuel v ty \<Longrightarrow> length (bits ty v) = n"
proof (induction ty arbitrary: n v rule: bool_tuple_dimensions.induct)
  case (2 es)
  obtain ns where ns: "list_all2 (\<lambda>t n. bool_tuple_dimensions t = Some n) es ns" "n = sum_list ns"
    using 2(2) by (auto simp: bind_eq_Some_conv collect_list_all2 dest: dimension_sum_Some)
  obtain vs where vs: "v = VTuple vs" "list_all2 (value_of_type A fuel) vs es" using 2(3) by (auto simp: value_of_tuple)
  have "map (\<lambda>(t, w). length (bits t w)) (zip es vs) = ns"
    using ns(1) vs(2) 2(1) by (auto simp: list_eq_iff_nth_eq list_all2_conv_all_nth)
  then show ?case using vs(1) ns(2) by (simp add: length_concat comp_def case_prod_unfold)
qed (auto simp: value_of_bool)

text \<open>What a list of cubes has to be to stand for a property of the values of a type.\<close>

definition stands_for :: "cube list \<Rightarrow> ast_type \<Rightarrow> sval \<Rightarrow> bool \<Rightarrow> bool" where
  "stands_for cubes ty v holds \<longleftrightarrow>
     (\<forall>c \<in> set cubes. length c = length (bits ty v) \<and> (agrees c (bits ty v) \<longrightarrow> holds))"

lemma product_stands_for:
  assumes "list_all2 (\<lambda>(t, x) cubes. f x t = Some cubes) (zip es xs) css" "length es = length xs" "list_all2 (value_of_type A fuel) vs es"
    and "\<And>t x w cubes. (t, x) \<in> set (zip es xs) \<Longrightarrow> f x t = Some cubes \<Longrightarrow> value_of_type A fuel w t \<Longrightarrow> stands_for cubes t w (holds x w)"
  shows "stands_for (cube_product css) (TyTuple es) (VTuple vs) (list_all (\<lambda>(w, x). holds x w) (zip vs xs))"
  unfolding stands_for_def
proof (intro ballI conjI impI)
  fix c assume "c \<in> set (cube_product css)"
  then obtain cs where cs: "list_all2 (\<lambda>c choices. c \<in> set choices) cs css" "c = concat cs" by (auto simp: cube_product_member)
  let ?bss = "map2 bits es vs"
  have len: "length cs = length es" "length css = length es" "length vs = length es"
    using list_all2_lengthD [OF cs(1)] list_all2_lengthD [OF assms(1)] list_all2_lengthD [OF assms(3)] assms(2) by simp_all
  have each: "length (cs ! i) = length (bits (es ! i) (vs ! i)) \<and> (agrees (cs ! i) (bits (es ! i) (vs ! i)) \<longrightarrow> holds (xs ! i) (vs ! i))"
    if "i < length es" for i
    using assms(4) [of "es ! i" "xs ! i" "css ! i" "vs ! i"] that len assms(1,2,3) cs(1)
    by (force simp: stands_for_def list_all2_conv_all_nth in_set_zip)
  have lens: "list_all2 (\<lambda>c bs. length c = length bs) cs ?bss" using len each by (simp add: list_all2_conv_all_nth)
  then have "map length cs = map length ?bss" by (simp add: list_all2_conv_all_nth list_eq_iff_nth_eq)
  then show "length c = length (bits (TyTuple es) (VTuple vs))" by (simp add: cs(2) length_concat)
  assume "agrees c (bits (TyTuple es) (VTuple vs))"
  then have "list_all2 agrees cs ?bss" using agrees_concat [OF lens] by (simp add: cs(2))
  then show "list_all (\<lambda>(w, x). holds x w) (zip vs xs)" using each len assms(2) by (auto simp: list_all_length list_all2_conv_all_nth)
qed

lemma expression_cubes_stand:
  "bool_tuple_expression_cubes e ty = Some cubes \<Longrightarrow> value_of_type A fuel v ty \<Longrightarrow> stands_for cubes ty v (literal_matches scalar e v)"
proof (induction e ty arbitrary: cubes v rule: bool_tuple_expression_cubes.induct)
  case (2 es ty)
  then obtain ts css vs where t: "ty = TyTuple ts" "length ts = length es" "v = VTuple vs" "list_all2 (value_of_type A fuel) vs ts"
    "collect (\<lambda>(t, e). bool_tuple_expression_cubes e t) (zip ts es) = Some css" "cubes = cube_product css"
    by (auto simp: value_of_tuple split: ast_type.splits if_splits)
  have "stands_for (cube_product css) (TyTuple ts) (VTuple vs) (list_all (\<lambda>(w, e). literal_matches scalar e w) (zip vs es))"
    using t 2(1) by (intro product_stands_for [where f = bool_tuple_expression_cubes]) (auto simp: collect_list_all2 case_prod_unfold)
  then show ?case using t by (auto dest: list_all2_lengthD)
qed (auto simp: stands_for_def value_of_bool agrees_def split: if_splits)

lemma pattern_cubes_stand:
  "bool_tuple_pattern_cubes p ty = Some cubes \<Longrightarrow> value_of_type A fuel v ty \<Longrightarrow> stands_for cubes ty v (matches scalar p v)"
proof (induction p ty arbitrary: cubes v rule: bool_tuple_pattern_cubes.induct)
  case (3 e ty)
  then show ?case by (simp add: expression_cubes_stand)
next
  case (4 ps ty)
  then obtain ts css vs where t: "ty = TyTuple ts" "length ps = length ts" "v = VTuple vs" "list_all2 (value_of_type A fuel) vs ts"
    "collect (\<lambda>(t, p). bool_tuple_pattern_cubes p t) (zip ts ps) = Some css" "cubes = cube_product css"
    by (auto simp: value_of_tuple split: ast_type.splits if_splits)
  have "stands_for (cube_product css) (TyTuple ts) (VTuple vs) (list_all (\<lambda>(w, p). matches scalar p w) (zip vs ps))"
    using t 4(1) by (intro product_stands_for [where f = bool_tuple_pattern_cubes]) (auto simp: collect_list_all2 case_prod_unfold)
  then show ?case using t by (auto dest: list_all2_lengthD)
next
  case (5 ps ty)
  then obtain css where css: "collect (\<lambda>p. bool_tuple_pattern_cubes p ty) ps = Some css" "cubes = concat css" by auto
  show ?case unfolding stands_for_def
  proof
    fix c assume "c \<in> set cubes"
    then obtain p cubes' where "p \<in> set ps" "bool_tuple_pattern_cubes p ty = Some cubes'" "c \<in> set cubes'"
      using css by (auto simp: collect_member [OF css(1)])
    then show "length c = length (bits ty v) \<and> (agrees c (bits ty v) \<longrightarrow> matches scalar (Or ps) v)"
      using 5(1) [of p cubes' v] 5(3) by (auto simp: stands_for_def list_ex_iff)
  qed
qed (auto simp: stands_for_def wildcard_cubes_def dimensions_bits)

lemma cubes_cover_all:
  assumes "bool_tuple_cubes_cover_all cubes d" "\<And>c. c \<in> set cubes \<Longrightarrow> length c = length bs"
    "\<And>c. c \<in> set cubes \<Longrightarrow> agrees (take d c) (take d bs)" "d \<le> length bs"
  shows "\<exists>c \<in> set cubes. agrees c bs"
  using assms
proof (induction cubes d rule: bool_tuple_cubes_cover_all.induct)
  case (1 cubes d)
  have "agrees (drop d c) (drop d bs)" if "c \<in> set cubes" "list_all (\<lambda>x. x = None) (drop d c)" for c
    using that 1(5) [OF that(1)] by (auto simp: agrees_def list_all2_conv_all_nth list_all_length)
  then have free: ?case if "c \<in> set cubes" "list_all (\<lambda>x. x = None) (drop d c)" for c
    using that 1(6) [OF that(1)] list_all2_appendI [of _ "take d c" "take d bs" "drop d c" "drop d bs"] unfolding agrees_def by fastforce
  have ne: "cubes \<noteq> []" using 1(4) by (subst (asm) bool_tuple_cubes_cover_all.simps) auto
  show ?case
  proof (cases "list_ex (\<lambda>c. list_all (\<lambda>x. x = None) (drop d c)) cubes \<or> d = length (hd cubes)")
    case True
    then show ?thesis
    proof
      assume "d = length (hd cubes)"
      then show ?thesis using free [of "hd cubes"] ne by simp
    qed (auto simp: list_ex_iff intro: free)
  next
    case False
    have d: "d < length bs" using False ne 1(5) [of "hd cubes"] 1(7) by (cases cubes) auto
    have step: "agrees (take (d + 1) c) (take (d + 1) bs)"
      if "c \<in> set cubes" "c ! d = None \<or> c ! d = Some (bs ! d)" for c
      using that 1(5,6) [OF that(1)] d by (simp add: agrees_def take_Suc_conv_app_nth list_all2_append)
    show ?thesis
    proof (cases "list_all (\<lambda>c. c ! d = None) cubes")
      case True
      have "bool_tuple_cubes_cover_all cubes (d + 1)"
        using 1(4) ne False True by (subst (asm) bool_tuple_cubes_cover_all.simps) simp
      then show ?thesis using 1(1) ne False True 1(5) step d by (simp add: list_all_iff)
    next
      case split: False
      have "bool_tuple_cubes_cover_all (splits_at d (bs ! d) cubes) (d + 1)"
        using 1(4) ne False split by (subst (asm) bool_tuple_cubes_cover_all.simps) (cases "bs ! d"; simp)
      moreover have "set (splits_at d (bs ! d) cubes) \<subseteq> set cubes" by (auto simp: splits_at_def)
      ultimately show ?thesis using 1(2,3) ne False split step 1(5) d by (cases "bs ! d") (force simp: splits_at_def)+
    qed
  qed
qed

lemma patterns_cubes_sound:
  assumes "collect (\<lambda>p. bool_tuple_pattern_cubes p ty) ps = Some css" "bool_tuple_cubes_cover_all (concat css) 0" "value_of_type A fuel v ty"
  shows "\<exists>p \<in> set ps. matches scalar p v"
proof -
  have stand: "length c = length (bits ty v) \<and> (agrees c (bits ty v) \<longrightarrow> (\<exists>p \<in> set ps. matches scalar p v))" if "c \<in> set (concat css)" for c
    using that assms(3) pattern_cubes_stand [of _ ty _ A fuel v scalar] by (fastforce simp: collect_member [OF assms(1)] stands_for_def)
  have "\<exists>c \<in> set (concat css). agrees c (bits ty v)"
    by (rule cubes_cover_all [OF assms(2)]) (use stand in \<open>auto simp: agrees_def\<close>)
  then show ?thesis using stand by blast
qed

section \<open>Covering a type\<close>

lemma all_m_True: "all_m f xs = Some True \<longleftrightarrow> (\<forall>x \<in> set xs. f x = Some True)"
  by (induction xs) (auto simp: bind_eq_Some_conv)

lemma any_m_True: "any_m f xs = Some True \<Longrightarrow> \<exists>x \<in> set xs. f x = Some True"
  by (induction xs) (auto simp: bind_eq_Some_conv split: if_splits)

lemma matches_alternatives: "matches scalar p v \<longleftrightarrow> (\<exists>q \<in> set (pattern_alternatives p). matches scalar q v)"
  by (induction p rule: pattern_alternatives.induct) (auto simp: list_ex_iff)

lemma fits_alternatives: "fits A fuel p ty \<longleftrightarrow> (\<forall>q \<in> set (pattern_alternatives p). fits A fuel q ty)"
  by (induction p rule: pattern_alternatives.induct) (auto simp: list_all_iff)

lemma map_filter_member: "y \<in> set (List.map_filter f xs) \<longleftrightarrow> (\<exists>x \<in> set xs. f x = Some y)"
  by (force simp: List.map_filter_def)

text \<open>The two kinds of values of an enum.\<close>

definition enum_value :: "analyzer \<Rightarrow> nat \<Rightarrow> (string, ast_type) hash_map \<Rightarrow> string \<Rightarrow> string \<Rightarrow> variant_info \<Rightarrow> sval \<Rightarrow> bool" where
  "enum_value A fuel subst en vn vi v \<longleftrightarrow>
     (\<exists>vs. v = VVariant en vn vs \<and> vi_struct_data vi = None \<and>
        list_all2 (\<lambda>ann w. \<exists>t. type_annotation_to_type_with_substitutions A fuel subst ann = Some t \<and> value_of_type A fuel w t)
          (payload_annotations vi) vs) \<or>
     (\<exists>fvs fs. v = VRecordVariant en vn fvs \<and> vi_data vi = None \<and> vi_struct_data vi = Some fs \<and>
        (\<forall>(f, ann) \<in> set fs. \<exists>w t. map_of fvs f = Some w \<and>
           type_annotation_to_type_with_substitutions A fuel subst ann = Some t \<and> value_of_type A fuel w t))"

lemma value_of_enum:
  assumes "value_of_type A fuel v ty" "specialized_struct_context_for_type A ty = None"
    "specialized_enum_context_for_type A ty = Some (en, info, subst)"
  shows "\<exists>vn vi. map_of (ei_variants info) vn = Some vi \<and> enum_value A fuel subst en vn vi v"
proof -
  have "(\<exists>n. ty = TyEnum n) \<or> (\<exists>n args. ty = TyApplied n args)"
    using assms(3) by (auto simp: specialized_enum_context_for_type_def split: ast_type.splits)
  then have u: "case v of
      VVariant en' vn vs \<Rightarrow> en' = en \<and> (case map_of (ei_variants info) vn of
          Some vi \<Rightarrow> vi_struct_data vi = None \<and> length (payload_annotations vi) = length vs \<and>
            list_all (\<lambda>(ann, w). case type_annotation_to_type_with_substitutions A fuel subst ann of
              Some t \<Rightarrow> value_of_type A fuel w t | None \<Rightarrow> False) (zip (payload_annotations vi) vs)
        | None \<Rightarrow> False)
    | VRecordVariant en' vn fvs \<Rightarrow> en' = en \<and> (case map_of (ei_variants info) vn of
          Some vi \<Rightarrow> vi_data vi = None \<and> (case vi_struct_data vi of
              Some fs \<Rightarrow> list_all (\<lambda>(f, ann). case map_of fvs f of
                  Some w \<Rightarrow> (case type_annotation_to_type_with_substitutions A fuel subst ann of
                    Some t \<Rightarrow> value_of_type A fuel w t | None \<Rightarrow> False)
                | None \<Rightarrow> False) fs
            | None \<Rightarrow> False)
        | None \<Rightarrow> False)
    | _ \<Rightarrow> False"
    using assms by (subst (asm) value_of_type.simps) (elim disjE exE; simp)
  show ?thesis
  proof (cases v)
    case (VVariant en' vn vs)
    with u show ?thesis unfolding enum_value_def
      by (auto simp: list_all2_conv_all_nth list_all_length split: option.splits)
  next
    case (VRecordVariant en' vn fvs)
    with u show ?thesis unfolding enum_value_def by (fastforce simp: list_all_iff split: option.splits)
  qed (use u in simp_all)
qed

definition payload_value :: "variant_info \<Rightarrow> sval \<Rightarrow> sval" where
  "payload_value vi v = (case v of
     VVariant _ _ vs \<Rightarrow> if length vs = 1 then hd vs else VTuple vs
   | VRecordVariant _ _ fvs \<Rightarrow> VTuple (map (\<lambda>(f, _). the (map_of fvs f)) (the (vi_struct_data vi)))
   | _ \<Rightarrow> v)"

lemma payload_typed:
  assumes "enum_value A fuel subst en vn vi v"
    "collect (type_annotation_to_type_with_substitutions A fuel subst) (payload_annotations vi) = Some types"
  shows "value_of_type A fuel (payload_value vi v) (payload_type vi types)"
  using assms(1) unfolding enum_value_def
proof (elim disjE exE conjE)
  fix vs assume v: "v = VVariant en vn vs" "vi_struct_data vi = None" and a: "list_all2 (\<lambda>ann w. \<exists>t.
    type_annotation_to_type_with_substitutions A fuel subst ann = Some t \<and> value_of_type A fuel w t) (payload_annotations vi) vs"
  have vs: "list_all2 (value_of_type A fuel) vs types"
    using a assms(2) unfolding collect_list_all2 by (fastforce simp: list_all2_conv_all_nth)
  show ?thesis
  proof (cases "\<exists>w. vs = [w]")
    case False
    then have "length vs \<noteq> 1" by (auto simp: length_Suc_conv)
    then show ?thesis using v vs list_all2_lengthD [OF vs] by (simp add: payload_value_def payload_type_def value_of_tuple)
  qed (use v vs in \<open>auto simp: payload_value_def payload_type_def list_all2_Cons1\<close>)
next
  fix fvs fs assume v: "v = VRecordVariant en vn fvs" "vi_data vi = None" "vi_struct_data vi = Some fs"
    and a: "\<forall>(f, ann) \<in> set fs. \<exists>w t. map_of fvs f = Some w \<and>
      type_annotation_to_type_with_substitutions A fuel subst ann = Some t \<and> value_of_type A fuel w t"
  have "list_all2 (value_of_type A fuel) (map (\<lambda>(f, _). the (map_of fvs f)) fs) types"
    using a assms(2) v unfolding collect_list_all2 payload_annotations_def
    by (fastforce simp: list_all2_conv_all_nth case_prod_unfold all_set_conv_all_nth)
  then show ?thesis using v by (simp add: payload_value_def payload_type_def value_of_tuple)
qed

text \<open>Patterns by field name, as the tuple of the patterns in the order of some names.\<close>

lemma named_fits:
  assumes "list_all (\<lambda>(f, p). case tof f of Some t \<Rightarrow> fits A fuel p t | None \<Rightarrow> False) named" "list_all2 (\<lambda>f t. tof f = Some t) names types"
  shows "fits A fuel (TuplePattern (map (field_pattern named) names)) (TyTuple types)"
proof -
  have "fits A fuel (field_pattern named (names ! i)) (types ! i)" if "i < length names" for i
    using assms that by (fastforce simp: field_pattern_def list_all_iff list_all2_conv_all_nth dest: map_of_SomeD split: option.splits)
  then show ?thesis using list_all2_lengthD [OF assms(2)] by (simp add: list_all_length)
qed

lemma named_matches:
  assumes "distinct (map fst named)" "\<And>f p. (f, p) \<in> set named \<Longrightarrow> f \<in> set names" "\<And>f. f \<in> set names \<Longrightarrow> map_of fvs f \<noteq> None"
    and "matches scalar (TuplePattern (map (field_pattern named) names)) (VTuple (map (\<lambda>f. the (map_of fvs f)) names))"
  shows "list_all (\<lambda>(f, p). case map_of fvs f of Some w \<Rightarrow> matches scalar p w | None \<Rightarrow> False) named"
proof -
  have "matches scalar (field_pattern named f) (the (map_of fvs f))" if "f \<in> set names" for f
    using assms(4) that by (auto simp: list_all_iff zip_map_map zip_same_conv_map)
  then show ?thesis using assms(1-3) by (fastforce simp: list_all_iff field_pattern_def split: option.splits)
qed

lemma payload_fits:
  assumes "fits A fuel (EnumVariant m en as vn data named) ty" "specialized_enum_context_for_type A ty = Some (en', info, subst)"
    "map_of (ei_variants info) vn = Some vi" "payload_pattern vi data named = Some pp"
    "collect (type_annotation_to_type_with_substitutions A fuel subst) (payload_annotations vi) = Some types"
  shows "fits A fuel pp (payload_type vi types)"
proof (cases "vi_data vi")
  case (Some anns)
  with assms obtain ps where ps: "data = Some ps" "vi_struct_data vi = None" "length ps = length anns"
    "list_all (\<lambda>(ann, p). case type_annotation_to_type_with_substitutions A fuel subst ann of
       Some t \<Rightarrow> fits A fuel p t | None \<Rightarrow> False) (zip anns ps)"
    by (auto split: option.splits)
  have types: "list_all2 (\<lambda>ann t. type_annotation_to_type_with_substitutions A fuel subst ann = Some t) anns types"
    using assms(5) Some by (simp add: payload_annotations_def collect_list_all2)
  have each: "fits A fuel (ps ! i) (types ! i)" if "i < length ps" for i
    using ps(3,4) types that by (auto simp: list_all_length list_all2_conv_all_nth split: option.splits)
  have len: "length types = length ps" using list_all2_lengthD [OF types] ps(3) by simp
  show ?thesis
  proof (cases "length ps = 1")
    case True
    then show ?thesis using assms(4) Some ps each [of 0] len
      by (auto simp: payload_pattern_def payload_type_def hd_conv_nth length_Suc_conv)
  next
    case False
    then show ?thesis using assms(4) Some ps each len
      by (auto simp: payload_pattern_def payload_type_def list_all_length)
  qed
next
  case None
  show ?thesis
  proof (cases "vi_struct_data vi")
    case fs: (Some fs)
    with None assms obtain nps where nps: "named = Some nps" "distinct (map fst fs)"
      "list_all (\<lambda>(f, p). case Option.bind (map_of fs f) (type_annotation_to_type_with_substitutions A fuel subst) of
         Some t \<Rightarrow> fits A fuel p t | None \<Rightarrow> False) nps" "pp = TuplePattern (map (field_pattern nps) (map fst fs))"
      by (auto simp: payload_pattern_def case_prod_unfold comp_def split: option.splits)
    have "list_all2 (\<lambda>f t. Option.bind (map_of fs f) (type_annotation_to_type_with_substitutions A fuel subst) = Some t) (map fst fs) types"
      using assms(5) None fs nps(2) by (simp add: payload_annotations_def collect_list_all2 list_all2_conv_all_nth)
        (metis bind.bind_lunit map_of_eq_Some_iff nth_mem prod.collapse)
    from named_fits [OF nps(3) this] show ?thesis using fs nps(4) by (simp add: payload_type_def)
  qed (use None assms in \<open>auto simp: payload_pattern_def\<close>)
qed

lemma payload_matches:
  assumes "enum_value A fuel subst en vn vi v" "fits A fuel (EnumVariant m en as vn data named) ty"
    "specialized_enum_context_for_type A ty = Some (en, info, subst)" "map_of (ei_variants info) vn = Some vi"
    "payload_pattern vi data named = Some pp" "matches scalar pp (payload_value vi v)"
  shows "matches scalar (EnumVariant m en as vn data named) v"
  using assms(1) unfolding enum_value_def
proof (elim disjE exE conjE)
  fix vs assume v: "v = VVariant en vn vs" "vi_struct_data vi = None" and a: "list_all2 (\<lambda>ann w. \<exists>t.
    type_annotation_to_type_with_substitutions A fuel subst ann = Some t \<and> value_of_type A fuel w t) (payload_annotations vi) vs"
  show ?thesis
  proof (cases "vi_data vi")
    case (Some anns)
    then obtain ps where "data = Some ps" "length ps = length anns" using assms(2-5) by (auto split: option.splits)
    then show ?thesis using v Some list_all2_lengthD [OF a] assms(5,6)
      by (auto simp: payload_pattern_def payload_value_def payload_annotations_def length_Suc_conv split: if_splits)
  next
    case None
    then have "vs = []" using list_all2_lengthD [OF a] v by (simp add: payload_annotations_def)
    then show ?thesis using None v assms(2-4) by (auto split: option.splits)
  qed
next
  fix fvs fs assume v: "v = VRecordVariant en vn fvs" "vi_data vi = None" "vi_struct_data vi = Some fs"
    and a: "\<forall>(f, ann) \<in> set fs. \<exists>w t. map_of fvs f = Some w \<and>
      type_annotation_to_type_with_substitutions A fuel subst ann = Some t \<and> value_of_type A fuel w t"
  obtain nps where nps: "named = Some nps" "distinct (map fst nps)" "list_all (\<lambda>(f, p).
      case Option.bind (map_of fs f) (type_annotation_to_type_with_substitutions A fuel subst) of Some t \<Rightarrow> fits A fuel p t | None \<Rightarrow> False) nps"
    "pp = TuplePattern (map (field_pattern nps) (map fst fs))"
    using assms(2-5) v by (auto simp: payload_pattern_def case_prod_unfold comp_def split: option.splits)
  have "list_all (\<lambda>(f, p). case map_of fvs f of Some w \<Rightarrow> matches scalar p w | None \<Rightarrow> False) nps"
  proof (rule named_matches [OF nps(2), of "map fst fs"])
    show "f \<in> set (map fst fs)" if "(f, p) \<in> set nps" for f p
      using that nps(3) by (fastforce simp: list_all_iff bind_eq_None_conv map_of_eq_None_iff split: option.splits)
    show "map_of fvs f \<noteq> None" if "f \<in> set (map fst fs)" for f using that a by fastforce
  qed (use assms(6) nps(4) v in \<open>simp add: payload_value_def case_prod_unfold comp_def\<close>)
  then show ?thesis using v nps(1) by simp
qed

lemma value_of_struct:
  assumes "value_of_type A fuel v ty" "specialized_struct_context_for_type A ty = Some (n, info, subst)"
  shows "\<exists>fvs. v = VStruct n fvs \<and> (\<forall>f \<in> set (map fst (si_fields info)). \<exists>w t. map_of fvs f = Some w \<and>
    field_type A fuel subst info f = Some t \<and> value_of_type A fuel w t)"
proof -
  have "(\<exists>n. ty = TyStruct n) \<or> (\<exists>n args. ty = TyApplied n args)"
    using assms(2) by (auto simp: specialized_struct_context_for_type_def split: ast_type.splits)
  then have "case v of
      VStruct n' fvs \<Rightarrow> n' = n \<and> list_all (\<lambda>f. case map_of fvs f of
          Some w \<Rightarrow> (case field_type A fuel subst info f of Some t \<Rightarrow> value_of_type A fuel w t | None \<Rightarrow> False)
        | None \<Rightarrow> False) (map fst (si_fields info))
    | _ \<Rightarrow> False"
    using assms by (subst (asm) value_of_type.simps) (elim disjE exE; simp)
  then show ?thesis by (cases v) (fastforce simp: list_all_iff split: option.splits)+
qed

lemma field_type_declared: "field_type A fuel subst info f = Some t \<Longrightarrow> f \<in> set (map fst (si_fields info))"
  by (force simp: field_type_def bind_eq_Some_conv dest: map_of_SomeD)

text \<open>The ways in which patterns cover a type.\<close>

lemma cover_cases:
  assumes "patterns_cover_type A fuel ps ty depth = Some True"
  obtains (bound) "list_ex is_binding (concat (map pattern_alternatives ps))"
    | (cubes) "patterns_cubes_cover (concat (map pattern_alternatives ps)) ty"
    | (struct) n info subst types where "depth \<le> 64" "specialized_struct_context_for_type A ty = Some (n, info, subst)"
      "collect (field_type A fuel subst info) (sort (map fst (si_fields info))) = Some types"
      "patterns_cover_type A fuel (List.map_filter (struct_tuple n (sort (map fst (si_fields info)))) (concat (map pattern_alternatives ps)))
        (TyTuple types) (depth + 1) = Some True"
    | (enum) en info subst where "depth \<le> 64" "specialized_struct_context_for_type A ty = None"
      "specialized_enum_context_for_type A ty = Some (en, info, subst)"
      "\<And>vn vi. (vn, vi) \<in> set (ei_variants info) \<Longrightarrow>
        let payloads = List.map_filter (variant_payload en vn vi) (concat (map pattern_alternatives ps))
        in payloads \<noteq> [] \<and> (vi_data vi = None \<and> vi_struct_data vi = None \<or> (\<exists>types.
          collect (type_annotation_to_type_with_substitutions A fuel subst) (payload_annotations vi) = Some types \<and>
          patterns_cover_type A fuel payloads (payload_type vi types) (depth + 1) = Some True))"
    | (tuple) es parts where "depth \<le> 64" "ty = TyTuple es" "TuplePattern parts \<in> set (concat (map pattern_alternatives ps))"
      "length parts = length es" "\<And>t p. (t, p) \<in> set (zip es parts) \<Longrightarrow> patterns_cover_type A fuel [p] t (depth + 1) = Some True"
proof -
  define alts where "alts = concat (map pattern_alternatives ps)"
  note u = assms [unfolded patterns_cover_type.simps [of A fuel ps] Let_def alts_def [symmetric]]
  show thesis
  proof (cases "list_ex is_binding alts \<or> patterns_cubes_cover alts ty")
    case True
    then show thesis using bound cubes by (auto simp: alts_def)
  next
    case False
    then have d: "depth \<le> 64" "ty \<noteq> TyBool" using u by (auto split: if_splits)
    show thesis
    proof (cases "is_nominal ty")
      case True
      show thesis
      proof (cases "specialized_struct_context_for_type A ty")
        case (Some ctx)
        then show thesis using u d True False by (cases ctx) (auto simp: bind_eq_Some_conv alts_def intro!: struct)
      next
        case None
        then obtain en info subst where e: "specialized_enum_context_for_type A ty = Some (en, info, subst)"
          using u d True False by (auto split: option.splits)
        have "let payloads = List.map_filter (variant_payload en vn vi) alts
          in payloads \<noteq> [] \<and> (vi_data vi = None \<and> vi_struct_data vi = None \<or> (\<exists>types.
            collect (type_annotation_to_type_with_substitutions A fuel subst) (payload_annotations vi) = Some types \<and>
            patterns_cover_type A fuel payloads (payload_type vi types) (depth + 1) = Some True))"
          if "(vn, vi) \<in> set (ei_variants info)" for vn vi
          using u d True False None e that by (fastforce simp: all_m_True bind_eq_Some_conv split: if_splits)
        then show thesis using enum d(1) None e unfolding alts_def by blast
      qed
    next
      case nominal: False
      then obtain es where es: "ty = TyTuple es" using u d False by (auto split: ast_type.splits)
      then obtain parts where "TuplePattern parts \<in> set alts" "length parts = length es"
        "\<forall>(t, p) \<in> set (zip es parts). patterns_cover_type A fuel [p] t (depth + 1) = Some True"
        using u d False nominal by (auto split: if_splits pattern.splits dest!: any_m_True simp: all_m_True case_prod_unfold)
      then show thesis using tuple d(1) es unfolding alts_def by blast
    qed
  qed
qed

lemma binding_matches: "is_binding q \<Longrightarrow> matches scalar q v"
  by (cases q) (simp_all add: is_binding_def)

lemma struct_tuple_fits:
  assumes "struct_tuple n names q = Some p" "fits A fuel q ty" "specialized_struct_context_for_type A ty = Some (n, info, subst)"
    "list_all2 (\<lambda>f t. field_type A fuel subst info f = Some t) names types"
  shows "fits A fuel p (TyTuple types)"
proof -
  obtain named where q: "q = StructPattern n named" "p = TuplePattern (map (field_pattern named) names)"
    using assms(1) by (auto simp: struct_tuple_def split: pattern.splits if_splits)
  show ?thesis unfolding q(2) by (rule named_fits [OF _ assms(4)]) (use assms(2,3) q(1) in simp)
qed

lemma struct_tuple_matches:
  assumes "struct_tuple n names q = Some p" "fits A fuel q ty" "specialized_struct_context_for_type A ty = Some (n, info, subst)"
    "matches scalar p (VTuple (map (\<lambda>f. the (map_of fvs f)) names))" "set names = set (map fst (si_fields info))"
    "\<And>f. f \<in> set names \<Longrightarrow> map_of fvs f \<noteq> None"
  shows "matches scalar q (VStruct n fvs)"
proof -
  obtain named where q: "q = StructPattern n named" "p = TuplePattern (map (field_pattern named) names)"
    using assms(1) by (auto simp: struct_tuple_def split: pattern.splits if_splits)
  have "list_all (\<lambda>(f, p). case map_of fvs f of Some w \<Rightarrow> matches scalar p w | None \<Rightarrow> False) named"
  proof (rule named_matches [OF _ _ assms(6) assms(4) [unfolded q(2)]])
    show "distinct (map fst named)" using assms(2,3) q(1) by simp
    show "f \<in> set names" if "(f, p) \<in> set named" for f p
      using assms(2,3,5) q(1) that field_type_declared [of A fuel subst info f] by (fastforce simp: list_all_iff split: option.splits)
  qed
  then show ?thesis using q(1) by simp
qed

lemma variant_payload_Some:
  "variant_payload en vn vi q = Some p \<longleftrightarrow> (\<exists>m as data named. q = EnumVariant m en as vn data named \<and> payload_pattern vi data named = Some p)"
  by (auto simp: variant_payload_def split: pattern.splits)

lemma sorted_fields: "set (sort (map fst (si_fields info))) = set (map fst (si_fields info))"
  by simp

lemma payloads_sound:
  assumes "map_of (ei_variants info) vn = Some vi" "enum_value A fuel subst en vn vi v" "specialized_enum_context_for_type A ty = Some (en, info, subst)"
    "\<And>q. q \<in> set alts \<Longrightarrow> fits A fuel q ty" "p \<in> set (List.map_filter (variant_payload en vn vi) alts)" "matches scalar p (payload_value vi v)"
  shows "\<exists>q \<in> set alts. matches scalar q v"
proof -
  obtain m as data named where q: "EnumVariant m en as vn data named \<in> set alts" "payload_pattern vi data named = Some p"
    using assms(5) by (auto simp: map_filter_member variant_payload_Some)
  show ?thesis using payload_matches [OF assms(2) assms(4) [OF q(1)] assms(3,1) q(2) assms(6)] q(1) by blast
qed

lemma payloads_fit:
  assumes "map_of (ei_variants info) vn = Some vi" "specialized_enum_context_for_type A ty = Some (en, info, subst)"
    "collect (type_annotation_to_type_with_substitutions A fuel subst) (payload_annotations vi) = Some types"
    "\<And>q. q \<in> set alts \<Longrightarrow> fits A fuel q ty" "p \<in> set (List.map_filter (variant_payload en vn vi) alts)"
  shows "fits A fuel p (payload_type vi types)"
proof -
  obtain m as data named where q: "EnumVariant m en as vn data named \<in> set alts" "payload_pattern vi data named = Some p"
    using assms(5) by (auto simp: map_filter_member variant_payload_Some)
  show ?thesis by (rule payload_fits [OF assms(4) [OF q(1)] assms(2,1) q(2) assms(3)])
qed

lemma cover_sound:
  assumes "patterns_cover_type A fuel ps ty depth = Some True" "\<And>p. p \<in> set ps \<Longrightarrow> fits A fuel p ty" "value_of_type A fuel v ty"
  shows "\<exists>p \<in> set ps. matches scalar p v"
  using assms
proof (induction "65 - depth" arbitrary: ps ty depth v rule: less_induct)
  case less
  define alts where "alts = concat (map pattern_alternatives ps)"
  have fit: "fits A fuel q ty" if "q \<in> set alts" for q
    using that less(3) fits_alternatives [THEN iffD1, rule_format, of A fuel _ ty q] by (auto simp: alts_def)
  have closer: "65 - (depth + 1) < 65 - depth" if "depth \<le> 64" using that by simp
  have goal: ?case if "\<exists>q \<in> set alts. matches scalar q v"
    using that matches_alternatives [THEN iffD2, of _ scalar v] unfolding alts_def by fastforce
  show ?case
  proof (cases rule: cover_cases [OF less(2), folded alts_def, case_names bound cubes struct enum tuple])
    case bound
    then show ?thesis by (intro goal) (auto simp: list_ex_iff intro: binding_matches)
  next
    case cubes
    then show ?thesis using less(4)
      by (intro goal) (auto simp: patterns_cubes_cover_def intro: patterns_cubes_sound split: option.splits)
  next
    case (struct n info subst types)
    obtain fvs where fvs: "v = VStruct n fvs" "\<And>f. f \<in> set (map fst (si_fields info)) \<Longrightarrow> \<exists>w t. map_of fvs f = Some w \<and>
      field_type A fuel subst info f = Some t \<and> value_of_type A fuel w t"
      using value_of_struct [OF less(4) struct(2)] by auto
    define names where "names = sort (map fst (si_fields info))"
    have names: "set names = set (map fst (si_fields info))" by (simp add: names_def)
    have types: "list_all2 (\<lambda>f t. field_type A fuel subst info f = Some t) names types"
      using struct(3) by (simp add: collect_list_all2 names_def)
    have present: "map_of fvs f \<noteq> None" if "f \<in> set names" for f using fvs(2) that names by fastforce
    have "value_of_type A fuel (the (map_of fvs (names ! i))) (types ! i)" if "i < length names" for i
      using fvs(2) [folded names, OF nth_mem [OF that]] list_all2_nthD [OF types that] by auto
    then have "list_all2 (value_of_type A fuel) (map (\<lambda>f. the (map_of fvs f)) names) types"
      using list_all2_lengthD [OF types] by (simp add: list_all2_conv_all_nth)
    moreover have "fits A fuel p (TyTuple types)" if "p \<in> set (List.map_filter (struct_tuple n names) alts)" for p
      using that fit struct_tuple_fits [OF _ _ struct(2) types] by (auto simp: map_filter_member)
    ultimately obtain p where p: "p \<in> set (List.map_filter (struct_tuple n names) alts)"
      "matches scalar p (VTuple (map (\<lambda>f. the (map_of fvs f)) names))"
      using less(1) [OF closer [OF struct(1)] struct(4) [folded names_def], of "VTuple (map (\<lambda>f. the (map_of fvs f)) names)"]
      by (auto simp: value_of_tuple)
    then obtain q where q: "q \<in> set alts" "struct_tuple n names q = Some p" by (auto simp: map_filter_member)
    have "matches scalar q v" unfolding fvs(1) by (rule struct_tuple_matches [OF q(2) fit [OF q(1)] struct(2) p(2) names present])
    then show ?thesis using q(1) by (intro goal) blast
  next
    case (enum en info subst)
    obtain vn vi where vi: "map_of (ei_variants info) vn = Some vi" "enum_value A fuel subst en vn vi v"
      using value_of_enum [OF less(4) enum(2,3)] by blast
    note e = enum(4) [OF map_of_SomeD [OF vi(1)], unfolded Let_def]
    have "\<exists>p \<in> set (List.map_filter (variant_payload en vn vi) alts). matches scalar p (payload_value vi v)"
    proof (cases "vi_data vi = None \<and> vi_struct_data vi = None")
      case True
      moreover obtain p where "p \<in> set (List.map_filter (variant_payload en vn vi) alts)" using e by (metis list.set_intros(1) neq_Nil_conv)
      ultimately show ?thesis by (auto simp: map_filter_member variant_payload_Some payload_pattern_def intro!: bexI [of _ p])
    next
      case False
      then obtain types where types: "collect (type_annotation_to_type_with_substitutions A fuel subst) (payload_annotations vi) = Some types"
        "patterns_cover_type A fuel (List.map_filter (variant_payload en vn vi) alts) (payload_type vi types) (depth + 1) = Some True"
        using e by auto
      show ?thesis using less(1) [OF _ types(2)] enum(1) payload_typed [OF vi(2) types(1)] payloads_fit [OF vi(1) enum(3) types(1) fit] by simp
    qed
    then show ?thesis using payloads_sound [OF vi enum(3) fit] by (intro goal) blast
  next
    case (tuple es parts)
    obtain vs where vs: "v = VTuple vs" "list_all2 (value_of_type A fuel) vs es" using less(4) tuple(2) by (auto simp: value_of_tuple)
    have "matches scalar (parts ! i) (vs ! i)" if "i < length es" for i
      using less(1) [of "depth + 1" "[parts ! i]" "es ! i" "vs ! i"] tuple fit [OF tuple(3)] vs that
      by (fastforce simp: list_all2_conv_all_nth list_all_length in_set_zip)
    then have "matches scalar (TuplePattern parts) v" using vs tuple(4) by (auto simp: list_all_length list_all2_conv_all_nth)
    then show ?thesis using tuple(3) by (intro goal) blast
  qed
qed

section \<open>The check\<close>

lemma catch_all_matches:
  "pattern_is_catch_all p \<Longrightarrow> fits A fuel p ty \<Longrightarrow> value_of_type A fuel v ty \<Longrightarrow> matches scalar p v"
proof (induction p arbitrary: ty v rule: pattern_is_catch_all.induct)
  case (3 ps)
  obtain es where es: "ty = TyTuple es" "length ps = length es" "list_all (\<lambda>(t, p). fits A fuel p t) (zip es ps)"
    using 3(3) by (auto split: ast_type.splits)
  obtain vs where vs: "v = VTuple vs" "list_all2 (value_of_type A fuel) vs es" using 3(4) es(1) by (auto simp: value_of_tuple)
  have "matches scalar (ps ! i) (vs ! i)" if "i < length ps" for i
    using 3(1) [of "ps ! i" "es ! i" "vs ! i"] 3(2) es vs(2) that by (simp add: list_all_length list_all2_conv_all_nth)
  then show ?case using vs es(2) list_all2_lengthD [OF vs(2)] by (simp add: list_all_length)
next
  case (4 n named)
  obtain info subst where ctx: "specialized_struct_context_for_type A ty = Some (n, info, subst)"
    using 4(3) by (auto split: option.splits)
  obtain fvs where fvs: "v = VStruct n fvs" "\<And>f. f \<in> set (map fst (si_fields info)) \<Longrightarrow> \<exists>w t. map_of fvs f = Some w \<and>
    field_type A fuel subst info f = Some t \<and> value_of_type A fuel w t"
    using value_of_struct [OF 4(4) ctx] by auto
  have "\<exists>w. map_of fvs f = Some w \<and> matches scalar p w" if p: "(f, p) \<in> set named" for f p
  proof -
    obtain t where t: "field_type A fuel subst info f = Some t" "fits A fuel p t"
      using 4(3) ctx p by (auto simp: list_all_iff split: option.splits)
    obtain w where "map_of fvs f = Some w" "value_of_type A fuel w t" using fvs(2) [OF field_type_declared [OF t(1)]] t(1) by auto
    then show ?thesis using 4(1) [OF p refl _ t(2)] 4(2) p by (auto simp: list_all_iff)
  qed
  then show ?case using fvs(1) by (fastforce simp: list_all_iff)
qed (fastforce simp: list_ex_iff list_all_iff)+

lemma bool_literal_matches: "pattern_contains_bool_literal b p \<Longrightarrow> matches scalar p (VBool b)"
  by (induction b p rule: pattern_contains_bool_literal.induct) (auto simp: list_ex_iff)

lemma visited_patterns: "q \<in> set (visit_enum_patterns p) \<Longrightarrow> q \<in> set (pattern_alternatives p)"
  by (induction p rule: visit_enum_patterns.induct) auto

lemma applied_struct_or_enum:
  assumes "kinds_disjoint A" "specialized_enum_context_for_type A ty = Some ctx"
  shows "specialized_struct_context_for_type A ty = None"
proof (cases ty)
  case (TyApplied name args)
  then have "map_of (generic_enums A) name \<noteq> None"
    using assms(2) by (auto simp: specialized_enum_context_for_type_def applied_context_def bind_eq_Some_conv)
  then have "map_of (generic_structs A) name = None"
    using assms(1) by (cases "map_of (generic_structs A) name") (fastforce simp: kinds_disjoint_def declared_def list_all_iff dest: map_of_SomeD)+
  then show ?thesis by (simp add: TyApplied specialized_struct_context_for_type_def applied_context_def)
qed (use assms(2) in \<open>simp_all add: specialized_enum_context_for_type_def specialized_struct_context_for_type_def\<close>)

lemma variant_name_in_Some: "variant_name_in en q = Some vn \<longleftrightarrow> (\<exists>m as data named. q = EnumVariant m en as vn data named)"
  by (auto simp: variant_name_in_def split: pattern.splits)

lemma bare_variant_matches:
  assumes "enum_value A fuel subst en vn vi v" "\<not> has_payload vi" "fits A fuel (EnumVariant m en as vn data named) ty"
    "specialized_enum_context_for_type A ty = Some (en, info, subst)" "map_of (ei_variants info) vn = Some vi"
  shows "matches scalar (EnumVariant m en as vn data named) v"
  using assms unfolding enum_value_def has_payload_def
  by (auto simp: payload_annotations_def list_all_iff split: option.splits)

lemma enum_match_sound:
  assumes "check_enum_match A fuel ty arms = Some None" "kinds_disjoint A" "\<And>p. p \<in> set (unguarded arms) \<Longrightarrow> fits A fuel p ty"
    "value_of_type A fuel v ty"
  shows "\<exists>p \<in> set (unguarded arms). matches scalar p v"
proof -
  obtain en info subst where ctx: "specialized_enum_context_for_type A ty = Some (en, info, subst)"
    using assms(1) by (auto simp: check_enum_match_def split: option.splits)
  define qs where "qs = concat (map visit_enum_patterns (unguarded arms))"
  have fit: "fits A fuel q ty" if "q \<in> set qs" for q
    using that assms(3) fits_alternatives [THEN iffD1, rule_format, of A fuel _ ty q] by (auto simp: qs_def dest: visited_patterns)
  have goal: ?thesis if "\<exists>q \<in> set qs. matches scalar q v"
    using that matches_alternatives [THEN iffD2, of _ scalar v] visited_patterns unfolding qs_def by fastforce
  obtain vn vi where vi: "map_of (ei_variants info) vn = Some vi" "enum_value A fuel subst en vn vi v"
    using value_of_enum [OF assms(4) applied_struct_or_enum [OF assms(2) ctx] ctx] by blast
  obtain covered where c: "collect (payload_covered A fuel subst en qs) (ei_variants info) = Some covered"
    "filter (\<lambda>(variant, ok). \<not> ok) (zip (map fst (ei_variants info)) covered) = []"
    "filter (\<lambda>variant. variant \<notin> set (List.map_filter (variant_name_in en) qs)) (map fst (ei_variants info)) = []"
    using assms(1) ctx by (auto simp: check_enum_match_def qs_def Let_def split: if_splits)
  have "payload_covered A fuel subst en qs (vn, vi) = Some True"
  proof -
    obtain i where i: "i < length (ei_variants info)" "ei_variants info ! i = (vn, vi)"
      using map_of_SomeD [OF vi(1)] by (auto simp: in_set_conv_nth)
    have l: "list_all2 (\<lambda>x y. payload_covered A fuel subst en qs x = Some y) (ei_variants info) covered"
      using c(1) by (simp add: collect_list_all2)
    then have "covered ! i" using c(2) i(1) list_all2_lengthD [OF l] by (fastforce simp: filter_empty_conv in_set_zip)
    then show ?thesis using list_all2_nthD [OF l i(1)] i(2) by simp
  qed
  moreover have "vn \<in> set (List.map_filter (variant_name_in en) qs)"
    using c(3) map_of_SomeD [OF vi(1)] by (force simp: filter_empty_conv)
  then obtain m as data named where q: "EnumVariant m en as vn data named \<in> set qs"
    by (auto simp: map_filter_member variant_name_in_Some)
  ultimately show ?thesis
  proof (cases "has_payload vi")
    case True
    then obtain types where types: "collect (type_annotation_to_type_with_substitutions A fuel subst) (payload_annotations vi) = Some types"
      "patterns_cover_type A fuel (List.map_filter (variant_payload en vn vi) qs) (payload_type vi types) 0 = Some True"
      using \<open>payload_covered A fuel subst en qs (vn, vi) = Some True\<close> by (auto simp: payload_covered_def bind_eq_Some_conv)
    obtain p where "p \<in> set (List.map_filter (variant_payload en vn vi) qs)" "matches scalar p (payload_value vi v)"
      using cover_sound [OF types(2) _ payload_typed [OF vi(2) types(1)]] payloads_fit [OF vi(1) ctx types(1) fit] by blast
    then show ?thesis using payloads_sound [OF vi ctx fit] by (intro goal) blast
  next
    case False
    then show ?thesis using bare_variant_matches [OF vi(2) False fit [OF q] ctx vi(1)] q by (intro goal) blast
  qed
qed

lemma match_sound:
  assumes "check_match_exhaustiveness A fuel ty arms = Some None" "kinds_disjoint A" "\<And>p. p \<in> set (unguarded arms) \<Longrightarrow> fits A fuel p ty"
    "value_of_type A fuel v ty"
  shows "\<exists>p \<in> set (unguarded arms). matches scalar p v"
proof (cases "list_ex pattern_is_catch_all (unguarded arms)")
  case True
  then show ?thesis using assms(3,4) catch_all_matches by (fastforce simp: list_ex_iff)
next
  case False
  note c = assms(1) [unfolded check_match_exhaustiveness_def if_not_P [OF False]]
  show ?thesis
  proof (cases ty)
    case TyBool
    then obtain b where b: "v = VBool b" using assms(4) by (auto simp: value_of_bool)
    have "list_ex (pattern_contains_bool_literal b) (unguarded arms)" using c TyBool by (cases b) (auto split: if_splits)
    then show ?thesis using b bool_literal_matches by (auto simp: list_ex_iff)
  next
    case (TyTuple es)
    with c assms(4) show ?thesis
      by (auto simp: check_tuple_match_def intro: patterns_cubes_sound split: option.splits if_splits)
  qed (use c enum_match_sound [OF _ assms(2-4)] in simp_all)
qed

text \<open>C9: A match the check accepts is exhaustive. For every value of the type of its scrutinee, an arm without a guard has a pattern
  that matches it, bare variant names read as variants; so the generated match never falls through. The patterns have the
  arities and names that the validation of patterns asks for, and no name is both a generic struct and a generic enum.\<close>

theorem accepted_match_exhaustive:
  assumes "check_match A fuel ty arms = Some None" "kinds_disjoint A"
    and "list_all (\<lambda>p. fits A fuel p ty) (unguarded (normalize_arms A ty arms))" "value_of_type A fuel v ty"
  shows "\<exists>arm \<in> set arms. \<not> arm_guarded arm \<and> matches scalar (normalize_bare_enum_pattern A ty (arm_pattern arm)) v"
proof -
  have "\<exists>p \<in> set (unguarded (normalize_arms A ty arms)). matches scalar p v"
    using assms by (intro match_sound) (auto simp: check_match_def list_all_iff)
  then show ?thesis by (auto simp: unguarded_def normalize_arms_def)
qed

text \<open>The declarations of the witness: a generic option, an enum whose variants carry booleans and a point, and a match on it.\<close>

definition sample_analyzer :: analyzer where
  "sample_analyzer = \<lparr>
     struct_infos = [(''Point'', \<lparr>si_fields = [(''y'', Simple [''int'']), (''on'', Simple [''bool''])]\<rparr>)],
     enum_infos = [(''Option'', \<lparr>ei_variants = [(''None'', \<lparr>vi_data = None, vi_struct_data = None\<rparr>),
         (''Some'', \<lparr>vi_data = Some [Simple [''T'']], vi_struct_data = None\<rparr>)]\<rparr>),
       (''Shape'', \<lparr>ei_variants = [(''Empty'', \<lparr>vi_data = None, vi_struct_data = None\<rparr>),
         (''Dot'', \<lparr>vi_data = Some [Simple [''Point'']], vi_struct_data = None\<rparr>),
         (''Line'', \<lparr>vi_data = None, vi_struct_data = Some [(''solid'', Simple [''bool'']), (''tag'', Simple [''Flag''])]\<rparr>)]\<rparr>)],
     generic_structs = [], generic_enums = [(''Option'', [''T''])],
     type_aliases = [(''Flag'', Generic ''Option'' [Simple [''bool'']])], generic_params = []\<rparr>"

definition shape_pattern :: "string \<Rightarrow> pattern list option \<Rightarrow> (string \<times> pattern) list option \<Rightarrow> pattern" where
  "shape_pattern variant data named = EnumVariant None ''Shape'' [] variant data named"

definition sample_arms :: "match_arm list" where
  "sample_arms = map (\<lambda>p. \<lparr>arm_pattern = p, arm_guarded = False\<rparr>)
     [Identifier ''Empty'', shape_pattern ''Dot'' (Some [StructPattern ''Point'' [(''on'', Literal (BoolLiteral True))]]) None,
      shape_pattern ''Dot'' (Some [StructPattern ''Point'' [(''on'', Literal (BoolLiteral False))]]) None,
      shape_pattern ''Line'' None (Some [(''solid'', Wildcard), (''tag'', Identifier ''t'')])]"

definition sample_value :: sval where
  "sample_value = VVariant ''Shape'' ''Dot'' [VStruct ''Point'' [(''on'', VBool False), (''y'', VScalar 3)]]"

theorem accepted_match_exhaustive_witness:
  "\<exists>arm \<in> set sample_arms. \<not> arm_guarded arm \<and>
     matches (\<lambda>e v. False) (normalize_bare_enum_pattern sample_analyzer (TyEnum ''Shape'') (arm_pattern arm)) sample_value"
proof -
  have "check_match sample_analyzer 1 (TyEnum ''Shape'') sample_arms = Some None" "kinds_disjoint sample_analyzer"
    "list_all (\<lambda>p. fits sample_analyzer 1 p (TyEnum ''Shape'')) (unguarded (normalize_arms sample_analyzer (TyEnum ''Shape'') sample_arms))"
    "value_of_type sample_analyzer 1 sample_value (TyEnum ''Shape'')" by code_simp+
  then show ?thesis by (rule accepted_match_exhaustive)
qed

end
