(* ===== verification/Exhaustiveness_Answers.thy ===== *)
theory Exhaustiveness_Answers
  imports Exhaustiveness_Correct
begin

text \<open>
  When the check of theory \<open>Exhaustiveness\<close> gives an answer. The recursion over types stops at depth 64, so only the expansion
  of aliases could go on: it ends where the aliases can be ranked, and a circular alias has no type. Two places where the check is
  stricter than it says are located as well.
\<close>

section \<open>The check answers\<close>

text \<open>The names an annotation mentions, and aliases whose bodies mention only aliases of a smaller rank.\<close>

fun mentioned :: "annotation \<Rightarrow> string list" where
  "mentioned (Simple segments) = [join_dots segments]"
| "mentioned (TupleOf elements) = concat (map mentioned elements)"
| "mentioned (FunctionOf params return_type) = concat (map mentioned params) @ mentioned return_type"
| "mentioned (Generic name args) = concat (map mentioned args)"
| "mentioned (DynTrait name bounds) = []"

definition ranked_below :: "analyzer \<Rightarrow> (string \<Rightarrow> nat) \<Rightarrow> nat \<Rightarrow> annotation \<Rightarrow> bool" where
  "ranked_below A rank n ann = list_all (\<lambda>name. declared (type_aliases A) name \<longrightarrow> rank name < n) (mentioned ann)"

definition aliases_ranked :: "analyzer \<Rightarrow> (string \<Rightarrow> nat) \<Rightarrow> bool" where
  "aliases_ranked A rank = list_all (\<lambda>(name, ann). ranked_below A rank (rank name) ann) (type_aliases A)"

lemma ranked_below_members [simp]:
  "ranked_below A rank n (TupleOf anns) \<longleftrightarrow> (\<forall>ann \<in> set anns. ranked_below A rank n ann)"
  "ranked_below A rank n (Generic g anns) \<longleftrightarrow> (\<forall>ann \<in> set anns. ranked_below A rank n ann)"
  "ranked_below A rank n (FunctionOf anns r) \<longleftrightarrow> (\<forall>ann \<in> set anns. ranked_below A rank n ann) \<and> ranked_below A rank n r"
  by (auto simp: ranked_below_def list_all_iff)

lemma collect_answers: "(\<And>x. x \<in> set xs \<Longrightarrow> f x \<noteq> None) \<Longrightarrow> \<exists>ys. collect f xs = Some ys"
  by (induction xs) (fastforce simp: bind_eq_Some_conv)+

lemma resolution_answers:
  "aliases_ranked A rank \<Longrightarrow> ranked_below A rank fuel ann \<Longrightarrow> \<exists>ty. type_annotation_to_type A fuel ann = Some ty"
proof (induction A fuel ann rule: type_annotation_to_type.induct)
  case (1 A fuel segments)
  show ?case
  proof (cases "map_of (type_aliases A) (join_dots segments)")
    case (Some ann)
    then obtain fuel' where fuel: "fuel = Suc fuel'" "rank (join_dots segments) \<le> fuel'"
      using 1(3) by (cases fuel) (auto simp: ranked_below_def declared_def)
    have "ranked_below A rank (rank (join_dots segments)) ann"
      using 1(2) map_of_SomeD [OF Some] by (auto simp: aliases_ranked_def list_all_iff)
    then have "ranked_below A rank fuel' ann" using fuel(2) by (fastforce simp: ranked_below_def list_all_iff)
    then show ?thesis using 1(1) [OF refl refl _ Some fuel(1) 1(2)] Some fuel(1) by (auto simp: Let_def split: option.splits)
  qed (auto simp: Let_def split: option.splits)
next
  case (2 A fuel elements)
  then show ?case using collect_answers [of elements "type_annotation_to_type A fuel"] by fastforce
next
  case (3 A fuel params return_type)
  then show ?case using collect_answers [of params "type_annotation_to_type A fuel"] by fastforce
next
  case (4 A fuel name args)
  have "\<exists>tys. collect (type_annotation_to_type A fuel) (take 1 args) = Some tys" if "name = ''Tensor'' \<and> args \<noteq> [] \<or> name = ''array'' \<or> name = ''Task''"
    using that 4(1-3,5,6) in_set_takeD [of _ 1 args] by (intro collect_answers) auto
  moreover have "\<exists>tys. collect (type_annotation_to_type A fuel) args = Some tys"
    if "\<not> (name = ''Tensor'' \<and> args \<noteq> [])" "name \<noteq> ''array''" "name \<noteq> ''Task''" "name \<noteq> ''Box''" "declared (generic_enums A) name \<or> declared (generic_structs A) name"
    using that 4 by (intro collect_answers) fastforce
  ultimately show ?case by (cases "name = ''Tensor'' \<and> args \<noteq> []") auto
qed simp

lemma substituted_resolution_answers:
  "aliases_ranked A rank \<Longrightarrow> ranked_below A rank fuel ann \<Longrightarrow> \<exists>ty. type_annotation_to_type_with_substitutions A fuel subst ann = Some ty"
proof (induction A fuel subst ann rule: type_annotation_to_type_with_substitutions.induct)
  case (1 A fuel subst segments)
  then show ?case using resolution_answers [OF 1] by (auto split: list.splits option.splits)
next
  case (2 A fuel subst elements)
  then show ?case using collect_answers [of elements "type_annotation_to_type_with_substitutions A fuel subst"] by fastforce
next
  case (3 A fuel subst params return_type)
  then show ?case using collect_answers [of params "type_annotation_to_type_with_substitutions A fuel subst"] by fastforce
next
  case (4 A fuel subst name args)
  have "\<exists>tys. collect (type_annotation_to_type_with_substitutions A fuel subst) (take 1 args) = Some tys" if "name = ''array'' \<or> name = ''Task''"
    using that 4 by (intro collect_answers) (fastforce dest: in_set_takeD)
  moreover have "\<exists>tys. collect (type_annotation_to_type_with_substitutions A fuel subst) args = Some tys"
    if "name \<noteq> ''array''" "name \<noteq> ''Task''" "name \<noteq> ''Box''" "declared (generic_structs A) name \<or> declared (generic_enums A) name"
    using that 4 by (intro collect_answers) fastforce
  moreover note resolution_answers [OF 4(4,5)]
  ultimately show ?case by (auto simp del: type_annotation_to_type.simps)
next
  case (5 A fuel subst name bounds)
  then show ?case by simp
qed

text \<open>Every alias in the annotations of the declarations, too, is of a rank below the number of expansions allowed.\<close>

definition declarations_ranked :: "analyzer \<Rightarrow> (string \<Rightarrow> nat) \<Rightarrow> nat \<Rightarrow> bool" where
  "declarations_ranked A rank fuel \<longleftrightarrow> aliases_ranked A rank \<and> list_all (\<lambda>(name, ann). rank name < fuel) (type_aliases A)"

lemma everything_ranked: "declarations_ranked A rank fuel \<Longrightarrow> ranked_below A rank fuel ann"
  by (fastforce simp: declarations_ranked_def ranked_below_def declared_def list_all_iff dest: map_of_SomeD)

lemma annotations_answer:
  assumes "declarations_ranked A rank fuel"
  shows "collect (type_annotation_to_type_with_substitutions A fuel subst) anns \<noteq> None"
  using assms substituted_resolution_answers [OF _ everything_ranked [OF assms]]
    collect_answers [of anns "type_annotation_to_type_with_substitutions A fuel subst"]
  by (auto simp: declarations_ranked_def)

lemma field_types_answer:
  assumes "declarations_ranked A rank fuel" "set names \<subseteq> fst ` set (si_fields info)"
  shows "\<exists>types. collect (field_type A fuel subst info) names = Some types"
proof (rule collect_answers)
  fix name assume "name \<in> set names"
  then obtain ann where "map_of (si_fields info) name = Some ann" using assms(2) by (cases "map_of (si_fields info) name") (auto simp: map_of_eq_None_iff)
  then show "field_type A fuel subst info name \<noteq> None"
    using annotations_answer [OF assms(1), of subst "[ann]"] by (auto simp: field_type_def bind_eq_Some_conv)
qed

text \<open>Rules that follow the shape of a definition down to the calls that answer.\<close>

named_theorems answering

lemma option_answering [answering]:
  "Some y \<noteq> None"
  "m \<noteq> None \<Longrightarrow> (\<And>x. k x \<noteq> None) \<Longrightarrow> Option.bind m k \<noteq> None"
  "m \<noteq> None \<Longrightarrow> map_option g m \<noteq> None"
  "(P \<Longrightarrow> m \<noteq> None) \<Longrightarrow> (\<not> P \<Longrightarrow> n \<noteq> None) \<Longrightarrow> (if P then m else n) \<noteq> None"
  "n \<noteq> None \<Longrightarrow> (\<And>x. o1 = Some x \<Longrightarrow> h x \<noteq> None) \<Longrightarrow> (case o1 of None \<Rightarrow> n | Some x \<Rightarrow> h x) \<noteq> None"
  "(\<And>x y. c x y \<noteq> None) \<Longrightarrow> (case z of (x, y) \<Rightarrow> c x y) \<noteq> None"
  by (auto split: bind_splits option.splits prod.splits)

lemma iteration_answering [answering]:
  "(\<And>x. x \<in> set xs \<Longrightarrow> f x \<noteq> None) \<Longrightarrow> all_m f xs \<noteq> None"
  "(\<And>x. x \<in> set xs \<Longrightarrow> f x \<noteq> None) \<Longrightarrow> any_m f xs \<noteq> None"
  by (induction xs) (auto split: bind_splits)

lemma cover_answers:
  "declarations_ranked A rank fuel \<Longrightarrow> patterns_cover_type A fuel patterns ty depth \<noteq> None"
proof (induction "65 - depth" arbitrary: patterns ty depth rule: less_induct)
  case less
  show ?case
  proof (cases "64 < depth")
    case False
    have IH: "patterns_cover_type A fuel ps t (depth + 1) \<noteq> None" for ps t
      using less(1) [OF _ less(2)] False by simp
    have fields: "collect (field_type A fuel subst info) (sort (map fst (si_fields info))) \<noteq> None" for subst info
      using field_types_answer [OF less(2), of "sort (map fst (si_fields info))" info subst] by auto
    have tuple: "(case p of TuplePattern parts \<Rightarrow> if length parts = length es
        then all_m (\<lambda>(element, part). patterns_cover_type A fuel [part] element (depth + 1)) (zip es parts) else Some False
      | _ \<Rightarrow> Some False) \<noteq> None" for p es
      by (cases p) (simp_all only: pattern.case, (intro answering IH)+)
    have cases: "(case ty of TyTuple es \<Rightarrow> f es | _ \<Rightarrow> Some False) \<noteq> None" if "\<And>es. f es \<noteq> None" for f
      using that by (cases ty) simp_all
    show ?thesis unfolding patterns_cover_type.simps [of A fuel patterns ty depth] Let_def
      by (intro answering IH annotations_answer [OF less(2)] fields cases tuple)
  qed (simp add: patterns_cover_type.simps)
qed

lemma enum_match_answers: "declarations_ranked A rank fuel \<Longrightarrow> check_enum_match A fuel ty arms \<noteq> None"
proof -
  assume ranked: "declarations_ranked A rank fuel"
  have "payload_covered A fuel subst en patterns v \<noteq> None" for subst en patterns v
    unfolding payload_covered_def by (intro answering annotations_answer [OF ranked] cover_answers [OF ranked])
  then have "collect (payload_covered A fuel subst en patterns) vs \<noteq> None" for subst en patterns vs
    using collect_answers [of vs "payload_covered A fuel subst en patterns"] by auto
  then show ?thesis unfolding check_enum_match_def Let_def by (intro answering)
qed

text \<open>C37: The check answers for every match once the aliases can be ranked, each above the aliases its body mentions, and the number of
  expansions allowed is above the ranks.\<close>

theorem check_match_answers:
  assumes "declarations_ranked A rank fuel"
  shows "\<exists>answer. check_match A fuel ty arms = Some answer"
proof -
  have "check_match_exhaustiveness A fuel ty arms' \<noteq> None" for arms'
    using enum_match_answers [OF assms] unfolding check_match_exhaustiveness_def by (cases ty) (auto intro!: answering)
  then show ?thesis by (simp add: check_match_def)
qed

theorem check_match_answers_witness:
  "\<exists>answer. check_match sample_analyzer 1 (TyEnum ''Shape'') sample_arms = Some answer"
proof -
  have "declarations_ranked sample_analyzer (\<lambda>_. 0) 1" by code_simp
  then show ?thesis by (rule check_match_answers)
qed

text \<open>An alias that stands for itself has no type: however many expansions are allowed, they run out.\<close>

lemma circular_alias_has_no_type:
  assumes "map_of (type_aliases A) name = Some (Simple [name])" "simple_type A name = None"
  shows "type_annotation_to_type A fuel (Simple [name]) = None"
  using assms by (induction fuel) (simp_all add: join_dots_def)

text \<open>A plain enum inside a payload is never expanded: unless one of the patterns is a binding, it is not covered.\<close>

lemma nested_enum_not_expanded:
  assumes "\<not> list_ex is_binding (concat (map pattern_alternatives patterns))"
  shows "patterns_cover_type A fuel patterns (TyEnum name) depth = Some False"
  using assms by (subst patterns_cover_type.simps) (auto simp: is_nominal_def Let_def)

end
