(* ===== verification/Syntax_Tree.thy ===== *)
theory Syntax_Tree
  imports Type_Context
begin

text \<open>
  The syntax tree of \<open>src/compiler/src/ast/mod.rs\<close> as the parser builds it: expressions with their patterns, blocks and
  statements, and the items of a module. Spans are left out, and so are the fields of a module and of a method call that only
  the semantic analysis fills. Names are ASCII strings, as the lexer only reads such; texts of literals are code points.
\<close>

datatype binary_operator = Add | Subtract | Multiply | Divide | Modulo | BitAnd | BitOr | BitXor | Shl | Shr
  | Equal | NotEqual | Less | Greater | LessEqual | GreaterEqual | And | Or

datatype unary_operator = Negate | Not | BitNot

datatype cast_mode = Checked | Wrapping

datatype expr =
    EIdentifier string | ENumber "rust_char list" | EString "rust_char list" | EBool bool | EChar rust_char | EFString "fpart list"
  | EBlock blk | EDifferentiable blk | EAsyncBlock blk
  | EBinary expr binary_operator expr | EUnary unary_operator expr | ETry expr | EAwait expr | ERange expr expr bool
  | ECall expr "expr list" | EIf expr blk "(expr \<times> blk) list" "blk option" | EUnless expr blk "blk option"
  | EGrouping expr | EArray "expr list" | EIndex expr expr | ETuple "expr list" | ETupleAccess expr usize
  | EStruct string "annotation list" "(string \<times> expr) list" | EField expr string
  | EEnumVariant "string option" string "annotation list" string "expr list option" "(string \<times> expr) list option"
  | EMatch expr "arm list" | EMethodCall expr string "expr list"
  | ELambda bool "(string \<times> annotation option) list" expr | ECast expr annotation cast_mode
and fpart = FLiteral "rust_char list" | FInterpolated expr
and arm = Arm pat "expr option" expr
and pat =
    PWildcard | PLiteral expr | PIdentifier string | PTuple "pat list" | PStruct string "(string \<times> pat) list"
  | PEnumVariant "string option" string "annotation list" string "pat list option" "(string \<times> pat) list option" | POr "pat list"
and stmt =
    SLet pat "annotation option" "expr option" | SAssign lvalue expr | SReturn "expr option" | SExpr expr
  | SWhile expr blk | SDoWhile blk expr | SFor string expr blk | SLoop blk | SSwitch expr "(expr \<times> blk) list" "blk option"
  | SBreak | SContinue | SIfLet pat expr blk "blk option" | SWhileLet pat expr blk
and lvalue = LIdentifier string | LIndex expr expr | LField expr string
and blk = Block "stmt list"

section \<open>Items\<close>

datatype visibility = Public | Internal | Private

datatype attribute_argument = ArgName string | ArgString "rust_char list" | ArgKeyValue string "rust_char list"

record attribute =
  at_name :: string
  at_arguments :: "attribute_argument list"

record type_parameter =
  tp_name :: string
  tp_bounds :: "string list"

record import_item =
  im_path :: "string list"
  im_alias :: "string option"
  im_names :: "(string \<times> string option) list option"
  im_is_reexport :: bool

record function_item =
  fu_name :: string
  fu_visibility :: visibility
  fu_attributes :: "attribute list"
  fu_is_async :: bool
  fu_type_params :: "type_parameter list"
  fu_params :: "(string \<times> annotation option) list"
  fu_return_type :: "annotation option"
  fu_body :: blk

record struct_field =
  sf_name :: string
  sf_attributes :: "attribute list"
  sf_ty :: annotation
  sf_visibility :: visibility

record struct_item =
  st_name :: string
  st_visibility :: visibility
  st_attributes :: "attribute list"
  st_fields :: "struct_field list"
  st_type_params :: "type_parameter list"

record enum_variant =
  ev_name :: string
  ev_attributes :: "attribute list"
  ev_data :: "annotation list option"
  ev_struct_data :: "(string \<times> annotation) list option"

record enum_item =
  en_name :: string
  en_visibility :: visibility
  en_attributes :: "attribute list"
  en_variants :: "enum_variant list"
  en_type_params :: "type_parameter list"

record method_param =
  mp_name :: string
  mp_type_annotation :: "annotation option"
  mp_is_self :: bool
  mp_is_reference :: bool
  mp_is_mutable :: bool

record method_item =
  me_name :: string
  me_is_async :: bool
  me_params :: "method_param list"
  me_return_type :: "annotation option"
  me_body :: blk
  me_visibility :: visibility

record trait_method =
  tme_name :: string
  tme_is_async :: bool
  tme_params :: "method_param list"
  tme_return_type :: "annotation option"
  tme_body :: "blk option"

record trait_item =
  tr_name :: string
  tr_parent_traits :: "string list"
  tr_methods :: "trait_method list"
  tr_type_params :: "type_parameter list"

record impl_item =
  ii_type_name :: string
  ii_module_path :: "string option"
  ii_methods :: "method_item list"
  ii_type_args :: "annotation list"
  ii_type_params :: "type_parameter list"

record trait_impl_item =
  ti_trait_name :: string
  ti_type_name :: string
  ti_methods :: "method_item list"
  ti_type_args :: "annotation list"
  ti_type_params :: "type_parameter list"

datatype item =
    ImportItem import_item | FunctionItem function_item | StructItem struct_item | EnumItem enum_item | ImplItem impl_item
  | TraitItem trait_item | TraitImplItem trait_impl_item | TypeAliasItem string visibility annotation
  | ConstItem string visibility "annotation option" expr | StaticItem string visibility "annotation option" expr

record module_tree =
  mo_name :: string
  mo_items :: "item list"

end
