(* ===== verification/Parser_Core.thy ===== *)
theory Parser_Core
  imports Lexer Syntax_Tree
begin

text \<open>
  The state of the parser and its navigation, guards and recovery, \<open>src/compiler/src/parser/mod.rs\<close>. A parser of a construct
  takes the state and gives a result and the new state: \<open>Ok\<close> and \<open>Err\<close> are the two sides of Rust's \<open>Result\<close>, and \<open>Out\<close> is a
  loop that was not given enough rounds, which theory \<open>Parser_Correct\<close> shows never to happen. A diagnostic is its code. How much
  stack is in use at a guard is not known here: \<open>p_stack n\<close> says whether the n-th measurement finds too much, for any function.
  The table of trait signatures, which is filled and never consulted, is left out.
\<close>

section \<open>State\<close>

record parser =
  p_tokens :: "token list"
  p_position :: usize
  p_errors :: "string list"
  p_async_context_depth :: usize
  p_depth :: usize
  p_depth_limit_reported :: bool
  p_stack :: "nat \<Rightarrow> bool"
  p_measured :: nat

definition MAX_PARSE_DEPTH :: usize where "MAX_PARSE_DEPTH = 1000"

definition new_parser :: "(nat \<Rightarrow> bool) \<Rightarrow> token list \<Rightarrow> parser" where
  "new_parser stack tokens = \<lparr>p_tokens = tokens, p_position = 0, p_errors = [], p_async_context_depth = 0, p_depth = 0,
     p_depth_limit_reported = False, p_stack = stack, p_measured = 0\<rparr>"

definition eof_sentinel :: token where
  "eof_sentinel = new_token EndOfFile (new_span 0 0 (new_location 1 1) (new_location 1 1))"

definition token_at :: "parser \<Rightarrow> nat \<Rightarrow> token option" where
  "token_at s i = (if i < length (p_tokens s) then Some (p_tokens s ! i) else None)"

definition kind_at :: "parser \<Rightarrow> nat \<Rightarrow> token_kind option" where
  "kind_at s i = map_option t_kind (token_at s i)"

definition current :: "parser \<Rightarrow> token" where
  "current s = (case token_at s (p_position s) of Some t \<Rightarrow> t | None \<Rightarrow> eof_sentinel)"

definition current_kind :: "parser \<Rightarrow> token_kind" where
  "current_kind s = t_kind (current s)"

definition is_at_end :: "parser \<Rightarrow> bool" where
  "is_at_end s \<longleftrightarrow> current_kind s = EndOfFile"

definition advance_token :: "parser \<Rightarrow> parser" where
  "advance_token s = (if is_at_end s then s else s\<lparr>p_position := p_position s + 1\<rparr>)"

definition push_error_coded :: "string \<Rightarrow> parser \<Rightarrow> parser" where
  "push_error_coded code s = s\<lparr>p_errors := p_errors s @ [code]\<rparr>"

section \<open>Results\<close>

datatype 'a outcome = Ok 'a | Err | Out

type_synonym 'a parse = "parser \<Rightarrow> 'a outcome \<times> parser"

definition ret :: "'a \<Rightarrow> 'a parse" where
  "ret x s = (Ok x, s)"

text \<open>\<open>let x = p?; k\<close>.\<close>

definition attempt :: "'a parse \<Rightarrow> ('a \<Rightarrow> 'b parse) \<Rightarrow> 'b parse" where
  "attempt p k s = (case p s of (Ok x, s') \<Rightarrow> k x s' | (Err, s') \<Rightarrow> (Err, s') | (Out, s') \<Rightarrow> (Out, s'))"

text \<open>\<open>match p { Ok(x) => k, Err(_) => h }\<close>.\<close>

definition recovering :: "'a parse \<Rightarrow> ('a \<Rightarrow> 'b parse) \<Rightarrow> 'b parse \<Rightarrow> 'b parse" where
  "recovering p k h s = (case p s of (Ok x, s') \<Rightarrow> k x s' | (Err, s') \<Rightarrow> h s' | (Out, s') \<Rightarrow> (Out, s'))"

definition branch :: "(parser \<Rightarrow> bool) \<Rightarrow> 'a parse \<Rightarrow> 'a parse \<Rightarrow> 'a parse" where
  "branch b p q s = (if b s then p s else q s)"

definition inspecting :: "(parser \<Rightarrow> 'c) \<Rightarrow> ('c \<Rightarrow> 'a parse) \<Rightarrow> 'a parse" where
  "inspecting f k s = k (f s) s"

definition fail_with :: "string \<Rightarrow> 'a parse" where
  "fail_with code s = (Err, push_error_coded code s)"

definition report :: "string \<Rightarrow> unit parse" where
  "report code s = (Ok (), push_error_coded code s)"

definition step :: "unit parse" where
  "step s = (Ok (), advance_token s)"

text \<open>A loop. The body says whether there is another round. Every round of every loop of the parser takes a token, so the
  tokens that are left bound the rounds.\<close>

fun iterate :: "nat \<Rightarrow> ('a \<Rightarrow> (bool \<times> 'a) parse) \<Rightarrow> 'a \<Rightarrow> 'a parse" where
  "iterate 0 body a s = (Out, s)"
| "iterate (Suc n) body a s = attempt (body a) (\<lambda>(more, a'). if more then iterate n body a' else ret a') s"

definition remaining :: "parser \<Rightarrow> nat" where
  "remaining s = length (p_tokens s) - p_position s"

definition repeat :: "('a \<Rightarrow> (bool \<times> 'a) parse) \<Rightarrow> 'a \<Rightarrow> 'a parse" where
  "repeat body a s = iterate (Suc (remaining s)) body a s"

section \<open>Checking and consuming tokens\<close>

definition check_keyword :: "keyword \<Rightarrow> parser \<Rightarrow> bool" where
  "check_keyword k s \<longleftrightarrow> current_kind s = Keyword k"

definition check_symbol :: "char \<Rightarrow> parser \<Rightarrow> bool" where
  "check_symbol c s \<longleftrightarrow> current_kind s = Symbol (ch c)"

definition check_operator :: "operator \<Rightarrow> parser \<Rightarrow> bool" where
  "check_operator p s \<longleftrightarrow> current_kind s = Operator p"

definition check_function_keyword :: "parser \<Rightarrow> bool" where
  "check_function_keyword s = check_keyword KFunc s"

definition check_double_symbol :: "char \<Rightarrow> parser \<Rightarrow> bool" where
  "check_double_symbol c s \<longleftrightarrow> check_symbol c s \<and> kind_at s (p_position s + 1) = Some (Symbol (ch c))"

definition consume_double_symbol :: "unit parse" where
  "consume_double_symbol = attempt step (\<lambda>_. step)"

text \<open>Identifiers are ASCII.\<close>

definition name_of :: "rust_char list \<Rightarrow> string" where
  "name_of text = map char_of text"

definition check_identifier :: "parser \<Rightarrow> bool" where
  "check_identifier s = (case current_kind s of Identifier _ \<Rightarrow> True | _ \<Rightarrow> False)"

definition is_statement_boundary_token :: "parser \<Rightarrow> bool" where
  "is_statement_boundary_token s \<longleftrightarrow> is_at_end s \<or> (case current_kind s of
     Keyword k \<Rightarrow> k \<in> {KLet, KReturn, KIf, KUnless, KNotWord, KMatch, KWhile, KDo, KFor, KLoop, KSwitch, KBreak, KContinue, KFunc, KRecord,
       KEnum, KTrait, KClass, KModule, KImport, KAsync, KPublic, KCase, KElse, KFrom}
   | Identifier _ \<Rightarrow> True | Number _ \<Rightarrow> True | StringLiteral _ \<Rightarrow> True
   | Symbol c \<Rightarrow> c = ch CHR ''('' \<or> c = ch CHR ''{''
   | _ \<Rightarrow> False)"

definition is_block_terminator_token :: "parser \<Rightarrow> bool" where
  "is_block_terminator_token s \<longleftrightarrow> is_at_end s \<or> (case current_kind s of
     Keyword k \<Rightarrow> k \<in> {KElse, KFrom, KCase, KFunc, KRecord, KEnum, KImpl, KClass, KModule, KImport, KAsync, KReturn}
   | _ \<Rightarrow> False)"

definition is_post_paren_boundary_token :: "parser \<Rightarrow> bool" where
  "is_post_paren_boundary_token s \<longleftrightarrow> is_at_end s \<or> check_symbol CHR ''{'' s \<or> check_symbol CHR '')'' s"

definition recover_missing_symbol :: "char \<Rightarrow> parser \<Rightarrow> bool" where
  "recover_missing_symbol c s \<longleftrightarrow>
     c = CHR '';'' \<and> (is_at_end s \<or> is_statement_boundary_token s) \<or>
     c = CHR ''}'' \<and> (is_at_end s \<or> is_block_terminator_token s) \<or>
     c = CHR '')'' \<and> (is_at_end s \<or> is_post_paren_boundary_token s \<or> is_statement_boundary_token s)"

definition consume_keyword :: "keyword \<Rightarrow> unit parse" where
  "consume_keyword k = branch (check_keyword k) step (fail_with ''P001'')"

definition consume_function_keyword :: "unit parse" where
  "consume_function_keyword = branch check_function_keyword step (fail_with ''P001'')"

definition consume_record_keyword :: "unit parse" where
  "consume_record_keyword = branch (check_keyword KRecord) step (fail_with ''P001'')"

definition consume_symbol :: "char \<Rightarrow> unit parse" where
  "consume_symbol c = branch (check_symbol c) step (branch (recover_missing_symbol c) (report ''P002'') (fail_with ''P002''))"

definition consume_identifier :: "string parse" where
  "consume_identifier = inspecting current_kind (\<lambda>kind. case kind of
     Identifier name \<Rightarrow> attempt step (\<lambda>_. ret (name_of name))
   | _ \<Rightarrow> fail_with ''P003'')"

section \<open>Line breaks\<close>

definition line_break_before_current :: "parser \<Rightarrow> bool" where
  "line_break_before_current s \<longleftrightarrow> (if p_position s = 0 then False
     else line (start_location (t_span (current s))) > line (end_location (t_span (p_tokens s ! (p_position s - 1)))))"

definition infix_operator_continues_line :: "parser \<Rightarrow> bool" where
  "infix_operator_continues_line s \<longleftrightarrow> (if p_position s = 0 then False
     else case t_kind (p_tokens s ! (p_position s - 1)) of
       Symbol c \<Rightarrow> c \<in> set (str '',([='')
     | Operator _ \<Rightarrow> True
     | Keyword k \<Rightarrow> k = KAndWord \<or> k = KOrWord \<or> k = KNotWord
     | _ \<Rightarrow> False)"

definition reject_line_broken_infix :: "unit parse" where
  "reject_line_broken_infix = branch (\<lambda>s. \<not> line_break_before_current s \<or> infix_operator_continues_line s) (ret ()) (fail_with ''P015'')"

definition consume_statement_terminator :: "unit parse" where
  "consume_statement_terminator =
     branch (check_symbol CHR '';'') (attempt (report ''P012'') (\<lambda>_. attempt step (\<lambda>_ s. (Err, s))))
     (branch (\<lambda>s. is_at_end s \<or> check_symbol CHR ''}'' s \<or> line_break_before_current s) (ret ()) (fail_with ''P011''))"

definition statement_ends_before_current :: "parser \<Rightarrow> bool" where
  "statement_ends_before_current s \<longleftrightarrow>
     check_symbol CHR '';'' s \<or> is_at_end s \<or> check_symbol CHR ''}'' s \<or> line_break_before_current s"

section \<open>Recovery\<close>

definition is_at_boundary :: "parser \<Rightarrow> bool" where
  "is_at_boundary s \<longleftrightarrow> check_symbol CHR ''}'' s \<or> (case current_kind s of
     Keyword k \<Rightarrow> k \<in> {KModule, KImport, KFrom, KAsync, KFunc, KRecord, KPublic, KClass, KTrait, KLet, KReturn, KElse, KCase, KSwitch}
   | _ \<Rightarrow> False)"

text \<open>Advancing while there are tokens and a condition holds.\<close>

definition skip_while :: "(parser \<Rightarrow> bool) \<Rightarrow> unit parse" where
  "skip_while b = repeat (\<lambda>_. branch (\<lambda>s. \<not> is_at_end s \<and> b s) (attempt step (\<lambda>_. ret (True, ()))) (ret (False, ()))) ()"

definition synchronize :: "unit parse" where
  "synchronize = branch is_at_boundary (branch (check_symbol CHR '';'') step (ret ()))
     (attempt step (\<lambda>_. attempt (skip_while (\<lambda>s. \<not> check_symbol CHR '';'' s \<and> \<not> is_at_boundary s)) (\<lambda>_.
        branch (check_symbol CHR '';'') step (ret ()))))"

definition synchronize_with_progress :: "usize \<Rightarrow> unit parse" where
  "synchronize_with_progress start = attempt synchronize (\<lambda>_.
     branch (\<lambda>s. p_position s = start \<and> \<not> is_at_end s) step (ret ()))"

definition stops_list :: "char list \<Rightarrow> char list \<Rightarrow> parser \<Rightarrow> bool" where
  "stops_list terminators separators s = (case current_kind s of
     Symbol c \<Rightarrow> c \<in> set (str (terminators @ separators @ ''};''))
   | Keyword _ \<Rightarrow> True | EndOfFile \<Rightarrow> True | _ \<Rightarrow> False)"

definition recover_in_delimited_list :: "char list \<Rightarrow> char list \<Rightarrow> unit parse" where
  "recover_in_delimited_list terminators separators = skip_while (\<lambda>s. \<not> stops_list terminators separators s)"

section \<open>Guards\<close>

definition push_async_context :: "parser \<Rightarrow> parser" where
  "push_async_context s = s\<lparr>p_async_context_depth := p_async_context_depth s + 1\<rparr>"

definition pop_async_context :: "parser \<Rightarrow> parser" where
  "pop_async_context s = s\<lparr>p_async_context_depth := p_async_context_depth s - 1\<rparr>"

definition in_async_context :: "parser \<Rightarrow> bool" where
  "in_async_context s \<longleftrightarrow> 0 < p_async_context_depth s"

text \<open>The context is left before the result of the inner parser is looked at.\<close>

definition in_async :: "bool \<Rightarrow> 'a parse \<Rightarrow> 'a parse" where
  "in_async is_async p s = (if is_async then (case p (push_async_context s) of (r, s') \<Rightarrow> (r, pop_async_context s')) else p s)"

definition enter_parse_depth :: "unit parse" where
  "enter_parse_depth s =
     (let s = s\<lparr>p_depth := p_depth s + 1, p_measured := p_measured s + 1\<rparr>;
          over_depth = p_depth s > MAX_PARSE_DEPTH;
          over_stack = p_stack s (p_measured s)
      in if over_depth \<or> over_stack then
           (Err, if p_depth_limit_reported s then s else push_error_coded ''P013'' (s\<lparr>p_depth_limit_reported := True\<rparr>))
         else (Ok (), s))"

definition exit_parse_depth :: "parser \<Rightarrow> parser" where
  "exit_parse_depth s = s\<lparr>p_depth := p_depth s - 1\<rparr>"

definition guarded :: "'a parse \<Rightarrow> 'a parse" where
  "guarded p = attempt enter_parse_depth (\<lambda>_ s. case p s of (r, s') \<Rightarrow> (r, exit_parse_depth s'))"

section \<open>Lists\<close>

text \<open>The element lists of the source. \<open>comma_list\<close> has at least one element and no trailing comma; \<open>comma_list_until\<close> allows a
  comma before the closing symbol, \<open>comma_tail\<close> is what comes after its first element; \<open>comma_list_to\<close> also allows no element; \<open>optional_comma_list\<close> puts up with missing commas.\<close>

definition then_more :: "(parser \<Rightarrow> bool) \<Rightarrow> 'a \<Rightarrow> (bool \<times> 'a) parse" where
  "then_more b xs = branch b (attempt step (\<lambda>_. ret (True, xs))) (ret (False, xs))"

definition comma_list :: "'a parse \<Rightarrow> 'a list parse" where
  "comma_list p = repeat (\<lambda>xs. attempt p (\<lambda>x. then_more (check_symbol CHR '','') (xs @ [x]))) []"

definition comma_tail :: "char \<Rightarrow> 'a parse \<Rightarrow> 'a list \<Rightarrow> 'a list parse" where
  "comma_tail close p = repeat (\<lambda>xs. branch (check_symbol CHR '','')
     (attempt step (\<lambda>_. branch (check_symbol close) (ret (False, xs)) (attempt p (\<lambda>x. ret (True, xs @ [x])))))
     (ret (False, xs)))"

definition comma_list_until :: "char \<Rightarrow> 'a parse \<Rightarrow> 'a list parse" where
  "comma_list_until close p = attempt p (\<lambda>x. comma_tail close p [x])"

definition comma_list_to :: "char \<Rightarrow> 'a parse \<Rightarrow> 'a list parse" where
  "comma_list_to close p = repeat (\<lambda>xs. branch (\<lambda>s. \<not> check_symbol close s \<and> \<not> is_at_end s)
     (attempt p (\<lambda>x. then_more (check_symbol CHR '','') (xs @ [x]))) (ret (False, xs))) []"

definition optional_comma_list :: "char \<Rightarrow> 'a parse \<Rightarrow> 'a list parse" where
  "optional_comma_list close p = repeat (\<lambda>xs. branch (\<lambda>s. \<not> check_symbol close s \<and> \<not> is_at_end s)
     (attempt p (\<lambda>x. branch (check_symbol CHR '','') (attempt step (\<lambda>_. ret (True, xs @ [x]))) (ret (True, xs @ [x])))) (ret (False, xs))) []"

definition unless_closed :: "char \<Rightarrow> 'a list parse \<Rightarrow> 'a list parse" where
  "unless_closed close p = branch (check_symbol close) (ret []) p"

text \<open>Names behind a separator, as in \<open>a.b.c\<close>: the names after the first.\<close>

definition more_names :: "(parser \<Rightarrow> bool) \<Rightarrow> unit parse \<Rightarrow> string list \<Rightarrow> string list parse" where
  "more_names at separator = repeat (\<lambda>names. branch at
     (attempt separator (\<lambda>_. attempt consume_identifier (\<lambda>name. ret (True, names @ [name])))) (ret (False, names)))"

end
