(* ===== verification/Parser_Expressions.thy ===== *)
theory Parser_Expressions
  imports Parser_Core
begin

text \<open>
  Types, patterns, expressions and statements: \<open>type_annotation.rs\<close>, \<open>expression_precedence.rs\<close>, \<open>expression_primary.rs\<close>,
  \<open>expression_patterns.rs\<close> and \<open>statement.rs\<close> in \<open>src/compiler/src/parser\<close>, with the blocks of \<open>item_declarations.rs\<close>. Seven functions
  count the depth of the recursion, and every recursion passes one of them. The others are given these seven as a record, and
  \<open>descent_at n\<close> ties the knot for the n levels that the guards will still admit.
\<close>

record descent =
  d_expression :: "expr parse"
  d_logical_not :: "expr parse"
  d_unary :: "expr parse"
  d_pattern :: "pat parse"
  d_annotation :: "annotation parse"
  d_statement :: "stmt parse"
  d_block :: "blk parse"

definition optionally :: "(parser \<Rightarrow> bool) \<Rightarrow> 'a parse \<Rightarrow> 'a option parse" where
  "optionally b p = branch b (attempt step (\<lambda>_. attempt p (\<lambda>x. ret (Some x)))) (ret None)"

section \<open>Type annotations\<close>

text \<open>What may follow the bracket that closes the type arguments of an annotation, and the scan for that bracket.\<close>

definition may_follow_type_args :: "token_kind \<Rightarrow> bool" where
  "may_follow_type_args kind = (case kind of
     Symbol c \<Rightarrow> c \<in> set (str ''{}=,)|];[>#'') | Identifier _ \<Rightarrow> True | Keyword k \<Rightarrow> k = KPublic \<or> k = KInternal \<or> k = KReturns | _ \<Rightarrow> False)"

fun scan_annotation_args :: "token_kind list \<Rightarrow> nat \<Rightarrow> bool" where
  "scan_annotation_args [] depth = False"
| "scan_annotation_args (kind # kinds) depth =
     (if kind = Symbol (ch CHR ''<'') then scan_annotation_args kinds (depth + 1)
      else if kind = Symbol (ch CHR ''>'') then
        (if depth - 1 = 0 then (case kinds of [] \<Rightarrow> True | next # _ \<Rightarrow> may_follow_type_args next) else scan_annotation_args kinds (depth - 1))
      else if kind = Symbol (ch CHR ''{'') \<or> kind = Symbol (ch CHR '';'') then False
      else scan_annotation_args kinds depth)"

definition kinds_after :: "parser \<Rightarrow> token_kind list" where
  "kinds_after s = map t_kind (drop (p_position s + 1) (p_tokens s))"

definition looks_like_type_args_in_annotation :: "parser \<Rightarrow> bool" where
  "looks_like_type_args_in_annotation s \<longleftrightarrow> check_symbol CHR ''<'' s \<and> scan_annotation_args (kinds_after s) 1"

definition parse_dyn_type :: "annotation parse" where
  "parse_dyn_type = attempt step (\<lambda>_. attempt consume_identifier (\<lambda>trait_name.
     attempt (more_names (check_symbol CHR ''+'') step []) (\<lambda>auto_traits. ret (DynTrait trait_name auto_traits))))"

definition parse_function_type :: "descent \<Rightarrow> annotation parse" where
  "parse_function_type D = attempt step (\<lambda>_. attempt (consume_symbol CHR ''('') (\<lambda>_.
     attempt (comma_list_to CHR '')'' (d_annotation D)) (\<lambda>params. attempt (consume_symbol CHR '')'') (\<lambda>_.
     attempt (optionally (check_keyword KReturns) (d_annotation D)) (\<lambda>return_type.
     ret (FunctionOf params (case return_type of Some ty \<Rightarrow> ty | None \<Rightarrow> Simple [''unit'']))))))) "

definition parse_array_type :: "descent \<Rightarrow> annotation parse" where
  "parse_array_type D = attempt step (\<lambda>_.
     attempt (branch (check_symbol CHR '']'') (ret (Simple [''unknown''])) (d_annotation D)) (\<lambda>element.
     attempt (consume_symbol CHR '']'') (\<lambda>_. ret (Generic ''array'' [element]))))"

definition parse_tuple_type :: "descent \<Rightarrow> annotation parse" where
  "parse_tuple_type D = attempt step (\<lambda>_. branch (check_symbol CHR '')'') (attempt step (\<lambda>_. ret (TupleOf [])))
     (attempt (comma_list_until CHR '')'' (d_annotation D)) (\<lambda>elements. attempt (consume_symbol CHR '')'') (\<lambda>_. ret (TupleOf elements)))))"

definition parse_path_type :: "descent \<Rightarrow> annotation parse" where
  "parse_path_type D = attempt consume_identifier (\<lambda>first.
     attempt (more_names (check_symbol CHR ''.'') step [first]) (\<lambda>segments.
     branch (\<lambda>s. check_symbol CHR ''<'' s \<and> looks_like_type_args_in_annotation s)
       (attempt step (\<lambda>_. attempt (comma_list_to CHR ''>'' (d_annotation D)) (\<lambda>type_args.
          attempt (consume_symbol CHR ''>'') (\<lambda>_. ret (Generic (join_dots segments) type_args)))))
       (ret (Simple segments))))"

definition parse_type_annotation_inner :: "descent \<Rightarrow> annotation parse" where
  "parse_type_annotation_inner D =
     branch (check_keyword KDyn) parse_dyn_type
    (branch check_function_keyword (parse_function_type D)
    (branch (check_keyword KSelfType) (attempt step (\<lambda>_. ret (Simple [''Self''])))
    (branch (check_symbol CHR ''['') (parse_array_type D)
    (branch (check_symbol CHR ''('') (parse_tuple_type D) (parse_path_type D)))))"

fun scan_type_args :: "token_kind list \<Rightarrow> nat \<Rightarrow> token_kind list option" where
  "scan_type_args [] depth = (if depth = 0 then Some [] else None)"
| "scan_type_args (kind # kinds) depth = (if depth = 0 then Some (kind # kinds) else case kind of
     Symbol c \<Rightarrow>
       if c = ch CHR ''<'' then scan_type_args kinds (depth + 1)
       else if c = ch CHR ''>'' then scan_type_args kinds (depth - 1)
       else if c \<in> set (str '';{='') then None
       else scan_type_args kinds depth
   | Keyword _ \<Rightarrow> None
   | _ \<Rightarrow> scan_type_args kinds depth)"

definition is_likely_type_args_lookahead :: "parser \<Rightarrow> bool" where
  "is_likely_type_args_lookahead s \<longleftrightarrow> check_symbol CHR ''<'' s \<and> (case scan_type_args (kinds_after s) 1 of
     Some (next # _) \<Rightarrow> next = Symbol (ch CHR '':'') \<or> next = Symbol (ch CHR ''{'')
   | _ \<Rightarrow> False)"

definition parse_type_arguments :: "descent \<Rightarrow> annotation list parse" where
  "parse_type_arguments D = attempt (consume_symbol CHR ''<'') (\<lambda>_.
     attempt (unless_closed CHR ''>'' (comma_list (d_annotation D))) (\<lambda>type_args.
     attempt (consume_symbol CHR ''>'') (\<lambda>_. ret type_args)))"

definition optional_type_arguments :: "descent \<Rightarrow> annotation list parse" where
  "optional_type_arguments D = branch is_likely_type_args_lookahead (parse_type_arguments D) (ret [])"

section \<open>Paths and patterns\<close>

definition at_path_separator :: "parser \<Rightarrow> bool" where
  "at_path_separator s = check_double_symbol CHR '':'' s"

definition join_path :: "string list \<Rightarrow> string" where
  "join_path segments = concat (case segments of [] \<Rightarrow> [] | s # ss \<Rightarrow> s # map (\<lambda>t. ''::'' @ t) ss)"

definition split_segments :: "string list \<Rightarrow> string option \<times> string \<times> string" where
  "split_segments segments = (let n = length segments in
     if n = 2 then (None, segments ! 0, segments ! 1)
     else (Some (join_path (take (n - 2) segments)), segments ! (n - 2), segments ! (n - 1)))"

text \<open>The segments of a path behind its first name, at a separator.\<close>

definition parse_path :: "string \<Rightarrow> string list parse" where
  "parse_path first = attempt consume_double_symbol (\<lambda>_. attempt consume_identifier (\<lambda>second.
     more_names at_path_separator consume_double_symbol [first, second]))"

text \<open>The payload of a variant in parentheses, and its fields in braces, where there are any.\<close>

definition variant_data :: "'a parse \<Rightarrow> 'a list option parse" where
  "variant_data p = branch (check_symbol CHR ''('')
     (attempt step (\<lambda>_. attempt (unless_closed CHR '')'' (comma_list p)) (\<lambda>xs. attempt (consume_symbol CHR '')'') (\<lambda>_. ret (Some xs)))))
     (ret None)"

definition variant_fields :: "(string \<times> 'a) parse \<Rightarrow> (string \<times> 'a) list option parse" where
  "variant_fields p = branch (check_symbol CHR ''{'')
     (attempt step (\<lambda>_. attempt (optional_comma_list CHR ''}'' p) (\<lambda>fs. attempt (consume_symbol CHR ''}'') (\<lambda>_. ret (Some fs)))))
     (ret None)"

text \<open>A field that may stand for itself, as in \<open>Point { x, y: 0 }\<close>.\<close>

definition field_or_shorthand :: "(string \<Rightarrow> 'a) \<Rightarrow> 'a parse \<Rightarrow> (string \<times> 'a) parse" where
  "field_or_shorthand itself p = attempt consume_identifier (\<lambda>name.
     branch (check_symbol CHR '':'') (attempt step (\<lambda>_. attempt p (\<lambda>x. ret (name, x)))) (ret (name, itself name)))"

definition parse_named_pattern :: "descent \<Rightarrow> string \<Rightarrow> pat parse" where
  "parse_named_pattern D first = attempt (optional_type_arguments D) (\<lambda>type_args.
     branch at_path_separator
       (attempt (parse_path first) (\<lambda>segments. case split_segments segments of (module_path, enum_name, variant_name) \<Rightarrow>
          attempt (variant_data (d_pattern D)) (\<lambda>data.
          attempt (variant_fields (field_or_shorthand PIdentifier (d_pattern D))) (\<lambda>named.
          ret (PEnumVariant module_path enum_name type_args variant_name data named)))))
     (branch (check_symbol CHR ''{'')
       (attempt step (\<lambda>_. attempt (optional_comma_list CHR ''}'' (field_or_shorthand PIdentifier (d_pattern D))) (\<lambda>fs.
          attempt (consume_symbol CHR ''}'') (\<lambda>_. ret (PStruct first fs)))))
       (ret (PIdentifier first))))"

text \<open>A literal pattern is any primary expression.\<close>

definition parse_pattern_atom :: "descent \<Rightarrow> expr parse \<Rightarrow> pat parse" where
  "parse_pattern_atom D primary =
     branch (check_symbol CHR ''_'') (attempt step (\<lambda>_. ret PWildcard))
    (branch (check_symbol CHR ''('')
       (attempt step (\<lambda>_. attempt (unless_closed CHR '')'' (comma_list (d_pattern D))) (\<lambda>ps.
          attempt (consume_symbol CHR '')'') (\<lambda>_. ret (PTuple ps)))))
       (inspecting current_kind (\<lambda>kind. case kind of
          Identifier name \<Rightarrow> attempt step (\<lambda>_. parse_named_pattern D (name_of name))
        | _ \<Rightarrow> attempt primary (\<lambda>e. ret (PLiteral e)))))"

definition parse_pattern_inner :: "descent \<Rightarrow> expr parse \<Rightarrow> pat parse" where
  "parse_pattern_inner D primary = attempt (parse_pattern_atom D primary) (\<lambda>first.
     attempt (repeat (\<lambda>ps. branch (check_symbol CHR ''|'')
       (attempt step (\<lambda>_. attempt (parse_pattern_atom D primary) (\<lambda>p. ret (True, ps @ [p])))) (ret (False, ps))) [first]) (\<lambda>ps.
     ret (case ps of [p] \<Rightarrow> p | _ \<Rightarrow> POr ps)))"

section \<open>The precedence ladder\<close>

text \<open>A rung: operands of the next tighter rung, joined to the left for as long as an operator of the rung follows.\<close>

definition join_operand :: "unit parse \<Rightarrow> expr parse \<Rightarrow> expr \<Rightarrow> binary_operator \<Rightarrow> expr parse" where
  "join_operand skip tighter left operator = attempt reject_line_broken_infix (\<lambda>_. attempt skip (\<lambda>_.
     attempt tighter (\<lambda>right. ret (EBinary left operator right))))"

definition rung :: "(parser \<Rightarrow> binary_operator option) \<Rightarrow> unit parse \<Rightarrow> expr parse \<Rightarrow> expr parse" where
  "rung operator_at skip tighter = attempt tighter (repeat (\<lambda>left. inspecting operator_at (\<lambda>found. case found of
     None \<Rightarrow> ret (False, left)
   | Some operator \<Rightarrow> attempt (join_operand skip tighter left operator) (\<lambda>e. ret (True, e)))))"

definition or_at :: "parser \<Rightarrow> binary_operator option" where
  "or_at s = (if check_operator OrOp s \<or> check_keyword KOrWord s then Some Or else None)"

definition and_at :: "parser \<Rightarrow> binary_operator option" where
  "and_at s = (if check_operator AndOp s \<or> check_keyword KAndWord s then Some And else None)"

definition symbol_operator_at :: "(char \<times> binary_operator) list \<Rightarrow> parser \<Rightarrow> binary_operator option" where
  "symbol_operator_at table s = (case current_kind s of
     Symbol c \<Rightarrow> map_of (map (map_prod ch id) table) c | _ \<Rightarrow> None)"

definition equality_at :: "parser \<Rightarrow> binary_operator option" where
  "equality_at s = (if check_operator EqualEqual s then Some Equal else if check_operator Lexer.NotEqual s then Some NotEqual else None)"

definition shift_at :: "parser \<Rightarrow> binary_operator option" where
  "shift_at s = (if check_double_symbol CHR ''<'' s then Some Shl else if check_double_symbol CHR ''>'' s then Some Shr else None)"

definition relational_at :: "parser \<Rightarrow> binary_operator option" where
  "relational_at s =
     (if check_symbol CHR ''<'' s then Some Less else if check_symbol CHR ''>'' s then Some Greater
      else if check_operator Lexer.LessEqual s then Some LessEqual
      else if check_operator Lexer.GreaterEqual s then Some GreaterEqual else None)"

definition parse_multiplication :: "descent \<Rightarrow> expr parse" where
  "parse_multiplication D =
     rung (symbol_operator_at [(CHR ''*'', Multiply), (CHR ''/'', Divide), (CHR ''%'', Modulo)]) step (d_unary D)"

definition parse_addition :: "descent \<Rightarrow> expr parse" where
  "parse_addition D = rung (symbol_operator_at [(CHR ''+'', Add), (CHR ''-'', Subtract)]) step (parse_multiplication D)"

definition parse_shift :: "descent \<Rightarrow> expr parse" where
  "parse_shift D = rung shift_at consume_double_symbol (parse_addition D)"

text \<open>A second relational operator in one chain is an error.\<close>

definition parse_comparison :: "descent \<Rightarrow> expr parse" where
  "parse_comparison D = attempt (parse_shift D) (\<lambda>first. attempt (repeat (\<lambda>(chain_active, left).
     inspecting relational_at (\<lambda>found. case found of
       None \<Rightarrow> ret (False, (chain_active, left))
     | Some operator \<Rightarrow> if chain_active then fail_with ''P014''
         else attempt (join_operand step (parse_shift D) left operator) (\<lambda>e. ret (True, (True, e))))) (False, first)) (\<lambda>(_, e). ret e))"

definition parse_equality :: "descent \<Rightarrow> expr parse" where
  "parse_equality D = rung equality_at step (parse_comparison D)"

definition parse_bit_and :: "descent \<Rightarrow> expr parse" where
  "parse_bit_and D = rung (symbol_operator_at [(CHR ''&'', BitAnd)]) step (parse_equality D)"

definition parse_bit_xor :: "descent \<Rightarrow> expr parse" where
  "parse_bit_xor D = rung (symbol_operator_at [(CHR ''^'', BitXor)]) step (parse_bit_and D)"

definition parse_bit_or :: "descent \<Rightarrow> expr parse" where
  "parse_bit_or D = rung (symbol_operator_at [(CHR ''|'', BitOr)]) step (parse_bit_xor D)"

definition parse_logical_not_inner :: "descent \<Rightarrow> expr parse" where
  "parse_logical_not_inner D = branch (check_keyword KNotWord)
     (attempt step (\<lambda>_. attempt (d_logical_not D) (\<lambda>operand. ret (EUnary Not operand)))) (parse_bit_or D)"

definition parse_logical_and :: "descent \<Rightarrow> expr parse" where
  "parse_logical_and D = rung and_at step (d_logical_not D)"

definition parse_logical_or :: "descent \<Rightarrow> expr parse" where
  "parse_logical_or D = rung or_at step (parse_logical_and D)"

text \<open>What may still follow a range: the operators of the logical level, each with an operand one rung tighter.\<close>

definition bitwise_at :: "parser \<Rightarrow> binary_operator option" where
  "bitwise_at = symbol_operator_at [(CHR ''|'', BitOr), (CHR ''^'', BitXor), (CHR ''&'', BitAnd)]"

definition equality_or_relational_at :: "parser \<Rightarrow> binary_operator option" where
  "equality_or_relational_at s = (case equality_at s of Some operator \<Rightarrow> Some operator | None \<Rightarrow> relational_at s)"

definition is_relational :: "binary_operator \<Rightarrow> bool" where
  "is_relational operator \<longleftrightarrow> operator \<noteq> Equal \<and> operator \<noteq> NotEqual"

definition logical_level_step :: "descent \<Rightarrow> bool \<times> expr \<Rightarrow> (bool \<times> bool \<times> expr) parse" where
  "logical_level_step D = (\<lambda>(previous_relational, left).
     inspecting or_at (\<lambda>found_or. if found_or \<noteq> None
       then attempt (join_operand step (parse_logical_and D) left Or) (\<lambda>e. ret (True, (previous_relational, e)))
     else inspecting and_at (\<lambda>found_and. if found_and \<noteq> None
       then attempt (join_operand step (parse_bit_or D) left And) (\<lambda>e. ret (True, (previous_relational, e)))
     else inspecting bitwise_at (\<lambda>found_bitwise. case found_bitwise of
       Some operator \<Rightarrow> attempt (join_operand step
           (if operator = BitOr then parse_bit_xor D else if operator = BitXor then parse_bit_and D else parse_equality D) left operator)
         (\<lambda>e. ret (True, (previous_relational, e)))
     | None \<Rightarrow> inspecting equality_or_relational_at (\<lambda>found. case found of
         Some operator \<Rightarrow> if is_relational operator \<and> previous_relational then fail_with ''P014''
           else attempt (join_operand step (parse_shift D) left operator) (\<lambda>e. ret (True, (is_relational operator, e)))
       | None \<Rightarrow> ret (False, (previous_relational, left)))))))"

definition parse_logical_level_rest :: "descent \<Rightarrow> expr \<Rightarrow> expr parse" where
  "parse_logical_level_rest D left = attempt (repeat (logical_level_step D) (False, left)) (\<lambda>(_, e). ret e)"

definition range_at :: "parser \<Rightarrow> bool option" where
  "range_at s = (if check_operator RangeOp s then Some False else if check_operator RangeInclusive s then Some True else None)"

definition parse_expression_inner :: "descent \<Rightarrow> expr parse" where
  "parse_expression_inner D = attempt (parse_logical_or D) (\<lambda>first.
     attempt (repeat (\<lambda>(built_range, e). inspecting range_at (\<lambda>found. case found of
         None \<Rightarrow> ret (False, (built_range, e))
       | Some inclusive \<Rightarrow> attempt reject_line_broken_infix (\<lambda>_. attempt step (\<lambda>_. attempt (parse_comparison D) (\<lambda>last.
           ret (True, (True, ERange e last inclusive))))))) (False, first)) (\<lambda>(built_range, e).
     if built_range then parse_logical_level_rest D e else ret e))"

section \<open>Calls and other postfix forms\<close>

definition parse_arguments :: "descent \<Rightarrow> expr list parse" where
  "parse_arguments D = attempt step (\<lambda>_. attempt (unless_closed CHR '')'' (repeat (\<lambda>args.
     attempt (recovering (d_expression D) (\<lambda>e. ret (args @ [e]))
       (attempt (recover_in_delimited_list '')'' '','') (\<lambda>_. ret args))) (\<lambda>args'.
     branch (check_symbol CHR '','')
       (attempt step (\<lambda>_. branch (check_symbol CHR '')'') (ret (False, args')) (ret (True, args'))))
       (ret (False, args')))) [])) (\<lambda>args.
     attempt (consume_symbol CHR '')'') (\<lambda>_. ret args)))"

definition parse_member :: "descent \<Rightarrow> expr \<Rightarrow> expr parse" where
  "parse_member D object = attempt step (\<lambda>_. inspecting current_kind (\<lambda>kind. case kind of
     Number digits \<Rightarrow> (case from_str_radix 10 usize_max digits of
         Some index \<Rightarrow> attempt step (\<lambda>_. ret (ETupleAccess object index))
       | None \<Rightarrow> fail_with ''P999'')
   | Identifier _ \<Rightarrow> attempt consume_identifier (\<lambda>name.
       branch (check_symbol CHR ''('') (attempt (parse_arguments D) (\<lambda>args. ret (EMethodCall object name args)))
         (ret (EField object name)))
   | _ \<Rightarrow> fail_with ''P999''))"

definition parse_postfix :: "descent \<Rightarrow> expr \<Rightarrow> expr parse" where
  "parse_postfix D = repeat (\<lambda>e.
     branch (check_symbol CHR ''('') (attempt (parse_arguments D) (\<lambda>args. ret (True, ECall e args)))
    (branch (check_symbol CHR ''['') (attempt step (\<lambda>_. attempt (d_expression D) (\<lambda>index.
        attempt (consume_symbol CHR '']'') (\<lambda>_. ret (True, EIndex e index)))))
    (branch (check_symbol CHR ''.'') (attempt (parse_member D e) (\<lambda>e'. ret (True, e')))
    (branch (check_symbol CHR ''?'') (attempt step (\<lambda>_. ret (True, ETry e))) (ret (False, e))))))"

definition parse_casts :: "descent \<Rightarrow> expr \<Rightarrow> expr parse" where
  "parse_casts D = repeat (\<lambda>e. branch (check_keyword KAs)
     (attempt step (\<lambda>_. attempt (branch (\<lambda>s. current_kind s = Identifier (str ''wrapping''))
        (attempt step (\<lambda>_. ret Wrapping)) (ret Checked)) (\<lambda>mode.
      attempt (d_annotation D) (\<lambda>target. ret (True, ECast e target mode)))))
     (ret (False, e)))"

definition parse_call_expression :: "descent \<Rightarrow> expr parse \<Rightarrow> expr parse" where
  "parse_call_expression D primary = attempt primary (\<lambda>e. attempt (parse_postfix D e) (parse_casts D))"

definition unary_operator_at :: "parser \<Rightarrow> unary_operator option" where
  "unary_operator_at s =
     (if check_symbol CHR ''-'' s then Some Negate else if check_symbol CHR ''!'' s then Some Not
      else if check_symbol CHR ''~'' s then Some BitNot else None)"

definition parse_unary_inner :: "descent \<Rightarrow> expr parse \<Rightarrow> expr parse" where
  "parse_unary_inner D primary = branch (check_keyword KAwait)
     (attempt step (\<lambda>_. branch in_async_context (attempt (d_unary D) (\<lambda>operand. ret (EAwait operand))) (fail_with ''P006'')))
     (inspecting unary_operator_at (\<lambda>found. case found of
        Some operator \<Rightarrow> attempt step (\<lambda>_. attempt (d_unary D) (\<lambda>operand. ret (EUnary operator operand)))
      | None \<Rightarrow> parse_call_expression D primary))"

section \<open>Interpolated strings\<close>

text \<open>Literal text up to a single opening brace, and up to any opening brace; the doubled braces stand for one.\<close>

fun brace_literal :: "rust_char list \<Rightarrow> rust_char list \<times> rust_char list" where
  "brace_literal [] = ([], [])"
| "brace_literal [c] = (if c = ch CHR ''{'' then ([], [c]) else ([c], []))"
| "brace_literal (c # d # cs) =
     (if c = ch CHR ''{'' \<and> d = ch CHR ''{'' then map_prod ((#) c) id (brace_literal cs)
      else if c = ch CHR ''{'' then ([], c # d # cs)
      else if c = ch CHR ''}'' \<and> d = ch CHR ''}'' then map_prod ((#) c) id (brace_literal cs)
      else map_prod ((#) c) id (brace_literal (d # cs)))"

fun plain_literal :: "rust_char list \<Rightarrow> rust_char list \<times> rust_char list" where
  "plain_literal [] = ([], [])"
| "plain_literal [c] = (if c = ch CHR ''{'' then ([], [c]) else ([c], []))"
| "plain_literal (c # d # cs) =
     (if c = ch CHR ''{'' then ([], c # d # cs)
      else if c = ch CHR ''}'' \<and> d = ch CHR ''}'' then map_prod ((#) c) id (plain_literal cs)
      else map_prod ((#) c) id (plain_literal (d # cs)))"

text \<open>The text of an interpolation and what is behind its closing brace; braces in quotes do not count.\<close>

fun interpolation :: "nat \<Rightarrow> rust_char option \<Rightarrow> rust_char list \<Rightarrow> (rust_char list \<times> rust_char list) option" where
  "interpolation depth in_quote [] = None"
| "interpolation depth (Some q) (c # cs) = map_option (map_prod ((#) c) id)
     (if c = backslash \<and> cs \<noteq> [] then map_option (map_prod ((#) (hd cs)) id) (interpolation depth (Some q) (tl cs))
      else interpolation depth (if c = q then None else Some q) cs)"
| "interpolation depth None (c # cs) =
     (if c = quote \<or> c = apostrophe then map_option (map_prod ((#) c) id) (interpolation depth (Some c) cs)
      else if c = ch CHR ''{'' then map_option (map_prod ((#) c) id) (interpolation (depth + 1) None cs)
      else if c = ch CHR ''}'' then
        (if depth - 1 = 0 then Some ([], cs) else map_option (map_prod ((#) c) id) (interpolation (depth - 1) None cs))
      else map_option (map_prod ((#) c) id) (interpolation depth None cs))"

definition interpolation_origin :: "span \<Rightarrow> rust_char list \<Rightarrow> usize \<times> location" where
  "interpolation_origin sp prefix =
     (sp_start sp + 2 + byte_len prefix,
      fold bump_position prefix (new_location (line (start_location sp)) (column (start_location sp) + 2)))"

definition sub_parser :: "parser \<Rightarrow> token list \<Rightarrow> parser" where
  "sub_parser s tokens = (new_parser (p_stack s) tokens)\<lparr>p_depth := p_depth s, p_depth_limit_reported := p_depth_limit_reported s,
     p_measured := p_measured s\<rparr>"

definition parse_interpolation :: "descent \<Rightarrow> usize \<times> location \<Rightarrow> rust_char list \<Rightarrow> fpart list parse" where
  "parse_interpolation D origin text s = (case tokenize (with_origin text (fst origin) (snd origin)) of
     Inl lex_errors \<Rightarrow> (Ok [], s\<lparr>p_errors := p_errors s @ (if lex_errors = [] then [''P019''] else map e_code lex_errors)\<rparr>)
   | Inr tokens \<Rightarrow> (case d_expression D (sub_parser s tokens) of (result, sub) \<Rightarrow>
       let s' = s\<lparr>p_errors := p_errors s @ p_errors sub, p_measured := p_measured sub\<rparr>
       in case result of
         Ok e \<Rightarrow> (Ok [FInterpolated e], s')
       | Err \<Rightarrow> (Ok [], if p_errors sub \<noteq> [] then s' else push_error_coded ''P019'' s')
       | Out \<Rightarrow> (Out, s')))"

lemma brace_literal_length: "length (snd (brace_literal cs)) \<le> length cs"
  by (induction cs rule: brace_literal.induct) auto

lemma plain_literal_length: "length (snd (plain_literal cs)) \<le> length cs"
  by (induction cs rule: plain_literal.induct) auto

lemma plain_literal_shorter: "c \<noteq> ch CHR ''{'' \<Longrightarrow> length (snd (plain_literal (c # cs))) < length (c # cs)"
proof (cases cs)
  case (Cons d ds)
  then show "c \<noteq> ch CHR ''{'' \<Longrightarrow> length (snd (plain_literal (c # cs))) < length (c # cs)"
    using plain_literal_length [of ds] plain_literal_length [of "d # ds"] by simp
qed simp

lemma interpolation_shorter: "interpolation depth in_quote cs = Some (inner, rest) \<Longrightarrow> length rest < length cs"
  by (induction depth in_quote cs arbitrary: inner rest rule: interpolation.induct) (force split: if_splits)+

function fstring_parts :: "descent \<Rightarrow> span \<Rightarrow> rust_char list \<Rightarrow> rust_char list \<Rightarrow> fpart list parse" where
  "fstring_parts D sp raw [] = ret []"
| "fstring_parts D sp raw (c # cs) =
     (if c = ch CHR ''{'' then
        if cs \<noteq> [] \<and> hd cs = ch CHR ''{'' then
          (case brace_literal (tl cs) of (lead, rest) \<Rightarrow>
             attempt (fstring_parts D sp raw rest) (\<lambda>parts. ret (FLiteral (c # lead) # parts)))
        else (case interpolation 1 None cs of
            None \<Rightarrow> attempt (report ''P002'') (\<lambda>_. ret [FLiteral (c # cs)])
          | Some (inner, rest) \<Rightarrow>
              attempt (parse_interpolation D (interpolation_origin sp (take (length raw - length cs) raw)) inner) (\<lambda>part.
              attempt (fstring_parts D sp raw rest) (\<lambda>parts. ret (part @ parts))))
      else (case plain_literal (c # cs) of (lead, rest) \<Rightarrow>
          attempt (fstring_parts D sp raw rest) (\<lambda>parts. ret (FLiteral lead # parts))))"
  by pat_completeness auto
termination
proof (relation "measure (\<lambda>(D, sp, raw, cs). length cs)", goal_cases)
  case (2 D sp raw c cs lead rest)
  then show ?case using brace_literal_length [of "tl cs"] by (cases cs) (auto dest: sym)
next
  case (3 D sp raw c cs a inner rest)
  then show ?case using interpolation_shorter [of 1 None cs] by fastforce
next
  case (4 D sp raw c cs lead rest)
  then show ?case using plain_literal_shorter [of c cs] by (metis in_measure case_prod_conv snd_conv)
qed auto

definition parse_fstring_parts :: "descent \<Rightarrow> rust_char list \<Rightarrow> span \<Rightarrow> fpart list parse" where
  "parse_fstring_parts D raw sp = fstring_parts D sp raw raw"

section \<open>Primary expressions\<close>

definition parse_lambda_params_after_open_pipe :: "descent \<Rightarrow> (string \<times> annotation option) list parse" where
  "parse_lambda_params_after_open_pipe D = attempt (comma_list_to CHR ''|'' (attempt consume_identifier (\<lambda>name.
       attempt (optionally (check_symbol CHR '':'') (d_annotation D)) (\<lambda>ty. ret (name, ty))))) (\<lambda>params.
     attempt (consume_symbol CHR ''|'') (\<lambda>_. ret params))"

definition finish_lambda_expression :: "descent \<Rightarrow> bool \<Rightarrow> (string \<times> annotation option) list \<Rightarrow> expr parse" where
  "finish_lambda_expression D is_async params = attempt (in_async is_async
       (branch (check_symbol CHR ''{'') (attempt (d_block D) (\<lambda>b. ret (EBlock b))) (d_expression D))) (\<lambda>body.
     ret (ELambda is_async params body))"

definition parse_async_expression :: "descent \<Rightarrow> expr parse" where
  "parse_async_expression D = attempt step (\<lambda>_.
     branch (check_symbol CHR ''{'') (attempt (in_async True (d_block D)) (\<lambda>b. ret (EAsyncBlock b)))
    (branch (check_operator OrOp) (attempt step (\<lambda>_. finish_lambda_expression D True []))
    (branch (check_symbol CHR ''|'')
       (attempt step (\<lambda>_. attempt (parse_lambda_params_after_open_pipe D) (finish_lambda_expression D True)))
       (fail_with ''P005''))))"

definition parse_if_expression :: "descent \<Rightarrow> expr parse" where
  "parse_if_expression D = attempt (consume_keyword KIf) (\<lambda>_. attempt (d_expression D) (\<lambda>condition.
     attempt (d_block D) (\<lambda>then_block.
     attempt (repeat (\<lambda>(elifs, else_block). branch (check_keyword KElse)
        (attempt step (\<lambda>_. branch (check_keyword KIf)
           (attempt step (\<lambda>_. attempt (d_expression D) (\<lambda>c. attempt (d_block D) (\<lambda>b. ret (True, (elifs @ [(c, b)], None))))))
           (attempt (d_block D) (\<lambda>b. ret (False, (elifs, Some b))))))
        (ret (False, (elifs, None)))) ([], None)) (\<lambda>(elifs, else_block).
     ret (EIf condition then_block elifs else_block)))))"

definition parse_unless_expression :: "descent \<Rightarrow> expr parse" where
  "parse_unless_expression D = attempt (consume_keyword KUnless) (\<lambda>_. attempt (d_expression D) (\<lambda>condition.
     attempt (d_block D) (\<lambda>then_block.
     attempt (optionally (check_keyword KElse) (branch (check_keyword KIf) (fail_with ''P001'') (d_block D))) (\<lambda>else_block.
     ret (EUnless condition then_block else_block)))))"

definition parse_arm :: "descent \<Rightarrow> arm parse" where
  "parse_arm D = inspecting (check_keyword KOtherwise) (\<lambda>is_otherwise.
     attempt (branch (\<lambda>s. is_otherwise \<or> check_keyword KWhen s) step (fail_with ''P001'')) (\<lambda>_.
     attempt (if is_otherwise then ret PWildcard else d_pattern D) (\<lambda>p.
     attempt (optionally (check_keyword KIf) (d_expression D)) (\<lambda>arm_guard.
     attempt (branch (check_keyword KThen) step (if is_otherwise then ret () else fail_with ''P001'')) (\<lambda>_.
     attempt (d_expression D) (\<lambda>body. ret (Arm p arm_guard body)))))))"

definition parse_match_expression :: "descent \<Rightarrow> expr parse" where
  "parse_match_expression D = attempt (consume_keyword KMatch) (\<lambda>_. attempt (d_expression D) (\<lambda>scrutinee.
     attempt (consume_symbol CHR ''{'') (\<lambda>_. attempt (optional_comma_list CHR ''}'' (parse_arm D)) (\<lambda>arms.
     attempt (consume_symbol CHR ''}'') (\<lambda>_. ret (EMatch scrutinee arms))))))"

text \<open>Whether the brace behind a name opens the fields of a struct.\<close>

definition is_struct_literal :: "parser \<Rightarrow> bool" where
  "is_struct_literal s = (case kind_at s (p_position s + 1) of
     Some (Symbol c) \<Rightarrow> c = ch CHR ''}''
   | Some (Identifier _) \<Rightarrow> (case kind_at s (p_position s + 2) of
       Some (Symbol c) \<Rightarrow> if c = ch CHR '':'' then kind_at s (p_position s + 3) \<noteq> Some (Symbol (ch CHR '':''))
         else c = ch CHR '','' \<or> c = ch CHR ''}''
     | _ \<Rightarrow> False)
   | _ \<Rightarrow> False)"

definition parse_name_expression :: "descent \<Rightarrow> string \<Rightarrow> expr parse" where
  "parse_name_expression D name = branch (\<lambda>s. name = ''diff'' \<and> check_symbol CHR ''{'' s)
     (attempt (d_block D) (\<lambda>b. ret (EDifferentiable b)))
     (attempt (optional_type_arguments D) (\<lambda>type_args.
      branch at_path_separator
        (attempt (parse_path name) (\<lambda>segments. case split_segments segments of (module_path, enum_name, variant_name) \<Rightarrow>
           attempt (variant_data (d_expression D)) (\<lambda>data.
           attempt (variant_fields (attempt consume_identifier (\<lambda>field_name. attempt (consume_symbol CHR '':'') (\<lambda>_.
             attempt (d_expression D) (\<lambda>field_value. ret (field_name, field_value)))))) (\<lambda>named.
           ret (EEnumVariant module_path enum_name type_args variant_name data named)))))
      (branch (\<lambda>s. check_symbol CHR ''{'' s \<and> is_struct_literal s)
        (attempt step (\<lambda>_. attempt (optional_comma_list CHR ''}'' (field_or_shorthand EIdentifier (d_expression D))) (\<lambda>fs.
           attempt (consume_symbol CHR ''}'') (\<lambda>_. ret (EStruct name type_args fs)))))
        (ret (EIdentifier name)))))"

definition parse_parenthesized :: "descent \<Rightarrow> expr parse" where
  "parse_parenthesized D = attempt step (\<lambda>_.
     branch (check_symbol CHR '')'') (attempt step (\<lambda>_. ret (ETuple [])))
     (attempt (d_expression D) (\<lambda>first. branch (check_symbol CHR '','')
        (attempt (comma_tail CHR '')'' (d_expression D) [first]) (\<lambda>elements. attempt (consume_symbol CHR '')'') (\<lambda>_. ret (ETuple elements))))
        (attempt (consume_symbol CHR '')'') (\<lambda>_. ret (EGrouping first))))))"

definition parse_array_literal :: "descent \<Rightarrow> expr parse" where
  "parse_array_literal D = attempt step (\<lambda>_.
     attempt (unless_closed CHR '']'' (comma_list_until CHR '']'' (d_expression D))) (\<lambda>elements.
     attempt (consume_symbol CHR '']'') (\<lambda>_. ret (EArray elements))))"

definition parse_symbol_expression :: "descent \<Rightarrow> expr parse" where
  "parse_symbol_expression D =
     branch (check_symbol CHR ''{'') (attempt (d_block D) (\<lambda>b. ret (EBlock b)))
    (branch (check_symbol CHR ''|'')
       (attempt step (\<lambda>_. attempt (parse_lambda_params_after_open_pipe D) (finish_lambda_expression D False)))
    (branch (check_symbol CHR ''('') (parse_parenthesized D)
    (branch (check_symbol CHR ''['') (parse_array_literal D) (fail_with ''P019''))))"

definition parse_keyword_expression :: "descent \<Rightarrow> keyword \<Rightarrow> expr parse" where
  "parse_keyword_expression D k = (case k of
     KTrue \<Rightarrow> attempt step (\<lambda>_. ret (EBool True)) | KFalse \<Rightarrow> attempt step (\<lambda>_. ret (EBool False))
   | KIf \<Rightarrow> parse_if_expression D | KUnless \<Rightarrow> parse_unless_expression D | KMatch \<Rightarrow> parse_match_expression D
   | KAsync \<Rightarrow> parse_async_expression D | KAwait \<Rightarrow> d_unary D | _ \<Rightarrow> fail_with ''P019'')"

definition parse_primary_expression :: "descent \<Rightarrow> expr parse" where
  "parse_primary_expression D = inspecting current (\<lambda>token. case t_kind token of
     Keyword k \<Rightarrow> parse_keyword_expression D k
   | Identifier name \<Rightarrow> attempt step (\<lambda>_. parse_name_expression D (name_of name))
   | Number digits \<Rightarrow> attempt step (\<lambda>_. ret (ENumber digits))
   | StringLiteral chars \<Rightarrow> attempt step (\<lambda>_. ret (EString chars))
   | CharLiteral c \<Rightarrow> attempt step (\<lambda>_. ret (EChar c))
   | FStringLiteral raw \<Rightarrow> attempt step (\<lambda>_. attempt (parse_fstring_parts D raw (t_span token)) (\<lambda>parts. ret (EFString parts)))
   | Operator p \<Rightarrow> if p = OrOp then attempt step (\<lambda>_. finish_lambda_expression D False []) else fail_with ''P019''
   | Symbol _ \<Rightarrow> parse_symbol_expression D
   | EndOfFile \<Rightarrow> fail_with ''P019'')"

section \<open>Statements and blocks\<close>

definition parse_if_let_statement :: "descent \<Rightarrow> stmt parse" where
  "parse_if_let_statement D = attempt (d_pattern D) (\<lambda>p. attempt (consume_symbol CHR ''='') (\<lambda>_. attempt (d_expression D) (\<lambda>v.
     attempt (d_block D) (\<lambda>then_block. attempt (optionally (check_keyword KElse) (d_block D)) (\<lambda>else_block.
     ret (SIfLet p v then_block else_block))))))"

definition parse_while_let_statement :: "descent \<Rightarrow> stmt parse" where
  "parse_while_let_statement D = attempt (d_pattern D) (\<lambda>p. attempt (consume_symbol CHR ''='') (\<lambda>_. attempt (d_expression D) (\<lambda>v.
     attempt (d_block D) (\<lambda>body. ret (SWhileLet p v body)))))"

definition parse_let_statement :: "descent \<Rightarrow> stmt parse" where
  "parse_let_statement D = attempt (branch (check_keyword KMut) step (ret ())) (\<lambda>_. attempt (d_pattern D) (\<lambda>p.
     attempt (optionally (check_symbol CHR '':'') (d_annotation D)) (\<lambda>ty.
     attempt (optionally (check_symbol CHR ''='') (d_expression D)) (\<lambda>v.
     attempt consume_statement_terminator (\<lambda>_. ret (SLet p ty v))))))"

definition parse_return_statement :: "descent \<Rightarrow> stmt parse" where
  "parse_return_statement D = attempt (branch statement_ends_before_current (ret None) (attempt (d_expression D) (\<lambda>e. ret (Some e)))) (\<lambda>v.
     attempt consume_statement_terminator (\<lambda>_. ret (SReturn v)))"

definition parse_while_statement :: "descent \<Rightarrow> stmt parse" where
  "parse_while_statement D = attempt (d_expression D) (\<lambda>condition. attempt (d_block D) (\<lambda>body. ret (SWhile condition body)))"

definition parse_for_statement :: "descent \<Rightarrow> stmt parse" where
  "parse_for_statement D = attempt consume_identifier (\<lambda>iterator.
     attempt (branch (check_keyword KIn) step
       (branch (\<lambda>s. current_kind s = Identifier (str ''of'')) (fail_with ''P016'') (fail_with ''P017''))) (\<lambda>_.
     attempt (d_expression D) (\<lambda>iterable. attempt (d_block D) (\<lambda>body. ret (SFor iterator iterable body)))))"

definition parse_loop_statement :: "descent \<Rightarrow> stmt parse" where
  "parse_loop_statement D = attempt (d_block D) (\<lambda>body. ret (SLoop body))"

definition parse_do_while_statement :: "descent \<Rightarrow> stmt parse" where
  "parse_do_while_statement D = attempt (d_block D) (\<lambda>body. attempt (branch (check_keyword KWhile) step (fail_with ''P001'')) (\<lambda>_.
     attempt (d_expression D) (\<lambda>condition. attempt consume_statement_terminator (\<lambda>_. ret (SDoWhile body condition)))))"

definition parse_switch_statement :: "descent \<Rightarrow> stmt parse" where
  "parse_switch_statement D = attempt (d_expression D) (\<lambda>scrutinee. attempt (consume_symbol CHR ''{'') (\<lambda>_.
     attempt (repeat (\<lambda>(cases, default). branch (\<lambda>s. \<not> check_symbol CHR ''}'' s \<and> p_position s < length (p_tokens s))
       (branch (check_keyword KCase)
          (attempt step (\<lambda>_. attempt (d_expression D) (\<lambda>p.
           attempt (branch (check_symbol CHR '':'') step (fail_with ''P002'')) (\<lambda>_.
           attempt (d_block D) (\<lambda>body. ret (True, (cases @ [(p, body)], default)))))))
       (branch (check_keyword KElse)
          (attempt step (\<lambda>_. attempt (branch (check_symbol CHR '':'') step (ret ())) (\<lambda>_.
           attempt (d_block D) (\<lambda>body. ret (False, (cases, Some body))))))
          (fail_with ''P001'')))
       (ret (False, (cases, default)))) ([], None)) (\<lambda>(cases, default).
     attempt (consume_symbol CHR ''}'') (\<lambda>_. ret (SSwitch scrutinee cases default)))))"

definition lvalue_of :: "expr \<Rightarrow> lvalue option" where
  "lvalue_of e = (case e of EIdentifier x \<Rightarrow> Some (LIdentifier x) | EIndex a i \<Rightarrow> Some (LIndex a i) | EField a f \<Rightarrow> Some (LField a f) | _ \<Rightarrow> None)"

definition ends_with_brace :: "expr \<Rightarrow> bool" where
  "ends_with_brace e = (case e of EIf _ _ _ _ \<Rightarrow> True | EUnless _ _ _ \<Rightarrow> True | _ \<Rightarrow> False)"

definition parse_expression_statement :: "descent \<Rightarrow> stmt parse" where
  "parse_expression_statement D = attempt (d_expression D) (\<lambda>e. branch (check_symbol CHR ''='')
     (attempt step (\<lambda>_. case lvalue_of e of
        None \<Rightarrow> fail_with ''P018''
      | Some target \<Rightarrow> attempt (d_expression D) (\<lambda>v. attempt consume_statement_terminator (\<lambda>_. ret (SAssign target v)))))
     (branch (\<lambda>s. \<not> ends_with_brace e \<and> \<not> check_symbol CHR ''}'' s)
        (attempt consume_statement_terminator (\<lambda>_. ret (SExpr e))) (ret (SExpr e))))"

definition then_let :: "keyword \<Rightarrow> parser \<Rightarrow> bool" where
  "then_let k s \<longleftrightarrow> check_keyword k s \<and> kind_at s (p_position s + 1) = Some (Keyword KLet)"

definition parse_statement_inner :: "descent \<Rightarrow> stmt parse" where
  "parse_statement_inner D =
     branch (then_let KIf) (attempt step (\<lambda>_. attempt step (\<lambda>_. parse_if_let_statement D)))
    (branch (then_let KWhile) (attempt step (\<lambda>_. attempt step (\<lambda>_. parse_while_let_statement D)))
    (inspecting current_kind (\<lambda>kind. case kind of
       Keyword KLet \<Rightarrow> attempt step (\<lambda>_. parse_let_statement D)
     | Keyword KReturn \<Rightarrow> attempt step (\<lambda>_. parse_return_statement D)
     | Keyword KWhile \<Rightarrow> attempt step (\<lambda>_. parse_while_statement D)
     | Keyword KDo \<Rightarrow> attempt step (\<lambda>_. parse_do_while_statement D)
     | Keyword KFor \<Rightarrow> attempt step (\<lambda>_. parse_for_statement D)
     | Keyword KLoop \<Rightarrow> attempt step (\<lambda>_. parse_loop_statement D)
     | Keyword KSwitch \<Rightarrow> attempt step (\<lambda>_. parse_switch_statement D)
     | Keyword KBreak \<Rightarrow> attempt step (\<lambda>_. attempt consume_statement_terminator (\<lambda>_. ret SBreak))
     | Keyword KContinue \<Rightarrow> attempt step (\<lambda>_. attempt consume_statement_terminator (\<lambda>_. ret SContinue))
     | _ \<Rightarrow> parse_expression_statement D)))"

definition parse_block_inner :: "descent \<Rightarrow> blk parse" where
  "parse_block_inner D = attempt (consume_symbol CHR ''{'') (\<lambda>_.
     attempt (repeat (\<lambda>statements. branch (\<lambda>s. \<not> check_symbol CHR ''}'' s \<and> \<not> is_at_end s)
       (inspecting p_position (\<lambda>start_position. recovering (d_statement D) (\<lambda>st. ret (True, statements @ [st]))
          (branch (check_symbol CHR ''}'') (ret (False, statements))
             (attempt (synchronize_with_progress start_position) (\<lambda>_. ret (True, statements))))))
       (ret (False, statements))) []) (\<lambda>statements.
     attempt (consume_symbol CHR ''}'') (\<lambda>_. ret (Block statements))))"

section \<open>The recursion\<close>

definition descend :: "descent \<Rightarrow> descent" where
  "descend D = (let primary = parse_primary_expression D in
     \<lparr>d_expression = guarded (parse_expression_inner D), d_logical_not = guarded (parse_logical_not_inner D),
      d_unary = guarded (parse_unary_inner D primary), d_pattern = guarded (parse_pattern_inner D primary),
      d_annotation = guarded (parse_type_annotation_inner D), d_statement = guarded (parse_statement_inner D),
      d_block = guarded (parse_block_inner D)\<rparr>)"

definition unreachable_parse :: "'a parse" where
  "unreachable_parse s = (Out, s)"

fun descent_at :: "nat \<Rightarrow> descent" where
  "descent_at 0 = descend \<lparr>d_expression = unreachable_parse, d_logical_not = unreachable_parse, d_unary = unreachable_parse,
     d_pattern = unreachable_parse, d_annotation = unreachable_parse, d_statement = unreachable_parse, d_block = unreachable_parse\<rparr>"
| "descent_at (Suc n) = descend (descent_at n)"

definition parse_expression :: "expr parse" where "parse_expression = d_expression (descent_at MAX_PARSE_DEPTH)"

definition parse_pattern :: "pat parse" where "parse_pattern = d_pattern (descent_at MAX_PARSE_DEPTH)"

definition parse_type_annotation :: "annotation parse" where "parse_type_annotation = d_annotation (descent_at MAX_PARSE_DEPTH)"

definition parse_statement :: "stmt parse" where "parse_statement = d_statement (descent_at MAX_PARSE_DEPTH)"

definition parse_block :: "blk parse" where "parse_block = d_block (descent_at MAX_PARSE_DEPTH)"

end
