(* ===== verification/Parser_Items.thy ===== *)
theory Parser_Items
  imports Parser_Expressions
begin

text \<open>
  The items of a module and the module itself: \<open>module.rs\<close> and the files \<open>item_*.rs\<close> in \<open>src/compiler/src/parser\<close>, up to
  \<open>Parser::parse\<close>, which gives the module when there is no diagnostic.
\<close>

section \<open>Imports\<close>

definition parse_module_path :: "string list parse" where
  "parse_module_path = attempt consume_identifier (\<lambda>first. more_names (check_symbol CHR ''.'') step [first])"

definition parse_import_alias :: "string option parse" where
  "parse_import_alias = optionally (check_keyword KAs) consume_identifier"

definition parse_named_import_list :: "bool \<Rightarrow> (string \<times> string option) list parse" where
  "parse_named_import_list inside_braces = repeat (\<lambda>names. attempt consume_identifier (\<lambda>name. attempt parse_import_alias (\<lambda>alias.
     branch (check_symbol CHR '','')
       (attempt step (\<lambda>_. branch (\<lambda>s. check_symbol CHR ''}'' s \<and> inside_braces \<or> \<not> inside_braces \<and> statement_ends_before_current s)
          (ret (False, names @ [(name, alias)])) (ret (True, names @ [(name, alias)]))))
       (ret (False, names @ [(name, alias)]))))) []"

definition parse_import :: "bool \<Rightarrow> import_item parse" where
  "parse_import is_reexport = attempt (consume_keyword KImport) (\<lambda>_. branch (check_symbol CHR ''{'')
     (attempt step (\<lambda>_. attempt (parse_named_import_list True) (\<lambda>names. attempt (consume_symbol CHR ''}'') (\<lambda>_.
      attempt (consume_keyword KFrom) (\<lambda>_. attempt parse_module_path (\<lambda>path. attempt consume_statement_terminator (\<lambda>_.
      ret \<lparr>im_path = path, im_alias = None, im_names = Some names, im_is_reexport = is_reexport\<rparr>)))))))
     (attempt parse_module_path (\<lambda>path. attempt parse_import_alias (\<lambda>alias. attempt consume_statement_terminator (\<lambda>_.
      ret \<lparr>im_path = path, im_alias = alias, im_names = None, im_is_reexport = is_reexport\<rparr>)))))"

definition parse_from_import :: "bool \<Rightarrow> import_item parse" where
  "parse_from_import is_reexport = attempt (consume_keyword KFrom) (\<lambda>_. attempt parse_module_path (\<lambda>path.
     attempt (consume_keyword KImport) (\<lambda>_. attempt (parse_named_import_list False) (\<lambda>names. attempt consume_statement_terminator (\<lambda>_.
     ret \<lparr>im_path = path, im_alias = None, im_names = Some names, im_is_reexport = is_reexport\<rparr>)))))"

section \<open>Attributes and type parameters\<close>

definition parse_attribute_argument :: "attribute_argument parse" where
  "parse_attribute_argument = inspecting current_kind (\<lambda>kind. case kind of
     StringLiteral value \<Rightarrow> attempt step (\<lambda>_. ret (ArgString value))
   | _ \<Rightarrow> attempt consume_identifier (\<lambda>key. branch (check_symbol CHR ''='')
       (attempt step (\<lambda>_. inspecting current_kind (\<lambda>value. case value of
          StringLiteral v \<Rightarrow> attempt step (\<lambda>_. ret (ArgKeyValue key v))
        | Identifier v \<Rightarrow> attempt step (\<lambda>_. ret (ArgKeyValue key v))
        | Number v \<Rightarrow> attempt step (\<lambda>_. ret (ArgKeyValue key v))
        | _ \<Rightarrow> fail_with ''P999'')))
       (ret (ArgName key))))"

text \<open>Elements up to a closing symbol, with an error where neither a comma nor the closing symbol follows.\<close>

definition closed_list :: "char \<Rightarrow> 'a parse \<Rightarrow> 'a list parse" where
  "closed_list close p = repeat (\<lambda>xs. attempt p (\<lambda>x. branch (check_symbol CHR '','')
     (attempt step (\<lambda>_. branch (check_symbol close) (ret (False, xs @ [x])) (ret (True, xs @ [x]))))
     (branch (check_symbol close) (ret (False, xs @ [x])) (fail_with ''P999'')))) []"

definition parse_attribute_arguments :: "attribute_argument list parse" where
  "parse_attribute_arguments = attempt (consume_symbol CHR ''('') (\<lambda>_. branch (check_symbol CHR '')'') (attempt step (\<lambda>_. ret []))
     (attempt (closed_list CHR '')'' parse_attribute_argument) (\<lambda>arguments. attempt (consume_symbol CHR '')'') (\<lambda>_. ret arguments))))"

definition parse_outer_attributes :: "attribute list parse" where
  "parse_outer_attributes = repeat (\<lambda>attributes. branch (check_symbol CHR ''#'')
     (attempt step (\<lambda>_. attempt (consume_symbol CHR ''['') (\<lambda>_. attempt consume_identifier (\<lambda>name.
      attempt (branch (check_symbol CHR ''('') parse_attribute_arguments (ret [])) (\<lambda>arguments.
      attempt (consume_symbol CHR '']'') (\<lambda>_. ret (True, attributes @ [\<lparr>at_name = name, at_arguments = arguments\<rparr>])))))))
     (ret (False, attributes))) []"

definition parse_bounds :: "string list parse" where
  "parse_bounds = repeat (\<lambda>names. attempt consume_identifier (\<lambda>name. then_more (check_symbol CHR ''+'') (names @ [name]))) []"

definition parse_type_parameters :: "type_parameter list parse" where
  "parse_type_parameters = attempt (consume_symbol CHR ''<'') (\<lambda>_. branch (check_symbol CHR ''>'') (attempt step (\<lambda>_. ret []))
     (attempt (closed_list CHR ''>'' (attempt consume_identifier (\<lambda>name.
        attempt (branch (check_symbol CHR '':'') (attempt step (\<lambda>_. parse_bounds)) (ret [])) (\<lambda>bounds.
        ret \<lparr>tp_name = name, tp_bounds = bounds\<rparr>)))) (\<lambda>params. attempt (consume_symbol CHR ''>'') (\<lambda>_. ret params))))"

definition optional_type_parameters :: "type_parameter list parse" where
  "optional_type_parameters = branch (check_symbol CHR ''<'') parse_type_parameters (ret [])"

definition optional_return_type :: "annotation option parse" where
  "optional_return_type = optionally (check_keyword KReturns) parse_type_annotation"

section \<open>Functions, records and enums\<close>

definition parse_function_params :: "(string \<times> annotation option) list parse" where
  "parse_function_params = unless_closed CHR '')'' (comma_list (attempt consume_identifier (\<lambda>name.
     attempt (optionally (check_symbol CHR '':'') parse_type_annotation) (\<lambda>ty. ret (name, ty)))))"

definition parse_function :: "visibility \<Rightarrow> attribute list \<Rightarrow> function_item parse" where
  "parse_function vis attributes = attempt (branch (check_keyword KAsync)
       (attempt step (\<lambda>_. branch check_function_keyword (attempt consume_function_keyword (\<lambda>_. ret True)) (fail_with ''P005'')))
       (attempt consume_function_keyword (\<lambda>_. ret False))) (\<lambda>is_async.
     attempt consume_identifier (\<lambda>name. attempt optional_type_parameters (\<lambda>type_params.
     attempt (consume_symbol CHR ''('') (\<lambda>_. attempt parse_function_params (\<lambda>params. attempt (consume_symbol CHR '')'') (\<lambda>_.
     attempt optional_return_type (\<lambda>return_type. attempt (in_async is_async parse_block) (\<lambda>body.
     ret \<lparr>fu_name = name, fu_visibility = vis, fu_attributes = attributes, fu_is_async = is_async, fu_type_params = type_params,
       fu_params = params, fu_return_type = return_type, fu_body = body\<rparr>))))))))"

definition optional_visibility :: "visibility parse" where
  "optional_visibility = branch (check_keyword KPublic) (attempt step (\<lambda>_. ret Public))
     (branch (check_keyword KInternal) (attempt step (\<lambda>_. ret Internal)) (ret Private))"

definition parse_typed_name :: "(string \<times> annotation) parse" where
  "parse_typed_name = attempt consume_identifier (\<lambda>name. attempt (consume_symbol CHR '':'') (\<lambda>_.
     attempt parse_type_annotation (\<lambda>ty. ret (name, ty))))"

definition parse_struct_field :: "struct_field parse" where
  "parse_struct_field = attempt parse_outer_attributes (\<lambda>attributes. attempt optional_visibility (\<lambda>vis.
     attempt parse_typed_name (\<lambda>(name, ty). ret \<lparr>sf_name = name, sf_attributes = attributes, sf_ty = ty, sf_visibility = vis\<rparr>)))"

definition parse_struct :: "visibility \<Rightarrow> attribute list \<Rightarrow> struct_item parse" where
  "parse_struct vis attributes = attempt consume_record_keyword (\<lambda>_. attempt consume_identifier (\<lambda>name.
     attempt optional_type_parameters (\<lambda>type_params. attempt (consume_symbol CHR ''{'') (\<lambda>_.
     attempt (optional_comma_list CHR ''}'' parse_struct_field) (\<lambda>fs. attempt (consume_symbol CHR ''}'') (\<lambda>_.
     ret \<lparr>st_name = name, st_visibility = vis, st_attributes = attributes, st_fields = fs, st_type_params = type_params\<rparr>))))))"

definition parse_enum_variant :: "enum_variant parse" where
  "parse_enum_variant = attempt parse_outer_attributes (\<lambda>attributes. attempt consume_identifier (\<lambda>name.
     attempt (variant_data parse_type_annotation) (\<lambda>data. attempt (variant_fields parse_typed_name) (\<lambda>named.
     ret \<lparr>ev_name = name, ev_attributes = attributes, ev_data = data, ev_struct_data = named\<rparr>))))"

definition parse_enum :: "visibility \<Rightarrow> attribute list \<Rightarrow> enum_item parse" where
  "parse_enum vis attributes = attempt (consume_keyword KEnum) (\<lambda>_. attempt consume_identifier (\<lambda>name.
     attempt optional_type_parameters (\<lambda>type_params. attempt (consume_symbol CHR ''{'') (\<lambda>_.
     attempt (optional_comma_list CHR ''}'' parse_enum_variant) (\<lambda>variants. attempt (consume_symbol CHR ''}'') (\<lambda>_.
     ret \<lparr>en_name = name, en_visibility = vis, en_attributes = attributes, en_variants = variants, en_type_params = type_params\<rparr>))))))"

section \<open>Traits and implementations\<close>

definition self_param :: "bool \<Rightarrow> bool \<Rightarrow> method_param" where
  "self_param is_reference is_mutable =
     \<lparr>mp_name = ''self'', mp_type_annotation = None, mp_is_self = True, mp_is_reference = is_reference, mp_is_mutable = is_mutable\<rparr>"

definition typed_param :: "bool \<Rightarrow> method_param parse" where
  "typed_param is_mutable = attempt parse_typed_name (\<lambda>(name, ty). ret
     \<lparr>mp_name = name, mp_type_annotation = Some ty, mp_is_self = False, mp_is_reference = False, mp_is_mutable = is_mutable\<rparr>)"

definition at_self :: "parser \<Rightarrow> bool" where
  "at_self s \<longleftrightarrow> current_kind s = Identifier (str ''self'')"

text \<open>A parameter in an \<open>impl\<close> block: behind an ampersand any name is taken for the receiver.\<close>

definition parse_method_param :: "method_param parse" where
  "parse_method_param = branch (check_keyword KMut)
     (attempt step (\<lambda>_. branch at_self (attempt step (\<lambda>_. ret (self_param False True))) (typed_param True)))
     (branch (check_symbol CHR ''&'')
       (attempt step (\<lambda>_. branch (check_keyword KMut)
          (attempt step (\<lambda>_. attempt consume_identifier (\<lambda>_. ret (self_param True True))))
          (attempt consume_identifier (\<lambda>_. ret (self_param True False)))))
     (branch at_self (attempt step (\<lambda>_. ret (self_param False False))) (typed_param False)))"

text \<open>A parameter in a trait or in an implementation of a trait.\<close>

definition parse_trait_param :: "method_param parse" where
  "parse_trait_param = branch at_self (attempt step (\<lambda>_. ret (self_param False False)))
     (branch (check_symbol CHR ''&'')
       (attempt step (\<lambda>_. attempt (branch (check_keyword KMut) (attempt step (\<lambda>_. ret True)) (ret False)) (\<lambda>is_mut.
        branch at_self (attempt step (\<lambda>_. ret (self_param True is_mut))) (fail_with ''P999''))))
       (typed_param False))"

definition parse_params :: "method_param parse \<Rightarrow> method_param list parse" where
  "parse_params param = attempt (consume_symbol CHR ''('') (\<lambda>_. attempt (optional_comma_list CHR '')'' param) (\<lambda>params.
     attempt (consume_symbol CHR '')'') (\<lambda>_. ret params)))"

definition optional_async :: "bool parse" where
  "optional_async = branch (check_keyword KAsync) (attempt step (\<lambda>_. ret True)) (ret False)"

definition parse_method_rest :: "visibility \<Rightarrow> method_param parse \<Rightarrow> method_item parse" where
  "parse_method_rest vis param = attempt optional_async (\<lambda>is_async. attempt consume_function_keyword (\<lambda>_.
     attempt consume_identifier (\<lambda>name. attempt (parse_params param) (\<lambda>params. attempt optional_return_type (\<lambda>return_type.
     attempt (in_async is_async parse_block) (\<lambda>body.
     ret \<lparr>me_name = name, me_is_async = is_async, me_params = params, me_return_type = return_type, me_body = body, me_visibility = vis\<rparr>))))))"

definition parse_trait_method :: "trait_method parse" where
  "parse_trait_method = attempt optional_async (\<lambda>is_async. attempt consume_function_keyword (\<lambda>_. attempt consume_identifier (\<lambda>name.
     attempt (parse_params parse_trait_param) (\<lambda>params. attempt optional_return_type (\<lambda>return_type.
     attempt (branch (check_symbol CHR ''{'') (attempt (in_async is_async parse_block) (\<lambda>b. ret (Some b)))
       (attempt consume_statement_terminator (\<lambda>_. ret None))) (\<lambda>body.
     ret \<lparr>tme_name = name, tme_is_async = is_async, tme_params = params, tme_return_type = return_type, tme_body = body\<rparr>))))))"

text \<open>A loop over elements without separators, up to the closing brace.\<close>

definition elements_to_brace :: "('a list \<Rightarrow> 'a parse) \<Rightarrow> 'a list parse" where
  "elements_to_brace p = repeat (\<lambda>xs. branch (\<lambda>s. \<not> check_symbol CHR ''}'' s \<and> \<not> is_at_end s)
     (attempt (p xs) (\<lambda>x. ret (True, xs @ [x]))) (ret (False, xs))) []"

definition parse_trait_declaration :: "trait_item parse" where
  "parse_trait_declaration = attempt (consume_keyword KTrait) (\<lambda>_. attempt consume_identifier (\<lambda>name.
     attempt optional_type_parameters (\<lambda>type_params.
     attempt (branch (check_symbol CHR '':'') (attempt step (\<lambda>_. parse_bounds)) (ret [])) (\<lambda>parents.
     attempt (consume_symbol CHR ''{'') (\<lambda>_. attempt (elements_to_brace (\<lambda>_. parse_trait_method)) (\<lambda>methods.
     attempt (consume_symbol CHR ''}'') (\<lambda>_.
     ret \<lparr>tr_name = name, tr_parent_traits = parents, tr_methods = methods, tr_type_params = type_params\<rparr>)))))))"

text \<open>A method that is implemented twice is reported and kept.\<close>

definition parse_trait_impl_method :: "method_item list \<Rightarrow> method_item parse" where
  "parse_trait_impl_method methods = attempt (parse_method_rest Public parse_trait_param) (\<lambda>m.
     if me_name m \<in> me_name ` set methods then attempt (report ''P999'') (\<lambda>_. ret m) else ret m)"

definition parse_trait_impl_block :: "string \<Rightarrow> string \<Rightarrow> annotation list \<Rightarrow> type_parameter list \<Rightarrow> trait_impl_item parse" where
  "parse_trait_impl_block trait_name type_name type_args type_params = attempt (consume_symbol CHR ''{'') (\<lambda>_.
     attempt (elements_to_brace parse_trait_impl_method) (\<lambda>methods. attempt (consume_symbol CHR ''}'') (\<lambda>_.
     ret \<lparr>ti_trait_name = trait_name, ti_type_name = type_name, ti_methods = methods, ti_type_args = type_args, ti_type_params = type_params\<rparr>)))"

definition optional_impl_args :: "annotation list parse" where
  "optional_impl_args = branch (check_symbol CHR ''<'') (attempt step (\<lambda>_. attempt (comma_list_to CHR ''>'' parse_type_annotation) (\<lambda>args.
     attempt (consume_symbol CHR ''>'') (\<lambda>_. ret args)))) (ret [])"

definition parse_impl_target :: "string \<Rightarrow> (string option \<times> string) parse" where
  "parse_impl_target first = branch at_path_separator
     (attempt (parse_path first) (\<lambda>segments. ret (Some (join_path (butlast segments)), last segments))) (ret (None, first))"

text \<open>The type arguments of the type that a trait is implemented for are read and dropped.\<close>

definition parse_trait_impl :: "string \<Rightarrow> annotation list \<Rightarrow> type_parameter list \<Rightarrow> item parse" where
  "parse_trait_impl trait_name type_args type_params = attempt step (\<lambda>_. attempt consume_identifier (\<lambda>type_name.
     attempt optional_impl_args (\<lambda>for_type_args.
     attempt (parse_trait_impl_block trait_name type_name type_args type_params) (\<lambda>impl. ret (TraitImplItem impl)))))"

definition parse_inherent_impl :: "string option \<Rightarrow> string \<Rightarrow> annotation list \<Rightarrow> type_parameter list \<Rightarrow> item parse" where
  "parse_inherent_impl module_path target type_args type_params = attempt (consume_symbol CHR ''{'') (\<lambda>_.
     attempt (elements_to_brace (\<lambda>_. attempt optional_visibility (\<lambda>vis. parse_method_rest vis parse_method_param))) (\<lambda>methods.
     attempt (consume_symbol CHR ''}'') (\<lambda>_. ret (ImplItem
       \<lparr>ii_type_name = target, ii_module_path = module_path, ii_methods = methods, ii_type_args = type_args, ii_type_params = type_params\<rparr>))))"

definition parse_impl_block :: "item parse" where
  "parse_impl_block = attempt (consume_keyword KImpl) (\<lambda>_. attempt optional_type_parameters (\<lambda>type_params.
     attempt consume_identifier (\<lambda>first. attempt (parse_impl_target first) (\<lambda>(module_path, target).
     attempt optional_impl_args (\<lambda>type_args. branch (check_keyword KFor)
       (parse_trait_impl first type_args type_params) (parse_inherent_impl module_path target type_args type_params))))))"

section \<open>Aliases, constants and statics\<close>

definition parse_type_alias :: "visibility \<Rightarrow> item parse" where
  "parse_type_alias vis = attempt (consume_keyword KType) (\<lambda>_. attempt consume_identifier (\<lambda>name. attempt (consume_symbol CHR ''='') (\<lambda>_.
     attempt parse_type_annotation (\<lambda>ty. attempt consume_statement_terminator (\<lambda>_. ret (TypeAliasItem name vis ty))))))"

definition parse_global :: "keyword \<Rightarrow> (string \<Rightarrow> annotation option \<Rightarrow> expr \<Rightarrow> item) \<Rightarrow> item parse" where
  "parse_global k build = attempt (consume_keyword k) (\<lambda>_. attempt consume_identifier (\<lambda>name.
     attempt (optionally (check_symbol CHR '':'') parse_type_annotation) (\<lambda>ty. attempt (consume_symbol CHR ''='') (\<lambda>_.
     attempt parse_expression (\<lambda>v. attempt consume_statement_terminator (\<lambda>_. ret (build name ty v)))))))"

definition parse_const_decl :: "visibility \<Rightarrow> item parse" where
  "parse_const_decl vis = parse_global KConst (\<lambda>name. ConstItem name vis)"

definition parse_static_decl :: "visibility \<Rightarrow> item parse" where
  "parse_static_decl vis = parse_global KStatic (\<lambda>name. StaticItem name vis)"

definition consume_reserved_class_item :: "unit parse" where
  "consume_reserved_class_item = attempt (branch (check_keyword KClass) step (ret ())) (\<lambda>_.
     attempt (repeat (\<lambda>brace_depth. branch is_at_end (ret (False, brace_depth))
       (branch (check_symbol CHR ''{'') (attempt step (\<lambda>_. ret (True, brace_depth + 1)))
       (branch (check_symbol CHR ''}'') (attempt step (\<lambda>_. ret (1 < brace_depth, brace_depth - 1)))
       (branch (\<lambda>s. brace_depth = 0 \<and> is_at_boundary s) (ret (False, brace_depth)) (attempt step (\<lambda>_. ret (True, brace_depth))))))) (0 :: nat))
     (\<lambda>_. ret ()))"

section \<open>Items and modules\<close>

definition without_attributes :: "attribute list \<Rightarrow> 'a parse \<Rightarrow> 'a parse" where
  "without_attributes attributes p = (if attributes \<noteq> [] then fail_with ''P999'' else p)"

definition error_expected_item_or_legacy_alias :: "item parse" where
  "error_expected_item_or_legacy_alias = inspecting current_kind (\<lambda>kind.
     if kind \<in> {Identifier (str ''fn''), Identifier (str ''struct''), Identifier (str ''pub'')} then fail_with ''P001'' else fail_with ''P999'')"

definition reserved_class :: "item parse" where
  "reserved_class = attempt (report ''P007'') (\<lambda>_. attempt consume_reserved_class_item (\<lambda>_ s. (Err, s)))"

definition parse_item_with_visibility :: "visibility \<Rightarrow> attribute list \<Rightarrow> item parse" where
  "parse_item_with_visibility vis attributes = inspecting current_kind (\<lambda>kind. case kind of
     Keyword KFunc \<Rightarrow> attempt (parse_function vis attributes) (\<lambda>f. ret (FunctionItem f))
   | Keyword KAsync \<Rightarrow> attempt (parse_function vis attributes) (\<lambda>f. ret (FunctionItem f))
   | Keyword KRecord \<Rightarrow> attempt (parse_struct vis attributes) (\<lambda>d. ret (StructItem d))
   | Keyword KEnum \<Rightarrow> attempt (parse_enum vis attributes) (\<lambda>d. ret (EnumItem d))
   | Keyword KImpl \<Rightarrow> without_attributes attributes parse_impl_block
   | Keyword KTrait \<Rightarrow> without_attributes attributes (attempt parse_trait_declaration (\<lambda>t. ret (TraitItem t)))
   | Keyword KType \<Rightarrow> without_attributes attributes (parse_type_alias vis)
   | Keyword KConst \<Rightarrow> without_attributes attributes (parse_const_decl vis)
   | Keyword KStatic \<Rightarrow> without_attributes attributes (parse_static_decl vis)
   | Keyword KClass \<Rightarrow> reserved_class
   | _ \<Rightarrow> error_expected_item_or_legacy_alias)"

definition parse_any_import :: "bool \<Rightarrow> item parse" where
  "parse_any_import is_reexport = attempt (branch (check_keyword KFrom) (parse_from_import is_reexport) (parse_import is_reexport))
     (\<lambda>i. ret (ImportItem i))"

text \<open>An item behind a visibility modifier. An \<open>internal\<close> import is not a re-export.\<close>

definition after_visibility :: "visibility \<Rightarrow> bool \<Rightarrow> attribute list \<Rightarrow> item parse" where
  "after_visibility vis is_reexport attributes = attempt step (\<lambda>_. branch (\<lambda>s. check_keyword KImport s \<or> check_keyword KFrom s)
     (without_attributes attributes (parse_any_import is_reexport)) (parse_item_with_visibility vis attributes))"

definition parse_item :: "item parse" where
  "parse_item = attempt parse_outer_attributes (\<lambda>attributes. inspecting current_kind (\<lambda>kind. case kind of
     Keyword KImport \<Rightarrow> without_attributes attributes (attempt (parse_import False) (\<lambda>i. ret (ImportItem i)))
   | Keyword KFrom \<Rightarrow> without_attributes attributes (attempt (parse_from_import False) (\<lambda>i. ret (ImportItem i)))
   | Keyword KPublic \<Rightarrow> after_visibility Public True attributes
   | Keyword KInternal \<Rightarrow> after_visibility Internal False attributes
   | _ \<Rightarrow> parse_item_with_visibility Private attributes))"

definition parse_items :: "item list parse" where
  "parse_items = repeat (\<lambda>items. branch is_at_end (ret (False, items))
     (inspecting p_position (\<lambda>start_position. recovering parse_item (\<lambda>i. ret (True, items @ [i]))
        (attempt (synchronize_with_progress start_position) (\<lambda>_. ret (True, items)))))) []"

text \<open>A header that does not parse leaves a module without items, under as much of the name as was read.\<close>

definition abandoned_module :: "string \<Rightarrow> module_tree parse" where
  "abandoned_module name = attempt synchronize (\<lambda>_. ret \<lparr>mo_name = name, mo_items = []\<rparr>)"

definition parse_module_segments :: "string \<Rightarrow> (bool \<times> string list) parse" where
  "parse_module_segments first = repeat (\<lambda>(complete, segments). branch (check_symbol CHR ''.'')
     (attempt step (\<lambda>_. recovering consume_identifier (\<lambda>segment. ret (True, (True, segments @ [segment]))) (ret (False, (False, segments)))))
     (ret (False, (True, segments)))) (True, [first])"

definition parse_module :: "module_tree parse" where
  "parse_module = recovering (consume_keyword KModule) (\<lambda>_. recovering consume_identifier (\<lambda>first.
     attempt (parse_module_segments first) (\<lambda>(complete, segments). if \<not> complete then abandoned_module (join_dots segments)
       else recovering consume_statement_terminator
         (\<lambda>_. attempt parse_items (\<lambda>items. ret \<lparr>mo_name = join_dots segments, mo_items = items\<rparr>))
         (abandoned_module (join_dots segments))))
     (abandoned_module ''error'')) (abandoned_module ''error'')"

text \<open>\<open>None\<close> would be a loop that was not given enough rounds.\<close>

definition parse :: "(nat \<Rightarrow> bool) \<Rightarrow> token list \<Rightarrow> (string list + module_tree) option" where
  "parse stack tokens = (case parse_module (new_parser stack tokens) of
     (Ok m, s) \<Rightarrow> Some (if p_errors s = [] then Inr m else Inl (p_errors s))
   | (Err, s) \<Rightarrow> Some (Inl (p_errors s))
   | (Out, s) \<Rightarrow> None)"

end
