(* ===== verification/Parser_Correct.thy ===== *)
theory Parser_Correct
  imports Parser_Items
begin

text \<open>
  What holds of the parser on every list of tokens: it answers, its position moves forward and stays in range, its
  diagnostics only grow, and a construct that fails has left a diagnostic, so no failure is silent. Two contracts carry this,
  \<open>safe\<close> and, for a parser that takes at least one token when it succeeds, \<open>eats\<close>; there is a rule for each combinator, and the
  proofs follow the definitions. The seven guarded functions are an interface, the locale \<open>tame_descent\<close>, and every depth provides it.
\<close>

section \<open>Contracts\<close>

definition proceeds :: "parser \<Rightarrow> parser \<Rightarrow> bool" where
  "proceeds s s' \<longleftrightarrow> p_tokens s' = p_tokens s \<and> p_stack s' = p_stack s \<and> p_async_context_depth s' = p_async_context_depth s \<and>
     p_position s \<le> p_position s' \<and> p_position s' \<le> length (p_tokens s) \<and> (\<exists>new. p_errors s' = p_errors s @ new) \<and>
     p_depth s \<le> p_depth s' \<and> (p_depth_limit_reported s \<longrightarrow> p_depth_limit_reported s') \<and>
     (p_depth_limit_reported s' \<longrightarrow> p_depth_limit_reported s \<or> p_errors s' \<noteq> p_errors s)"

definition ready :: "nat \<Rightarrow> parser \<Rightarrow> bool" where
  "ready n s \<longleftrightarrow> p_position s \<le> length (p_tokens s) \<and> MAX_PARSE_DEPTH \<le> p_depth s + n"

text \<open>A failure is accounted for: a diagnostic has been added, or the nesting was reported before.\<close>

definition accounted :: "parser \<Rightarrow> parser \<Rightarrow> bool" where
  "accounted s s' \<longleftrightarrow> p_errors s' \<noteq> p_errors s \<or> p_depth_limit_reported s"

definition meets :: "nat \<Rightarrow> (parser \<Rightarrow> bool) \<Rightarrow> ('a \<Rightarrow> bool) \<Rightarrow> 'a parse \<Rightarrow> bool" where
  "meets n P Q p \<longleftrightarrow> (\<forall>s r s'. ready n s \<longrightarrow> P s \<longrightarrow> p s = (r, s') \<longrightarrow> proceeds s s' \<and> r \<noteq> Out \<and> (r = Err \<longrightarrow> accounted s s') \<and>
     (\<forall>x. r = Ok x \<longrightarrow> Q x \<longrightarrow> p_position s < p_position s'))"

definition safe :: "nat \<Rightarrow> 'a parse \<Rightarrow> bool" where
  "safe n p = meets n (\<lambda>_. True) (\<lambda>_. False) p"

definition eats :: "nat \<Rightarrow> (parser \<Rightarrow> bool) \<Rightarrow> 'a parse \<Rightarrow> bool" where
  "eats n P p = meets n P (\<lambda>_. True) p"

text \<open>A round of a loop takes a token when there is to be another one.\<close>

definition rounds :: "nat \<Rightarrow> (parser \<Rightarrow> bool) \<Rightarrow> (bool \<times> 'a) parse \<Rightarrow> bool" where
  "rounds n P body = meets n P fst body"

named_theorems safe_rules
named_theorems eats_rules
named_theorems at_token

lemma proceeds_refl [simp]: "p_position s \<le> length (p_tokens s) \<Longrightarrow> proceeds s s"
  by (simp add: proceeds_def)

lemma proceeds_trans [trans]: "proceeds s s' \<Longrightarrow> proceeds s' s'' \<Longrightarrow> proceeds s s''"
  by (auto simp: proceeds_def)

lemma proceeds_ready: "proceeds s s' \<Longrightarrow> ready n s \<Longrightarrow> ready n s'"
  by (auto simp: proceeds_def ready_def)

lemma accounted_after: "proceeds s s' \<Longrightarrow> proceeds s' s'' \<Longrightarrow> accounted s' s'' \<Longrightarrow> accounted s s''"
  by (auto simp: proceeds_def accounted_def)

lemma accounted_before: "proceeds s s' \<Longrightarrow> proceeds s' s'' \<Longrightarrow> accounted s s' \<Longrightarrow> accounted s s''"
  by (auto simp: proceeds_def accounted_def)

lemma meetsI:
  assumes "\<And>s r s'. ready n s \<Longrightarrow> P s \<Longrightarrow> p s = (r, s') \<Longrightarrow> proceeds s s'"
    and "\<And>s s'. ready n s \<Longrightarrow> P s \<Longrightarrow> p s \<noteq> (Out, s')"
    and "\<And>s s'. ready n s \<Longrightarrow> P s \<Longrightarrow> p s = (Err, s') \<Longrightarrow> accounted s s'"
    and "\<And>s x s'. ready n s \<Longrightarrow> P s \<Longrightarrow> p s = (Ok x, s') \<Longrightarrow> Q x \<Longrightarrow> p_position s < p_position s'"
  shows "meets n P Q p"
  unfolding meets_def using assms by blast

lemma meetsD:
  assumes "meets n P Q p" "ready n s" "P s" "p s = (r, s')"
  shows "proceeds s s'" "ready n s'" "r \<noteq> Out" "r = Err \<Longrightarrow> accounted s s'" "r = Ok x \<Longrightarrow> Q x \<Longrightarrow> p_position s < p_position s'"
  using assms proceeds_ready [of s s' n] unfolding meets_def by blast+

lemma meets_weaken: "meets n P Q p \<Longrightarrow> (\<And>s. P' s \<Longrightarrow> P s) \<Longrightarrow> (\<And>x. Q' x \<Longrightarrow> Q x) \<Longrightarrow> meets n P' Q' p"
  unfolding meets_def by blast

lemma meets_attempt:
  assumes p: "meets n P R p" and k: "\<And>x. meets n (\<lambda>_. True) (\<lambda>y. Q y \<and> \<not> R x) (k x)"
  shows "meets n P Q (attempt p k)"
proof -
  have "proceeds s s' \<and> r \<noteq> Out \<and> (r = Err \<longrightarrow> accounted s s') \<and> (\<forall>y. r = Ok y \<longrightarrow> Q y \<longrightarrow> p_position s < p_position s')"
    if s: "ready n s" "P s" "attempt p k s = (r, s')" for s r s'
  proof -
    obtain q t where q: "p s = (q, t)" by (cases "p s")
    note first = meetsD [OF p s(1,2) q]
    show ?thesis
    proof (cases q)
      case (Ok x)
      then have "k x t = (r, s')" using s(3) q by (simp add: attempt_def)
      note second = meetsD [OF k first(2) TrueI this]
      have "p_position s \<le> p_position t" "p_position t \<le> p_position s'" using first(1) second(1) by (auto simp: proceeds_def)
      then show ?thesis
        using proceeds_trans [OF first(1) second(1)] second(3-) first(5) [OF Ok] accounted_after [OF first(1) second(1)] by fastforce
    qed (use s(3) q first in \<open>auto simp: attempt_def\<close>)
  qed
  then show ?thesis unfolding meets_def by blast
qed

lemma meets_recovering:
  assumes p: "meets n P R p" and k: "\<And>x. meets n (\<lambda>_. True) (\<lambda>y. Q y \<and> \<not> R x) (k x)" and h: "meets n (\<lambda>_. True) Q h"
  shows "meets n P Q (recovering p k h)"
proof -
  have "proceeds s s' \<and> r \<noteq> Out \<and> (r = Err \<longrightarrow> accounted s s') \<and> (\<forall>y. r = Ok y \<longrightarrow> Q y \<longrightarrow> p_position s < p_position s')"
    if s: "ready n s" "P s" "recovering p k h s = (r, s')" for s r s'
  proof -
    obtain q t where q: "p s = (q, t)" by (cases "p s")
    note first = meetsD [OF p s(1,2) q]
    have go: ?thesis if "m t = (r, s')" "meets n (\<lambda>_. True) Q' m" "\<And>y. Q y \<Longrightarrow> Q' y \<or> p_position s < p_position t" for m Q'
    proof -
      note second = meetsD [OF that(2) first(2) TrueI that(1)]
      have "p_position s \<le> p_position t" "p_position t \<le> p_position s'" using first(1) second(1) by (auto simp: proceeds_def)
      then show ?thesis
        using proceeds_trans [OF first(1) second(1)] second(3-) that(3) accounted_after [OF first(1) second(1)] by fastforce
    qed
    show ?thesis
    proof (cases q)
      case (Ok x)
      then show ?thesis using s(3) q first(5) [OF Ok] by (intro go [OF _ k [of x]]) (auto simp: recovering_def)
    next
      case Err
      then show ?thesis using s(3) q by (intro go [OF _ h]) (auto simp: recovering_def)
    qed (use s(3) q first in \<open>auto simp: recovering_def\<close>)
  qed
  then show ?thesis unfolding meets_def by blast
qed

section \<open>Rules for the combinators\<close>

lemma safe_eats: "eats n (\<lambda>_. True) p \<Longrightarrow> safe n p"
  unfolding eats_def safe_def by (auto intro: meets_weaken)

lemma rounds_eats: "eats n P p \<Longrightarrow> rounds n P p"
  unfolding eats_def rounds_def by (auto intro: meets_weaken)

lemma meets_ret: "(Q x \<Longrightarrow> False) \<Longrightarrow> meets n P Q (ret x)"
  by (rule meetsI) (auto simp: ret_def ready_def)

lemma meets_fail: "meets n P Q (fail_with code)"
  by (rule meetsI) (auto simp: fail_with_def push_error_coded_def ready_def proceeds_def accounted_def)

lemma meets_report: "meets n P (\<lambda>_. False) (report code)"
  by (rule meetsI) (auto simp: report_def push_error_coded_def ready_def proceeds_def)

lemma not_at_end_position: "\<not> is_at_end s \<Longrightarrow> p_position s < length (p_tokens s)"
  by (auto simp: is_at_end_def current_kind_def current_def token_at_def eof_sentinel_def new_token_def split: if_splits)

lemma meets_step: "(\<And>s x. P s \<Longrightarrow> Q x \<Longrightarrow> \<not> is_at_end s) \<Longrightarrow> meets n P Q step"
  by (rule meetsI) (auto simp: step_def advance_token_def ready_def proceeds_def dest: not_at_end_position split: if_splits)

lemma meets_branch:
  "meets n (\<lambda>s. P s \<and> b s) Q p \<Longrightarrow> meets n (\<lambda>s. P s \<and> \<not> b s) Q q \<Longrightarrow> meets n P Q (branch b p q)"
  unfolding meets_def branch_def by (metis (full_types))

lemma meets_inspecting: "(\<And>c. meets n (\<lambda>s. P s \<and> f s = c) Q (k c)) \<Longrightarrow> meets n P Q (inspecting f k)"
  unfolding meets_def inspecting_def by metis

lemma iterate_meets:
  assumes body: "\<And>a. meets n (\<lambda>_. True) fst (body a)"
  shows "ready n s \<Longrightarrow> remaining s < m \<Longrightarrow> iterate m body a s = (r, s') \<Longrightarrow> proceeds s s' \<and> r \<noteq> Out \<and> (r = Err \<longrightarrow> accounted s s')"
proof (induction m arbitrary: a s)
  case (Suc m)
  obtain q t where q: "body a s = (q, t)" by (cases "body a s")
  note first = meetsD [OF body Suc(2) TrueI q]
  show ?case
  proof (cases q)
    case (Ok x)
    obtain more a' where x: "x = (more, a')" by (cases x)
    show ?thesis
    proof (cases more)
      case True
      then have "iterate m body a' t = (r, s')" using Suc(4) q Ok x by (simp add: attempt_def)
      moreover have "remaining t < m"
        using first(1) first(5) [OF Ok] True x Suc(3) by (auto simp: remaining_def proceeds_def)
      ultimately have "proceeds t s' \<and> r \<noteq> Out \<and> (r = Err \<longrightarrow> accounted t s')" using Suc(1) first(2) by blast
      then show ?thesis using proceeds_trans [OF first(1)] accounted_after [OF first(1)] by blast
    next
      case False
      then show ?thesis using Suc(4) q Ok x first(1) by (auto simp: attempt_def ret_def)
    qed
  qed (use Suc(4) q first in \<open>auto simp: attempt_def\<close>)
qed simp

lemma meets_repeat: "(\<And>a. meets n (\<lambda>_. True) fst (body a)) \<Longrightarrow> meets n P (\<lambda>_. False) (repeat body a)"
  unfolding meets_def [of n P "\<lambda>_. False"] repeat_def using iterate_meets [of n body] by blast

text \<open>A loop whose first round takes a token takes one.\<close>

lemma meets_repeat_eats:
  assumes "meets n P (\<lambda>_. True) (body a)" "\<And>a. meets n (\<lambda>_. True) fst (body a)"
  shows "meets n P (\<lambda>_. True) (repeat body a)"
proof -
  have first: "repeat body a s = attempt (body a) (\<lambda>(more, a'). if more then iterate (remaining s) body a' else ret a') s" for s
    by (simp add: repeat_def)
  have "p_position s < p_position s'" if s: "ready n s" "P s" "repeat body a s = (Ok x, s')" for s x s'
  proof -
    obtain q t where q: "body a s = (q, t)" by (cases "body a s")
    note f = meetsD [OF assms(1) s(1,2) q]
    obtain y where y: "q = Ok y" using s(3) q unfolding first by (cases q) (auto simp: attempt_def)
    then have moved: "p_position s < p_position t" using f(5) by blast
    show ?thesis
    proof (cases "fst y")
      case True
      then have "iterate (remaining s) body (snd y) t = (Ok x, s')" using s(3) q y unfolding first by (auto simp: attempt_def split: prod.splits)
      moreover have "remaining t < remaining s" using moved f(1) by (auto simp: remaining_def proceeds_def)
      ultimately have "proceeds t s'" using iterate_meets [of n body t "remaining s"] assms(2) f(2) by blast
      then show ?thesis using moved by (simp add: proceeds_def)
    next
      case False
      then show ?thesis using s(3) q y moved unfolding first by (auto simp: attempt_def ret_def split: prod.splits)
    qed
  qed
  moreover have "meets n P (\<lambda>_. False) (repeat body a)" by (rule meets_repeat) (rule assms(2))
  ultimately show ?thesis unfolding meets_def by blast
qed

lemma meets_in_async: "meets n (\<lambda>_. True) Q p \<Longrightarrow> meets n P Q (in_async b p)"
  unfolding in_async_def push_async_context_def pop_async_context_def
proof (cases b)
  case True
  assume p: "meets n (\<lambda>_. True) Q p"
  have "proceeds s s' \<and> r \<noteq> Out \<and> (r = Err \<longrightarrow> accounted s s') \<and> (\<forall>y. r = Ok y \<longrightarrow> Q y \<longrightarrow> p_position s < p_position s')"
    if s: "ready n s" "p (s\<lparr>p_async_context_depth := p_async_context_depth s + 1\<rparr>) = (r, t)"
      "s' = t\<lparr>p_async_context_depth := p_async_context_depth t - 1\<rparr>" for s r s' t
  proof -
    have "ready n (s\<lparr>p_async_context_depth := p_async_context_depth s + 1\<rparr>)" using s(1) by (simp add: ready_def)
    from meetsD [OF p this TrueI s(2)] show ?thesis using s(3) by (auto simp: proceeds_def accounted_def)
  qed
  then show "meets n P Q (\<lambda>s. if b then case p (s\<lparr>p_async_context_depth := p_async_context_depth s + 1\<rparr>) of
      (r, s') \<Rightarrow> (r, s'\<lparr>p_async_context_depth := p_async_context_depth s' - 1\<rparr>) else p s)"
    unfolding meets_def using True by (auto split: prod.splits)
qed (auto intro: meets_weaken)

lemma meets_guarded:
  assumes "\<And>m. n = Suc m \<Longrightarrow> meets m (\<lambda>_. True) Q p"
  shows "meets n P Q (guarded p)"
proof -
  have "proceeds s s' \<and> r \<noteq> Out \<and> (r = Err \<longrightarrow> accounted s s') \<and> (\<forall>y. r = Ok y \<longrightarrow> Q y \<longrightarrow> p_position s < p_position s')"
    if s: "ready n s" "guarded p s = (r, s')" for s r s'
  proof -
    let ?in = "s\<lparr>p_depth := p_depth s + 1, p_measured := p_measured s + 1\<rparr>"
    show ?thesis
    proof (cases "MAX_PARSE_DEPTH < p_depth s + 1 \<or> p_stack s (p_measured s + 1)")
      case True
      then show ?thesis using s
        by (auto simp: guarded_def attempt_def enter_parse_depth_def Let_def push_error_coded_def ready_def proceeds_def accounted_def split: if_splits)
    next
      case False
      then obtain m where m: "n = Suc m" using s(1) by (cases n) (auto simp: ready_def)
      obtain t where t: "p ?in = (r, t)" "s' = exit_parse_depth t"
        using s(2) False by (auto simp: guarded_def attempt_def enter_parse_depth_def Let_def split: prod.splits)
      have "ready m ?in" using s(1) m by (simp add: ready_def)
      from meetsD [OF assms [OF m] this TrueI t(1)] show ?thesis
        using t(2) by (auto simp: proceeds_def accounted_def exit_parse_depth_def)
    qed
  qed
  then show ?thesis unfolding meets_def by blast
qed

lemma safe_combinators [safe_rules]:
  "safe n (ret x)" "safe n (fail_with code)" "safe n (report code)" "safe n step"
  "safe n p \<Longrightarrow> (\<And>x. safe n (k x)) \<Longrightarrow> safe n (attempt p k)"
  "safe n p \<Longrightarrow> (\<And>x. safe n (k x)) \<Longrightarrow> safe n h \<Longrightarrow> safe n (recovering p k h)"
  "safe n p \<Longrightarrow> safe n q \<Longrightarrow> safe n (branch b p q)"
  "(\<And>a. rounds n (\<lambda>_. True) (body a)) \<Longrightarrow> safe n (repeat body a)"
  "safe n p \<Longrightarrow> safe n (in_async is_async p)"
  unfolding safe_def rounds_def
  by (auto intro: meets_ret meets_fail meets_report meets_step meets_attempt meets_recovering meets_repeat meets_in_async
      intro!: meets_branch meets_inspecting elim: meets_weaken)

lemma safe_inspecting [safe_rules]: "(\<And>c. safe n (g c)) \<Longrightarrow> safe n (inspecting f g)"
  unfolding safe_def by (rule meets_inspecting, rule meets_weaken) auto

lemma safe_cases [safe_rules]:
  "(b \<Longrightarrow> safe n p) \<Longrightarrow> (\<not> b \<Longrightarrow> safe n q) \<Longrightarrow> safe n (if b then p else q)"
  "(\<And>x y. z = (x, y) \<Longrightarrow> safe n (g x y)) \<Longrightarrow> safe n (case z of (x, y) \<Rightarrow> g x y)"
  "(z' = None \<Longrightarrow> safe n p) \<Longrightarrow> (\<And>x. z' = Some x \<Longrightarrow> safe n (g' x)) \<Longrightarrow> safe n (case z' of None \<Rightarrow> p | Some x \<Rightarrow> g' x)"
  by (auto split: prod.splits option.splits)

lemma eats_combinators [eats_rules]:
  "eats n P (fail_with code)" "(\<And>s. P s \<Longrightarrow> \<not> is_at_end s) \<Longrightarrow> eats n P step"
  "eats n P p \<Longrightarrow> (\<And>x. safe n (k x)) \<Longrightarrow> eats n P (attempt p k)"
  "eats n (\<lambda>s. P s \<and> b s) p \<Longrightarrow> eats n (\<lambda>s. P s \<and> \<not> b s) q \<Longrightarrow> eats n P (branch b p q)"
  "(\<And>c. eats n (\<lambda>s. P s \<and> f s = c) (g c)) \<Longrightarrow> eats n P (inspecting f g)"
  "eats n (\<lambda>_. True) p \<Longrightarrow> eats n P (in_async is_async p)"
  unfolding safe_def eats_def
  by (auto intro: meets_fail meets_step meets_attempt meets_in_async intro!: meets_branch meets_inspecting elim: meets_weaken)

lemma eats_cases [eats_rules]:
  "(b \<Longrightarrow> eats n P p) \<Longrightarrow> (\<not> b \<Longrightarrow> eats n P q) \<Longrightarrow> eats n P (if b then p else q)"
  "(\<And>x y. z = (x, y) \<Longrightarrow> eats n P (g x y)) \<Longrightarrow> eats n P (case z of (x, y) \<Rightarrow> g x y)"
  "(z' = None \<Longrightarrow> eats n P p) \<Longrightarrow> (\<And>x. z' = Some x \<Longrightarrow> eats n P (g' x)) \<Longrightarrow> eats n P (case z' of None \<Rightarrow> p | Some x \<Rightarrow> g' x)"
  by (auto split: prod.splits option.splits)

text \<open>The token is taken by what comes second.\<close>

lemma eats_second: "safe n p \<Longrightarrow> (\<And>x. eats n (\<lambda>_. True) (k x)) \<Longrightarrow> eats n P (attempt p k)"
  unfolding safe_def eats_def by (rule meets_attempt [where R = "\<lambda>_. False"]) (auto elim: meets_weaken)

lemma eats_repeat: "eats n P (body a) \<Longrightarrow> (\<And>a. rounds n (\<lambda>_. True) (body a)) \<Longrightarrow> eats n P (repeat body a)"
  unfolding eats_def rounds_def by (rule meets_repeat_eats)

lemma eats_weaken: "eats n (\<lambda>_. True) p \<Longrightarrow> eats n P p"
  unfolding eats_def by (auto elim: meets_weaken)

lemma rounds_combinators [eats_rules]:
  "rounds n P (ret (False, x))" "rounds n P (fail_with code)"
  "eats n P p \<Longrightarrow> (\<And>x. safe n (k x)) \<Longrightarrow> rounds n P (attempt p k)"
  "rounds n (\<lambda>s. P s \<and> b s) p' \<Longrightarrow> rounds n (\<lambda>s. P s \<and> \<not> b s) q \<Longrightarrow> rounds n P (branch b p' q)"
  "(\<And>c. rounds n (\<lambda>s. P s \<and> f s = c) (g c)) \<Longrightarrow> rounds n P (inspecting f g)"
  "(d \<Longrightarrow> rounds n P p') \<Longrightarrow> (\<not> d \<Longrightarrow> rounds n P q) \<Longrightarrow> rounds n P (if d then p' else q)"
  "(\<And>x y. z = (x, y) \<Longrightarrow> rounds n P (g' x y)) \<Longrightarrow> rounds n P (case z of (x, y) \<Rightarrow> g' x y)"
  "(z' = None \<Longrightarrow> rounds n P p') \<Longrightarrow> (\<And>x. z' = Some x \<Longrightarrow> rounds n P (g'' x)) \<Longrightarrow> rounds n P (case z' of None \<Rightarrow> p' | Some x \<Rightarrow> g'' x)"
  unfolding safe_def eats_def rounds_def
  by (auto intro: meets_ret meets_fail meets_attempt intro!: meets_branch meets_inspecting elim: meets_weaken split: prod.splits option.splits)

lemma rounds_second: "safe n p \<Longrightarrow> (\<And>x. rounds n (\<lambda>_. True) (k x)) \<Longrightarrow> rounds n P (attempt p k)"
  unfolding safe_def rounds_def by (rule meets_attempt [where R = "\<lambda>_. False"]) (auto elim: meets_weaken)

lemma rounds_recovering:
  "eats n P p \<Longrightarrow> (\<And>x. safe n (k x)) \<Longrightarrow> rounds n (\<lambda>_. True) h \<Longrightarrow> rounds n P (recovering p k h)"
  unfolding safe_def eats_def rounds_def by (rule meets_recovering [where R = "\<lambda>_. True"]) (auto elim: meets_weaken)

section \<open>Tokens, recovery and lists\<close>

lemmas [at_token] = check_symbol_def check_keyword_def check_operator_def check_function_keyword_def check_double_symbol_def is_at_end_def

lemma consume_eats [eats_rules]:
  "eats n P (consume_keyword k)" "eats n P consume_function_keyword" "eats n P consume_record_keyword" "eats n P consume_identifier"
  unfolding consume_keyword_def consume_function_keyword_def consume_record_keyword_def consume_identifier_def
  by (intro eats_rules; auto simp: at_token)+ (intro eats_rules, auto simp: at_token intro!: eats_rules safe_rules split: token_kind.split)

lemma consume_safe [safe_rules]:
  "safe n (consume_keyword k)" "safe n consume_function_keyword" "safe n consume_record_keyword" "safe n consume_identifier"
  by (rule safe_eats, rule eats_rules)+

lemma consume_symbol_safe [safe_rules]: "safe n (consume_symbol c)"
  unfolding consume_symbol_def by (intro safe_rules)

lemma branch_never: "branch (\<lambda>_. False) p q = q"
  by (simp add: branch_def fun_eq_iff)

text \<open>Only three symbols are made up when they are missing.\<close>

lemma consume_symbol_eats [eats_rules]: "c \<notin> set '';})'' \<Longrightarrow> eats n P (consume_symbol c)"
proof -
  assume "c \<notin> set '';})''"
  then have "recover_missing_symbol c = (\<lambda>_. False)" by (auto simp: recover_missing_symbol_def fun_eq_iff)
  then show ?thesis unfolding consume_symbol_def by (simp only: branch_never) (intro eats_rules, auto simp: at_token)
qed

lemma double_symbol:
  "safe n consume_double_symbol" "(\<And>s. P s \<Longrightarrow> \<not> is_at_end s) \<Longrightarrow> eats n P consume_double_symbol"
  unfolding consume_double_symbol_def by (intro safe_rules) (intro eats_rules safe_rules, blast)

declare double_symbol(1) [safe_rules] and double_symbol(2) [eats_rules]

lemma line_rules [safe_rules]: "safe n reject_line_broken_infix" "safe n consume_statement_terminator"
proof -
  show "safe n reject_line_broken_infix" unfolding reject_line_broken_infix_def by (intro safe_rules)
  have "meets n (\<lambda>s. True \<and> check_symbol CHR '';'' s) (\<lambda>_. False) (attempt (report ''P012'') (\<lambda>_. attempt step (\<lambda>_ s. (Err, s))))"
    by (rule meetsI) (auto simp: attempt_def report_def step_def push_error_coded_def advance_token_def ready_def proceeds_def accounted_def
        dest: not_at_end_position split: if_splits)
  then show "safe n consume_statement_terminator"
    unfolding consume_statement_terminator_def safe_def by (intro meets_branch meets_ret meets_fail)
qed

lemma skip_while_safe [safe_rules]: "safe n (skip_while b)"
  unfolding skip_while_def by (intro safe_rules eats_rules) auto

lemma recovery_safe [safe_rules]:
  "safe n synchronize" "safe n (synchronize_with_progress start)" "safe n (recover_in_delimited_list terminators separators)"
  unfolding synchronize_with_progress_def synchronize_def recover_in_delimited_list_def by (intro safe_rules)+

lemma at_end_same: "p_tokens t = p_tokens s \<Longrightarrow> p_position t = p_position s \<Longrightarrow> is_at_end t = is_at_end s"
  by (simp add: is_at_end_def current_kind_def current_def token_at_def)

lemma resync_moves:
  assumes "synchronize_with_progress start s = (Ok x, s')" "ready n s" "start \<le> p_position s" "p_position s = start \<Longrightarrow> \<not> is_at_end s"
  shows "start < p_position s'"
proof -
  obtain t where t: "synchronize s = (Ok (), t)"
    using assms(1) by (cases "fst (synchronize s)"; cases "synchronize s") (auto simp: synchronize_with_progress_def attempt_def)
  have "proceeds s t" using meetsD(1) [OF recovery_safe(1) [unfolded safe_def] assms(2) TrueI t] .
  then show ?thesis using assms(1,3,4) t
    by (auto simp: synchronize_with_progress_def attempt_def branch_def step_def ret_def advance_token_def proceeds_def
        is_at_end_def current_kind_def current_def token_at_def split: if_splits)
qed

text \<open>A round that tries an element and, where that fails, moves to the next place to go on from.\<close>

lemma rounds_resync:
  assumes p: "eats n (\<lambda>_. True) p" and k: "\<And>x. safe n (k x)" and h: "\<And>start. safe n (h start)"
    and moves: "\<And>start s y s'. ready n s \<Longrightarrow> start \<le> p_position s \<Longrightarrow> (p_position s = start \<Longrightarrow> \<not> is_at_end s) \<Longrightarrow>
      h start s = (Ok y, s') \<Longrightarrow> fst y \<Longrightarrow> start < p_position s'"
    and at: "\<And>s. P s \<Longrightarrow> \<not> is_at_end s"
  shows "rounds n P (inspecting p_position (\<lambda>start. recovering p k (h start)))"
proof -
  have "safe n (inspecting p_position (\<lambda>start. recovering p k (h start)))"
    by (intro safe_rules safe_eats [OF p] k h)
  moreover have "p_position s < p_position s'"
    if s: "ready n s" "P s" "inspecting p_position (\<lambda>start. recovering p k (h start)) s = (Ok y, s')" "fst y" for s y s'
  proof -
    obtain q t where q: "p s = (q, t)" by (cases "p s")
    note first = meetsD [OF p [unfolded eats_def] s(1) TrueI q]
    have same: "\<not> is_at_end t" if "p_position t = p_position s"
      using at [OF s(2)] at_end_same [OF _ that] first(1) by (simp add: proceeds_def)
    show ?thesis
    proof (cases q)
      case (Ok x)
      then have "k x t = (Ok y, s')" using s(3) q by (simp add: inspecting_def recovering_def)
      then have "proceeds t s'" using meetsD(1) [OF k [unfolded safe_def] first(2) TrueI] by blast
      then show ?thesis using first(5) [OF Ok] by (simp add: proceeds_def)
    next
      case Err
      then have "h (p_position s) t = (Ok y, s')" using s(3) q by (simp add: inspecting_def recovering_def)
      then show ?thesis using moves [OF first(2) _ same] s(4) first(1) by (simp add: proceeds_def)
    qed (use first in simp)
  qed
  ultimately show ?thesis unfolding safe_def rounds_def meets_def by blast
qed

lemma then_more_rounds:
  "(\<And>s. b s \<Longrightarrow> \<not> is_at_end s) \<Longrightarrow> rounds n P (then_more b xs)" "safe n (then_more b xs)"
  unfolding then_more_def by (intro eats_rules safe_rules, blast) (intro safe_rules)

declare then_more_rounds(1) [eats_rules] and then_more_rounds(2) [safe_rules]

lemma lists_safe [safe_rules]:
  assumes "eats n (\<lambda>_. True) p"
  shows "safe n (comma_list p)" "safe n (comma_tail close p xs)" "safe n (comma_list_until close p)" "safe n (comma_list_to close p)"
    "safe n (optional_comma_list close p)"
proof -
  have p: "eats n P p" "safe n p" for P using eats_weaken [OF assms] safe_eats [OF assms] .
  show comma: "safe n (comma_list p)" unfolding comma_list_def by (intro safe_rules eats_rules p)
  show tail: "safe n (comma_tail close p xs)" for xs unfolding comma_tail_def by (intro safe_rules eats_rules p) (auto simp: at_token)
  show "safe n (comma_list_until close p)" unfolding comma_list_until_def by (intro safe_rules tail p)
  show "safe n (comma_list_to close p)" unfolding comma_list_to_def by (intro safe_rules eats_rules p)
  show "safe n (optional_comma_list close p)" unfolding optional_comma_list_def by (intro safe_rules eats_rules p)
qed

lemma lists_eat: 
  assumes "eats n (\<lambda>_. True) p"
  shows "eats n P (comma_list p)" "eats n P (comma_list_until close p)"
proof -
  have p: "eats n P p" "safe n p" for P using eats_weaken [OF assms] safe_eats [OF assms] .
  show "eats n P (comma_list p)" unfolding comma_list_def by (intro eats_repeat safe_rules eats_rules p)
  show "eats n P (comma_list_until close p)" unfolding comma_list_until_def by (intro safe_rules eats_rules p assms)
qed

lemma unless_closed_safe [safe_rules]: "safe n p \<Longrightarrow> safe n (unless_closed close p)"
  unfolding unless_closed_def by (intro safe_rules)

lemma more_names_safe [safe_rules]: "(\<And>s. b s \<Longrightarrow> \<not> is_at_end s) \<Longrightarrow> eats n b separator \<Longrightarrow> safe n (more_names b separator names)"
  unfolding more_names_def by (intro safe_rules eats_rules) (auto simp: eats_def elim: meets_weaken)

lemma path_safe [safe_rules]: "safe n (parse_path first)"
  unfolding parse_path_def by (intro safe_rules eats_rules; force simp: at_token at_path_separator_def)

lemma optionally_safe [safe_rules]: "safe n p \<Longrightarrow> safe n (optionally b p)"
  unfolding optionally_def by (intro safe_rules)

lemma variant_safe [safe_rules]:
  "eats n (\<lambda>_. True) p \<Longrightarrow> safe n (variant_data p)" "eats n (\<lambda>_. True) q \<Longrightarrow> safe n (variant_fields q)"
  unfolding variant_data_def variant_fields_def by (intro safe_rules; assumption)+

lemma field_eats [eats_rules]: "safe n p \<Longrightarrow> eats n P (field_or_shorthand itself p)"
  unfolding field_or_shorthand_def by (intro eats_rules safe_rules)

lemma join_operand_eats:
  "eats n (\<lambda>_. True) tighter \<Longrightarrow> safe n skip \<Longrightarrow> eats n P (join_operand skip tighter left operator)"
  unfolding join_operand_def by (rule eats_second, rule safe_rules, rule eats_second, assumption, intro eats_rules safe_rules)

lemma rung_eats: "eats n (\<lambda>_. True) tighter \<Longrightarrow> safe n skip \<Longrightarrow> eats n P (rung operator_at skip tighter)"
  unfolding rung_def by (intro eats_rules safe_rules join_operand_eats) (auto intro: eats_weaken)

lemma guarded_eats: "eats n (\<lambda>_. True) p \<Longrightarrow> eats (Suc n) P (guarded p)" "eats 0 P (guarded p)"
  unfolding eats_def by (auto intro: meets_guarded)

section \<open>The guarded functions\<close>

text \<open>What the other parsers rely on: each of the seven functions takes a token or fails with an account of it.\<close>

locale tame_descent =
  fixes D :: descent and n :: nat
  assumes expression: "eats n (\<lambda>_. True) (d_expression D)" and logical_not: "eats n (\<lambda>_. True) (d_logical_not D)"
    and unary: "eats n (\<lambda>_. True) (d_unary D)" and pattern: "eats n (\<lambda>_. True) (d_pattern D)"
    and annotation: "eats n (\<lambda>_. True) (d_annotation D)" and statement: "eats n (\<lambda>_. True) (d_statement D)"
    and block: "eats n (\<lambda>_. True) (d_block D)"
begin

lemmas all_eat = expression logical_not unary pattern annotation statement block

lemmas descent_eats [eats_rules] = all_eat [THEN eats_weaken]

lemmas descent_safe [safe_rules] = all_eat [THEN safe_eats]

lemma type_rules [eats_rules]:
  "(\<And>s. P s \<Longrightarrow> \<not> is_at_end s) \<Longrightarrow> eats n P parse_dyn_type" "(\<And>s. P s \<Longrightarrow> \<not> is_at_end s) \<Longrightarrow> eats n P (parse_function_type D)"
  "(\<And>s. P s \<Longrightarrow> \<not> is_at_end s) \<Longrightarrow> eats n P (parse_array_type D)" "(\<And>s. P s \<Longrightarrow> \<not> is_at_end s) \<Longrightarrow> eats n P (parse_tuple_type D)"
  "eats n P (parse_path_type D)"
  unfolding parse_dyn_type_def parse_function_type_def parse_array_type_def parse_tuple_type_def parse_path_type_def optionally_def
  by (intro eats_rules safe_rules; force simp: at_token)+

lemma type_annotation_eats: "eats n (\<lambda>_. True) (parse_type_annotation_inner D)"
  unfolding parse_type_annotation_inner_def by (intro eats_rules safe_rules; force simp: at_token)

lemma type_arguments_safe [safe_rules]: "safe n (parse_type_arguments D)" "safe n (optional_type_arguments D)"
  unfolding optional_type_arguments_def parse_type_arguments_def by (intro eats_rules safe_rules)+

lemma named_pattern_safe [safe_rules]: "safe n (parse_named_pattern D first)"
  unfolding parse_named_pattern_def by (intro safe_rules eats_rules)

lemma pattern_atom_eats:
  assumes "eats n (\<lambda>_. True) primary"
  shows "eats n P (parse_pattern_atom D primary)"
  unfolding parse_pattern_atom_def
  by (intro eats_rules safe_rules; (force simp: at_token)?)
    (auto intro!: eats_rules safe_rules eats_weaken [OF assms] simp: at_token split: token_kind.split)

lemma pattern_eats: "eats n (\<lambda>_. True) primary \<Longrightarrow> eats n (\<lambda>_. True) (parse_pattern_inner D primary)"
  unfolding parse_pattern_inner_def
  by (intro eats_rules safe_rules pattern_atom_eats safe_eats [OF pattern_atom_eats]; force simp: at_token)

lemma ladder_eats [eats_rules]:
  "eats n P (parse_multiplication D)" "eats n P (parse_addition D)" "eats n P (parse_shift D)" "eats n P (parse_comparison D)"
  "eats n P (parse_equality D)" "eats n P (parse_bit_and D)" "eats n P (parse_bit_xor D)" "eats n P (parse_bit_or D)"
  "eats n P (parse_logical_and D)" "eats n P (parse_logical_or D)"
proof -
  show m: "eats n P (parse_multiplication D)" for P unfolding parse_multiplication_def by (intro rung_eats unary safe_rules)
  show a: "eats n P (parse_addition D)" for P unfolding parse_addition_def by (intro rung_eats m safe_rules)
  show s: "eats n P (parse_shift D)" for P unfolding parse_shift_def by (intro rung_eats a safe_rules)
  show c: "eats n P (parse_comparison D)" for P unfolding parse_comparison_def by (intro eats_rules safe_rules s join_operand_eats)
  show e: "eats n P (parse_equality D)" for P unfolding parse_equality_def by (intro rung_eats c safe_rules)
  show ba: "eats n P (parse_bit_and D)" for P unfolding parse_bit_and_def by (intro rung_eats e safe_rules)
  show bx: "eats n P (parse_bit_xor D)" for P unfolding parse_bit_xor_def by (intro rung_eats ba safe_rules)
  show bo: "eats n P (parse_bit_or D)" for P unfolding parse_bit_or_def by (intro rung_eats bx safe_rules)
  show la: "eats n P (parse_logical_and D)" for P unfolding parse_logical_and_def by (intro rung_eats logical_not safe_rules)
  show "eats n P (parse_logical_or D)" unfolding parse_logical_or_def by (intro rung_eats la safe_rules)
qed

lemma ladder_safe [safe_rules]: "safe n (parse_comparison D)" "safe n (parse_bit_or D)"
  by (rule safe_eats, rule eats_rules)+

lemma logical_not_eats: "eats n (\<lambda>_. True) (parse_logical_not_inner D)"
  unfolding parse_logical_not_inner_def by (intro eats_rules safe_rules; force simp: at_token)

lemma logical_level_rounds: "rounds n (\<lambda>_. True) (logical_level_step D a)"
  unfolding logical_level_step_def by (intro eats_rules safe_rules join_operand_eats)

lemma range_rounds:
  "rounds n P (attempt reject_line_broken_infix (\<lambda>_. attempt step (\<lambda>_. attempt (parse_comparison D) (\<lambda>e. ret (True, g e)))))"
  by (rule rounds_eats, rule eats_second, rule safe_rules, rule eats_second, rule safe_rules, intro eats_rules safe_rules)

lemma expression_eats: "eats n (\<lambda>_. True) (parse_expression_inner D)"
  unfolding parse_expression_inner_def parse_logical_level_rest_def
  by (intro range_rounds logical_level_rounds eats_rules safe_rules)

lemma arguments_eat [eats_rules]: "(\<And>s. P s \<Longrightarrow> \<not> is_at_end s) \<Longrightarrow> eats n P (parse_arguments D)"
  unfolding parse_arguments_def
  by (intro eats_rules safe_rules rounds_second; force simp: at_token)

lemma arguments_safe [safe_rules]: "safe n (parse_arguments D)"
  unfolding parse_arguments_def by (intro eats_rules safe_rules rounds_second; force simp: at_token)

lemma member_eats [eats_rules]: "(\<And>s. P s \<Longrightarrow> \<not> is_at_end s) \<Longrightarrow> eats n P (parse_member D object)"
  unfolding parse_member_def
  by (intro eats_rules safe_rules) (auto intro!: safe_rules split: token_kind.split option.split)

lemma postfix_safe [safe_rules]: "safe n (parse_postfix D e)" "safe n (parse_casts D e)"
  unfolding parse_postfix_def parse_casts_def by (intro eats_rules safe_rules; force simp: at_token)+

lemma unary_eats:
  assumes "eats n (\<lambda>_. True) primary"
  shows "eats n (\<lambda>_. True) (parse_unary_inner D primary)"
proof -
  have "eats n P primary" for P using assms by (rule eats_weaken)
  then show ?thesis unfolding parse_unary_inner_def parse_call_expression_def
    by (intro eats_rules safe_rules; force simp: at_token unary_operator_at_def split: if_splits)
qed

lemma interpolation_safe: "safe n (parse_interpolation D origin chars)"
proof -
  have "proceeds s s' \<and> r \<noteq> Out \<and> r \<noteq> Err" if s: "ready n s" "parse_interpolation D origin chars s = (r, s')" for s r s'
  proof (cases "tokenize (with_origin chars (fst origin) (snd origin))")
    case (Inl lex_errors)
    then show ?thesis using s by (auto simp: parse_interpolation_def proceeds_def ready_def)
  next
    case (Inr tokens)
    obtain q sub where q: "d_expression D (sub_parser s tokens) = (q, sub)" by (cases "d_expression D (sub_parser s tokens)")
    have "ready n (sub_parser s tokens)" using s(1) by (simp add: ready_def sub_parser_def new_parser_def)
    then have "q \<noteq> Out" using meetsD(3) [OF expression [unfolded eats_def] _ TrueI q] by simp
    then show ?thesis using s Inr q
      by (cases q) (auto simp: parse_interpolation_def Let_def push_error_coded_def proceeds_def ready_def split: if_splits)
  qed
  then show ?thesis unfolding safe_def meets_def by blast
qed

lemma fstring_parts_safe: "safe n (fstring_parts D sp raw chars)"
proof (induction "length chars" arbitrary: chars rule: less_induct)
  case less
  show ?case
  proof (cases chars)
    case (Cons c cs)
    obtain lead rest where brace: "brace_literal (tl cs) = (lead, rest)" by fastforce
    obtain lead' rest' where plain: "plain_literal (c # cs) = (lead', rest')" by fastforce
    have "safe n (fstring_parts D sp raw rest)" if "cs \<noteq> []"
      using less [of rest] brace_literal_length [of "tl cs"] brace Cons that by (cases cs) auto
    moreover have "safe n (fstring_parts D sp raw rest')" if "c \<noteq> ch CHR ''{''"
      using less [of rest'] plain_literal_shorter [OF that, of cs] plain Cons by simp
    moreover have "safe n (fstring_parts D sp raw after)" if "interpolation 1 None cs = Some (inner, after)" for inner after
      using less [of after] interpolation_shorter [OF that] Cons by simp
    ultimately show ?thesis unfolding Cons fstring_parts.simps brace plain prod.case
      by (intro safe_rules interpolation_safe) (simp_all only: option.split prod.split, auto intro!: safe_rules interpolation_safe)
  qed (simp add: safe_rules)
qed

lemma fstring_safe [safe_rules]: "safe n (parse_fstring_parts D raw sp)"
  unfolding parse_fstring_parts_def by (rule fstring_parts_safe)

lemma lambda_rules [safe_rules]:
  "safe n (parse_lambda_params_after_open_pipe D)" "safe n (finish_lambda_expression D is_async params)"
  unfolding parse_lambda_params_after_open_pipe_def finish_lambda_expression_def by (intro eats_rules safe_rules)+

lemma arm_eats [eats_rules]: "eats n P (parse_arm D)"
  unfolding parse_arm_def by (intro eats_rules safe_rules; force simp: at_token)

lemma primary_forms [eats_rules]:
  "(\<And>s. P s \<Longrightarrow> \<not> is_at_end s) \<Longrightarrow> eats n P (parse_async_expression D)" "eats n P (parse_if_expression D)"
  "eats n P (parse_unless_expression D)" "eats n P (parse_match_expression D)"
  "(\<And>s. P s \<Longrightarrow> \<not> is_at_end s) \<Longrightarrow> eats n P (parse_parenthesized D)" "(\<And>s. P s \<Longrightarrow> \<not> is_at_end s) \<Longrightarrow> eats n P (parse_array_literal D)"
  unfolding parse_async_expression_def parse_if_expression_def parse_unless_expression_def parse_match_expression_def
    parse_parenthesized_def parse_array_literal_def
  by (intro eats_rules safe_rules; force simp: at_token)+

lemma name_expression_safe [safe_rules]: "safe n (parse_name_expression D name)"
  unfolding parse_name_expression_def by (intro eats_rules safe_rules)

lemma symbol_expression_eats [eats_rules]: "eats n P (parse_symbol_expression D)"
  unfolding parse_symbol_expression_def by (intro eats_rules safe_rules; force simp: at_token)

lemma keyword_expression_eats [eats_rules]: "(\<And>s. P s \<Longrightarrow> \<not> is_at_end s) \<Longrightarrow> eats n P (parse_keyword_expression D k)"
  unfolding parse_keyword_expression_def by (cases k) (simp_all only: keyword.case, (intro eats_rules safe_rules; assumption)+)

lemma primary_eats: "eats n (\<lambda>_. True) (parse_primary_expression D)"
  unfolding parse_primary_expression_def
proof (rule eats_rules)
  fix t
  show "eats n (\<lambda>s. True \<and> current s = t) (case t_kind t of
     Keyword k \<Rightarrow> parse_keyword_expression D k
   | Identifier name \<Rightarrow> attempt step (\<lambda>_. parse_name_expression D (name_of name))
   | Number digits \<Rightarrow> attempt step (\<lambda>_. ret (ENumber digits))
   | StringLiteral chars \<Rightarrow> attempt step (\<lambda>_. ret (EString chars))
   | CharLiteral c \<Rightarrow> attempt step (\<lambda>_. ret (EChar c))
   | FStringLiteral raw \<Rightarrow> attempt step (\<lambda>_. attempt (parse_fstring_parts D raw (t_span t)) (\<lambda>parts. ret (EFString parts)))
   | Operator p \<Rightarrow> if p = OrOp then attempt step (\<lambda>_. finish_lambda_expression D False []) else fail_with ''P019''
   | Symbol _ \<Rightarrow> parse_symbol_expression D
   | EndOfFile \<Rightarrow> fail_with ''P019'')"
    by (cases "t_kind t") (simp_all only: token_kind.case, (intro eats_rules safe_rules; force simp: is_at_end_def current_kind_def)+)
qed

lemma statement_forms [safe_rules]:
  "safe n (parse_if_let_statement D)" "safe n (parse_while_let_statement D)" "safe n (parse_let_statement D)"
  "safe n (parse_return_statement D)" "safe n (parse_while_statement D)" "safe n (parse_for_statement D)" "safe n (parse_loop_statement D)"
  "safe n (parse_do_while_statement D)" "safe n (parse_switch_statement D)"
  unfolding parse_if_let_statement_def parse_while_let_statement_def parse_let_statement_def parse_return_statement_def
    parse_while_statement_def parse_for_statement_def parse_loop_statement_def parse_do_while_statement_def parse_switch_statement_def
  by (intro eats_rules safe_rules; force simp: at_token)+

lemma expression_statement_eats [eats_rules]: "eats n P (parse_expression_statement D)"
  unfolding parse_expression_statement_def by (intro eats_rules safe_rules)

lemma statement_eats: "eats n (\<lambda>_. True) (parse_statement_inner D)"
  unfolding parse_statement_inner_def
  by (intro eats_rules safe_rules; (force simp: at_token then_let_def)?)
    (auto intro!: eats_rules safe_rules simp: at_token split: token_kind.split keyword.split)

lemma block_eats: "eats n (\<lambda>_. True) (parse_block_inner D)"
  unfolding parse_block_inner_def
  by (intro eats_rules safe_rules rounds_resync statement descent_eats)
    (auto simp: branch_def attempt_def ret_def dest: resync_moves split: prod.splits outcome.splits if_splits)

lemma descend_tame: "tame_descent (descend D) (Suc n)"
  by unfold_locales (simp_all add: descend_def Let_def guarded_eats expression_eats logical_not_eats unary_eats pattern_eats primary_eats
      type_annotation_eats statement_eats block_eats)

end

text \<open>At the deepest level every guard refuses, so what it guards does not matter.\<close>

lemma deepest_tame: "tame_descent (descend D) 0"
  by unfold_locales (simp_all add: descend_def Let_def guarded_eats)

lemma levels_tame: "tame_descent (descent_at n) n"
  by (induction n) (simp_all add: deepest_tame tame_descent.descend_tame)

interpretation level: tame_descent "descent_at n" n for n
  by (rule levels_tame)

section \<open>Items and modules\<close>

text \<open>Items are read with nothing on the stack of the recursion, so all its levels are there.\<close>

abbreviation (input) whole :: nat where "whole \<equiv> MAX_PARSE_DEPTH"

lemma entry_eats [eats_rules]:
  "eats whole P parse_expression" "eats whole P parse_type_annotation" "eats whole P parse_block"
  unfolding parse_expression_def parse_type_annotation_def parse_block_def
  by (rule level.descent_eats)+

lemma entry_safe [safe_rules]: "safe whole parse_expression" "safe whole parse_type_annotation" "safe whole parse_block"
  by (rule safe_eats, rule eats_rules)+

lemma import_alias_safe [safe_rules]: "safe n parse_import_alias"
  unfolding parse_import_alias_def by (intro safe_rules)

lemma module_path_eats [eats_rules]: "eats n P parse_module_path"
  unfolding parse_module_path_def by (intro eats_rules safe_rules; force simp: at_token)

lemma module_path_safe [safe_rules]: "safe n parse_module_path"
  by (rule safe_eats, rule eats_rules)

lemma named_imports_safe [safe_rules]: "safe n (parse_named_import_list inside_braces)"
  unfolding parse_named_import_list_def by (intro eats_rules safe_rules)

lemma import_eats [eats_rules]: "eats n P (parse_import is_reexport)" "eats n P (parse_from_import is_reexport)"
  unfolding parse_import_def parse_from_import_def by (intro eats_rules safe_rules)+

lemma closed_list_safe [safe_rules]: "(\<And>P. eats n P p) \<Longrightarrow> safe n (closed_list close p)"
  unfolding closed_list_def by (intro eats_rules safe_rules)

lemma attribute_argument_eats [eats_rules]: "eats n P parse_attribute_argument"
  unfolding parse_attribute_argument_def
  by (intro eats_rules safe_rules) (auto intro!: eats_rules safe_rules simp: at_token split: token_kind.split)

lemma attributes_safe [safe_rules]: "safe n parse_attribute_arguments" "safe n parse_outer_attributes"
proof -
  show a: "safe n parse_attribute_arguments" unfolding parse_attribute_arguments_def by (intro eats_rules safe_rules)
  show "safe n parse_outer_attributes" unfolding parse_outer_attributes_def by (intro a eats_rules safe_rules; force simp: at_token)
qed

lemma bounds_safe [safe_rules]: "safe n parse_bounds"
  unfolding parse_bounds_def by (intro eats_rules safe_rules)

lemma type_parameters_safe [safe_rules]: "safe n parse_type_parameters" "safe n optional_type_parameters"
  unfolding optional_type_parameters_def parse_type_parameters_def by (intro eats_rules safe_rules)+

lemma small_parts_safe [safe_rules]:
  "safe whole optional_return_type" "safe n optional_visibility" "safe n optional_async"
  unfolding optional_return_type_def optional_visibility_def optional_async_def by (intro safe_rules)+

lemma function_params_safe [safe_rules]: "safe whole parse_function_params"
  unfolding parse_function_params_def by (intro eats_rules safe_rules)

lemma function_eats [eats_rules]: "eats whole P (parse_function vis attributes)"
  unfolding parse_function_def by (intro eats_rules safe_rules; force simp: at_token)

lemma typed_name_eats [eats_rules]: "eats whole P parse_typed_name"
  unfolding parse_typed_name_def by (intro eats_rules safe_rules)

lemma declared_parts_eat [eats_rules]: "eats whole P parse_struct_field" "eats whole P parse_enum_variant"
  unfolding parse_struct_field_def parse_enum_variant_def
  by (rule eats_second, rule safe_rules, rule eats_second, rule safe_rules, intro eats_rules safe_rules)
    (rule eats_second, rule safe_rules, intro eats_rules safe_rules)

lemma struct_enum_eat [eats_rules]: "eats whole P (parse_struct vis attributes)" "eats whole P (parse_enum vis attributes)"
  unfolding parse_struct_def parse_enum_def by (intro eats_rules safe_rules)+

lemma params_eat [eats_rules]: "eats whole P (typed_param is_mutable)" "eats whole P parse_method_param" "eats whole P parse_trait_param"
proof -
  show t: "eats whole P (typed_param is_mutable)" for P is_mutable unfolding typed_param_def by (intro eats_rules safe_rules)
  have "safe whole (typed_param is_mutable)" for is_mutable by (rule safe_eats) (rule t)
  then show "eats whole P parse_method_param" "eats whole P parse_trait_param"
    unfolding parse_method_param_def parse_trait_param_def
    by (intro t eats_rules safe_rules; force simp: at_token at_self_def)+
qed

lemma params_safe [safe_rules]: "eats n (\<lambda>_. True) param \<Longrightarrow> safe n (parse_params param)"
  unfolding parse_params_def by (intro safe_rules)

lemma methods_eat [eats_rules]:
  "eats whole (\<lambda>_. True) param \<Longrightarrow> eats whole P (parse_method_rest vis param)" "eats whole P parse_trait_method"
  unfolding parse_method_rest_def parse_trait_method_def
  by (rule eats_second, rule safe_rules, intro eats_rules safe_rules, assumption)
    (rule eats_second, rule safe_rules, intro eats_rules safe_rules)

lemma elements_safe [safe_rules]: "(\<And>xs P. eats n P (p xs)) \<Longrightarrow> safe n (elements_to_brace p)"
  unfolding elements_to_brace_def by (intro eats_rules safe_rules)

lemma trait_eats [eats_rules]: "eats whole P parse_trait_declaration"
  unfolding parse_trait_declaration_def by (intro eats_rules safe_rules)

lemma trait_impl_method_eats [eats_rules]: "eats whole P (parse_trait_impl_method methods)"
  unfolding parse_trait_impl_method_def by (intro eats_rules safe_rules)

lemma impl_parts_safe [safe_rules]:
  "safe whole (parse_trait_impl_block trait_name type_name type_args type_params)" "safe whole optional_impl_args"
  "safe whole (parse_impl_target first)"
  unfolding parse_trait_impl_block_def optional_impl_args_def parse_impl_target_def by (intro eats_rules safe_rules)+

lemma visible_method_eats: "eats whole P (attempt optional_visibility (\<lambda>vis. parse_method_rest vis parse_method_param))"
  by (rule eats_second, rule safe_rules, intro eats_rules)

lemma impl_safe [safe_rules]:
  "safe whole (parse_trait_impl trait_name type_args type_params)" "safe whole (parse_inherent_impl module_path target type_args type_params)"
  unfolding parse_trait_impl_def parse_inherent_impl_def
  by (intro visible_method_eats eats_rules safe_rules)+

lemma other_items_eat [eats_rules]:
  "eats whole P parse_impl_block" "eats whole P (parse_type_alias vis)" "eats whole P (parse_const_decl vis)" "eats whole P (parse_static_decl vis)"
  unfolding parse_impl_block_def parse_type_alias_def parse_const_decl_def parse_static_decl_def parse_global_def
  by (intro eats_rules safe_rules)+

lemma class_item_safe [safe_rules]: "safe n consume_reserved_class_item"
  unfolding consume_reserved_class_item_def by (intro eats_rules safe_rules; force simp: at_token)

text \<open>A declaration that is reserved is reported, skipped and fails.\<close>

lemma reserved_class_eats [eats_rules]: "eats n P reserved_class"
proof -
  have "proceeds s s' \<and> r = Err \<and> accounted s s'" if s: "ready n s" "reserved_class s = (r, s')" for s r s'
  proof -
    let ?s = "push_error_coded ''P007'' s"
    have first: "proceeds s ?s" "ready n ?s" using s(1) by (auto simp: proceeds_def ready_def push_error_coded_def)
    obtain q t where q: "consume_reserved_class_item ?s = (q, t)" by fastforce
    note second = meetsD [OF class_item_safe [unfolded safe_def] first(2) TrueI q]
    have "s' = t \<and> r = Err" using s(2) q second(3) by (cases q) (auto simp: reserved_class_def attempt_def report_def)
    moreover have "accounted s ?s" by (simp add: accounted_def push_error_coded_def)
    ultimately show ?thesis using proceeds_trans [OF first(1) second(1)] accounted_before [OF first(1) second(1)] by simp
  qed
  then show ?thesis unfolding eats_def meets_def by blast
qed

lemma without_attributes_eats [eats_rules]: "eats n P p \<Longrightarrow> eats n P (without_attributes attributes p)"
  unfolding without_attributes_def by (intro eats_rules)

lemma unexpected_item_eats [eats_rules]: "eats n P error_expected_item_or_legacy_alias"
  unfolding error_expected_item_or_legacy_alias_def by (intro eats_rules)

lemma item_with_visibility_eats [eats_rules]: "eats whole P (parse_item_with_visibility vis attributes)"
  unfolding parse_item_with_visibility_def
  by (rule eats_rules) (auto intro!: eats_rules safe_rules split: token_kind.split keyword.split)

lemma any_import_eats [eats_rules]: "eats n P (parse_any_import is_reexport)"
  unfolding parse_any_import_def by (intro eats_rules safe_rules)

lemma after_visibility_eats [eats_rules]: "eats whole P (after_visibility vis is_reexport attributes)"
  unfolding after_visibility_def by (rule eats_second) (intro safe_rules, intro eats_rules)

lemma item_eats: "eats whole P parse_item"
  unfolding parse_item_def
  by (rule eats_second, rule safe_rules, rule eats_rules) (auto intro!: eats_rules safe_rules split: token_kind.split keyword.split)

lemma items_safe [safe_rules]: "safe whole parse_items"
  unfolding parse_items_def
  by (intro eats_rules safe_rules rounds_resync item_eats) (auto simp: attempt_def ret_def dest: resync_moves split: prod.splits outcome.splits)

lemma module_safe: "safe whole parse_module"
  unfolding parse_module_def parse_module_segments_def abandoned_module_def
  by (intro eats_rules safe_rules; force simp: at_token)

section \<open>What an answer means\<close>

lemma module_outcome:
  obtains r s where "parse_module (new_parser stack tokens) = (r, s)" "r \<noteq> Out" "r = Err \<longrightarrow> p_errors s \<noteq> []"
proof -
  obtain r s where r: "parse_module (new_parser stack tokens) = (r, s)" by fastforce
  have "ready whole (new_parser stack tokens)" by (simp add: ready_def new_parser_def)
  from meetsD [OF module_safe [unfolded safe_def] this TrueI r] show ?thesis
    using that [OF r] by (simp add: accounted_def new_parser_def)
qed

text \<open>C8: The parser answers for every list of tokens and however the measurements of the stack come out: with a module, or with at
  least one diagnostic. None of its loops goes round without taking a token, and no failure leaves it without a diagnostic.\<close>

theorem parse_answers:
  "(\<exists>m. parse stack tokens = Some (Inr m)) \<or> (\<exists>errors. errors \<noteq> [] \<and> parse stack tokens = Some (Inl errors))"
proof -
  obtain r s where r: "parse_module (new_parser stack tokens) = (r, s)" "r \<noteq> Out" "r = Err \<longrightarrow> p_errors s \<noteq> []"
    by (rule module_outcome [of stack tokens])
  then show ?thesis by (cases r) (auto simp: parse_def)
qed

text \<open>Elements that are read one behind the other, from the state where the first begins to the state where reading stops.\<close>

inductive chain :: "(parser \<Rightarrow> bool) \<Rightarrow> 'a parse \<Rightarrow> parser \<Rightarrow> 'a list \<Rightarrow> parser \<Rightarrow> bool" where
  chain_done: "stop s \<Longrightarrow> chain stop p s [] s"
| chain_more: "\<not> stop s \<Longrightarrow> p s = (Ok x, t) \<Longrightarrow> chain stop p t xs s' \<Longrightarrow> chain stop p s (x # xs) s'"

lemma same_errors:
  assumes "proceeds s t" "proceeds t s'" "p_errors s' = p_errors s"
  shows "p_errors t = p_errors s" "p_errors s' = p_errors t"
proof -
  obtain new new' where "p_errors t = p_errors s @ new" "p_errors s' = p_errors t @ new'" using assms(1,2) unfolding proceeds_def by blast
  then show "p_errors t = p_errors s" "p_errors s' = p_errors t" using assms(3) by simp_all
qed

text \<open>A loop that puts up with failures, once it has left no diagnostic, has read a chain.\<close>

lemma iterate_chain:
  assumes p: "safe n p" and rounds: "\<And>xs. rounds n (\<lambda>_. True) (body xs)"
    and stops: "\<And>s xs. stop s \<Longrightarrow> body xs s = (Ok (False, xs), s)"
    and goes_on: "\<And>s xs x t. \<not> stop s \<Longrightarrow> p s = (Ok x, t) \<Longrightarrow> body xs s = (Ok (True, xs @ [x]), t)"
    and recovers: "\<And>s xs t r u. \<not> stop s \<Longrightarrow> ready n t \<Longrightarrow> p s = (Err, t) \<Longrightarrow> body xs s = (r, u) \<Longrightarrow> proceeds t u"
  shows "iterate m body xs s = (Ok ys, s') \<Longrightarrow> ready n s \<Longrightarrow> \<not> p_depth_limit_reported s \<Longrightarrow> p_errors s' = p_errors s \<Longrightarrow>
    remaining s < m \<Longrightarrow> \<exists>zs. ys = xs @ zs \<and> chain stop p s zs s'"
proof (induction m arbitrary: xs s)
  case (Suc m)
  have after: "proceeds u s'" if "body xs s = (Ok (more, zs), u)" for more zs u
  proof -
    note first = meetsD [OF rounds [unfolded rounds_def] Suc(3) TrueI that]
    have "iterate m body zs u = (Ok ys, s')" "remaining u < m" if more
      using Suc(2,6) \<open>body xs s = _\<close> that first(1) first(5) [OF refl] by (auto simp: attempt_def remaining_def proceeds_def)
    then show ?thesis using iterate_meets [OF rounds [unfolded rounds_def] first(2)] first(2) Suc(2) that
      by (cases more) (auto simp: attempt_def ret_def ready_def)
  qed
  show ?case
  proof (cases "stop s")
    case True
    then show ?thesis using Suc(2) by (auto simp: stops attempt_def ret_def intro: chain_done)
  next
    case False
    obtain q t where q: "p s = (q, t)" by fastforce
    note first = meetsD [OF p [unfolded safe_def] Suc(3) TrueI q]
    show ?thesis
    proof (cases q)
      case (Ok x)
      note b = goes_on [OF False q [unfolded Ok], of xs]
      have same: "p_errors t = p_errors s" "p_errors s' = p_errors t" using same_errors [OF first(1) after [OF b] Suc(5)] .
      have "\<not> p_depth_limit_reported t" using first(1) same(1) Suc(4) by (simp add: proceeds_def)
      moreover have "remaining t < m" using meetsD(1,5) [OF rounds [unfolded rounds_def] Suc(3) TrueI b] Suc(6)
        by (auto simp: remaining_def proceeds_def)
      moreover have "iterate m body (xs @ [x]) t = (Ok ys, s')" using Suc(2) by (simp add: b attempt_def)
      ultimately obtain zs where "ys = (xs @ [x]) @ zs" "chain stop p t zs s'" using Suc(1) first(2) same(2) by blast
      then show ?thesis using chain_more [of stop s p x t, OF False q [unfolded Ok]] by fastforce
    next
      case Err
      obtain r u where b: "body xs s = (r, u)" by fastforce
      obtain more zs where r: "r = Ok (more, zs)" using Suc(2) b by (cases r) (auto simp: attempt_def)
      have "proceeds t s'" using proceeds_trans [OF recovers [OF False first(2) q [unfolded Err] b] after] b r by blast
      then show ?thesis using same_errors [OF first(1) _ Suc(5)] first(4) [OF Err] Suc(4) by (auto simp: accounted_def)
    qed (use first in simp)
  qed
qed simp

lemma attempt_Ok: "attempt p k s = (Ok y, s') \<longleftrightarrow> (\<exists>x t. p s = (Ok x, t) \<and> k x t = (Ok y, s'))"
  by (auto simp: attempt_def split: prod.splits outcome.splits)

lemma items_chain:
  assumes "parse_items s = (Ok is, s')" "ready whole s" "\<not> p_depth_limit_reported s" "p_errors s' = p_errors s"
  shows "chain is_at_end parse_item s is s'"
proof -
  let ?body = "\<lambda>items. branch is_at_end (ret (False, items))
    (inspecting p_position (\<lambda>start_position. recovering parse_item (\<lambda>i. ret (True, items @ [i]))
      (attempt (synchronize_with_progress start_position) (\<lambda>_. ret (True, items)))))"
  have "\<exists>zs. is = [] @ zs \<and> chain is_at_end parse_item s zs s'"
  proof (rule iterate_chain [where body = ?body and n = whole and m = "Suc (remaining s)"])
    show "rounds whole (\<lambda>_. True) (?body xs)" for xs
      by (intro eats_rules safe_rules rounds_resync item_eats) (auto simp: attempt_def ret_def dest: resync_moves split: prod.splits outcome.splits)
    show "iterate (Suc (remaining s)) ?body [] s = (Ok is, s')" using assms(1) by (simp add: parse_items_def repeat_def)
    fix s xs t r u assume "\<not> is_at_end s" "ready whole t" "parse_item s = (Err, t)" "?body xs s = (r, u)"
    then have "attempt (synchronize_with_progress (p_position s)) (\<lambda>_. ret (True, xs)) t = (r, u)"
      by (simp add: branch_def inspecting_def recovering_def)
    moreover have "safe whole (attempt (synchronize_with_progress (p_position s)) (\<lambda>_. ret (True, xs)))" by (intro safe_rules)
    ultimately show "proceeds t u" using meetsD(1) \<open>ready whole t\<close> unfolding safe_def by blast
  qed (use assms safe_eats [OF item_eats] in \<open>auto simp: branch_def ret_def inspecting_def recovering_def\<close>)
  then show ?thesis by simp
qed

text \<open>As long as there is no diagnostic, no handler has run.\<close>

definition clean :: "nat \<Rightarrow> parser \<Rightarrow> bool" where
  "clean n s \<longleftrightarrow> ready n s \<and> \<not> p_depth_limit_reported s \<and> p_errors s = []"

lemma clean_before: "proceeds s t \<Longrightarrow> ready n t \<Longrightarrow> clean n s \<Longrightarrow> p_errors t = [] \<Longrightarrow> clean n t"
  by (auto simp: clean_def proceeds_def)

lemma errors_before: "proceeds s t \<Longrightarrow> p_errors t = [] \<Longrightarrow> p_errors s = []"
  by (auto simp: proceeds_def)

lemma recovering_clean:
  assumes "recovering p k h s = (Ok y, s')" "clean n s" "p_errors s' = []" "safe n p" "\<And>x. safe n (k x)" "safe n h"
  obtains x t where "p s = (Ok x, t)" "clean n t" "k x t = (Ok y, s')"
proof -
  obtain q t where q: "p s = (q, t)" by fastforce
  have s: "ready n s" using assms(2) by (simp add: clean_def)
  note first = meetsD [OF assms(4) [unfolded safe_def] s TrueI q]
  have none: "p_errors t = []" if "m t = (Ok y, s')" "safe n m" for m
    using errors_before [OF meetsD(1) [OF that(2) [unfolded safe_def] first(2) TrueI that(1)] assms(3)] .
  show ?thesis
  proof (cases q)
    case (Ok x)
    then have "k x t = (Ok y, s')" using assms(1) q by (simp add: recovering_def)
    then show ?thesis using that q Ok clean_before [OF first(1,2) assms(2) none [OF _ assms(5)]] by blast
  next
    case Err
    then have "h t = (Ok y, s')" using assms(1) q by (simp add: recovering_def)
    then have "p_errors t = []" using none assms(6) by blast
    then show ?thesis using first(4) [OF Err] assms(2) by (simp add: accounted_def clean_def)
  qed (use first in simp)
qed

lemma attempt_clean:
  assumes "attempt p k s = (Ok y, s')" "clean n s" "p_errors s' = []" "safe n p" "\<And>x. safe n (k x)"
  obtains x t where "p s = (Ok x, t)" "clean n t" "k x t = (Ok y, s')"
proof -
  obtain x t where x: "p s = (Ok x, t)" "k x t = (Ok y, s')" using assms(1) by (auto simp: attempt_Ok)
  have s: "ready n s" using assms(2) by (simp add: clean_def)
  note first = meetsD [OF assms(4) [unfolded safe_def] s TrueI x(1)]
  have "p_errors t = []" using errors_before [OF meetsD(1) [OF assms(5) [unfolded safe_def] first(2) TrueI x(2)] assms(3)] .
  then show ?thesis using that x clean_before [OF first(1,2) assms(2)] by blast
qed

text \<open>A module name that breaks off leaves a diagnostic.\<close>

lemma incomplete_segments: "parse_module_segments first s = (Ok (False, segments), s') \<Longrightarrow> p_errors s' \<noteq> []"
proof -
  let ?body = "\<lambda>(complete, segments). branch (check_symbol CHR ''.'')
     (attempt step (\<lambda>_. recovering consume_identifier (\<lambda>segment. ret (True, (True, segments @ [segment]))) (ret (False, (False, segments)))))
     (ret (False, (True, segments)))"
  have "iterate m ?body (True, names) s = (Ok (False, segments), s') \<Longrightarrow> p_errors s' \<noteq> []" for m names s
  proof (induction m arbitrary: names s)
    case (Suc m)
    then show ?case
      by (auto simp: attempt_def branch_def step_def recovering_def consume_identifier_def inspecting_def ret_def fail_with_def push_error_coded_def
          split: if_splits token_kind.splits)
  qed simp
  then show "parse_module_segments first s = (Ok (False, segments), s') \<Longrightarrow> p_errors s' \<noteq> []"
    unfolding parse_module_segments_def repeat_def by blast
qed

lemma header_safe [safe_rules]: "safe n (parse_module_segments first)" "safe n (abandoned_module name)"
  unfolding parse_module_segments_def abandoned_module_def by (intro eats_rules safe_rules; force simp: at_token)+

text \<open>C6: An accepted source went through no recovery. Its header was read in full; behind it the items of the module, all of them and in
  their order, are what one successful call of parse_item after the other answers, each called where the one before it ended, until the end of
  the tokens; nothing was skipped between two items, and no diagnostic was reported up to that end. What an item itself makes of its
  tokens is not part of this: expressions are the subject of \<open>Expression_Grammar\<close>, and what stands behind the expression of an
  interpolation in a string is dropped by the code.\<close>

theorem accepted_module_complete:
  assumes "parse stack tokens = Some (Inr m)"
  shows "\<exists>first segments s\<^sub>1 s\<^sub>2 s\<^sub>3 s\<^sub>4 s\<^sub>5. consume_keyword KModule (new_parser stack tokens) = (Ok (), s\<^sub>1) \<and>
    consume_identifier s\<^sub>1 = (Ok first, s\<^sub>2) \<and> parse_module_segments first s\<^sub>2 = (Ok (True, segments), s\<^sub>3) \<and>
    consume_statement_terminator s\<^sub>3 = (Ok (), s\<^sub>4) \<and> mo_name m = join_dots segments \<and>
    chain is_at_end parse_item s\<^sub>4 (mo_items m) s\<^sub>5 \<and> p_errors s\<^sub>5 = []"
proof -
  obtain s where s: "parse_module (new_parser stack tokens) = (Ok m, s)" "p_errors s = []"
    using assms by (auto simp: parse_def split: prod.splits outcome.splits if_splits)
  have start: "clean whole (new_parser stack tokens)" by (simp add: clean_def ready_def new_parser_def)
  obtain s\<^sub>1 where k: "consume_keyword KModule (new_parser stack tokens) = (Ok (), s\<^sub>1)" "clean whole s\<^sub>1"
    and 1: "recovering consume_identifier (\<lambda>first. attempt (parse_module_segments first) (\<lambda>(complete, segments).
      if \<not> complete then abandoned_module (join_dots segments)
      else recovering consume_statement_terminator (\<lambda>_. attempt parse_items (\<lambda>items. ret \<lparr>mo_name = join_dots segments, mo_items = items\<rparr>))
        (abandoned_module (join_dots segments)))) (abandoned_module ''error'') s\<^sub>1 = (Ok m, s)"
    by (rule recovering_clean [OF s(1) [unfolded parse_module_def] start s(2)]) (auto intro!: safe_rules)
  obtain first s\<^sub>2 where f: "consume_identifier s\<^sub>1 = (Ok first, s\<^sub>2)" "clean whole s\<^sub>2"
    and 2: "attempt (parse_module_segments first) (\<lambda>(complete, segments).
      if \<not> complete then abandoned_module (join_dots segments)
      else recovering consume_statement_terminator (\<lambda>_. attempt parse_items (\<lambda>items. ret \<lparr>mo_name = join_dots segments, mo_items = items\<rparr>))
        (abandoned_module (join_dots segments))) s\<^sub>2 = (Ok m, s)"
    by (rule recovering_clean [OF 1 k(2) s(2)]) (auto intro!: safe_rules)
  obtain complete segments s\<^sub>3 where g: "parse_module_segments first s\<^sub>2 = (Ok (complete, segments), s\<^sub>3)" "clean whole s\<^sub>3"
    and 3: "(if \<not> complete then abandoned_module (join_dots segments)
      else recovering consume_statement_terminator (\<lambda>_. attempt parse_items (\<lambda>items. ret \<lparr>mo_name = join_dots segments, mo_items = items\<rparr>))
        (abandoned_module (join_dots segments))) s\<^sub>3 = (Ok m, s)"
    by (rule attempt_clean [OF 2 f(2) s(2)]) (auto intro!: safe_rules)
  have complete using incomplete_segments [of first s\<^sub>2 segments s\<^sub>3] g by (cases complete) (auto simp: clean_def)
  then have 4: "recovering consume_statement_terminator (\<lambda>_. attempt parse_items (\<lambda>items. ret \<lparr>mo_name = join_dots segments, mo_items = items\<rparr>))
        (abandoned_module (join_dots segments)) s\<^sub>3 = (Ok m, s)" using 3 by simp
  obtain s\<^sub>4 where t: "consume_statement_terminator s\<^sub>3 = (Ok (), s\<^sub>4)" "clean whole s\<^sub>4"
    and 5: "attempt parse_items (\<lambda>items. ret \<lparr>mo_name = join_dots segments, mo_items = items\<rparr>) s\<^sub>4 = (Ok m, s)"
    by (rule recovering_clean [OF 4 g(2) s(2)]) (auto intro!: safe_rules)
  obtain items where i: "parse_items s\<^sub>4 = (Ok items, s)" "m = \<lparr>mo_name = join_dots segments, mo_items = items\<rparr>"
    using 5 by (auto simp: attempt_Ok ret_def)
  have "chain is_at_end parse_item s\<^sub>4 items s" using items_chain [OF i(1)] t(2) s(2) by (simp add: clean_def)
  then show ?thesis using k(1) f(1) g(1) t(1) i(2) s(2) \<open>complete\<close> by auto
qed

text \<open>Two lines, a header and an import.\<close>

definition two_lines :: "token list" where
  "two_lines = (let at = (\<lambda>n kind. new_token kind (new_span 0 0 (new_location n 1) (new_location n 2))) in
     [at 1 (Keyword KModule), at 1 (Identifier (str ''demo'')), at 2 (Keyword KImport), at 2 (Identifier (str ''std'')), at 2 EndOfFile])"

lemmas parser_steps = attempt_def recovering_def branch_def inspecting_def ret_def fail_with_def report_def step_def repeat_def remaining_def
  current_kind_def current_def token_at_def is_at_end_def advance_token_def check_keyword_def check_symbol_def consume_keyword_def
  consume_identifier_def consume_statement_terminator_def line_break_before_current_def more_names_def eof_sentinel_def

theorem accepted_module_complete_witness:
  "parse (\<lambda>_. False) two_lines = Some (Inr \<lparr>mo_name = ''demo'',
     mo_items = [ImportItem \<lparr>im_path = [''std''], im_alias = None, im_names = None, im_is_reexport = False\<rparr>]\<rparr>) \<and>
   (\<exists>s s'. chain is_at_end parse_item s
     [ImportItem \<lparr>im_path = [''std''], im_alias = None, im_names = None, im_is_reexport = False\<rparr>] s' \<and> p_errors s' = [])"
proof -
  let ?i = "ImportItem \<lparr>im_path = [''std''], im_alias = None, im_names = None, im_is_reexport = False\<rparr>"
  have "parse (\<lambda>_. False) two_lines = Some (Inr \<lparr>mo_name = ''demo'', mo_items = [?i]\<rparr>)"
    by (simp add: parse_def parse_module_def parse_module_segments_def parse_items_def parse_item_def parse_outer_attributes_def
        without_attributes_def parse_import_def parse_module_path_def parse_import_alias_def optionally_def two_lines_def parser_steps
        new_parser_def new_token_def new_span_def new_location_def name_of_def str_def Let_def join_dots_def char_of_def bit_0)
  then show ?thesis using accepted_module_complete [of "\<lambda>_. False" two_lines "\<lparr>mo_name = ''demo'', mo_items = [?i]\<rparr>"] by auto
qed

section \<open>Sources that are misread\<close>

text \<open>Type arguments at the end of a line are not seen when the next line begins with a keyword such as \<open>func\<close>, nor at the end of the
  file.\<close>

lemma type_args_at_line_end_missed:
  assumes "t_kind (current s) = Symbol (ch CHR ''<'')"
    and "kinds_after s = Identifier name # Symbol (ch CHR ''>'') # next # rest" "next \<in> {EndOfFile, Keyword KFunc, Keyword KReturn, Keyword KLet}"
  shows "\<not> looks_like_type_args_in_annotation s"
  using assms by (auto simp: looks_like_type_args_in_annotation_def may_follow_type_args_def)

text \<open>The operand behind \<open>and\<close>, once a range has been read, is refused when it begins with \<open>not\<close>.\<close>

lemma not_after_range_refused:
  assumes "current_kind s = Keyword KNotWord"
  shows "fst (parse_bit_or (descend D) s) = Err"
proof -
  have inner: "parse_unary_inner D (parse_primary_expression D) t = (Err, push_error_coded ''P019'' t)" if "current_kind t = Keyword KNotWord" for t
  proof -
    have "parse_primary_expression D t = (Err, push_error_coded ''P019'' t)"
      using that by (simp add: parse_primary_expression_def parse_keyword_expression_def inspecting_def current_kind_def fail_with_def)
    then show ?thesis using that
      by (simp add: parse_unary_inner_def parse_call_expression_def attempt_def branch_def inspecting_def check_keyword_def unary_operator_at_def check_symbol_def)
  qed
  have kept: "current_kind t = current_kind s" if "enter_parse_depth s = (r, t)" for r t
    using that by (auto simp: enter_parse_depth_def Let_def current_kind_def current_def token_at_def push_error_coded_def split: if_splits)
  have "fst (d_unary (descend D) s) = Err"
  proof (cases "enter_parse_depth s")
    case (Pair r t)
    then show ?thesis using inner [of t] kept [of r t] assms
      by (cases r) (auto simp: descend_def Let_def guarded_def attempt_def enter_parse_depth_def split: if_splits)
  qed
  then have "parse_bit_or (descend D) s = (Err, snd (d_unary (descend D) s))"
    unfolding parse_bit_or_def parse_bit_xor_def parse_bit_and_def parse_equality_def parse_comparison_def parse_shift_def parse_addition_def
      parse_multiplication_def rung_def attempt_def by (cases "d_unary (descend D) s") simp
  then show ?thesis by simp
qed

text \<open>Of a qualified trait, \<open>impl shapes::Drawable for Circle\<close>, the first segment is taken for the name of the trait.\<close>

definition qualified_impl :: "token list" where
  "qualified_impl = map (\<lambda>kind. new_token kind (new_span 0 0 (new_location 1 1) (new_location 1 2)))
     [Keyword KImpl, Identifier (str ''shapes''), Symbol (ch CHR '':''), Symbol (ch CHR '':''), Identifier (str ''Drawable''),
      Keyword KFor, Identifier (str ''Circle''), Symbol (ch CHR ''{''), Symbol (ch CHR ''}''), EndOfFile]"

lemma qualified_trait_misnamed:
  "fst (parse_impl_block (new_parser stack qualified_impl)) = Ok (TraitImplItem
     \<lparr>ti_trait_name = ''shapes'', ti_type_name = ''Circle'', ti_methods = [], ti_type_args = [], ti_type_params = []\<rparr>)"
  by (simp add: parse_impl_block_def optional_type_parameters_def parse_impl_target_def parse_path_def optional_impl_args_def
      parse_trait_impl_def parse_trait_impl_block_def elements_to_brace_def at_path_separator_def check_double_symbol_def kind_at_def
      consume_double_symbol_def consume_symbol_def qualified_impl_def parser_steps new_parser_def new_token_def new_span_def
      new_location_def name_of_def str_def char_of_def bit_0)

text \<open>A nesting that is refused is still counted: each refusal takes a level from what follows.\<close>

lemma refused_level_counts:
  assumes "enter_parse_depth s = (Err, s')"
  shows "fst (guarded p s) = Err" "p_depth (snd (guarded p s)) = p_depth s + 1"
  using assms by (auto simp: guarded_def attempt_def enter_parse_depth_def Let_def push_error_coded_def split: if_splits)

end
