(* ===== verification/Expression_Grammar.thy ===== *)
theory Expression_Grammar
  imports Parser_Correct
begin

text \<open>
  A grammar of expressions, with the precedence of the operators written into it, and the proof that the parser reads every
  expression of the grammar as the grammar builds it. Literals, names, operators, ranges, groups, tuples, arrays, calls, methods,
  fields, indexing and the question mark are covered; blocks, lambdas, casts, literals of structs and variants are not.
\<close>

section \<open>The grammar\<close>

text \<open>The levels of precedence: 0 a range, 1 to 11 the binary operators with 3 for \<open>not\<close>, 12 the other prefix operators, 13 the postfix
  forms, 14 the primary expressions.\<close>

definition operators :: "(nat \<times> binary_operator \<times> token_kind list) list" where
  "operators =
     [(1, Or, [Operator OrOp]), (1, Or, [Keyword KOrWord]), (2, And, [Operator AndOp]), (2, And, [Keyword KAndWord]),
      (4, BitOr, [Symbol (ch CHR ''|'')]), (5, BitXor, [Symbol (ch CHR ''^'')]), (6, BitAnd, [Symbol (ch CHR ''&'')]),
      (7, Equal, [Operator EqualEqual]), (7, NotEqual, [Operator Lexer.NotEqual]),
      (8, Less, [Symbol (ch CHR ''<'')]), (8, Greater, [Symbol (ch CHR ''>'')]),
      (8, LessEqual, [Operator Lexer.LessEqual]), (8, GreaterEqual, [Operator Lexer.GreaterEqual]),
      (9, Shl, [Symbol (ch CHR ''<''), Symbol (ch CHR ''<'')]), (9, Shr, [Symbol (ch CHR ''>''), Symbol (ch CHR ''>'')]),
      (10, Add, [Symbol (ch CHR ''+'')]), (10, Subtract, [Symbol (ch CHR ''-'')]),
      (11, Multiply, [Symbol (ch CHR ''*'')]), (11, Divide, [Symbol (ch CHR ''/'')]), (11, Modulo, [Symbol (ch CHR ''%'')])]"

fun commas :: "token_kind list list \<Rightarrow> token_kind list" where
  "commas [] = []"
| "commas [ks] = ks"
| "commas (ks # ls # kss) = ks @ Symbol (ch CHR '','') # commas (ls # kss)"

abbreviation is_field :: "expr \<Rightarrow> bool" where
  "is_field e \<equiv> (\<exists>a x. e = EField a x)"

text \<open>\<open>spells n h e ks\<close>: the tokens ks are the expression e at level n, with at most h forms inside each other. The operators of a level group
  to the left, except for the comparisons, which do not chain. A field that is called would be a method.\<close>

inductive spells :: "nat \<Rightarrow> nat \<Rightarrow> expr \<Rightarrow> token_kind list \<Rightarrow> bool" where
  name: "spells 14 h (EIdentifier x) [Identifier (str x)]"
| number: "spells 14 h (ENumber digits) [Number digits]"
| chars: "spells 14 h (EString cs) [StringLiteral cs]"
| char: "spells 14 h (EChar c) [CharLiteral c]"
| bool: "spells 14 h (EBool b) [Keyword (if b then KTrue else KFalse)]"
| group: "spells 0 h e ks \<Longrightarrow> spells 14 (Suc h) (EGrouping e) (Symbol (ch CHR ''('') # ks @ [Symbol (ch CHR '')'')])"
| array: "list_all2 (spells 0 h) es kss \<Longrightarrow> spells 14 (Suc h) (EArray es) (Symbol (ch CHR ''['') # commas kss @ [Symbol (ch CHR '']'')])"
| unit: "spells 14 h (ETuple []) [Symbol (ch CHR ''(''), Symbol (ch CHR '')'')]"
| tuple: "list_all2 (spells 0 h) es kss \<Longrightarrow> 2 \<le> length es \<Longrightarrow>
    spells 14 (Suc h) (ETuple es) (Symbol (ch CHR ''('') # commas kss @ [Symbol (ch CHR '')'')])"
| call: "spells 13 (Suc h) f ks \<Longrightarrow> \<not> is_field f \<Longrightarrow> list_all2 (spells 0 h) args kss \<Longrightarrow>
    spells 13 (Suc h) (ECall f args) (ks @ Symbol (ch CHR ''('') # commas kss @ [Symbol (ch CHR '')'')])"
| method_call: "spells 13 (Suc h) a ks \<Longrightarrow> list_all2 (spells 0 h) args kss \<Longrightarrow> spells 13 (Suc h) (EMethodCall a x args)
    (ks @ Symbol (ch CHR ''.'') # Identifier (str x) # Symbol (ch CHR ''('') # commas kss @ [Symbol (ch CHR '')'')])"
| index: "spells 13 (Suc h) a ks \<Longrightarrow> spells 0 h i ls \<Longrightarrow>
    spells 13 (Suc h) (EIndex a i) (ks @ Symbol (ch CHR ''['') # ls @ [Symbol (ch CHR '']'')])"
| field: "spells 13 h a ks \<Longrightarrow> spells 13 h (EField a x) (ks @ [Symbol (ch CHR ''.''), Identifier (str x)])"
| question: "spells 13 h a ks \<Longrightarrow> spells 13 h (ETry a) (ks @ [Symbol (ch CHR ''?'')])"
| prefix: "spells 12 h e ks \<Longrightarrow> (operator, c) \<in> {(Negate, CHR ''-''), (Not, CHR ''!''), (BitNot, CHR ''~'')} \<Longrightarrow>
    spells 12 (Suc h) (EUnary operator e) (Symbol (ch c) # ks)"
| negation: "spells 3 h e ks \<Longrightarrow> spells 3 (Suc h) (EUnary Not e) (Keyword KNotWord # ks)"
| binary: "(n, operator, ts) \<in> set operators \<Longrightarrow> spells (if n = 8 then 9 else n) h l ks \<Longrightarrow> spells (Suc n) h r ls \<Longrightarrow>
    spells n h (EBinary l operator r) (ks @ ts @ ls)"
| range: "spells 1 h a ks \<Longrightarrow> spells 8 h b ls \<Longrightarrow>
    spells 0 h (ERange a b inclusive) (ks @ Operator (if inclusive then RangeInclusive else RangeOp) # ls)"
| tighter: "spells (Suc n) h e ks \<Longrightarrow> n < 14 \<Longrightarrow> spells n h e ks"

section \<open>What comes behind an expression\<close>

text \<open>The level at which the tokens that follow would be joined to what was read.\<close>

definition binding :: "token_kind list \<Rightarrow> nat option" where
  "binding ks = (case ks of
     [] \<Rightarrow> None
   | Operator p # _ \<Rightarrow>
       if p = RangeOp \<or> p = RangeInclusive then Some 0 else if p = OrOp then Some 1 else if p = AndOp then Some 2
       else if p = EqualEqual \<or> p = Lexer.NotEqual then Some 7 else if p = Lexer.LessEqual \<or> p = Lexer.GreaterEqual then Some 8 else None
   | Keyword k # _ \<Rightarrow> if k = KOrWord then Some 1 else if k = KAndWord then Some 2 else if k = KAs then Some 13 else None
   | Symbol c # rest \<Rightarrow>
       if c = ch CHR ''|'' then Some 4 else if c = ch CHR ''^'' then Some 5 else if c = ch CHR ''&'' then Some 6
       else if c = ch CHR ''<'' \<or> c = ch CHR ''>'' then (case rest of k # _ \<Rightarrow> if k = Symbol c then Some 9 else Some 8 | [] \<Rightarrow> Some 8)
       else if c \<in> set (str ''+-'') then Some 10 else if c \<in> set (str ''*/%'') then Some 11
       else if c \<in> set (str ''([.?'') then Some 13 else if c \<in> set (str '':{'') then Some 14 else None
   | _ \<Rightarrow> None)"

definition follows :: "nat \<Rightarrow> token_kind list \<Rightarrow> bool" where
  "follows n ks = (case binding ks of None \<Rightarrow> True | Some m \<Rightarrow> m < n)"

lemma follows_mono: "follows n ks \<Longrightarrow> n \<le> m \<Longrightarrow> follows m ks"
  by (auto simp: follows_def split: option.splits)

text \<open>The first token of an expression.\<close>

definition opener :: "nat \<Rightarrow> token_kind \<Rightarrow> bool" where
  "opener n k = (case k of
     Identifier _ \<Rightarrow> True | Number _ \<Rightarrow> True | StringLiteral _ \<Rightarrow> True | CharLiteral _ \<Rightarrow> True
   | Keyword w \<Rightarrow> w = KTrue \<or> w = KFalse \<or> w = KNotWord \<and> n \<le> 3
   | Symbol c \<Rightarrow> c \<in> set (str ''(['') \<or> c \<in> set (str ''-!~'') \<and> n \<le> 12
   | _ \<Rightarrow> False)"

lemma opener_mono: "opener n k \<Longrightarrow> m \<le> n \<Longrightarrow> opener m k"
  by (auto simp: opener_def split: token_kind.splits)

lemma operators_level: "(n, operator, ts) \<in> set operators \<Longrightarrow> n \<in> {1, 2, 4, 5, 6, 7, 8, 9, 10, 11}"
  unfolding operators_def by auto

lemma spells_opener: "spells n h e ks \<Longrightarrow> \<exists>k ls. ks = k # ls \<and> opener n k"
proof (induction rule: spells.induct)
  case (binary n operator ts h l ks r ls)
  then show ?case by (auto split: if_splits dest: opener_mono [where m = 8])
next
  case (tighter n h e ks)
  then show ?case using opener_mono [of "Suc n" _ n] by auto
next
  case (range h a ks b ls inclusive)
  then show ?case using opener_mono [of 1 _ 0] by auto
qed (auto simp: opener_def str_def)

section \<open>Reading\<close>

definition ahead :: "parser \<Rightarrow> token_kind list" where
  "ahead s = map t_kind (drop (p_position s) (p_tokens s))"

definition one_line :: "token list \<Rightarrow> bool" where
  "one_line tokens = successively (\<lambda>a b. line (start_location (t_span b)) \<le> line (end_location (t_span a))) tokens"

text \<open>There is stack enough, no line is broken, and no bracket ahead looks like the end of type arguments.\<close>

definition fair :: "parser \<Rightarrow> bool" where
  "fair s \<longleftrightarrow> (\<forall>n. \<not> p_stack s n) \<and> one_line (p_tokens s) \<and>
     successively (\<lambda>a b. a = Symbol (ch CHR ''>'') \<longrightarrow> b \<noteq> Symbol (ch CHR '':'') \<and> b \<noteq> Symbol (ch CHR ''{'')) (ahead s)"

definition moved :: "nat \<Rightarrow> parser \<Rightarrow> parser \<Rightarrow> bool" where
  "moved k s t \<longleftrightarrow> (\<exists>m. t = s\<lparr>p_position := p_position s + k, p_measured := m\<rparr>)"

text \<open>The parser p reads the tokens ks as x, in any state with room for that many levels, where what comes behind satisfies a condition.\<close>

definition reads :: "nat \<Rightarrow> 'a parse \<Rightarrow> token_kind list \<Rightarrow> 'a \<Rightarrow> (token_kind list \<Rightarrow> bool) \<Rightarrow> bool" where
  "reads room p ks x behind \<longleftrightarrow> (\<forall>s rest. fair s \<longrightarrow> p_depth s + room \<le> MAX_PARSE_DEPTH \<longrightarrow> ahead s = ks @ rest \<longrightarrow> behind rest \<longrightarrow>
     (\<exists>t. moved (length ks) s t \<and> p s = (Ok x, t)))"

lemma current_kind_ahead: "current_kind s = (case ahead s of [] \<Rightarrow> EndOfFile | k # _ \<Rightarrow> k)"
  by (cases "p_position s < length (p_tokens s)")
    (auto simp: ahead_def current_kind_def current_def token_at_def eof_sentinel_def new_token_def Cons_nth_drop_Suc [symmetric])

lemma second_ahead: "kind_at s (Suc (p_position s)) = (case ahead s of k # l # _ \<Rightarrow> Some l | _ \<Rightarrow> None)"
proof (cases "drop (p_position s) (p_tokens s)")
  case (Cons a xs)
  then have "drop (Suc (p_position s)) (p_tokens s) = xs" by (metis drop_Suc tl_drop list.sel(3))
  moreover have "xs \<noteq> [] \<longleftrightarrow> Suc (p_position s) < length (p_tokens s)" using calculation by force
  ultimately show ?thesis using Cons
    by (cases xs) (auto simp: ahead_def kind_at_def token_at_def hd_drop_conv_nth [symmetric])
qed (simp add: ahead_def kind_at_def token_at_def)

lemma kinds_after_ahead: "kinds_after s = tl (ahead s)"
  by (simp add: kinds_after_def ahead_def map_tl [symmetric] tl_drop drop_Suc)

lemma ahead_moved: "moved k s t \<Longrightarrow> ahead t = drop k (ahead s)"
  by (auto simp: moved_def ahead_def drop_map add.commute)

lemma moved_0: "moved 0 s s"
  unfolding moved_def by (rule exI [of _ "p_measured s"]) simp

lemma moved_1: "moved (Suc 0) s (s\<lparr>p_position := Suc (p_position s)\<rparr>)"
  unfolding moved_def by (rule exI [of _ "p_measured s"]) simp

lemma moved_trans: "moved k s t \<Longrightarrow> moved j t u \<Longrightarrow> moved (k + j) s u"
  by (auto simp: moved_def add.assoc)

lemma moved_depth: "moved k s t \<Longrightarrow> p_depth t = p_depth s"
  by (auto simp: moved_def)

lemma fair_moved: "moved k s t \<Longrightarrow> fair s \<Longrightarrow> fair t"
proof -
  assume m: "moved k s t" and f: "fair s"
  have "successively P (take k (ahead s) @ drop k (ahead s)) \<Longrightarrow> successively P (drop k (ahead s))" for P
    unfolding successively_append_iff by blast
  then show "fair t" using m f ahead_moved [OF m] by (auto simp: fair_def moved_def)
qed

lemma readsI:
  assumes "\<And>s rest. fair s \<Longrightarrow> p_depth s + room \<le> MAX_PARSE_DEPTH \<Longrightarrow> ahead s = ks @ rest \<Longrightarrow> behind rest \<Longrightarrow> \<exists>t. moved (length ks) s t \<and> p s = (Ok x, t)"
  shows "reads room p ks x behind"
  using assms unfolding reads_def by blast

lemma readsE:
  assumes "reads room p ks x behind" "fair s" "p_depth s + room \<le> MAX_PARSE_DEPTH" "ahead s = ks @ rest" "behind rest"
  obtains t where "moved (length ks) s t" "p s = (Ok x, t)" "fair t" "p_depth t + room \<le> MAX_PARSE_DEPTH" "ahead t = rest"
proof -
  obtain t where t: "moved (length ks) s t" "p s = (Ok x, t)" using assms unfolding reads_def by blast
  then show ?thesis using that [OF t] fair_moved [OF t(1) assms(2)] moved_depth [OF t(1)] ahead_moved [OF t(1)] assms(3,4) by simp
qed

lemma reads_behind: "reads room p ks x behind \<Longrightarrow> (\<And>rest. behind' rest \<Longrightarrow> behind rest) \<Longrightarrow> reads room p ks x behind'"
  unfolding reads_def by blast

lemma reads_room: "reads room p ks x behind \<Longrightarrow> room \<le> room' \<Longrightarrow> reads room' p ks x behind"
  unfolding reads_def by (meson add_left_mono le_trans)

lemma reads_attempt:
  assumes p: "reads room p ks x behind'" and k: "reads room (k x) ls y behind" and "\<And>rest. behind rest \<Longrightarrow> behind' (ls @ rest)"
  shows "reads room (attempt p k) (ks @ ls) y behind"
proof (rule readsI)
  fix s rest assume s: "fair s" "p_depth s + room \<le> MAX_PARSE_DEPTH" "ahead s = (ks @ ls) @ rest" "behind rest"
  obtain t where t: "moved (length ks) s t" "p s = (Ok x, t)" "fair t" "p_depth t + room \<le> MAX_PARSE_DEPTH" "ahead t = ls @ rest"
    using readsE [OF p s(1,2), of "ls @ rest"] s(3,4) assms(3) by auto
  obtain u where "moved (length ls) t u" "k x t = (Ok y, u)" using readsE [OF k t(3,4,5) s(4)] by blast
  then show "\<exists>t. moved (length (ks @ ls)) s t \<and> attempt p k s = (Ok y, t)"
    using t(1,2) moved_trans by (auto simp: attempt_def)
qed

lemma reads_ret: "reads room (ret x) [] x behind"
  by (rule readsI) (simp add: ret_def moved_0)

lemma reads_branch:
  "(\<And>s rest. fair s \<Longrightarrow> ahead s = ks @ rest \<Longrightarrow> behind rest \<Longrightarrow> b s) \<Longrightarrow> reads room p ks x behind \<Longrightarrow> reads room (branch b p q) ks x behind"
  "(\<And>s rest. fair s \<Longrightarrow> ahead s = ks @ rest \<Longrightarrow> behind rest \<Longrightarrow> \<not> b s) \<Longrightarrow> reads room q ks x behind \<Longrightarrow> reads room (branch b p q) ks x behind"
  unfolding reads_def branch_def by simp_all

lemma reads_inspecting:
  "(\<And>s rest. fair s \<Longrightarrow> ahead s = ks @ rest \<Longrightarrow> behind rest \<Longrightarrow> f s = c) \<Longrightarrow> reads room (k c) ks x behind \<Longrightarrow>
    reads room (inspecting f k) ks x behind"
  unfolding reads_def inspecting_def by fastforce

lemma reads_step: "k \<noteq> EndOfFile \<Longrightarrow> reads room step [k] () behind"
  by (rule readsI) (simp add: step_def advance_token_def is_at_end_def current_kind_ahead moved_1)

lemma reads_skip: "k \<noteq> EndOfFile \<Longrightarrow> reads room (f ()) ls y behind \<Longrightarrow> reads room (attempt step f) (k # ls) y behind"
  using reads_attempt [OF reads_step, of k room f ls y behind "\<lambda>_. True"] by simp

lemma reads_symbol: "reads room (consume_symbol c) [Symbol (ch c)] () behind"
  unfolding consume_symbol_def by (rule reads_branch(1)) (auto simp: check_symbol_def current_kind_ahead intro: reads_step)

lemma name_of_str [simp]: "name_of (str x) = x"
  by (simp add: name_of_def str_def)

lemma reads_identifier: "reads room consume_identifier [Identifier (str x)] x behind"
  unfolding consume_identifier_def
  by (rule reads_inspecting [where c = "Identifier (str x)"]) (auto simp: current_kind_ahead intro: reads_skip reads_ret)

lemma reads_guarded:
  assumes "reads room p ks x behind"
  shows "reads (Suc room) (guarded p) ks x behind"
proof (rule readsI)
  fix s rest assume s: "fair s" "p_depth s + Suc room \<le> MAX_PARSE_DEPTH" "ahead s = ks @ rest" "behind rest"
  let ?s = "s\<lparr>p_depth := p_depth s + 1, p_measured := p_measured s + 1\<rparr>"
  have enter: "enter_parse_depth s = (Ok (), ?s)" using s(1,2) by (simp add: enter_parse_depth_def Let_def fair_def)
  have "fair ?s" "p_depth ?s + room \<le> MAX_PARSE_DEPTH" "ahead ?s = ks @ rest" using s by (simp_all add: fair_def ahead_def)
  then obtain t where "moved (length ks) ?s t" "p ?s = (Ok x, t)" using readsE [OF assms _ _ _ s(4)] by blast
  then show "\<exists>t. moved (length ks) s t \<and> guarded p s = (Ok x, t)"
    by (auto simp: guarded_def attempt_def enter moved_def exit_parse_depth_def)
qed

section \<open>Loops\<close>

text \<open>The parser p has read ks as x and is in a loop with this body.\<close>

definition reaches :: "nat \<Rightarrow> 'a parse \<Rightarrow> ('a \<Rightarrow> (bool \<times> 'a) parse) \<Rightarrow> token_kind list \<Rightarrow> 'a \<Rightarrow> (token_kind list \<Rightarrow> bool) \<Rightarrow> bool" where
  "reaches room p body ks x behind \<longleftrightarrow> (\<forall>s rest. fair s \<longrightarrow> p_depth s + room \<le> MAX_PARSE_DEPTH \<longrightarrow> ahead s = ks @ rest \<longrightarrow> behind rest \<longrightarrow>
     (\<exists>t m. moved (length ks) s t \<and> remaining t < m \<and> p s = iterate m body x t))"

lemma reaches_base:
  assumes "reads room p ks x behind"
  shows "reaches room (attempt p (repeat body)) body ks x behind"
  unfolding reaches_def
proof (intro allI impI)
  fix s rest assume "fair s" "p_depth s + room \<le> MAX_PARSE_DEPTH" "ahead s = ks @ rest" "behind rest"
  then obtain t where "moved (length ks) s t" "p s = (Ok x, t)" by (rule readsE [OF assms])
  then show "\<exists>t m. moved (length ks) s t \<and> remaining t < m \<and> attempt p (repeat body) s = iterate m body x t"
    by (intro exI [of _ t] exI [of _ "Suc (remaining t)"]) (simp add: attempt_def repeat_def)
qed

lemma remaining_ahead: "remaining s = length (ahead s)"
  by (simp add: remaining_def ahead_def)

lemma reaches_step:
  assumes p: "reaches room p body ks x behind'" and b: "reads room (body x) ls (True, y) behind"
    and "ls \<noteq> []" "\<And>rest. behind rest \<Longrightarrow> behind' (ls @ rest)"
  shows "reaches room p body (ks @ ls) y behind"
  unfolding reaches_def
proof (intro allI impI)
  fix s rest assume s: "fair s" "p_depth s + room \<le> MAX_PARSE_DEPTH" "ahead s = (ks @ ls) @ rest" "behind rest"
  then obtain t m where t: "moved (length ks) s t" "remaining t < m" "p s = iterate m body x t"
    using p assms(4) unfolding reaches_def by (metis append.assoc)
  then have at: "fair t" "p_depth t + room \<le> MAX_PARSE_DEPTH" "ahead t = ls @ rest"
    using s fair_moved moved_depth ahead_moved by (fastforce)+
  obtain u where u: "moved (length ls) t u" "body x t = (Ok (True, y), u)" "ahead u = rest" by (rule readsE [OF b at s(4)])
  obtain m' where m: "m = Suc m'" using t(2) by (cases m) auto
  have "remaining u < m'" using t(2) at(3) u(3) assms(3) m by (cases ls) (auto simp: remaining_ahead)
  moreover have "p s = iterate m' body y u" using t(3) u(2) m by (simp add: attempt_def)
  ultimately show "\<exists>t m. moved (length (ks @ ls)) s t \<and> remaining t < m \<and> p s = iterate m body y t"
    using moved_trans [OF t(1) u(1)] by auto
qed

lemma reaches_reads:
  assumes p: "reaches room p body ks x behind'" and b: "reads room (body x) ls (False, y) behind" and "\<And>rest. behind rest \<Longrightarrow> behind' (ls @ rest)"
  shows "reads room p (ks @ ls) y behind"
proof (rule readsI)
  fix s rest assume s: "fair s" "p_depth s + room \<le> MAX_PARSE_DEPTH" "ahead s = (ks @ ls) @ rest" "behind rest"
  then obtain t m where t: "moved (length ks) s t" "remaining t < m" "p s = iterate m body x t"
    using p assms(3) unfolding reaches_def by (metis append.assoc)
  then have at: "fair t" "p_depth t + room \<le> MAX_PARSE_DEPTH" "ahead t = ls @ rest"
    using s fair_moved moved_depth ahead_moved by (fastforce)+
  obtain u where u: "moved (length ls) t u" "body x t = (Ok (False, y), u)" by (rule readsE [OF b at s(4)])
  obtain m' where "m = Suc m'" using t(2) by (cases m) auto
  then show "\<exists>t. moved (length (ks @ ls)) s t \<and> p s = (Ok y, t)"
    using t(3) u moved_trans [OF t(1) u(1)] by (auto simp: attempt_def ret_def)
qed

section \<open>Rungs\<close>

definition operator_at :: "nat \<Rightarrow> parser \<Rightarrow> binary_operator option" where
  "operator_at n = (if n = 1 then or_at else if n = 2 then and_at else if n = 4 then symbol_operator_at [(CHR ''|'', BitOr)]
     else if n = 5 then symbol_operator_at [(CHR ''^'', BitXor)] else if n = 6 then symbol_operator_at [(CHR ''&'', BitAnd)]
     else if n = 7 then equality_at else if n = 8 then relational_at else if n = 9 then shift_at
     else if n = 10 then symbol_operator_at [(CHR ''+'', Add), (CHR ''-'', Subtract)]
     else symbol_operator_at [(CHR ''*'', Multiply), (CHR ''/'', Divide), (CHR ''%'', Modulo)])"

definition skip_operator :: "nat \<Rightarrow> unit parse" where
  "skip_operator n = (if n = 9 then consume_double_symbol else step)"

lemma opener_not: "opener m k \<Longrightarrow> k \<noteq> Symbol (ch CHR ''<'') \<and> k \<noteq> Symbol (ch CHR ''>'') \<and> k \<noteq> Symbol (ch CHR '')'') \<and> k \<noteq> Symbol (ch CHR '']'')"
  by (auto simp: opener_def str_def)

lemmas operators_at = operator_at_def or_at_def and_at_def symbol_operator_at_def equality_at_def relational_at_def shift_at_def
  check_operator_def check_keyword_def check_symbol_def check_double_symbol_def current_kind_ahead second_ahead

lemma operator_hit:
  assumes "(n, operator, ts) \<in> set operators" "ahead s = ts @ k # rest" "opener m k"
  shows "operator_at n s = Some operator"
  using assms(1) assms(2) opener_not [OF assms(3)] unfolding operators_def list.set insert_iff empty_iff prod.inject
  by (elim disjE; simp add: operators_at)

lemma operator_binds:
  assumes "(n, operator, ts) \<in> set operators" "opener m k"
  shows "binding (ts @ k # rest) = Some n"
  using assms(1) opener_not [OF assms(2)] unfolding operators_def list.set insert_iff empty_iff prod.inject
  by (elim disjE; simp add: binding_def str_def)

lemma operator_binding:
  assumes "operator_at n s = Some operator" "n \<in> {1, 2, 4, 5, 6, 7, 8, 9, 10, 11}"
  shows "\<exists>m \<ge> n. binding (ahead s) = Some m"
proof (cases "ahead s")
  case (Cons k rest)
  then show ?thesis using assms unfolding insert_iff empty_iff
    by (cases k; elim disjE; simp add: operators_at binding_def str_def split: if_splits list.splits)
qed (use assms in \<open>auto simp: operators_at\<close>)

definition ladder :: "nat \<Rightarrow> descent \<Rightarrow> expr parse" where
  "ladder n D = (if n = 0 then parse_expression_inner D else if n = 1 then parse_logical_or D else if n = 2 then parse_logical_and D
     else if n = 3 then d_logical_not D else if n = 4 then parse_bit_or D else if n = 5 then parse_bit_xor D else if n = 6 then parse_bit_and D
     else if n = 7 then parse_equality D else if n = 8 then parse_comparison D else if n = 9 then parse_shift D else if n = 10 then parse_addition D
     else if n = 11 then parse_multiplication D else if n = 12 then d_unary D
     else if n = 13 then attempt (parse_primary_expression D) (parse_postfix D) else parse_primary_expression D)"

definition rung_body :: "nat \<Rightarrow> descent \<Rightarrow> expr \<Rightarrow> (bool \<times> expr) parse" where
  "rung_body n D = (\<lambda>left. inspecting (operator_at n) (\<lambda>found. case found of
     None \<Rightarrow> ret (False, left)
   | Some operator \<Rightarrow> attempt (join_operand (skip_operator n) (ladder (Suc n) D) left operator) (\<lambda>e. ret (True, e))))"

definition postfix_body :: "descent \<Rightarrow> expr \<Rightarrow> (bool \<times> expr) parse" where
  "postfix_body D = (\<lambda>e.
     branch (check_symbol CHR ''('') (attempt (parse_arguments D) (\<lambda>args. ret (True, ECall e args)))
    (branch (check_symbol CHR ''['') (attempt step (\<lambda>_. attempt (d_expression D) (\<lambda>index.
        attempt (consume_symbol CHR '']'') (\<lambda>_. ret (True, EIndex e index)))))
    (branch (check_symbol CHR ''.'') (attempt (parse_member D e) (\<lambda>e'. ret (True, e')))
    (branch (check_symbol CHR ''?'') (attempt step (\<lambda>_. ret (True, ETry e))) (ret (False, e))))))"

definition loop_body :: "nat \<Rightarrow> descent \<Rightarrow> expr \<Rightarrow> (bool \<times> expr) parse" where
  "loop_body n D = (if n = 13 then postfix_body D else rung_body n D)"

abbreviation loops :: "nat \<Rightarrow> bool" where
  "loops n \<equiv> n \<in> {1, 2, 4, 5, 6, 7, 9, 10, 11, 13}"

lemma ladder_rung:
  "n \<in> {1, 2, 4, 5, 6, 7, 9, 10, 11} \<Longrightarrow> ladder n D = rung (operator_at n) (skip_operator n) (ladder (Suc n) D)"
  by (elim insertE emptyE; simp add: ladder_def operator_at_def skip_operator_def parse_logical_or_def parse_logical_and_def parse_bit_or_def
      parse_bit_xor_def parse_bit_and_def parse_equality_def parse_shift_def parse_addition_def parse_multiplication_def)

lemma rung_loop: "rung (operator_at n) (skip_operator n) (ladder (Suc n) D) = attempt (ladder (Suc n) D) (repeat (rung_body n D))"
  unfolding rung_def rung_body_def by (rule refl)

lemma ladder_loop: "loops n \<Longrightarrow> ladder n D = attempt (ladder (Suc n) D) (repeat (loop_body n D))"
  using ladder_rung [of n D] rung_loop [of n D] by (auto simp: loop_body_def ladder_def parse_postfix_def postfix_body_def simp del: One_nat_def)

lemma successively_nth: "successively P xs \<Longrightarrow> Suc i < length xs \<Longrightarrow> P (xs ! i) (xs ! Suc i)"
proof (induction xs arbitrary: i)
  case (Cons x xs)
  then show ?case by (cases i; cases xs) auto
qed simp

lemma reads_reject: "reads room reject_line_broken_infix [] () (\<lambda>rest. rest \<noteq> [])"
  unfolding reject_line_broken_infix_def
proof (rule reads_branch(1) [OF _ reads_ret])
  fix s rest assume s: "fair s" "ahead s = [] @ rest" "rest \<noteq> []"
  then have here: "p_position s < length (p_tokens s)" by (auto simp: ahead_def)
  have line: "successively (\<lambda>a b. line (start_location (t_span b)) \<le> line (end_location (t_span a))) (p_tokens s)"
    using s(1) by (simp add: fair_def one_line_def)
  have "line (start_location (t_span (p_tokens s ! p_position s))) \<le> line (end_location (t_span (p_tokens s ! (p_position s - 1))))"
    if "0 < p_position s"
    using successively_nth [OF line, of "p_position s - 1"] here that by simp
  then show "\<not> line_break_before_current s \<or> infix_operator_continues_line s"
    using here by (auto simp: line_break_before_current_def current_def token_at_def)
qed

lemma reads_operator: "(n, operator, ts) \<in> set operators \<Longrightarrow> reads room (skip_operator n) ts () behind"
  unfolding operators_def skip_operator_def consume_double_symbol_def by (auto intro!: reads_step reads_skip)

lemma reads_join:
  assumes "(n, operator, ts) \<in> set operators" "reads room tighter ls r behind" "ls \<noteq> []"
  shows "reads room (join_operand (skip_operator n) tighter l operator) (ts @ ls) (EBinary l operator r) behind"
proof -
  have "reads room (attempt tighter (\<lambda>right. ret (EBinary l operator right))) (ls @ []) (EBinary l operator r) behind"
    by (rule reads_attempt [OF assms(2) reads_ret]) simp
  then have "reads room (attempt (skip_operator n) (\<lambda>_. attempt tighter (\<lambda>right. ret (EBinary l operator right)))) (ts @ ls)
      (EBinary l operator r) behind"
    using reads_attempt [OF reads_operator [OF assms(1)], of room _ ls _ behind "\<lambda>_. True"] by simp
  then show ?thesis unfolding join_operand_def
    using reads_attempt [OF reads_reject, of room _ "ts @ ls" _ behind] assms(3) by simp
qed

lemma rung_continues:
  assumes "(n, operator, ts) \<in> set operators" "reads room (ladder (Suc n) D) ls r behind" "ls = k # ls'" "opener m k"
  shows "reads room (rung_body n D l) (ts @ ls) (True, EBinary l operator r) behind"
proof -
  have "reads room (attempt (join_operand (skip_operator n) (ladder (Suc n) D) l operator) (\<lambda>e. ret (True, e))) ((ts @ ls) @ [])
      (True, EBinary l operator r) behind"
    by (rule reads_attempt [OF reads_join [OF assms(1,2)] reads_ret]) (use assms(3) in simp_all)
  then show ?thesis unfolding rung_body_def
    by (intro reads_inspecting [where c = "Some operator"]) (use operator_hit [OF assms(1) _ assms(4)] assms(3) in simp_all)
qed

lemma follows_miss: "follows n (ahead s) \<Longrightarrow> n \<in> {1, 2, 4, 5, 6, 7, 8, 9, 10, 11} \<Longrightarrow> operator_at n s = None"
  using operator_binding [of n s] by (cases "operator_at n s") (auto simp: follows_def)

lemma rung_stops: "n \<in> {1, 2, 4, 5, 6, 7, 8, 9, 10, 11} \<Longrightarrow> reads room (rung_body n D e) [] (False, e) (follows n)"
  unfolding rung_body_def by (rule reads_inspecting [where c = None]) (simp_all add: follows_miss reads_ret)

definition levels :: "nat \<Rightarrow> nat \<Rightarrow> nat" where
  "levels n h = 3 * h + (if n \<le> 3 then 2 else if n \<le> 12 then 1 else 0)"

definition leaves :: "nat \<Rightarrow> expr \<Rightarrow> token_kind list \<Rightarrow> bool" where
  "leaves n e rest \<longleftrightarrow> follows (Suc n) rest \<and> \<not> (is_field e \<and> (\<exists>ks. rest = Symbol (ch CHR ''('') # ks))"

definition grasps :: "nat \<Rightarrow> nat \<Rightarrow> expr \<Rightarrow> token_kind list \<Rightarrow> bool" where
  "grasps n h e ks \<longleftrightarrow> (\<forall>k \<ge> levels n h.
     if loops n then reaches (levels n h) (ladder n (descent_at k)) (loop_body n (descent_at k)) ks e (leaves n e)
     else reads (levels n h) (ladder n (descent_at k)) ks e (follows n))"

lemma postfix_stops: "reads room (postfix_body D e) [] (False, e) (follows 13)"
  unfolding postfix_body_def
  by (intro reads_branch(2) reads_ret) (auto simp: check_symbol_def current_kind_ahead follows_def binding_def str_def split: list.splits)

lemma follows_leaves: "follows n rest \<Longrightarrow> n \<le> 13 \<Longrightarrow> leaves n e rest"
  by (auto simp: leaves_def follows_def binding_def str_def split: option.splits)

lemma loop_stops: "loops n \<Longrightarrow> reads room (loop_body n D e) [] (False, e) (follows n)"
  using rung_stops [of n] postfix_stops by (auto simp: loop_body_def)

lemma grasps_reads:
  assumes "grasps n h e ks" "levels n h \<le> k"
  shows "reads (levels n h) (ladder n (descent_at k)) ks e (follows n)"
proof (cases "loops n")
  case True
  then have reached: "reaches (levels n h) (ladder n (descent_at k)) (loop_body n (descent_at k)) ks e (leaves n e)"
    using assms unfolding grasps_def by (simp del: insert_iff)
  have "n \<le> 13" using True by auto
  then show ?thesis using reaches_reads [OF reached loop_stops [OF True]] follows_leaves by (simp del: insert_iff)
next
  case False
  then show ?thesis using assms unfolding grasps_def by (simp del: insert_iff)
qed

lemma graspsI:
  assumes "loops n \<Longrightarrow> (\<And>k. levels n h \<le> k \<Longrightarrow> reaches (levels n h) (ladder n (descent_at k)) (loop_body n (descent_at k)) ks e (leaves n e))"
    and "\<not> loops n \<Longrightarrow> (\<And>k. levels n h \<le> k \<Longrightarrow> reads (levels n h) (ladder n (descent_at k)) ks e (follows n))"
  shows "grasps n h e ks"
  using assms unfolding grasps_def by (simp del: insert_iff)

lemma grasps_reaches:
  "grasps n h e ks \<Longrightarrow> loops n \<Longrightarrow> levels n h \<le> k \<Longrightarrow>
    reaches (levels n h) (ladder n (descent_at k)) (loop_body n (descent_at k)) ks e (leaves n e)"
  unfolding grasps_def by (simp del: insert_iff)

lemma grasps_binary:
  assumes "(n, operator, ts) \<in> set operators" "n \<noteq> 8" "grasps n h l ks" "grasps (Suc n) h r ls" "ls = k # ls'" "opener m k"
  shows "grasps n h (EBinary l operator r) (ks @ ts @ ls)"
proof (rule graspsI)
  fix j assume loops: "loops n" and j: "levels n h \<le> j"
  have n: "n \<noteq> 13" using operators_level [OF assms(1)] by auto
  have "levels (Suc n) h \<le> levels n h" by (simp add: levels_def)
  then have "reads (levels n h) (ladder (Suc n) (descent_at j)) ls r (follows (Suc n))" using grasps_reads [OF assms(4), of j] j reads_room by fastforce
  then have "reads (levels n h) (loop_body n (descent_at j) l) (ts @ ls) (True, EBinary l operator r) (follows (Suc n))"
    using rung_continues [OF assms(1) _ assms(5,6)] n by (simp add: loop_body_def)
  then have step: "reads (levels n h) (loop_body n (descent_at j) l) (ts @ ls) (True, EBinary l operator r) (leaves n (EBinary l operator r))"
    by (rule reads_behind) (simp add: leaves_def)
  have next_op: "leaves n l ((ts @ ls) @ rest)" for rest
    using operator_binds [OF assms(1,6), of "ls' @ rest"] assms(5) loops n by (auto simp: leaves_def follows_def binding_def str_def)
  show "reaches (levels n h) (ladder n (descent_at j)) (loop_body n (descent_at j)) (ks @ ts @ ls) (EBinary l operator r)
      (leaves n (EBinary l operator r))"
    using reaches_step [OF grasps_reaches [OF assms(3) loops j] step _ next_op] assms(5) by simp
qed (use operators_level [OF assms(1)] assms(2) in auto)

lemma grasps_tighter_loop:
  assumes "loops n" "grasps (Suc n) h e ks"
  shows "grasps n h e ks"
proof (rule graspsI)
  fix k assume k: "levels n h \<le> k"
  have "levels (Suc n) h \<le> levels n h" by (simp add: levels_def)
  then have "reads (levels n h) (ladder (Suc n) (descent_at k)) ks e (leaves n e)"
    using reads_behind [OF reads_room [OF grasps_reads [OF assms(2), of k], of "levels n h"], of "leaves n e"] k by (simp add: leaves_def)
  then show "reaches (levels n h) (ladder n (descent_at k)) (loop_body n (descent_at k)) ks e (leaves n e)"
    unfolding ladder_loop [OF assms(1)] by (rule reaches_base)
qed (use assms(1) in simp)

lemma reaches_start: "reaches room (repeat body x) body [] x behind"
  unfolding reaches_def repeat_def by (metis append_Nil lessI list.size(3) moved_0)

lemma reads_repeat_stop: "reads room (body x) [] (False, y) behind \<Longrightarrow> reads room (repeat body x) [] y behind"
  using reaches_reads [OF reaches_start, of room body x "[]" y behind "\<lambda>_. True"] by simp

lemma reads_repeat_once:
  assumes "reads room (body x) ks (True, y) behind'" "reads room (body y) [] (False, z) behind" "\<And>rest. behind rest \<Longrightarrow> behind' rest" "ks \<noteq> []"
  shows "reads room (repeat body x) ks z behind"
proof -
  have "reaches room (repeat body x) body ([] @ ks) y behind'"
    by (rule reaches_step [OF reaches_start [of room body x "\<lambda>_. True"]]) (use assms in simp_all)
  then have reached: "reaches room (repeat body x) body ks y behind'" by simp
  from reaches_reads [of room _ body ks y behind' "[]" z behind, OF reached assms(2)] assms(3) show ?thesis by simp
qed

lemma reads_result: "reads room p ks x behind \<Longrightarrow> reads room (f x) [] y behind \<Longrightarrow> reads room (attempt p f) ks y behind"
  using reads_attempt [of room p ks x behind f "[]" y behind] by simp

definition comparison_round :: "descent \<Rightarrow> bool \<times> expr \<Rightarrow> (bool \<times> bool \<times> expr) parse" where
  "comparison_round D = (\<lambda>(chain_active, left). inspecting relational_at (\<lambda>found. case found of
       None \<Rightarrow> ret (False, (chain_active, left))
     | Some operator \<Rightarrow> if chain_active then fail_with ''P014''
         else attempt (join_operand step (parse_shift D) left operator) (\<lambda>e. ret (True, (True, e)))))"

lemma ladder_8: "ladder 8 D = attempt (ladder 9 D) (\<lambda>first. attempt (repeat (comparison_round D) (False, first)) (\<lambda>(_, e). ret e))"
  by (simp add: ladder_def parse_comparison_def comparison_round_def)

lemma comparison_stops: "reads room (comparison_round D (active, e)) [] (False, (active, e)) (follows 8)"
  unfolding comparison_round_def using follows_miss [of 8]
  by (auto simp: operator_at_def intro!: reads_inspecting [where c = None] reads_ret)

lemma comparison_continues:
  assumes "(8, operator, ts) \<in> set operators" "reads room (ladder 9 D) ls r (follows 9)" "ls = k # ls'" "opener m k"
  shows "reads room (comparison_round D (False, l)) (ts @ ls) (True, (True, EBinary l operator r)) (follows 9)"
proof -
  have "reads room (join_operand step (parse_shift D) l operator) (ts @ ls) (EBinary l operator r) (follows 9)"
    using reads_join [OF assms(1,2)] assms(3) by (simp add: skip_operator_def ladder_def)
  then have "reads room (attempt (join_operand step (parse_shift D) l operator) (\<lambda>e. ret (True, (True, e)))) (ts @ ls)
      (True, (True, EBinary l operator r)) (follows 9)"
    by (rule reads_result) (rule reads_ret)
  then show ?thesis unfolding comparison_round_def
    using operator_hit [OF assms(1) _ assms(4)] assms(3) by (auto simp: operator_at_def intro!: reads_inspecting [where c = "Some operator"])
qed

lemma grasps_comparison:
  assumes "grasps 9 h l ks" "grasps 9 h r ls" "(8, operator, ts) \<in> set operators" "ls = k # ls'" "opener m k"
  shows "grasps 8 h (EBinary l operator r) (ks @ ts @ ls)"
proof (rule graspsI)
  fix j assume j: "levels 8 h \<le> j"
  have same: "levels 8 h = levels 9 h" by (simp add: levels_def)
  have "reads (levels 9 h) (repeat (comparison_round (descent_at j)) (False, l)) (ts @ ls) (True, EBinary l operator r) (follows 8)"
  proof (rule reads_repeat_once)
    show "reads (levels 9 h) (comparison_round (descent_at j) (False, l)) (ts @ ls) (True, True, EBinary l operator r) (follows 9)"
      by (rule comparison_continues [OF assms(3) grasps_reads [OF assms(2)] assms(4,5)]) (use j same in simp)
  qed (use assms(4) in \<open>auto intro: follows_mono comparison_stops\<close>)
  then have "reads (levels 9 h) (attempt (repeat (comparison_round (descent_at j)) (False, l)) (\<lambda>(_, e). ret e)) (ts @ ls) (EBinary l operator r) (follows 8)"
    by (rule reads_result) (simp add: reads_ret)
  moreover have "reads (levels 9 h) (ladder 9 (descent_at j)) ks l (follows 9)" using grasps_reads [OF assms(1)] j same by simp
  ultimately show "reads (levels 8 h) (ladder 8 (descent_at j)) (ks @ ts @ ls) (EBinary l operator r) (follows 8)"
    unfolding ladder_8 same
    by (intro reads_attempt [where x = l and behind' = "follows 9"]) (use operator_binds [OF assms(3,5)] assms(4) in \<open>auto simp: follows_def\<close>)
qed simp

lemma grasps_tighter_8: "grasps 9 h e ks \<Longrightarrow> grasps 8 h e ks"
proof (rule graspsI)
  fix j assume e: "grasps 9 h e ks" and j: "levels 8 h \<le> j"
  have same: "levels 8 h = levels 9 h" by (simp add: levels_def)
  have "reads (levels 9 h) (attempt (repeat (comparison_round (descent_at j)) (False, e)) (\<lambda>(_, e). ret e)) [] e (follows 8)"
    by (rule reads_result [where x = "(False, e)"], rule reads_repeat_stop, rule comparison_stops) (simp add: reads_ret)
  moreover have "reads (levels 9 h) (ladder 9 (descent_at j)) ks e (follows 8)"
    by (rule reads_behind [OF grasps_reads [OF e]]) (use j same in \<open>auto intro: follows_mono\<close>)
  ultimately show "reads (levels 8 h) (ladder 8 (descent_at j)) ks e (follows 8)"
    unfolding ladder_8 same by (intro reads_result [where x = e])
qed simp

lemma guarded_descent:
  "d_expression (descent_at (Suc k)) = guarded (ladder 0 (descent_at k))"
  "ladder 3 (descent_at (Suc k)) = guarded (parse_logical_not_inner (descent_at k))"
  "ladder 12 (descent_at (Suc k)) = guarded (parse_unary_inner (descent_at k) (ladder 14 (descent_at k)))"
  by (simp_all add: ladder_def descend_def Let_def)

lemma grasps_tighter_3:
  assumes "grasps 4 h e ks" "ks = k # ls" "opener 4 k"
  shows "grasps 3 h e ks"
proof (rule graspsI)
  fix j assume "levels 3 h \<le> j"
  then obtain i where i: "j = Suc i" "levels 4 h \<le> i" by (cases j) (auto simp: levels_def)
  have "reads (levels 4 h) (parse_logical_not_inner (descent_at i)) ks e (follows 3)" unfolding parse_logical_not_inner_def
    by (rule reads_branch(2))
      (use assms(2,3) reads_behind [OF grasps_reads [OF assms(1) i(2)], of "follows 3"] follows_mono [of 3 _ 4] in
        \<open>auto simp: check_keyword_def current_kind_ahead opener_def ladder_def\<close>)
  then show "reads (levels 3 h) (ladder 3 (descent_at j)) ks e (follows 3)"
    unfolding i guarded_descent using reads_guarded reads_room by (fastforce simp: levels_def)
qed simp

lemma grasps_negation:
  assumes "grasps 3 h e ks"
  shows "grasps 3 (Suc h) (EUnary Not e) (Keyword KNotWord # ks)"
proof (rule graspsI)
  fix j assume "levels 3 (Suc h) \<le> j"
  then obtain i where i: "j = Suc i" "levels 3 h \<le> i" by (cases j) (auto simp: levels_def)
  have "reads (levels 3 h) (attempt (d_logical_not (descent_at i)) (\<lambda>operand. ret (EUnary Not operand))) ks (EUnary Not e) (follows 3)"
    by (rule reads_result [OF _ reads_ret]) (use grasps_reads [OF assms i(2)] in \<open>simp add: ladder_def\<close>)
  then have "reads (levels 3 h) (parse_logical_not_inner (descent_at i)) (Keyword KNotWord # ks) (EUnary Not e) (follows 3)"
    unfolding parse_logical_not_inner_def by (intro reads_branch(1) reads_skip) (auto simp: check_keyword_def current_kind_ahead)
  then show "reads (levels 3 (Suc h)) (ladder 3 (descent_at j)) (Keyword KNotWord # ks) (EUnary Not e) (follows 3)"
    unfolding i guarded_descent using reads_guarded reads_room by (fastforce simp: levels_def)
qed simp

lemma attempt_assoc: "attempt p (\<lambda>x. attempt (q x) k) = attempt (attempt p q) k"
  by (auto simp: attempt_def fun_eq_iff split: prod.splits outcome.splits)

lemma reads_unary:
  assumes "reads room (attempt (ladder 14 D) (parse_postfix D)) ks e (follows 13)" "ks = k # ls" "opener 13 k"
  shows "reads room (parse_unary_inner D (ladder 14 D)) ks e (follows 12)"
proof -
  have cast: "reads room (parse_casts D e) [] e (follows 13)" unfolding parse_casts_def
    by (intro reads_repeat_stop reads_branch(2) reads_ret)
      (auto simp: check_keyword_def current_kind_ahead follows_def binding_def split: list.splits)
  have "reads room (parse_call_expression D (ladder 14 D)) ks e (follows 12)" unfolding parse_call_expression_def attempt_assoc
    by (rule reads_behind [of _ _ _ _ "follows 13"], rule reads_result [where x = e], rule assms(1), rule cast) (auto intro: follows_mono)
  then show ?thesis unfolding parse_unary_inner_def
    by (intro reads_branch(2) reads_inspecting [where c = None])
      (use assms(2,3) in \<open>auto simp: check_keyword_def check_symbol_def unary_operator_at_def current_kind_ahead opener_def str_def\<close>)
qed

lemma grasps_tighter_12:
  assumes "grasps 13 h e ks" "ks = k # ls" "opener 13 k"
  shows "grasps 12 h e ks"
proof (rule graspsI)
  fix j assume "levels 12 h \<le> j"
  then obtain i where i: "j = Suc i" "levels 13 h \<le> i" by (cases j) (auto simp: levels_def)
  have "reads (levels 13 h) (parse_unary_inner (descent_at i) (ladder 14 (descent_at i))) ks e (follows 12)"
    by (rule reads_unary [OF _ assms(2,3)]) (use grasps_reads [OF assms(1) i(2)] in \<open>simp add: ladder_def\<close>)
  then show "reads (levels 12 h) (ladder 12 (descent_at j)) ks e (follows 12)"
    unfolding i guarded_descent using reads_guarded by (fastforce simp: levels_def)
qed simp

lemma grasps_prefix:
  assumes "grasps 12 h e ks" "(operator, c) \<in> {(Negate, CHR ''-''), (Not, CHR ''!''), (BitNot, CHR ''~'')}"
  shows "grasps 12 (Suc h) (EUnary operator e) (Symbol (ch c) # ks)"
proof (rule graspsI)
  fix j assume "levels 12 (Suc h) \<le> j"
  then obtain i where i: "j = Suc i" "levels 12 h \<le> i" by (cases j) (auto simp: levels_def)
  have "reads (levels 12 h) (attempt (d_unary (descent_at i)) (\<lambda>operand. ret (EUnary operator operand))) ks (EUnary operator e) (follows 12)"
    by (rule reads_result [OF _ reads_ret]) (use grasps_reads [OF assms(1) i(2)] in \<open>simp add: ladder_def\<close>)
  then have "reads (levels 12 h) (parse_unary_inner (descent_at i) (ladder 14 (descent_at i))) (Symbol (ch c) # ks) (EUnary operator e) (follows 12)"
    unfolding parse_unary_inner_def
    by (intro reads_branch(2) reads_inspecting [where c = "Some operator"])
      (use assms(2) in \<open>auto simp: check_keyword_def check_symbol_def unary_operator_at_def current_kind_ahead intro: reads_skip\<close>)
  then show "reads (levels 12 (Suc h)) (ladder 12 (descent_at j)) (Symbol (ch c) # ks) (EUnary operator e) (follows 12)"
    unfolding i guarded_descent using reads_guarded reads_room by (fastforce simp: levels_def)
qed simp

section \<open>Ranges\<close>

definition range_round :: "descent \<Rightarrow> bool \<times> expr \<Rightarrow> (bool \<times> bool \<times> expr) parse" where
  "range_round D = (\<lambda>(built_range, e). inspecting range_at (\<lambda>found. case found of
         None \<Rightarrow> ret (False, (built_range, e))
       | Some inclusive \<Rightarrow> attempt reject_line_broken_infix (\<lambda>_. attempt step (\<lambda>_. attempt (parse_comparison D) (\<lambda>last.
           ret (True, (True, ERange e last inclusive)))))))"

lemma ladder_0: "ladder 0 D = attempt (ladder 1 D) (\<lambda>first. attempt (repeat (range_round D) (False, first))
    (\<lambda>(built_range, e). if built_range then parse_logical_level_rest D e else ret e))"
  by (simp add: ladder_def parse_expression_inner_def range_round_def)

lemma nothing_follows:
  assumes "follows 0 (ahead s)"
  shows "or_at s = None" "and_at s = None" "bitwise_at s = None" "equality_or_relational_at s = None" "range_at s = None"
proof -
  have miss: "operator_at n s = None" if "n \<in> {1, 2, 4, 5, 6, 7, 8, 9, 10, 11}" for n
    using follows_miss [OF follows_mono [OF assms, of n] that] by simp
  show "or_at s = None" "and_at s = None" using miss [of 1] miss [of 2] by (simp_all add: operator_at_def)
  show "equality_or_relational_at s = None" using miss [of 7] miss [of 8] by (simp add: operator_at_def equality_or_relational_at_def)
  show "bitwise_at s = None" using miss [of 4] miss [of 5] miss [of 6]
    by (auto simp: operator_at_def bitwise_at_def symbol_operator_at_def split: token_kind.splits if_splits)
  show "range_at s = None" using assms
    by (auto simp: range_at_def check_operator_def current_kind_ahead follows_def binding_def split: list.splits)
qed

lemma range_stops: "reads room (range_round D (built, e)) [] (False, (built, e)) (follows 0)"
  unfolding range_round_def by (auto simp: nothing_follows intro!: reads_inspecting [where c = None] reads_ret)

lemma level_rest_stops: "reads room (parse_logical_level_rest D e) [] e (follows 0)"
proof -
  have "reads room (logical_level_step D (False, e)) [] (False, (False, e)) (follows 0)"
    unfolding logical_level_step_def prod.case
    by (intro reads_inspecting [where c = None]) (auto simp: nothing_follows intro!: reads_inspecting [where c = None] reads_ret)
  then show ?thesis unfolding parse_logical_level_rest_def
    by (intro reads_result [where x = "(False, e)"] reads_repeat_stop) (simp_all add: reads_ret)
qed

lemma grasps_tighter_0: "grasps 1 h e ks \<Longrightarrow> grasps 0 h e ks"
proof (rule graspsI)
  fix j assume e: "grasps 1 h e ks" and j: "levels 0 h \<le> j"
  have same: "levels 0 h = levels 1 h" by (simp add: levels_def)
  have "reads (levels 1 h) (ladder 1 (descent_at j)) ks e (follows 0)"
    by (rule reads_behind [OF grasps_reads [OF e]]) (use j same in \<open>auto intro: follows_mono\<close>)
  then show "reads (levels 0 h) (ladder 0 (descent_at j)) ks e (follows 0)" unfolding ladder_0 same
    by (intro reads_result [where x = e] reads_result [where x = "(False, e)"] reads_repeat_stop range_stops) (simp_all add: reads_ret)
qed simp

lemma grasps_range:
  assumes "grasps 1 h a ks" "grasps 8 h b ls"
  shows "grasps 0 h (ERange a b inclusive) (ks @ Operator (if inclusive then RangeInclusive else RangeOp) # ls)"
proof (rule graspsI)
  fix j assume j: "levels 0 h \<le> j"
  have same: "levels 0 h = levels 1 h" and "levels 8 h \<le> levels 1 h" by (simp_all add: levels_def)
  then have b: "reads (levels 1 h) (parse_comparison (descent_at j)) ls b (follows 0)"
    using reads_behind [OF reads_room [OF grasps_reads [OF assms(2), of j]], of "levels 1 h" "follows 0"] follows_mono [of 0] j
    by (simp add: ladder_def)
  let ?t = "Operator (if inclusive then RangeInclusive else RangeOp)"
  let ?r = "ERange a b inclusive"
  have "reads (levels 1 h) (attempt reject_line_broken_infix (\<lambda>_. attempt step (\<lambda>_. attempt (parse_comparison (descent_at j)) (\<lambda>last.
      ret (True, (True, ERange a last inclusive)))))) ([] @ ?t # ls) (True, (True, ?r)) (follows 0)"
    by (rule reads_attempt [OF reads_reject]) (use b in \<open>auto intro!: reads_skip reads_result [where x = b] reads_ret\<close>)
  then have "reads (levels 1 h) (range_round (descent_at j) (False, a)) (?t # ls) (True, (True, ?r)) (follows 0)"
    unfolding range_round_def prod.case
    by (intro reads_inspecting [where c = "Some inclusive"]) (auto simp: range_at_def check_operator_def current_kind_ahead)
  then have "reads (levels 1 h) (repeat (range_round (descent_at j)) (False, a)) (?t # ls) (True, ?r) (follows 0)"
    by (rule reads_repeat_once [where y = "(True, ?r)"]) (simp_all add: range_stops)
  then have "reads (levels 1 h) (attempt (repeat (range_round (descent_at j)) (False, a))
      (\<lambda>(built_range, e). if built_range then parse_logical_level_rest (descent_at j) e else ret e)) (?t # ls) ?r (follows 0)"
    by (rule reads_result) (simp add: level_rest_stops)
  then show "reads (levels 0 h) (ladder 0 (descent_at j)) (ks @ ?t # ls) ?r (follows 0)" unfolding ladder_0 same
    by (intro reads_attempt [where x = a and behind' = "follows 1"])
      (use grasps_reads [OF assms(1), of j] j same in \<open>auto simp: follows_def binding_def\<close>)
qed simp

section \<open>Names and literals\<close>

lemma scan_type_args_end:
  "scan_type_args ks depth = Some (k # ls) \<Longrightarrow> 0 < depth \<Longrightarrow> \<exists>ys. ks = ys @ Symbol (ch CHR ''>'') # k # ls"
proof (induction ks depth rule: scan_type_args.induct)
  case (2 kind kinds depth)
  show ?case
  proof (cases "kind = Symbol (ch CHR ''>'') \<and> depth = 1")
    case True
    then have "kinds = k # ls" using "2.prems" by (cases kinds) auto
    then show ?thesis using True by blast
  next
    case False
    obtain depth' where "scan_type_args kinds depth' = Some (k # ls)" "0 < depth'" "\<exists>ys. kinds = ys @ Symbol (ch CHR ''>'') # k # ls"
      using False 2 by (auto split: token_kind.splits if_splits)
    then show ?thesis by (metis append_Cons)
  qed
qed (simp split: if_splits)

lemma no_type_args: "fair s \<Longrightarrow> \<not> is_likely_type_args_lookahead s"
proof
  assume f: "fair s" and "is_likely_type_args_lookahead s"
  then obtain k ls where k: "check_symbol CHR ''<'' s" "scan_type_args (kinds_after s) 1 = Some (k # ls)"
    "k = Symbol (ch CHR '':'') \<or> k = Symbol (ch CHR ''{'')"
    by (auto simp: is_likely_type_args_lookahead_def split: option.splits list.splits)
  then obtain ys where "tl (ahead s) = ys @ Symbol (ch CHR ''>'') # k # ls"
    using scan_type_args_end [OF k(2)] by (auto simp: kinds_after_ahead)
  moreover have "ahead s \<noteq> []" using k(1) by (auto simp: check_symbol_def current_kind_ahead)
  ultimately have "ahead s = (hd (ahead s) # ys) @ Symbol (ch CHR ''>'') # k # ls" by (metis append_Cons list.collapse)
  then have "successively P (ahead s) \<Longrightarrow> P (Symbol (ch CHR ''>'')) k" for P by (metis successively_append_iff successively.simps(3))
  then show False using f k(3) unfolding fair_def by blast
qed

lemma reads_inspecting_some:
  assumes "\<And>s rest. fair s \<Longrightarrow> ahead s = ks @ rest \<Longrightarrow> behind rest \<Longrightarrow> Q (f s)" "\<And>c. Q c \<Longrightarrow> reads room (k c) ks x behind"
  shows "reads room (inspecting f k) ks x behind"
  using assms unfolding reads_def inspecting_def by blast

lemma reads_name: "reads room (parse_name_expression D x) [] (EIdentifier x) (follows 14)"
proof -
  have not: "\<not> check_symbol CHR ''{'' s" "\<not> check_symbol CHR '':'' s" if "follows 14 (ahead s)" for s
    using that by (auto simp: check_symbol_def current_kind_ahead follows_def binding_def str_def split: list.splits)
  have "reads room (optional_type_arguments D) [] [] (follows 14)"
    unfolding optional_type_arguments_def by (rule reads_branch(2)) (auto simp: no_type_args reads_ret)
  then show ?thesis unfolding parse_name_expression_def
    by (intro reads_branch(2) reads_result [where x = "[]"])
      (auto simp: not at_path_separator_def check_double_symbol_def intro!: reads_branch(2) reads_ret)
qed

lemma reads_primary:
  assumes "\<And>token :: token. t_kind token = k \<Longrightarrow> reads room (case t_kind token of
     Keyword k \<Rightarrow> parse_keyword_expression D k
   | Identifier name \<Rightarrow> attempt step (\<lambda>_. parse_name_expression D (name_of name))
   | Number digits \<Rightarrow> attempt step (\<lambda>_. ret (ENumber digits))
   | StringLiteral chars \<Rightarrow> attempt step (\<lambda>_. ret (EString chars))
   | CharLiteral c \<Rightarrow> attempt step (\<lambda>_. ret (EChar c))
   | FStringLiteral raw \<Rightarrow> attempt step (\<lambda>_. attempt (parse_fstring_parts D raw (t_span token)) (\<lambda>parts. ret (EFString parts)))
   | Operator p \<Rightarrow> if p = OrOp then attempt step (\<lambda>_. finish_lambda_expression D False []) else fail_with ''P019''
   | Symbol _ \<Rightarrow> parse_symbol_expression D
   | EndOfFile \<Rightarrow> fail_with ''P019'') (k # ks) e behind"
  shows "reads room (ladder 14 D) (k # ks) e behind"
proof -
  have "reads room (parse_primary_expression D) (k # ks) e behind" unfolding parse_primary_expression_def
  proof (rule reads_inspecting_some [where Q = "\<lambda>token. t_kind token = k"])
    show "t_kind (current s) = k" if "ahead s = (k # ks) @ rest" for s rest using that current_kind_ahead [of s] by (simp add: current_kind_def)
  qed (rule assms)
  then show ?thesis by (simp add: ladder_def)
qed

lemma reads_literal:
  "reads room (ladder 14 D) [Identifier (str x)] (EIdentifier x) (follows 14)" "reads room (ladder 14 D) [Number digits] (ENumber digits) behind"
  "reads room (ladder 14 D) [StringLiteral cs] (EString cs) behind" "reads room (ladder 14 D) [CharLiteral c] (EChar c) behind"
  "reads room (ladder 14 D) [Keyword (if b then KTrue else KFalse)] (EBool b) behind"
proof -
  show "reads room (ladder 14 D) [Identifier (str x)] (EIdentifier x) (follows 14)"
    by (rule reads_primary, simp, rule reads_skip [OF _ reads_name], simp)
  show "reads room (ladder 14 D) [Number digits] (ENumber digits) behind" "reads room (ladder 14 D) [StringLiteral cs] (EString cs) behind"
    "reads room (ladder 14 D) [CharLiteral c] (EChar c) behind"
    by (rule reads_primary, simp, rule reads_skip [OF _ reads_ret], simp)+
  show "reads room (ladder 14 D) [Keyword (if b then KTrue else KFalse)] (EBool b) behind"
    by (cases b; rule reads_primary, simp add: parse_keyword_expression_def, rule reads_skip [OF _ reads_ret], simp)
qed

lemma grasps_primary: "(\<And>k. levels 14 h \<le> k \<Longrightarrow> reads (levels 14 h) (ladder 14 (descent_at k)) ks e (follows 14)) \<Longrightarrow> grasps 14 h e ks"
  by (rule graspsI) simp_all

section \<open>Brackets and lists\<close>

definition starts :: "char \<Rightarrow> token_kind list \<Rightarrow> bool" where
  "starts c ks \<longleftrightarrow> (\<exists>rest. ks = Symbol (ch c) # rest)"

text \<open>What an element of a list has to satisfy: it is read in front of a comma or a closing bracket.\<close>

definition element :: "nat \<Rightarrow> 'a parse \<Rightarrow> 'a \<Rightarrow> token_kind list \<Rightarrow> bool" where
  "element room p x ks \<longleftrightarrow> reads room p ks x (follows 0) \<and> (\<exists>k ls. ks = k # ls \<and> opener 0 k)"

lemma check_starts: "check_symbol c s \<longleftrightarrow> starts c (ahead s)"
  by (auto simp: check_symbol_def current_kind_ahead starts_def split: list.splits)

lemma element_starts: "element room p x ks \<Longrightarrow> \<not> starts CHR '')'' (ks @ rest) \<and> \<not> starts CHR '']'' (ks @ rest) \<and> ks \<noteq> []"
  by (auto simp: element_def starts_def dest: opener_not)

lemma starts_follows: "starts c ks \<Longrightarrow> c \<in> {CHR '')'', CHR '']'', CHR '',''} \<Longrightarrow> follows 0 ks"
  by (auto simp: starts_def follows_def binding_def str_def)

lemma element_closed: "element room p x ks \<Longrightarrow> c \<in> {CHR '')'', CHR '']'', CHR '',''} \<Longrightarrow> reads room p ks x (starts c)"
  unfolding element_def by (erule conjE, erule reads_behind) (blast intro: starts_follows)

lemma commas_Cons: "commas (ks # kss) = ks @ concat (map ((#) (Symbol (ch CHR '',''))) kss)"
  by (induction kss arbitrary: ks) auto

definition tail_round :: "char \<Rightarrow> 'a parse \<Rightarrow> 'a list \<Rightarrow> (bool \<times> 'a list) parse" where
  "tail_round close p = (\<lambda>xs. branch (check_symbol CHR '','')
     (attempt step (\<lambda>_. branch (check_symbol close) (ret (False, xs)) (attempt p (\<lambda>x. ret (True, xs @ [x]))))) (ret (False, xs)))"

lemma comma_tail_round: "comma_tail close p = repeat (tail_round close p)"
  by (simp add: comma_tail_def tail_round_def)

lemma tail_reaches:
  assumes "list_all2 (element room p) es kss" "reaches room q (tail_round close p) ks xs (follows 0)" "close \<in> {CHR '')'', CHR '']''}"
  shows "reaches room q (tail_round close p) (ks @ concat (map ((#) (Symbol (ch CHR '',''))) kss)) (xs @ es) (follows 0)"
  using assms(1,2)
proof (induction es kss arbitrary: ks xs rule: list_all2_induct)
  case (Cons e es ls kss)
  have e: "reads room p ls e (follows 0)" using Cons(1) by (simp add: element_def)
  have "reads room (attempt p (\<lambda>x. ret (True, xs @ [x]))) ls (True, xs @ [e]) (follows 0)"
    by (rule reads_result [OF e reads_ret])
  then have "reads room (tail_round close p xs) (Symbol (ch CHR '','') # ls) (True, xs @ [e]) (follows 0)" unfolding tail_round_def
    by (intro reads_branch(1) reads_skip reads_branch(2)) (use element_starts [OF Cons(1)] assms(3) in \<open>auto simp: check_starts starts_def\<close>)
  then have "reaches room q (tail_round close p) (ks @ Symbol (ch CHR '','') # ls) (xs @ [e]) (follows 0)"
    by (rule reaches_step [OF Cons(4)]) (auto simp: starts_def intro: starts_follows [of "CHR '',''"])
  from Cons(3) [OF this] show ?case by simp
qed simp

lemma reads_tail:
  assumes "list_all2 (element room p) es kss" "close \<in> {CHR '')'', CHR '']''}"
  shows "reads room (comma_tail close p [e]) (concat (map ((#) (Symbol (ch CHR '',''))) kss)) (e # es) (starts close)"
proof -
  have stop: "reads room (tail_round close p (e # es)) [] (False, e # es) (starts close)" unfolding tail_round_def
    by (intro reads_branch(2) reads_ret) (use assms(2) in \<open>auto simp: check_starts starts_def\<close>)
  have "reaches room (comma_tail close p [e]) (tail_round close p) ([] @ concat (map ((#) (Symbol (ch CHR '',''))) kss)) ([e] @ es) (follows 0)"
    unfolding comma_tail_round using assms by (intro tail_reaches reaches_start)
  then have "reads room (comma_tail close p [e]) (concat (map ((#) (Symbol (ch CHR '',''))) kss) @ []) (e # es) (starts close)"
    using starts_follows [of close] assms(2) stop by (intro reaches_reads [where x = "e # es" and behind' = "follows 0"]) auto
  then show ?thesis by simp
qed

lemma follows_tail: "starts close rest \<Longrightarrow> close \<in> {CHR '')'', CHR '']''} \<Longrightarrow> follows 0 (concat (map ((#) (Symbol (ch CHR '',''))) kss) @ rest)"
  using starts_follows [of close rest] starts_follows [of "CHR '',''"] by (cases kss) (auto simp: starts_def)

lemma reads_elements:
  assumes "list_all2 (element room p) es kss" "es \<noteq> []" "close \<in> {CHR '')'', CHR '']''}"
  shows "reads room (comma_list_until close p) (commas kss) es (starts close)"
proof -
  obtain e es' ks kss' where c: "es = e # es'" "kss = ks # kss'" using assms(1,2) by (cases es; cases kss) auto
  then have "reads room p ks e (follows 0)" "list_all2 (element room p) es' kss'" using assms(1) by (simp_all add: element_def)
  then show ?thesis unfolding comma_list_until_def c commas_Cons
    using reads_tail [of room p es' kss' close e] follows_tail [OF _ assms(3)] assms(3)
    by (intro reads_attempt [where x = e and behind' = "follows 0"]) auto
qed

lemma reads_closed:
  assumes "reads room p ks x (starts close)" "reads room (f x) [] y behind"
  shows "reads room (attempt p (\<lambda>x. attempt (consume_symbol close) (\<lambda>_. f x))) (ks @ [Symbol (ch close)]) y behind"
proof (rule reads_attempt [OF assms(1)])
  show "reads room (attempt (consume_symbol close) (\<lambda>_. f x)) [Symbol (ch close)] y behind"
    using reads_result [OF reads_symbol, of room "\<lambda>_. f x"] assms(2) by blast
qed (simp add: starts_def)

lemmas at_front = check_symbol_def current_kind_ahead

lemma reads_bracket:
  "reads room (parse_parenthesized D) (Symbol (ch CHR ''('') # ks) e behind \<Longrightarrow> reads room (ladder 14 D) (Symbol (ch CHR ''('') # ks) e behind"
  "reads room (parse_array_literal D) (Symbol (ch CHR ''['') # ks) e behind \<Longrightarrow> reads room (ladder 14 D) (Symbol (ch CHR ''['') # ks) e behind"
proof -
  have "reads room (parse_parenthesized D) (Symbol (ch CHR ''('') # ks) e behind \<Longrightarrow> reads room (parse_symbol_expression D) (Symbol (ch CHR ''('') # ks) e behind"
    unfolding parse_symbol_expression_def by (rule reads_branch(2), simp add: at_front, rule reads_branch(2), simp add: at_front, rule reads_branch(1), simp add: at_front)
  then show "reads room (parse_parenthesized D) (Symbol (ch CHR ''('') # ks) e behind \<Longrightarrow> reads room (ladder 14 D) (Symbol (ch CHR ''('') # ks) e behind"
    by (intro reads_primary) simp
  have "reads room (parse_array_literal D) (Symbol (ch CHR ''['') # ks) e behind \<Longrightarrow> reads room (parse_symbol_expression D) (Symbol (ch CHR ''['') # ks) e behind"
    unfolding parse_symbol_expression_def
    by (rule reads_branch(2), simp add: at_front, rule reads_branch(2), simp add: at_front, rule reads_branch(2), simp add: at_front, rule reads_branch(1), simp add: at_front)
  then show "reads room (parse_array_literal D) (Symbol (ch CHR ''['') # ks) e behind \<Longrightarrow> reads room (ladder 14 D) (Symbol (ch CHR ''['') # ks) e behind"
    by (intro reads_primary) simp
qed

lemma reads_array:
  assumes "list_all2 (element room (d_expression D)) es kss"
  shows "reads room (ladder 14 D) (Symbol (ch CHR ''['') # commas kss @ [Symbol (ch CHR '']'')]) (EArray es) behind"
proof -
  have "reads room (unless_closed CHR '']'' (comma_list_until CHR '']'' (d_expression D))) (commas kss) es (starts CHR '']'')"
  proof (cases es)
    case Nil
    then show ?thesis using assms unfolding unless_closed_def by (intro reads_branch(1)) (auto simp: check_starts reads_ret)
  next
    case (Cons e es')
    then obtain ks kss' where "kss = ks # kss'" "element room (d_expression D) e ks" using assms by (cases kss) auto
    then show ?thesis using reads_elements [OF assms, of "CHR '']''"] Cons element_starts [of room "d_expression D" e ks] unfolding unless_closed_def
      by (intro reads_branch(2)) (auto simp: check_starts commas_Cons)
  qed
  then have "reads room (parse_array_literal D) (Symbol (ch CHR ''['') # commas kss @ [Symbol (ch CHR '']'')]) (EArray es) behind"
    unfolding parse_array_literal_def by (intro reads_skip reads_closed [where x = es]) (simp_all add: reads_ret)
  then show ?thesis by (rule reads_bracket(2))
qed

lemma reads_group:
  assumes "element room (d_expression D) e ks"
  shows "reads room (ladder 14 D) (Symbol (ch CHR ''('') # ks @ [Symbol (ch CHR '')'')]) (EGrouping e) behind"
proof -
  let ?rest = "\<lambda>first. branch (check_symbol CHR '','')
    (attempt (comma_tail CHR '')'' (d_expression D) [first]) (\<lambda>elements. attempt (consume_symbol CHR '')'') (\<lambda>_. ret (ETuple elements))))
    (attempt (consume_symbol CHR '')'') (\<lambda>_. ret (EGrouping first)))"
  have "reads room (?rest e) [Symbol (ch CHR '')'')] (EGrouping e) behind"
    by (rule reads_branch(2), simp add: check_symbol_def current_kind_ahead, rule reads_result [OF reads_symbol reads_ret])
  then have "reads room (attempt (d_expression D) ?rest) (ks @ [Symbol (ch CHR '')'')]) (EGrouping e) behind"
    using assms by (intro reads_attempt [where x = e and behind' = "follows 0"]) (auto simp: element_def starts_def intro: starts_follows [of "CHR '')''"])
  then have "reads room (parse_parenthesized D) (Symbol (ch CHR ''('') # ks @ [Symbol (ch CHR '')'')]) (EGrouping e) behind"
    unfolding parse_parenthesized_def
    by (intro reads_skip reads_branch(2)) (use element_starts [OF assms] in \<open>auto simp: check_starts\<close>)
  then show ?thesis by (rule reads_bracket(1))
qed

lemma reads_unit: "reads room (ladder 14 D) [Symbol (ch CHR ''(''), Symbol (ch CHR '')'')] (ETuple []) behind"
  by (rule reads_bracket(1)) (auto simp: parse_parenthesized_def check_symbol_def current_kind_ahead intro!: reads_skip reads_branch(1) reads_ret)

lemma reads_tuple:
  assumes "list_all2 (element room (d_expression D)) es kss" "2 \<le> length es"
  shows "reads room (ladder 14 D) (Symbol (ch CHR ''('') # commas kss @ [Symbol (ch CHR '')'')]) (ETuple es) behind"
proof -
  obtain e e' es' ks ks' kss' where c: "es = e # e' # es'" "kss = ks # ks' # kss'"
    using assms by (cases es; cases "tl es"; cases kss; cases "tl kss") auto
  let ?rest = "\<lambda>first. branch (check_symbol CHR '','')
    (attempt (comma_tail CHR '')'' (d_expression D) [first]) (\<lambda>elements. attempt (consume_symbol CHR '')'') (\<lambda>_. ret (ETuple elements))))
    (attempt (consume_symbol CHR '')'') (\<lambda>_. ret (EGrouping first)))"
  let ?tail = "concat (map ((#) (Symbol (ch CHR '',''))) (ks' # kss'))"
  have e: "element room (d_expression D) e ks" and es: "list_all2 (element room (d_expression D)) (e' # es') (ks' # kss')"
    using assms(1) c by simp_all
  have "reads room (?rest e) (?tail @ [Symbol (ch CHR '')'')]) (ETuple es) behind" unfolding c(1)
    by (rule reads_branch(1), simp add: check_symbol_def current_kind_ahead, rule reads_closed, rule reads_tail [OF es]) (simp_all add: reads_ret)
  then have "reads room (attempt (d_expression D) ?rest) (ks @ ?tail @ [Symbol (ch CHR '')'')]) (ETuple es) behind"
    using e by (intro reads_attempt [where x = e and behind' = "follows 0"]) (auto simp: element_def starts_def intro: starts_follows [of "CHR '',''"])
  then have "reads room (parse_parenthesized D) (Symbol (ch CHR ''('') # commas kss @ [Symbol (ch CHR '')'')]) (ETuple es) behind"
    unfolding parse_parenthesized_def c(2) commas_Cons
    by (intro reads_skip reads_branch(2)) (use element_starts [OF e] in \<open>auto simp: check_starts\<close>)
  then show ?thesis by (rule reads_bracket(1))
qed

definition argument_round :: "descent \<Rightarrow> expr list \<Rightarrow> (bool \<times> expr list) parse" where
  "argument_round D = (\<lambda>args. attempt (recovering (d_expression D) (\<lambda>e. ret (args @ [e]))
       (attempt (recover_in_delimited_list '')'' '','') (\<lambda>_. ret args))) (\<lambda>args'.
     branch (check_symbol CHR '','')
       (attempt step (\<lambda>_. branch (check_symbol CHR '')'') (ret (False, args')) (ret (True, args'))))
       (ret (False, args'))))"

lemma arguments_round: "parse_arguments D = attempt step (\<lambda>_. attempt (unless_closed CHR '')'' (repeat (argument_round D) [])) (\<lambda>args.
     attempt (consume_symbol CHR '')'') (\<lambda>_. ret args)))"
  by (simp add: parse_arguments_def argument_round_def)

lemma reads_recovering:
  assumes "reads room p ks x behind" "reads room (f x) [] y behind"
  shows "reads room (recovering p f h) ks y behind"
proof (rule readsI)
  fix s rest assume s: "fair s" "p_depth s + room \<le> MAX_PARSE_DEPTH" "ahead s = ks @ rest" "behind rest"
  obtain t where t: "moved (length ks) s t" "p s = (Ok x, t)" "fair t" "p_depth t + room \<le> MAX_PARSE_DEPTH" "ahead t = rest"
    by (rule readsE [OF assms(1) s])
  obtain u where "moved (length ([] :: token_kind list)) t u" "f x t = (Ok y, u)" by (rule readsE [OF assms(2) t(3,4)]) (use t(5) s(4) in auto)
  then show "\<exists>t. moved (length ks) s t \<and> recovering p f h s = (Ok y, t)"
    using moved_trans [OF t(1), of 0] t(2) by (auto simp: recovering_def)
qed

lemma argument_element:
  assumes "element room (d_expression D) e ks"
  shows "reads room (argument_round D args) ks (False, args @ [e]) (starts CHR '')'')"
    and "reads room (argument_round D args) (ks @ [Symbol (ch CHR '','')]) (True, args @ [e]) (\<lambda>rest. \<not> starts CHR '')'' rest)"
proof -
  have e: "reads room (recovering (d_expression D) (\<lambda>e. ret (args @ [e])) h) ks (args @ [e]) (follows 0)" for h
    by (rule reads_recovering [where x = e]) (use assms in \<open>simp_all add: element_def reads_ret\<close>)
  show "reads room (argument_round D args) ks (False, args @ [e]) (starts CHR '')'')" unfolding argument_round_def
    by (intro reads_result [where x = "args @ [e]"] reads_branch(2) reads_ret reads_behind [OF e])
      (auto simp: check_starts starts_def intro: starts_follows [of "CHR '')''"])
  show "reads room (argument_round D args) (ks @ [Symbol (ch CHR '','')]) (True, args @ [e]) (\<lambda>rest. \<not> starts CHR '')'' rest)"
    unfolding argument_round_def
    by (rule reads_attempt [OF e], intro reads_branch(1) reads_skip reads_branch(2) reads_ret)
      (auto simp: check_starts starts_def intro: starts_follows [of "CHR '',''"])
qed

lemma arguments_read:
  assumes "list_all2 (element room (d_expression D)) es kss" "es \<noteq> []" "reaches room q (argument_round D) ks args (\<lambda>rest. \<not> starts CHR '')'' rest)"
  shows "reads room q (ks @ commas kss) (args @ es) (starts CHR '')'')"
  using assms
proof (induction es kss arbitrary: ks args rule: list_all2_induct)
  case (Cons e es ls kss)
  show ?case
  proof (cases es)
    case Nil
    then have "kss = []" using Cons(2) by simp
    then show ?thesis using Nil reaches_reads [OF Cons(5) argument_element(1) [OF Cons(1)]] element_starts [OF Cons(1)] by simp
  next
    case (Cons e' es')
    then obtain ls' kss' where kss: "kss = ls' # kss'" "element room (d_expression D) e' ls'" using \<open>list_all2 _ es kss\<close> by (cases kss) auto
    have "reaches room q (argument_round D) (ks @ ls @ [Symbol (ch CHR '','')]) (args @ [e]) (\<lambda>rest. \<not> starts CHR '')'' rest)"
      by (rule reaches_step [OF \<open>reaches _ _ _ _ args _\<close> argument_element(2) [OF \<open>element _ _ e ls\<close>]])
        (use element_starts [OF \<open>element _ _ e ls\<close>] in auto)
    from Cons.IH [OF _ this] show ?thesis using Cons kss by simp
  qed
qed simp

lemma reads_arguments:
  assumes "list_all2 (element room (d_expression D)) es kss"
  shows "reads room (parse_arguments D) (Symbol (ch CHR ''('') # commas kss @ [Symbol (ch CHR '')'')]) es behind"
proof -
  have "reads room (unless_closed CHR '')'' (repeat (argument_round D) [])) (commas kss) es (starts CHR '')'')"
  proof (cases es)
    case Nil
    then show ?thesis using assms unfolding unless_closed_def by (intro reads_branch(1)) (auto simp: check_starts reads_ret)
  next
    case (Cons e es')
    then obtain ks kss' where "kss = ks # kss'" "element room (d_expression D) e ks" using assms by (cases kss) auto
    then show ?thesis using arguments_read [OF assms _ reaches_start, of "[]"] Cons element_starts [of room "d_expression D" e ks] unfolding unless_closed_def
      by (intro reads_branch(2)) (auto simp: check_starts commas_Cons)
  qed
  then show ?thesis unfolding arguments_round by (intro reads_skip reads_closed [where x = es]) (simp_all add: reads_ret)
qed

section \<open>Postfix forms\<close>

lemma postfix_step:
  assumes "grasps 13 h a ks" "ls = Symbol (ch c) # ls'" "c \<in> set ''([.?''" "c = CHR ''('' \<longrightarrow> \<not> is_field a"
    and "\<And>k. levels 13 h \<le> k \<Longrightarrow> reads (levels 13 h) (postfix_body (descent_at k) a) ls (True, e) (leaves 13 e)"
  shows "grasps 13 h e (ks @ ls)"
proof (rule graspsI)
  fix k assume k: "levels 13 h \<le> k"
  have "leaves 13 a (ls @ rest)" for rest using assms(2-4) by (auto simp: leaves_def follows_def binding_def str_def)
  then show "reaches (levels 13 h) (ladder 13 (descent_at k)) (loop_body 13 (descent_at k)) (ks @ ls) e (leaves 13 e)"
    using reaches_step [OF grasps_reaches [OF assms(1) _ k], of ls e "leaves 13 e"] assms(2) assms(5) [OF k] by (simp add: loop_body_def)
qed simp

lemma postfix_branch:
  "reads room (attempt (parse_arguments D) (\<lambda>args. ret (True, ECall a args))) (Symbol (ch CHR ''('') # ks) x behind \<Longrightarrow>
    reads room (postfix_body D a) (Symbol (ch CHR ''('') # ks) x behind"
  "reads room (attempt step (\<lambda>_. attempt (d_expression D) (\<lambda>index. attempt (consume_symbol CHR '']'') (\<lambda>_. ret (True, EIndex a index)))))
    (Symbol (ch CHR ''['') # ks) x behind \<Longrightarrow> reads room (postfix_body D a) (Symbol (ch CHR ''['') # ks) x behind"
  "reads room (attempt (parse_member D a) (\<lambda>e. ret (True, e))) (Symbol (ch CHR ''.'') # ks) x behind \<Longrightarrow>
    reads room (postfix_body D a) (Symbol (ch CHR ''.'') # ks) x behind"
  "reads room (attempt step (\<lambda>_. ret (True, ETry a))) (Symbol (ch CHR ''?'') # ks) x behind \<Longrightarrow>
    reads room (postfix_body D a) (Symbol (ch CHR ''?'') # ks) x behind"
proof -
  show "reads room (attempt (parse_arguments D) (\<lambda>args. ret (True, ECall a args))) (Symbol (ch CHR ''('') # ks) x behind \<Longrightarrow>
    reads room (postfix_body D a) (Symbol (ch CHR ''('') # ks) x behind"
    unfolding postfix_body_def by (rule reads_branch(1), simp add: at_front)
  show "reads room (attempt step (\<lambda>_. attempt (d_expression D) (\<lambda>index. attempt (consume_symbol CHR '']'') (\<lambda>_. ret (True, EIndex a index)))))
    (Symbol (ch CHR ''['') # ks) x behind \<Longrightarrow> reads room (postfix_body D a) (Symbol (ch CHR ''['') # ks) x behind"
    unfolding postfix_body_def by (rule reads_branch(2), simp add: at_front, rule reads_branch(1), simp add: at_front)
  show "reads room (attempt (parse_member D a) (\<lambda>e. ret (True, e))) (Symbol (ch CHR ''.'') # ks) x behind \<Longrightarrow>
    reads room (postfix_body D a) (Symbol (ch CHR ''.'') # ks) x behind"
    unfolding postfix_body_def by (rule reads_branch(2), simp add: at_front, rule reads_branch(2), simp add: at_front, rule reads_branch(1), simp add: at_front)
  show "reads room (attempt step (\<lambda>_. ret (True, ETry a))) (Symbol (ch CHR ''?'') # ks) x behind \<Longrightarrow>
    reads room (postfix_body D a) (Symbol (ch CHR ''?'') # ks) x behind"
    unfolding postfix_body_def
    by (rule reads_branch(2), simp add: at_front, rule reads_branch(2), simp add: at_front, rule reads_branch(2), simp add: at_front, rule reads_branch(1), simp add: at_front)
qed

text \<open>An expression in brackets, on the next level of the recursion.\<close>

lemma element_grasps:
  assumes "grasps 0 h e ks" "spells 0 h e ks" "levels 13 (Suc h) \<le> k"
  shows "element (levels 13 (Suc h)) (d_expression (descent_at k)) e ks"
proof -
  obtain i where i: "k = Suc i" "levels 0 h \<le> i" using assms(3) by (cases k) (auto simp: levels_def)
  have "reads (Suc (levels 0 h)) (d_expression (descent_at k)) ks e (follows 0)"
    unfolding i guarded_descent by (rule reads_guarded [OF grasps_reads [OF assms(1) i(2)]])
  moreover have "Suc (levels 0 h) = levels 13 (Suc h)" by (simp add: levels_def)
  ultimately show ?thesis using spells_opener [OF assms(2)] by (simp add: element_def)
qed

lemma elements_grasps:
  "list_all2 (\<lambda>e ks. spells 0 h e ks \<and> grasps 0 h e ks) es kss \<Longrightarrow> levels 13 (Suc h) \<le> k \<Longrightarrow>
    list_all2 (element (levels 13 (Suc h)) (d_expression (descent_at k))) es kss"
  by (erule list_all2_mono) (auto intro: element_grasps)

lemma levels_14: "levels 14 h = levels 13 h"
  by (simp add: levels_def)

lemma reads_member:
  assumes "reads room (branch (check_symbol CHR ''('') (attempt (parse_arguments D) (\<lambda>args. ret (EMethodCall a x args))) (ret (EField a x))) ks e behind"
  shows "reads room (attempt (parse_member D a) (\<lambda>e. ret (True, e))) (Symbol (ch CHR ''.'') # Identifier (str x) # ks) (True, e) behind"
proof -
  have "reads room (attempt consume_identifier (\<lambda>name. branch (check_symbol CHR ''('')
      (attempt (parse_arguments D) (\<lambda>args. ret (EMethodCall a name args))) (ret (EField a name)))) ([Identifier (str x)] @ ks) e behind"
    by (rule reads_attempt [OF reads_identifier]) (use assms in auto)
  then have "reads room (parse_member D a) (Symbol (ch CHR ''.'') # Identifier (str x) # ks) e behind" unfolding parse_member_def
    by (intro reads_skip reads_inspecting [where c = "Identifier (str x)"]) (auto simp: current_kind_ahead)
  then show ?thesis by (rule reads_result) (rule reads_ret)
qed

lemma reads_field:
  "reads room (attempt (parse_member D a) (\<lambda>e. ret (True, e))) [Symbol (ch CHR ''.''), Identifier (str x)] (True, EField a x) (leaves 13 (EField a x))"
  by (rule reads_member, rule reads_branch(2)) (auto simp: check_starts starts_def leaves_def reads_ret)

lemma reads_method_call:
  assumes "list_all2 (element room (d_expression D)) args kss"
  shows "reads room (attempt (parse_member D a) (\<lambda>e. ret (True, e)))
    (Symbol (ch CHR ''.'') # Identifier (str x) # Symbol (ch CHR ''('') # commas kss @ [Symbol (ch CHR '')'')]) (True, EMethodCall a x args) behind"
  by (rule reads_member, rule reads_branch(1), simp add: at_front, rule reads_result [OF reads_arguments [OF assms] reads_ret])

theorem spells_grasps: "spells n h e ks \<Longrightarrow> grasps n h e ks"
proof (induction rule: spells.induct)
  case (group h e ks)
  then show ?case by (intro grasps_primary reads_group) (auto simp: levels_14 intro: element_grasps)
next
  case (array h es kss)
  then show ?case by (intro grasps_primary reads_array) (simp add: levels_14 elements_grasps)
next
  case (tuple h es kss)
  then show ?case by (intro grasps_primary reads_tuple) (simp_all add: levels_14 elements_grasps)
next
  case (call h f ks args kss)
  show ?case
    by (rule postfix_step [OF call(3) refl], simp, use call(2) in simp, rule postfix_branch(1), rule reads_result [where x = args], rule reads_arguments)
      (use call(4) in \<open>simp_all add: elements_grasps reads_ret\<close>)
next
  case (method_call h a ks args kss x)
  show ?case
    by (rule postfix_step [OF method_call(2) refl], simp, simp, rule postfix_branch(3), rule reads_method_call) (use method_call(3) in \<open>simp add: elements_grasps\<close>)
next
  case (index h a ks i ls)
  show ?case
    by (rule postfix_step [OF index(3) refl], simp, simp, rule postfix_branch(2), rule reads_skip, simp, rule reads_closed [where x = i],
        rule element_closed [OF element_grasps [OF index(4,2)]], assumption, simp, rule reads_ret)
next
  case (field h a ks x)
  show ?case by (rule postfix_step [OF field(2) refl], simp, simp, rule postfix_branch(3), rule reads_field)
next
  case (question h a ks)
  show ?case by (rule postfix_step [OF question(2) refl], simp, simp, rule postfix_branch(4), rule reads_skip [OF _ reads_ret], simp)
next
  case (prefix h e ks operator c)
  then show ?case by (intro grasps_prefix)
next
  case (negation h e ks)
  then show ?case by (intro grasps_negation)
next
  case (binary n operator ts h l ks r ls)
  obtain k ls' where "ls = k # ls'" "opener (Suc n) k" using spells_opener [OF binary(3)] by blast
  then show ?case using binary grasps_binary [of n operator ts h l ks r ls] grasps_comparison [of h l ks r ls operator ts] by (auto split: if_splits)
next
  case (range h a ks b ls inclusive)
  then show ?case by (intro grasps_range)
next
  case (tighter n h e ks)
  obtain k ls where k: "ks = k # ls" "opener (Suc n) k" using spells_opener [OF tighter(1)] by blast
  have "n = 0 \<or> n = 3 \<or> n = 8 \<or> n = 12 \<or> loops n" using tighter(2) by simp arith
  then consider "loops n" | "n = 0" | "n = 3" | "n = 8" | "n = 12" by blast
  then show ?case using tighter(3) k grasps_tighter_loop [of n h e ks] grasps_tighter_0 [of h e ks] grasps_tighter_3 [of h e ks]
      grasps_tighter_8 [of h e ks] grasps_tighter_12 [of h e ks] by cases (auto simp del: insert_iff)
next
  case (bool h b)
  show ?case by (rule grasps_primary, rule reads_literal)
next
  case (unit h)
  show ?case by (rule grasps_primary, rule reads_unit)
qed (auto simp: reads_literal intro!: grasps_primary)

section \<open>Expressions are read as they are written\<close>

text \<open>C7: the parser reads every expression of the grammar as the grammar builds it. Where an expression e, written as the tokens ks with at most
  h forms inside each other, lies ahead, parse_expression answers e, has consumed exactly ks and has changed nothing else of the parser, the list of
  diagnostics included: the operators bind by their levels, group to the left, and none of the tokens is skipped. The forms are the ones of
  \<open>spells\<close>: literals, names, unary and binary operators, ranges, groups, tuples, arrays, calls, methods, fields, indexing and the question mark.
  Assumed are three levels of recursion for each form around another and three more, stack enough, an expression that is not broken over
  lines, no closing angle bracket directly in front of a colon or a brace, and behind the expression a token that does not continue it.\<close>

theorem expression_read_as_written:
  assumes "spells 0 h e ks" "ahead s = ks @ rest" "binding rest = None" "fair s" "p_depth s + 3 * h + 3 \<le> MAX_PARSE_DEPTH"
  shows "\<exists>m. parse_expression s = (Ok e, s\<lparr>p_position := p_position s + length ks, p_measured := m\<rparr>)"
proof -
  have "reads (Suc (levels 0 h)) (d_expression (descent_at (Suc (MAX_PARSE_DEPTH - 1)))) ks e (follows 0)" unfolding guarded_descent
    by (rule reads_guarded [OF grasps_reads [OF spells_grasps [OF assms(1)]]]) (use assms(5) in \<open>simp add: levels_def MAX_PARSE_DEPTH_def\<close>)
  moreover have "Suc (MAX_PARSE_DEPTH - 1) = MAX_PARSE_DEPTH" by (simp add: MAX_PARSE_DEPTH_def)
  ultimately obtain t where "moved (length ks) s t" "parse_expression s = (Ok e, t)"
    unfolding parse_expression_def using assms by (elim readsE [where s = s and rest = rest]) (auto simp: levels_def follows_def)
  then show ?thesis by (auto simp: moved_def)
qed

text \<open>The tokens of \<open>a + 2 * f(x, b) - -y\<close>, and a parser in front of them.\<close>

definition on_one_line :: "token_kind list \<Rightarrow> parser" where
  "on_one_line ks = new_parser (\<lambda>_. False) (map (\<lambda>k. new_token k (new_span 0 0 (new_location 1 1) (new_location 1 2))) ks)"

definition sum_tokens :: "string \<Rightarrow> string \<Rightarrow> string \<Rightarrow> string \<Rightarrow> string \<Rightarrow> string \<Rightarrow> token_kind list" where
  "sum_tokens a two f x b y = [Identifier (str a), Symbol (ch CHR ''+''), Number (str two), Symbol (ch CHR ''*''), Identifier (str f),
     Symbol (ch CHR ''(''), Identifier (str x), Symbol (ch CHR '',''), Identifier (str b), Symbol (ch CHR '')''), Symbol (ch CHR ''-''),
     Symbol (ch CHR ''-''), Identifier (str y)]"

definition sum_expression :: "string \<Rightarrow> string \<Rightarrow> string \<Rightarrow> string \<Rightarrow> string \<Rightarrow> string \<Rightarrow> expr" where
  "sum_expression a two f x b y = EBinary (EBinary (EIdentifier a) Add
     (EBinary (ENumber (str two)) Multiply (ECall (EIdentifier f) [EIdentifier x, EIdentifier b]))) Subtract (EUnary Negate (EIdentifier y))"

lemma spells_looser: "spells n h e ks \<Longrightarrow> m \<le> n \<Longrightarrow> n \<le> 14 \<Longrightarrow> spells m h e ks"
proof (induction "n - m" arbitrary: m)
  case (Suc d)
  then have "spells (Suc m) h e ks" by simp
  then show ?case using Suc by (auto intro: tighter)
qed simp

lemma sum_spelled: "spells 0 1 (sum_expression a two f x b y) (sum_tokens a two f x b y)"
proof -
  have name: "spells n h (EIdentifier z) [Identifier (str z)]" if "n \<le> 14" for n h z
    using that by (auto intro: spells_looser spells.name)
  have "spells 13 (Suc 0) (ECall (EIdentifier f) [EIdentifier x, EIdentifier b])
      ([Identifier (str f)] @ Symbol (ch CHR ''('') # commas [[Identifier (str x)], [Identifier (str b)]] @ [Symbol (ch CHR '')'')])"
    by (rule spells.call) (use name in auto)
  then have "spells 12 1 (ECall (EIdentifier f) [EIdentifier x, EIdentifier b])
      ([Identifier (str f)] @ Symbol (ch CHR ''('') # commas [[Identifier (str x)], [Identifier (str b)]] @ [Symbol (ch CHR '')'')])"
    by (auto intro: spells_looser)
  moreover have "spells 11 1 (ENumber (str two)) [Number (str two)]" by (auto intro: spells_looser spells.number)
  ultimately have product: "spells 11 1 (EBinary (ENumber (str two)) Multiply (ECall (EIdentifier f) [EIdentifier x, EIdentifier b]))
      ([Number (str two)] @ [Symbol (ch CHR ''*'')] @ [Identifier (str f)] @ Symbol (ch CHR ''('') #
        commas [[Identifier (str x)], [Identifier (str b)]] @ [Symbol (ch CHR '')'')])"
    by (intro spells.binary) (auto simp: operators_def)
  have "spells 10 1 (EBinary (EIdentifier a) Add (EBinary (ENumber (str two)) Multiply (ECall (EIdentifier f) [EIdentifier x, EIdentifier b])))
      ([Identifier (str a)] @ [Symbol (ch CHR ''+'')] @ [Number (str two)] @ [Symbol (ch CHR ''*'')] @ [Identifier (str f)] @ Symbol (ch CHR ''('') #
        commas [[Identifier (str x)], [Identifier (str b)]] @ [Symbol (ch CHR '')'')])"
    by (rule spells.binary) (use name product in \<open>auto simp: operators_def\<close>)
  moreover have "spells 12 (Suc 0) (EUnary Negate (EIdentifier y)) [Symbol (ch CHR ''-''), Identifier (str y)]"
    by (rule spells.prefix) (use name in auto)
  then have "spells 11 1 (EUnary Negate (EIdentifier y)) [Symbol (ch CHR ''-''), Identifier (str y)]" by (auto intro: spells_looser)
  ultimately have "spells 10 1 (sum_expression a two f x b y) (([Identifier (str a)] @ [Symbol (ch CHR ''+'')] @ [Number (str two)] @
      [Symbol (ch CHR ''*'')] @ [Identifier (str f)] @ Symbol (ch CHR ''('') # commas [[Identifier (str x)], [Identifier (str b)]] @
      [Symbol (ch CHR '')'')]) @ [Symbol (ch CHR ''-'')] @ [Symbol (ch CHR ''-''), Identifier (str y)])"
    unfolding sum_expression_def by - (rule spells.binary, auto simp: operators_def)
  then have "spells 10 1 (sum_expression a two f x b y) (sum_tokens a two f x b y)" by (simp add: sum_tokens_def)
  then show ?thesis by (rule spells_looser) simp_all
qed

theorem expression_read_as_written_witness:
  "\<exists>m. parse_expression (on_one_line (sum_tokens ''a'' ''2'' ''f'' ''x'' ''b'' ''y'' @ [EndOfFile])) =
     (Ok (EBinary (EBinary (EIdentifier ''a'') Add
            (EBinary (ENumber (str ''2'')) Multiply (ECall (EIdentifier ''f'') [EIdentifier ''x'', EIdentifier ''b''])))
          Subtract (EUnary Negate (EIdentifier ''y''))),
      (on_one_line (sum_tokens ''a'' ''2'' ''f'' ''x'' ''b'' ''y'' @ [EndOfFile]))\<lparr>p_position := 13, p_measured := m\<rparr>)"
proof -
  let ?ks = "sum_tokens ''a'' ''2'' ''f'' ''x'' ''b'' ''y''" and ?e = "sum_expression ''a'' ''2'' ''f'' ''x'' ''b'' ''y''"
  let ?s = "on_one_line (?ks @ [EndOfFile])"
  have kinds: "ahead ?s = ?ks @ [EndOfFile]" by (simp add: ahead_def on_one_line_def new_parser_def new_token_def comp_def)
  then have "fair ?s" unfolding fair_def kinds
    by (simp add: on_one_line_def new_parser_def one_line_def sum_tokens_def new_token_def new_span_def new_location_def str_def)
  moreover have "p_depth ?s = 0" "p_position ?s = 0" "length ?ks = 13" by (simp_all add: on_one_line_def new_parser_def sum_tokens_def)
  moreover have "binding [EndOfFile] = None" by (simp add: binding_def)
  ultimately have "\<exists>m. parse_expression ?s = (Ok ?e, ?s\<lparr>p_position := 13, p_measured := m\<rparr>)"
    using expression_read_as_written [OF sum_spelled kinds] by (simp add: MAX_PARSE_DEPTH_def)
  then show ?thesis unfolding sum_expression_def .
qed

section \<open>A brace behind a name\<close>

text \<open>The grammar keeps a name away from a brace: a block that holds nothing, or a name alone, is taken for the fields of a struct. So
  \<open>if flag { value }\<close> has no condition \<open>flag\<close>.\<close>

lemma kind_at_ahead: "kind_at s (p_position s + i) = (if i < length (ahead s) then Some (ahead s ! i) else None)"
  by (auto simp: kind_at_def token_at_def ahead_def)

lemma block_taken_for_fields:
  assumes "ahead s = Symbol (ch CHR ''{'') # body @ Symbol (ch CHR ''}'') # rest" "body = [] \<or> (\<exists>v. body = [Identifier v])"
  shows "check_symbol CHR ''{'' s \<and> is_struct_literal s"
  using assms unfolding is_struct_literal_def kind_at_ahead by (auto simp: check_symbol_def current_kind_ahead)

end
