(* ===== verification/Spec2Isabelle.thy ===== *)
theory Spec2Isabelle
  imports Pipeline Tail_Calls Callgraph Layout Lexer_Correct Builder Handle_Store Manual_Memory
    Routing_Correct Handshake_Correct Exhaustiveness_Answers Expression_Grammar
begin

text \<open>
  A verification library for the SpectraLang compiler, its runtime and the protocol core of its API package.

  \<^bold>\<open>The program.\<close> A source file goes through the lexer and parser (\<open>src/compiler\<close>), semantic analysis, and
  the lowering of the AST to an SSA intermediate representation (\<open>src/midend\<close>), which is written through the
  IR builder. The driver (\<open>src/tools/spectra-cli/src/compiler_integration_core.rs\<close>) verifies the IR, runs
  the optimisation passes of the chosen level, validates loops, verifies again and hands the module to the
  Cranelift code generator (\<open>src/backend\<close>). The generated code calls the runtime (\<open>src/runtime\<close>), whose
  objects are reached through generational handles and whose manual heap is shared between threads.
  Programs serve HTTP and WebSocket clients through the package \<open>spectra-api\<close>: a connection is read by the
  HTTP/1.1 parser, its request is dispatched by the router, and an upgrade hands the connection to the
  WebSocket code.
  The library models the lexer, the parser, the exhaustiveness check of the semantic analysis, the whole middle end
  between lowering and code generation, what the code generator emits for scalar instructions and control flow, the driver's passes, handles, the manual heap, the
  router, HTTP/1.1 messages and WebSocket.

  \<^bold>\<open>Theories and sources.\<close>
  \<^item> \<open>Prelude\<close>: Rust integers (\<open>i64\<close> and narrower as words or as integers with their range, \<open>usize\<close> as \<open>nat\<close>),
    checked operations, vector operations that panic out of range (\<open>None\<close>), the locale of loops that run to
    a fixed point, lemma collections.
  \<^item> \<open>IR\<close> is \<open>midend/src/ir.rs\<close>: one datatype per section of the instruction enum, records for blocks, functions
    and modules, and the methods of their impls. \<open>Builder\<close> is \<open>midend/src/builder.rs\<close>.
  \<^item> \<open>Operands\<close>, \<open>Cfg\<close>, \<open>Value_Types\<close>, \<open>Verifier\<close> are \<open>midend/src/passes/verification.rs\<close>: the results and operands
    of an instruction, reachability and dominators, the inferred types, and every check of
    \<open>verify_module\<close>; a diagnostic is a constructor with the data its message prints.
  \<^item> \<open>Constant_Folding\<close>, \<open>Dead_Code\<close>, \<open>Inlining\<close>, \<open>Tail_Calls\<close> are the passes of the same names in
    \<open>midend/src/passes\<close>; \<open>Components\<close> and \<open>Loop_Validation\<close> are \<open>validation.rs\<close> there. \<open>Layout\<close> is
    \<open>midend/src/layout.rs\<close> and \<open>Callgraph\<close> is \<open>midend/src/callgraph.rs\<close>.
  \<^item> \<open>Machine\<close> says what the code emitted by \<open>backend/src/codegen*.rs\<close> computes: the arithmetic, comparison,
    logical and constant instructions, copies, phis as block arguments and terminators. Cranelift's
    instructions and the effect of memory, call, host and coroutine instructions are a record of functions;
    \<open>cranelift_ok\<close> states what Cranelift documents of the integer instructions, and \<open>inert_machine\<close> is an
    instance of it.
  \<^item> \<open>Pipeline\<close> is the part of \<open>run\<close> in the driver from the first pass to the second verification.
  \<^item> \<open>Lexer\<close> is \<open>compiler/src/lexer/mod.rs\<close> with \<open>token.rs\<close> and \<open>span.rs\<close>.
  \<^item> \<open>Syntax_Tree\<close> is the syntax tree of \<open>compiler/src/ast/mod.rs\<close>, and \<open>Parser_Core\<close>, \<open>Parser_Expressions\<close> and
    \<open>Parser_Items\<close> are \<open>compiler/src/parser\<close>: the state with its navigation, recovery and guards; types, patterns, expressions,
    interpolated strings, statements and blocks; items, imports and the module. A parser of a construct maps the state to a result
    and the next state, and a diagnostic is its code.
  \<^item> \<open>Type_Context\<close> is the types and annotations of \<open>compiler/src/ast/mod.rs\<close> and the part of
    \<open>semantic/semantic_type_system.rs\<close> that resolves annotations and finds the declaration behind a type;
    \<open>Exhaustiveness\<close> is \<open>semantic/semantic_exhaustiveness.rs\<close> with \<open>normalize_bare_enum_pattern\<close>.
  \<^item> \<open>Handles\<close> and \<open>Handle_Store\<close> are \<open>runtime/src/handles/mod.rs\<close>; \<open>Manual_Memory\<close> is
    \<open>runtime/src/memory/mod.rs\<close>.
  \<^item> \<open>Rust_Text\<close> is what the API package uses of Rust's \<open>char\<close>, \<open>str\<close> and number parsing: a text is its code points, with
    UTF-8 in both directions.
  \<^item> \<open>Routing\<close> is \<open>packages/spectra-api/src/routing.rs\<close>: patterns, the trie, its conflict check and lookup.
  \<^item> \<open>Http_Message\<close> is \<open>http_types.rs\<close> (the parser) and \<open>http_parser.rs\<close>, with the loop of
    \<open>serve_http11_over_tls\<close> in \<open>http2.rs\<close> that reads a request; a panic, of an index, an \<open>unreachable\<close> or an addition that overflows, is \<open>None\<close>.
  \<^item> \<open>Websocket\<close> is the frame, message and connection part of \<open>websocket.rs\<close> with the pump of the TLS gateway, and
    \<open>Websocket_Handshake\<close> its opening handshake, URLs, base64 and settings. The stream is the list of the
    results its reads will give and of the results of its writes; the DEFLATE coder, the digest and the random
    keys are parameters.

  \<^bold>\<open>What the lemmas show.\<close>
  \<^item> \<open>Verifier_Correct\<close>: the generated code of an accepted function is never stuck (a function with coroutine reloads, a
    phi in its entry block or an untyped float literal is left out, and an accepted entry phi that gets stuck is proved), accepted functions are
    in single assignment form, the verifier always answers, and its machine classes are those of the
    backend. \<open>Cfg\<close> proves the dominator iteration exact on the paths of the graph, which carries the former.
  \<^item> \<open>Folding_Correct\<close>, \<open>Dead_Code_Correct\<close>: both passes reach a fixed point and keep what the generated code
    does. \<open>Inlining_Correct\<close>: inlining ends without a panic and keeps the numbering, unless the inlined
    function has a bit operation, for which the instance that goes wrong is proved.
  \<^item> \<open>Loop_Validation\<close>: the iterative search returns exactly the strongly connected components, and every
    block of an accepted function can reach an exit or a loop written as endless.
  \<^item> \<open>Pipeline\<close> composes them: the passes end at every level, what they accept is safe to run, and at level
    one they keep what a verified module computes.
  \<^item> \<open>Lexer_Correct\<close>: tokens tile the source with exact positions, and printed tokens are read back.
    \<open>Builder\<close>: what is written is numbered single assignment code.
  \<^item> \<open>Parser_Correct\<close>: every parser keeps a contract (the position and the diagnostics only grow, a failure leaves a
    diagnostic, the guards balance), proved once per construct in the locale \<open>tame_descent\<close> and interpreted at each level of the
    recursion. So the parser always answers, and a module it accepts was read item by item to the end of its tokens, without recovery. The
    sources it misreads are proved as instances. \<open>Expression_Grammar\<close> has the grammar of operator expressions as an inductive
    predicate with the levels of precedence, and shows by rule induction that the ladder of the parser reads each of its expressions as it is built.
  \<^item> \<open>Exhaustiveness_Correct\<close>: a match the check accepts has an arm for every value of the type of its scrutinee.
    \<open>Exhaustiveness_Answers\<close>: the check ends where the aliases are not circular; a circular alias has no type, and a plain
    enum inside a payload is never expanded.
  \<^item> \<open>Handle_Store\<close>: through the locale \<open>refining_store\<close> a table is a map from live handles to values, every error included, up to
    the wrap of the 16-bit generation, which is located exactly, and to a value put under a handle before that is issued. \<open>Manual_Memory\<close>: the three atomics account for
    every box and every call in flight under all interleavings, each call can end by the steps of its own thread, and the resident counter at
    the limit \<open>usize::MAX\<close>, where a reservation saturates, is the one exception.
  \<^item> \<open>Routing_Correct\<close>: lookup finds exactly the route whose pattern matches, with its bindings; the parameter edge that
    two patterns share under different names or constraints, and a name twice in a pattern, are the exceptions.
  \<^item> \<open>Http_Correct\<close>: the parser answers unless the limits admit a chunk whose end overflows, and what it reads does not depend on how the stream is cut.
    \<open>Http_Roundtrip\<close>: printed messages are parsed back; a message without headers is the exception.
  \<^item> \<open>Websocket_Correct\<close>: what one side sends the other receives, in any fragments and any cut of the stream, within
    the limits; the closing handshake; the asynchronous reader agrees with the synchronous one.
    \<open>Handshake_Correct\<close>, with \<open>Base64_Correct\<close>, composes the HTTP parser and the WebSocket code: client and server agree on
    the connection they open; and a server's settings stay in range.
  \<^item> \<open>Tail_Calls\<close>, \<open>Layout\<close>, \<open>Callgraph\<close>: exactness of the marking, of offsets and of the queries.

  \<^bold>\<open>Bounds and fuel.\<close> The number in \<open>run_function\<close> counts blocks executed; every theorem about runs
  holds for all numbers, so it bounds nothing. The loops of folding, dead code elimination, inlining inside a
  function, dominators, value types, reachability, component search and scanning are total functions with their
  termination proved. The number in \<open>type_annotation_to_type\<close> is how many aliases may be expanded on the way, and \<open>None\<close> is a
  stack that overflows: any number above the ranks of the aliases is enough. A loop of the parser gets one round more than there are tokens left,
  and the recursion as many levels as the guard admits, \<open>MAX_PARSE_DEPTH\<close>; running out is the result \<open>Out\<close>, which is proved never to
  happen. How much stack a guard measures is an arbitrary function. \<open>inline_rounds\<close> takes the source's four rounds and \<open>o3_rounds\<close> the source's three. A
  \<open>usize\<close> is a natural number: \<open>Layout\<close> bounds the results below \<open>2 ^ 64\<close>, the sum of a cursor and the chunk size of a peer is checked for overflow in
  \<open>Http_Message\<close>, and handle slots, generations and
  the counters of the manual heap, where wrapping or saturation matters, keep their width. Hash maps whose
  iteration order cannot be observed are association lists or functions.

  \<^bold>\<open>Not modelled.\<close> The rest of the semantic analysis, lints and AST lowering (the parser and the
  builder are the two ends of that stretch); the spans of the syntax tree, the parser's table of trait signatures and its module cache; asynchronous lowering, automatic differentiation and the tensor graph; code generation
  of memory, calls, host functions, coroutines and dynamic dispatch, which is the effect parameter of
  \<open>Machine\<close>; object files and debug information, which drive third-party writers; the runtime's standard
  library, reactor, GPU and tracing; of \<open>spectra-api\<close> the host functions over global stores, the clients and
  servers that drive sockets and threads, HTTP/2, JSON, the middleware and the cryptographic parts; the
  packages \<open>spectra-db\<close> and \<open>spectra-contract\<close>; the command line and editor tools around the driver. Timings,
  printed text, hint texts of the lexer's diagnostics and most \<open>Display\<close> implementations are left out throughout.
\<close>

end
